(* ===== verification/LockDoc_Prelude.thy ===== *)
theory LockDoc_Prelude
  imports Main "HOL-Library.Word"
begin

text \<open>
  Shared material of the development: the machine types of the sources, results with errors,
  the ordered map that stands for \<^verbatim>\<open>std::map\<close>, decimal printing and parsing, the field
  splitting done by \<^verbatim>\<open>getline\<close>, and the lemma collections the component proofs use.
\<close>

section \<open>Machine types\<close>

text \<open>
  The sources use \<^verbatim>\<open>unsigned long long\<close> (64 bit), \<^verbatim>\<open>unsigned\<close> (32 bit) and the
  signed \<^verbatim>\<open>int\<close> and \<^verbatim>\<open>long\<close>. Unsigned values are words of their width; a signed value is
  an \<open>int\<close>, and every conversion from a wider unsigned value is written out.
\<close>

type_synonym u64 = "64 word"
type_synonym u32 = "32 word"
type_synonym u16 = "16 word"

definition int_of_ull :: "u64 \<Rightarrow> int" where
  \<comment> \<open>conversion of an \<open>unsigned long long\<close> to a 32-bit \<open>int\<close>: the low 32 bits, two's complement\<close>
  "int_of_ull x = sint (ucast x :: u32)"

definition long_of_ull :: "u64 \<Rightarrow> int" where
  \<comment> \<open>conversion of an \<open>unsigned long\<close> to a 64-bit \<open>long\<close>\<close>
  "long_of_ull x = sint x"

definition ull_of_int :: "int \<Rightarrow> u64" where
  \<comment> \<open>conversion of a signed value to \<open>unsigned long long\<close> in a mixed expression\<close>
  "ull_of_int i = word_of_int i"

section \<open>Results\<close>

datatype cxx_error =
    LogicError string
  | InvalidArgument string
  | OutOfRange string
  | ExitFailure int
  | UndefinedBehaviour string
  | Aborted string   \<comment> \<open>a failed \<open>assert\<close>\<close>

type_synonym 'a res = "cxx_error + 'a"

fun bindE :: "'e + 'a \<Rightarrow> ('a \<Rightarrow> 'e + 'b) \<Rightarrow> 'e + 'b" where
  "bindE (Inl e) f = Inl e"
| "bindE (Inr x) f = f x"

named_theorems res_simps \<open>how results split\<close>
named_theorems omap_simps \<open>what reads of an ordered map return after writes\<close>

lemma bindE_Inr_iff [res_simps]:
  "bindE m f = Inr y \<longleftrightarrow> (\<exists>x. m = Inr x \<and> f x = Inr y)"
  by (cases m) auto

lemma bindE_Inl_iff [res_simps]:
  "bindE m f = Inl e \<longleftrightarrow> m = Inl e \<or> (\<exists>x. m = Inr x \<and> f x = Inl e)"
  by (cases m) auto

lemma bindE_assoc: "bindE (bindE m f) g = bindE m (\<lambda>x. bindE (f x) g)"
  by (cases m) auto

lemma bindE_cong [fundef_cong]:
  "m = m' \<Longrightarrow> (\<And>x. m' = Inr x \<Longrightarrow> f x = f' x) \<Longrightarrow> bindE m f = bindE m' f'"
  by (cases m') auto

section \<open>Ordered maps\<close>

text \<open>
  A \<^verbatim>\<open>std::map\<close> is the list of its entries in the order its iterators visit them. The
  interface the clients rely on is the locale \<open>ordered_map\<close> below, interpreted on these
  definitions.
\<close>

type_synonym ('k, 'v) omap = "('k \<times> 'v) list"

abbreviation omap_lookup :: "('k, 'v) omap \<Rightarrow> 'k \<Rightarrow> 'v option" where
  "omap_lookup m \<equiv> map_of m"

fun omap_update :: "'k::linorder \<Rightarrow> 'v \<Rightarrow> ('k, 'v) omap \<Rightarrow> ('k, 'v) omap" where
  "omap_update k v [] = [(k, v)]"
| "omap_update k v ((k', v') # m) =
     (if k < k' then (k, v) # (k', v') # m
      else if k = k' then (k, v) # m
      else (k', v') # omap_update k v m)"

definition omap_delete :: "'k \<Rightarrow> ('k, 'v) omap \<Rightarrow> ('k, 'v) omap" where
  "omap_delete k m = filter (\<lambda>e. fst e \<noteq> k) m"

definition omap_keys :: "('k, 'v) omap \<Rightarrow> 'k list" where
  "omap_keys m = map fst m"

definition omap_ok :: "('k::linorder, 'v) omap \<Rightarrow> bool" where
  "omap_ok m \<longleftrightarrow> sorted_wrt (<) (omap_keys m)"

lemma map_of_filter_fst: "map_of (filter (\<lambda>e. P (fst e)) m) k = (if P k then map_of m k else None)"
  by (induction m) auto

lemma omap_lookup_update [omap_simps]:
  "omap_lookup (omap_update k v m) = (omap_lookup m)(k \<mapsto> v)"
  by (induction m) (auto simp: fun_eq_iff)

lemma omap_lookup_delete [omap_simps]:
  "omap_lookup (omap_delete k m) = (omap_lookup m)(k := None)"
  using map_of_filter_fst[of "\<lambda>x. x \<noteq> k" m] by (auto simp: omap_delete_def fun_eq_iff)

lemma omap_keys_simps [simp]:
  "omap_keys [] = []"
  "omap_keys ((k, v) # m) = k # omap_keys m"
  by (simp_all add: omap_keys_def)

lemma set_omap_keys_update [omap_simps]:
  "set (omap_keys (omap_update k v m)) = insert k (set (omap_keys m))"
proof (induction m)
  case (Cons e m)
  then show ?case by (cases e) auto
qed simp

lemma set_omap_update_subset: "set (omap_update k v m) \<subseteq> insert (k, v) (set m)"
  by (induction m) (auto split: if_splits)

lemma omap_ok_Nil [simp]: "omap_ok []"
  by (simp add: omap_ok_def)

lemma omap_ok_Cons: "omap_ok ((k, v) # m) \<longleftrightarrow> (\<forall>k' \<in> set (omap_keys m). k < k') \<and> omap_ok m"
  by (simp add: omap_ok_def)

lemma omap_ok_update: "omap_ok m \<Longrightarrow> omap_ok (omap_update k v m)"
proof (induction m)
  case Nil
  then show ?case by (simp add: omap_ok_Cons)
next
  case (Cons e m)
  obtain k' v' where e: "e = (k', v')" by (cases e)
  consider "k < k'" | "k = k'" | "k' < k" by (rule linorder_cases)
  then show ?case
    using Cons by cases (auto simp: e omap_ok_Cons omap_simps)
qed

lemma omap_ok_delete: "omap_ok m \<Longrightarrow> omap_ok (omap_delete k m)"
  by (simp add: omap_ok_def omap_delete_def omap_keys_def sorted_wrt_map sorted_wrt_filter)

lemma omap_ok_distinct: "omap_ok m \<Longrightarrow> distinct (omap_keys m)"
  by (simp add: omap_ok_def strict_sorted_iff)

locale ordered_map =
  fixes lookup :: "'m \<Rightarrow> 'k::linorder \<Rightarrow> 'v option"
    and update :: "'k \<Rightarrow> 'v \<Rightarrow> 'm \<Rightarrow> 'm"
    and delete :: "'k \<Rightarrow> 'm \<Rightarrow> 'm"
    and entries :: "'m \<Rightarrow> ('k \<times> 'v) list"
    and ok :: "'m \<Rightarrow> bool"
  assumes lookup_update: "lookup (update k v m) = (lookup m)(k \<mapsto> v)"
    and lookup_delete: "lookup (delete k m) = (lookup m)(k := None)"
    and lookup_entries: "lookup m = map_of (entries m)"
    and ok_sorted: "ok m \<Longrightarrow> sorted_wrt (<) (map fst (entries m))"
    and ok_update: "ok m \<Longrightarrow> ok (update k v m)"
    and ok_delete: "ok m \<Longrightarrow> ok (delete k m)"
begin

lemma lookup_update_same: "lookup (update k v m) k = Some v"
  by (simp add: lookup_update)

lemma lookup_update_other: "k \<noteq> k' \<Longrightarrow> lookup (update k v m) k' = lookup m k'"
  by (simp add: lookup_update)

lemma dom_update: "dom (lookup (update k v m)) = insert k (dom (lookup m))"
  by (simp add: lookup_update)

lemma entries_lookup: "ok m \<Longrightarrow> (k, v) \<in> set (entries m) \<longleftrightarrow> lookup m k = Some v"
  using ok_sorted[of m] by (simp add: lookup_entries strict_sorted_iff map_of_eq_Some_iff)

end

interpretation om: ordered_map omap_lookup omap_update omap_delete "\<lambda>m. m" omap_ok
proof unfold_locales
  show "sorted_wrt (<) (map fst m)" if "omap_ok m" for m :: "('a, 'b) omap"
    using that by (simp add: omap_ok_def omap_keys_def)
qed (simp_all add: omap_simps omap_ok_update omap_ok_delete)

section \<open>Lists\<close>

fun remove_first :: "('a \<Rightarrow> bool) \<Rightarrow> 'a list \<Rightarrow> 'a list" where
  "remove_first P [] = []"
| "remove_first P (x # xs) = (if P x then xs else x # remove_first P xs)"

lemma remove_first_eq_id: "\<not> (\<exists>x \<in> set xs. P x) \<Longrightarrow> remove_first P xs = xs"
  by (induction xs) auto

lemma map_remove_first:
  "map f (remove_first (\<lambda>x. f x = y) xs) = remove1 y (map f xs)"
  by (induction xs) auto

lemma takeWhile_dropWhile_remove_first:
  "remove_first P xs = takeWhile (\<lambda>x. \<not> P x) xs @ tl (dropWhile (\<lambda>x. \<not> P x) xs)"
  by (induction xs) auto

section \<open>Fields of a line\<close>

text \<open>
  The loop \<^verbatim>\<open>while (getline(ss, token, d)) v.push_back(token)\<close> cuts a line at every delimiter;
  a line that ends with a delimiter, and an empty line, yield no last empty field.
\<close>

fun getline_fields :: "char \<Rightarrow> string \<Rightarrow> string \<Rightarrow> string list" where
  "getline_fields d acc [] = (if acc = [] then [] else [rev acc])"
| "getline_fields d acc (c # cs) =
     (if c = d then rev acc # getline_fields d [] cs else getline_fields d (c # acc) cs)"

abbreviation split_fields :: "char \<Rightarrow> string \<Rightarrow> string list" where
  "split_fields d s \<equiv> getline_fields d [] s"

fun join_fields :: "char \<Rightarrow> string list \<Rightarrow> string" where
  "join_fields d [] = []"
| "join_fields d [f] = f"
| "join_fields d (f # g # fs) = f @ d # join_fields d (g # fs)"

lemma getline_fields_app:
  "d \<notin> set f \<Longrightarrow> getline_fields d acc (f @ d # cs) = (rev acc @ f) # getline_fields d [] cs"
  by (induction f arbitrary: acc) auto

lemma getline_fields_last:
  "d \<notin> set f \<Longrightarrow> rev acc @ f \<noteq> [] \<Longrightarrow> getline_fields d acc f = [rev acc @ f]"
  by (induction f arbitrary: acc) auto

lemma split_join_fields:
  "\<forall>f \<in> set fs. d \<notin> set f \<Longrightarrow> fs \<noteq> [] \<Longrightarrow> last fs \<noteq> [] \<Longrightarrow> split_fields d (join_fields d fs) = fs"
  by (induction d fs rule: join_fields.induct) (auto simp: getline_fields_app getline_fields_last)

text \<open>\<^verbatim>\<open>std::string::find\<close>: the first position at which a string occurs.\<close>

fun str_find :: "string \<Rightarrow> string \<Rightarrow> nat option" where
  "str_find pat [] = (if pat = [] then Some 0 else None)"
| "str_find pat (c # cs) =
     (if take (length pat) (c # cs) = pat then Some 0 else map_option Suc (str_find pat cs))"

lemma str_find_Some:
  "str_find pat s = Some i \<Longrightarrow> take (length pat) (drop i s) = pat \<and> i + length pat \<le> length s"
proof (induction pat s arbitrary: i rule: str_find.induct)
  case (2 pat c cs)
  show ?case
  proof (cases "take (length pat) (c # cs) = pat")
    case True
    with 2 show ?thesis by (auto dest: arg_cong[where f = length])
  next
    case False
    with 2 show ?thesis by auto
  qed
qed (simp split: if_splits)

section \<open>Decimal numbers\<close>

fun digit_char :: "nat \<Rightarrow> char" where
  "digit_char n = char_of (48 + n)"

fun dec_of_nat :: "nat \<Rightarrow> string" where
  "dec_of_nat n = (if n < 10 then [digit_char n] else dec_of_nat (n div 10) @ [digit_char (n mod 10)])"

declare dec_of_nat.simps [simp del]

definition dec_of_int :: "int \<Rightarrow> string" where
  "dec_of_int i = (if i < 0 then CHR ''-'' # dec_of_nat (nat (- i)) else dec_of_nat (nat i))"

definition is_digit :: "char \<Rightarrow> bool" where
  "is_digit c \<longleftrightarrow> 48 \<le> (of_char c :: nat) \<and> (of_char c :: nat) \<le> 57"

definition digit_val :: "char \<Rightarrow> nat" where
  "digit_val c = of_char c - 48"

definition nat_of_dec :: "string \<Rightarrow> nat" where
  "nat_of_dec s = foldl (\<lambda>a c. 10 * a + digit_val c) 0 s"

lemma of_char_digit_char [simp]: "n < 10 \<Longrightarrow> (of_char (digit_char n) :: nat) = 48 + n"
  by (simp add: of_char_of)

lemma digit_char_props [simp]:
  assumes "n < 10"
  shows "is_digit (digit_char n)" and "digit_val (digit_char n) = n"
  using assms by (simp_all add: is_digit_def digit_val_def of_char_of del: digit_char.simps)

lemma dec_of_nat_nonempty [simp]: "dec_of_nat n \<noteq> []"
  by (subst dec_of_nat.simps) simp

lemma dec_of_nat_digits: "\<forall>c \<in> set (dec_of_nat n). is_digit c"
proof (induction n rule: dec_of_nat.induct)
  case (1 n)
  then show ?case
    by (cases "n < 10") (auto simp: dec_of_nat.simps[of n] simp del: digit_char.simps)
qed

lemma nat_of_dec_of_nat [simp]: "nat_of_dec (dec_of_nat n) = n"
proof (induction n rule: dec_of_nat.induct)
  case (1 n)
  show ?case
  proof (cases "n < 10")
    case True
    then show ?thesis
      by (simp add: nat_of_dec_def dec_of_nat.simps[of n] del: digit_char.simps)
  next
    case False
    then have "nat_of_dec (dec_of_nat (n div 10)) = n div 10" by (rule 1)
    with False show ?thesis
      by (simp add: nat_of_dec_def dec_of_nat.simps[of n] del: digit_char.simps)
  qed
qed

lemma dec_of_nat_inject: "dec_of_nat m = dec_of_nat n \<longleftrightarrow> m = n"
  by (metis nat_of_dec_of_nat)

end
