(* ===== verification/Lock_Types.thy ===== *)
theory Lock_Types
  imports LockDoc_Prelude
begin

text \<open>
  The lock events and the lock objects of \<^verbatim>\<open>convert\<close>: the constants of
  \<^verbatim>\<open>lockdoc_event.h\<close>, the class \<^verbatim>\<open>RWLock\<close> with its subclasses \<^verbatim>\<open>RLock\<close> and
  \<^verbatim>\<open>WLock\<close> (\<^verbatim>\<open>rwlock.h\<close>, \<^verbatim>\<open>rlock.h\<close>, \<^verbatim>\<open>wlock.h\<close>), their virtual methods as
  functions of the dynamic class, and the rows of \<^verbatim>\<open>locks.csv\<close>.
\<close>

unbundle bit_operations_syntax

section \<open>Events\<close>

definition PSEUDOLOCK_ADDR_RCU :: u64 where "PSEUDOLOCK_ADDR_RCU = 0x42"
definition PSEUDOLOCK_ADDR_SOFTIRQ :: u64 where "PSEUDOLOCK_ADDR_SOFTIRQ = 0x45"
definition PSEUDOLOCK_ADDR_HARDIRQ :: u64 where "PSEUDOLOCK_ADDR_HARDIRQ = 0x44"
definition PSEUDOLOCK_NAME_RCU :: string where "PSEUDOLOCK_NAME_RCU = ''rcu''"
definition PSEUDOLOCK_NAME_HARDIRQ :: string where "PSEUDOLOCK_NAME_HARDIRQ = ''hardirq''"
definition PSEUDOLOCK_NAME_SOFTIRQ :: string where "PSEUDOLOCK_NAME_SOFTIRQ = ''softirq''"
definition PSEUDOLOCK_VAR :: string where "PSEUDOLOCK_VAR = ''static''"
definition LOCK_FLAGS_RECURSIVE :: u32 where "LOCK_FLAGS_RECURSIVE = 0x1"

lemmas event_consts = PSEUDOLOCK_ADDR_RCU_def PSEUDOLOCK_ADDR_SOFTIRQ_def
  PSEUDOLOCK_ADDR_HARDIRQ_def PSEUDOLOCK_NAME_RCU_def PSEUDOLOCK_NAME_HARDIRQ_def
  PSEUDOLOCK_NAME_SOFTIRQ_def PSEUDOLOCK_VAR_def LOCK_FLAGS_RECURSIVE_def

datatype LOCK_OP = P_READ | P_WRITE | V_READ | V_WRITE

fun lock_op_of_int :: "int \<Rightarrow> LOCK_OP option" where
  \<comment> \<open>the enumerators of \<open>LOCK_OP\<close> are numbered from 0\<close>
  "lock_op_of_int i =
     (if i = 0 then Some P_READ else if i = 1 then Some P_WRITE
      else if i = 2 then Some V_READ else if i = 3 then Some V_WRITE else None)"

section \<open>Lock objects\<close>

datatype SUB_LOCK = READER_LOCK | WRITER_LOCK

record LockPos =
  subLock :: SUB_LOCK
  lp_start :: u64
  lastLine :: int
  lastFile :: string

text \<open>
  The dynamic class of a lock object decides which of the virtual methods run.
\<close>

datatype lock_class = RWLock | RLock | WLock

record rwlock =
  lk_class :: lock_class
  read_id :: u64
  write_id :: u64
  lockAddress :: u64
  lk_flags :: u32
  reader_count :: int
  writer_count :: int
  allocation_id :: u32
  lockType :: string
  lockVarName :: string
  lastNPos :: "LockPos list"   \<comment> \<open>the \<open>std::stack\<close>, top first\<close>

definition new_RWLock ::
  "lock_class \<Rightarrow> u64 \<Rightarrow> u32 \<Rightarrow> string \<Rightarrow> string option \<Rightarrow> u32 \<Rightarrow> rwlock" where
  "new_RWLock cls addr allocID type varName flags =
     \<lparr>lk_class = cls, read_id = 0, write_id = 0, lockAddress = addr, lk_flags = flags,
      reader_count = 0, writer_count = 0, allocation_id = allocID, lockType = type,
      lockVarName = (case varName of None \<Rightarrow> [] | Some v \<Rightarrow> v), lastNPos = []\<rparr>"

fun SubLockToString :: "SUB_LOCK \<Rightarrow> string" where
  "SubLockToString READER_LOCK = ''READER_LOCK''"
| "SubLockToString WRITER_LOCK = ''WRITER_LOCK''"

fun LockOPToString :: "LOCK_OP \<Rightarrow> string" where
  "LockOPToString P_WRITE = ''P_WRITE''"
| "LockOPToString P_READ = ''P_READ''"
| "LockOPToString V_WRITE = ''V_WRITE''"
| "LockOPToString V_READ = ''V_READ''"

definition isPseudoLock :: "u64 \<Rightarrow> bool" where
  "isPseudoLock addr \<longleftrightarrow> addr = PSEUDOLOCK_ADDR_RCU \<or> addr = PSEUDOLOCK_ADDR_SOFTIRQ \<or>
     addr = PSEUDOLOCK_ADDR_HARDIRQ"

definition updateFlags :: "u32 \<Rightarrow> rwlock \<Rightarrow> rwlock" where
  "updateFlags v l = l\<lparr>lk_flags := v\<rparr>"

text \<open>
  \<open>initIDs\<close> takes the next free id by reference and returns the advanced one. The overriding
  methods of \<^verbatim>\<open>RLock\<close> and \<^verbatim>\<open>WLock\<close> come first, then the virtual method that runs the one
  of the object's class.
\<close>

definition RLock_initIDs :: "u64 \<Rightarrow> rwlock \<Rightarrow> u64 \<times> rwlock" where
  "RLock_initIDs i l = (i + 1, l\<lparr>read_id := i, write_id := -1\<rparr>)"

definition WLock_initIDs :: "u64 \<Rightarrow> rwlock \<Rightarrow> u64 \<times> rwlock" where
  "WLock_initIDs i l = (i + 1, l\<lparr>read_id := -1, write_id := i\<rparr>)"

definition initIDs :: "u64 \<Rightarrow> rwlock \<Rightarrow> u64 \<times> rwlock" where
  initIDs_virtual: "initIDs i l = (case lk_class l of
       RWLock \<Rightarrow> (i + 2, l\<lparr>read_id := i, write_id := i + 1\<rparr>)
     | RLock \<Rightarrow> RLock_initIDs i l
     | WLock \<Rightarrow> WLock_initIDs i l)"

definition RLock_isHeld :: "rwlock \<Rightarrow> bool" where
  "RLock_isHeld l \<longleftrightarrow> reader_count l > 0"

definition WLock_isHeld :: "rwlock \<Rightarrow> bool" where
  "WLock_isHeld l \<longleftrightarrow> writer_count l > 0"

definition isHeld :: "rwlock \<Rightarrow> bool" where
  isHeld_virtual: "isHeld l = (case lk_class l of
       RWLock \<Rightarrow> reader_count l > 0 \<or> writer_count l > 0
     | RLock \<Rightarrow> RLock_isHeld l
     | WLock \<Rightarrow> WLock_isHeld l)"

definition RLock_getID :: "rwlock \<Rightarrow> SUB_LOCK \<Rightarrow> u64 res" where
  "RLock_getID l sub = (case sub of
       READER_LOCK \<Rightarrow> Inr (read_id l)
     | WRITER_LOCK \<Rightarrow> Inl (InvalidArgument ''ID for writer sub lock requested.''))"

definition WLock_getID :: "rwlock \<Rightarrow> SUB_LOCK \<Rightarrow> u64 res" where
  "WLock_getID l sub = (case sub of
       WRITER_LOCK \<Rightarrow> Inr (write_id l)
     | READER_LOCK \<Rightarrow> Inl (InvalidArgument ''ID for reader sub lock requested.''))"

definition getID :: "rwlock \<Rightarrow> SUB_LOCK \<Rightarrow> u64 res" where
  getID_virtual: "getID l sub = (case lk_class l of
       RWLock \<Rightarrow> (case sub of READER_LOCK \<Rightarrow> Inr (read_id l) | WRITER_LOCK \<Rightarrow> Inr (write_id l))
     | RLock \<Rightarrow> RLock_getID l sub
     | WLock \<Rightarrow> WLock_getID l sub)"

lemmas initIDs_def = initIDs_virtual[unfolded RLock_initIDs_def WLock_initIDs_def]
lemmas isHeld_def = isHeld_virtual[unfolded RLock_isHeld_def WLock_isHeld_def]
lemmas getID_def = getID_virtual[unfolded RLock_getID_def WLock_getID_def]

text \<open>The sub locks an object of a class has, as \<open>getID\<close> knows them.\<close>

definition has_sub :: "rwlock \<Rightarrow> SUB_LOCK \<Rightarrow> bool" where
  "has_sub l sub = (case lk_class l of
       RWLock \<Rightarrow> True | RLock \<Rightarrow> sub = READER_LOCK | WLock \<Rightarrow> sub = WRITER_LOCK)"

section \<open>Rows of the lock table\<close>

definition sql_null :: string where
  "sql_null = [CHR 0x5C, CHR ''N'']"   \<comment> \<open>a backslash and an N\<close>

definition sql_null_if :: "string \<Rightarrow> bool \<Rightarrow> string" where
  "sql_null_if var cond = (if \<not> cond then var else sql_null)"

definition dec_u64 :: "u64 \<Rightarrow> string" where
  "dec_u64 w = dec_of_nat (unat w)"

definition dec_u32 :: "u32 \<Rightarrow> string" where
  "dec_u32 w = dec_of_nat (unat w)"

definition writeWriterLock :: "char \<Rightarrow> rwlock \<Rightarrow> string" where
  "writeWriterLock d l =
     dec_u64 (write_id l) @ [d] @ dec_u64 (lockAddress l) @ [d] @
     sql_null_if (dec_u32 (allocation_id l)) (allocation_id l = 0) @ [d] @ lockType l @ [d] @
     ''w'' @ [d] @ sql_null_if (lockVarName l) (lockVarName l = []) @ [d] @
     dec_u32 (lk_flags l) @ [CHR 0x0A]"

definition writeReaderLock :: "char \<Rightarrow> rwlock \<Rightarrow> string" where
  "writeReaderLock d l =
     dec_u64 (read_id l) @ [d] @ dec_u64 (lockAddress l) @ [d] @
     sql_null_if (dec_u32 (allocation_id l)) (allocation_id l = 0) @ [d] @ lockType l @ [d] @
     ''r'' @ [d] @ sql_null_if (lockVarName l) (lockVarName l = []) @ [d] @
     dec_u32 (lk_flags l) @ [CHR 0x0A]"

definition RLock_writeLock :: "char \<Rightarrow> rwlock \<Rightarrow> string" where
  "RLock_writeLock d l = writeReaderLock d l"

definition WLock_writeLock :: "char \<Rightarrow> rwlock \<Rightarrow> string" where
  "WLock_writeLock d l = writeWriterLock d l"

definition writeLock :: "char \<Rightarrow> rwlock \<Rightarrow> string" where
  "writeLock d l = (case lk_class l of
       RWLock \<Rightarrow> writeWriterLock d l @ writeReaderLock d l
     | RLock \<Rightarrow> RLock_writeLock d l
     | WLock \<Rightarrow> WLock_writeLock d l)"

section \<open>Facts\<close>

lemma getID_has_sub: "(\<exists>i. getID l sub = Inr i) \<longleftrightarrow> has_sub l sub"
  by (cases "lk_class l"; cases sub) (simp_all add: getID_def has_sub_def)

lemma has_sub_getIDE:
  assumes "has_sub l sub"
  obtains i where "getID l sub = Inr i"
  using assms getID_has_sub by blast

lemma getID_update [simp]:
  "getID (l\<lparr>reader_count := n\<rparr>) = getID l"
  "getID (l\<lparr>writer_count := n\<rparr>) = getID l"
  "getID (l\<lparr>lastNPos := p\<rparr>) = getID l"
  "getID (l\<lparr>lk_flags := f\<rparr>) = getID l"
  by (auto simp: getID_def fun_eq_iff split: lock_class.splits SUB_LOCK.splits)

lemma has_sub_update [simp]:
  "has_sub (l\<lparr>reader_count := n\<rparr>) = has_sub l"
  "has_sub (l\<lparr>writer_count := n\<rparr>) = has_sub l"
  "has_sub (l\<lparr>lastNPos := p\<rparr>) = has_sub l"
  "has_sub (l\<lparr>lk_flags := f\<rparr>) = has_sub l"
  by (auto simp: has_sub_def fun_eq_iff split: lock_class.splits)

end
