(* ===== verification/Lock_Manager.thy ===== *)
theory Lock_Manager
  imports Lock_Types "HOL-Library.Multiset"
begin

text \<open>
  The class \<^verbatim>\<open>LockManager\<close> (\<^verbatim>\<open>lockmanager.h\<close>, \<^verbatim>\<open>lockmanager.cc\<close>): one stack of nested
  transactions per execution context, the table of known locks, and the rows written to
  \<^verbatim>\<open>txns.csv\<close> and \<^verbatim>\<open>locks_held.csv\<close>. A pointer to a lock object is its index in the list
  of all lock objects ever allocated; the code never frees one. The messages of
  \<^verbatim>\<open>PRINT_ERROR\<close> are collected in \<open>m_cerr\<close>.
\<close>

section \<open>State\<close>

record TXN =
  txn_id :: u64
  start_ts :: u64
  start_ctx :: int
  memAccessCounter :: u64
  txn_lock :: nat
  txn_sub :: SUB_LOCK

record txn_row =
  tr_id :: u64
  tr_start_ts :: u64
  tr_start_ctx :: int
  tr_end_ts :: u64
  tr_end_ctx :: int

record held_row =
  hr_txn_id :: u64
  hr_lock_id :: u64
  hr_start :: u64
  hr_last_file :: string
  hr_last_line :: int

datatype lock_diag =
    ReadSideHeld nat | WriteSideHeld nat
  | InconsistentReaderCount nat int | InconsistentWriterCount nat int
  | CannotFlush nat | AlreadyHeld nat
  | NoRunningTXN nat | NoLastPosition nat | AlreadyReleased nat
  | LastNPosUnderflow nat | TXNLockNotHeld nat
  | MultipleWriterTXNs nat | SubLockMismatch nat | NoMatchingTXN nat
  | FreedButHeld u64 | StillActive int nat

record LockManager =
  m_activeTXNs :: "(int, TXN list) omap"   \<comment> \<open>per context the deque, from \<open>back()\<close> to \<open>front()\<close>\<close>
  m_nextTXNID :: u64
  m_nextLockID :: u64
  m_locks :: "(u64, nat) omap"
  m_heap :: "rwlock list"
  m_txnsOFile :: "txn_row list"
  m_locksHeldOFile :: "held_row list"
  m_cerr :: "lock_diag list"

definition new_LockManager :: LockManager where
  "new_LockManager = \<lparr>m_activeTXNs = [], m_nextTXNID = 1, m_nextLockID = 1, m_locks = [],
     m_heap = [], m_txnsOFile = [], m_locksHeldOFile = [], m_cerr = []\<rparr>"

definition SKIP_EMPTY_TXNS :: bool where "SKIP_EMPTY_TXNS = True"

text \<open>
  \<open>m_activeTXNs[ctx]\<close>. The \<open>operator[]\<close> adds an empty deque for a context that has none yet;
  such an entry reads like a missing one everywhere (\<open>txn_stack_touch\<close> below), so reads leave the
  state as it is.
\<close>

definition txn_stack :: "LockManager \<Rightarrow> int \<Rightarrow> TXN list" where
  "txn_stack lm ctx = (case omap_lookup (m_activeTXNs lm) ctx of None \<Rightarrow> [] | Some d \<Rightarrow> d)"

definition set_stack :: "int \<Rightarrow> TXN list \<Rightarrow> LockManager \<Rightarrow> LockManager" where
  "set_stack ctx d lm = lm\<lparr>m_activeTXNs := omap_update ctx d (m_activeTXNs lm)\<rparr>"

definition lock_at :: "LockManager \<Rightarrow> nat \<Rightarrow> rwlock" where
  "lock_at lm p = m_heap lm ! p"

definition upd_lock :: "nat \<Rightarrow> (rwlock \<Rightarrow> rwlock) \<Rightarrow> LockManager \<Rightarrow> LockManager" where
  "upd_lock p f lm = lm\<lparr>m_heap := (m_heap lm)[p := f (m_heap lm ! p)]\<rparr>"

text \<open>
  \<^verbatim>\<open>PRINT_ERROR(lock->toString(sub), ...)\<close>: printing the lock asks it for the id of the sub lock,
  which throws when the object has no such sub lock.
\<close>

definition print_error :: "nat \<Rightarrow> SUB_LOCK \<Rightarrow> lock_diag \<Rightarrow> LockManager \<Rightarrow> LockManager res" where
  "print_error p sub d lm =
     bindE (getID (lock_at lm p) sub) (\<lambda>_. Inr (lm\<lparr>m_cerr := m_cerr lm @ [d]\<rparr>))"

section \<open>Queries\<close>

definition hasActiveTXN :: "LockManager \<Rightarrow> int \<Rightarrow> bool" where
  "hasActiveTXN lm ctx \<longleftrightarrow> txn_stack lm ctx \<noteq> []"

definition getActiveTXN :: "LockManager \<Rightarrow> int \<Rightarrow> TXN option" where
  \<comment> \<open>\<open>back()\<close> of the deque; every call is guarded by \<open>hasActiveTXN\<close>\<close>
  "getActiveTXN lm ctx = (case txn_stack lm ctx of [] \<Rightarrow> None | t # _ \<Rightarrow> Some t)"

definition txn_is :: "nat \<Rightarrow> SUB_LOCK \<Rightarrow> TXN \<Rightarrow> bool" where
  "txn_is p sub t \<longleftrightarrow> txn_lock t = p \<and> txn_sub t = sub"

definition isOnTXNStack :: "LockManager \<Rightarrow> int \<Rightarrow> nat \<Rightarrow> SUB_LOCK \<Rightarrow> bool" where
  "isOnTXNStack lm ctx p sub \<longleftrightarrow> list_ex (txn_is p sub) (txn_stack lm ctx)"

definition findTXN :: "LockManager \<Rightarrow> nat \<Rightarrow> SUB_LOCK \<Rightarrow> int \<Rightarrow> int" where
  "findTXN lm p sub ctx =
     (case find (\<lambda>kv. hasActiveTXN lm (fst kv) \<and> list_ex (txn_is p sub) (snd kv)) (m_activeTXNs lm)
      of None \<Rightarrow> ctx | Some kv \<Rightarrow> fst kv)"

definition findLock :: "LockManager \<Rightarrow> u64 \<Rightarrow> nat option" where
  "findLock lm addr = omap_lookup (m_locks lm) addr"

section \<open>Starting and finishing transactions\<close>

definition startTXN :: "nat \<Rightarrow> u64 \<Rightarrow> SUB_LOCK \<Rightarrow> int \<Rightarrow> LockManager \<Rightarrow> LockManager" where
  "startTXN p ts sub ctx lm =
     set_stack ctx
       (\<lparr>txn_id = m_nextTXNID lm, start_ts = ts, start_ctx = ctx, memAccessCounter = 0,
         txn_lock = p, txn_sub = sub\<rparr> # txn_stack lm ctx)
       (lm\<lparr>m_nextTXNID := m_nextTXNID lm + 1\<rparr>)"

text \<open>
  The rows of \<^verbatim>\<open>locks_held.csv\<close> for one transaction: the stack from \<open>front()\<close> to \<open>back()\<close>, each
  lock id once.
\<close>

fun locks_held_rows ::
  "rwlock list \<Rightarrow> u64 \<Rightarrow> TXN list \<Rightarrow> u64 list \<Rightarrow> (held_row list \<times> lock_diag list) res" where
  "locks_held_rows heap tid [] locks_seen = Inr ([], [])"
| "locks_held_rows heap tid (t # rest) locks_seen =
     (let tempLock = heap ! txn_lock t in
      if isHeld tempLock then
        (case lastNPos tempLock of
           [] \<Rightarrow>
             bindE (getID tempLock (txn_sub t)) (\<lambda>_.
             bindE (locks_held_rows heap tid rest locks_seen) (\<lambda>(rows, ds).
             Inr (rows, LastNPosUnderflow (txn_lock t) # ds)))
         | pos # _ \<Rightarrow>
             bindE (getID tempLock (txn_sub t)) (\<lambda>lockID.
             if lockID \<in> set locks_seen then locks_held_rows heap tid rest locks_seen
             else
               bindE (locks_held_rows heap tid rest (lockID # locks_seen)) (\<lambda>(rows, ds).
               Inr (\<lparr>hr_txn_id = tid, hr_lock_id = lockID, hr_start = lp_start pos,
                     hr_last_file = lastFile pos, hr_last_line = lastLine pos\<rparr> # rows, ds))))
      else
        bindE (getID tempLock (txn_sub t)) (\<lambda>_.
        bindE (locks_held_rows heap tid rest locks_seen) (\<lambda>(rows, ds).
        Inr (rows, TXNLockNotHeld (txn_lock t) # ds))))"

definition record_txn :: "u64 \<Rightarrow> int \<Rightarrow> TXN \<Rightarrow> TXN list \<Rightarrow> LockManager \<Rightarrow> LockManager res" where
  "record_txn ts ctxOld t below lm =
     bindE (locks_held_rows (m_heap lm) (txn_id t) (rev (t # below)) []) (\<lambda>(rows, ds).
     Inr (lm\<lparr>m_txnsOFile := m_txnsOFile lm @
               [\<lparr>tr_id = txn_id t, tr_start_ts = start_ts t, tr_start_ctx = start_ctx t,
                 tr_end_ts = ts, tr_end_ctx = ctxOld\<rparr>],
             m_locksHeldOFile := m_locksHeldOFile lm @ rows,
             m_cerr := m_cerr lm @ ds\<rparr>))"

text \<open>
  The loop that erases the remaining readers of a lock from the deque, from \<open>front()\<close> to
  \<open>back()\<close>. For an entry of the lock that is no reader the iterator is advanced first and then
  dereferenced for the message: past the end, the program reads a non-existing element.
\<close>

fun flush_readers :: "rwlock list \<Rightarrow> nat \<Rightarrow> TXN list \<Rightarrow> (TXN list \<times> lock_diag list) res" where
  "flush_readers heap p [] = Inr ([], [])"
| "flush_readers heap p (t # rest) =
     (if txn_lock t \<noteq> p then
        bindE (flush_readers heap p rest) (\<lambda>(keep, ds). Inr (t # keep, ds))
      else if txn_sub t = READER_LOCK then flush_readers heap p rest
      else
        (case rest of
           [] \<Rightarrow> Inl (UndefinedBehaviour ''dereferenced end iterator'')
         | t' # _ \<Rightarrow>
             bindE (getID (heap ! txn_lock t') (txn_sub t')) (\<lambda>_.
             bindE (flush_readers heap p rest) (\<lambda>(keep, ds).
             Inr (t # keep, MultipleWriterTXNs (txn_lock t') # ds)))))"

definition restart_txn :: "u64 \<Rightarrow> u64 \<Rightarrow> int \<Rightarrow> TXN \<Rightarrow> TXN" where
  "restart_txn i ts ctx t =
     t\<lparr>txn_id := i, start_ts := ts, memAccessCounter := 0, start_ctx := ctx\<rparr>"

text \<open>
  The loop of \<open>finishTXN\<close>: the stack still to be closed, top first, and the transactions to
  recreate, top first.
\<close>

fun finishTXN_loop ::
  "nat \<Rightarrow> u64 \<Rightarrow> SUB_LOCK \<Rightarrow> bool \<Rightarrow> int \<Rightarrow> int \<Rightarrow> TXN list \<Rightarrow> TXN list \<Rightarrow> LockManager \<Rightarrow>
     (bool \<times> TXN list \<times> LockManager) res" where
  "finishTXN_loop p ts sub removeReader ctx ctxOld [] restartTXNs lm = Inr (False, restartTXNs, lm)"
| "finishTXN_loop p ts sub removeReader ctx ctxOld (t # below) restartTXNs lm =
     bindE (if \<not> SKIP_EMPTY_TXNS \<or> memAccessCounter t > 0 then record_txn ts ctxOld t below lm
            else Inr lm) (\<lambda>lm1.
     if txn_is p sub t then
       (if removeReader then
          bindE (flush_readers (m_heap lm1) p (rev below)) (\<lambda>(keep, ds).
          Inr (True, restartTXNs @ rev keep, lm1\<lparr>m_cerr := m_cerr lm1 @ ds\<rparr>))
        else Inr (True, restartTXNs @ below, lm1))
     else
       bindE (if txn_lock t = p then print_error p (txn_sub t) (SubLockMismatch p) lm1 else Inr lm1)
         (\<lambda>lm2.
       finishTXN_loop p ts sub removeReader ctx ctxOld below
         (restartTXNs @ [restart_txn (m_nextTXNID lm2) ts ctx t])
         (lm2\<lparr>m_nextTXNID := m_nextTXNID lm2 + 1\<rparr>)))"

definition finishTXN ::
  "nat \<Rightarrow> u64 \<Rightarrow> SUB_LOCK \<Rightarrow> bool \<Rightarrow> int \<Rightarrow> int \<Rightarrow> LockManager \<Rightarrow> (bool \<times> LockManager) res" where
  "finishTXN p ts sub removeReader ctx ctxOld lm =
     bindE (finishTXN_loop p ts sub removeReader ctx ctxOld (txn_stack lm ctx) [] lm)
       (\<lambda>(found, stk, lm1).
     bindE (if \<not> found then print_error p sub (NoMatchingTXN p) lm1 else Inr lm1) (\<lambda>lm2.
     Inr (found, set_stack ctx stk lm2)))"

text \<open>
  Closing what is still open when the trace ends: for every context the topmost transaction is
  finished until none is left. That this loop returns is the theorem about \<open>closeAllTXNs\<close> below.
\<close>

partial_function (option) closeCtxTXNs :: "int \<Rightarrow> u64 \<Rightarrow> LockManager \<Rightarrow> LockManager res option" where
  "closeCtxTXNs ctx ts lm =
     (case getActiveTXN lm ctx of
        None \<Rightarrow> Some (Inr lm)
      | Some t \<Rightarrow>
          (case finishTXN (txn_lock t) ts (txn_sub t) False ctx ctx
                  (lm\<lparr>m_cerr := m_cerr lm @ [StillActive ctx (length (txn_stack lm ctx))]\<rparr>) of
             Inl e \<Rightarrow> Some (Inl e)
           | Inr (_, lm') \<Rightarrow> closeCtxTXNs ctx ts lm'))"

declare closeCtxTXNs.simps [code]

fun closeTXNs_of :: "int list \<Rightarrow> u64 \<Rightarrow> LockManager \<Rightarrow> LockManager res option" where
  "closeTXNs_of [] ts lm = Some (Inr lm)"
| "closeTXNs_of (ctx # ctxs) ts lm =
     (case closeCtxTXNs ctx ts lm of
        None \<Rightarrow> None
      | Some (Inl e) \<Rightarrow> Some (Inl e)
      | Some (Inr lm') \<Rightarrow> closeTXNs_of ctxs ts lm')"

definition closeAllTXNs :: "u64 \<Rightarrow> LockManager \<Rightarrow> LockManager res option" where
  "closeAllTXNs ts lm = closeTXNs_of (omap_keys (m_activeTXNs lm)) ts lm"

section \<open>The table of locks\<close>

definition writer_lock_types :: "string list" where
  "writer_lock_types = [''raw_spinlock_t'', ''mutex'', PSEUDOLOCK_NAME_SOFTIRQ,
     PSEUDOLOCK_NAME_HARDIRQ, ''semaphore'', ''bit_spin_lock'', ''sleep mutex'', ''spin mutex'',
     ''kmutex_t'']"

definition rw_lock_types :: "string list" where
  "rw_lock_types = [''rwlock_t'', ''rw_semaphore'', ''sx'', ''rw'', ''sleepable rm'', ''rm'',
     ''lockmgr'', ''krwlock_t'']"

definition class_of_lockType :: "string \<Rightarrow> lock_class option" where
  "class_of_lockType type =
     (if type \<in> set writer_lock_types then Some WLock
      else if type = PSEUDOLOCK_NAME_RCU then Some RLock
      else if type \<in> set rw_lock_types then Some RWLock
      else None)"

definition allocLock ::
  "u64 \<Rightarrow> u32 \<Rightarrow> string \<Rightarrow> string option \<Rightarrow> u32 \<Rightarrow> LockManager \<Rightarrow> (nat \<times> LockManager) res" where
  "allocLock addr allocID type varName flags lm =
     (case class_of_lockType type of
        None \<Rightarrow> Inl (ExitFailure 1)   \<comment> \<open>unknown lock type\<close>
      | Some cls \<Rightarrow>
          (let (nextID, l) = initIDs (m_nextLockID lm) (new_RWLock cls addr allocID type varName flags)
           in if omap_lookup (m_locks lm) addr \<noteq> None then Inl (ExitFailure 1)
              else Inr (length (m_heap lm),
                lm\<lparr>m_nextLockID := nextID, m_heap := m_heap lm @ [l],
                   m_locks := omap_update addr (length (m_heap lm)) (m_locks lm)\<rparr>)))"

definition in_area :: "u64 \<Rightarrow> u64 \<Rightarrow> u64 \<Rightarrow> bool" where
  "in_area address sz a \<longleftrightarrow> address \<le> a \<and> a < address + sz"

definition deleteLockByArea :: "u64 \<Rightarrow> u64 \<Rightarrow> LockManager \<Rightarrow> LockManager" where
  "deleteLockByArea address sz lm =
     (let dead = filter (\<lambda>kv. in_area address sz (lockAddress (lock_at lm (snd kv)))) (m_locks lm)
      in lm\<lparr>m_locks := filter (\<lambda>kv. \<not> in_area address sz (lockAddress (lock_at lm (snd kv)))) (m_locks lm),
            m_cerr := m_cerr lm @ map (\<lambda>kv. FreedButHeld (lockAddress (lock_at lm (snd kv))))
              (filter (\<lambda>kv. isHeld (lock_at lm (snd kv))) dead)\<rparr>)"

section \<open>What the operations change\<close>

named_theorems lm_simps \<open>reads of the lock manager after writes\<close>

lemma txn_stack_set_stack [lm_simps]:
  "txn_stack (set_stack ctx d lm) c = (if c = ctx then d else txn_stack lm c)"
  by (simp add: txn_stack_def set_stack_def omap_simps)

lemma txn_stack_touch:
  "txn_stack (set_stack ctx (txn_stack lm ctx) lm) = txn_stack lm"
  by (simp add: fun_eq_iff lm_simps)

lemma txn_stack_frame [lm_simps]:
  "txn_stack (lm\<lparr>m_nextTXNID := n\<rparr>) = txn_stack lm"
  "txn_stack (lm\<lparr>m_cerr := ds\<rparr>) = txn_stack lm"
  "txn_stack (lm\<lparr>m_heap := h\<rparr>) = txn_stack lm"
  "txn_stack (lm\<lparr>m_txnsOFile := r\<rparr>) = txn_stack lm"
  "txn_stack (lm\<lparr>m_locksHeldOFile := r'\<rparr>) = txn_stack lm"
  "txn_stack (upd_lock p f lm) = txn_stack lm"
  by (simp_all add: txn_stack_def upd_lock_def fun_eq_iff)

lemma set_stack_frame [lm_simps]:
  "m_nextTXNID (set_stack ctx d lm) = m_nextTXNID lm"
  "m_heap (set_stack ctx d lm) = m_heap lm"
  "m_locks (set_stack ctx d lm) = m_locks lm"
  "m_nextLockID (set_stack ctx d lm) = m_nextLockID lm"
  "m_txnsOFile (set_stack ctx d lm) = m_txnsOFile lm"
  "m_locksHeldOFile (set_stack ctx d lm) = m_locksHeldOFile lm"
  "m_cerr (set_stack ctx d lm) = m_cerr lm"
  by (simp_all add: set_stack_def)

lemma upd_lock_frame [lm_simps]:
  "m_nextTXNID (upd_lock p f lm) = m_nextTXNID lm"
  "length (m_heap (upd_lock p f lm)) = length (m_heap lm)"
  "m_locks (upd_lock p f lm) = m_locks lm"
  "m_nextLockID (upd_lock p f lm) = m_nextLockID lm"
  "m_txnsOFile (upd_lock p f lm) = m_txnsOFile lm"
  "m_locksHeldOFile (upd_lock p f lm) = m_locksHeldOFile lm"
  "m_cerr (upd_lock p f lm) = m_cerr lm"
  "m_activeTXNs (upd_lock p f lm) = m_activeTXNs lm"
  by (simp_all add: upd_lock_def)

lemma lock_at_upd_lock [lm_simps]:
  "p < length (m_heap lm) \<Longrightarrow>
     lock_at (upd_lock p f lm) q = (if q = p then f (lock_at lm p) else lock_at lm q)"
  by (auto simp: lock_at_def upd_lock_def)

lemma lock_at_frame [lm_simps]:
  "lock_at (set_stack ctx d lm) = lock_at lm"
  "lock_at (lm\<lparr>m_nextTXNID := n\<rparr>) = lock_at lm"
  "lock_at (lm\<lparr>m_cerr := ds\<rparr>) = lock_at lm"
  by (simp_all add: lock_at_def set_stack_def fun_eq_iff)

text \<open>The part of the state that no transaction operation writes.\<close>

definition same_locks :: "LockManager \<Rightarrow> LockManager \<Rightarrow> bool" where
  "same_locks lm lm' \<longleftrightarrow> m_heap lm' = m_heap lm \<and> m_locks lm' = m_locks lm \<and>
     m_nextLockID lm' = m_nextLockID lm"

lemma same_locks_refl [simp]: "same_locks lm lm"
  by (simp add: same_locks_def)

lemma same_locks_trans [trans]: "same_locks a b \<Longrightarrow> same_locks b c \<Longrightarrow> same_locks a c"
  by (simp add: same_locks_def)

lemma print_error_frame:
  assumes "print_error p sub d lm = Inr lm'"
  shows "lm' = lm\<lparr>m_cerr := m_cerr lm @ [d]\<rparr>"
  using assms by (auto simp: print_error_def res_simps)

lemma print_error_ok: "has_sub (lock_at lm p) sub \<Longrightarrow> \<exists>lm'. print_error p sub d lm = Inr lm'"
  by (auto simp: print_error_def res_simps elim: has_sub_getIDE)

lemma record_txn_frame:
  assumes "record_txn ts ctxOld t below lm = Inr lm'"
  shows "m_activeTXNs lm' = m_activeTXNs lm" "m_nextTXNID lm' = m_nextTXNID lm" "same_locks lm lm'"
  using assms by (auto simp: record_txn_def res_simps same_locks_def)

section \<open>The abstract view: which locks a context holds\<close>

text \<open>
  Seen from outside, a context is the sequence of the sub locks its transactions were started
  for, the most recent first.
\<close>

definition txn_key :: "TXN \<Rightarrow> nat \<times> SUB_LOCK" where
  "txn_key t = (txn_lock t, txn_sub t)"

definition held :: "LockManager \<Rightarrow> int \<Rightarrow> (nat \<times> SUB_LOCK) list" where
  "held lm ctx = map txn_key (txn_stack lm ctx)"

definition flushed :: "nat \<Rightarrow> (nat \<times> SUB_LOCK) list \<Rightarrow> (nat \<times> SUB_LOCK) list" where
  "flushed p h = filter (\<lambda>k. k \<noteq> (p, READER_LOCK)) h"

definition spec_finish ::
  "nat \<Rightarrow> SUB_LOCK \<Rightarrow> bool \<Rightarrow> (nat \<times> SUB_LOCK) list \<Rightarrow> (nat \<times> SUB_LOCK) list" where
  "spec_finish p sub removeReader h =
     (let above = takeWhile (\<lambda>k. k \<noteq> (p, sub)) h; below = tl (dropWhile (\<lambda>k. k \<noteq> (p, sub)) h)
      in above @ (if removeReader then flushed p below else below))"

lemma txn_is_key: "txn_is p sub t \<longleftrightarrow> txn_key t = (p, sub)"
  by (auto simp: txn_is_def txn_key_def)

lemma txn_key_restart [simp]: "txn_key (restart_txn i ts ctx t) = txn_key t"
  by (simp add: txn_key_def restart_txn_def)

lemma spec_finish_remove1: "spec_finish p sub False h = remove1 (p, sub) h"
  using map_remove_first[of id "(p, sub)" h]
    takeWhile_dropWhile_remove_first[of "\<lambda>k. k = (p, sub)" h]
  by (simp add: spec_finish_def)

lemma spec_finish_reader:
  assumes "(p, READER_LOCK) \<in> set h"
  shows "spec_finish p READER_LOCK True h = flushed p h"
proof -
  obtain xs ys where h: "h = xs @ (p, READER_LOCK) # ys" and "(p, READER_LOCK) \<notin> set xs"
    using split_list_first[OF assms] by auto
  then have "takeWhile (\<lambda>k. k \<noteq> (p, READER_LOCK)) h = xs"
    and "dropWhile (\<lambda>k. k \<noteq> (p, READER_LOCK)) h = (p, READER_LOCK) # ys"
    and "filter (\<lambda>k. k \<noteq> (p, READER_LOCK)) xs = xs"
    by (auto simp: takeWhile_append dropWhile_append filter_id_conv)
  then show ?thesis by (simp add: spec_finish_def flushed_def h)
qed

lemma flush_readers_result:
  "flush_readers heap p ts = Inr (keep, ds) \<Longrightarrow> keep = filter (\<lambda>t. txn_key t \<noteq> (p, READER_LOCK)) ts"
proof (induction ts arbitrary: keep ds)
  case (Cons t rest)
  consider "txn_lock t \<noteq> p" | "txn_key t = (p, READER_LOCK)"
    | "txn_lock t = p" "txn_key t \<noteq> (p, READER_LOCK)"
    by (auto simp: txn_key_def)
  then show ?case
  proof cases
    case 1
    with Cons.prems obtain keep' ds' where "flush_readers heap p rest = Inr (keep', ds')"
      and "keep = t # keep'"
      by (auto simp: bindE_Inr_iff)
    with 1 Cons.IH show ?thesis by (simp add: txn_key_def)
  next
    case 2
    with Cons show ?thesis by (simp add: txn_key_def)
  next
    case 3
    with Cons.prems obtain keep' ds' where "flush_readers heap p rest = Inr (keep', ds')"
      and "keep = t # keep'"
      by (cases rest) (auto simp: bindE_Inr_iff txn_key_def simp del: flush_readers.simps(2)
          simp add: flush_readers.simps(2)[of heap p t])
    with 3 Cons.IH show ?thesis by simp
  qed
qed simp

text \<open>One round of the loop of \<open>finishTXN\<close>.\<close>

lemma finishTXN_loop_ConsE:
  assumes "finishTXN_loop p ts sub rr ctx ctxOld (t # below) rs lm = Inr (found, stk', lm')"
  obtains lm1 where
    "(if \<not> SKIP_EMPTY_TXNS \<or> memAccessCounter t > 0 then record_txn ts ctxOld t below lm
      else Inr lm) = Inr lm1"
    "same_locks lm lm1" "m_activeTXNs lm1 = m_activeTXNs lm" "m_nextTXNID lm1 = m_nextTXNID lm"
    "txn_key t = (p, sub) \<and> found \<and>
       ((\<exists>ds. rr \<and> lm' = lm1\<lparr>m_cerr := m_cerr lm1 @ ds\<rparr> \<and>
          stk' = rs @ filter (\<lambda>t. txn_key t \<noteq> (p, READER_LOCK)) below) \<or>
        (\<not> rr \<and> lm' = lm1 \<and> stk' = rs @ below)) \<or>
     txn_key t \<noteq> (p, sub) \<and>
       (\<exists>ds. finishTXN_loop p ts sub rr ctx ctxOld below
          (rs @ [restart_txn (m_nextTXNID lm) ts ctx t])
          (lm1\<lparr>m_cerr := m_cerr lm1 @ ds, m_nextTXNID := m_nextTXNID lm + 1\<rparr>) = Inr (found, stk', lm'))"
proof -
  obtain lm1 where 1: "(if \<not> SKIP_EMPTY_TXNS \<or> memAccessCounter t > 0
      then record_txn ts ctxOld t below lm else Inr lm) = Inr lm1"
    using assms by (auto simp only: finishTXN_loop.simps bindE_Inr_iff)
  have fr: "same_locks lm lm1" "m_activeTXNs lm1 = m_activeTXNs lm" "m_nextTXNID lm1 = m_nextTXNID lm"
    using 1 record_txn_frame by (auto split: if_splits)
  show ?thesis
  proof (cases "txn_is p sub t")
    case True
    have flt: "rev keep = filter (\<lambda>t. txn_key t \<noteq> (p, READER_LOCK)) below"
      if "flush_readers (m_heap lm1) p (rev below) = Inr (keep, ds)" for keep ds
      using flush_readers_result[OF that] by (simp add: rev_filter)
    have "(if rr then bindE (flush_readers (m_heap lm1) p (rev below)) (\<lambda>(keep, ds).
          Inr (True, rs @ rev keep, lm1\<lparr>m_cerr := m_cerr lm1 @ ds\<rparr>))
        else Inr (True, rs @ below, lm1)) = Inr (found, stk', lm')"
      using assms True unfolding finishTXN_loop.simps(2) 1 bindE.simps by simp
    then have "found \<and> ((\<exists>ds. rr \<and> lm' = lm1\<lparr>m_cerr := m_cerr lm1 @ ds\<rparr> \<and>
          stk' = rs @ filter (\<lambda>t. txn_key t \<noteq> (p, READER_LOCK)) below) \<or>
        (\<not> rr \<and> lm' = lm1 \<and> stk' = rs @ below))"
      by (cases rr) (auto simp: bindE_Inr_iff dest: flt)
    with True show ?thesis by (intro that[OF 1 fr]) (auto simp: txn_is_key)
  next
    case False
    with assms obtain lm2 where
      2: "(if txn_lock t = p then print_error p (txn_sub t) (SubLockMismatch p) lm1
           else Inr lm1) = Inr lm2" and
      3: "finishTXN_loop p ts sub rr ctx ctxOld below
            (rs @ [restart_txn (m_nextTXNID lm2) ts ctx t])
            (lm2\<lparr>m_nextTXNID := m_nextTXNID lm2 + 1\<rparr>) = Inr (found, stk', lm')"
      unfolding finishTXN_loop.simps(2) 1 bindE.simps by (auto simp only: bindE_Inr_iff if_False)
    have "\<exists>ds. lm2 = lm1\<lparr>m_cerr := m_cerr lm1 @ ds\<rparr>"
      using 2 by (auto dest: print_error_frame split: if_splits intro: exI[of _ "[]"])
    then obtain ds where "lm2 = lm1\<lparr>m_cerr := m_cerr lm1 @ ds\<rparr>" ..
    with 3 fr have "finishTXN_loop p ts sub rr ctx ctxOld below
          (rs @ [restart_txn (m_nextTXNID lm) ts ctx t])
          (lm1\<lparr>m_cerr := m_cerr lm1 @ ds, m_nextTXNID := m_nextTXNID lm + 1\<rparr>) = Inr (found, stk', lm')"
      by simp
    with False show ?thesis by (intro that[OF 1 fr]) (auto simp: txn_is_key)
  qed
qed

lemma finishTXN_loop_frame:
  "finishTXN_loop p ts sub rr ctx ctxOld stk rs lm = Inr (found, stk', lm') \<Longrightarrow>
     same_locks lm lm' \<and> m_activeTXNs lm' = m_activeTXNs lm"
proof (induction stk arbitrary: rs lm)
  case (Cons t below)
  from Cons.prems show ?case
    by (rule finishTXN_loop_ConsE) (auto simp: same_locks_def dest!: Cons.IH)
qed simp

text \<open>The loop refines the abstract operation.\<close>

lemma finishTXN_loop_held:
  "finishTXN_loop p ts sub rr ctx ctxOld stk rs lm = Inr (found, stk', lm') \<Longrightarrow>
     found = ((p, sub) \<in> set (map txn_key stk)) \<and>
     map txn_key stk' = map txn_key rs @ spec_finish p sub rr (map txn_key stk)"
proof (induction stk arbitrary: rs lm)
  case Nil
  then show ?case by (simp add: spec_finish_def flushed_def)
next
  case (Cons t below)
  have flt: "map txn_key (filter (\<lambda>t. txn_key t \<noteq> k) below) = filter (\<lambda>x. x \<noteq> k) (map txn_key below)" for k
    by (simp add: filter_map comp_def)
  from Cons.prems show ?case
    by (rule finishTXN_loop_ConsE) (auto simp: spec_finish_def flushed_def flt Let_def dest!: Cons.IH)
qed

theorem finishTXN_held:
  assumes "finishTXN p ts sub rr ctx ctxOld lm = Inr (found, lm')"
  shows "found \<longleftrightarrow> (p, sub) \<in> set (held lm ctx)"
    and "held lm' = (held lm)(ctx := spec_finish p sub rr (held lm ctx))"
    and "same_locks lm lm'"
proof -
  obtain stk lm1 lm2 where
    1: "finishTXN_loop p ts sub rr ctx ctxOld (txn_stack lm ctx) [] lm = Inr (found, stk, lm1)" and
    2: "(if \<not> found then print_error p sub (NoMatchingTXN p) lm1 else Inr lm1) = Inr lm2" and
    3: "lm' = set_stack ctx stk lm2"
    using assms by (auto simp: finishTXN_def res_simps split: prod.splits)
  have lm2: "same_locks lm1 lm2" "m_activeTXNs lm2 = m_activeTXNs lm1"
    using 2 by (auto simp: same_locks_def dest: print_error_frame split: if_splits)
  note fr = finishTXN_loop_frame[OF 1] and hl = finishTXN_loop_held[OF 1]
  show "found \<longleftrightarrow> (p, sub) \<in> set (held lm ctx)"
    using hl by (simp add: held_def)
  have "txn_stack lm2 = txn_stack lm"
    using fr lm2 by (simp add: txn_stack_def fun_eq_iff)
  then show "held lm' = (held lm)(ctx := spec_finish p sub rr (held lm ctx))"
    using hl by (auto simp: held_def 3 lm_simps fun_eq_iff)
  show "same_locks lm lm'"
    using fr lm2 by (auto simp: same_locks_def 3 lm_simps)
qed

lemma startTXN_held: "held (startTXN p ts sub ctx lm) = (held lm)(ctx := (p, sub) # held lm ctx)"
  by (auto simp: held_def startTXN_def lm_simps txn_key_def fun_eq_iff)

lemma startTXN_same_locks: "same_locks lm (startTXN p ts sub ctx lm)"
  by (simp add: startTXN_def same_locks_def lm_simps)

end
