(* ===== verification/Lock_Manager_Inv.thy ===== *)
theory Lock_Manager_Inv
  imports Lock_Manager
begin

text \<open>
  Invariants of the lock manager. The rows of \<^verbatim>\<open>txns.csv\<close> and \<^verbatim>\<open>locks_held.csv\<close> form two
  tables: transaction ids identify the rows of the first, pairs of transaction and lock id those
  of the second, and every row of the second refers to a row of the first. Pointers held by
  transactions and by the lock table are valid, and the loop that closes all transactions
  terminates.
\<close>

section \<open>Rows of one transaction\<close>

definition held_key :: "held_row \<Rightarrow> u64 \<times> u64" where
  "held_key r = (hr_txn_id r, hr_lock_id r)"

lemma locks_held_rows_keys:
  "locks_held_rows heap tid ts seen = Inr (rows, ds) \<Longrightarrow>
     distinct (map hr_lock_id rows) \<and> (\<forall>r \<in> set rows. hr_txn_id r = tid \<and> hr_lock_id r \<notin> set seen)"
proof (induction ts arbitrary: seen rows ds)
  case (Cons t rest)
  from Cons.prems Cons.IH show ?case
    by (fastforce simp: Let_def bindE_Inr_iff split: if_splits list.splits)
qed simp

lemma locks_held_rows_total:
  "\<forall>t \<in> set ts. has_sub (heap ! txn_lock t) (txn_sub t) \<Longrightarrow>
     \<exists>rows ds. locks_held_rows heap tid ts seen = Inr (rows, ds)"
proof (induction ts arbitrary: seen)
  case (Cons t rest)
  then obtain i where i: "getID (heap ! txn_lock t) (txn_sub t) = Inr i"
    by (auto elim: has_sub_getIDE)
  from Cons have "\<exists>rows ds. locks_held_rows heap tid rest s = Inr (rows, ds)" for s by simp
  then have "\<exists>rows ds. locks_held_rows heap tid rest seen = Inr (rows, ds)"
    and "\<exists>rows ds. locks_held_rows heap tid rest (i # seen) = Inr (rows, ds)" by blast+
  with i show ?case by (auto simp: Let_def split: list.splits)
qed simp

text \<open>
  A lock of the stack that is held and whose acquisition is recorded appears in the rows.
\<close>

lemma locks_held_rows_complete:
  assumes "locks_held_rows heap tid ts seen = Inr (rows, ds)" and "t \<in> set ts"
    and "isHeld (heap ! txn_lock t)" and "lastNPos (heap ! txn_lock t) \<noteq> []"
    and "getID (heap ! txn_lock t) (txn_sub t) = Inr i"
  shows "i \<in> set seen \<or> (\<exists>r \<in> set rows. hr_lock_id r = i)"
  using assms
proof (induction ts arbitrary: seen rows ds)
  case (Cons u rest)
  from Cons.prems(1,3-5) have
    "(\<exists>ds'. locks_held_rows heap tid rest seen = Inr (rows, ds') \<and> (u = t \<longrightarrow> i \<in> set seen)) \<or>
     (\<exists>rows' ds' r. locks_held_rows heap tid rest (hr_lock_id r # seen) = Inr (rows', ds') \<and>
        rows = r # rows' \<and> (u = t \<longrightarrow> i = hr_lock_id r))"
    by (fastforce simp: Let_def bindE_Inr_iff split: if_splits list.splits)
  then show ?case
    using Cons.IH Cons.prems(2-5) by fastforce
qed simp

section \<open>Identifiers\<close>

definition uniq :: "'a multiset \<Rightarrow> bool" where
  "uniq M \<longleftrightarrow> (\<forall>i. count M i \<le> 1)"

lemma uniq_mset_iff: "uniq (mset xs) \<longleftrightarrow> distinct xs"
proof
  assume u: "uniq (mset xs)"
  show "distinct xs"
    unfolding distinct_count_atmost_1
  proof
    fix a
    have le: "count (mset xs) a \<le> 1" using u by (simp add: uniq_def)
    show "count (mset xs) a = (if a \<in> set xs then 1 else 0)"
    proof (cases "a \<in> set xs")
      case True
      then have "0 < count (mset xs) a" by simp
      with le have "count (mset xs) a = 1" by linarith
      with True show ?thesis by simp
    qed (simp add: count_eq_zero_iff)
  qed
qed (auto simp: uniq_def distinct_count_atmost_1)

lemma uniq_mono: "N \<subseteq># M \<Longrightarrow> uniq M \<Longrightarrow> uniq N"
  by (metis le_trans mset_subset_eq_count uniq_def)

lemma uniq_add_mset: "uniq (add_mset x M) \<longleftrightarrow> x \<notin># M \<and> uniq M"
proof
  assume u: "uniq (add_mset x M)"
  then have "count (add_mset x M) x \<le> 1" unfolding uniq_def by blast
  then have "x \<notin># M" by (simp add: count_eq_zero_iff)
  moreover have "uniq M" by (rule uniq_mono[OF _ u]) simp
  ultimately show "x \<notin># M \<and> uniq M" ..
next
  assume "x \<notin># M \<and> uniq M"
  then show "uniq (add_mset x M)" by (auto simp: uniq_def count_eq_zero_iff)
qed

text \<open>
  \<open>ids_inv lm M\<close>: the ids \<open>M\<close> of the open transactions and those of the written ones are all
  different and below the next free one, and the two tables are consistent.
\<close>

definition ids_inv :: "LockManager \<Rightarrow> u64 multiset \<Rightarrow> bool" where
  "ids_inv lm M \<longleftrightarrow>
     uniq (M + mset (map tr_id (m_txnsOFile lm))) \<and>
     (\<forall>i \<in># M + mset (map tr_id (m_txnsOFile lm)). i < m_nextTXNID lm) \<and>
     distinct (map held_key (m_locksHeldOFile lm)) \<and>
     hr_txn_id ` set (m_locksHeldOFile lm) \<subseteq> tr_id ` set (m_txnsOFile lm)"

lemma ids_inv_mono: "ids_inv lm M \<Longrightarrow> N \<subseteq># M \<Longrightarrow> ids_inv lm N"
proof -
  let ?R = "mset (map tr_id (m_txnsOFile lm))"
  assume inv: "ids_inv lm M" and sub: "N \<subseteq># M"
  then have "N + ?R \<subseteq># M + ?R" by (rule_tac subset_mset.add_right_mono)
  moreover have "uniq (M + ?R)" and "\<forall>i \<in># M + ?R. i < m_nextTXNID lm"
    using inv by (simp_all add: ids_inv_def)
  ultimately have "uniq (N + ?R)" and "\<forall>i \<in># N + ?R. i < m_nextTXNID lm"
    by (blast intro: uniq_mono dest: mset_subset_eqD)+
  with inv show ?thesis by (simp add: ids_inv_def)
qed

lemma ids_inv_frame [simp]:
  "ids_inv (lm\<lparr>m_cerr := ds\<rparr>) M = ids_inv lm M"
  "ids_inv (lm\<lparr>m_activeTXNs := a\<rparr>) M = ids_inv lm M"
  "ids_inv (lm\<lparr>m_heap := h\<rparr>) M = ids_inv lm M"
  by (simp_all add: ids_inv_def)

lemma ids_inv_record:
  assumes inv: "ids_inv lm (add_mset (txn_id t) M)"
    and rec: "record_txn ts ctxOld t below lm = Inr lm'"
  shows "ids_inv lm' M"
proof -
  obtain rows ds where
    rows: "locks_held_rows (m_heap lm) (txn_id t) (rev (t # below)) [] = Inr (rows, ds)" and
    lm': "lm' = lm\<lparr>m_txnsOFile := m_txnsOFile lm @
               [\<lparr>tr_id = txn_id t, tr_start_ts = start_ts t, tr_start_ctx = start_ctx t,
                 tr_end_ts = ts, tr_end_ctx = ctxOld\<rparr>],
             m_locksHeldOFile := m_locksHeldOFile lm @ rows, m_cerr := m_cerr lm @ ds\<rparr>"
    using rec by (auto simp: record_txn_def bindE_Inr_iff)
  note k = locks_held_rows_keys[OF rows]
  have old: "txn_id t \<notin> hr_txn_id ` set (m_locksHeldOFile lm)"
    using inv by (auto simp: ids_inv_def uniq_add_mset)
  have "map held_key rows = map (\<lambda>i. (txn_id t, i)) (map hr_lock_id rows)"
    using k by (auto simp: held_key_def)
  then have d: "distinct (map held_key rows)"
    using k by (auto simp: distinct_map inj_on_def)
  have "held_key ` set rows \<inter> held_key ` set (m_locksHeldOFile lm) = {}"
    using k old by (auto simp: held_key_def)
  with d k inv show ?thesis
    unfolding ids_inv_def lm' by (auto simp: add_mset_commute)
qed

lemma ids_inv_fresh:
  assumes "ids_inv lm M" and "unat (m_nextTXNID lm) + 1 < 2 ^ 64"
  shows "ids_inv (lm\<lparr>m_nextTXNID := m_nextTXNID lm + 1\<rparr>) (add_mset (m_nextTXNID lm) M)"
proof -
  have lt: "i < m_nextTXNID lm + 1" if "i \<le> m_nextTXNID lm" for i
    using that assms(2) by (simp add: word_less_nat_alt word_le_nat_alt unat_word_ariths)
  have "m_nextTXNID lm \<notin># M + mset (map tr_id (m_txnsOFile lm))"
    using assms(1) by (auto simp: ids_inv_def)
  with assms(1) lt show ?thesis
    unfolding ids_inv_def by (auto simp: uniq_add_mset intro!: lt dest: less_imp_le)
qed

lemma finishTXN_loop_ids:
  "finishTXN_loop p ts sub rr ctx ctxOld stk rs lm = Inr (found, stk', lm') \<Longrightarrow>
     ids_inv lm (mset (map txn_id stk) + mset (map txn_id rs) + M) \<Longrightarrow>
     unat (m_nextTXNID lm) + length (takeWhile (\<lambda>t. txn_key t \<noteq> (p, sub)) stk) < 2 ^ 64 \<Longrightarrow>
     ids_inv lm' (mset (map txn_id stk') + M)"
proof (induction stk arbitrary: rs lm)
  case (Cons t below)
  let ?K = "mset (map txn_id below) + mset (map txn_id rs) + M"
  from Cons.prems(1) show ?case
  proof (rule finishTXN_loop_ConsE)
    fix lm1
    assume r: "(if \<not> SKIP_EMPTY_TXNS \<or> memAccessCounter t > 0
        then record_txn ts ctxOld t below lm else Inr lm) = Inr lm1"
      and n1: "m_nextTXNID lm1 = m_nextTXNID lm"
      and step: "txn_key t = (p, sub) \<and> found \<and>
       ((\<exists>ds. rr \<and> lm' = lm1\<lparr>m_cerr := m_cerr lm1 @ ds\<rparr> \<and>
          stk' = rs @ filter (\<lambda>t. txn_key t \<noteq> (p, READER_LOCK)) below) \<or>
        (\<not> rr \<and> lm' = lm1 \<and> stk' = rs @ below)) \<or>
     txn_key t \<noteq> (p, sub) \<and>
       (\<exists>ds. finishTXN_loop p ts sub rr ctx ctxOld below
          (rs @ [restart_txn (m_nextTXNID lm) ts ctx t])
          (lm1\<lparr>m_cerr := m_cerr lm1 @ ds, m_nextTXNID := m_nextTXNID lm + 1\<rparr>) = Inr (found, stk', lm'))"
    have pre: "ids_inv lm (add_mset (txn_id t) ?K)"
      using Cons.prems(2) by simp
    then have "ids_inv lm ?K" by (rule ids_inv_mono) simp
    with r pre have i1: "ids_inv lm1 ?K"
      by (auto split: if_splits intro: ids_inv_record)
    have flt: "image_mset txn_id (filter_mset Q (mset below)) \<subseteq># image_mset txn_id (mset below)" for Q
      by (simp add: image_mset_subseteq_mono)
    from step show ?case
    proof (elim disjE conjE exE)
      fix ds
      assume "lm' = lm1\<lparr>m_cerr := m_cerr lm1 @ ds\<rparr>"
        and "stk' = rs @ filter (\<lambda>t. txn_key t \<noteq> (p, READER_LOCK)) below"
      moreover have "mset (map txn_id stk') + M \<subseteq># ?K"
        using flt by (simp add: \<open>stk' = _\<close> subset_mset.add_mono ac_simps)
      ultimately show ?thesis using n1 ids_inv_mono[OF i1] by simp
    next
      assume "lm' = lm1" "stk' = rs @ below"
      with i1 n1 show ?thesis by (simp add: ac_simps)
    next
      fix ds
      assume nk: "txn_key t \<noteq> (p, sub)"
      assume rec: "finishTXN_loop p ts sub rr ctx ctxOld below
          (rs @ [restart_txn (m_nextTXNID lm) ts ctx t])
          (lm1\<lparr>m_cerr := m_cerr lm1 @ ds, m_nextTXNID := m_nextTXNID lm + 1\<rparr>) = Inr (found, stk', lm')"
      let ?lm2 = "lm1\<lparr>m_cerr := m_cerr lm1 @ ds\<rparr>"
      have "ids_inv (?lm2\<lparr>m_nextTXNID := m_nextTXNID ?lm2 + 1\<rparr>) (add_mset (m_nextTXNID ?lm2) ?K)"
        by (rule ids_inv_fresh) (use i1 n1 nk Cons.prems(3) in simp_all)
      then have "ids_inv (lm1\<lparr>m_cerr := m_cerr lm1 @ ds, m_nextTXNID := m_nextTXNID lm + 1\<rparr>)
         (mset (map txn_id below) + mset (map txn_id (rs @ [restart_txn (m_nextTXNID lm) ts ctx t])) + M)"
        by (simp add: n1 restart_txn_def)
      from Cons.IH[OF rec this] Cons.prems(3) nk show ?thesis
        by (simp add: unat_word_ariths)
    qed
  qed
qed simp

section \<open>The invariant of the lock manager\<close>

definition active_ids :: "LockManager \<Rightarrow> u64 list" where
  "active_ids lm = concat (map (\<lambda>kv. map txn_id (snd kv)) (m_activeTXNs lm))"

definition sub_ids :: "rwlock \<Rightarrow> u64 list" where
  "sub_ids l = (case lk_class l of
     RWLock \<Rightarrow> [read_id l, write_id l] | RLock \<Rightarrow> [read_id l] | WLock \<Rightarrow> [write_id l])"

definition txns_ok :: "LockManager \<Rightarrow> bool" where
  "txns_ok lm \<longleftrightarrow> omap_ok (m_activeTXNs lm) \<and>
     (\<forall>ctx. \<forall>(p, sub) \<in> set (held lm ctx). p < length (m_heap lm) \<and> has_sub (lock_at lm p) sub)"

definition locks_ok :: "LockManager \<Rightarrow> bool" where
  "locks_ok lm \<longleftrightarrow> omap_ok (m_locks lm) \<and>
     (\<forall>a p. omap_lookup (m_locks lm) a = Some p \<longrightarrow>
        p < length (m_heap lm) \<and> lockAddress (lock_at lm p) = a)"

definition lock_ids_ok :: "LockManager \<Rightarrow> bool" where
  "lock_ids_ok lm \<longleftrightarrow> distinct (concat (map sub_ids (m_heap lm))) \<and>
     (\<forall>i \<in> set (concat (map sub_ids (m_heap lm))). i < m_nextLockID lm)"

definition lm_ok :: "LockManager \<Rightarrow> bool" where
  "lm_ok lm \<longleftrightarrow> txns_ok lm \<and> locks_ok lm \<and> lock_ids_ok lm \<and> ids_inv lm (mset (active_ids lm))"

lemma new_LockManager_ok: "lm_ok new_LockManager"
  by (simp add: lm_ok_def new_LockManager_def txns_ok_def locks_ok_def lock_ids_ok_def ids_inv_def
      active_ids_def held_def txn_stack_def uniq_def)

subsection \<open>One context at a time\<close>

lemma omap_update_split:
  assumes "omap_ok m"
  shows "\<exists>rest. mset (concat (map (\<lambda>kv. map f (snd kv)) m)) =
       mset (map f (case omap_lookup m k of None \<Rightarrow> [] | Some d \<Rightarrow> d)) + rest \<and>
     (\<forall>v. mset (concat (map (\<lambda>kv. map f (snd kv)) (omap_update k v m))) = mset (map f v) + rest)"
  using assms
proof (induction m)
  case (Cons e m)
  obtain k' d where e: "e = (k', d)" by (cases e)
  have ok: "omap_ok m" and above: "\<forall>x \<in> set (omap_keys m). k' < x"
    using Cons.prems by (simp_all add: e omap_ok_Cons)
  consider "k < k'" | "k = k'" | "k' < k" by (rule linorder_cases)
  then show ?case
  proof cases
    case 1
    then have "omap_lookup m k = None"
      using above by (force simp: map_of_eq_None_iff omap_keys_def)
    with 1 show ?thesis
      by (intro exI[of _ "mset (concat (map (\<lambda>kv. map f (snd kv)) (e # m)))"]) (auto simp: e)
  next
    case 2
    then show ?thesis by (auto simp: e)
  next
    case 3
    from Cons.IH[OF ok] obtain rest where
      "mset (concat (map (\<lambda>kv. map f (snd kv)) m)) =
         mset (map f (case omap_lookup m k of None \<Rightarrow> [] | Some d \<Rightarrow> d)) + rest"
      "\<forall>v. mset (concat (map (\<lambda>kv. map f (snd kv)) (omap_update k v m))) = mset (map f v) + rest"
      by blast
    with 3 show ?thesis
      by (intro exI[of _ "mset (map f d) + rest"]) (auto simp: e ac_simps)
  qed
qed simp

lemma active_ids_split:
  assumes "txns_ok lm"
  obtains rest where "mset (active_ids lm) = mset (map txn_id (txn_stack lm ctx)) + rest"
    and "\<And>lm' d. m_activeTXNs lm' = m_activeTXNs lm \<Longrightarrow>
       mset (active_ids (set_stack ctx d lm')) = mset (map txn_id d) + rest"
proof -
  have "omap_ok (m_activeTXNs lm)" using assms by (simp add: txns_ok_def)
  from omap_update_split[OF this, of txn_id ctx] obtain rest where
    "mset (active_ids lm) = mset (map txn_id (txn_stack lm ctx)) + rest"
    "\<And>d. mset (concat (map (\<lambda>kv. map txn_id (snd kv)) (omap_update ctx d (m_activeTXNs lm)))) =
       mset (map txn_id d) + rest"
    by (auto simp: active_ids_def txn_stack_def)
  then show ?thesis by (intro that) (simp_all add: active_ids_def set_stack_def)
qed

lemma omap_ok_set_stack: "omap_ok (m_activeTXNs lm) \<Longrightarrow> omap_ok (m_activeTXNs (set_stack ctx d lm))"
  by (simp add: set_stack_def omap_ok_update)

lemma same_locks_ok:
  assumes "same_locks lm lm'"
  shows "locks_ok lm' = locks_ok lm" "lock_ids_ok lm' = lock_ids_ok lm"
  using assms by (simp_all add: locks_ok_def lock_ids_ok_def same_locks_def lock_at_def)

lemma spec_finish_subset: "set (spec_finish p sub rr h) \<subseteq> set h"
proof -
  have "set (tl (dropWhile P h)) \<subseteq> set h" for P
    by (induction h) auto
  then show ?thesis
    by (auto simp: spec_finish_def flushed_def Let_def dest: set_takeWhileD)
qed

lemma finishTXN_txns_ok:
  assumes "txns_ok lm" and fin: "finishTXN p ts sub rr ctx ctxOld lm = Inr (found, lm')"
  shows "txns_ok lm'"
proof -
  obtain stk lm2 where lm': "lm' = set_stack ctx stk lm2" and "m_activeTXNs lm2 = m_activeTXNs lm"
    using fin finishTXN_loop_frame
    by (fastforce simp: finishTXN_def bindE_Inr_iff dest: print_error_frame split: if_splits)
  then have "omap_ok (m_activeTXNs lm')"
    using assms(1) by (simp add: txns_ok_def omap_ok_set_stack set_stack_def omap_ok_update)
  moreover have "set (held lm' c) \<subseteq> set (held lm c)" for c
    using finishTXN_held(2)[OF fin] spec_finish_subset by auto
  ultimately show ?thesis
    using assms(1) finishTXN_held(3)[OF fin]
    by (fastforce simp: txns_ok_def same_locks_def lock_at_def)
qed

lemma finishTXN_ids:
  assumes ok: "txns_ok lm" and inv: "ids_inv lm (mset (active_ids lm))"
    and fin: "finishTXN p ts sub rr ctx ctxOld lm = Inr (found, lm')"
    and room: "unat (m_nextTXNID lm) +
       length (takeWhile (\<lambda>t. txn_key t \<noteq> (p, sub)) (txn_stack lm ctx)) < 2 ^ 64"
  shows "ids_inv lm' (mset (active_ids lm'))"
proof -
  obtain stk lm1 lm2 where
    1: "finishTXN_loop p ts sub rr ctx ctxOld (txn_stack lm ctx) [] lm = Inr (found, stk, lm1)" and
    2: "(if \<not> found then print_error p sub (NoMatchingTXN p) lm1 else Inr lm1) = Inr lm2" and
    3: "lm' = set_stack ctx stk lm2"
    using fin by (auto simp: finishTXN_def bindE_Inr_iff)
  obtain rest where r: "mset (active_ids lm) = mset (map txn_id (txn_stack lm ctx)) + rest"
    and r': "\<And>lm' d. m_activeTXNs lm' = m_activeTXNs lm \<Longrightarrow>
       mset (active_ids (set_stack ctx d lm')) = mset (map txn_id d) + rest"
    using active_ids_split[OF ok, of ctx] by blast
  have "ids_inv lm1 (mset (map txn_id stk) + rest)"
    using finishTXN_loop_ids[OF 1 _ room, of rest] inv by (simp add: r)
  then have "ids_inv lm2 (mset (map txn_id stk) + rest)" and "m_activeTXNs lm2 = m_activeTXNs lm1"
    using 2 by (auto dest: print_error_frame split: if_splits)
  moreover have "m_activeTXNs lm1 = m_activeTXNs lm"
    using finishTXN_loop_frame[OF 1] by simp
  ultimately show ?thesis
    using r'[of lm2 stk] by (simp add: 3) (simp add: set_stack_def)
qed

subsection \<open>Finishing never fails on valid transactions\<close>

definition txn_ok :: "LockManager \<Rightarrow> TXN \<Rightarrow> bool" where
  "txn_ok lm t \<longleftrightarrow> has_sub (lock_at lm (txn_lock t)) (txn_sub t)"

lemma txns_ok_stack: "txns_ok lm \<Longrightarrow> t \<in> set (txn_stack lm ctx) \<Longrightarrow> txn_ok lm t"
  by (fastforce simp: txns_ok_def txn_ok_def held_def txn_key_def)

lemma record_txn_total:
  "\<forall>u \<in> set (t # below). txn_ok lm u \<Longrightarrow> \<exists>lm'. record_txn ts ctxOld t below lm = Inr lm'"
  using locks_held_rows_total[of "rev (t # below)" "m_heap lm" "txn_id t" "[]"]
  by (fastforce simp: record_txn_def txn_ok_def lock_at_def)

lemma flush_readers_total:
  "(p, WRITER_LOCK) \<notin> txn_key ` set ts \<Longrightarrow> \<exists>r. flush_readers heap p ts = Inr r"
proof (induction ts)
  case (Cons t rest)
  then obtain r where r: "flush_readers heap p rest = Inr r" by auto
  show ?case
  proof (cases "txn_lock t = p")
    case True
    with Cons.prems have "txn_sub t = READER_LOCK"
      by (cases "txn_sub t") (auto simp: txn_key_def)
    with True r show ?thesis by simp
  qed (cases r, simp add: r)
qed auto

lemma finishTXN_loop_total:
  "\<forall>u \<in> set stk. txn_ok lm u \<Longrightarrow>
     (rr \<longrightarrow> count_list (map txn_key stk) (p, WRITER_LOCK) \<le> (if sub = WRITER_LOCK then 1 else 0)) \<Longrightarrow>
     \<exists>r. finishTXN_loop p ts sub rr ctx ctxOld stk rs lm = Inr r"
proof (induction stk arbitrary: rs lm)
  case (Cons t below)
  have "\<exists>lm1. (if \<not> SKIP_EMPTY_TXNS \<or> memAccessCounter t > 0
      then record_txn ts ctxOld t below lm else Inr lm) = Inr lm1"
    using record_txn_total[OF Cons.prems(1), of ts ctxOld] by simp
  then obtain lm1 where 1: "(if \<not> SKIP_EMPTY_TXNS \<or> memAccessCounter t > 0
      then record_txn ts ctxOld t below lm else Inr lm) = Inr lm1" by blast
  then have sl: "same_locks lm lm1" by (auto dest: record_txn_frame split: if_splits)
  then have "has_sub (lock_at lm1 (txn_lock t)) (txn_sub t)"
    using Cons.prems by (simp add: txn_ok_def same_locks_def lock_at_def)
  then have "\<exists>lm2. (if txn_lock t = p
      then print_error p (txn_sub t) (SubLockMismatch p) lm1 else Inr lm1) = Inr lm2"
    by (auto intro: print_error_ok)
  then obtain lm2 where 2: "(if txn_lock t = p
      then print_error p (txn_sub t) (SubLockMismatch p) lm1 else Inr lm1) = Inr lm2" by blast
  then have "same_locks lm1 lm2"
    by (auto simp: same_locks_def dest: print_error_frame split: if_splits)
  with sl have below_ok: "\<forall>u \<in> set below. txn_ok (lm2\<lparr>m_nextTXNID := n\<rparr>) u" for n
    using Cons.prems(1) by (simp add: txn_ok_def same_locks_def lock_at_def)
  show ?case
  proof (cases "txn_is p sub t")
    case True
    then have "rr \<longrightarrow> (p, WRITER_LOCK) \<notin> txn_key ` set (rev below)"
      using Cons.prems(2) by (cases sub) (auto simp: txn_is_key count_list_0_iff)
    then have "rr \<longrightarrow> (\<exists>r. flush_readers (m_heap lm1) p (rev below) = Inr r)"
      using flush_readers_total by blast
    with True show ?thesis unfolding finishTXN_loop.simps(2) 1 bindE.simps by auto
  next
    case False
    then have "rr \<longrightarrow> count_list (map txn_key below) (p, WRITER_LOCK) \<le> (if sub = WRITER_LOCK then 1 else 0)"
      using Cons.prems(2) by (cases sub) (auto simp: txn_is_key split: if_splits)
    then have "\<exists>r. finishTXN_loop p ts sub rr ctx ctxOld below rs' (lm2\<lparr>m_nextTXNID := n\<rparr>) = Inr r"
      for rs' n by (rule Cons.IH[OF below_ok])
    with 2 False show ?thesis unfolding finishTXN_loop.simps(2) 1 bindE.simps by auto
  qed
qed auto

lemma finishTXN_total:
  assumes "txns_ok lm" and "has_sub (lock_at lm p) sub"
    and "rr \<longrightarrow> count_list (held lm ctx) (p, WRITER_LOCK) \<le> (if sub = WRITER_LOCK then 1 else 0)"
  shows "\<exists>found lm'. finishTXN p ts sub rr ctx ctxOld lm = Inr (found, lm')"
proof -
  have "\<forall>u \<in> set (txn_stack lm ctx). txn_ok lm u"
    using txns_ok_stack[OF assms(1)] by blast
  from finishTXN_loop_total[OF this assms(3)[unfolded held_def], of ts ctx ctxOld "[]"]
  obtain found stk lm1 where
    1: "finishTXN_loop p ts sub rr ctx ctxOld (txn_stack lm ctx) [] lm = Inr (found, stk, lm1)"
    by (metis prod_cases3)
  have "has_sub (lock_at lm1 p) sub"
    using finishTXN_loop_frame[OF 1] assms(2) by (simp add: same_locks_def lock_at_def)
  then have "\<exists>lm2. print_error p sub (NoMatchingTXN p) lm1 = Inr lm2" by (rule print_error_ok)
  then show ?thesis by (cases found) (auto simp: finishTXN_def 1)
qed

subsection \<open>Closing all transactions\<close>

lemma unat_u64_less: "unat (w :: u64) < 18446744073709551616"
  using unsigned_less[of w, where ?'a = nat] by simp

lemma closeCtxTXNs_closes:
  "length (txn_stack lm ctx) = n \<Longrightarrow> txns_ok lm \<Longrightarrow> ids_inv lm (mset (active_ids lm)) \<Longrightarrow>
     \<exists>lm'. closeCtxTXNs ctx ts lm = Some (Inr lm') \<and> held lm' = (held lm)(ctx := []) \<and>
       same_locks lm lm' \<and> txns_ok lm' \<and> ids_inv lm' (mset (active_ids lm'))"
proof (induction n arbitrary: lm)
  case 0
  then show ?case
    by (subst closeCtxTXNs.simps) (auto simp: getActiveTXN_def held_def)
next
  case (Suc n)
  then obtain t below where stk: "txn_stack lm ctx = t # below" by (cases "txn_stack lm ctx") auto
  let ?lm = "lm\<lparr>m_cerr := m_cerr lm @ [StillActive ctx (length (txn_stack lm ctx))]\<rparr>"
  have ok: "txns_ok ?lm" and inv: "ids_inv ?lm (mset (active_ids ?lm))"
    using Suc.prems by (simp_all add: txns_ok_def held_def lm_simps active_ids_def)
  have "has_sub (lock_at ?lm (txn_lock t)) (txn_sub t)"
    using txns_ok_stack[OF Suc.prems(2), of t ctx] by (simp add: stk txn_ok_def lm_simps)
  then obtain found lm1 where
    fin: "finishTXN (txn_lock t) ts (txn_sub t) False ctx ctx ?lm = Inr (found, lm1)"
    using finishTXN_total[OF ok, where rr = False] by blast
  have key: "txn_key t = (txn_lock t, txn_sub t)" by (simp add: txn_key_def)
  have h1: "held lm1 = (held lm)(ctx := map txn_key below)"
    using finishTXN_held(2)[OF fin] by (simp add: spec_finish_remove1 held_def lm_simps stk key fun_eq_iff)
  have "ids_inv lm1 (mset (active_ids lm1))"
    by (rule finishTXN_ids[OF ok inv fin]) (simp add: lm_simps stk key unat_u64_less)
  moreover have "txns_ok lm1" using ok fin by (rule finishTXN_txns_ok)
  moreover have "length (txn_stack lm1 ctx) = n"
    using arg_cong[OF h1, of "\<lambda>h. length (h ctx)"] Suc.prems(1) by (simp add: held_def stk)
  ultimately obtain lm' where "closeCtxTXNs ctx ts lm1 = Some (Inr lm')"
    "held lm' = (held lm1)(ctx := [])" "same_locks lm1 lm'" "txns_ok lm'"
    "ids_inv lm' (mset (active_ids lm'))"
    using Suc.IH by blast
  then show ?case
    using fin h1 finishTXN_held(3)[OF fin]
    by (subst closeCtxTXNs.simps) (auto simp: getActiveTXN_def stk same_locks_def)
qed

lemma closeTXNs_of_closes:
  "txns_ok lm \<Longrightarrow> ids_inv lm (mset (active_ids lm)) \<Longrightarrow>
     \<exists>lm'. closeTXNs_of ctxs ts lm = Some (Inr lm') \<and>
       held lm' = (\<lambda>c. if c \<in> set ctxs then [] else held lm c) \<and>
       same_locks lm lm' \<and> txns_ok lm' \<and> ids_inv lm' (mset (active_ids lm'))"
proof (induction ctxs arbitrary: lm)
  case (Cons c cs)
  from closeCtxTXNs_closes[OF refl Cons.prems, of c ts] obtain lm1 where
    1: "closeCtxTXNs c ts lm = Some (Inr lm1)" "held lm1 = (held lm)(c := [])" "same_locks lm lm1"
      "txns_ok lm1" "ids_inv lm1 (mset (active_ids lm1))"
    by blast
  from Cons.IH[OF 1(4,5)] obtain lm' where
    "closeTXNs_of cs ts lm1 = Some (Inr lm')"
    "held lm' = (\<lambda>c. if c \<in> set cs then [] else held lm1 c)"
    "same_locks lm1 lm'" "txns_ok lm'" "ids_inv lm' (mset (active_ids lm'))"
    by blast
  with 1 show ?case by (auto simp: fun_eq_iff same_locks_def)
qed auto

lemma closeAllTXNs_closes:
  assumes "lm_ok lm"
  shows "\<exists>lm'. closeAllTXNs ts lm = Some (Inr lm') \<and> (\<forall>ctx. \<not> hasActiveTXN lm' ctx) \<and>
    same_locks lm lm' \<and> lm_ok lm'"
proof -
  have ok: "txns_ok lm" "ids_inv lm (mset (active_ids lm))"
    using assms by (simp_all add: lm_ok_def)
  from closeTXNs_of_closes[OF this, of "omap_keys (m_activeTXNs lm)" ts] obtain lm' where
    lm': "closeAllTXNs ts lm = Some (Inr lm')"
      "held lm' = (\<lambda>c. if c \<in> set (omap_keys (m_activeTXNs lm)) then [] else held lm c)"
      "same_locks lm lm'" "txns_ok lm'" "ids_inv lm' (mset (active_ids lm'))"
    by (auto simp: closeAllTXNs_def)
  have "held lm c = []" if "c \<notin> set (omap_keys (m_activeTXNs lm))" for c
    using that by (auto simp: held_def txn_stack_def omap_keys_def split: option.splits
        dest: map_of_SomeD intro: rev_image_eqI)
  then have "held lm' c = []" for c by (simp add: lm'(2))
  then have "\<forall>ctx. \<not> hasActiveTXN lm' ctx"
    by (simp add: held_def hasActiveTXN_def)
  moreover have "lm_ok lm'"
    using assms lm' same_locks_ok[OF lm'(3)] by (simp add: lm_ok_def)
  ultimately show ?thesis using lm' by blast
qed

subsection \<open>Every operation keeps the invariant\<close>

lemma startTXN_txns_ok:
  assumes "txns_ok lm" "p < length (m_heap lm)" "has_sub (lock_at lm p) sub"
  shows "txns_ok (startTXN p ts sub ctx lm)"
  using assms startTXN_same_locks[of lm p ts sub ctx]
  by (auto simp: txns_ok_def startTXN_held same_locks_def lock_at_def)
    (simp add: startTXN_def set_stack_def omap_ok_update)

lemma startTXN_lm_ok:
  assumes ok: "lm_ok lm" and p: "p < length (m_heap lm)" "has_sub (lock_at lm p) sub"
    and room: "unat (m_nextTXNID lm) + 1 < 2 ^ 64"
  shows "lm_ok (startTXN p ts sub ctx lm)"
proof -
  let ?lm = "lm\<lparr>m_nextTXNID := m_nextTXNID lm + 1\<rparr>"
  have txns: "txns_ok lm" and inv: "ids_inv lm (mset (active_ids lm))"
    using ok by (simp_all add: lm_ok_def)
  obtain rest where r: "mset (active_ids lm) = mset (map txn_id (txn_stack lm ctx)) + rest"
    and r': "\<And>lm' d. m_activeTXNs lm' = m_activeTXNs lm \<Longrightarrow>
       mset (active_ids (set_stack ctx d lm')) = mset (map txn_id d) + rest"
    using active_ids_split[OF txns, of ctx] by blast
  have "ids_inv (startTXN p ts sub ctx lm) (mset (active_ids (startTXN p ts sub ctx lm)))"
    using ids_inv_fresh[OF inv room] r'[of ?lm]
    by (simp add: startTXN_def r) (simp add: set_stack_def)
  moreover have "txns_ok (startTXN p ts sub ctx lm)"
    by (rule startTXN_txns_ok[OF txns p])
  ultimately show ?thesis
    using ok same_locks_ok[OF startTXN_same_locks] by (simp add: lm_ok_def)
qed

lemma finishTXN_lm_ok:
  assumes ok: "lm_ok lm" and fin: "finishTXN p ts sub rr ctx ctxOld lm = Inr (found, lm')"
    and room: "unat (m_nextTXNID lm) + length (txn_stack lm ctx) < 2 ^ 64"
  shows "lm_ok lm'"
proof -
  have txns: "txns_ok lm" and inv: "ids_inv lm (mset (active_ids lm))"
    using ok by (simp_all add: lm_ok_def)
  have "unat (m_nextTXNID lm) +
      length (takeWhile (\<lambda>t. txn_key t \<noteq> (p, sub)) (txn_stack lm ctx)) < 2 ^ 64"
    by (rule le_less_trans[OF _ room]) (simp add: length_takeWhile_le)
  then show ?thesis
    using ok finishTXN_ids[OF txns inv fin] finishTXN_txns_ok[OF txns fin]
      same_locks_ok[OF finishTXN_held(3)[OF fin]]
    by (simp add: lm_ok_def)
qed

lemma initIDs_sub_ids:
  assumes "initIDs i l = (n, l')"
  shows "sub_ids l' = (if lk_class l = RWLock then [i, i + 1] else [i])"
    and "n = i + of_nat (length (sub_ids l'))" and "lk_class l' = lk_class l"
    and "lockAddress l' = lockAddress l" and "lastNPos l' = lastNPos l"
    and "reader_count l' = reader_count l" and "writer_count l' = writer_count l"
  using assms by (auto simp: initIDs_def sub_ids_def split: lock_class.splits)

lemma allocLock_lm_ok:
  assumes ok: "lm_ok lm" and al: "allocLock addr allocID type varName flags lm = Inr (p, lm')"
    and room: "unat (m_nextLockID lm) + 2 < 2 ^ 64"
  shows "lm_ok lm'" and "p = length (m_heap lm)" and "findLock lm' addr = Some p"
    and "lockAddress (lock_at lm' p) = addr" and "\<not> isHeld (lock_at lm' p)"
    and "\<forall>q < length (m_heap lm). lock_at lm' q = lock_at lm q"
    and "held lm' = held lm"
proof -
  obtain cls n l where
    l: "initIDs (m_nextLockID lm) (new_RWLock cls addr allocID type varName flags) = (n, l)" and
    free: "omap_lookup (m_locks lm) addr = None" and p: "p = length (m_heap lm)" and
    lm': "lm' = lm\<lparr>m_nextLockID := n, m_heap := m_heap lm @ [l],
        m_locks := omap_update addr (length (m_heap lm)) (m_locks lm)\<rparr>"
    using al by (auto simp: allocLock_def split: option.splits prod.splits if_splits)
  note id = initIDs_sub_ids[OF l]
  show "p = length (m_heap lm)" by (rule p)
  show "findLock lm' addr = Some p" by (simp add: findLock_def lm' p omap_simps)
  have at: "lock_at lm' p = l" by (simp add: lock_at_def lm' p)
  show addr: "lockAddress (lock_at lm' p) = addr" by (simp add: at id new_RWLock_def)
  show "\<not> isHeld (lock_at lm' p)"
    by (simp add: at isHeld_def id new_RWLock_def split: lock_class.splits)
  show old: "\<forall>q < length (m_heap lm). lock_at lm' q = lock_at lm q"
    by (simp add: lock_at_def lm' nth_append)
  show h: "held lm' = held lm" by (simp add: held_def txn_stack_def lm' fun_eq_iff)
  have "m_activeTXNs lm' = m_activeTXNs lm" "length (m_heap lm') = Suc (length (m_heap lm))"
    by (simp_all add: lm')
  then have "txns_ok lm'"
    using ok old by (fastforce simp: lm_ok_def txns_ok_def h)
  moreover have "locks_ok lm'"
    using ok old addr by (auto simp: lm_ok_def locks_ok_def lm' p omap_simps omap_ok_update
        less_SucI split: if_splits)
  moreover have "lock_ids_ok lm'"
  proof -
    let ?n = "m_nextLockID lm"
    have lt: "?n < ?n + 1" "?n + 1 < ?n + 2" "?n < ?n + 2"
      using room by (simp_all add: word_less_nat_alt unat_word_ariths)
    have old_lt: "\<forall>i \<in> set (concat (map sub_ids (m_heap lm))). i < ?n"
      and dist: "distinct (concat (map sub_ids (m_heap lm)))"
      using ok by (auto simp: lm_ok_def lock_ids_ok_def)
    then have "i \<noteq> ?n" "i \<noteq> ?n + 1" "i < ?n + 1" "i < ?n + 2"
      if "i \<in> set (concat (map sub_ids (m_heap lm)))" for i
      using that lt by (auto dest: order.strict_trans)
    with dist lt id(1,2) show ?thesis
      by (auto simp: lock_ids_ok_def lm' simp del: set_concat)
  qed
  moreover have "ids_inv lm' (mset (active_ids lm'))"
    using ok by (simp add: lm_ok_def lm' ids_inv_def active_ids_def)
  ultimately show "lm_ok lm'" by (simp add: lm_ok_def)
qed

lemma deleteLockByArea_lm_ok: "lm_ok lm \<Longrightarrow> lm_ok (deleteLockByArea address sz lm)"
proof -
  assume ok: "lm_ok lm"
  let ?Q = "\<lambda>kv. \<not> in_area address sz (lockAddress (lock_at lm (snd kv)))"
  let ?d = "deleteLockByArea address sz lm"
  have d: "m_locks ?d = filter ?Q (m_locks lm)" "m_heap ?d = m_heap lm"
    by (simp_all add: deleteLockByArea_def Let_def)
  have lo: "locks_ok lm" using ok by (simp add: lm_ok_def)
  have sub: "omap_lookup (m_locks lm) a = Some p" if "omap_lookup (m_locks ?d) a = Some p" for a p
  proof -
    have "(a, p) \<in> set (m_locks lm)" using map_of_SomeD[OF that] by (simp add: d)
    moreover have "distinct (map fst (m_locks lm))"
      using lo by (simp add: locks_ok_def omap_ok_distinct[unfolded omap_keys_def])
    ultimately show ?thesis by (simp add: map_of_eq_Some_iff)
  qed
  have "locks_ok ?d"
    unfolding locks_ok_def
  proof (intro conjI allI impI)
    show "omap_ok (m_locks ?d)"
      using lo by (simp add: d locks_ok_def omap_ok_def omap_keys_def sorted_wrt_map sorted_wrt_filter)
  next
    fix a p
    assume "omap_lookup (m_locks ?d) a = Some p"
    then have "omap_lookup (m_locks lm) a = Some p" by (rule sub)
    with lo show "p < length (m_heap ?d)" and "lockAddress (lock_at ?d p) = a"
      by (simp_all add: locks_ok_def lock_at_def d)
  qed
  moreover have "txns_ok (deleteLockByArea address sz lm)"
    using ok by (simp add: lm_ok_def txns_ok_def deleteLockByArea_def lock_at_def held_def
        txn_stack_def Let_def)
  moreover have "lock_ids_ok (deleteLockByArea address sz lm)"
    using ok by (simp add: lm_ok_def lock_ids_ok_def deleteLockByArea_def Let_def)
  ultimately show ?thesis
    using ok by (simp add: lm_ok_def ids_inv_def active_ids_def deleteLockByArea_def Let_def)
qed

lemma deleteLockByArea_findLock:
  assumes "lm_ok lm"
  shows "findLock (deleteLockByArea address sz lm) a =
    (if in_area address sz a then None else findLock lm a)"
proof -
  have d: "distinct (map fst (m_locks lm))"
    using assms by (simp add: lm_ok_def locks_ok_def omap_ok_distinct[unfolded omap_keys_def])
  have addr: "lockAddress (lock_at lm q) = b" if "(b, q) \<in> set (m_locks lm)" for b q
    using that d assms by (simp add: lm_ok_def locks_ok_def map_of_eq_Some_iff)
  then have "filter (\<lambda>kv. \<not> in_area address sz (lockAddress (lock_at lm (snd kv)))) (m_locks lm) =
      filter (\<lambda>kv. \<not> in_area address sz (fst kv)) (m_locks lm)"
    by (intro filter_cong) auto
  then show ?thesis
    using map_of_filter_fst[of "\<lambda>b. \<not> in_area address sz b" "m_locks lm" a]
    by (simp add: findLock_def deleteLockByArea_def Let_def)
qed

lemma findTXN_single:
  assumes "\<And>c. c \<noteq> ctx \<Longrightarrow> held lm c = []"
  shows "findTXN lm p sub ctx = ctx"
proof (cases "find (\<lambda>kv. hasActiveTXN lm (fst kv) \<and> list_ex (txn_is p sub) (snd kv)) (m_activeTXNs lm)")
  case (Some kv)
  then have "hasActiveTXN lm (fst kv)" by (auto simp: find_Some_iff)
  then have "fst kv = ctx" using assms by (auto simp: hasActiveTXN_def held_def)
  with Some show ?thesis by (simp add: findTXN_def)
qed (simp add: findTXN_def)

lemma isOnTXNStack_held: "isOnTXNStack lm ctx p sub \<longleftrightarrow> (p, sub) \<in> set (held lm ctx)"
  by (auto simp: isOnTXNStack_def held_def list_ex_iff txn_is_key image_iff eq_commute)

lemma findTXN_found:
  assumes "txns_ok lm"
  shows "(p, sub) \<in> set (held lm (findTXN lm p sub ctx)) \<or>
    (findTXN lm p sub ctx = ctx \<and> (\<forall>c. (p, sub) \<notin> set (held lm c)))"
proof (cases "find (\<lambda>kv. hasActiveTXN lm (fst kv) \<and> list_ex (txn_is p sub) (snd kv)) (m_activeTXNs lm)")
  case None
  have "(p, sub) \<notin> set (held lm c)" for c
  proof
    assume "(p, sub) \<in> set (held lm c)"
    then obtain t where t: "t \<in> set (txn_stack lm c)" "txn_is p sub t"
      by (auto simp: held_def txn_is_key)
    then obtain d where "(c, d) \<in> set (m_activeTXNs lm)" "txn_stack lm c = d"
      by (cases "omap_lookup (m_activeTXNs lm) c") (auto simp: txn_stack_def dest: map_of_SomeD)
    with None t show False
      by (force simp: find_None_iff hasActiveTXN_def list_ex_iff)
  qed
  with None show ?thesis by (simp add: findTXN_def)
next
  case (Some kv)
  then have mem: "kv \<in> set (m_activeTXNs lm)" and "list_ex (txn_is p sub) (snd kv)"
    by (auto simp: find_Some_iff)
  moreover have "txn_stack lm (fst kv) = snd kv"
    using assms mem om.entries_lookup[of "m_activeTXNs lm" "fst kv" "snd kv"]
    by (simp add: txns_ok_def txn_stack_def)
  ultimately show ?thesis
    using Some isOnTXNStack_held[of lm "fst kv" p sub]
    by (simp add: findTXN_def isOnTXNStack_def)
qed

section \<open>What the lock operations rely on\<close>

text \<open>
  The interface between the lock objects and the manager: per context a sequence of held sub
  locks, pushed by \<open>start\<close> and cut by \<open>finish\<close>. Everything the lock operations need to know
  about the effect on the number of transactions per sub lock follows from it.
\<close>

lemma count_list_remove1:
  "count_list (remove1 x xs) y = (if x = y then count_list xs y - 1 else count_list xs y)"
  by (induction xs) auto

lemma count_list_flushed:
  "count_list (flushed p h) k = (if k = (p, READER_LOCK) then 0 else count_list h k)"
  by (induction h) (auto simp: flushed_def)

lemma spec_finish_missing: "(p, sub) \<notin> set h \<Longrightarrow> spec_finish p sub rr h = h"
proof -
  assume "(p, sub) \<notin> set h"
  then have td: "takeWhile (\<lambda>k. k \<noteq> (p, sub)) h = h" "dropWhile (\<lambda>k. k \<noteq> (p, sub)) h = []"
    by (auto simp: takeWhile_eq_all_conv dropWhile_eq_Nil_conv)
  show ?thesis by (simp add: spec_finish_def Let_def td flushed_def)
qed

lemma count_list_spec_finish_writer:
  assumes "k \<noteq> (p, READER_LOCK)"
  shows "count_list (spec_finish p WRITER_LOCK True h) k = count_list (remove1 (p, WRITER_LOCK) h) k"
proof -
  have "count_list (spec_finish p WRITER_LOCK True h) k = count_list (spec_finish p WRITER_LOCK False h) k"
    using assms by (simp add: spec_finish_def Let_def count_list_flushed)
  then show ?thesis by (simp add: spec_finish_remove1)
qed

locale txn_stacks =
  fixes view :: "'s \<Rightarrow> int \<Rightarrow> (nat \<times> SUB_LOCK) list"
    and start :: "nat \<Rightarrow> u64 \<Rightarrow> SUB_LOCK \<Rightarrow> int \<Rightarrow> 's \<Rightarrow> 's"
    and finish :: "nat \<Rightarrow> u64 \<Rightarrow> SUB_LOCK \<Rightarrow> bool \<Rightarrow> int \<Rightarrow> int \<Rightarrow> 's \<Rightarrow> (bool \<times> 's) res"
  assumes view_start: "view (start p ts sub ctx s) = (view s)(ctx := (p, sub) # view s ctx)"
    and finish_found: "finish p ts sub rr ctx ctxOld s = Inr (found, s') \<Longrightarrow>
       found \<longleftrightarrow> (p, sub) \<in> set (view s ctx)"
    and view_finish: "finish p ts sub rr ctx ctxOld s = Inr (found, s') \<Longrightarrow>
       view s' = (view s)(ctx := spec_finish p sub rr (view s ctx))"
begin

lemma finish_after_start:
  assumes "finish p ts' sub False ctx ctxOld (start p ts sub ctx s) = Inr (found, s')"
  shows "found" and "view s' = view s"
  using finish_found[OF assms] view_finish[OF assms]
  by (simp_all add: view_start spec_finish_remove1)

lemma finish_missing:
  assumes "finish p ts sub rr ctx ctxOld s = Inr (found, s')" and "\<not> found"
  shows "view s' = view s"
  using finish_found[OF assms(1)] view_finish[OF assms(1)] assms(2)
  by (simp add: spec_finish_missing)

lemma finish_other_context:
  "finish p ts sub rr ctx ctxOld s = Inr (found, s') \<Longrightarrow> c \<noteq> ctx \<Longrightarrow> view s' c = view s c"
  by (simp add: view_finish)

lemma count_finish:
  "finish p ts sub False ctx ctxOld s = Inr (found, s') \<Longrightarrow>
     count_list (view s' ctx) k =
       (if k = (p, sub) then count_list (view s ctx) k - 1 else count_list (view s ctx) k)"
  by (auto simp: view_finish spec_finish_remove1 count_list_remove1)

lemma count_flush_readers:
  assumes "finish p ts READER_LOCK True ctx ctxOld s = Inr (found, s')"
  shows "count_list (view s' ctx) k =
    (if k = (p, READER_LOCK) then 0 else count_list (view s ctx) k)"
proof (cases found)
  case True
  with finish_found[OF assms] show ?thesis
    by (simp add: view_finish[OF assms] spec_finish_reader count_list_flushed)
next
  case False
  with finish_found[OF assms] finish_missing[OF assms] show ?thesis
    by (auto simp: count_list_0_iff)
qed

lemma count_flush_writer:
  assumes "finish p ts WRITER_LOCK True ctx ctxOld s = Inr (found, s')" and "k \<noteq> (p, READER_LOCK)"
  shows "count_list (view s' ctx) k =
    (if k = (p, WRITER_LOCK) then count_list (view s ctx) k - 1 else count_list (view s ctx) k)"
  using assms(2)
  by (auto simp: view_finish[OF assms(1)] count_list_spec_finish_writer count_list_remove1)

end

interpretation lmgr: txn_stacks held startTXN finishTXN
  by unfold_locales (simp_all add: startTXN_held finishTXN_held)

end
