(* ===== verification/Lock_Transitions.thy ===== *)
theory Lock_Transitions
  imports Lock_Manager_Inv
begin

text \<open>
  The lock operations of \<^verbatim>\<open>rwlock.cc\<close>: \<open>writeTransition\<close> and \<open>readTransition\<close> update the
  counters and the acquisition positions of a lock and drive the transaction stacks of the lock
  manager; \<open>transition\<close> dispatches on the class of the lock object.
\<close>

section \<open>Pieces the two transitions share\<close>

definition strip_kernel_dir :: "string \<Rightarrow> string \<Rightarrow> string res" where
  "strip_kernel_dir kernelDir file =
     (if kernelDir = [] then Inl (UndefinedBehaviour ''back() of an empty string'')
      else
        (let tmp = (if last kernelDir \<noteq> CHR ''/'' then kernelDir @ ''/'' else kernelDir)
         in Inr (if str_find tmp file \<noteq> None then drop (length tmp) file else file)))"

definition add_count :: "SUB_LOCK \<Rightarrow> int \<Rightarrow> rwlock \<Rightarrow> rwlock" where
  "add_count sub d l = (case sub of
       READER_LOCK \<Rightarrow> l\<lparr>reader_count := reader_count l + d\<rparr>
     | WRITER_LOCK \<Rightarrow> l\<lparr>writer_count := writer_count l + d\<rparr>)"

definition the_count :: "SUB_LOCK \<Rightarrow> rwlock \<Rightarrow> int" where
  "the_count sub l = (case sub of READER_LOCK \<Rightarrow> reader_count l | WRITER_LOCK \<Rightarrow> writer_count l)"

definition pop_pos :: "nat \<Rightarrow> LockManager \<Rightarrow> LockManager res" where
  "pop_pos this lm = (case lastNPos (lock_at lm this) of
       [] \<Rightarrow> Inl (UndefinedBehaviour ''pop() of an empty stack'')
     | _ # ps \<Rightarrow> Inr (upd_lock this (\<lambda>l. l\<lparr>lastNPos := ps\<rparr>) lm))"

text \<open>
  Recording an acquisition: the counter, the position, and a new transaction.
\<close>

definition acquire ::
  "nat \<Rightarrow> SUB_LOCK \<Rightarrow> u64 \<Rightarrow> string \<Rightarrow> u64 \<Rightarrow> string \<Rightarrow> int \<Rightarrow> LockManager \<Rightarrow> LockManager res" where
  "acquire this sub ts file line kernelDir ctx lm =
     bindE (strip_kernel_dir kernelDir file) (\<lambda>lf.
     let pos = \<lparr>subLock = sub, lp_start = ts, lastLine = int_of_ull line, lastFile = lf\<rparr>;
         lm1 = upd_lock this (\<lambda>l. (add_count sub 1 l)\<lparr>lastNPos := pos # lastNPos l\<rparr>) lm
     in Inr (startTXN this ts sub ctx lm1))"

text \<open>
  Flushing the other side when it is still held: on success every recorded position is dropped
  and the counter is reset, with a message when positions and counter disagreed.
\<close>

definition flush_side :: "nat \<Rightarrow> SUB_LOCK \<Rightarrow> SUB_LOCK \<Rightarrow> u64 \<Rightarrow> int \<Rightarrow> LockManager \<Rightarrow> LockManager res" where
  "flush_side this side me ts ctx lm =
     bindE (print_error this me (case side of READER_LOCK \<Rightarrow> ReadSideHeld this
                                            | WRITER_LOCK \<Rightarrow> WriteSideHeld this) lm) (\<lambda>lm1.
     bindE (finishTXN this ts side True ctx ctx lm1) (\<lambda>(found, lm2).
     if found then
       (let n = int (length (lastNPos (lock_at lm2 this)));
            lm3 = upd_lock this (\<lambda>l. (add_count side (- n) l)\<lparr>lastNPos := []\<rparr>) lm2;
            left = the_count side (lock_at lm3 this)
        in if left \<noteq> 0 then
             bindE (print_error this me (case side of READER_LOCK \<Rightarrow> InconsistentReaderCount this left
                        | WRITER_LOCK \<Rightarrow> InconsistentWriterCount this left) lm3) (\<lambda>lm4.
             Inr (upd_lock this (add_count side (- left)) lm4))
           else Inr lm3)
     else print_error this me (CannotFlush this) lm2))"

definition invalid_state :: cxx_error where
  "invalid_state = LogicError ''Invalid state on reader-writer lock''"

text \<open>Releasing: the part the two V operations share.\<close>

definition release :: "nat \<Rightarrow> SUB_LOCK \<Rightarrow> u64 \<Rightarrow> int \<Rightarrow> LockManager \<Rightarrow> LockManager res" where
  "release this sub ts ctxOld lm =
     bindE
       (if lastNPos (lock_at lm this) \<noteq> [] then
          (let steal = (\<not> hasActiveTXN lm ctxOld \<or> \<not> isOnTXNStack lm ctxOld this sub);
               ctx = (if steal then findTXN lm this sub ctxOld else ctxOld)
           in bindE (if steal \<and> ctx = ctxOld \<and> \<not> hasActiveTXN lm ctx
                     then print_error this sub (NoRunningTXN this) lm else Inr lm) (\<lambda>lm1.
              bindE (finishTXN this ts sub False ctx ctxOld lm1) (\<lambda>(found, lm2).
              if found then pop_pos this lm2 else Inr lm2)))
        else print_error this sub (NoLastPosition this) lm) (\<lambda>lm3.
     if the_count sub (lock_at lm3 this) = 0 then print_error this sub (AlreadyReleased this) lm3
     else Inr (upd_lock this (add_count sub (-1)) lm3))"

section \<open>The transitions\<close>

definition writeTransition ::
  "nat \<Rightarrow> LOCK_OP \<Rightarrow> u64 \<Rightarrow> string \<Rightarrow> u64 \<Rightarrow> u32 \<Rightarrow> string \<Rightarrow> int \<Rightarrow> LockManager \<Rightarrow> LockManager res" where
  "writeTransition this lockOP ts file line flags kernelDir ctx lm0 =
     (let lm = upd_lock this (updateFlags flags) lm0; l = lock_at lm this in
      case lockOP of
        P_WRITE \<Rightarrow>
          bindE
            (if writer_count l = 0 \<and> reader_count l > 0 then
               flush_side this READER_LOCK WRITER_LOCK ts ctx lm
             else if writer_count l > 0 \<and> reader_count l = 0 then
               (if lk_flags l AND LOCK_FLAGS_RECURSIVE \<noteq> 0 then Inr lm
                else
                  bindE (print_error this WRITER_LOCK (AlreadyHeld this) lm) (\<lambda>lm1.
                  bindE (finishTXN this ts WRITER_LOCK False ctx ctx lm1) (\<lambda>(found, lm2).
                  if found then pop_pos this lm2 else Inr lm2)))
             else if writer_count l > 0 \<and> reader_count l > 0 then Inl invalid_state
             else Inr lm)
            (acquire this WRITER_LOCK ts file line kernelDir ctx)
      | V_WRITE \<Rightarrow> release this WRITER_LOCK ts ctx lm
      | P_READ \<Rightarrow> Inl (LogicError ''Invalid op on writer lock'')
      | V_READ \<Rightarrow> Inl (LogicError ''Invalid op on writer lock''))"

definition readTransition ::
  "nat \<Rightarrow> LOCK_OP \<Rightarrow> u64 \<Rightarrow> string \<Rightarrow> u64 \<Rightarrow> u32 \<Rightarrow> string \<Rightarrow> int \<Rightarrow> LockManager \<Rightarrow> LockManager res" where
  "readTransition this lockOP ts file line flags kernelDir ctx lm0 =
     (let lm = upd_lock this (updateFlags flags) lm0; l = lock_at lm this in
      case lockOP of
        P_WRITE \<Rightarrow> Inl (LogicError ''Invalid op on reader lock'')
      | V_WRITE \<Rightarrow> Inl (LogicError ''Invalid op on reader lock'')
      | P_READ \<Rightarrow>
          bindE
            (if writer_count l = 0 \<and> reader_count l > 0 then Inr lm
             else if writer_count l > 0 \<and> reader_count l = 0 then
               flush_side this WRITER_LOCK READER_LOCK ts ctx lm
             else if writer_count l > 0 \<and> reader_count l > 0 then Inl invalid_state
             else Inr lm)
            (acquire this READER_LOCK ts file line kernelDir ctx)
      | V_READ \<Rightarrow> release this READER_LOCK ts ctx lm)"

definition RLock_transition ::
  "nat \<Rightarrow> LOCK_OP \<Rightarrow> u64 \<Rightarrow> string \<Rightarrow> u64 \<Rightarrow> u32 \<Rightarrow> string \<Rightarrow> int \<Rightarrow> LockManager \<Rightarrow> LockManager res" where
  "RLock_transition this lockOP ts file line flags kernelDir ctx lm =
     readTransition this lockOP ts file line flags kernelDir ctx lm"

definition WLock_transition ::
  "nat \<Rightarrow> LOCK_OP \<Rightarrow> u64 \<Rightarrow> string \<Rightarrow> u64 \<Rightarrow> u32 \<Rightarrow> string \<Rightarrow> int \<Rightarrow> LockManager \<Rightarrow> LockManager res" where
  "WLock_transition this lockOP ts file line flags kernelDir ctx lm =
     writeTransition this lockOP ts file line flags kernelDir ctx lm"

definition transition ::
  "nat \<Rightarrow> LOCK_OP \<Rightarrow> u64 \<Rightarrow> string \<Rightarrow> u64 \<Rightarrow> u32 \<Rightarrow> string \<Rightarrow> int \<Rightarrow> LockManager \<Rightarrow> LockManager res" where
  transition_virtual: "transition this lockOP ts file line flags kernelDir ctx lm =
     (case lk_class (lock_at lm this) of
        RWLock \<Rightarrow> (if lockOP = P_WRITE \<or> lockOP = V_WRITE
                   then writeTransition this lockOP ts file line flags kernelDir ctx lm
                   else readTransition this lockOP ts file line flags kernelDir ctx lm)
      | RLock \<Rightarrow> RLock_transition this lockOP ts file line flags kernelDir ctx lm
      | WLock \<Rightarrow> WLock_transition this lockOP ts file line flags kernelDir ctx lm)"

lemmas transition_def = transition_virtual[unfolded RLock_transition_def WLock_transition_def]

end
