(* ===== verification/Lock_Paths.thy ===== *)
theory Lock_Paths
  imports Lock_Transitions
begin

text \<open>
  Every lock operation is a short path of elementary steps on the lock manager: changes of the
  lock object and messages, at most one finished transaction, at most one started one. Invariants
  of the manager are proved per step and carried over to all lock operations, on any number of
  contexts and for recursive locks as well.
\<close>

section \<open>Paths\<close>

text \<open>What a lock object keeps for its whole life: all but its flags, counters and positions.\<close>

definition lock_ident :: "rwlock \<Rightarrow> rwlock" where
  "lock_ident l = l\<lparr>lk_flags := 0, reader_count := 0, writer_count := 0, lastNPos := []\<rparr>"

definition quiet :: "LockManager \<Rightarrow> LockManager \<Rightarrow> bool" where
  "quiet lm lm' \<longleftrightarrow> m_activeTXNs lm' = m_activeTXNs lm \<and> m_nextTXNID lm' = m_nextTXNID lm \<and>
     m_nextLockID lm' = m_nextLockID lm \<and> m_locks lm' = m_locks lm \<and>
     m_txnsOFile lm' = m_txnsOFile lm \<and> m_locksHeldOFile lm' = m_locksHeldOFile lm \<and>
     length (m_heap lm') = length (m_heap lm) \<and>
     (\<forall>p < length (m_heap lm). lk_class (lock_at lm' p) = lk_class (lock_at lm p) \<and>
        sub_ids (lock_at lm' p) = sub_ids (lock_at lm p) \<and>
        lockAddress (lock_at lm' p) = lockAddress (lock_at lm p) \<and>
        lock_ident (lock_at lm' p) = lock_ident (lock_at lm p)) \<and>
     (\<exists>ds. m_cerr lm' = m_cerr lm @ ds)"

datatype lm_act = Finish bool | Start

inductive lm_path :: "lm_act list \<Rightarrow> LockManager \<Rightarrow> LockManager \<Rightarrow> bool" where
  stop: "lm_path [] lm lm"
| silent: "quiet lm lm1 \<Longrightarrow> lm_path as lm1 lm' \<Longrightarrow> lm_path as lm lm'"
| finish: "finishTXN p ts sub rr ctx ctxOld lm = Inr (found, lm1) \<Longrightarrow> lm_path as lm1 lm' \<Longrightarrow>
     lm_path (Finish rr # as) lm lm'"
| start: "p < length (m_heap lm) \<Longrightarrow> has_sub (lock_at lm p) sub \<Longrightarrow>
     lm_path as (startTXN p ts sub ctx lm) lm' \<Longrightarrow> lm_path (Start # as) lm lm'"

inductive_cases lm_path_NilE: "lm_path [] lm lm'"

lemma lm_path_append: "lm_path as lm lm1 \<Longrightarrow> lm_path bs lm1 lm' \<Longrightarrow> lm_path (as @ bs) lm lm'"
  by (induction rule: lm_path.induct) (auto intro: lm_path.intros)

lemma quiet_refl: "quiet lm lm"
  by (simp add: quiet_def)

lemma quiet_cerr: "quiet lm (lm\<lparr>m_cerr := m_cerr lm @ ds\<rparr>)"
  by (simp add: quiet_def lm_simps)

lemma quiet_upd_lock:
  assumes "p < length (m_heap lm)"
    and "lk_class (f (lock_at lm p)) = lk_class (lock_at lm p)"
    and "sub_ids (f (lock_at lm p)) = sub_ids (lock_at lm p)"
    and "lockAddress (f (lock_at lm p)) = lockAddress (lock_at lm p)"
    and "lock_ident (f (lock_at lm p)) = lock_ident (lock_at lm p)"
  shows "quiet lm (upd_lock p f lm)"
  using assms by (simp add: quiet_def lm_simps)

lemma quiet_path: "quiet lm lm' \<Longrightarrow> lm_path [] lm lm'"
  by (blast intro: lm_path.intros)

lemma finish_path: "finishTXN p ts sub rr ctx ctxOld lm = Inr (found, lm') \<Longrightarrow> lm_path [Finish rr] lm lm'"
  by (blast intro: lm_path.intros)

lemma print_error_path: "print_error p sub d lm = Inr lm' \<Longrightarrow> lm_path [] lm lm'"
  using quiet_cerr by (auto dest!: print_error_frame intro: quiet_path)

lemma print_error_cerr: "print_error p sub d lm = Inr lm' \<Longrightarrow> d \<in> set (m_cerr lm')"
  by (auto dest!: print_error_frame)

section \<open>What every path keeps\<close>

lemma finishTXN_cerr:
  assumes "finishTXN p ts sub rr ctx ctxOld lm = Inr (found, lm')"
  shows "\<exists>ds. m_cerr lm' = m_cerr lm @ ds"
proof -
  have loop: "\<exists>ds. m_cerr lm'' = m_cerr lm0 @ ds"
    if "finishTXN_loop p ts sub rr ctx ctxOld stk rs lm0 = Inr (b, stk', lm'')" for stk rs lm0 b stk' lm''
    using that
  proof (induction stk arbitrary: rs lm0)
    case (Cons t below)
    from Cons.prems show ?case
    proof (rule finishTXN_loop_ConsE)
      fix lm1
      assume r: "(if \<not> SKIP_EMPTY_TXNS \<or> memAccessCounter t > 0
          then record_txn ts ctxOld t below lm0 else Inr lm0) = Inr lm1"
        and step: "txn_key t = (p, sub) \<and> b \<and>
       ((\<exists>ds. rr \<and> lm'' = lm1\<lparr>m_cerr := m_cerr lm1 @ ds\<rparr> \<and>
          stk' = rs @ filter (\<lambda>t. txn_key t \<noteq> (p, READER_LOCK)) below) \<or>
        (\<not> rr \<and> lm'' = lm1 \<and> stk' = rs @ below)) \<or>
     txn_key t \<noteq> (p, sub) \<and>
       (\<exists>ds. finishTXN_loop p ts sub rr ctx ctxOld below
          (rs @ [restart_txn (m_nextTXNID lm0) ts ctx t])
          (lm1\<lparr>m_cerr := m_cerr lm1 @ ds, m_nextTXNID := m_nextTXNID lm0 + 1\<rparr>) = Inr (b, stk', lm''))"
      have "\<exists>ds. m_cerr lm1 = m_cerr lm0 @ ds"
        using r by (auto simp: record_txn_def bindE_Inr_iff split: if_splits)
      with step show ?thesis by (fastforce dest!: Cons.IH)
    qed
  qed simp
  from assms obtain b stk lm1 lm2 where
    1: "finishTXN_loop p ts sub rr ctx ctxOld (txn_stack lm ctx) [] lm = Inr (b, stk, lm1)" and
    2: "(if \<not> b then print_error p sub (NoMatchingTXN p) lm1 else Inr lm1) = Inr lm2" and
    3: "lm' = set_stack ctx stk lm2"
    by (auto simp: finishTXN_def bindE_Inr_iff)
  from loop[OF 1] 2 show ?thesis
    by (auto simp: 3 lm_simps dest!: print_error_frame split: if_splits)
qed

lemma startTXN_cerr: "m_cerr (startTXN p ts sub ctx lm) = m_cerr lm"
  by (simp add: startTXN_def lm_simps)

lemma lm_path_cerr: "lm_path as lm lm' \<Longrightarrow> \<exists>ds. m_cerr lm' = m_cerr lm @ ds"
proof (induction rule: lm_path.induct)
  case (silent lm lm1 as lm')
  then show ?case by (auto simp: quiet_def)
next
  case (finish p ts sub rr ctx ctxOld lm found lm1 as lm')
  then show ?case using finishTXN_cerr[OF finish(1)] by auto
qed (simp_all add: startTXN_cerr)

definition keeps_locks :: "LockManager \<Rightarrow> LockManager \<Rightarrow> bool" where
  "keeps_locks lm lm' \<longleftrightarrow> m_locks lm' = m_locks lm \<and> m_nextLockID lm' = m_nextLockID lm \<and>
     length (m_heap lm') = length (m_heap lm) \<and>
     (\<forall>p < length (m_heap lm). lk_class (lock_at lm' p) = lk_class (lock_at lm p) \<and>
        lock_ident (lock_at lm' p) = lock_ident (lock_at lm p))"

lemma same_locks_keeps: "same_locks lm lm' \<Longrightarrow> keeps_locks lm lm'"
  by (simp add: same_locks_def keeps_locks_def lock_at_def)

lemma keeps_locks_trans: "keeps_locks a b \<Longrightarrow> keeps_locks b c \<Longrightarrow> keeps_locks a c"
  by (simp add: keeps_locks_def)

lemma quiet_keeps: "quiet lm lm' \<Longrightarrow> keeps_locks lm lm'"
  by (simp add: quiet_def keeps_locks_def)

lemma lm_path_keeps: "lm_path as lm lm' \<Longrightarrow> keeps_locks lm lm'"
proof (induction rule: lm_path.induct)
  case (silent lm lm1 as lm')
  from quiet_keeps[OF silent(1)] silent(3) show ?case by (rule keeps_locks_trans)
next
  case (finish p ts sub rr ctx ctxOld lm found lm1 as lm')
  from same_locks_keeps[OF finishTXN_held(3)[OF finish(1)]] finish(3)
  show ?case by (rule keeps_locks_trans)
next
  case (start p lm sub as ts ctx lm')
  from same_locks_keeps[OF startTXN_same_locks] start(4) show ?case by (rule keeps_locks_trans)
qed (simp add: keeps_locks_def)

lemma quiet_txns_ok:
  assumes q: "quiet lm lm'" and ok: "txns_ok lm"
  shows "txns_ok lm'"
proof -
  have h: "held lm' = held lm" using q by (simp add: quiet_def held_def txn_stack_def fun_eq_iff)
  have hs: "has_sub (lock_at lm' p) = has_sub (lock_at lm p)" if "p < length (m_heap lm)" for p
    using q that by (simp add: quiet_def has_sub_def fun_eq_iff)
  have "m_activeTXNs lm' = m_activeTXNs lm" "length (m_heap lm') = length (m_heap lm)"
    using q by (simp_all add: quiet_def)
  then show ?thesis using ok hs by (fastforce simp: txns_ok_def h)
qed

lemma quiet_lm_ok:
  assumes q: "quiet lm lm'" and ok: "lm_ok lm"
  shows "lm_ok lm'"
proof -
  have "txns_ok lm'" using ok by (intro quiet_txns_ok[OF q]) (simp add: lm_ok_def)
  moreover have "locks_ok lm'"
    using ok q by (simp add: lm_ok_def locks_ok_def quiet_def)
  moreover have "map sub_ids (m_heap lm') = map sub_ids (m_heap lm)"
    using q by (intro nth_equalityI) (simp_all add: quiet_def lock_at_def)
  then have "lock_ids_ok lm'"
    using ok q by (simp add: lm_ok_def lock_ids_ok_def quiet_def)
  moreover have "ids_inv lm' (mset (active_ids lm'))"
    using ok q by (simp add: lm_ok_def ids_inv_def active_ids_def quiet_def)
  ultimately show ?thesis by (simp add: lm_ok_def)
qed

section \<open>Lock operations are paths\<close>

lemma pop_pos_path:
  assumes "pop_pos this lm = Inr lm'" "this < length (m_heap lm)"
  shows "lm_path [] lm lm'"
  using assms by (auto simp: pop_pos_def sub_ids_def split: list.splits lock_class.splits
      simp: lock_ident_def intro!: quiet_path quiet_upd_lock)

lemma sub_ids_add_count [simp]: "sub_ids (add_count s d l) = sub_ids l" "lockAddress (add_count s d l) = lockAddress l"
  "lk_class (add_count s d l) = lk_class l" "lock_ident (add_count s d l) = lock_ident l"
  by (cases s; cases "lk_class l"; simp add: sub_ids_def add_count_def lock_ident_def)+

lemma sub_ids_lastNPos [simp]: "sub_ids (l\<lparr>lastNPos := ps\<rparr>) = sub_ids l"
  "lock_ident (l\<lparr>lastNPos := ps\<rparr>) = lock_ident l"
  by (cases "lk_class l"; simp add: sub_ids_def lock_ident_def)+

lemma sub_ids_flags [simp]: "sub_ids (updateFlags f l) = sub_ids l" "lockAddress (updateFlags f l) = lockAddress l"
  "lk_class (updateFlags f l) = lk_class l" "lock_ident (updateFlags f l) = lock_ident l"
  by (cases "lk_class l"; simp add: sub_ids_def updateFlags_def lock_ident_def)+

lemma acquire_path:
  assumes "acquire this sub ts file line kernelDir ctx lm = Inr lm'" "this < length (m_heap lm)"
    and "has_sub (lock_at lm this) sub"
  shows "lm_path [Start] lm lm'"
proof -
  obtain pos where lm': "lm' = startTXN this ts sub ctx
      (upd_lock this (\<lambda>l. (add_count sub 1 l)\<lparr>lastNPos := pos # lastNPos l\<rparr>) lm)"
    using assms(1) by (auto simp: acquire_def bindE_Inr_iff Let_def)
  let ?lm1 = "upd_lock this (\<lambda>l. (add_count sub 1 l)\<lparr>lastNPos := pos # lastNPos l\<rparr>) lm"
  have q: "quiet lm ?lm1" using assms(2) by (intro quiet_upd_lock) simp_all
  have hs: "has_sub (lock_at ?lm1 this) sub"
    using assms(2,3) by (cases sub) (simp_all add: lm_simps has_sub_def)
  have lt: "this < length (m_heap ?lm1)" using assms(2) by (simp add: lm_simps)
  show ?thesis
    unfolding lm' by (rule lm_path.silent[OF q lm_path.start[OF lt hs lm_path.stop]])
qed

definition side_diag :: "nat \<Rightarrow> lock_diag set" where
  "side_diag p = {ReadSideHeld p, WriteSideHeld p}"

lemma flush_side_path:
  assumes fs: "flush_side this side me ts ctx lm = Inr lm'" and lt: "this < length (m_heap lm)"
  shows "lm_path [Finish True] lm lm' \<and> side_diag this \<inter> set (m_cerr lm') \<noteq> {}"
proof -
  let ?d = "case side of READER_LOCK \<Rightarrow> ReadSideHeld this | WRITER_LOCK \<Rightarrow> WriteSideHeld this"
  obtain lm1 found lm2 where 1: "print_error this me ?d lm = Inr lm1"
    and 2: "finishTXN this ts side True ctx ctx lm1 = Inr (found, lm2)"
    using fs by (auto simp: flush_side_def bindE_Inr_iff)
  have p2: "lm_path [Finish True] lm lm2"
    using lm_path_append[OF print_error_path[OF 1] finish_path[OF 2]] by simp
  have lt2: "this < length (m_heap lm2)" using lm_path_keeps[OF p2] lt by (simp add: keeps_locks_def)
  have "lm_path [] lm2 lm'"
  proof (cases found)
    case False
    then show ?thesis
      using fs 1 2 by (auto simp: flush_side_def intro: print_error_path)
  next
    case True
    define n where "n = int (length (lastNPos (lock_at lm2 this)))"
    define lm3 where "lm3 = upd_lock this (\<lambda>l. (add_count side (- n) l)\<lparr>lastNPos := []\<rparr>) lm2"
    define left where "left = the_count side (lock_at lm3 this)"
    let ?e = "case side of READER_LOCK \<Rightarrow> InconsistentReaderCount this left
        | WRITER_LOCK \<Rightarrow> InconsistentWriterCount this left"
    have q3: "quiet lm2 lm3" unfolding lm3_def using lt2 by (intro quiet_upd_lock) simp_all
    then have lt3: "this < length (m_heap lm3)" using lt2 by (simp add: quiet_def)
    have r: "(if left \<noteq> 0 then bindE (print_error this me ?e lm3) (\<lambda>lm4.
             Inr (upd_lock this (add_count side (- left)) lm4)) else Inr lm3) = Inr lm'"
      using fs True unfolding flush_side_def 1 bindE.simps 2 left_def lm3_def n_def by (simp add: Let_def)
    have "lm_path [] lm3 lm'"
    proof (cases "left = 0")
      case True
      with r show ?thesis by (auto intro: lm_path.stop)
    next
      case False
      with r obtain lm4 where 4: "print_error this me ?e lm3 = Inr lm4"
        and lm': "lm' = upd_lock this (add_count side (- left)) lm4"
        by (auto simp: bindE_Inr_iff)
      have "this < length (m_heap lm4)" using print_error_frame[OF 4] lt3 by simp
      then have "quiet lm4 lm'" unfolding lm' by (intro quiet_upd_lock) simp_all
      then show ?thesis using lm_path_append[OF print_error_path[OF 4] quiet_path] by simp
    qed
    then show ?thesis by (rule lm_path.silent[OF q3])
  qed
  then have "lm_path [Finish True] lm lm'" using lm_path_append[OF p2] by fastforce
  moreover have "lm_path [Finish True] lm1 lm'"
    using lm_path_append[OF finish_path[OF 2] \<open>lm_path [] lm2 lm'\<close>] by simp
  then have "?d \<in> set (m_cerr lm')"
    using lm_path_cerr print_error_cerr[OF 1] by fastforce
  then have "side_diag this \<inter> set (m_cerr lm') \<noteq> {}"
    by (cases side) (auto simp: side_diag_def)
  ultimately show ?thesis ..
qed

lemma release_path:
  assumes rel: "release this sub ts ctx lm = Inr lm'" and lt: "this < length (m_heap lm)"
  shows "\<exists>as. lm_path as lm lm' \<and> as \<in> {[], [Finish False]}"
proof -
  obtain lm3 where
    3: "(if lastNPos (lock_at lm this) \<noteq> [] then
          (let steal = (\<not> hasActiveTXN lm ctx \<or> \<not> isOnTXNStack lm ctx this sub);
               ctx' = (if steal then findTXN lm this sub ctx else ctx)
           in bindE (if steal \<and> ctx' = ctx \<and> \<not> hasActiveTXN lm ctx'
                     then print_error this sub (NoRunningTXN this) lm else Inr lm) (\<lambda>lm1.
              bindE (finishTXN this ts sub False ctx' ctx lm1) (\<lambda>(found, lm2).
              if found then pop_pos this lm2 else Inr lm2)))
        else print_error this sub (NoLastPosition this) lm) = Inr lm3" and
    4: "(if the_count sub (lock_at lm3 this) = 0 then print_error this sub (AlreadyReleased this) lm3
     else Inr (upd_lock this (add_count sub (-1)) lm3)) = Inr lm'"
    using rel unfolding release_def bindE_Inr_iff by blast
  have "\<exists>as. lm_path as lm lm3 \<and> as \<in> {[], [Finish False]}"
  proof (cases "lastNPos (lock_at lm this) = []")
    case True
    with 3 show ?thesis by (auto intro: print_error_path)
  next
    case False
    define steal where "steal \<longleftrightarrow> \<not> hasActiveTXN lm ctx \<or> \<not> isOnTXNStack lm ctx this sub"
    define ctx' where "ctx' = (if steal then findTXN lm this sub ctx else ctx)"
    have "bindE (if steal \<and> ctx' = ctx \<and> \<not> hasActiveTXN lm ctx'
            then print_error this sub (NoRunningTXN this) lm else Inr lm) (\<lambda>lm1.
          bindE (finishTXN this ts sub False ctx' ctx lm1) (\<lambda>(found, lm2).
          if found then pop_pos this lm2 else Inr lm2)) = Inr lm3"
      using 3 False unfolding Let_def steal_def[symmetric] ctx'_def[symmetric] by (simp only: if_True simp_thms)
    then obtain lm1 found lm2 where
      1: "(if steal \<and> ctx' = ctx \<and> \<not> hasActiveTXN lm ctx'
            then print_error this sub (NoRunningTXN this) lm else Inr lm) = Inr lm1" and
      2: "finishTXN this ts sub False ctx' ctx lm1 = Inr (found, lm2)" and
      pp: "(if found then pop_pos this lm2 else Inr lm2) = Inr lm3"
      by (fastforce simp only: bindE_Inr_iff split: prod.splits)
    have p1: "lm_path [] lm lm1" using 1 by (auto intro: print_error_path lm_path.stop split: if_splits)
    have p2: "lm_path [Finish False] lm lm2" using lm_path_append[OF p1 finish_path[OF 2]] by simp
    have "this < length (m_heap lm2)" using lm_path_keeps[OF p2] lt by (simp add: keeps_locks_def)
    then have "lm_path [] lm2 lm3" using pp by (auto split: if_splits intro: pop_pos_path lm_path.stop)
    then show ?thesis using lm_path_append[OF p2] by fastforce
  qed
  then obtain acts where p3: "lm_path acts lm lm3" "acts \<in> {[], [Finish False]}" by blast
  have "this < length (m_heap lm3)" using lm_path_keeps[OF p3(1)] lt by (simp add: keeps_locks_def)
  then have "lm_path [] lm3 lm'"
    using 4 by (cases "the_count sub (lock_at lm3 this) = 0")
      (auto intro: print_error_path intro!: quiet_path[OF quiet_upd_lock])
  then show ?thesis using lm_path_append[OF p3(1)] p3(2) by fastforce
qed

section \<open>The transitions as paths\<close>

definition op_paths :: "lm_act list set" where
  "op_paths = {[], [Start], [Finish False], [Finish False, Start], [Finish True, Start]}"

definition told :: "nat \<Rightarrow> lm_act list \<Rightarrow> LockManager \<Rightarrow> bool" where
  "told this acts lm \<longleftrightarrow> (Finish True \<in> set acts \<longrightarrow> side_diag this \<inter> set (m_cerr lm) \<noteq> {})"

lemma acquire_after_path:
  assumes pth: "lm_path acts lm lm1" "told this acts lm1" and lt: "this < length (m_heap lm)"
    and sub: "has_sub (lock_at lm this) sub"
    and ac: "acquire this sub ts file line kernelDir ctx lm1 = Inr lm'"
  shows "lm_path (acts @ [Start]) lm lm' \<and> told this (acts @ [Start]) lm'"
proof -
  have k: "keeps_locks lm lm1" by (rule lm_path_keeps[OF pth(1)])
  then have lt1: "this < length (m_heap lm1)" and sub1: "has_sub (lock_at lm1 this) sub"
    using lt sub by (auto simp: keeps_locks_def has_sub_def)
  note st = acquire_path[OF ac lt1 sub1]
  obtain ds where "m_cerr lm' = m_cerr lm1 @ ds" using lm_path_cerr[OF st] ..
  then show ?thesis using lm_path_append[OF pth(1) st] pth(2) by (auto simp: told_def)
qed

lemma finish_pop_path:
  assumes "print_error this sub d lm = Inr lm1" and "this < length (m_heap lm)"
    and "finishTXN this ts sub False ctx ctxOld lm1 = Inr (found, lm2)"
    and "(if found then pop_pos this lm2 else Inr lm2) = Inr lm3"
  shows "lm_path [Finish False] lm lm3"
proof -
  have p: "lm_path [Finish False] lm lm2"
    using lm_path_append[OF print_error_path[OF assms(1)] finish_path[OF assms(3)]] by simp
  have "this < length (m_heap lm2)" using lm_path_keeps[OF p] assms(2) by (simp add: keeps_locks_def)
  then have "lm_path [] lm2 lm3" using assms(4) by (auto split: if_splits intro: pop_pos_path lm_path.stop)
  then show ?thesis using lm_path_append[OF p] by fastforce
qed

lemma updateFlags_quiet: "this < length (m_heap lm) \<Longrightarrow> quiet lm (upd_lock this (updateFlags f) lm)"
  by (intro quiet_upd_lock) simp_all

lemma writeTransition_path:
  assumes tr: "writeTransition this lockOP ts file line flags kernelDir ctx lm = Inr lm'"
    and lt: "this < length (m_heap lm)" and sub: "has_sub (lock_at lm this) WRITER_LOCK"
  shows "\<exists>acts \<in> op_paths. lm_path acts lm lm' \<and> told this acts lm'"
proof -
  let ?lm = "upd_lock this (updateFlags flags) lm"
  let ?l = "lock_at ?lm this"
  have q: "quiet lm ?lm" by (rule updateFlags_quiet[OF lt])
  have lt0: "this < length (m_heap ?lm)" using lt by (simp add: lm_simps)
  have sub0: "has_sub (lock_at ?lm this) WRITER_LOCK"
    using sub lt by (simp add: lm_simps updateFlags_def)
  have "\<exists>acts \<in> op_paths. lm_path acts ?lm lm' \<and> told this acts lm'"
  proof (cases lockOP)
    case P_WRITE
    obtain lm1 where ac: "acquire this WRITER_LOCK ts file line kernelDir ctx lm1 = Inr lm'"
      and 1: "(if writer_count ?l = 0 \<and> reader_count ?l > 0 then
               flush_side this READER_LOCK WRITER_LOCK ts ctx ?lm
             else if writer_count ?l > 0 \<and> reader_count ?l = 0 then
               (if lk_flags ?l AND LOCK_FLAGS_RECURSIVE \<noteq> 0 then Inr ?lm
                else
                  bindE (print_error this WRITER_LOCK (AlreadyHeld this) ?lm) (\<lambda>lm1.
                  bindE (finishTXN this ts WRITER_LOCK False ctx ctx lm1) (\<lambda>(found, lm2).
                  if found then pop_pos this lm2 else Inr lm2)))
             else if writer_count ?l > 0 \<and> reader_count ?l > 0 then Inl invalid_state
             else Inr ?lm) = Inr lm1"
      using tr P_WRITE unfolding writeTransition_def Let_def by (auto simp only: bindE_Inr_iff LOCK_OP.case)
    have "\<exists>acts \<in> {[], [Finish False], [Finish True]}. lm_path acts ?lm lm1 \<and> told this acts lm1"
    proof (cases "writer_count ?l = 0 \<and> reader_count ?l > 0")
      case True
      with 1 flush_side_path[OF _ lt0] show ?thesis by (auto simp: told_def)
    next
      case not_flush: False
      show ?thesis
      proof (cases "writer_count ?l > 0 \<and> reader_count ?l = 0 \<and> lk_flags ?l AND LOCK_FLAGS_RECURSIVE = 0")
        case True
        with 1 not_flush have "bindE (print_error this WRITER_LOCK (AlreadyHeld this) ?lm) (\<lambda>lm1.
                  bindE (finishTXN this ts WRITER_LOCK False ctx ctx lm1) (\<lambda>(found, lm2).
                  if found then pop_pos this lm2 else Inr lm2)) = Inr lm1" by simp
        then have "lm_path [Finish False] ?lm lm1"
          by (fastforce simp only: bindE_Inr_iff split: prod.splits intro: finish_pop_path[OF _ lt0])
        then show ?thesis by (auto simp: told_def)
      next
        case False
        with 1 not_flush have "lm1 = ?lm" by (auto split: if_splits)
        then show ?thesis by (auto simp: told_def intro: lm_path.stop)
      qed
    qed
    then obtain acts where "acts \<in> {[], [Finish False], [Finish True]}" "lm_path acts ?lm lm1" "told this acts lm1"
      by blast
    with acquire_after_path[OF this(2,3) lt0 sub0 ac] show ?thesis
      by (intro bexI[of _ "acts @ [Start]"]) (auto simp: op_paths_def)
  next
    case V_WRITE
    with tr have "release this WRITER_LOCK ts ctx ?lm = Inr lm'" by (simp add: writeTransition_def)
    from release_path[OF this lt0] show ?thesis by (auto simp: told_def op_paths_def)
  qed (use tr in \<open>simp_all add: writeTransition_def\<close>)
  then show ?thesis using lm_path.silent[OF q] by blast
qed

lemma readTransition_path:
  assumes tr: "readTransition this lockOP ts file line flags kernelDir ctx lm = Inr lm'"
    and lt: "this < length (m_heap lm)" and sub: "has_sub (lock_at lm this) READER_LOCK"
  shows "\<exists>acts \<in> op_paths. lm_path acts lm lm' \<and> told this acts lm'"
proof -
  let ?lm = "upd_lock this (updateFlags flags) lm"
  let ?l = "lock_at ?lm this"
  have q: "quiet lm ?lm" by (rule updateFlags_quiet[OF lt])
  have lt0: "this < length (m_heap ?lm)" using lt by (simp add: lm_simps)
  have sub0: "has_sub (lock_at ?lm this) READER_LOCK"
    using sub lt by (simp add: lm_simps updateFlags_def)
  have "\<exists>acts \<in> op_paths. lm_path acts ?lm lm' \<and> told this acts lm'"
  proof (cases lockOP)
    case P_READ
    obtain lm1 where ac: "acquire this READER_LOCK ts file line kernelDir ctx lm1 = Inr lm'"
      and 1: "(if writer_count ?l = 0 \<and> reader_count ?l > 0 then Inr ?lm
             else if writer_count ?l > 0 \<and> reader_count ?l = 0 then
               flush_side this WRITER_LOCK READER_LOCK ts ctx ?lm
             else if writer_count ?l > 0 \<and> reader_count ?l > 0 then Inl invalid_state
             else Inr ?lm) = Inr lm1"
      using tr P_READ unfolding readTransition_def Let_def by (auto simp only: bindE_Inr_iff LOCK_OP.case)
    have "\<exists>acts \<in> {[], [Finish True]}. lm_path acts ?lm lm1 \<and> told this acts lm1"
    proof (cases "writer_count ?l > 0 \<and> reader_count ?l = 0")
      case True
      with 1 flush_side_path[OF _ lt0] show ?thesis by (auto simp: told_def)
    next
      case False
      with 1 have "lm1 = ?lm" by (auto split: if_splits)
      then show ?thesis by (auto simp: told_def intro: lm_path.stop)
    qed
    then obtain acts where "acts \<in> {[], [Finish True]}" "lm_path acts ?lm lm1" "told this acts lm1"
      by blast
    with acquire_after_path[OF this(2,3) lt0 sub0 ac] show ?thesis
      by (intro bexI[of _ "acts @ [Start]"]) (auto simp: op_paths_def)
  next
    case V_READ
    with tr have "release this READER_LOCK ts ctx ?lm = Inr lm'" by (simp add: readTransition_def)
    from release_path[OF this lt0] show ?thesis by (auto simp: told_def op_paths_def)
  qed (use tr in \<open>simp_all add: readTransition_def\<close>)
  then show ?thesis using lm_path.silent[OF q] by blast
qed

lemma transition_path:
  assumes "transition this lockOP ts file line flags kernelDir ctx lm = Inr lm'"
    and "this < length (m_heap lm)"
  shows "\<exists>acts \<in> op_paths. lm_path acts lm lm' \<and> told this acts lm'"
proof -
  have "has_sub (lock_at lm this) WRITER_LOCK \<and>
        writeTransition this lockOP ts file line flags kernelDir ctx lm = Inr lm' \<or>
      has_sub (lock_at lm this) READER_LOCK \<and>
        readTransition this lockOP ts file line flags kernelDir ctx lm = Inr lm'"
    using assms(1) by (auto simp: transition_def has_sub_def split: lock_class.splits if_splits)
  then show ?thesis
    by (elim disjE conjE) (erule writeTransition_path readTransition_path, rule assms(2), assumption)+
qed

section \<open>Ids along a path\<close>

definition n_active :: "LockManager \<Rightarrow> nat" where
  "n_active lm = length (active_ids lm)"

lemma unat_Suc_le: "unat (w + 1 :: u64) \<le> unat w + 1"
  using mod_less_eq_dividend[of "unat w + 1" "2 ^ 64"] by (simp add: unat_word_ariths)

lemma finishTXN_loop_next:
  "finishTXN_loop p ts sub rr ctx ctxOld stk rs lm = Inr (found, stk', lm') \<Longrightarrow>
     unat (m_nextTXNID lm') \<le> unat (m_nextTXNID lm) + length stk"
proof (induction stk arbitrary: rs lm)
  case (Cons t below)
  from Cons.prems show ?case
  proof (rule finishTXN_loop_ConsE, goal_cases)
    case (1 lm1)
    have s: "unat (m_nextTXNID lm + 1) \<le> unat (m_nextTXNID lm) + 1" by (rule unat_Suc_le)
    from 1 s show ?case by (fastforce dest!: Cons.IH)
  qed
qed simp

lemma finishTXN_next:
  assumes "txns_ok lm" and "finishTXN p ts sub rr ctx ctxOld lm = Inr (found, lm')"
  shows "unat (m_nextTXNID lm') \<le> unat (m_nextTXNID lm) + length (txn_stack lm ctx)"
    and "n_active lm' \<le> n_active lm"
proof -
  obtain b stk lm1 lm2 where
    1: "finishTXN_loop p ts sub rr ctx ctxOld (txn_stack lm ctx) [] lm = Inr (b, stk, lm1)" and
    2: "(if \<not> b then print_error p sub (NoMatchingTXN p) lm1 else Inr lm1) = Inr lm2" and
    3: "lm' = set_stack ctx stk lm2"
    using assms(2) by (auto simp: finishTXN_def bindE_Inr_iff)
  have "m_nextTXNID lm2 = m_nextTXNID lm1" and act: "m_activeTXNs lm2 = m_activeTXNs lm"
    using 2 finishTXN_loop_frame[OF 1] by (auto dest: print_error_frame split: if_splits)
  then show "unat (m_nextTXNID lm') \<le> unat (m_nextTXNID lm) + length (txn_stack lm ctx)"
    using finishTXN_loop_next[OF 1] by (simp add: 3 lm_simps)
  have "length stk = length (spec_finish p sub rr (held lm ctx))"
    using arg_cong[OF conjunct2[OF finishTXN_loop_held[OF 1]], of length] by (simp add: held_def)
  also have "\<dots> \<le> length (held lm ctx)"
  proof -
    let ?P = "\<lambda>k. k \<noteq> (p, sub)" and ?h = "held lm ctx"
    have "length (takeWhile ?P ?h) + length (dropWhile ?P ?h) = length ?h"
      by (metis length_append takeWhile_dropWhile_id)
    moreover have "length (flushed p (tl (dropWhile ?P ?h))) \<le> length (dropWhile ?P ?h)"
      unfolding flushed_def by (rule le_trans[OF length_filter_le]) simp
    ultimately show ?thesis by (cases rr) (simp_all add: spec_finish_def Let_def)
  qed
  finally have "length stk \<le> length (txn_stack lm ctx)" by (simp add: held_def)
  moreover obtain rest where "mset (active_ids lm) = mset (map txn_id (txn_stack lm ctx)) + rest"
    and "mset (active_ids lm') = mset (map txn_id stk) + rest"
    using active_ids_split[OF assms(1), of ctx] act unfolding 3 by metis
  then have "size (mset (active_ids lm)) = length (txn_stack lm ctx) + size rest"
    and "size (mset (active_ids lm')) = length stk + size rest" by simp_all
  ultimately show "n_active lm' \<le> n_active lm" by (simp add: n_active_def)
qed

lemma stack_le_active: "txns_ok lm \<Longrightarrow> length (txn_stack lm ctx) \<le> n_active lm"
proof -
  assume "txns_ok lm"
  then obtain rest where "mset (active_ids lm) = mset (map txn_id (txn_stack lm ctx)) + rest"
    by (rule active_ids_split[of lm ctx])
  then have "size (mset (active_ids lm)) = length (txn_stack lm ctx) + size rest" by simp
  then show ?thesis by (simp add: n_active_def)
qed

lemma startTXN_next:
  assumes "txns_ok lm"
  shows "unat (m_nextTXNID (startTXN p ts sub ctx lm)) \<le> unat (m_nextTXNID lm) + 1"
    and "n_active (startTXN p ts sub ctx lm) = n_active lm + 1"
proof -
  show "unat (m_nextTXNID (startTXN p ts sub ctx lm)) \<le> unat (m_nextTXNID lm) + 1"
    using unat_Suc_le by (simp add: startTXN_def lm_simps)
  let ?t = "\<lparr>txn_id = m_nextTXNID lm, start_ts = ts, start_ctx = ctx, memAccessCounter = 0,
         txn_lock = p, txn_sub = sub\<rparr>"
  obtain rest where 1: "mset (active_ids lm) = mset (map txn_id (txn_stack lm ctx)) + rest"
    and set: "\<And>lm' d. m_activeTXNs lm' = m_activeTXNs lm \<Longrightarrow>
       mset (active_ids (set_stack ctx d lm')) = mset (map txn_id d) + rest"
    using active_ids_split[OF assms, of ctx] by blast
  have 2: "mset (active_ids (startTXN p ts sub ctx lm)) = mset (map txn_id (?t # txn_stack lm ctx)) + rest"
    unfolding startTXN_def by (rule set) simp
  have "size (mset (active_ids (startTXN p ts sub ctx lm))) = size (mset (active_ids lm)) + 1"
    unfolding 1 2 by simp
  then show "n_active (startTXN p ts sub ctx lm) = n_active lm + 1" by (simp add: n_active_def)
qed

definition n_starts :: "lm_act list \<Rightarrow> nat" where
  "n_starts acts = length (filter (\<lambda>a. a = Start) acts)"

definition n_finishes :: "lm_act list \<Rightarrow> nat" where
  "n_finishes acts = length (filter (\<lambda>a. a \<noteq> Start) acts)"

definition path_cost :: "lm_act list \<Rightarrow> nat \<Rightarrow> nat" where
  "path_cost acts k = n_finishes acts * (k + n_starts acts) + n_starts acts"

lemma lm_path_ok:
  assumes "lm_path acts lm lm'"
  shows "lm_ok lm \<Longrightarrow> unat (m_nextTXNID lm) + path_cost acts (n_active lm) < 2 ^ 64 \<Longrightarrow>
    lm_ok lm' \<and> unat (m_nextTXNID lm') \<le> unat (m_nextTXNID lm) + path_cost acts (n_active lm) \<and>
    n_active lm' \<le> n_active lm + n_starts acts"
  using assms
proof (induction rule: lm_path.induct)
  case (stop lm)
  then show ?case by simp
next
  case (silent lm lm1 acts lm')
  have "lm_ok lm1" by (rule quiet_lm_ok[OF silent(1,4)])
  moreover have "n_active lm1 = n_active lm" "m_nextTXNID lm1 = m_nextTXNID lm"
    using silent(1) by (simp_all add: quiet_def n_active_def active_ids_def)
  ultimately show ?case using silent(3,5) by simp
next
  case (finish p ts sub rr ctx ctxOld lm found lm1 acts lm')
  have ok: "txns_ok lm" using finish(4) by (simp add: lm_ok_def)
  note nx = finishTXN_next[OF ok finish(1)] and st = stack_le_active[OF ok, of ctx]
  have cost: "path_cost (Finish rr # acts) k = k + n_starts acts + path_cost acts k" for k
    by (simp add: path_cost_def n_finishes_def n_starts_def)
  have mono: "path_cost acts (n_active lm1) \<le> path_cost acts (n_active lm)"
    using nx(2) by (simp add: path_cost_def)
  have room: "unat (m_nextTXNID lm) + length (txn_stack lm ctx) < 2 ^ 64"
    using finish(5) st unfolding cost by simp
  have "lm_ok lm1" by (rule finishTXN_lm_ok[OF finish(4,1) room])
  moreover have "unat (m_nextTXNID lm1) + path_cost acts (n_active lm1) < 2 ^ 64"
    using finish(5) nx st mono unfolding cost by linarith
  ultimately have "lm_ok lm' \<and> unat (m_nextTXNID lm') \<le> unat (m_nextTXNID lm1) + path_cost acts (n_active lm1) \<and>
    n_active lm' \<le> n_active lm1 + n_starts acts" using finish(3) by blast
  then show ?case using nx st mono unfolding cost by (auto simp: n_starts_def)
next
  case (start p lm sub acts ts ctx lm')
  let ?lm = "startTXN p ts sub ctx lm"
  have ok: "txns_ok lm" using start(5) by (simp add: lm_ok_def)
  note nx = startTXN_next[OF ok, of p ts sub ctx]
  have cost: "path_cost (Start # acts) k = path_cost acts (k + 1) + 1" for k
    by (simp add: path_cost_def n_finishes_def n_starts_def)
  have room: "unat (m_nextTXNID lm) + 1 < 2 ^ 64" using start(6) unfolding cost by simp
  have "lm_ok ?lm" by (rule startTXN_lm_ok[OF start(5,1,2) room])
  moreover have "unat (m_nextTXNID ?lm) + path_cost acts (n_active ?lm) < 2 ^ 64"
    using start(6) nx(1) unfolding cost nx(2) by linarith
  ultimately have "lm_ok lm' \<and> unat (m_nextTXNID lm') \<le> unat (m_nextTXNID ?lm) + path_cost acts (n_active ?lm) \<and>
    n_active lm' \<le> n_active ?lm + n_starts acts" using start(4) by blast
  then show ?case using nx(1) unfolding cost nx(2) by (auto simp: n_starts_def)
qed

lemma op_path_cost: "acts \<in> op_paths \<Longrightarrow> path_cost acts k \<le> k + 2 \<and> n_starts acts \<le> 1"
  by (auto simp: op_paths_def path_cost_def n_starts_def n_finishes_def)

lemma transition_lm_ok:
  assumes ok: "lm_ok lm" and tr: "transition this lockOP ts file line flags kernelDir ctx lm = Inr lm'"
    and lt: "this < length (m_heap lm)"
    and room: "unat (m_nextTXNID lm) + n_active lm + 2 < 2 ^ 64"
  shows "lm_ok lm'" and "unat (m_nextTXNID lm') \<le> unat (m_nextTXNID lm) + n_active lm + 2"
    and "n_active lm' \<le> n_active lm + 1" and "keeps_locks lm lm'"
proof -
  obtain acts where "acts \<in> op_paths" and pth: "lm_path acts lm lm'"
    using transition_path[OF tr lt] by blast
  then have c: "path_cost acts (n_active lm) \<le> n_active lm + 2" "n_starts acts \<le> 1"
    using op_path_cost by blast+
  then have "unat (m_nextTXNID lm) + path_cost acts (n_active lm) < 2 ^ 64" using room by linarith
  from lm_path_ok[OF pth ok this] c lm_path_keeps[OF pth]
  show "lm_ok lm'" and "unat (m_nextTXNID lm') \<le> unat (m_nextTXNID lm) + n_active lm + 2"
    and "n_active lm' \<le> n_active lm + 1" and "keeps_locks lm lm'" by auto
qed

end
