(* ===== verification/Lock_Sync.thy ===== *)
theory Lock_Sync
  imports Lock_Paths
begin

text \<open>
  The lock objects and the transaction stacks stay in step. With one execution context, as
  \<^verbatim>\<open>convert\<close> runs by default, and locks that are not recursive, the recorded positions, the
  reader count and the open transactions of every lock agree after every event, the stack of
  positions is never popped when it is empty, and no lock has reader and writer transactions open
  at the same time. The writer count can exceed the open write transactions; how it moves is part of
  the abstract lock (\<open>abs_lock\<close>, \<open>lock_step\<close>), of which every accepted operation makes one step.
\<close>

section \<open>The invariant\<close>

definition nheld :: "LockManager \<Rightarrow> int \<Rightarrow> nat \<Rightarrow> SUB_LOCK \<Rightarrow> nat" where
  "nheld lm ctx p sub = count_list (held lm ctx) (p, sub)"

definition lock_sync :: "rwlock \<Rightarrow> nat \<Rightarrow> nat \<Rightarrow> bool" where
  "lock_sync l R W \<longleftrightarrow> reader_count l = int R \<and> int W \<le> writer_count l \<and> W \<le> 1 \<and>
     length (lastNPos l) = R + W \<and> (R = 0 \<or> W = 0) \<and> (lk_class l = RLock \<longrightarrow> writer_count l = 0)"

definition frame_ok :: "LockManager \<Rightarrow> int \<Rightarrow> nat \<Rightarrow> bool" where
  "frame_ok lm ctx this \<longleftrightarrow> this < length (m_heap lm) \<and> txns_ok lm \<and>
     (\<forall>c. c \<noteq> ctx \<longrightarrow> held lm c = []) \<and>
     (\<forall>p < length (m_heap lm). p \<noteq> this \<longrightarrow>
        lock_sync (lock_at lm p) (nheld lm ctx p READER_LOCK) (nheld lm ctx p WRITER_LOCK))"

definition sync :: "LockManager \<Rightarrow> int \<Rightarrow> bool" where
  "sync lm ctx \<longleftrightarrow> txns_ok lm \<and> (\<forall>c. c \<noteq> ctx \<longrightarrow> held lm c = []) \<and>
     (\<forall>p < length (m_heap lm).
        lock_sync (lock_at lm p) (nheld lm ctx p READER_LOCK) (nheld lm ctx p WRITER_LOCK))"

lemma sync_iff:
  "this < length (m_heap lm) \<Longrightarrow>
     sync lm ctx \<longleftrightarrow> frame_ok lm ctx this \<and>
       lock_sync (lock_at lm this) (nheld lm ctx this READER_LOCK) (nheld lm ctx this WRITER_LOCK)"
  by (auto simp: sync_def frame_ok_def)

section \<open>Steps on one lock leave the others alone\<close>

lemma held_upd_lock [lm_simps]: "held (upd_lock p f lm) = held lm"
  by (simp add: held_def lm_simps fun_eq_iff)

lemma nheld_upd_lock [lm_simps]: "nheld (upd_lock p f lm) = nheld lm"
  by (simp add: nheld_def lm_simps fun_eq_iff)

lemma frame_ok_upd_lock:
  assumes "frame_ok lm ctx this" and "lk_class (f (lock_at lm this)) = lk_class (lock_at lm this)"
  shows "frame_ok (upd_lock this f lm) ctx this"
proof -
  have "this < length (m_heap lm)" using assms by (simp add: frame_ok_def)
  moreover have "has_sub (f (lock_at lm this)) = has_sub (lock_at lm this)"
    using assms(2) by (simp add: has_sub_def fun_eq_iff)
  moreover have "txns_ok (upd_lock this f lm)"
    using assms(1) calculation by (fastforce simp: frame_ok_def txns_ok_def lm_simps)
  ultimately show ?thesis
    using assms(1) by (simp add: frame_ok_def lm_simps)
qed

lemma frame_ok_cerr [simp]: "frame_ok (lm\<lparr>m_cerr := ds\<rparr>) ctx this = frame_ok lm ctx this"
  by (simp add: frame_ok_def txns_ok_def held_def nheld_def lm_simps)

lemma nheld_cerr [simp]: "nheld (lm\<lparr>m_cerr := ds\<rparr>) = nheld lm"
  by (simp add: nheld_def held_def lm_simps fun_eq_iff)

lemma print_error_sync:
  assumes "has_sub (lock_at lm this) sub"
  obtains ds where "print_error this sub d lm = Inr (lm\<lparr>m_cerr := ds\<rparr>)"
  using print_error_ok[OF assms] by (auto dest: print_error_frame)

text \<open>An operation on one lock leaves counters, positions and transactions of the others as they are.\<close>

definition others_kept :: "LockManager \<Rightarrow> LockManager \<Rightarrow> int \<Rightarrow> nat \<Rightarrow> bool" where
  "others_kept lm lm' ctx this \<longleftrightarrow>
     (\<forall>p. p \<noteq> this \<longrightarrow> lock_at lm' p = lock_at lm p \<and> (\<forall>s. nheld lm' ctx p s = nheld lm ctx p s))"

lemma others_kept_trans: "others_kept a b ctx this \<Longrightarrow> others_kept b c ctx this \<Longrightarrow> others_kept a c ctx this"
  by (simp add: others_kept_def)

lemma lock_at_upd_other: "p \<noteq> this \<Longrightarrow> lock_at (upd_lock this f lm) p = lock_at lm p"
  by (simp add: upd_lock_def lock_at_def)

lemma others_kept_simps [simp]:
  "others_kept lm lm ctx this"
  "others_kept lm (lm'\<lparr>m_cerr := ds\<rparr>) ctx this = others_kept lm lm' ctx this"
  "others_kept (lm\<lparr>m_cerr := ds\<rparr>) lm' ctx this = others_kept lm lm' ctx this"
  "others_kept lm (upd_lock this f lm') ctx this = others_kept lm lm' ctx this"
  "others_kept (upd_lock this f lm) lm' ctx this = others_kept lm lm' ctx this"
  by (auto simp: others_kept_def lm_simps lock_at_upd_other)

lemma finish_frame_ok:
  assumes fr: "frame_ok lm ctx this" and fin: "finishTXN this ts sub rr ctx ctxOld lm = Inr (found, lm')"
  shows "frame_ok lm' ctx this" and "lock_at lm' = lock_at lm" and "length (m_heap lm') = length (m_heap lm)"
    and "others_kept lm lm' ctx this"
proof -
  have sl: "same_locks lm lm'" using finishTXN_held(3)[OF fin] .
  then show at: "lock_at lm' = lock_at lm" and len: "length (m_heap lm') = length (m_heap lm)"
    by (simp_all add: same_locks_def lock_at_def fun_eq_iff)
  have other: "count_list (held lm' ctx) (p, s) = count_list (held lm ctx) (p, s)" if "p \<noteq> this" for p s
  proof (cases rr)
    case True
    then show ?thesis
      using that fin lmgr.count_flush_readers[of this ts ctx ctxOld lm found lm' "(p, s)"]
        lmgr.count_flush_writer[of this ts ctx ctxOld lm found lm' "(p, s)"]
      by (cases sub) auto
  next
    case False
    then show ?thesis
      using that fin lmgr.count_finish[of this ts sub ctx ctxOld lm found lm' "(p, s)"] by auto
  qed
  then show "others_kept lm lm' ctx this" by (simp add: others_kept_def nheld_def at)
  from other show "frame_ok lm' ctx this"
    using fr finishTXN_txns_ok[OF _ fin] lmgr.finish_other_context[OF fin]
    by (simp add: frame_ok_def nheld_def at len)
qed

section \<open>The pieces of a transition\<close>

lemma pop_pos_ok:
  assumes "lastNPos (lock_at lm this) \<noteq> []"
  shows "pop_pos this lm = Inr (upd_lock this (\<lambda>l. l\<lparr>lastNPos := tl (lastNPos (lock_at lm this))\<rparr>) lm)"
  using assms by (auto simp: pop_pos_def split: list.splits)

lemma strip_kernel_dir_ok: "kernelDir \<noteq> [] \<Longrightarrow> \<exists>f. strip_kernel_dir kernelDir file = Inr f"
  by (simp add: strip_kernel_dir_def Let_def)

lemma acquire_sync:
  assumes fr: "frame_ok lm ctx this" and k: "kernelDir \<noteq> []" and sub: "has_sub (lock_at lm this) sub"
    and l: "lock_sync (lock_at lm this) (nheld lm ctx this READER_LOCK) (nheld lm ctx this WRITER_LOCK)"
    and w: "nheld lm ctx this WRITER_LOCK = 0"
    and r: "sub = WRITER_LOCK \<longrightarrow> nheld lm ctx this READER_LOCK = 0"
  shows "\<exists>lm'. acquire this sub ts file line kernelDir ctx lm = Inr lm' \<and> sync lm' ctx \<and>
    others_kept lm lm' ctx this \<and> (\<forall>s. nheld lm' ctx this s = (if s = sub then nheld lm ctx this s + 1 else nheld lm ctx this s)) \<and>
    writer_count (lock_at lm' this) = (if sub = WRITER_LOCK then writer_count (lock_at lm this) + 1 else writer_count (lock_at lm this))"
proof -
  obtain lf where lf: "strip_kernel_dir kernelDir file = Inr lf"
    using strip_kernel_dir_ok[OF k] by blast
  define pos where "pos = \<lparr>subLock = sub, lp_start = ts, lastLine = int_of_ull line, lastFile = lf\<rparr>"
  define lm1 where "lm1 = upd_lock this (\<lambda>l. (add_count sub 1 l)\<lparr>lastNPos := pos # lastNPos l\<rparr>) lm"
  define lm' where "lm' = startTXN this ts sub ctx lm1"
  have lt: "this < length (m_heap lm)" using fr by (simp add: frame_ok_def)
  have cls: "lk_class ((add_count sub 1 l)\<lparr>lastNPos := ps\<rparr>) = lk_class l" for l ps
    by (cases sub) (simp_all add: add_count_def)
  have fr1: "frame_ok lm1 ctx this"
    unfolding lm1_def using fr by (rule frame_ok_upd_lock) (simp add: cls)
  have at1: "lock_at lm1 this = (add_count sub 1 (lock_at lm this))\<lparr>lastNPos := pos # lastNPos (lock_at lm this)\<rparr>"
    using lt by (simp add: lm1_def lm_simps)
  have sl: "same_locks lm1 lm'" unfolding lm'_def by (rule startTXN_same_locks)
  then have at: "lock_at lm' = lock_at lm1" and len: "length (m_heap lm') = length (m_heap lm1)"
    by (simp_all add: same_locks_def lock_at_def fun_eq_iff)
  have h: "held lm' = (held lm)(ctx := (this, sub) # held lm ctx)"
    by (simp add: lm'_def startTXN_held lm1_def lm_simps)
  have h1: "held lm1 = held lm" by (simp add: lm1_def lm_simps)
  have "has_sub (lock_at lm1 this) sub"
    using sub at1 by (cases sub) (simp_all add: add_count_def)
  then have "txns_ok lm'"
    using fr1 at len lt
    by (auto simp: frame_ok_def txns_ok_def h h1)
      (simp add: lm'_def startTXN_def set_stack_def omap_ok_update)
  then have "frame_ok lm' ctx this"
    using fr1 by (auto simp: frame_ok_def nheld_def at len h h1)
  moreover have "lock_sync (lock_at lm' this) (nheld lm' ctx this READER_LOCK) (nheld lm' ctx this WRITER_LOCK)"
    using l w r sub
    by (cases sub) (auto simp: at at1 lock_sync_def nheld_def h add_count_def has_sub_def)
  ultimately have "sync lm' ctx"
    using lt len by (subst sync_iff[of this]) (simp_all add: lm1_def lm_simps)
  moreover have "acquire this sub ts file line kernelDir ctx lm = Inr lm'"
    by (simp add: acquire_def lf Let_def lm'_def lm1_def pos_def)
  moreover have "others_kept lm1 lm' ctx this" by (simp add: others_kept_def at nheld_def h h1)
  then have "others_kept lm lm' ctx this" unfolding lm1_def by simp
  moreover have "nheld lm' ctx this s = (if s = sub then nheld lm ctx this s + 1 else nheld lm ctx this s)" for s
    by (simp add: nheld_def h)
  moreover have "writer_count (lock_at lm' this) =
      (if sub = WRITER_LOCK then writer_count (lock_at lm this) + 1 else writer_count (lock_at lm this))"
    by (cases sub) (simp_all add: at at1 add_count_def)
  ultimately show ?thesis by blast
qed

lemma nheld_pos: "(p, sub) \<in> set (held lm ctx) \<longleftrightarrow> 0 < nheld lm ctx p sub"
  unfolding nheld_def by (metis count_list_0_iff neq0_conv)

lemma frame_ok_has_sub:
  "frame_ok lm ctx this \<Longrightarrow> 0 < nheld lm ctx p sub \<Longrightarrow> has_sub (lock_at lm p) sub"
  by (fastforce simp: frame_ok_def txns_ok_def nheld_pos[symmetric])

lemma nheld_spec_finish_le:
  assumes "finishTXN this ts sub rr ctx ctxOld lm = Inr (found, lm')" and "nheld lm ctx p s = 0"
  shows "nheld lm' ctx p s = 0"
proof -
  have "set (held lm' ctx) \<subseteq> set (held lm ctx)"
    using finishTXN_held(2)[OF assms(1)] spec_finish_subset by simp
  with assms(2) show ?thesis by (auto simp: nheld_def count_list_0_iff)
qed

lemma add_count_simps [simp]:
  "lk_class (add_count s d l) = lk_class l" "lastNPos (add_count s d l) = lastNPos l"
  "has_sub (add_count s d l) = has_sub l" "lk_flags (add_count s d l) = lk_flags l"
  "add_count READER_LOCK d l = l\<lparr>reader_count := reader_count l + d\<rparr>"
  "add_count WRITER_LOCK d l = l\<lparr>writer_count := writer_count l + d\<rparr>"
  by (cases s; simp add: add_count_def)+

lemma the_count_simps [simp]:
  "the_count READER_LOCK l = reader_count l" "the_count WRITER_LOCK l = writer_count l"
  by (simp_all add: the_count_def)

lemma flush_side_sync:
  assumes fr: "frame_ok lm ctx this"
    and me: "has_sub (lock_at lm this) me" and sd: "has_sub (lock_at lm this) side"
    and l: "lock_sync (lock_at lm this) (nheld lm ctx this READER_LOCK) (nheld lm ctx this WRITER_LOCK)"
    and other: "\<And>s. s \<noteq> side \<Longrightarrow> nheld lm ctx this s = 0"
  shows "\<exists>lm'. flush_side this side me ts ctx lm = Inr lm' \<and> frame_ok lm' ctx this \<and>
    lk_class (lock_at lm' this) = lk_class (lock_at lm this) \<and>
    (\<forall>s. nheld lm' ctx this s = 0) \<and> lock_sync (lock_at lm' this) 0 0 \<and> others_kept lm lm' ctx this \<and>
    writer_count (lock_at lm' this) =
      (if side = WRITER_LOCK \<and> 0 < nheld lm ctx this WRITER_LOCK then 0 else writer_count (lock_at lm this))"
proof -
  have lt: "this < length (m_heap lm)" using fr by (simp add: frame_ok_def)
  obtain ds where 1: "print_error this me (case side of READER_LOCK \<Rightarrow> ReadSideHeld this
      | WRITER_LOCK \<Rightarrow> WriteSideHeld this) lm = Inr (lm\<lparr>m_cerr := ds\<rparr>)"
    using me by (rule print_error_sync)
  let ?lm1 = "lm\<lparr>m_cerr := ds\<rparr>"
  have fr1: "frame_ok ?lm1 ctx this" using fr by simp
  have "count_list (held ?lm1 ctx) (this, WRITER_LOCK) \<le> (if side = WRITER_LOCK then 1 else 0)"
    using other[of WRITER_LOCK] l by (auto simp: nheld_def held_def lm_simps lock_sync_def)
  then obtain found lm2 where 2: "finishTXN this ts side True ctx ctx ?lm1 = Inr (found, lm2)"
    using finishTXN_total[of ?lm1 this side True ctx ts ctx] fr1 sd
    by (auto simp: frame_ok_def lm_simps)
  note f2 = finish_frame_ok[OF fr1 2]
  have at2: "lock_at lm2 = lock_at lm" by (simp add: f2(2) lm_simps)
  have lt2: "this < length (m_heap lm2)" using lt f2(3) by simp
  have found: "found \<longleftrightarrow> 0 < nheld lm ctx this side"
    using finishTXN_held(1)[OF 2] by (simp add: nheld_pos[symmetric] held_def lm_simps)
  have "nheld lm2 ctx this side = 0"
    using lmgr.count_flush_readers[of this ts ctx ctx ?lm1 found lm2 "(this, READER_LOCK)"]
      lmgr.count_flush_writer[of this ts ctx ctx ?lm1 found lm2 "(this, WRITER_LOCK)"] 2 l
    by (cases side) (auto simp: nheld_def lock_sync_def held_def lm_simps)
  moreover have "nheld lm2 ctx this s = 0" if "s \<noteq> side" for s
    using nheld_spec_finish_le[OF 2, of this s] other[OF that] by simp
  ultimately have zero: "nheld lm2 ctx this s = 0" for s by (cases "s = side") simp_all
  show ?thesis
  proof (cases found)
    case False
    obtain ds' where "print_error this me (CannotFlush this) lm2 = Inr (lm2\<lparr>m_cerr := ds'\<rparr>)"
      using me at2 by (metis print_error_sync)
    moreover have "nheld lm ctx this s = 0" for s
      using False found other by (cases "s = side") auto
    ultimately show ?thesis
      using False l f2(1,4) zero by (simp add: flush_side_def 1 2 at2 lm_simps)
  next
    case True
    define n where "n = int (length (lastNPos (lock_at lm2 this)))"
    define lm3 where "lm3 = upd_lock this (\<lambda>l. (add_count side (- n) l)\<lparr>lastNPos := []\<rparr>) lm2"
    have at3: "lock_at lm3 this = (add_count side (- n) (lock_at lm this))\<lparr>lastNPos := []\<rparr>"
      using lt2 by (simp add: lm3_def lm_simps at2)
    have fr3: "frame_ok lm3 ctx this"
      unfolding lm3_def using f2(1) by (rule frame_ok_upd_lock) simp
    have z3: "nheld lm3 ctx this s = 0" for s using zero by (simp add: lm3_def lm_simps)
    have lt3: "this < length (m_heap lm3)" using lt2 by (simp add: lm3_def lm_simps)
    define left where "left = the_count side (lock_at lm3 this)"
    have s3: "lock_sync (add_count side (- left) (lock_at lm3 this)) 0 0"
      using l other[of READER_LOCK] other[of WRITER_LOCK] sd
      by (cases side) (auto simp: lock_sync_def at3 left_def has_sub_def n_def at2)
    have o3: "others_kept lm lm3 ctx this" using f2(4) by (simp add: lm3_def)
    have w3: "writer_count (add_count side (- left) (lock_at lm3 this)) = (if side = WRITER_LOCK then 0 else writer_count (lock_at lm this))"
      by (cases side) (simp_all add: at3 left_def)
    have w: "side = WRITER_LOCK \<Longrightarrow> 0 < nheld lm ctx this WRITER_LOCK" using True found by simp
    have fs: "flush_side this side me ts ctx lm =
        (if left \<noteq> 0 then
           bindE (print_error this me (case side of READER_LOCK \<Rightarrow> InconsistentReaderCount this left
             | WRITER_LOCK \<Rightarrow> InconsistentWriterCount this left) lm3) (\<lambda>lm4.
           Inr (upd_lock this (add_count side (- left)) lm4))
         else Inr lm3)"
      using True unfolding left_def lm3_def n_def flush_side_def 1 bindE.simps 2 by (simp add: Let_def)
    show ?thesis
    proof (cases "left = 0")
      case True
      have "add_count side 0 k = k" for k by (cases side) simp_all
      with True s3 w3 have "lock_sync (lock_at lm3 this) 0 0"
        "writer_count (lock_at lm3 this) = (if side = WRITER_LOCK then 0 else writer_count (lock_at lm this))" by simp_all
      moreover have "lk_class (lock_at lm3 this) = lk_class (lock_at lm this)" by (simp add: at3)
      ultimately show ?thesis using True fr3 z3 fs o3 w by auto
    next
      case False
      obtain ds' where e: "print_error this me (case side of READER_LOCK \<Rightarrow> InconsistentReaderCount this left
          | WRITER_LOCK \<Rightarrow> InconsistentWriterCount this left) lm3 = Inr (lm3\<lparr>m_cerr := ds'\<rparr>)"
        using me at3 by (metis print_error_sync add_count_simps(3) has_sub_update(3))
      let ?lm4 = "upd_lock this (add_count side (- left)) (lm3\<lparr>m_cerr := ds'\<rparr>)"
      have "frame_ok ?lm4 ctx this" using fr3 by (intro frame_ok_upd_lock) simp_all
      moreover have "lock_at ?lm4 this = add_count side (- left) (lock_at lm3 this)"
        using lt3 by (simp add: lm_simps)
      moreover have "flush_side this side me ts ctx lm = Inr ?lm4" using False e fs by simp
      moreover have "nheld ?lm4 ctx this s = 0" for s using z3 by (simp add: lm_simps)
      moreover have "lk_class (lock_at lm3 this) = lk_class (lock_at lm this)" by (simp add: at3)
      moreover have "others_kept lm ?lm4 ctx this" using o3 by simp
      ultimately show ?thesis using s3 w3 w by (intro exI[of _ ?lm4]) auto
    qed
  qed
qed

lemma release_sync:
  assumes sy: "sync lm ctx" and lt: "this < length (m_heap lm)"
    and sub: "has_sub (lock_at lm this) sub"
  shows "\<exists>lm'. release this sub ts ctx lm = Inr lm' \<and> sync lm' ctx \<and> others_kept lm lm' ctx this \<and>
    (\<forall>s. nheld lm' ctx this s = (if s = sub then nheld lm ctx this s - 1 else nheld lm ctx this s)) \<and>
    writer_count (lock_at lm' this) = (if sub = WRITER_LOCK \<and> 0 < writer_count (lock_at lm this)
      then writer_count (lock_at lm this) - 1 else writer_count (lock_at lm this))"
proof -
  let ?l = "lock_at lm this"
  have fr: "frame_ok lm ctx this"
    and l: "lock_sync ?l (nheld lm ctx this READER_LOCK) (nheld lm ctx this WRITER_LOCK)"
    using sy by (simp_all add: sync_iff[OF lt])
  have "\<exists>lm3 ps. frame_ok lm3 ctx this \<and> lock_at lm3 this = ?l\<lparr>lastNPos := ps\<rparr> \<and>
      this < length (m_heap lm3) \<and> others_kept lm lm3 ctx this \<and>
      (\<forall>s. nheld lm3 ctx this s = (if s = sub then nheld lm ctx this s - 1 else nheld lm ctx this s)) \<and>
      length ps = nheld lm3 ctx this READER_LOCK + nheld lm3 ctx this WRITER_LOCK \<and>
      release this sub ts ctx lm =
        (if the_count sub (lock_at lm3 this) = 0 then print_error this sub (AlreadyReleased this) lm3
         else Inr (upd_lock this (add_count sub (-1)) lm3))"
  proof (cases "lastNPos ?l = []")
    case True
    obtain ds where "print_error this sub (NoLastPosition this) lm = Inr (lm\<lparr>m_cerr := ds\<rparr>)"
      using sub by (rule print_error_sync)
    moreover have "nheld lm ctx this s = 0" for s
      using True l by (cases s) (auto simp: lock_sync_def)
    ultimately show ?thesis
      using True fr lt
      by (intro exI[of _ "lm\<lparr>m_cerr := ds\<rparr>"] exI[of _ "[]"]) (simp add: release_def lm_simps)
  next
    case False
    moreover have "length (lastNPos ?l) = nheld lm ctx this READER_LOCK + nheld lm ctx this WRITER_LOCK"
      using l by (simp add: lock_sync_def)
    ultimately have "0 < nheld lm ctx this READER_LOCK + nheld lm ctx this WRITER_LOCK"
      by (metis length_greater_0_conv)
    then have "held lm ctx \<noteq> []" by (auto simp: nheld_def)
    then have act: "hasActiveTXN lm ctx" by (simp add: hasActiveTXN_def held_def)
    have find: "findTXN lm this sub ctx = ctx"
      using fr by (intro findTXN_single) (simp add: frame_ok_def)
    obtain found lm2 where 2: "finishTXN this ts sub False ctx ctx lm = Inr (found, lm2)"
      using finishTXN_total[of lm this sub False ctx ts ctx] fr sub by (auto simp: frame_ok_def)
    note f2 = finish_frame_ok[OF fr 2]
    have n2: "nheld lm2 ctx this s = (if s = sub then nheld lm ctx this s - 1 else nheld lm ctx this s)" for s
      using lmgr.count_finish[OF 2, of "(this, s)"] by (simp add: nheld_def)
    have found: "found \<longleftrightarrow> 0 < nheld lm ctx this sub"
      using finishTXN_held(1)[OF 2] by (simp add: nheld_pos)
    have rel: "release this sub ts ctx lm = bindE (if found then pop_pos this lm2 else Inr lm2) (\<lambda>lm3.
        if the_count sub (lock_at lm3 this) = 0 then print_error this sub (AlreadyReleased this) lm3
        else Inr (upd_lock this (add_count sub (-1)) lm3))"
      using False act find by (simp add: release_def Let_def 2)
    show ?thesis
    proof (cases found)
      case True
      let ?ps = "tl (lastNPos ?l)" and ?lm3 = "upd_lock this (\<lambda>l. l\<lparr>lastNPos := tl (lastNPos ?l)\<rparr>) lm2"
      have "pop_pos this lm2 = Inr ?lm3"
        using False pop_pos_ok[of lm2 this] by (simp add: f2(2))
      moreover have "frame_ok ?lm3 ctx this" using f2(1) by (rule frame_ok_upd_lock) simp
      moreover have "length ?ps = nheld lm2 ctx this READER_LOCK + nheld lm2 ctx this WRITER_LOCK"
        using l True found n2[of READER_LOCK] n2[of WRITER_LOCK]
        by (cases sub) (auto simp: lock_sync_def)
      ultimately show ?thesis
        using True rel n2 f2 lt by (intro exI[of _ ?lm3] exI[of _ ?ps]) (simp add: lm_simps)
    next
      case nf: False
      then have "nheld lm2 ctx this s = nheld lm ctx this s" for s
        using n2[of s] found by (cases "s = sub") simp_all
      then show ?thesis
        using nf rel n2 f2 lt l
        by (intro exI[of _ lm2] exI[of _ "lastNPos ?l"]) (simp add: lock_sync_def)
    qed
  qed
  then obtain lm3 ps where 3: "frame_ok lm3 ctx this" "lock_at lm3 this = ?l\<lparr>lastNPos := ps\<rparr>"
      "this < length (m_heap lm3)" "others_kept lm lm3 ctx this"
      "\<And>s. nheld lm3 ctx this s = (if s = sub then nheld lm ctx this s - 1 else nheld lm ctx this s)"
      "length ps = nheld lm3 ctx this READER_LOCK + nheld lm3 ctx this WRITER_LOCK"
    and rel: "release this sub ts ctx lm =
        (if the_count sub (lock_at lm3 this) = 0 then print_error this sub (AlreadyReleased this) lm3
         else Inr (upd_lock this (add_count sub (-1)) lm3))"
    by blast
  show ?thesis
  proof (cases "the_count sub (lock_at lm3 this) = 0")
    case True
    obtain ds where e: "print_error this sub (AlreadyReleased this) lm3 = Inr (lm3\<lparr>m_cerr := ds\<rparr>)"
      using sub 3(2) by (metis print_error_sync has_sub_update(3))
    have "sync (lm3\<lparr>m_cerr := ds\<rparr>) ctx"
      using 3 l True by (subst sync_iff[of this]) (cases sub; auto simp: lock_sync_def lm_simps)+
    moreover have "writer_count ?l = 0" if "sub = WRITER_LOCK" using that True 3(2) by simp
    ultimately show ?thesis using True e rel 3(2,4,5) by (intro exI[of _ "lm3\<lparr>m_cerr := ds\<rparr>"]) (auto simp: lm_simps)
  next
    case False
    let ?lm4 = "upd_lock this (add_count sub (-1)) lm3"
    have "frame_ok ?lm4 ctx this" using 3(1) by (rule frame_ok_upd_lock) simp
    then have "sync ?lm4 ctx"
      using 3 l False by (subst sync_iff[of this]) (cases sub; auto simp: lock_sync_def lm_simps)+
    moreover have "0 < writer_count ?l" if "sub = WRITER_LOCK" using that False 3(2) l by (simp add: lock_sync_def)
    then have "writer_count (lock_at ?lm4 this) = (if sub = WRITER_LOCK \<and> 0 < writer_count ?l
        then writer_count ?l - 1 else writer_count ?l)"
      using 3(2,3) by (cases sub) (simp_all add: lm_simps)
    ultimately show ?thesis using False rel 3(4,5) by (intro exI[of _ ?lm4]) (simp add: lm_simps)
  qed
qed

section \<open>Transitions\<close>

text \<open>
  The abstract lock: the number of open read transactions, whether a write transaction is open, and
  the count of writers, which the code keeps by itself. An acquisition for writing closes the write
  transaction that is open but counts it on, so the count can exceed the open transactions; an
  acquisition for reading then sets it back only if a write transaction is open.
\<close>

record abs_lock =
  abs_readers :: nat
  abs_writer :: bool
  abs_writer_count :: int

fun lock_step :: "LOCK_OP \<Rightarrow> abs_lock \<Rightarrow> abs_lock" where
  "lock_step P_READ a = \<lparr>abs_readers = abs_readers a + 1, abs_writer = False,
     abs_writer_count = (if abs_writer a then 0 else abs_writer_count a)\<rparr>"
| "lock_step V_READ a = a\<lparr>abs_readers := abs_readers a - 1\<rparr>"
| "lock_step P_WRITE a = \<lparr>abs_readers = 0, abs_writer = True, abs_writer_count = abs_writer_count a + 1\<rparr>"
| "lock_step V_WRITE a = a\<lparr>abs_writer := False, abs_writer_count := max 0 (abs_writer_count a - 1)\<rparr>"

definition lock_shows :: "LockManager \<Rightarrow> int \<Rightarrow> nat \<Rightarrow> abs_lock \<Rightarrow> bool" where
  "lock_shows lm ctx p a \<longleftrightarrow>
     nheld lm ctx p READER_LOCK = abs_readers a \<and> nheld lm ctx p WRITER_LOCK = of_bool (abs_writer a) \<and>
     reader_count (lock_at lm p) = int (abs_readers a) \<and> writer_count (lock_at lm p) = abs_writer_count a \<and>
     length (lastNPos (lock_at lm p)) = abs_readers a + of_bool (abs_writer a)"

definition abs_of :: "LockManager \<Rightarrow> int \<Rightarrow> nat \<Rightarrow> abs_lock" where
  "abs_of lm ctx p = \<lparr>abs_readers = nheld lm ctx p READER_LOCK, abs_writer = (0 < nheld lm ctx p WRITER_LOCK),
     abs_writer_count = writer_count (lock_at lm p)\<rparr>"

lemma sync_shows: "sync lm ctx \<Longrightarrow> p < length (m_heap lm) \<Longrightarrow> lock_shows lm ctx p (abs_of lm ctx p)"
  by (auto simp: sync_def lock_sync_def lock_shows_def abs_of_def)

lemma abs_of_updateFlags [simp]: "abs_of (upd_lock this (updateFlags flags) lm) ctx this = abs_of lm ctx this"
proof -
  have "lock_at (upd_lock this (updateFlags flags) lm) this = lock_at lm this" if "\<not> this < length (m_heap lm)"
    using that by (simp add: upd_lock_def lock_at_def list_update_beyond)
  then show ?thesis by (cases "this < length (m_heap lm)") (auto simp: abs_of_def lm_simps updateFlags_def)
qed

definition op_side :: "LOCK_OP \<Rightarrow> SUB_LOCK" where
  "op_side op = (case op of P_READ \<Rightarrow> READER_LOCK | V_READ \<Rightarrow> READER_LOCK
     | P_WRITE \<Rightarrow> WRITER_LOCK | V_WRITE \<Rightarrow> WRITER_LOCK)"

definition is_P :: "LOCK_OP \<Rightarrow> bool" where
  "is_P op \<longleftrightarrow> op = P_READ \<or> op = P_WRITE"

definition refused :: "rwlock \<Rightarrow> LOCK_OP \<Rightarrow> bool" where
  "refused l op \<longleftrightarrow> \<not> has_sub l (op_side op) \<or> is_P op \<and> writer_count l > 0 \<and> reader_count l > 0"

lemma sync_updateFlags:
  assumes "sync lm ctx" and "this < length (m_heap lm)"
  shows "sync (upd_lock this (updateFlags flags) lm) ctx"
proof -
  have "frame_ok (upd_lock this (updateFlags flags) lm) ctx this"
    using assms by (intro frame_ok_upd_lock) (simp_all add: sync_iff updateFlags_def)
  with assms show ?thesis
    by (simp add: sync_iff lm_simps updateFlags_def lock_sync_def)
qed

lemma already_held_sync:
  assumes sy: "sync lm ctx" and lt: "this < length (m_heap lm)"
    and sub: "has_sub (lock_at lm this) WRITER_LOCK" and rc: "reader_count (lock_at lm this) = 0"
  shows "\<exists>lm'. bindE (print_error this WRITER_LOCK (AlreadyHeld this) lm) (\<lambda>lm1.
        bindE (finishTXN this ts WRITER_LOCK False ctx ctx lm1) (\<lambda>(found, lm2).
        if found then pop_pos this lm2 else Inr lm2)) = Inr lm' \<and> frame_ok lm' ctx this \<and>
      has_sub (lock_at lm' this) WRITER_LOCK \<and> (\<forall>s. nheld lm' ctx this s = 0) \<and>
      lock_sync (lock_at lm' this) 0 0 \<and> others_kept lm lm' ctx this \<and>
      writer_count (lock_at lm' this) = writer_count (lock_at lm this)"
proof -
  let ?l = "lock_at lm this"
  have fr: "frame_ok lm ctx this"
    and l: "lock_sync ?l (nheld lm ctx this READER_LOCK) (nheld lm ctx this WRITER_LOCK)"
    using sy by (simp_all add: sync_iff[OF lt])
  obtain ds where 1: "print_error this WRITER_LOCK (AlreadyHeld this) lm = Inr (lm\<lparr>m_cerr := ds\<rparr>)"
    using sub by (rule print_error_sync)
  let ?lm1 = "lm\<lparr>m_cerr := ds\<rparr>"
  have fr1: "frame_ok ?lm1 ctx this" using fr by simp
  obtain found lm2 where 2: "finishTXN this ts WRITER_LOCK False ctx ctx ?lm1 = Inr (found, lm2)"
    using finishTXN_total[of ?lm1 this WRITER_LOCK False ctx ts ctx] fr1 sub
    by (auto simp: frame_ok_def lm_simps)
  note f2 = finish_frame_ok[OF fr1 2]
  have at2: "lock_at lm2 = lock_at lm" by (simp add: f2(2) lm_simps)
  have found: "found \<longleftrightarrow> 0 < nheld lm ctx this WRITER_LOCK"
    using finishTXN_held(1)[OF 2] by (simp add: nheld_pos[symmetric] held_def lm_simps)
  have z: "nheld lm2 ctx this s = 0" for s
    using lmgr.count_finish[OF 2, of "(this, s)"] l rc
    by (cases s) (auto simp: nheld_def held_def lm_simps lock_sync_def)
  show ?thesis
  proof (cases found)
    case True
    then have "lastNPos ?l \<noteq> []" using found l by (auto simp: lock_sync_def)
    moreover have "length (lastNPos ?l) = 1"
      using True found l rc by (auto simp: lock_sync_def)
    ultimately have "pop_pos this lm2 = Inr (upd_lock this (\<lambda>l. l\<lparr>lastNPos := []\<rparr>) lm2)"
      using pop_pos_ok[of lm2 this] by (auto simp: at2 length_Suc_conv)
    moreover have "frame_ok (upd_lock this (\<lambda>l. l\<lparr>lastNPos := []\<rparr>) lm2) ctx this"
      using f2(1) by (rule frame_ok_upd_lock) simp
    ultimately show ?thesis
      using True z l sub rc lt f2(3,4) by (auto simp: 1 2 lm_simps at2 lock_sync_def)
  next
    case False
    then have "lock_sync ?l 0 0" using l rc found by (auto simp: lock_sync_def)
    then show ?thesis using False z sub f2(1,4) by (simp add: 1 2 at2)
  qed
qed

lemma writeTransition_sync:
  assumes sy: "sync lm0 ctx" and lt: "this < length (m_heap lm0)" and k: "kernelDir \<noteq> []"
    and flags: "flags AND LOCK_FLAGS_RECURSIVE = 0"
    and side: "op_side op = WRITER_LOCK" and ok: "\<not> refused (lock_at lm0 this) op"
  shows "\<exists>lm'. writeTransition this op ts file line flags kernelDir ctx lm0 = Inr lm' \<and> sync lm' ctx \<and>
    others_kept lm0 lm' ctx this \<and> abs_of lm' ctx this = lock_step op (abs_of lm0 ctx this)"
proof -
  define lm where "lm = upd_lock this (updateFlags flags) lm0"
  have abs0: "abs_of lm ctx this = abs_of lm0 ctx this" and ot0: "others_kept lm lm' ctx this = others_kept lm0 lm' ctx this" for lm'
    by (simp_all add: lm_def)
  let ?l = "lock_at lm this"
  have sy1: "sync lm ctx" unfolding lm_def using sy lt by (rule sync_updateFlags)
  have lt1: "this < length (m_heap lm)" using lt by (simp add: lm_def lm_simps)
  have at: "?l = (lock_at lm0 this)\<lparr>lk_flags := flags\<rparr>"
    using lt by (simp add: lm_def lm_simps updateFlags_def)
  have sub: "has_sub ?l WRITER_LOCK" using ok side by (simp add: at refused_def)
  have fr: "frame_ok lm ctx this"
    and l: "lock_sync ?l (nheld lm ctx this READER_LOCK) (nheld lm ctx this WRITER_LOCK)"
    using sy1 by (simp_all add: sync_iff[OF lt1])
  note unf = writeTransition_def Let_def lm_def[symmetric]
  consider "op = P_WRITE" | "op = V_WRITE" using side by (cases op) (simp_all add: op_side_def)
  then show ?thesis
  proof cases
    case 2
    with release_sync[OF sy1 lt1 sub, of ts] l show ?thesis
      unfolding abs0[symmetric] ot0[symmetric] by (auto simp: unf abs_of_def lock_sync_def)
  next
    case 1
    have "0 \<le> writer_count ?l" "0 \<le> reader_count ?l" "\<not> (writer_count ?l > 0 \<and> reader_count ?l > 0)"
      using l ok 1 by (auto simp: refused_def is_P_def at lock_sync_def)
    then consider (readers) "writer_count ?l = 0" "reader_count ?l > 0"
      | (writers) "writer_count ?l > 0" "reader_count ?l = 0"
      | (idle) "writer_count ?l = 0" "reader_count ?l = 0"
      by (metis less_le)
    then show ?thesis
    proof cases
      case readers
      then have hs: "has_sub ?l READER_LOCK" and w: "nheld lm ctx this WRITER_LOCK = 0"
        using l fr by (auto simp: lock_sync_def intro: frame_ok_has_sub)
      have "nheld lm ctx this s = 0" if "s \<noteq> READER_LOCK" for s
        using that w by (cases s) simp_all
      from flush_side_sync[OF fr sub hs l this, of ts] obtain lm2 where "flush_side this READER_LOCK WRITER_LOCK ts ctx lm = Inr lm2"
        "frame_ok lm2 ctx this" "lk_class (lock_at lm2 this) = lk_class ?l"
        "\<And>s. nheld lm2 ctx this s = 0" "lock_sync (lock_at lm2 this) 0 0" "others_kept lm lm2 ctx this"
        "writer_count (lock_at lm2 this) = writer_count ?l"
        by auto
      moreover from this have "has_sub (lock_at lm2 this) WRITER_LOCK"
        using sub by (simp add: has_sub_def)
      ultimately show ?thesis
        using readers 1 acquire_sync[of lm2 ctx this kernelDir WRITER_LOCK ts "file" line] k
        unfolding abs0[symmetric] ot0[symmetric] by (auto simp: unf abs_of_def intro: others_kept_trans)
    next
      case writers
      from already_held_sync[OF sy1 lt1 sub writers(2), of ts] obtain lm2 where
        "bindE (print_error this WRITER_LOCK (AlreadyHeld this) lm) (\<lambda>lm1.
          bindE (finishTXN this ts WRITER_LOCK False ctx ctx lm1) (\<lambda>(found, lm2).
          if found then pop_pos this lm2 else Inr lm2)) = Inr lm2" "frame_ok lm2 ctx this"
        "has_sub (lock_at lm2 this) WRITER_LOCK" "\<And>s. nheld lm2 ctx this s = 0"
        "lock_sync (lock_at lm2 this) 0 0" "others_kept lm lm2 ctx this" "writer_count (lock_at lm2 this) = writer_count ?l"
        by blast
      then show ?thesis
        using writers 1 acquire_sync[of lm2 ctx this kernelDir WRITER_LOCK ts "file" line] k flags at
        unfolding abs0[symmetric] ot0[symmetric] by (auto simp: unf abs_of_def intro: others_kept_trans)
    next
      case idle
      then have "nheld lm ctx this WRITER_LOCK = 0" "nheld lm ctx this READER_LOCK = 0"
        using l by (auto simp: lock_sync_def)
      then show ?thesis
        using idle 1 acquire_sync[of lm ctx this kernelDir WRITER_LOCK ts "file" line] fr k sub l
        unfolding abs0[symmetric] ot0[symmetric] by (auto simp: unf abs_of_def)
    qed
  qed
qed

lemma readTransition_sync:
  assumes sy: "sync lm0 ctx" and lt: "this < length (m_heap lm0)" and k: "kernelDir \<noteq> []"
    and side: "op_side op = READER_LOCK" and ok: "\<not> refused (lock_at lm0 this) op"
  shows "\<exists>lm'. readTransition this op ts file line flags kernelDir ctx lm0 = Inr lm' \<and> sync lm' ctx \<and>
    others_kept lm0 lm' ctx this \<and> abs_of lm' ctx this = lock_step op (abs_of lm0 ctx this)"
proof -
  define lm where "lm = upd_lock this (updateFlags flags) lm0"
  have abs0: "abs_of lm ctx this = abs_of lm0 ctx this" and ot0: "others_kept lm lm' ctx this = others_kept lm0 lm' ctx this" for lm'
    by (simp_all add: lm_def)
  let ?l = "lock_at lm this"
  have sy1: "sync lm ctx" unfolding lm_def using sy lt by (rule sync_updateFlags)
  have lt1: "this < length (m_heap lm)" using lt by (simp add: lm_def lm_simps)
  have at: "?l = (lock_at lm0 this)\<lparr>lk_flags := flags\<rparr>"
    using lt by (simp add: lm_def lm_simps updateFlags_def)
  have sub: "has_sub ?l READER_LOCK" using ok side by (simp add: at refused_def)
  have fr: "frame_ok lm ctx this"
    and l: "lock_sync ?l (nheld lm ctx this READER_LOCK) (nheld lm ctx this WRITER_LOCK)"
    using sy1 by (simp_all add: sync_iff[OF lt1])
  note unf = readTransition_def Let_def lm_def[symmetric]
  consider "op = P_READ" | "op = V_READ" using side by (cases op) (simp_all add: op_side_def)
  then show ?thesis
  proof cases
    case 2
    with release_sync[OF sy1 lt1 sub, of ts] l show ?thesis
      unfolding abs0[symmetric] ot0[symmetric] by (auto simp: unf abs_of_def lock_sync_def)
  next
    case 1
    show ?thesis
    proof (cases "writer_count ?l = 0")
      case True
      then have "nheld lm ctx this WRITER_LOCK = 0" using l by (simp add: lock_sync_def)
      with True 1 show ?thesis
        using acquire_sync[of lm ctx this kernelDir READER_LOCK ts "file" line] fr k sub l
        unfolding abs0[symmetric] ot0[symmetric] by (auto simp: unf abs_of_def)
    next
      case False
      then have w: "writer_count ?l > 0" and r: "reader_count ?l = 0"
        using l ok 1 by (auto simp: refused_def is_P_def at lock_sync_def)
      then have hs: "has_sub ?l WRITER_LOCK" and z: "nheld lm ctx this READER_LOCK = 0"
        using l by (auto simp: lock_sync_def has_sub_def split: lock_class.splits)
      have "nheld lm ctx this s = 0" if "s \<noteq> WRITER_LOCK" for s
        using that z by (cases s) simp_all
      from flush_side_sync[OF fr sub hs l this, of ts] obtain lm2 where "flush_side this WRITER_LOCK READER_LOCK ts ctx lm = Inr lm2"
        "frame_ok lm2 ctx this" "lk_class (lock_at lm2 this) = lk_class ?l"
        "\<And>s. nheld lm2 ctx this s = 0" "lock_sync (lock_at lm2 this) 0 0" "others_kept lm lm2 ctx this"
        "writer_count (lock_at lm2 this) = (if 0 < nheld lm ctx this WRITER_LOCK then 0 else writer_count ?l)"
        by auto
      moreover from this have "has_sub (lock_at lm2 this) READER_LOCK"
        using sub by (simp add: has_sub_def)
      ultimately show ?thesis
        using w r z 1 acquire_sync[of lm2 ctx this kernelDir READER_LOCK ts "file" line] k
        unfolding abs0[symmetric] ot0[symmetric] by (auto simp: unf abs_of_def intro: others_kept_trans)
    qed
  qed
qed

lemma transition_keeps_sync:
  assumes "sync lm ctx" "this < length (m_heap lm)" "kernelDir \<noteq> []"
    "flags AND LOCK_FLAGS_RECURSIVE = 0" "\<not> refused (lock_at lm this) op"
  shows "\<exists>lm'. transition this op ts file line flags kernelDir ctx lm = Inr lm' \<and> sync lm' ctx \<and>
    others_kept lm lm' ctx this \<and> abs_of lm' ctx this = lock_step op (abs_of lm ctx this)"
proof (cases "op_side op")
  case READER_LOCK
  then have "lk_class (lock_at lm this) \<noteq> WLock" "op \<noteq> P_WRITE" "op \<noteq> V_WRITE"
    using assms(5) by (auto simp: refused_def has_sub_def op_side_def split: lock_class.splits)
  then show ?thesis
    using readTransition_sync[OF assms(1-3) READER_LOCK assms(5)]
    by (auto simp: transition_def split: lock_class.splits)
next
  case WRITER_LOCK
  then have "lk_class (lock_at lm this) \<noteq> RLock" "op = P_WRITE \<or> op = V_WRITE"
    using assms(5) by (cases op; auto simp: refused_def has_sub_def op_side_def split: lock_class.splits)+
  then show ?thesis
    using writeTransition_sync[OF assms(1-4) WRITER_LOCK assms(5)]
    by (auto simp: transition_def split: lock_class.splits)
qed

lemma transition_refused:
  assumes "refused (lock_at lm this) op" "this < length (m_heap lm)"
  shows "\<exists>m. transition this op ts file line flags kernelDir ctx lm = Inl (LogicError m)"
  using assms
  by (cases op; cases "lk_class (lock_at lm this)")
    (auto simp: refused_def op_side_def is_P_def transition_def writeTransition_def
      readTransition_def has_sub_def invalid_state_def Let_def lm_simps updateFlags_def)

end
