(* ===== verification/Lock_Refs.thy ===== *)
theory Lock_Refs
  imports Lock_Paths
begin

text \<open>
  References into the tables the lock manager writes: which transaction ids a memory access may
  name, and which lock ids the rows of \<^verbatim>\<open>locks_held.csv\<close> name.
\<close>

section \<open>Transaction ids that are or will be recorded\<close>

definition txn_refs :: "LockManager \<Rightarrow> u64 \<Rightarrow> bool" where
  "txn_refs lm i \<longleftrightarrow> i \<in> tr_id ` set (m_txnsOFile lm) \<or>
     (\<exists>ctx. \<exists>t \<in> set (txn_stack lm ctx). txn_id t = i \<and> memAccessCounter t > 0)"

definition ctr_ok :: "nat \<Rightarrow> LockManager \<Rightarrow> bool" where
  "ctr_ok n lm \<longleftrightarrow> (\<forall>ctx. \<forall>t \<in> set (txn_stack lm ctx). unat (memAccessCounter t) \<le> n)"

lemma record_txn_rows:
  assumes "record_txn ts ctxOld t below lm = Inr lm'"
  shows "tr_id ` set (m_txnsOFile lm') = insert (txn_id t) (tr_id ` set (m_txnsOFile lm))"
  using assms by (auto simp: record_txn_def bindE_Inr_iff)

lemma finishTXN_loop_refs:
  "finishTXN_loop p ts sub False ctx ctxOld stk rs lm = Inr (found, stk', lm') \<Longrightarrow>
     tr_id ` set (m_txnsOFile lm) \<subseteq> tr_id ` set (m_txnsOFile lm') \<and> set rs \<subseteq> set stk' \<and>
     (\<forall>t \<in> set stk. memAccessCounter t > 0 \<longrightarrow>
        txn_id t \<in> tr_id ` set (m_txnsOFile lm') \<or> t \<in> set stk') \<and>
     (\<forall>t \<in> set stk'. t \<in> set rs \<or> t \<in> set stk \<or> memAccessCounter t = 0)"
proof (induction stk arbitrary: rs lm)
  case (Cons t below)
  from Cons.prems show ?case
  proof (rule finishTXN_loop_ConsE, goal_cases)
    case (1 lm1)
    have rows: "tr_id ` set (m_txnsOFile lm) \<subseteq> tr_id ` set (m_txnsOFile lm1)"
      and new: "memAccessCounter t > 0 \<Longrightarrow> txn_id t \<in> tr_id ` set (m_txnsOFile lm1)"
      using 1(1) by (auto dest!: record_txn_rows split: if_splits)
    show ?case
    proof (cases "txn_key t = (p, sub)")
      case True
      with 1 have "lm' = lm1" "stk' = rs @ below" by auto
      with rows new show ?thesis by auto
    next
      case False
      let ?r = "restart_txn (m_nextTXNID lm) ts ctx t"
      from False 1 obtain ds where "finishTXN_loop p ts sub False ctx ctxOld below (rs @ [?r])
          (lm1\<lparr>m_cerr := m_cerr lm1 @ ds, m_nextTXNID := m_nextTXNID lm + 1\<rparr>) = Inr (found, stk', lm')"
        by auto
      from Cons.IH[OF this] rows new show ?thesis by (auto simp: restart_txn_def)
    qed
  qed
qed simp

lemma finishTXN_loop_ctr:
  "finishTXN_loop p ts sub rr ctx ctxOld stk rs lm = Inr (found, stk', lm') \<Longrightarrow>
     \<forall>t \<in> set stk'. t \<in> set rs \<or> t \<in> set stk \<or> memAccessCounter t = 0"
proof (induction stk arbitrary: rs lm)
  case (Cons t below)
  from Cons.prems show ?case
  proof (rule finishTXN_loop_ConsE, goal_cases)
    case (1 lm1)
    show ?case
    proof (cases "txn_key t = (p, sub)")
      case True
      with 1 show ?thesis by auto
    next
      case False
      let ?r = "restart_txn (m_nextTXNID lm) ts ctx t"
      from False 1 obtain ds where "finishTXN_loop p ts sub rr ctx ctxOld below (rs @ [?r])
          (lm1\<lparr>m_cerr := m_cerr lm1 @ ds, m_nextTXNID := m_nextTXNID lm + 1\<rparr>) = Inr (found, stk', lm')"
        by auto
      from Cons.IH[OF this] show ?thesis by (auto simp: restart_txn_def)
    qed
  qed
qed simp

lemma finishTXN_stackE:
  assumes "finishTXN p ts sub rr ctx ctxOld lm = Inr (found, lm')"
  obtains stk lm1 where
    "finishTXN_loop p ts sub rr ctx ctxOld (txn_stack lm ctx) [] lm = Inr (found, stk, lm1)"
    "txn_stack lm' = (txn_stack lm)(ctx := stk)"
    "m_txnsOFile lm' = m_txnsOFile lm1" "m_locksHeldOFile lm' = m_locksHeldOFile lm1"
proof -
  obtain stk lm1 lm2 where
    1: "finishTXN_loop p ts sub rr ctx ctxOld (txn_stack lm ctx) [] lm = Inr (found, stk, lm1)" and
    2: "(if \<not> found then print_error p sub (NoMatchingTXN p) lm1 else Inr lm1) = Inr lm2" and
    3: "lm' = set_stack ctx stk lm2"
    using assms by (auto simp: finishTXN_def bindE_Inr_iff)
  have lm2: "m_activeTXNs lm2 = m_activeTXNs lm1" "m_txnsOFile lm2 = m_txnsOFile lm1"
    "m_locksHeldOFile lm2 = m_locksHeldOFile lm1"
    using 2 by (auto dest: print_error_frame split: if_splits)
  have st: "txn_stack lm2 = txn_stack lm"
    using lm2(1) finishTXN_loop_frame[OF 1] by (simp add: txn_stack_def fun_eq_iff)
  show ?thesis by (rule that[OF 1]) (auto simp: 3 lm_simps lm2 st fun_eq_iff)
qed

lemma finishTXN_refs:
  assumes "finishTXN p ts sub False ctx ctxOld lm = Inr (found, lm')" and "txn_refs lm i"
  shows "txn_refs lm' i"
  using assms(1)
proof (rule finishTXN_stackE)
  fix stk lm1
  assume 1: "finishTXN_loop p ts sub False ctx ctxOld (txn_stack lm ctx) [] lm = Inr (found, stk, lm1)"
    and st: "txn_stack lm' = (txn_stack lm)(ctx := stk)" and rows: "m_txnsOFile lm' = m_txnsOFile lm1"
  note loop = finishTXN_loop_refs[OF 1]
  show ?thesis
  proof (cases "i \<in> tr_id ` set (m_txnsOFile lm)")
    case True
    with loop show ?thesis by (auto simp: txn_refs_def rows)
  next
    case False
    with assms(2) obtain c t where t: "t \<in> set (txn_stack lm c)" "txn_id t = i" "memAccessCounter t > 0"
      by (auto simp: txn_refs_def)
    show ?thesis
    proof (cases "c = ctx")
      case True
      with t loop have "i \<in> tr_id ` set (m_txnsOFile lm1) \<or> t \<in> set stk" by auto
      with t st show ?thesis by (auto simp: txn_refs_def rows intro: exI[of _ ctx])
    next
      case False
      with t st show ?thesis by (auto simp: txn_refs_def intro: exI[of _ c])
    qed
  qed
qed

lemma startTXN_refs: "txn_refs lm i \<Longrightarrow> txn_refs (startTXN p ts sub ctx lm) i"
  by (fastforce simp: txn_refs_def startTXN_def lm_simps)

lemma lm_path_refs:
  "lm_path acts lm lm' \<Longrightarrow> Finish True \<notin> set acts \<Longrightarrow> txn_refs lm i \<Longrightarrow> txn_refs lm' i"
proof (induction rule: lm_path.induct)
  case (silent lm lm1 acts lm')
  then have "txn_refs lm1 i" by (simp add: quiet_def txn_refs_def txn_stack_def)
  with silent show ?case by blast
next
  case (finish p ts sub rr ctx ctxOld lm found lm1 acts lm')
  then have "rr = False" by (cases rr) auto
  with finish show ?case by (auto intro: finishTXN_refs)
qed (auto intro: startTXN_refs)

lemma finishTXN_ctr:
  assumes "finishTXN p ts sub rr ctx ctxOld lm = Inr (found, lm')" and "ctr_ok n lm"
  shows "ctr_ok n lm'"
  using assms(1)
proof (rule finishTXN_stackE)
  fix stk lm1
  assume 1: "finishTXN_loop p ts sub rr ctx ctxOld (txn_stack lm ctx) [] lm = Inr (found, stk, lm1)"
    and st: "txn_stack lm' = (txn_stack lm)(ctx := stk)"
  from finishTXN_loop_ctr[OF 1] assms(2) show ?thesis by (auto simp: ctr_ok_def st)
qed

lemma startTXN_ctr: "ctr_ok n lm \<Longrightarrow> ctr_ok n (startTXN p ts sub ctx lm)"
  by (auto simp: ctr_ok_def startTXN_def lm_simps)

lemma lm_path_ctr: "lm_path acts lm lm' \<Longrightarrow> ctr_ok n lm \<Longrightarrow> ctr_ok n lm'"
proof (induction rule: lm_path.induct)
  case (silent lm lm1 acts lm')
  then have "ctr_ok n lm1" by (simp add: quiet_def ctr_ok_def txn_stack_def)
  with silent show ?case by blast
qed (auto intro: finishTXN_ctr startTXN_ctr)

section \<open>Lock ids\<close>

definition lock_ids :: "LockManager \<Rightarrow> u64 set" where
  "lock_ids lm = set (concat (map sub_ids (m_heap lm)))"

definition held_refs_ok :: "LockManager \<Rightarrow> bool" where
  "held_refs_ok lm \<longleftrightarrow> hr_lock_id ` set (m_locksHeldOFile lm) \<subseteq> lock_ids lm"

lemma getID_sub_ids: "getID l sub = Inr i \<Longrightarrow> i \<in> set (sub_ids l)"
  by (cases sub; cases "lk_class l") (auto simp: getID_def sub_ids_def)

lemma locks_held_rows_ids:
  "locks_held_rows heap tid ts seen = Inr (rows, ds) \<Longrightarrow> \<forall>t \<in> set ts. txn_lock t < length heap \<Longrightarrow>
     hr_lock_id ` set rows \<subseteq> set (concat (map sub_ids heap))"
proof (induction ts arbitrary: seen rows ds)
  case (Cons t rest)
  have "set (sub_ids (heap ! txn_lock t)) \<subseteq> set (concat (map sub_ids heap))"
    using Cons.prems(2) by (auto intro!: nth_mem)
  with Cons.prems Cons.IH show ?case
    by (fastforce simp: Let_def bindE_Inr_iff dest: getID_sub_ids split: if_splits list.splits)
qed simp

lemma finishTXN_loop_held_refs:
  "finishTXN_loop p ts sub rr ctx ctxOld stk rs lm = Inr (found, stk', lm') \<Longrightarrow>
     \<forall>t \<in> set stk. txn_lock t < length (m_heap lm) \<Longrightarrow> held_refs_ok lm \<Longrightarrow> held_refs_ok lm'"
proof (induction stk arbitrary: rs lm)
  case (Cons t below)
  from Cons.prems(1) show ?case
  proof (rule finishTXN_loop_ConsE, goal_cases)
    case (1 lm1)
    have ok1: "held_refs_ok lm1"
    proof (cases "memAccessCounter t > 0")
      case True
      with 1(1) obtain rows ds where
        r: "locks_held_rows (m_heap lm) (txn_id t) (rev (t # below)) [] = Inr (rows, ds)"
        and "m_locksHeldOFile lm1 = m_locksHeldOFile lm @ rows"
        by (auto simp: record_txn_def bindE_Inr_iff)
      with locks_held_rows_ids[OF r] Cons.prems(2,3) 1(2) show ?thesis
        by (auto simp: held_refs_ok_def lock_ids_def same_locks_def)
    next
      case False
      with 1(1) Cons.prems(3) show ?thesis by (simp add: SKIP_EMPTY_TXNS_def)
    qed
    have lt: "\<forall>t \<in> set below. txn_lock t < length (m_heap lm1)"
      using Cons.prems(2) 1(2) by (simp add: same_locks_def)
    show ?case
    proof (cases "txn_key t = (p, sub)")
      case True
      with 1 have "m_locksHeldOFile lm' = m_locksHeldOFile lm1" "m_heap lm' = m_heap lm1" by auto
      with ok1 show ?thesis by (simp add: held_refs_ok_def lock_ids_def)
    next
      case False
      let ?r = "restart_txn (m_nextTXNID lm) ts ctx t"
      from False 1 obtain ds where loop: "finishTXN_loop p ts sub rr ctx ctxOld below (rs @ [?r])
          (lm1\<lparr>m_cerr := m_cerr lm1 @ ds, m_nextTXNID := m_nextTXNID lm + 1\<rparr>) = Inr (found, stk', lm')"
        by auto
      show ?thesis
        by (rule Cons.IH[OF loop]) (use lt ok1 in \<open>simp_all add: held_refs_ok_def lock_ids_def\<close>)
    qed
  qed
qed simp

lemma finishTXN_held_refs:
  assumes fin: "finishTXN p ts sub rr ctx ctxOld lm = Inr (found, lm')" and "txns_ok lm" "held_refs_ok lm"
  shows "held_refs_ok lm'"
  using fin
proof (rule finishTXN_stackE)
  fix stk lm1
  assume 1: "finishTXN_loop p ts sub rr ctx ctxOld (txn_stack lm ctx) [] lm = Inr (found, stk, lm1)"
    and rows: "m_locksHeldOFile lm' = m_locksHeldOFile lm1"
  have "\<forall>t \<in> set (txn_stack lm ctx). txn_lock t < length (m_heap lm)"
    using assms(2) by (fastforce simp: txns_ok_def held_def txn_key_def)
  from finishTXN_loop_held_refs[OF 1 this assms(3)] rows finishTXN_held(3)[OF fin] finishTXN_loop_frame[OF 1]
  show ?thesis by (simp add: held_refs_ok_def lock_ids_def same_locks_def)
qed

lemma lm_path_held_refs:
  "lm_path acts lm lm' \<Longrightarrow> txns_ok lm \<Longrightarrow> held_refs_ok lm \<Longrightarrow> held_refs_ok lm'"
proof (induction rule: lm_path.induct)
  case (silent lm lm1 acts lm')
  have "map sub_ids (m_heap lm1) = map sub_ids (m_heap lm)"
    using silent(1) by (intro nth_equalityI) (simp_all add: quiet_def lock_at_def)
  then have "held_refs_ok lm1" using silent(1,5) by (simp add: held_refs_ok_def lock_ids_def quiet_def)
  moreover have "txns_ok lm1" by (rule quiet_txns_ok[OF silent(1,4)])
  ultimately show ?case using silent(3) by blast
next
  case (finish p ts sub rr ctx ctxOld lm found lm1 acts lm')
  then show ?case using finishTXN_held_refs finishTXN_txns_ok by blast
next
  case (start p lm sub acts ts ctx lm')
  have "txns_ok (startTXN p ts sub ctx lm)"
    by (rule startTXN_txns_ok[OF start(5,1,2)])
  moreover have "held_refs_ok (startTXN p ts sub ctx lm)"
    using start(6) by (simp add: held_refs_ok_def lock_ids_def startTXN_def lm_simps)
  ultimately show ?case using start(4) by blast
qed simp

end
