(* ===== verification/C_Numbers.thy ===== *)
theory C_Numbers
  imports LockDoc_Prelude
begin

text \<open>
  The conversions between numbers and text of the C++ library that \<^verbatim>\<open>convert\<close> and the
  hypothesizer call: \<^verbatim>\<open>std::stoull\<close>, \<^verbatim>\<open>std::stoul\<close> and \<^verbatim>\<open>std::stoi\<close> with base 10 and 16,
  and printing in base 16. A string without a leading number is refused with
  \<^verbatim>\<open>invalid_argument\<close>, a number that does not fit with \<^verbatim>\<open>out_of_range\<close>; text after the
  number is ignored.
\<close>

definition is_space :: "char \<Rightarrow> bool" where
  "is_space c \<longleftrightarrow> (of_char c :: nat) = 32 \<or> 9 \<le> (of_char c :: nat) \<and> (of_char c :: nat) \<le> 13"

definition digit_in :: "nat \<Rightarrow> char \<Rightarrow> nat option" where
  "digit_in base c =
     (let n = (of_char c :: nat);
          d = (if 48 \<le> n \<and> n \<le> 57 then Some (n - 48)
               else if 97 \<le> n \<and> n \<le> 122 then Some (n - 87)
               else if 65 \<le> n \<and> n \<le> 90 then Some (n - 55) else None)
      in case d of None \<Rightarrow> None | Some v \<Rightarrow> if v < base then Some v else None)"

fun take_digits :: "nat \<Rightarrow> string \<Rightarrow> nat list" where
  "take_digits base [] = []"
| "take_digits base (c # cs) =
     (case digit_in base c of None \<Rightarrow> [] | Some v \<Rightarrow> v # take_digits base cs)"

definition digits_value :: "nat \<Rightarrow> nat list \<Rightarrow> nat" where
  "digits_value base ds = foldl (\<lambda>a d. base * a + d) 0 ds"

definition skip_prefix :: "nat \<Rightarrow> string \<Rightarrow> string" where
  "skip_prefix base s =
     (case s of
        z # x # d # _ \<Rightarrow>
          if base = 16 \<and> z = CHR ''0'' \<and> (x = CHR ''x'' \<or> x = CHR ''X'') \<and> digit_in 16 d \<noteq> None
          then drop 2 s else s
      | _ \<Rightarrow> s)"

text \<open>Sign and magnitude of the leading number, if there is one.\<close>

definition scan_number :: "nat \<Rightarrow> string \<Rightarrow> (bool \<times> nat) option" where
  "scan_number base s =
     (let t = dropWhile is_space s;
          neg = (t \<noteq> [] \<and> hd t = CHR ''-'');
          u = (if t \<noteq> [] \<and> (hd t = CHR ''-'' \<or> hd t = CHR ''+'') then tl t else t);
          ds = take_digits base (skip_prefix base u)
      in if ds = [] then None else Some (neg, digits_value base ds))"

definition stoull :: "nat \<Rightarrow> string \<Rightarrow> u64 res" where
  "stoull base s = (case scan_number base s of
       None \<Rightarrow> Inl (InvalidArgument ''stoull'')
     | Some (neg, n) \<Rightarrow>
         if 2 ^ 64 \<le> n then Inl (OutOfRange ''stoull'')
         else Inr (if neg then - of_nat n else of_nat n))"

abbreviation stoul :: "nat \<Rightarrow> string \<Rightarrow> u64 res" where
  "stoul \<equiv> stoull"   \<comment> \<open>\<open>unsigned long\<close> has 64 bits as well\<close>

definition stoi :: "nat \<Rightarrow> string \<Rightarrow> int res" where
  "stoi base s = (case scan_number base s of
       None \<Rightarrow> Inl (InvalidArgument ''stoi'')
     | Some (neg, n) \<Rightarrow>
         (let i = (if neg then - int n else int n)
          in if i < - (2 ^ 31) \<or> 2 ^ 31 \<le> i then Inl (OutOfRange ''stoi'') else Inr i))"

definition hex_digit_char :: "nat \<Rightarrow> char" where
  "hex_digit_char n = (if n < 10 then char_of (48 + n) else char_of (87 + n))"

fun hex_of_nat :: "nat \<Rightarrow> string" where
  "hex_of_nat n = (if n < 16 then [hex_digit_char n] else hex_of_nat (n div 16) @ [hex_digit_char (n mod 16)])"

declare hex_of_nat.simps [simp del]

definition showbase_hex :: "u64 \<Rightarrow> string" where
  \<comment> \<open>\<open>hex << showbase\<close> prints the prefix for every value but 0\<close>
  "showbase_hex w = (if w = 0 then ''0'' else ''0x'' @ hex_of_nat (unat w))"

section \<open>Printing and parsing agree\<close>

lemma take_digits_append:
  "\<forall>c \<in> set xs. digit_in base c \<noteq> None \<Longrightarrow>
     take_digits base (xs @ ys) = map (\<lambda>c. the (digit_in base c)) xs @ take_digits base ys"
  by (induction xs) auto

lemma digits_value_snoc: "digits_value base (ds @ [d]) = base * digits_value base ds + d"
  by (simp add: digits_value_def)

lemma digit_in_dec: "n < 10 \<Longrightarrow> digit_in 10 (digit_char n) = Some n"
  by (simp add: digit_in_def of_char_digit_char del: digit_char.simps)

lemma digit_in_hex: "n < 16 \<Longrightarrow> digit_in 16 (hex_digit_char n) = Some n"
  by (simp add: digit_in_def hex_digit_char_def of_char_of)

lemma scan_dec:
  "take_digits 10 (dec_of_nat n) \<noteq> [] \<and> (\<forall>c \<in> set (dec_of_nat n). digit_in 10 c \<noteq> None) \<and>
     digits_value 10 (take_digits 10 (dec_of_nat n)) = n"
proof (induction n rule: dec_of_nat.induct)
  case (1 n)
  show ?case
  proof (cases "n < 10")
    case True
    then show ?thesis
      by (simp add: dec_of_nat.simps[of n] digit_in_dec digits_value_def del: digit_char.simps)
  next
    case False
    with 1 have IH: "\<forall>c \<in> set (dec_of_nat (n div 10)). digit_in 10 c \<noteq> None"
      "digits_value 10 (take_digits 10 (dec_of_nat (n div 10))) = n div 10" by auto
    have "take_digits 10 (dec_of_nat (n div 10)) =
        map (\<lambda>c. the (digit_in 10 c)) (dec_of_nat (n div 10))"
      using take_digits_append[OF IH(1), of "[]"] by simp
    with False IH show ?thesis
      by (simp add: dec_of_nat.simps[of n] take_digits_append digit_in_dec digits_value_snoc
          del: digit_char.simps)
  qed
qed

lemma scan_hex:
  "take_digits 16 (hex_of_nat n) \<noteq> [] \<and> (\<forall>c \<in> set (hex_of_nat n). digit_in 16 c \<noteq> None) \<and>
     digits_value 16 (take_digits 16 (hex_of_nat n)) = n"
proof (induction n rule: hex_of_nat.induct)
  case (1 n)
  show ?case
  proof (cases "n < 16")
    case True
    then show ?thesis by (simp add: hex_of_nat.simps[of n] digit_in_hex digits_value_def)
  next
    case False
    with 1 have IH: "\<forall>c \<in> set (hex_of_nat (n div 16)). digit_in 16 c \<noteq> None"
      "digits_value 16 (take_digits 16 (hex_of_nat (n div 16))) = n div 16" by auto
    have "take_digits 16 (hex_of_nat (n div 16)) =
        map (\<lambda>c. the (digit_in 16 c)) (hex_of_nat (n div 16))"
      using take_digits_append[OF IH(1), of "[]"] by simp
    with False IH show ?thesis
      by (simp add: hex_of_nat.simps[of n] take_digits_append digit_in_hex digits_value_snoc)
  qed
qed

lemma digit_not_space: "digit_in base c \<noteq> None \<Longrightarrow> \<not> is_space c"
  by (auto simp: digit_in_def is_space_def Let_def split: if_splits)

lemma digit_not_sign: "digit_in base c \<noteq> None \<Longrightarrow> c \<noteq> CHR ''-'' \<and> c \<noteq> CHR ''+'' \<and> c \<noteq> CHR ''x''\<or> base > 33"
  by (auto simp: digit_in_def Let_def split: if_splits)

lemma stoull_dec_of_nat: "n < 2 ^ 64 \<Longrightarrow> stoull 10 (dec_of_nat n) = Inr (of_nat n)"
proof -
  assume n: "n < 2 ^ 64"
  obtain c cs where s: "dec_of_nat n = c # cs" by (cases "dec_of_nat n") auto
  have "digit_in 10 c \<noteq> None" using scan_dec[of n] s by auto
  then have "\<not> is_space c" "c \<noteq> CHR ''-''" "c \<noteq> CHR ''+''"
    using digit_not_space digit_not_sign by fastforce+
  moreover have "skip_prefix 10 (c # cs) = c # cs"
    by (simp add: skip_prefix_def split: list.splits)
  ultimately have "scan_number 10 (dec_of_nat n) = Some (False, n)"
    using scan_dec[of n] by (simp add: scan_number_def s Let_def)
  with n show ?thesis by (simp add: stoull_def)
qed

lemma stoull_dec_u64: "stoull 10 (dec_of_nat (unat (w :: u64))) = Inr w"
  using stoull_dec_of_nat[of "unat w"] unsigned_less[of w, where ?'a = nat] by simp

lemma hex_of_nat_Cons: "\<exists>c cs. hex_of_nat n = c # cs \<and> digit_in 16 c \<noteq> None"
  using scan_hex[of n] by (cases "hex_of_nat n") auto

lemma stoull_showbase_hex: "stoull 16 (showbase_hex w) = Inr w"
proof (cases "w = 0")
  case True
  then show ?thesis
    by (simp add: showbase_hex_def stoull_def scan_number_def is_space_def skip_prefix_def
        digit_in_def digits_value_def)
next
  case False
  obtain c cs where c: "hex_of_nat (unat w) = c # cs" "digit_in 16 c \<noteq> None"
    using hex_of_nat_Cons by blast
  then have "skip_prefix 16 (''0x'' @ hex_of_nat (unat w)) = hex_of_nat (unat w)"
    by (simp add: skip_prefix_def)
  then have "scan_number 16 (showbase_hex w) = Some (False, unat w)"
    using False scan_hex[of "unat w"] by (simp add: scan_number_def showbase_hex_def is_space_def Let_def)
  then show ?thesis
    using unsigned_less[of w, where ?'a = nat] by (simp add: stoull_def)
qed

end
