(* ===== verification/Convert_Model.thy ===== *)
theory Convert_Model
  imports Lock_Sync Lock_Refs C_Numbers "HOL-Library.List_Lexorder" "HOL-Library.Char_ord"
begin

text \<open>
  The event loop of \<^verbatim>\<open>convert.cc\<close>. Its global variables are the record \<open>conv\<close>, its options
  and what it learns from the kernel image are the record \<open>conv_env\<close>; the local variables of
  \<open>main\<close> that survive from one input line to the next are the record \<open>vars\<close>. Each case of the
  event loop is one function, and \<open>process_line\<close> is the body of the loop.
\<close>

section \<open>Data\<close>

record Allocation =
  al_start :: u64
  al_id :: u64
  al_size :: int
  subclass_idx :: nat

record Subclass =
  sc_id :: u64
  sc_name :: string
  data_type_idx :: nat
  real_subclass :: bool

record DataType =
  dt_id :: u64
  dt_name :: string
  foundInDw :: bool

record MemAccess =
  ma_id :: u64
  ma_ts :: u64
  ma_alloc_id :: u64
  ma_action :: char
  ma_size :: int
  ma_address :: u64
  ma_stacktrace_id :: u64
  ma_ctx :: int

record CodeLocation =
  cl_fn :: string
  cl_file :: string
  cl_line :: int

record ResolvedInstructionPtr =
  codeLocation :: CodeLocation
  inlinedBy :: "CodeLocation list"

record alloc_row =
  lr_id :: u64
  lr_subclass_id :: u64
  lr_base :: u64
  lr_size :: int
  lr_start :: u64
  lr_end :: "u64 option"   \<comment> \<open>\<open>None\<close> is printed as the NULL of the database\<close>

record access_row =
  ar_id :: u64
  ar_alloc_id :: u64
  ar_txn_id :: "u64 option"
  ar_ts :: u64
  ar_action :: char
  ar_size :: int
  ar_address :: u64
  ar_stacktrace_id :: u64
  ar_ctx :: int

record stack_row =
  sr_id :: u64
  sr_sequence :: nat
  sr_instr :: u64
  sr_instr_prev :: u64
  sr_loc :: CodeLocation

datatype conv_diag =
    CannotFindLock u64 u64
  | ActiveAllocAt u64 u64 | UnknownDataType u64 string | NoActiveAlloc u64 u64
  | ExceptionAt u64 | UnknownAction u64

record conv =
  lockManager :: LockManager
  activeAllocs :: "(u64, Allocation) omap"
  types :: "DataType list"
  subclasses :: "Subclass list"
  lastMemAccesses :: "MemAccess list"
  memberNames :: "(string, u64) omap"
  stacktraces :: "(u64, (string, u64) omap) omap"
  curAllocID :: u64
  curSubclassID :: u64
  curAccessID :: u64
  curMemberNameID :: u64
  curStacktraceID :: u64
  locksOFile :: string
  allocOFile :: "alloc_row list"
  accessOFile :: "access_row list"
  stacktracesOFile :: "stack_row list"
  conv_cerr :: "conv_diag list"

text \<open>
  Options and environment. \<open>getGlobalLockVar\<close> and \<open>get_function_at_addr\<close> read the debug
  information of the kernel image, \<open>dataSections\<close> are the start and size of its data sections.
\<close>

record conv_env =
  ctxTracing :: bool
  processSeqlock :: bool
  includeAllLocks :: bool
  pseudoAllocID :: u64
  kernelBaseDir :: string
  delimiter :: char
  dataSections :: "(string \<times> u64 \<times> u64) list"
  getGlobalLockVar :: "u64 \<Rightarrow> string option"
  get_function_at_addr :: "string \<Rightarrow> u64 \<Rightarrow> ResolvedInstructionPtr"

definition LOOK_BEHIND_WINDOW :: nat where "LOOK_BEHIND_WINDOW = 2"
definition MAX_COLUMNS :: nat where "MAX_COLUMNS = 14"
definition DUMMY_EXECUTION_CONTEXT :: int where "DUMMY_EXECUTION_CONTEXT = 0"

section \<open>Lock events\<close>

definition checkLockInSections :: "conv_env \<Rightarrow> u64 \<Rightarrow> bool" where
  "checkLockInSections env addr \<longleftrightarrow>
     list_ex (\<lambda>(_, start, sz). start \<le> addr \<and> addr \<le> start + sz) (dataSections env)"

text \<open>
  \<open>upper_bound\<close> and one step back: the allocation with the greatest base address that is not
  above the given address.
\<close>

definition alloc_at_or_below :: "(u64, Allocation) omap \<Rightarrow> u64 \<Rightarrow> (u64 \<times> Allocation) option" where
  "alloc_at_or_below m addr =
     (case filter (\<lambda>e. fst e \<le> addr) m of [] \<Rightarrow> None | es \<Rightarrow> Some (last es))"

definition embedding_alloc_id :: "conv \<Rightarrow> u64 \<Rightarrow> u32" where
  "embedding_alloc_id c addr = (case alloc_at_or_below (activeAllocs c) addr of
       None \<Rightarrow> 0
     | Some (base, al) \<Rightarrow> if addr < base + ull_of_int (al_size al) then ucast (al_id al) else 0)"

definition handlePV ::
  "conv_env \<Rightarrow> LOCK_OP \<Rightarrow> u64 \<Rightarrow> u64 \<Rightarrow> string \<Rightarrow> u64 \<Rightarrow> string \<Rightarrow> string \<Rightarrow> u32 \<Rightarrow> int \<Rightarrow> conv \<Rightarrow> conv res" where
  "handlePV env lockOP ts lockAddr file line lockMember type flags ctx c =
     (let run = (\<lambda>p c. bindE (transition p lockOP ts file line flags (kernelBaseDir env) ctx (lockManager c))
                   (\<lambda>lm. Inr (c\<lparr>lockManager := lm\<rparr>)))
      in case findLock (lockManager c) lockAddr of
           Some p \<Rightarrow> run p c
         | None \<Rightarrow>
             (let aid = embedding_alloc_id c lockAddr;
                  static = checkLockInSections env lockAddr \<or>
                    (lockMember = PSEUDOLOCK_VAR \<and> isPseudoLock lockAddr);
                  var = (if aid = 0 \<and> static then getGlobalLockVar env lockAddr else None);
                  aid' = (if aid = 0 \<and> \<not> static \<and> includeAllLocks env then ucast (pseudoAllocID env) else aid)
              in if aid = 0 \<and> \<not> static \<and> \<not> includeAllLocks env then Inr c
                 else if lockOP = V_READ \<or> lockOP = V_WRITE
                 then Inr (c\<lparr>conv_cerr := conv_cerr c @ [CannotFindLock ts lockAddr]\<rparr>)
                 else
                   bindE (allocLock lockAddr aid' type var flags (lockManager c)) (\<lambda>(p, lm).
                   run p (c\<lparr>lockManager := lm,
                            locksOFile := locksOFile c @ writeLock (delimiter env) (lock_at lm p)\<rparr>))))"

section \<open>Memory accesses\<close>

definition count_access :: "int \<Rightarrow> LockManager \<Rightarrow> LockManager" where
  "count_access ctx lm = (case txn_stack lm ctx of
       [] \<Rightarrow> lm
     | t # below \<Rightarrow> set_stack ctx (t\<lparr>memAccessCounter := memAccessCounter t + 1\<rparr> # below) lm)"

definition access_ctx :: "conv_env \<Rightarrow> MemAccess \<Rightarrow> int" where
  "access_ctx env a = (if ctxTracing env then ma_ctx a else DUMMY_EXECUTION_CONTEXT)"

definition write_access :: "conv_env \<Rightarrow> MemAccess \<Rightarrow> conv \<Rightarrow> conv" where
  "write_access env a c =
     (let ctx = access_ctx env a; lm = lockManager c
      in c\<lparr>accessOFile := accessOFile c @
             [\<lparr>ar_id = ma_id a, ar_alloc_id = ma_alloc_id a,
               ar_txn_id = map_option txn_id (getActiveTXN lm ctx),
               ar_ts = ma_ts a, ar_action = ma_action a, ar_size = ma_size a,
               ar_address = ma_address a, ar_stacktrace_id = ma_stacktrace_id a, ar_ctx = ma_ctx a\<rparr>],
           lockManager := count_access ctx lm\<rparr>)"

text \<open>The pair of accesses a lock operation itself makes: a read and a write of the lock word.\<close>

definition is_lock_word_pair :: "u64 \<Rightarrow> MemAccess \<Rightarrow> MemAccess \<Rightarrow> bool" where
  "is_lock_word_pair addr w0 w1 \<longleftrightarrow> ma_ts w0 = ma_ts w1 \<and> ma_action w0 = CHR ''r'' \<and>
     ma_action w1 = CHR ''w'' \<and> ma_address w0 = ma_address w1 \<and> ma_address w0 = addr \<and>
     ma_size w0 = ma_size w1"

definition drop_lock_word :: "char \<Rightarrow> u64 \<Rightarrow> MemAccess list \<Rightarrow> MemAccess list" where
  "drop_lock_word pAction pAddress as =
     (let n = length as in
      if (pAction = CHR ''p'' \<or> pAction = CHR ''v'') \<and> LOOK_BEHIND_WINDOW \<le> n \<and>
         is_lock_word_pair pAddress (as ! (n - 2)) (as ! (n - 1))
      then take (n - 2) as else as)"

definition writeMemAccesses :: "conv_env \<Rightarrow> char \<Rightarrow> u64 \<Rightarrow> conv \<Rightarrow> conv" where
  "writeMemAccesses env pAction pAddress c =
     (if pAction = CHR ''r'' \<or> pAction = CHR ''w'' then c
      else (fold (write_access env) (drop_lock_word pAction pAddress (lastMemAccesses c)) c)
             \<lparr>lastMemAccesses := []\<rparr>)"

section \<open>Names and stack traces\<close>

definition expand_type :: "conv \<Rightarrow> string \<Rightarrow> bool" where
  "expand_type c name \<longleftrightarrow> list_ex (\<lambda>t. dt_name t = name) (types c)"

definition addMemberName :: "string \<Rightarrow> conv \<Rightarrow> u64 \<times> conv" where
  "addMemberName name c = (case omap_lookup (memberNames c) name of
       Some i \<Rightarrow> (i, c)
     | None \<Rightarrow> (curMemberNameID c,
         c\<lparr>curMemberNameID := curMemberNameID c + 1,
           memberNames := omap_update name (curMemberNameID c) (memberNames c)\<rparr>))"

definition trim_stacktrace :: "string \<Rightarrow> string" where
  "trim_stacktrace st = (if st \<noteq> [] \<and> CHR '','' \<in> set st then butlast st else st)"

fun stack_rows ::
  "conv_env \<Rightarrow> u64 \<Rightarrow> nat \<Rightarrow> string list \<Rightarrow> stack_row list res" where
  "stack_rows env sid sequence [] = Inr []"
| "stack_rows env sid sequence (token # tokens) =
     bindE (stoull 16 token) (\<lambda>instr.
     let prev = (if sequence > 0 then instr - 1 else instr);
         r = get_function_at_addr env (kernelBaseDir env) prev;
         locs = codeLocation r # inlinedBy r;
         rows = map (\<lambda>(i, l). \<lparr>sr_id = sid, sr_sequence = sequence + i, sr_instr = instr,
                      sr_instr_prev = prev, sr_loc = l\<rparr>) (List.enumerate 0 locs)
     in bindE (stack_rows env sid (sequence + length locs) tokens) (\<lambda>rest. Inr (rows @ rest)))"

definition addStacktrace :: "conv_env \<Rightarrow> u64 \<Rightarrow> string \<Rightarrow> conv \<Rightarrow> (u64 \<times> conv) res" where
  "addStacktrace env instrPtr stacktrace c =
     (let st = trim_stacktrace stacktrace;
          sub = (case omap_lookup (stacktraces c) instrPtr of None \<Rightarrow> [] | Some m \<Rightarrow> m);
          c1 = c\<lparr>stacktraces := omap_update instrPtr sub (stacktraces c)\<rparr>
      in case omap_lookup sub st of
           Some i \<Rightarrow> Inr (i, c1)
         | None \<Rightarrow>
             (let i = curStacktraceID c;
                  text = showbase_hex instrPtr @ (if st \<noteq> [] then CHR '','' # st else [])
              in bindE (stack_rows env i 0 (split_fields (CHR '','') text)) (\<lambda>rows.
                 Inr (i, c1\<lparr>curStacktraceID := i + 1,
                            stacktraces := omap_update instrPtr (omap_update st i sub) (stacktraces c),
                            stacktracesOFile := stacktracesOFile c @ rows\<rparr>))))"

section \<open>Allocations\<close>

definition DELIMITER_SUBCLASS :: string where "DELIMITER_SUBCLASS = '':''"

definition split_type :: "string \<Rightarrow> string \<times> string \<times> bool" where
  \<comment> \<open>data type, subclass and whether the subclass is a real one\<close>
  "split_type typeStr = (case str_find DELIMITER_SUBCLASS typeStr of
       Some i \<Rightarrow> (take i typeStr, drop (i + 1) typeStr, True)
     | None \<Rightarrow> (typeStr, typeStr, False))"

fun find_index :: "('a \<Rightarrow> bool) \<Rightarrow> 'a list \<Rightarrow> nat option" where
  "find_index P [] = None"
| "find_index P (x # xs) = (if P x then Some 0 else map_option Suc (find_index P xs))"

definition subclass_for :: "u64 \<Rightarrow> string \<Rightarrow> conv \<Rightarrow> (nat option \<times> conv) res" where
  "subclass_for ts typeStr c =
     (let (dataTypeName, subclassName, realSubclass) = split_type typeStr
      in case find_index (\<lambda>s. sc_name s = subclassName) (subclasses c) of
           Some i \<Rightarrow> Inr (Some i, c)
         | None \<Rightarrow>
             (case find_index (\<lambda>t. dt_name t = dataTypeName) (types c) of
                None \<Rightarrow> Inr (None, c\<lparr>conv_cerr := conv_cerr c @ [UnknownDataType ts typeStr]\<rparr>)
              | Some d \<Rightarrow>
                  if find_index (\<lambda>s. sc_name s = dataTypeName) (subclasses c) \<noteq> None
                  then Inl (ExitFailure (-1))
                  else Inr (Some (length (subclasses c)),
                    c\<lparr>curSubclassID := curSubclassID c + 1,
                      subclasses := subclasses c @ [\<lparr>sc_id = curSubclassID c, sc_name = subclassName,
                        data_type_idx = d, real_subclass = realSubclass\<rparr>]\<rparr>)))"

definition handle_alloc :: "u64 \<Rightarrow> string \<Rightarrow> u64 \<Rightarrow> u64 \<Rightarrow> conv \<Rightarrow> conv res" where
  "handle_alloc ts typeStr baseAddress sz c =
     (if omap_lookup (activeAllocs c) baseAddress \<noteq> None
      then Inr (c\<lparr>conv_cerr := conv_cerr c @ [ActiveAllocAt ts baseAddress]\<rparr>)
      else
        bindE (subclass_for ts typeStr c) (\<lambda>(idx, c1).
        case idx of
          None \<Rightarrow> Inr c1
        | Some i \<Rightarrow>
            Inr (c1\<lparr>curAllocID := curAllocID c1 + 1,
                    activeAllocs := omap_update baseAddress
                      \<lparr>al_start = ts, al_id = curAllocID c1, al_size = int_of_ull sz,
                       subclass_idx = i\<rparr> (activeAllocs c1)\<rparr>)))"

definition alloc_row_of :: "conv \<Rightarrow> u64 \<Rightarrow> Allocation \<Rightarrow> int \<Rightarrow> u64 option \<Rightarrow> alloc_row" where
  "alloc_row_of c base al sz e =
     \<lparr>lr_id = al_id al, lr_subclass_id = sc_id (subclasses c ! subclass_idx al), lr_base = base,
      lr_size = sz, lr_start = al_start al, lr_end = e\<rparr>"

definition handle_free :: "u64 \<Rightarrow> u64 \<Rightarrow> u64 \<Rightarrow> conv \<Rightarrow> conv" where
  "handle_free ts baseAddress sz c = (case omap_lookup (activeAllocs c) baseAddress of
       None \<Rightarrow> c\<lparr>conv_cerr := conv_cerr c @ [NoActiveAlloc ts baseAddress]\<rparr>
     | Some al \<Rightarrow>
         c\<lparr>allocOFile := allocOFile c @ [alloc_row_of c baseAddress al (uint sz) (Some ts)],
           lockManager := deleteLockByArea baseAddress (ull_of_int (al_size al)) (lockManager c),
           activeAllocs := omap_delete baseAddress (activeAllocs c)\<rparr>)"

definition access_outside :: "u64 \<Rightarrow> u64 \<Rightarrow> u64 \<Rightarrow> Allocation \<Rightarrow> bool" where
  "access_outside address sz base al \<longleftrightarrow>
     address < base \<or> address > base + ull_of_int (al_size al) \<or>
     address + sz < base \<or> address + sz > base + ull_of_int (al_size al)"

definition handle_access ::
  "conv_env \<Rightarrow> char \<Rightarrow> u64 \<Rightarrow> u64 \<Rightarrow> u64 \<Rightarrow> u64 \<Rightarrow> u64 \<Rightarrow> string \<Rightarrow> int \<Rightarrow> conv \<Rightarrow> conv res" where
  "handle_access env action ts address sz baseAddress instrPtr stacktrace ctx c =
     (case omap_lookup (activeAllocs c) baseAddress of
        None \<Rightarrow> Inr (c\<lparr>conv_cerr := conv_cerr c @ [NoActiveAlloc ts baseAddress]\<rparr>)
      | Some al \<Rightarrow>
          if access_outside address sz baseAddress al then Inl (ExitFailure 1)
          else
            bindE (addStacktrace env instrPtr stacktrace c) (\<lambda>(sid, c1).
            Inr (c1\<lparr>curAccessID := curAccessID c + 1,
                    lastMemAccesses := lastMemAccesses c1 @
                      [\<lparr>ma_id = curAccessID c, ma_ts = ts, ma_alloc_id = al_id al, ma_action = action,
                        ma_size = int_of_ull sz, ma_address = address, ma_stacktrace_id = sid,
                        ma_ctx = ctx\<rparr>]\<rparr>)))"

end
