(* ===== verification/Convert_Loop.thy ===== *)
theory Convert_Loop
  imports Convert_Model
begin

text \<open>
  Parsing of an input line and the main loop of \<^verbatim>\<open>convert\<close>. An exception while the columns
  are parsed is caught in the loop: the variables assigned so far keep their new values, the
  others the values they had, and the event is handled all the same.
\<close>

section \<open>Variables and their assignment\<close>

record vars =
  v_action :: char
  v_ts :: u64
  v_typeStr :: string
  v_baseAddress :: u64
  v_size :: u64
  v_address :: u64
  v_lockMember :: string
  v_file :: string
  v_line :: u64
  v_lockType :: string
  v_flags :: u64
  v_ctx :: int
  v_lockOP :: LOCK_OP
  v_instrPtr :: u64
  v_stacktrace :: string

definition init_vars :: vars where
  "init_vars = \<lparr>v_action = CHR ''.'', v_ts = 0, v_typeStr = [], v_baseAddress = 0x4711,
     v_size = 4711, v_address = 0x1337, v_lockMember = [], v_file = [], v_line = 1337,
     v_lockType = [], v_flags = 0x4712, v_ctx = 0, v_lockOP = P_WRITE, v_instrPtr = 0xc0ffee,
     v_stacktrace = []\<rparr>"

definition reset_vars :: "u64 \<Rightarrow> vars \<Rightarrow> vars" where
  "reset_vars ts v = v\<lparr>v_ts := ts, v_address := 0x1337, v_size := 4711, v_line := 1337,
     v_baseAddress := 0x4711, v_instrPtr := 0xc0ffee, v_flags := 0x4712,
     v_lockType := ''empty'', v_file := ''empty'', v_stacktrace := ''empty''\<rparr>"

datatype parse_end = Parsed | Thrown | Refused

type_synonym parser = "vars \<Rightarrow> vars \<times> parse_end"

definition assign :: "'a res \<Rightarrow> ('a \<Rightarrow> vars \<Rightarrow> vars) \<Rightarrow> parser" where
  "assign r upd v = (case r of Inl _ \<Rightarrow> (v, Thrown) | Inr x \<Rightarrow> (upd x v, Parsed))"

definition and_then :: "parser \<Rightarrow> parser \<Rightarrow> parser" where
  "and_then p q v = (case p v of (v', Parsed) \<Rightarrow> q v' | r \<Rightarrow> r)"

fun seq_parsers :: "parser list \<Rightarrow> parser" where
  "seq_parsers [] v = (v, Parsed)"
| "seq_parsers (p # ps) v = and_then p (seq_parsers ps) v"

definition parse_lock_op :: "int \<Rightarrow> parser" where
  "parse_lock_op temp v = (case lock_op_of_int temp of
       None \<Rightarrow> (v, Refused) | Some op \<Rightarrow> (v\<lparr>v_lockOP := op\<rparr>, Parsed))"

definition parse_event :: "conv_env \<Rightarrow> string list \<Rightarrow> parser" where
  "parse_event env el v =
     (case el ! 1 of
        [] \<Rightarrow> (v, Thrown)
      | action # _ \<Rightarrow>
          (let v = v\<lparr>v_action := action\<rparr> in
           if action = CHR ''a'' \<or> action = CHR ''f'' then
             seq_parsers
               [assign (Inr (el ! 6)) (\<lambda>x v. v\<lparr>v_typeStr := x\<rparr>),
                assign (stoull 16 (el ! 3)) (\<lambda>x v. v\<lparr>v_baseAddress := x\<rparr>),
                assign (stoull 10 (el ! 4)) (\<lambda>x v. v\<lparr>v_size := x\<rparr>)] v
           else if action = CHR ''l'' then
             seq_parsers
               [assign (stoull 16 (el ! 3)) (\<lambda>x v. v\<lparr>v_address := x\<rparr>),
                assign (Inr (el ! 7)) (\<lambda>x v. v\<lparr>v_lockMember := x\<rparr>),
                assign (Inr (el ! 8)) (\<lambda>x v. v\<lparr>v_file := x\<rparr>),
                assign (stoull 10 (el ! 9)) (\<lambda>x v. v\<lparr>v_line := x\<rparr>),
                assign (Inr (el ! 6)) (\<lambda>x v. v\<lparr>v_lockType := x\<rparr>),
                assign (stoi 10 (el ! 12)) (\<lambda>x v. v\<lparr>v_flags := word_of_int x\<rparr>),
                (if ctxTracing env
                 then assign (stoul 10 (el ! 13)) (\<lambda>x v. v\<lparr>v_ctx := long_of_ull x\<rparr>)
                 else assign (Inr DUMMY_EXECUTION_CONTEXT) (\<lambda>x v. v\<lparr>v_ctx := x\<rparr>)),
                (case stoi 10 (el ! 2) of Inl _ \<Rightarrow> (\<lambda>v. (v, Thrown)) | Inr i \<Rightarrow> parse_lock_op i)] v
           else if action = CHR ''r'' \<or> action = CHR ''w'' then
             seq_parsers
               [assign (stoull 16 (el ! 3)) (\<lambda>x v. v\<lparr>v_address := x\<rparr>),
                assign (stoull 10 (el ! 4)) (\<lambda>x v. v\<lparr>v_size := x\<rparr>),
                assign (stoull 16 (el ! 5)) (\<lambda>x v. v\<lparr>v_baseAddress := x\<rparr>),
                assign (stoull 16 (el ! 10)) (\<lambda>x v. v\<lparr>v_instrPtr := x\<rparr>),
                assign (Inr (el ! 11)) (\<lambda>x v. v\<lparr>v_stacktrace := x\<rparr>),
                assign (stoul 10 (el ! 13)) (\<lambda>x v. v\<lparr>v_ctx := long_of_ull x\<rparr>)] v
           else (v, Parsed)))"

section \<open>The loop\<close>

definition is_seqlock :: "string \<Rightarrow> bool" where
  "is_seqlock t \<longleftrightarrow> t = ''seqlock_t'' \<or> t = ''seqcount_t''"

definition handle_event :: "conv_env \<Rightarrow> vars \<Rightarrow> conv \<Rightarrow> conv res" where
  "handle_event env v c =
     (if v_action v = CHR ''a'' then handle_alloc (v_ts v) (v_typeStr v) (v_baseAddress v) (v_size v) c
      else if v_action v = CHR ''f'' then Inr (handle_free (v_ts v) (v_baseAddress v) (v_size v) c)
      else if v_action v = CHR ''l'' then
        handlePV env (v_lockOP v) (v_ts v) (v_address v) (v_file v) (v_line v) (v_lockMember v)
          (v_lockType v) (ucast (v_flags v)) (v_ctx v) c
      else if v_action v = CHR ''r'' \<or> v_action v = CHR ''w'' then
        handle_access env (v_action v) (v_ts v) (v_address v) (v_size v) (v_baseAddress v)
          (v_instrPtr v) (v_stacktrace v) (v_ctx v) c
      else Inr (c\<lparr>conv_cerr := conv_cerr c @ [UnknownAction (v_ts v)]\<rparr>))"

definition event_step :: "conv_env \<Rightarrow> vars \<Rightarrow> conv \<Rightarrow> conv res" where
  "event_step env v c =
     (if \<not> processSeqlock env \<and> is_seqlock (v_lockType v) then Inr c
      else handle_event env v (writeMemAccesses env (v_action v) (v_address v) c))"

definition process_line :: "conv_env \<Rightarrow> string \<Rightarrow> vars \<times> conv \<Rightarrow> (vars \<times> conv) res" where
  "process_line env inputLine s =
     (let (v, c) = s; el = split_fields (delimiter env) inputLine
      in case el of
           [] \<Rightarrow> Inl (OutOfRange ''vector::at'')
         | e0 # _ \<Rightarrow>
             bindE (stoull 10 e0) (\<lambda>ts.
             if length el \<noteq> MAX_COLUMNS then Inl (ExitFailure 1)
             else
               (let (v', pe) = parse_event env el (reset_vars ts v)
                in if pe = Refused then Inl (ExitFailure 1)
                   else
                     bindE (event_step env v'
                       (if pe = Thrown then c\<lparr>conv_cerr := conv_cerr c @ [ExceptionAt ts]\<rparr> else c)) (\<lambda>c'.
                     Inr (v', c')))))"

fun process_lines :: "conv_env \<Rightarrow> string list \<Rightarrow> vars \<times> conv \<Rightarrow> (vars \<times> conv) res" where
  "process_lines env [] s = Inr s"
| "process_lines env (l # ls) s = bindE (process_line env l s) (process_lines env ls)"

definition skip_header :: "string list \<Rightarrow> string list" where
  \<comment> \<open>the first line is skipped unless it starts with a digit\<close>
  "skip_header ls = (case ls of [] \<Rightarrow> [] | l # rest \<Rightarrow>
     if l = [] \<or> \<not> is_digit (hd l) then rest else ls)"

definition finish_run :: "conv_env \<Rightarrow> vars \<times> conv \<Rightarrow> conv res option" where
  "finish_run env s =
     (let (v, c) = s;
          c1 = c\<lparr>allocOFile := allocOFile c @
                  map (\<lambda>(b, al). alloc_row_of c b al (al_size al) None) (activeAllocs c)\<rparr>;
          c2 = writeMemAccesses env (CHR ''v'') 0 c1
      in case closeAllTXNs (v_ts v) (lockManager c2) of
           None \<Rightarrow> None
         | Some (Inl e) \<Rightarrow> Some (Inl e)
         | Some (Inr lm) \<Rightarrow> Some (Inr (c2\<lparr>lockManager := lm\<rparr>)))"

definition convert_trace :: "conv_env \<Rightarrow> string list \<Rightarrow> conv \<Rightarrow> conv res option" where
  "convert_trace env inputLines c =
     (case process_lines env (skip_header inputLines) (init_vars, c) of
        Inl e \<Rightarrow> Some (Inl e)
      | Inr s \<Rightarrow> finish_run env s)"

definition init_conv :: "conv_env \<Rightarrow> DataType list \<Rightarrow> (string, u64) omap \<Rightarrow> u64 \<Rightarrow> conv" where
  \<comment> \<open>state before the first line: the data types and the member names found in the kernel image\<close>
  "init_conv env dts names nextName =
     \<lparr>lockManager = new_LockManager, activeAllocs = [], types = dts, subclasses = [],
      lastMemAccesses = [], memberNames = names, stacktraces = [],
      curAllocID = (if includeAllLocks env then 2 else 1), curSubclassID = 1, curAccessID = 1,
      curMemberNameID = nextName, curStacktraceID = 1, locksOFile = [],
      allocOFile = (if includeAllLocks env
        then [\<lparr>lr_id = 1, lr_subclass_id = 0, lr_base = 0, lr_size = 0, lr_start = 0, lr_end = None\<rparr>]
        else []),
      accessOFile = [], stacktracesOFile = [], conv_cerr = []\<rparr>"

end
