(* ===== verification/Convert_Inv.thy ===== *)
theory Convert_Inv
  imports Convert_Loop
begin

text \<open>
  Invariants of the event loop of \<^verbatim>\<open>convert\<close>. After \<open>k\<close> input lines the id counters are far
  from their limits, the ids in the tables are unique, and every id a table refers to is one that
  the referenced table has or will have.
\<close>

section \<open>Writing out memory accesses\<close>

lemma count_access_frame [lm_simps]:
  "m_nextTXNID (count_access ctx lm) = m_nextTXNID lm"
  "m_heap (count_access ctx lm) = m_heap lm"
  "m_locks (count_access ctx lm) = m_locks lm"
  "m_nextLockID (count_access ctx lm) = m_nextLockID lm"
  "m_txnsOFile (count_access ctx lm) = m_txnsOFile lm"
  "m_locksHeldOFile (count_access ctx lm) = m_locksHeldOFile lm"
  "m_cerr (count_access ctx lm) = m_cerr lm"
  by (simp_all add: count_access_def lm_simps split: list.splits)

lemma txn_stack_count_access:
  "txn_stack (count_access ctx lm) = (txn_stack lm)(ctx := (case txn_stack lm ctx of
     [] \<Rightarrow> [] | t # below \<Rightarrow> t\<lparr>memAccessCounter := memAccessCounter t + 1\<rparr> # below))"
  by (auto simp: count_access_def lm_simps fun_eq_iff split: list.splits)

lemma held_count_access [lm_simps]: "held (count_access ctx lm) = held lm"
  by (auto simp: held_def txn_stack_count_access txn_key_def fun_eq_iff split: list.splits)

lemma active_ids_count_access:
  assumes "txns_ok lm"
  shows "mset (active_ids (count_access ctx lm)) = mset (active_ids lm)"
proof (cases "txn_stack lm ctx")
  case (Cons t below)
  obtain rest where "mset (active_ids lm) = mset (map txn_id (txn_stack lm ctx)) + rest"
    and set: "\<And>lm' d. m_activeTXNs lm' = m_activeTXNs lm \<Longrightarrow>
       mset (active_ids (set_stack ctx d lm')) = mset (map txn_id d) + rest"
    using active_ids_split[OF assms, of ctx] by blast
  then show ?thesis using set[of lm] Cons by (simp add: count_access_def)
qed (simp add: count_access_def)

lemma count_access_ok:
  assumes "lm_ok lm"
  shows "lm_ok (count_access ctx lm)" and "n_active (count_access ctx lm) = n_active lm"
proof -
  have ok: "txns_ok lm" and m: "mset (active_ids (count_access ctx lm)) = mset (active_ids lm)"
    using assms by (auto simp: lm_ok_def intro: active_ids_count_access)
  have "omap_ok (m_activeTXNs (count_access ctx lm))"
    using ok by (auto simp: count_access_def txns_ok_def omap_ok_set_stack split: list.splits)
  then have "txns_ok (count_access ctx lm)"
    using ok by (simp add: txns_ok_def lm_simps lock_at_def)
  then show "lm_ok (count_access ctx lm)"
    using assms m by (simp add: lm_ok_def locks_ok_def lock_ids_ok_def ids_inv_def lm_simps lock_at_def)
  show "n_active (count_access ctx lm) = n_active lm"
    using arg_cong[OF m, of size] by (simp add: n_active_def)
qed

lemma count_access_ctr: "ctr_ok n lm \<Longrightarrow> ctr_ok (Suc n) (count_access ctx lm)"
proof -
  assume c: "ctr_ok n lm"
  have s: "unat (w + 1 :: u64) \<le> Suc n" if "unat w \<le> n" for w
    using unat_Suc_le[of w] that by simp
  have old: "unat (memAccessCounter t) \<le> n" if "t \<in> set (txn_stack lm ctx')" for t ctx'
    using c that by (simp add: ctr_ok_def)
  show ?thesis
  proof (cases "txn_stack lm ctx")
    case (Cons t below)
    then have "unat (memAccessCounter u) \<le> n" if "u \<in> set (t # below)" for u
      using old[of u ctx] that by simp
    with Cons old show ?thesis by (auto simp: ctr_ok_def txn_stack_count_access le_SucI intro: s)
  qed (use old in \<open>auto simp: ctr_ok_def txn_stack_count_access le_SucI\<close>)
qed

lemma word_Suc_pos: "unat (w :: u64) + 1 < 2 ^ 64 \<Longrightarrow> 0 < w + 1"
  by (simp add: word_less_nat_alt unat_word_ariths)

lemma count_access_refs:
  assumes c: "ctr_ok n lm" and n: "Suc n < 2 ^ 64"
  shows "txn_refs lm i \<Longrightarrow> txn_refs (count_access ctx lm) i"
    and "getActiveTXN lm ctx = Some t \<Longrightarrow> txn_refs (count_access ctx lm) (txn_id t)"
proof -
  have top: "\<exists>t' \<in> set (txn_stack (count_access ctx lm) ctx). txn_id t' = txn_id t \<and> memAccessCounter t' > 0"
    if "txn_stack lm ctx = t # below" for t below
  proof -
    have "t \<in> set (txn_stack lm ctx)" using that by simp
    then have "unat (memAccessCounter t) \<le> n" using c by (simp add: ctr_ok_def)
    then have "0 < memAccessCounter t + 1" using n by (intro word_Suc_pos) simp
    with that show ?thesis by (simp add: txn_stack_count_access)
  qed
  then show "getActiveTXN lm ctx = Some t \<Longrightarrow> txn_refs (count_access ctx lm) (txn_id t)"
    by (force simp: getActiveTXN_def txn_refs_def split: list.splits)
  assume "txn_refs lm i"
  then consider "i \<in> tr_id ` set (m_txnsOFile lm)"
    | ctx' t where "t \<in> set (txn_stack lm ctx')" "txn_id t = i" "memAccessCounter t > 0"
    by (auto simp: txn_refs_def)
  then show "txn_refs (count_access ctx lm) i"
  proof cases
    case 1
    then show ?thesis by (simp add: txn_refs_def lm_simps)
  next
    case 2
    show ?thesis
    proof (cases "ctx' = ctx \<and> t = hd (txn_stack lm ctx)")
      case True
      then have "txn_stack lm ctx = t # tl (txn_stack lm ctx)" using 2 by (cases "txn_stack lm ctx") auto
      from top[OF this] 2(2) show ?thesis by (force simp: txn_refs_def)
    next
      case False
      then have "t \<in> set (txn_stack (count_access ctx lm) ctx')"
        using 2(1) by (cases "txn_stack lm ctx") (auto simp: txn_stack_count_access)
      with 2 show ?thesis by (auto simp: txn_refs_def)
    qed
  qed
qed

definition side_free :: "LockManager \<Rightarrow> bool" where
  "side_free lm \<longleftrightarrow> (\<forall>p. side_diag p \<inter> set (m_cerr lm) = {})"

definition acc_txn_ok :: "access_row list \<Rightarrow> LockManager \<Rightarrow> bool" where
  "acc_txn_ok rows lm \<longleftrightarrow> (\<forall>r \<in> set rows. \<forall>i. ar_txn_id r = Some i \<longrightarrow> txn_refs lm i)"

definition lock_base :: "nat \<Rightarrow> access_row list \<Rightarrow> LockManager \<Rightarrow> bool" where
  "lock_base k rows lm \<longleftrightarrow> lm_ok lm \<and> held_refs_ok lm \<and> ctr_ok (length rows) lm \<and>
     (side_free lm \<longrightarrow> acc_txn_ok rows lm) \<and>
     unat (m_nextTXNID lm) \<le> 1 + k * (k + 1) \<and> n_active lm \<le> k"

definition lock_inv :: "nat \<Rightarrow> access_row list \<Rightarrow> LockManager \<Rightarrow> bool" where
  "lock_inv k rows lm \<longleftrightarrow> lock_base k rows lm \<and> unat (m_nextLockID lm) \<le> 1 + 2 * k"

lemma lock_inv_write:
  assumes inv: "lock_inv k rows lm" and room: "length rows + 1 < 2 ^ 64"
    and row: "ar_txn_id row = map_option txn_id (getActiveTXN lm ctx)"
  shows "lock_inv k (rows @ [row]) (count_access ctx lm)"
proof -
  have ok: "lm_ok lm" and c: "ctr_ok (length rows) lm" and t: "side_free lm \<Longrightarrow> acc_txn_ok rows lm"
    using inv by (simp_all add: lock_inv_def lock_base_def)
  have "side_free (count_access ctx lm) \<longrightarrow> acc_txn_ok (rows @ [row]) (count_access ctx lm)"
    using t count_access_refs[OF c] room row by (auto simp: acc_txn_ok_def side_free_def lm_simps)
  then show ?thesis
    using inv count_access_ok[OF ok] count_access_ctr[OF c]
    by (simp add: lock_inv_def lock_base_def lm_simps held_refs_ok_def lock_ids_def)
qed

lemma fold_write_access:
  "fold (write_access env) as c = c' \<Longrightarrow>
     lock_inv k (accessOFile c) (lockManager c) \<Longrightarrow> length (accessOFile c) + length as < 2 ^ 64 \<Longrightarrow>
     (\<exists>rows. accessOFile c' = accessOFile c @ rows \<and> map ar_id rows = map ma_id as \<and>
        map ar_alloc_id rows = map ma_alloc_id as \<and> map ar_stacktrace_id rows = map ma_stacktrace_id as) \<and>
     lock_inv k (accessOFile c') (lockManager c') \<and>
     c' = c\<lparr>accessOFile := accessOFile c', lockManager := lockManager c'\<rparr>"
proof (induction "as" arbitrary: c)
  case (Cons a "as")
  let ?c = "write_access env a c"
  obtain row where row: "accessOFile ?c = accessOFile c @ [row]"
    "lockManager ?c = count_access (access_ctx env a) (lockManager c)"
    "ar_txn_id row = map_option txn_id (getActiveTXN (lockManager c) (access_ctx env a))"
    "ar_id row = ma_id a" "ar_alloc_id row = ma_alloc_id a" "ar_stacktrace_id row = ma_stacktrace_id a"
    by (simp add: write_access_def Let_def)
  have "lock_inv k (accessOFile ?c) (lockManager ?c)"
    unfolding row(1,2) using Cons.prems(2,3) row(3) by (intro lock_inv_write) simp_all
  moreover have "fold (write_access env) as ?c = c'" using Cons.prems(1) by simp
  moreover have "length (accessOFile ?c) + length as < 2 ^ 64" using Cons.prems(3) row(1) by simp
  ultimately have IH: "(\<exists>rows. accessOFile c' = accessOFile ?c @ rows \<and> map ar_id rows = map ma_id as \<and>
        map ar_alloc_id rows = map ma_alloc_id as \<and> map ar_stacktrace_id rows = map ma_stacktrace_id as)"
    "lock_inv k (accessOFile c') (lockManager c')"
    "c' = ?c\<lparr>accessOFile := accessOFile c', lockManager := lockManager c'\<rparr>"
    using Cons.IH by blast+
  moreover have "?c\<lparr>accessOFile := x, lockManager := y\<rparr> = c\<lparr>accessOFile := x, lockManager := y\<rparr>" for x y
    by (simp add: write_access_def Let_def)
  ultimately show ?case using row by fastforce
qed simp

section \<open>The invariants\<close>

definition alloc_ids :: "conv \<Rightarrow> u64 multiset" where
  "alloc_ids c = mset (map lr_id (allocOFile c)) + mset (map (\<lambda>e. al_id (snd e)) (activeAllocs c))"

definition alloc_inv :: "nat \<Rightarrow> conv \<Rightarrow> bool" where
  "alloc_inv k c \<longleftrightarrow> omap_ok (activeAllocs c) \<and> uniq (alloc_ids c) \<and>
     (\<forall>i \<in># alloc_ids c. i < curAllocID c) \<and> unat (curAllocID c) \<le> 2 + k \<and>
     (\<forall>e \<in> set (activeAllocs c). subclass_idx (snd e) < length (subclasses c))"

definition stack_lookup :: "conv \<Rightarrow> u64 \<Rightarrow> string \<Rightarrow> u64 option" where
  "stack_lookup c ip st = (case omap_lookup (stacktraces c) ip of None \<Rightarrow> None | Some m \<Rightarrow> omap_lookup m st)"

definition stack_inv :: "nat \<Rightarrow> conv \<Rightarrow> bool" where
  "stack_inv k c \<longleftrightarrow>
     (\<forall>ip st i. stack_lookup c ip st = Some i \<longrightarrow> i \<in> sr_id ` set (stacktracesOFile c)) \<and>
     (\<forall>ip st ip' st' i. stack_lookup c ip st = Some i \<longrightarrow> stack_lookup c ip' st' = Some i \<longrightarrow>
        ip = ip' \<and> st = st') \<and>
     (\<forall>r \<in> set (stacktracesOFile c). sr_id r < curStacktraceID c) \<and>
     distinct (map (\<lambda>r. (sr_id r, sr_sequence r)) (stacktracesOFile c)) \<and>
     unat (curStacktraceID c) \<le> 1 + k"

definition access_inv :: "nat \<Rightarrow> conv \<Rightarrow> bool" where
  "access_inv k c \<longleftrightarrow> distinct (map ar_id (accessOFile c) @ map ma_id (lastMemAccesses c)) \<and>
     (\<forall>i \<in> set (map ar_id (accessOFile c) @ map ma_id (lastMemAccesses c)). i < curAccessID c) \<and>
     unat (curAccessID c) \<le> 1 + k \<and> length (accessOFile c) + length (lastMemAccesses c) \<le> k \<and>
     set (map ar_alloc_id (accessOFile c) @ map ma_alloc_id (lastMemAccesses c)) \<subseteq> set_mset (alloc_ids c) \<and>
     set (map ar_stacktrace_id (accessOFile c) @ map ma_stacktrace_id (lastMemAccesses c))
       \<subseteq> sr_id ` set (stacktracesOFile c)"

definition conv_inv :: "nat \<Rightarrow> conv \<Rightarrow> bool" where
  "conv_inv k c \<longleftrightarrow> lock_inv k (accessOFile c) (lockManager c) \<and> alloc_inv k c \<and> stack_inv k c \<and>
     access_inv k c"

lemmas conv_inv_defs = conv_inv_def lock_inv_def lock_base_def alloc_inv_def stack_inv_def access_inv_def

lemma conv_inv_mono: "conv_inv k c \<Longrightarrow> k \<le> k' \<Longrightarrow> conv_inv k' c"
proof -
  assume inv: "conv_inv k c" and le: "k \<le> k'"
  have "k * (k + 1) \<le> k' * (k' + 1)" using le by (intro mult_le_mono) simp_all
  then show ?thesis using inv le unfolding conv_inv_defs by auto
qed

lemma conv_inv_cerr [simp]: "conv_inv k (c\<lparr>conv_cerr := ds\<rparr>) = conv_inv k c"
  by (simp add: conv_inv_defs alloc_ids_def stack_lookup_def)

text \<open>The counters after at most \<open>2 ^ 31\<close> lines.\<close>

lemma room: "k < 2 ^ 31 \<Longrightarrow> 1 + k * (k + 1) + k + 2 < (2 ^ 64 :: nat)"
proof -
  assume "k < 2 ^ 31"
  then have "k * (k + 1) \<le> 2 ^ 31 * 2 ^ 31" by (intro mult_le_mono) simp_all
  with \<open>k < 2 ^ 31\<close> show ?thesis by simp
qed

lemma fresh_id:
  assumes "unat (w :: u64) < 2 ^ 64 - 1"
  shows "unat (w + 1) = unat w + 1" and "w < w + 1" and "i < w \<Longrightarrow> i < w + 1" and "i < w \<Longrightarrow> i \<noteq> w"
proof -
  show u: "unat (w + 1) = unat w + 1" using assms by (simp add: unat_word_ariths)
  show "w < w + 1" by (simp add: word_less_nat_alt u)
  show "i < w + 1" if "i < w" using that by (simp add: word_less_nat_alt u)
  show "i \<noteq> w" if "i < w" using that by auto
qed

section \<open>Every step keeps them\<close>

lemma access_frame:
  "alloc_ids (c\<lparr>accessOFile := x, lockManager := y, lastMemAccesses := z\<rparr>) = alloc_ids c"
  "stack_lookup (c\<lparr>accessOFile := x, lockManager := y, lastMemAccesses := z\<rparr>) = stack_lookup c"
  "stacktracesOFile (c\<lparr>accessOFile := x, lockManager := y, lastMemAccesses := z\<rparr>) = stacktracesOFile c"
  "curAccessID (c\<lparr>accessOFile := x, lockManager := y, lastMemAccesses := z\<rparr>) = curAccessID c"
  "alloc_inv k (c\<lparr>accessOFile := x, lockManager := y, lastMemAccesses := z\<rparr>) = alloc_inv k c"
  "stack_inv k (c\<lparr>accessOFile := x, lockManager := y, lastMemAccesses := z\<rparr>) = stack_inv k c"
  by (simp_all add: alloc_ids_def stack_lookup_def[abs_def] alloc_inv_def stack_inv_def)

lemma drop_lock_word_prefix: "\<exists>n. drop_lock_word pAction pAddress as = take n as"
  by (auto simp: drop_lock_word_def Let_def intro: exI[of _ "length as"])

lemma writeMemAccesses_inv:
  assumes inv: "conv_inv k c" and k: "k < 2 ^ 31"
  shows "conv_inv k (writeMemAccesses env a p c)"
proof (cases "a = CHR ''r'' \<or> a = CHR ''w''")
  case True
  then show ?thesis using inv by (auto simp: writeMemAccesses_def)
next
  case False
  obtain n where drop: "drop_lock_word a p (lastMemAccesses c) = take n (lastMemAccesses c)"
    using drop_lock_word_prefix by blast
  let ?as = "take n (lastMemAccesses c)"
  define c' where "c' = fold (write_access env) ?as c"
  have L: "lock_inv k (accessOFile c) (lockManager c)" and len: "length (accessOFile c) + length (lastMemAccesses c) \<le> k"
    using inv by (simp_all add: conv_inv_def access_inv_def)
  then have "length (accessOFile c) + length ?as < 2 ^ 64" using k by auto
  from fold_write_access[OF c'_def[symmetric] L this] obtain rows where
    rows: "accessOFile c' = accessOFile c @ rows" "map ar_id rows = map ma_id ?as"
      "map ar_alloc_id rows = map ma_alloc_id ?as" "map ar_stacktrace_id rows = map ma_stacktrace_id ?as"
    and L': "lock_inv k (accessOFile c') (lockManager c')"
    and c': "c' = c\<lparr>accessOFile := accessOFile c', lockManager := lockManager c'\<rparr>"
    by blast
  let ?c = "c'\<lparr>lastMemAccesses := []\<rparr>"
  have same: "alloc_ids ?c = alloc_ids c" "stack_lookup ?c = stack_lookup c"
    "stacktracesOFile ?c = stacktracesOFile c" "curAccessID ?c = curAccessID c"
    "alloc_inv k ?c = alloc_inv k c" "stack_inv k ?c = stack_inv k c"
  proof -
    obtain x y where xy: "c' = c\<lparr>accessOFile := x, lockManager := y\<rparr>" by (rule that[OF c'])
    show "alloc_ids ?c = alloc_ids c" "stack_lookup ?c = stack_lookup c"
      "stacktracesOFile ?c = stacktracesOFile c" "curAccessID ?c = curAccessID c"
      "alloc_inv k ?c = alloc_inv k c" "stack_inv k ?c = stack_inv k c"
      unfolding xy by (rule access_frame)+
  qed
  have lr: "length rows = length ?as" using arg_cong[OF rows(2), of length] by simp
  have A: "access_inv k c" using inv by (simp add: conv_inv_def)
  have sub: "set (map ma_id ?as) \<subseteq> set (map ma_id (lastMemAccesses c))"
    "set (map ma_alloc_id ?as) \<subseteq> set (map ma_alloc_id (lastMemAccesses c))"
    "set (map ma_stacktrace_id ?as) \<subseteq> set (map ma_stacktrace_id (lastMemAccesses c))"
    by (auto dest: in_set_takeD)
  have "distinct (map ar_id (accessOFile c'))"
    unfolding rows(1) map_append rows(2)
    using A sub(1) by (auto simp: access_inv_def take_map[symmetric] distinct_take)
  moreover have "length (accessOFile c') \<le> k" using len lr rows(1) by simp
  moreover have "\<forall>i \<in> set (map ar_id (accessOFile c')). i < curAccessID c"
    and "set (map ar_alloc_id (accessOFile c')) \<subseteq> set_mset (alloc_ids c)"
    and "set (map ar_stacktrace_id (accessOFile c')) \<subseteq> sr_id ` set (stacktracesOFile c)"
    unfolding rows(1) map_append rows(2-4) set_append using A sub
    unfolding access_inv_def set_append by (blast, blast, blast)
  ultimately have "access_inv k ?c"
    using A unfolding access_inv_def same by simp
  then have "conv_inv k ?c"
    using L' inv unfolding conv_inv_def same by simp
  then show ?thesis using False by (simp add: writeMemAccesses_def drop c'_def)
qed

lemma mset_omap_update_fresh:
  "omap_lookup m k = None \<Longrightarrow> mset (map f (omap_update k v m)) = add_mset (f (k, v)) (mset (map f m))"
  by (induction m) (auto split: if_splits)

lemma mset_omap_delete:
  assumes "omap_ok m" "omap_lookup m k = Some v"
  shows "mset (map f m) = add_mset (f (k, v)) (mset (map f (omap_delete k m)))"
  using assms
proof (induction m)
  case (Cons e m)
  obtain k' v' where e: "e = (k', v')" by (cases e)
  show ?case
  proof (cases "k' = k")
    case True
    then have "k \<notin> fst ` set m" using Cons.prems(1) by (auto simp: e omap_ok_Cons omap_keys_def)
    then have "omap_delete k m = m" by (auto simp: omap_delete_def filter_id_conv)
    with Cons.prems True show ?thesis by (simp add: e omap_delete_def)
  next
    case False
    with Cons show ?thesis by (simp add: e omap_delete_def omap_ok_Cons)
  qed
qed simp

lemma subclass_for_frame:
  assumes "subclass_for ts typeStr c = Inr (idx, c1)"
  shows "c1 = c\<lparr>curSubclassID := curSubclassID c1, subclasses := subclasses c1, conv_cerr := conv_cerr c1\<rparr>"
    and "\<exists>ss. subclasses c1 = subclasses c @ ss"
    and "idx = Some i \<Longrightarrow> i < length (subclasses c1)"
proof -
  have "find_index P xs = Some i \<Longrightarrow> i < length xs" for P and xs :: "Subclass list" and i
    by (induction xs arbitrary: i) (auto split: if_splits)
  then show "idx = Some i \<Longrightarrow> i < length (subclasses c1)"
    using assms by (auto simp: subclass_for_def split: prod.splits option.splits if_splits)
  show "c1 = c\<lparr>curSubclassID := curSubclassID c1, subclasses := subclasses c1, conv_cerr := conv_cerr c1\<rparr>"
    and "\<exists>ss. subclasses c1 = subclasses c @ ss"
    using assms by (auto simp: subclass_for_def split: prod.splits option.splits if_splits)
qed

lemma uniq_add_fresh:
  assumes "uniq M" "\<forall>i \<in># M. i < w" "unat (w :: u64) < 2 ^ 64 - 1"
  shows "uniq (add_mset w M)" and "\<forall>i \<in># add_mset w M. i < w + 1"
  using assms fresh_id[OF assms(3)] by (auto simp: uniq_add_mset)

lemma handle_alloc_inv:
  assumes inv: "conv_inv k c" and k: "k < 2 ^ 31" and ev: "handle_alloc ts typeStr b sz c = Inr c'"
  shows "conv_inv (k + 1) c'"
proof (cases "omap_lookup (activeAllocs c) b")
  case (Some al)
  then have "c' = c\<lparr>conv_cerr := conv_cerr c @ [ActiveAllocAt ts b]\<rparr>" using ev by (simp add: handle_alloc_def)
  then show ?thesis using conv_inv_mono[OF inv, of "k + 1"] by simp
next
  case None
  then obtain idx c1 where sc: "subclass_for ts typeStr c = Inr (idx, c1)"
    and c': "c' = (case idx of None \<Rightarrow> c1 | Some i \<Rightarrow> c1\<lparr>curAllocID := curAllocID c1 + 1,
       activeAllocs := omap_update b \<lparr>al_start = ts, al_id = curAllocID c1, al_size = int_of_ull sz,
         subclass_idx = i\<rparr> (activeAllocs c1)\<rparr>)"
    using ev by (auto simp: handle_alloc_def bindE_Inr_iff split: option.splits)
  obtain ss n ds where c1: "c1 = c\<lparr>curSubclassID := n, subclasses := subclasses c @ ss, conv_cerr := ds\<rparr>"
    using subclass_for_frame(1,2)[OF sc] by metis
  have inv1: "conv_inv k c1"
    using inv unfolding c1 by (auto simp: conv_inv_defs alloc_ids_def stack_lookup_def)
  show ?thesis
  proof (cases idx)
    case None
    then show ?thesis using c' conv_inv_mono[OF inv1, of "k + 1"] by simp
  next
    case (Some i)
    let ?al = "\<lparr>al_start = ts, al_id = curAllocID c1, al_size = int_of_ull sz, subclass_idx = i\<rparr>"
    have c'': "c' = c1\<lparr>curAllocID := curAllocID c1 + 1, activeAllocs := omap_update b ?al (activeAllocs c1)\<rparr>"
      using c' Some by simp
    have i: "i < length (subclasses c1)" by (rule subclass_for_frame(3)[OF sc Some])
    have A: "alloc_inv k c1" using inv1 by (simp add: conv_inv_def)
    have w: "unat (curAllocID c1) < 2 ^ 64 - 1" using A k by (simp add: alloc_inv_def)
    have fresh: "omap_lookup (activeAllocs c1) b = None" using \<open>omap_lookup (activeAllocs c) b = None\<close> c1 by simp
    have ids: "alloc_ids c' = add_mset (curAllocID c1) (alloc_ids c1)"
      by (simp add: c'' alloc_ids_def mset_omap_update_fresh[OF fresh] del: mset_map)
    have "\<forall>e \<in> set (omap_update b ?al (activeAllocs c1)). subclass_idx (snd e) < length (subclasses c1)"
      using A i set_omap_update_subset[of b ?al "activeAllocs c1"] by (fastforce simp: alloc_inv_def)
    then have "alloc_inv (k + 1) c'"
      using A uniq_add_fresh[of "alloc_ids c1", OF _ _ w] fresh_id(1)[OF w]
      unfolding alloc_inv_def ids by (simp add: c'' omap_ok_update)
    moreover have "access_inv (k + 1) c'"
      using inv1 unfolding conv_inv_def access_inv_def ids by (auto simp: c'')
    moreover have "stack_inv (k + 1) c'" "lock_inv (k + 1) (accessOFile c') (lockManager c')"
      using conv_inv_mono[OF inv1, of "k + 1"] by (simp_all add: conv_inv_def stack_inv_def stack_lookup_def c'')
    ultimately show ?thesis by (simp add: conv_inv_def)
  qed
qed


lemma deleteLockByArea_frame:
  "m_heap (deleteLockByArea b sz lm) = m_heap lm" "m_activeTXNs (deleteLockByArea b sz lm) = m_activeTXNs lm"
  "m_nextTXNID (deleteLockByArea b sz lm) = m_nextTXNID lm"
  "m_nextLockID (deleteLockByArea b sz lm) = m_nextLockID lm"
  "m_txnsOFile (deleteLockByArea b sz lm) = m_txnsOFile lm"
  "m_locksHeldOFile (deleteLockByArea b sz lm) = m_locksHeldOFile lm"
  "txn_stack (deleteLockByArea b sz lm) = txn_stack lm"
  by (simp_all add: deleteLockByArea_def Let_def txn_stack_def fun_eq_iff)

lemma side_free_delete: "side_free (deleteLockByArea b sz lm) = side_free lm"
  by (auto simp: side_free_def side_diag_def deleteLockByArea_def Let_def)

lemma lock_inv_delete: "lock_inv k rows lm \<Longrightarrow> lock_inv k rows (deleteLockByArea b sz lm)"
  using deleteLockByArea_lm_ok
  by (auto simp: lock_inv_def lock_base_def side_free_delete acc_txn_ok_def txn_refs_def ctr_ok_def held_refs_ok_def
      lock_ids_def n_active_def active_ids_def deleteLockByArea_frame)

lemma handle_free_inv:
  assumes inv: "conv_inv k c"
  shows "conv_inv k (handle_free ts b sz c)"
proof (cases "omap_lookup (activeAllocs c) b")
  case None
  then show ?thesis using inv by (simp add: handle_free_def)
next
  case (Some al)
  let ?c = "handle_free ts b sz c"
  have A: "alloc_inv k c" using inv by (simp add: conv_inv_def)
  then have "mset (map (\<lambda>e. al_id (snd e)) (activeAllocs c)) =
      add_mset (al_id al) (mset (map (\<lambda>e. al_id (snd e)) (omap_delete b (activeAllocs c))))"
    using mset_omap_delete[OF _ Some, of "\<lambda>e. al_id (snd e)"] by (simp add: alloc_inv_def)
  then have ids: "alloc_ids ?c = alloc_ids c"
    using Some by (simp add: handle_free_def alloc_ids_def alloc_row_of_def del: mset_map)
  have "alloc_inv k ?c"
    using A Some unfolding alloc_inv_def ids
    by (auto simp: handle_free_def omap_ok_delete) (auto simp: omap_delete_def)
  moreover have "access_inv k ?c" "stack_inv k ?c"
    using inv Some unfolding conv_inv_def access_inv_def stack_inv_def ids
    by (simp_all add: handle_free_def stack_lookup_def)
  moreover have "lock_inv k (accessOFile ?c) (lockManager ?c)"
    using inv Some by (simp add: conv_inv_def handle_free_def lock_inv_delete)
  ultimately show ?thesis by (simp add: conv_inv_def)
qed

lemma stack_rows_keys:
  "stack_rows env sid s toks = Inr rows \<Longrightarrow>
     (\<forall>r \<in> set rows. sr_id r = sid \<and> s \<le> sr_sequence r) \<and> distinct (map sr_sequence rows) \<and>
     (toks \<noteq> [] \<longrightarrow> rows \<noteq> [])"
proof (induction toks arbitrary: s rows)
  case (Cons tok toks)
  obtain instr where "stoull 16 tok = Inr instr" using Cons.prems by (auto simp: bindE_Inr_iff)
  define prev where "prev = (if s > 0 then instr - 1 else instr)"
  define r where "r = get_function_at_addr env (kernelBaseDir env) prev"
  define locs where "locs = codeLocation r # inlinedBy r"
  let ?row = "\<lambda>(i, l). \<lparr>sr_id = sid, sr_sequence = s + i, sr_instr = instr, sr_instr_prev = prev, sr_loc = l\<rparr>"
  obtain rest where rest: "stack_rows env sid (s + length locs) toks = Inr rest"
    and rows: "rows = map ?row (List.enumerate 0 locs) @ rest"
    using Cons.prems \<open>stoull 16 tok = Inr instr\<close>
    by (auto simp: bindE_Inr_iff Let_def locs_def r_def prev_def)
  have seqs: "map sr_sequence (map ?row (List.enumerate 0 locs)) = map (\<lambda>i. s + i) [0..<length locs]"
  proof -
    have "map sr_sequence (map ?row xs) = map (\<lambda>i. s + i) (map fst xs)" for xs
      by (induction xs) auto
    from this[of "List.enumerate 0 locs"] show ?thesis by simp
  qed
  have "\<forall>x \<in> set (map sr_sequence (map ?row (List.enumerate 0 locs))). s \<le> x \<and> x < s + length locs"
    unfolding seqs by auto
  then have first: "\<forall>x \<in> set (map ?row (List.enumerate 0 locs)). sr_id x = sid \<and> s \<le> sr_sequence x \<and>
      sr_sequence x < s + length locs" by auto
  have "distinct (map sr_sequence (map ?row (List.enumerate 0 locs)))"
    unfolding seqs by (simp add: distinct_map)
  moreover note Cons.IH[OF rest]
  ultimately show ?case using first unfolding rows by (fastforce simp: locs_def)
qed simp

lemma split_fields_nonempty: "acc \<noteq> [] \<or> x \<noteq> [] \<Longrightarrow> getline_fields d acc x \<noteq> []"
  by (induction x arbitrary: acc) auto

lemma showbase_hex_nonempty: "showbase_hex w \<noteq> []"
  by (simp add: showbase_hex_def)

lemma addStacktrace_cases:
  assumes ev: "addStacktrace env ip st c = Inr (i, c')"
  obtains
    "stack_lookup c ip (trim_stacktrace st) = Some i" "stack_lookup c' = stack_lookup c"
    "c' = c\<lparr>stacktraces := stacktraces c'\<rparr>"
  | rows where "stack_lookup c ip (trim_stacktrace st) = None" "i = curStacktraceID c"
    "stack_lookup c' = (\<lambda>ip' st'. if ip' = ip \<and> st' = trim_stacktrace st then Some i else stack_lookup c ip' st')"
    "c' = c\<lparr>stacktraces := stacktraces c', curStacktraceID := i + 1, stacktracesOFile := stacktracesOFile c @ rows\<rparr>"
    "\<forall>r \<in> set rows. sr_id r = i" "distinct (map sr_sequence rows)" "rows \<noteq> []"
proof -
  let ?st = "trim_stacktrace st"
  define sub where "sub = (case omap_lookup (stacktraces c) ip of None \<Rightarrow> [] | Some m \<Rightarrow> m)"
  have sub: "omap_lookup sub x = stack_lookup c ip x" for x
    by (simp add: sub_def stack_lookup_def split: option.splits)
  show ?thesis
  proof (cases "omap_lookup sub ?st")
    case (Some j)
    then have r: "i = j" "c' = c\<lparr>stacktraces := omap_update ip sub (stacktraces c)\<rparr>"
      using ev by (simp_all add: addStacktrace_def Let_def sub_def[symmetric])
    show ?thesis
    proof (rule that(1))
      show "stack_lookup c ip ?st = Some i" using Some r sub by simp
      show "stack_lookup c' = stack_lookup c"
        by (auto simp: r(2) stack_lookup_def[of "c\<lparr>stacktraces := x\<rparr>" for x] omap_simps sub fun_eq_iff)
          (simp add: stack_lookup_def)
    qed (simp add: r)
  next
    case None
    let ?text = "showbase_hex ip @ (if ?st \<noteq> [] then CHR '','' # ?st else [])"
    have "bindE (stack_rows env (curStacktraceID c) 0 (split_fields (CHR '','') ?text)) (\<lambda>rows.
         Inr (curStacktraceID c, c\<lparr>stacktraces := omap_update ip sub (stacktraces c), curStacktraceID := curStacktraceID c + 1,
           stacktraces := omap_update ip (omap_update ?st (curStacktraceID c) sub) (stacktraces c),
           stacktracesOFile := stacktracesOFile c @ rows\<rparr>)) = Inr (i, c')"
      using ev None unfolding addStacktrace_def Let_def sub_def[symmetric] by simp
    then obtain rows where
      rows: "stack_rows env (curStacktraceID c) 0 (split_fields (CHR '','') ?text) = Inr rows"
      and i: "i = curStacktraceID c"
      and c': "c' = c\<lparr>curStacktraceID := i + 1,
          stacktraces := omap_update ip (omap_update ?st i sub) (stacktraces c),
          stacktracesOFile := stacktracesOFile c @ rows\<rparr>"
      by (auto simp: bindE_Inr_iff)
    have "split_fields (CHR '','') ?text \<noteq> []"
      using showbase_hex_nonempty by (intro split_fields_nonempty) simp
    with stack_rows_keys[OF rows] i have rk: "\<forall>r \<in> set rows. sr_id r = i" "distinct (map sr_sequence rows)" "rows \<noteq> []"
      by auto
    show ?thesis
    proof (rule that(2)[OF _ i _ _ rk])
      show "stack_lookup c ip ?st = None" using None sub by simp
      show "stack_lookup c' = (\<lambda>ip' st'. if ip' = ip \<and> st' = ?st then Some i else stack_lookup c ip' st')"
        by (auto simp: c' stack_lookup_def[of "c\<lparr>curStacktraceID := z, stacktraces := x, stacktracesOFile := y\<rparr>" for x y z]
            omap_simps sub fun_eq_iff) (simp add: stack_lookup_def)
    qed (simp add: c')
  qed
qed

lemma addStacktrace_inv:
  assumes inv: "stack_inv k c" and k: "k < 2 ^ 31" and ev: "addStacktrace env ip st c = Inr (i, c')"
  shows "stack_inv (k + 1) c'" and "i \<in> sr_id ` set (stacktracesOFile c')"
    and "set (stacktracesOFile c) \<subseteq> set (stacktracesOFile c')"
    and "c' = c\<lparr>stacktraces := stacktraces c', curStacktraceID := curStacktraceID c',
      stacktracesOFile := stacktracesOFile c'\<rparr>"
    and "stack_lookup c' ip (trim_stacktrace st) = Some i"
proof -
  let ?all = "stack_inv (k + 1) c' \<and> i \<in> sr_id ` set (stacktracesOFile c') \<and>
     set (stacktracesOFile c) \<subseteq> set (stacktracesOFile c') \<and>
     c' = c\<lparr>stacktraces := stacktraces c', curStacktraceID := curStacktraceID c',
      stacktracesOFile := stacktracesOFile c'\<rparr> \<and> stack_lookup c' ip (trim_stacktrace st) = Some i"
  from ev have ?all
  proof (cases rule: addStacktrace_cases)
  case 1
  have f: "stacktracesOFile c' = stacktracesOFile c" "curStacktraceID c' = curStacktraceID c"
    by (subst 1(3), simp)+
  have "stack_inv (k + 1) c'" using inv unfolding stack_inv_def f 1(2) by simp
  moreover have "i \<in> sr_id ` set (stacktracesOFile c')"
    using inv 1(1) unfolding stack_inv_def f by blast
  moreover have "c' = c\<lparr>stacktraces := stacktraces c', curStacktraceID := curStacktraceID c',
      stacktracesOFile := stacktracesOFile c'\<rparr>"
    unfolding f by (rule trans[OF 1(3)]) simp
  ultimately show ?all
    using 1 f by simp
next
  case (2 rows)
  have f: "stacktracesOFile c' = stacktracesOFile c @ rows" "curStacktraceID c' = i + 1"
    by (subst 2(4), simp)+
  have w: "unat i < 2 ^ 64 - 1" using inv k 2(2) by (simp add: stack_inv_def)
  have new: "i \<in> sr_id ` set rows" using 2(5,7) by (cases rows) force+
  have old: "\<forall>r \<in> set (stacktracesOFile c). sr_id r < i" using inv 2(2) by (simp add: stack_inv_def)
  have known: "\<forall>ip' st' j. stack_lookup c ip' st' = Some j \<longrightarrow> j \<in> sr_id ` set (stacktracesOFile c)"
    using inv unfolding stack_inv_def by blast
  have fresh: "stack_lookup c ip' st' \<noteq> Some i" for ip' st'
    using known old by force
  have "distinct (map (\<lambda>r. (sr_id r, sr_sequence r)) (stacktracesOFile c @ rows))"
  proof -
    have "distinct (map (\<lambda>r. (sr_id r, sr_sequence r)) rows)"
      using 2(6) by (auto simp: distinct_map inj_on_def)
    then show ?thesis using inv old 2(5) by (auto simp: stack_inv_def)
  qed
  moreover have "\<forall>r \<in> set (stacktracesOFile c @ rows). sr_id r < i + 1"
    using old 2(5) fresh_id[OF w] by auto
  moreover have "\<forall>ip' st' j. stack_lookup c' ip' st' = Some j \<longrightarrow> j \<in> sr_id ` set (stacktracesOFile c @ rows)"
    using new known unfolding 2(3) set_append image_Un by (simp split: if_splits)
  moreover have "\<forall>ip1 st1 ip2 st2 j. stack_lookup c' ip1 st1 = Some j \<longrightarrow> stack_lookup c' ip2 st2 = Some j \<longrightarrow>
      ip1 = ip2 \<and> st1 = st2"
    using inv fresh unfolding 2(3) stack_inv_def by (metis option.inject)
  moreover have "unat (i + 1) \<le> 1 + (k + 1)" using inv fresh_id(1)[OF w] 2(2) by (simp add: stack_inv_def)
  ultimately have "stack_inv (k + 1) c'" unfolding stack_inv_def f by blast
  moreover have "c' = c\<lparr>stacktraces := stacktraces c', curStacktraceID := curStacktraceID c',
      stacktracesOFile := stacktracesOFile c'\<rparr>" using 2(4) unfolding f .
  ultimately show ?all
    using new f by (simp add: 2(3) image_Un)
qed
  then show "stack_inv (k + 1) c'" and "i \<in> sr_id ` set (stacktracesOFile c')"
    and "set (stacktracesOFile c) \<subseteq> set (stacktracesOFile c')"
    and "c' = c\<lparr>stacktraces := stacktraces c', curStacktraceID := curStacktraceID c',
      stacktracesOFile := stacktracesOFile c'\<rparr>"
    and "stack_lookup c' ip (trim_stacktrace st) = Some i" by blast+
qed

lemma handle_access_inv:
  assumes inv: "conv_inv k c" and k: "k < 2 ^ 31"
    and ev: "handle_access env a ts addr sz b ip st ctx c = Inr c'"
  shows "conv_inv (k + 1) c'"
proof (cases "omap_lookup (activeAllocs c) b")
  case None
  then have "c' = c\<lparr>conv_cerr := conv_cerr c @ [NoActiveAlloc ts b]\<rparr>" using ev by (simp add: handle_access_def)
  then show ?thesis using conv_inv_mono[OF inv, of "k + 1"] by simp
next
  case (Some al)
  have "\<not> access_outside addr sz b al" using ev Some by (auto simp: handle_access_def)
  then obtain sid c1 where st: "addStacktrace env ip st c = Inr (sid, c1)"
    and c': "c' = c1\<lparr>curAccessID := curAccessID c + 1,
       lastMemAccesses := lastMemAccesses c1 @
         [\<lparr>ma_id = curAccessID c, ma_ts = ts, ma_alloc_id = al_id al, ma_action = a,
           ma_size = int_of_ull sz, ma_address = addr, ma_stacktrace_id = sid, ma_ctx = ctx\<rparr>]\<rparr>"
    using ev Some by (auto simp: handle_access_def bindE_Inr_iff)
  have S: "stack_inv k c" and A: "alloc_inv k c" and M: "access_inv k c"
    and L: "lock_inv k (accessOFile c) (lockManager c)"
    using inv by (simp_all add: conv_inv_def)
  note st' = addStacktrace_inv[OF S k st]
  obtain x y z where c1: "c1 = c\<lparr>stacktraces := x, curStacktraceID := y, stacktracesOFile := z\<rparr>"
    by (rule that[OF st'(4)])
  have same: "accessOFile c' = accessOFile c" "lockManager c' = lockManager c" "alloc_ids c' = alloc_ids c"
    "activeAllocs c' = activeAllocs c" "curAllocID c' = curAllocID c" "subclasses c' = subclasses c"
    "lastMemAccesses c1 = lastMemAccesses c"
    by (simp_all add: c' c1 alloc_ids_def)
  have "alloc_inv (k + 1) c'" using A unfolding alloc_inv_def same by simp
  moreover have "lock_inv (k + 1) (accessOFile c') (lockManager c')"
    using conv_inv_mono[OF inv, of "k + 1"] unfolding conv_inv_def same by simp
  moreover have "stack_inv (k + 1) c'"
    using st'(1) by (simp add: stack_inv_def stack_lookup_def c')
  moreover have "access_inv (k + 1) c'"
  proof -
    have w: "unat (curAccessID c) < 2 ^ 64 - 1" using M k by (simp add: access_inv_def)
    have al: "al_id al \<in># alloc_ids c"
      using map_of_SomeD[OF Some] by (force simp: alloc_ids_def)
    have files: "stacktracesOFile c' = stacktracesOFile c1" by (simp add: c')
    have sub: "sr_id ` set (stacktracesOFile c) \<subseteq> sr_id ` set (stacktracesOFile c')"
      unfolding files using st'(3) by blast
    have sid: "sid \<in> sr_id ` set (stacktracesOFile c')" unfolding files by (rule st'(2))
    have new: "map ma_id (lastMemAccesses c') = map ma_id (lastMemAccesses c) @ [curAccessID c]"
      "map ma_alloc_id (lastMemAccesses c') = map ma_alloc_id (lastMemAccesses c) @ [al_id al]"
      "map ma_stacktrace_id (lastMemAccesses c') = map ma_stacktrace_id (lastMemAccesses c) @ [sid]"
      "curAccessID c' = curAccessID c + 1" "length (lastMemAccesses c') = length (lastMemAccesses c) + 1"
      by (simp_all add: c' same(7))
    have "distinct (map ar_id (accessOFile c) @ map ma_id (lastMemAccesses c) @ [curAccessID c])"
      using M by (fastforce simp: access_inv_def)
    moreover have "\<forall>i \<in> set (map ar_id (accessOFile c) @ map ma_id (lastMemAccesses c) @ [curAccessID c]).
        i < curAccessID c + 1"
      using M fresh_id[OF w] by (auto simp: access_inv_def)
    ultimately show ?thesis
      using M al sub sid fresh_id(1)[OF w] unfolding access_inv_def new same by simp (meson order_trans)
  qed
  ultimately show ?thesis by (simp add: conv_inv_def)
qed


section \<open>Lock events\<close>

lemma side_free_append: "m_cerr lm' = m_cerr lm @ ds \<Longrightarrow> side_free lm' \<Longrightarrow> side_free lm"
  unfolding side_free_def by (simp add: Int_Un_distrib)

lemma transition_lock_base:
  assumes inv: "lock_base k rows lm" and k: "k < 2 ^ 31" and lt: "p < length (m_heap lm)"
    and tr: "transition p lockOP ts file line flags kernelDir ctx lm = Inr lm'"
  shows "lock_base (k + 1) rows lm'" and "m_nextLockID lm' = m_nextLockID lm"
proof -
  have ok: "lm_ok lm" and n: "unat (m_nextTXNID lm) \<le> 1 + k * (k + 1)" "n_active lm \<le> k"
    using inv by (simp_all add: lock_base_def)
  then have rm: "unat (m_nextTXNID lm) + n_active lm + 2 < 2 ^ 64" using room[OF k] by linarith
  note t = transition_lm_ok[OF ok tr lt rm]
  show "m_nextLockID lm' = m_nextLockID lm" using t(4) by (simp add: keeps_locks_def)
  have "unat (m_nextTXNID lm') \<le> 1 + (k + 1) * (k + 1 + 1)" using t(2) n by (simp add: algebra_simps)
  moreover have "n_active lm' \<le> k + 1" using t(3) n by simp
  moreover obtain acts where pth: "lm_path acts lm lm'" and told: "told p acts lm'"
    using transition_path[OF tr lt] by blast
  moreover have "held_refs_ok lm'" "ctr_ok (length rows) lm'"
    using lm_path_held_refs[OF pth] lm_path_ctr[OF pth] inv by (simp_all add: lock_base_def lm_ok_def)
  moreover have "acc_txn_ok rows lm'" if sf: "side_free lm'"
  proof -
    have "Finish True \<notin> set acts" using told sf by (auto simp: told_def side_free_def)
    moreover obtain ds where "m_cerr lm' = m_cerr lm @ ds" using lm_path_cerr[OF pth] ..
    then have "side_free lm" using sf by (rule side_free_append)
    ultimately show ?thesis
      using lm_path_refs[OF pth] inv by (auto simp: lock_base_def acc_txn_ok_def)
  qed
  ultimately show "lock_base (k + 1) rows lm'" using t(1) by (simp add: lock_base_def)
qed

lemma allocLock_frame:
  assumes "allocLock addr aid type var flags lm = Inr (p, lm')"
  shows "p < length (m_heap lm')" and "unat (m_nextLockID lm') \<le> unat (m_nextLockID lm) + 2"
    and "m_nextTXNID lm' = m_nextTXNID lm" and "m_activeTXNs lm' = m_activeTXNs lm"
    and "m_txnsOFile lm' = m_txnsOFile lm" and "m_locksHeldOFile lm' = m_locksHeldOFile lm"
    and "m_cerr lm' = m_cerr lm" and "\<exists>l. m_heap lm' = m_heap lm @ [l]"
proof -
  obtain cls n l where i: "initIDs (m_nextLockID lm) (new_RWLock cls addr aid type var flags) = (n, l)"
    and "p = length (m_heap lm)"
    and lm': "lm' = lm\<lparr>m_nextLockID := n, m_heap := m_heap lm @ [l],
       m_locks := omap_update addr (length (m_heap lm)) (m_locks lm)\<rparr>"
    using assms by (auto simp: allocLock_def Let_def split: option.splits prod.splits if_splits)
  then show "p < length (m_heap lm')" "m_nextTXNID lm' = m_nextTXNID lm" "m_activeTXNs lm' = m_activeTXNs lm"
    "m_txnsOFile lm' = m_txnsOFile lm" "m_locksHeldOFile lm' = m_locksHeldOFile lm"
    "m_cerr lm' = m_cerr lm" "\<exists>l. m_heap lm' = m_heap lm @ [l]" by simp_all
  have two: "unat (w + 2 :: u64) \<le> unat w + 2" for w
    using mod_less_eq_dividend[of "unat w + 2" "2 ^ 64"] by (simp add: unat_word_ariths)
  have "n = m_nextLockID lm + 2 \<or> n = m_nextLockID lm + 1"
    using i by (auto simp: initIDs_def split: lock_class.splits)
  then show "unat (m_nextLockID lm') \<le> unat (m_nextLockID lm) + 2"
    using two[of "m_nextLockID lm"] unat_Suc_le[of "m_nextLockID lm"] by (auto simp: lm')
qed

lemma allocLock_lock_base:
  assumes inv: "lock_inv k rows lm" and k: "k < 2 ^ 31"
    and al: "allocLock addr aid type var flags lm = Inr (p, lm')"
  shows "lock_base k rows lm'" and "unat (m_nextLockID lm') \<le> 1 + 2 * (k + 1)"
proof -
  note fr = allocLock_frame[OF al]
  have rm: "unat (m_nextLockID lm) + 2 < 2 ^ 64" using inv k by (simp add: lock_inv_def)
  have "lm_ok lm'"
    using inv by (intro allocLock_lm_ok(1)[OF _ al rm]) (simp add: lock_inv_def lock_base_def)
  moreover have "txn_stack lm' = txn_stack lm" using fr(4) by (simp add: txn_stack_def fun_eq_iff)
  moreover have "lock_ids lm \<subseteq> lock_ids lm'" using fr(8) by (auto simp: lock_ids_def)
  ultimately show "lock_base k rows lm'"
    using inv fr unfolding lock_inv_def lock_base_def held_refs_ok_def ctr_ok_def side_free_def
      acc_txn_ok_def txn_refs_def n_active_def active_ids_def by auto
  show "unat (m_nextLockID lm') \<le> 1 + 2 * (k + 1)" using inv fr(2) by (simp add: lock_inv_def)
qed

text \<open>A lock that is in no allocation and no data section, which the program leaves out.\<close>

definition outside_lock :: "conv_env \<Rightarrow> u64 \<Rightarrow> string \<Rightarrow> conv \<Rightarrow> bool" where
  "outside_lock env addr mem c \<longleftrightarrow> embedding_alloc_id c addr = 0 \<and> \<not> checkLockInSections env addr \<and>
     \<not> (mem = PSEUDOLOCK_VAR \<and> isPseudoLock addr) \<and> \<not> includeAllLocks env"

lemma handlePV_cases:
  assumes ev: "handlePV env lockOP ts addr file line mem type flags ctx c = Inr c'"
  obtains (known) p lm where "findLock (lockManager c) addr = Some p"
      "transition p lockOP ts file line flags (kernelBaseDir env) ctx (lockManager c) = Inr lm"
      "c' = c\<lparr>lockManager := lm, locksOFile := locksOFile c\<rparr>"
  | (new) aid var p lm lm' where "findLock (lockManager c) addr = None" "lockOP = P_READ \<or> lockOP = P_WRITE"
      "allocLock addr aid type var flags (lockManager c) = Inr (p, lm)"
      "transition p lockOP ts file line flags (kernelBaseDir env) ctx lm = Inr lm'"
      "c' = c\<lparr>lockManager := lm', locksOFile := locksOFile c @ writeLock (delimiter env) (lock_at lm p)\<rparr>"
      "\<not> outside_lock env addr mem c"
      "aid = embedding_alloc_id c addr \<or> includeAllLocks env \<and> aid = ucast (pseudoAllocID env)"
  | (none) ds where "findLock (lockManager c) addr = None" "c' = c\<lparr>conv_cerr := conv_cerr c @ ds\<rparr>"
      "lockOP = V_READ \<or> lockOP = V_WRITE \<or> outside_lock env addr mem c"
proof (cases "findLock (lockManager c) addr")
  case (Some p)
  with ev obtain lm where
    "transition p lockOP ts file line flags (kernelBaseDir env) ctx (lockManager c) = Inr lm"
    "c' = c\<lparr>lockManager := lm, locksOFile := locksOFile c\<rparr>"
    by (auto simp: handlePV_def Let_def bindE_Inr_iff)
  then show ?thesis by (rule known[OF Some])
next
  case None
  define aid where "aid = embedding_alloc_id c addr"
  define static where "static \<longleftrightarrow> checkLockInSections env addr \<or> (mem = PSEUDOLOCK_VAR \<and> isPseudoLock addr)"
  define var where "var = (if aid = 0 \<and> static then getGlobalLockVar env addr else None)"
  define aid' where "aid' = (if aid = 0 \<and> \<not> static \<and> includeAllLocks env then ucast (pseudoAllocID env) else aid)"
  note ev' = ev[unfolded handlePV_def None option.case Let_def, folded aid_def, folded static_def, folded var_def, folded aid'_def]
  show ?thesis
  proof (cases "aid = 0 \<and> \<not> static \<and> \<not> includeAllLocks env")
    case True
    then have "c' = c\<lparr>conv_cerr := conv_cerr c @ []\<rparr>" using ev' by simp
    then show ?thesis by (rule none[OF None]) (use True in \<open>auto simp: outside_lock_def aid_def static_def\<close>)
  next
    case outside: False
    show ?thesis
    proof (cases "lockOP = V_READ \<or> lockOP = V_WRITE")
      case True
      then have "c' = c\<lparr>conv_cerr := conv_cerr c @ [CannotFindLock ts addr]\<rparr>" using ev' outside by simp
      then show ?thesis by (rule none[OF None]) (use True in blast)
    next
      case False
      then have op: "lockOP = P_READ \<or> lockOP = P_WRITE" by (cases lockOP) auto
      from ev' outside False obtain p lm lm' where
        "allocLock addr aid' type var flags (lockManager c) = Inr (p, lm)"
        "transition p lockOP ts file line flags (kernelBaseDir env) ctx lm = Inr lm'"
        "c' = c\<lparr>lockManager := lm', locksOFile := locksOFile c @ writeLock (delimiter env) (lock_at lm p)\<rparr>"
        by (auto simp: bindE_Inr_iff)
      then show ?thesis by (rule new[OF None op]) (use outside in \<open>auto simp: outside_lock_def aid_def static_def aid'_def\<close>)
    qed
  qed
qed

lemma handlePV_inv:
  assumes inv: "conv_inv k c" and k: "k < 2 ^ 31"
    and ev: "handlePV env lockOP ts addr file line mem type flags ctx c = Inr c'"
  shows "conv_inv (k + 1) c'"
proof -
  have L: "lock_inv k (accessOFile c) (lockManager c)" using inv by (simp add: conv_inv_def)
  have other: "conv_inv (k + 1) (c\<lparr>lockManager := lm, locksOFile := lo\<rparr>)"
    if "lock_inv (k + 1) (accessOFile c) lm" for lm lo
    using conv_inv_mono[OF inv, of "k + 1"] that
    by (simp add: conv_inv_def alloc_inv_def stack_inv_def access_inv_def alloc_ids_def stack_lookup_def)
  from ev show ?thesis
  proof (cases rule: handlePV_cases)
    case (known p lm)
    have "p < length (m_heap (lockManager c))"
      using L known(1) by (auto simp: lock_inv_def lock_base_def lm_ok_def locks_ok_def findLock_def)
    moreover have "lock_base k (accessOFile c) (lockManager c)" using L by (simp add: lock_inv_def)
    ultimately have "lock_inv (k + 1) (accessOFile c) lm"
      using transition_lock_base[OF _ k _ known(2)] L by (simp add: lock_inv_def)
    then show ?thesis unfolding known(3) by (rule other)
  next
    case (new aid var p lm lm')
    note al = allocLock_lock_base[OF L k new(3)]
    have "lock_inv (k + 1) (accessOFile c) lm'"
      using transition_lock_base[OF al(1) k allocLock_frame(1)[OF new(3)] new(4)] al(2)
      by (simp add: lock_inv_def)
    then show ?thesis unfolding new(5) by (rule other)
  next
    case (none ds)
    then show ?thesis using conv_inv_mono[OF inv, of "k + 1"] by simp
  qed
qed

section \<open>The whole run\<close>

lemma event_step_inv:
  assumes inv: "conv_inv k c" and k: "k < 2 ^ 31" and ev: "event_step env v c = Inr c'"
  shows "conv_inv (k + 1) c'"
proof (cases "\<not> processSeqlock env \<and> is_seqlock (v_lockType v)")
  case True
  then show ?thesis using ev conv_inv_mono[OF inv, of "k + 1"] by (simp add: event_step_def)
next
  case False
  let ?c = "writeMemAccesses env (v_action v) (v_address v) c"
  have inv': "conv_inv k ?c" by (rule writeMemAccesses_inv[OF inv k])
  have "handle_event env v ?c = Inr c'" using ev False by (auto simp: event_step_def)
  then show ?thesis
    using handle_alloc_inv[OF inv' k] handlePV_inv[OF inv' k] handle_access_inv[OF inv' k]
      conv_inv_mono[OF handle_free_inv[OF inv'], of "k + 1"] conv_inv_mono[OF inv', of "k + 1"]
    by (auto simp: handle_event_def split: if_splits)
qed

lemma process_line_event:
  assumes "process_line env l (v, c) = Inr (v', c')"
  obtains ds where "event_step env v' (c\<lparr>conv_cerr := conv_cerr c @ ds\<rparr>) = Inr c'"
proof -
  have "\<exists>ds. event_step env v' (c\<lparr>conv_cerr := conv_cerr c @ ds\<rparr>) = Inr c'"
    using assms
    by (auto simp: process_line_def Let_def bindE_Inr_iff split: list.splits prod.splits if_splits
        intro: exI[of _ "[]"])
  then show ?thesis using that by blast
qed

lemma process_line_inv:
  assumes "conv_inv k c" and "k < 2 ^ 31" and "process_line env l (v, c) = Inr (v', c')"
  shows "conv_inv (k + 1) c'"
  using assms(3)
proof (rule process_line_event)
  fix ds
  assume "event_step env v' (c\<lparr>conv_cerr := conv_cerr c @ ds\<rparr>) = Inr c'"
  from event_step_inv[OF _ assms(2) this] assms(1) show ?thesis by simp
qed

lemma process_lines_inv:
  "process_lines env ls (v, c) = Inr (v', c') \<Longrightarrow> conv_inv k c \<Longrightarrow> k + length ls < 2 ^ 31 \<Longrightarrow>
     conv_inv (k + length ls) c'"
proof (induction ls arbitrary: v c k)
  case (Cons l ls)
  then obtain v1 c1 where 1: "process_line env l (v, c) = Inr (v1, c1)"
    and 2: "process_lines env ls (v1, c1) = Inr (v', c')" by (auto simp: bindE_Inr_iff)
  have "conv_inv (k + 1) c1" using process_line_inv[OF Cons.prems(2) _ 1] Cons.prems(3) by simp
  from Cons.IH[OF 2 this] Cons.prems(3) show ?case by simp
qed simp

lemma init_conv_inv: "conv_inv 0 (init_conv env dts names n)"
  using new_LockManager_ok
  by (auto simp: conv_inv_def lock_inv_def lock_base_def alloc_inv_def stack_inv_def access_inv_def
      alloc_ids_def stack_lookup_def init_conv_def held_refs_ok_def ctr_ok_def acc_txn_ok_def
      txn_stack_def n_active_def active_ids_def new_LockManager_def uniq_def)


section \<open>The end of the run\<close>

lemma closeCtxTXNs_path:
  assumes "closeCtxTXNs ctx ts lm = Some r"
  shows "\<forall>lm'. r = Inr lm' \<longrightarrow> (\<exists>acts. lm_path acts lm lm' \<and> Finish True \<notin> set acts)"
proof (rule closeCtxTXNs.raw_induct[OF _ assms, where P = "\<lambda>ctx ts lm r.
    \<forall>lm'. r = Inr lm' \<longrightarrow> (\<exists>acts. lm_path acts lm lm' \<and> Finish True \<notin> set acts)"])
  fix close ctx ts lm r
  assume 1: "\<And>ctx ts lm r. close ctx ts lm = Some r \<Longrightarrow>
      \<forall>lm'. r = Inr lm' \<longrightarrow> (\<exists>acts. lm_path acts lm lm' \<and> Finish True \<notin> set acts)"
    and 2: "(case getActiveTXN lm ctx of
        None \<Rightarrow> Some (Inr lm)
      | Some t \<Rightarrow>
          (case finishTXN (txn_lock t) ts (txn_sub t) False ctx ctx
                  (lm\<lparr>m_cerr := m_cerr lm @ [StillActive ctx (length (txn_stack lm ctx))]\<rparr>) of
             Inl e \<Rightarrow> Some (Inl e)
           | Inr (_, lm') \<Rightarrow> close ctx ts lm')) = Some r"
  show "\<forall>lm'. r = Inr lm' \<longrightarrow> (\<exists>acts. lm_path acts lm lm' \<and> Finish True \<notin> set acts)"
  proof (intro allI impI)
    fix lm'
    assume r: "r = Inr lm'"
    show "\<exists>acts. lm_path acts lm lm' \<and> Finish True \<notin> set acts"
    proof (cases "getActiveTXN lm ctx")
      case None
      with 2 r show ?thesis by (auto intro: exI[of _ "[]"] lm_path.stop)
    next
      case (Some t)
      let ?lm = "lm\<lparr>m_cerr := m_cerr lm @ [StillActive ctx (length (txn_stack lm ctx))]\<rparr>"
      from 2 r Some obtain found lm1 where
        fin: "finishTXN (txn_lock t) ts (txn_sub t) False ctx ctx ?lm = Inr (found, lm1)"
        and rest: "close ctx ts lm1 = Some r" by (auto split: sum.splits prod.splits)
      from 1[OF rest] r obtain acts where "lm_path acts lm1 lm'" "Finish True \<notin> set acts" by blast
      then have "lm_path (Finish False # acts) lm lm'" "Finish True \<notin> set (Finish False # acts)"
        using lm_path.silent[OF quiet_cerr lm_path.finish[OF fin]] by auto
      then show ?thesis by blast
    qed
  qed
qed

lemma closeTXNs_of_path:
  "closeTXNs_of ctxs ts lm = Some (Inr lm') \<Longrightarrow> \<exists>acts. lm_path acts lm lm' \<and> Finish True \<notin> set acts"
proof (induction ctxs arbitrary: lm)
  case Nil
  then show ?case by (auto intro: exI[of _ "[]"] lm_path.stop)
next
  case (Cons c cs)
  then obtain lm1 where 1: "closeCtxTXNs c ts lm = Some (Inr lm1)" and 2: "closeTXNs_of cs ts lm1 = Some (Inr lm')"
    by (auto split: option.splits sum.splits)
  obtain a b where "lm_path a lm lm1" "lm_path b lm1 lm'" "Finish True \<notin> set a" "Finish True \<notin> set b"
    using closeCtxTXNs_path[OF 1] Cons.IH[OF 2] by fast
  then show ?case using lm_path_append by (intro exI[of _ "a @ b"]) auto
qed

text \<open>What holds of the tables when the run is over.\<close>

definition tables_ok :: "conv \<Rightarrow> bool" where
  "tables_ok c \<longleftrightarrow>
     distinct (map tr_id (m_txnsOFile (lockManager c))) \<and>
     distinct (map held_key (m_locksHeldOFile (lockManager c))) \<and>
     distinct (concat (map sub_ids (m_heap (lockManager c)))) \<and>
     distinct (map lr_id (allocOFile c)) \<and> distinct (map ar_id (accessOFile c)) \<and>
     distinct (map (\<lambda>r. (sr_id r, sr_sequence r)) (stacktracesOFile c)) \<and>
     hr_txn_id ` set (m_locksHeldOFile (lockManager c)) \<subseteq> tr_id ` set (m_txnsOFile (lockManager c)) \<and>
     hr_lock_id ` set (m_locksHeldOFile (lockManager c)) \<subseteq> lock_ids (lockManager c) \<and>
     ar_alloc_id ` set (accessOFile c) \<subseteq> lr_id ` set (allocOFile c) \<and>
     ar_stacktrace_id ` set (accessOFile c) \<subseteq> sr_id ` set (stacktracesOFile c)"

definition txn_refs_ok :: "conv \<Rightarrow> bool" where
  "txn_refs_ok c \<longleftrightarrow> (\<forall>r \<in> set (accessOFile c). \<forall>i. ar_txn_id r = Some i \<longrightarrow>
     i \<in> tr_id ` set (m_txnsOFile (lockManager c)))"

lemma finish_run_ok:
  assumes inv: "conv_inv k c" and k: "k < 2 ^ 31"
  shows "\<exists>c'. finish_run env (v, c) = Some (Inr c') \<and> tables_ok c' \<and> lastMemAccesses c' = [] \<and>
    (\<forall>ctx. \<not> hasActiveTXN (lockManager c') ctx) \<and>
    (side_free (lockManager c') \<longrightarrow> txn_refs_ok c')"
proof -
  define c1 where "c1 = c\<lparr>allocOFile := allocOFile c @
      map (\<lambda>(b, al). alloc_row_of c b al (al_size al) None) (activeAllocs c)\<rparr>"
  define c2 where "c2 = writeMemAccesses env (CHR ''v'') 0 c1"
  have ids: "mset (map lr_id (allocOFile c1)) = alloc_ids c"
    by (simp add: c1_def alloc_ids_def comp_def case_prod_beta alloc_row_of_def)
  have cl: "conv_inv k (c\<lparr>allocOFile := allocOFile c1, activeAllocs := []\<rparr>)"
    using inv ids
    by (simp add: conv_inv_def alloc_inv_def access_inv_def stack_inv_def stack_lookup_def alloc_ids_def)
  let ?W = "writeMemAccesses env (CHR ''v'') 0"
  have "conv_inv k (?W (c\<lparr>allocOFile := allocOFile c1, activeAllocs := []\<rparr>))"
    by (rule writeMemAccesses_inv[OF cl k])
  moreover have "?W (x\<lparr>activeAllocs := []\<rparr>) = (?W x)\<lparr>activeAllocs := []\<rparr>" for x
  proof -
    have "fold (write_access env) as (x\<lparr>activeAllocs := []\<rparr>) = (fold (write_access env) as x)\<lparr>activeAllocs := []\<rparr>"
      for "as"
    proof (induction "as" arbitrary: x)
      case (Cons a "as")
      have "write_access env a (x\<lparr>activeAllocs := []\<rparr>) = (write_access env a x)\<lparr>activeAllocs := []\<rparr>"
        by (simp add: write_access_def Let_def)
      with Cons show ?case by simp
    qed simp
    then show ?thesis by (simp add: writeMemAccesses_def)
  qed
  ultimately have inv2: "conv_inv k (c2\<lparr>activeAllocs := []\<rparr>)" by (simp add: c2_def c1_def)
  then have L: "lock_inv k (accessOFile c2) (lockManager c2)" by (simp add: conv_inv_def)
  then have ok: "lm_ok (lockManager c2)" by (simp add: lock_inv_def lock_base_def)
  obtain lm where close: "closeAllTXNs (v_ts v) (lockManager c2) = Some (Inr lm)"
    and none: "\<forall>ctx. \<not> hasActiveTXN lm ctx" and sl: "same_locks (lockManager c2) lm" and lm: "lm_ok lm"
    using closeAllTXNs_closes[OF ok] by blast
  obtain acts where pth: "lm_path acts (lockManager c2) lm" and nf: "Finish True \<notin> set acts"
    using closeTXNs_of_path close unfolding closeAllTXNs_def by blast
  let ?c = "c2\<lparr>lockManager := lm\<rparr>"
  have "finish_run env (v, c) = Some (Inr ?c)"
    using close by (simp add: finish_run_def Let_def c2_def c1_def)
  moreover have "lastMemAccesses ?c = []" by (simp add: c2_def writeMemAccesses_def)
  moreover have "txn_refs_ok ?c" if "side_free lm"
  proof -
    obtain ds where "m_cerr lm = m_cerr (lockManager c2) @ ds" using lm_path_cerr[OF pth] ..
    then have "side_free (lockManager c2)" using that by (rule side_free_append)
    then have "acc_txn_ok (accessOFile c2) lm"
      using L lm_path_refs[OF pth nf] by (auto simp: lock_inv_def lock_base_def acc_txn_ok_def)
    then show ?thesis using none by (auto simp: txn_refs_ok_def acc_txn_ok_def txn_refs_def hasActiveTXN_def)
  qed
  moreover have "tables_ok ?c"
  proof -
    have inv': "ids_inv lm (mset (active_ids lm))" and lid: "lock_ids_ok lm" using lm by (simp_all add: lm_ok_def)
    then have "uniq (mset (map tr_id (m_txnsOFile lm)))"
      by (metis ids_inv_def mset_subset_eq_add_right uniq_mono)
    then have 1: "distinct (map tr_id (m_txnsOFile lm))" by (simp only: uniq_mset_iff)
    have 2: "distinct (map held_key (m_locksHeldOFile lm))"
      "hr_txn_id ` set (m_locksHeldOFile lm) \<subseteq> tr_id ` set (m_txnsOFile lm)"
      using inv' by (simp_all add: ids_inv_def)
    have 3: "held_refs_ok lm"
      using L ok lm_path_held_refs[OF pth] by (simp add: lock_inv_def lock_base_def lm_ok_def)
    have "uniq (mset (map lr_id (allocOFile c2)))"
      using inv2 by (simp add: conv_inv_def alloc_inv_def alloc_ids_def)
    then have 4: "distinct (map lr_id (allocOFile c2))" by (simp only: uniq_mset_iff)
    have 5: "distinct (map ar_id (accessOFile c2))"
      "ar_alloc_id ` set (accessOFile c2) \<subseteq> lr_id ` set (allocOFile c2)"
      "ar_stacktrace_id ` set (accessOFile c2) \<subseteq> sr_id ` set (stacktracesOFile c2)"
      using inv2 by (auto simp: conv_inv_def access_inv_def alloc_ids_def)
    have 6: "distinct (map (\<lambda>r. (sr_id r, sr_sequence r)) (stacktracesOFile c2))"
      using inv2 by (simp add: conv_inv_def stack_inv_def)
    show ?thesis
      using 1 2 3 4 5 6 lid by (simp add: tables_ok_def held_refs_ok_def lock_ids_ok_def)
  qed
  ultimately show ?thesis using none by auto
qed

lemma convert_trace_ok:
  assumes "length inputLines < 2 ^ 31"
  shows "(\<exists>e. convert_trace env inputLines (init_conv env dts names n) = Some (Inl e)) \<or>
    (\<exists>c. convert_trace env inputLines (init_conv env dts names n) = Some (Inr c) \<and> tables_ok c \<and>
      (\<forall>ctx. \<not> hasActiveTXN (lockManager c) ctx) \<and> (side_free (lockManager c) \<longrightarrow> txn_refs_ok c))"
proof (cases "process_lines env (skip_header inputLines) (init_vars, init_conv env dts names n)")
  case (Inl e)
  then show ?thesis by (simp add: convert_trace_def)
next
  case (Inr s)
  obtain v c where s: "s = (v, c)" by (cases s)
  have len: "length (skip_header inputLines) < 2 ^ 31"
    using assms by (cases inputLines) (auto simp: skip_header_def)
  have "conv_inv (0 + length (skip_header inputLines)) c"
    using Inr len unfolding s by (intro process_lines_inv[OF _ init_conv_inv]) auto
  from finish_run_ok[OF this, of env v] len Inr show ?thesis by (auto simp: convert_trace_def s)
qed

end
