(* ===== verification/Convert_Sync.thy ===== *)
theory Convert_Sync
  imports Convert_Inv
begin

text \<open>
  Without context tracing and without recursive locks the lock objects and the transaction stacks
  follow the abstract locks during the whole run: every line does to the locks what its event says
  (\<open>locks_follow\<close>), and no lock event makes the program dereference an iterator past the end or
  pop an empty stack.
\<close>

section \<open>The other operations on the lock manager\<close>

lemma sync_same_heap:
  assumes "sync lm ctx" and "held lm' = held lm" and "m_heap lm' = m_heap lm"
    and "omap_ok (m_activeTXNs lm')"
  shows "sync lm' ctx"
  using assms by (simp add: sync_def txns_ok_def nheld_def lock_at_def)

lemma sync_omap_ok: "sync lm ctx \<Longrightarrow> omap_ok (m_activeTXNs lm)"
  by (simp add: sync_def txns_ok_def)

lemma count_access_sync:
  assumes "sync lm ctx"
  shows "sync (count_access ctx' lm) ctx"
proof (rule sync_same_heap[OF assms])
  show "omap_ok (m_activeTXNs (count_access ctx' lm))"
    using sync_omap_ok[OF assms] by (simp add: count_access_def omap_ok_set_stack split: list.splits)
qed (simp_all add: lm_simps)

lemma deleteLockByArea_sync: "sync lm ctx \<Longrightarrow> sync (deleteLockByArea b sz lm) ctx"
  by (frule sync_omap_ok, erule sync_same_heap) (simp_all add: deleteLockByArea_frame held_def fun_eq_iff)

lemma allocLock_sync:
  assumes sy: "sync lm ctx" and al: "allocLock addr aid type var flags lm = Inr (p, lm')"
  shows "sync lm' ctx"
proof -
  obtain cls n l where i: "initIDs (m_nextLockID lm) (new_RWLock cls addr aid type var flags) = (n, l)"
    and lm': "lm' = lm\<lparr>m_nextLockID := n, m_heap := m_heap lm @ [l],
       m_locks := omap_update addr (length (m_heap lm)) (m_locks lm)\<rparr>"
    using al by (auto simp: allocLock_def Let_def split: option.splits prod.splits if_splits)
  have h: "held lm' = held lm" "m_activeTXNs lm' = m_activeTXNs lm"
    by (simp_all add: lm' held_def txn_stack_def fun_eq_iff)
  have old: "lock_at lm' q = lock_at lm q" if "q < length (m_heap lm)" for q
    using that by (simp add: lm' lock_at_def nth_append)
  have new: "lock_at lm' (length (m_heap lm)) = l" by (simp add: lm' lock_at_def)
  have ok: "\<forall>(q, s) \<in> set (held lm c). q < length (m_heap lm) \<and> has_sub (lock_at lm q) s" for c
    using sy by (simp add: sync_def txns_ok_def)
  have "q < length (m_heap lm') \<and> has_sub (lock_at lm' q) s" if "(q, s) \<in> set (held lm c)" for q s c
  proof -
    have "q < length (m_heap lm)" "has_sub (lock_at lm q) s" using ok[of c] that by auto
    then show ?thesis using old by (simp add: lm')
  qed
  then have "txns_ok lm'" using sync_omap_ok[OF sy] by (auto simp: txns_ok_def h)
  moreover have "nheld lm' ctx (length (m_heap lm)) s = 0" for s
    using ok[of ctx] by (force simp: nheld_def h count_list_0_iff)
  moreover have "lock_sync l 0 0"
    using i by (auto simp: lock_sync_def initIDs_def new_RWLock_def split: lock_class.splits)
  moreover have "nheld lm' = nheld lm" by (simp add: nheld_def h fun_eq_iff)
  ultimately show ?thesis
    using sy old new unfolding sync_def h by (auto simp: lm' less_Suc_eq)
qed

section \<open>Lock events\<close>

definition is_ub :: "cxx_error \<Rightarrow> bool" where
  "is_ub e = (case e of UndefinedBehaviour _ \<Rightarrow> True | _ \<Rightarrow> False)"

definition no_ub :: "'a res \<Rightarrow> bool" where
  "no_ub r = (case r of Inl e \<Rightarrow> \<not> is_ub e | Inr _ \<Rightarrow> True)"

lemma transition_sync:
  assumes sy: "sync lm ctx" and p: "p < length (m_heap lm)" and k: "kernelDir \<noteq> []"
    and f: "flags AND LOCK_FLAGS_RECURSIVE = 0"
  shows "no_ub (transition p lockOP ts file line flags kernelDir ctx lm)"
    and "transition p lockOP ts file line flags kernelDir ctx lm = Inr lm' \<Longrightarrow> sync lm' ctx"
    and "transition p lockOP ts file line flags kernelDir ctx lm = Inr lm' \<Longrightarrow>
      others_kept lm lm' ctx p \<and> lock_shows lm' ctx p (lock_step lockOP (abs_of lm ctx p))"
proof -
  consider "refused (lock_at lm p) lockOP" | "\<not> refused (lock_at lm p) lockOP" by blast
  then have "no_ub (transition p lockOP ts file line flags kernelDir ctx lm) \<and>
      (transition p lockOP ts file line flags kernelDir ctx lm = Inr lm' \<longrightarrow> sync lm' ctx \<and>
        others_kept lm lm' ctx p \<and> lock_shows lm' ctx p (lock_step lockOP (abs_of lm ctx p)))"
  proof cases
    case 1
    from transition_refused[OF this p, of ts "file" line flags kernelDir ctx] show ?thesis
      by (auto simp: no_ub_def is_ub_def)
  next
    case 2
    from transition_keeps_sync[OF sy p k f this, of ts "file" line] obtain lm1 where
      t: "transition p lockOP ts file line flags kernelDir ctx lm = Inr lm1" "sync lm1 ctx"
        "others_kept lm lm1 ctx p" "abs_of lm1 ctx p = lock_step lockOP (abs_of lm ctx p)" by blast
    obtain acts where "lm_path acts lm lm1" using transition_path[OF t(1) p] by blast
    then have "p < length (m_heap lm1)" using lm_path_keeps p by (fastforce simp: keeps_locks_def)
    with sync_shows[OF t(2), of p] t show ?thesis by (auto simp: no_ub_def)
  qed
  then show "no_ub (transition p lockOP ts file line flags kernelDir ctx lm)"
    and "transition p lockOP ts file line flags kernelDir ctx lm = Inr lm' \<Longrightarrow> sync lm' ctx"
    and "transition p lockOP ts file line flags kernelDir ctx lm = Inr lm' \<Longrightarrow>
      others_kept lm lm' ctx p \<and> lock_shows lm' ctx p (lock_step lockOP (abs_of lm ctx p))" by blast+
qed

lemma no_ub_bindE: "no_ub m \<Longrightarrow> (\<And>x. m = Inr x \<Longrightarrow> no_ub (f x)) \<Longrightarrow> no_ub (bindE m f)"
  by (cases m) (auto simp: no_ub_def)

lemma allocLock_no_ub: "no_ub (allocLock addr aid type var flags lm)"
  by (auto simp: allocLock_def no_ub_def is_ub_def Let_def split: option.splits prod.splits)

lemma handlePV_sync:
  assumes sy: "sync (lockManager c) ctx" and ok: "locks_ok (lockManager c)"
    and k: "kernelBaseDir env \<noteq> []" and f: "flags AND LOCK_FLAGS_RECURSIVE = 0"
  shows "no_ub (handlePV env lockOP ts addr file line mem type flags ctx c)"
    and "handlePV env lockOP ts addr file line mem type flags ctx c = Inr c' \<Longrightarrow> sync (lockManager c') ctx"
proof -
  have lt: "p < length (m_heap (lockManager c))" if "findLock (lockManager c) addr = Some p" for p
    using ok that by (simp add: locks_ok_def findLock_def)
  have al: "sync lm ctx \<and> p < length (m_heap lm)"
    if "allocLock addr aid ty var fl (lockManager c) = Inr (p, lm)" for aid ty var fl p lm
    using allocLock_sync[OF sy that] allocLock_frame(1)[OF that] by simp
  show "no_ub (handlePV env lockOP ts addr file line mem type flags ctx c)"
  proof (cases "findLock (lockManager c) addr")
    case (Some p)
    then have "no_ub (bindE (transition p lockOP ts file line flags (kernelBaseDir env) ctx (lockManager c))
        (\<lambda>lm. Inr (c\<lparr>lockManager := lm\<rparr>)))"
      using transition_sync(1)[OF sy lt[OF Some] k f]
      by (intro no_ub_bindE) (simp_all add: no_ub_def)
    then show ?thesis using Some by (simp add: handlePV_def Let_def)
  next
    case None
    have run: "no_ub (bindE (transition p lockOP ts file line flags (kernelBaseDir env) ctx lm) (\<lambda>lm2. Inr (g lm2)))"
      if "sync lm ctx \<and> p < length (m_heap lm)" for p lm and g :: "LockManager \<Rightarrow> conv"
      using that transition_sync(1)[OF _ _ k f] by (intro no_ub_bindE) (simp_all add: no_ub_def)
    have "no_ub (bindE (allocLock addr aid type var flags (lockManager c)) (\<lambda>(p, lm).
        bindE (transition p lockOP ts file line flags (kernelBaseDir env) ctx lm) (\<lambda>lm2. Inr (g p lm lm2))))"
      for aid var and g :: "nat \<Rightarrow> LockManager \<Rightarrow> LockManager \<Rightarrow> conv"
      by (intro no_ub_bindE allocLock_no_ub) (auto intro!: run al)
    then show ?thesis
      using None by (auto simp: handlePV_def Let_def no_ub_def[of "Inr x" for x])
  qed
  assume "handlePV env lockOP ts addr file line mem type flags ctx c = Inr c'"
  then show "sync (lockManager c') ctx"
  proof (cases rule: handlePV_cases)
    case (known p lm)
    then show ?thesis using transition_sync(2)[OF sy lt k f known(2)] by simp
  next
    case (new aid var p lm lm')
    then show ?thesis using transition_sync(2)[OF _ _ k f new(4)] al[OF new(3)] by simp
  next
    case (none ds)
    then show ?thesis using sy by simp
  qed
qed


text \<open>
  What an event does to the locks. A lock event makes one step of the abstract lock at its address,
  or of a free one when the address has no lock yet; all other locks stay as they are. A release of
  an unknown lock and a lock outside of all known memory change nothing.
\<close>

definition free_lock :: abs_lock where
  "free_lock = \<lparr>abs_readers = 0, abs_writer = False, abs_writer_count = 0\<rparr>"

definition locks_kept :: "LockManager \<Rightarrow> LockManager \<Rightarrow> int \<Rightarrow> nat \<Rightarrow> bool" where
  "locks_kept lm lm' ctx n \<longleftrightarrow> length (m_heap lm') = n \<and>
     (\<forall>q < length (m_heap lm). lock_at lm' q = lock_at lm q \<and> (\<forall>s. nheld lm' ctx q s = nheld lm ctx q s))"

definition lock_event :: "conv_env \<Rightarrow> LOCK_OP \<Rightarrow> u64 \<Rightarrow> string \<Rightarrow> int \<Rightarrow> conv \<Rightarrow> LockManager \<Rightarrow> bool" where
  "lock_event env op addr mem ctx c lm' \<longleftrightarrow> (let lm = lockManager c in
     case findLock lm addr of
       Some p \<Rightarrow> length (m_heap lm') = length (m_heap lm) \<and> others_kept lm lm' ctx p \<and>
         lock_shows lm' ctx p (lock_step op (abs_of lm ctx p))
     | None \<Rightarrow>
         if op = V_READ \<or> op = V_WRITE \<or> outside_lock env addr mem c
         then locks_kept lm lm' ctx (length (m_heap lm))
         else locks_kept lm lm' ctx (Suc (length (m_heap lm))) \<and> findLock lm' addr = Some (length (m_heap lm)) \<and>
           lock_shows lm' ctx (length (m_heap lm)) (lock_step op free_lock))"

lemma handlePV_event:
  assumes sy: "sync (lockManager c) ctx" and ok: "locks_ok (lockManager c)"
    and k: "kernelBaseDir env \<noteq> []" and f: "flags AND LOCK_FLAGS_RECURSIVE = 0"
    and ev: "handlePV env lockOP ts addr file line mem type flags ctx c = Inr c'"
  shows "lock_event env lockOP addr mem ctx c (lockManager c')"
proof -
  let ?lm = "lockManager c"
  from ev show ?thesis
  proof (cases rule: handlePV_cases)
    case (known p lm)
    have lt: "p < length (m_heap ?lm)" using ok known(1) by (simp add: locks_ok_def findLock_def)
    obtain acts where "lm_path acts ?lm lm" using transition_path[OF known(2) lt] by blast
    then have "length (m_heap lm) = length (m_heap ?lm)" using lm_path_keeps by (simp add: keeps_locks_def)
    then show ?thesis using transition_sync(3)[OF sy lt k f known(2)] known(1,3) by (simp add: lock_event_def)
  next
    case (new aid var p lm lm')
    have sy1: "sync lm ctx" by (rule allocLock_sync[OF sy new(3)])
    note al = allocLock_frame[OF new(3)]
    have p: "p = length (m_heap ?lm)" "findLock lm addr = Some p" "writer_count (lock_at lm p) = 0"
      using new(3) by (auto simp: allocLock_def Let_def findLock_def omap_simps lock_at_def initIDs_def new_RWLock_def
          split: option.splits prod.splits if_splits lock_class.splits)
    have h: "nheld lm = nheld ?lm" using al(4) by (simp add: nheld_def held_def txn_stack_def fun_eq_iff)
    have "nheld ?lm ctx p s = 0" for s
      using sy p(1) by (force simp: nheld_def count_list_0_iff sync_def txns_ok_def)
    then have free: "abs_of lm ctx p = free_lock" by (simp add: abs_of_def free_lock_def h p(3))
    have old: "lock_at lm q = lock_at ?lm q" if "q < length (m_heap ?lm)" for q
      using al(8) that by (auto simp: lock_at_def nth_append)
    obtain acts where "lm_path acts lm lm'" using transition_path[OF new(4) al(1)] by blast
    then have kp: "length (m_heap lm') = length (m_heap lm)" "m_locks lm' = m_locks lm"
      using lm_path_keeps by (simp_all add: keeps_locks_def)
    note t = transition_sync(3)[OF sy1 al(1) k f new(4)]
    have "locks_kept ?lm lm' ctx (Suc (length (m_heap ?lm)))"
      using t al(8) kp(1) old p(1) by (auto simp: locks_kept_def others_kept_def h)
    moreover have "findLock lm' addr = Some p" using p(2) kp(2) by (simp add: findLock_def)
    ultimately show ?thesis using t[unfolded free] new(1,2,5,6) p(1) by (auto simp: lock_event_def)
  next
    case (none ds)
    then show ?thesis by (auto simp: lock_event_def locks_kept_def)
  qed
qed

section \<open>Lines without exceptions\<close>

definition not_recursive :: "vars \<Rightarrow> bool" where
  "not_recursive v \<longleftrightarrow> (ucast (v_flags v) :: u32) AND LOCK_FLAGS_RECURSIVE = 0"

lemma write_sync:
  assumes "sync (lockManager c) ctx"
  shows "sync (lockManager (writeMemAccesses env a p c)) ctx"
proof -
  have "sync (lockManager (fold (write_access env) as c)) ctx" for "as"
    using assms
    by (induction "as" arbitrary: c) (simp_all add: write_access_def Let_def count_access_sync)
  then show ?thesis using assms by (simp add: writeMemAccesses_def)
qed

lemma handle_alloc_lm:
  assumes "handle_alloc ts ty b sz c = Inr c1"
  shows "lockManager c1 = lockManager c"
proof (cases "omap_lookup (activeAllocs c) b")
  case None
  with assms obtain idx c2 where s: "subclass_for ts ty c = Inr (idx, c2)"
    and "lockManager c1 = lockManager c2"
    by (auto simp: handle_alloc_def bindE_Inr_iff split: option.splits)
  moreover have "lockManager c2 = lockManager c" by (subst subclass_for_frame(1)[OF s]) simp
  ultimately show ?thesis by simp
qed (use assms in \<open>auto simp: handle_alloc_def\<close>)

lemma handle_access_lm:
  assumes "handle_access env a ts addr sz b ip st x c = Inr c1"
  shows "lockManager c1 = lockManager c"
proof -
  have same: "lockManager c2 = lockManager c" if "addStacktrace env ip st c = Inr (i, c2)" for i c2
    using that
  proof (cases rule: addStacktrace_cases)
    case 1
    from arg_cong[OF 1(3), of lockManager] show ?thesis by simp
  next
    case (2 rows)
    from arg_cong[OF 2(4), of lockManager] show ?thesis by simp
  qed
  show ?thesis
  proof (cases "omap_lookup (activeAllocs c) b")
    case None
    then show ?thesis using assms by (auto simp: handle_access_def)
  next
    case (Some al)
    then have "\<not> access_outside addr sz b al" using assms by (auto simp: handle_access_def)
    with Some assms obtain i c2 where a: "addStacktrace env ip st c = Inr (i, c2)" and "lockManager c1 = lockManager c2"
      by (auto simp: handle_access_def bindE_Inr_iff)
    then show ?thesis using same[OF a] by simp
  qed
qed

lemma handle_event_sync:
  assumes sy: "sync (lockManager c) ctx" and ok: "locks_ok (lockManager c)"
    and k: "kernelBaseDir env \<noteq> []" and f: "not_recursive v"
    and ctx: "v_action v = CHR ''l'' \<Longrightarrow> v_ctx v = ctx"
  shows "handle_event env v c = Inr c' \<Longrightarrow> sync (lockManager c') ctx"
    and "v_action v = CHR ''l'' \<Longrightarrow> no_ub (handle_event env v c)"
proof -
  note pv = handlePV_sync[OF sy ok k f[unfolded not_recursive_def]]
  show "v_action v = CHR ''l'' \<Longrightarrow> no_ub (handle_event env v c)"
    using pv(1) ctx by (simp add: handle_event_def)
  assume ev: "handle_event env v c = Inr c'"
  have alloc: "sync (lockManager c1) ctx" if "handle_alloc ts ty b sz c = Inr c1" for ts ty b sz c1
    using sy handle_alloc_lm[OF that] by simp
  have free: "sync (lockManager (handle_free ts b sz c)) ctx" for ts b sz
    using sy by (simp add: handle_free_def deleteLockByArea_sync split: option.splits)
  have acc: "sync (lockManager c1) ctx" if "handle_access env a ts addr sz b ip st x c = Inr c1" for a ts addr sz b ip st x c1
    using sy handle_access_lm[OF that] by simp
  consider "v_action v = CHR ''a''" | "v_action v = CHR ''f''" | "v_action v = CHR ''l''"
    | "v_action v = CHR ''r'' \<or> v_action v = CHR ''w''"
    | "v_action v \<noteq> CHR ''a''" "v_action v \<noteq> CHR ''f''" "v_action v \<noteq> CHR ''l''"
      "v_action v \<noteq> CHR ''r''" "v_action v \<noteq> CHR ''w''" by blast
  then show "sync (lockManager c') ctx"
  proof cases
    case 1
    then show ?thesis using ev by (intro alloc) (simp add: handle_event_def)
  next
    case 2
    then show ?thesis using ev free by (auto simp: handle_event_def)
  next
    case 3
    then show ?thesis using ev ctx by (intro pv(2)) (simp add: handle_event_def)
  next
    case 4
    then have "handle_access env (v_action v) (v_ts v) (v_address v) (v_size v) (v_baseAddress v)
        (v_instrPtr v) (v_stacktrace v) (v_ctx v) c = Inr c'"
      using ev by (auto simp: handle_event_def)
    then show ?thesis by (rule acc)
  next
    case 5
    then show ?thesis using ev sy by (auto simp: handle_event_def)
  qed
qed

text \<open>What an event does to the locks, whatever its kind.\<close>

definition locks_follow :: "conv_env \<Rightarrow> vars \<Rightarrow> conv \<Rightarrow> conv \<Rightarrow> bool" where
  "locks_follow env v c c' \<longleftrightarrow>
     (if v_action v = CHR ''l'' \<and> (processSeqlock env \<or> \<not> is_seqlock (v_lockType v))
      then lock_event env (v_lockOP v) (v_address v) (v_lockMember v) DUMMY_EXECUTION_CONTEXT c (lockManager c')
      else locks_kept (lockManager c) (lockManager c') DUMMY_EXECUTION_CONTEXT (length (m_heap (lockManager c))))"

lemma write_same_locks:
  fixes env a p c
  defines "c' \<equiv> writeMemAccesses env a p c"
  shows "m_heap (lockManager c') = m_heap (lockManager c)" and "m_locks (lockManager c') = m_locks (lockManager c)"
    and "held (lockManager c') = held (lockManager c)" and "activeAllocs c' = activeAllocs c"
proof -
  have "m_heap (lockManager (fold (write_access env) as c)) = m_heap (lockManager c) \<and>
    m_locks (lockManager (fold (write_access env) as c)) = m_locks (lockManager c) \<and>
    held (lockManager (fold (write_access env) as c)) = held (lockManager c) \<and>
    activeAllocs (fold (write_access env) as c) = activeAllocs c" for "as"
    by (induction "as" arbitrary: c) (simp_all add: write_access_def Let_def lm_simps)
  then show "m_heap (lockManager c') = m_heap (lockManager c)" "m_locks (lockManager c') = m_locks (lockManager c)"
    "held (lockManager c') = held (lockManager c)" "activeAllocs c' = activeAllocs c"
    by (simp_all add: c'_def writeMemAccesses_def)
qed

lemma lock_event_cong:
  assumes "m_heap (lockManager c') = m_heap (lockManager c)" "m_locks (lockManager c') = m_locks (lockManager c)"
    "held (lockManager c') = held (lockManager c)" "activeAllocs c' = activeAllocs c"
  shows "lock_event env op addr mem ctx c' lm = lock_event env op addr mem ctx c lm"
proof -
  have "nheld (lockManager c') = nheld (lockManager c)" "lock_at (lockManager c') = lock_at (lockManager c)"
    using assms by (simp_all add: nheld_def lock_at_def fun_eq_iff)
  with assms have "abs_of (lockManager c') = abs_of (lockManager c)" "others_kept (lockManager c') = others_kept (lockManager c)"
    "locks_kept (lockManager c') = locks_kept (lockManager c)" "findLock (lockManager c') = findLock (lockManager c)"
    "outside_lock env addr mem c' = outside_lock env addr mem c"
    by (simp_all add: locks_kept_def others_kept_def abs_of_def findLock_def outside_lock_def embedding_alloc_id_def fun_eq_iff)
  with assms show ?thesis by (simp add: lock_event_def Let_def cong: option.case_cong)
qed

lemma event_step_follow:
  assumes sy: "sync (lockManager c) DUMMY_EXECUTION_CONTEXT" and inv: "conv_inv k c" and n: "k < 2 ^ 31"
    and k: "kernelBaseDir env \<noteq> []" and f: "not_recursive v"
    and ctx: "v_action v = CHR ''l'' \<Longrightarrow> v_ctx v = DUMMY_EXECUTION_CONTEXT"
    and ev: "event_step env v c = Inr c'"
  shows "locks_follow env v c c'"
proof -
  let ?c = "writeMemAccesses env (v_action v) (v_address v) c"
  have ok: "locks_ok (lockManager ?c)"
    using writeMemAccesses_inv[OF inv n, of env "v_action v" "v_address v"]
    by (simp add: conv_inv_def lock_inv_def lock_base_def lm_ok_def)
  note same = write_same_locks[of env "v_action v" "v_address v" c]
  show ?thesis
  proof (cases "v_action v = CHR ''l'' \<and> (processSeqlock env \<or> \<not> is_seqlock (v_lockType v))")
    case True
    then have "handlePV env (v_lockOP v) (v_ts v) (v_address v) (v_file v) (v_line v) (v_lockMember v)
        (v_lockType v) (ucast (v_flags v)) DUMMY_EXECUTION_CONTEXT ?c = Inr c'"
      using ev ctx by (auto simp: event_step_def handle_event_def)
    from handlePV_event[OF write_sync[OF sy] ok k f[unfolded not_recursive_def] this] True
    show ?thesis unfolding locks_follow_def lock_event_cong[OF same] by simp
  next
    case False
    have "m_heap (lockManager c') = m_heap (lockManager c) \<and> held (lockManager c') = held (lockManager c)"
      using ev False same
      by (auto simp: event_step_def handle_event_def handle_free_def deleteLockByArea_frame held_def fun_eq_iff
          dest!: handle_alloc_lm handle_access_lm split: if_splits option.splits)
    then show ?thesis unfolding locks_follow_def if_not_P[OF False]
      by (simp add: locks_kept_def others_kept_def nheld_def lock_at_def)
  qed
qed

definition parsed_event :: "conv_env \<Rightarrow> string \<Rightarrow> vars \<Rightarrow> vars \<times> parse_end" where
  "parsed_event env l v = (case stoull 10 (hd (split_fields (delimiter env) l)) of
     Inl _ \<Rightarrow> (v, Thrown) | Inr ts \<Rightarrow> parse_event env (split_fields (delimiter env) l) (reset_vars ts v))"

text \<open>
  A line is plain when its columns parse without an exception and its flags, if it is a lock
  event, do not say that the lock is recursive.
\<close>

definition plain_line :: "conv_env \<Rightarrow> vars \<Rightarrow> string \<Rightarrow> bool" where
  "plain_line env v l \<longleftrightarrow> (let (v', pe) = parsed_event env l v in pe \<noteq> Thrown \<and> not_recursive v')"

fun plain_trace :: "conv_env \<Rightarrow> vars \<Rightarrow> string list \<Rightarrow> bool" where
  "plain_trace env v [] = True"
| "plain_trace env v (l # ls) \<longleftrightarrow> plain_line env v l \<and> plain_trace env (fst (parsed_event env l v)) ls"

lemma and_then_Parsed: "and_then p q v = (v', Parsed) \<longleftrightarrow> (\<exists>v1. p v = (v1, Parsed) \<and> q v1 = (v', Parsed))"
  by (auto simp: and_then_def split: prod.splits parse_end.splits)

lemma assign_Parsed: "assign r upd v = (v', Parsed) \<longleftrightarrow> (\<exists>x. r = Inr x \<and> v' = upd x v)"
  by (auto simp: assign_def split: sum.splits)

lemma parse_event_ctx:
  assumes "parse_event env el v = (v', Parsed)" and "\<not> ctxTracing env" and "v_action v' = CHR ''l''"
  shows "v_ctx v' = DUMMY_EXECUTION_CONTEXT"
  using assms
  by (auto simp: parse_event_def Let_def and_then_Parsed assign_Parsed parse_lock_op_def
      split: list.splits if_splits sum.splits option.splits simp del: lock_op_of_int.simps)

lemma parsing_no_ub:
  "no_ub (stoull b s)" "no_ub (Inl (OutOfRange m))" "no_ub (Inl (ExitFailure n))"
  by (auto simp: no_ub_def is_ub_def stoull_def split: option.splits)

lemma stack_rows_no_ub: "no_ub (stack_rows env sid s toks)"
  by (induction toks arbitrary: s) (auto simp: Let_def no_ub_def[of "Inr x" for x] intro!: no_ub_bindE parsing_no_ub)

lemma handle_access_no_ub: "no_ub (handle_access env a ts addr sz b ip st ctx c)"
  by (auto simp: handle_access_def addStacktrace_def Let_def no_ub_def[of "Inr x" for x]
      intro!: no_ub_bindE parsing_no_ub stack_rows_no_ub split: option.splits)

lemma handle_alloc_no_ub: "no_ub (handle_alloc ts ty b sz c)"
  by (auto simp: handle_alloc_def subclass_for_def Let_def no_ub_def[of "Inr x" for x]
      intro!: no_ub_bindE parsing_no_ub split: option.splits prod.splits)

lemma handle_event_no_ub:
  "(v_action v = CHR ''l'' \<Longrightarrow> no_ub (handle_event env v c)) \<Longrightarrow> no_ub (handle_event env v c)"
  using handle_access_no_ub handle_alloc_no_ub
  by (auto simp: handle_event_def no_ub_def[of "Inr x" for x] split: if_splits)

section \<open>The whole run\<close>

lemma event_step_sync:
  assumes sy: "sync (lockManager c) DUMMY_EXECUTION_CONTEXT" and inv: "conv_inv k c" and n: "k < 2 ^ 31"
    and k: "kernelBaseDir env \<noteq> []" and f: "not_recursive v"
    and ctx: "v_action v = CHR ''l'' \<Longrightarrow> v_ctx v = DUMMY_EXECUTION_CONTEXT"
  shows "no_ub (event_step env v c)"
    and "event_step env v c = Inr c' \<Longrightarrow> sync (lockManager c') DUMMY_EXECUTION_CONTEXT"
proof -
  let ?c = "writeMemAccesses env (v_action v) (v_address v) c"
  have "locks_ok (lockManager ?c)"
    using writeMemAccesses_inv[OF inv n, of env "v_action v" "v_address v"]
    by (simp add: conv_inv_def lock_inv_def lock_base_def lm_ok_def)
  note ev = handle_event_sync[OF write_sync[OF sy] this k f ctx]
  show "no_ub (event_step env v c)"
    using handle_event_no_ub[OF ev(2)] by (simp add: event_step_def no_ub_def)
  show "event_step env v c = Inr c' \<Longrightarrow> sync (lockManager c') DUMMY_EXECUTION_CONTEXT"
    using ev(1) sy by (simp add: event_step_def split: if_splits)
qed

lemma process_line_sync:
  assumes sy: "sync (lockManager c) DUMMY_EXECUTION_CONTEXT" and inv: "conv_inv k c" and n: "k < 2 ^ 31"
    and k: "kernelBaseDir env \<noteq> []" and ct: "\<not> ctxTracing env" and pl: "plain_line env v l"
  shows "no_ub (process_line env l (v, c))"
    and "process_line env l (v, c) = Inr (v', c') \<Longrightarrow>
      sync (lockManager c') DUMMY_EXECUTION_CONTEXT \<and> v' = fst (parsed_event env l v) \<and> locks_follow env v' c c'"
proof -
  let ?el = "split_fields (delimiter env) l"
  have "no_ub (process_line env l (v, c)) \<and> (process_line env l (v, c) = Inr (v', c') \<longrightarrow>
      sync (lockManager c') DUMMY_EXECUTION_CONTEXT \<and> v' = fst (parsed_event env l v) \<and> locks_follow env v' c c')"
  proof (cases "\<exists>e0 rest ts. ?el = e0 # rest \<and> stoull 10 e0 = Inr ts \<and> length ?el = MAX_COLUMNS")
    case False
    have "\<exists>e. process_line env l (v, c) = Inl e \<and> \<not> is_ub e"
    proof (cases ?el)
      case Nil
      then show ?thesis by (simp add: process_line_def is_ub_def)
    next
      case (Cons e0 rest)
      show ?thesis
      proof (cases "stoull 10 e0")
        case (Inl e)
        then have "\<not> is_ub e" using parsing_no_ub(1)[of 10 e0] by (simp add: no_ub_def)
        then show ?thesis using Cons Inl by (simp add: process_line_def)
      next
        case (Inr ts)
        then have "length ?el \<noteq> MAX_COLUMNS" using False Cons by blast
        then show ?thesis using Cons Inr by (simp add: process_line_def is_ub_def)
      qed
    qed
    then show ?thesis by (auto simp: no_ub_def)
  next
    case True
    then obtain e0 rest ts where el: "?el = e0 # rest" "stoull 10 e0 = Inr ts" "length ?el = MAX_COLUMNS" by blast
    obtain v1 pe where pe: "parse_event env ?el (reset_vars ts v) = (v1, pe)" by fastforce
    have pd: "parsed_event env l v = (v1, pe)" using el pe by (simp add: parsed_event_def)
    with pl have pe2: "pe = Parsed \<or> pe = Refused" and even: "not_recursive v1"
      by (cases pe; simp add: plain_line_def)+
    show ?thesis
    proof (cases "pe = Refused")
      case True
      then show ?thesis using el pe by (simp add: process_line_def no_ub_def is_ub_def Let_def)
    next
      case False
      with pe2 have "pe = Parsed" by simp
      with parse_event_ctx[OF _ ct] pe have "v_action v1 = CHR ''l'' \<Longrightarrow> v_ctx v1 = DUMMY_EXECUTION_CONTEXT" by blast
      note ev = event_step_sync[OF sy inv n k even this]
      have pl: "process_line env l (v, c) = bindE (event_step env v1 c) (\<lambda>c'. Inr (v1, c'))"
        using el pe \<open>pe = Parsed\<close> by (simp add: process_line_def Let_def)
      have "no_ub (bindE (event_step env v1 c) (\<lambda>c'. Inr (v1, c')))"
        using ev(1) by (intro no_ub_bindE) (simp_all add: no_ub_def)
      then show ?thesis
        using ev(2) event_step_follow[OF sy inv n k even] \<open>v_action v1 = CHR ''l'' \<Longrightarrow> v_ctx v1 = DUMMY_EXECUTION_CONTEXT\<close>
        by (auto simp: pl pd bindE_Inr_iff)
    qed
  qed
  then show "no_ub (process_line env l (v, c))"
    and "process_line env l (v, c) = Inr (v', c') \<Longrightarrow>
      sync (lockManager c') DUMMY_EXECUTION_CONTEXT \<and> v' = fst (parsed_event env l v) \<and> locks_follow env v' c c'" by blast+
qed

lemma process_lines_sync:
  assumes k: "kernelBaseDir env \<noteq> []" and ct: "\<not> ctxTracing env"
  shows "plain_trace env v ls \<Longrightarrow> sync (lockManager c) DUMMY_EXECUTION_CONTEXT \<Longrightarrow> conv_inv n c \<Longrightarrow>
    n + length ls < 2 ^ 31 \<Longrightarrow> no_ub (process_lines env ls (v, c)) \<and>
    (\<forall>v' c'. process_lines env ls (v, c) = Inr (v', c') \<longrightarrow> sync (lockManager c') DUMMY_EXECUTION_CONTEXT)"
proof (induction ls arbitrary: v c n)
  case Nil
  then show ?case by (simp add: no_ub_def)
next
  case (Cons l ls)
  have n: "n < 2 ^ 31" and pl: "plain_line env v l" using Cons.prems by simp_all
  note line = process_line_sync[OF Cons.prems(2,3) n k ct pl]
  have step: "no_ub (process_lines env ls (v1, c1)) \<and>
      (\<forall>v' c'. process_lines env ls (v1, c1) = Inr (v', c') \<longrightarrow> sync (lockManager c') DUMMY_EXECUTION_CONTEXT)"
    if "process_line env l (v, c) = Inr (v1, c1)" for v1 c1
    using line(2)[OF that] Cons.prems process_line_inv[OF Cons.prems(3) n that]
    by (intro Cons.IH[of v1 c1 "n + 1"]) auto
  have "no_ub (process_lines env (l # ls) (v, c))"
    unfolding process_lines.simps by (rule no_ub_bindE[OF line(1)]) (use step in \<open>auto split: prod.splits\<close>)
  then show ?case using step by (auto simp: bindE_Inr_iff)
qed

lemma process_lines_follow:
  assumes k: "kernelBaseDir env \<noteq> []" and ct: "\<not> ctxTracing env"
  shows "plain_trace env v (ls1 @ l # ls2) \<Longrightarrow> sync (lockManager c) DUMMY_EXECUTION_CONTEXT \<Longrightarrow> conv_inv n c \<Longrightarrow>
    n + length ls1 < 2 ^ 31 \<Longrightarrow> process_lines env ls1 (v, c) = Inr (v1, c1) \<Longrightarrow>
    process_line env l (v1, c1) = Inr (v2, c2) \<Longrightarrow> locks_follow env v2 c1 c2"
proof (induction ls1 arbitrary: v c n)
  case Nil
  then show ?case using process_line_sync(2)[OF Nil(2,3) _ k ct] by auto
next
  case (Cons l1 ls1)
  then obtain v0 c0 where 0: "process_line env l1 (v, c) = Inr (v0, c0)" and 1: "process_lines env ls1 (v0, c0) = Inr (v1, c1)"
    by (auto simp: bindE_Inr_iff)
  have n: "n < 2 ^ 31" using Cons.prems by simp
  have "sync (lockManager c0) DUMMY_EXECUTION_CONTEXT" "v0 = fst (parsed_event env l1 v)"
    using process_line_sync(2)[OF Cons.prems(2,3) n k ct _ 0] Cons.prems(1) by auto
  moreover have "conv_inv (n + 1) c0" using process_line_inv[OF Cons.prems(3) n 0] .
  ultimately show ?case using Cons.IH[OF _ _ _ _ 1 Cons.prems(6)] Cons.prems(1,4) by auto
qed

end
