(* ===== verification/Lock_Properties.thy ===== *)
theory Lock_Properties
  imports Convert_Sync "HOL-Library.Code_Target_Nat"
begin

text \<open>
  Properties of the lock manager and of the lock operations, each stated over the model's own
  definitions, with the example states they are tried on.
\<close>

section \<open>An example state\<close>

text \<open>A held mutex and, above it, the read side of a reader-writer lock with one memory access.\<close>

definition example_mutex :: rwlock where
  "example_mutex = \<lparr>lk_class = WLock, read_id = -1, write_id = 1, lockAddress = 0x10, lk_flags = 0,
     reader_count = 0, writer_count = 1, allocation_id = 1, lockType = ''mutex'', lockVarName = [],
     lastNPos = [\<lparr>subLock = WRITER_LOCK, lp_start = 5, lastLine = 3, lastFile = ''f.c''\<rparr>]\<rparr>"

definition example_rwlock :: rwlock where
  "example_rwlock = \<lparr>lk_class = RWLock, read_id = 2, write_id = 3, lockAddress = 0x20, lk_flags = 0,
     reader_count = 1, writer_count = 0, allocation_id = 1, lockType = ''rwlock_t'', lockVarName = [],
     lastNPos = [\<lparr>subLock = READER_LOCK, lp_start = 7, lastLine = 9, lastFile = ''g.c''\<rparr>]\<rparr>"

definition example_lm :: LockManager where
  "example_lm = \<lparr>m_activeTXNs = [(0, [
       \<lparr>txn_id = 2, start_ts = 7, start_ctx = 0, memAccessCounter = 1, txn_lock = 1, txn_sub = READER_LOCK\<rparr>,
       \<lparr>txn_id = 1, start_ts = 5, start_ctx = 0, memAccessCounter = 0, txn_lock = 0, txn_sub = WRITER_LOCK\<rparr>])],
     m_nextTXNID = 3, m_nextLockID = 4, m_locks = [(0x10, 0), (0x20, 1)],
     m_heap = [example_mutex, example_rwlock], m_txnsOFile = [], m_locksHeldOFile = [], m_cerr = []\<rparr>"

lemma example_stack: "txn_stack example_lm ctx = (if ctx = 0 then
    [\<lparr>txn_id = 2, start_ts = 7, start_ctx = 0, memAccessCounter = 1, txn_lock = 1, txn_sub = READER_LOCK\<rparr>,
     \<lparr>txn_id = 1, start_ts = 5, start_ctx = 0, memAccessCounter = 0, txn_lock = 0, txn_sub = WRITER_LOCK\<rparr>] else [])"
  by (simp add: example_lm_def txn_stack_def)

lemma example_held: "held example_lm ctx = (if ctx = 0 then [(1, READER_LOCK), (0, WRITER_LOCK)] else [])"
  by (simp add: held_def example_stack txn_key_def)

lemma example_lock_at: "lock_at example_lm 0 = example_mutex" "lock_at example_lm 1 = example_rwlock"
  "lock_at example_lm (Suc 0) = example_rwlock" "length (m_heap example_lm) = 2"
  by (simp_all add: example_lm_def lock_at_def)

lemma example_heap: "m_heap example_lm = [example_mutex, example_rwlock]"
  by (simp add: example_lm_def)

lemma example_txns_ok: "txns_ok example_lm"
  by (auto simp: txns_ok_def example_held example_lock_at has_sub_def example_mutex_def example_rwlock_def)
    (simp add: example_lm_def omap_ok_Cons)

lemma example_lm_ok: "lm_ok example_lm"
proof -
  have "locks_ok example_lm"
    by (auto simp: locks_ok_def example_lock_at example_mutex_def example_rwlock_def example_lm_def
        omap_ok_Cons lock_at_def split: if_splits)
  moreover have "lock_ids_ok example_lm"
    by (simp add: lock_ids_ok_def example_lm_def sub_ids_def example_mutex_def example_rwlock_def)
  moreover have "ids_inv example_lm (mset (active_ids example_lm))"
    by (simp add: ids_inv_def active_ids_def example_lm_def uniq_def)
  ultimately show ?thesis using example_txns_ok by (simp add: lm_ok_def)
qed

lemma example_sync: "sync example_lm 0"
  using example_txns_ok
  by (auto simp: sync_def example_held example_lock_at lock_sync_def nheld_def example_mutex_def
      example_rwlock_def less_2_cases_iff)


section \<open>Transactions\<close>



text \<open>
  C23: a transaction that is started and then finished leaves every context holding what it held
  before, whatever else the manager contains.
\<close>

theorem start_finish_roundtrip:
  assumes "finishTXN p ts' sub False ctx ctxOld (startTXN p ts sub ctx lm) = Inr (found, lm')"
  shows "found \<and> held lm' = held lm"
  using lmgr.finish_after_start[OF assms] by simp

theorem start_finish_roundtrip_witness:
  "\<exists>found lm'. finishTXN 1 8 WRITER_LOCK False 0 0 (startTXN 1 7 WRITER_LOCK 0 example_lm) = Inr (found, lm') \<and>
     found \<and> held lm' = held example_lm"
proof -
  let ?lm = "startTXN 1 7 WRITER_LOCK 0 example_lm"
  have p: "1 < length (m_heap example_lm)" "has_sub (lock_at example_lm 1) WRITER_LOCK"
    by (simp_all add: example_lock_at has_sub_def example_rwlock_def)
  then have "txns_ok ?lm" by (rule startTXN_txns_ok[OF example_txns_ok])
  moreover have "has_sub (lock_at ?lm 1) WRITER_LOCK" using p(2) by (simp add: startTXN_def lm_simps)
  ultimately obtain found lm' where "finishTXN 1 8 WRITER_LOCK False 0 0 ?lm = Inr (found, lm')"
    using finishTXN_total[of ?lm 1 WRITER_LOCK False 0 8 0] by blast
  then show ?thesis using start_finish_roundtrip by blast
qed

text \<open>
  C16: at the end of the trace the flush loop of every context ends, all transactions are closed,
  and the tables and locks are still well-formed.
\<close>

theorem closeAllTXNs_terminates:
  assumes "lm_ok lm"
  shows "\<exists>lm'. closeAllTXNs ts lm = Some (Inr lm') \<and> (\<forall>ctx. \<not> hasActiveTXN lm' ctx) \<and>
    same_locks lm lm' \<and> lm_ok lm'"
  using closeAllTXNs_closes[OF assms] .

theorem closeAllTXNs_terminates_witness:
  "\<exists>lm'. closeAllTXNs 11 example_lm = Some (Inr lm') \<and> (\<forall>ctx. \<not> hasActiveTXN lm' ctx) \<and>
     same_locks example_lm lm' \<and> lm_ok lm'"
  using closeAllTXNs_terminates[OF example_lm_ok] .

lemma locks_held_rows_sound:
  "locks_held_rows heap tid ts seen = Inr (rows, ds) \<Longrightarrow> r \<in> set rows \<Longrightarrow>
     \<exists>t \<in> set ts. isHeld (heap ! txn_lock t) \<and> lastNPos (heap ! txn_lock t) \<noteq> [] \<and>
       getID (heap ! txn_lock t) (txn_sub t) = Inr (hr_lock_id r)"
proof (induction ts arbitrary: seen rows ds)
  case (Cons t rest)
  from Cons.prems Cons.IH show ?case
    by (fastforce simp: Let_def bindE_Inr_iff split: if_splits list.splits)
qed simp

text \<open>
  C22: the rows of \<^verbatim>\<open>locks_held.csv\<close> for one transaction name exactly the sub locks of the
  stack that are held and have a recorded position, each of them once, all under the id of the
  transaction.
\<close>

theorem locks_held_rows_exact:
  assumes "locks_held_rows heap tid ts [] = Inr (rows, ds)"
  shows "distinct (map hr_lock_id rows) \<and> (\<forall>r \<in> set rows. hr_txn_id r = tid) \<and>
    hr_lock_id ` set rows = {i. \<exists>t \<in> set ts. isHeld (heap ! txn_lock t) \<and>
      lastNPos (heap ! txn_lock t) \<noteq> [] \<and> getID (heap ! txn_lock t) (txn_sub t) = Inr i}"
  using locks_held_rows_keys[OF assms] locks_held_rows_sound[OF assms] locks_held_rows_complete[OF assms]
  by fastforce

theorem locks_held_rows_exact_witness:
  "\<exists>rows ds. locks_held_rows (m_heap example_lm) 2 (rev (txn_stack example_lm 0)) [] = Inr (rows, ds) \<and>
     distinct (map hr_lock_id rows) \<and> hr_lock_id ` set rows = {1, 2}"
proof -
  have "\<forall>t \<in> set (rev (txn_stack example_lm 0)). has_sub (m_heap example_lm ! txn_lock t) (txn_sub t)"
    by (simp add: example_stack example_heap has_sub_def example_mutex_def example_rwlock_def)
  then obtain rows ds where r: "locks_held_rows (m_heap example_lm) 2 (rev (txn_stack example_lm 0)) [] = Inr (rows, ds)"
    using locks_held_rows_total by blast
  have "{i. \<exists>t \<in> set (rev (txn_stack example_lm 0)). isHeld (m_heap example_lm ! txn_lock t) \<and>
      lastNPos (m_heap example_lm ! txn_lock t) \<noteq> [] \<and>
      getID (m_heap example_lm ! txn_lock t) (txn_sub t) = Inr i} = {1, 2}"
    by (auto simp: example_stack example_heap example_mutex_def example_rwlock_def isHeld_def getID_def)
  with locks_held_rows_exact[OF r] r show ?thesis by simp
qed

section \<open>Lock operations\<close>

text \<open>
  C15: every lock operation that returns, on any number of contexts and on recursive locks as well,
  keeps the manager well-formed: transaction ids stay unique over the open transactions and the
  rows already written, the rows of \<^verbatim>\<open>locks_held.csv\<close> stay unique and refer to recorded
  transactions, lock ids stay unique, and no lock object changes its class or address. The
  hypothesis on the counter says that it does not wrap.
\<close>

theorem transition_keeps_tables:
  assumes "lm_ok lm" and "this < length (m_heap lm)"
    and "unat (m_nextTXNID lm) + n_active lm + 2 < 2 ^ 64"
    and "transition this lockOP ts file line flags kernelDir ctx lm = Inr lm'"
  shows "lm_ok lm' \<and> keeps_locks lm lm' \<and> n_active lm' \<le> n_active lm + 1"
  using transition_lm_ok[OF assms(1,4,2,3)] by blast

theorem transition_keeps_tables_witness:
  "\<exists>lm'. transition 1 P_READ 9 ''/k/h.c'' 4 0 ''/k'' 7 example_lm = Inr lm' \<and> lm_ok lm' \<and>
     n_active lm' \<le> 3"
proof -
  obtain lm' where tr: "transition 1 P_READ 9 ''/k/h.c'' 4 0 ''/k'' 7 example_lm = Inr lm'"
    by (simp add: transition_def readTransition_def example_lock_at example_rwlock_def lm_simps
        updateFlags_def acquire_def strip_kernel_dir_def Let_def)
  have n: "n_active example_lm = 2" by (simp add: n_active_def active_ids_def example_lm_def)
  have "unat (m_nextTXNID example_lm) + n_active example_lm + 2 < 2 ^ 64"
    unfolding n by (simp add: example_lm_def)
  from transition_keeps_tables[OF example_lm_ok _ this tr] tr n show ?thesis
    by (simp add: example_lock_at)
qed

lemma transition_shows:
  assumes "sync lm ctx" and lt: "this < length (m_heap lm)" and "kernelDir \<noteq> []"
    and "flags AND LOCK_FLAGS_RECURSIVE = 0" and "\<not> refused (lock_at lm this) op"
  shows "\<exists>lm'. transition this op ts file line flags kernelDir ctx lm = Inr lm' \<and> sync lm' ctx \<and>
    lock_shows lm' ctx this (lock_step op (abs_of lm ctx this)) \<and> others_kept lm lm' ctx this"
proof -
  from transition_keeps_sync[OF assms, of ts "file" line] obtain lm' where
    t: "transition this op ts file line flags kernelDir ctx lm = Inr lm'" "sync lm' ctx"
      "others_kept lm lm' ctx this" "abs_of lm' ctx this = lock_step op (abs_of lm ctx this)" by blast
  obtain acts where "lm_path acts lm lm'" using transition_path[OF t(1) lt] by blast
  then have "this < length (m_heap lm')" using lm_path_keeps lt by (fastforce simp: keeps_locks_def)
  with sync_shows[OF t(2), of this] t show ?thesis by auto
qed

text \<open>
  C10: with one context and a lock that is not recursive, an operation the lock object accepts
  always returns (no exception, no undefined behaviour), makes exactly one step of the abstract lock
  \<^const>\<open>lock_step\<close>, and leaves every other lock and its transactions alone. The lock object and the
  stack show the new abstract lock: the reader count is the number of open read transactions, at
  most one write transaction is open, never both sides at once, and there is one recorded position
  per open transaction. The writer count is stated exactly and is not the number of open write
  transactions: acquiring a lock that is held for writing adds one although the transaction that was
  open is closed, a release takes one off, and acquiring for reading resets the count only if a
  write transaction is open; so the count can stay positive when none is left.
\<close>

theorem transition_in_step:
  assumes "sync lm ctx" and "this < length (m_heap lm)" and "kernelDir \<noteq> []"
    and "flags AND LOCK_FLAGS_RECURSIVE = 0" and "\<not> refused (lock_at lm this) op"
  shows "\<exists>lm'. transition this op ts file line flags kernelDir ctx lm = Inr lm' \<and> sync lm' ctx \<and>
    lock_shows lm' ctx this (lock_step op (abs_of lm ctx this)) \<and> others_kept lm lm' ctx this"
  using transition_shows[OF assms] .

theorem transition_in_step_witness:
  "\<exists>lm'. transition 0 V_WRITE 9 ''/k/h.c'' 4 0 ''/k'' 0 example_lm = Inr lm' \<and> sync lm' 0 \<and>
     lock_shows lm' 0 0 \<lparr>abs_readers = 0, abs_writer = False, abs_writer_count = 0\<rparr>"
proof -
  have "abs_of example_lm 0 0 = \<lparr>abs_readers = 0, abs_writer = True, abs_writer_count = 1\<rparr>"
    by (simp add: abs_of_def nheld_def example_held example_lock_at example_mutex_def)
  then show ?thesis
    using transition_in_step[OF example_sync, of 0 "''/k''" 0 V_WRITE 9 "''/k/h.c''" 4]
    by (auto simp: example_lock_at refused_def op_side_def has_sub_def is_P_def example_mutex_def)
qed

text \<open>
  C32: an operation on a side the lock object does not have, and an acquisition of a lock whose
  two sides are both counted as held, is refused with \<^verbatim>\<open>std::logic_error\<close>.
\<close>

theorem transition_refuses:
  assumes "refused (lock_at lm this) op" and "this < length (m_heap lm)"
  shows "\<exists>m. transition this op ts file line flags kernelDir ctx lm = Inl (LogicError m)"
  using transition_refused[OF assms] .

theorem transition_refuses_witness:
  "\<exists>m. transition 0 P_READ 9 ''/k/h.c'' 4 0 ''/k'' 0 example_lm = Inl (LogicError m)"
  using transition_refuses[of example_lm 0 P_READ 9 "''/k/h.c''" 4 0 "''/k''" 0]
  by (simp add: example_lock_at refused_def op_side_def has_sub_def example_mutex_def)

definition run_ops :: "(LOCK_OP \<times> u32) list \<Rightarrow> LockManager \<Rightarrow> LockManager res" where
  "run_ops ops lm = foldl (\<lambda>r (op, flags). bindE r (transition 0 op 1 ''/k/f.c'' 1 flags ''/k/'' 0)) (Inr lm) ops"

definition one_lock :: "string \<Rightarrow> LockManager res" where
  "one_lock type = bindE (allocLock 0x10 1 type None 0 new_LockManager) (\<lambda>(_, lm). Inr lm)"

abbreviation past_end :: cxx_error where
  "past_end \<equiv> UndefinedBehaviour ''dereferenced end iterator''"

lemma flush_readers_end:
  assumes "\<forall>u \<in> set ts. has_sub (heap ! txn_lock u) (txn_sub u)"
  shows "if ts \<noteq> [] \<and> txn_key (last ts) = (p, WRITER_LOCK) then flush_readers heap p ts = Inl past_end
    else \<exists>r. flush_readers heap p ts = Inr r"
  using assms
proof (induction ts)
  case (Cons t ts)
  show ?case
  proof (cases ts)
    case Nil
    then show ?thesis by (cases "txn_sub t") (auto simp: txn_key_def)
  next
    case (Cons t' us)
    then obtain i where "getID (heap ! txn_lock t') (txn_sub t') = Inr i"
      using Cons.prems has_sub_getIDE by (metis list.set_intros)
    then show ?thesis using Cons.IH Cons.prems Cons
      by (cases "txn_sub t"; cases "txn_sub t'") (auto simp: txn_key_def)
  qed
qed simp

lemma finishTXN_loop_end:
  "\<forall>u \<in> set stk. txn_ok lm u \<Longrightarrow> map txn_key stk = upper @ (p, sub) # below \<Longrightarrow> (p, sub) \<notin> set upper \<Longrightarrow>
     if below \<noteq> [] \<and> hd below = (p, WRITER_LOCK) then finishTXN_loop p ts sub True ctx ctxOld stk rs lm = Inl past_end
     else \<exists>r. finishTXN_loop p ts sub True ctx ctxOld stk rs lm = Inr r"
proof (induction stk arbitrary: upper rs lm)
  case (Cons t stk)
  obtain lm1 where 1: "(if \<not> SKIP_EMPTY_TXNS \<or> memAccessCounter t > 0
      then record_txn ts ctxOld t stk lm else Inr lm) = Inr lm1"
    using record_txn_total[OF Cons.prems(1), of ts ctxOld] by fastforce
  then have sl: "same_locks lm lm1" by (auto dest: record_txn_frame split: if_splits)
  show ?case
  proof (cases upper)
    case Nil
    then have key: "txn_is p sub t" "map txn_key stk = below" using Cons.prems(2) by (simp_all add: txn_is_key)
    have "\<forall>u \<in> set (rev stk). has_sub (m_heap lm1 ! txn_lock u) (txn_sub u)"
      using Cons.prems(1) sl by (simp add: txn_ok_def same_locks_def lock_at_def)
    note fl = flush_readers_end[OF this, of p]
    have "below \<noteq> [] \<and> hd below = (p, WRITER_LOCK) \<longleftrightarrow> rev stk \<noteq> [] \<and> txn_key (last (rev stk)) = (p, WRITER_LOCK)"
      using key(2) by (cases stk) auto
    then show ?thesis using fl key(1) unfolding finishTXN_loop.simps(2) 1 bindE.simps by (auto split: if_splits)
  next
    case (Cons k upper')
    then have key: "\<not> txn_is p sub t" "map txn_key stk = upper' @ (p, sub) # below" "(p, sub) \<notin> set upper'"
      using Cons.prems(2,3) by (auto simp: txn_is_key)
    have "has_sub (lock_at lm1 (txn_lock t)) (txn_sub t)"
      using Cons.prems(1) sl by (simp add: txn_ok_def same_locks_def lock_at_def)
    then have "\<exists>lm2. (if txn_lock t = p
        then print_error p (txn_sub t) (SubLockMismatch p) lm1 else Inr lm1) = Inr lm2"
      by (auto intro: print_error_ok)
    then obtain lm2 where 2: "(if txn_lock t = p
        then print_error p (txn_sub t) (SubLockMismatch p) lm1 else Inr lm1) = Inr lm2" by blast
    then have "same_locks lm1 lm2" by (auto simp: same_locks_def dest: print_error_frame split: if_splits)
    with sl have "\<forall>u \<in> set stk. txn_ok (lm2\<lparr>m_nextTXNID := n\<rparr>) u" for n
      using Cons.prems(1) by (simp add: txn_ok_def same_locks_def lock_at_def)
    from Cons.IH[OF this key(2,3)] show ?thesis
      unfolding finishTXN_loop.simps(2) 1 2 bindE.simps if_not_P[OF key(1)] .
  qed
qed simp

text \<open>
  C35: when the other side of a lock is flushed, finishing a transaction with the readers to be
  removed goes past the end of the transaction stack exactly if the transaction right below the
  finished one is a write transaction of the same lock: the loop advances its iterator before it
  dereferences it for the message. Otherwise it returns, and the stack loses the finished
  transaction and all read transactions of the lock below it. A recursive lock acquired twice for
  writing and then for reading reaches the first case.
\<close>

theorem recursive_flush_past_end:
  assumes "txns_ok lm" and "held lm ctx = upper @ (p, sub) # below" and "(p, sub) \<notin> set upper"
  shows "if below \<noteq> [] \<and> hd below = (p, WRITER_LOCK)
    then finishTXN p ts sub True ctx ctxOld lm = Inl (UndefinedBehaviour ''dereferenced end iterator'')
    else \<exists>lm'. finishTXN p ts sub True ctx ctxOld lm = Inr (True, lm') \<and>
      held lm' = (held lm)(ctx := upper @ filter (\<lambda>k. k \<noteq> (p, READER_LOCK)) below)"
proof -
  have "\<forall>u \<in> set (txn_stack lm ctx). txn_ok lm u" using txns_ok_stack[OF assms(1)] by blast
  note loop = finishTXN_loop_end[OF this assms(2)[unfolded held_def] assms(3), of ts ctx ctxOld "[]"]
  show ?thesis
  proof (cases "below \<noteq> [] \<and> hd below = (p, WRITER_LOCK)")
    case True
    then show ?thesis using loop by (simp add: finishTXN_def)
  next
    case False
    then obtain found stk lm1 where 1: "finishTXN_loop p ts sub True ctx ctxOld (txn_stack lm ctx) [] lm = Inr (found, stk, lm1)"
      using loop by (metis prod_cases3)
    have "found" using finishTXN_loop_held[OF 1] assms(2)[unfolded held_def] by simp
    then have fin: "finishTXN p ts sub True ctx ctxOld lm = Inr (True, set_stack ctx stk lm1)"
      by (simp add: finishTXN_def 1)
    have "takeWhile (\<lambda>k. k \<noteq> (p, sub)) (held lm ctx) = upper" "dropWhile (\<lambda>k. k \<noteq> (p, sub)) (held lm ctx) = (p, sub) # below"
      using assms(3) unfolding assms(2)
      by (subst takeWhile_append2 dropWhile_append2; fastforce)+
    then have "spec_finish p sub True (held lm ctx) = upper @ filter (\<lambda>k. k \<noteq> (p, READER_LOCK)) below"
      by (simp add: spec_finish_def flushed_def)
    then show ?thesis using False fin finishTXN_held(2)[OF fin] by auto
  qed
qed

theorem recursive_flush_past_end_witness:
  "finishTXN 1 9 WRITER_LOCK True 0 0 (startTXN 1 8 WRITER_LOCK 0 (startTXN 1 7 WRITER_LOCK 0 example_lm)) =
     Inl (UndefinedBehaviour ''dereferenced end iterator'') \<and>
   bindE (one_lock ''lockmgr'') (run_ops [(P_WRITE, 1), (P_WRITE, 1), (P_READ, 1)]) =
     Inl (UndefinedBehaviour ''dereferenced end iterator'')"
proof -
  let ?lm = "startTXN 1 8 WRITER_LOCK 0 (startTXN 1 7 WRITER_LOCK 0 example_lm)"
  have "has_sub (lock_at example_lm 1) WRITER_LOCK" "1 < length (m_heap example_lm)"
    by (simp_all add: example_lock_at has_sub_def example_rwlock_def)
  then have "txns_ok ?lm"
    by (intro startTXN_txns_ok example_txns_ok) (simp_all add: startTXN_def lm_simps)
  moreover have "held ?lm 0 = [] @ (1, WRITER_LOCK) # (1, WRITER_LOCK) # held example_lm 0" by (simp add: startTXN_held)
  ultimately have "finishTXN 1 9 WRITER_LOCK True 0 0 ?lm = Inl (UndefinedBehaviour ''dereferenced end iterator'')"
    using recursive_flush_past_end[of ?lm 0 "[]" 1 WRITER_LOCK "(1, WRITER_LOCK) # held example_lm 0" 9 0] by simp
  moreover have "bindE (one_lock ''lockmgr'') (run_ops [(P_WRITE, 1), (P_WRITE, 1), (P_READ, 1)]) =
     Inl (UndefinedBehaviour ''dereferenced end iterator'')" by code_simp
  ultimately show ?thesis ..
qed

text \<open>
  a writer lock that is acquired twice without a release in between and then released is
  still counted as held although no transaction and no position of it is left: the second
  acquisition closes the first transaction but does not take back its count.
\<close>

theorem double_acquire_stays_counted:
  "(case bindE (one_lock ''mutex'') (run_ops [(P_WRITE, 0), (P_WRITE, 0), (V_WRITE, 0)]) of
      Inl _ \<Rightarrow> False
    | Inr lm \<Rightarrow> held lm 0 = [] \<and> lastNPos (lock_at lm 0) = [] \<and> writer_count (lock_at lm 0) = 1)"
  by code_simp

section \<open>The table of locks\<close>

text \<open>
  allocating a lock object of a known type at an address that has none adds exactly that
  object, finds it at its address, leaves every other lock as it was, and keeps the lock ids
  unique; the new object is not held.
\<close>

theorem allocLock_adds:
  assumes "lm_ok lm" and "unat (m_nextLockID lm) + 2 < 2 ^ 64"
    and "findLock lm addr = None" and "class_of_lockType type = Some cls"
  shows "\<exists>p lm'. allocLock addr allocID type varName flags lm = Inr (p, lm') \<and> lm_ok lm' \<and>
    findLock lm' addr = Some p \<and> lockAddress (lock_at lm' p) = addr \<and> \<not> isHeld (lock_at lm' p) \<and>
    (\<forall>q < length (m_heap lm). lock_at lm' q = lock_at lm q) \<and> held lm' = held lm"
proof -
  obtain p lm' where "allocLock addr allocID type varName flags lm = Inr (p, lm')"
    using assms(3,4)
    by (cases "initIDs (m_nextLockID lm) (new_RWLock cls addr allocID type varName flags)")
      (auto simp: allocLock_def findLock_def)
  with allocLock_lm_ok[OF assms(1) this assms(2)] show ?thesis by blast
qed

theorem allocLock_adds_witness:
  "\<exists>p lm'. allocLock 0x30 2 ''semaphore'' None 0 example_lm = Inr (p, lm') \<and> lm_ok lm' \<and>
     findLock lm' 0x30 = Some p \<and> lockAddress (lock_at lm' p) = 0x30 \<and> \<not> isHeld (lock_at lm' p)"
proof -
  have "unat (m_nextLockID example_lm) + 2 < 2 ^ 64" "findLock example_lm 0x30 = None"
    by (simp_all add: example_lm_def findLock_def)
  moreover have "class_of_lockType ''semaphore'' = Some WLock"
    by (simp add: class_of_lockType_def writer_lock_types_def)
  ultimately show ?thesis using allocLock_adds[OF example_lm_ok] by blast
qed

text \<open>
  freeing a memory area forgets exactly the locks whose address lies in it.
\<close>

theorem deleteLockByArea_exact:
  assumes "lm_ok lm"
  shows "lm_ok (deleteLockByArea address sz lm) \<and>
    (\<forall>a. findLock (deleteLockByArea address sz lm) a = (if in_area address sz a then None else findLock lm a))"
  using deleteLockByArea_lm_ok[OF assms] deleteLockByArea_findLock[OF assms] by blast

theorem deleteLockByArea_exact_witness:
  "findLock (deleteLockByArea 0x18 0x10 example_lm) 0x10 = Some 0 \<and>
   findLock (deleteLockByArea 0x18 0x10 example_lm) 0x20 = None"
  using deleteLockByArea_exact[OF example_lm_ok, of "0x18" "0x10"]
  by (simp add: in_area_def findLock_def example_lm_def)

text \<open>
  the search for the context whose transactions include a sub lock returns such a context
  when there is one and the caller's own context otherwise.
\<close>

theorem findTXN_finds:
  assumes "txns_ok lm"
  shows "if \<exists>c. isOnTXNStack lm c p sub then isOnTXNStack lm (findTXN lm p sub ctx) p sub
    else findTXN lm p sub ctx = ctx"
  using findTXN_found[OF assms, of p sub ctx] by (auto simp: isOnTXNStack_held)

theorem findTXN_finds_witness:
  "isOnTXNStack example_lm (findTXN example_lm 1 READER_LOCK 5) 1 READER_LOCK \<and>
   findTXN example_lm 1 WRITER_LOCK 5 = 5"
proof -
  have "isOnTXNStack example_lm 0 1 READER_LOCK" "\<And>c. \<not> isOnTXNStack example_lm c 1 WRITER_LOCK"
    by (simp_all add: isOnTXNStack_held example_held)
  then have "\<exists>c. isOnTXNStack example_lm c 1 READER_LOCK" "\<not> (\<exists>c. isOnTXNStack example_lm c 1 WRITER_LOCK)"
    by blast+
  then show ?thesis
    using findTXN_finds[OF example_txns_ok, of 1 READER_LOCK 5] findTXN_finds[OF example_txns_ok, of 1 WRITER_LOCK 5]
    by (simp only: if_True if_False simp_thms)
qed

end
