(* ===== verification/Convert_Output.thy ===== *)
theory Convert_Output
  imports Convert_Sync
begin

text \<open>
  What \<^verbatim>\<open>convert\<close> does before and after the event loop: loading the observed data types,
  the headers of the tables, the table of subclasses, and the two blacklists, whose entries are
  translated from names to ids.
\<close>

section \<open>Before the loop\<close>

definition newline :: char where "newline = CHR 0x0A"

fun load_types :: "u64 \<Rightarrow> string list \<Rightarrow> DataType list" where
  \<comment> \<open>the constructor of \<open>DataType\<close> takes a 32-bit id\<close>
  "load_types curTypeID [] = []"
| "load_types curTypeID (inputLine # lines) =
     \<lparr>dt_id = ucast (ucast curTypeID :: u32), dt_name = inputLine, foundInDw = False\<rparr> #
     load_types (curTypeID + 1) lines"

definition read_types :: "string list \<Rightarrow> DataType list" where
  \<comment> \<open>without the header line\<close>
  "read_types lines = load_types 1 (drop 1 lines)"

definition header_line :: "char \<Rightarrow> string list \<Rightarrow> string" where
  "header_line d cols = join_fields d cols @ [newline]"

definition table_headers :: "(string \<times> string list) list" where
  "table_headers =
    [(''data_types.csv'', [''id'', ''name'']),
     (''allocations.csv'', [''id'', ''subclass_id'', ''base_address'', ''size'', ''start'', ''end'']),
     (''accesses.csv'', [''id'', ''alloc_id'', ''txn_id'', ''ts'', ''type'', ''size'', ''address'',
        ''stacktrace_id'', ''fn'', ''context'']),
     (''locks.csv'', [''id'', ''address'', ''embedded_in'', ''lock_type_name'', ''sub_lock'',
        ''lock_var_name'', ''flags'']),
     (''locks_held.csv'', [''txn_id'', ''lock_id'', ''start'', ''last_file'', ''last_line'']),
     (''txns.csv'', [''id'', ''start_ts'', ''start_ctx'', ''end_ts'', ''end_ctx'']),
     (''function_blacklist.csv'', [''id'', ''subclass_id'', ''member_name_id'', ''fn'']),
     (''member_blacklist.csv'', [''subclass_id'', ''member_name_id'']),
     (''member_names.csv'', [''id'', ''member_name'']),
     (''stacktraces.csv'', [''id'', ''sequence'', ''instruction_ptr'', ''instruction_ptr_prev'',
        ''function'', ''line'', ''file'']),
     (''subclasses.csv'', [''id'', ''data_type_id'', ''name''])]"

definition data_type_rows :: "DataType list \<Rightarrow> string list list" where
  "data_type_rows ts = map (\<lambda>t. [dec_u64 (dt_id t), dt_name t]) ts"

definition member_name_rows :: "(string, u64) omap \<Rightarrow> string list list" where
  "member_name_rows names = map (\<lambda>(name, i). [dec_u64 i, name]) names"

section \<open>The rows as text\<close>

definition access_columns :: "access_row \<Rightarrow> string list" where
  "access_columns r = [dec_u64 (ar_id r), dec_u64 (ar_alloc_id r),
     (case ar_txn_id r of Some i \<Rightarrow> dec_u64 i | None \<Rightarrow> sql_null), dec_u64 (ar_ts r), [ar_action r],
     dec_of_int (ar_size r), dec_u64 (ar_address r), dec_u64 (ar_stacktrace_id r), dec_of_int (ar_ctx r)]"

definition alloc_columns :: "alloc_row \<Rightarrow> string list" where
  "alloc_columns r = [dec_u64 (lr_id r), dec_u64 (lr_subclass_id r), dec_u64 (lr_base r),
     dec_of_int (lr_size r), dec_u64 (lr_start r),
     (case lr_end r of Some e \<Rightarrow> dec_u64 e | None \<Rightarrow> sql_null)]"

definition txn_columns :: "txn_row \<Rightarrow> string list" where
  "txn_columns r = [dec_u64 (tr_id r), dec_u64 (tr_start_ts r), dec_of_int (tr_start_ctx r),
     dec_u64 (tr_end_ts r), dec_of_int (tr_end_ctx r)]"

definition held_columns :: "held_row \<Rightarrow> string list" where
  "held_columns r = [dec_u64 (hr_txn_id r), dec_u64 (hr_lock_id r), dec_u64 (hr_start r),
     hr_last_file r, dec_of_int (hr_last_line r)]"

definition stack_columns :: "stack_row \<Rightarrow> string list" where
  "stack_columns r = [dec_u64 (sr_id r), dec_of_nat (sr_sequence r), dec_u64 (sr_instr r),
     dec_u64 (sr_instr_prev r), cl_fn (sr_loc r), dec_of_int (cl_line (sr_loc r)), cl_file (sr_loc r)]"

section \<open>Subclasses\<close>

definition subclass_row :: "DataType list \<Rightarrow> nat \<Rightarrow> Subclass \<Rightarrow> string list" where
  "subclass_row ts i s = [dec_of_nat i, dec_u64 (dt_id (ts ! data_type_idx s)),
     sql_null_if (sc_name s) (\<not> real_subclass s)]"

definition subclass_rows :: "conv \<Rightarrow> string list list" where
  "subclass_rows c = map (\<lambda>(i, s). subclass_row (types c) i s) (List.enumerate 1 (subclasses c))"

definition type2id :: "conv \<Rightarrow> (string, string list) omap" where
  "type2id c = fold (\<lambda>s m. let name = dt_name (types c ! data_type_idx s) in
       omap_update name ((case omap_lookup m name of None \<Rightarrow> [] | Some v \<Rightarrow> v) @ [dec_u64 (sc_id s)]) m)
     (subclasses c) []"

definition subclass2id :: "conv \<Rightarrow> (string, u64) omap" where
  "subclass2id c = fold (\<lambda>s m. omap_update (sc_name s) (sc_id s) m) (subclasses c) []"

section \<open>Blacklists\<close>

datatype bl_diag =
    InvalidEntry nat string
  | UnknownSubclassBl nat string
  | UnknownDataTypeBl nat string
  | UnknownMember nat string

definition DELIMITER_BLACKLISTS :: char where "DELIMITER_BLACKLISTS = CHR '';''"

text \<open>The subclass ids an entry is about: all of its data type, one, or the NULL it says.\<close>

definition blacklist_ids :: "conv \<Rightarrow> nat \<Rightarrow> string \<Rightarrow> bl_diag + string list" where
  "blacklist_ids c lineno name =
     (if name = sql_null then Inr [name]
      else
        (let (dataTypeName, subclassName, isRealSubclass) = split_type name in
         if isRealSubclass then
           (case omap_lookup (subclass2id c) subclassName of
              None \<Rightarrow> Inl (UnknownSubclassBl lineno subclassName)
            | Some i \<Rightarrow> Inr [dec_u64 i])
         else
           (case omap_lookup (type2id c) dataTypeName of
              None \<Rightarrow> Inl (UnknownDataTypeBl lineno dataTypeName)
            | Some ids \<Rightarrow> Inr ids)))"

definition fn_blacklist_entry :: "conv \<Rightarrow> nat \<Rightarrow> string \<Rightarrow> bl_diag + string list list" where
  "fn_blacklist_entry c lineno inputLine =
     (let el = split_fields DELIMITER_BLACKLISTS inputLine in
      if length el \<noteq> 4 then Inl (InvalidEntry lineno inputLine)
      else
        bindE (blacklist_ids c lineno (el ! 0)) (\<lambda>ids.
        bindE (if el ! 1 \<noteq> sql_null
               then (case omap_lookup (memberNames c) (el ! 1) of
                       None \<Rightarrow> Inl (UnknownMember lineno (el ! 1))
                     | Some i \<Rightarrow> Inr (dec_u64 i))
               else Inr (el ! 1)) (\<lambda>memberID.
        Inr (map (\<lambda>i. [i, memberID, el ! 2, el ! 3]) ids))))"

fun fn_blacklist :: "conv \<Rightarrow> nat \<Rightarrow> nat \<Rightarrow> string list \<Rightarrow> string list list \<times> bl_diag list" where
  "fn_blacklist c lineno fnBlID [] = ([], [])"
| "fn_blacklist c lineno fnBlID (inputLine # lines) =
     (case fn_blacklist_entry c lineno inputLine of
        Inl e \<Rightarrow> (let (rows, ds) = fn_blacklist c (lineno + 1) fnBlID lines in (rows, e # ds))
      | Inr entries \<Rightarrow>
          (let (rows, ds) = fn_blacklist c (lineno + 1) (fnBlID + length entries) lines
           in (map (\<lambda>(i, r). dec_of_nat i # r) (List.enumerate fnBlID entries) @ rows, ds)))"

definition function_blacklist :: "conv \<Rightarrow> string list \<Rightarrow> string list list \<times> bl_diag list" where
  "function_blacklist c lines = fn_blacklist c 2 1 (drop 1 lines)"

definition member_blacklist_entry :: "conv \<Rightarrow> nat \<Rightarrow> string \<Rightarrow> bl_diag + string list list" where
  "member_blacklist_entry c lineno inputLine =
     (let el = split_fields DELIMITER_BLACKLISTS inputLine in
      if length el \<noteq> 2 then Inl (InvalidEntry lineno inputLine)
      else
        bindE (blacklist_ids c lineno (el ! 0)) (\<lambda>ids.
        (case omap_lookup (memberNames c) (el ! 1) of
           None \<Rightarrow> Inl (UnknownMember lineno (el ! 1))
         | Some i \<Rightarrow> Inr (map (\<lambda>j. [j, dec_u64 i]) ids))))"

fun member_blacklist_lines :: "conv \<Rightarrow> nat \<Rightarrow> string list \<Rightarrow> string list list \<times> bl_diag list" where
  "member_blacklist_lines c lineno [] = ([], [])"
| "member_blacklist_lines c lineno (inputLine # lines) =
     (let (rows, ds) = member_blacklist_lines c (lineno + 1) lines in
      case member_blacklist_entry c lineno inputLine of
        Inl e \<Rightarrow> (rows, e # ds)
      | Inr entries \<Rightarrow> (entries @ rows, ds))"

definition member_blacklist :: "conv \<Rightarrow> string list \<Rightarrow> string list list \<times> bl_diag list" where
  "member_blacklist c lines = member_blacklist_lines c 2 (drop 1 lines)"

section \<open>Subclass ids\<close>

text \<open>
  \<^verbatim>\<open>subclasses.csv\<close> numbers the subclasses by position, the other tables use the id each
  subclass got when it was created; the two agree.
\<close>

definition subclass_inv :: "conv \<Rightarrow> bool" where
  "subclass_inv c \<longleftrightarrow> (\<forall>i < length (subclasses c). sc_id (subclasses c ! i) = of_nat (Suc i)) \<and>
     curSubclassID c = of_nat (Suc (length (subclasses c)))"

lemma subclass_for_inv:
  assumes "subclass_for ts typeStr c = Inr (idx, c1)" and "subclass_inv c"
  shows "subclass_inv c1"
  using assms
  by (auto simp: subclass_for_def subclass_inv_def nth_append less_Suc_eq
      split: prod.splits option.splits if_splits)

definition alloc_sub_ok :: "conv \<Rightarrow> bool" where
  "alloc_sub_ok c \<longleftrightarrow> subclass_inv c \<and>
     (\<forall>e \<in> set (activeAllocs c). subclass_idx (snd e) < length (subclasses c)) \<and>
     (\<forall>r \<in> set (allocOFile c). lr_subclass_id r = 0 \<or> (\<exists>i < length (subclasses c). lr_subclass_id r = of_nat (Suc i)))"


lemma write_accesses_frame:
  "subclasses (writeMemAccesses env a p c) = subclasses c"
  "curSubclassID (writeMemAccesses env a p c) = curSubclassID c"
  "activeAllocs (writeMemAccesses env a p c) = activeAllocs c"
  "allocOFile (writeMemAccesses env a p c) = allocOFile c"
  "types (writeMemAccesses env a p c) = types c"
proof -
  have "subclasses (fold (write_access env) as c) = subclasses c \<and>
      curSubclassID (fold (write_access env) as c) = curSubclassID c \<and>
      activeAllocs (fold (write_access env) as c) = activeAllocs c \<and>
      allocOFile (fold (write_access env) as c) = allocOFile c \<and>
      types (fold (write_access env) as c) = types c" for "as"
    by (induction "as" arbitrary: c) (simp_all add: write_access_def Let_def)
  then show "subclasses (writeMemAccesses env a p c) = subclasses c"
    "curSubclassID (writeMemAccesses env a p c) = curSubclassID c"
    "activeAllocs (writeMemAccesses env a p c) = activeAllocs c"
    "allocOFile (writeMemAccesses env a p c) = allocOFile c"
    "types (writeMemAccesses env a p c) = types c"
    by (simp_all add: writeMemAccesses_def)
qed

lemma alloc_sub_ok_cong:
  assumes "alloc_sub_ok c" and "subclasses c' = subclasses c" "curSubclassID c' = curSubclassID c"
    "activeAllocs c' = activeAllocs c" "allocOFile c' = allocOFile c"
  shows "alloc_sub_ok c'"
  using assms by (simp add: alloc_sub_ok_def subclass_inv_def)

lemma handle_alloc_sub:
  assumes ok: "alloc_sub_ok c" and ev: "handle_alloc ts typeStr b sz c = Inr c'"
  shows "alloc_sub_ok c'"
proof (cases "omap_lookup (activeAllocs c) b")
  case (Some al)
  then have "c' = c\<lparr>conv_cerr := conv_cerr c @ [ActiveAllocAt ts b]\<rparr>" using ev by (simp add: handle_alloc_def)
  then show ?thesis by (intro alloc_sub_ok_cong[OF ok]) simp_all
next
  case None
  then obtain idx c1 where sc: "subclass_for ts typeStr c = Inr (idx, c1)"
    and c': "c' = (case idx of None \<Rightarrow> c1 | Some i \<Rightarrow> c1\<lparr>curAllocID := curAllocID c1 + 1,
       activeAllocs := omap_update b \<lparr>al_start = ts, al_id = curAllocID c1, al_size = int_of_ull sz,
         subclass_idx = i\<rparr> (activeAllocs c1)\<rparr>)"
    using ev by (auto simp: handle_alloc_def bindE_Inr_iff split: option.splits)
  note fr = subclass_for_frame(1)[OF sc]
  have same: "activeAllocs c1 = activeAllocs c" "allocOFile c1 = allocOFile c"
    using arg_cong[OF fr, of activeAllocs] arg_cong[OF fr, of allocOFile] by simp_all
  obtain ss where ss: "subclasses c1 = subclasses c @ ss" using subclass_for_frame(2)[OF sc] ..
  have "subclass_inv c1" using subclass_for_inv[OF sc] ok by (simp add: alloc_sub_ok_def)
  moreover have "\<forall>r \<in> set (allocOFile c). lr_subclass_id r = 0 \<or>
      (\<exists>i < length (subclasses c @ ss). lr_subclass_id r = of_nat (Suc i))"
    using ok unfolding alloc_sub_ok_def length_append by (meson trans_less_add1)
  ultimately have ok1: "alloc_sub_ok c1"
    using ok unfolding alloc_sub_ok_def same ss by auto
  show ?thesis
  proof (cases idx)
    case None
    then show ?thesis using c' ok1 by simp
  next
    case (Some i)
    have i: "i < length (subclasses c1)" by (rule subclass_for_frame(3)[OF sc Some])
    let ?al = "\<lparr>al_start = ts, al_id = curAllocID c1, al_size = int_of_ull sz, subclass_idx = i\<rparr>"
    have "\<forall>e \<in> set (omap_update b ?al (activeAllocs c1)). subclass_idx (snd e) < length (subclasses c1)"
      using ok1 i set_omap_update_subset[of b ?al "activeAllocs c1"] by (fastforce simp: alloc_sub_ok_def)
    then show ?thesis using c' Some ok1 by (simp add: alloc_sub_ok_def subclass_inv_def)
  qed
qed

lemma alloc_row_sub:
  assumes "alloc_sub_ok c" "e \<in> set (activeAllocs c)"
  shows "\<exists>i < length (subclasses c). lr_subclass_id (alloc_row_of c b (snd e) sz t) = of_nat (Suc i)"
  using assms by (auto simp: alloc_sub_ok_def subclass_inv_def alloc_row_of_def)

lemma handle_free_sub:
  assumes ok: "alloc_sub_ok c"
  shows "alloc_sub_ok (handle_free ts b sz c)"
proof (cases "omap_lookup (activeAllocs c) b")
  case (Some al)
  have "(b, al) \<in> set (activeAllocs c)" by (rule map_of_SomeD[OF Some])
  from alloc_row_sub[OF ok this, of b] ok Some show ?thesis
    by (auto simp: handle_free_def alloc_sub_ok_def subclass_inv_def omap_delete_def)
qed (use ok in \<open>simp add: handle_free_def alloc_sub_ok_def subclass_inv_def\<close>)

lemma handle_access_sub:
  assumes ok: "alloc_sub_ok c" and ev: "handle_access env a ts addr sz b ip st ctx c = Inr c'"
  shows "alloc_sub_ok c'"
proof (cases "omap_lookup (activeAllocs c) b")
  case None
  then have "c' = c\<lparr>conv_cerr := conv_cerr c @ [NoActiveAlloc ts b]\<rparr>" using ev by (simp add: handle_access_def)
  then show ?thesis by (intro alloc_sub_ok_cong[OF ok]) simp_all
next
  case (Some al)
  then have "\<not> access_outside addr sz b al" using ev by (auto simp: handle_access_def)
  with Some ev obtain i c1 where st: "addStacktrace env ip st c = Inr (i, c1)"
    and "subclasses c' = subclasses c1" "curSubclassID c' = curSubclassID c1"
      "activeAllocs c' = activeAllocs c1" "allocOFile c' = allocOFile c1"
    by (auto simp: handle_access_def bindE_Inr_iff)
  moreover have "subclasses c1 = subclasses c \<and> curSubclassID c1 = curSubclassID c \<and>
      activeAllocs c1 = activeAllocs c \<and> allocOFile c1 = allocOFile c"
    using st
  proof (cases rule: addStacktrace_cases)
    case 1
    from arg_cong[OF 1(3), of subclasses] arg_cong[OF 1(3), of curSubclassID]
      arg_cong[OF 1(3), of activeAllocs] arg_cong[OF 1(3), of allocOFile] show ?thesis by simp
  next
    case (2 rows)
    from arg_cong[OF 2(4), of subclasses] arg_cong[OF 2(4), of curSubclassID]
      arg_cong[OF 2(4), of activeAllocs] arg_cong[OF 2(4), of allocOFile] show ?thesis by simp
  qed
  ultimately show ?thesis by (intro alloc_sub_ok_cong[OF ok]) simp_all
qed

lemma handlePV_sub:
  assumes ok: "alloc_sub_ok c" and ev: "handlePV env lockOP ts addr file line mem type flags ctx c = Inr c'"
  shows "alloc_sub_ok c'"
  using ev by (cases rule: handlePV_cases) (auto intro!: alloc_sub_ok_cong[OF ok])

lemma event_step_sub:
  assumes ok: "alloc_sub_ok c" and ev: "event_step env v c = Inr c'"
  shows "alloc_sub_ok c'"
proof (cases "\<not> processSeqlock env \<and> is_seqlock (v_lockType v)")
  case True
  then show ?thesis using ev ok by (simp add: event_step_def)
next
  case False
  let ?c = "writeMemAccesses env (v_action v) (v_address v) c"
  have ok': "alloc_sub_ok ?c" by (rule alloc_sub_ok_cong[OF ok]) (simp_all add: write_accesses_frame)
  have "handle_event env v ?c = Inr c'" using ev False by (auto simp: event_step_def)
  then show ?thesis
    using handle_alloc_sub[OF ok'] handle_free_sub[OF ok'] handlePV_sub[OF ok'] handle_access_sub[OF ok']
      alloc_sub_ok_cong[OF ok', of "?c\<lparr>conv_cerr := x\<rparr>" for x]
    by (auto simp: handle_event_def split: if_splits)
qed

lemma process_lines_sub:
  "process_lines env ls (v, c) = Inr (v', c') \<Longrightarrow> alloc_sub_ok c \<Longrightarrow> alloc_sub_ok c'"
proof (induction ls arbitrary: v c)
  case (Cons l ls)
  then obtain v1 c1 where 1: "process_line env l (v, c) = Inr (v1, c1)"
    and 2: "process_lines env ls (v1, c1) = Inr (v', c')" by (auto simp: bindE_Inr_iff)
  obtain ds where "event_step env v1 (c\<lparr>conv_cerr := conv_cerr c @ ds\<rparr>) = Inr c1"
    using 1 by (rule process_line_event)
  moreover have "alloc_sub_ok (c\<lparr>conv_cerr := conv_cerr c @ ds\<rparr>)"
    by (rule alloc_sub_ok_cong[OF Cons.prems(2)]) simp_all
  ultimately have "alloc_sub_ok c1" using event_step_sub by blast
  with Cons.IH[OF 2] show ?case .
qed simp

lemma convert_trace_sub:
  assumes "convert_trace env inputLines (init_conv env dts names n) = Some (Inr c)"
  shows "alloc_sub_ok c"
proof -
  obtain v c0 where run: "process_lines env (skip_header inputLines) (init_vars, init_conv env dts names n) = Inr (v, c0)"
    and fin: "finish_run env (v, c0) = Some (Inr c)"
    using assms by (auto simp: convert_trace_def split: sum.splits)
  have "alloc_sub_ok (init_conv env dts names n)"
    by (auto simp: alloc_sub_ok_def subclass_inv_def init_conv_def)
  then have ok: "alloc_sub_ok c0" using process_lines_sub[OF run] by blast
  have "subclasses c = subclasses c0" "curSubclassID c = curSubclassID c0" "activeAllocs c = activeAllocs c0"
    "allocOFile c = allocOFile c0 @ map (\<lambda>(b, al). alloc_row_of c0 b al (al_size al) None) (activeAllocs c0)"
    using fin by (auto simp: finish_run_def Let_def write_accesses_frame split: option.splits sum.splits)
  then show ?thesis
    using ok alloc_row_sub[OF ok] by (fastforce simp: alloc_sub_ok_def subclass_inv_def)
qed


section \<open>What the blacklists contain\<close>

lemma type2id_lookup:
  "omap_lookup (type2id c) name =
     (let ids = map (\<lambda>s. dec_u64 (sc_id s)) (filter (\<lambda>s. dt_name (types c ! data_type_idx s) = name) (subclasses c))
      in if ids = [] then None else Some ids)"
proof -
  let ?n = "\<lambda>s. dt_name (types c ! data_type_idx s)"
  let ?f = "\<lambda>s m. let name = ?n s in
       omap_update name ((case omap_lookup m name of None \<Rightarrow> [] | Some v \<Rightarrow> v) @ [dec_u64 (sc_id s)]) m"
  have "omap_lookup (fold ?f ss []) name =
      (let ids = map (\<lambda>s. dec_u64 (sc_id s)) (filter (\<lambda>s. ?n s = name) ss)
       in if ids = [] then None else Some ids)" for ss
  proof (induction ss rule: rev_induct)
    case (snoc s ss)
    then show ?case by (auto simp: Let_def omap_simps split: option.splits if_splits)
  qed simp
  then show ?thesis unfolding type2id_def .
qed

lemma subclass2id_lookup:
  "omap_lookup (subclass2id c) name = Some i \<Longrightarrow> \<exists>s \<in> set (subclasses c). sc_name s = name \<and> sc_id s = i"
proof -
  have "omap_lookup (fold (\<lambda>s m. omap_update (sc_name s) (sc_id s) m) ss []) name = Some i \<Longrightarrow>
      \<exists>s \<in> set ss. sc_name s = name \<and> sc_id s = i" for ss
    by (induction ss rule: rev_induct) (auto simp: omap_simps split: if_splits)
  then show "omap_lookup (subclass2id c) name = Some i \<Longrightarrow> \<exists>s \<in> set (subclasses c). sc_name s = name \<and> sc_id s = i"
    unfolding subclass2id_def .
qed

lemma blacklist_ids_known:
  assumes "blacklist_ids c lineno name = Inr ids" and "i \<in> set ids"
  shows "i = sql_null \<or> (\<exists>s \<in> set (subclasses c). i = dec_u64 (sc_id s))"
  using assms
  by (auto simp: blacklist_ids_def type2id_lookup Let_def split: if_splits prod.splits option.splits
      dest!: subclass2id_lookup)

lemma subclass_row_ids:
  assumes inv: "subclass_inv c" and len: "length (subclasses c) < 2 ^ 31" and s: "s \<in> set (subclasses c)"
  shows "dec_u64 (sc_id s) \<in> set (map hd (subclass_rows c))"
proof -
  obtain j where j: "j < length (subclasses c)" "s = subclasses c ! j" using s by (metis in_set_conv_nth)
  then have "unat (sc_id s) = Suc j"
    using inv len by (simp add: subclass_inv_def unat_of_nat del: of_nat_Suc)
  moreover have "map hd (subclass_rows c) = map dec_of_nat [1..<Suc (length (subclasses c))]"
  proof -
    have "map hd (map (\<lambda>(i, s). subclass_row (types c) i s) xs) = map dec_of_nat (map fst xs)" for xs
      by (induction xs) (auto simp: subclass_row_def)
    from this[of "List.enumerate 1 (subclasses c)"] show ?thesis by (simp add: subclass_rows_def)
  qed
  ultimately show ?thesis using j(1) by (auto simp: dec_u64_def simp del: upt_Suc)
qed

lemma fn_blacklist_ids:
  "map hd (fst (fn_blacklist c lineno fnBlID lines)) =
     map dec_of_nat [fnBlID..<fnBlID + length (fst (fn_blacklist c lineno fnBlID lines))]"
proof (induction c lineno fnBlID lines rule: fn_blacklist.induct)
  case (2 c lineno fnBlID inputLine lines)
  show ?case
  proof (cases "fn_blacklist_entry c lineno inputLine")
    case (Inl e)
    with 2(1)[OF Inl] show ?thesis by (simp add: case_prod_beta Let_def)
  next
    case (Inr entries)
    have "map hd (map (\<lambda>(i, r). dec_of_nat i # r) xs) = map dec_of_nat (map fst xs)" for xs :: "(nat \<times> string list) list"
      by (induction xs) auto
    from this[of "List.enumerate fnBlID entries"]
    have hds: "map hd (map (\<lambda>(i, r). dec_of_nat i # r) (List.enumerate fnBlID entries)) =
        map dec_of_nat [fnBlID..<fnBlID + length entries]" by simp
    let ?rows = "fst (fn_blacklist c (lineno + 1) (fnBlID + length entries) lines)"
    have "fst (fn_blacklist c lineno fnBlID (inputLine # lines)) =
        map (\<lambda>(i, r). dec_of_nat i # r) (List.enumerate fnBlID entries) @ ?rows"
      using Inr by (simp add: case_prod_beta Let_def)
    moreover have "[fnBlID..<fnBlID + (length entries + length ?rows)] =
        [fnBlID..<fnBlID + length entries] @ [fnBlID + length entries..<fnBlID + length entries + length ?rows]"
      by (metis add.assoc le_add1 upt_add_eq_append)
    ultimately show ?thesis using 2(2)[OF Inr] hds by simp
  qed
qed simp

lemma fn_blacklist_refs:
  "r \<in> set (fst (fn_blacklist c lineno fnBlID lines)) \<Longrightarrow>
     length r = 5 \<and> (r ! 1 = sql_null \<or> (\<exists>s \<in> set (subclasses c). r ! 1 = dec_u64 (sc_id s)))"
proof (induction c lineno fnBlID lines rule: fn_blacklist.induct)
  case (2 c lineno fnBlID inputLine lines)
  show ?case
  proof (cases "fn_blacklist_entry c lineno inputLine")
    case (Inl e)
    with 2 show ?thesis by (simp add: case_prod_beta Let_def)
  next
    case (Inr entries)
    have entry: "length q = 4 \<and> (q ! 0 = sql_null \<or> (\<exists>s \<in> set (subclasses c). q ! 0 = dec_u64 (sc_id s)))"
      if "q \<in> set entries" for q
      using Inr that blacklist_ids_known
      by (fastforce simp: fn_blacklist_entry_def Let_def bindE_Inr_iff split: if_splits)
    have "r \<in> (\<lambda>(i, r). dec_of_nat i # r) ` set (List.enumerate fnBlID entries) \<or>
        r \<in> set (fst (fn_blacklist c (lineno + 1) (fnBlID + length entries) lines))"
      using 2(3) Inr by (auto simp: case_prod_beta Let_def)
    then show ?thesis
    proof
      assume "r \<in> (\<lambda>(i, r). dec_of_nat i # r) ` set (List.enumerate fnBlID entries)"
      then obtain i q where "r = dec_of_nat i # q" "q \<in> set entries"
        by (auto simp: in_set_enumerate_eq dest: nth_mem)
      then show ?thesis using entry[of q] by simp
    qed (use 2(2)[OF Inr] in blast)
  qed
qed simp

end
