(* ===== verification/Convert_Tables.thy ===== *)
theory Convert_Tables
  imports Convert_Output
begin

text \<open>
  The tables of a run taken together. The rows of \<^verbatim>\<open>locks.csv\<close>, which the code writes as text
  when it creates a lock object, are read as records here, and every reference from one table to
  another is followed.
\<close>

section \<open>The table of locks\<close>

record lock_row =
  kr_id :: u64
  kr_address :: u64
  kr_alloc :: u32        \<comment> \<open>0 is printed as the NULL of the database\<close>
  kr_type :: string
  kr_side :: SUB_LOCK
  kr_var :: string
  kr_flags :: u32

definition lock_columns :: "lock_row \<Rightarrow> string list" where
  "lock_columns r = [dec_u64 (kr_id r), dec_u64 (kr_address r), sql_null_if (dec_u32 (kr_alloc r)) (kr_alloc r = 0),
     kr_type r, (case kr_side r of READER_LOCK \<Rightarrow> ''r'' | WRITER_LOCK \<Rightarrow> ''w''),
     sql_null_if (kr_var r) (kr_var r = []), dec_u32 (kr_flags r)]"

definition lock_file :: "char \<Rightarrow> lock_row list \<Rightarrow> string" where
  "lock_file d rows = concat (map (\<lambda>r. header_line d (lock_columns r)) rows)"

definition side_row :: "rwlock \<Rightarrow> SUB_LOCK \<Rightarrow> lock_row" where
  "side_row l s = \<lparr>kr_id = (case s of READER_LOCK \<Rightarrow> read_id l | WRITER_LOCK \<Rightarrow> write_id l),
     kr_address = lockAddress l, kr_alloc = allocation_id l, kr_type = lockType l, kr_side = s,
     kr_var = lockVarName l, kr_flags = lk_flags l\<rparr>"

definition rows_of_lock :: "rwlock \<Rightarrow> lock_row list" where
  "rows_of_lock l = map (side_row l) (case lk_class l of
     RWLock \<Rightarrow> [WRITER_LOCK, READER_LOCK] | RLock \<Rightarrow> [READER_LOCK] | WLock \<Rightarrow> [WRITER_LOCK])"

lemma writeLock_rows: "writeLock d l = lock_file d (rows_of_lock l)"
  by (simp add: writeLock_def writeWriterLock_def writeReaderLock_def RLock_writeLock_def WLock_writeLock_def
      lock_file_def rows_of_lock_def side_row_def lock_columns_def header_line_def newline_def
      split: lock_class.split)

lemma rows_of_lock_ident: "map (kr_flags_update (\<lambda>_. 0)) (rows_of_lock l) = rows_of_lock (lock_ident l)"
  by (simp add: rows_of_lock_def side_row_def lock_ident_def split: lock_class.split)

lemma rows_of_lock_ids: "mset (map kr_id (rows_of_lock (lock_ident l))) = mset (sub_ids l)"
  by (simp add: rows_of_lock_def side_row_def sub_ids_def lock_ident_def split: lock_class.split)

lemma rows_of_lock_alloc: "r \<in> set (rows_of_lock l) \<Longrightarrow> kr_alloc r = allocation_id l"
  by (auto simp: rows_of_lock_def side_row_def)

text \<open>
  The text written so far is that of one row for every sub lock of every lock object ever created,
  in order, with the ids, the address, the allocation, the type and the variable of the object; and
  the allocations named are known, provided the id of the pseudo allocation is the one of its row.
\<close>

definition pseudo_ok :: "conv_env \<Rightarrow> bool" where
  "pseudo_ok env \<longleftrightarrow> includeAllLocks env \<longrightarrow> pseudoAllocID env = 1"

definition lock_rows_ok :: "conv \<Rightarrow> lock_row list \<Rightarrow> bool" where
  "lock_rows_ok c rows \<longleftrightarrow>
     map (kr_flags_update (\<lambda>_. 0)) rows = concat (map (rows_of_lock \<circ> lock_ident) (m_heap (lockManager c)))"

definition locks_written :: "conv_env \<Rightarrow> conv \<Rightarrow> bool" where
  "locks_written env c \<longleftrightarrow> (includeAllLocks env \<longrightarrow> 1 \<in># alloc_ids c) \<and>
     (\<exists>rows. locksOFile c = lock_file (delimiter env) rows \<and> lock_rows_ok c rows \<and>
       (pseudo_ok env \<longrightarrow> (\<forall>r \<in> set rows. kr_alloc r = 0 \<or> ucast (kr_alloc r) \<in># alloc_ids c)))"

lemma locks_written_mono:
  assumes "locks_written env c" and "locksOFile c' = locksOFile c"
    and "map lock_ident (m_heap (lockManager c')) = map lock_ident (m_heap (lockManager c))"
    and "set_mset (alloc_ids c) \<subseteq> set_mset (alloc_ids c')"
  shows "locks_written env c'"
proof -
  have "map (rows_of_lock \<circ> lock_ident) (m_heap (lockManager c')) = map (rows_of_lock \<circ> lock_ident) (m_heap (lockManager c))"
    using arg_cong[OF assms(3), of "map rows_of_lock"] by simp
  then have "lock_rows_ok c' rows = lock_rows_ok c rows" for rows by (simp add: lock_rows_ok_def)
  with assms(1,2,4) show ?thesis unfolding locks_written_def by fastforce
qed

section \<open>Events\<close>

lemma path_idents:
  assumes "lm_path acts lm lm'"
  shows "map lock_ident (m_heap lm') = map lock_ident (m_heap lm)"
  using lm_path_keeps[OF assms] by (intro nth_equalityI) (simp_all add: keeps_locks_def lock_at_def)

lemma transition_idents:
  assumes "transition p op ts file line flags dir ctx lm = Inr lm'" and "p < length (m_heap lm)"
  shows "map lock_ident (m_heap lm') = map lock_ident (m_heap lm)"
  using transition_path[OF assms] path_idents by blast

lemma allocLock_ident:
  assumes "allocLock addr aid type var flags lm = Inr (p, lm')"
  shows "m_heap lm' = m_heap lm @ [lock_at lm' p]" and "allocation_id (lock_at lm' p) = aid"
  using assms
  by (auto simp: allocLock_def Let_def lock_at_def initIDs_def new_RWLock_def
      split: option.splits prod.splits if_splits lock_class.splits)

lemma embedding_known:
  assumes "conv_inv k c" and "k < 2 ^ 31" and "embedding_alloc_id c addr \<noteq> 0"
  shows "ucast (embedding_alloc_id c addr) \<in># alloc_ids c"
proof -
  obtain b al where e: "alloc_at_or_below (activeAllocs c) addr = Some (b, al)" "embedding_alloc_id c addr = ucast (al_id al)"
    using assms(3) by (auto simp: embedding_alloc_id_def split: option.splits if_splits)
  let ?es = "filter (\<lambda>e. fst e \<le> addr) (activeAllocs c)"
  have "?es \<noteq> []" "last ?es = (b, al)"
    using e(1) unfolding alloc_at_or_below_def by (cases ?es; simp)+
  then have "(b, al) \<in> set ?es" using last_in_set by metis
  then have "(b, al) \<in> set (activeAllocs c)" by simp
  then have m: "al_id al \<in># alloc_ids c" by (force simp: alloc_ids_def)
  have "alloc_inv k c" using assms(1) by (simp add: conv_inv_def)
  then have "unat (al_id al) < unat (curAllocID c)" "unat (curAllocID c) \<le> 2 + k"
    using m by (auto simp: alloc_inv_def word_less_nat_alt)
  then have "unat (al_id al) < 2 ^ 32" using assms(2) by simp
  then have "ucast (ucast (al_id al) :: u32) = al_id al"
    by (simp add: word_unat_eq_iff unsigned_ucast_eq unsigned_take_bit_eq take_bit_nat_eq_self)
  with m e(2) show ?thesis by simp
qed

lemma handlePV_written:
  assumes inv: "conv_inv k c" and k: "k < 2 ^ 31" and w: "locks_written env c"
    and ev: "handlePV env op ts addr file line mem type flags ctx c = Inr c'"
  shows "locks_written env c'"
proof -
  have ok: "locks_ok (lockManager c)" using inv by (simp add: conv_inv_def lock_inv_def lock_base_def lm_ok_def)
  from ev show ?thesis
  proof (cases rule: handlePV_cases)
    case (known p lm)
    have "p < length (m_heap (lockManager c))" using ok known(1) by (simp add: locks_ok_def findLock_def)
    then show ?thesis
      unfolding known(3) by (intro locks_written_mono[OF w]) (simp_all add: transition_idents[OF known(2)] alloc_ids_def)
  next
    case (new aid var p lm lm')
    note al = allocLock_ident[OF new(3)]
    let ?l = "lock_at lm p"
    have ids: "alloc_ids c' = alloc_ids c" by (simp add: new(5) alloc_ids_def)
    obtain rows where rows: "locksOFile c = lock_file (delimiter env) rows" "lock_rows_ok c rows"
      "pseudo_ok env \<longrightarrow> (\<forall>r \<in> set rows. kr_alloc r = 0 \<or> ucast (kr_alloc r) \<in># alloc_ids c)"
      using w by (auto simp: locks_written_def)
    have "map lock_ident (m_heap lm') = map lock_ident (m_heap (lockManager c)) @ [lock_ident ?l]"
      using transition_idents[OF new(4) allocLock_frame(1)[OF new(3)]] arg_cong[OF al(1), of "map lock_ident"] by simp
    then have "map rows_of_lock (map lock_ident (m_heap lm')) =
        map rows_of_lock (map lock_ident (m_heap (lockManager c))) @ [rows_of_lock (lock_ident ?l)]" by simp
    then have "lock_rows_ok c' (rows @ rows_of_lock ?l)"
      using rows(2) by (simp add: lock_rows_ok_def new(5) rows_of_lock_ident comp_def)
    moreover have "locksOFile c' = lock_file (delimiter env) (rows @ rows_of_lock ?l)"
      using rows(1) by (simp add: new(5) writeLock_rows) (simp add: lock_file_def)
    moreover have "pseudo_ok env \<longrightarrow> aid = 0 \<or> ucast aid \<in># alloc_ids c"
      using new(7) embedding_known[OF inv k] w by (auto simp: locks_written_def pseudo_ok_def)
    then have "pseudo_ok env \<longrightarrow> (\<forall>r \<in> set (rows @ rows_of_lock ?l). kr_alloc r = 0 \<or> ucast (kr_alloc r) \<in># alloc_ids c)"
      using rows(3) rows_of_lock_alloc al(2) by fastforce
    ultimately show ?thesis using w unfolding locks_written_def ids by blast
  next
    case (none ds)
    then show ?thesis by (intro locks_written_mono[OF w]) (simp_all add: alloc_ids_def)
  qed
qed

lemma handle_alloc_written:
  assumes ev: "handle_alloc ts ty b sz c = Inr c'"
  shows "locksOFile c' = locksOFile c" and "set_mset (alloc_ids c) \<subseteq> set_mset (alloc_ids c')"
proof -
  have "locksOFile c' = locksOFile c \<and> set_mset (alloc_ids c) \<subseteq> set_mset (alloc_ids c')"
  proof (cases "omap_lookup (activeAllocs c) b")
    case None
    then obtain idx c1 where sc: "subclass_for ts ty c = Inr (idx, c1)"
      and c': "c' = (case idx of None \<Rightarrow> c1 | Some i \<Rightarrow> c1\<lparr>curAllocID := curAllocID c1 + 1,
         activeAllocs := omap_update b \<lparr>al_start = ts, al_id = curAllocID c1, al_size = int_of_ull sz,
           subclass_idx = i\<rparr> (activeAllocs c1)\<rparr>)"
      using ev by (auto simp: handle_alloc_def bindE_Inr_iff split: option.splits)
    note fr = subclass_for_frame(1)[OF sc]
    have c1: "activeAllocs c1 = activeAllocs c" "allocOFile c1 = allocOFile c" "locksOFile c1 = locksOFile c"
      using arg_cong[OF fr, of activeAllocs] arg_cong[OF fr, of allocOFile] arg_cong[OF fr, of locksOFile] by simp_all
    have "mset (map (\<lambda>e. al_id (snd e)) (omap_update b al (activeAllocs c))) =
        add_mset (al_id al) (mset (map (\<lambda>e. al_id (snd e)) (activeAllocs c)))" for al
      using mset_omap_update_fresh[OF None, of "\<lambda>e. al_id (snd e)"] by simp
    then show ?thesis
      by (cases idx) (auto simp: c' c1 alloc_ids_def simp del: mset_map set_mset_mset)
  qed (use ev in \<open>auto simp: handle_alloc_def alloc_ids_def\<close>)
  then show "locksOFile c' = locksOFile c" "set_mset (alloc_ids c) \<subseteq> set_mset (alloc_ids c')" by simp_all
qed

lemma handle_free_written:
  assumes "conv_inv k c"
  shows "alloc_ids (handle_free ts b sz c) = alloc_ids c" and "locksOFile (handle_free ts b sz c) = locksOFile c"
    and "m_heap (lockManager (handle_free ts b sz c)) = m_heap (lockManager c)"
proof -
  show "alloc_ids (handle_free ts b sz c) = alloc_ids c"
  proof (cases "omap_lookup (activeAllocs c) b")
    case None
    then show ?thesis by (simp add: handle_free_def alloc_ids_def)
  next
    case (Some al)
    then have "mset (map (\<lambda>e. al_id (snd e)) (activeAllocs c)) =
        add_mset (al_id al) (mset (map (\<lambda>e. al_id (snd e)) (omap_delete b (activeAllocs c))))"
      using assms mset_omap_delete[OF _ Some, of "\<lambda>e. al_id (snd e)"] by (simp add: conv_inv_def alloc_inv_def)
    then show ?thesis using Some by (simp add: handle_free_def alloc_ids_def alloc_row_of_def del: mset_map)
  qed
qed (auto simp: handle_free_def deleteLockByArea_frame split: option.split)

lemma handle_access_written:
  assumes ev: "handle_access env a ts addr sz b ip st x c = Inr c'"
  shows "locksOFile c' = locksOFile c" and "alloc_ids c' = alloc_ids c"
proof -
  have same: "locksOFile c2 = locksOFile c \<and> allocOFile c2 = allocOFile c \<and> activeAllocs c2 = activeAllocs c"
    if "addStacktrace env ip st c = Inr (i, c2)" for i c2
    using that
  proof (cases rule: addStacktrace_cases)
    case 1
    from arg_cong[OF 1(3), of locksOFile] arg_cong[OF 1(3), of allocOFile] arg_cong[OF 1(3), of activeAllocs]
    show ?thesis by simp
  next
    case (2 rows)
    from arg_cong[OF 2(4), of locksOFile] arg_cong[OF 2(4), of allocOFile] arg_cong[OF 2(4), of activeAllocs]
    show ?thesis by simp
  qed
  have "locksOFile c' = locksOFile c \<and> alloc_ids c' = alloc_ids c"
    using ev by (auto simp: handle_access_def bindE_Inr_iff alloc_ids_def dest!: same split: option.splits if_splits)
  then show "locksOFile c' = locksOFile c" "alloc_ids c' = alloc_ids c" by simp_all
qed

lemma write_accesses_locks: "locksOFile (writeMemAccesses env a p c) = locksOFile c"
proof -
  have "locksOFile (fold (write_access env) as c) = locksOFile c" for "as"
    by (induction "as" arbitrary: c) (simp_all add: write_access_def Let_def)
  then show ?thesis by (simp add: writeMemAccesses_def)
qed

section \<open>The whole run\<close>

lemma event_step_written:
  assumes inv: "conv_inv k c" and k: "k < 2 ^ 31" and w: "locks_written env c"
    and ev: "event_step env v c = Inr c'"
  shows "locks_written env c'"
proof (cases "\<not> processSeqlock env \<and> is_seqlock (v_lockType v)")
  case True
  then show ?thesis using ev w by (simp add: event_step_def)
next
  case False
  let ?c = "writeMemAccesses env (v_action v) (v_address v) c"
  have ev': "handle_event env v ?c = Inr c'" using ev False by (auto simp: event_step_def)
  have inv': "conv_inv k ?c" by (rule writeMemAccesses_inv[OF inv k])
  have w': "locks_written env ?c"
    by (rule locks_written_mono[OF w])
      (simp_all add: write_accesses_locks write_same_locks alloc_ids_def write_accesses_frame)
  have other: "locks_written env c2" if "locksOFile c2 = locksOFile ?c" "m_heap (lockManager c2) = m_heap (lockManager ?c)"
    "set_mset (alloc_ids ?c) \<subseteq> set_mset (alloc_ids c2)" for c2
    using locks_written_mono[OF w' that(1) _ that(3)] that(2) by simp
  have alloc: "locks_written env c2" if "handle_alloc ts ty b sz ?c = Inr c2" for ts ty b sz c2
    using handle_alloc_written[OF that] handle_alloc_lm[OF that] by (intro other) simp_all
  have acc: "locks_written env c2" if "handle_access env a ts addr sz b ip st x ?c = Inr c2" for a ts addr sz b ip st x c2
    using handle_access_written[OF that] handle_access_lm[OF that] by (intro other) simp_all
  have free: "locks_written env (handle_free ts b sz ?c)" for ts b sz
    using handle_free_written[OF inv'] by (intro other) simp_all
  have unknown: "locks_written env (?c\<lparr>conv_cerr := ds\<rparr>)" for ds
    by (rule other) (simp_all add: alloc_ids_def)
  consider "v_action v = CHR ''a''" | "v_action v = CHR ''f''" | "v_action v = CHR ''l''"
    | "v_action v = CHR ''r'' \<or> v_action v = CHR ''w''"
    | "v_action v \<noteq> CHR ''a''" "v_action v \<noteq> CHR ''f''" "v_action v \<noteq> CHR ''l''"
      "v_action v \<noteq> CHR ''r''" "v_action v \<noteq> CHR ''w''" by blast
  then show ?thesis
  proof cases
    case 1
    then show ?thesis using ev' by (intro alloc) (simp add: handle_event_def)
  next
    case 2
    then show ?thesis using ev' free by (auto simp: handle_event_def)
  next
    case 3
    then show ?thesis using ev' by (intro handlePV_written[OF inv' k w']) (simp add: handle_event_def)
  next
    case 4
    then have "handle_access env (v_action v) (v_ts v) (v_address v) (v_size v) (v_baseAddress v)
        (v_instrPtr v) (v_stacktrace v) (v_ctx v) ?c = Inr c'"
      using ev' by (auto simp: handle_event_def)
    then show ?thesis by (rule acc)
  next
    case 5
    then show ?thesis using ev' unknown by (auto simp: handle_event_def)
  qed
qed

lemma process_lines_written:
  "process_lines env ls (v, c) = Inr (v', c') \<Longrightarrow> conv_inv k c \<Longrightarrow> k + length ls < 2 ^ 31 \<Longrightarrow>
     locks_written env c \<Longrightarrow> locks_written env c'"
proof (induction ls arbitrary: v c k)
  case (Cons l ls)
  then obtain v1 c1 where 1: "process_line env l (v, c) = Inr (v1, c1)"
    and 2: "process_lines env ls (v1, c1) = Inr (v', c')" by (auto simp: bindE_Inr_iff)
  obtain ds where ev: "event_step env v1 (c\<lparr>conv_cerr := conv_cerr c @ ds\<rparr>) = Inr c1"
    using 1 by (rule process_line_event)
  have "locks_written env (c\<lparr>conv_cerr := conv_cerr c @ ds\<rparr>)"
    by (rule locks_written_mono[OF Cons.prems(4)]) (simp_all add: alloc_ids_def)
  then have "locks_written env c1"
    using event_step_written[OF _ _ _ ev] Cons.prems(2,3) by simp
  moreover have "conv_inv (k + 1) c1" using process_line_inv[OF Cons.prems(2) _ 1] Cons.prems(3) by simp
  ultimately show ?case using Cons.IH[OF 2] Cons.prems(3) by simp
qed simp

section \<open>When the run is over\<close>

definition locks_csv_ok :: "conv_env \<Rightarrow> conv \<Rightarrow> bool" where
  "locks_csv_ok env c \<longleftrightarrow> (\<exists>rows. locksOFile c = lock_file (delimiter env) rows \<and>
     distinct (map kr_id rows) \<and> lock_rows_ok c rows \<and>
     hr_lock_id ` set (m_locksHeldOFile (lockManager c)) \<subseteq> kr_id ` set rows \<and>
     (pseudo_ok env \<longrightarrow>
        (\<forall>r \<in> set rows. kr_alloc r = 0 \<or> ucast (kr_alloc r) \<in> lr_id ` set (allocOFile c))))"

definition all_tables_ok :: "conv_env \<Rightarrow> conv \<Rightarrow> bool" where
  "all_tables_ok env c \<longleftrightarrow> tables_ok c \<and> locks_csv_ok env c \<and>
     (\<forall>r \<in> set (allocOFile c). lr_subclass_id r = 0 \<or> lr_subclass_id r \<in> sc_id ` set (subclasses c)) \<and>
     (side_free (lockManager c) \<longrightarrow> txn_refs_ok c)"

lemma lock_row_ids:
  assumes "lock_rows_ok c rows"
  shows "mset (map kr_id rows) = mset (concat (map sub_ids (m_heap (lockManager c))))"
proof -
  have "map kr_id rows = map kr_id (map (kr_flags_update (\<lambda>_. 0)) rows)" by simp
  also have "\<dots> = concat (map (map kr_id \<circ> rows_of_lock \<circ> lock_ident) (m_heap (lockManager c)))"
    using assms by (simp add: lock_rows_ok_def map_concat comp_assoc)
  also have "mset \<dots> = mset (concat (map sub_ids (m_heap (lockManager c))))"
    using rows_of_lock_ids by (induction "m_heap (lockManager c)") (simp_all add: mset_concat comp_def)
  finally show ?thesis .
qed

lemma finish_run_written:
  assumes fin: "finish_run env (v, c) = Some (Inr c')" and w: "locks_written env c" and ok: "tables_ok c'"
  shows "locks_csv_ok env c'"
proof -
  let ?c1 = "c\<lparr>allocOFile := allocOFile c @ map (\<lambda>(b, al). alloc_row_of c b al (al_size al) None) (activeAllocs c)\<rparr>"
  let ?c2 = "writeMemAccesses env (CHR ''v'') 0 ?c1"
  obtain lm where cl: "closeAllTXNs (v_ts v) (lockManager ?c2) = Some (Inr lm)" and c': "c' = ?c2\<lparr>lockManager := lm\<rparr>"
    using fin by (auto simp: finish_run_def Let_def split: option.splits sum.splits)
  obtain acts where "lm_path acts (lockManager ?c2) lm"
    using closeTXNs_of_path cl unfolding closeAllTXNs_def by blast
  from path_idents[OF this] have idents: "map lock_ident (m_heap lm) = map lock_ident (m_heap (lockManager c))"
    by (simp add: write_same_locks)
  have ids: "set_mset (alloc_ids c) = lr_id ` set (allocOFile c')"
    by (auto simp: c' write_accesses_frame alloc_ids_def alloc_row_of_def image_Un image_image case_prod_beta)
  from w obtain rows where rows: "locksOFile c = lock_file (delimiter env) rows" "lock_rows_ok c rows"
    "pseudo_ok env \<longrightarrow> (\<forall>r \<in> set rows. kr_alloc r = 0 \<or> ucast (kr_alloc r) \<in># alloc_ids c)"
    by (auto simp: locks_written_def)
  have "map (rows_of_lock \<circ> lock_ident) (m_heap lm) = map (rows_of_lock \<circ> lock_ident) (m_heap (lockManager c))"
    using arg_cong[OF idents, of "map rows_of_lock"] by simp
  then have r: "lock_rows_ok c' rows" using rows(2) by (simp add: lock_rows_ok_def c')
  note kr = lock_row_ids[OF r]
  have "distinct (map kr_id rows)"
    using ok mset_eq_imp_distinct_iff[OF kr] by (simp add: tables_ok_def)
  moreover have "kr_id ` set rows = lock_ids (lockManager c')"
    using mset_eq_setD[OF kr] by (simp add: lock_ids_def)
  then have "hr_lock_id ` set (m_locksHeldOFile (lockManager c')) \<subseteq> kr_id ` set rows"
    using ok by (simp add: tables_ok_def)
  moreover have "locksOFile c' = lock_file (delimiter env) rows"
    using rows(1) by (simp add: c' write_accesses_locks)
  ultimately show ?thesis using r rows(3) unfolding locks_csv_ok_def ids by blast
qed

lemma convert_trace_tables:
  assumes "length inputLines < 2 ^ 31"
  shows "(\<exists>e. convert_trace env inputLines (init_conv env dts names n) = Some (Inl e)) \<or>
    (\<exists>c. convert_trace env inputLines (init_conv env dts names n) = Some (Inr c) \<and> all_tables_ok env c \<and>
      (\<forall>ctx. \<not> hasActiveTXN (lockManager c) ctx))"
proof (cases "\<exists>e. convert_trace env inputLines (init_conv env dts names n) = Some (Inl e)")
  case False
  then obtain c where c: "convert_trace env inputLines (init_conv env dts names n) = Some (Inr c)"
    and ok: "tables_ok c" "\<forall>ctx. \<not> hasActiveTXN (lockManager c) ctx" "side_free (lockManager c) \<longrightarrow> txn_refs_ok c"
    using convert_trace_ok[OF assms] by blast
  then obtain v c0 where run: "process_lines env (skip_header inputLines) (init_vars, init_conv env dts names n) = Inr (v, c0)"
    and fin: "finish_run env (v, c0) = Some (Inr c)"
    by (auto simp: convert_trace_def split: sum.splits)
  have len: "length (skip_header inputLines) < 2 ^ 31"
    using assms by (cases inputLines) (auto simp: skip_header_def)
  have "locks_written env (init_conv env dts names n)"
    by (auto simp: locks_written_def init_conv_def alloc_ids_def lock_rows_ok_def lock_file_def new_LockManager_def
        intro: exI[of _ "[]"])
  then have "locks_written env c0" using process_lines_written[OF run init_conv_inv] len by simp
  then have "locks_csv_ok env c" by (rule finish_run_written[OF fin _ ok(1)])
  moreover have "lr_subclass_id r = 0 \<or> lr_subclass_id r \<in> sc_id ` set (subclasses c)" if "r \<in> set (allocOFile c)" for r
    using convert_trace_sub[OF c] that unfolding alloc_sub_ok_def subclass_inv_def by (metis imageI nth_mem)
  ultimately show ?thesis using c ok by (auto simp: all_tables_ok_def)
qed simp

section \<open>Writing out the accesses\<close>

text \<open>
  The accesses \<open>kept\<close> are written in order, each with the id of the transaction that was open in
  its context; that transaction counts them, nothing else on the stacks changes, and none is left.
\<close>

definition access_row_of :: "conv_env \<Rightarrow> LockManager \<Rightarrow> MemAccess \<Rightarrow> access_row" where
  "access_row_of env lm a =
     \<lparr>ar_id = ma_id a, ar_alloc_id = ma_alloc_id a,
      ar_txn_id = (case txn_stack lm (access_ctx env a) of [] \<Rightarrow> None | t # _ \<Rightarrow> Some (txn_id t)),
      ar_ts = ma_ts a, ar_action = ma_action a, ar_size = ma_size a, ar_address = ma_address a,
      ar_stacktrace_id = ma_stacktrace_id a, ar_ctx = ma_ctx a\<rparr>"

definition charged :: "conv_env \<Rightarrow> MemAccess list \<Rightarrow> int \<Rightarrow> TXN list \<Rightarrow> TXN list" where
  "charged env as ctx stk = (case stk of [] \<Rightarrow> []
     | t # below \<Rightarrow> t\<lparr>memAccessCounter := memAccessCounter t +
         of_nat (length (filter (\<lambda>a. access_ctx env a = ctx) as))\<rparr> # below)"

definition written_out :: "conv_env \<Rightarrow> MemAccess list \<Rightarrow> conv \<Rightarrow> conv \<Rightarrow> bool" where
  "written_out env kept c c' \<longleftrightarrow>
     accessOFile c' = accessOFile c @ map (access_row_of env (lockManager c)) kept \<and>
     lastMemAccesses c' = [] \<and>
     (\<forall>ctx. txn_stack (lockManager c') ctx = charged env kept ctx (txn_stack (lockManager c) ctx))"

lemma fold_write_access_charged:
  "accessOFile (fold (write_access env) as c) = accessOFile c @ map (access_row_of env (lockManager c)) as \<and>
   txn_stack (lockManager (fold (write_access env) as c)) = (\<lambda>ctx. charged env as ctx (txn_stack (lockManager c) ctx))"
proof (induction "as" arbitrary: c)
  case Nil
  show ?case by (simp add: charged_def fun_eq_iff split: list.split)
next
  case (Cons a "as")
  let ?c = "write_access env a c"
  have stk: "txn_stack (lockManager ?c) = (\<lambda>ctx. charged env [a] ctx (txn_stack (lockManager c) ctx))"
    by (auto simp: write_access_def Let_def count_access_def charged_def lm_simps fun_eq_iff split: list.splits)
  have row: "accessOFile ?c = accessOFile c @ [access_row_of env (lockManager c) a]"
    by (simp add: write_access_def Let_def access_row_of_def getActiveTXN_def split: list.split)
  have "access_row_of env (lockManager ?c) = access_row_of env (lockManager c)"
    by (auto simp: access_row_of_def stk charged_def fun_eq_iff split: list.split)
  moreover have "charged env as ctx (charged env [a] ctx stk) = charged env (a # as) ctx stk" for ctx stk
    by (simp add: charged_def split: list.split)
  ultimately show ?case using Cons[of ?c] by (simp add: row stk)
qed

lemma drop_lock_word_pair:
  "drop_lock_word act addr (pre @ [w0, w1]) =
     (if (act = CHR ''p'' \<or> act = CHR ''v'') \<and> is_lock_word_pair addr w0 w1 then pre else pre @ [w0, w1])"
  by (simp add: drop_lock_word_def LOOK_BEHIND_WINDOW_def Let_def nth_append)

lemma drop_lock_word_other:
  "length as < 2 \<or> act \<noteq> CHR ''p'' \<and> act \<noteq> CHR ''v'' \<Longrightarrow> drop_lock_word act addr as = as"
  by (auto simp: drop_lock_word_def LOOK_BEHIND_WINDOW_def Let_def)

lemma written_out_kept:
  assumes "act \<noteq> CHR ''r''" and "act \<noteq> CHR ''w''"
  shows "written_out env (drop_lock_word act addr (lastMemAccesses c)) c (writeMemAccesses env act addr c)"
  using assms fold_write_access_charged[of env "drop_lock_word act addr (lastMemAccesses c)" c]
  by (simp add: written_out_def writeMemAccesses_def)

end
