(* ===== verification/Convert_Properties.thy ===== *)
theory Convert_Properties
  imports Convert_Tables "HOL-Library.Code_Target_Nat"
begin

text \<open>
  Properties of the converter as a whole, from the lines of the trace to the rows of the tables,
  tried on a small trace: one allocation, one locked memory access.
\<close>

section \<open>An example trace\<close>

definition example_env :: conv_env where
  "example_env = \<lparr>ctxTracing = False, processSeqlock = False, includeAllLocks = False, pseudoAllocID = 0,
     kernelBaseDir = ''/k/'', delimiter = CHR '';'', dataSections = [],
     getGlobalLockVar = (\<lambda>_. None),
     get_function_at_addr = (\<lambda>_ _.
       \<lparr>codeLocation = \<lparr>cl_fn = ''f'', cl_file = ''f.c'', cl_line = 1\<rparr>, inlinedBy = []\<rparr>)\<rparr>"

definition example_lines :: "string list" where
  "example_lines = [''ts;action'', ''1;a;;1000;64;;inode;;;;;;;0'',
     ''2;l;1;1008;;;mutex;m;/k/f.c;10;;;0;0'', ''3;w;;1010;8;1000;;;;;c0de;;;0'',
     ''4;l;3;1008;;;mutex;m;/k/f.c;12;;;0;0'']"

abbreviation example_conv :: conv where
  "example_conv \<equiv> init_conv example_env [\<lparr>dt_id = 1, dt_name = ''inode'', foundInDw = True\<rparr>] [] 1"

lemma example_length: "length example_lines < 2 ^ 31"
  by (simp add: example_lines_def)

lemma example_run:
  "(case convert_trace example_env example_lines example_conv of
      Some (Inr c) \<Rightarrow> map ar_txn_id (accessOFile c) = [Some 1] \<and> m_cerr (lockManager c) = []
    | _ \<Rightarrow> False)"
  by code_simp

lemma example_runE:
  obtains c where "convert_trace example_env example_lines example_conv = Some (Inr c)"
    and "map ar_txn_id (accessOFile c) = [Some 1]" and "side_free (lockManager c)"
  using example_run
  by (auto simp: side_free_def split: option.splits sum.splits)

section \<open>The tables of a run\<close>

text \<open>
  C1: the converter ends on every trace (of fewer than 2 to the power 31 lines), with an error or
  with tables in which every primary key is unique and every reference leads to a row; no
  transaction is left open. The text of \<^verbatim>\<open>locks.csv\<close> is that of rows with distinct ids,
  exactly one for every sub lock of every lock object that was created; the references followed are
  those from \<^verbatim>\<open>locks_held.csv\<close> to \<^verbatim>\<open>txns.csv\<close> and \<^verbatim>\<open>locks.csv\<close>, from
  \<^verbatim>\<open>locks.csv\<close> to \<^verbatim>\<open>allocations.csv\<close> (if the pseudo allocation has the id of its row,
  as the program arranges), from \<^verbatim>\<open>accesses.csv\<close> to \<^verbatim>\<open>allocations.csv\<close> and
  \<^verbatim>\<open>stacktraces.csv\<close>, and from \<^verbatim>\<open>allocations.csv\<close> to the subclasses. The transaction
  of an access is a row of \<^verbatim>\<open>txns.csv\<close> if no side of a lock was acquired while the other was
  held; without this condition it need not be, because the readers that are then removed are not
  written (\<^verbatim>\<open>lockmanager.cc\<close>, line 166).
\<close>

theorem convert_tables:
  assumes "length inputLines < 2 ^ 31"
  shows "(\<exists>e. convert_trace env inputLines (init_conv env dts names n) = Some (Inl e)) \<or>
    (\<exists>c. convert_trace env inputLines (init_conv env dts names n) = Some (Inr c) \<and> all_tables_ok env c \<and>
      (\<forall>ctx. \<not> hasActiveTXN (lockManager c) ctx))"
  using convert_trace_tables[OF assms] .

theorem convert_tables_witness:
  "\<exists>c. convert_trace example_env example_lines example_conv = Some (Inr c) \<and> all_tables_ok example_env c \<and>
     locksOFile c = ''1;4104;1;mutex;w;'' @ sql_null @ '';0'' @ [newline]"
proof -
  have "case convert_trace example_env example_lines example_conv of
      Some (Inr c) \<Rightarrow> locksOFile c = ''1;4104;1;mutex;w;'' @ sql_null @ '';0'' @ [newline] | _ \<Rightarrow> False" by code_simp
  then obtain c where "convert_trace example_env example_lines example_conv = Some (Inr c)"
    and "locksOFile c = ''1;4104;1;mutex;w;'' @ sql_null @ '';0'' @ [newline]"
    by (auto split: option.splits sum.splits)
  with convert_tables[OF example_length, of example_env "[\<lparr>dt_id = 1, dt_name = ''inode'', foundInDw = True\<rparr>]" "[]" 1]
  show ?thesis by auto
qed

text \<open>
  C2: if the trace never acquires one side of a lock while the other side is held, every
  transaction id in \<^verbatim>\<open>accesses.csv\<close> is the id of a row of \<^verbatim>\<open>txns.csv\<close>, although empty
  transactions are not written.
\<close>

theorem convert_txn_refs:
  assumes "length inputLines < 2 ^ 31"
    and "convert_trace env inputLines (init_conv env dts names n) = Some (Inr c)"
    and "\<forall>p. ReadSideHeld p \<notin> set (m_cerr (lockManager c)) \<and> WriteSideHeld p \<notin> set (m_cerr (lockManager c))"
    and "r \<in> set (accessOFile c)" and "ar_txn_id r = Some i"
  shows "\<exists>t \<in> set (m_txnsOFile (lockManager c)). tr_id t = i"
proof -
  have "side_free (lockManager c)" using assms(3) by (auto simp: side_free_def side_diag_def)
  then have "txn_refs_ok c" using convert_trace_ok[OF assms(1), of env dts names n] assms(2) by auto
  then show ?thesis using assms(4,5) by (auto simp: txn_refs_ok_def)
qed

theorem convert_txn_refs_witness:
  "\<exists>c. convert_trace example_env example_lines example_conv = Some (Inr c) \<and>
     (\<exists>t \<in> set (m_txnsOFile (lockManager c)). tr_id t = 1)"
proof -
  obtain c where c: "convert_trace example_env example_lines example_conv = Some (Inr c)"
    and rows: "map ar_txn_id (accessOFile c) = [Some 1]" and sf: "side_free (lockManager c)"
    by (rule example_runE)
  obtain r where "r \<in> set (accessOFile c)" "ar_txn_id r = Some 1"
    using rows by (metis (no_types, lifting) imageE list.set_intros(1) list.set_map)
  moreover have "\<forall>p. ReadSideHeld p \<notin> set (m_cerr (lockManager c)) \<and> WriteSideHeld p \<notin> set (m_cerr (lockManager c))"
    using sf by (auto simp: side_free_def side_diag_def)
  ultimately show ?thesis using convert_txn_refs[OF example_length c] c by blast
qed

text \<open>
  C12: without context tracing, on a trace whose lines parse and whose locks are not recursive, no
  line makes the program read past the end of a container or pop an empty one; and every line that
  is processed does to the locks what its event says. A lock event makes one step of the abstract
  lock (\<^const>\<open>lock_step\<close>: read transactions, write transaction, writer count as the code keeps
  it) at its address, a free one if the address had none, and leaves all other locks alone; an
  acquisition of a lock that is outside of all known memory, a release of an unknown lock and every
  other event change no lock. Reader counts, recorded positions and open transactions agree to the end
  (the writer count can exceed the open write transactions: a lock acquired twice for writing is
  counted twice).
\<close>

theorem convert_defined:
  assumes "\<not> ctxTracing env" and "kernelBaseDir env \<noteq> []" and "length ls < 2 ^ 31"
    and "plain_trace env init_vars ls"
  shows "no_ub (process_lines env ls (init_vars, init_conv env dts names n)) \<and>
    (\<forall>v c. process_lines env ls (init_vars, init_conv env dts names n) = Inr (v, c) \<longrightarrow>
       sync (lockManager c) DUMMY_EXECUTION_CONTEXT) \<and>
    (\<forall>ls1 l ls2 v c v' c'. ls = ls1 @ l # ls2 \<longrightarrow>
       process_lines env ls1 (init_vars, init_conv env dts names n) = Inr (v, c) \<longrightarrow>
       process_line env l (v, c) = Inr (v', c') \<longrightarrow> locks_follow env v' c c')"
proof -
  have sy: "sync (lockManager (init_conv env dts names n)) DUMMY_EXECUTION_CONTEXT"
    using new_LockManager_ok
    by (auto simp: sync_def init_conv_def lm_ok_def held_def txn_stack_def new_LockManager_def)
  have "locks_follow env v' c c'" if "ls = ls1 @ l # ls2"
    "process_lines env ls1 (init_vars, init_conv env dts names n) = Inr (v, c)"
    "process_line env l (v, c) = Inr (v', c')" for ls1 l ls2 v c v' c'
    using process_lines_follow[OF assms(2,1) _ sy init_conv_inv _ that(2,3)] assms(3,4) that(1) by simp
  then show ?thesis
    using process_lines_sync[OF assms(2,1,4) sy init_conv_inv] assms(3) by simp
qed

theorem convert_defined_witness:
  "no_ub (process_lines example_env (skip_header example_lines) (init_vars, example_conv))"
proof -
  have "plain_trace example_env init_vars (skip_header example_lines)" by code_simp
  then show ?thesis
    using convert_defined[of example_env "skip_header example_lines" "[\<lparr>dt_id = 1, dt_name = ''inode'', foundInDw = True\<rparr>]" "[]" 1]
    by (simp add: example_env_def example_lines_def skip_header_def is_digit_def)
qed

section \<open>Memory accesses\<close>

text \<open>
  C34: every event but a read or a write writes out the accesses collected since the last one, in
  order, charges each to the transaction that is open in its context (the row has its id, the
  transaction counts it, and nothing else on the stacks changes) and forgets them. The last two are
  left out exactly if the action is \<^verbatim>\<open>p\<close> or \<^verbatim>\<open>v\<close> and they are the read and the write
  of the lock word. The comment in \<^verbatim>\<open>writeMemAccesses\<close> says that this pair has to be discarded
  before an acquisition or a release, but the trace has the action \<^verbatim>\<open>l\<close> for both, so that it is
  written before every lock event.
\<close>

theorem lock_event_writes_all:
  assumes "act \<noteq> CHR ''r''" and "act \<noteq> CHR ''w''"
  shows "\<exists>kept. written_out env kept c (writeMemAccesses env act addr c) \<and>
    (if (act = CHR ''p'' \<or> act = CHR ''v'') \<and>
        (\<exists>pre w0 w1. lastMemAccesses c = pre @ [w0, w1] \<and> is_lock_word_pair addr w0 w1)
     then \<exists>w0 w1. lastMemAccesses c = kept @ [w0, w1] \<and> is_lock_word_pair addr w0 w1
     else kept = lastMemAccesses c)"
proof -
  let ?as = "lastMemAccesses c"
  consider "length ?as < 2" | pre w0 w1 where "?as = pre @ [w0, w1]"
    by (cases ?as rule: rev_cases, simp, metis append.assoc append_Cons append_Nil length_append_singleton
        less_2_cases_iff list.size(3) rev_exhaust)
  then have "if (act = CHR ''p'' \<or> act = CHR ''v'') \<and>
        (\<exists>pre w0 w1. ?as = pre @ [w0, w1] \<and> is_lock_word_pair addr w0 w1)
     then \<exists>w0 w1. ?as = drop_lock_word act addr ?as @ [w0, w1] \<and> is_lock_word_pair addr w0 w1
     else drop_lock_word act addr ?as = ?as"
  proof cases
    case 1
    then show ?thesis using drop_lock_word_other by fastforce
  next
    case (2 pre w0 w1)
    then show ?thesis by (auto simp: drop_lock_word_pair)
  qed
  then show ?thesis using written_out_kept[OF assms] by blast
qed

definition example_pair :: conv where
  "example_pair = example_conv\<lparr>lastMemAccesses := map
     (\<lambda>act. \<lparr>ma_id = 1, ma_ts = 2, ma_alloc_id = 1, ma_action = act, ma_size = 4, ma_address = 0x1008,
       ma_stacktrace_id = 1, ma_ctx = 0\<rparr>) ''rw''\<rparr>"

theorem lock_event_writes_all_witness:
  "map ar_action (accessOFile (writeMemAccesses example_env (CHR ''l'') 0x1008 example_pair)) = ''rw'' \<and>
   accessOFile (writeMemAccesses example_env (CHR ''v'') 0x1008 example_pair) = []"
proof -
  have w: "written_out example_env (lastMemAccesses example_pair) example_pair
      (writeMemAccesses example_env (CHR ''l'') 0x1008 example_pair)"
    using lock_event_writes_all[of "CHR ''l''" example_env example_pair "0x1008"] by auto
  moreover have "\<exists>pre w0 w1. lastMemAccesses example_pair = pre @ [w0, w1] \<and> is_lock_word_pair 0x1008 w0 w1"
    by (intro exI[of _ "[]"]) (simp add: example_pair_def is_lock_word_pair_def)
  then have "\<exists>kept w0 w1. written_out example_env kept example_pair
      (writeMemAccesses example_env (CHR ''v'') 0x1008 example_pair) \<and> lastMemAccesses example_pair = kept @ [w0, w1]"
    using lock_event_writes_all[of "CHR ''v''" example_env example_pair "0x1008"] by auto
  ultimately show ?thesis
    by (auto simp: written_out_def access_row_of_def example_pair_def init_conv_def)
qed

text \<open>
  C33: a memory access that is kept lies inside its allocation. The hypotheses say that neither the
  end of the access nor the end of the allocation wraps around the address space.
\<close>

theorem kept_access_in_bounds:
  assumes "handle_access env action ts address sz base instrPtr stacktrace ctx c = Inr c'"
    and "omap_lookup (activeAllocs c) base = Some al"
    and "0 \<le> al_size al" and "unat base + nat (al_size al) < 2 ^ 64" and "al_size al < 2 ^ 31"
    and "unat address + unat sz < 2 ^ 64"
  shows "unat base \<le> unat address \<and> unat address + unat sz \<le> unat base + nat (al_size al) \<and>
    (\<exists>a. lastMemAccesses c' = lastMemAccesses c @ [a] \<and> ma_address a = address \<and> ma_alloc_id a = al_id al)"
proof -
  have out: "\<not> access_outside address sz base al" using assms(1,2) by (auto simp: handle_access_def)
  have "unat (ull_of_int (al_size al)) = nat (al_size al)"
    using assms(3,5) by (simp add: ull_of_int_def unat_eq_nat_uint uint_word_of_int)
  then have "unat (base + ull_of_int (al_size al)) = unat base + nat (al_size al)"
    using assms(4) by (simp add: unat_word_ariths)
  moreover have "unat (address + sz) = unat address + unat sz"
    using assms(6) by (simp add: unat_word_ariths)
  ultimately have "unat base \<le> unat address \<and> unat address + unat sz \<le> unat base + nat (al_size al)"
    using out by (auto simp: access_outside_def word_less_nat_alt not_less)
  moreover obtain sid c1 where st: "addStacktrace env instrPtr stacktrace c = Inr (sid, c1)"
    and c': "lastMemAccesses c' = lastMemAccesses c1 @
         [\<lparr>ma_id = curAccessID c, ma_ts = ts, ma_alloc_id = al_id al, ma_action = action,
           ma_size = int_of_ull sz, ma_address = address, ma_stacktrace_id = sid, ma_ctx = ctx\<rparr>]"
    using assms(1,2) out by (auto simp: handle_access_def bindE_Inr_iff)
  moreover from st have "lastMemAccesses c1 = lastMemAccesses c"
  proof (cases rule: addStacktrace_cases)
    case 1
    from arg_cong[OF 1(3), of lastMemAccesses] show ?thesis by simp
  next
    case (2 rows)
    from arg_cong[OF 2(4), of lastMemAccesses] show ?thesis by simp
  qed
  ultimately show ?thesis by simp
qed

definition example_alloc :: conv where
  "example_alloc = example_conv\<lparr>activeAllocs :=
     [(0x1000, \<lparr>al_start = 1, al_id = 1, al_size = 64, subclass_idx = 0\<rparr>)]\<rparr>"

theorem kept_access_in_bounds_witness:
  "\<exists>c' a. handle_access example_env (CHR ''w'') 3 0x1010 8 0x1000 0xc0de [] 0 example_alloc = Inr c' \<and>
     lastMemAccesses c' = [a] \<and> ma_address a = 0x1010"
proof -
  have "case handle_access example_env (CHR ''w'') 3 0x1010 8 0x1000 0xc0de [] 0 example_alloc of
      Inl _ \<Rightarrow> False | Inr _ \<Rightarrow> True" by code_simp
  then obtain c' where c': "handle_access example_env (CHR ''w'') 3 0x1010 8 0x1000 0xc0de [] 0 example_alloc = Inr c'"
    by (auto split: sum.splits)
  have "lastMemAccesses example_alloc = []"
    and "omap_lookup (activeAllocs example_alloc) 0x1000 =
      Some \<lparr>al_start = 1, al_id = 1, al_size = 64, subclass_idx = 0\<rparr>"
    by (simp_all add: example_alloc_def init_conv_def)
  with kept_access_in_bounds[OF c' this(2)] c' show ?thesis by auto
qed


section \<open>Allocations and stack traces\<close>

text \<open>
  C31: an allocation that is accepted is found under its base address, and freeing it writes one
  row with its id and both timestamps, forgets the allocation and every lock inside it, and
  leaves the other allocations alone.
\<close>

theorem alloc_free_roundtrip:
  assumes "handle_alloc ts typeStr base sz c = Inr c1" and "activeAllocs c1 \<noteq> activeAllocs c"
    and "lm_ok (lockManager c)"
  shows "\<exists>al row. omap_lookup (activeAllocs c1) base = Some al \<and> al_start al = ts \<and>
    al_id al = curAllocID c \<and> al_size al = int_of_ull sz \<and>
    allocOFile (handle_free ts' base sz' c1) = allocOFile c @ [row] \<and> lr_id row = al_id al \<and>
    lr_base row = base \<and> lr_start row = ts \<and> lr_end row = Some ts' \<and>
    omap_lookup (activeAllocs (handle_free ts' base sz' c1)) = omap_lookup (activeAllocs c) \<and>
    (\<forall>a. in_area base (ull_of_int (int_of_ull sz)) a \<longrightarrow>
       findLock (lockManager (handle_free ts' base sz' c1)) a = None)"
proof -
  have fresh: "omap_lookup (activeAllocs c) base = None"
    using assms(1,2) by (auto simp: handle_alloc_def split: if_splits)
  then obtain idx c0 where s: "subclass_for ts typeStr c = Inr (idx, c0)"
    and c1: "c1 = (case idx of None \<Rightarrow> c0 | Some i \<Rightarrow> c0\<lparr>curAllocID := curAllocID c0 + 1,
       activeAllocs := omap_update base \<lparr>al_start = ts, al_id = curAllocID c0, al_size = int_of_ull sz,
         subclass_idx = i\<rparr> (activeAllocs c0)\<rparr>)"
    using assms(1) by (auto simp: handle_alloc_def bindE_Inr_iff split: option.splits)
  note fr = subclass_for_frame(1)[OF s]
  have same: "activeAllocs c0 = activeAllocs c" "curAllocID c0 = curAllocID c" "allocOFile c0 = allocOFile c"
    "lockManager c0 = lockManager c"
    by (use arg_cong[OF fr, of activeAllocs] arg_cong[OF fr, of curAllocID] arg_cong[OF fr, of allocOFile]
        arg_cong[OF fr, of lockManager] in simp_all)
  obtain i where "idx = Some i" using c1 same(1) assms(2) by (cases idx) auto
  then show ?thesis
    using fresh deleteLockByArea_findLock[OF assms(3)]
    by (simp add: c1 same handle_free_def omap_simps alloc_row_of_def fun_eq_iff)
qed

theorem alloc_free_roundtrip_witness:
  "\<exists>c1 al. handle_alloc 7 ''inode'' 0x1000 64 example_conv = Inr c1 \<and>
     omap_lookup (activeAllocs c1) 0x1000 = Some al \<and> al_start al = 7 \<and>
     omap_lookup (activeAllocs (handle_free 9 0x1000 64 c1)) = Map.empty"
proof -
  obtain c1 where c1: "handle_alloc 7 ''inode'' 0x1000 64 example_conv = Inr c1" and "activeAllocs c1 \<noteq> []"
    by (simp add: handle_alloc_def subclass_for_def split_type_def DELIMITER_SUBCLASS_def init_conv_def Let_def)
  then have ne: "activeAllocs c1 \<noteq> activeAllocs example_conv" by (simp add: init_conv_def)
  have "lm_ok (lockManager example_conv)" using new_LockManager_ok by (simp add: init_conv_def)
  from alloc_free_roundtrip[OF c1 ne this, of 9 64] c1 show ?thesis by (auto simp: init_conv_def)
qed

text \<open>
  stack traces are stored once. Adding a trace returns an id that has rows in
  \<^verbatim>\<open>stacktraces.csv\<close>; adding the same trace again returns the same id and writes nothing;
  and a trace with another instruction pointer or another text has another id.
\<close>

theorem addStacktrace_unique:
  assumes "stack_inv k c" and "k < 2 ^ 31" and "addStacktrace env ip st c = Inr (i, c')"
  shows "i \<in> sr_id ` set (stacktracesOFile c') \<and>
    (\<exists>c''. addStacktrace env ip st c' = Inr (i, c'') \<and> stacktracesOFile c'' = stacktracesOFile c') \<and>
    (\<forall>ip' st' j c''. addStacktrace env ip' st' c' = Inr (j, c'') \<longrightarrow>
       (ip', trim_stacktrace st') \<noteq> (ip, trim_stacktrace st) \<longrightarrow> j \<noteq> i)"
proof -
  note inv = addStacktrace_inv[OF assms]
  have again: "\<exists>c''. addStacktrace env ip st c' = Inr (i, c'') \<and> stacktracesOFile c'' = stacktracesOFile c'"
    using inv(5) by (auto simp: addStacktrace_def stack_lookup_def Let_def split: option.splits)
  have "j \<noteq> i" if ad: "addStacktrace env ip' st' c' = Inr (j, c'')"
    and ne: "(ip', trim_stacktrace st') \<noteq> (ip, trim_stacktrace st)" for ip' st' j c''
    using ad
  proof (cases rule: addStacktrace_cases)
    case 1
    then show ?thesis using inv(1,5) ne unfolding stack_inv_def by blast
  next
    case (2 rows)
    then show ?thesis using inv(1,2) unfolding stack_inv_def by force
  qed
  with inv(2) again show ?thesis by blast
qed

theorem addStacktrace_unique_witness:
  "\<exists>i c'. addStacktrace example_env 0xc0de ''beef,'' example_conv = Inr (i, c') \<and>
     i \<in> sr_id ` set (stacktracesOFile c')"
proof -
  have "case addStacktrace example_env 0xc0de ''beef,'' example_conv of Inl _ \<Rightarrow> False | Inr _ \<Rightarrow> True"
    by code_simp
  then obtain i c' where r: "addStacktrace example_env 0xc0de ''beef,'' example_conv = Inr (i, c')"
    by (auto split: sum.splits)
  have "stack_inv 0 example_conv" using init_conv_inv by (simp add: conv_inv_def)
  from addStacktrace_unique[OF this _ r] r show ?thesis by auto
qed

section \<open>Subclasses and blacklists\<close>

text \<open>
  every row of \<^verbatim>\<open>allocations.csv\<close> names a subclass that \<^verbatim>\<open>subclasses.csv\<close> lists
  (or the zero of the pseudo allocation), and the rows of \<^verbatim>\<open>function_blacklist.csv\<close> are
  numbered from 1 without gaps and name NULL or a listed subclass, although
  \<^verbatim>\<open>subclasses.csv\<close> is numbered by position and the others use the stored ids.
\<close>

theorem subclass_refs:
  assumes "convert_trace env inputLines (init_conv env dts names n) = Some (Inr c)"
    and "length (subclasses c) < 2 ^ 31"
  shows "(\<forall>r \<in> set (allocOFile c). lr_subclass_id r = 0 \<or>
      dec_u64 (lr_subclass_id r) \<in> set (map hd (subclass_rows c))) \<and>
    map hd (fst (function_blacklist c ls)) = map dec_of_nat [1..<Suc (length (fst (function_blacklist c ls)))] \<and>
    (\<forall>r \<in> set (fst (function_blacklist c ls)). r ! 1 = sql_null \<or> r ! 1 \<in> set (map hd (subclass_rows c)))"
proof -
  have ok: "alloc_sub_ok c" by (rule convert_trace_sub[OF assms(1)])
  then have inv: "subclass_inv c" by (simp add: alloc_sub_ok_def)
  have listed: "dec_u64 (sc_id s) \<in> set (map hd (subclass_rows c))" if "s \<in> set (subclasses c)" for s
    by (rule subclass_row_ids[OF inv assms(2) that])
  have "dec_u64 (lr_subclass_id r) \<in> set (map hd (subclass_rows c))"
    if r: "r \<in> set (allocOFile c)" "lr_subclass_id r \<noteq> 0" for r
  proof -
    obtain i where i: "i < length (subclasses c)" "lr_subclass_id r = of_nat (Suc i)"
      using ok r unfolding alloc_sub_ok_def by blast
    then have "lr_subclass_id r = sc_id (subclasses c ! i)" using inv by (simp add: subclass_inv_def)
    then show ?thesis using listed[of "subclasses c ! i"] i(1) by simp
  qed
  moreover have "r ! 1 = sql_null \<or> r ! 1 \<in> set (map hd (subclass_rows c))"
    if "r \<in> set (fst (function_blacklist c ls))" for r
    using fn_blacklist_refs[OF that[unfolded function_blacklist_def]] listed by auto
  moreover have "map hd (fst (function_blacklist c ls)) =
      map dec_of_nat [1..<Suc (length (fst (function_blacklist c ls)))]"
    using fn_blacklist_ids[of c 2 1 "drop 1 ls"] by (simp add: function_blacklist_def)
  ultimately show ?thesis by blast
qed

theorem subclass_refs_witness:
  "\<exists>c. convert_trace example_env example_lines example_conv = Some (Inr c) \<and>
     map hd (fst (function_blacklist c [''type;member;fn;seq'', ''inode;'' @ sql_null @ '';f;1''])) = [''1'']"
proof -
  have "case convert_trace example_env example_lines example_conv of
      Some (Inr c) \<Rightarrow> length (subclasses c) < 2 ^ 31 \<and>
        length (fst (function_blacklist c [''type;member;fn;seq'', ''inode;'' @ sql_null @ '';f;1''])) = 1
    | _ \<Rightarrow> False" by code_simp
  then obtain c where c: "convert_trace example_env example_lines example_conv = Some (Inr c)"
    and len: "length (subclasses c) < 2 ^ 31"
    and one: "length (fst (function_blacklist c [''type;member;fn;seq'', ''inode;'' @ sql_null @ '';f;1''])) = 1"
    by (auto split: option.splits sum.splits)
  from subclass_refs[OF c len, of "[''type;member;fn;seq'', ''inode;'' @ sql_null @ '';f;1'']"] one c
  have "map hd (fst (function_blacklist c [''type;member;fn;seq'', ''inode;'' @ sql_null @ '';f;1''])) = [dec_of_nat 1]"
    by simp
  moreover have "dec_of_nat 1 = ''1''" by code_simp
  ultimately show ?thesis using c by auto
qed

section \<open>Columns and numbers\<close>

text \<open>
  splitting a line at the delimiter gives back the columns it was joined from, as long as no
  column contains the delimiter and the last one is not empty (an empty last column is lost).
\<close>

theorem columns_roundtrip:
  assumes "\<forall>f \<in> set fs. d \<notin> set f" and "fs \<noteq> []" and "last fs \<noteq> []"
  shows "split_fields d (join_fields d fs) = fs"
  using split_join_fields[OF assms] .

theorem columns_roundtrip_witness:
  "split_fields (CHR '';'') (join_fields (CHR '';'') [''1'', ''a'', [], ''1000'']) = [''1'', ''a'', [], ''1000'']"
  by (rule columns_roundtrip) simp_all

text \<open>
  every 64-bit number survives being written in decimal, or in hexadecimal with its prefix,
  and read back.
\<close>

theorem numbers_roundtrip:
  "stoull 10 (dec_u64 w) = Inr w \<and> stoull 16 (showbase_hex w) = Inr w"
  using stoull_dec_u64 stoull_showbase_hex by (simp add: dec_u64_def)

end
