(* ===== verification/Doubles.thy ===== *)
theory Doubles
  imports LockDoc_Prelude "HOL-Library.Log_Nat"
begin

text \<open>
  The type \<^verbatim>\<open>double\<close> as the hypothesizer uses it: finite values are the rational numbers
  they stand for, every operation rounds to the nearest value with a 53-bit significand (ties to
  even), and a division by zero gives an infinity or a NaN, with which every comparison is
  false. The values that occur are quotients of 64-bit counts and the thresholds given by the
  user, so neither overflow nor subnormal numbers are modelled.
\<close>

datatype double = Fin rat | PInf | NInf | NaN

text \<open>The exponent \<open>e\<close> with \<open>2 ^ e \<le> x < 2 ^ (e + 1)\<close> of a positive number.\<close>

definition pow2 :: "int \<Rightarrow> rat" where
  "pow2 e = (if 0 \<le> e then 2 ^ nat e else 1 / 2 ^ nat (- e))"

definition exponent :: "rat \<Rightarrow> int" where
  "exponent x =
     (let (p, q) = quotient_of x; e = bitlen p - bitlen q
      in if pow2 e \<le> x then e else e - 1)"

definition round_even :: "rat \<Rightarrow> int" where
  "round_even x =
     (let f = \<lfloor>x\<rfloor>; r = x - of_int f
      in if r < 1 / 2 then f else if 1 / 2 < r then f + 1 else if even f then f else f + 1)"

definition dround :: "rat \<Rightarrow> rat" where
  "dround x =
     (if x = 0 then 0
      else (let u = pow2 (exponent \<bar>x\<bar> - 52)
            in (if x < 0 then - 1 else 1) * of_int (round_even (\<bar>x\<bar> / u)) * u))"

definition double_of_u64 :: "u64 \<Rightarrow> double" where
  "double_of_u64 w = Fin (dround (of_nat (unat w)))"

fun ddiv :: "double \<Rightarrow> double \<Rightarrow> double" where
  "ddiv (Fin x) (Fin y) =
     (if y \<noteq> 0 then Fin (dround (x / y))
      else if x = 0 then NaN else if x > 0 then PInf else NInf)"
| "ddiv NaN _ = NaN"
| "ddiv _ NaN = NaN"
| "ddiv (Fin x) _ = Fin 0"
| "ddiv PInf (Fin y) = (if y < 0 then NInf else PInf)"
| "ddiv NInf (Fin y) = (if y < 0 then PInf else NInf)"
| "ddiv _ _ = NaN"

fun dsub :: "double \<Rightarrow> double \<Rightarrow> double" where
  "dsub (Fin x) (Fin y) = Fin (dround (x - y))"
| "dsub NaN _ = NaN"
| "dsub _ NaN = NaN"
| "dsub PInf PInf = NaN"
| "dsub NInf NInf = NaN"
| "dsub PInf _ = PInf"
| "dsub NInf _ = NInf"
| "dsub (Fin _) PInf = NInf"
| "dsub (Fin _) NInf = PInf"

fun dmul :: "double \<Rightarrow> double \<Rightarrow> double" where
  "dmul (Fin x) (Fin y) = Fin (dround (x * y))"
| "dmul NaN _ = NaN"
| "dmul _ NaN = NaN"
| "dmul (Fin x) PInf = (if x = 0 then NaN else if x > 0 then PInf else NInf)"
| "dmul (Fin x) NInf = (if x = 0 then NaN else if x > 0 then NInf else PInf)"
| "dmul PInf (Fin y) = (if y = 0 then NaN else if y > 0 then PInf else NInf)"
| "dmul NInf (Fin y) = (if y = 0 then NaN else if y > 0 then NInf else PInf)"
| "dmul PInf PInf = PInf"
| "dmul NInf NInf = PInf"
| "dmul _ _ = NInf"

fun dlt :: "double \<Rightarrow> double \<Rightarrow> bool" where
  "dlt (Fin x) (Fin y) \<longleftrightarrow> x < y"
| "dlt NInf (Fin _) = True"
| "dlt NInf PInf = True"
| "dlt (Fin _) PInf = True"
| "dlt _ _ = False"

definition deq :: "double \<Rightarrow> double \<Rightarrow> bool" where
  "deq x y \<longleftrightarrow> x = y \<and> x \<noteq> NaN"

definition dle :: "double \<Rightarrow> double \<Rightarrow> bool" where
  "dle x y \<longleftrightarrow> dlt x y \<or> deq x y"

lemma dle_Fin [simp]: "dle (Fin x) (Fin y) \<longleftrightarrow> x \<le> y"
  by (auto simp: dle_def deq_def)

lemma deq_refl: "x \<noteq> NaN \<Longrightarrow> deq x x"
  by (simp add: deq_def)

lemma dle_trans: "dle x y \<Longrightarrow> dle y z \<Longrightarrow> dle x z"
  by (cases x; cases y; cases z) (auto simp: dle_def deq_def)

lemma dle_refl: "x \<noteq> NaN \<Longrightarrow> dle x x"
  by (simp add: dle_def deq_def)

lemma dround_one [simp]: "dround 1 = 1"
  by code_simp

lemma pow2_pos: "0 < pow2 e"
  by (simp add: pow2_def)

lemma pow2_add: "pow2 (a + b) = pow2 a * pow2 b"
proof -
  have "pow2 e = 2 powi e" for e
    by (cases "0 \<le> e") (simp_all add: pow2_def power_int_def power_one_over inverse_eq_divide)
  then show ?thesis by (simp add: power_int_add)
qed

lemma pow2_nat: "pow2 (int n) = 2 ^ n"
  by (simp add: pow2_def)

lemma exponent_le:
  assumes "0 < x"
  shows "pow2 (exponent x) \<le> x"
proof -
  obtain p q where pq: "quotient_of x = (p, q)" by fastforce
  then have q: "0 < q" and x: "x = of_int p / of_int q"
    using quotient_of_denom_pos quotient_of_div by blast+
  then have p: "0 < p" using assms by (simp add: zero_less_divide_iff)
  define e where "e = bitlen p - bitlen q"
  have bp: "2 ^ nat (bitlen p - 1) \<le> p" and bq: "q < 2 ^ nat (bitlen q)"
    using bitlen_bounds[OF p] bitlen_bounds[OF q] by simp_all
  have nb: "0 < bitlen p" "0 < bitlen q"
  proof -
    have "0 < bitlen y" if "0 < y" for y :: int
    proof (rule ccontr)
      assume "\<not> 0 < bitlen y"
      then have "nat (bitlen y) = 0" by simp
      then have "y < 1" using bitlen_bounds[OF that] by (metis power_0)
      with that show False by simp
    qed
    then show "0 < bitlen p" "0 < bitlen q" using p q by blast+
  qed
  have "pow2 (e - 1) * of_int q \<le> pow2 (e - 1) * 2 ^ nat (bitlen q)"
    using bq pow2_pos[of "e - 1"] by (metis less_imp_le mult_left_mono of_int_le_iff of_int_numeral of_int_power)
  also have "\<dots> = pow2 (bitlen p - 1)"
    using pow2_add[of "e - 1" "bitlen q"] nb by (simp add: e_def pow2_def)
  also have "\<dots> = 2 ^ nat (bitlen p - 1)" using nb by (simp add: pow2_def)
  also have "\<dots> \<le> of_int p" using bp by (metis of_int_le_iff of_int_numeral of_int_power)
  finally have "pow2 (e - 1) \<le> x" using q by (simp add: x pos_le_divide_eq)
  then show ?thesis unfolding exponent_def pq by (simp add: e_def[symmetric] Let_def)
qed

lemma dround_pos:
  assumes "0 < x"
  shows "0 < dround x"
proof -
  let ?u = "pow2 (exponent x - 52)"
  have "pow2 (exponent x) = ?u * 2 ^ 52" using pow2_add[of "exponent x - 52" 52] by (simp add: pow2_def)
  then have "2 ^ 52 \<le> x / ?u"
    using exponent_le[OF assms] pow2_pos[of "exponent x - 52"] by (simp add: pos_le_divide_eq mult.commute)
  then have "2 ^ 52 \<le> \<lfloor>x / ?u\<rfloor>" by (simp add: le_floor_iff)
  then have "0 < round_even (x / ?u)" by (simp add: round_even_def Let_def)
  then show ?thesis using assms pow2_pos[of "exponent x - 52"] by (simp add: dround_def Let_def)
qed

lemma ddiv_self: "w \<noteq> 0 \<Longrightarrow> ddiv (double_of_u64 w) (double_of_u64 w) = Fin 1"
proof -
  assume "w \<noteq> 0"
  then have "(0 :: rat) < of_nat (unat w)" by (simp only: of_nat_0_less_iff unat_gt_0 simp_thms)
  then have "0 < dround (of_nat (unat w))" by (rule dround_pos)
  then show ?thesis by (simp add: double_of_u64_def)
qed

section \<open>Rounding is monotone and exact on small counts\<close>


lemma bitlen_pos: "0 < y \<Longrightarrow> 0 < bitlen y"
  using bitlen_bounds[of y] by (cases "0 < bitlen y") auto

lemma exponent_less:
  assumes "0 < x"
  shows "x < pow2 (exponent x + 1)"
proof -
  obtain p q where pq: "quotient_of x = (p, q)" by fastforce
  then have q: "0 < q" and x: "x = of_int p / of_int q"
    using quotient_of_denom_pos quotient_of_div by blast+
  then have p: "0 < p" using assms by (simp add: zero_less_divide_iff)
  define e where "e = bitlen p - bitlen q"
  have bp: "p < 2 ^ nat (bitlen p)" and bq: "2 ^ nat (bitlen q - 1) \<le> q"
    using bitlen_bounds[OF p] bitlen_bounds[OF q] by simp_all
  have nb: "0 < bitlen p" "0 < bitlen q" using p q by (simp_all only: bitlen_pos)
  have "(of_int p :: rat) < 2 ^ nat (bitlen p)" using bp by (metis of_int_less_iff of_int_numeral of_int_power)
  also have "\<dots> = pow2 (bitlen p)" using nb by (simp add: pow2_def)
  also have "\<dots> = pow2 (e + 1) * pow2 (bitlen q - 1)"
    using pow2_add[of "e + 1" "bitlen q - 1"] by (simp add: e_def)
  also have "\<dots> = pow2 (e + 1) * 2 ^ nat (bitlen q - 1)" using nb by (simp add: pow2_def)
  also have "\<dots> \<le> pow2 (e + 1) * of_int q"
    using bq pow2_pos[of "e + 1"] by (metis less_imp_le mult_left_mono of_int_le_iff of_int_numeral of_int_power)
  finally have "x < pow2 (e + 1)" using q by (simp add: x pos_divide_less_eq)
  then show ?thesis unfolding exponent_def pq by (simp add: e_def[symmetric] Let_def)
qed

lemma pow2_mono: "a \<le> b \<Longrightarrow> pow2 a \<le> pow2 b"
proof -
  assume "a \<le> b"
  then have "pow2 b = pow2 a * 2 ^ nat (b - a)"
    using pow2_add[of a "b - a"] by (simp add: pow2_def[of "b - a"])
  then show ?thesis using pow2_pos[of a] by simp
qed

lemma exponent_mono:
  assumes "0 < x" and "x \<le> y"
  shows "exponent x \<le> exponent y"
proof (rule ccontr)
  assume "\<not> exponent x \<le> exponent y"
  then have "pow2 (exponent y + 1) \<le> pow2 (exponent x)" by (intro pow2_mono) simp
  then show False using exponent_less[of y] exponent_le[of x] assms by linarith
qed

lemma round_even_mono: "x \<le> y \<Longrightarrow> round_even x \<le> round_even y"
proof (cases "\<lfloor>x\<rfloor> = \<lfloor>y\<rfloor>")
  case False
  assume "x \<le> y"
  then have "\<lfloor>x\<rfloor> + 1 \<le> \<lfloor>y\<rfloor>" using False floor_mono[of x y] by linarith
  then show ?thesis by (simp add: round_even_def Let_def)
qed (auto simp: round_even_def Let_def)

lemma round_even_of_int [simp]: "round_even (of_int i) = i"
  by (simp add: round_even_def)

lemma round_even_between:
  "of_int a \<le> x \<Longrightarrow> a \<le> round_even x" "x \<le> of_int b \<Longrightarrow> round_even x \<le> b"
  using round_even_mono[of "of_int a" x] round_even_mono[of x "of_int b"] by simp_all

lemma dround_eq: "0 < x \<Longrightarrow> dround x = of_int (round_even (x / pow2 (exponent x - 52))) * pow2 (exponent x - 52)"
  by (simp add: dround_def Let_def)

lemma pow2_shift: "pow2 e = 2 ^ n * pow2 (e - int n)"
  using pow2_add[of "int n" "e - int n"] by (simp add: pow2_nat)

lemma dround_bounds:
  assumes "0 < x"
  shows "pow2 (exponent x) \<le> dround x" and "dround x \<le> pow2 (exponent x + 1)"
proof -
  let ?u = "pow2 (exponent x - 52)"
  have u: "0 < ?u" by (rule pow2_pos)
  have "of_int (2 ^ 52) \<le> x / ?u"
    using exponent_le[OF assms] pow2_shift[of "exponent x" 52] u by (simp add: pos_le_divide_eq)
  then have "2 ^ 52 \<le> round_even (x / ?u)" by (rule round_even_between)
  then have "(2 ^ 52 :: rat) \<le> of_int (round_even (x / ?u))" by (metis of_int_le_iff of_int_numeral of_int_power)
  then show "pow2 (exponent x) \<le> dround x"
    using u by (subst pow2_shift[of "exponent x" 52]) (simp add: dround_eq[OF assms])
  have "x / ?u \<le> of_int (2 ^ 53)"
    using exponent_less[OF assms] pow2_shift[of "exponent x + 1" 53] u by (simp add: pos_divide_le_eq)
  then have "round_even (x / ?u) \<le> 2 ^ 53" by (rule round_even_between)
  then have "of_int (round_even (x / ?u)) \<le> (2 ^ 53 :: rat)" by (metis of_int_le_iff of_int_numeral of_int_power)
  then show "dround x \<le> pow2 (exponent x + 1)"
    using u by (subst pow2_shift[of "exponent x + 1" 53]) (simp add: dround_eq[OF assms])
qed

lemma dround_mono:
  assumes "0 \<le> x" and "x \<le> y"
  shows "dround x \<le> dround y"
proof (cases "x = 0")
  case True
  then show ?thesis using dround_pos[of y] assms by (cases "y = 0") (simp_all add: dround_def)
next
  case False
  then have x: "0 < x" and y: "0 < y" using assms by simp_all
  show ?thesis
  proof (cases "exponent x = exponent y")
    case True
    let ?u = "pow2 (exponent y - 52)"
    have "round_even (x / ?u) \<le> round_even (y / ?u)"
      using pow2_pos[of "exponent y - 52"] assms(2) by (intro round_even_mono divide_right_mono) simp_all
    then show ?thesis using True pow2_pos[of "exponent y - 52"] by (simp add: dround_eq x y)
  next
    case False
    then have "pow2 (exponent x + 1) \<le> pow2 (exponent y)"
      using exponent_mono[OF x assms(2)] by (intro pow2_mono) simp
    then show ?thesis using dround_bounds(2)[OF x] dround_bounds(1)[OF y] by linarith
  qed
qed

lemma dround_nat:
  assumes "n < 2 ^ 53"
  shows "dround (of_nat n) = of_nat n"
proof (cases "n = 0")
  case False
  define x :: rat where "x = of_nat n"
  have x: "0 < x" using False by (simp add: x_def)
  have "exponent x < 53"
  proof (rule ccontr)
    assume "\<not> exponent x < 53"
    then have "pow2 53 \<le> pow2 (exponent x)" by (intro pow2_mono) simp
    also have "\<dots> \<le> x" by (rule exponent_le[OF x])
    finally have "(of_nat (2 ^ 53) :: rat) \<le> of_nat n" by (simp add: pow2_def x_def)
    with assms show False unfolding of_nat_le_iff by simp
  qed
  then have "1 = 2 ^ nat (52 - exponent x) * pow2 (exponent x - 52)"
    using pow2_shift[of 0 "nat (52 - exponent x)"] by (simp add: pow2_def[of 0])
  then have "x / pow2 (exponent x - 52) = of_int (int n * 2 ^ nat (52 - exponent x))"
    using pow2_pos[of "exponent x - 52"] by (simp add: x_def field_simps)
  then have "round_even (x / pow2 (exponent x - 52)) = int n * 2 ^ nat (52 - exponent x)"
    by (simp only: round_even_of_int)
  then show ?thesis
    using x \<open>1 = 2 ^ nat (52 - exponent x) * pow2 (exponent x - 52)\<close>
    by (simp add: dround_eq x_def[symmetric] mult.assoc)
qed (simp add: dround_def)

text \<open>The quotient of two counts below \<open>2 ^ 53\<close> is at least 1 only if it is.\<close>

lemma dround_below_one:
  assumes "c < n" and "n \<le> 2 ^ 53"
  shows "dround (of_nat c / of_nat n) < 1"
proof -
  have n: "(0 :: rat) < of_nat n" using assms by (cases n) auto
  have "of_nat c + 1 \<le> (of_nat n :: rat)" using assms(1) by (metis of_nat_Suc of_nat_le_iff Suc_leI add.commute)
  moreover have "(of_nat n :: rat) \<le> 2 ^ 53" using assms(2) by (metis of_nat_le_iff of_nat_numeral of_nat_power)
  ultimately have "of_nat c * 2 ^ 53 \<le> of_nat n * (2 ^ 53 - 1 :: rat)" by (simp add: algebra_simps)
  then have "of_nat c / of_nat n \<le> (1 - 1 / 2 ^ 53 :: rat)" using n by (simp add: field_simps)
  then have "dround (of_nat c / of_nat n) \<le> dround (1 - 1 / 2 ^ 53)" using n by (intro dround_mono) simp_all
  also have "\<dots> < 1" by code_simp
  finally show ?thesis .
qed

end
