(* ===== verification/Hypothesizer_Model.thy ===== *)
theory Hypothesizer_Model
  imports Doubles C_Numbers "HOL-Library.List_Lexorder" "HOL-Library.Char_ord" "HOL-Library.Sublist"
    "HOL-Library.Multiset"
begin

text \<open>
  The hypothesizer (\<^verbatim>\<open>hypothesizer.cc\<close>). It reads, per data-structure member, how often which
  combination of locks was held, enumerates every set of locks that some access held as a
  hypothesis, counts its support per lock order, arranges the hypotheses in a graph by inclusion
  and selects a winner by one of four strategies. The unordered maps of the program are kept in
  the order of their keys; nothing modelled here depends on their iteration order.
\<close>

section \<open>Data\<close>

type_synonym myid = u16
type_synonym hypo = "myid list"

record LockCombination =
  lc_occurrences :: u64
  locks_held :: hypo
  locks_held_sorted :: hypo

definition update_sorted_locks :: "LockCombination \<Rightarrow> LockCombination" where
  "update_sorted_locks lc = lc\<lparr>locks_held_sorted := sort (locks_held lc)\<rparr>"

definition new_LockCombination :: "u64 \<Rightarrow> hypo \<Rightarrow> LockCombination" where
  "new_LockCombination occ l =
     update_sorted_locks \<lparr>lc_occurrences = occ, locks_held = l, locks_held_sorted = []\<rparr>"

definition set_locks_held :: "hypo \<Rightarrow> LockCombination \<Rightarrow> LockCombination" where
  "set_locks_held l lc = update_sorted_locks (lc\<lparr>locks_held := l\<rparr>)"

text \<open>The loop of \<open>contains_locks\<close>: the remaining own locks and the lock searched for.\<close>

fun contains_loop :: "hypo \<Rightarrow> hypo \<Rightarrow> bool" where
  "contains_loop _ [] = True"
| "contains_loop [] (_ # _) = False"
| "contains_loop (mylock # ms) (t # ts) =
     (if mylock = t then (if ts = [] then True else contains_loop ms ts)
      else contains_loop ms (t # ts))"

definition contains_locks :: "LockCombination \<Rightarrow> hypo \<Rightarrow> bool" where
  "contains_locks lc l = (if l = [] then True else contains_loop (locks_held_sorted lc) l)"

fun lock_order_loop :: "hypo \<Rightarrow> hypo \<Rightarrow> hypo" where
  "lock_order_loop [] l = []"
| "lock_order_loop (mylock # ms) l =
     (if mylock \<in> set l then
        mylock # (let l' = remove1 mylock l in if l' = [] then [] else lock_order_loop ms l')
      else lock_order_loop ms l)"

definition lock_order :: "LockCombination \<Rightarrow> hypo \<Rightarrow> hypo" where
  "lock_order lc l = (if l = [] then [] else lock_order_loop (locks_held lc) l)"

record LockingHypothesisMatches =
  lh_occurrences :: u64
  sorted_hypothesis :: hypo
  matches :: "(hypo, u64) omap"

definition no_matches :: LockingHypothesisMatches where
  "no_matches = \<lparr>lh_occurrences = 0, sorted_hypothesis = [], matches = []\<rparr>"

record Member =
  m_datatype :: string
  m_name :: string
  m_occurrences :: u64
  m_occurrences_with_locks :: u64
  combinations :: "LockCombination list"
  hypotheses :: "(hypo, LockingHypothesisMatches) omap"
  graph :: "(hypo, hypo list) omap"
  conflict_list :: "(hypo \<times> hypo) list"
  winning_hypothesis :: hypo
  winner_found :: bool
  m_show :: bool
  accesstype :: char

definition root_node :: hypo where "root_node = []"

definition parse_name :: "string \<Rightarrow> Member \<Rightarrow> Member res" where
  \<comment> \<open>the name starts after the access type and a colon\<close>
  "parse_name combined m =
     (if length combined < 2 then Inl (UndefinedBehaviour ''read past the end of the name'')
      else Inr (m\<lparr>accesstype := hd combined, m_name := drop 2 combined\<rparr>))"

definition combined_name :: "Member \<Rightarrow> string" where
  "combined_name m = accesstype m # CHR '':'' # m_name m"

definition new_Member :: "string \<Rightarrow> string \<Rightarrow> Member res" where
  "new_Member dt combined = parse_name combined
     \<lparr>m_datatype = dt, m_name = [], m_occurrences = 0, m_occurrences_with_locks = 0, combinations = [],
      hypotheses = [], graph = [], conflict_list = [], winning_hypothesis = [], winner_found = False,
      m_show = True, accesstype = CHR 0x00\<rparr>"

definition clear_Member :: "Member \<Rightarrow> Member" where
  "clear_Member m = m\<lparr>m_name := [], combinations := [], hypotheses := [], conflict_list := [],
     winning_hypothesis := [], graph := []\<rparr>"

definition locks2string :: "string list \<Rightarrow> hypo \<Rightarrow> string \<Rightarrow> string \<Rightarrow> string" where
  "locks2string names l separator quote =
     (if l = [] then ''(no locks held)''
      else concat (map (\<lambda>i. quote @ names ! unat i @ quote @ separator) (butlast l)) @
        quote @ names ! unat (last l) @ quote)"

section \<open>The graph of hypotheses\<close>

definition found_at :: "hypo \<Rightarrow> hypo \<Rightarrow> nat \<Rightarrow> nat" where
  "found_at lhs rhs i = length (filter (\<lambda>k. lhs ! k = rhs ! (k + i)) [0..<length lhs])"

definition diff_hypotheses :: "hypo \<Rightarrow> hypo \<Rightarrow> int res" where
  "diff_hypotheses lhs rhs =
     (if length rhs < length lhs then Inl (Aborted ''rhs.size() >= lhs.size()'')
      else
        (let diff = length rhs - length lhs
         in Inr (if list_ex (\<lambda>i. found_at lhs rhs i = length lhs) [0..<Suc diff]
                 then int diff else - 1)))"

definition in_conflict_list :: "(hypo \<times> hypo) list \<Rightarrow> hypo \<Rightarrow> bool" where
  "in_conflict_list cl h \<longleftrightarrow> list_ex (\<lambda>e. snd e = h) cl"

definition children :: "Member \<Rightarrow> hypo \<Rightarrow> hypo list" where
  "children m node = (case omap_lookup (graph m) node of None \<Rightarrow> [] | Some cs \<Rightarrow> cs)"

definition set_emplace :: "'a::linorder \<Rightarrow> 'a list \<Rightarrow> 'a list" where
  "set_emplace x xs = (if x \<in> set xs then xs else insort x xs)"

definition add_edge :: "hypo \<Rightarrow> hypo \<Rightarrow> Member \<Rightarrow> Member" where
  "add_edge u v m = m\<lparr>graph := omap_update u (set_emplace v (children m u)) (graph m)\<rparr>"

partial_function (option) add_loop :: "hypo list \<Rightarrow> hypo \<Rightarrow> Member \<Rightarrow> Member res option" where
  "add_loop nodes h m =
     (case nodes of
        [] \<Rightarrow> Some (Inr m)
      | cur # rest \<Rightarrow>
          (case diff_hypotheses cur h of
             Inl e \<Rightarrow> Some (Inl e)
           | Inr ret \<Rightarrow>
               if ret = 0 then Some (Inl (Aborted ''ret != 0''))
               else if ret = 1 then add_loop rest h (add_edge cur h m)
               else if ret > 1 then add_loop (rest @ children m cur) h m
               else add_loop rest h m))"

declare add_loop.simps [code]

definition add_hypothesis_to_graph :: "Member \<Rightarrow> hypo \<Rightarrow> Member res option" where
  "add_hypothesis_to_graph m h = (if h = [] then Some (Inr m) else add_loop [root_node] h m)"

section \<open>Counting the support of a hypothesis\<close>

definition count_match :: "hypo \<Rightarrow> LockCombination \<Rightarrow> LockingHypothesisMatches \<Rightarrow> LockingHypothesisMatches" where
  "count_match h lc x =
     (if contains_locks lc h then
        (let order = lock_order lc h;
             old = (case omap_lookup (matches x) order of None \<Rightarrow> 0 | Some n \<Rightarrow> n)
         in x\<lparr>lh_occurrences := lh_occurrences x + lc_occurrences lc, sorted_hypothesis := h,
              matches := omap_update order (old + lc_occurrences lc) (matches x)\<rparr>)
      else x)"

definition evaluate_hypothesis :: "Member \<Rightarrow> hypo \<Rightarrow> Member res option" where
  "evaluate_hypothesis m h =
     (if omap_lookup (hypotheses m) h \<noteq> None then Some (Inr m)
      else
        (let x = fold (count_match h) (combinations m) no_matches
         in add_hypothesis_to_graph (m\<lparr>hypotheses := omap_update h x (hypotheses m)\<rparr>) h))"

text \<open>
  A step that may not return or may fail, applied to the elements of a list one after the other.
\<close>

fun for_each :: "('a \<Rightarrow> 's \<Rightarrow> 's res option) \<Rightarrow> 'a list \<Rightarrow> 's \<Rightarrow> 's res option" where
  "for_each f [] s = Some (Inr s)"
| "for_each f (x # xs) s =
     (case f x s of None \<Rightarrow> None | Some (Inl e) \<Rightarrow> Some (Inl e) | Some (Inr s') \<Rightarrow> for_each f xs s')"

text \<open>
  The recursive enumeration: positions from \<open>next_lockpos\<close> on whose lock is not yet chosen.
\<close>

lemma for_each_cong [fundef_cong]:
  "xs = ys \<Longrightarrow> s = s' \<Longrightarrow> (\<And>x t. x \<in> set ys \<Longrightarrow> f x t = g x t) \<Longrightarrow> for_each f xs s = for_each g ys s'"
proof (induction xs arbitrary: ys s s')
  case (Cons x xs)
  then obtain zs where "ys = x # zs" "xs = zs" by auto
  moreover have "for_each f xs t = for_each g zs t" for t
    using Cons.IH[OF \<open>xs = zs\<close> refl] Cons.prems \<open>ys = x # zs\<close> by auto
  ultimately show ?case using Cons.prems by (auto split: option.splits sum.splits)
qed auto

fun find_hypotheses_rek :: "LockCombination \<Rightarrow> nat \<Rightarrow> hypo \<Rightarrow> nat \<Rightarrow> Member \<Rightarrow> Member res option" where
  "find_hypotheses_rek lc next_lockpos cur 0 m = evaluate_hypothesis m cur"
| "find_hypotheses_rek lc next_lockpos cur (Suc depth) m =
     for_each (\<lambda>lockpos m.
         let lock = locks_held_sorted lc ! lockpos in
         if lock \<in> set cur then Some (Inr m)
         else find_hypotheses_rek lc (lockpos + 1) (cur @ [lock]) depth m)
       [next_lockpos..<length (locks_held_sorted lc)] m"

partial_function (option) find_loop :: "nat \<Rightarrow> nat \<Rightarrow> Member \<Rightarrow> Member res option" where
  "find_loop max_hypo_len depth m =
     (case for_each (\<lambda>lc. find_hypotheses_rek lc 0 [] depth) (combinations m) m of
        None \<Rightarrow> None
      | Some (Inl e) \<Rightarrow> Some (Inl e)
      | Some (Inr m') \<Rightarrow>
          if length (hypotheses m) = length (hypotheses m') \<or> (0 < max_hypo_len \<and> max_hypo_len \<le> depth)
          then Some (Inr m')
          else find_loop max_hypo_len (depth + 1) m')"

declare find_loop.simps [code]

definition find_hypotheses :: "nat \<Rightarrow> Member \<Rightarrow> Member res option" where
  "find_hypotheses max_hypo_len m = find_loop max_hypo_len 0 m"

section \<open>Selecting the winner\<close>

definition hypothesis_of :: "Member \<Rightarrow> hypo \<Rightarrow> LockingHypothesisMatches" where
  "hypothesis_of m node = (case omap_lookup (hypotheses m) node of None \<Rightarrow> no_matches | Some x \<Rightarrow> x)"

text \<open>\<open>operator[]\<close> adds an empty entry for a missing key.\<close>

definition touch_hypothesis :: "hypo \<Rightarrow> Member \<Rightarrow> Member" where
  "touch_hypothesis node m =
     (if omap_lookup (hypotheses m) node = None
      then m\<lparr>hypotheses := omap_update node no_matches (hypotheses m)\<rparr> else m)"

text \<open>The lock order with the most accesses, the first one in lexicographic order on a tie.\<close>

definition best_order :: "(hypo, u64) omap \<Rightarrow> u64 \<times> hypo" where
  "best_order ms = fold (\<lambda>(order, n) (mx, best). if n > mx then (n, order) else (mx, best)) ms (0, [])"

definition rel_support :: "Member \<Rightarrow> hypo \<Rightarrow> double" where
  \<comment> \<open>relative support of the representative of a set of locks\<close>
  "rel_support m node =
     (let ms = matches (hypothesis_of m node); order = snd (best_order ms)
      in ddiv (double_of_u64 (case omap_lookup ms order of None \<Rightarrow> 0 | Some n \<Rightarrow> n))
           (double_of_u64 (m_occurrences m)))"

text \<open>
  A callback gets the member, the sorted and the ordered current hypothesis, the support of the
  winner and of the current one; it returns the member, the nodes it appends and the new support
  of the winner.
\<close>

type_synonym eval_cb = "Member \<Rightarrow> hypo \<Rightarrow> hypo \<Rightarrow> double \<Rightarrow> double \<Rightarrow> Member \<times> hypo list \<times> double"

definition winner_size :: "Member \<Rightarrow> nat" where
  "winner_size m = length (fst (hd (conflict_list m)))"

definition save_equal :: "hypo \<Rightarrow> hypo \<Rightarrow> Member \<Rightarrow> Member" where
  "save_equal node ordered m =
     (if in_conflict_list (conflict_list m) ordered then m
      else m\<lparr>conflict_list := conflict_list m @ [(node, ordered)]\<rparr>)"

definition reset_winner :: "hypo \<Rightarrow> hypo \<Rightarrow> Member \<Rightarrow> Member" where
  "reset_winner node ordered m = m\<lparr>winner_found := True, conflict_list := [(node, ordered)]\<rparr>"

definition evaluate_hypothesis_bottomup :: "double \<Rightarrow> eval_cb" where
  "evaluate_hypothesis_bottomup accept_threshold m node ordered rel_support_winner cur_rel_sup =
     (if winner_size m = length node \<and> deq cur_rel_sup rel_support_winner then
        (save_equal node ordered m, children m node, rel_support_winner)
      else if dle accept_threshold cur_rel_sup \<and> dlt cur_rel_sup rel_support_winner \<or>
              length node > winner_size m \<and> deq cur_rel_sup rel_support_winner then
        (reset_winner node ordered m, children m node, cur_rel_sup)
      else (m, [], rel_support_winner))"

definition evaluate_hypothesis_sharpen :: "double \<Rightarrow> eval_cb" where
  "evaluate_hypothesis_sharpen reduction_factor m node ordered rel_support_winner cur_rel_sup =
     (let delta = dsub (Fin 1) (ddiv cur_rel_sup rel_support_winner) in
      if winner_size m = length node \<and> deq cur_rel_sup rel_support_winner then
        (save_equal node ordered m, children m node, rel_support_winner)
      else if winner_size m = length node \<and> dlt rel_support_winner cur_rel_sup \<or>
              length node > winner_size m \<and>
                (deq cur_rel_sup rel_support_winner \<or> dle delta reduction_factor) then
        (reset_winner node ordered m, children m node, cur_rel_sup)
      else (m, [], rel_support_winner))"

definition evaluate_hypothesis_lockset :: eval_cb where
  "evaluate_hypothesis_lockset m node ordered rel_support_winner cur_rel_sup =
     (if dlt cur_rel_sup (Fin 1) then (m, [], rel_support_winner)
      else if winner_size m = length node then
        (save_equal node ordered m, children m node, rel_support_winner)
      else if winner_size m \<le> length node then
        (reset_winner node ordered m, children m node, rel_support_winner)
      else (m, [], rel_support_winner))"

definition nolock_fraction :: "Member \<Rightarrow> double" where
  "nolock_fraction m = ddiv (double_of_u64 (m_occurrences m - m_occurrences_with_locks m))
     (double_of_u64 (m_occurrences m))"

definition evaluate_hypothesis_topdown :: "double \<Rightarrow> double \<Rightarrow> eval_cb" where
  "evaluate_hypothesis_topdown accept_threshold nolock_threshold m node ordered rel_support_winner cur_rel_sup =
     (if \<not> dle nolock_threshold (nolock_fraction m) then
        (if node = root_node then (m, children m node, rel_support_winner)
         else if winner_size m = length node \<and> deq cur_rel_sup rel_support_winner then
           (save_equal node ordered m, children m node, rel_support_winner)
         else if dle accept_threshold cur_rel_sup \<and> dle rel_support_winner cur_rel_sup \<and>
                 winner_size m \<le> length node then
           (reset_winner node ordered m, children m node, cur_rel_sup)
         else (m, [], rel_support_winner))
      else
        (m\<lparr>winner_found := True,
           conflict_list := (if conflict_list m = [] then [(root_node, root_node)] else conflict_list m)\<rparr>,
         [], rel_support_winner))"

partial_function (option) winner_loop ::
  "eval_cb \<Rightarrow> hypo list \<Rightarrow> double \<Rightarrow> Member \<Rightarrow> (Member \<times> double) option" where
  "winner_loop cb nodes rsw m =
     (case nodes of
        [] \<Rightarrow> Some (m, rsw)
      | node # rest \<Rightarrow>
          (let m1 = touch_hypothesis node m;
               ordered = snd (best_order (matches (hypothesis_of m1 node)));
               (m2, more, rsw') = cb m1 node ordered rsw (rel_support m1 node)
           in winner_loop cb (rest @ more) rsw' m2))"

declare winner_loop.simps [code]

datatype SelectionStrategy = TOPDOWN | BOTTOMUP | SHARPEN | LOCKSET

record thresholds =
  accept_threshold :: double
  nolock_threshold :: double
  reduction_factor :: double

fun strategy_cb :: "thresholds \<Rightarrow> SelectionStrategy \<Rightarrow> eval_cb" where
  "strategy_cb th TOPDOWN = evaluate_hypothesis_topdown (accept_threshold th) (nolock_threshold th)"
| "strategy_cb th BOTTOMUP = evaluate_hypothesis_bottomup (accept_threshold th)"
| "strategy_cb th SHARPEN = evaluate_hypothesis_sharpen (reduction_factor th)"
| "strategy_cb th LOCKSET = evaluate_hypothesis_lockset"

definition start_search :: "Member \<Rightarrow> Member" where
  "start_search m = m\<lparr>conflict_list := [(root_node, root_node)], winner_found := True\<rparr>"

text \<open>The init callback of the strategy \<^verbatim>\<open>topdown\<close> replaces the nodes by the root.\<close>

definition evaluate_hypothesis_init_topdown :: "Member \<Rightarrow> Member \<times> hypo list \<times> double" where
  "evaluate_hypothesis_init_topdown m = (m\<lparr>winner_found := False\<rparr>, [root_node], Fin 0)"

definition determine_winning_hypothesis :: "thresholds \<Rightarrow> SelectionStrategy \<Rightarrow> Member \<Rightarrow> Member option" where
  "determine_winning_hypothesis th strat m =
     (let m0 = start_search m;
          (m1, nodes, rsw) = (if strat = TOPDOWN then evaluate_hypothesis_init_topdown m0
                              else (m0, children m0 root_node, Fin 1))
      in case winner_loop (strategy_cb th strat) nodes rsw m1 of
           None \<Rightarrow> None
         | Some (m2, _) \<Rightarrow>
             Some (if winner_found m2 then m2\<lparr>winning_hypothesis := snd (hd (conflict_list m2))\<rparr> else m2))"

end
