(* ===== verification/Hypothesizer_Input.thy ===== *)
theory Hypothesizer_Input
  imports Hypothesizer_Model "HOL-Library.Product_Lexorder"
begin

text \<open>
  The input of the hypothesizer: \<^verbatim>\<open>main\<close> reads a table with a data type, a list of accessed
  members, a list of held locks and a number of accesses per line, numbers the members and the
  locks, and adds up the accesses per member and lock combination.
\<close>

section \<open>Reading the table\<close>

record load_state =
  members :: "Member list"
  locks :: "string list"
  accesscount :: u64
  member_to_id :: "(string \<times> string, myid) omap"
  lock_to_id :: "(string, myid) omap"
  members_combinations :: "(hypo, LockCombination) omap list"

definition empty_load :: load_state where
  "empty_load = \<lparr>members = [], locks = [], accesscount = 0, member_to_id = [], lock_to_id = [],
     members_combinations = []\<rparr>"

definition myid_max :: nat where "myid_max = 65535"

definition intern_lock :: "string \<Rightarrow> load_state \<Rightarrow> (load_state \<times> myid) res" where
  "intern_lock name st =
     (case omap_lookup (lock_to_id st) name of
        Some i \<Rightarrow> Inr (st, i)
      | None \<Rightarrow>
          (let st1 = st\<lparr>locks := locks st @ [name]\<rparr> in
           if length (locks st1) - 1 > myid_max then Inl (ExitFailure 1)
           else (let lock_id = of_nat (length (locks st1) - 1)
                 in Inr (st1\<lparr>lock_to_id := omap_update name lock_id (lock_to_id st1)\<rparr>, lock_id))))"

fun read_locks :: "string list \<Rightarrow> hypo \<Rightarrow> load_state \<Rightarrow> (load_state \<times> hypo) res" where
  "read_locks [] held st = Inr (st, held)"
| "read_locks (inputElement # es) held st =
     (if inputElement = [] then read_locks es held st
      else bindE (intern_lock inputElement st) (\<lambda>(st1, lock_id). read_locks es (held @ [lock_id]) st1))"

definition intern_member :: "string \<Rightarrow> string \<Rightarrow> load_state \<Rightarrow> (load_state \<times> myid) res" where
  "intern_member dt name st =
     (case omap_lookup (member_to_id st) (dt, name) of
        Some i \<Rightarrow> Inr (st, i)
      | None \<Rightarrow>
          bindE (new_Member dt name) (\<lambda>m.
            let st1 = st\<lparr>members := members st @ [m], members_combinations := members_combinations st @ [[]]\<rparr> in
            if length (members st1) - 1 > myid_max then Inl (ExitFailure 1)
            else (let member_id = of_nat (length (members st1) - 1)
                  in Inr (st1\<lparr>member_to_id := omap_update (dt, name) member_id (member_to_id st1)\<rparr>, member_id))))"

definition count_member_access :: "u64 \<Rightarrow> hypo \<Rightarrow> Member \<Rightarrow> Member" where
  "count_member_access occ held m =
     m\<lparr>m_occurrences := m_occurrences m + occ,
       m_occurrences_with_locks := (if length held > 0 then m_occurrences_with_locks m + occ
                                    else m_occurrences_with_locks m)\<rparr>"

definition add_combination :: "u64 \<Rightarrow> hypo \<Rightarrow> (hypo, LockCombination) omap \<Rightarrow> (hypo, LockCombination) omap" where
  "add_combination occ held cs =
     (case omap_lookup cs held of
        None \<Rightarrow> omap_update held (new_LockCombination occ held) cs
      | Some lc \<Rightarrow> omap_update held (lc\<lparr>lc_occurrences := lc_occurrences lc + occ\<rparr>) cs)"

definition record_access :: "myid \<Rightarrow> u64 \<Rightarrow> hypo \<Rightarrow> load_state \<Rightarrow> load_state" where
  "record_access i occ held st =
     st\<lparr>members := (members st)[unat i := count_member_access occ held (members st ! unat i)],
        members_combinations :=
          (members_combinations st)[unat i := add_combination occ held (members_combinations st ! unat i)]\<rparr>"

fun read_members :: "string \<Rightarrow> string list \<Rightarrow> u64 \<Rightarrow> hypo \<Rightarrow> load_state \<Rightarrow> load_state res" where
  "read_members dt [] occ held st = Inr st"
| "read_members dt (inputElement # es) occ held st =
     bindE (intern_member dt inputElement st) (\<lambda>(st1, member_id).
       read_members dt es occ held (record_access member_id occ held st1))"

definition load_line :: "u32 \<Rightarrow> string \<Rightarrow> load_state \<Rightarrow> load_state res" where
  "load_line lineCounter inputLine st =
     (if lineCounter = 0 \<and> (inputLine = [] \<or> \<not> is_digit (last inputLine)) then Inr st
      else
        (let lineElems = split_fields (CHR 0x09) inputLine in
         if length lineElems \<noteq> 4 then Inr st
         else
           bindE (stoull 10 (lineElems ! 3)) (\<lambda>occ.
             bindE (read_locks (split_fields (CHR '','') (lineElems ! 2)) []
                 (st\<lparr>accesscount := accesscount st + occ\<rparr>)) (\<lambda>(st1, held).
               read_members (lineElems ! 0) (split_fields (CHR '','') (lineElems ! 1)) occ held st1))))"

fun load_lines :: "u32 \<Rightarrow> string list \<Rightarrow> load_state \<Rightarrow> load_state res" where
  "load_lines lineCounter [] st = Inr st"
| "load_lines lineCounter (l # ls) st =
     bindE (load_line lineCounter l st) (load_lines (lineCounter + 1) ls)"

definition map2vec :: "('k, 'v) omap \<Rightarrow> 'v list \<Rightarrow> 'v list" where
  "map2vec m v = v @ map snd m"

text \<open>The copy loop counts with a \<^verbatim>\<open>myid_t\<close>, which wraps around after 65535.\<close>

partial_function (option) copy_combinations :: "myid \<Rightarrow> load_state \<Rightarrow> load_state option" where
  "copy_combinations i st =
     (if unat i < length (members st) then
        copy_combinations (i + 1)
          (st\<lparr>members := (members st)[unat i := (members st ! unat i)
                \<lparr>combinations := map2vec (members_combinations st ! unat i) (combinations (members st ! unat i))\<rparr>]\<rparr>)
      else Some st)"

declare copy_combinations.simps [code]

definition load_input :: "string list \<Rightarrow> load_state res option" where
  "load_input lines =
     (case load_lines 0 lines empty_load of
        Inl e \<Rightarrow> Some (Inl e)
      | Inr st \<Rightarrow>
          map_option (\<lambda>st2. Inr (st2\<lparr>members_combinations := []\<rparr>))
            (copy_combinations 0 (st\<lparr>member_to_id := [], lock_to_id := []\<rparr>)))"

end
