(* ===== verification/Hypothesizer_Support.thy ===== *)
theory Hypothesizer_Support
  imports Hypothesizer_Model
begin

text \<open>
  What the counting routines of the hypothesizer compute: \<open>contains_locks\<close> decides inclusion of
  locks, \<open>lock_order\<close> lists the given locks in the order of their first acquisition, and
  \<open>evaluate_hypothesis\<close> adds up, per lock order, the accesses that held all locks.
\<close>

section \<open>Inclusion\<close>

lemma subset_add_notin: "x \<notin># A \<Longrightarrow> A \<subseteq># add_mset x B \<longleftrightarrow> A \<subseteq># B"
proof
  assume x: "x \<notin># A" and sub: "A \<subseteq># add_mset x B"
  show "A \<subseteq># B"
  proof (rule mset_subset_eqI)
    fix a
    show "count A a \<le> count B a"
      using mset_subset_eq_count[OF sub, of a] x by (cases "a = x") (simp_all add: not_in_iff)
  qed
qed (simp add: subset_mset.order_trans[of A B "add_mset x B"])

lemma contains_loop_mset:
  "sorted ms \<Longrightarrow> sorted ts \<Longrightarrow> contains_loop ms ts \<longleftrightarrow> mset ts \<subseteq># mset ms"
proof (induction ms ts rule: contains_loop.induct)
  case (3 x ms t ts)
  consider "x = t" | "x < t" | "t < x" by (rule linorder_cases)
  then show ?case
  proof cases
    case 1
    then show ?thesis using 3 by (cases "ts = []") simp_all
  next
    case 2
    then have "x \<notin># mset (t # ts)" using "3.prems"(2) by fastforce
    then have "mset (t # ts) \<subseteq># add_mset x (mset ms) \<longleftrightarrow> mset (t # ts) \<subseteq># mset ms"
      by (rule subset_add_notin)
    then show ?thesis using 3 2 by auto
  next
    case 3
    then have "t \<notin># mset (x # ms)" using "3.prems"(1) by fastforce
    then have "\<not> mset (t # ts) \<subseteq># mset (x # ms)" "\<not> mset (t # ts) \<subseteq># mset ms"
      using mset_subset_eqD[of "mset (t # ts)" _ t] by fastforce+
    then show ?thesis using "3.IH" "3.prems" 3 by auto
  qed
qed auto

definition lc_ok :: "LockCombination \<Rightarrow> bool" where
  "lc_ok lc \<longleftrightarrow> locks_held_sorted lc = sort (locks_held lc)"

lemma lc_ok_new [simp]: "lc_ok (new_LockCombination occ l)" "lc_ok (set_locks_held l lc)"
  by (simp_all add: lc_ok_def new_LockCombination_def set_locks_held_def update_sorted_locks_def)

lemma contains_locks_mset:
  assumes "lc_ok lc" and "sorted l"
  shows "contains_locks lc l \<longleftrightarrow> mset l \<subseteq># mset (locks_held lc)"
  using contains_loop_mset[of "locks_held_sorted lc" l] assms
  by (auto simp: contains_locks_def lc_ok_def)

lemma contains_locks_iff:
  assumes "lc_ok lc" and "sorted_wrt (<) l"
  shows "contains_locks lc l \<longleftrightarrow> set l \<subseteq> set (locks_held lc)"
proof -
  have l: "sorted l" "distinct l" using assms(2) by (simp_all add: strict_sorted_iff)
  have "mset l \<subseteq># mset (locks_held lc)" if "set l \<subseteq> set (locks_held lc)"
  proof (rule mset_subset_eqI)
    fix a
    show "count (mset l) a \<le> count (mset (locks_held lc)) a"
    proof (cases "a \<in> set l")
      case True
      then have "count (mset l) a = 1" using l(2) by (simp add: distinct_count_atmost_1)
      moreover have "0 < count (mset (locks_held lc)) a" using True that by auto
      ultimately show ?thesis by linarith
    qed (simp add: count_mset_0_iff[THEN iffD2])
  qed
  then show ?thesis using contains_locks_mset[OF assms(1) l(1)] set_mset_mono by fastforce
qed

section \<open>Lock order\<close>

text \<open>The elements of a list in the order of their first occurrence.\<close>

fun first_occs :: "'a list \<Rightarrow> 'a list" where
  "first_occs [] = []"
| "first_occs (x # xs) = x # filter (\<lambda>y. y \<noteq> x) (first_occs xs)"

lemma set_first_occs [simp]: "set (first_occs xs) = set xs"
  by (induction xs) auto

lemma distinct_first_occs [simp]: "distinct (first_occs xs)"
  by (induction xs) auto

lemma subseq_first_occs: "subseq (first_occs xs) xs"
proof (induction xs)
  case (Cons x xs)
  have "subseq (filter (\<lambda>y. y \<noteq> x) (first_occs xs)) xs"
    by (rule subseq_order.trans[OF subseq_filter_left Cons.IH])
  then show ?case by simp
qed simp

lemma lock_order_loop_Nil [simp]: "lock_order_loop ms [] = []"
  by (induction ms) auto

lemma lock_order_loop_eq:
  "distinct l \<Longrightarrow> lock_order_loop ms l = filter (\<lambda>x. x \<in> set l) (first_occs ms)"
proof (induction ms arbitrary: l)
  case (Cons x ms)
  show ?case
  proof (cases "x \<in> set l")
    case True
    have "lock_order_loop (x # ms) l = x # lock_order_loop ms (remove1 x l)"
      using True by (simp add: Let_def)
    also have "\<dots> = x # filter (\<lambda>y. y \<in> set (remove1 x l)) (first_occs ms)"
      using Cons.IH[of "remove1 x l"] Cons.prems by simp
    finally show ?thesis using True Cons.prems by (simp add: conj_commute)
  next
    case False
    then show ?thesis using Cons by (auto intro: filter_cong)
  qed
qed simp

lemma lock_order_eq:
  "distinct l \<Longrightarrow> lock_order lc l = filter (\<lambda>x. x \<in> set l) (first_occs (locks_held lc))"
  by (simp add: lock_order_def lock_order_loop_eq)

lemma lock_order_set:
  "distinct l \<Longrightarrow> set l \<subseteq> set (locks_held lc) \<Longrightarrow> set (lock_order lc l) = set l"
  by (auto simp: lock_order_eq)

lemma lock_order_distinct: "distinct l \<Longrightarrow> distinct (lock_order lc l)"
  by (simp add: lock_order_eq)

lemma lock_order_sub:
  assumes "distinct l" and "distinct l'" and "set l' \<subseteq> set l"
  shows "lock_order lc l' = filter (\<lambda>x. x \<in> set l') (lock_order lc l)"
  using assms by (auto simp: lock_order_eq intro: filter_cong)

lemma sort_lock_order:
  assumes "sorted_wrt (<) h" and "set h \<subseteq> set (locks_held lc)"
  shows "sort (lock_order lc h) = h"
proof -
  have h: "sorted h" "distinct h" using assms(1) by (simp_all add: strict_sorted_iff)
  show ?thesis
    using h assms(2) sorted_distinct_set_unique[of "sort (lock_order lc h)" h]
    by (simp add: lock_order_set lock_order_distinct)
qed

section \<open>Counting\<close>

definition matching :: "LockCombination list \<Rightarrow> hypo \<Rightarrow> LockCombination list" where
  "matching cs h = filter (\<lambda>lc. contains_locks lc h) cs"

definition occs :: "LockCombination list \<Rightarrow> u64" where
  "occs cs = sum_list (map lc_occurrences cs)"

definition with_order :: "LockCombination list \<Rightarrow> hypo \<Rightarrow> hypo \<Rightarrow> LockCombination list" where
  "with_order cs h ord = filter (\<lambda>lc. lock_order lc h = ord) (matching cs h)"

definition eval_hypo :: "LockCombination list \<Rightarrow> hypo \<Rightarrow> LockingHypothesisMatches" where
  "eval_hypo cs h = fold (count_match h) cs no_matches"

lemma eval_hypo_snoc: "eval_hypo (cs @ [lc]) h = count_match h lc (eval_hypo cs h)"
  by (simp add: eval_hypo_def)

lemma count_parts_snoc [simp]:
  "matching (cs @ [lc]) h = matching cs h @ (if contains_locks lc h then [lc] else [])"
  "occs (cs @ cs') = occs cs + occs cs'"
  "occs [lc] = lc_occurrences lc"
  "occs [] = 0"
  "with_order (cs @ [lc]) h ord =
     with_order cs h ord @ (if contains_locks lc h \<and> lock_order lc h = ord then [lc] else [])"
  by (simp_all add: matching_def occs_def with_order_def)

lemma eval_hypo_occurrences: "lh_occurrences (eval_hypo cs h) = occs (matching cs h)"
proof (induction cs rule: rev_induct)
  case Nil
  then show ?case by (simp add: eval_hypo_def no_matches_def matching_def)
next
  case (snoc lc cs)
  then show ?case by (simp add: eval_hypo_snoc count_match_def Let_def)
qed

lemma eval_hypo_sorted: "matching cs h \<noteq> [] \<Longrightarrow> sorted_hypothesis (eval_hypo cs h) = h"
proof (induction cs rule: rev_induct)
  case (snoc lc cs)
  then show ?case by (auto simp: eval_hypo_snoc count_match_def Let_def split: if_splits)
qed (simp add: matching_def)

lemma eval_hypo_matches:
  "omap_lookup (matches (eval_hypo cs h)) ord =
     (if with_order cs h ord = [] then None else Some (occs (with_order cs h ord)))"
proof (induction cs arbitrary: ord rule: rev_induct)
  case Nil
  then show ?case by (simp add: eval_hypo_def no_matches_def matching_def with_order_def)
next
  case (snoc lc cs)
  show ?case
  proof (cases "contains_locks lc h")
    case True
    then show ?thesis using snoc.IH by (auto simp: eval_hypo_snoc count_match_def Let_def omap_simps)
  next
    case False
    then show ?thesis using snoc.IH by (simp add: eval_hypo_snoc count_match_def)
  qed
qed

lemma eval_hypo_ok: "omap_ok (matches (eval_hypo cs h))"
proof (induction cs rule: rev_induct)
  case Nil
  then show ?case by (simp add: eval_hypo_def no_matches_def)
next
  case (snoc lc cs)
  then show ?case by (simp add: eval_hypo_snoc count_match_def Let_def omap_ok_update)
qed

end
