(* ===== verification/Hypothesizer_Graph.thy ===== *)
theory Hypothesizer_Graph
  imports Hypothesizer_Support
begin

text \<open>
  The enumeration of the hypotheses and the graph it builds. After the round for depth \<open>n\<close> the
  hypotheses are exactly the sets of at most \<open>n\<close> locks that some access held together, and the
  graph links every hypothesis to the ones it extends by one lock at either end.
\<close>

section \<open>Comparing two hypotheses\<close>

lemma length_filter_full: "length (filter P xs) = length xs \<longleftrightarrow> (\<forall>x \<in> set xs. P x)"
proof (induction xs)
  case (Cons x xs)
  moreover have "length (filter P xs) \<noteq> Suc (length xs)" using length_filter_le[of P xs] by linarith
  ultimately show ?case by auto
qed simp

lemma found_at_full:
  "found_at lhs rhs i = length lhs \<longleftrightarrow> (\<forall>k < length lhs. lhs ! k = rhs ! (k + i))"
  using length_filter_full[of "\<lambda>k. lhs ! k = rhs ! (k + i)" "[0..<length lhs]"]
  by (simp add: found_at_def atLeast0LessThan Ball_def)

lemma sublist_nth:
  assumes "length lhs \<le> length rhs"
  shows "sublist lhs rhs \<longleftrightarrow>
    (\<exists>i \<le> length rhs - length lhs. \<forall>k < length lhs. lhs ! k = rhs ! (k + i))"
proof
  assume "sublist lhs rhs"
  then obtain ps ss where "rhs = ps @ lhs @ ss" by (auto simp: sublist_def)
  then show "\<exists>i \<le> length rhs - length lhs. \<forall>k < length lhs. lhs ! k = rhs ! (k + i)"
    by (intro exI[of _ "length ps"]) (auto simp: nth_append)
next
  assume "\<exists>i \<le> length rhs - length lhs. \<forall>k < length lhs. lhs ! k = rhs ! (k + i)"
  then obtain i where i: "i \<le> length rhs - length lhs" "\<forall>k < length lhs. lhs ! k = rhs ! (k + i)" by blast
  then have "lhs = take (length lhs) (drop i rhs)"
    using assms by (intro nth_equalityI) (auto simp: add.commute)
  then have "rhs = take i rhs @ lhs @ drop (length lhs) (drop i rhs)"
    by (metis append_take_drop_id)
  then show "sublist lhs rhs" unfolding sublist_def by blast
qed

lemma diff_hypotheses_eq:
  "length lhs \<le> length rhs \<Longrightarrow>
     diff_hypotheses lhs rhs = Inr (if sublist lhs rhs then int (length rhs - length lhs) else - 1)"
  by (simp add: diff_hypotheses_def sublist_nth found_at_full list_ex_iff Let_def atLeast0LessThan
      Bex_def less_Suc_eq_le del: upt_Suc)

lemma sublist_one_shorter:
  assumes "sublist u h" and "length h = Suc (length u)"
  shows "u = butlast h \<or> u = tl h"
proof -
  obtain ps ss where h: "h = ps @ u @ ss" using assms(1) by (auto simp: sublist_def)
  then have "length ps + length ss = 1" using assms(2) by simp
  then consider x where "ps = [x]" "ss = []" | x where "ps = []" "ss = [x]"
    by (cases ps; cases ss) auto
  then show ?thesis using h by cases (auto simp: butlast_append)
qed

section \<open>Adding a hypothesis to the graph\<close>

lemma set_set_emplace [simp]: "set (set_emplace x xs) = insert x (set xs)"
  by (auto simp: set_emplace_def set_insort_key)

lemma children_add_edge:
  "set (children (add_edge u v m) n) = (if n = u then insert v (set (children m n)) else set (children m n))"
  by (cases "n = u") (auto simp: add_edge_def children_def omap_simps)

text \<open>
  The nodes the breadth-first walk adds the new hypothesis to: those that can be reached from a
  node of the queue through children that are part of the new hypothesis and lack two or more
  locks, and that lack exactly one lock.
\<close>

inductive visits :: "(hypo \<Rightarrow> hypo list) \<Rightarrow> hypo \<Rightarrow> hypo \<Rightarrow> hypo \<Rightarrow> bool" for ch h where
  visit_here: "sublist n h \<Longrightarrow> length h = Suc (length n) \<Longrightarrow> visits ch h n n"
| visit_child: "sublist n h \<Longrightarrow> Suc (length n) < length h \<Longrightarrow> v \<in> set (ch n) \<Longrightarrow> visits ch h v u \<Longrightarrow>
    visits ch h n u"

inductive_cases visitsE: "visits ch h n u"

lemma visits_cong_imp:
  assumes "visits ch h n u" and "\<And>n. Suc (length n) < length h \<Longrightarrow> set (ch n) = set (ch' n)"
  shows "visits ch' h n u"
  using assms(1) by induction (auto intro: visits.intros simp: assms(2))

lemma visits_cong:
  assumes "\<And>n. Suc (length n) < length h \<Longrightarrow> set (ch n) = set (ch' n)"
  shows "visits ch h n u \<longleftrightarrow> visits ch' h n u"
  using visits_cong_imp[of ch h n u ch'] visits_cong_imp[of ch' h n u ch] assms by blast

definition edges_step :: "Member \<Rightarrow> bool" where
  "edges_step m \<longleftrightarrow> (\<forall>u v. v \<in> set (children m u) \<longrightarrow> length v = Suc (length u))"

text \<open>Each round replaces a node of the queue by longer ones, at most as long as the new one.\<close>

definition queue_measure :: "nat \<Rightarrow> hypo list \<Rightarrow> nat multiset" where
  "queue_measure b nodes = image_mset (\<lambda>n. b - length n) (mset nodes)"

definition queue_rel :: "nat \<Rightarrow> (hypo list \<times> hypo list) set" where
  "queue_rel b = inv_image (mult less_than) (queue_measure b)"

lemma wf_queue_rel [simp]: "wf (queue_rel b)"
  by (simp add: queue_rel_def wf_mult)

lemma queue_rel_step:
  assumes "\<forall>v \<in> set new. length v = Suc (length n)" and "length n < b"
  shows "(rest @ new, n # rest) \<in> queue_rel b"
proof -
  have "(queue_measure b rest + queue_measure b new, queue_measure b rest + {#b - length n#}) \<in> mult less_than"
    using assms by (intro one_step_implies_mult) (auto simp: queue_measure_def)
  then show ?thesis by (simp add: queue_rel_def queue_measure_def)
qed

lemma add_edge_frame [simp]:
  "hypotheses (add_edge u v m) = hypotheses m" "combinations (add_edge u v m) = combinations m"
  "(add_edge u v m)\<lparr>graph := g\<rparr> = m\<lparr>graph := g\<rparr>"
  by (simp_all add: add_edge_def)

lemma add_loop_run:
  assumes "edges_step m" and "\<forall>n \<in> set nodes. length n < length h"
  shows "\<exists>m'. add_loop nodes h m = Some (Inr m') \<and> m' = m\<lparr>graph := graph m'\<rparr> \<and>
    (\<forall>u v. v \<in> set (children m' u) \<longleftrightarrow>
       v \<in> set (children m u) \<or> v = h \<and> (\<exists>n \<in> set nodes. visits (children m) h n u))"
  using assms
proof (induction nodes arbitrary: m rule: wf_induct_rule[OF wf_queue_rel[of "length h"]])
  case (1 nodes)
  show ?case
  proof (cases nodes)
    case Nil
    then show ?thesis by (subst add_loop.simps) simp
  next
    case (Cons n rest)
    have len: "length n < length h" using 1 Cons by simp
    note run = add_loop.simps[of nodes h m]
    note diff = diff_hypotheses_eq[of n h]
    consider "\<not> sublist n h" | "sublist n h" "length h = Suc (length n)" | "sublist n h" "Suc (length n) < length h"
      using len by linarith
    then show ?thesis
    proof cases
      case 1
      then have "add_loop nodes h m = add_loop rest h m"
        using Cons len by (subst run) (simp add: diff)
      moreover have "\<not> visits (children m) h n u" for u using 1 by (auto elim: visitsE)
      ultimately show ?thesis
        using "1.IH"[of rest m] "1.prems" Cons queue_rel_step[of "[]" n "length h" rest] len by simp
    next
      case 2
      then have step: "add_loop nodes h m = add_loop rest h (add_edge n h m)"
        using Cons len by (subst run) (simp add: diff)
      have es: "edges_step (add_edge n h m)"
        using "1.prems"(1) \<open>length h = Suc (length n)\<close> by (simp add: edges_step_def children_add_edge)
      have vis: "visits (children (add_edge n h m)) h k u \<longleftrightarrow> visits (children m) h k u" for k u
        by (rule visits_cong) (use 2 in \<open>auto simp: children_add_edge\<close>)
      have here: "visits (children m) h n u \<longleftrightarrow> u = n" for u
        using 2 by (auto elim: visitsE intro: visits.intros)
      from "1.IH"[of rest "add_edge n h m"] es "1.prems" Cons queue_rel_step[of "[]" n "length h" rest] len
      show ?thesis by (auto simp: step[unfolded Cons] vis here children_add_edge)
    next
      case 3
      then have step: "add_loop nodes h m = add_loop (rest @ children m n) h m"
        using Cons len by (subst run) (simp add: diff)
      have ch: "\<forall>v \<in> set (children m n). length v = Suc (length n)"
        using "1.prems"(1) by (simp add: edges_step_def)
      have here: "visits (children m) h n u \<longleftrightarrow> (\<exists>v \<in> set (children m n). visits (children m) h v u)" for u
        using 3 by (auto elim: visitsE intro: visits.intros)
      have "\<forall>k \<in> set (rest @ children m n). length k < length h" using ch 3 "1.prems"(2) Cons by auto
      from "1.IH"[OF _ "1.prems"(1) this] queue_rel_step[OF ch len, of rest] Cons
      show ?thesis by (simp add: step[unfolded Cons] here bex_Un disj_commute)
    qed
  qed
qed

section \<open>The state of the enumeration\<close>

definition candidates :: "LockCombination list \<Rightarrow> hypo set" where
  "candidates cs = {h. sorted_wrt (<) h \<and> (\<exists>lc \<in> set cs. set h \<subseteq> set (locks_held lc))}"

definition hyp_dom :: "Member \<Rightarrow> hypo set" where
  "hyp_dom m = dom (omap_lookup (hypotheses m))"

definition graph_ok :: "Member \<Rightarrow> bool" where
  "graph_ok m \<longleftrightarrow>
     (\<forall>u v. v \<in> set (children m u) \<longleftrightarrow> v \<in> hyp_dom m \<and> v \<noteq> [] \<and> (u = butlast v \<or> u = tl v))"

definition hyp_inv :: "Member \<Rightarrow> bool" where
  "hyp_inv m \<longleftrightarrow> omap_ok (hypotheses m) \<and> hyp_dom m \<subseteq> candidates (combinations m) \<and> graph_ok m \<and>
     (\<forall>h \<in> hyp_dom m. omap_lookup (hypotheses m) h = Some (eval_hypo (combinations m) h))"

definition complete_below :: "nat \<Rightarrow> Member \<Rightarrow> bool" where
  "complete_below k m \<longleftrightarrow> {h \<in> candidates (combinations m). length h < k} \<subseteq> hyp_dom m"

text \<open>The state during the round for hypotheses of \<open>k\<close> locks that started with the member \<open>m0\<close>.\<close>

definition round_inv :: "nat \<Rightarrow> Member \<Rightarrow> Member \<Rightarrow> bool" where
  "round_inv k m0 m \<longleftrightarrow> m = m0\<lparr>hypotheses := hypotheses m, graph := graph m\<rparr> \<and> hyp_inv m \<and> complete_below k m"

lemma round_inv_combinations: "round_inv k m0 m \<Longrightarrow> combinations m = combinations m0"
  unfolding round_inv_def by (drule conjunct1) (erule ssubst, simp)

lemma reframe:
  "m = m0\<lparr>hypotheses := hypotheses m, graph := graph m\<rparr> \<Longrightarrow>
     m\<lparr>hypotheses := x, graph := g\<rparr> = m0\<lparr>hypotheses := x, graph := g\<rparr>"
  by (cases m; cases m0) simp

lemma candidates_sublist:
  assumes "h \<in> candidates cs" and "sublist u h"
  shows "u \<in> candidates cs"
proof -
  obtain ps ss where "h = ps @ u @ ss" using assms(2) by (auto simp: sublist_def)
  then show ?thesis using assms(1) by (auto simp: candidates_def sorted_wrt_append)
qed

lemma candidates_take: "h \<in> candidates cs \<Longrightarrow> take n h \<in> candidates cs"
  by (rule candidates_sublist) (auto intro: prefix_imp_sublist take_is_prefix)

lemma butlast_take_Suc: "i < length u \<Longrightarrow> butlast (take (Suc i) u) = take i u"
  by (simp add: take_Suc_conv_app_nth)

text \<open>From every prefix of a one-lock-shorter part of \<open>h\<close>, the walk reaches that part.\<close>

lemma visits_prefix:
  assumes "graph_ok m" and "{h' \<in> candidates cs. length h' < length h} \<subseteq> hyp_dom m"
    and "h \<in> candidates cs" and "sublist u h" and "length h = Suc (length u)"
  shows "i \<le> length u \<Longrightarrow> visits (children m) h (take i u) u"
proof (induction "length u - i" arbitrary: i)
  case 0
  then show ?case using assms by (simp add: visit_here)
next
  case (Suc d)
  have i: "i < length u" using Suc by linarith
  have part: "sublist (take k u) h" for k
    using assms(4) sublist_order.order_trans[OF prefix_imp_sublist[OF take_is_prefix]] by blast
  have "take (Suc i) u \<in> hyp_dom m"
    using candidates_sublist[OF assms(3) part] assms(2,5) i by auto
  then have "take (Suc i) u \<in> set (children m (take i u))"
    using assms(1) i by (auto simp: graph_ok_def butlast_take_Suc)
  moreover have "visits (children m) h (take (Suc i) u) u" using Suc i by simp
  ultimately show ?case using part[of i] i assms(5) by (auto intro: visit_child)
qed

lemma visits_from_root:
  assumes "graph_ok m" and "{h' \<in> candidates cs. length h' < length h} \<subseteq> hyp_dom m"
    and "h \<in> candidates cs" and "h \<noteq> []"
  shows "visits (children m) h [] u \<longleftrightarrow> u = butlast h \<or> u = tl h"
proof
  assume "visits (children m) h [] u"
  then have "sublist u h \<and> length h = Suc (length u)" by induction auto
  then show "u = butlast h \<or> u = tl h" using sublist_one_shorter by blast
next
  assume u: "u = butlast h \<or> u = tl h"
  then have "sublist u h" "length h = Suc (length u)"
    using assms(4) by (auto simp: prefix_imp_sublist prefixeq_butlast suffix_imp_sublist suffix_tl)
  then show "visits (children m) h [] u" using visits_prefix[OF assms(1-3), of u 0] by simp
qed

lemma graph_ok_edges_step: "graph_ok m \<Longrightarrow> edges_step m"
  by (auto simp: graph_ok_def edges_step_def)

lemma evaluate_hypothesis_run:
  assumes inv: "round_inv k m0 m" and h: "h \<in> candidates (combinations m0)" "length h = k"
  shows "\<exists>m'. evaluate_hypothesis m h = Some (Inr m') \<and> round_inv k m0 m' \<and>
    hyp_dom m' = insert h (hyp_dom m)"
proof (cases "h \<in> hyp_dom m")
  case True
  then show ?thesis using inv by (auto simp: evaluate_hypothesis_def hyp_dom_def)
next
  case False
  define m1 where "m1 = m\<lparr>hypotheses := omap_update h (eval_hypo (combinations m) h) (hypotheses m)\<rparr>"
  have ev: "evaluate_hypothesis m h = add_hypothesis_to_graph m1 h"
    using False by (auto simp: evaluate_hypothesis_def hyp_dom_def m1_def eval_hypo_def Let_def)
  have cs: "combinations m = combinations m0" by (rule round_inv_combinations[OF inv])
  have ok: "omap_ok (hypotheses m)" "graph_ok m" "hyp_dom m \<subseteq> candidates (combinations m)"
    and at: "\<forall>h \<in> hyp_dom m. omap_lookup (hypotheses m) h = Some (eval_hypo (combinations m) h)"
    and below: "{h' \<in> candidates (combinations m). length h' < length h} \<subseteq> hyp_dom m"
    using inv h(2) by (simp_all add: round_inv_def hyp_inv_def complete_below_def)
  have dom1: "hyp_dom (m1\<lparr>graph := g\<rparr>) = insert h (hyp_dom m)" for g
    by (simp add: hyp_dom_def m1_def omap_simps)
  have ch1: "children m1 = children m" by (simp add: fun_eq_iff children_def m1_def)
  have "\<exists>g. add_hypothesis_to_graph m1 h = Some (Inr (m1\<lparr>graph := g\<rparr>)) \<and>
    (\<forall>u v. v \<in> set (children (m1\<lparr>graph := g\<rparr>) u) \<longleftrightarrow>
       v \<in> set (children m u) \<or> v = h \<and> h \<noteq> [] \<and> (u = butlast h \<or> u = tl h))"
  proof (cases "h = []")
    case True
    then show ?thesis by (intro exI[of _ "graph m1"]) (simp add: add_hypothesis_to_graph_def ch1)
  next
    case False
    have "edges_step m1" using graph_ok_edges_step[OF ok(2)] by (simp add: edges_step_def ch1)
    moreover have "\<forall>n \<in> set [root_node]. length n < length h" using False by (simp add: root_node_def)
    note add_loop_run[OF calculation this]
    then obtain m' where m': "add_loop [root_node] h m1 = Some (Inr m')" "m' = m1\<lparr>graph := graph m'\<rparr>"
      "\<forall>u v. v \<in> set (children m' u) \<longleftrightarrow>
         v \<in> set (children m1 u) \<or> v = h \<and> (\<exists>n \<in> set [root_node]. visits (children m1) h n u)"
      by (elim exE conjE)
    have vis: "visits (children m) h [] u \<longleftrightarrow> u = butlast h \<or> u = tl h" for u
      by (rule visits_from_root[OF ok(2) below _ False]) (simp add: h(1) cs)
    have "\<forall>u v. v \<in> set (children (m1\<lparr>graph := graph m'\<rparr>) u) \<longleftrightarrow>
        v \<in> set (children m u) \<or> v = h \<and> h \<noteq> [] \<and> (u = butlast h \<or> u = tl h)"
      using m'(3) False unfolding m'(2)[symmetric] by (simp add: ch1 root_node_def vis)
    moreover have "add_hypothesis_to_graph m1 h = Some (Inr (m1\<lparr>graph := graph m'\<rparr>))"
      using m'(1) False unfolding m'(2)[symmetric] by (simp add: add_hypothesis_to_graph_def)
    ultimately show ?thesis by blast
  qed
  then obtain g where g: "add_hypothesis_to_graph m1 h = Some (Inr (m1\<lparr>graph := g\<rparr>))"
    "\<forall>u v. v \<in> set (children (m1\<lparr>graph := g\<rparr>) u) \<longleftrightarrow>
       v \<in> set (children m u) \<or> v = h \<and> h \<noteq> [] \<and> (u = butlast h \<or> u = tl h)" by blast
  have "graph_ok (m1\<lparr>graph := g\<rparr>)" unfolding graph_ok_def dom1
    using g(2) ok(2) by (auto simp: graph_ok_def)
  moreover have "omap_lookup (hypotheses m1) x = Some (eval_hypo (combinations m) x)"
    if "x \<in> insert h (hyp_dom m)" for x
    using that at by (auto simp: m1_def omap_simps)
  ultimately have "hyp_inv (m1\<lparr>graph := g\<rparr>)"
    using ok h(1) cs dom1 by (simp add: hyp_inv_def omap_ok_update) (simp add: m1_def omap_ok_update)
  moreover have "complete_below k (m1\<lparr>graph := g\<rparr>)"
    unfolding complete_below_def dom1 using below h(2) by (auto simp: m1_def)
  moreover have "m1\<lparr>graph := g\<rparr> = m0\<lparr>hypotheses := hypotheses m1, graph := g\<rparr>"
    using reframe[of m m0] inv by (simp add: round_inv_def m1_def)
  ultimately have "round_inv k m0 (m1\<lparr>graph := g\<rparr>)" by (simp add: round_inv_def)
  then show ?thesis using ev g(1) dom1 by auto
qed

section \<open>The enumeration\<close>

lemma for_each_run:
  assumes "\<And>x s. x \<in> set xs \<Longrightarrow> I s \<Longrightarrow> \<exists>s'. f x s = Some (Inr s') \<and> I s' \<and> D s' = D s \<union> A x"
    and "I s"
  shows "\<exists>s'. for_each f xs s = Some (Inr s') \<and> I s' \<and> D s' = D s \<union> (\<Union>x \<in> set xs. A x)"
  using assms
proof (induction xs arbitrary: s)
  case (Cons x xs)
  obtain s1 where s1: "f x s = Some (Inr s1)" "I s1" "D s1 = D s \<union> A x"
    using Cons.prems(1)[of x s] Cons.prems(2) by auto
  then obtain s2 where "for_each f xs s1 = Some (Inr s2)" "I s2" "D s2 = D s1 \<union> (\<Union>x \<in> set xs. A x)"
    using Cons.IH[of s1] Cons.prems(1) by auto
  then show ?case using s1 by auto
qed simp

lemma in_set_drop_nth: "y \<in> set (drop n xs) \<longleftrightarrow> (\<exists>p \<ge> n. p < length xs \<and> xs ! p = y)"
proof
  assume "y \<in> set (drop n xs)"
  then obtain i where "i < length xs - n" "drop n xs ! i = y" by (auto simp: in_set_conv_nth)
  then show "\<exists>p \<ge> n. p < length xs \<and> xs ! p = y" by (intro exI[of _ "n + i"]) auto
next
  assume "\<exists>p \<ge> n. p < length xs \<and> xs ! p = y"
  then obtain p where "n \<le> p" "p < length xs" "xs ! p = y" by blast
  then show "y \<in> set (drop n xs)" by (auto simp: in_set_conv_nth intro!: exI[of _ "p - n"])
qed

text \<open>The hypotheses that extend \<open>cur\<close> by \<open>depth\<close> locks of a list.\<close>

definition extensions :: "hypo \<Rightarrow> nat \<Rightarrow> myid set \<Rightarrow> hypo set" where
  "extensions cur depth L = {cur @ xs | xs. sorted_wrt (<) (cur @ xs) \<and> length xs = depth \<and> set xs \<subseteq> L}"

lemma extensions_0: "sorted_wrt (<) cur \<Longrightarrow> extensions cur 0 L = {cur}"
  by (auto simp: extensions_def)

lemma extensions_Suc:
  assumes "sorted ls" and "\<forall>x \<in> set cur. \<forall>y \<in> set (drop pos ls). x \<le> y"
  shows "extensions cur (Suc depth) (set (drop pos ls)) =
    (\<Union>p \<in> {pos..<length ls}. if ls ! p \<in> set cur then {}
       else extensions (cur @ [ls ! p]) depth (set (drop (p + 1) ls)))"
proof (intro equalityI subsetI)
  fix h
  assume "h \<in> extensions cur (Suc depth) (set (drop pos ls))"
  then obtain x xs where h: "h = cur @ x # xs" "sorted_wrt (<) (cur @ x # xs)" "length xs = depth"
    "x \<in> set (drop pos ls)" "set xs \<subseteq> set (drop pos ls)"
    by (auto simp: extensions_def length_Suc_conv)
  then obtain p where p: "pos \<le> p" "p < length ls" "ls ! p = x"
    by (auto simp: in_set_drop_nth)
  have "y \<in> set (drop (p + 1) ls)" if y: "y \<in> set xs" for y
  proof -
    have "x < y" using h(2) y by (simp add: sorted_wrt_append)
    moreover obtain q where "q < length ls" "ls ! q = y" using subsetD[OF h(5) y] by (auto simp: in_set_drop_nth)
    moreover have "p < q"
      using sorted_nth_mono[OF assms(1), of q p] calculation p by force
    ultimately show ?thesis by (auto simp: in_set_drop_nth intro!: exI[of _ q])
  qed
  moreover have "x \<notin> set cur" using h(2) by (auto simp: sorted_wrt_append)
  ultimately show "h \<in> (\<Union>p \<in> {pos..<length ls}. if ls ! p \<in> set cur then {}
       else extensions (cur @ [ls ! p]) depth (set (drop (p + 1) ls)))"
    using h p by (auto simp: extensions_def intro!: bexI[of _ p])
next
  fix h
  assume "h \<in> (\<Union>p \<in> {pos..<length ls}. if ls ! p \<in> set cur then {}
       else extensions (cur @ [ls ! p]) depth (set (drop (p + 1) ls)))"
  then obtain p xs where p: "pos \<le> p" "p < length ls" and h: "h = cur @ ls ! p # xs"
    "sorted_wrt (<) (cur @ ls ! p # xs)" "length xs = depth" "set xs \<subseteq> set (drop (p + 1) ls)"
    by (auto simp: extensions_def split: if_splits)
  have "ls ! p \<in> set (drop pos ls)"
    using p by (auto simp: in_set_drop_nth)
  moreover have "set (drop (p + 1) ls) \<subseteq> set (drop pos ls)" using p by (intro set_drop_subset_set_drop) simp
  ultimately show "h \<in> extensions cur (Suc depth) (set (drop pos ls))" using h
    by (auto simp: extensions_def intro!: exI[of _ "ls ! p # xs"])
qed

lemma find_hypotheses_rek_run:
  assumes "lc \<in> set (combinations m0)" and "lc_ok lc"
  shows "round_inv (length cur + depth) m0 m \<Longrightarrow> sorted_wrt (<) cur \<Longrightarrow>
    set cur \<subseteq> set (locks_held lc) \<Longrightarrow> \<forall>x \<in> set cur. \<forall>y \<in> set (drop pos (locks_held_sorted lc)). x \<le> y \<Longrightarrow>
    \<exists>m'. find_hypotheses_rek lc pos cur depth m = Some (Inr m') \<and> round_inv (length cur + depth) m0 m' \<and>
      hyp_dom m' = hyp_dom m \<union> extensions cur depth (set (drop pos (locks_held_sorted lc)))"
proof (induction depth arbitrary: pos cur m)
  case 0
  then have "cur \<in> candidates (combinations m0)" using assms(1) by (auto simp: candidates_def)
  then show ?case using 0 evaluate_hypothesis_run[of "length cur" m0 m cur] by (auto simp: extensions_0)
next
  case (Suc depth)
  let ?ls = "locks_held_sorted lc"
  have ls: "sorted ?ls" "set ?ls = set (locks_held lc)" using assms(2) by (simp_all add: lc_ok_def)
  let ?f = "\<lambda>p m. let lock = ?ls ! p in if lock \<in> set cur then Some (Inr m)
       else find_hypotheses_rek lc (p + 1) (cur @ [lock]) depth m"
  have step: "\<exists>m'. ?f p m = Some (Inr m') \<and> round_inv (length cur + Suc depth) m0 m' \<and>
      hyp_dom m' = hyp_dom m \<union> (if ?ls ! p \<in> set cur then {}
         else extensions (cur @ [?ls ! p]) depth (set (drop (p + 1) ?ls)))"
    if p: "p \<in> set [pos..<length ?ls]" and m: "round_inv (length cur + Suc depth) m0 m" for p m
  proof (cases "?ls ! p \<in> set cur")
    case False
    have "?ls ! p \<in> set (drop pos ?ls)"
      using p by (auto simp: in_set_drop_nth)
    then have cur: "\<forall>x \<in> set cur. x < ?ls ! p" using Suc.prems(4) False by (metis le_neq_trans)
    have "\<forall>y \<in> set (drop (p + 1) ?ls). ?ls ! p \<le> y"
      using p by (auto simp: in_set_drop_nth intro!: sorted_nth_mono[OF ls(1)])
    then have "\<forall>x \<in> set (cur @ [?ls ! p]). \<forall>y \<in> set (drop (p + 1) ?ls). x \<le> y"
      using cur by fastforce
    moreover have "sorted_wrt (<) (cur @ [?ls ! p])" using cur Suc.prems(2) by (simp add: sorted_wrt_append)
    moreover have "set (cur @ [?ls ! p]) \<subseteq> set (locks_held lc)"
      using Suc.prems(3) ls(2) p by (auto dest: nth_mem)
    ultimately show ?thesis using Suc.IH[of "cur @ [?ls ! p]" m "p + 1"] m False by (simp add: Let_def)
  qed (use m in simp)
  have "\<exists>m'. for_each ?f [pos..<length ?ls] m = Some (Inr m') \<and> round_inv (length cur + Suc depth) m0 m' \<and>
      hyp_dom m' = hyp_dom m \<union> (\<Union>p \<in> set [pos..<length ?ls]. if ?ls ! p \<in> set cur then {}
         else extensions (cur @ [?ls ! p]) depth (set (drop (p + 1) ?ls)))"
    by (rule for_each_run[where I = "round_inv (length cur + Suc depth) m0"]) (use step Suc.prems(1) in blast)+
  then show ?case using extensions_Suc[OF ls(1) Suc.prems(4)] by (simp add: Let_def)
qed

lemma find_round_run:
  assumes "\<forall>lc \<in> set (combinations m0). lc_ok lc" and "round_inv k m0 m"
  shows "\<exists>m'. for_each (\<lambda>lc. find_hypotheses_rek lc 0 [] k) (combinations m) m = Some (Inr m') \<and>
    round_inv k m0 m' \<and> hyp_dom m' = hyp_dom m \<union> {h \<in> candidates (combinations m0). length h = k}"
proof -
  have "\<exists>m'. for_each (\<lambda>lc. find_hypotheses_rek lc 0 [] k) (combinations m0) m = Some (Inr m') \<and>
    round_inv k m0 m' \<and> hyp_dom m' = hyp_dom m \<union>
      (\<Union>lc \<in> set (combinations m0). extensions [] k (set (locks_held_sorted lc)))"
  proof (rule for_each_run[where I = "round_inv k m0"])
    fix lc m
    assume "lc \<in> set (combinations m0)" "round_inv k m0 m"
    then show "\<exists>m'. find_hypotheses_rek lc 0 [] k m = Some (Inr m') \<and> round_inv k m0 m' \<and>
        hyp_dom m' = hyp_dom m \<union> extensions [] k (set (locks_held_sorted lc))"
      using find_hypotheses_rek_run[of lc m0 "[]" k m 0] assms(1) by simp
  qed (rule assms(2))
  moreover have "(\<Union>lc \<in> set (combinations m0). extensions [] k (set (locks_held_sorted lc))) =
      {h \<in> candidates (combinations m0). length h = k}"
    using assms(1) by (auto simp: extensions_def candidates_def lc_ok_def)
  ultimately show ?thesis using round_inv_combinations[OF assms(2)] by simp
qed

lemma candidates_length:
  assumes "h \<in> candidates cs"
  shows "length h \<le> sum_list (map (length \<circ> locks_held) cs)"
proof -
  obtain lc where lc: "lc \<in> set cs" "set h \<subseteq> set (locks_held lc)" and d: "distinct h"
    using assms by (auto simp: candidates_def strict_sorted_iff)
  have "length h \<le> length (locks_held lc)"
    using card_mono[OF _ lc(2)] card_length[of "locks_held lc"] d by (simp add: distinct_card)
  also have "\<dots> \<le> sum_list (map (length \<circ> locks_held) cs)"
    using member_le_sum_list[of "length (locks_held lc)" "map (length \<circ> locks_held) cs"] lc(1) by force
  finally show ?thesis .
qed

lemma card_hyp_dom: "hyp_inv m \<Longrightarrow> card (hyp_dom m) = length (hypotheses m)"
  using distinct_card[of "map fst (hypotheses m)"]
  by (simp add: hyp_inv_def hyp_dom_def omap_ok_def omap_keys_def strict_sorted_iff dom_map_of_conv_image_fst)

lemma finite_hyp_dom [simp]: "finite (hyp_dom m)"
  by (simp add: hyp_dom_def finite_dom_map_of)

definition limited :: "nat \<Rightarrow> LockCombination list \<Rightarrow> hypo set" where
  "limited max_len cs = {h \<in> candidates cs. 0 < max_len \<longrightarrow> length h \<le> max_len}"

definition found_inv :: "nat \<Rightarrow> Member \<Rightarrow> Member \<Rightarrow> bool" where
  "found_inv max_len m0 m \<longleftrightarrow> m = m0\<lparr>hypotheses := hypotheses m, graph := graph m\<rparr> \<and> hyp_inv m \<and>
     hyp_dom m = limited max_len (combinations m0)"

lemma round_inv_hyp_inv: "round_inv k m0 m \<Longrightarrow> hyp_inv m"
  by (simp only: round_inv_def)

lemma round_inv_complete: "round_inv k m0 m \<Longrightarrow> complete_below k' m \<Longrightarrow> round_inv k' m0 m"
  by (simp only: round_inv_def)

lemma round_inv_found:
  "round_inv k m0 m \<Longrightarrow> hyp_dom m = limited max_len (combinations m0) \<Longrightarrow> found_inv max_len m0 m"
  by (simp only: round_inv_def found_inv_def)

lemma find_loop_run:
  assumes ok: "\<forall>lc \<in> set (combinations m0). lc_ok lc"
    and "round_inv k m0 m" and "hyp_dom m = {h \<in> candidates (combinations m0). length h < k}"
    and "0 < max_len \<longrightarrow> k \<le> max_len"
  shows "\<exists>m'. find_loop max_len k m = Some (Inr m') \<and> found_inv max_len m0 m'"
  using assms(2-4)
proof (induction "Suc (sum_list (map (length \<circ> locks_held) (combinations m0))) - k" arbitrary: k m rule: less_induct)
  case less
  let ?C = "candidates (combinations m0)"
  obtain m1 where m1: "for_each (\<lambda>lc. find_hypotheses_rek lc 0 [] k) (combinations m) m = Some (Inr m1)"
    "round_inv k m0 m1" "hyp_dom m1 = hyp_dom m \<union> {h \<in> ?C. length h = k}"
    using find_round_run[OF ok less.prems(1)] by blast
  have dom1: "hyp_dom m1 = {h \<in> ?C. length h < Suc k}"
    unfolding m1(3) less.prems(2) by (auto simp: less_Suc_eq)
  have sub: "hyp_dom m \<subseteq> hyp_dom m1" unfolding m1(3) by (rule Un_upper1)
  have same: "length (hypotheses m) = length (hypotheses m1) \<longleftrightarrow> hyp_dom m1 = hyp_dom m"
    unfolding card_hyp_dom[OF round_inv_hyp_inv[OF m1(2)], symmetric]
      card_hyp_dom[OF round_inv_hyp_inv[OF less.prems(1)], symmetric]
    using card_subset_eq[OF finite_hyp_dom sub] by metis
  note loop = find_loop.simps[of max_len k m]
  consider "hyp_dom m1 = hyp_dom m" | "hyp_dom m1 \<noteq> hyp_dom m" "0 < max_len \<and> max_len \<le> k" |
    "hyp_dom m1 \<noteq> hyp_dom m" "\<not> (0 < max_len \<and> max_len \<le> k)" by blast
  then show ?case
  proof cases
    case 1
    have "length h < k" if "h \<in> ?C" for h
    proof (rule ccontr)
      assume "\<not> length h < k"
      then have "take k h \<in> hyp_dom m1" using candidates_take[OF that, of k] dom1 by auto
      then show False using 1 less.prems(2) \<open>\<not> length h < k\<close> by auto
    qed
    then have "hyp_dom m1 = limited max_len (combinations m0)"
      using dom1 less.prems(3) unfolding limited_def by fastforce
    then have "found_inv max_len m0 m1" by (rule round_inv_found[OF m1(2)])
    then show ?thesis using m1(1) 1 same by (subst loop) simp
  next
    case 2
    then have "k = max_len" using less.prems(3) by simp
    then have "hyp_dom m1 = limited max_len (combinations m0)"
      unfolding dom1 limited_def using 2(2) by (auto simp: less_Suc_eq_le)
    then have "found_inv max_len m0 m1" by (rule round_inv_found[OF m1(2)])
    then show ?thesis using m1(1) 2 by (subst loop) simp
  next
    case 3
    obtain h where h: "h \<in> ?C" "length h = k" using 3(1) unfolding m1(3) by blast
    have "k \<le> sum_list (map (length \<circ> locks_held) (combinations m0))" using candidates_length[OF h(1)] h(2) by simp
    moreover have "round_inv (Suc k) m0 m1"
      using dom1 round_inv_combinations[OF m1(2)]
      by (intro round_inv_complete[OF m1(2)]) (simp add: complete_below_def)
    ultimately have "\<exists>m'. find_loop max_len (Suc k) m1 = Some (Inr m') \<and> found_inv max_len m0 m'"
      using less.hyps[of "Suc k" m1, OF _ _ dom1] 3(2) by (simp add: Suc_diff_le Suc_le_eq not_le imp_conv_disj)
    moreover have "find_loop max_len k m = find_loop max_len (Suc k) m1"
      using m1(1) 3(1) same by (subst loop) (simp, use 3(2) in blast)
    ultimately show ?thesis by simp
  qed
qed

definition fresh_Member :: "Member \<Rightarrow> bool" where
  "fresh_Member m \<longleftrightarrow> hypotheses m = [] \<and> graph m = [] \<and> list_all lc_ok (combinations m)"

lemma find_hypotheses_run:
  assumes "fresh_Member m"
  shows "\<exists>m'. find_hypotheses max_len m = Some (Inr m') \<and> found_inv max_len m m'"
proof -
  have "round_inv 0 m m" using assms
    by (simp add: fresh_Member_def round_inv_def hyp_inv_def hyp_dom_def graph_ok_def children_def complete_below_def)
  moreover have "hyp_dom m = {h \<in> candidates (combinations m). length h < 0}"
    using assms by (simp add: fresh_Member_def hyp_dom_def)
  ultimately show ?thesis
    using find_loop_run[of m 0 m max_len] assms by (simp add: fresh_Member_def find_hypotheses_def list_all_iff)
qed

end
