(* ===== verification/Hypothesizer_Winner.thy ===== *)
theory Hypothesizer_Winner
  imports Hypothesizer_Graph
begin

text \<open>
  The search for the winning hypothesis. The locale \<open>strategy\<close> states what the search relies on
  in a callback, and the locale \<open>accepting_strategy\<close> what a strategy promises about the support of
  the hypotheses it selects; both are interpreted on the callbacks of the program. For the default
  strategy, whose condition is on the loss of support and not on the support, the way to its winner
  is an inductive predicate (\<open>sharpened\<close>).
\<close>

section \<open>The representative of a set of locks\<close>

definition order_count :: "Member \<Rightarrow> hypo \<Rightarrow> hypo \<Rightarrow> u64" where
  "order_count m node ord = (case omap_lookup (matches (hypothesis_of m node)) ord of None \<Rightarrow> 0 | Some n \<Rightarrow> n)"

definition representative :: "Member \<Rightarrow> hypo \<Rightarrow> hypo" where
  "representative m node = snd (best_order (matches (hypothesis_of m node)))"

lemma best_order_max:
  assumes "best_order ms = (mx, best)"
  shows "(\<forall>(ord, n) \<in> set ms. n \<le> mx) \<and> ((best, mx) \<in> set ms \<or> mx = 0 \<and> best = [])"
  using assms
proof (induction ms arbitrary: mx best rule: rev_induct)
  case Nil
  then show ?case by (simp add: best_order_def)
next
  case (snoc e ms)
  obtain ord n where e: "e = (ord, n)" by (cases e)
  obtain mx' best' where b: "best_order ms = (mx', best')" by (cases "best_order ms")
  have step: "best_order (ms @ [e]) = (if n > mx' then (n, ord) else (mx', best'))"
    using b by (simp add: best_order_def e)
  note IH = snoc.IH[OF b]
  show ?case
  proof (cases "n > mx'")
    case True
    then have "mx = n" "best = ord" using step snoc.prems by simp_all
    moreover have "\<forall>(ord, k) \<in> set ms. k \<le> n" using IH True by fastforce
    ultimately show ?thesis by (simp add: e)
  next
    case False
    then have "mx = mx'" "best = best'" using step snoc.prems by simp_all
    then show ?thesis using IH False by (auto simp: e)
  qed
qed

lemma map_of_le: "\<forall>(ord, n) \<in> set ms. n \<le> mx \<Longrightarrow> map_of ms k = Some n \<Longrightarrow> n \<le> mx"
  by (auto dest: map_of_SomeD)

lemma representative_max:
  assumes "omap_ok (matches (hypothesis_of m node))"
  shows "order_count m node ord \<le> order_count m node (representative m node)"
proof -
  let ?ms = "matches (hypothesis_of m node)"
  obtain mx best where b: "best_order ?ms = (mx, best)" by (cases "best_order ?ms")
  note best = best_order_max[OF b]
  have le: "order_count m node k \<le> mx" for k
    using best by (auto simp: order_count_def split: option.splits intro: map_of_le)
  have "order_count m node best = mx"
  proof (cases "(best, mx) \<in> set ?ms")
    case True
    then show ?thesis using om.entries_lookup[OF assms] by (auto simp: order_count_def)
  next
    case False
    then show ?thesis using best le[of best] by auto
  qed
  then show ?thesis using le by (simp add: representative_def b)
qed

lemma rel_support_eq:
  "rel_support m node = ddiv (double_of_u64 (order_count m node (representative m node))) (double_of_u64 (m_occurrences m))"
  by (simp add: rel_support_def order_count_def representative_def Let_def)

section \<open>The search\<close>

locale strategy =
  fixes cb :: eval_cb
  assumes cb_frame: "cb m node ord rsw cur = (m', new, rsw') \<Longrightarrow>
      \<exists>cl found. m' = m\<lparr>conflict_list := cl, winner_found := found\<rparr>"
    and cb_new: "cb m node ord rsw cur = (m', new, rsw') \<Longrightarrow> new = [] \<or> new = children m node"
    and cb_entries: "cb m node ord rsw cur = (m', new, rsw') \<Longrightarrow> conflict_list m \<noteq> [] \<Longrightarrow>
      conflict_list m' \<noteq> [] \<and> set (conflict_list m') \<subseteq> insert (node, ord) (set (conflict_list m))"
    and cb_found: "cb m node ord rsw cur = (m', new, rsw') \<Longrightarrow> winner_found m \<Longrightarrow> winner_found m'"

locale accepting_strategy = strategy +
  fixes state_ok :: "Member \<Rightarrow> double \<Rightarrow> bool"
    and accepts :: "double \<Rightarrow> bool"
  assumes state_ok_step: "state_ok m rsw \<Longrightarrow> cb m node ord rsw cur = (m', new, rsw') \<Longrightarrow> state_ok m' rsw'"
    and accepts_entry: "state_ok m rsw \<Longrightarrow> cb m node ord rsw cur = (m', new, rsw') \<Longrightarrow>
      (node, ord) \<in> set (conflict_list m') \<Longrightarrow> (node, ord) \<in> set (conflict_list m) \<or> accepts cur"

text \<open>A member whose graph the search can walk: children are longer hypotheses of the member.\<close>

definition walkable :: "nat \<Rightarrow> Member \<Rightarrow> bool" where
  "walkable b m \<longleftrightarrow> (\<forall>u v. v \<in> set (children m u) \<longrightarrow> length v = Suc (length u) \<and> v \<in> hyp_dom m) \<and>
     (\<forall>h \<in> hyp_dom m. length h < b)"

lemma frame_reads [simp]:
  "children (m\<lparr>conflict_list := cl, winner_found := found\<rparr>) = children m"
  "hyp_dom (m\<lparr>conflict_list := cl, winner_found := found\<rparr>) = hyp_dom m"
  "hypothesis_of (m\<lparr>conflict_list := cl, winner_found := found\<rparr>) = hypothesis_of m"
  "representative (m\<lparr>conflict_list := cl, winner_found := found\<rparr>) = representative m"
  "rel_support (m\<lparr>conflict_list := cl, winner_found := found\<rparr>) = rel_support m"
  "walkable b (m\<lparr>conflict_list := cl, winner_found := found\<rparr>) = walkable b m"
  by (simp_all add: fun_eq_iff children_def hyp_dom_def hypothesis_of_def representative_def rel_support_def
      walkable_def)

lemma touch_known: "node \<in> hyp_dom m \<Longrightarrow> touch_hypothesis node m = m"
  by (auto simp: touch_hypothesis_def hyp_dom_def)

lemma winner_loop_step:
  assumes "node \<in> hyp_dom m" and "cb m node (representative m node) rsw (rel_support m node) = (m2, new, rsw2)"
  shows "winner_loop cb (node # rest) rsw m = winner_loop cb (rest @ new) rsw2 m2"
  using assms by (subst winner_loop.simps) (simp add: touch_known representative_def)

context accepting_strategy
begin

lemma search_run:
  assumes "walkable b m" and "set nodes \<subseteq> hyp_dom m" and "conflict_list m \<noteq> []" and "state_ok m rsw"
  shows "\<exists>cl found rsw'. winner_loop cb nodes rsw m = Some (m\<lparr>conflict_list := cl, winner_found := found\<rparr>, rsw') \<and>
    cl \<noteq> [] \<and> (winner_found m \<longrightarrow> found) \<and> (\<forall>e \<in> set cl. e \<in> set (conflict_list m) \<or>
      (\<exists>node \<in> hyp_dom m. e = (node, representative m node) \<and> accepts (rel_support m node)))"
  using assms
proof (induction nodes arbitrary: m rsw rule: wf_induct_rule[OF wf_queue_rel[of b]])
  case (1 nodes)
  show ?case
  proof (cases nodes)
    case Nil
    then have "winner_loop cb nodes rsw m =
        Some (m\<lparr>conflict_list := conflict_list m, winner_found := winner_found m\<rparr>, rsw)"
      by (simp add: winner_loop.simps)
    then show ?thesis using "1.prems"(3) by blast
  next
    case (Cons node rest)
    obtain m2 new rsw2 where cb: "cb m node (representative m node) rsw (rel_support m node) = (m2, new, rsw2)"
      by (metis prod_cases3)
    obtain cl found where m2: "m2 = m\<lparr>conflict_list := cl, winner_found := found\<rparr>" using cb_frame[OF cb] by blast
    have node: "node \<in> hyp_dom m" "length node < b" using "1.prems" Cons by (auto simp: walkable_def)
    have new: "\<forall>v \<in> set new. length v = Suc (length node) \<and> v \<in> hyp_dom m"
      using cb_new[OF cb] "1.prems"(1) by (auto simp: walkable_def)
    have entries: "cl \<noteq> []" "\<forall>e \<in> set cl. e \<in> set (conflict_list m) \<or>
        e = (node, representative m node) \<and> accepts (rel_support m node)"
      using cb_entries[OF cb "1.prems"(3)] accepts_entry[OF "1.prems"(4) cb] by (auto simp: m2)
    have "(rest @ new, nodes) \<in> queue_rel b" using queue_rel_step[of new node b rest] new node Cons by simp
    from "1.IH"[OF this, of m2 rsw2] "1.prems"(1,2) Cons new entries(1) state_ok_step[OF "1.prems"(4) cb]
    obtain cl' found' rsw' where
      run: "winner_loop cb (rest @ new) rsw2 m2 = Some (m2\<lparr>conflict_list := cl', winner_found := found'\<rparr>, rsw')"
        "cl' \<noteq> []" "found \<longrightarrow> found'" and
      e: "\<forall>e \<in> set cl'. e \<in> set cl \<or>
        (\<exists>node \<in> hyp_dom m. e = (node, representative m node) \<and> accepts (rel_support m node))"
      by (auto simp: m2)
    have "winner_loop cb nodes rsw m = Some (m\<lparr>conflict_list := cl', winner_found := found'\<rparr>, rsw')"
      using run(1) winner_loop_step[where cb = cb, OF node(1) cb, of rest] Cons by (simp add: m2)
    moreover have "\<forall>e \<in> set cl'. e \<in> set (conflict_list m) \<or>
        (\<exists>node \<in> hyp_dom m. e = (node, representative m node) \<and> accepts (rel_support m node))"
      using e entries(2) node(1) by blast
    moreover have "winner_found m \<longrightarrow> found'" using run(3) cb_found[OF cb] by (simp add: m2)
    ultimately show ?thesis using run(2) by blast
  qed
qed

end

section \<open>The four strategies\<close>

lemma set_save_equal: "set (conflict_list (save_equal node ord m)) \<subseteq> insert (node, ord) (set (conflict_list m))"
  by (auto simp: save_equal_def)

lemma save_equal_simps [simp]:
  "conflict_list m \<noteq> [] \<Longrightarrow> conflict_list (save_equal node ord m) \<noteq> []"
  "conflict_list m \<noteq> [] \<Longrightarrow> hd (conflict_list (save_equal node ord m)) = hd (conflict_list m)"
  by (simp_all add: save_equal_def)

lemma reset_winner_simps [simp]: "conflict_list (reset_winner node ord m) = [(node, ord)]"
  by (simp add: reset_winner_def)

lemma winner_frames:
  "\<exists>cl found. save_equal node ord m = m\<lparr>conflict_list := cl, winner_found := found\<rparr>"
  "\<exists>cl found. reset_winner node ord m = m\<lparr>conflict_list := cl, winner_found := found\<rparr>"
  "\<exists>cl found. m = m\<lparr>conflict_list := cl, winner_found := found\<rparr>"
proof -
  have id: "m = m\<lparr>conflict_list := conflict_list m, winner_found := winner_found m\<rparr>" by simp
  then show "\<exists>cl found. m = m\<lparr>conflict_list := cl, winner_found := found\<rparr>" by blast
  have "save_equal node ord m = m\<lparr>conflict_list := conflict_list (save_equal node ord m), winner_found := winner_found m\<rparr>"
    by (simp add: save_equal_def)
  then show "\<exists>cl found. save_equal node ord m = m\<lparr>conflict_list := cl, winner_found := found\<rparr>" by blast
  have "reset_winner node ord m = m\<lparr>conflict_list := [(node, ord)], winner_found := True\<rparr>"
    by (simp add: reset_winner_def)
  then show "\<exists>cl found. reset_winner node ord m = m\<lparr>conflict_list := cl, winner_found := found\<rparr>" by blast
qed

text \<open>Every callback saves the node as equal, makes it the winner, or leaves the conflict list.\<close>

lemma callback_cases:
  assumes "cb = evaluate_hypothesis_bottomup a \<or> cb = evaluate_hypothesis_sharpen r \<or>
      cb = evaluate_hypothesis_lockset \<or> cb = evaluate_hypothesis_topdown a nt"
    and "cb m node ord rsw cur = (m', new, rsw')"
  shows "(m' = save_equal node ord m \<or> m' = reset_winner node ord m \<or> m' = m \<or>
      m' = m\<lparr>winner_found := True,
        conflict_list := (if conflict_list m = [] then [(root_node, root_node)] else conflict_list m)\<rparr>) \<and>
    (new = [] \<or> new = children m node)"
  using assms
  by (auto simp: evaluate_hypothesis_bottomup_def evaluate_hypothesis_sharpen_def Let_def
      evaluate_hypothesis_lockset_def evaluate_hypothesis_topdown_def split: if_splits)

lemma callback_strategy:
  assumes "cb = evaluate_hypothesis_bottomup a \<or> cb = evaluate_hypothesis_sharpen r \<or>
      cb = evaluate_hypothesis_lockset \<or> cb = evaluate_hypothesis_topdown a nt"
  shows "strategy cb"
proof
  fix m node ord rsw cur m' new rsw'
  assume run: "cb m node ord rsw cur = (m', new, rsw')"
  note cases = callback_cases[OF assms run]
  have upd: "m\<lparr>winner_found := True, conflict_list := cl\<rparr> = m\<lparr>conflict_list := cl, winner_found := True\<rparr>" for cl
    by simp
  show "\<exists>cl found. m' = m\<lparr>conflict_list := cl, winner_found := found\<rparr>"
    using cases winner_frames(1,2)[of node ord m] winner_frames(3)[of m] upd by metis
  show "new = [] \<or> new = children m node" using cases by blast
  show "conflict_list m' \<noteq> [] \<and> set (conflict_list m') \<subseteq> insert (node, ord) (set (conflict_list m))"
    if "conflict_list m \<noteq> []"
    using cases set_save_equal[of node ord m] that by auto
  show "winner_found m'" if "winner_found m"
    using cases that by (auto simp: save_equal_def reset_winner_def)
qed

definition acceptable :: "thresholds \<Rightarrow> SelectionStrategy \<Rightarrow> double \<Rightarrow> bool" where
  "acceptable th strat s = (case strat of
       TOPDOWN \<Rightarrow> dle (accept_threshold th) s
     | BOTTOMUP \<Rightarrow> dle (accept_threshold th) s \<or> s = Fin 1
     | SHARPEN \<Rightarrow> True
     | LOCKSET \<Rightarrow> \<not> dlt s (Fin 1))"

definition search_ok :: "thresholds \<Rightarrow> SelectionStrategy \<Rightarrow> Member \<Rightarrow> double \<Rightarrow> bool" where
  "search_ok th strat m rsw \<longleftrightarrow> conflict_list m \<noteq> [] \<and>
     (strat = BOTTOMUP \<or> strat = TOPDOWN \<and> 0 < winner_size m \<longrightarrow> acceptable th strat rsw)"

lemma deq_iff: "deq x y \<longleftrightarrow> x = y \<and> x \<noteq> NaN"
  by (simp add: deq_def)

lemma bottomup_accepting:
  "accepting_strategy (evaluate_hypothesis_bottomup (accept_threshold th)) (search_ok th BOTTOMUP) (acceptable th BOTTOMUP)"
proof (intro accepting_strategy.intro accepting_strategy_axioms.intro callback_strategy[of _ "accept_threshold th"])
qed (auto simp: evaluate_hypothesis_bottomup_def search_ok_def acceptable_def deq_iff split: if_splits)

lemma topdown_accepting:
  "accepting_strategy (evaluate_hypothesis_topdown (accept_threshold th) nt) (search_ok th TOPDOWN) (acceptable th TOPDOWN)"
proof (intro accepting_strategy.intro accepting_strategy_axioms.intro
    callback_strategy[of _ "accept_threshold th" undefined nt])
qed (auto simp: evaluate_hypothesis_topdown_def search_ok_def acceptable_def deq_iff winner_size_def root_node_def
    split: if_splits)

lemma lockset_accepting:
  "accepting_strategy evaluate_hypothesis_lockset (search_ok th LOCKSET) (acceptable th LOCKSET)"
proof (intro accepting_strategy.intro accepting_strategy_axioms.intro callback_strategy[of _ undefined])
qed (auto simp: evaluate_hypothesis_lockset_def search_ok_def acceptable_def split: if_splits)

lemma sharpen_accepting:
  "accepting_strategy (evaluate_hypothesis_sharpen r) (search_ok th SHARPEN) (acceptable th SHARPEN)"
proof (intro accepting_strategy.intro accepting_strategy_axioms.intro callback_strategy[of _ undefined r])
qed (auto simp: evaluate_hypothesis_sharpen_def search_ok_def acceptable_def Let_def split: if_splits)

interpretation winner: accepting_strategy "strategy_cb th strat" "search_ok th strat" "acceptable th strat" for th strat
  by (cases strat) (simp_all add: bottomup_accepting topdown_accepting lockset_accepting sharpen_accepting)

section \<open>The result of the search\<close>

lemma hyp_inv_walkable:
  assumes "hyp_inv m"
  shows "\<exists>b. walkable b m"
proof -
  have "\<forall>h \<in> hyp_dom m. length h < Suc (Max (length ` hyp_dom m))" by (simp add: less_Suc_eq_le)
  moreover have "\<forall>u v. v \<in> set (children m u) \<longrightarrow> length v = Suc (length u) \<and> v \<in> hyp_dom m"
    using assms by (auto simp: hyp_inv_def graph_ok_def)
  ultimately show ?thesis unfolding walkable_def by blast
qed

lemma start_reads [simp]:
  "children (start_search m) = children m" "hyp_dom (start_search m) = hyp_dom m"
  "representative (start_search m) = representative m" "rel_support (start_search m) = rel_support m"
  "walkable b (start_search m) = walkable b m"
  "conflict_list (start_search m) = [(root_node, root_node)]"
  by (simp_all add: start_search_def fun_eq_iff children_def hyp_dom_def hypothesis_of_def representative_def
      rel_support_def walkable_def)

text \<open>The nodes and the member a strategy starts with.\<close>

definition search_start :: "SelectionStrategy \<Rightarrow> Member \<Rightarrow> Member \<times> hypo list \<times> double" where
  "search_start strat m = (if strat = TOPDOWN then evaluate_hypothesis_init_topdown (start_search m)
     else (start_search m, children m root_node, Fin 1))"

lemma determine_eq:
  "determine_winning_hypothesis th strat m =
     (case search_start strat m of (m1, nodes, rsw) \<Rightarrow>
        map_option (\<lambda>(m2, _). if winner_found m2
            then m2\<lparr>winning_hypothesis := snd (hd (conflict_list m2))\<rparr> else m2)
          (winner_loop (strategy_cb th strat) nodes rsw m1))"
  by (auto simp: determine_winning_hypothesis_def search_start_def Let_def split: option.splits prod.splits)

text \<open>What the search changes of a member.\<close>

definition searched :: "Member \<Rightarrow> (hypo \<times> hypo) list \<Rightarrow> bool \<Rightarrow> Member" where
  "searched m cl found = (let m' = m\<lparr>conflict_list := cl, winner_found := found\<rparr>
     in if found then m'\<lparr>winning_hypothesis := snd (hd cl)\<rparr> else m')"

lemma searched_simps [simp]:
  "conflict_list (searched m cl found) = cl" "winner_found (searched m cl found) = found"
  "found \<Longrightarrow> winning_hypothesis (searched m cl found) = snd (hd cl)"
  "\<not> found \<Longrightarrow> winning_hypothesis (searched m cl found) = winning_hypothesis m"
  "hypotheses (searched m cl found) = hypotheses m" "graph (searched m cl found) = graph m"
  "m_occurrences (searched m cl found) = m_occurrences m"
  by (simp_all add: searched_def Let_def)

lemma determine_run:
  assumes "hyp_inv m" and root: "[] \<in> hyp_dom m"
  shows "\<exists>cl found. determine_winning_hypothesis th strat m = Some (searched m cl found) \<and> cl \<noteq> [] \<and>
    (strat \<noteq> TOPDOWN \<longrightarrow> found) \<and> (\<forall>e \<in> set cl. e = ([], []) \<or>
      (\<exists>node \<in> hyp_dom m. e = (node, representative m node) \<and> acceptable th strat (rel_support m node)))"
proof -
  obtain b where b: "walkable b m" using hyp_inv_walkable[OF assms(1)] by blast
  obtain m1 nodes rsw where start: "search_start strat m = (m1, nodes, rsw)" by (metis prod_cases3)
  have m1: "\<exists>found. m1 = m\<lparr>conflict_list := [(root_node, root_node)], winner_found := found\<rparr>"
    using start by (auto simp: search_start_def evaluate_hypothesis_init_topdown_def start_search_def split: if_splits)
  then obtain found1 where m1': "m1 = m\<lparr>conflict_list := [(root_node, root_node)], winner_found := found1\<rparr>" by blast
  have nodes: "set nodes \<subseteq> hyp_dom m"
    using start root b by (auto simp: search_start_def evaluate_hypothesis_init_topdown_def root_node_def walkable_def
        split: if_splits)
  have "search_ok th strat m1 rsw"
    using start m1' by (cases strat) (auto simp: search_start_def evaluate_hypothesis_init_topdown_def search_ok_def
        winner_size_def root_node_def acceptable_def)
  then obtain cl found rsw' where
    run: "winner_loop (strategy_cb th strat) nodes rsw m1 = Some (m1\<lparr>conflict_list := cl, winner_found := found\<rparr>, rsw')"
    and cl: "cl \<noteq> []" "found1 \<longrightarrow> found" "\<forall>e \<in> set cl. e \<in> set (conflict_list m1) \<or>
      (\<exists>node \<in> hyp_dom m. e = (node, representative m node) \<and> acceptable th strat (rel_support m node))"
    using winner.search_run[of b m1 nodes th strat rsw] b nodes by (auto simp: m1')
  have "determine_winning_hypothesis th strat m = Some (searched m cl found)"
    using run start by (simp add: determine_eq m1' searched_def Let_def)
  moreover have "strat \<noteq> TOPDOWN \<longrightarrow> found1"
    using start arg_cong[OF m1', of winner_found] by (auto simp: search_start_def start_search_def)
  ultimately show ?thesis using cl by (auto simp: m1' root_node_def)
qed

section \<open>The strategy lockset\<close>

text \<open>A set of locks that every access holds, always acquired in the same order.\<close>

definition consistent :: "LockCombination list \<Rightarrow> hypo \<Rightarrow> bool" where
  "consistent cs h \<longleftrightarrow> (\<exists>ord. \<forall>lc \<in> set cs. lc_occurrences lc \<noteq> 0 \<longrightarrow>
     set h \<subseteq> set (locks_held lc) \<and> lock_order lc h = ord)"

definition full :: "Member \<Rightarrow> hypo \<Rightarrow> bool" where
  "full m h \<longleftrightarrow> \<not> dlt (rel_support m h) (Fin 1)"

lemma full_frame [simp]: "full (m\<lparr>conflict_list := cl, winner_found := found\<rparr>) = full m"
  by (simp add: full_def fun_eq_iff)

text \<open>The search is breadth first: the queue is ordered by length and spans two lengths.\<close>

definition bfs_queue :: "hypo list \<Rightarrow> bool" where
  "bfs_queue nodes \<longleftrightarrow> sorted (map length nodes) \<and> (\<forall>n \<in> set nodes. length n \<le> Suc (length (hd nodes)))"

lemma bfs_queue_step:
  assumes "bfs_queue (n # rest)" and "\<forall>v \<in> set new. length v = Suc (length n)"
  shows "bfs_queue (rest @ new)"
proof -
  have "sorted (map length (rest @ new))"
  proof -
    have "sorted (map length new)" using assms(2) by (auto simp: sorted_iff_nth_mono)
    then show ?thesis using assms by (auto simp: bfs_queue_def sorted_append)
  qed
  moreover have "length k \<le> Suc (length (hd (rest @ new)))" if "k \<in> set (rest @ new)" for k
  proof -
    have "length k \<le> Suc (length n)" using assms that by (auto simp: bfs_queue_def)
    moreover have "length n \<le> length (hd (rest @ new))"
    proof -
      have "\<forall>k \<in> set (rest @ new). length n \<le> length k" using assms by (auto simp: bfs_queue_def)
      moreover have "hd (rest @ new) \<in> set (rest @ new)" using that by (intro hd_in_set) auto
      ultimately show ?thesis by blast
    qed
    ultimately show ?thesis by linarith
  qed
  ultimately show ?thesis by (simp add: bfs_queue_def)
qed

definition lockset_inv :: "hypo list \<Rightarrow> Member \<Rightarrow> bool" where
  "lockset_inv nodes m \<longleftrightarrow> bfs_queue nodes \<and> conflict_list m \<noteq> [] \<and>
     (\<forall>n \<in> set nodes. winner_size m \<le> length n) \<and>
     (\<forall>h \<in> hyp_dom m. full m h \<longrightarrow> length h \<le> winner_size m \<or> (\<exists>i \<le> length h. take i h \<in> set nodes))"

lemma lockset_step:
  assumes inv: "lockset_inv (n # rest) m" and g: "graph_ok m" and n: "n \<in> hyp_dom m"
    and closed: "\<And>h i. h \<in> hyp_dom m \<Longrightarrow> take i h \<in> hyp_dom m"
    and mono: "\<And>h i. h \<in> hyp_dom m \<Longrightarrow> full m h \<Longrightarrow> full m (take i h)"
    and cb: "evaluate_hypothesis_lockset m n ord rsw (rel_support m n) = (m', new, rsw')"
  shows "lockset_inv (rest @ new) m'"
proof -
  have w: "winner_size m \<le> length n" using inv by (simp add: lockset_inv_def)
  have bfs: "bfs_queue (n # rest)" and ne: "conflict_list m \<noteq> []" using inv by (simp_all add: lockset_inv_def)
  have cover: "length h \<le> winner_size m \<or> (\<exists>i \<le> length h. take i h \<in> set (n # rest))"
    if "h \<in> hyp_dom m" "full m h" for h using inv that by (simp add: lockset_inv_def)
  show ?thesis
  proof (cases "full m n")
    case False
    then have res: "m' = m" "new = []" using cb by (auto simp: evaluate_hypothesis_lockset_def full_def)
    have "length h \<le> winner_size m \<or> (\<exists>i \<le> length h. take i h \<in> set rest)"
      if "h \<in> hyp_dom m" "full m h" for h
      using cover[OF that] mono[OF that] False by auto
    then show ?thesis using inv bfs_queue_step[OF bfs, of "[]"] by (auto simp: lockset_inv_def res)
  next
    case True
    have res: "new = children m n" "conflict_list m' \<noteq> [] \<and> winner_size m' = length n"
      using cb True w ne by (auto simp: evaluate_hypothesis_lockset_def full_def winner_size_def split: if_splits)
    have st: "strategy evaluate_hypothesis_lockset" by (rule callback_strategy) blast
    obtain cl found where m': "m' = m\<lparr>conflict_list := cl, winner_found := found\<rparr>"
      using strategy.cb_frame[OF st cb] by blast
    have len: "\<forall>v \<in> set new. length v = Suc (length n)" using g by (auto simp: res(1) graph_ok_def)
    have "length h \<le> length n \<or> (\<exists>i \<le> length h. take i h \<in> set (rest @ new))"
      if h: "h \<in> hyp_dom m" "full m h" for h
    proof (cases "length h \<le> length n")
      case False
      then obtain i where i: "i \<le> length h" "take i h \<in> set (n # rest)" using cover[OF h] w by auto
      show ?thesis
      proof (cases "take i h = n")
        case True
        then have l: "i = length n" "length n < length h" using i(1) False by auto
        have "take (Suc i) h \<in> set (children m n)"
          using g closed[OF h(1), of "Suc i"] l True by (auto simp: graph_ok_def butlast_take_Suc)
        then show ?thesis using l by (auto simp: res(1) intro!: exI[of _ "Suc i"])
      qed (use i in auto)
    qed simp
    moreover have "\<forall>k \<in> set (rest @ new). length n \<le> length k"
      using bfs len by (auto simp: bfs_queue_def)
    ultimately show ?thesis using res(2) bfs_queue_step[OF bfs len] by (simp add: lockset_inv_def m')
  qed
qed

lemma lockset_run:
  assumes "walkable b m" and "set nodes \<subseteq> hyp_dom m" and "lockset_inv nodes m" and "graph_ok m"
    and "\<And>h i. h \<in> hyp_dom m \<Longrightarrow> take i h \<in> hyp_dom m"
    and "\<And>h i. h \<in> hyp_dom m \<Longrightarrow> full m h \<Longrightarrow> full m (take i h)"
    and "winner_loop evaluate_hypothesis_lockset nodes rsw m = Some (m', rsw')"
  shows "lockset_inv [] m'"
  using assms
proof (induction nodes arbitrary: m rsw rule: wf_induct_rule[OF wf_queue_rel[of b]])
  case (1 nodes)
  show ?case
  proof (cases nodes)
    case Nil
    then show ?thesis using "1.prems"(3,7) by (simp add: winner_loop.simps)
  next
    case (Cons n rest)
    obtain m2 new rsw2 where cb: "evaluate_hypothesis_lockset m n (representative m n) rsw (rel_support m n) = (m2, new, rsw2)"
      by (metis prod_cases3)
    have st: "strategy evaluate_hypothesis_lockset" by (rule callback_strategy) blast
    obtain cl found where m2: "m2 = m\<lparr>conflict_list := cl, winner_found := found\<rparr>"
      using strategy.cb_frame[OF st cb] by blast
    have n: "n \<in> hyp_dom m" "length n < b" using "1.prems"(1,2) Cons by (auto simp: walkable_def)
    have new: "\<forall>v \<in> set new. length v = Suc (length n) \<and> v \<in> hyp_dom m"
      using strategy.cb_new[OF st cb] "1.prems"(1) by (auto simp: walkable_def)
    have inv2: "lockset_inv (rest @ new) m2"
      using lockset_step[OF _ "1.prems"(4) n(1) "1.prems"(5,6) cb, of rest] "1.prems"(3) Cons by simp
    have rel: "(rest @ new, nodes) \<in> queue_rel b" using queue_rel_step[of new n b rest] new n Cons by simp
    have run: "winner_loop evaluate_hypothesis_lockset (rest @ new) rsw2 m2 = Some (m', rsw')"
      using "1.prems"(7) winner_loop_step[where cb = evaluate_hypothesis_lockset, OF n(1) cb, of rest] Cons by simp
    have g2: "graph_ok m2" using "1.prems"(4) by (simp add: graph_ok_def m2)
    show ?thesis
      by (rule "1.IH"[OF rel _ _ inv2 g2 _ _ run]) (use "1.prems"(1,2,5,6) new Cons in \<open>auto simp: m2\<close>)
  qed
qed

section \<open>Full support\<close>

definition occ_total :: "LockCombination list \<Rightarrow> nat" where
  "occ_total cs = sum_list (map (unat \<circ> lc_occurrences) cs)"

lemma unat_occs: "occ_total cs < 2 ^ 64 \<Longrightarrow> unat (occs cs) = occ_total cs"
proof (induction cs)
  case (Cons lc cs)
  then have "unat (occs cs) = occ_total cs" by (simp add: occ_total_def)
  moreover have "unat (lc_occurrences lc) + occ_total cs < 2 ^ LENGTH(64)" using Cons.prems by (simp add: occ_total_def)
  ultimately have "unat (lc_occurrences lc + occs cs) = unat (lc_occurrences lc) + unat (occs cs)"
    by (intro unat_word_ariths(1)[THEN trans]) simp
  then show ?case using \<open>unat (occs cs) = occ_total cs\<close> by (simp add: occ_total_def occs_def)
qed (simp add: occ_total_def)

lemma total_filter: "occ_total (filter P cs) \<le> occ_total cs"
  by (induction cs) (auto simp: occ_total_def)

lemma total_filter_eq:
  "occ_total (filter P cs) = occ_total cs \<longleftrightarrow> (\<forall>lc \<in> set cs. lc_occurrences lc \<noteq> 0 \<longrightarrow> P lc)"
proof (induction cs)
  case (Cons lc cs)
  then show ?case using total_filter[of P cs] by (auto simp: occ_total_def unat_eq_0)
qed simp

lemma with_order_filter: "with_order cs h ord = filter (\<lambda>lc. contains_locks lc h \<and> lock_order lc h = ord) cs"
  by (simp add: with_order_def matching_def conj_commute)

definition counts_ok :: "Member \<Rightarrow> bool" where
  "counts_ok m \<longleftrightarrow> m_occurrences m = occs (combinations m) \<and> occ_total (combinations m) < 2 ^ 53"

lemma order_count_eq:
  assumes "hyp_inv m" and "h \<in> hyp_dom m"
  shows "order_count m h ord = occs (with_order (combinations m) h ord)"
proof -
  have "hypothesis_of m h = eval_hypo (combinations m) h"
    using assms by (simp add: hyp_inv_def hypothesis_of_def)
  then show ?thesis by (simp add: order_count_def eval_hypo_matches)
qed

lemma matches_ok:
  assumes "hyp_inv m" and "h \<in> hyp_dom m"
  shows "omap_ok (matches (hypothesis_of m h))"
  using assms eval_hypo_ok by (simp add: hyp_inv_def hypothesis_of_def)

lemma full_count:
  assumes "counts_ok m" and "hyp_inv m" and "h \<in> hyp_dom m"
  shows "full m h \<longleftrightarrow> occ_total (combinations m) = 0 \<or>
    occ_total (with_order (combinations m) h (representative m h)) = occ_total (combinations m)"
proof -
  let ?cs = "combinations m"
  let ?w = "with_order ?cs h (representative m h)"
  have t: "occ_total ?cs < 2 ^ 53" using assms(1) by (simp add: counts_ok_def)
  have le: "occ_total ?w \<le> occ_total ?cs" by (simp add: with_order_filter total_filter)
  have "unat (occs ?w) = occ_total ?w" "unat (occs ?cs) = occ_total ?cs" using t le by (simp_all add: unat_occs)
  then have sup: "rel_support m h = ddiv (Fin (of_nat (occ_total ?w))) (Fin (of_nat (occ_total ?cs)))"
    using t le dround_nat[of "occ_total ?w"] dround_nat[of "occ_total ?cs"] assms
    by (simp add: rel_support_eq order_count_eq counts_ok_def double_of_u64_def)
  show ?thesis
  proof (cases "occ_total ?w < occ_total ?cs")
    case True
    then have "dround (of_nat (occ_total ?w) / of_nat (occ_total ?cs)) < 1" using t by (intro dround_below_one) simp_all
    then show ?thesis using True by (simp add: full_def sup)
  next
    case False
    then have "occ_total ?w = occ_total ?cs" using le by simp
    then show ?thesis by (cases "occ_total ?cs = 0") (simp_all add: full_def sup)
  qed
qed

lemma full_consistent:
  assumes "counts_ok m" and "hyp_inv m" and "h \<in> hyp_dom m" and ok: "\<forall>lc \<in> set (combinations m). lc_ok lc"
  shows "full m h \<longleftrightarrow> consistent (combinations m) h"
proof -
  let ?cs = "combinations m"
  have h: "sorted_wrt (<) h" using assms(2,3) by (auto simp: hyp_inv_def candidates_def)
  have all: "occ_total (with_order ?cs h ord) = occ_total ?cs \<longleftrightarrow> (\<forall>lc \<in> set ?cs. lc_occurrences lc \<noteq> 0 \<longrightarrow>
      set h \<subseteq> set (locks_held lc) \<and> lock_order lc h = ord)" for ord
    using contains_locks_iff[OF _ h] ok by (auto simp: with_order_filter total_filter_eq)
  have t64: "occ_total (with_order ?cs h ord) < 2 ^ 64" for ord
  proof -
    have "occ_total (with_order ?cs h ord) \<le> occ_total ?cs" by (simp add: with_order_filter total_filter)
    then show ?thesis using assms(1) by (simp add: counts_ok_def)
  qed
  have max: "occ_total (with_order ?cs h ord) \<le> occ_total (with_order ?cs h (representative m h))" for ord
    using representative_max[OF matches_ok[OF assms(2,3)], of ord] t64
    by (simp add: order_count_eq[OF assms(2,3)] word_le_nat_alt unat_occs)
  have "occ_total ?cs = 0 \<Longrightarrow> consistent ?cs h"
    by (auto simp: occ_total_def consistent_def unat_eq_0 split: if_splits)
  moreover have "occ_total (with_order ?cs h (representative m h)) = occ_total ?cs" if cons: "consistent ?cs h"
  proof -
    obtain ord where "occ_total (with_order ?cs h ord) = occ_total ?cs" using cons unfolding consistent_def all[symmetric] by blast
    then show ?thesis using max[of ord] total_filter[of _ ?cs] by (simp add: with_order_filter le_antisym)
  qed
  ultimately show ?thesis using all full_count[OF assms(1-3)] by (auto simp: consistent_def)
qed

lemma consistent_take:
  assumes "consistent cs h" and "distinct h"
  shows "consistent cs (take i h)"
proof -
  obtain ord where "\<forall>lc \<in> set cs. lc_occurrences lc \<noteq> 0 \<longrightarrow> set h \<subseteq> set (locks_held lc) \<and> lock_order lc h = ord"
    using assms(1) by (auto simp: consistent_def)
  then have "\<forall>lc \<in> set cs. lc_occurrences lc \<noteq> 0 \<longrightarrow> set (take i h) \<subseteq> set (locks_held lc) \<and>
      lock_order lc (take i h) = filter (\<lambda>x. x \<in> set (take i h)) ord"
    using lock_order_sub[of h "take i h"] assms(2) set_take_subset[of i h] by (metis distinct_take subset_trans)
  then show ?thesis unfolding consistent_def by blast
qed

section \<open>The largest consistent set of locks\<close>

lemma lockset_start:
  assumes "graph_ok m" and closed: "\<And>h i. h \<in> hyp_dom m \<Longrightarrow> take i h \<in> hyp_dom m"
  shows "lockset_inv (children m root_node) (start_search m)"
proof -
  have len: "\<forall>v \<in> set (children m root_node). length v = 1"
    using graph_ok_edges_step[OF assms(1)] by (auto simp: edges_step_def root_node_def)
  then have "bfs_queue (children m root_node)" unfolding bfs_queue_def
    by (cases "children m root_node") (auto simp: sorted_iff_nth_mono dest: nth_mem)
  moreover have "take 1 h \<in> set (children m root_node)" if "h \<in> hyp_dom m" "h \<noteq> []" for h
    using assms(1) closed[OF that(1), of 1] that(2) by (cases h) (auto simp: graph_ok_def root_node_def)
  moreover have "length h \<le> 0 \<or> (\<exists>i \<le> length h. take i h \<in> set (children m root_node))" if "h \<in> hyp_dom m" for h
    using calculation(2)[OF that] by (cases "h = []") (auto intro!: exI[of _ 1] simp: Suc_le_eq)
  ultimately show ?thesis by (auto simp: lockset_inv_def winner_size_def root_node_def)
qed

lemma full_start [simp]: "full (start_search m) = full m"
  by (simp add: full_def fun_eq_iff)

lemma lockset_largest:
  assumes hyp: "hyp_inv m" and closed: "\<And>h i. h \<in> hyp_dom m \<Longrightarrow> take i h \<in> hyp_dom m"
    and mono: "\<And>h i. h \<in> hyp_dom m \<Longrightarrow> full m h \<Longrightarrow> full m (take i h)"
    and run: "determine_winning_hypothesis th LOCKSET m = Some (searched m cl found)"
    and h: "h \<in> hyp_dom m" "full m h"
  shows "length h \<le> length (fst (hd cl))"
proof -
  obtain b where b: "walkable b m" using hyp_inv_walkable[OF hyp] by blast
  have g: "graph_ok m" using hyp by (simp add: hyp_inv_def)
  have start: "search_start LOCKSET m = (start_search m, children m root_node, Fin 1)" by (simp add: search_start_def)
  obtain m2 rsw where loop: "winner_loop evaluate_hypothesis_lockset (children m root_node) (Fin 1) (start_search m) = Some (m2, rsw)"
    and m2: "searched m cl found = (if winner_found m2 then m2\<lparr>winning_hypothesis := snd (hd (conflict_list m2))\<rparr> else m2)"
    using run by (auto simp: determine_eq start)
  have "set (children m root_node) \<subseteq> hyp_dom (start_search m)" using b by (auto simp: walkable_def)
  moreover have "graph_ok (start_search m)" using g by (simp add: graph_ok_def)
  ultimately have inv: "lockset_inv [] m2"
    by (intro lockset_run[of b "start_search m", OF _ _ lockset_start[OF g closed] _ _ _ loop])
       (use b closed mono in auto)
  have cl: "conflict_list m2 = cl" "hypotheses m2 = hypotheses m" "m_occurrences m2 = m_occurrences m"
    using arg_cong[OF m2, of conflict_list] arg_cong[OF m2, of hypotheses] arg_cong[OF m2, of m_occurrences]
    by (auto split: if_splits)
  then have "hyp_dom m2 = hyp_dom m" "full m2 h = full m h"
    by (simp_all add: hyp_dom_def full_def rel_support_def hypothesis_of_def)
  then show ?thesis using inv h cl by (auto simp: lockset_inv_def winner_size_def)
qed

section \<open>The strategy sharpen\<close>

text \<open>
  What the default strategy is meant to do, without the search: starting from no lock, which has
  full support, the winner is replaced by a hypothesis with more locks as long as the relative loss
  of support is at most the reduction factor, or by one with as many locks and more support.
\<close>

definition support_loss :: "double \<Rightarrow> double \<Rightarrow> double" where
  "support_loss s s' = dsub (Fin 1) (ddiv s' s)"

definition worth_it :: "double \<Rightarrow> double \<Rightarrow> double \<Rightarrow> bool" where
  "worth_it r s s' \<longleftrightarrow> deq s' s \<or> dle (support_loss s s') r"

inductive sharpened :: "double \<Rightarrow> Member \<Rightarrow> hypo \<Rightarrow> double \<Rightarrow> bool" for r m where
  no_lock: "sharpened r m [] (Fin 1)"
| more_locks: "sharpened r m h s \<Longrightarrow> h' \<in> hyp_dom m \<Longrightarrow> length h < length h' \<Longrightarrow>
     worth_it r s (rel_support m h') \<Longrightarrow> sharpened r m h' (rel_support m h')"
| more_support: "sharpened r m h s \<Longrightarrow> h' \<in> hyp_dom m \<Longrightarrow> length h' = length h \<Longrightarrow>
     dlt s (rel_support m h') \<Longrightarrow> sharpened r m h' (rel_support m h')"

inductive_cases sharpenedE: "sharpened r m h s"

lemma sharpened_dom: "sharpened r m h s \<Longrightarrow> h = [] \<and> s = Fin 1 \<or> h \<in> hyp_dom m \<and> s = rel_support m h"
  by (induction rule: sharpened.induct) simp_all

lemma sharpened_frame [simp]:
  "sharpened r (m\<lparr>conflict_list := cl, winner_found := found\<rparr>) h s = sharpened r m h s"
proof -
  have "sharpened r m1 h s" if "sharpened r m2 h s" "hyp_dom m1 = hyp_dom m2" "rel_support m1 = rel_support m2" for m1 m2
    using that by (induction rule: sharpened.induct) (metis sharpened.intros)+
  then show ?thesis by (metis frame_reads(2,5))
qed

definition sharpen_inv :: "double \<Rightarrow> hypo list \<Rightarrow> Member \<Rightarrow> double \<Rightarrow> bool" where
  "sharpen_inv r nodes m rsw \<longleftrightarrow> (\<exists>h ord more. conflict_list m = (h, ord) # more \<and> sharpened r m h rsw \<and>
     (h = [] \<and> ord = [] \<or> ord = representative m h) \<and>
     (\<forall>v \<in> set (children m h). v \<in> set nodes \<or> \<not> worth_it r rsw (rel_support m v)))"

lemma sharpen_step:
  assumes inv: "sharpen_inv r (n # rest) m rsw" and w: "walkable b m" and n: "n \<in> hyp_dom m"
    and cb: "evaluate_hypothesis_sharpen r m n (representative m n) rsw (rel_support m n) = (m', new, rsw')"
  shows "sharpen_inv r (rest @ new) m' rsw'"
proof -
  obtain h ord more where cl: "conflict_list m = (h, ord) # more" and sh: "sharpened r m h rsw"
    and ord: "h = [] \<and> ord = [] \<or> ord = representative m h"
    and kids: "\<And>v. v \<in> set (children m h) \<Longrightarrow> v \<in> set (n # rest) \<or> \<not> worth_it r rsw (rel_support m v)"
    using inv unfolding sharpen_inv_def by blast
  have size: "winner_size m = length h" by (simp add: winner_size_def cl)
  have child: "length v = Suc (length h)" if "v \<in> set (children m h)" for v
    using w that unfolding walkable_def by blast
  let ?c = "rel_support m n"
  have ev: "(m', new, rsw') = (if length h = length n \<and> deq ?c rsw
       then (save_equal n (representative m n) m, children m n, rsw)
     else if length h = length n \<and> dlt rsw ?c \<or> length h < length n \<and> worth_it r rsw ?c
       then (reset_winner n (representative m n) m, children m n, ?c) else (m, [], rsw))"
    using cb unfolding evaluate_hypothesis_sharpen_def Let_def size worth_it_def support_loss_def by (rule sym)
  consider (tie) "length h = length n" "m' = save_equal n (representative m n) m" "rsw' = rsw"
    | (longer) "length h < length n" "worth_it r rsw ?c"
        "m' = reset_winner n (representative m n) m" "new = children m n" "rsw' = ?c"
    | (better) "length n = length h" "dlt rsw ?c"
        "m' = reset_winner n (representative m n) m" "new = children m n" "rsw' = ?c"
    | (none) "m' = m" "rsw' = rsw" "length h < length n \<longrightarrow> \<not> worth_it r rsw ?c"
  proof (cases "length h = length n \<and> deq ?c rsw")
    case True
    with ev show ?thesis by (intro tie) simp_all
  next
    case no_tie: False
    note ev1 = ev[unfolded if_not_P[OF no_tie]]
    show ?thesis
    proof (cases "length h = length n \<and> dlt rsw ?c \<or> length h < length n \<and> worth_it r rsw ?c")
      case True
      note ev1[unfolded if_P[OF True]]
      with True show ?thesis using longer better by (elim disjE conjE) simp_all
    next
      case False
      note ev1[unfolded if_not_P[OF False]]
      with False show ?thesis by (intro none) simp_all
    qed
  qed
  then show ?thesis
  proof cases
    case tie
    have m': "m' = m\<lparr>conflict_list := conflict_list m', winner_found := winner_found m\<rparr>"
      by (simp add: tie(2) save_equal_def)
    have "conflict_list m' = (h, ord) # more \<or> conflict_list m' = (h, ord) # more @ [(n, representative m n)]"
      by (simp add: tie(2) save_equal_def cl)
    then obtain more' where cl': "conflict_list m' = (h, ord) # more'" by blast
    have "v \<in> set (rest @ new) \<or> \<not> worth_it r rsw (rel_support m v)" if "v \<in> set (children m h)" for v
      using kids[OF that] child[OF that] tie(1) by auto
    moreover have "sharpened r m' h rsw" "children m' = children m" "rel_support m' = rel_support m" "representative m' = representative m"
      using sh m' frame_reads sharpened_frame by metis+
    ultimately show ?thesis using cl' ord tie(3) unfolding sharpen_inv_def by auto
  next
    case longer
    have "sharpened r m n (rel_support m n)" by (rule sharpened.more_locks[OF sh n longer(1,2)])
    moreover have "m' = m\<lparr>conflict_list := [(n, representative m n)], winner_found := True\<rparr>"
      by (simp add: longer(3) reset_winner_def)
    ultimately show ?thesis by (simp add: sharpen_inv_def longer(4,5))
  next
    case better
    have "sharpened r m n (rel_support m n)" by (rule sharpened.more_support[OF sh n better(1,2)])
    moreover have "m' = m\<lparr>conflict_list := [(n, representative m n)], winner_found := True\<rparr>"
      by (simp add: better(3) reset_winner_def)
    ultimately show ?thesis by (simp add: sharpen_inv_def better(4,5))
  next
    case none
    have "v \<in> set (rest @ new) \<or> \<not> worth_it r rsw (rel_support m v)" if "v \<in> set (children m h)" for v
      using kids[OF that] child[OF that] none(3) by auto
    then show ?thesis using cl sh ord by (auto simp: sharpen_inv_def none(1,2))
  qed
qed

lemma sharpen_run:
  assumes "walkable b m" and "set nodes \<subseteq> hyp_dom m" and "sharpen_inv r nodes m rsw"
    and "winner_loop (evaluate_hypothesis_sharpen r) nodes rsw m = Some (m', rsw')"
  shows "sharpen_inv r [] m' rsw' \<and> (\<exists>cl found. m' = m\<lparr>conflict_list := cl, winner_found := found\<rparr>)"
  using assms
proof (induction nodes arbitrary: m rsw rule: wf_induct_rule[OF wf_queue_rel[of b]])
  case (1 nodes)
  show ?case
  proof (cases nodes)
    case Nil
    then have "m' = m" "rsw' = rsw" using "1.prems"(4) by (simp_all add: winner_loop.simps)
    then show ?thesis using "1.prems"(3) winner_frames(3)[of m] Nil by simp
  next
    case (Cons n rest)
    obtain m2 new rsw2 where cb: "evaluate_hypothesis_sharpen r m n (representative m n) rsw (rel_support m n) = (m2, new, rsw2)"
      by (metis prod_cases3)
    have st: "strategy (evaluate_hypothesis_sharpen r)" by (rule callback_strategy) blast
    obtain cl found where m2: "m2 = m\<lparr>conflict_list := cl, winner_found := found\<rparr>"
      using strategy.cb_frame[OF st cb] by blast
    have n: "n \<in> hyp_dom m" "length n < b" using "1.prems"(1,2) Cons by (auto simp: walkable_def)
    have new: "\<forall>v \<in> set new. length v = Suc (length n) \<and> v \<in> hyp_dom m"
      using strategy.cb_new[OF st cb] "1.prems"(1) by (auto simp: walkable_def)
    have inv2: "sharpen_inv r (rest @ new) m2 rsw2"
      using sharpen_step[OF _ "1.prems"(1) n(1) cb, of rest] "1.prems"(3) Cons by simp
    have rel: "(rest @ new, nodes) \<in> queue_rel b" using queue_rel_step[of new n b rest] new n Cons by simp
    have run: "winner_loop (evaluate_hypothesis_sharpen r) (rest @ new) rsw2 m2 = Some (m', rsw')"
      using "1.prems"(4) winner_loop_step[where cb = "evaluate_hypothesis_sharpen r", OF n(1) cb, of rest] Cons by simp
    have "sharpen_inv r [] m' rsw' \<and> (\<exists>cl found. m' = m2\<lparr>conflict_list := cl, winner_found := found\<rparr>)"
      by (rule "1.IH"[OF rel _ _ inv2 run]) (use "1.prems"(1,2) new Cons in \<open>auto simp: m2\<close>)
    then show ?thesis by (auto simp: m2)
  qed
qed

lemma sharpen_winner:
  assumes "hyp_inv m" and root: "[] \<in> hyp_dom m"
    and run: "determine_winning_hypothesis th SHARPEN m = Some m2"
  shows "\<exists>h s. sharpened (reduction_factor th) m h s \<and>
    (h = [] \<and> winning_hypothesis m2 = [] \<or> winning_hypothesis m2 = representative m h) \<and>
    (\<forall>v \<in> set (children m h). \<not> worth_it (reduction_factor th) s (rel_support m v))"
proof -
  let ?r = "reduction_factor th" and ?m = "start_search m"
  obtain b where b: "walkable b m" using hyp_inv_walkable[OF assms(1)] by blast
  obtain m1 rsw where loop: "winner_loop (evaluate_hypothesis_sharpen ?r) (children m []) (Fin 1) ?m = Some (m1, rsw)"
    and m2: "m2 = (if winner_found m1 then m1\<lparr>winning_hypothesis := snd (hd (conflict_list m1))\<rparr> else m1)"
    using run by (auto simp: determine_eq search_start_def root_node_def)
  have found: "winner_found m1"
    using determine_run[OF assms(1,2), of th SHARPEN] run by (auto simp: m2 split: if_splits)
  have start: "?m = m\<lparr>conflict_list := [([], [])], winner_found := True\<rparr>" by (simp add: start_search_def root_node_def)
  have "sharpen_inv ?r (children m []) ?m (Fin 1)"
    by (auto simp: sharpen_inv_def root_node_def intro: sharpened.no_lock)
  moreover have "set (children m []) \<subseteq> hyp_dom m" using b by (auto simp: walkable_def)
  ultimately have "sharpen_inv ?r [] m1 rsw \<and> (\<exists>cl found. m1 = ?m\<lparr>conflict_list := cl, winner_found := found\<rparr>)"
    using sharpen_run[OF _ _ _ loop, of b] b by simp
  then obtain cl fnd where inv: "sharpen_inv ?r [] m1 rsw" and m1: "m1 = m\<lparr>conflict_list := cl, winner_found := fnd\<rparr>"
    by (auto simp: start)
  have "winning_hypothesis m2 = snd (hd cl)" using m2 found by (simp add: m1)
  moreover obtain h ord more where "cl = (h, ord) # more" "sharpened ?r m h rsw"
    "h = [] \<and> ord = [] \<or> ord = representative m h" "\<forall>v \<in> set (children m h). \<not> worth_it ?r rsw (rel_support m v)"
    using inv by (auto simp: sharpen_inv_def m1)
  ultimately show ?thesis by (intro exI[of _ h] exI[of _ rsw]) auto
qed

end
