(* ===== verification/Hypothesizer_Input_Inv.thy ===== *)
theory Hypothesizer_Input_Inv
  imports Hypothesizer_Input Hypothesizer_Winner
begin

text \<open>
  Reading the table keeps the numbering of the locks a bijection and the counters of every member
  equal to the sums over its lock combinations. The loop that copies the combinations to the
  members ends for every number of members but 65536, for which its 16-bit counter wraps around.
\<close>

section \<open>Sums over a map\<close>

lemma sum_omap_update:
  fixes f :: "'k::linorder \<times> 'v \<Rightarrow> 'a::ab_group_add"
  assumes "omap_ok cs"
  shows "sum_list (map f (omap_update k v cs)) =
    sum_list (map f cs) - (case omap_lookup cs k of None \<Rightarrow> 0 | Some w \<Rightarrow> f (k, w)) + f (k, v)"
  using assms
proof (induction cs)
  case (Cons e cs)
  obtain k' v' where e: "e = (k', v')" by (cases e)
  consider "k < k'" | "k = k'" | "k' < k" by (rule linorder_cases)
  then show ?case
  proof cases
    case 1
    have "k \<notin> fst ` set cs" using Cons.prems 1 by (auto simp: e omap_ok_Cons omap_keys_def)
    then have "omap_lookup cs k = None" by (simp add: map_of_eq_None_iff)
    then show ?thesis using 1 by (auto simp: e)
  next
    case 3
    then show ?thesis using Cons by (auto simp: e omap_ok_Cons algebra_simps)
  qed (simp add: e)
qed simp

section \<open>The invariant of the reader\<close>

definition lock_numbers_ok :: "load_state \<Rightarrow> bool" where
  "lock_numbers_ok st \<longleftrightarrow> length (locks st) \<le> 65536 \<and>
     (\<forall>n i. omap_lookup (lock_to_id st) n = Some i \<longleftrightarrow> unat i < length (locks st) \<and> locks st ! unat i = n)"

definition known_ids :: "string list \<Rightarrow> hypo \<Rightarrow> bool" where
  "known_ids names h \<longleftrightarrow> (\<forall>i \<in> set h. unat i < length names)"

definition combs_ok :: "string list \<Rightarrow> (hypo, LockCombination) omap \<Rightarrow> bool" where
  "combs_ok names cs \<longleftrightarrow> omap_ok cs \<and> (\<forall>(h, lc) \<in> set cs. locks_held lc = h \<and> lc_ok lc \<and> known_ids names h)"

definition member_ok :: "Member \<Rightarrow> (hypo, LockCombination) omap \<Rightarrow> bool" where
  "member_ok m cs \<longleftrightarrow> combinations m = [] \<and> hypotheses m = [] \<and> graph m = [] \<and>
     m_occurrences m = occs (map snd cs) \<and>
     m_occurrences_with_locks m = occs (filter (\<lambda>lc. locks_held lc \<noteq> []) (map snd cs))"

definition load_inv :: "load_state \<Rightarrow> bool" where
  "load_inv st \<longleftrightarrow> lock_numbers_ok st \<and> length (members st) \<le> 65536 \<and>
     length (members_combinations st) = length (members st) \<and>
     (\<forall>k i. omap_lookup (member_to_id st) k = Some i \<longrightarrow> unat i < length (members st)) \<and>
     (\<forall>j < length (members st). members_combinations st ! j \<noteq> [] \<and>
        combs_ok (locks st) (members_combinations st ! j) \<and> member_ok (members st ! j) (members_combinations st ! j))"

lemma load_inv_empty: "load_inv empty_load"
  by (simp add: load_inv_def empty_load_def lock_numbers_ok_def)

lemma known_ids_mono: "known_ids names h \<Longrightarrow> known_ids (names @ new) h"
  by (auto simp: known_ids_def)

lemma combs_ok_mono: "combs_ok names cs \<Longrightarrow> combs_ok (names @ new) cs"
  by (auto simp: combs_ok_def known_ids_mono)

lemma unat_myid: "n \<le> 65535 \<Longrightarrow> unat (of_nat n :: myid) = n"
  by (simp add: unat_of_nat)

text \<open>A new entry takes the next free number.\<close>

lemma intern_lock_ok:
  assumes "load_inv st" and "intern_lock n st = Inr (st', i)"
  shows "load_inv st' \<and> unat i < length (locks st') \<and> locks st' ! unat i = n \<and> prefix (locks st) (locks st')"
proof (cases "omap_lookup (lock_to_id st) n")
  case (Some j)
  then show ?thesis using assms by (auto simp: intern_lock_def load_inv_def lock_numbers_ok_def)
next
  case None
  let ?l = "length (locks st)"
  have len: "?l \<le> 65535" and i: "i = of_nat ?l"
    and st': "st' = st\<lparr>locks := locks st @ [n], lock_to_id := omap_update n (of_nat ?l) (lock_to_id st)\<rparr>"
    using assms(2) None by (auto simp: intern_lock_def myid_max_def Let_def split: if_splits)
  have u: "unat (of_nat ?l :: myid) = ?l" using len by (rule unat_myid)
  have new: "n \<notin> set (locks st)"
  proof
    assume "n \<in> set (locks st)"
    then obtain j where j: "j < ?l" "locks st ! j = n" by (auto simp: in_set_conv_nth)
    then have "unat (of_nat j :: myid) = j" using len by (intro unat_myid) simp
    then show False using assms(1) None j by (auto simp: load_inv_def lock_numbers_ok_def dest!: spec[of _ n] spec[of _ "of_nat j"])
  qed
  have "omap_lookup (lock_to_id st') k = Some j \<longleftrightarrow> unat j < length (locks st') \<and> locks st' ! unat j = k" for k j
  proof (cases "k = n")
    case True
    have "j = of_nat ?l \<longleftrightarrow> unat j = ?l" using u by (simp add: word_unat_eq_iff)
    moreover have "locks st ! unat j \<noteq> n" if "unat j < ?l" using that new by (metis nth_mem)
    ultimately show ?thesis using True by (auto simp: st' omap_simps nth_append less_Suc_eq)
  next
    case False
    then show ?thesis using assms(1) by (auto simp: st' omap_simps load_inv_def lock_numbers_ok_def nth_append less_Suc_eq)
  qed
  then have "lock_numbers_ok st'" using len by (simp add: lock_numbers_ok_def st')
  then show ?thesis using assms(1) u by (auto simp: load_inv_def st' i combs_ok_mono nth_append)
qed

lemma read_locks_ok:
  "read_locks es held st = Inr (st', l) \<Longrightarrow> load_inv st \<Longrightarrow> known_ids (locks st) held \<Longrightarrow>
     load_inv st' \<and> known_ids (locks st') l"
proof (induction es held st rule: read_locks.induct)
  case (2 e es held st)
  show ?case
  proof (cases "e = []")
    case True
    then show ?thesis using 2 by simp
  next
    case False
    then obtain st1 i where i: "intern_lock e st = Inr (st1, i)" "read_locks es (held @ [i]) st1 = Inr (st', l)"
      using "2.prems"(1) by (auto simp: res_simps)
    note ok = intern_lock_ok[OF "2.prems"(2) i(1)]
    then have "known_ids (locks st1) (held @ [i])"
      using "2.prems"(3) by (auto simp: known_ids_def prefix_def)
    then show ?thesis using "2.IH"(2)[OF False i(1)] i ok by simp
  qed
qed simp

lemma add_combination_ok:
  assumes "combs_ok names cs" and "known_ids names h"
  shows "combs_ok names (add_combination occ h cs)" and "add_combination occ h cs \<noteq> []"
    and "occs (map snd (add_combination occ h cs)) = occs (map snd cs) + occ"
    and "occs (filter (\<lambda>lc. locks_held lc \<noteq> []) (map snd (add_combination occ h cs))) =
      occs (filter (\<lambda>lc. locks_held lc \<noteq> []) (map snd cs)) + (if h \<noteq> [] then occ else 0)"
proof -
  have ok: "omap_ok cs" using assms(1) by (simp add: combs_ok_def)
  define lc where "lc = (case omap_lookup cs h of None \<Rightarrow> new_LockCombination occ h
     | Some lc \<Rightarrow> lc\<lparr>lc_occurrences := lc_occurrences lc + occ\<rparr>)"
  have add: "add_combination occ h cs = omap_update h lc cs"
    by (simp add: add_combination_def lc_def split: option.splits)
  have old: "locks_held w = h \<and> lc_ok w" if "omap_lookup cs h = Some w" for w
    using assms(1) map_of_SomeD[OF that] by (auto simp: combs_ok_def)
  have held: "locks_held lc = h" "lc_ok lc"
    using old by (auto simp: lc_def new_LockCombination_def update_sorted_locks_def lc_ok_def split: option.splits)
  have entries: "set (omap_update h lc cs) \<subseteq> insert (h, lc) (set cs)"
    by (rule set_omap_update_subset)
  show "combs_ok names (add_combination occ h cs)"
    using assms entries held by (auto simp: combs_ok_def add omap_ok_update)
  show "add_combination occ h cs \<noteq> []" by (simp add: add) (metis omap_lookup_update fun_upd_same map_of.simps(1) option.distinct(1))
  show "occs (map snd (add_combination occ h cs)) = occs (map snd cs) + occ"
    using sum_omap_update[OF ok, of "lc_occurrences \<circ> snd" h lc]
    by (auto simp: occs_def add lc_def new_LockCombination_def update_sorted_locks_def split: option.splits)
  have f: "occs (filter (\<lambda>lc. locks_held lc \<noteq> []) (map snd xs)) =
      sum_list (map (\<lambda>e. if locks_held (snd e) \<noteq> [] then lc_occurrences (snd e) else 0) xs)" for xs :: "(hypo, LockCombination) omap"
    by (induction xs) (auto simp: occs_def)
  show "occs (filter (\<lambda>lc. locks_held lc \<noteq> []) (map snd (add_combination occ h cs))) =
      occs (filter (\<lambda>lc. locks_held lc \<noteq> []) (map snd cs)) + (if h \<noteq> [] then occ else 0)"
    using sum_omap_update[OF ok, of "\<lambda>e. if locks_held (snd e) \<noteq> [] then lc_occurrences (snd e) else 0" h lc] held(1) old
    by (auto simp: f add lc_def new_LockCombination_def update_sorted_locks_def split: option.splits)
qed

lemma member_ok_count:
  assumes "member_ok m cs" and "combs_ok names cs" and "known_ids names h"
  shows "member_ok (count_member_access occ h m) (add_combination occ h cs)"
  using assms(1) add_combination_ok(3,4)[OF assms(2,3), of occ] by (simp add: member_ok_def count_member_access_def)

lemma new_Member_ok: "new_Member dt n = Inr m \<Longrightarrow> member_ok m []"
  by (auto simp: new_Member_def parse_name_def member_ok_def split: if_splits)

lemma intern_member_cases:
  assumes "intern_member dt n st = Inr (st1, i)"
  obtains "st1 = st" "omap_lookup (member_to_id st) (dt, n) = Some i"
  | m where "new_Member dt n = Inr m" "length (members st) \<le> 65535" "i = of_nat (length (members st))"
      "st1 = st\<lparr>members := members st @ [m], members_combinations := members_combinations st @ [[]],
         member_to_id := omap_update (dt, n) i (member_to_id st)\<rparr>"
proof (cases "omap_lookup (member_to_id st) (dt, n)")
  case (Some j)
  then show ?thesis using assms that(1) by (simp add: intern_member_def)
next
  case None
  then obtain m where "new_Member dt n = Inr m" using assms by (auto simp: intern_member_def res_simps)
  then show ?thesis using None assms that(2)
    by (auto simp: intern_member_def myid_max_def Let_def split: if_splits)
qed

text \<open>The state between the numbering of a member and the counting of its access.\<close>

definition open_member :: "nat \<Rightarrow> load_state \<Rightarrow> bool" where
  "open_member i st \<longleftrightarrow> lock_numbers_ok st \<and> length (members st) \<le> 65536 \<and>
     length (members_combinations st) = length (members st) \<and> i < length (members st) \<and>
     (\<forall>k j. omap_lookup (member_to_id st) k = Some j \<longrightarrow> unat j < length (members st)) \<and>
     (\<forall>j < length (members st). (j \<noteq> i \<longrightarrow> members_combinations st ! j \<noteq> []) \<and>
        combs_ok (locks st) (members_combinations st ! j) \<and> member_ok (members st ! j) (members_combinations st ! j))"

lemma intern_member_ok:
  assumes "load_inv st" and "intern_member dt n st = Inr (st1, i)"
  shows "open_member (unat i) st1 \<and> locks st1 = locks st"
  using assms(2)
proof (cases rule: intern_member_cases)
  case 1
  then show ?thesis using assms(1) by (simp add: load_inv_def open_member_def)
next
  case (2 m)
  have u: "unat i = length (members st)" using 2(2,3) by (simp add: unat_myid)
  have m: "member_ok m []" by (rule new_Member_ok[OF 2(1)])
  show ?thesis
    using assms(1) 2(2) u m unfolding load_inv_def open_member_def 2(4)
    by (auto simp: nth_append less_Suc_eq omap_simps combs_ok_def lock_numbers_ok_def)
qed

lemma record_access_ok:
  assumes "open_member (unat i) st" and "known_ids (locks st) h"
  shows "load_inv (record_access i occ h st)"
proof -
  let ?i = "unat i"
  let ?m = "members st ! ?i" and ?cs = "members_combinations st ! ?i"
  have at: "?i < length (members st)" "length (members_combinations st) = length (members st)"
    "combs_ok (locks st) ?cs" "member_ok ?m ?cs"
    using assms(1) by (simp_all add: open_member_def)
  note add = add_combination_ok(1,2)[OF at(3) assms(2), of occ] member_ok_count[OF at(4,3) assms(2), of occ]
  show ?thesis
    using assms(1) at add unfolding load_inv_def record_access_def open_member_def
    by (simp add: nth_list_update lock_numbers_ok_def)
qed

lemma read_members_ok:
  "read_members dt es occ h st = Inr st' \<Longrightarrow> load_inv st \<Longrightarrow> known_ids (locks st) h \<Longrightarrow>
     load_inv st' \<and> locks st' = locks st"
proof (induction dt es occ h st rule: read_members.induct)
  case (2 dt e es occ h st)
  obtain st1 i where i: "intern_member dt e st = Inr (st1, i)"
    "read_members dt es occ h (record_access i occ h st1) = Inr st'"
    using "2.prems"(1) by (auto simp: res_simps)
  note ok = intern_member_ok[OF "2.prems"(2) i(1)]
  have "load_inv (record_access i occ h st1)" using record_access_ok ok "2.prems"(3) by simp
  then show ?case using "2.IH"[OF i(1) refl i(2)] ok "2.prems"(3) by (simp add: record_access_def)
qed simp

lemma load_line_ok:
  assumes "load_line n l st = Inr st'" and "load_inv st"
  shows "load_inv st'"
proof -
  consider "st' = st" | occ st1 h es ms dt where
    "read_locks es [] (st\<lparr>accesscount := accesscount st + occ\<rparr>) = Inr (st1, h)"
    "read_members dt ms occ h st1 = Inr st'"
    using assms(1) by (auto simp: load_line_def res_simps Let_def split: if_splits)
  then show ?thesis
  proof cases
    case 2
    have "load_inv (st\<lparr>accesscount := accesscount st + occ\<rparr>)" using assms(2) by (simp add: load_inv_def lock_numbers_ok_def)
    then have "load_inv st1 \<and> known_ids (locks st1) h"
      using read_locks_ok[OF 2(1)] by (simp add: known_ids_def)
    then show ?thesis using read_members_ok[OF 2(2)] by blast
  qed (use assms(2) in simp)
qed

lemma load_lines_ok: "load_lines n ls st = Inr st' \<Longrightarrow> load_inv st \<Longrightarrow> load_inv st'"
  by (induction n ls st rule: load_lines.induct) (auto simp: res_simps intro: load_line_ok)

section \<open>The copy loop\<close>

definition copied :: "load_state \<Rightarrow> nat \<Rightarrow> Member" where
  "copied st j = (members st ! j)
     \<lparr>combinations := map2vec (members_combinations st ! j) (combinations (members st ! j))\<rparr>"

lemma copy_combinations_run:
  assumes "length (members st) < 65536" and "unat i \<le> length (members st)"
  shows "copy_combinations i st =
    Some (st\<lparr>members := map (\<lambda>j. if unat i \<le> j then copied st j else members st ! j) [0..<length (members st)]\<rparr>)"
  using assms
proof (induction "length (members st) - unat i" arbitrary: i st)
  case 0
  then have "map (\<lambda>j. if unat i \<le> j then copied st j else members st ! j) [0..<length (members st)] = members st"
    by (intro nth_equalityI) auto
  then show ?case using 0 by (subst copy_combinations.simps) simp
next
  case (Suc d)
  define st1 where "st1 = st\<lparr>members := (members st)[unat i := copied st (unat i)]\<rparr>"
  have i: "unat i < length (members st)" using Suc by linarith
  then have u: "unat (i + 1) = unat i + 1" using Suc.prems(1) by (simp add: unat_word_ariths)
  have "copy_combinations i st = copy_combinations (i + 1) st1"
    using i by (subst copy_combinations.simps) (simp add: st1_def copied_def)
  also have "\<dots> = Some (st1\<lparr>members := map (\<lambda>j. if unat (i + 1) \<le> j then copied st1 j else members st1 ! j)
      [0..<length (members st1)]\<rparr>)"
    using Suc i u by (intro Suc.hyps(1)) (simp_all add: st1_def)
  also have "map (\<lambda>j. if unat (i + 1) \<le> j then copied st1 j else members st1 ! j) [0..<length (members st1)] =
      map (\<lambda>j. if unat i \<le> j then copied st j else members st ! j) [0..<length (members st)]"
    using i by (auto simp: st1_def u copied_def nth_list_update not_less_eq_eq dest: le_antisym)
  finally show ?case by (simp add: st1_def)
qed

lemma copy_combinations_diverges:
  assumes "length (members st) = 65536"
  shows "copy_combinations i st = None"
proof (rule ccontr)
  assume "copy_combinations i st \<noteq> None"
  then obtain st' where st': "copy_combinations i st = Some st'" by blast
  have "length (members st) \<noteq> 65536"
  proof (rule copy_combinations.raw_induct[OF _ st', where P = "\<lambda>i st st'. length (members st) \<noteq> 65536"])
    fix f :: "myid \<Rightarrow> load_state \<Rightarrow> load_state option" and i :: myid and st st' :: load_state
    assume IH: "\<And>i st st'. f i st = Some st' \<Longrightarrow> length (members st) \<noteq> 65536"
      and run: "(if unat i < length (members st) then
        f (i + 1) (st\<lparr>members := (members st)[unat i := (members st ! unat i)
                \<lparr>combinations := map2vec (members_combinations st ! unat i) (combinations (members st ! unat i))\<rparr>]\<rparr>)
      else Some st) = Some st'"
    show "length (members st) \<noteq> 65536"
    proof
      assume len: "length (members st) = 65536"
      have "unat i < 2 ^ LENGTH(16)" by (rule unsigned_less)
      then have "f (i + 1) (st\<lparr>members := (members st)[unat i := (members st ! unat i)
          \<lparr>combinations := map2vec (members_combinations st ! unat i) (combinations (members st ! unat i))\<rparr>]\<rparr>) = Some st'"
        using run len by simp
      from IH[OF this] len show False by simp
    qed
  qed
  then show False using assms by simp
qed

section \<open>The members after loading\<close>

definition loaded_Member :: "string list \<Rightarrow> Member \<Rightarrow> bool" where
  "loaded_Member names m \<longleftrightarrow> fresh_Member m \<and> combinations m \<noteq> [] \<and>
     m_occurrences m = occs (combinations m) \<and>
     m_occurrences_with_locks m = occs (filter (\<lambda>lc. locks_held lc \<noteq> []) (combinations m)) \<and>
     distinct (map locks_held (combinations m)) \<and>
     (\<forall>lc \<in> set (combinations m). known_ids names (locks_held lc))"

lemma distinct_names:
  assumes "lock_numbers_ok st"
  shows "distinct (locks st)"
proof (unfold distinct_conv_nth, intro allI impI)
  fix a b
  assume ab: "a < length (locks st)" "b < length (locks st)" "a \<noteq> b"
  then have "unat (of_nat a :: myid) = a" "unat (of_nat b :: myid) = b"
    using assms by (auto simp: lock_numbers_ok_def intro!: unat_myid)
  then have "locks st ! a = locks st ! b \<Longrightarrow> (of_nat a :: myid) = of_nat b"
    using assms ab(1,2) unfolding lock_numbers_ok_def by (metis option.inject)
  then show "locks st ! a \<noteq> locks st ! b"
    using ab(3) \<open>unat (of_nat a :: myid) = a\<close> \<open>unat (of_nat b :: myid) = b\<close> by metis
qed

lemma copied_loaded:
  assumes "load_inv st" and "j < length (members st)"
  shows "loaded_Member (locks st) (copied st j)"
proof -
  let ?m = "members st ! j" and ?cs = "members_combinations st ! j"
  have m: "member_ok ?m ?cs" and cs: "combs_ok (locks st) ?cs" "?cs \<noteq> []"
    using assms by (simp_all add: load_inv_def)
  have "map locks_held (map snd ?cs) = omap_keys ?cs"
    using cs(1) by (auto simp: combs_ok_def omap_keys_def)
  then have "distinct (map locks_held (map snd ?cs))"
    using cs(1) by (simp only: combs_ok_def omap_ok_distinct)
  moreover have "\<forall>lc \<in> set (map snd ?cs). lc_ok lc \<and> known_ids (locks st) (locks_held lc)"
    using cs(1) by (auto simp: combs_ok_def)
  ultimately show ?thesis
    using m cs(2) by (simp add: loaded_Member_def copied_def map2vec_def member_ok_def fresh_Member_def list_all_iff)
qed

lemma load_lines_cases:
  assumes "load_lines 0 ls empty_load = Inr st"
  shows "load_inv st" and
    "length (members st) = 65536 \<Longrightarrow> load_input ls = None" and
    "length (members st) \<noteq> 65536 \<Longrightarrow> load_input ls = Some (Inr (st\<lparr>members := map (copied st) [0..<length (members st)],
       member_to_id := [], lock_to_id := [], members_combinations := []\<rparr>))"
proof -
  show inv: "load_inv st" by (rule load_lines_ok[OF assms load_inv_empty])
  let ?st = "st\<lparr>member_to_id := [], lock_to_id := []\<rparr>"
  show "load_input ls = None" if "length (members st) = 65536"
    using assms copy_combinations_diverges[of ?st 0] that by (simp add: load_input_def)
  show "load_input ls = Some (Inr (st\<lparr>members := map (copied st) [0..<length (members st)],
       member_to_id := [], lock_to_id := [], members_combinations := []\<rparr>))" if "length (members st) \<noteq> 65536"
  proof -
    have "length (members ?st) < 65536" using inv that by (simp add: load_inv_def)
    moreover have "copied ?st = copied st" by (simp add: fun_eq_iff copied_def)
    ultimately show ?thesis using assms copy_combinations_run[of ?st 0] by (simp add: load_input_def)
  qed
qed

lemma loaded_cases:
  assumes "load_input ls = Some (Inr st)"
  obtains st1 where "load_inv st1" "length (members st1) \<noteq> 65536"
    "st = st1\<lparr>members := map (copied st1) [0..<length (members st1)], member_to_id := [], lock_to_id := [],
       members_combinations := []\<rparr>"
proof -
  obtain st1 where st1: "load_lines 0 ls empty_load = Inr st1"
    using assms by (auto simp: load_input_def split: sum.splits)
  have "length (members st1) \<noteq> 65536" using load_lines_cases(2)[OF st1] assms by auto
  then show ?thesis using load_lines_cases(1,3)[OF st1] assms that by simp
qed

end
