(* ===== verification/Hypothesizer_Report.thy ===== *)
theory Hypothesizer_Report
  imports Hypothesizer_Input_Inv "HOL-Library.Code_Target_Nat"
begin

text \<open>
  The reports of the hypothesizer and the loop of \<^verbatim>\<open>main\<close> over the members. Where the program
  calls \<^verbatim>\<open>std::sort\<close>, which leaves the order of equal elements open, the sorting routine is an
  argument. Members are processed in the order of the vector; the program may process them in
  parallel, but each iteration works on its own member and prints in a critical section.
\<close>

section \<open>Printing a floating-point number\<close>

text \<open>The default format of an output stream: \<open>p\<close> significant digits, no trailing zeros.\<close>

definition pow10 :: "int \<Rightarrow> rat" where
  "pow10 e = (if 0 \<le> e then 10 ^ nat e else 1 / 10 ^ nat (- e))"

definition decimal_exponent :: "rat \<Rightarrow> int" where
  \<comment> \<open>the exponent of the leading digit of a positive number\<close>
  "decimal_exponent x =
     (if 1 \<le> x then int (length (dec_of_nat (nat \<lfloor>x\<rfloor>))) - 1
      else (let q = snd (quotient_of x)
            in - int (hd (filter (\<lambda>k. 1 \<le> x * 10 ^ k) [1..<Suc (length (dec_of_nat (nat q)))]))))"

definition strip_zeros :: "string \<Rightarrow> string" where
  "strip_zeros s = rev (dropWhile (\<lambda>c. c = CHR ''0'') (rev s))"

definition with_fraction :: "string \<Rightarrow> string \<Rightarrow> string" where
  "with_fraction i f = (let f' = strip_zeros f in if f' = [] then i else i @ ''.'' @ f')"

definition format_pos :: "nat \<Rightarrow> rat \<Rightarrow> string" where
  "format_pos p x =
     (let e0 = decimal_exponent x;
          d0 = nat (round_even (x / pow10 (e0 - int p + 1)));
          (d, e) = (if d0 = 10 ^ p then (10 ^ (p - 1), e0 + 1) else (d0, e0));
          ds = dec_of_nat d
      in if e < - 4 \<or> int p \<le> e then
           with_fraction (take 1 ds) (drop 1 ds) @ ''e'' @ (if e < 0 then ''-'' else ''+'') @
             (let es = dec_of_nat (nat \<bar>e\<bar>) in if length es < 2 then CHR ''0'' # es else es)
         else if 0 \<le> e then with_fraction (take (nat e + 1) ds) (drop (nat e + 1) ds)
         else with_fraction ''0'' (replicate (nat (- e) - 1) (CHR ''0'') @ ds))"

fun format_double :: "nat \<Rightarrow> double \<Rightarrow> string" where
  "format_double p (Fin x) = (if x = 0 then ''0'' else if x < 0 then CHR ''-'' # format_pos p (- x) else format_pos p x)"
| "format_double p PInf = ''inf''"
| "format_double p NInf = ''-inf''"
| "format_double p NaN = ''-nan''"   \<comment> \<open>the sign of the NaN that a division 0/0 gives\<close>

definition setw :: "nat \<Rightarrow> string \<Rightarrow> string" where
  "setw n s = replicate (n - length s) (CHR '' '') @ s"

abbreviation print_u64 :: "u64 \<Rightarrow> string" where
  "print_u64 w \<equiv> dec_of_nat (unat w)"

section \<open>Reports\<close>

datatype SortCriterion = NONE | MEMBER | COMBINATIONS | HYPOTHESES
datatype ReportMode = NORMAL | CSV | CSVWINNER | DOC

type_synonym doc_map = "(string, (hypo, string list) omap) omap"

abbreviation nl :: string where "nl \<equiv> [CHR 0x0A]"
abbreviation arrow :: string where "arrow \<equiv> '' -> ''"

definition ids2string :: "hypo \<Rightarrow> string \<Rightarrow> string \<Rightarrow> string" where
  "ids2string l separator quote =
     (if l = [] then ''(no locks held)''
      else concat (map (\<lambda>i. quote @ dec_of_nat (unat i) @ quote @ separator) (butlast l)) @
        quote @ dec_of_nat (unat (last l)) @ quote)"

definition smoothstep :: "double \<Rightarrow> double \<Rightarrow> double \<Rightarrow> double" where
  "smoothstep a b x =
     (if dlt x a then Fin 0
      else if dle b x then Fin 1
      else (let x = ddiv (dsub x a) (dsub b a)
            in dmul (dmul x x) (dsub (Fin 3) (dmul (Fin 2) x))))"

definition print_bugsql :: "string list \<Rightarrow> string \<Rightarrow> string \<Rightarrow> Member \<Rightarrow> hypo \<Rightarrow> bool \<Rightarrow> u64 \<Rightarrow> string" where
  "print_bugsql names pre postfix m l order_matters expected_counterexamples =
     (if expected_counterexamples > 0 then
        pre @ ''counterexample.sql.sh '' @ m_datatype m @ '' '' @ combined_name m @ '' '' @ ''CEX '' @
          (if order_matters then ''SEQ '' else ''ANY '') @ locks2string names l '' '' [CHR 0x27] @ postfix
      else pre @ ''(no counterexamples to be expected, this hypothesis has 100% support in the observation set)'' @
        postfix)"

text \<open>One line of the report, with the marks for the winner and for hypotheses in conflict with it.\<close>

datatype report_row =
    LockSet LockingHypothesisMatches
  | LockOrder LockingHypothesisMatches hypo u64 bool bool
  | OnlyOrder LockingHypothesisMatches hypo bool bool

definition is_winner :: "Member \<Rightarrow> bool \<Rightarrow> hypo \<Rightarrow> bool" where
  "is_winner m found_winner ord \<longleftrightarrow> \<not> found_winner \<and> winning_hypothesis m = ord \<and> winner_found m"

definition is_conflict :: "Member \<Rightarrow> bool \<Rightarrow> hypo \<Rightarrow> bool" where
  "is_conflict m this_is_the_winner ord \<longleftrightarrow>
     \<not> this_is_the_winner \<and> in_conflict_list (conflict_list m) ord \<and> winner_found m"

fun order_rows ::
  "Member \<Rightarrow> LockingHypothesisMatches \<Rightarrow> bool \<Rightarrow> (hypo \<times> u64) list \<Rightarrow> report_row list \<times> bool" where
  "order_rows m h found_winner [] = ([], found_winner)"
| "order_rows m h found_winner ((ord, n) # ms) =
     (let this = is_winner m found_winner ord;
          (rows, found) = order_rows m h (found_winner \<or> this) ms
      in (LockOrder h ord n this (is_conflict m this ord) # rows, found))"

definition occurrences_greater :: "LockingHypothesisMatches \<Rightarrow> LockingHypothesisMatches \<Rightarrow> bool" where
  "occurrences_greater a b \<longleftrightarrow> lh_occurrences a > lh_occurrences b \<or>
     lh_occurrences a = lh_occurrences b \<and> length (sorted_hypothesis a) > length (sorted_hypothesis b)"

definition count_greater :: "hypo \<times> u64 \<Rightarrow> hypo \<times> u64 \<Rightarrow> bool" where
  "count_greater a b \<longleftrightarrow> snd a > snd b"

record sorters =
  sort_hypotheses :: "(LockingHypothesisMatches \<Rightarrow> LockingHypothesisMatches \<Rightarrow> bool) \<Rightarrow>
    LockingHypothesisMatches list \<Rightarrow> LockingHypothesisMatches list"
  sort_matches :: "(hypo \<times> u64 \<Rightarrow> hypo \<times> u64 \<Rightarrow> bool) \<Rightarrow> (hypo \<times> u64) list \<Rightarrow> (hypo \<times> u64) list"
  sort_members :: "(Member \<Rightarrow> Member \<Rightarrow> bool) \<Rightarrow> Member list \<Rightarrow> Member list"

fun hypothesis_rows :: "sorters \<Rightarrow> double \<Rightarrow> ReportMode \<Rightarrow> Member \<Rightarrow> bool \<Rightarrow> LockingHypothesisMatches list \<Rightarrow>
    report_row list res" where
  "hypothesis_rows srt cutoff mode m found_winner [] = Inr []"
| "hypothesis_rows srt cutoff mode m found_winner (h # hs) =
     (if dlt (ddiv (double_of_u64 (lh_occurrences h)) (double_of_u64 (m_occurrences m))) cutoff then
        hypothesis_rows srt cutoff mode m found_winner hs
      else if length (matches h) > 1 \<or> mode = CSV \<or> mode = CSVWINNER \<or> mode = DOC then
        (let (rows, found) = order_rows m h found_winner (sort_matches srt count_greater (matches h))
         in bindE (hypothesis_rows srt cutoff mode m found hs) (\<lambda>more_rows. Inr (LockSet h # rows @ more_rows)))
      else
        (case matches h of
           [] \<Rightarrow> Inl (UndefinedBehaviour ''begin() of an empty map dereferenced'')
         | (winner, _) # _ \<Rightarrow>
             (let this = is_winner m found_winner winner
              in bindE (hypothesis_rows srt cutoff mode m (found_winner \<or> this) hs) (\<lambda>more_rows.
                   Inr (OnlyOrder h winner this (is_conflict m this winner) # more_rows)))))"

record report_options =
  cutoff_threshold :: double
  reportmode :: ReportMode
  bugsql :: bool
  confidence_threshold :: double

definition percent :: "u64 \<Rightarrow> u64 \<Rightarrow> double" where
  "percent a b = dmul (ddiv (double_of_u64 a) (double_of_u64 b)) (Fin 100)"

definition row_prefix :: "bool \<Rightarrow> bool \<Rightarrow> string" where
  "row_prefix this conflict = (if this then ''!'' else if conflict then ''?'' else '' '')"

fun conflict_names :: "string list \<Rightarrow> hypo \<Rightarrow> (hypo \<times> hypo) list \<Rightarrow> string" where
  "conflict_names names ord [] = []"
| "conflict_names names ord (e # es) =
     (if snd e = ord then conflict_names names ord es
      else locks2string names (snd e) arrow [] @ (if es \<noteq> [] then '','' else []) @ conflict_names names ord es)"

definition csv_row :: "report_options \<Rightarrow> string list \<Rightarrow> Member \<Rightarrow> hypo \<Rightarrow> u64 \<Rightarrow> bool \<Rightarrow> bool \<Rightarrow> string" where
  "csv_row opts names m ord n this conflict =
     m_datatype m @ '';'' @ m_name m @ '';'' @ [accesstype m] @ '';'' @ locks2string names ord arrow [] @ '';'' @
     (if this then conflict_names names ord (conflict_list m) else []) @
     '';'' @ print_u64 n @ '';'' @ print_u64 (m_occurrences m) @ '';'' @
     format_double 5 (percent n (m_occurrences m)) @ '';'' @
     (if this then ''1'' else if conflict then ''2'' else ''0'') @ '';'' @
     format_double 5 (dmul (ddiv (double_of_u64 n) (double_of_u64 (m_occurrences m)))
       (smoothstep (Fin 0) (confidence_threshold opts) (double_of_u64 n))) @ '';'' @
     print_bugsql names [] nl m ord True (m_occurrences m - n)"

fun print_row :: "report_options \<Rightarrow> string list \<Rightarrow> Member \<Rightarrow> report_row \<Rightarrow> string" where
  "print_row opts names m (LockSet h) =
     (if reportmode opts = NORMAL then
        ''    '' @ setw 5 (format_double 3 (percent (lh_occurrences h) (m_occurrences m))) @ ''% ('' @
        print_u64 (lh_occurrences h) @ '' out of '' @ print_u64 (m_occurrences m) @ '' mem accesses): '' @
        locks2string names (sorted_hypothesis h) '' + '' [] @ nl @
        (if bugsql opts then print_bugsql names ''    '' nl m (sorted_hypothesis h) False
           (m_occurrences m - lh_occurrences h) else [])
      else [])"
| "print_row opts names m (LockOrder h ord n this conflict) =
     (case reportmode opts of
        NORMAL \<Rightarrow>
          (let pre = row_prefix this conflict @ ''      '' in
           pre @ setw 5 (format_double 3 (percent n (lh_occurrences h))) @ ''% '' @
           locks2string names ord arrow [] @ nl @
           (if bugsql opts then print_bugsql names pre nl m ord True (m_occurrences m - n) else []))
      | CSV \<Rightarrow> csv_row opts names m ord n this conflict
      | CSVWINNER \<Rightarrow> if this then csv_row opts names m ord n this conflict else []
      | DOC \<Rightarrow> [])"
| "print_row opts names m (OnlyOrder h ord this conflict) =
     (let pre = row_prefix this conflict @ ''   '' in
      pre @ setw 5 (format_double 3 (percent (lh_occurrences h) (m_occurrences m))) @ ''% ('' @
      print_u64 (lh_occurrences h) @ '' out of '' @ print_u64 (m_occurrences m) @ '' mem accesses): '' @
      locks2string names ord arrow [] @ nl @
      (if bugsql opts then print_bugsql names pre nl m ord True (m_occurrences m - lh_occurrences h) else []))"

definition add_doc :: "Member \<Rightarrow> hypo \<Rightarrow> doc_map \<Rightarrow> doc_map" where
  "add_doc m ord d =
     (let per_type = (case omap_lookup d (m_datatype m) of None \<Rightarrow> [] | Some x \<Rightarrow> x);
          protected = (case omap_lookup per_type ord of None \<Rightarrow> [] | Some x \<Rightarrow> x)
      in omap_update (m_datatype m) (omap_update ord (protected @ [combined_name m]) per_type) d)"

fun doc_row :: "Member \<Rightarrow> report_row \<Rightarrow> doc_map \<Rightarrow> doc_map" where
  "doc_row m (LockOrder h ord n True conflict) d = add_doc m ord d"
| "doc_row m _ d = d"

definition print_hypotheses ::
  "sorters \<Rightarrow> report_options \<Rightarrow> string list \<Rightarrow> Member \<Rightarrow> doc_map \<Rightarrow> (string \<times> doc_map) res" where
  "print_hypotheses srt opts names m d =
     bindE (hypothesis_rows srt (cutoff_threshold opts) (reportmode opts) m False
         (sort_hypotheses srt occurrences_greater (map2vec (hypotheses m) []))) (\<lambda>rows.
       Inr ((if reportmode opts = NORMAL then
               m_datatype m @ '' member: '' @ m_name m @ '' ['' @ [accesstype m] @ ''] ('' @
               dec_of_nat (length (combinations m)) @ '' lock combinations)'' @ nl @
               ''  hypotheses: '' @ dec_of_nat (length (hypotheses m)) @ nl @
               ''  accesses without any locks:'' @ print_u64 (m_occurrences m - m_occurrences_with_locks m) @ nl
             else []) @ concat (map (print_row opts names m) rows),
            if reportmode opts = DOC then fold (doc_row m) rows d else d))"

definition print_doc :: "string list \<Rightarrow> doc_map \<Rightarrow> string" where
  "print_doc names d =
     concat (map (\<lambda>(ty, per_type).
       '' * '' @ ty @ '' locking rules:'' @ nl @ '' * '' @ nl @
       concat (map (\<lambda>(l, protected).
         '' * '' @ (if l = [] then ''No locks needed for:'' else locks2string names l arrow [] @ '' protects:'') @ nl @
         '' * '' @ ''  '' @ hd protected @ concat (map (\<lambda>x. '', '' @ x) (tl protected)) @ nl @ '' * '' @ nl)
         per_type)) d)"

section \<open>The loop over the members\<close>

record hypo_options = report_options +
  accepted_datatypes :: "string list"
  accepted_members :: "string list"
  selection_strategy :: SelectionStrategy
  strategy_thresholds :: thresholds
  max_hypo_len :: nat
  sortby :: SortCriterion

definition filtered_out :: "hypo_options \<Rightarrow> Member \<Rightarrow> bool" where
  "filtered_out opts m \<longleftrightarrow>
     accepted_datatypes opts \<noteq> [] \<and> \<not> list_ex (\<lambda>t. str_find t (m_datatype m) = Some 0) (accepted_datatypes opts) \<or>
     accepted_members opts \<noteq> [] \<and> m_name m \<notin> set (accepted_members opts) \<and>
       combined_name m \<notin> set (accepted_members opts)"

text \<open>One iteration: the member afterwards, the text it prints and the documentation it adds to.\<close>

definition run_member :: "sorters \<Rightarrow> hypo_options \<Rightarrow> string list \<Rightarrow> Member \<Rightarrow> doc_map \<Rightarrow>
    (Member \<times> string \<times> doc_map) res option" where
  "run_member srt opts names m d =
     (if filtered_out opts m then Some (Inr ((clear_Member m)\<lparr>m_show := False\<rparr>, [], d))
      else
        (case find_hypotheses (max_hypo_len opts) m of
           None \<Rightarrow> None
         | Some (Inl e) \<Rightarrow> Some (Inl e)
         | Some (Inr m1) \<Rightarrow>
             map_option (\<lambda>m2.
               if sortby opts = NONE then
                 bindE (print_hypotheses srt (report_options.truncate opts) names m2 d) (\<lambda>(out, d').
                   Inr (clear_Member m2, out, d'))
               else Inr (m2, [], d))
             (determine_winning_hypothesis (strategy_thresholds opts) (selection_strategy opts) m1)))"

fun run_members :: "sorters \<Rightarrow> hypo_options \<Rightarrow> string list \<Rightarrow> Member list \<Rightarrow> doc_map \<Rightarrow>
    (Member list \<times> string \<times> doc_map) res option" where
  "run_members srt opts names [] d = Some (Inr ([], [], d))"
| "run_members srt opts names (m # ms) d =
     (case run_member srt opts names m d of
        None \<Rightarrow> None
      | Some (Inl e) \<Rightarrow> Some (Inl e)
      | Some (Inr (m', out, d')) \<Rightarrow>
          (case run_members srt opts names ms d' of
             None \<Rightarrow> None
           | Some (Inl e) \<Rightarrow> Some (Inl e)
           | Some (Inr (ms', outs, d'')) \<Rightarrow> Some (Inr (m' # ms', out @ outs, d''))))"

definition char_signed :: "char \<Rightarrow> int" where
  \<comment> \<open>a plain \<open>char\<close> is signed\<close>
  "char_signed c = (let n = (of_char c :: int) in if n < 128 then n else n - 256)"

definition member_less :: "SortCriterion \<Rightarrow> Member \<Rightarrow> Member \<Rightarrow> bool" where
  "member_less sb a b = (case sb of
       MEMBER \<Rightarrow> m_datatype a < m_datatype b \<or>
         m_datatype a = m_datatype b \<and> m_name a < m_name b \<or>
         m_datatype a = m_datatype b \<and> m_name a = m_name b \<and>
           char_signed (accesstype a) < char_signed (accesstype b)
     | COMBINATIONS \<Rightarrow> length (combinations a) < length (combinations b)
     | HYPOTHESES \<Rightarrow> length (hypotheses a) < length (hypotheses b)
     | NONE \<Rightarrow> False)"

fun print_members :: "sorters \<Rightarrow> report_options \<Rightarrow> string list \<Rightarrow> Member list \<Rightarrow> doc_map \<Rightarrow> (string \<times> doc_map) res" where
  "print_members srt opts names [] d = Inr ([], d)"
| "print_members srt opts names (m # ms) d =
     (if m_show m then
        bindE (print_hypotheses srt opts names m d) (\<lambda>(out, d').
          bindE (print_members srt opts names ms d') (\<lambda>(outs, d''). Inr (out @ outs, d'')))
      else print_members srt opts names ms d)"

definition csv_header :: string where
  "csv_header = ''type;member;accesstype;locks;conflictlist;occurrences;total;percentage;accepted;confidence;counterexample-parameters'' @ nl"

text \<open>The part of \<^verbatim>\<open>main\<close> after the options are parsed: the text on standard output.\<close>

definition hypothesizer_main :: "sorters \<Rightarrow> hypo_options \<Rightarrow> string list \<Rightarrow> string res option" where
  "hypothesizer_main srt opts lines =
     (let ropts = report_options.truncate opts in
      case load_input lines of
        None \<Rightarrow> None
      | Some (Inl e) \<Rightarrow> Some (Inl e)
      | Some (Inr st) \<Rightarrow>
          map_option (\<lambda>r. bindE r (\<lambda>(ms, out, d).
            bindE (if sortby opts = NONE then Inr (out, d)
                   else bindE (print_members srt ropts (locks st) (sort_members srt (member_less (sortby opts)) ms) d)
                     (\<lambda>(out', d'). Inr (out @ out', d'))) (\<lambda>(out', d').
              Inr ((if reportmode opts = CSV \<or> reportmode opts = CSVWINNER then csv_header else []) @ out' @
                (if reportmode opts = DOC then ''/*'' @ nl @ print_doc (locks st) d' @ ''*/'' @ nl else [])))))
            (run_members srt opts (locks st) (members st) []))"

end
