(* ===== verification/Hypothesizer_Run.thy ===== *)
theory Hypothesizer_Run
  imports Hypothesizer_Report
begin

text \<open>
  The whole run of the hypothesizer: which hypotheses a report marks as the winner, and that the
  run over the loaded members ends without a failed assertion or undefined behaviour.
\<close>

section \<open>The mark of the winner\<close>

fun row_wins :: "report_row \<Rightarrow> bool" where
  "row_wins (LockSet h) = False"
| "row_wins (LockOrder h ord n this conflict) = this"
| "row_wins (OnlyOrder h ord this conflict) = this"

fun row_order :: "report_row \<Rightarrow> hypo option" where
  "row_order (LockSet h) = None"
| "row_order (LockOrder h ord n this conflict) = Some ord"
| "row_order (OnlyOrder h ord this conflict) = Some ord"

definition winners :: "report_row list \<Rightarrow> report_row list" where
  "winners rows = filter row_wins rows"

text \<open>How the flag \<open>found_winner\<close> evolves: the first row with the winning order gets the mark.\<close>

definition marks_ok :: "Member \<Rightarrow> bool \<Rightarrow> report_row list \<Rightarrow> bool \<Rightarrow> bool" where
  "marks_ok m found rows found' \<longleftrightarrow>
     (let hit = winner_found m \<and> (\<exists>r \<in> set rows. row_order r = Some (winning_hypothesis m))
      in found' = (found \<or> hit) \<and> length (winners rows) = (if \<not> found \<and> hit then 1 else 0) \<and>
         (\<forall>r \<in> set (winners rows). row_order r = Some (winning_hypothesis m)))"

lemma marks_ok_Nil [simp]: "marks_ok m found [] found"
  by (simp add: marks_ok_def winners_def)

lemma marks_ok_append:
  "marks_ok m f1 rows1 f2 \<Longrightarrow> marks_ok m f2 rows2 f3 \<Longrightarrow> marks_ok m f1 (rows1 @ rows2) f3"
  unfolding marks_ok_def winners_def Let_def by (cases f1; cases f2) (auto split: if_splits)

lemma marks_ok_one:
  "marks_ok m f [LockSet h] f"
  "marks_ok m f [LockOrder h ord n (is_winner m f ord) c] (f \<or> is_winner m f ord)"
  "marks_ok m f [OnlyOrder h ord (is_winner m f ord) c] (f \<or> is_winner m f ord)"
  by (auto simp: marks_ok_def winners_def is_winner_def Let_def)

lemma order_rows_marks: "order_rows m h f ms = (rows, f') \<Longrightarrow> marks_ok m f rows f'"
proof (induction m h f ms arbitrary: rows f' rule: order_rows.induct)
  case (2 m h f ord n ms)
  obtain rs g where r: "order_rows m h (f \<or> is_winner m f ord) ms = (rs, g)" by fastforce
  then have "marks_ok m (f \<or> is_winner m f ord) rs g" using "2.IH"[OF refl] by blast
  then show ?case
    using "2.prems" r marks_ok_append[OF marks_ok_one(2), of m f ord rs g h n]
    by (auto simp: Let_def)
qed simp

lemma order_rows_orders: "order_rows m h f ms = (rows, f') \<Longrightarrow> map row_order rows = map (Some \<circ> fst) ms"
  by (induction m h f ms arbitrary: rows f' rule: order_rows.induct) (auto simp: Let_def split: prod.splits)

text \<open>The lock orders that the report shows: those of the hypotheses that pass the cutoff.\<close>

definition shown :: "double \<Rightarrow> Member \<Rightarrow> LockingHypothesisMatches \<Rightarrow> bool" where
  "shown cutoff m h \<longleftrightarrow>
     \<not> dlt (ddiv (double_of_u64 (lh_occurrences h)) (double_of_u64 (m_occurrences m))) cutoff"

definition sorters_ok :: "sorters \<Rightarrow> bool" where
  "sorters_ok srt \<longleftrightarrow> (\<forall>lt xs. mset (sort_hypotheses srt lt xs) = mset xs) \<and>
     (\<forall>lt xs. mset (sort_matches srt lt xs) = mset xs) \<and> (\<forall>lt xs. mset (sort_members srt lt xs) = mset xs)"

lemma hypothesis_rows_run:
  assumes "sorters_ok srt"
  shows "\<forall>h \<in> set hs. matches h \<noteq> [] \<Longrightarrow>
    \<exists>rows f'. hypothesis_rows srt cutoff mode m f hs = Inr rows \<and> marks_ok m f rows f' \<and>
      {ord. Some ord \<in> row_order ` set rows} = (\<Union>h \<in> {h \<in> set hs. shown cutoff m h}. fst ` set (matches h))"
proof (induction hs arbitrary: f)
  case (Cons h hs)
  have ms: "set (sort_matches srt lt (matches h)) = set (matches h)" for lt
    using assms by (metis sorters_ok_def set_mset_mset)
  have U: "(\<Union>h' \<in> {h' \<in> set (h # hs). shown cutoff m h'}. fst ` set (matches h')) =
      fst ` set (matches h) \<union> (\<Union>h' \<in> {h' \<in> set hs. shown cutoff m h'}. fst ` set (matches h'))"
    if "shown cutoff m h" using that by auto
  have hd: "matches h \<noteq> []" using Cons.prems by simp
  consider "\<not> shown cutoff m h" | "shown cutoff m h" "length (matches h) > 1 \<or> mode \<noteq> NORMAL" |
    "shown cutoff m h" "length (matches h) \<le> 1" "mode = NORMAL" by linarith
  then show ?case
  proof cases
    case 1
    then have "{h' \<in> set (h # hs). shown cutoff m h'} = {h' \<in> set hs. shown cutoff m h'}" by auto
    then show ?thesis using 1 Cons by (simp add: shown_def)
  next
    case 2
    obtain rows1 g where r: "order_rows m h f (sort_matches srt count_greater (matches h)) = (rows1, g)" by fastforce
    have m1: "marks_ok m f (LockSet h # rows1) g"
      using marks_ok_append[OF marks_ok_one(1) order_rows_marks[OF r]] by simp
    have o1: "{ord. Some ord \<in> row_order ` set rows1} = fst ` set (matches h)"
      using arg_cong[OF order_rows_orders[OF r], of set] ms by (auto simp: image_iff)
    obtain rows2 f' where r2: "hypothesis_rows srt cutoff mode m g hs = Inr rows2" "marks_ok m g rows2 f'"
      "{ord. Some ord \<in> row_order ` set rows2} = (\<Union>h \<in> {h \<in> set hs. shown cutoff m h}. fst ` set (matches h))"
      using Cons.IH[of g] Cons.prems by auto
    have "hypothesis_rows srt cutoff mode m f (h # hs) = Inr (LockSet h # rows1 @ rows2)"
      using 2 r r2(1) by (cases mode) (simp_all add: shown_def)
    moreover have "marks_ok m f (LockSet h # rows1 @ rows2) f'" using marks_ok_append[OF m1 r2(2)] by simp
    moreover have "{ord. Some ord \<in> row_order ` set (LockSet h # rows1 @ rows2)} =
        {ord. Some ord \<in> row_order ` set rows1} \<union> {ord. Some ord \<in> row_order ` set rows2}" by auto
    ultimately show ?thesis unfolding U[OF 2(1)] o1[symmetric] r2(3)[symmetric] by blast
  next
    case 3
    then obtain ord n where e: "matches h = [(ord, n)]" using hd by (cases "matches h") auto
    let ?wins = "is_winner m f ord"
    obtain rows2 f' where r2: "hypothesis_rows srt cutoff mode m (f \<or> ?wins) hs = Inr rows2"
      "marks_ok m (f \<or> ?wins) rows2 f'"
      "{ord. Some ord \<in> row_order ` set rows2} = (\<Union>h \<in> {h \<in> set hs. shown cutoff m h}. fst ` set (matches h))"
      using Cons.IH[of "f \<or> ?wins"] Cons.prems by auto
    let ?row = "OnlyOrder h ord ?wins (is_conflict m ?wins ord)"
    have "hypothesis_rows srt cutoff mode m f (h # hs) = Inr (?row # rows2)"
      using 3 r2(1) by (simp add: shown_def e Let_def)
    moreover have "marks_ok m f (?row # rows2) f'"
      using marks_ok_append[OF marks_ok_one(3) r2(2)] by simp
    moreover have "{x. Some x \<in> row_order ` set (?row # rows2)} = fst ` set (matches h) \<union> {x. Some x \<in> row_order ` set rows2}"
      using e by auto
    ultimately show ?thesis unfolding U[OF 3(1)] r2(3)[symmetric] by blast
  qed
qed (auto intro: marks_ok_Nil)

section \<open>The run over the members\<close>

definition printable :: "Member \<Rightarrow> bool" where
  "printable m \<longleftrightarrow> (\<forall>h \<in> set (map snd (hypotheses m)). matches h \<noteq> [])"

lemma print_hypotheses_run:
  assumes "sorters_ok srt" and "printable m"
  shows "\<exists>out d'. print_hypotheses srt opts names m d = Inr (out, d')"
proof -
  have "set (sort_hypotheses srt lt (map2vec (hypotheses m) [])) = set (map snd (hypotheses m))" for lt
    using assms(1) by (metis sorters_ok_def set_mset_mset map2vec_def append_Nil)
  then have "\<forall>h \<in> set (sort_hypotheses srt occurrences_greater (map2vec (hypotheses m) [])). matches h \<noteq> []"
    using assms(2) by (simp add: printable_def)
  from hypothesis_rows_run[OF assms(1) this, of "cutoff_threshold opts" "reportmode opts" m False]
  obtain rows where "hypothesis_rows srt (cutoff_threshold opts) (reportmode opts) m False
      (sort_hypotheses srt occurrences_greater (map2vec (hypotheses m) [])) = Inr rows" by (elim exE conjE)
  then show ?thesis by (simp add: print_hypotheses_def)
qed

lemma candidate_matches:
  assumes "\<forall>lc \<in> set cs. lc_ok lc" and "h \<in> candidates cs"
  shows "matches (eval_hypo cs h) \<noteq> []"
proof -
  obtain lc where lc: "lc \<in> set cs" "set h \<subseteq> set (locks_held lc)" and h: "sorted_wrt (<) h"
    using assms(2) by (auto simp: candidates_def)
  then have "lc \<in> set (with_order cs h (lock_order lc h))"
    using contains_locks_iff[OF _ h, of lc] assms(1) by (auto simp: with_order_def matching_def)
  then have "omap_lookup (matches (eval_hypo cs h)) (lock_order lc h) \<noteq> None"
    by (auto simp: eval_hypo_matches)
  then show ?thesis by auto
qed

lemma hyp_inv_printable:
  assumes "hyp_inv m" and "\<forall>lc \<in> set (combinations m). lc_ok lc"
  shows "printable m"
proof (unfold printable_def, intro ballI)
  fix x
  assume "x \<in> set (map snd (hypotheses m))"
  then obtain h where "(h, x) \<in> set (hypotheses m)" by auto
  then have "omap_lookup (hypotheses m) h = Some x"
    using om.entries_lookup[of "hypotheses m"] assms(1) by (simp add: hyp_inv_def)
  moreover have "h \<in> hyp_dom m" using calculation by (auto simp: hyp_dom_def)
  moreover have "x = eval_hypo (combinations m) h" using calculation assms(1) by (simp add: hyp_inv_def)
  ultimately show "matches x \<noteq> []" using candidate_matches[OF assms(2)] assms(1) by (auto simp: hyp_inv_def)
qed

lemma root_found:
  assumes "found_inv max_len m m1" and "combinations m \<noteq> []"
  shows "[] \<in> hyp_dom m1"
  using assms by (cases "combinations m") (auto simp: found_inv_def limited_def candidates_def)

lemma found_inv_combinations: "found_inv max_len m0 m \<Longrightarrow> combinations m = combinations m0"
  unfolding found_inv_def by (drule conjunct1) (erule ssubst, simp)

lemma found_inv_occurrences: "found_inv max_len m0 m \<Longrightarrow> m_occurrences m = m_occurrences m0"
  unfolding found_inv_def by (drule conjunct1) (erule ssubst, simp)

lemma found_inv_hyp_inv: "found_inv max_len m0 m \<Longrightarrow> hyp_inv m"
  by (simp only: found_inv_def)

lemma run_member_returns:
  assumes "sorters_ok srt" and "loaded_Member names m"
  shows "\<exists>m' out d'. run_member srt opts names m d = Some (Inr (m', out, d')) \<and>
    (sortby opts \<noteq> NONE \<longrightarrow> m_show m' \<longrightarrow> printable m')"
proof (cases "filtered_out opts m")
  case True
  then show ?thesis by (simp add: run_member_def)
next
  case False
  have m: "fresh_Member m" "combinations m \<noteq> []" using assms(2) by (simp_all add: loaded_Member_def)
  obtain m1 where m1: "find_hypotheses (max_hypo_len opts) m = Some (Inr m1)" "found_inv (max_hypo_len opts) m m1"
    using find_hypotheses_run[OF m(1)] by blast
  have inv: "hyp_inv m1" by (rule found_inv_hyp_inv[OF m1(2)])
  obtain cl found where w: "determine_winning_hypothesis (strategy_thresholds opts) (selection_strategy opts) m1 =
      Some (searched m1 cl found)"
    using determine_run[OF inv root_found[OF m1(2) m(2)]] by blast
  have "printable m1"
    using hyp_inv_printable[OF inv] m(1) found_inv_combinations[OF m1(2)] by (simp add: fresh_Member_def list_all_iff)
  then have pr: "printable (searched m1 cl found)" by (simp add: printable_def)
  then show ?thesis
    using print_hypotheses_run[OF assms(1) pr, of "report_options.truncate opts" names d] False m1(1) w
    by (auto simp: run_member_def)
qed

lemma run_members_returns:
  assumes "sorters_ok srt"
  shows "\<forall>m \<in> set ms. loaded_Member names m \<Longrightarrow>
    \<exists>ms' out d'. run_members srt opts names ms d = Some (Inr (ms', out, d')) \<and>
      (sortby opts \<noteq> NONE \<longrightarrow> (\<forall>m \<in> set ms'. m_show m \<longrightarrow> printable m))"
proof (induction ms arbitrary: d)
  case (Cons m ms)
  obtain m' out d' where m: "run_member srt opts names m d = Some (Inr (m', out, d'))"
    "sortby opts \<noteq> NONE \<longrightarrow> m_show m' \<longrightarrow> printable m'"
    using run_member_returns[OF assms, of names m opts d] Cons.prems by auto
  then show ?case using Cons.IH[of d'] Cons.prems by auto
qed simp

lemma print_members_returns:
  assumes "sorters_ok srt"
  shows "\<forall>m \<in> set ms. m_show m \<longrightarrow> printable m \<Longrightarrow> \<exists>out d'. print_members srt opts names ms d = Inr (out, d')"
proof (induction ms arbitrary: d)
  case (Cons m ms)
  show ?case
  proof (cases "m_show m")
    case True
    then obtain out d' where "print_hypotheses srt opts names m d = Inr (out, d')"
      using print_hypotheses_run[OF assms] Cons.prems by fastforce
    then show ?thesis using Cons.IH[of d'] Cons.prems True by auto
  qed (use Cons in simp)
qed simp

lemma hypothesizer_returns_loaded:
  assumes srt: "sorters_ok srt" and st: "load_input ls = Some (Inr st)" and ok: "\<forall>m \<in> set (members st). loaded_Member (locks st) m"
  shows "\<exists>out. hypothesizer_main srt opts ls = Some (Inr out)"
proof -
  obtain ms out d where r: "run_members srt opts (locks st) (members st) [] = Some (Inr (ms, out, d))"
    "sortby opts \<noteq> NONE \<longrightarrow> (\<forall>m \<in> set ms. m_show m \<longrightarrow> printable m)"
    using run_members_returns[OF srt ok] by blast
  show ?thesis
  proof (cases "sortby opts = NONE")
    case True
    then show ?thesis using st r(1) by (simp add: hypothesizer_main_def)
  next
    case False
    have "set (sort_members srt (member_less (sortby opts)) ms) = set ms"
      using srt by (metis sorters_ok_def set_mset_mset)
    then obtain out' d' where "print_members srt (report_options.truncate opts) (locks st)
        (sort_members srt (member_less (sortby opts)) ms) d = Inr (out', d')"
      using print_members_returns[OF srt] r(2) False by metis
    then show ?thesis using st r(1) False by (simp add: hypothesizer_main_def)
  qed
qed

end
