(* ===== verification/Hypothesizer_Properties.thy ===== *)
theory Hypothesizer_Properties
  imports Hypothesizer_Run
begin

text \<open>
  The properties of the hypothesizer: loading, enumeration, the graph, the selection of the winner
  and the report.
\<close>

section \<open>Sample data\<close>

definition sample_lc :: "u64 \<Rightarrow> nat list \<Rightarrow> LockCombination" where
  "sample_lc n l = new_LockCombination n (map of_nat l)"

definition sample_member :: "LockCombination list \<Rightarrow> Member" where
  "sample_member cs = \<lparr>m_datatype = ''inode'', m_name = ''i_uid'', m_occurrences = occs cs,
     m_occurrences_with_locks = 0, combinations = cs, hypotheses = [], graph = [], conflict_list = [],
     winning_hypothesis = [], winner_found = False, m_show = True, accesstype = CHR ''r''\<rparr>"

definition sample_combinations :: "LockCombination list" where
  "sample_combinations = [sample_lc 10 [0, 1, 0], sample_lc 7 [0, 2, 1], sample_lc 5 [0, 1, 2]]"

lemma sample_fresh: "fresh_Member (sample_member sample_combinations)"
  by (simp add: fresh_Member_def sample_member_def sample_combinations_def sample_lc_def)

definition sample_thresholds :: thresholds where
  "sample_thresholds = \<lparr>accept_threshold = Fin (9 / 10), nolock_threshold = Fin (1 / 20), reduction_factor = Fin (1 / 20)\<rparr>"

section \<open>Enumeration\<close>

text \<open>
  The locks of a hypothesis are contained in a lock combination exactly if the combination
  has each of them at least as often, and the order reported for them lists exactly these locks,
  each once, in the order of their first acquisition.
\<close>
theorem lock_order_spec:
  assumes "sorted_wrt (<) l"
  shows "(contains_locks (new_LockCombination occ held) l \<longleftrightarrow> set l \<subseteq> set held) \<and>
    (set l \<subseteq> set held \<longrightarrow> mset (lock_order (new_LockCombination occ held) l) = mset l \<and>
      subseq (lock_order (new_LockCombination occ held) l) held)"
proof -
  let ?lc = "new_LockCombination occ held"
  have held: "locks_held ?lc = held" by (simp add: new_LockCombination_def update_sorted_locks_def)
  have d: "distinct l" using assms by (simp add: strict_sorted_iff)
  have "mset (lock_order ?lc l) = mset l" if "set l \<subseteq> set held"
    using that d held by (simp add: set_eq_iff_mset_eq_distinct[symmetric] lock_order_set lock_order_distinct)
  moreover have "subseq (lock_order ?lc l) held"
    using subseq_order.trans[OF subseq_filter_left subseq_first_occs] by (simp add: lock_order_eq[OF d] held)
  ultimately show ?thesis using contains_locks_iff[OF lc_ok_new(1) assms] held by simp
qed

theorem lock_order_spec_witness:
  "lock_order (new_LockCombination 3 [5, 2, 5, 7]) [5, 7] = [5, 7] \<and>
   mset (lock_order (new_LockCombination 3 [5, 2, 5, 7]) [2, 5]) = mset [2, 5] \<and>
   contains_locks (new_LockCombination 3 [5, 2, 5, 7]) [2, 5]"
  using lock_order_spec[of "[2, 5]" 3 "[5, 2, 5, 7]"]
  by (simp add: lock_order_def new_LockCombination_def update_sorted_locks_def)

text \<open>
  C11: The enumeration ends without a failed assertion. The hypotheses are then exactly the sets of
  locks that some lock combination contains, up to the length limit; each is counted with the
  accesses of the combinations that contain it, and each of its lock orders with the accesses that
  took the locks in that order.
\<close>
theorem find_hypotheses_exact:
  assumes "fresh_Member m"
  shows "\<exists>m'. find_hypotheses max_len m = Some (Inr m') \<and>
    (\<forall>h. omap_lookup (hypotheses m') h \<noteq> None \<longleftrightarrow>
       sorted_wrt (<) h \<and> (\<exists>lc \<in> set (combinations m). set h \<subseteq> set (locks_held lc)) \<and>
       (0 < max_len \<longrightarrow> length h \<le> max_len)) \<and>
    (\<forall>h x. omap_lookup (hypotheses m') h = Some x \<longrightarrow>
       lh_occurrences x = occs (filter (\<lambda>lc. set h \<subseteq> set (locks_held lc)) (combinations m)) \<and>
       (\<forall>ord. (case omap_lookup (matches x) ord of None \<Rightarrow> 0 | Some n \<Rightarrow> n) =
          occs (filter (\<lambda>lc. set h \<subseteq> set (locks_held lc) \<and> lock_order lc h = ord) (combinations m))))"
proof -
  obtain m' where run: "find_hypotheses max_len m = Some (Inr m')" and inv: "found_inv max_len m m'"
    using find_hypotheses_run[OF assms] by blast
  note hyp = found_inv_hyp_inv[OF inv] and cs = found_inv_combinations[OF inv]
  have dom: "omap_lookup (hypotheses m') h \<noteq> None \<longleftrightarrow> h \<in> limited max_len (combinations m)" for h
    using inv by (auto simp: found_inv_def hyp_dom_def)
  have ok: "\<forall>lc \<in> set (combinations m). lc_ok lc" using assms by (simp add: fresh_Member_def list_all_iff)
  have "lh_occurrences x = occs (filter (\<lambda>lc. set h \<subseteq> set (locks_held lc)) (combinations m)) \<and>
     (\<forall>ord. (case omap_lookup (matches x) ord of None \<Rightarrow> 0 | Some n \<Rightarrow> n) =
        occs (filter (\<lambda>lc. set h \<subseteq> set (locks_held lc) \<and> lock_order lc h = ord) (combinations m)))"
    if x: "omap_lookup (hypotheses m') h = Some x" for h x
  proof -
    have "h \<in> hyp_dom m'" using x by (auto simp: hyp_dom_def)
    then have "x = eval_hypo (combinations m) h" "sorted_wrt (<) h"
      using hyp x cs by (auto simp: hyp_inv_def candidates_def)
    moreover have "filter (\<lambda>lc. contains_locks lc h \<and> P lc) (combinations m) =
        filter (\<lambda>lc. set h \<subseteq> set (locks_held lc) \<and> P lc) (combinations m)" for P
      by (rule filter_cong) (use contains_locks_iff[OF _ \<open>sorted_wrt (<) h\<close>] ok in auto)
    from this[of "\<lambda>_. True"] this have "matching (combinations m) h = filter (\<lambda>lc. set h \<subseteq> set (locks_held lc)) (combinations m)"
      "\<And>ord. with_order (combinations m) h ord =
        filter (\<lambda>lc. set h \<subseteq> set (locks_held lc) \<and> lock_order lc h = ord) (combinations m)"
      by (simp_all add: matching_def with_order_filter)
    ultimately show ?thesis by (simp add: eval_hypo_occurrences eval_hypo_matches)
  qed
  then show ?thesis using run dom by (intro exI[of _ m']) (simp add: limited_def candidates_def)
qed

theorem find_hypotheses_exact_witness:
  "\<exists>m'. find_hypotheses 2 (sample_member sample_combinations) = Some (Inr m') \<and>
    omap_lookup (hypotheses m') [1, 2] \<noteq> None \<and> omap_lookup (hypotheses m') [0, 1, 2] = None"
proof -
  obtain m' where m': "find_hypotheses 2 (sample_member sample_combinations) = Some (Inr m')"
    and ex: "\<forall>h. omap_lookup (hypotheses m') h \<noteq> None \<longleftrightarrow>
       sorted_wrt (<) h \<and> (\<exists>lc \<in> set (combinations (sample_member sample_combinations)). set h \<subseteq> set (locks_held lc)) \<and>
       ((0::nat) < 2 \<longrightarrow> length h \<le> 2)"
    using find_hypotheses_exact[OF sample_fresh, of 2] by blast
  have "\<exists>lc \<in> set (combinations (sample_member sample_combinations)). set [1, 2] \<subseteq> set (locks_held lc)"
    by (simp add: sample_member_def sample_combinations_def sample_lc_def new_LockCombination_def update_sorted_locks_def)
  then show ?thesis using m' ex[rule_format, of "[1, 2]"] ex[rule_format, of "[0, 1, 2]"] by auto
qed

text \<open>
  C21: In the graph that the enumeration builds, the children of a set of locks are exactly the
  hypotheses that extend it by one lock with the largest or with the smallest number; every
  hypothesis is reached from the root by such edges.
\<close>
theorem graph_exact:
  assumes "fresh_Member m" and "find_hypotheses max_len m = Some (Inr m')"
  shows "(\<forall>u v. v \<in> set (children m' u) \<longleftrightarrow>
      omap_lookup (hypotheses m') v \<noteq> None \<and> v \<noteq> [] \<and> (u = butlast v \<or> u = tl v)) \<and>
    (\<forall>h. omap_lookup (hypotheses m') h \<noteq> None \<longrightarrow> (\<lambda>u v. v \<in> set (children m' u))\<^sup>*\<^sup>* root_node h)"
proof -
  have inv: "found_inv max_len m m'" using find_hypotheses_run[OF assms(1), of max_len] assms(2) by auto
  have g: "v \<in> set (children m' u) \<longleftrightarrow>
      omap_lookup (hypotheses m') v \<noteq> None \<and> v \<noteq> [] \<and> (u = butlast v \<or> u = tl v)" for u v
    using found_inv_hyp_inv[OF inv] by (auto simp: hyp_inv_def graph_ok_def hyp_dom_def)
  have dom: "omap_lookup (hypotheses m') h \<noteq> None \<longleftrightarrow> h \<in> limited max_len (combinations m)" for h
    using inv by (auto simp: found_inv_def hyp_dom_def)
  have "(\<lambda>u v. v \<in> set (children m' u))\<^sup>*\<^sup>* root_node h" if "h \<in> limited max_len (combinations m)" for h
    using that
  proof (induction h rule: rev_induct)
    case (snoc x xs)
    have xs: "xs \<in> limited max_len (combinations m)"
      using snoc.prems candidates_take[of "xs @ [x]" _ "length xs"] by (auto simp: limited_def)
    have "xs @ [x] \<in> set (children m' xs)" using g[of "xs @ [x]" xs] dom[of "xs @ [x]"] snoc.prems by simp
    then show ?case using snoc.IH[OF xs] by (rule rtranclp.rtrancl_into_rtrancl[rotated])
  qed (simp add: root_node_def)
  then show ?thesis using g dom by blast
qed

theorem graph_exact_witness:
  "\<exists>m'. find_hypotheses 0 (sample_member sample_combinations) = Some (Inr m') \<and>
    [1, 2] \<in> set (children m' [2]) \<and> [0, 1, 2] \<notin> set (children m' [0, 2])"
proof -
  obtain m' where m': "find_hypotheses 0 (sample_member sample_combinations) = Some (Inr m')" "found_inv 0 (sample_member sample_combinations) m'"
    using find_hypotheses_run[OF sample_fresh] by blast
  have "[1, 2] \<in> candidates (combinations (sample_member sample_combinations))"
    by (simp add: candidates_def sample_member_def sample_combinations_def sample_lc_def new_LockCombination_def update_sorted_locks_def)
  then have "omap_lookup (hypotheses m') [1, 2] \<noteq> None"
    using m'(2) by (auto simp: found_inv_def limited_def hyp_dom_def)
  then show ?thesis using graph_exact[OF sample_fresh m'(1)] m'(1) by auto
qed

section \<open>Selection of the winner\<close>

lemma representative_root:
  assumes "hyp_inv m" and "[] \<in> hyp_dom m"
  shows "representative m [] = []"
proof -
  let ?ms = "matches (hypothesis_of m [])"
  obtain mx best where b: "best_order ?ms = (mx, best)" by (cases "best_order ?ms")
  have "best = []" if "(best, mx) \<in> set ?ms"
  proof -
    have "omap_lookup ?ms best = Some mx" using om.entries_lookup[OF matches_ok[OF assms]] that by blast
    then have "with_order (combinations m) [] best \<noteq> []"
      using assms by (auto simp: hyp_inv_def hypothesis_of_def eval_hypo_matches)
    then show ?thesis by (auto simp: with_order_filter lock_order_def filter_empty_conv)
  qed
  then show ?thesis using best_order_max[OF b] b by (auto simp: representative_def)
qed

text \<open>
  C36: For every strategy the search for the winner ends. If it finds a winner, this is the
  hypothesis that no lock is needed or the most frequent lock order of a hypothesis of the member
  whose relative support the strategy accepts: at least the acceptance threshold for
  \<^verbatim>\<open>topdown\<close>, at least the threshold or exactly 1 for \<^verbatim>\<open>bottomup\<close>, not below 1 for
  \<^verbatim>\<open>lockset\<close>. The default strategy \<^verbatim>\<open>sharpen\<close> has no bound on the support but on its
  loss: the winner is reached from no lock, whose support counts as 1, by steps to more locks that
  lose at most the reduction factor of the support (\<^const>\<open>worth_it\<close>) and steps to more support
  with as many locks; and it is sharp: no child of it in the graph is worth its loss. Every strategy
  but \<^verbatim>\<open>topdown\<close> finds a winner.
\<close>
theorem winner_accepted:
  assumes "fresh_Member m" and "combinations m \<noteq> []"
  shows "\<exists>m1 m2. find_hypotheses max_len m = Some (Inr m1) \<and>
    determine_winning_hypothesis th strat m1 = Some m2 \<and>
    (winner_found m2 \<longrightarrow> winning_hypothesis m2 = root_node \<or>
      (\<exists>h \<in> limited max_len (combinations m). acceptable th strat (rel_support m1 h) \<and>
        winning_hypothesis m2 = representative m1 h \<and>
        (\<forall>ord. order_count m1 h ord \<le> order_count m1 h (winning_hypothesis m2)))) \<and>
    (strat = SHARPEN \<longrightarrow> (\<exists>h s. sharpened (reduction_factor th) m1 h s \<and>
      winning_hypothesis m2 = representative m1 h \<and>
      (\<forall>v \<in> set (children m1 h). \<not> worth_it (reduction_factor th) s (rel_support m1 v)))) \<and>
    (strat \<noteq> TOPDOWN \<longrightarrow> winner_found m2) \<and> hypotheses m2 = hypotheses m1 \<and> graph m2 = graph m1"
proof -
  obtain m1 where run: "find_hypotheses max_len m = Some (Inr m1)" and inv: "found_inv max_len m m1"
    using find_hypotheses_run[OF assms(1)] by blast
  note hyp = found_inv_hyp_inv[OF inv] and root = root_found[OF inv assms(2)]
  have dom: "hyp_dom m1 = limited max_len (combinations m)" using inv by (simp only: found_inv_def)
  obtain cl found where w: "determine_winning_hypothesis th strat m1 = Some (searched m1 cl found)" "cl \<noteq> []"
      "strat \<noteq> TOPDOWN \<longrightarrow> found"
    and e: "\<forall>e \<in> set cl. e = ([], []) \<or>
      (\<exists>node \<in> hyp_dom m1. e = (node, representative m1 node) \<and> acceptable th strat (rel_support m1 node))"
    using determine_run[OF hyp root, of th strat] by (elim exE conjE)
  have "hd cl \<in> set cl" using w(2) by simp
  from bspec[OF e this] have "snd (hd cl) = [] \<or> (\<exists>h \<in> hyp_dom m1. acceptable th strat (rel_support m1 h) \<and>
      snd (hd cl) = representative m1 h)" by auto
  then have "winning_hypothesis (searched m1 cl found) = root_node \<or>
      (\<exists>h \<in> limited max_len (combinations m). acceptable th strat (rel_support m1 h) \<and>
        winning_hypothesis (searched m1 cl found) = representative m1 h \<and>
        (\<forall>ord. order_count m1 h ord \<le> order_count m1 h (winning_hypothesis (searched m1 cl found))))" if found
    using that representative_max[OF matches_ok[OF hyp]] unfolding dom[symmetric] root_node_def by auto
  moreover have "\<exists>h s. sharpened (reduction_factor th) m1 h s \<and>
      winning_hypothesis (searched m1 cl found) = representative m1 h \<and>
      (\<forall>v \<in> set (children m1 h). \<not> worth_it (reduction_factor th) s (rel_support m1 v))" if "strat = SHARPEN"
    using sharpen_winner[OF hyp root w(1)[unfolded that]] representative_root[OF hyp root] by metis
  ultimately show ?thesis using run w(1,3) by (intro exI[of _ m1] exI[of _ "searched m1 cl found"]) auto
qed

theorem winner_accepted_witness:
  "\<exists>m1 m2. find_hypotheses 0 (sample_member sample_combinations) = Some (Inr m1) \<and>
    determine_winning_hypothesis sample_thresholds SHARPEN m1 = Some m2 \<and> winner_found m2 \<and>
    (\<exists>h s. sharpened (reduction_factor sample_thresholds) m1 h s \<and> winning_hypothesis m2 = representative m1 h)"
proof -
  have "combinations (sample_member sample_combinations) \<noteq> []"
    by (simp add: sample_member_def sample_combinations_def)
  from winner_accepted[OF sample_fresh this, of 0 sample_thresholds SHARPEN] show ?thesis by auto
qed

text \<open>
  C4: With the strategy \<^verbatim>\<open>lockset\<close> and fewer than 2 to the 53 accesses, the winner is a largest
  hypothesis among those whose locks were held, and taken in one and the same order, at every access.
\<close>
theorem lockset_winner_largest:
  assumes "fresh_Member m" and "combinations m \<noteq> []" and "counts_ok m"
  shows "\<exists>m1 m2 h. find_hypotheses max_len m = Some (Inr m1) \<and>
    determine_winning_hypothesis th LOCKSET m1 = Some m2 \<and> winner_found m2 \<and>
    h \<in> limited max_len (combinations m) \<and> consistent (combinations m) h \<and>
    winning_hypothesis m2 = representative m1 h \<and>
    (\<forall>h' \<in> limited max_len (combinations m). consistent (combinations m) h' \<longrightarrow> length h' \<le> length h)"
proof -
  obtain m1 where run: "find_hypotheses max_len m = Some (Inr m1)" and inv: "found_inv max_len m m1"
    using find_hypotheses_run[OF assms(1)] by blast
  note hyp = found_inv_hyp_inv[OF inv] and cs = found_inv_combinations[OF inv] and root = root_found[OF inv assms(2)]
  have dom: "hyp_dom m1 = limited max_len (combinations m)" using inv by (simp only: found_inv_def)
  have ok: "\<forall>lc \<in> set (combinations m1). lc_ok lc" using assms(1) cs by (simp add: fresh_Member_def list_all_iff)
  have cnt: "counts_ok m1" using assms(3) cs found_inv_occurrences[OF inv] by (simp add: counts_ok_def)
  have full: "full m1 h \<longleftrightarrow> consistent (combinations m) h" if "h \<in> hyp_dom m1" for h
    using full_consistent[OF cnt hyp that ok] cs by simp
  have closed: "take i h \<in> hyp_dom m1" if "h \<in> hyp_dom m1" for h i
    using that candidates_take unfolding dom limited_def by auto
  have mono: "full m1 (take i h)" if "h \<in> hyp_dom m1" "full m1 h" for h i
  proof -
    have "distinct h" using that(1) unfolding dom by (auto simp: limited_def candidates_def strict_sorted_iff)
    then show ?thesis using full[OF that(1)] full[OF closed[OF that(1), of i]] consistent_take that(2) by blast
  qed
  obtain cl found where w: "determine_winning_hypothesis th LOCKSET m1 = Some (searched m1 cl found)" "cl \<noteq> []" "found"
    and e: "\<forall>e \<in> set cl. e = ([], []) \<or>
      (\<exists>node \<in> hyp_dom m1. e = (node, representative m1 node) \<and> acceptable th LOCKSET (rel_support m1 node))"
    using determine_run[OF hyp root, of th LOCKSET] by (elim exE conjE) blast
  have "hd cl \<in> set cl" using w(2) by simp
  from bspec[OF e this] obtain h where h: "hd cl = (h, representative m1 h)" "h \<in> hyp_dom m1" "consistent (combinations m) h"
  proof
    assume "hd cl = ([], [])"
    moreover have "consistent (combinations m) []" by (auto simp: consistent_def lock_order_def)
    ultimately show ?thesis using that[of "[]"] representative_root[OF hyp root] root by simp
  next
    assume "\<exists>node \<in> hyp_dom m1. hd cl = (node, representative m1 node) \<and> acceptable th LOCKSET (rel_support m1 node)"
    then obtain node where "node \<in> hyp_dom m1" "hd cl = (node, representative m1 node)" "full m1 node"
      by (auto simp: acceptable_def full_def)
    then show ?thesis using that[of node] full by blast
  qed
  have "length h' \<le> length h" if "h' \<in> hyp_dom m1" "consistent (combinations m) h'" for h'
    using lockset_largest[OF hyp closed mono w(1) that(1)] full[OF that(1)] that(2) h(1) by simp
  then show ?thesis using run w(1,3) h dom by (intro exI[of _ m1] exI[of _ "searched m1 cl found"] exI[of _ h]) auto
qed

theorem lockset_winner_largest_witness:
  "\<exists>m1 m2 h. find_hypotheses 0 (sample_member sample_combinations) = Some (Inr m1) \<and>
    determine_winning_hypothesis sample_thresholds LOCKSET m1 = Some m2 \<and>
    winning_hypothesis m2 = representative m1 h \<and> 2 \<le> length h"
proof -
  let ?m = "sample_member sample_combinations"
  have simps: "combinations ?m = sample_combinations" by (simp add: sample_member_def)
  have c: "counts_ok ?m"
    by (simp add: counts_ok_def sample_member_def sample_combinations_def sample_lc_def new_LockCombination_def
        update_sorted_locks_def occ_total_def)
  have "[0, 1] \<in> limited 0 sample_combinations"
    by (simp add: limited_def candidates_def sample_combinations_def sample_lc_def new_LockCombination_def update_sorted_locks_def)
  moreover have "consistent sample_combinations [0, 1]"
    by (auto simp: consistent_def lock_order_def sample_combinations_def sample_lc_def new_LockCombination_def
        update_sorted_locks_def)
  ultimately show ?thesis
    using lockset_winner_largest[OF sample_fresh _ c, of 0 sample_thresholds]
    by (fastforce simp: simps sample_combinations_def[THEN arg_cong[of _ _ "\<lambda>x. x = []"]])
qed

section \<open>Loading\<close>

definition sample_lines :: "string list" where
  "sample_lines = [''type'' @ [CHR 0x09] @ ''members'',
     ''inode'' @ [CHR 0x09] @ ''r:i_mode,w:i_uid'' @ [CHR 0x09] @ ''a,b,a'' @ [CHR 0x09] @ ''10'',
     ''inode'' @ [CHR 0x09] @ ''r:i_mode'' @ [CHR 0x09] @ ''b,a'' @ [CHR 0x09] @ ''7'',
     ''inode'' @ [CHR 0x09] @ ''r:i_mode'' @ [CHR 0x09] @ [CHR 0x09] @ ''1'']"

text \<open>
  C37: A table that is read without an error gives members whose counters are the sums over their
  lock combinations, each combination listed once, none of the members without one, and the lock
  numbers index a list of distinct names.
\<close>
theorem load_counts:
  assumes "load_input ls = Some (Inr st)"
  shows "distinct (locks st) \<and> length (members st) < 65536 \<and> (\<forall>m \<in> set (members st). loaded_Member (locks st) m)"
proof -
  obtain st1 where "load_inv st1" "length (members st1) \<noteq> 65536"
    "st = st1\<lparr>members := map (copied st1) [0..<length (members st1)], member_to_id := [], lock_to_id := [],
       members_combinations := []\<rparr>"
    using assms by (rule loaded_cases)
  then show ?thesis using copied_loaded[of st1] distinct_names[of st1] by (auto simp: load_inv_def)
qed

lemma sample_load:
  "\<exists>st. load_lines 0 sample_lines empty_load = Inr st \<and> length (members st) = 2"
proof -
  have "(case load_lines 0 sample_lines empty_load of Inl e \<Rightarrow> 0 | Inr st \<Rightarrow> length (members st)) = 2"
    by code_simp
  then show ?thesis by (auto split: sum.splits)
qed

theorem load_counts_witness:
  "\<exists>st. load_input sample_lines = Some (Inr st) \<and> length (members st) = 2 \<and>
     (\<forall>m \<in> set (members st). loaded_Member (locks st) m)"
proof -
  obtain st1 where st1: "load_lines 0 sample_lines empty_load = Inr st1" "length (members st1) = 2"
    using sample_load by blast
  let ?st = "st1\<lparr>members := map (copied st1) [0..<length (members st1)],
       member_to_id := [], lock_to_id := [], members_combinations := []\<rparr>"
  have "load_input sample_lines = Some (Inr ?st)" using load_lines_cases(3)[OF st1(1)] st1(2) by simp
  then show ?thesis using load_counts[of sample_lines ?st] st1(2) by simp
qed

text \<open>
  C38: The loop that copies the lock combinations to the members counts in 16 bits. After a table is
  read, loading returns unless there are exactly 65536 members, the largest number that the check
  of the member numbers lets pass; with 65536 members it does not return.
\<close>
theorem load_returns_iff:
  assumes "load_lines 0 ls empty_load = Inr st"
  shows "(load_input ls = None \<longleftrightarrow> length (members st) = 65536) \<and> length (members st) \<le> 65536"
  using load_lines_cases[OF assms] by (cases "length (members st) = 65536") (auto simp: load_inv_def)

theorem load_returns_iff_witness: "load_input sample_lines \<noteq> None"
  using load_returns_iff[of sample_lines] sample_load by auto

section \<open>The report\<close>

text \<open>
  The report of a member marks at most one lock order as the winner. It marks exactly one if a
  winner was found and the winning order is an order of a hypothesis that passes the cutoff; the
  marked order is the winning one.
\<close>
theorem report_one_winner:
  assumes "sorters_ok srt" and "printable m"
  shows "\<exists>rows. hypothesis_rows srt cutoff mode m False
        (sort_hypotheses srt occurrences_greater (map2vec (hypotheses m) [])) = Inr rows \<and>
     (\<forall>r \<in> set (winners rows). row_order r = Some (winning_hypothesis m)) \<and>
     length (winners rows) = (if winner_found m \<and>
       (\<exists>(k, h) \<in> set (hypotheses m). shown cutoff m h \<and> omap_lookup (matches h) (winning_hypothesis m) \<noteq> None)
       then 1 else 0)"
proof -
  let ?hs = "sort_hypotheses srt occurrences_greater (map2vec (hypotheses m) [])"
  have hs: "set ?hs = snd ` set (hypotheses m)"
    using assms(1) by (metis sorters_ok_def set_mset_mset map2vec_def append_Nil set_map)
  then have "\<forall>h \<in> set ?hs. matches h \<noteq> []" using assms(2) by (simp add: printable_def)
  from hypothesis_rows_run[OF assms(1) this, of cutoff mode m False]
  obtain rows f' where rows: "hypothesis_rows srt cutoff mode m False ?hs = Inr rows" "marks_ok m False rows f'"
    "{ord. Some ord \<in> row_order ` set rows} = (\<Union>h \<in> {h \<in> set ?hs. shown cutoff m h}. fst ` set (matches h))"
    by (elim exE conjE)
  have "(\<exists>r \<in> set rows. row_order r = Some ord) \<longleftrightarrow> ord \<in> {ord. Some ord \<in> row_order ` set rows}" for ord
    by (auto simp: image_iff eq_commute)
  also have "\<dots> ord \<longleftrightarrow> (\<exists>(k, h) \<in> set (hypotheses m). shown cutoff m h \<and> omap_lookup (matches h) ord \<noteq> None)" for ord
    unfolding rows(3) hs by (auto simp: map_of_eq_None_iff) force+
  finally show ?thesis using rows(1,2) by (auto simp: marks_ok_def Let_def)
qed

text \<open>
  C17: The hypothesizer always completes: for a table that loads, any options and any sorting
  routines that permute their input, it returns its report; no assertion fails, no empty map is
  dereferenced and no loop runs forever.
\<close>
theorem hypothesizer_completes:
  assumes "sorters_ok srt" and "load_input ls = Some (Inr st)"
  shows "\<exists>out. hypothesizer_main srt opts ls = Some (Inr out)"
proof -
  obtain st1 where st1: "load_inv st1" "st = st1\<lparr>members := map (copied st1) [0..<length (members st1)],
       member_to_id := [], lock_to_id := [], members_combinations := []\<rparr>"
    using assms(2) by (rule loaded_cases)
  then have "\<forall>m \<in> set (members st). loaded_Member (locks st) m" using copied_loaded[OF st1(1)] by auto
  then show ?thesis by (rule hypothesizer_returns_loaded[OF assms])
qed

text \<open>A sorting routine to evaluate with: insertion before the first element that is not smaller.\<close>

definition insertion_sort_by :: "('a \<Rightarrow> 'a \<Rightarrow> bool) \<Rightarrow> 'a list \<Rightarrow> 'a list" where
  "insertion_sort_by lt xs = foldr (\<lambda>x ys. takeWhile (\<lambda>y. lt y x) ys @ x # dropWhile (\<lambda>y. lt y x) ys) xs []"

lemma mset_insertion_sort_by: "mset (insertion_sort_by lt xs) = mset xs"
proof (induction xs)
  case (Cons x xs)
  have "mset (takeWhile P ys @ x # dropWhile P ys) = add_mset x (mset ys)" for P ys
    by (metis mset_append mset.simps(2) takeWhile_dropWhile_id union_mset_add_mset_right)
  then show ?case using Cons by (simp add: insertion_sort_by_def)
qed (simp add: insertion_sort_by_def)

definition sample_sorters :: sorters where
  "sample_sorters = \<lparr>sort_hypotheses = insertion_sort_by, sort_matches = insertion_sort_by, sort_members = insertion_sort_by\<rparr>"

lemma sample_sorters_ok: "sorters_ok sample_sorters"
  by (simp add: sorters_ok_def sample_sorters_def mset_insertion_sort_by)

definition sample_options :: hypo_options where
  "sample_options = \<lparr>cutoff_threshold = Fin (1 / 10), reportmode = CSV, bugsql = False, confidence_threshold = Fin 50,
     accepted_datatypes = [], accepted_members = [], selection_strategy = SHARPEN,
     strategy_thresholds = sample_thresholds, max_hypo_len = 0, sortby = MEMBER\<rparr>"

theorem hypothesizer_completes_witness:
  "\<exists>out. hypothesizer_main sample_sorters sample_options sample_lines = Some (Inr out)"
proof -
  obtain st1 where st1: "load_lines 0 sample_lines empty_load = Inr st1" "length (members st1) = 2"
    using sample_load by blast
  then show ?thesis
    using hypothesizer_completes[OF sample_sorters_ok, of sample_lines _ sample_options] load_lines_cases(3)[OF st1(1)] by simp
qed

definition sample_row :: LockingHypothesisMatches where
  "sample_row = \<lparr>lh_occurrences = 12, sorted_hypothesis = [1, 2], matches = [([1, 2], 5), ([2, 1], 7)]\<rparr>"

definition sample_winner :: Member where
  "sample_winner = (sample_member [sample_lc 12 [2, 1]])\<lparr>hypotheses := [([1, 2], sample_row)],
     winner_found := True, winning_hypothesis := [2, 1]\<rparr>"

theorem report_one_winner_witness:
  "\<exists>rows. hypothesis_rows sample_sorters (Fin (1 / 10)) CSV sample_winner False
      (sort_hypotheses sample_sorters occurrences_greater (map2vec (hypotheses sample_winner) [])) = Inr rows \<and>
    length (winners rows) = 1"
proof -
  have "printable sample_winner" by (simp add: printable_def sample_winner_def sample_row_def)
  moreover have "shown (Fin (1 / 10)) sample_winner sample_row" by code_simp
  then have "\<exists>(k, h) \<in> set (hypotheses sample_winner). shown (Fin (1 / 10)) sample_winner h \<and>
      omap_lookup (matches h) (winning_hypothesis sample_winner) \<noteq> None"
    by (simp add: sample_winner_def) (simp add: sample_row_def)
  moreover have "winner_found sample_winner" by (simp add: sample_winner_def)
  ultimately show ?thesis
    using report_one_winner[OF sample_sorters_ok, of sample_winner "Fin (1 / 10)" CSV] by auto
qed

end
