(* ===== verification/Runs.thy ===== *)
theory Runs
  imports C_Numbers
begin

text \<open>
  Calls that may fail or not return, as the models of the debug information library and of the
  coverage tools use them: sequencing, loops over lists, and monotonicity, so that loops can be
  defined as partial functions; and \<^verbatim>\<open>std::set\<close> as the list of its elements in order.
\<close>

section \<open>Runs\<close>

text \<open>\<open>None\<close>: the call does not return (or not within the fuel); \<open>Inl\<close>: it fails.\<close>

type_synonym 'a run = "'a res option"
type_synonym u8 = "8 word"

fun bindR :: "'a run \<Rightarrow> ('a \<Rightarrow> 'b run) \<Rightarrow> 'b run" where
  "bindR None f = None"
| "bindR (Some (Inl e)) f = Some (Inl e)"
| "bindR (Some (Inr x)) f = f x"

abbreviation retR :: "'a \<Rightarrow> 'a run" where
  "retR x \<equiv> Some (Inr x)"

abbreviation ub :: "string \<Rightarrow> 'a res" where
  "ub s \<equiv> Inl (UndefinedBehaviour s)"

lemma bindR_retR_iff [res_simps]:
  "bindR m f = retR y \<longleftrightarrow> (\<exists>x. m = retR x \<and> f x = retR y)"
  by (cases "(m, f)" rule: bindR.cases) auto

lemma bindR_retR_E:
  assumes "bindR m f = retR y"
  obtains x where "m = retR x" and "f x = retR y"
  using assms by (auto simp: res_simps)

lemma bindR_assoc: "bindR (bindR m f) g = bindR m (\<lambda>x. bindR (f x) g)"
  by (cases "(m, f)" rule: bindR.cases) auto

definition returns :: "'a run \<Rightarrow> bool" where
  "returns m \<longleftrightarrow> m \<noteq> None"

lemma returns_Some [simp]: "returns (Some x)" and returns_None [simp]: "\<not> returns None"
  by (simp_all add: returns_def)

lemma bindR_returns [intro]:
  "returns m \<Longrightarrow> (\<And>x. m = retR x \<Longrightarrow> returns (f x)) \<Longrightarrow> returns (bindR m f)"
  by (cases "(m, f)" rule: bindR.cases) auto

primrec foldR :: "('a \<Rightarrow> 's \<Rightarrow> 's run) \<Rightarrow> 'a list \<Rightarrow> 's \<Rightarrow> 's run" where
  "foldR f [] s = retR s"
| "foldR f (x # xs) s = bindR (f x s) (foldR f xs)"

lemma foldR_append: "foldR f (xs @ ys) s = bindR (foldR f xs s) (foldR f ys)"
proof (induction xs arbitrary: s)
  case (Cons x xs)
  have "foldR f (xs @ ys) = (\<lambda>t. bindR (foldR f xs t) (foldR f ys))" by (rule ext) (rule Cons)
  then show ?case by (simp add: bindR_assoc)
qed simp

lemma foldR_returns: "(\<And>x s. x \<in> set xs \<Longrightarrow> returns (f x s)) \<Longrightarrow> returns (foldR f xs s)"
  by (induction xs arbitrary: s) auto

lemma foldR_invariant:
  assumes "foldR f xs s = retR s'" and "I s"
    and "\<And>x s s'. x \<in> set xs \<Longrightarrow> I s \<Longrightarrow> f x s = retR s' \<Longrightarrow> I s'"
  shows "I s'"
  using assms
proof (induction xs arbitrary: s)
  case (Cons x xs)
  from Cons.prems(1) obtain t where t: "f x s = retR t" "foldR f xs t = retR s'"
    by (auto simp: res_simps)
  have "I t" using Cons.prems(2,3) t(1) by auto
  then show ?case using Cons.IH[OF t(2)] Cons.prems(3) by auto
qed simp

lemma bindR_as_bind: "bindR m f = Option.bind m (\<lambda>r. case r of Inl e \<Rightarrow> Some (Inl e) | Inr x \<Rightarrow> f x)"
  by (cases "(m, f)" rule: bindR.cases) simp_all

lemma bindR_mono [partial_function_mono]:
  assumes "mono_option B" and "\<And>y. mono_option (\<lambda>f. C y f)"
  shows "mono_option (\<lambda>f. bindR (B f) (\<lambda>y. C y f))"
  unfolding bindR_as_bind
proof (rule bind_mono[OF assms(1)])
  fix r :: "'c res"
  show "mono_option (\<lambda>f. case r of Inl e \<Rightarrow> Some (Inl e) | Inr x \<Rightarrow> C x f)"
    using assms(2) by (cases r) (simp_all add: option.const_mono)
qed

lemma bindR_Inl_iff: "bindR m f = Some (Inl e) \<longleftrightarrow> m = Some (Inl e) \<or> (\<exists>x. m = retR x \<and> f x = Some (Inl e))"
  by (cases "(m, f)" rule: bindR.cases) auto

text \<open>A step that cannot run forever.\<close>

abbreviation liftR :: "'a res \<Rightarrow> 'a run" where
  "liftR r \<equiv> Some r"

section \<open>Ordered sets\<close>

fun set_insert :: "'a::linorder \<Rightarrow> 'a list \<Rightarrow> 'a list" where
  \<comment> \<open>\<open>std::set::insert\<close>; the list is the order of iteration\<close>
  "set_insert x [] = [x]"
| "set_insert x (y # ys) = (if x < y then x # y # ys else if x = y then y # ys else y # set_insert x ys)"

lemma set_set_insert [simp]: "set (set_insert x s) = insert x (set s)"
  by (induction s) auto

lemma sorted_set_insert: "sorted_wrt (<) s \<Longrightarrow> sorted_wrt (<) (set_insert x s)"
  by (induction s) auto

lemma fold_set_insert:
  "sorted_wrt (<) s \<Longrightarrow> sorted_wrt (<) (fold set_insert xs s) \<and> set (fold set_insert xs s) = set s \<union> set xs"
  by (induction xs arbitrary: s) (auto simp: sorted_set_insert)

end
