(* ===== verification/Dwarves_Types.thy ===== *)
theory Dwarves_Types
  imports Runs
begin

text \<open>
  The debug information of a compilation unit as \<^verbatim>\<open>dwarves.h\<close> and \<^verbatim>\<open>dwarves_api.h\<close> declare
  it: a tag is a common head (DWARF tag number, type id) followed by the fields of the structure
  the object was allocated as. The accessors \<^verbatim>\<open>tag__type\<close>, \<^verbatim>\<open>tag__class_member\<close> and so on are
  pointer casts; here they return an error when the object is another structure, and so stand for a
  read past the end of the object. The theory also has the string functions of C with their
  buffer sizes.
\<close>

section \<open>Strings in buffers\<close>

definition snprintf_buf :: "nat \<Rightarrow> string \<Rightarrow> string" where
  \<comment> \<open>the string left in a buffer of \<open>len\<close> bytes by \<open>snprintf\<close>: the last byte is the terminator\<close>
  "snprintf_buf len s = take (len - 1) s"

definition strncpy_buf :: "nat \<Rightarrow> string \<Rightarrow> string res" where
  \<comment> \<open>\<open>strncpy\<close> writes no terminator when the source has \<open>len\<close> characters or more\<close>
  "strncpy_buf len s = (if length s < len then Inr s else ub ''unterminated buffer'')"

definition snprintf_at :: "string \<Rightarrow> nat \<Rightarrow> nat \<Rightarrow> string \<Rightarrow> string res" where
  \<comment> \<open>\<open>snprintf(bf + l, len - l, ...)\<close> behind a first string of \<open>l\<close> characters\<close>
  "snprintf_at bf l len s =
     (if l < len then Inr (bf @ snprintf_buf (len - l) s) else ub ''snprintf behind the buffer'')"

definition c_string :: "string option \<Rightarrow> string res" where
  \<comment> \<open>a pointer passed for \<open>%s\<close>\<close>
  "c_string p = (case p of None \<Rightarrow> ub ''null pointer printed'' | Some s \<Rightarrow> Inr s)"

definition dec_u16 :: "u16 \<Rightarrow> string" where
  "dec_u16 w = dec_of_nat (unat w)"

definition dec_u :: "u32 \<Rightarrow> string" where
  "dec_u w = dec_of_nat (unat w)"

definition dec_d :: "u32 \<Rightarrow> string" where
  \<comment> \<open>a \<open>uint32_t\<close> printed with \<open>%d\<close>\<close>
  "dec_d w = dec_of_int (sint w)"

section \<open>DWARF tags\<close>

text \<open>The numbers of the DWARF standard (\<^verbatim>\<open>dwarf.h\<close>).\<close>

abbreviation DW_TAG_array_type :: u16 where "DW_TAG_array_type \<equiv> 1"
abbreviation DW_TAG_class_type :: u16 where "DW_TAG_class_type \<equiv> 2"
abbreviation DW_TAG_enumeration_type :: u16 where "DW_TAG_enumeration_type \<equiv> 4"
abbreviation DW_TAG_lexical_block :: u16 where "DW_TAG_lexical_block \<equiv> 11"
abbreviation DW_TAG_member :: u16 where "DW_TAG_member \<equiv> 13"
abbreviation DW_TAG_pointer_type :: u16 where "DW_TAG_pointer_type \<equiv> 15"
abbreviation DW_TAG_reference_type :: u16 where "DW_TAG_reference_type \<equiv> 16"
abbreviation DW_TAG_structure_type :: u16 where "DW_TAG_structure_type \<equiv> 19"
abbreviation DW_TAG_subroutine_type :: u16 where "DW_TAG_subroutine_type \<equiv> 21"
abbreviation DW_TAG_typedef :: u16 where "DW_TAG_typedef \<equiv> 22"
abbreviation DW_TAG_union_type :: u16 where "DW_TAG_union_type \<equiv> 23"
abbreviation DW_TAG_inheritance :: u16 where "DW_TAG_inheritance \<equiv> 28"
abbreviation DW_TAG_inlined_subroutine :: u16 where "DW_TAG_inlined_subroutine \<equiv> 29"
abbreviation DW_TAG_ptr_to_member_type :: u16 where "DW_TAG_ptr_to_member_type \<equiv> 31"
abbreviation DW_TAG_base_type :: u16 where "DW_TAG_base_type \<equiv> 36"
abbreviation DW_TAG_const_type :: u16 where "DW_TAG_const_type \<equiv> 38"
abbreviation DW_TAG_subprogram :: u16 where "DW_TAG_subprogram \<equiv> 46"
abbreviation DW_TAG_variable :: u16 where "DW_TAG_variable \<equiv> 52"
abbreviation DW_TAG_volatile_type :: u16 where "DW_TAG_volatile_type \<equiv> 53"
abbreviation DW_TAG_interface_type :: u16 where "DW_TAG_interface_type \<equiv> 56"
abbreviation DW_TAG_namespace :: u16 where "DW_TAG_namespace \<equiv> 57"
abbreviation DW_TAG_rvalue_reference_type :: u16 where "DW_TAG_rvalue_reference_type \<equiv> 66"
abbreviation DW_TAG_MIPS_loop :: u16 where "DW_TAG_MIPS_loop \<equiv> 16513"
abbreviation DW_TAG_GNU_formal_parameter_pack :: u16 where "DW_TAG_GNU_formal_parameter_pack \<equiv> 16648"
abbreviation DW_VIRTUALITY_virtual :: u8 where "DW_VIRTUALITY_virtual \<equiv> 1"
abbreviation DW_LANG_C_plus_plus :: u16 where "DW_LANG_C_plus_plus \<equiv> 4"

definition dwarf_tag_names :: "(nat \<times> string) list" where
  "dwarf_tag_names =
  [(1, ''array_type''), (2, ''class_type''), (3, ''entry_point''),
   (4, ''enumeration_type''), (5, ''formal_parameter''), (8, ''imported_declaration''),
   (10, ''label''), (11, ''lexical_block''), (13, ''member''),
   (15, ''pointer_type''), (16, ''reference_type''), (17, ''compile_unit''),
   (18, ''string_type''), (19, ''structure_type''), (21, ''subroutine_type''),
   (22, ''typedef''), (23, ''union_type''), (24, ''unspecified_parameters''),
   (25, ''variant''), (26, ''common_block''), (27, ''common_inclusion''),
   (28, ''inheritance''), (29, ''inlined_subroutine''), (30, ''module''),
   (31, ''ptr_to_member_type''), (32, ''set_type''), (33, ''subrange_type''),
   (34, ''with_stmt''), (35, ''access_declaration''), (36, ''base_type''),
   (37, ''catch_block''), (38, ''const_type''), (39, ''constant''),
   (40, ''enumerator''), (41, ''file_type''), (42, ''friend''),
   (43, ''namelist''), (44, ''namelist_item''), (45, ''packed_type''),
   (46, ''subprogram''), (47, ''template_type_parameter''), (48, ''template_value_parameter''),
   (49, ''thrown_type''), (50, ''try_block''), (51, ''variant_part''),
   (52, ''variable''), (53, ''volatile_type''), (54, ''dwarf_procedure''),
   (55, ''restrict_type''), (56, ''interface_type''), (57, ''namespace''),
   (58, ''imported_module''), (59, ''unspecified_type''), (60, ''partial_unit''),
   (61, ''imported_unit''), (63, ''condition''), (64, ''shared_type''),
   (65, ''type_unit''), (66, ''rvalue_reference_type'')]"

definition dwarf_gnu_tag_names :: "(nat \<times> string) list" where
  "dwarf_gnu_tag_names =
  [(16513 - 16513, ''MIPS_loop''), (16641 - 16513, ''format_label''),
   (16642 - 16513, ''function_template''), (16643 - 16513, ''class_template''),
   (16644 - 16513, ''BINCL''), (16645 - 16513, ''EINCL''),
   (16646 - 16513, ''template_template_param''), (16647 - 16513, ''template_parameter_pack''),
   (16648 - 16513, ''formal_parameter_pack'')]"

definition dwarf_tag_name :: "u16 \<Rightarrow> string option" where
  \<comment> \<open>a number without an initialiser in the table yields the null pointer\<close>
  "dwarf_tag_name tag =
     (if DW_TAG_array_type \<le> tag \<and> tag \<le> DW_TAG_rvalue_reference_type
      then map_of dwarf_tag_names (unat tag)
      else if DW_TAG_MIPS_loop \<le> tag \<and> tag \<le> DW_TAG_GNU_formal_parameter_pack
      then map_of dwarf_gnu_tag_names (unat (tag - DW_TAG_MIPS_loop))
      else Some ''INVALID'')"

section \<open>Tags\<close>

type_synonym strings_t = u32

record base_type =
  bt_name :: strings_t
  bt_bit_size :: u16
  bt_name_has_encoding :: bool
  bt_is_signed :: bool
  bt_is_bool :: bool
  bt_is_varargs :: bool
  bt_float_type :: nat

record array_type =
  at_nr_entries :: "u32 list"
  at_dimensions :: u8
  at_is_vector :: bool

record parameter =
  pa_type :: u16
  pa_name :: strings_t

record ftype =
  ft_parms :: "parameter list"
  ft_nr_parms :: u16
  ft_unspec_parms :: bool

record class_member =
  cm_name :: strings_t
  cm_bit_offset :: u32
  cm_bit_size :: u32
  cm_byte_offset :: u32
  cm_byte_size :: u64
  cm_bitfield_offset :: u8
  cm_bitfield_size :: u8
  cm_bit_hole :: u8
  cm_bitfield_end :: bool
  cm_is_static :: bool
  cm_virtuality :: u8
  cm_hole :: u16

record namespace =
  ns_name :: strings_t
  ns_nr_tags :: u16
  ns_shared_tags :: bool
  ns_sname :: "string option"

record type_fields =
  ty_namespace :: namespace
  ty_size :: u32
  ty_nr_static_members :: u16
  ty_nr_members :: u16
  ty_declaration :: bool

record class_fields =
  cl_nr_vtable_entries :: u16
  cl_nr_holes :: u8
  cl_nr_bit_holes :: u8
  cl_padding :: u16
  cl_bit_padding :: u8

datatype vlocation =
    LOCATION_UNKNOWN
  | LOCATION_LOCAL
  | LOCATION_GLOBAL
  | LOCATION_REGISTER
  | LOCATION_OPTIMIZED

record variable =
  va_addr :: u64
  va_name :: strings_t
  va_external :: bool
  va_declaration :: bool
  va_location :: vlocation

record lexblock =
  lb_addr :: u64
  lb_size :: u32
  lb_nr_inline_expansions :: u16
  lb_nr_labels :: u16
  lb_nr_variables :: u16
  lb_nr_lexblocks :: u16
  lb_size_inline_expansions :: u32

record function_fields =
  fn_name :: strings_t
  fn_linkage_name :: strings_t
  fn_cu_total_size_inline_expansions :: u32
  fn_cu_total_nr_inline_expansions :: u16

text \<open>
  A tag carries its address, its \<^verbatim>\<open>type\<close> and \<^verbatim>\<open>tag\<close> fields, and the structure behind the
  head. A list of tags that hangs off a structure (the members of a type, the tags of a block) is
  part of that structure: list nodes are embedded, so a tag is in one such list only.
\<close>

datatype tag = Tag (tag_addr: nat) (tag_type: u16) (tag_tag: u16) (tag_body: body)
and body =
    Plain_Body
  | Base_Body base_type
  | Array_Body array_type
  | Ptr_To_Member_Body u16
  | Ftype_Body ftype
  | Type_Body type_fields "tag list"
  | Class_Body type_fields class_fields "tag list"
  | Namespace_Body namespace "tag list"
  | Member_Body class_member
  | Enumerator_Body strings_t u32
  | Variable_Body variable
  | Label_Body u64 strings_t
  | Inline_Body u64 u64
  | Lexblock_Body lexblock "tag list"
  | Function_Body ftype lexblock "tag list" function_fields

definition tag__is_enumeration :: "tag \<Rightarrow> bool" where
  "tag__is_enumeration t \<longleftrightarrow> tag_tag t = DW_TAG_enumeration_type"

definition tag__is_namespace :: "tag \<Rightarrow> bool" where
  "tag__is_namespace t \<longleftrightarrow> tag_tag t = DW_TAG_namespace"

definition tag__is_struct :: "tag \<Rightarrow> bool" where
  "tag__is_struct t \<longleftrightarrow> tag_tag t = DW_TAG_structure_type \<or>
     tag_tag t = DW_TAG_interface_type \<or> tag_tag t = DW_TAG_class_type"

definition tag__is_typedef :: "tag \<Rightarrow> bool" where
  "tag__is_typedef t \<longleftrightarrow> tag_tag t = DW_TAG_typedef"

definition tag__is_union :: "tag \<Rightarrow> bool" where
  "tag__is_union t \<longleftrightarrow> tag_tag t = DW_TAG_union_type"

definition tag__is_function :: "tag \<Rightarrow> bool" where
  "tag__is_function t \<longleftrightarrow> tag_tag t = DW_TAG_subprogram"

definition tag__is_variable :: "tag \<Rightarrow> bool" where
  "tag__is_variable t \<longleftrightarrow> tag_tag t = DW_TAG_variable"

definition tag__has_namespace :: "tag \<Rightarrow> bool" where
  "tag__has_namespace t \<longleftrightarrow>
     tag__is_struct t \<or> tag__is_union t \<or> tag__is_namespace t \<or> tag__is_enumeration t"

definition tag__is_type :: "tag \<Rightarrow> bool" where
  "tag__is_type t \<longleftrightarrow>
     tag__is_union t \<or> tag__is_struct t \<or> tag__is_typedef t \<or> tag__is_enumeration t"

definition tag__is_tag_type :: "tag \<Rightarrow> bool" where
  "tag__is_tag_type t \<longleftrightarrow> tag__is_type t \<or> tag_tag t = DW_TAG_array_type \<or>
     tag_tag t = DW_TAG_base_type \<or> tag_tag t = DW_TAG_const_type \<or>
     tag_tag t = DW_TAG_pointer_type \<or> tag_tag t = DW_TAG_ptr_to_member_type \<or>
     tag_tag t = DW_TAG_reference_type \<or> tag_tag t = DW_TAG_subroutine_type \<or>
     tag_tag t = DW_TAG_volatile_type"

definition tag__type :: "tag \<Rightarrow> (type_fields \<times> tag list) res" where
  \<comment> \<open>a \<open>struct class\<close> begins with its \<open>struct type\<close>\<close>
  "tag__type t = (case tag_body t of
       Type_Body ty ts \<Rightarrow> Inr (ty, ts)
     | Class_Body ty cl ts \<Rightarrow> Inr (ty, ts)
     | _ \<Rightarrow> ub ''tag__type'')"

definition tag__class_member :: "tag \<Rightarrow> class_member res" where
  "tag__class_member t = (case tag_body t of Member_Body cm \<Rightarrow> Inr cm | _ \<Rightarrow> ub ''tag__class_member'')"

definition tag__base_type :: "tag \<Rightarrow> base_type res" where
  "tag__base_type t = (case tag_body t of Base_Body bt \<Rightarrow> Inr bt | _ \<Rightarrow> ub ''tag__base_type'')"

definition tag__array_type :: "tag \<Rightarrow> array_type res" where
  "tag__array_type t = (case tag_body t of Array_Body at \<Rightarrow> Inr at | _ \<Rightarrow> ub ''tag__array_type'')"

definition tag__ptr_to_member_type :: "tag \<Rightarrow> u16 res" where
  "tag__ptr_to_member_type t =
     (case tag_body t of Ptr_To_Member_Body c \<Rightarrow> Inr c | _ \<Rightarrow> ub ''tag__ptr_to_member_type'')"

definition tag__variable :: "tag \<Rightarrow> variable res" where
  "tag__variable t = (case tag_body t of Variable_Body v \<Rightarrow> Inr v | _ \<Rightarrow> ub ''tag__variable'')"

definition tag__ftype :: "tag \<Rightarrow> ftype res" where
  \<comment> \<open>a \<open>struct function\<close> begins with its \<open>struct ftype\<close>\<close>
  "tag__ftype t = (case tag_body t of
       Ftype_Body f \<Rightarrow> Inr f
     | Function_Body f lb ts fn \<Rightarrow> Inr f
     | _ \<Rightarrow> ub ''tag__ftype'')"

definition tag__function :: "tag \<Rightarrow> (lexblock \<times> function_fields) res" where
  "tag__function t =
     (case tag_body t of Function_Body f lb ts fn \<Rightarrow> Inr (lb, fn) | _ \<Rightarrow> ub ''tag__function'')"

definition is_member_tag :: "tag \<Rightarrow> bool" where
  \<comment> \<open>the test of \<open>type__for_each_member\<close>\<close>
  "is_member_tag t \<longleftrightarrow> tag_tag t = DW_TAG_member \<or> tag_tag t = DW_TAG_inheritance"

lemmas tag_kind_defs =
  tag__is_enumeration_def tag__is_namespace_def tag__is_struct_def tag__is_typedef_def
  tag__is_union_def tag__is_function_def tag__is_variable_def tag__has_namespace_def
  tag__is_type_def tag__is_tag_type_def is_member_tag_def

lemmas tag_cast_defs =
  tag__type_def tag__class_member_def tag__base_type_def tag__array_type_def
  tag__ptr_to_member_type_def tag__variable_def tag__ftype_def tag__function_def

end
