(* ===== verification/Dwarves_Strings.thy ===== *)
theory Dwarves_Strings
  imports Dwarves_Types
begin

text \<open>
  The string table of the debug information reader: the growing buffer of \<^verbatim>\<open>gobuffer.c\<close>, the
  interned strings of \<^verbatim>\<open>strings.c\<close> and the multiplicative hash of \<^verbatim>\<open>hash.h\<close>. Memory allocation is
  the argument \<open>alloc\<close> (does an allocation of this size succeed); the tree that \<^verbatim>\<open>tsearch\<close> and
  \<^verbatim>\<open>tfind\<close> of the C library keep is the list of its keys, searched with the comparison function.
\<close>

section \<open>Definitions\<close>

subsection \<open>hash.h\<close>

definition GOLDEN_RATIO_PRIME_32 :: u32 where
  "GOLDEN_RATIO_PRIME_32 = 0x9e370001"

definition GOLDEN_RATIO_PRIME_64 :: u64 where
  "GOLDEN_RATIO_PRIME_64 = 0x9e37fffffffc0001"

definition hash_64 :: "u64 \<Rightarrow> nat \<Rightarrow> u64 res" where
  \<comment> \<open>a shift by the full width is undefined\<close>
  "hash_64 val bits =
     (let hash = val; n = hash;
          n = push_bit 18 n; hash = hash - n;
          n = push_bit 33 n; hash = hash - n;
          n = push_bit 3 n; hash = hash + n;
          n = push_bit 3 n; hash = hash - n;
          n = push_bit 4 n; hash = hash + n;
          n = push_bit 2 n; hash = hash + n
      in if 1 \<le> bits \<and> bits \<le> 64 then Inr (drop_bit (64 - bits) hash) else ub ''shift by the width'')"

definition hash_32 :: "u32 \<Rightarrow> nat \<Rightarrow> u32 res" where
  "hash_32 val bits =
     (let hash = val * GOLDEN_RATIO_PRIME_32
      in if 1 \<le> bits \<and> bits \<le> 32 then Inr (drop_bit (32 - bits) hash) else ub ''shift by the width'')"

subsection \<open>gobuffer.c\<close>

definition GOBUFFER__BCHUNK :: u32 where
  "GOBUFFER__BCHUNK = 8 * 1024"

definition ENOMEM :: int where
  "ENOMEM = 12"

record gobuffer =
  gb_entries :: "char option list"   \<comment> \<open>one element per allocated byte, \<open>None\<close> before it is written\<close>
  gb_nr_entries :: u32
  gb_index :: u32
  gb_allocated_size :: u32

definition gobuffer__init :: gobuffer where
  "gobuffer__init =
     \<lparr> gb_entries = [], gb_nr_entries = 0, gb_index = 1, gb_allocated_size = 0 \<rparr>"

definition realloc_bytes :: "u32 \<Rightarrow> char option list \<Rightarrow> char option list" where
  "realloc_bytes n es = take (unat n) es @ replicate (unat n - length es) None"

definition gobuffer__allocate :: "(u32 \<Rightarrow> bool) \<Rightarrow> u32 \<Rightarrow> gobuffer \<Rightarrow> int \<times> gobuffer" where
  "gobuffer__allocate alloc len gb =
     (let rc = gb_index gb; index = gb_index gb + len in
      if gb_allocated_size gb \<le> index
      then let allocated_size = gb_allocated_size gb + GOBUFFER__BCHUNK;
               allocated_size = (if allocated_size < index then index + GOBUFFER__BCHUNK else allocated_size)
           in if \<not> alloc allocated_size then (- ENOMEM, gb)
              else (sint rc, gb \<lparr> gb_allocated_size := allocated_size,
                      gb_entries := realloc_bytes allocated_size (gb_entries gb), gb_index := index \<rparr>)
      else (sint rc, gb \<lparr> gb_index := index \<rparr>))"

definition memcpy_bytes :: "nat \<Rightarrow> string \<Rightarrow> char option list \<Rightarrow> char option list res" where
  "memcpy_bytes at s es =
     (if at + length s \<le> length es then Inr (take at es @ map Some s @ drop (at + length s) es)
      else ub ''write behind the buffer'')"

definition gobuffer__add :: "(u32 \<Rightarrow> bool) \<Rightarrow> string \<Rightarrow> gobuffer \<Rightarrow> (int \<times> gobuffer) res" where
  "gobuffer__add alloc s gb =
     (let (rc, gb1) = gobuffer__allocate alloc (of_nat (length s)) gb in
      if rc < 0 then Inr (rc, gb1)
      else bindE (memcpy_bytes (nat rc) s (gb_entries gb1)) (\<lambda>es.
        Inr (rc, gb1 \<lparr> gb_nr_entries := gb_nr_entries gb1 + 1, gb_entries := es \<rparr>)))"

fun c_string_at :: "char option list \<Rightarrow> string res" where
  \<comment> \<open>the string that begins at a position of the buffer\<close>
  "c_string_at [] = ub ''string runs out of the buffer''"
| "c_string_at (None # es) = ub ''uninitialised byte''"
| "c_string_at (Some c # es) =
     (if c = CHR 0x00 then Inr [] else bindE (c_string_at es) (\<lambda>s. Inr (c # s)))"

definition gobuffer__ptr :: "gobuffer \<Rightarrow> u32 \<Rightarrow> string option res" where
  \<comment> \<open>read as the C string its caller takes it for\<close>
  "gobuffer__ptr gb s =
     (if s = 0 then Inr None else bindE (c_string_at (drop (unat s) (gb_entries gb))) (\<lambda>str. Inr (Some str)))"

definition gobuffer__copy :: "gobuffer \<Rightarrow> char option list" where
  "gobuffer__copy gb = take (unat (gb_index gb)) (gb_entries gb)"

subsection \<open>strings.c\<close>

record strings =
  st_tree :: "u32 list"
  st_gb :: gobuffer

definition strings__new :: strings where
  "strings__new = \<lparr> st_tree = [], st_gb = gobuffer__init \<rparr>"

definition strings__ptr :: "strings \<Rightarrow> strings_t \<Rightarrow> string option res" where
  "strings__ptr strs s = gobuffer__ptr (st_gb strs) s"

definition strings__insert :: "(u32 \<Rightarrow> bool) \<Rightarrow> string \<Rightarrow> strings \<Rightarrow> (strings_t \<times> strings) res" where
  \<comment> \<open>the \<open>int\<close> of \<open>gobuffer__add\<close> becomes a \<open>strings_t\<close>\<close>
  "strings__insert alloc s strs =
     bindE (gobuffer__add alloc (s @ [CHR 0x00]) (st_gb strs)) (\<lambda>(rc, gb).
       Inr (word_of_int rc, strs \<lparr> st_gb := gb \<rparr>))"

fun tfind :: "gobuffer \<Rightarrow> string \<Rightarrow> u32 list \<Rightarrow> u32 option res" where
  \<comment> \<open>the key for which \<open>strings__compare\<close> returns 0\<close>
  "tfind gb str [] = Inr None"
| "tfind gb str (k # ks) =
     bindE (c_string_at (drop (unat k) (gb_entries gb))) (\<lambda>s.
       if s = str then Inr (Some k) else tfind gb str ks)"

definition strings__add :: "(u32 \<Rightarrow> bool) \<Rightarrow> bool \<Rightarrow> string option \<Rightarrow> strings \<Rightarrow> (strings_t \<times> strings) res" where
  \<comment> \<open>\<open>node_alloc\<close>: \<open>tsearch\<close> gets the memory for a new node\<close>
  "strings__add alloc node_alloc str strs = (case str of
       None \<Rightarrow> Inr (0, strs)
     | Some str \<Rightarrow>
         bindE (tfind (st_gb strs) str (st_tree strs)) (\<lambda>found. case found of
             Some index \<Rightarrow> Inr (index, strs)
           | None \<Rightarrow>
               if \<not> node_alloc then Inr (0, strs)
               else bindE (strings__insert alloc str strs) (\<lambda>(index, strs1).
                 if index \<noteq> 0 then Inr (index, strs1 \<lparr> st_tree := st_tree strs1 @ [index] \<rparr>)
                 else Inr (0, strs1))))"

definition strings__find :: "string option \<Rightarrow> strings \<Rightarrow> strings_t res" where
  "strings__find str strs = (case str of
       None \<Rightarrow> Inr 0
     | Some str \<Rightarrow>
         bindE (tfind (st_gb strs) str (st_tree strs)) (\<lambda>found. case found of
             Some index \<Rightarrow> Inr index
           | None \<Rightarrow> Inr 0))"

section \<open>The hash is a multiplication\<close>

lemma hash_64_mult:
  "1 \<le> bits \<Longrightarrow> bits \<le> 64 \<Longrightarrow> hash_64 val bits = Inr (drop_bit (64 - bits) (val * GOLDEN_RATIO_PRIME_64))"
  by (simp add: hash_64_def Let_def GOLDEN_RATIO_PRIME_64_def push_bit_eq_mult mult.commute)

lemma hash_64_range: "1 \<le> bits \<Longrightarrow> bits \<le> 64 \<Longrightarrow> unat (drop_bit (64 - bits) (v :: u64)) < 2 ^ bits"
proof -
  assume bits: "1 \<le> bits" "bits \<le> 64"
  have v: "unat v < 2 ^ 64" using unsigned_less[of v, where ?'a = nat] by simp
  also have "(2::nat) ^ 64 = 2 ^ bits * 2 ^ (64 - bits)" using bits by (simp flip: power_add)
  finally have "unat v div 2 ^ (64 - bits) < 2 ^ bits" by (simp add: less_mult_imp_div_less)
  moreover have "unat (drop_bit (64 - bits) v) = unat v div 2 ^ (64 - bits)"
    by (simp only: unsigned_drop_bit_eq) (use v in \<open>simp add: drop_bit_eq_div take_bit_eq_mod\<close>)
  ultimately show ?thesis by simp
qed

section \<open>The buffer keeps what was written\<close>

definition gb_ok :: "gobuffer \<Rightarrow> bool" where
  "gb_ok gb \<longleftrightarrow> length (gb_entries gb) = unat (gb_allocated_size gb) \<and> 1 \<le> unat (gb_index gb) \<and>
     (gb_allocated_size gb = 0 \<or> unat (gb_index gb) \<le> unat (gb_allocated_size gb)) \<and>
     unat (gb_allocated_size gb) \<le> unat (gb_index gb) + 8192"

definition gb_room :: "nat \<Rightarrow> gobuffer \<Rightarrow> bool" where
  "gb_room len gb \<longleftrightarrow> unat (gb_index gb) + len + 8192 < 2 ^ 31"

definition bytes_at :: "gobuffer \<Rightarrow> nat \<Rightarrow> string \<Rightarrow> bool" where
  \<comment> \<open>the written bytes \<open>s\<close> stand at a position in front of the index\<close>
  "bytes_at gb k s \<longleftrightarrow> k + length s \<le> unat (gb_index gb) \<and>
     take (length s) (drop k (gb_entries gb)) = map Some s"

lemma unat_add_small: "unat (a :: u32) + unat b < 2 ^ 32 \<Longrightarrow> unat (a + b) = unat a + unat b"
  by (simp add: unat_word_ariths)

lemma unat_of_nat_small: "n < 2 ^ 32 \<Longrightarrow> unat (of_nat n :: u32) = n"
  by (simp add: unat_of_nat take_bit_eq_mod)

lemma sint_small: "unat (w :: u32) < 2 ^ 31 \<Longrightarrow> sint w = int (unat w)"
proof -
  assume "unat w < 2 ^ 31"
  then have "int (unat w) < int (2 ^ 31)" by (simp only: of_nat_less_iff)
  then have "uint w < 2 ^ 31" by (simp only: uint_nat of_nat_power of_nat_numeral)
  moreover have "- (2 ^ 31) \<le> uint w" by (rule order.trans[of _ 0]) simp_all
  ultimately have "sint w = uint w" by (simp add: sint_uint signed_take_bit_int_eq_self)
  then show ?thesis by (simp only: uint_nat)
qed

lemma gb_ok_init: "gb_ok gobuffer__init"
  by (simp add: gb_ok_def gobuffer__init_def)

lemma length_realloc_bytes [simp]: "length (realloc_bytes n es) = unat n"
  by (simp add: realloc_bytes_def)

lemma take_realloc_bytes: "k \<le> unat n \<Longrightarrow> k \<le> length es \<Longrightarrow> take k (realloc_bytes n es) = take k es"
  by (simp add: realloc_bytes_def min_def)

lemma gobuffer__allocate_run:
  assumes ok: "gb_ok gb" and room: "gb_room len gb"
  obtains gb' where "gobuffer__allocate (\<lambda>_. True) (of_nat len) gb = (int (unat (gb_index gb)), gb')"
    and "gb_ok gb'" and "unat (gb_index gb') = unat (gb_index gb) + len"
    and "gb_index gb' \<le> gb_allocated_size gb'" and "gb_nr_entries gb' = gb_nr_entries gb"
    and "take (length (gb_entries gb)) (gb_entries gb') = gb_entries gb"
proof -
  let ?i = "gb_index gb + of_nat len" and ?a = "gb_allocated_size gb + GOBUFFER__BCHUNK"
  have len: "unat (of_nat len :: u32) = len" using room by (intro unat_of_nat_small) (simp add: gb_room_def)
  have i: "unat ?i = unat (gb_index gb) + len"
    using room len by (subst unat_add_small) (simp_all add: gb_room_def)
  have a: "unat ?a = unat (gb_allocated_size gb) + 8192"
    using room ok by (subst unat_add_small) (simp_all add: gb_room_def gb_ok_def GOBUFFER__BCHUNK_def)
  have b: "unat (?i + GOBUFFER__BCHUNK) = unat (gb_index gb) + len + 8192"
    using room i by (subst unat_add_small) (simp_all add: gb_room_def GOBUFFER__BCHUNK_def)
  have s: "sint (gb_index gb) = int (unat (gb_index gb))"
    using room by (intro sint_small) (simp add: gb_room_def)
  show thesis
  proof (cases "gb_allocated_size gb \<le> ?i")
    case grow: True
    define n where "n = (if ?a < ?i then ?i + GOBUFFER__BCHUNK else ?a)"
    let ?gb = "gb \<lparr> gb_allocated_size := n, gb_entries := realloc_bytes n (gb_entries gb), gb_index := ?i \<rparr>"
    have n: "unat ?i \<le> unat n" "unat n \<le> unat ?i + 8192" "unat (gb_allocated_size gb) \<le> unat n"
      using grow i a b by (auto simp: n_def word_le_nat_alt word_less_nat_alt)
    show thesis
    proof (rule that[of ?gb])
      show "gobuffer__allocate (\<lambda>_. True) (of_nat len) gb = (int (unat (gb_index gb)), ?gb)"
        using grow s by (simp add: gobuffer__allocate_def Let_def n_def)
      show "gb_ok ?gb" using n i ok by (simp add: gb_ok_def)
      show "take (length (gb_entries gb)) (gb_entries ?gb) = gb_entries gb"
        using n(3) ok by (simp add: take_realloc_bytes gb_ok_def)
    qed (use n i in \<open>simp_all add: word_le_nat_alt\<close>)
  next
    case False
    let ?gb = "gb \<lparr> gb_index := ?i \<rparr>"
    show thesis
    proof (rule that[of ?gb])
      show "gobuffer__allocate (\<lambda>_. True) (of_nat len) gb = (int (unat (gb_index gb)), ?gb)"
        using False s by (simp add: gobuffer__allocate_def Let_def)
      show "gb_ok ?gb" using False i ok by (auto simp: gb_ok_def word_le_nat_alt)
    qed (use i False in \<open>simp_all add: word_le_nat_alt\<close>)
  qed
qed

lemma bytes_at_mono:
  assumes "bytes_at gb k s" and "gb_ok gb" and "unat (gb_index gb) \<le> unat (gb_index gb')"
    and "take (min (unat (gb_index gb)) (length (gb_entries gb))) (gb_entries gb') =
      take (unat (gb_index gb)) (gb_entries gb)"
  shows "bytes_at gb' k s"
proof -
  let ?m = "min (unat (gb_index gb)) (length (gb_entries gb))"
  have len: "length s \<le> length (gb_entries gb) - k"
    using assms(1) by (metis bytes_at_def length_drop length_map length_take min.cobounded1)
  show ?thesis
  proof (cases "s = []")
    case True
    with assms show ?thesis by (simp add: bytes_at_def)
  next
    case False
    then have "0 < length s" by simp
    with len have "k + length s \<le> length (gb_entries gb)" by linarith
    then have k: "k + length s \<le> ?m" using assms(1) by (simp add: bytes_at_def)
    have "take (length s) (drop k (gb_entries gb')) = take (length s) (drop k (take ?m (gb_entries gb')))"
      using k by (simp add: drop_take min_def)
    also have "\<dots> = take (length s) (drop k (take (unat (gb_index gb)) (gb_entries gb)))"
      by (simp add: assms(4))
    also have "\<dots> = take (length s) (drop k (gb_entries gb))"
      using assms(1) by (auto simp: bytes_at_def drop_take min_def)
    finally show ?thesis using assms(1,3) by (simp add: bytes_at_def)
  qed
qed

lemma gobuffer__add_run:
  assumes ok: "gb_ok gb" and room: "gb_room (length s) gb"
  obtains gb' where "gobuffer__add (\<lambda>_. True) s gb = Inr (int (unat (gb_index gb)), gb')"
    and "gb_ok gb'" and "unat (gb_index gb') = unat (gb_index gb) + length s"
    and "bytes_at gb' (unat (gb_index gb)) s"
    and "\<And>k t. bytes_at gb k t \<Longrightarrow> bytes_at gb' k t"
    and "gb_nr_entries gb' = gb_nr_entries gb + 1"
proof -
  let ?i = "unat (gb_index gb)"
  obtain gb1 where a: "gobuffer__allocate (\<lambda>_. True) (of_nat (length s)) gb = (int ?i, gb1)"
    and ok1: "gb_ok gb1" and i: "unat (gb_index gb1) = ?i + length s"
    and fits: "gb_index gb1 \<le> gb_allocated_size gb1" and nr: "gb_nr_entries gb1 = gb_nr_entries gb"
    and keep: "take (length (gb_entries gb)) (gb_entries gb1) = gb_entries gb"
    by (rule gobuffer__allocate_run[OF ok room])
  let ?es = "take ?i (gb_entries gb1) @ map Some s @ drop (?i + length s) (gb_entries gb1)"
  let ?gb = "gb1 \<lparr> gb_nr_entries := gb_nr_entries gb1 + 1, gb_entries := ?es \<rparr>"
  have le: "?i + length s \<le> length (gb_entries gb1)"
    using fits i ok1 by (simp add: word_le_nat_alt gb_ok_def)
  show thesis
  proof (rule that[of ?gb])
    show "gobuffer__add (\<lambda>_. True) s gb = Inr (int ?i, ?gb)"
      using a le by (simp add: gobuffer__add_def memcpy_bytes_def)
    have "length ?es = length (gb_entries gb1)" using le by (auto simp: min_def)
    with ok1 show "gb_ok ?gb" by (simp add: gb_ok_def del: length_append)
    show "bytes_at ?gb ?i s" using le i by (simp add: bytes_at_def)
    fix k t assume k: "bytes_at gb k t"
    have "take (min ?i (length (gb_entries gb))) ?es = take ?i (gb_entries gb)"
    proof -
      have "take (min ?i (length (gb_entries gb))) ?es = take (min ?i (length (gb_entries gb))) (gb_entries gb1)"
        using le by (simp add: min_def)
      also have "\<dots> = take ?i (take (length (gb_entries gb)) (gb_entries gb1))" by simp
      finally show ?thesis by (simp only: keep)
    qed
    then show "bytes_at ?gb k t" using bytes_at_mono[OF k ok, of ?gb] i by simp
  qed (simp_all add: i nr)
qed

section \<open>Interned strings\<close>

primrec intern_all :: "(string \<Rightarrow> 't \<Rightarrow> ('i \<times> 't) res) \<Rightarrow> string list \<Rightarrow> 't \<Rightarrow> ('i list \<times> 't) res" where
  \<comment> \<open>one string after the other, as the loader adds them\<close>
  "intern_all add [] t = Inr ([], t)"
| "intern_all add (s # ss) t =
     bindE (add s t) (\<lambda>(i, t1). bindE (intern_all add ss t1) (\<lambda>(is, t2). Inr (i # is, t2)))"

text \<open>What the readers of the debug information rely on in a table of strings.\<close>

locale string_table =
  fixes add :: "string \<Rightarrow> 't \<Rightarrow> ('i \<times> 't) res"
    and find :: "string \<Rightarrow> 't \<Rightarrow> 'i option res"
    and ptr :: "'t \<Rightarrow> 'i \<Rightarrow> string option res"
    and holds :: "'t \<Rightarrow> 'i \<Rightarrow> string \<Rightarrow> bool"
    and ok :: "'t \<Rightarrow> bool"
    and room :: "nat \<Rightarrow> 't \<Rightarrow> bool"
    and legal :: "string \<Rightarrow> bool"
  assumes add_new: "ok t \<Longrightarrow> legal s \<Longrightarrow> room (length s + 1 + n) t \<Longrightarrow>
      \<exists>i t'. add s t = Inr (i, t') \<and> ok t' \<and> holds t' i s \<and> room n t' \<and>
        (\<forall>j u. holds t j u \<longrightarrow> holds t' j u)"
    and add_old: "ok t \<Longrightarrow> holds t i s \<Longrightarrow> add s t = Inr (i, t)"
    and find_old: "ok t \<Longrightarrow> holds t i s \<Longrightarrow> find s t = Inr (Some i)"
    and ptr_holds: "ok t \<Longrightarrow> holds t i s \<Longrightarrow> ptr t i = Inr (Some s)"
begin

lemma holds_unique: "ok t \<Longrightarrow> holds t i s \<Longrightarrow> holds t j s \<Longrightarrow> i = j"
  using add_old[of t i s] add_old[of t j s] by simp

lemma holds_inject: "ok t \<Longrightarrow> holds t i s \<Longrightarrow> holds t i u \<Longrightarrow> s = u"
  using ptr_holds[of t i s] ptr_holds[of t i u] by simp

lemma add_all_run:
  assumes "ok t" and "\<forall>s \<in> set ss. legal s" and "room (sum_list (map (\<lambda>s. length s + 1) ss)) t"
  shows "\<exists>is t'. intern_all add ss t = Inr (is, t') \<and> ok t' \<and> list_all2 (holds t') is ss \<and>
      (\<forall>j u. holds t j u \<longrightarrow> holds t' j u)"
  using assms
proof (induction ss arbitrary: t)
  case (Cons s ss)
  let ?n = "sum_list (map (\<lambda>s. length s + 1) ss)"
  obtain i t1 where 1: "add s t = Inr (i, t1)" "ok t1" "holds t1 i s" "room ?n t1"
    "\<forall>j u. holds t j u \<longrightarrow> holds t1 j u"
    using add_new[of t s ?n] Cons.prems by auto
  obtain "is" t2 where 2: "intern_all add ss t1 = Inr (is, t2)" "ok t2" "list_all2 (holds t2) is ss"
    "\<forall>j u. holds t1 j u \<longrightarrow> holds t2 j u"
    using Cons.IH[of t1] Cons.prems 1 by auto
  show ?case using 1 2 by (intro exI[of _ "i # is"] exI[of _ t2]) auto
qed auto

lemma add_all_round_trip:
  assumes "ok t" and "\<forall>s \<in> set ss. legal s" and "room (sum_list (map (\<lambda>s. length s + 1) ss)) t"
  obtains "is" t' where "intern_all add ss t = Inr (is, t')" and "map (ptr t') is = map (\<lambda>s. Inr (Some s)) ss"
    and "\<And>j k. j < length ss \<Longrightarrow> k < length ss \<Longrightarrow> is ! j = is ! k \<longleftrightarrow> ss ! j = ss ! k"
    and "\<forall>s \<in> set ss. \<exists>i. find s t' = Inr (Some i) \<and> add s t' = Inr (i, t')"
proof -
  obtain "is" t' where r: "intern_all add ss t = Inr (is, t')" "ok t'" "list_all2 (holds t') is ss"
    using add_all_run[OF assms] by blast
  have len: "length is = length ss" using r(3) by (rule list_all2_lengthD)
  have nth: "holds t' (is ! j) (ss ! j)" if "j < length ss" for j
    using r(3) that len by (simp add: list_all2_nthD2)
  show thesis
  proof (rule that[OF r(1)])
    show "map (ptr t') is = map (\<lambda>s. Inr (Some s)) ss"
      using nth len r(2) by (intro nth_equalityI) (simp_all add: ptr_holds)
    show "is ! j = is ! k \<longleftrightarrow> ss ! j = ss ! k" if "j < length ss" "k < length ss" for j k
      using nth[OF that(1)] nth[OF that(2)] holds_unique[OF r(2)] holds_inject[OF r(2)] by metis
    show "\<forall>s \<in> set ss. \<exists>i. find s t' = Inr (Some i) \<and> add s t' = Inr (i, t')"
      using nth r(2) by (metis add_old find_old in_set_conv_nth)
  qed
qed

end

definition strings_hold :: "strings \<Rightarrow> strings_t \<Rightarrow> string \<Rightarrow> bool" where
  "strings_hold strs i s \<longleftrightarrow> i \<in> set (st_tree strs) \<and> CHR 0x00 \<notin> set s \<and>
     bytes_at (st_gb strs) (unat i) (s @ [CHR 0x00])"

definition strings_ok :: "strings \<Rightarrow> bool" where
  "strings_ok strs \<longleftrightarrow> gb_ok (st_gb strs) \<and> 0 \<notin> set (st_tree strs) \<and>
     (\<forall>i \<in> set (st_tree strs). \<exists>s. strings_hold strs i s) \<and>
     (\<forall>i j s. strings_hold strs i s \<longrightarrow> strings_hold strs j s \<longrightarrow> i = j)"

definition strings_room :: "nat \<Rightarrow> strings \<Rightarrow> bool" where
  "strings_room n strs \<longleftrightarrow> gb_room n (st_gb strs)"

lemma c_string_at_terminated:
  "CHR 0x00 \<notin> set s \<Longrightarrow> take (length s + 1) es = map Some (s @ [CHR 0x00]) \<Longrightarrow> c_string_at es = Inr s"
proof (induction s arbitrary: es)
  case Nil
  then show ?case by (cases es rule: c_string_at.cases) auto
next
  case (Cons c s)
  then show ?case by (cases es rule: c_string_at.cases) auto
qed

lemma strings_hold_at:
  "strings_hold strs i s \<Longrightarrow> c_string_at (drop (unat i) (gb_entries (st_gb strs))) = Inr s"
  by (rule c_string_at_terminated) (simp_all add: strings_hold_def bytes_at_def)

lemma tfind_cases:
  assumes "\<forall>i \<in> set ks. \<exists>s. strings_hold strs i s"
  shows "(\<exists>k \<in> set ks. strings_hold strs k str \<and> tfind (st_gb strs) str ks = Inr (Some k)) \<or>
    (\<forall>k \<in> set ks. \<not> strings_hold strs k str) \<and> tfind (st_gb strs) str ks = Inr None"
  using assms
proof (induction ks)
  case (Cons k ks)
  then obtain s where s: "strings_hold strs k s" by auto
  have "strings_hold strs k u \<Longrightarrow> u = s" for u
    using strings_hold_at[of strs k u] strings_hold_at[OF s] by simp
  note only = this
  have IH: "(\<exists>k \<in> set ks. strings_hold strs k str \<and> tfind (st_gb strs) str ks = Inr (Some k)) \<or>
      (\<forall>k \<in> set ks. \<not> strings_hold strs k str) \<and> tfind (st_gb strs) str ks = Inr None"
    using Cons by simp
  show ?case
  proof (cases "s = str")
    case True
    with s show ?thesis by (simp add: strings_hold_at)
  next
    case False
    then have t: "tfind (st_gb strs) str (k # ks) = tfind (st_gb strs) str ks"
      by (simp add: strings_hold_at[OF s])
    have "\<not> strings_hold strs k str" using False only by blast
    then show ?thesis unfolding t using IH by (metis set_ConsD list.set_intros(2))
  qed
qed simp

lemma strings_ptr_hold: "strings_ok strs \<Longrightarrow> strings_hold strs i s \<Longrightarrow> strings__ptr strs i = Inr (Some s)"
  using strings_hold_at[of strs i s]
  by (auto simp: strings__ptr_def gobuffer__ptr_def strings_ok_def strings_hold_def)

lemma tfind_hold: "strings_ok strs \<Longrightarrow> strings_hold strs i s \<Longrightarrow> tfind (st_gb strs) s (st_tree strs) = Inr (Some i)"
  using tfind_cases[of "st_tree strs" strs s]
  by (auto simp: strings_ok_def) (auto simp: strings_hold_def)

abbreviation str_add :: "string \<Rightarrow> strings \<Rightarrow> (strings_t \<times> strings) res" where
  "str_add s \<equiv> strings__add (\<lambda>_. True) True (Some s)"

lemma strings_add_new:
  assumes ok: "strings_ok strs" and legal: "CHR 0x00 \<notin> set s" and room: "strings_room (length s + 1 + n) strs"
  shows "\<exists>i strs'. str_add s strs = Inr (i, strs') \<and> strings_ok strs' \<and> strings_hold strs' i s \<and>
    strings_room n strs' \<and> (\<forall>j u. strings_hold strs j u \<longrightarrow> strings_hold strs' j u)"
proof -
  consider (old) k where "strings_hold strs k s" | (new) "\<forall>k. \<not> strings_hold strs k s"
    "tfind (st_gb strs) s (st_tree strs) = Inr None"
    using tfind_cases[of "st_tree strs" strs s] ok by (auto simp: strings_ok_def strings_hold_def)
  then show ?thesis
  proof cases
    case old
    then have "str_add s strs = Inr (k, strs)" using ok by (simp add: strings__add_def tfind_hold)
    then show ?thesis using old ok room by (auto simp: strings_room_def gb_room_def)
  next
    case new
    let ?gb = "st_gb strs" and ?s = "s @ [CHR 0x00]" and ?i = "gb_index (st_gb strs)"
    have gb: "gb_ok ?gb" "gb_room (length ?s) ?gb"
      using ok room by (auto simp: strings_ok_def strings_room_def gb_room_def)
    obtain gb' where a: "gobuffer__add (\<lambda>_. True) ?s ?gb = Inr (int (unat ?i), gb')" "gb_ok gb'"
      "unat (gb_index gb') = unat ?i + length ?s" "bytes_at gb' (unat ?i) ?s"
      "\<And>k t. bytes_at ?gb k t \<Longrightarrow> bytes_at gb' k t"
      by (rule gobuffer__add_run[OF gb]) blast
    let ?strs = "strs \<lparr> st_gb := gb', st_tree := st_tree strs @ [?i] \<rparr>"
    have i0: "?i \<noteq> 0" using gb(1) by (auto simp: gb_ok_def)
    have add: "str_add s strs = Inr (?i, ?strs)"
      using new(2) a(1) i0 by (simp add: strings__add_def strings__insert_def)
    have keep: "strings_hold ?strs j u" if "strings_hold strs j u" for j u
      using that a(5) by (simp add: strings_hold_def)
    have hold: "strings_hold ?strs ?i s" using legal a(4) by (simp add: strings_hold_def)
    have det: "u = v" if "strings_hold ?strs j u" "strings_hold ?strs j v" for j u v
      using strings_hold_at[OF that(1)] strings_hold_at[OF that(2)] by simp
    have former: "strings_hold strs j u \<or> (j = ?i \<and> u = s)" if "strings_hold ?strs j u" for j u
    proof (cases "j \<in> set (st_tree strs)")
      case True
      then obtain v where "strings_hold strs j v" using ok by (auto simp: strings_ok_def)
      then show ?thesis using det[OF that keep] by auto
    next
      case False
      then have "j = ?i" using that by (simp add: strings_hold_def)
      then show ?thesis using det[OF that] hold by auto
    qed
    have "strings_ok ?strs"
      unfolding strings_ok_def
    proof (intro conjI allI impI ballI)
      show "gb_ok (st_gb ?strs)" using a(2) by simp
      show "0 \<notin> set (st_tree ?strs)" using ok i0 by (simp add: strings_ok_def)
      fix j assume "j \<in> set (st_tree ?strs)"
      then consider "j = ?i" | s where "strings_hold strs j s" using ok by (auto simp: strings_ok_def)
      then show "\<exists>s. strings_hold ?strs j s" using hold keep by cases blast+
    next
      fix j k u assume jk: "strings_hold ?strs j u" "strings_hold ?strs k u"
      have "\<forall>i j s. strings_hold strs i s \<longrightarrow> strings_hold strs j s \<longrightarrow> i = j"
        using ok by (simp add: strings_ok_def)
      then show "j = k" using former[OF jk(1)] former[OF jk(2)] new(1) by metis
    qed
    then show ?thesis using add hold keep a(3) room by (auto simp: strings_room_def gb_room_def)
  qed
qed

interpretation intern: string_table str_add "\<lambda>s strs. tfind (st_gb strs) s (st_tree strs)"
  strings__ptr strings_hold strings_ok strings_room "\<lambda>s. CHR 0x00 \<notin> set s"
proof unfold_locales
  show "str_add s t = Inr (i, t)" if "strings_ok t" "strings_hold t i s" for t i s
    using that by (simp add: strings__add_def tfind_hold)
qed (blast intro: strings_add_new tfind_hold strings_ptr_hold)+

lemma strings_ok_new: "strings_ok strings__new"
  by (simp add: strings_ok_def strings__new_def gb_ok_init strings_hold_def)

end
