(* ===== verification/Dwarves_Cu.thy ===== *)
theory Dwarves_Cu
  imports Dwarves_Strings
begin

text \<open>
  Compilation units (\<^verbatim>\<open>dwarves.c\<close>): the pointer tables that number the tags, the searches for a
  type by name, the resolution of typedefs and the size of a type. The loops over the types count
  with a 16-bit variable; a loop or recursion that may not end is a \<^theory_text>\<open>partial_function\<close>.
  Messages on standard error are left out.
\<close>

section \<open>Pointer tables\<close>

record 'a ptr_table =
  pt_entries :: "'a option option list"
    \<comment> \<open>one element per allocated pointer; the outer \<open>None\<close> is a pointer never written, the inner one a null pointer\<close>
  pt_nr_entries :: u32
  pt_allocated_entries :: u32

definition ptr_table__init :: "'a ptr_table" where
  "ptr_table__init = \<lparr> pt_entries = [], pt_nr_entries = 0, pt_allocated_entries = 0 \<rparr>"

definition realloc_entries :: "u32 \<Rightarrow> 'a option option list \<Rightarrow> 'a option option list" where
  "realloc_entries n es = take (unat n) es @ replicate (unat n - length es) None"

definition store_entry :: "u32 \<Rightarrow> 'a option \<Rightarrow> 'a option option list \<Rightarrow> 'a option option list res" where
  "store_entry i p es = (if unat i < length es then Inr (es[unat i := Some p]) else ub ''write behind the table'')"

definition ptr_table__add :: "(u32 \<Rightarrow> bool) \<Rightarrow> 'a option \<Rightarrow> 'a ptr_table \<Rightarrow> (int \<times> 'a ptr_table) res" where
  "ptr_table__add alloc ptr pt =
     (let nr_entries = pt_nr_entries pt + 1; rc = pt_nr_entries pt in
      if pt_allocated_entries pt < nr_entries \<and> \<not> alloc (pt_allocated_entries pt + 256)
      then Inr (- ENOMEM, pt)
      else
        let pt1 = (if pt_allocated_entries pt < nr_entries
              then pt \<lparr> pt_allocated_entries := pt_allocated_entries pt + 256,
                        pt_entries := realloc_entries (pt_allocated_entries pt + 256) (pt_entries pt) \<rparr>
              else pt)
        in bindE (store_entry rc ptr (pt_entries pt1)) (\<lambda>es.
             Inr (int (unat rc), pt1 \<lparr> pt_entries := es, pt_nr_entries := nr_entries \<rparr>)))"

definition roundup256 :: "u32 \<Rightarrow> u32" where
  \<comment> \<open>\<open>roundup(x, 256)\<close> of \<open>dutil.h\<close>, in 32-bit arithmetic\<close>
  "roundup256 x = ((x + (256 - 1)) div 256) * 256"

definition ptr_table__add_with_id ::
  "(u32 \<Rightarrow> bool) \<Rightarrow> 'a option \<Rightarrow> u32 \<Rightarrow> 'a ptr_table \<Rightarrow> (int \<times> 'a ptr_table) res" where
  "ptr_table__add_with_id alloc ptr i pt =
     (if pt_allocated_entries pt \<le> i \<and> \<not> alloc (roundup256 (i + 1)) then Inr (- ENOMEM, pt)
      else
        let pt1 = (if pt_allocated_entries pt \<le> i
              then pt \<lparr> pt_allocated_entries := roundup256 (i + 1),
                        pt_entries := realloc_entries (roundup256 (i + 1)) (pt_entries pt) \<rparr>
              else pt)
        in bindE (store_entry i ptr (pt_entries pt1)) (\<lambda>es.
             Inr (0, pt1 \<lparr> pt_entries := es, pt_nr_entries := pt_nr_entries pt1 + 1 \<rparr>)))"

definition load_entry :: "'a ptr_table \<Rightarrow> u32 \<Rightarrow> 'a option res" where
  \<comment> \<open>\<open>entries[i]\<close>\<close>
  "load_entry pt i =
     (if unat i < length (pt_entries pt)
      then (case pt_entries pt ! unat i of None \<Rightarrow> ub ''uninitialised pointer'' | Some p \<Rightarrow> Inr p)
      else ub ''read behind the table'')"

definition ptr_table__entry :: "'a ptr_table \<Rightarrow> u32 \<Rightarrow> 'a option res" where
  "ptr_table__entry pt i = (if pt_nr_entries pt \<le> i then Inr None else load_entry pt i)"

section \<open>Compilation units\<close>

record cu =
  cu_types_table :: "tag ptr_table"
  cu_functions_table :: "tag ptr_table"
  cu_tags_table :: "tag ptr_table"
  cu_name :: "string option"
  cu_dfops :: "(strings_t \<Rightarrow> string option) option"
    \<comment> \<open>\<open>strings__ptr\<close> of the debug format; its \<open>function__name\<close> and \<open>variable__name\<close> are null\<close>
  cu_addr_size :: u8
  cu_language :: u16
  cu_stray :: "nat \<Rightarrow> string option"
    \<comment> \<open>what a read of a namespace's name finds behind the tag at this address when the tag is no namespace\<close>

definition cu__string :: "cu \<Rightarrow> strings_t \<Rightarrow> string option" where
  "cu__string cu s = (case cu_dfops cu of Some ptr \<Rightarrow> ptr s | None \<Rightarrow> None)"

definition cu__type :: "cu \<Rightarrow> u16 \<Rightarrow> tag option res" where
  "cu__type cu i = ptr_table__entry (cu_types_table cu) (ucast i)"

definition cu__function :: "cu \<Rightarrow> u32 \<Rightarrow> tag option res" where
  "cu__function cu i = ptr_table__entry (cu_functions_table cu) i"

definition cu__tag :: "cu \<Rightarrow> u32 \<Rightarrow> tag option res" where
  "cu__tag cu i = ptr_table__entry (cu_tags_table cu) i"

definition cu__table_nullify_type_entry :: "(u32 \<Rightarrow> bool) \<Rightarrow> u32 \<Rightarrow> cu \<Rightarrow> (int \<times> cu) res" where
  "cu__table_nullify_type_entry alloc i cu =
     bindE (ptr_table__add_with_id alloc None i (cu_types_table cu)) (\<lambda>(rc, pt).
       Inr (rc, cu \<lparr> cu_types_table := pt \<rparr>))"

definition namespace__name :: "cu \<Rightarrow> namespace \<Rightarrow> string option" where
  "namespace__name cu ns = (case ns_sname ns of Some s \<Rightarrow> Some s | None \<Rightarrow> cu__string cu (ns_name ns))"

definition type__name :: "cu \<Rightarrow> type_fields \<Rightarrow> string option" where
  "type__name cu ty = namespace__name cu (ty_namespace ty)"

definition tag_as_type_name :: "cu \<Rightarrow> tag \<Rightarrow> string option" where
  \<comment> \<open>\<open>type__name(tag__type(tag), cu)\<close> for a tag that may be no type\<close>
  "tag_as_type_name cu t = (case tag__type t of
       Inr (ty, ts) \<Rightarrow> type__name cu ty
     | Inl e \<Rightarrow> cu_stray cu (tag_addr t))"

definition class_member__name :: "cu \<Rightarrow> class_member \<Rightarrow> string option" where
  "class_member__name cu m = cu__string cu (cm_name m)"

definition parameter__name :: "cu \<Rightarrow> parameter \<Rightarrow> string option" where
  "parameter__name cu p = cu__string cu (pa_name p)"

definition variable__name :: "cu \<Rightarrow> variable \<Rightarrow> string option" where
  "variable__name cu v = cu__string cu (va_name v)"

definition function__name :: "cu \<Rightarrow> function_fields \<Rightarrow> string option" where
  "function__name cu f = cu__string cu (fn_name f)"

section \<open>Base types\<close>

definition base_type_name_to_size_table :: "(string \<times> nat) list" where
  "base_type_name_to_size_table =
  [(''unsigned'', 32), (''signed int'', 32), (''unsigned int'', 32), (''int'', 32),
   (''short unsigned int'', 16), (''signed short'', 16), (''unsigned short'', 16), (''short int'', 16),
   (''char'', 8), (''signed char'', 8), (''unsigned char'', 8), (''signed long'', 0),
   (''long int'', 0), (''signed long'', 0), (''unsigned long'', 0), (''long unsigned int'', 0),
   (''bool'', 8), (''_Bool'', 8), (''long long unsigned int'', 64), (''long long int'', 64),
   (''signed long long'', 64), (''unsigned long long'', 64), (''double'', 64), (''double double'', 64),
   (''single float'', 32), (''float'', 32), (''long double'', 64), (''long double long double'', 64)]"

fun base_type_name_to_size_table__init :: "strings \<Rightarrow> (string \<times> nat) list \<Rightarrow> strings_t list \<Rightarrow> strings_t list res" where
  \<comment> \<open>the \<open>sname\<close> column; an entry already found is kept\<close>
  "base_type_name_to_size_table__init strs ((name, sz) # rows) (sname # snames) =
     bindE (if sname = 0 then strings__find (Some name) strs else Inr sname) (\<lambda>i.
     bindE (base_type_name_to_size_table__init strs rows snames) (\<lambda>is. Inr (i # is)))"
| "base_type_name_to_size_table__init strs rows snames = Inr []"

definition base_type_fp_type_str :: "string list" where
  "base_type_fp_type_str =
  [''single'', ''double'', ''complex'', ''complex double'', ''complex long double'', ''long double'',
   ''interval'', ''interval double'', ''interval long double'', ''imaginary'', ''imaginary double'',
   ''imaginary long double'']"

definition fp_type_str :: "nat \<Rightarrow> string res" where
  \<comment> \<open>the array is indexed from \<open>BT_FP_SINGLE\<close> = 1\<close>
  "fp_type_str i = (if 1 \<le> i \<and> i \<le> length base_type_fp_type_str
     then Inr (base_type_fp_type_str ! (i - 1)) else ub ''base_type_fp_type_str'')"

definition base_type__name :: "cu \<Rightarrow> base_type \<Rightarrow> nat \<Rightarrow> string option res" where
  "base_type__name cu bt len =
     (if bt_name_has_encoding bt then Inr (cu__string cu (bt_name bt))
      else bindE (c_string (cu__string cu (bt_name bt))) (\<lambda>name.
        if bt_float_type bt \<noteq> 0
        then bindE (fp_type_str (bt_float_type bt)) (\<lambda>fp. Inr (Some (snprintf_buf len (fp @ '' '' @ name))))
        else Inr (Some (snprintf_buf len
          ((if bt_is_signed bt then ''signed '' else '''') @ (if bt_is_bool bt then ''bool '' else '''') @
           (if bt_is_varargs bt then ''... '' else '''') @ name)))))"

fun find_size_row :: "(string \<Rightarrow> strings_t \<Rightarrow> bool) \<Rightarrow> (string \<times> nat) list \<Rightarrow> strings_t list \<Rightarrow> nat option" where
  "find_size_row P ((name, sz) # rows) (sname # snames) =
     (if P name sname then Some sz else find_size_row P rows snames)"
| "find_size_row P rows snames = None"

definition base_type__name_to_size :: "strings_t list \<Rightarrow> cu \<Rightarrow> base_type \<Rightarrow> u64 res" where
  "base_type__name_to_size snames cu bt =
     bindE (if bt_name_has_encoding bt then Inr None
            else bindE (base_type__name cu bt 64) (\<lambda>n. bindE (c_string n) (\<lambda>s. Inr (Some s)))) (\<lambda>name.
     Inr (case find_size_row (\<lambda>row sname. case name of None \<Rightarrow> sname = bt_name bt | Some s \<Rightarrow> row = s)
            base_type_name_to_size_table snames of
          Some sz \<Rightarrow> (if sz \<noteq> 0 then of_nat sz else ucast (cu_addr_size cu) * 8)
        | None \<Rightarrow> 0))"

definition base_type__size :: "base_type \<Rightarrow> u16" where
  "base_type__size bt = bt_bit_size bt div 8"

section \<open>Typedefs and sizes\<close>

definition has_type_loop :: "tag \<Rightarrow> tag option \<Rightarrow> bool" where
  \<comment> \<open>\<open>__tag__has_type_loop\<close> prints something, so returns a number other than 0\<close>
  "has_type_loop t type = (case type of None \<Rightarrow> False | Some ty \<Rightarrow> tag_type t = tag_type ty)"

definition type_loop_message :: "string \<Rightarrow> nat \<Rightarrow> tag \<Rightarrow> string res" where
  "type_loop_message fn line t =
     bindE (c_string (dwarf_tag_name (tag_tag t))) (\<lambda>name.
       Inr (''<ERROR('' @ fn @ '':'' @ dec_of_nat line @ ''): detected type loop: type='' @
            dec_u16 (tag_type t) @ '', tag='' @ name @ ''>''))"

partial_function (option) tag__follow_typedef :: "cu \<Rightarrow> tag \<Rightarrow> tag option res option" where
  "tag__follow_typedef cu t = (case cu__type cu (tag_type t) of
       Inl e \<Rightarrow> Some (Inl e)
     | Inr None \<Rightarrow> Some (Inr None)
     | Inr (Some ty) \<Rightarrow> if tag__is_typedef ty then tag__follow_typedef cu ty else Some (Inr (Some ty)))"

partial_function (option) resolve_typedef :: "cu \<Rightarrow> tag \<Rightarrow> tag option res option" where
  "resolve_typedef cu t =
     (if tag__is_typedef t
      then (case cu__type cu (tag_type t) of
          Inl e \<Rightarrow> Some (Inl e)
        | Inr None \<Rightarrow> Some (Inr None)
        | Inr (Some ty) \<Rightarrow>
            if has_type_loop t (Some ty) then Some (Inr None) else resolve_typedef cu ty)
      else Some (Inr (Some t)))"

fun nr_entries_loop :: "nat \<Rightarrow> u32 list \<Rightarrow> u64 \<Rightarrow> u64 res" where
  "nr_entries_loop 0 es n = Inr n"
| "nr_entries_loop (Suc d) [] n = ub ''nr_entries''"
| "nr_entries_loop (Suc d) (e # es) n = nr_entries_loop d es (n * ucast e)"

definition array_type__nr_entries :: "array_type \<Rightarrow> u64 res" where
  "array_type__nr_entries at = nr_entries_loop (unat (at_dimensions at)) (at_nr_entries at) 1"

definition tag_own_size :: "cu \<Rightarrow> tag \<Rightarrow> u64 option res" where
  \<comment> \<open>the sizes returned by the \<open>switch\<close>\<close>
  "tag_own_size cu t =
     (if tag_tag t = DW_TAG_member
      then bindE (tag__class_member t) (\<lambda>m.
        Inr (if cm_is_static m then Some 0 else if cm_byte_size m \<noteq> 0 then Some (cm_byte_size m) else None))
      else if tag_tag t = DW_TAG_pointer_type \<or> tag_tag t = DW_TAG_reference_type
      then Inr (Some (ucast (cu_addr_size cu)))
      else if tag_tag t = DW_TAG_base_type
      then bindE (tag__base_type t) (\<lambda>bt. Inr (Some (ucast (base_type__size bt))))
      else if tag_tag t = DW_TAG_enumeration_type
      then bindE (tag__type t) (\<lambda>(ty, ts). Inr (Some (ucast (ty_size ty div 8))))
      else Inr None)"

definition record_size :: "tag \<Rightarrow> u64 res" where
  "record_size t = bindE (tag__type t) (\<lambda>(ty, ts).
     Inr (if ty_size ty = 1 \<and> ty_nr_members ty = 0 then 0 else ucast (ty_size ty)))"

definition times_entries :: "tag \<Rightarrow> u64 \<Rightarrow> u64 res" where
  "times_entries t sz =
     (if tag_tag t = DW_TAG_array_type
      then bindE (tag__array_type t) (\<lambda>at. bindE (array_type__nr_entries at) (\<lambda>n. Inr (sz * n)))
      else Inr sz)"

partial_function (option) tag__size :: "cu \<Rightarrow> tag \<Rightarrow> u64 res option" where
  "tag__size cu t = (case tag_own_size cu t of
       Inl e \<Rightarrow> Some (Inl e)
     | Inr (Some sz) \<Rightarrow> Some (Inr sz)
     | Inr None \<Rightarrow>
         if tag_type t = 0 then Some (bindE (record_size t) (times_entries t))
         else (case cu__type cu (tag_type t) of
             Inl e \<Rightarrow> Some (Inl e)
           | Inr None \<Rightarrow> Some (Inr (- 1))
           | Inr (Some ty) \<Rightarrow>
               if has_type_loop t (Some ty) then Some (Inr (- 1))
               else Option.bind (tag__size cu ty) (\<lambda>r. Some (bindE r (times_entries t)))))"

section \<open>Searches\<close>

partial_function (option) for_each_type ::
  "(u16 \<Rightarrow> tag \<Rightarrow> 'r option res option) \<Rightarrow> cu \<Rightarrow> u16 \<Rightarrow> 'r option res option" where
  \<comment> \<open>\<open>cu__for_each_type\<close>: the body returns \<open>Some r\<close> to leave the loop with \<open>r\<close>\<close>
  "for_each_type body cu i =
     (if ucast i < pt_nr_entries (cu_types_table cu)
      then (case load_entry (cu_types_table cu) (ucast i) of
          Inl e \<Rightarrow> Some (Inl e)
        | Inr None \<Rightarrow> for_each_type body cu (i + 1)
        | Inr (Some pos) \<Rightarrow> (case body i pos of
              None \<Rightarrow> None
            | Some (Inl e) \<Rightarrow> Some (Inl e)
            | Some (Inr (Some r)) \<Rightarrow> Some (Inr (Some r))
            | Some (Inr None) \<Rightarrow> for_each_type body cu (i + 1)))
      else Some (Inr None))"

declare tag__follow_typedef.simps [code] resolve_typedef.simps [code] tag__size.simps [code] for_each_type.simps [code]

definition search_types :: "(u16 \<Rightarrow> tag \<Rightarrow> bool res) \<Rightarrow> cu \<Rightarrow> (u16 \<times> tag) option run" where
  "search_types P cu =
     for_each_type (\<lambda>i pos. Some (bindE (P i pos) (\<lambda>b. Inr (if b then Some (i, pos) else None)))) cu 1"

definition cu__find_first_typedef_of_type :: "cu \<Rightarrow> u16 \<Rightarrow> tag option run" where
  "cu__find_first_typedef_of_type cu type =
     (if type = 0 then retR None
      else bindR (search_types (\<lambda>i pos. Inr (tag__is_typedef pos \<and> tag_type pos = type)) cu)
        (\<lambda>r. retR (map_option snd r)))"

definition cu__find_base_type_by_name :: "cu \<Rightarrow> string \<Rightarrow> (u16 \<times> tag) option run" where
  "cu__find_base_type_by_name cu name =
     search_types (\<lambda>i pos.
       if tag_tag pos \<noteq> DW_TAG_base_type then Inr False
       else bindE (tag__base_type pos) (\<lambda>bt. bindE (base_type__name cu bt 64) (\<lambda>bname. Inr (bname = Some name)))) cu"

definition cu__find_base_type_by_sname_and_size :: "cu \<Rightarrow> strings_t \<Rightarrow> u16 \<Rightarrow> (u16 \<times> tag) option run" where
  "cu__find_base_type_by_sname_and_size cu sname bit_size =
     (if sname = 0 then retR None
      else search_types (\<lambda>i pos.
        if tag_tag pos = DW_TAG_base_type
        then bindE (tag__base_type pos) (\<lambda>bt. Inr (bt_bit_size bt = bit_size \<and> bt_name bt = sname))
        else Inr False) cu)"

definition cu__find_enumeration_by_sname_and_size :: "cu \<Rightarrow> strings_t \<Rightarrow> u16 \<Rightarrow> (u16 \<times> tag) option run" where
  "cu__find_enumeration_by_sname_and_size cu sname bit_size =
     (if sname = 0 then retR None
      else search_types (\<lambda>i pos.
        if tag_tag pos = DW_TAG_enumeration_type
        then bindE (tag__type pos) (\<lambda>(t, ts). Inr (ty_size t = ucast bit_size \<and> ns_name (ty_namespace t) = sname))
        else Inr False) cu)"

definition cu__find_struct_by_sname :: "cu \<Rightarrow> strings_t \<Rightarrow> bool \<Rightarrow> (u16 \<times> tag) option run" where
  "cu__find_struct_by_sname cu sname include_decls =
     (if sname = 0 then retR None
      else search_types (\<lambda>i pos.
        if \<not> tag__is_struct pos then Inr False
        else bindE (tag__type pos) (\<lambda>(type, ts).
          Inr (ns_name (ty_namespace type) = sname \<and> (\<not> ty_declaration type \<or> include_decls)))) cu)"

definition struct_by_name_body :: "cu \<Rightarrow> string \<Rightarrow> bool \<Rightarrow> u16 \<Rightarrow> tag \<Rightarrow> (u16 \<times> tag) option option run" where
  \<comment> \<open>the outer \<open>Some\<close> leaves the loop: with a tag (\<open>goto found\<close>) or with the null pointer (\<open>break\<close>)\<close>
  "struct_by_name_body cu name include_decls i pos =
     (if \<not> tag__is_typedef pos \<and> \<not> tag__is_struct pos then retR None
      else bindR (Some (tag__type pos)) (\<lambda>(type, ts).
        if type__name cu type = Some name
        then bindR (if tag__is_typedef pos then resolve_typedef cu pos else retR (Some pos)) (\<lambda>res. case res of
            None \<Rightarrow> retR (Some None)
          | Some pos' \<Rightarrow>
              if \<not> ty_declaration type \<or> include_decls then retR (Some (Some (i, pos'))) else retR None)
        else retR None))"

definition cu__find_struct_by_name :: "cu \<Rightarrow> string \<Rightarrow> bool \<Rightarrow> (u16 \<times> tag) option run" where
  "cu__find_struct_by_name cu name include_decls =
     bindR (for_each_type (struct_by_name_body cu name include_decls) cu 1) (\<lambda>r.
       retR (case r of None \<Rightarrow> None | Some x \<Rightarrow> x))"

fun cus__find_struct_by_name :: "cu list \<Rightarrow> string \<Rightarrow> bool \<Rightarrow> (cu \<times> u16 \<times> tag) option run" where
  "cus__find_struct_by_name [] name include_decls = retR None"
| "cus__find_struct_by_name (pos # cus) name include_decls =
     bindR (cu__find_struct_by_name pos name include_decls) (\<lambda>r. case r of
         Some (i, tag) \<Rightarrow> retR (Some (pos, i, tag))
       | None \<Rightarrow> cus__find_struct_by_name cus name include_decls)"

fun cus__find_cu_by_name :: "cu list \<Rightarrow> string \<Rightarrow> cu option" where
  "cus__find_cu_by_name [] name = None"
| "cus__find_cu_by_name (pos # cus) name =
     (if cu_name pos = Some name then Some pos else cus__find_cu_by_name cus name)"

fun function_by_name_loop :: "cu \<Rightarrow> string \<Rightarrow> nat \<Rightarrow> u32 \<Rightarrow> tag option res" where
  \<comment> \<open>\<open>cu__for_each_function\<close> with the number of entries still to visit\<close>
  "function_by_name_loop cu name 0 i = Inr None"
| "function_by_name_loop cu name (Suc n) i =
     bindE (load_entry (cu_functions_table cu) i) (\<lambda>p. case p of
         None \<Rightarrow> function_by_name_loop cu name n (i + 1)
       | Some pos \<Rightarrow> bindE (tag__function pos) (\<lambda>(lb, f).
           if function__name cu f = Some name then Inr (Some pos)
           else function_by_name_loop cu name n (i + 1)))"

definition cu__find_function_by_name :: "cu \<Rightarrow> string \<Rightarrow> tag option res" where
  "cu__find_function_by_name cu name =
     function_by_name_loop cu name (unat (pt_nr_entries (cu_functions_table cu))) 0"

fun cus__for_each_cu :: "(cu \<Rightarrow> 's \<Rightarrow> (bool \<times> 's) run) \<Rightarrow> (cu \<Rightarrow> cu option) \<Rightarrow> cu list \<Rightarrow> 's \<Rightarrow> 's run" where
  \<comment> \<open>the iterator stops the loop by returning true; without a filter \<open>filt\<close> is \<open>Some\<close>\<close>
  "cus__for_each_cu it filt [] s = retR s"
| "cus__for_each_cu it filt (pos # cus) s = (case filt pos of
       None \<Rightarrow> cus__for_each_cu it filt cus s
     | Some cu \<Rightarrow> bindR (it cu s) (\<lambda>(stop, s1).
         if stop then retR s1 else cus__for_each_cu it filt cus s1))"

end
