(* ===== verification/Dwarves_Class.thy ===== *)
theory Dwarves_Class
  imports Dwarves_Cu
begin

text \<open>
  Structures and their members (\<^verbatim>\<open>dwarves.c\<close>): adding and copying members, searches among them,
  and the computation of holes and padding that \<^verbatim>\<open>cus__add\<close> runs for every structure of a new
  compilation unit.
\<close>

section \<open>Members\<close>

definition namespace__add_tag :: "tag \<Rightarrow> namespace \<times> tag list \<Rightarrow> namespace \<times> tag list" where
  "namespace__add_tag t = (\<lambda>(ns, ts). (ns \<lparr> ns_nr_tags := ns_nr_tags ns + 1 \<rparr>, ts @ [t]))"

definition type_add_tag :: "tag \<Rightarrow> type_fields \<times> tag list \<Rightarrow> type_fields \<times> tag list" where
  \<comment> \<open>\<open>namespace__add_tag(&type->namespace, tag)\<close>\<close>
  "type_add_tag t = (\<lambda>(ty, ts).
     (let (ns, ts1) = namespace__add_tag t (ty_namespace ty, ts) in (ty \<lparr> ty_namespace := ns \<rparr>, ts1)))"

definition type__add_member :: "tag \<Rightarrow> type_fields \<times> tag list \<Rightarrow> (type_fields \<times> tag list) res" where
  "type__add_member t = (\<lambda>(ty, ts). bindE (tag__class_member t) (\<lambda>member.
     Inr (type_add_tag t
       (if cm_is_static member then ty \<lparr> ty_nr_static_members := ty_nr_static_members ty + 1 \<rparr>
        else ty \<lparr> ty_nr_members := ty_nr_members ty + 1 \<rparr>, ts))))"

definition enumeration__add :: "tag \<Rightarrow> type_fields \<times> tag list \<Rightarrow> type_fields \<times> tag list" where
  "enumeration__add t = (\<lambda>(ty, ts). type_add_tag t (ty \<lparr> ty_nr_members := ty_nr_members ty + 1 \<rparr>, ts))"

definition type__last_member :: "tag list \<Rightarrow> tag option" where
  "type__last_member ts = find (\<lambda>pos. tag_tag pos = DW_TAG_member) (rev ts)"

fun clone_members_loop :: "(nat \<Rightarrow> nat option) \<Rightarrow> tag list \<Rightarrow> type_fields \<times> tag list \<Rightarrow> (type_fields \<times> tag list) option res" where
  \<comment> \<open>\<open>fresh\<close>: the address the obstack returns for a copy of the member at this address\<close>
  "clone_members_loop fresh [] ty = Inr (Some ty)"
| "clone_members_loop fresh (pos # ts) ty =
     (if \<not> is_member_tag pos then clone_members_loop fresh ts ty
      else case fresh (tag_addr pos) of
          None \<Rightarrow> Inr None
        | Some a \<Rightarrow> bindE (type__add_member (Tag a (tag_type pos) (tag_tag pos) (tag_body pos)) ty)
            (clone_members_loop fresh ts))"

definition type__clone_members :: "(nat \<Rightarrow> nat option) \<Rightarrow> type_fields \<Rightarrow> tag list \<Rightarrow> (type_fields \<times> tag list) option res" where
  \<comment> \<open>into a type that was copied bytewise, so with the fields of \<open>from\<close>\<close>
  "type__clone_members fresh type from =
     clone_members_loop fresh from (type \<lparr> ty_nr_members := 0, ty_nr_static_members := 0 \<rparr>, [])"

definition class__clone ::
  "(nat \<Rightarrow> nat option) \<Rightarrow> string option \<Rightarrow> type_fields \<times> class_fields \<times> tag list \<Rightarrow>
   (type_fields \<times> class_fields \<times> tag list) option res" where
  "class__clone fresh new_class_name = (\<lambda>(ty, cl, ts).
     bindE (type__clone_members fresh
       (case new_class_name of
          None \<Rightarrow> ty
        | Some name \<Rightarrow> ty \<lparr> ty_namespace := (ty_namespace ty) \<lparr> ns_name := 0, ns_sname := Some name \<rparr> \<rparr>) ts)
       (\<lambda>r. Inr (map_option (\<lambda>(ty', ts'). (ty', cl, ts')) r)))"

fun data_member_search :: "(tag \<Rightarrow> class_member \<Rightarrow> bool) \<Rightarrow> (tag \<Rightarrow> bool) \<Rightarrow> tag list \<Rightarrow> tag option res" where
  \<comment> \<open>\<open>type__for_each_data_member\<close> up to a tag that stops the loop or one that is found\<close>
  "data_member_search P stop [] = Inr None"
| "data_member_search P stop (pos # ts) =
     (if tag_tag pos \<noteq> DW_TAG_member then data_member_search P stop ts
      else if stop pos then Inr None
      else bindE (tag__class_member pos) (\<lambda>m.
        if P pos m then Inr (Some pos) else data_member_search P stop ts))"

definition class__find_bit_hole :: "tag list \<Rightarrow> nat \<Rightarrow> u16 \<Rightarrow> tag option res" where
  "class__find_bit_hole ts trailer bit_hole_size =
     data_member_search (\<lambda>pos m. bit_hole_size div 8 \<le> cm_hole m \<or> bit_hole_size \<le> ucast (cm_bit_hole m))
       (\<lambda>pos. tag_addr pos = trailer) ts"

definition class__has_hole_ge :: "class_fields \<Rightarrow> tag list \<Rightarrow> u16 \<Rightarrow> bool res" where
  "class__has_hole_ge cl ts sz =
     (if cl_nr_holes cl = 0 then Inr False
      else bindE (data_member_search (\<lambda>pos m. sz \<le> cm_hole m) (\<lambda>_. False) ts) (\<lambda>r. Inr (r \<noteq> None)))"

definition type__find_member_by_name :: "cu \<Rightarrow> tag list \<Rightarrow> string option \<Rightarrow> tag option res" where
  "type__find_member_by_name cu ts name = (case name of
       None \<Rightarrow> Inr None
     | Some s \<Rightarrow> data_member_search (\<lambda>pos m. class_member__name cu m = Some s) (\<lambda>_. False) ts)"

definition type__nr_members_of_type :: "tag list \<Rightarrow> u16 \<Rightarrow> u32" where
  "type__nr_members_of_type ts type_id =
     of_nat (length (filter (\<lambda>pos. is_member_tag pos \<and> tag_type pos = type_id) ts))"

definition ftype__has_parm_of_type :: "cu \<Rightarrow> ftype \<Rightarrow> u16 \<Rightarrow> bool res" where
  "ftype__has_parm_of_type cu f target =
     foldr (\<lambda>pos r. bindE (cu__type cu (pa_type pos)) (\<lambda>t. case t of
         Some type \<Rightarrow> if tag_tag type = DW_TAG_pointer_type \<and> tag_type type = target then Inr True else r
       | None \<Rightarrow> r)) (ft_parms f) (Inr False)"

definition ftype__add_parameter :: "parameter \<Rightarrow> ftype \<Rightarrow> ftype" where
  "ftype__add_parameter p f = f \<lparr> ft_nr_parms := ft_nr_parms f + 1, ft_parms := ft_parms f @ [p] \<rparr>"

section \<open>Blocks\<close>

definition lexblock__add_tag :: "tag \<Rightarrow> lexblock \<times> tag list \<Rightarrow> lexblock \<times> tag list" where
  "lexblock__add_tag t = (\<lambda>(lb, ts). (lb, ts @ [t]))"

definition lexblock__add_lexblock :: "tag \<Rightarrow> lexblock \<times> tag list \<Rightarrow> lexblock \<times> tag list" where
  "lexblock__add_lexblock child = (\<lambda>(lb, ts). (lb \<lparr> lb_nr_lexblocks := lb_nr_lexblocks lb + 1 \<rparr>, ts @ [child]))"

definition lexblock__add_inline_expansion :: "tag \<Rightarrow> lexblock \<times> tag list \<Rightarrow> (lexblock \<times> tag list) res" where
  "lexblock__add_inline_expansion t = (\<lambda>(lb, ts). case tag_body t of
       Inline_Body addr sz \<Rightarrow> Inr (lexblock__add_tag t
         (lb \<lparr> lb_nr_inline_expansions := lb_nr_inline_expansions lb + 1,
               lb_size_inline_expansions := lb_size_inline_expansions lb + ucast sz \<rparr>, ts))
     | _ \<Rightarrow> ub ''inline_expansion'')"

definition lexblock__add_variable :: "tag \<Rightarrow> lexblock \<times> tag list \<Rightarrow> lexblock \<times> tag list" where
  "lexblock__add_variable t = (\<lambda>(lb, ts). lexblock__add_tag t (lb \<lparr> lb_nr_variables := lb_nr_variables lb + 1 \<rparr>, ts))"

definition lexblock__add_label :: "tag \<Rightarrow> lexblock \<times> tag list \<Rightarrow> lexblock \<times> tag list" where
  "lexblock__add_label t = (\<lambda>(lb, ts). lexblock__add_tag t (lb \<lparr> lb_nr_labels := lb_nr_labels lb + 1 \<rparr>, ts))"

section \<open>Holes\<close>

record hole_state =
  hs_tags :: "tag list"
  hs_last :: "nat option"   \<comment> \<open>position of \<open>last\<close> in the list of tags\<close>
  hs_last_size :: u64
  hs_bit_sum :: u32
  hs_real_offset :: u32
  hs_nr_holes :: u8
  hs_nr_bit_holes :: u8

definition set_member :: "nat \<Rightarrow> class_member \<Rightarrow> tag list \<Rightarrow> tag list" where
  "set_member k m ts = ts[k := Tag (tag_addr (ts ! k)) (tag_type (ts ! k)) (tag_tag (ts ! k)) (Member_Body m)]"

definition account_last :: "nat \<Rightarrow> class_member \<Rightarrow> class_member \<Rightarrow> hole_state \<Rightarrow> hole_state" where
  "account_last k lst pos s =
     (let cc_last_size = uint (cm_byte_offset pos) - uint (cm_byte_offset lst) in
      if 0 < cc_last_size
      then
        let last_size = (if word_of_int cc_last_size < hs_last_size s then word_of_int cc_last_size
                         else hs_last_size s);
            hole = ucast (word_of_int cc_last_size - last_size);
            lst = lst \<lparr> cm_hole := hole \<rparr>;
            s = s \<lparr> hs_last_size := last_size,
                    hs_nr_holes := (if hole \<noteq> 0 then hs_nr_holes s + 1 else hs_nr_holes s) \<rparr>
        in if hs_bit_sum s \<noteq> 0
           then
             let last_size = (if hs_real_offset s \<noteq> 0 then ucast (hs_real_offset s - cm_byte_offset lst)
                              else last_size);
                 bit_hole = ucast (last_size * 8 - ucast (hs_bit_sum s));
                 lst = lst \<lparr> cm_bit_hole := bit_hole, cm_bitfield_end := True \<rparr>
             in s \<lparr> hs_tags := set_member k lst (hs_tags s), hs_last_size := last_size,
                    hs_real_offset := 0, hs_bit_sum := 0,
                    hs_nr_bit_holes := (if bit_hole \<noteq> 0 then hs_nr_bit_holes s + 1 else hs_nr_bit_holes s) \<rparr>
           else s \<lparr> hs_tags := set_member k lst (hs_tags s) \<rparr>
      else if cc_last_size < 0 \<and> hs_bit_sum s = 0
      then s \<lparr> hs_real_offset := ucast (ucast (cm_byte_offset lst) + hs_last_size s) \<rparr>
      else s)"

definition enter_member :: "nat \<Rightarrow> class_member \<Rightarrow> class_member option \<Rightarrow> hole_state \<Rightarrow> hole_state" where
  \<comment> \<open>the end of the loop body: the member becomes \<open>last\<close>\<close>
  "enter_member k pos lst s = s \<lparr>
     hs_bit_sum := hs_bit_sum s + ucast (cm_bitfield_size pos),
     hs_last_size :=
       (case lst of
          None \<Rightarrow> cm_byte_size pos
        | Some l \<Rightarrow>
            if cm_byte_offset l \<noteq> cm_byte_offset pos \<or> cm_bitfield_size pos = 0 \<or> cm_bitfield_size l = 0
            then cm_byte_size pos
            else if hs_last_size s < cm_byte_size pos then cm_byte_size pos else hs_last_size s),
     hs_last := Some k \<rparr>"

definition last_member :: "hole_state \<Rightarrow> class_member option res" where
  "last_member s = (case hs_last s of
       None \<Rightarrow> Inr None
     | Some k \<Rightarrow> bindE (tag__class_member (hs_tags s ! k)) (\<lambda>m. Inr (Some m)))"

definition hole_step :: "nat \<Rightarrow> hole_state \<Rightarrow> hole_state res" where
  "hole_step i s =
     (let t = hs_tags s ! i in
      if \<not> is_member_tag t then Inr s
      else bindE (tag__class_member t) (\<lambda>pos.
        if tag_tag t = DW_TAG_inheritance \<and> cm_virtuality pos = DW_VIRTUALITY_virtual then Inr s
        else if cm_is_static pos then Inr s
        else bindE (last_member s) (\<lambda>lst.
          let s1 = (case (hs_last s, lst) of (Some k, Some l) \<Rightarrow> account_last k l pos s | _ \<Rightarrow> s)
          in Inr (enter_member i pos lst s1))))"

fun hole_loop :: "nat list \<Rightarrow> hole_state \<Rightarrow> hole_state res" where
  "hole_loop [] s = Inr s"
| "hole_loop (i # is) s = bindE (hole_step i s) (hole_loop is)"

definition class__find_holes :: "type_fields \<Rightarrow> class_fields \<Rightarrow> tag list \<Rightarrow> (class_fields \<times> tag list) res" where
  "class__find_holes ty cl ts =
     bindE (hole_loop [0 ..< length ts]
       \<lparr> hs_tags = ts, hs_last = None, hs_last_size = 0, hs_bit_sum = 0, hs_real_offset = 0,
         hs_nr_holes = 0, hs_nr_bit_holes = 0 \<rparr>) (\<lambda>s.
     bindE (last_member s) (\<lambda>lst.
       let cl1 = cl \<lparr> cl_nr_holes := hs_nr_holes s, cl_nr_bit_holes := hs_nr_bit_holes s \<rparr> in
       Inr (case lst of
           None \<Rightarrow> cl1 \<lparr> cl_padding := 0 \<rparr>
         | Some l \<Rightarrow>
             let used = ucast (cm_byte_offset l) + hs_last_size s;
                 cl2 = (if used \<noteq> ucast (ty_size ty) then cl1 \<lparr> cl_padding := ucast (ucast (ty_size ty) - used) \<rparr> else cl1)
             in if cm_bitfield_size l \<noteq> 0
                then cl2 \<lparr> cl_bit_padding := ucast (hs_last_size s * 8 - ucast (hs_bit_sum s)) \<rparr> else cl2,
         hs_tags s)))"

definition find_holes_of :: "tag \<Rightarrow> tag res" where
  "find_holes_of t = (case tag_body t of
       Class_Body ty cl ts \<Rightarrow> bindE (class__find_holes ty cl ts) (\<lambda>(cl', ts').
         Inr (Tag (tag_addr t) (tag_type t) (tag_tag t) (Class_Body ty cl' ts')))
     | _ \<Rightarrow> ub ''tag__class'')"

partial_function (option) find_class_holes_loop :: "u16 \<Rightarrow> cu \<Rightarrow> cu res option" where
  \<comment> \<open>\<open>cu__for_each_struct\<close>\<close>
  "find_class_holes_loop i cu =
     (if ucast i < pt_nr_entries (cu_types_table cu)
      then (case load_entry (cu_types_table cu) (ucast i) of
          Inl e \<Rightarrow> Some (Inl e)
        | Inr None \<Rightarrow> find_class_holes_loop (i + 1) cu
        | Inr (Some pos) \<Rightarrow>
            if \<not> tag__is_struct pos then find_class_holes_loop (i + 1) cu
            else (case find_holes_of pos of
                Inl e \<Rightarrow> Some (Inl e)
              | Inr pos' \<Rightarrow> find_class_holes_loop (i + 1) (cu \<lparr> cu_types_table :=
                  (cu_types_table cu) \<lparr> pt_entries := (pt_entries (cu_types_table cu))[unat i := Some (Some pos')] \<rparr> \<rparr>)))
      else Some (Inr cu))"

declare find_class_holes_loop.simps [code]

definition cu__find_class_holes :: "cu \<Rightarrow> cu run" where
  "cu__find_class_holes cu = find_class_holes_loop 1 cu"

definition cus__add :: "cu \<Rightarrow> cu list \<Rightarrow> cu list run" where
  "cus__add cu cus = bindR (cu__find_class_holes cu) (\<lambda>cu'. retR (cus @ [cu']))"

end
