(* ===== verification/Dwarves_Print.thy ===== *)
theory Dwarves_Print
  imports Dwarves_Class
begin

text \<open>
  The printers of \<^verbatim>\<open>dwarves_fprintf.c\<close> that write the layout of the structures. What a call
  writes to the file is added to \<open>ps_fp\<close>; the extension record \<^verbatim>\<open>dwarves_convert_ext\<close> that the
  calls share and change is part of the same state, and so is the state \<open>ps_ids\<close> of the callback
  \<^verbatim>\<open>add_member_name\<close>. The printers call each other along the type graph, which need not be
  acyclic: each call spends one unit of fuel.
\<close>

section \<open>Composing member names\<close>

definition MAX_STRING_LEN :: nat where
  "MAX_STRING_LEN = 10"

record str_buf =
  sb_output :: "string option"   \<comment> \<open>the characters in front of the terminator\<close>
  sb_size :: nat
  sb_pos :: nat

function print_loop :: "(nat \<Rightarrow> bool) \<Rightarrow> string \<Rightarrow> str_buf \<Rightarrow> str_buf option" where
  \<comment> \<open>the retries of \<open>print_to_string\<close>; \<open>alloc\<close>: does \<open>realloc\<close> to this size succeed\<close>
  "print_loop alloc text sb =
     (let out = (case sb_output sb of None \<Rightarrow> [] | Some s \<Rightarrow> s);
          remaining_size = sb_size sb - sb_pos sb;
          sb1 = sb \<lparr> sb_output := Some (take (sb_pos sb) out @ snprintf_buf remaining_size text) \<rparr>
      in if remaining_size \<le> length text
         then if alloc (sb_size sb + MAX_STRING_LEN)
              then print_loop alloc text (sb1 \<lparr> sb_size := sb_size sb + MAX_STRING_LEN \<rparr>)
              else None
         else Some (sb1 \<lparr> sb_pos := sb_pos sb + length text \<rparr>))"
  by pat_completeness auto
termination
  by (relation "measure (\<lambda>(alloc, text, sb). sb_pos sb + length text + 1 - sb_size sb)")
     (auto simp: MAX_STRING_LEN_def)

declare print_loop.simps [simp del]

definition print_to_string :: "(nat \<Rightarrow> bool) \<Rightarrow> string \<Rightarrow> bool \<Rightarrow> str_buf \<Rightarrow> str_buf option" where
  "print_to_string alloc text use_sep sb =
     (let line = text @ (if use_sep then ''.'' else '''') in
      case sb_output sb of
        Some _ \<Rightarrow> print_loop alloc line sb
      | None \<Rightarrow>
          if alloc MAX_STRING_LEN
          then print_loop alloc line (sb \<lparr> sb_output := Some [], sb_size := MAX_STRING_LEN \<rparr>)
          else None)"

fun concat_prefixes :: "(nat \<Rightarrow> bool) \<Rightarrow> string option list \<Rightarrow> str_buf \<Rightarrow> str_buf option res" where
  "concat_prefixes alloc [] sb = Inr (Some sb)"
| "concat_prefixes alloc (p # ps) sb = bindE (c_string p) (\<lambda>text.
     case print_to_string alloc text True sb of
       None \<Rightarrow> Inr None
     | Some sb1 \<Rightarrow> concat_prefixes alloc ps sb1)"

definition dwarves_convert_concat_members ::
  "(nat \<Rightarrow> bool) \<Rightarrow> string option list \<Rightarrow> nat \<Rightarrow> string \<Rightarrow> string option res" where
  "dwarves_convert_concat_members alloc name_prefixes next_prefix_idx member_name =
     bindE (concat_prefixes alloc (take next_prefix_idx name_prefixes)
       \<lparr> sb_output = None, sb_size = 0, sb_pos = 0 \<rparr>) (\<lambda>r. case r of
         None \<Rightarrow> Inr None
       | Some sb \<Rightarrow> (case print_to_string alloc member_name False sb of
             None \<Rightarrow> Inr None
           | Some sb1 \<Rightarrow> Inr (sb_output sb1)))"

section \<open>Names of types\<close>

definition id_not_found_text :: "string \<Rightarrow> nat \<Rightarrow> u16 \<Rightarrow> string" where
  \<comment> \<open>\<open>__tag__id_not_found_snprintf\<close>, format \<open>%#llx\<close>\<close>
  "id_not_found_text fn line i =
     ''<ERROR('' @ fn @ '':'' @ dec_of_nat line @ ''): '' @ showbase_hex (ucast i) @ '' not found!>''"

definition id_not_found_line :: "string \<Rightarrow> nat \<Rightarrow> u16 \<Rightarrow> string" where
  \<comment> \<open>\<open>__tag__id_not_found_fprintf\<close>, format \<open>%d\<close>\<close>
  "id_not_found_line fn line i =
     ''<ERROR('' @ fn @ '':'' @ dec_of_nat line @ ''): '' @ dec_u16 i @ '' not found!>'' @ [CHR 0x0A]"

definition tag__prefix :: "cu \<Rightarrow> u16 \<Rightarrow> string" where
  "tag__prefix cu tag =
     (if tag = DW_TAG_enumeration_type then ''enum ''
      else if tag = DW_TAG_structure_type
      then (if cu_language cu = DW_LANG_C_plus_plus then ''class '' else ''struct '')
      else if tag = DW_TAG_class_type then ''class ''
      else if tag = DW_TAG_union_type then ''union ''
      else if tag = DW_TAG_pointer_type then '' *''
      else if tag = DW_TAG_reference_type then '' &''
      else '''')"

text \<open>
  \<open>name_fn\<close> is the type of \<^verbatim>\<open>__tag__name\<close> (a tag or the null pointer, the length of the buffer; the
  string left in the buffer) and \<open>ftype_fn\<close> that of \<^verbatim>\<open>ftype__fprintf\<close> (the tag, the name, \<^verbatim>\<open>inlined\<close>,
  \<^verbatim>\<open>is_pointer\<close>; the text written): the bodies below take the recursive calls as arguments.
\<close>

type_synonym name_fn = "tag option \<Rightarrow> nat \<Rightarrow> string run"
type_synonym ftype_fn = "tag \<Rightarrow> string option \<Rightarrow> bool \<Rightarrow> bool \<Rightarrow> string run"

definition tag__ptr_name :: "name_fn \<Rightarrow> cu \<Rightarrow> tag \<Rightarrow> nat \<Rightarrow> string \<Rightarrow> string run" where
  "tag__ptr_name name cu t len ptr_suffix =
     (if tag_type t = 0 then retR (snprintf_buf len (''void '' @ ptr_suffix))
      else bindR (Some (cu__type cu (tag_type t))) (\<lambda>type. case type of
          None \<Rightarrow>
            let msg = id_not_found_text ''tag__ptr_name'' 274 (tag_type t)
            in Some (snprintf_at (snprintf_buf len msg) (length msg) len ('' '' @ ptr_suffix))
        | Some ty \<Rightarrow>
            if has_type_loop t (Some ty)
            then Some (bindE (type_loop_message ''tag__ptr_name'' 276 t) (\<lambda>msg. Inr (snprintf_buf len msg)))
            else bindR (name (Some ty) 1024) (\<lambda>s. retR (snprintf_buf len (s @ '' '' @ ptr_suffix)))))"

definition ptr_to_member_suffix :: "cu \<Rightarrow> u16 \<Rightarrow> string res" where
  "ptr_to_member_suffix cu i =
     bindE (cu__type cu i) (\<lambda>type. case type of
         Some ty \<Rightarrow> bindE (c_string (tag_as_type_name cu ty)) (\<lambda>n. Inr (snprintf_buf 512 (n @ ''::*'')))
       | None \<Rightarrow>
           let msg = id_not_found_text ''__tag__name'' 346 i
           in snprintf_at (snprintf_buf 512 msg) (length msg) 512 ''::*'')"

definition tag_name_body :: "name_fn \<Rightarrow> ftype_fn \<Rightarrow> cu \<Rightarrow> tag option \<Rightarrow> nat \<Rightarrow> string run" where
  \<comment> \<open>\<open>__tag__name\<close>\<close>
  "tag_name_body name ftype cu tg len = (case tg of
       None \<Rightarrow> Some (strncpy_buf len ''void'')
     | Some t \<Rightarrow>
        if tag_tag t = DW_TAG_base_type
        then Some (bindE (tag__base_type t) (\<lambda>bt.
          if bt_name bt = 0 then strncpy_buf len ''nameless base type!''
          else bindE (base_type__name cu bt 64) (\<lambda>n. bindE (c_string n) (strncpy_buf len))))
        else if tag_tag t = DW_TAG_subprogram
        then Some (bindE (tag__function t) (\<lambda>(lb, f). bindE (c_string (function__name cu f)) (strncpy_buf len)))
        else if tag_tag t = DW_TAG_pointer_type then tag__ptr_name name cu t len ''*''
        else if tag_tag t = DW_TAG_reference_type then tag__ptr_name name cu t len ''&''
        else if tag_tag t = DW_TAG_ptr_to_member_type
        then bindR (Some (bindE (tag__ptr_to_member_type t) (ptr_to_member_suffix cu))) (tag__ptr_name name cu t len)
        else if tag_tag t = DW_TAG_volatile_type \<or> tag_tag t = DW_TAG_const_type
        then bindR (Some (cu__type cu (tag_type t))) (\<lambda>type.
          if type = None \<and> tag_type t \<noteq> 0
          then retR (snprintf_buf len (id_not_found_text ''__tag__name'' 358 (tag_type t)))
          else if has_type_loop t type
          then Some (bindE (type_loop_message ''__tag__name'' 359 t) (\<lambda>msg. Inr (snprintf_buf len msg)))
          else bindR (name type 128) (\<lambda>type_str.
            retR (snprintf_buf len
              ((if tag_tag t = DW_TAG_volatile_type then ''volatile'' else ''const'') @ '' '' @ type_str @ '' ''))))
        else if tag_tag t = DW_TAG_array_type
        then bindR (Some (cu__type cu (tag_type t))) (\<lambda>type.
          if type = None then retR (snprintf_buf len (id_not_found_text ''__tag__name'' 372 (tag_type t)))
          else if has_type_loop t type
          then Some (bindE (type_loop_message ''__tag__name'' 373 t) (\<lambda>msg. Inr (snprintf_buf len msg)))
          else name type len)
        else if tag_tag t = DW_TAG_subroutine_type
        then bindR (ftype t None False False) (\<lambda>s. retR (snprintf_buf len s))
        else if tag_tag t = DW_TAG_member
        then Some (bindE (tag__class_member t) (\<lambda>m. bindE (c_string (class_member__name cu m)) (\<lambda>s. Inr (snprintf_buf len s))))
        else if tag_tag t = DW_TAG_variable
        then Some (bindE (tag__variable t) (\<lambda>v. bindE (c_string (variable__name cu v)) (\<lambda>s. Inr (snprintf_buf len s))))
        else retR (snprintf_buf len (tag__prefix cu (tag_tag t) @
               (case tag_as_type_name cu t of None \<Rightarrow> '''' | Some n \<Rightarrow> n))))"

definition tag_name_with :: "name_fn \<Rightarrow> cu \<Rightarrow> tag option \<Rightarrow> nat \<Rightarrow> string run" where
  \<comment> \<open>\<open>tag__name\<close>; every caller passes the size of its buffer less one\<close>
  "tag_name_with name cu tg len = (case tg of
       None \<Rightarrow> Some (strncpy_buf len ''void'')
     | Some t \<Rightarrow>
         if tag_tag t = DW_TAG_const_type
         then bindR (Some (cu__type cu (tag_type t))) (\<lambda>type.
           bindR (name type len) (\<lambda>s.
             if length s + length ''const'' \<le> len then retR (s @ ''const'') else Some (ub ''strncat overflows'')))
         else name (Some t) len)"

definition parameter_text :: "name_fn \<Rightarrow> ftype_fn \<Rightarrow> cu \<Rightarrow> parameter \<Rightarrow> (string \<times> bool) run" where
  \<comment> \<open>one round of the loop of \<open>ftype__fprintf_parms\<close>: the text and whether the function returns\<close>
  "parameter_text name ftype cu pos =
     (let pname = parameter__name cu pos;
          print_it = (\<lambda>stype. stype @ (case pname of None \<Rightarrow> '''' | Some n \<Rightarrow> '' '' @ n));
          plain = (\<lambda>ty. bindR (tag_name_with name cu (Some ty) 127) (\<lambda>stype. retR (print_it stype, False)))
      in bindR (Some (cu__type cu (pa_type pos))) (\<lambda>type. case type of
          None \<Rightarrow> retR (print_it (snprintf_buf 128 (''<ERROR: type '' @ dec_u16 (pa_type pos) @ '' not found>'')), False)
        | Some ty \<Rightarrow>
            if tag_tag ty = DW_TAG_pointer_type
            then if tag_type ty \<noteq> 0
              then bindR (Some (cu__type cu (tag_type ty))) (\<lambda>ptype. case ptype of
                  None \<Rightarrow> retR (id_not_found_line ''ftype__fprintf_parms'' 687 (tag_type ty), False)
                | Some pty \<Rightarrow>
                    if has_type_loop ty (Some pty)
                    then Some (bindE (type_loop_message ''ftype__fprintf_parms'' 690 ty) (\<lambda>msg.
                      Inr (snprintf_buf 2048 msg @ [CHR 0x0A], True)))
                    else if tag_tag pty = DW_TAG_subroutine_type
                    then bindR (ftype pty pname False True) (\<lambda>s. retR (s, False))
                    else plain ty)
              else plain ty
            else if tag_tag ty = DW_TAG_subroutine_type
            then bindR (ftype ty pname False False) (\<lambda>s. retR (s, False))
            else plain ty))"

fun parameters_text :: "(parameter \<Rightarrow> (string \<times> bool) run) \<Rightarrow> parameter list \<Rightarrow> (string \<times> bool) run" where
  "parameters_text p [] = retR ([], False)"
| "parameters_text p (pos # parms) = bindR (p pos) (\<lambda>(s, stop).
     if stop then retR (s, True)
     else bindR (parameters_text p parms) (\<lambda>(s1, stop1). retR (s @ s1, stop1)))"

definition ftype__fprintf_parms :: "name_fn \<Rightarrow> ftype_fn \<Rightarrow> cu \<Rightarrow> ftype \<Rightarrow> string run" where
  "ftype__fprintf_parms name ftype cu f =
     bindR (parameters_text (parameter_text name ftype cu) (ft_parms f)) (\<lambda>(s, stop).
       retR (''('' @ s @ (if stop then '''' else if ft_parms f = [] then ''void)''
                          else if ft_unspec_parms f then '', ...)'' else '')'')))"

definition ftype_body :: "name_fn \<Rightarrow> ftype_fn \<Rightarrow> cu \<Rightarrow> tag \<Rightarrow> string option \<Rightarrow> bool \<Rightarrow> bool \<Rightarrow> string run" where
  \<comment> \<open>\<open>ftype__fprintf\<close>\<close>
  "ftype_body name ftype cu t fname inlined is_pointer =
     bindR (Some (tag__ftype t)) (\<lambda>f.
     bindR (Some (cu__type cu (tag_type t))) (\<lambda>type.
     bindR (tag_name_with name cu type 127) (\<lambda>stype.
     bindR (ftype__fprintf_parms name ftype cu f) (\<lambda>parms.
       retR ((if inlined then ''inline '' else '''') @ stype @ '' '' @
             (if tag_tag t = DW_TAG_subroutine_type then ''('' else '''') @
             (if is_pointer then ''*'' else '''') @ (case fname of None \<Rightarrow> '''' | Some n \<Rightarrow> n) @
             (if tag_tag t = DW_TAG_subroutine_type then '')'' else '''') @ parms)))))"

fun tag_name_fuel :: "nat \<Rightarrow> cu \<Rightarrow> tag option \<Rightarrow> nat \<Rightarrow> string run"
  and ftype__fprintf :: "nat \<Rightarrow> cu \<Rightarrow> tag \<Rightarrow> string option \<Rightarrow> bool \<Rightarrow> bool \<Rightarrow> string run" where
  "tag_name_fuel 0 cu tg len = None"
| "tag_name_fuel (Suc n) cu tg len = tag_name_body (tag_name_fuel n cu) (ftype__fprintf n cu) cu tg len"
| "ftype__fprintf 0 cu t fname inlined is_pointer = None"
| "ftype__fprintf (Suc n) cu t fname inlined is_pointer =
     ftype_body (tag_name_fuel n cu) (ftype__fprintf n cu) cu t fname inlined is_pointer"

definition tag__name :: "nat \<Rightarrow> cu \<Rightarrow> tag option \<Rightarrow> nat \<Rightarrow> string run" where
  "tag__name n cu tg len = tag_name_with (tag_name_fuel n cu) cu tg len"

definition function__prototype :: "nat \<Rightarrow> cu \<Rightarrow> tag \<Rightarrow> nat \<Rightarrow> string run" where
  "function__prototype n cu f len = bindR (ftype__fprintf n cu f None False False) (\<lambda>s. retR (snprintf_buf len s))"

end
