(* ===== verification/Dwarves_Layout.thy ===== *)
theory Dwarves_Layout
  imports Dwarves_Print
begin

text \<open>
  The second half of \<^verbatim>\<open>dwarves_fprintf.c\<close>: the mutually recursive printers that write one row per
  member of a structure and descend into members whose type is to be expanded.
\<close>

section \<open>State\<close>

record 'c pstate =
  ps_fp :: string
  ps_name_prefixes :: "string option list"   \<comment> \<open>16 pointers\<close>
  ps_next_prefix_idx :: nat
  ps_offset :: u32
  ps_ids :: 'c

record 'c penv =
  pe_type_id :: u64
  pe_expand_type :: "string \<Rightarrow> bool"
  pe_add_member_name :: "string \<Rightarrow> 'c \<Rightarrow> u64 \<times> 'c"
  pe_delimiter :: char
  pe_alloc :: "nat \<Rightarrow> bool"   \<comment> \<open>does an allocation of this size succeed\<close>

definition put :: "string \<Rightarrow> 'c pstate \<Rightarrow> 'c pstate" where
  "put s st = st \<lparr> ps_fp := ps_fp st @ s \<rparr>"

definition dec_llu :: "u64 \<Rightarrow> string" where
  "dec_llu w = dec_of_nat (unat w)"

text \<open>
  The type of \<^verbatim>\<open>type__fprintf\<close>: the type (or null), the name, the name to use as a prefix, the
  offset; the result is true when the printer descended into a structure.
\<close>

type_synonym 'c type_fn = "tag option \<Rightarrow> string option \<Rightarrow> string option \<Rightarrow> u32 \<Rightarrow> 'c pstate \<Rightarrow> (bool \<times> 'c pstate) run"

section \<open>Arrays\<close>

definition print_elements :: "'c type_fn \<Rightarrow> cu \<Rightarrow> tag \<Rightarrow> string option \<Rightarrow> int \<Rightarrow> nat \<Rightarrow> 'c pstate \<Rightarrow> 'c pstate run" where
  \<comment> \<open>the rest of the elements of an array of structures; \<open>i * tag_size\<close> is computed as an \<open>int\<close>\<close>
  "print_elements type_rec cu ty name tag_size nr =
     foldR (\<lambda>i st.
       if 2 ^ 31 \<le> int i * tag_size \<or> int i * tag_size < - (2 ^ 31) then Some (ub ''signed overflow'')
       else bindR (type_rec (Some ty) name name (word_of_int (int i * tag_size)) st) (\<lambda>(_, st1). retR st1)) [1 ..< nr]"

fun dimensions_text :: "nat \<Rightarrow> u32 list \<Rightarrow> string res" where
  "dimensions_text 0 es = Inr []"
| "dimensions_text (Suc d) [] = ub ''nr_entries''"
| "dimensions_text (Suc d) (e # es) = bindE (dimensions_text d es) (\<lambda>s. Inr (''['' @ dec_u e @ '']'' @ s))"

fun flat_dimensions_loop :: "nat \<Rightarrow> nat \<Rightarrow> u32 list \<Rightarrow> u64 \<Rightarrow> u64 res" where
  \<comment> \<open>the rounds left, the number of the round, the entries left\<close>
  "flat_dimensions_loop 0 i es flat = Inr flat"
| "flat_dimensions_loop (Suc d) i [] flat = ub ''nr_entries''"
| "flat_dimensions_loop (Suc d) i (e # es) flat =
     (if e = 0 \<and> i = 0 then Inr flat
      else flat_dimensions_loop d (i + 1) es (if flat = 0 then ucast e else flat * ucast e))"

definition vector_text :: "cu \<Rightarrow> tag \<Rightarrow> u64 \<Rightarrow> string run" where
  "vector_text cu t flat =
     bindR (tag__follow_typedef cu t) (\<lambda>type. case type of
         None \<Rightarrow> Some (ub ''tag__size of the null pointer'')
       | Some ty \<Rightarrow> bindR (tag__size cu ty) (\<lambda>sz.
           retR ('' __attribute__ ((__vector_size__ ('' @ dec_llu ((if flat = 0 then 1 else flat) * sz) @ '')))'')))"

definition array_type__fprintf ::
  "'c type_fn \<Rightarrow> cu \<Rightarrow> tag \<Rightarrow> string option \<Rightarrow> 'c pstate \<Rightarrow> (bool \<times> 'c pstate) run" where
  "array_type__fprintf type_rec cu t name st =
     bindR (Some (tag__array_type t)) (\<lambda>at.
     bindR (Some (cu__type cu (tag_type t))) (\<lambda>type.
     let st1 = (if type = None then put (id_not_found_line ''array_type__fprintf'' 202 (tag_type t)) st else st) in
     bindR (type_rec type name name 0 st1) (\<lambda>(recursed, st2).
       if recursed \<and> at_dimensions at = 1
       then (case (type, at_nr_entries at) of
           (Some ty, e # _) \<Rightarrow> bindR (tag__size cu ty) (\<lambda>sz.
             bindR (print_elements type_rec cu ty name (int_of_ull sz) (unat e) st2) (\<lambda>st3. retR (True, st3)))
         | _ \<Rightarrow> Some (ub ''nr_entries''))
       else if at_is_vector at
       then bindR (Some (flat_dimensions_loop (unat (at_dimensions at)) 0 (at_nr_entries at) 0)) (\<lambda>flat.
            bindR (vector_text cu t flat) (\<lambda>s. retR (False, put s st2)))
       else bindR (Some (dimensions_text (unat (at_dimensions at)) (at_nr_entries at))) (\<lambda>s.
            retR (False, put s st2)))))"

section \<open>Structures\<close>

fun union_name :: "cu \<Rightarrow> tag list \<Rightarrow> string option res" where
  \<comment> \<open>the names of the members of a union, joined by dashes\<close>
  "union_name cu [] = Inr None"
| "union_name cu (t # ts) =
     (if \<not> is_member_tag t then union_name cu ts
      else bindE (tag__class_member t) (\<lambda>pos.
        bindE (cu__type cu (tag_type t)) (\<lambda>type.
        bindE (union_name cu ts) (\<lambda>rest.
          case (type, class_member__name cu pos) of
            (Some _, Some n) \<Rightarrow>
              Inr (Some (n @ (if ts = [] then '''' else ''-'') @ (case rest of None \<Rightarrow> '''' | Some r \<Rightarrow> r)))
          | _ \<Rightarrow> Inr rest))))"

definition anonymous_name :: "u32 \<Rightarrow> string res" where
  \<comment> \<open>\<open>sprintf\<close> into a buffer of 19 bytes\<close>
  "anonymous_name offset =
     (let s = ''anonymous_'' @ dec_d offset
      in if length s + 1 \<le> length ''anonymous'' + 10 then Inr s else ub ''sprintf overflows'')"

definition member_print_name :: "cu \<Rightarrow> class_member \<Rightarrow> tag \<Rightarrow> string res" where
  \<comment> \<open>the variable \<open>cm_name\<close>\<close>
  "member_print_name cu member type =
     bindE (if tag__is_union type then bindE (tag__type type) (\<lambda>(ty, ts). union_name cu ts) else Inr None) (\<lambda>u.
       case (u, class_member__name cu member) of
         (Some n, _) \<Rightarrow> Inr n
       | (None, Some n) \<Rightarrow> Inr n
       | (None, None) \<Rightarrow> anonymous_name (cm_byte_offset member))"

definition printed_size :: "class_member \<Rightarrow> tag \<Rightarrow> bool \<Rightarrow> int res" where
  \<comment> \<open>a trailing array without elements counts as 1 MiB\<close>
  "printed_size member type is_last =
     (if tag_tag type = DW_TAG_array_type
      then bindE (tag__array_type type) (\<lambda>at. case at_nr_entries at of
          [] \<Rightarrow> ub ''nr_entries''
        | e # _ \<Rightarrow> Inr (if e = 0 \<and> is_last then 1024 * 1024 else int_of_ull (cm_byte_size member)))
      else Inr (int_of_ull (cm_byte_size member)))"

definition add_full_name :: "'c penv \<Rightarrow> string \<Rightarrow> 'c pstate \<Rightarrow> (u64 \<times> 'c pstate) res" where
  "add_full_name env member_name st =
     bindE (dwarves_convert_concat_members (pe_alloc env) (ps_name_prefixes st) (ps_next_prefix_idx st) member_name)
       (\<lambda>full. let (i, ids) = pe_add_member_name env (case full of None \<Rightarrow> ''<error>'' | Some n \<Rightarrow> n) (ps_ids st)
               in Inr (i, st \<lparr> ps_ids := ids \<rparr>))"

definition struct_member__fprintf ::
  "'c type_fn \<Rightarrow> 'c penv \<Rightarrow> cu \<Rightarrow> tag \<Rightarrow> tag \<Rightarrow> bool \<Rightarrow> 'c pstate \<Rightarrow> 'c pstate run" where
  "struct_member__fprintf type_rec env cu t type is_last st =
     bindR (Some (tag__class_member t)) (\<lambda>member.
       let offset = cm_byte_offset member;
           name = (if tag_tag t = DW_TAG_inheritance then Some ''<ancestor>'' else class_member__name cu member)
       in if cm_is_static member then retR st
          else bindR (Some (member_print_name cu member type)) (\<lambda>print_name.
            bindR (type_rec (Some type) name (Some print_name) offset st) (\<lambda>(recursed, st1).
              if recursed then retR st1
              else bindR (Some (add_full_name env print_name (put [pe_delimiter env] st1))) (\<lambda>(member_name_id, st2).
                bindR (Some (printed_size member type is_last)) (\<lambda>sz.
                  retR (put (dec_llu member_name_id @ [pe_delimiter env] @ dec_d (offset + ps_offset st2) @
                             [pe_delimiter env] @ dec_of_int sz @ [CHR 0x0A]) st2))))))"

fun class_loop ::
  "'c type_fn \<Rightarrow> 'c penv \<Rightarrow> cu \<Rightarrow> tag list \<Rightarrow> bool \<times> 'c pstate \<Rightarrow> (bool \<times> 'c pstate) run" where
  "class_loop type_rec env cu [] s = retR s"
| "class_loop type_rec env cu (t # ts) (ret, st) =
     (if \<not> is_member_tag t then class_loop type_rec env cu ts (ret, st)
      else bindR (Some (cu__type cu (tag_type t))) (\<lambda>tag_type. case tag_type of
          None \<Rightarrow> class_loop type_rec env cu ts (True, st)
        | Some type \<Rightarrow> bindR (struct_member__fprintf type_rec env cu t type (ts = []) st) (\<lambda>st1.
            class_loop type_rec env cu ts (True, st1))))"

definition class_fprintf_with :: "'c type_fn \<Rightarrow> 'c penv \<Rightarrow> cu \<Rightarrow> tag \<Rightarrow> 'c pstate \<Rightarrow> (bool \<times> 'c pstate) run" where
  \<comment> \<open>\<open>class__fprintf\<close>\<close>
  "class_fprintf_with type_rec env cu class st =
     bindR (Some (tag__type class)) (\<lambda>(ty, ts). class_loop type_rec env cu ts (False, st))"

section \<open>Types\<close>

definition printed_type :: "cu \<Rightarrow> tag \<Rightarrow> tag run" where
  \<comment> \<open>the type behind a typedef when that has a name, else the typedef\<close>
  "printed_type cu type =
     bindR (resolve_typedef cu type) (\<lambda>orig_type. retR (case orig_type of
         Some t \<Rightarrow> if tag_as_type_name cu t \<noteq> None then t else type
       | None \<Rightarrow> type))"

definition descend ::
  "'c type_fn \<Rightarrow> 'c penv \<Rightarrow> cu \<Rightarrow> tag \<Rightarrow> string option \<Rightarrow> u32 \<Rightarrow> 'c pstate \<Rightarrow> (bool \<times> 'c pstate) run" where
  "descend type_rec env cu t prefix offset st =
     (if length (ps_name_prefixes st) \<le> ps_next_prefix_idx st
      then retR (False, put ''<ERROR RECURSION MAXDEPTH REACHED>'' st)
      else
        let st1 = st \<lparr> ps_name_prefixes := (ps_name_prefixes st)[ps_next_prefix_idx st := prefix],
                       ps_next_prefix_idx := ps_next_prefix_idx st + 1,
                       ps_offset := ps_offset st + offset \<rparr>
        in bindR (class_fprintf_with type_rec env cu t st1) (\<lambda>(_, st2).
             retR (True, st2 \<lparr> ps_offset := ps_offset st2 - offset,
                               ps_next_prefix_idx := ps_next_prefix_idx st2 - 1 \<rparr>)))"

definition print_struct ::
  "'c type_fn \<Rightarrow> 'c penv \<Rightarrow> cu \<Rightarrow> tag \<Rightarrow> string option \<Rightarrow> u32 \<Rightarrow> 'c pstate \<Rightarrow> (bool \<times> 'c pstate) run" where
  \<comment> \<open>the case of a class or structure type\<close>
  "print_struct type_rec env cu t prefix offset st =
     bindR (Some (tag__type t)) (\<lambda>(ctype, ts).
       case type__name cu ctype of
         Some n \<Rightarrow>
           if \<not> pe_expand_type env n
           then retR (False, put (dec_llu (pe_type_id env) @ [pe_delimiter env] @
                  (if tag_tag t = DW_TAG_class_type then ''class'' else ''struct'') @ '' '' @ n) st)
           else descend type_rec env cu t prefix offset st
       | None \<Rightarrow> descend type_rec env cu t prefix offset st)"

definition print_named :: "nat \<Rightarrow> cu \<Rightarrow> tag \<Rightarrow> 'c pstate \<Rightarrow> (bool \<times> 'c pstate) run" where
  \<comment> \<open>the \<open>default\<close> case\<close>
  "print_named n cu t st =
     bindR (tag__name n cu (Some t) 127) (\<lambda>s. retR (False, put s st))"

definition print_pointer :: "nat \<Rightarrow> cu \<Rightarrow> tag \<Rightarrow> string option \<Rightarrow> 'c pstate \<Rightarrow> (bool \<times> 'c pstate) run" where
  "print_pointer n cu t name st =
     (if tag_type t = 0 then print_named n cu t st
      else bindR (Some (cu__type cu (tag_type t))) (\<lambda>ptype. case ptype of
          None \<Rightarrow> retR (False, put ''<ERROR>'' st)
        | Some pty \<Rightarrow>
            if has_type_loop t (Some pty)
            then Some (bindE (type_loop_message ''type__fprintf'' 461 t) (\<lambda>msg.
              Inr (False, put (snprintf_buf 2048 msg @ [CHR 0x0A]) st)))
            else if tag_tag pty = DW_TAG_subroutine_type
            then bindR (ftype__fprintf n cu pty name False True) (\<lambda>s. retR (False, put s st))
            else print_named n cu t st))"

definition print_union_or_enum :: "string \<Rightarrow> cu \<Rightarrow> tag \<Rightarrow> 'c pstate \<Rightarrow> (bool \<times> 'c pstate) run" where
  "print_union_or_enum kind cu t st =
     bindR (Some (tag__type t)) (\<lambda>(ctype, ts).
       retR (False, put (kind @ (case type__name cu ctype of None \<Rightarrow> '''' | Some n \<Rightarrow> n)) st))"

definition type_body :: "'c type_fn \<Rightarrow> nat \<Rightarrow> 'c penv \<Rightarrow> cu \<Rightarrow> 'c type_fn" where
  \<comment> \<open>\<open>type__fprintf\<close>\<close>
  "type_body type_rec n env cu type name prefix offset st = (case type of
       None \<Rightarrow> retR (False, put ''<ERROR>'' st)
     | Some type \<Rightarrow> bindR (printed_type cu type) (\<lambda>t.
        let st1 = (if tag_tag t \<noteq> DW_TAG_class_type \<and> tag_tag t \<noteq> DW_TAG_structure_type \<and>
                      tag_tag t \<noteq> DW_TAG_array_type
                   then put (dec_llu (pe_type_id env) @ [pe_delimiter env]) st else st)
        in if tag_tag t = DW_TAG_pointer_type then print_pointer n cu t name st1
           else if tag_tag t = DW_TAG_subroutine_type
           then bindR (ftype__fprintf n cu t name False False) (\<lambda>s. retR (False, put s st1))
           else if tag_tag t = DW_TAG_array_type then array_type__fprintf type_rec cu t name st1
           else if tag_tag t = DW_TAG_class_type \<or> tag_tag t = DW_TAG_structure_type
           then print_struct type_rec env cu t prefix offset st1
           else if tag_tag t = DW_TAG_union_type then print_union_or_enum ''union '' cu t st1
           else if tag_tag t = DW_TAG_enumeration_type then print_union_or_enum ''enum '' cu t st1
           else print_named n cu t st1))"

primrec type__fprintf :: "nat \<Rightarrow> 'c penv \<Rightarrow> cu \<Rightarrow> 'c type_fn" where
  "type__fprintf 0 env cu = (\<lambda>_ _ _ _ _. None)"
| "type__fprintf (Suc n) env cu = type_body (type__fprintf n env cu) n env cu"

definition class__fprintf :: "nat \<Rightarrow> 'c penv \<Rightarrow> cu \<Rightarrow> tag \<Rightarrow> 'c pstate \<Rightarrow> (bool \<times> 'c pstate) run" where
  "class__fprintf n env cu class st = class_fprintf_with (type__fprintf n env cu) env cu class st"

end
