(* ===== verification/Dwarves_Frame.thy ===== *)
theory Dwarves_Frame
  imports Dwarves_Layout
begin

text \<open>
  Lemmas on the printers: composing a member name is joining the prefixes with dots; every printer
  gives the extension record back as it found it and only adds to the file.
\<close>

section \<open>Composed names\<close>

lemma print_loop_result:
  assumes "print_loop alloc tx sb = Some sb'" and "sb_output sb = Some out" and "sb_pos sb \<le> length out"
  shows "sb_output sb' = Some (take (sb_pos sb) out @ tx) \<and> sb_pos sb' = sb_pos sb + length tx"
  using assms
proof (induction alloc tx sb arbitrary: out rule: print_loop.induct)
  case (1 alloc tx sb)
  let ?rem = "sb_size sb - sb_pos sb"
  let ?out = "take (sb_pos sb) out @ snprintf_buf ?rem tx"
  show ?case
  proof (cases "?rem \<le> length tx")
    case True
    let ?sb = "sb\<lparr>sb_output := Some ?out, sb_size := sb_size sb + MAX_STRING_LEN\<rparr>"
    have al: "alloc (sb_size sb + MAX_STRING_LEN)"
      using "1.prems" True by (subst (asm) print_loop.simps) (simp add: Let_def split: if_splits)
    then have "print_loop alloc tx ?sb = Some sb'"
      using "1.prems" True by (subst (asm) print_loop.simps) (simp add: Let_def)
    from "1.IH"[OF refl refl refl True al, of ?out] this "1.prems"
    show ?thesis by (simp add: min_def)
  next
    case False
    then show ?thesis using "1.prems"
      by (subst (asm) print_loop.simps) (auto simp: Let_def snprintf_buf_def)
  qed
qed

lemma print_loop_total: "\<exists>sb'. print_loop (\<lambda>_. True) tx sb = Some sb'"
proof (induction "\<lambda>_ :: nat. True" tx sb rule: print_loop.induct)
  case (1 tx sb)
  then show ?case by (subst print_loop.simps) (auto simp: Let_def)
qed

definition sb_text :: "str_buf \<Rightarrow> string" where
  "sb_text sb = (case sb_output sb of None \<Rightarrow> [] | Some s \<Rightarrow> s)"

definition sb_fits :: "str_buf \<Rightarrow> bool" where
  "sb_fits sb \<longleftrightarrow> sb_pos sb = length (sb_text sb)"

lemma print_to_string_result:
  assumes "print_to_string alloc tx sep sb = Some sb'" and "sb_fits sb"
  shows "sb_fits sb' \<and> sb_output sb' = Some (sb_text sb @ tx @ (if sep then ''.'' else ''''))"
proof (cases "sb_output sb")
  case None
  then have "sb_pos sb = 0" using assms(2) by (simp add: sb_fits_def sb_text_def)
  with None print_loop_result[of alloc "tx @ (if sep then ''.'' else '''')"
      "sb\<lparr>sb_output := Some [], sb_size := MAX_STRING_LEN\<rparr>" sb' "[]"] assms(1)
  show ?thesis by (simp add: print_to_string_def sb_fits_def sb_text_def split: if_splits)
next
  case (Some out)
  with print_loop_result[of alloc "tx @ (if sep then ''.'' else '''')" sb sb' out] assms
  show ?thesis by (simp add: print_to_string_def sb_fits_def sb_text_def)
qed

lemma print_to_string_total: "\<exists>sb'. print_to_string (\<lambda>_. True) tx sep sb = Some sb'"
  by (auto simp: print_to_string_def print_loop_total split: option.split)

lemma concat_prefixes_result:
  assumes "concat_prefixes alloc (map Some ps) sb = Inr (Some sb')" and "sb_fits sb"
  shows "sb_fits sb' \<and> sb_text sb' = sb_text sb @ concat (map (\<lambda>p. p @ ''.'') ps)"
  using assms
proof (induction ps arbitrary: sb)
  case (Cons p ps)
  then obtain sb1 where 1: "print_to_string alloc p True sb = Some sb1"
      "concat_prefixes alloc (map Some ps) sb1 = Inr (Some sb')"
    by (auto simp: c_string_def split: option.splits)
  with Cons.IH[OF 1(2)] print_to_string_result[OF 1(1) Cons.prems(2)]
  show ?case by (simp add: sb_text_def)
qed simp

lemma concat_prefixes_total: "\<exists>sb'. concat_prefixes (\<lambda>_. True) (map Some ps) sb = Inr (Some sb')"
proof (induction ps arbitrary: sb)
  case (Cons p ps)
  obtain sb1 where "print_to_string (\<lambda>_. True) p True sb = Some sb1"
    using print_to_string_total by blast
  with Cons show ?case by (simp add: c_string_def)
qed simp

lemma join_dots: "join_fields CHR ''.'' (ps @ [name]) = concat (map (\<lambda>p. p @ ''.'') ps) @ name"
proof (induction ps)
  case (Cons p ps)
  then show ?case by (cases "ps @ [name]") (auto simp: join_fields.simps)
qed simp

lemma concat_members_join:
  assumes "k \<le> length ps" and "take k ps = map Some names"
  shows "dwarves_convert_concat_members alloc ps k name \<in>
      {Inr None, Inr (Some (join_fields CHR ''.'' (names @ [name])))}"
    and "alloc = (\<lambda>_. True) \<Longrightarrow>
      dwarves_convert_concat_members alloc ps k name = Inr (Some (join_fields CHR ''.'' (names @ [name])))"
proof -
  let ?sb = "\<lparr>sb_output = None, sb_size = 0, sb_pos = 0\<rparr>"
  have fits: "sb_fits ?sb" by (simp add: sb_fits_def sb_text_def)
  have err: "concat_prefixes alloc (map Some names) sb \<noteq> Inl e" for sb e
    by (induction names arbitrary: sb) (auto simp: c_string_def split: option.split)
  have ok: "dwarves_convert_concat_members alloc ps k name = Inr (Some (join_fields CHR ''.'' (names @ [name])))"
    if "concat_prefixes alloc (map Some names) ?sb = Inr (Some sb)" "print_to_string alloc name False sb = Some sb1"
    for sb sb1
    using that concat_prefixes_result[OF that(1) fits] print_to_string_result[OF that(2)] assms(2)
    by (simp add: dwarves_convert_concat_members_def join_dots sb_text_def)
  show "dwarves_convert_concat_members alloc ps k name \<in>
      {Inr None, Inr (Some (join_fields CHR ''.'' (names @ [name])))}"
  proof (cases "concat_prefixes alloc (map Some names) ?sb")
    case (Inr r)
    then show ?thesis
    proof (cases r)
      case (Some sb)
      then show ?thesis using ok[of sb] Inr assms(2)
        by (cases "print_to_string alloc name False sb") (auto simp: dwarves_convert_concat_members_def)
    qed (simp add: dwarves_convert_concat_members_def assms(2))
  qed (use err in blast)
  show "dwarves_convert_concat_members alloc ps k name = Inr (Some (join_fields CHR ''.'' (names @ [name])))"
    if "alloc = (\<lambda>_. True)"
    using concat_prefixes_total[of names ?sb] print_to_string_total[of name False] that ok by blast
qed

section \<open>The extension record is restored\<close>

definition ids_reach :: "'c penv \<Rightarrow> 'c \<Rightarrow> 'c \<Rightarrow> bool" where
  \<comment> \<open>a number of calls of the callback lie between the two states\<close>
  "ids_reach env = (\<lambda>a b. \<exists>name i. pe_add_member_name env name a = (i, b))\<^sup>*\<^sup>*"

lemma ids_reach_refl [simp]: "ids_reach env a a"
  by (simp add: ids_reach_def)

lemma ids_reach_trans: "ids_reach env a b \<Longrightarrow> ids_reach env b c \<Longrightarrow> ids_reach env a c"
  unfolding ids_reach_def by (rule rtranclp_trans)

lemma ids_reach_step: "pe_add_member_name env name a = (i, b) \<Longrightarrow> ids_reach env a b"
  unfolding ids_reach_def by (rule r_into_rtranclp) blast

lemma ids_reach_snd: "ids_reach env a (snd (pe_add_member_name env name a))"
  by (rule ids_reach_step) (rule prod.collapse[symmetric])

lemma ids_reach_invariant:
  assumes "ids_reach env a b" and "P a"
    and "\<And>name i a b. P a \<Longrightarrow> pe_add_member_name env name a = (i, b) \<Longrightarrow> P b"
  shows "P b"
  using assms(1,2) unfolding ids_reach_def by (induction rule: rtranclp_induct) (auto intro: assms(3))

definition ext_kept :: "'c penv \<Rightarrow> 'c pstate \<Rightarrow> 'c pstate \<Rightarrow> bool" where
  "ext_kept env st st' \<longleftrightarrow> ps_offset st' = ps_offset st \<and> ps_next_prefix_idx st' = ps_next_prefix_idx st \<and>
     length (ps_name_prefixes st') = length (ps_name_prefixes st) \<and>
     take (ps_next_prefix_idx st) (ps_name_prefixes st') = take (ps_next_prefix_idx st) (ps_name_prefixes st) \<and>
     (\<exists>s. ps_fp st' = ps_fp st @ s) \<and> ids_reach env (ps_ids st) (ps_ids st')"

named_theorems kept \<open>calls that restore the extension record\<close>

lemma ext_kept_refl [kept]: "ext_kept env st st"
  by (simp add: ext_kept_def)

lemma ext_kept_trans: "ext_kept env st st1 \<Longrightarrow> ext_kept env st1 st2 \<Longrightarrow> ext_kept env st st2"
  by (auto simp: ext_kept_def intro: ids_reach_trans)

lemma ext_kept_put [kept]: "ext_kept env st st1 \<Longrightarrow> ext_kept env st (put s st1)"
  by (auto simp: ext_kept_def put_def)

lemma ext_kept_from_put: "ext_kept env (put s st) st1 \<Longrightarrow> ext_kept env st st1"
  by (auto simp: ext_kept_def put_def)

lemma add_full_name_kept: "add_full_name env name st = Inr (i, st') \<Longrightarrow> ext_kept env st st'"
  by (auto simp: add_full_name_def ext_kept_def res_simps case_prod_beta Let_def intro: ids_reach_snd)

text \<open>
  A printer of types that restores the record makes every printer built on it restore it: the
  recursion of \<^verbatim>\<open>type__fprintf\<close> rests on this contract alone.
\<close>

locale restoring_printer =
  fixes type_rec :: "'c type_fn" and env :: "'c penv" and cu :: cu
  assumes type_rec_kept: "type_rec ty name prefix offset st = retR (b, st') \<Longrightarrow> ext_kept env st st'"
begin

lemma print_elements_kept:
  assumes "print_elements type_rec cu ty name sz nr st = retR st'"
  shows "ext_kept env st st'"
  using assms unfolding print_elements_def
proof (rule foldR_invariant)
  fix i :: nat and s s'
  assume "ext_kept env st s" and "(if 2 ^ 31 \<le> int i * sz \<or> int i * sz < - (2 ^ 31) then Some (ub ''signed overflow'')
      else bindR (type_rec (Some ty) name name (word_of_int (int i * sz)) s) (\<lambda>(_, st1). retR st1)) = retR s'"
  then show "ext_kept env st s'"
    by (auto simp: res_simps split: if_splits prod.splits dest!: type_rec_kept intro: ext_kept_trans)
qed (rule kept)

lemma array_kept:
  assumes "array_type__fprintf type_rec cu t name st = retR (b, st')"
  shows "ext_kept env st st'"
proof -
  obtain at ty b1 st1 where 1: "type_rec ty name name 0
      (if ty = None then put (id_not_found_line ''array_type__fprintf'' 202 (tag_type t)) st else st) = retR (b1, st1)"
    and 2: "st' = st1 \<or> (\<exists>s. st' = put s st1) \<or>
      (\<exists>e sz n ty. print_elements type_rec cu ty name sz n st1 = retR st')"
    using assms unfolding array_type__fprintf_def Let_def
    by (fastforce simp: res_simps split: prod.splits if_splits option.splits list.splits)
  have "ext_kept env st st1" using type_rec_kept[OF 1] by (auto split: if_splits dest: ext_kept_from_put)
  with 2 show ?thesis by (auto intro: kept ext_kept_trans print_elements_kept)
qed

lemma member_kept:
  assumes "struct_member__fprintf type_rec env cu t type is_last st = retR st'"
  shows "ext_kept env st st'"
proof -
  obtain member where m: "tag__class_member t = Inr member"
    using assms by (auto simp: struct_member__fprintf_def res_simps)
  define nm where "nm = (if tag_tag t = DW_TAG_inheritance then Some ''<ancestor>'' else class_member__name cu member)"
  show ?thesis
  proof (cases "cm_is_static member")
    case True
    with assms m show ?thesis by (simp add: struct_member__fprintf_def kept)
  next
    case False
    obtain name b st1 where 1: "type_rec (Some type) nm (Some name) (cm_byte_offset member) st = retR (b, st1)"
      and 2: "(if b then retR st1
          else bindR (Some (add_full_name env name (put [pe_delimiter env] st1))) (\<lambda>(member_name_id, st2).
            bindR (Some (printed_size member type is_last)) (\<lambda>sz.
              retR (put (dec_llu member_name_id @ [pe_delimiter env] @ dec_d (cm_byte_offset member + ps_offset st2) @
                         [pe_delimiter env] @ dec_of_int sz @ [CHR 0x0A]) st2)))) = retR st'"
      using assms m False unfolding struct_member__fprintf_def Let_def nm_def
      by (auto simp only: bindR.simps bindR_retR_iff if_False prod.case split_paired_Ex)
    have "ext_kept env st1 st'"
    proof (cases b)
      case True
      with 2 show ?thesis by (simp add: kept)
    next
      case False
      with 2 obtain i st2 s where "add_full_name env name (put [pe_delimiter env] st1) = Inr (i, st2)"
        and "st' = put s st2"
        by (auto simp: bindR_retR_iff)
      then show ?thesis by (metis add_full_name_kept ext_kept_from_put ext_kept_put)
    qed
    with type_rec_kept[OF 1] show ?thesis by (rule ext_kept_trans)
  qed
qed

lemma class_loop_kept:
  "class_loop type_rec env cu ts (ret, st) = retR (b, st') \<Longrightarrow> ext_kept env st st'"
proof (induction ts arbitrary: ret st)
  case (Cons t ts)
  then show ?case
    by (auto simp: res_simps split: if_splits option.splits) (blast intro: ext_kept_trans member_kept)
qed (simp add: kept)

lemma class_kept: "class_fprintf_with type_rec env cu class st = retR (b, st') \<Longrightarrow> ext_kept env st st'"
  by (auto simp: class_fprintf_with_def res_simps split: prod.splits dest: class_loop_kept)

lemma descend_kept:
  assumes "descend type_rec env cu t prefix offset st = retR (b, st')"
  shows "ext_kept env st st'"
proof (cases "length (ps_name_prefixes st) \<le> ps_next_prefix_idx st")
  case True
  with assms show ?thesis by (auto simp: descend_def kept)
next
  case False
  let ?st = "st\<lparr>ps_name_prefixes := (ps_name_prefixes st)[ps_next_prefix_idx st := prefix],
      ps_next_prefix_idx := ps_next_prefix_idx st + 1, ps_offset := ps_offset st + offset\<rparr>"
  obtain c st2 where 1: "class_fprintf_with type_rec env cu t ?st = retR (c, st2)"
    and 2: "st' = st2\<lparr>ps_offset := ps_offset st2 - offset, ps_next_prefix_idx := ps_next_prefix_idx st2 - 1\<rparr>"
    using assms False by (auto simp: descend_def Let_def res_simps split: prod.splits)
  have k: "ext_kept env ?st st2" using 1 by (rule class_kept)
  let ?i = "ps_next_prefix_idx st"
  have "take ?i (ps_name_prefixes st2) = take ?i (take (Suc ?i) (ps_name_prefixes st2))" by (simp add: min_def)
  also have "\<dots> = take ?i (ps_name_prefixes st)" using k by (simp add: ext_kept_def take_update_swap list_update_beyond)
  finally show ?thesis using k 2 by (auto simp: ext_kept_def)
qed

lemma struct_kept: "print_struct type_rec env cu t prefix offset st = retR (b, st') \<Longrightarrow> ext_kept env st st'"
  by (auto simp: print_struct_def res_simps kept split: prod.splits option.splits if_splits dest: descend_kept)

lemma pointer_kept: "print_pointer n cu t name st = retR (b, st') \<Longrightarrow> ext_kept env st st'"
  by (auto simp: print_pointer_def print_named_def res_simps kept split: option.splits if_splits)

lemma type_body_kept:
  assumes "type_body type_rec n env cu type name prefix offset st = retR (b, st')"
  shows "ext_kept env st st'"
proof (cases type)
  case None
  with assms show ?thesis by (auto simp: type_body_def kept)
next
  case (Some ty)
  then obtain t where t: "printed_type cu ty = retR t"
    using assms by (auto simp: type_body_def res_simps)
  with assms Some show ?thesis
    unfolding type_body_def
    by (auto simp: Let_def res_simps kept print_union_or_enum_def print_named_def split: if_splits prod.splits
        dest: pointer_kept[THEN ext_kept_from_put] array_kept struct_kept)
qed

end

lemma type__fprintf_kept: "type__fprintf n env cu ty name prefix offset st = retR (b, st') \<Longrightarrow> ext_kept env st st'"
proof (induction n arbitrary: ty name prefix offset st b st')
  case (Suc n)
  have "restoring_printer (type__fprintf n env cu) env"
    using Suc.IH by unfold_locales blast
  from restoring_printer.type_body_kept[OF this] Suc.prems show ?case by simp
qed simp

interpretation layout: restoring_printer "type__fprintf n env cu" env cu
  for n :: nat and env :: "'c penv" and cu :: cu
  by unfold_locales (rule type__fprintf_kept)

lemma class_loop_flag:
  "class_loop rec env cu ts (ret, st) = retR (b, st') \<Longrightarrow> b \<longleftrightarrow> ret \<or> list_ex is_member_tag ts"
proof (induction ts arbitrary: ret st)
  case (Cons t ts)
  have "class_loop rec env cu ts (True, x) = retR (b, st') \<Longrightarrow> b" for x
    by (drule Cons.IH) simp
  with Cons show ?case by (auto simp: res_simps split: if_splits option.splits)
qed simp

lemma class__fprintf_flag:
  assumes "class__fprintf n env cu class st = retR (b, st')" and "tag__type class = Inr (ty, ts)"
  shows "b \<longleftrightarrow> list_ex is_member_tag ts"
  using assms class_loop_flag[of _ env cu ts False st b st'] by (simp add: class__fprintf_def class_fprintf_with_def)

lemma class__fprintf_kept: "class__fprintf n env cu class st = retR (b, st') \<Longrightarrow> ext_kept env st st'"
  unfolding class__fprintf_def by (rule layout.class_kept)

end
