(* ===== verification/Dwarves_Ends.thy ===== *)
theory Dwarves_Ends
  imports Dwarves_Frame
begin

text \<open>
  When the functions that walk the type graph end: the resolution of a typedef ends exactly when
  its chain does, and the printers end on type graphs without cycles by value.
\<close>

section \<open>Chains of typedefs\<close>

inductive typedef_chain :: "cu \<Rightarrow> tag \<Rightarrow> tag \<Rightarrow> bool" for cu where
  chain_refl: "typedef_chain cu t t"
| chain_step: "typedef_chain cu t u \<Longrightarrow> tag__is_typedef u \<Longrightarrow> cu__type cu (tag_type u) = Inr (Some v) \<Longrightarrow>
    tag_type u \<noteq> tag_type v \<Longrightarrow> typedef_chain cu t v"

definition chain_goes_on :: "cu \<Rightarrow> tag \<Rightarrow> bool" where
  "chain_goes_on cu u \<longleftrightarrow> tag__is_typedef u \<and> (\<exists>v. cu__type cu (tag_type u) = Inr (Some v) \<and> tag_type u \<noteq> tag_type v)"

definition chain_end :: "cu \<Rightarrow> tag \<Rightarrow> tag option res" where
  \<comment> \<open>what the last tag of a chain yields\<close>
  "chain_end cu u = (if tag__is_typedef u
     then (case cu__type cu (tag_type u) of Inl e \<Rightarrow> Inl e | Inr _ \<Rightarrow> Inr None)
     else Inr (Some u))"

lemma chain_trans: "typedef_chain cu u v \<Longrightarrow> typedef_chain cu t u \<Longrightarrow> typedef_chain cu t v"
  by (induction rule: typedef_chain.induct) (auto intro: typedef_chain.intros)

lemma resolve_step:
  "chain_goes_on cu t \<Longrightarrow> cu__type cu (tag_type t) = Inr (Some v) \<Longrightarrow> resolve_typedef cu t = resolve_typedef cu v"
  by (subst resolve_typedef.simps) (auto simp: chain_goes_on_def has_type_loop_def)

lemma resolve_last: "\<not> chain_goes_on cu t \<Longrightarrow> resolve_typedef cu t = Some (chain_end cu t)"
  by (subst resolve_typedef.simps)
     (auto simp: chain_goes_on_def has_type_loop_def chain_end_def split: sum.split option.split)

lemma resolve_chain: "typedef_chain cu t u \<Longrightarrow> resolve_typedef cu t = resolve_typedef cu u"
proof (induction rule: typedef_chain.induct)
  case (chain_step t u v)
  then have "chain_goes_on cu u" by (auto simp: chain_goes_on_def)
  with chain_step show ?case by (simp add: resolve_step)
qed simp

lemma resolve_typedef_sound:
  assumes "resolve_typedef cu t = Some r"
  shows "\<exists>u. typedef_chain cu t u \<and> \<not> chain_goes_on cu u \<and> r = chain_end cu u"
proof (rule resolve_typedef.raw_induct[of "\<lambda>cu t r. \<exists>u. typedef_chain cu t u \<and> \<not> chain_goes_on cu u \<and> r = chain_end cu u",
      OF _ assms])
  fix res :: "cu \<Rightarrow> tag \<Rightarrow> tag option res option" and cu t r
  assume IH: "\<And>cu t r. res cu t = Some r \<Longrightarrow> \<exists>u. typedef_chain cu t u \<and> \<not> chain_goes_on cu u \<and> r = chain_end cu u"
    and step: "(if tag__is_typedef t
      then (case cu__type cu (tag_type t) of
          Inl e \<Rightarrow> Some (Inl e)
        | Inr None \<Rightarrow> Some (Inr None)
        | Inr (Some ty) \<Rightarrow> if has_type_loop t (Some ty) then Some (Inr None) else res cu ty)
      else Some (Inr (Some t))) = Some r"
  show "\<exists>u. typedef_chain cu t u \<and> \<not> chain_goes_on cu u \<and> r = chain_end cu u"
  proof (cases "chain_goes_on cu t")
    case False
    with step have "r = chain_end cu t"
      by (auto simp: chain_goes_on_def has_type_loop_def chain_end_def split: sum.splits option.splits if_splits)
    with False show ?thesis by (auto intro: chain_refl)
  next
    case True
    then obtain v where v: "tag__is_typedef t" "cu__type cu (tag_type t) = Inr (Some v)" "tag_type t \<noteq> tag_type v"
      by (auto simp: chain_goes_on_def)
    with step have "res cu v = Some r" by (simp add: has_type_loop_def)
    then obtain u where "typedef_chain cu v u" "\<not> chain_goes_on cu u" "r = chain_end cu u" using IH by blast
    moreover have "typedef_chain cu t v" using v chain_refl by (blast intro: chain_step)
    ultimately show ?thesis using chain_trans by blast
  qed
qed

lemma resolve_typedef_ends_iff:
  "returns (resolve_typedef cu t) \<longleftrightarrow> (\<exists>u. typedef_chain cu t u \<and> \<not> chain_goes_on cu u)"
proof
  assume "returns (resolve_typedef cu t)"
  then obtain r where "resolve_typedef cu t = Some r" by (auto simp: returns_def)
  then show "\<exists>u. typedef_chain cu t u \<and> \<not> chain_goes_on cu u" using resolve_typedef_sound by blast
next
  assume "\<exists>u. typedef_chain cu t u \<and> \<not> chain_goes_on cu u"
  then show "returns (resolve_typedef cu t)" by (auto simp: resolve_chain resolve_last)
qed

section \<open>Type graphs without cycles by value\<close>

definition type_members :: "tag \<Rightarrow> tag set" where
  "type_members t = (case tag__type t of Inr (ty, ts) \<Rightarrow> {m \<in> set ts. is_member_tag m} | Inl e \<Rightarrow> {})"

definition value_edge :: "cu \<Rightarrow> tag \<Rightarrow> tag \<Rightarrow> bool" where
  \<comment> \<open>the type a tag refers to, other than through a pointer, and the types of the members\<close>
  "value_edge cu t u \<longleftrightarrow>
     (tag_tag t \<noteq> DW_TAG_pointer_type \<and> tag_tag t \<noteq> DW_TAG_reference_type \<and>
        cu__type cu (tag_type t) = Inr (Some u)) \<or>
     (\<exists>m \<in> type_members t. cu__type cu (tag_type m) = Inr (Some u))"

definition name_edge :: "cu \<Rightarrow> tag \<Rightarrow> tag \<Rightarrow> bool" where
  \<comment> \<open>the types whose names are part of the name of a type\<close>
  "name_edge cu t u \<longleftrightarrow>
     (tag_tag t \<in> {DW_TAG_pointer_type, DW_TAG_reference_type, DW_TAG_ptr_to_member_type, DW_TAG_volatile_type,
        DW_TAG_const_type, DW_TAG_array_type, DW_TAG_subroutine_type} \<and> cu__type cu (tag_type t) = Inr (Some u)) \<or>
     (\<exists>f p. tag__ftype t = Inr f \<and> p \<in> set (ft_parms f) \<and> cu__type cu (pa_type p) = Inr (Some u))"

definition value_ranked :: "cu \<Rightarrow> (tag \<Rightarrow> nat) \<Rightarrow> bool" where
  "value_ranked cu rk \<longleftrightarrow> (\<forall>t u. value_edge cu t u \<longrightarrow> rk u < rk t)"

definition name_ranked :: "cu \<Rightarrow> (tag \<Rightarrow> nat) \<Rightarrow> bool" where
  "name_ranked cu rk \<longleftrightarrow> (\<forall>t u. name_edge cu t u \<longrightarrow> rk u < rk t)"

lemma value_ranked_type:
  "value_ranked cu rk \<Longrightarrow> tag_tag t \<noteq> DW_TAG_pointer_type \<Longrightarrow> tag_tag t \<noteq> DW_TAG_reference_type \<Longrightarrow>
   cu__type cu (tag_type t) = Inr (Some u) \<Longrightarrow> rk u < rk t"
  by (auto simp: value_ranked_def value_edge_def)

lemma resolve_typedef_returns: "value_ranked cu rk \<Longrightarrow> returns (resolve_typedef cu t)"
proof (induction "rk t" arbitrary: t rule: less_induct)
  case less
  show ?case
  proof (cases "chain_goes_on cu t")
    case True
    then obtain v where v: "cu__type cu (tag_type t) = Inr (Some v)" by (auto simp: chain_goes_on_def)
    have "rk v < rk t"
      using True v less.prems by (intro value_ranked_type) (auto simp: chain_goes_on_def tag__is_typedef_def)
    with less resolve_step[OF True v] show ?thesis by simp
  qed (simp add: resolve_last)
qed

lemma follow_typedef_returns:
  assumes "value_ranked cu rk"
  shows "tag__is_typedef t \<or> tag_tag t = DW_TAG_array_type \<Longrightarrow> returns (tag__follow_typedef cu t)"
proof (induction "rk t" arbitrary: t rule: less_induct)
  case less
  have "rk v < rk t" if "cu__type cu (tag_type t) = Inr (Some v)" for v
    using less.prems that assms by (intro value_ranked_type) (auto simp: tag__is_typedef_def)
  with less show ?case
    by (subst tag__follow_typedef.simps) (auto split: sum.split option.split)
qed

lemma tag_size_returns: "value_ranked cu rk \<Longrightarrow> returns (tag__size cu t)"
proof (induction "rk t" arbitrary: t rule: less_induct)
  case less
  show ?case
  proof (cases "\<exists>u. tag_own_size cu t = Inr None \<and> cu__type cu (tag_type t) = Inr (Some u)")
    case True
    then obtain u where u: "tag_own_size cu t = Inr None" "cu__type cu (tag_type t) = Inr (Some u)" by blast
    have "rk u < rk t" using less.prems
    proof (rule value_ranked_type[OF _ _ _ u(2)])
      show "tag_tag t \<noteq> DW_TAG_pointer_type" "tag_tag t \<noteq> DW_TAG_reference_type"
        using u(1) by (auto simp: tag_own_size_def)
    qed
    with less have "returns (tag__size cu u)" by blast
    with u show ?thesis by (subst tag__size.simps) (auto simp: returns_def)
  next
    case False
    then show ?thesis by (subst tag__size.simps) (auto split: sum.splits option.splits)
  qed
qed

section \<open>Names end\<close>

definition name_level :: "(tag \<Rightarrow> nat) \<Rightarrow> tag option \<Rightarrow> nat" where
  "name_level rk tg = (case tg of None \<Rightarrow> 0 | Some t \<Rightarrow> 2 * rk t + 2)"

definition names_end :: "(tag \<Rightarrow> nat) \<Rightarrow> nat \<Rightarrow> name_fn \<Rightarrow> ftype_fn \<Rightarrow> bool" where
  "names_end rk n name ftype \<longleftrightarrow>
     (\<forall>tg len. name_level rk tg < n \<longrightarrow> returns (name tg len)) \<and>
     (\<forall>t fname inlined ptr. tag_tag t = DW_TAG_subroutine_type \<longrightarrow> 2 * rk t + 1 < n \<longrightarrow> returns (ftype t fname inlined ptr))"

lemma names_endD:
  "names_end rk n name ftype \<Longrightarrow> name_level rk tg < n \<Longrightarrow> returns (name tg len)"
  "names_end rk n name ftype \<Longrightarrow> tag_tag t = DW_TAG_subroutine_type \<Longrightarrow> 2 * rk t + 1 < n \<Longrightarrow> returns (ftype t fname inlined ptr)"
  by (auto simp: names_end_def)

lemma name_ranked_type:
  "name_ranked cu rk \<Longrightarrow> tag_tag t \<in> {DW_TAG_pointer_type, DW_TAG_reference_type, DW_TAG_ptr_to_member_type,
     DW_TAG_volatile_type, DW_TAG_const_type, DW_TAG_array_type, DW_TAG_subroutine_type} \<Longrightarrow>
   cu__type cu (tag_type t) = Inr u \<Longrightarrow> name_level rk u \<le> 2 * rk t"
  by (cases u) (auto simp: name_ranked_def name_edge_def name_level_def Suc_le_eq, fastforce+)

lemma named_type_returns:
  assumes "name_ranked cu rk" and "names_end rk n name ftype" and "2 * rk t < n"
    and "tag_tag t \<in> {DW_TAG_pointer_type, DW_TAG_reference_type, DW_TAG_ptr_to_member_type,
     DW_TAG_volatile_type, DW_TAG_const_type, DW_TAG_array_type, DW_TAG_subroutine_type}"
    and "cu__type cu (tag_type t) = Inr u"
  shows "returns (name u len)"
  using name_ranked_type[OF assms(1,4,5)] assms(3) by (intro names_endD(1)[OF assms(2)]) simp

lemma ptr_name_returns:
  assumes "name_ranked cu rk" and "names_end rk n name ftype" and "2 * rk t < n"
    and "tag_tag t \<in> {DW_TAG_pointer_type, DW_TAG_reference_type, DW_TAG_ptr_to_member_type}"
  shows "returns (tag__ptr_name name cu t len suffix)"
proof -
  have "returns (name u len)" if "cu__type cu (tag_type t) = Inr u" for u len
    using named_type_returns[OF assms(1,2,3) _ that] assms(4) by auto
  then show ?thesis by (auto simp: tag__ptr_name_def Let_def intro!: bindR_returns split: option.split)
qed

lemma name_with_returns:
  assumes "name_ranked cu rk" and "names_end rk n name ftype" and "name_level rk tg < n"
  shows "returns (tag_name_with name cu tg len)"
proof (cases tg)
  case (Some t)
  have "returns (name u len)" if "tag_tag t = DW_TAG_const_type" "cu__type cu (tag_type t) = Inr u" for u
    using named_type_returns[OF assms(1,2) _ _ that(2)] that(1) assms(3) Some by (simp add: name_level_def)
  with Some names_endD(1)[OF assms(2,3)] show ?thesis
    by (auto simp: tag_name_with_def intro!: bindR_returns)
qed (simp add: tag_name_with_def)

lemma name_body_returns:
  assumes "name_ranked cu rk" and "names_end rk n name ftype" and "name_level rk tg < Suc n"
  shows "returns (tag_name_body name ftype cu tg len)"
proof (cases tg)
  case (Some t)
  then have rk: "2 * rk t < n" using assms(3) by (simp add: name_level_def)
  have nm: "returns (name u len)" if "tag_tag t \<in> {DW_TAG_volatile_type, DW_TAG_const_type, DW_TAG_array_type}"
    "cu__type cu (tag_type t) = Inr u" for u len
    using named_type_returns[OF assms(1,2) rk _ that(2)] that(1) by auto
  have ft: "returns (ftype t None False False)" if "tag_tag t = DW_TAG_subroutine_type"
    using names_endD(2)[OF assms(2) that] assms(3) Some by (simp add: name_level_def)
  show ?thesis
    unfolding Some tag_name_body_def option.case
    by (auto intro!: bindR_returns ptr_name_returns[OF assms(1,2) rk] nm ft)
qed (simp add: tag_name_body_def)

lemma parameter_returns:
  assumes "name_ranked cu rk" and "names_end rk n name ftype" and "tag__ftype t = Inr f"
    and "p \<in> set (ft_parms f)" and "2 * rk t < n"
  shows "returns (parameter_text name ftype cu p)"
proof -
  have lower: "rk u < rk t" if "cu__type cu (pa_type p) = Inr (Some u)" for u
    using assms(1,3,4) that unfolding name_ranked_def name_edge_def by blast
  have lower2: "rk v < rk u" if "tag_tag u = DW_TAG_pointer_type" "cu__type cu (tag_type u) = Inr (Some v)" for u v
    using assms(1) that unfolding name_ranked_def name_edge_def by blast
  have nm: "returns (tag_name_with name cu (Some u) len)" if "cu__type cu (pa_type p) = Inr (Some u)" for u len
    using lower[OF that] assms(5) by (intro name_with_returns[OF assms(1,2)]) (simp add: name_level_def)
  have ft: "returns (ftype u fname inl ptr)" if "cu__type cu (pa_type p) = Inr (Some u)"
    "tag_tag u = DW_TAG_subroutine_type" for u fname inl ptr
    using lower[OF that(1)] that(2) assms(5) by (intro names_endD(2)[OF assms(2)]) simp_all
  have ft2: "returns (ftype v fname inl ptr)" if "cu__type cu (pa_type p) = Inr (Some u)"
    "tag_tag u = DW_TAG_pointer_type" "cu__type cu (tag_type u) = Inr (Some v)" "tag_tag v = DW_TAG_subroutine_type"
    for u v fname inl ptr
    using lower[OF that(1)] lower2[OF that(2,3)] that(4) assms(5) by (intro names_endD(2)[OF assms(2)]) simp_all
  show ?thesis
    unfolding parameter_text_def Let_def
    by (auto intro!: bindR_returns nm split: option.split) (blast intro: ft ft2)+
qed

lemma parameters_returns: "(\<And>p. p \<in> set ps \<Longrightarrow> returns (f p)) \<Longrightarrow> returns (parameters_text f ps)"
  by (induction ps) (auto intro!: bindR_returns)

lemma ftype_body_returns:
  assumes "name_ranked cu rk" and "names_end rk n name ftype" and "2 * rk t < n" and "tag_tag t = DW_TAG_subroutine_type"
  shows "returns (ftype_body name ftype cu t fname inl ptr)"
proof -
  have nm: "returns (tag_name_with name cu u len)" if "cu__type cu (tag_type t) = Inr u" for u len
    using name_ranked_type[OF assms(1) _ that] assms(3,4) by (intro name_with_returns[OF assms(1,2)]) simp
  have "returns (parameters_text (parameter_text name ftype cu) (ft_parms f))" if "tag__ftype t = Inr f" for f
    using assms that by (auto intro!: parameters_returns parameter_returns)
  then show ?thesis
    unfolding ftype_body_def ftype__fprintf_parms_def by (auto intro!: bindR_returns nm)
qed

lemma names_end_fuel:
  assumes "name_ranked cu rk"
  shows "names_end rk n (tag_name_fuel n cu) (ftype__fprintf n cu)"
proof (induction n)
  case (Suc n)
  show ?case unfolding names_end_def
  proof (intro conjI allI impI)
    fix tg len assume "name_level rk tg < Suc n"
    then show "returns (tag_name_fuel (Suc n) cu tg len)"
      using name_body_returns[OF assms Suc] by simp
  next
    fix t fname inl ptr assume "tag_tag t = DW_TAG_subroutine_type" "2 * rk t + 1 < Suc n"
    then show "returns (ftype__fprintf (Suc n) cu t fname inl ptr)"
      using ftype_body_returns[OF assms Suc] by simp
  qed
qed (simp add: names_end_def)

lemma tag_name_returns: "name_ranked cu rk \<Longrightarrow> 2 * rk t + 2 < n \<Longrightarrow> returns (tag__name n cu (Some t) len)"
  unfolding tag__name_def by (rule name_with_returns[OF _ names_end_fuel]) (simp_all add: name_level_def)

lemma ftype_returns:
  "name_ranked cu rk \<Longrightarrow> 2 * rk t + 2 < n \<Longrightarrow> tag_tag t = DW_TAG_subroutine_type \<Longrightarrow>
   returns (ftype__fprintf n cu t fname inl ptr)"
  by (rule names_endD(2)[OF names_end_fuel]) auto

section \<open>Printers end\<close>

lemma chain_rank: "typedef_chain cu t u \<Longrightarrow> value_ranked cu rk \<Longrightarrow> rk u \<le> rk t"
proof (induction rule: typedef_chain.induct)
  case (chain_step t u v)
  then have "rk v < rk u" by (intro value_ranked_type) (auto simp: tag__is_typedef_def)
  with chain_step show ?case by simp
qed simp

lemma printed_type_rank:
  assumes "value_ranked cu rk" and "printed_type cu ty = retR t"
  shows "rk t \<le> rk ty"
proof -
  obtain r where r: "resolve_typedef cu ty = retR r" and t: "t = ty \<or> r = Some t"
    using assms(2) by (auto simp: printed_type_def res_simps split: option.splits if_splits)
  from resolve_typedef_sound[OF r] obtain u where u: "typedef_chain cu ty u" "Inr r = chain_end cu u" by blast
  from t show ?thesis
  proof
    assume "r = Some t"
    with u(2) have "u = t" by (auto simp: chain_end_def split: if_splits sum.splits)
    with chain_rank[OF u(1) assms(1)] show ?thesis by simp
  qed simp
qed

definition types_end :: "(tag \<Rightarrow> nat) \<Rightarrow> nat \<Rightarrow> 'c type_fn \<Rightarrow> bool" where
  "types_end rk k rec \<longleftrightarrow> (\<forall>ty name prefix off st. (\<forall>t. ty = Some t \<longrightarrow> rk t < k) \<longrightarrow> returns (rec ty name prefix off st))"

lemma array_returns:
  assumes "value_ranked cu rk" and "types_end rk k rec" and "rk t \<le> k" and "tag_tag t = DW_TAG_array_type"
  shows "returns (array_type__fprintf rec cu t name st)"
proof -
  have lower: "rk u < k" if "cu__type cu (tag_type t) = Inr (Some u)" for u
    using value_ranked_type[OF assms(1) _ _ that] assms(3,4) by simp
  have r: "returns (rec u nm p off s)" if "cu__type cu (tag_type t) = Inr u" for u nm p off s
    using assms(2) lower that by (simp add: types_end_def)
  have v: "returns (vector_text cu t flat)" for flat
    unfolding vector_text_def
    by (intro bindR_returns follow_typedef_returns[OF assms(1)])
       (auto simp: assms(4) intro!: bindR_returns tag_size_returns[OF assms(1)] split: option.split)
  have e: "returns (print_elements rec cu u nm sz n s)" if "cu__type cu (tag_type t) = Inr (Some u)" for u nm sz n s
    unfolding print_elements_def by (rule foldR_returns) (auto intro!: bindR_returns r that)
  show ?thesis
    unfolding array_type__fprintf_def Let_def
    by (auto intro!: bindR_returns r v e tag_size_returns[OF assms(1)] split: option.split list.split)
qed

lemma class_loop_returns:
  assumes "types_end rk k rec" and "\<And>m u. m \<in> set ts \<Longrightarrow> is_member_tag m \<Longrightarrow> cu__type cu (tag_type m) = Inr (Some u) \<Longrightarrow> rk u < k"
  shows "returns (class_loop rec env cu ts (b, st))"
  using assms(2)
proof (induction ts arbitrary: b st)
  case (Cons t ts)
  have "returns (rec (Some u) nm p off s)" if "is_member_tag t" "cu__type cu (tag_type t) = Inr (Some u)" for u nm p off s
    using assms(1) Cons.prems[of t u] that unfolding types_end_def by auto
  moreover have "returns (class_loop rec env cu ts (b, st))" for b st
    using Cons by auto
  ultimately show ?case
    by (auto simp: struct_member__fprintf_def Let_def intro!: bindR_returns split: option.split)
qed simp

lemma class_with_returns:
  assumes "value_ranked cu rk" and "types_end rk k rec" and "rk t \<le> k"
  shows "returns (class_fprintf_with rec env cu t st)"
  unfolding class_fprintf_with_def
proof (rule bindR_returns)
  fix x assume x: "Some (tag__type t) = retR x"
  obtain ty ts where "x = (ty, ts)" by (cases x)
  moreover have "rk u < k" if "m \<in> set ts" "is_member_tag m" "cu__type cu (tag_type m) = Inr (Some u)" for m u
  proof -
    have "value_edge cu t u" using that x calculation by (auto simp: value_edge_def type_members_def)
    then have "rk u < rk t" using assms(1) by (simp add: value_ranked_def)
    with assms(3) show ?thesis by simp
  qed
  ultimately show "returns (case x of (ty, ts) \<Rightarrow> class_loop rec env cu ts (False, st))"
    using class_loop_returns[OF assms(2)] by simp
qed simp

lemma type_body_returns:
  assumes v: "value_ranked cu vr" and nm: "name_ranked cu nr" "\<And>t. 2 * nr t + 2 < n"
    and rec: "types_end vr k rec" and ty: "\<And>t. type = Some t \<Longrightarrow> vr t \<le> k"
  shows "returns (type_body rec n env cu type name prefix off st)"
proof (cases type)
  case (Some t0)
  have p: "returns (printed_type cu t0)"
    unfolding printed_type_def by (rule bindR_returns[OF resolve_typedef_returns[OF v]]) simp
  have r: "vr t \<le> k" if "printed_type cu t0 = retR t" for t
    using printed_type_rank[OF v that] ty Some by auto
  have nmd: "returns (print_named n cu t s)" for t and s :: "'a pstate"
    unfolding print_named_def by (rule bindR_returns[OF tag_name_returns[OF nm]]) simp
  have ptr: "returns (print_pointer n cu t nme s)" for t nme and s :: "'a pstate"
    unfolding print_pointer_def by (auto intro!: bindR_returns nmd ftype_returns[OF nm] split: option.split)
  have str: "returns (print_struct rec env cu t prefix off s)" if "vr t \<le> k" for t s
    using class_with_returns[OF v rec that]
    by (auto simp: print_struct_def descend_def Let_def intro!: bindR_returns split: option.split)
  have ue: "returns (print_union_or_enum kind cu t s)" for kind t and s :: "'a pstate"
    by (auto simp: print_union_or_enum_def intro!: bindR_returns)
  show ?thesis
    unfolding Some type_body_def option.case Let_def
    by (rule bindR_returns[OF p])
       (auto intro!: bindR_returns ptr str ue nmd ftype_returns[OF nm] array_returns[OF v rec] r)
qed (simp add: type_body_def)

lemma types_end_fuel:
  assumes "value_ranked cu vr" and "name_ranked cu nr" and "\<And>t. 2 * nr t + 2 < N"
  shows "types_end vr k (type__fprintf (N + Suc k) env cu)"
proof (induction k)
  case 0
  show ?case
    unfolding types_end_def
  proof (intro allI impI)
    fix ty :: "tag option" and name prefix off and st :: "'a pstate"
    assume "\<forall>t. ty = Some t \<longrightarrow> vr t < 0"
    then have "ty = None" by (cases ty) auto
    then show "returns (type__fprintf (N + Suc 0) env cu ty name prefix off st)" by (simp add: type_body_def)
  qed
next
  case (Suc k)
  have "2 * nr t + 2 < N + Suc k" for t using assms(3)[of t] by simp
  then have "returns (type_body (type__fprintf (N + Suc k) env cu) (N + Suc k) env cu ty name prefix off st)"
    if "\<forall>t. ty = Some t \<longrightarrow> vr t < Suc k" for ty name prefix off st
    using that by (intro type_body_returns[OF assms(1,2) _ Suc]) auto
  then show ?case unfolding types_end_def by simp
qed

lemma class_fprintf_returns:
  assumes "value_ranked cu vr" and "name_ranked cu nr" and "\<And>t. 2 * nr t + 2 < N" and "N + vr class < n"
  shows "returns (class__fprintf n env cu class st)"
proof -
  obtain k where n: "n = N + Suc (vr class + k)"
    using assms(4) by (metis add_Suc_right less_iff_Suc_add ab_semigroup_add_class.add_ac(1))
  show ?thesis
    unfolding class__fprintf_def n
    by (rule class_with_returns[OF assms(1) types_end_fuel[OF assms(1-3)]]) simp
qed

end
