(* ===== verification/Dwarves_Rows.thy ===== *)
theory Dwarves_Rows
  imports Dwarves_Frame
begin

text \<open>
  The layout file as an abstract table. \<open>fields_of\<close> reads a structure out of the debug information
  as a tree of fields, \<open>field_rows\<close> flattens the tree into rows with full names and absolute
  offsets, \<open>render_rows\<close> writes them; the printers write exactly that.
\<close>

section \<open>The abstract layout\<close>

datatype layout_field =
    Leaf string string u32 int     \<comment> \<open>name, text of the type column, offset, size\<close>
  | Nested string u32 "layout_field list" \<comment> \<open>a member whose structure is expanded\<close>

type_synonym row = "string \<times> string \<times> u32 \<times> int"   \<comment> \<open>type column, full name, offset, size\<close>

fun field_rows :: "string list \<Rightarrow> u32 \<Rightarrow> layout_field \<Rightarrow> row list"
  and fields_rows :: "string list \<Rightarrow> u32 \<Rightarrow> layout_field list \<Rightarrow> row list" where
  "field_rows path base (Leaf name ty off sz) = [(ty, join_fields CHR ''.'' (path @ [name]), off + base, sz)]"
| "field_rows path base (Nested name off fs) = fields_rows (path @ [name]) (base + off) fs"
| "fields_rows path base [] = []"
| "fields_rows path base (f # fs) = field_rows path base f @ fields_rows path base fs"

fun field_depth :: "layout_field \<Rightarrow> nat" and fields_depth :: "layout_field list \<Rightarrow> nat" where
  "field_depth (Leaf name ty off sz) = 0"
| "field_depth (Nested name off fs) = Suc (fields_depth fs)"
| "fields_depth [] = 0"
| "fields_depth (f # fs) = max (field_depth f) (fields_depth fs)"

primrec render_rows :: "'c penv \<Rightarrow> row list \<Rightarrow> string \<times> 'c \<Rightarrow> string \<times> 'c" where
  "render_rows env [] out = out"
| "render_rows env (r # rs) out =
     (let (ty, full, off, sz) = r;
          (i, ids) = pe_add_member_name env full (snd out)
      in render_rows env rs
           (fst out @ ty @ [pe_delimiter env] @ dec_llu i @ [pe_delimiter env] @ dec_d off @
              [pe_delimiter env] @ dec_of_int sz @ [CHR 0x0A], ids))"

section \<open>Reading the layout out of the debug information\<close>

definition array_suffix :: "cu \<Rightarrow> tag \<Rightarrow> array_type \<Rightarrow> string run" where
  \<comment> \<open>the dimensions after the type of the elements, or the attribute of a vector\<close>
  "array_suffix cu t at =
     (if at_is_vector at
      then bindR (Some (flat_dimensions_loop (unat (at_dimensions at)) 0 (at_nr_entries at) 0)) (vector_text cu t)
      else Some (dimensions_text (unat (at_dimensions at)) (at_nr_entries at)))"

fun type_text :: "nat \<Rightarrow> 'c penv \<Rightarrow> cu \<Rightarrow> string option \<Rightarrow> tag \<Rightarrow> string option" where
  \<comment> \<open>the type column of a member that is not expanded; the name is part of the text of a function pointer\<close>
  "type_text 0 env cu nm ty = None"
| "type_text (Suc n) env cu nm ty = (case printed_type cu ty of
      Some (Inr t) \<Rightarrow>
        let col = dec_llu (pe_type_id env) @ [pe_delimiter env];
            in_col = (\<lambda>r. case r of Some (Inr s) \<Rightarrow> Some (col @ s) | _ \<Rightarrow> None);
            named = in_col (tag__name n cu (Some t) 127);
            of_kind = (\<lambda>kind. case tag__type t of
                Inr (ct, ts) \<Rightarrow> Some (col @ kind @ (case type__name cu ct of None \<Rightarrow> '''' | Some s \<Rightarrow> s))
              | Inl e \<Rightarrow> None)
        in if tag_tag t = DW_TAG_array_type
           then (case (tag__array_type t, cu__type cu (tag_type t)) of
               (Inr at, Inr (Some elem)) \<Rightarrow>
                 (case (type_text n env cu nm elem, array_suffix cu t at) of
                    (Some s, Some (Inr d)) \<Rightarrow> Some (s @ d)
                  | _ \<Rightarrow> None)
             | _ \<Rightarrow> None)
           else if tag_tag t = DW_TAG_class_type \<or> tag_tag t = DW_TAG_structure_type
           then (case tag__type t of
               Inr (ct, ts) \<Rightarrow> (case type__name cu ct of
                   Some s \<Rightarrow> if pe_expand_type env s then None
                     else Some (col @ (if tag_tag t = DW_TAG_class_type then ''class'' else ''struct'') @ '' '' @ s)
                 | None \<Rightarrow> None)
             | Inl e \<Rightarrow> None)
           else if tag_tag t = DW_TAG_union_type then of_kind ''union ''
           else if tag_tag t = DW_TAG_enumeration_type then of_kind ''enum ''
           else if tag_tag t = DW_TAG_subroutine_type then in_col (ftype__fprintf n cu t nm False False)
           else if tag_tag t = DW_TAG_pointer_type \<and> tag_type t \<noteq> 0
           then (case cu__type cu (tag_type t) of
               Inr (Some pty) \<Rightarrow>
                 if has_type_loop t (Some pty) then None
                 else if tag_tag pty = DW_TAG_subroutine_type then in_col (ftype__fprintf n cu pty nm False True)
                 else named
             | Inr None \<Rightarrow> Some (col @ ''<ERROR>'')
             | Inl e \<Rightarrow> None)
           else named
    | _ \<Rightarrow> None)"

definition expanded_struct :: "'c penv \<Rightarrow> cu \<Rightarrow> tag \<Rightarrow> (tag \<times> tag list) option" where
  \<comment> \<open>the structure a member of this type is replaced by\<close>
  "expanded_struct env cu ty = (case printed_type cu ty of
      Some (Inr t) \<Rightarrow>
        if tag_tag t = DW_TAG_class_type \<or> tag_tag t = DW_TAG_structure_type
        then (case tag__type t of
            Inr (ct, ts) \<Rightarrow> (case type__name cu ct of
                None \<Rightarrow> Some (t, ts)
              | Some s \<Rightarrow> if pe_expand_type env s then Some (t, ts) else None)
          | Inl e \<Rightarrow> None)
        else None
    | _ \<Rightarrow> None)"

definition array_elements :: "cu \<Rightarrow> tag \<Rightarrow> (tag \<times> nat \<times> int) option" where
  \<comment> \<open>type, number and size of the elements of an array with one dimension\<close>
  "array_elements cu ty = (case printed_type cu ty of
      Some (Inr t) \<Rightarrow>
        if tag_tag t = DW_TAG_array_type
        then (case (tag__array_type t, cu__type cu (tag_type t)) of
            (Inr at, Inr (Some elem)) \<Rightarrow>
              (case (at_nr_entries at, tag__size cu elem) of
                 (e # _, Some (Inr sz)) \<Rightarrow>
                   if at_dimensions at = 1 \<and>
                      list_all (\<lambda>i. - (2 ^ 31) \<le> int i * int_of_ull sz \<and> int i * int_of_ull sz < 2 ^ 31) [1 ..< unat e]
                   then Some (elem, unat e, int_of_ull sz) else None
               | _ \<Rightarrow> None)
          | _ \<Rightarrow> None)
        else None
    | _ \<Rightarrow> None)"

type_synonym fields_fn = "string option \<Rightarrow> string option \<Rightarrow> u32 \<Rightarrow> tag \<Rightarrow> layout_field list option"

definition member_name_arg :: "cu \<Rightarrow> tag \<Rightarrow> class_member \<Rightarrow> string option" where
  "member_name_arg cu t m = (if tag_tag t = DW_TAG_inheritance then Some ''<ancestor>'' else class_member__name cu m)"

definition member_fields ::
  "nat \<Rightarrow> fields_fn \<Rightarrow> 'c penv \<Rightarrow> cu \<Rightarrow> tag \<Rightarrow> class_member \<Rightarrow> tag \<Rightarrow> bool \<Rightarrow> layout_field list option" where
  "member_fields n sub env cu t m ty is_last = (case member_print_name cu m ty of
      Inl e \<Rightarrow> None
    | Inr name \<Rightarrow> (case sub (member_name_arg cu t m) (Some name) (cm_byte_offset m) ty of
          Some fs \<Rightarrow> Some fs
        | None \<Rightarrow> (case (type_text n env cu (member_name_arg cu t m) ty, printed_size m ty is_last) of
            (Some s, Inr sz) \<Rightarrow> Some [Leaf name s (cm_byte_offset m) sz]
          | _ \<Rightarrow> None)))"

fun members_fields ::
  "(tag \<Rightarrow> class_member \<Rightarrow> tag \<Rightarrow> bool \<Rightarrow> layout_field list option) \<Rightarrow> cu \<Rightarrow> tag list \<Rightarrow> layout_field list option" where
  "members_fields fld cu [] = Some []"
| "members_fields fld cu (t # ts) =
     (if \<not> is_member_tag t then members_fields fld cu ts
      else case (tag__class_member t, cu__type cu (tag_type t)) of
          (Inr m, Inr None) \<Rightarrow> members_fields fld cu ts
        | (Inr m, Inr (Some ty)) \<Rightarrow>
            if cm_is_static m then members_fields fld cu ts
            else (case (fld t m ty (ts = []), members_fields fld cu ts) of
                (Some f, Some fs) \<Rightarrow> Some (f @ fs)
              | _ \<Rightarrow> None)
        | _ \<Rightarrow> None)"

text \<open>
  What replaces a member whose type is expanded: the fields of the structure under the prefix and at
  the offset; or, for an array of such types, those of each element under the name of the member, at
  the offset of the element in the array: the offset of the member itself is lost.
\<close>

definition expand_fields :: "fields_fn \<Rightarrow> nat \<Rightarrow> 'c penv \<Rightarrow> cu \<Rightarrow> fields_fn" where
  "expand_fields sub n env cu nm prefix off ty = (case expanded_struct env cu ty of
      Some (t, ts) \<Rightarrow> (case (prefix, members_fields (member_fields n sub env cu) cu ts) of
          (Some p, Some fs) \<Rightarrow> Some [Nested p off fs]
        | _ \<Rightarrow> None)
    | None \<Rightarrow> (case array_elements cu ty of
          Some (elem, e, sz) \<Rightarrow>
            map_option concat (those (map (\<lambda>pos. sub nm nm pos elem) (0 # map (\<lambda>i. word_of_int (int i * sz)) [1 ..< e])))
        | None \<Rightarrow> None))"

primrec subfields_of :: "nat \<Rightarrow> 'c penv \<Rightarrow> cu \<Rightarrow> fields_fn" where
  "subfields_of 0 env cu = (\<lambda>_ _ _ _. None)"
| "subfields_of (Suc n) env cu = expand_fields (subfields_of n env cu) n env cu"

definition fields_of :: "nat \<Rightarrow> 'c penv \<Rightarrow> cu \<Rightarrow> tag list \<Rightarrow> layout_field list option" where
  "fields_of n env cu ts = members_fields (member_fields n (subfields_of n env cu) env cu) cu ts"

section \<open>The printers write the abstract layout\<close>

lemma put_put [simp]: "put b (put a st) = put (a @ b) st"
  by (simp add: put_def)

lemma type_text_printed:
  "type_text n env cu name ty = Some s \<Longrightarrow> type__fprintf n env cu (Some ty) name prefix off st = retR (False, put s st)"
proof (induction n arbitrary: ty s prefix off st)
  case (Suc n)
  from Suc.prems obtain t where t: "printed_type cu ty = Some (Inr t)"
    by (auto split: option.splits sum.splits)
  show ?case
  proof (cases "tag_tag t = DW_TAG_array_type")
    case True
    with Suc.prems t obtain at el s1 d where a: "tag__array_type t = Inr at" "cu__type cu (tag_type t) = Inr (Some el)"
      "type_text n env cu name el = Some s1" "array_suffix cu t at = Some (Inr d)" "s = s1 @ d"
      by (auto split: option.splits sum.splits if_splits)
    show ?thesis
    proof (cases "at_is_vector at")
      case vec: True
      then obtain flat where "flat_dimensions_loop (unat (at_dimensions at)) 0 (at_nr_entries at) 0 = Inr flat"
        "vector_text cu t flat = retR d"
        using a(4) by (auto simp: array_suffix_def res_simps)
      with vec True t a Suc.IH[OF a(3)] show ?thesis by (simp add: type_body_def array_type__fprintf_def)
    next
      case False
      with True t a Suc.IH[OF a(3)] show ?thesis
        by (simp add: type_body_def array_type__fprintf_def array_suffix_def)
    qed
  next
    case no_array: False
    note eq = Suc.prems[unfolded type_text.simps t option.case sum.case Let_def if_not_P[OF no_array]]
    consider (struct) "tag_tag t = DW_TAG_class_type \<or> tag_tag t = DW_TAG_structure_type"
      | (union) "tag_tag t = DW_TAG_union_type" | (enum) "tag_tag t = DW_TAG_enumeration_type"
      | (func) "tag_tag t = DW_TAG_subroutine_type"
      | (ptr) "tag_tag t = DW_TAG_pointer_type" "tag_type t \<noteq> 0"
      | (named) "\<not> (tag_tag t = DW_TAG_class_type \<or> tag_tag t = DW_TAG_structure_type)" "tag_tag t \<noteq> DW_TAG_union_type"
          "tag_tag t \<noteq> DW_TAG_enumeration_type" "tag_tag t \<noteq> DW_TAG_subroutine_type"
          "tag_tag t = DW_TAG_pointer_type \<longrightarrow> tag_type t = 0" by blast
    then show ?thesis
    proof cases
      case struct
      with eq t show ?thesis
        by (auto simp: type_body_def print_struct_def split: option.splits sum.splits if_splits prod.splits)
    next
      case union
      with eq t show ?thesis by (auto simp: type_body_def print_union_or_enum_def split: sum.splits prod.splits)
    next
      case enum
      with eq t show ?thesis by (auto simp: type_body_def print_union_or_enum_def split: sum.splits prod.splits)
    next
      case func
      with eq t show ?thesis by (auto simp: type_body_def split: option.splits sum.splits)
    next
      case ptr
      have eq': "(case cu__type cu (tag_type t) of
               Inr (Some pty) \<Rightarrow>
                 if has_type_loop t (Some pty) then None
                 else if tag_tag pty = DW_TAG_subroutine_type
                 then (case ftype__fprintf n cu pty name False True of
                     Some (Inr s) \<Rightarrow> Some ((dec_llu (pe_type_id env) @ [pe_delimiter env]) @ s) | _ \<Rightarrow> None)
                 else (case tag__name n cu (Some t) 127 of
                     Some (Inr s) \<Rightarrow> Some ((dec_llu (pe_type_id env) @ [pe_delimiter env]) @ s) | _ \<Rightarrow> None)
             | Inr None \<Rightarrow> Some ((dec_llu (pe_type_id env) @ [pe_delimiter env]) @ ''<ERROR>'')
             | Inl e \<Rightarrow> None) = Some s"
        using eq ptr by simp
      obtain p where p: "cu__type cu (tag_type t) = Inr p" using eq' by (cases "cu__type cu (tag_type t)") auto
      have "print_pointer n cu t name (put (dec_llu (pe_type_id env) @ [pe_delimiter env]) st) = retR (False, put s st)"
      proof (cases p)
        case None
        with eq' p ptr(2) show ?thesis by (auto simp: print_pointer_def)
      next
        case (Some pty)
        with eq' p have loop: "\<not> has_type_loop t (Some pty)" by (auto split: if_splits)
        note eq1 = eq'[unfolded p Some sum.case option.case if_not_P[OF loop]]
        show ?thesis
        proof (cases "tag_tag pty = DW_TAG_subroutine_type")
          case True
          from eq1[unfolded if_P[OF True]] True p Some loop ptr(2) show ?thesis
            by (auto simp: print_pointer_def split: option.splits sum.splits)
        next
          case False
          from eq1[unfolded if_not_P[OF False]] False p Some loop ptr(2) show ?thesis
            by (auto simp: print_pointer_def print_named_def split: option.splits sum.splits)
        qed
      qed
      then show ?thesis using t ptr(1) by (simp add: type_body_def)
    next
      case named
      then have "(case tag__name n cu (Some t) 127 of
           Some (Inr s) \<Rightarrow> Some ((dec_llu (pe_type_id env) @ [pe_delimiter env]) @ s) | _ \<Rightarrow> None) = Some s"
        using eq by auto
      then obtain s' where "tag__name n cu (Some t) 127 = retR s'" "s = (dec_llu (pe_type_id env) @ [pe_delimiter env]) @ s'"
        by (auto split: option.splits sum.splits)
      with named no_array t show ?thesis
        by (cases "tag_tag t = DW_TAG_pointer_type") (simp_all add: type_body_def print_pointer_def print_named_def)
    qed
  qed
qed simp

definition pout :: "'c pstate \<Rightarrow> string \<times> 'c" where
  "pout st = (ps_fp st, ps_ids st)"

lemma render_rows_append: "render_rows env (rs @ rs') out = render_rows env rs' (render_rows env rs out)"
  by (induction rs arbitrary: out) (simp_all add: case_prod_beta Let_def)

definition at_path :: "string list \<Rightarrow> nat \<Rightarrow> 'c pstate \<Rightarrow> bool" where
  \<comment> \<open>the prefixes in use, and room for a number of further ones\<close>
  "at_path path room st \<longleftrightarrow> ps_next_prefix_idx st = length path \<and>
     take (length path) (ps_name_prefixes st) = map Some path \<and> length path + room \<le> length (ps_name_prefixes st)"

lemma at_path_kept: "at_path path room st \<Longrightarrow> ext_kept env st st' \<Longrightarrow> at_path path room st'"
  by (auto simp: at_path_def ext_kept_def)

lemma at_path_mono: "at_path path room st \<Longrightarrow> room' \<le> room \<Longrightarrow> at_path path room' st"
  by (auto simp: at_path_def)

lemma at_path_descend:
  assumes "at_path path (Suc room) st"
  shows "at_path (path @ [name]) room (st\<lparr>ps_name_prefixes := (ps_name_prefixes st)[ps_next_prefix_idx st := Some name],
    ps_next_prefix_idx := ps_next_prefix_idx st + 1, ps_offset := off\<rparr>)"
  using assms by (auto simp: at_path_def take_Suc_conv_app_nth)

lemma leaf_printed:
  assumes m: "tag__class_member t = Inr m" "\<not> cm_is_static m" and name: "member_print_name cu m ty = Inr name"
    and ty: "type_text n env cu (member_name_arg cu t m) ty = Some s" and sz: "printed_size m ty is_last = Inr sz"
    and alloc: "pe_alloc env = (\<lambda>_. True)" and path: "at_path path room st"
  obtains st' where "struct_member__fprintf (type__fprintf n env cu) env cu t ty is_last st = retR st'"
    and "pout st' = render_rows env (field_rows path (ps_offset st) (Leaf name s (cm_byte_offset m) sz)) (pout st)"
proof -
  let ?full = "join_fields CHR ''.'' (path @ [name])"
  obtain i ids where id: "pe_add_member_name env ?full (ps_ids st) = (i, ids)" by (cases "pe_add_member_name env ?full (ps_ids st)")
  have "dwarves_convert_concat_members (\<lambda>_. True) (ps_name_prefixes st) (ps_next_prefix_idx st) name = Inr (Some ?full)"
    using path by (intro concat_members_join(2)) (simp_all add: at_path_def)
  then have full: "add_full_name env name (put (s @ [pe_delimiter env]) st) =
      Inr (i, put (s @ [pe_delimiter env]) st\<lparr>ps_ids := ids\<rparr>)"
    using alloc id by (simp add: add_full_name_def put_def)
  let ?st = "put (dec_llu i @ [pe_delimiter env] @ dec_d (cm_byte_offset m + ps_offset st) @
      [pe_delimiter env] @ dec_of_int sz @ [CHR 0x0A]) (put (s @ [pe_delimiter env]) st\<lparr>ps_ids := ids\<rparr>)"
  show thesis
  proof (rule that[of ?st])
    show "struct_member__fprintf (type__fprintf n env cu) env cu t ty is_last st = retR ?st"
      using m name sz full type_text_printed[OF ty]
      by (simp add: struct_member__fprintf_def member_name_arg_def[symmetric] Let_def) (simp add: put_def)
  qed (use id in \<open>simp add: pout_def put_def\<close>)
qed

lemma fields_rows_append: "fields_rows path base (fs @ gs) = fields_rows path base fs @ fields_rows path base gs"
  and fields_depth_append: "fields_depth (fs @ gs) = max (fields_depth fs) (fields_depth gs)"
  by (induction fs) auto

text \<open>A printer that replaces a type by the rows of its fields.\<close>

definition rows_printed :: "fields_fn \<Rightarrow> 'c type_fn \<Rightarrow> 'c penv \<Rightarrow> bool" where
  "rows_printed sub type_rec env \<longleftrightarrow> (\<forall>nm prefix off ty fs path st. sub nm prefix off ty = Some fs \<longrightarrow>
     at_path path (fields_depth fs) st \<longrightarrow>
     (\<exists>st'. type_rec (Some ty) nm prefix off st = retR (True, st') \<and>
        pout st' = render_rows env (fields_rows path (ps_offset st) fs) (pout st)))"

lemma rows_printedD:
  assumes "rows_printed sub type_rec env" and "sub nm prefix off ty = Some fs" and "at_path path (fields_depth fs) st"
  obtains st' where "type_rec (Some ty) nm prefix off st = retR (True, st')"
    and "pout st' = render_rows env (fields_rows path (ps_offset st) fs) (pout st)"
  using assms unfolding rows_printed_def by blast

lemma member_rows:
  assumes R: "rows_printed (subfields_of n env cu) (type__fprintf n env cu) env"
    and m: "tag__class_member t = Inr m" "\<not> cm_is_static m"
    and f: "member_fields n (subfields_of n env cu) env cu t m ty is_last = Some f"
    and alloc: "pe_alloc env = (\<lambda>_. True)" and path: "at_path path (fields_depth f) st"
  shows "\<exists>st1. struct_member__fprintf (type__fprintf n env cu) env cu t ty is_last st = retR st1 \<and>
    pout st1 = render_rows env (fields_rows path (ps_offset st) f) (pout st)"
proof -
  let ?nm = "member_name_arg cu t m"
  obtain name where name: "member_print_name cu m ty = Inr name" using f by (auto simp: member_fields_def split: sum.splits)
  note f' = f[unfolded member_fields_def name sum.case]
  show ?thesis
  proof (cases "subfields_of n env cu ?nm (Some name) (cm_byte_offset m) ty")
    case None
    with f' obtain s sz where l: "type_text n env cu ?nm ty = Some s" "printed_size m ty is_last = Inr sz"
      "f = [Leaf name s (cm_byte_offset m) sz]"
      by (auto split: option.splits sum.splits)
    from leaf_printed[OF m name l(1,2) alloc path] show ?thesis unfolding l(3) by fastforce
  next
    case (Some fs)
    with f' have fs: "fs = f" by simp
    from rows_printedD[OF R Some[unfolded fs] path] obtain st' where
      "type__fprintf n env cu (Some ty) ?nm (Some name) (cm_byte_offset m) st = retR (True, st')"
      "pout st' = render_rows env (fields_rows path (ps_offset st) f) (pout st)" .
    then show ?thesis
      using m name by (simp add: struct_member__fprintf_def member_name_arg_def[symmetric] Let_def)
  qed
qed

lemma class_loop_rows:
  assumes R: "rows_printed (subfields_of n env cu) (type__fprintf n env cu) env" and alloc: "pe_alloc env = (\<lambda>_. True)"
    and "fields_of n env cu ts = Some fs" and "at_path path (fields_depth fs) st"
  shows "\<exists>st'. class_loop (type__fprintf n env cu) env cu ts (ret, st) = retR (ret \<or> list_ex is_member_tag ts, st') \<and>
    pout st' = render_rows env (fields_rows path (ps_offset st) fs) (pout st)"
  using assms(3,4)
proof (induction ts arbitrary: fs st ret)
  case Nil
  then show ?case by (simp add: fields_of_def)
next
  case (Cons t ts)
  show ?case
  proof (cases "is_member_tag t")
    case False
    with Cons show ?thesis by (simp add: fields_of_def)
  next
    case mem: True
    show ?thesis
    proof (cases "\<exists>m ty. tag__class_member t = Inr m \<and> cu__type cu (tag_type t) = Inr (Some ty) \<and> \<not> cm_is_static m")
      case False
      with Cons.prems mem have fs: "fields_of n env cu ts = Some fs"
        by (auto simp: fields_of_def split: sum.splits option.splits if_splits)
      have "class_loop (type__fprintf n env cu) env cu (t # ts) (ret, st) =
          class_loop (type__fprintf n env cu) env cu ts (True, st)"
        using False Cons.prems mem
        by (auto simp: fields_of_def struct_member__fprintf_def split: sum.splits option.splits if_splits)
      with Cons.IH[OF fs Cons.prems(2), of True] mem show ?thesis by simp
    next
      case True
      then obtain m ty where m: "tag__class_member t = Inr m" "cu__type cu (tag_type t) = Inr (Some ty)"
        "\<not> cm_is_static m" by blast
      with Cons.prems(1) mem obtain f fs' where
        f: "member_fields n (subfields_of n env cu) env cu t m ty (ts = []) = Some f"
        and fs': "fields_of n env cu ts = Some fs'" and fs: "fs = f @ fs'"
        by (auto simp: fields_of_def split: option.splits)
      have "at_path path (fields_depth f) st" using Cons.prems(2) by (rule at_path_mono) (simp add: fs fields_depth_append)
      from member_rows[OF R m(1,3) f alloc this] obtain st1 where
        st1: "struct_member__fprintf (type__fprintf n env cu) env cu t ty (ts = []) st = retR st1"
          "pout st1 = render_rows env (fields_rows path (ps_offset st) f) (pout st)" by blast
      have k: "ext_kept env st st1" using st1(1) by (rule layout.member_kept)
      have "at_path path (fields_depth fs') st1"
        using at_path_kept[OF Cons.prems(2) k] by (rule at_path_mono) (simp add: fs fields_depth_append)
      from Cons.IH[OF fs' this, of True] st1 k mem m(2) show ?thesis
        by (auto simp: fs render_rows_append fields_rows_append ext_kept_def)
    qed
  qed
qed

lemma struct_expanded:
  assumes R: "rows_printed (subfields_of n env cu) (type__fprintf n env cu) env" and alloc: "pe_alloc env = (\<lambda>_. True)"
    and ex: "expanded_struct env cu ty = Some (t, ts)" and fs: "fields_of n env cu ts = Some fs"
    and path: "at_path path (Suc (fields_depth fs)) st"
  shows "\<exists>st'. type__fprintf (Suc n) env cu (Some ty) nm (Some p) off st = retR (True, st') \<and>
    pout st' = render_rows env (fields_rows path (ps_offset st) [Nested p off fs]) (pout st)"
proof -
  obtain ct where t: "printed_type cu ty = Some (Inr t)" "tag__type t = Inr (ct, ts)"
    "tag_tag t = DW_TAG_class_type \<or> tag_tag t = DW_TAG_structure_type"
    "\<forall>s. type__name cu ct = Some s \<longrightarrow> pe_expand_type env s"
    using ex by (auto simp: expanded_struct_def split: option.splits sum.splits if_splits)
  have idx: "\<not> length (ps_name_prefixes st) \<le> ps_next_prefix_idx st" using path by (simp add: at_path_def)
  note p' = at_path_descend[OF path, of p "ps_offset st + off"]
  from class_loop_rows[OF R alloc fs p', of False] obtain b st1 where
    loop: "class_loop (type__fprintf n env cu) env cu ts (False, st\<lparr>
        ps_name_prefixes := (ps_name_prefixes st)[ps_next_prefix_idx st := Some p],
        ps_next_prefix_idx := ps_next_prefix_idx st + 1, ps_offset := ps_offset st + off\<rparr>) = retR (b, st1)"
    and out: "pout st1 = render_rows env (fields_rows (path @ [p]) (ps_offset st + off) fs) (pout st)"
    by (auto simp: pout_def)
  let ?st = "st1\<lparr>ps_offset := ps_offset st1 - off, ps_next_prefix_idx := ps_next_prefix_idx st1 - 1\<rparr>"
  have "descend (type__fprintf n env cu) env cu t (Some p) off st = retR (True, ?st)"
    using idx t(2) loop by (simp add: descend_def class_fprintf_with_def)
  then have "print_struct (type__fprintf n env cu) env cu t (Some p) off st = retR (True, ?st)"
    using t by (auto simp: print_struct_def split: option.split)
  then show ?thesis using t(1,3) out by (auto simp: type_body_def pout_def)
qed

lemma elements_printed:
  assumes R: "rows_printed sub type_rec env"
    and kept: "\<And>ty nm p off st b st'. type_rec ty nm p off st = retR (b, st') \<Longrightarrow> ext_kept env st st'"
    and ok: "list_all (\<lambda>i. - (2 ^ 31) \<le> int i * sz \<and> int i * sz < 2 ^ 31) is"
    and fss: "those (map (\<lambda>i. sub nm nm (word_of_int (int i * sz)) elem) is) = Some fss"
    and path: "at_path path (fields_depth (concat fss)) st"
  shows "\<exists>st'. foldR (\<lambda>i st. if 2 ^ 31 \<le> int i * sz \<or> int i * sz < - (2 ^ 31) then Some (ub ''signed overflow'')
       else bindR (type_rec (Some elem) nm nm (word_of_int (int i * sz)) st) (\<lambda>(_, st1). retR st1)) is st = retR st' \<and>
     pout st' = render_rows env (fields_rows path (ps_offset st) (concat fss)) (pout st)"
  using ok fss path
proof (induction "is" arbitrary: st fss)
  case (Cons i "is")
  from Cons.prems(2) obtain f fss' where f: "sub nm nm (word_of_int (int i * sz)) elem = Some f"
    and fss': "those (map (\<lambda>i. sub nm nm (word_of_int (int i * sz)) elem) is) = Some fss'" and fss: "fss = f # fss'"
    by (auto split: option.splits)
  have "at_path path (fields_depth f) st"
    using Cons.prems(3) by (rule at_path_mono) (simp add: fss fields_depth_append)
  from rows_printedD[OF R f this] obtain st1 where
    st1: "type_rec (Some elem) nm nm (word_of_int (int i * sz)) st = retR (True, st1)"
      "pout st1 = render_rows env (fields_rows path (ps_offset st) f) (pout st)" .
  have k: "ext_kept env st st1" using st1(1) by (rule kept)
  have "at_path path (fields_depth (concat fss')) st1"
    using at_path_kept[OF Cons.prems(3) k] by (rule at_path_mono) (simp add: fss fields_depth_append)
  from Cons.IH[OF _ fss' this] Cons.prems(1) obtain st' where
    "foldR (\<lambda>i st. if 2 ^ 31 \<le> int i * sz \<or> int i * sz < - (2 ^ 31) then Some (ub ''signed overflow'')
       else bindR (type_rec (Some elem) nm nm (word_of_int (int i * sz)) st) (\<lambda>(_, st1). retR st1)) is st1 = retR st'"
    "pout st' = render_rows env (fields_rows path (ps_offset st1) (concat fss')) (pout st1)" by auto
  with st1 k Cons.prems(1) show ?case
    by (auto simp: fss render_rows_append fields_rows_append ext_kept_def)
qed simp

lemma subfields_printed:
  assumes alloc: "pe_alloc env = (\<lambda>_. True)"
  shows "rows_printed (subfields_of n env cu) (type__fprintf n env cu) env"
proof (induction n)
  case 0
  then show ?case by (simp add: rows_printed_def)
next
  case (Suc n)
  have "\<exists>st'. type__fprintf (Suc n) env cu (Some ty) nm prefix off st = retR (True, st') \<and>
      pout st' = render_rows env (fields_rows path (ps_offset st) fs) (pout st)"
    if f: "subfields_of (Suc n) env cu nm prefix off ty = Some fs" and path: "at_path path (fields_depth fs) st"
    for nm prefix off ty fs path st
  proof (cases "expanded_struct env cu ty")
    case (Some q)
    obtain t ts where "q = (t, ts)" by (cases q)
    with Some f obtain p gs where ex: "expanded_struct env cu ty = Some (t, ts)" "prefix = Some p"
      "fields_of n env cu ts = Some gs" "fs = [Nested p off gs]"
      by (auto simp: expand_fields_def fields_of_def split: option.splits)
    from struct_expanded[OF Suc alloc ex(1,3)] path show ?thesis unfolding ex(2,4) by simp
  next
    case None
    with f obtain el e sz fss where a: "array_elements cu ty = Some (el, e, sz)"
      and fss: "those (map (\<lambda>pos. subfields_of n env cu nm nm pos el) (0 # map (\<lambda>i. word_of_int (int i * sz)) [1 ..< e])) = Some fss"
      and fs: "fs = concat fss"
      by (auto simp: expand_fields_def simp del: list.map those.simps split: option.splits)
    from a obtain t at e' more sz' where t: "printed_type cu ty = Some (Inr t)" "tag_tag t = DW_TAG_array_type"
      "tag__array_type t = Inr at" "cu__type cu (tag_type t) = Inr (Some el)" "at_nr_entries at = e' # more"
      "tag__size cu el = Some (Inr sz')" "at_dimensions at = 1" "e = unat e'" "sz = int_of_ull sz'"
      and ok: "list_all (\<lambda>i. - (2 ^ 31) \<le> int i * sz \<and> int i * sz < 2 ^ 31) [1 ..< e]"
      by (auto simp: array_elements_def split: option.splits sum.splits if_splits list.splits)
    from fss obtain f0 fss' where f0: "subfields_of n env cu nm nm 0 el = Some f0"
      and fss': "those (map (\<lambda>i. subfields_of n env cu nm nm (word_of_int (int i * sz)) el) [1 ..< e]) = Some fss'"
      and fss0: "fss = f0 # fss'"
      by (auto simp: comp_def split: option.splits)
    have "at_path path (fields_depth f0) st"
      using path by (rule at_path_mono) (simp add: fs fss0 fields_depth_append)
    from rows_printedD[OF Suc f0 this] obtain st1 where
      st1: "type__fprintf n env cu (Some el) nm nm 0 st = retR (True, st1)"
        "pout st1 = render_rows env (fields_rows path (ps_offset st) f0) (pout st)" .
    have k: "ext_kept env st st1" using st1(1) by (rule type__fprintf_kept)
    have path': "at_path path (fields_depth (concat fss')) st1"
      using at_path_kept[OF path k] by (rule at_path_mono) (simp add: fs fss0 fields_depth_append)
    have "\<exists>st'. print_elements (type__fprintf n env cu) cu el nm sz e st1 = retR st' \<and>
        pout st' = render_rows env (fields_rows path (ps_offset st1) (concat fss')) (pout st1)"
      unfolding print_elements_def
      by (rule elements_printed[OF Suc _ ok fss' path']) (rule type__fprintf_kept)
    then obtain st' where
      st': "print_elements (type__fprintf n env cu) cu el nm sz e st1 = retR st'"
        "pout st' = render_rows env (fields_rows path (ps_offset st1) (concat fss')) (pout st1)" by blast
    then have "array_type__fprintf (type__fprintf n env cu) cu t nm st = retR (True, st')"
      using t(3-9) st1(1) by (simp add: array_type__fprintf_def)
    then have "type__fprintf (Suc n) env cu (Some ty) nm prefix off st = retR (True, st')"
      using t(1,2) by (simp add: type_body_def)
    moreover have "pout st' = render_rows env (fields_rows path (ps_offset st) fs) (pout st)"
      using st'(2) st1(2) k by (simp add: fs fss0 render_rows_append fields_rows_append ext_kept_def)
    ultimately show ?thesis by blast
  qed
  then show ?case unfolding rows_printed_def by blast
qed

lemmas class_rows = class_loop_rows[OF subfields_printed]

end
