(* ===== verification/Struct_Layout.thy ===== *)
theory Struct_Layout
  imports Dwarves_Layout Convert_Model
begin

text \<open>
  The converter's use of the debug information (\<^verbatim>\<open>binaryread.cc\<close>): writing the file
  \<^verbatim>\<open>structs_layout.csv\<close> for the types of interest, and finding the global variable that contains
  a lock. The callbacks are the converter's own \<open>expand_type\<close> and \<open>addMemberName\<close>. Messages on
  standard error are left out.
\<close>

section \<open>Structure definitions\<close>

definition layout_env :: "char \<Rightarrow> (nat \<Rightarrow> bool) \<Rightarrow> DataType \<Rightarrow> conv \<Rightarrow> conv penv" where
  \<comment> \<open>\<open>dwarvesconfig\<close> with the callbacks of \<open>convert.cc\<close>\<close>
  "layout_env delim alloc ty c =
     \<lparr> pe_type_id = dt_id ty, pe_expand_type = expand_type c, pe_add_member_name = addMemberName,
       pe_delimiter = delim, pe_alloc = alloc \<rparr>"

definition zero_ext :: "string \<Rightarrow> conv \<Rightarrow> conv pstate" where
  "zero_ext fp c = \<lparr> ps_fp = fp, ps_name_prefixes = replicate 16 None, ps_next_prefix_idx = 0,
     ps_offset = 0, ps_ids = c \<rparr>"

definition mark_found :: "nat \<Rightarrow> conv \<Rightarrow> conv" where
  "mark_found k c = c\<lparr>types := (types c)[k := (types c ! k)\<lparr>foundInDw := True\<rparr>]\<rparr>"

definition is_class_tag :: "tag \<Rightarrow> bool" where
  "is_class_tag t \<longleftrightarrow> tag_tag t = DW_TAG_class_type \<or> tag_tag t = DW_TAG_interface_type \<or>
     tag_tag t = DW_TAG_structure_type"

definition extract_struct :: "nat \<Rightarrow> char \<Rightarrow> (nat \<Rightarrow> bool) \<Rightarrow> cu \<Rightarrow> nat \<Rightarrow> conv pstate \<Rightarrow> conv pstate run" where
  \<comment> \<open>the body of the loop of \<open>convert_cus_iterator\<close> for the type at position \<open>k\<close>\<close>
  "extract_struct n delim alloc cu k st =
     (let ty = types (ps_ids st) ! k in
      if foundInDw ty then retR st
      else bindR (cu__find_struct_by_name cu (dt_name ty) False) (\<lambda>r. case r of
          None \<Rightarrow> retR st
        | Some (class_id, t) \<Rightarrow>
            if is_class_tag t
            then bindR (class__fprintf n (layout_env delim alloc ty (ps_ids st)) cu t st) (\<lambda>(printed, st1).
              retR (if printed then st1\<lparr>ps_ids := mark_found k (ps_ids st1)\<rparr> else st1))
            else retR st))"

definition convert_cus_iterator ::
  "nat \<Rightarrow> char \<Rightarrow> (nat \<Rightarrow> bool) \<Rightarrow> cu \<Rightarrow> string \<times> conv \<Rightarrow> (bool \<times> string \<times> conv) run" where
  "convert_cus_iterator n delim alloc cu = (\<lambda>(fp, c).
     bindR (foldR (extract_struct n delim alloc cu) [0 ..< length (types c)] (zero_ext fp c)) (\<lambda>st.
       retR (list_all foundInDw (types (ps_ids st)), ps_fp st, ps_ids st)))"

definition layout_header :: "char \<Rightarrow> string" where
  "layout_header d = ''type_id'' @ [d] @ ''type'' @ [d] @ ''member'' @ [d] @ ''offset'' @ [d] @ ''size'' @ [CHR 0x0A]"

definition extractStructDefs ::
  "nat \<Rightarrow> bool \<Rightarrow> char \<Rightarrow> (nat \<Rightarrow> bool) \<Rightarrow> cu list \<Rightarrow> conv \<Rightarrow> (int \<times> string \<times> conv) run" where
  \<comment> \<open>\<open>opened\<close>: the output file could be opened\<close>
  "extractStructDefs n opened delim alloc kernelCUs c =
     (if \<not> opened then retR (1, [], c)
      else bindR (cus__for_each_cu (convert_cus_iterator n delim alloc) Some kernelCUs (layout_header delim, c))
        (\<lambda>(fp, c1). retR (0, fp, c1)))"

section \<open>Global lock variables\<close>

fun find_variable_loop :: "cu \<Rightarrow> u64 \<Rightarrow> nat \<Rightarrow> u32 \<Rightarrow> string option option run" where
  \<comment> \<open>\<open>cu__for_each_variable\<close> with the number of entries still to visit; the outer \<open>Some\<close> ends the search\<close>
  "find_variable_loop cu addr 0 i = retR None"
| "find_variable_loop cu addr (Suc n) i =
     bindR (Some (load_entry (cu_tags_table cu) i)) (\<lambda>p. case p of
         None \<Rightarrow> find_variable_loop cu addr n (i + 1)
       | Some pos \<Rightarrow>
           if \<not> tag__is_variable pos then find_variable_loop cu addr n (i + 1)
           else bindR (Some (tag__variable pos)) (\<lambda>var.
             if va_location var \<noteq> LOCATION_GLOBAL then find_variable_loop cu addr n (i + 1)
             else if \<not> va_declaration var \<and> va_name var \<noteq> 0 \<and> va_addr var \<le> addr
             then bindR (tag__size cu pos) (\<lambda>sz.
               if addr < va_addr var + sz then retR (Some (variable__name cu var))
               else find_variable_loop cu addr n (i + 1))
             else find_variable_loop cu addr n (i + 1)))"

definition findGlobalLockVar :: "u64 \<Rightarrow> cu \<Rightarrow> string option \<Rightarrow> (bool \<times> string option) run" where
  "findGlobalLockVar addr cu name =
     bindR (find_variable_loop cu addr (unat (pt_nr_entries (cu_tags_table cu))) 0) (\<lambda>r.
       retR (case r of None \<Rightarrow> (False, name) | Some n \<Rightarrow> (True, n)))"

definition lookup_global_lock_var :: "cu list \<Rightarrow> (u64, string) omap \<Rightarrow> u64 \<Rightarrow> string option run" where
  \<comment> \<open>\<open>getGlobalLockVar\<close>, with the symbols of the binary as the fallback\<close>
  "lookup_global_lock_var kernelCUs addrToSym addr =
     bindR (cus__for_each_cu (findGlobalLockVar addr) Some kernelCUs None) (\<lambda>name.
       retR (case name of Some n \<Rightarrow> Some n | None \<Rightarrow> omap_lookup addrToSym addr))"

end
