(* ===== verification/Struct_Extract.thy ===== *)
theory Struct_Extract
  imports Dwarves_Ends Dwarves_Rows Struct_Layout
begin

text \<open>
  What the extraction of the structure definitions does to the converter's tables: the types of
  interest are marked exactly when some compilation unit defines them, and member names keep their
  numbers. What a unit defines is stated without the search of the program; the extraction ends on
  units without type cycles, and without an error if the units can be read and the structures have
  an abstract layout.
\<close>

section \<open>Structures of a compilation unit\<close>

text \<open>
  What it means that a unit defines a structure of a name, without the search: the types are numbered
  from 1; a structure, class or typedef of the name that is no declaration stands for the type at the
  end of its typedefs; the one with the smallest number decides, and so does a typedef of the name
  that leads to no type.
\<close>

definition type_at :: "cu \<Rightarrow> u16 \<Rightarrow> tag \<Rightarrow> bool" where
  "type_at cu i t \<longleftrightarrow> i \<noteq> 0 \<and> cu__type cu i = Inr (Some t)"

definition named_record :: "cu \<Rightarrow> string \<Rightarrow> tag \<Rightarrow> bool" where
  "named_record cu name t \<longleftrightarrow> (tag__is_typedef t \<or> tag__is_struct t) \<and>
     (\<exists>ty ts. tag__type t = Inr (ty, ts) \<and> type__name cu ty = Some name)"

definition is_declaration :: "tag \<Rightarrow> bool" where
  "is_declaration t \<longleftrightarrow> (\<exists>ty ts. tag__type t = Inr (ty, ts) \<and> ty_declaration ty)"

definition typedef_end :: "cu \<Rightarrow> tag \<Rightarrow> tag \<Rightarrow> bool" where
  "typedef_end cu t u \<longleftrightarrow> typedef_chain cu t u \<and> \<not> tag__is_typedef u"

definition decides :: "cu \<Rightarrow> string \<Rightarrow> tag \<Rightarrow> bool" where
  "decides cu name t \<longleftrightarrow> named_record cu name t \<and> (\<not> is_declaration t \<or> \<not> (\<exists>u. typedef_end cu t u))"

definition found_struct :: "cu \<Rightarrow> string \<Rightarrow> tag \<Rightarrow> bool" where
  "found_struct cu name u \<longleftrightarrow> is_class_tag u \<and> (\<exists>i t. type_at cu i t \<and> decides cu name t \<and> typedef_end cu t u \<and>
     (\<forall>j t'. j < i \<longrightarrow> type_at cu j t' \<longrightarrow> \<not> decides cu name t'))"

definition defines_struct :: "cu \<Rightarrow> string \<Rightarrow> bool" where
  "defines_struct cu name \<longleftrightarrow>
     (\<exists>u ty ts. found_struct cu name u \<and> tag__type u = Inr (ty, ts) \<and> list_ex is_member_tag ts)"

lemma resolve_typedef_end: "resolve_typedef cu t = retR (Some u) \<longleftrightarrow> typedef_end cu t u"
proof
  assume "resolve_typedef cu t = retR (Some u)"
  from resolve_typedef_sound[OF this] show "typedef_end cu t u"
    by (auto simp: typedef_end_def chain_end_def split: if_splits sum.splits)
next
  assume u: "typedef_end cu t u"
  then have "\<not> chain_goes_on cu u" by (simp add: typedef_end_def chain_goes_on_def)
  with u show "resolve_typedef cu t = retR (Some u)"
    using resolve_chain[of cu t u] resolve_last[of cu u] by (simp add: typedef_end_def chain_end_def)
qed

lemma typedef_end_unique: "typedef_end cu t u \<Longrightarrow> typedef_end cu t v \<Longrightarrow> u = v"
  by (simp flip: resolve_typedef_end)

lemma typedef_end_struct: "\<not> tag__is_typedef t \<Longrightarrow> typedef_end cu t t"
  by (simp add: typedef_end_def typedef_chain.chain_refl)

lemma body_eq:
  "struct_by_name_body cu name False i t =
     (if \<not> tag__is_typedef t \<and> \<not> tag__is_struct t then retR None
      else bindR (Some (tag__type t)) (\<lambda>(ty, ts). if type__name cu ty \<noteq> Some name then retR None
        else bindR (resolve_typedef cu t) (\<lambda>res. retR (case res of
            None \<Rightarrow> Some None | Some u \<Rightarrow> if ty_declaration ty then None else Some (Some (i, u))))))"
proof -
  have "resolve_typedef cu t = retR (Some t)" if "\<not> tag__is_typedef t"
    using typedef_end_struct[OF that] by (simp flip: resolve_typedef_end)
  then show ?thesis
    by (cases "tag__type t"; cases "resolve_typedef cu t"; cases "tag__is_typedef t"; cases "the (resolve_typedef cu t)")
      (auto simp: struct_by_name_body_def split: option.split)
qed

lemma body_run:
  assumes "struct_by_name_body cu name False i t = retR r"
  shows "case r of None \<Rightarrow> \<not> decides cu name t
    | Some None \<Rightarrow> decides cu name t \<and> (\<forall>u. \<not> typedef_end cu t u)
    | Some (Some (j, u)) \<Rightarrow> j = i \<and> decides cu name t \<and> typedef_end cu t u"
proof (cases "named_record cu name t")
  case False
  then have "r = None" using assms by (auto simp: body_eq named_record_def res_simps split: if_splits)
  then show ?thesis using False by (simp add: decides_def)
next
  case True
  then obtain ty ts where t: "tag__is_typedef t \<or> tag__is_struct t" "tag__type t = Inr (ty, ts)" "type__name cu ty = Some name"
    by (auto simp: named_record_def)
  with assms obtain res where res: "resolve_typedef cu t = retR res"
    and r: "r = (case res of None \<Rightarrow> Some None | Some u \<Rightarrow> if ty_declaration ty then None else Some (Some (i, u)))"
    by (auto simp: body_eq res_simps)
  have d: "is_declaration t \<longleftrightarrow> ty_declaration ty" using t(2) by (simp add: is_declaration_def)
  show ?thesis
  proof (cases res)
    case None
    then have "\<not> typedef_end cu t u" for u using res by (simp flip: resolve_typedef_end)
    then show ?thesis using True r None by (simp add: decides_def)
  next
    case (Some u)
    then have "typedef_end cu t u" using res by (simp flip: resolve_typedef_end)
    then show ?thesis using True r Some d by (auto simp: decides_def)
  qed
qed

text \<open>The loop over the types of a table of less than 2 to the 16 entries.\<close>

lemma unat_number: "unat (ucast (i :: u16) :: u32) = unat i"
  by (simp add: unsigned_ucast_eq take_bit_eq_mod) (use unsigned_less[of i, where ?'a = nat] in simp)

lemma type_at_entry:
  assumes "unat (pt_nr_entries (cu_types_table cu)) < 2 ^ 16" and "i \<noteq> 0"
  shows "type_at cu i t \<longleftrightarrow> ucast i < pt_nr_entries (cu_types_table cu) \<and>
    load_entry (cu_types_table cu) (ucast i) = Inr (Some t)"
  using assms(2) by (auto simp: type_at_def cu__type_def ptr_table__entry_def not_le)

lemma next_type:
  assumes "unat (pt_nr_entries (cu_types_table cu)) < 2 ^ 16" and "(ucast i :: u32) < pt_nr_entries (cu_types_table cu)"
  shows "unat (i + 1 :: u16) = unat i + 1" and "i < (j :: u16) \<longleftrightarrow> i + 1 \<le> j" and "i + 1 \<noteq> 0"
proof -
  have "unat i < unat (pt_nr_entries (cu_types_table cu))"
    using assms(2) by (simp add: word_less_nat_alt unat_number)
  then show n: "unat (i + 1) = unat i + 1" using assms(1) by (simp add: unat_word_ariths)
  show "i < j \<longleftrightarrow> i + 1 \<le> j" unfolding word_less_nat_alt word_le_nat_alt n by linarith
  show "i + 1 \<noteq> 0" using n by (metis unat_0 add_is_0 one_neq_zero)
qed

lemma type_search_run:
  assumes nr: "unat (pt_nr_entries (cu_types_table cu)) < 2 ^ 16" and "i \<noteq> 0"
    and "for_each_type body cu i = retR r"
  shows "case r of
      None \<Rightarrow> \<forall>j t. i \<le> j \<longrightarrow> type_at cu j t \<longrightarrow> body j t = retR None
    | Some x \<Rightarrow> \<exists>j t. i \<le> j \<and> type_at cu j t \<and> body j t = retR (Some x) \<and>
        (\<forall>k t'. i \<le> k \<longrightarrow> k < j \<longrightarrow> type_at cu k t' \<longrightarrow> body k t' = retR None)"
  using assms(2,3)
proof (induction "2 ^ 16 - unat i" arbitrary: i rule: less_induct)
  case less
  let ?pt = "cu_types_table cu"
  show ?case
  proof (cases "ucast i < pt_nr_entries ?pt")
    case False
    then have r: "r = None" using less.prems by (simp add: for_each_type.simps)
    have "\<not> type_at cu j t" if "i \<le> j" for j t
    proof
      assume "type_at cu j t"
      then have "(ucast j :: u32) < pt_nr_entries ?pt" by (auto simp: type_at_def cu__type_def ptr_table__entry_def not_le split: if_splits)
      then show False using False that
        by (simp add: word_less_nat_alt word_le_nat_alt unat_number)
    qed
    then show ?thesis by (simp add: r)
  next
    case True
    note nx = next_type[OF nr True]
    have lt: "2 ^ 16 - unat (i + 1) < 2 ^ 16 - unat i" using unsigned_less[of i, where ?'a = nat] by (simp add: nx(1))
    note IH = less.hyps[OF lt nx(3)]
    have split: "i \<le> j \<longleftrightarrow> j = i \<or> i + 1 \<le> j" for j using nx(2)[of j] by auto
    obtain p where p: "load_entry ?pt (ucast i) = Inr p"
      using less.prems True by (subst (asm) for_each_type.simps) (auto split: sum.splits)
    have at: "type_at cu i t \<longleftrightarrow> p = Some t" for t using type_at_entry[OF nr less.prems(1), of t] True p by auto
    show ?thesis
    proof (cases "p = None \<or> (\<exists>t. p = Some t \<and> body i t = retR None)")
      case go: True
      then have "for_each_type body cu (i + 1) = retR r"
        using less.prems(2) True p by (subst (asm) for_each_type.simps) (auto split: option.splits)
      note later = IH[OF this]
      have here: "type_at cu i t \<Longrightarrow> body i t = retR None" for t using go at by auto
      show ?thesis
      proof (cases r)
        case None
        with later here show ?thesis by (auto simp: split)
      next
        case (Some x)
        with later obtain j t where j: "i + 1 \<le> j" "type_at cu j t" "body j t = retR (Some x)"
          "\<And>k t'. i + 1 \<le> k \<Longrightarrow> k < j \<Longrightarrow> type_at cu k t' \<Longrightarrow> body k t' = retR None" by auto
        have "body k t' = retR None" if "i \<le> k" "k < j" "type_at cu k t'" for k t'
          using that j(4) here by (auto simp: split)
        moreover have "i \<le> j" using j(1) split by blast
        ultimately show ?thesis using j(2,3) Some by auto
      qed
    next
      case False
      then obtain t where t: "p = Some t" "body i t \<noteq> retR None" by auto
      then obtain x where x: "body i t = retR (Some x)" "r = Some x"
        using less.prems(2) True p by (subst (asm) for_each_type.simps) (auto split: option.splits sum.splits)
      then show ?thesis using at t(1) by (auto intro!: exI[of _ i] exI[of _ t])
    qed
  qed
qed

lemma type_search_total:
  assumes nr: "unat (pt_nr_entries (cu_types_table cu)) < 2 ^ 16" and "i \<noteq> 0"
    and "\<And>j t. type_at cu j t \<Longrightarrow> returns (body j t)"
  shows "returns (for_each_type body cu i)"
    and "(\<And>j. \<exists>p. cu__type cu j = Inr p) \<Longrightarrow> (\<And>j t. type_at cu j t \<Longrightarrow> \<exists>x. body j t = retR x) \<Longrightarrow>
      \<exists>r. for_each_type body cu i = retR r"
proof -
  have "returns (for_each_type body cu i) \<and>
      ((\<forall>j. \<exists>p. cu__type cu j = Inr p) \<longrightarrow> (\<forall>j t. type_at cu j t \<longrightarrow> (\<exists>x. body j t = retR x)) \<longrightarrow>
        (\<exists>r. for_each_type body cu i = retR r))"
    using assms(2)
  proof (induction "2 ^ 16 - unat i" arbitrary: i rule: less_induct)
    case less
    let ?pt = "cu_types_table cu"
    show ?case
    proof (cases "ucast i < pt_nr_entries ?pt")
      case False
      then show ?thesis by (simp add: for_each_type.simps)
    next
      case True
      note nx = next_type[OF nr True]
      have lt: "2 ^ 16 - unat (i + 1) < 2 ^ 16 - unat i" using unsigned_less[of i, where ?'a = nat] by (simp add: nx(1))
      note IH = less.hyps[OF lt nx(3)]
      have entry: "cu__type cu i = load_entry ?pt (ucast i)" using True by (simp add: cu__type_def ptr_table__entry_def flip: not_less)
      show ?thesis
      proof (cases "load_entry ?pt (ucast i)")
        case (Inl e)
        have "\<not> (\<forall>j. \<exists>p. cu__type cu j = Inr p)" using Inl entry by (metis sum.distinct(1))
        moreover have "returns (for_each_type body cu i)" using Inl True by (simp add: for_each_type.simps)
        ultimately show ?thesis by blast
      next
        case (Inr p)
        show ?thesis
        proof (cases p)
          case None
          then show ?thesis using IH Inr True by (subst (1 2) for_each_type.simps) simp
        next
          case (Some t)
          then have at: "type_at cu i t" using Inr entry less.prems by (simp add: type_at_def)
          from assms(3)[OF at] obtain b where b: "body i t = Some b" by (auto simp: returns_def)
          show ?thesis
          proof (cases b)
            case (Inl e)
            have "\<not> (\<forall>j t. type_at cu j t \<longrightarrow> (\<exists>x. body j t = retR x))" using at b Inl by (metis option.inject sum.distinct(1))
            moreover have "returns (for_each_type body cu i)"
              using Inl b Inr Some True by (simp add: for_each_type.simps)
            ultimately show ?thesis by blast
          next
            case r: (Inr x)
            then show ?thesis using IH b Inr Some True by (subst (1 2) for_each_type.simps) (auto split: option.split)
          qed
        qed
      qed
    qed
  qed
  then show "returns (for_each_type body cu i)"
    and "(\<And>j. \<exists>p. cu__type cu j = Inr p) \<Longrightarrow> (\<And>j t. type_at cu j t \<Longrightarrow> \<exists>x. body j t = retR x) \<Longrightarrow>
      \<exists>r. for_each_type body cu i = retR r" by blast+
qed

text \<open>The search finds what the unit defines.\<close>

lemma find_struct_run:
  assumes nr: "unat (pt_nr_entries (cu_types_table cu)) < 2 ^ 16"
    and run: "cu__find_struct_by_name cu name False = retR r"
  shows "found_struct cu name u \<longleftrightarrow> is_class_tag u \<and> (\<exists>i. r = Some (i, u))"
proof -
  let ?body = "struct_by_name_body cu name False"
  obtain q where q: "for_each_type ?body cu 1 = retR q" and r: "r = (case q of None \<Rightarrow> None | Some x \<Rightarrow> x)"
    using run by (auto simp: cu__find_struct_by_name_def res_simps)
  note s = type_search_run[OF nr _ q]
  have pos: "i \<noteq> 0 \<Longrightarrow> 1 \<le> i" for i :: u16 by (simp add: word_le_nat_alt unat_gt_0 Suc_le_eq)
  show ?thesis
  proof (cases q)
    case None
    have "\<not> decides cu name t" if "type_at cu i t" for i t
    proof -
      have "?body i t = retR None" using s None that pos by (auto simp: type_at_def)
      from body_run[OF this] show ?thesis by simp
    qed
    then show ?thesis using None r by (auto simp: found_struct_def)
  next
    case (Some x)
    with s obtain i t where i: "type_at cu i t" "?body i t = retR (Some x)"
      and first: "\<And>k t'. 1 \<le> k \<Longrightarrow> k < i \<Longrightarrow> type_at cu k t' \<Longrightarrow> ?body k t' = retR None" by auto
    have nodec: "\<not> decides cu name t'" if "k < i" "type_at cu k t'" for k t'
    proof -
      have "?body k t' = retR None" using first that pos by (auto simp: type_at_def)
      from body_run[OF this] show ?thesis by simp
    qed
    have dec: "decides cu name t" "typedef_end cu t u \<longleftrightarrow> (\<exists>i. x = Some (i, u))"
      using body_run[OF i(2)] typedef_end_unique by (auto split: option.splits)
    have "found_struct cu name u \<longleftrightarrow> is_class_tag u \<and> typedef_end cu t u"
    proof
      assume "found_struct cu name u"
      then obtain j t' where j: "is_class_tag u" "type_at cu j t'" "decides cu name t'" "typedef_end cu t' u"
        "\<And>k t''. k < j \<Longrightarrow> type_at cu k t'' \<Longrightarrow> \<not> decides cu name t''" by (auto simp: found_struct_def)
      have "j = i" using nodec[of j t'] j(2,3,5) i(1) dec(1) by (metis linorder_cases)
      then have "t' = t" using j(2) i(1) by (simp add: type_at_def)
      with j show "is_class_tag u \<and> typedef_end cu t u" by simp
    next
      assume "is_class_tag u \<and> typedef_end cu t u"
      then show "found_struct cu name u" using i(1) dec(1) nodec unfolding found_struct_def by blast
    qed
    then show ?thesis using dec(2) r Some by simp
  qed
qed

lemma find_struct_total:
  assumes nr: "unat (pt_nr_entries (cu_types_table cu)) < 2 ^ 16" and "value_ranked cu vr"
  shows "returns (cu__find_struct_by_name cu name False)"
proof -
  have "returns (struct_by_name_body cu name False i t)" for i t
    by (auto simp: body_eq intro!: bindR_returns resolve_typedef_returns[OF assms(2)])
  then show ?thesis
    unfolding cu__find_struct_by_name_def by (intro bindR_returns type_search_total(1)[OF nr]) simp_all
qed

text \<open>A unit that can be read without an error: its type numbers, and the records behind them.\<close>

definition readable :: "cu \<Rightarrow> bool" where
  "readable cu \<longleftrightarrow> (\<forall>i. \<exists>p. cu__type cu i = Inr p) \<and>
     (\<forall>i t. type_at cu i t \<longrightarrow> tag__is_typedef t \<or> tag__is_struct t \<longrightarrow> (\<exists>x. tag__type t = Inr x))"

lemma find_struct_readable:
  assumes nr: "unat (pt_nr_entries (cu_types_table cu)) < 2 ^ 16" and v: "value_ranked cu vr" and ok: "readable cu"
  shows "\<exists>r. cu__find_struct_by_name cu name False = retR r"
proof -
  have res: "\<exists>x. resolve_typedef cu t = retR x" for t
  proof -
    obtain r where r: "resolve_typedef cu t = Some r" using resolve_typedef_returns[OF v] by (auto simp: returns_def)
    obtain u where "r = chain_end cu u" using resolve_typedef_sound[OF r] by blast
    moreover obtain p where "cu__type cu (tag_type u) = Inr p" using ok unfolding readable_def by blast
    ultimately show ?thesis using r by (auto simp: chain_end_def)
  qed
  have "\<exists>x. struct_by_name_body cu name False i t = retR x" if "type_at cu i t" for i t
  proof (cases "tag__is_typedef t \<or> tag__is_struct t")
    case True
    have "\<exists>x. tag__type t = Inr x" using ok that True unfolding readable_def by blast
    then obtain ty ts where "tag__type t = Inr (ty, ts)" by auto
    moreover obtain x where "resolve_typedef cu t = retR x" using res by blast
    ultimately show ?thesis by (auto simp: body_eq)
  qed (simp add: body_eq)
  then obtain q where "for_each_type (struct_by_name_body cu name False) cu 1 = retR q"
    using type_search_total(2)[OF nr, of 1 "struct_by_name_body cu name False"] ok by (fastforce simp: readable_def)
  then show ?thesis by (simp add: cu__find_struct_by_name_def)
qed

section \<open>Tables during the extraction\<close>

definition names_extend :: "conv \<Rightarrow> conv \<Rightarrow> bool" where
  \<comment> \<open>the calls of \<open>addMemberName\<close> leave the types alone and keep every number\<close>
  "names_extend c c' \<longleftrightarrow> types c' = types c \<and>
     (\<forall>name i. omap_lookup (memberNames c) name = Some i \<longrightarrow> omap_lookup (memberNames c') name = Some i)"

lemma addMemberName_extends: "addMemberName name c = (i, c') \<Longrightarrow> names_extend c c'"
  by (auto simp: addMemberName_def names_extend_def omap_simps split: option.splits)

lemma ids_reach_extends:
  assumes "ids_reach env c c'" and "pe_add_member_name env = addMemberName"
  shows "names_extend c c'"
  using assms(1)
proof (rule ids_reach_invariant)
  fix name i a b assume "names_extend c a" "pe_add_member_name env name a = (i, b)"
  with assms(2) addMemberName_extends[of name a i b] show "names_extend c b" by (auto simp: names_extend_def)
qed (simp add: names_extend_def)

definition same_types :: "conv \<Rightarrow> conv \<Rightarrow> bool" where
  "same_types c c' \<longleftrightarrow> map dt_name (types c') = map dt_name (types c) \<and> map dt_id (types c') = map dt_id (types c) \<and>
     (\<forall>name i. omap_lookup (memberNames c) name = Some i \<longrightarrow> omap_lookup (memberNames c') name = Some i)"

lemma same_types_refl: "same_types c c"
  by (simp add: same_types_def)

lemma same_types_trans: "same_types a b \<Longrightarrow> same_types b c \<Longrightarrow> same_types a c"
  by (simp add: same_types_def)

lemma same_types_nth:
  assumes "same_types c c'" and "k < length (types c)"
  shows "dt_name (types c' ! k) = dt_name (types c ! k)" and "length (types c') = length (types c)"
proof -
  show len: "length (types c') = length (types c)" using assms(1) by (metis length_map same_types_def)
  have "map dt_name (types c') ! k = map dt_name (types c) ! k" using assms(1) by (simp add: same_types_def)
  with len assms(2) show "dt_name (types c' ! k) = dt_name (types c ! k)" by simp
qed

definition marked :: "conv \<Rightarrow> nat \<Rightarrow> bool" where
  "marked c k \<longleftrightarrow> foundInDw (types c ! k)"

lemma names_extend_same: "names_extend c c' \<Longrightarrow> same_types c c' \<and> marked c' = marked c"
  by (simp add: names_extend_def same_types_def marked_def fun_eq_iff)

lemma mark_found_same:
  "k < length (types c) \<Longrightarrow> same_types c (mark_found k c) \<and> marked (mark_found k c) = (marked c)(k := True)"
  by (auto simp: mark_found_def same_types_def marked_def map_update fun_eq_iff nth_list_update list_update_same_conv)

lemma extract_struct_run:
  assumes nr: "unat (pt_nr_entries (cu_types_table cu)) < 2 ^ 16"
    and run: "extract_struct n delim alloc cu k st = retR st'" and k: "k < length (types (ps_ids st))"
  shows "same_types (ps_ids st) (ps_ids st') \<and>
    marked (ps_ids st') = (marked (ps_ids st))(k := marked (ps_ids st) k \<or> defines_struct cu (dt_name (types (ps_ids st) ! k))) \<and>
    (\<exists>s. ps_fp st' = ps_fp st @ s)"
proof (cases "foundInDw (types (ps_ids st) ! k)")
  case True
  with run show ?thesis by (auto simp: extract_struct_def same_types_refl marked_def fun_eq_iff)
next
  case False
  let ?c = "ps_ids st" and ?ty = "types (ps_ids st) ! k"
  obtain r where r: "cu__find_struct_by_name cu (dt_name ?ty) False = retR r"
    using run False by (auto simp: extract_struct_def Let_def res_simps)
  note found = find_struct_run[OF nr r]
  show ?thesis
  proof (cases "\<exists>i t. r = Some (i, t) \<and> is_class_tag t")
    case no: False
    then have "\<not> defines_struct cu (dt_name ?ty)" using found by (auto simp: defines_struct_def)
    moreover have "st' = st" using no run False r by (auto simp: extract_struct_def Let_def split: option.splits)
    ultimately show ?thesis by (auto simp: same_types_refl)
  next
    case True
    then obtain i t where t: "r = Some (i, t)" "is_class_tag t" by blast
    let ?env = "layout_env delim alloc ?ty ?c"
    obtain b st1 where p: "class__fprintf n ?env cu t st = retR (b, st1)"
      and st': "st' = (if b then st1\<lparr>ps_ids := mark_found k (ps_ids st1)\<rparr> else st1)"
      using run False r t by (auto simp: extract_struct_def Let_def res_simps)
    obtain ty ts where ty: "tag__type t = Inr (ty, ts)"
      using p by (auto simp: class__fprintf_def class_fprintf_with_def res_simps)
    have b: "b \<longleftrightarrow> defines_struct cu (dt_name ?ty)"
      using class__fprintf_flag[OF p ty] found t ty by (auto simp: defines_struct_def)
    have kept: "ext_kept ?env st st1" using p by (rule class__fprintf_kept)
    then have "names_extend ?c (ps_ids st1)"
      by (intro ids_reach_extends[of ?env]) (simp_all add: ext_kept_def layout_env_def)
    then have e: "same_types ?c (ps_ids st1)" "marked (ps_ids st1) = marked ?c" "types (ps_ids st1) = types ?c"
      using names_extend_same by (auto simp: names_extend_def)
    have m: "same_types (ps_ids st1) (mark_found k (ps_ids st1))"
      "marked (mark_found k (ps_ids st1)) = (marked (ps_ids st1))(k := True)"
      using mark_found_same[of k "ps_ids st1"] k e(3) by simp_all
    show ?thesis
    proof (cases b)
      case True
      with st' b e m kept show ?thesis by (auto simp: ext_kept_def intro: same_types_trans)
    next
      case no: False
      then have "marked ?c k = (marked ?c k \<or> defines_struct cu (dt_name ?ty))" using b by simp
      with no st' e kept show ?thesis by (auto simp: ext_kept_def fun_eq_iff)
    qed
  qed
qed

lemma extract_structs_run:
  assumes nr: "unat (pt_nr_entries (cu_types_table cu)) < 2 ^ 16"
    and "foldR (extract_struct n delim alloc cu) [0 ..< j] st = retR st'" and "j \<le> length (types (ps_ids st))"
  shows "same_types (ps_ids st) (ps_ids st') \<and> (\<exists>s. ps_fp st' = ps_fp st @ s) \<and>
    (\<forall>k. marked (ps_ids st') k \<longleftrightarrow>
      marked (ps_ids st) k \<or> k < j \<and> defines_struct cu (dt_name (types (ps_ids st) ! k)))"
  using assms(2,3)
proof (induction j arbitrary: st')
  case (Suc j)
  then obtain st1 where 1: "foldR (extract_struct n delim alloc cu) [0 ..< j] st = retR st1"
    and 2: "extract_struct n delim alloc cu j st1 = retR st'"
    by (auto simp: foldR_append res_simps)
  note IH = Suc.IH[OF 1]
  have j: "j < length (types (ps_ids st))" using Suc.prems by simp
  have s: "same_types (ps_ids st) (ps_ids st1)" using IH j by simp
  have "j < length (types (ps_ids st1))" using same_types_nth(2)[OF s j] j by simp
  from extract_struct_run[OF nr 2 this] IH j s same_types_nth(1)[OF s j] show ?case
    by (auto simp: less_Suc_eq intro: same_types_trans)
qed (simp add: same_types_refl)

lemma iterator_run:
  assumes nr: "unat (pt_nr_entries (cu_types_table cu)) < 2 ^ 16"
    and run: "convert_cus_iterator n delim alloc cu (fp, c) = retR (stop, fp', c')"
  shows "same_types c c' \<and> (\<exists>s. fp' = fp @ s) \<and> stop = (\<forall>k < length (types c). marked c' k) \<and>
    (\<forall>k < length (types c). marked c' k \<longleftrightarrow> marked c k \<or> defines_struct cu (dt_name (types c ! k)))"
proof -
  obtain st where st: "foldR (extract_struct n delim alloc cu) [0 ..< length (types c)] (zero_ext fp c) = retR st"
    and out: "stop = list_all foundInDw (types (ps_ids st))" "fp' = ps_fp st" "c' = ps_ids st"
    using run by (auto simp: convert_cus_iterator_def res_simps)
  have ids: "ps_ids (zero_ext fp c) = c" "ps_fp (zero_ext fp c) = fp" by (simp_all add: zero_ext_def)
  have run: "same_types c c'" "\<exists>s. fp' = fp @ s"
    "\<forall>k. marked c' k \<longleftrightarrow> marked c k \<or> k < length (types c) \<and> defines_struct cu (dt_name (types c ! k))"
    using extract_structs_run[OF nr st] unfolding ids out by simp_all
  have "length (types c') = length (types c)" using run(1) by (metis length_map same_types_def)
  with run out show ?thesis by (auto simp: list_all_length marked_def)
qed

lemma cus_run:
  assumes "\<And>cu. cu \<in> set cus \<Longrightarrow> unat (pt_nr_entries (cu_types_table cu)) < 2 ^ 16"
    and "cus__for_each_cu (convert_cus_iterator n delim alloc) Some cus (fp, c) = retR (fp', c')"
  shows "same_types c c' \<and> (\<exists>s. fp' = fp @ s) \<and>
    (\<forall>k < length (types c). marked c' k \<longleftrightarrow> marked c k \<or> (\<exists>cu \<in> set cus. defines_struct cu (dt_name (types c ! k))))"
  using assms
proof (induction cus arbitrary: fp c)
  case (Cons cu cus)
  then obtain stop fp1 c1 where it: "convert_cus_iterator n delim alloc cu (fp, c) = retR (stop, fp1, c1)"
    and rest: "(if stop then retR (fp1, c1) else
      cus__for_each_cu (convert_cus_iterator n delim alloc) Some cus (fp1, c1)) = retR (fp', c')"
    by (auto simp: res_simps)
  have "unat (pt_nr_entries (cu_types_table cu)) < 2 ^ 16" by (rule Cons.prems(1)) simp
  note 1 = iterator_run[OF this it]
  show ?case
  proof (cases stop)
    case True
    with rest 1 show ?thesis by auto
  next
    case False
    then have "cus__for_each_cu (convert_cus_iterator n delim alloc) Some cus (fp1, c1) = retR (fp', c')"
      using rest by simp
    note 2 = Cons.IH[OF _ this]
    have s: "same_types c c1" using 1 by simp
    have "k < length (types c) \<Longrightarrow> dt_name (types c1 ! k) = dt_name (types c ! k) \<and> length (types c1) = length (types c)" for k
      using same_types_nth[OF s] by blast
    with 1 2 Cons.prems(1) show ?thesis by (auto intro: same_types_trans)
  qed
qed (simp add: same_types_refl)

lemma extractStructDefs_run:
  assumes "\<And>cu. cu \<in> set kernelCUs \<Longrightarrow> unat (pt_nr_entries (cu_types_table cu)) < 2 ^ 16"
    and "extractStructDefs n True delim alloc kernelCUs c = retR (r, fp, c')"
  shows "r = 0 \<and> (\<exists>rows. fp = layout_header delim @ rows) \<and> same_types c c' \<and>
    (\<forall>k < length (types c). foundInDw (types c' ! k) \<longleftrightarrow>
       foundInDw (types c ! k) \<or> (\<exists>cu \<in> set kernelCUs. defines_struct cu (dt_name (types c ! k))))"
proof -
  have "r = 0" and run: "cus__for_each_cu (convert_cus_iterator n delim alloc) Some kernelCUs (layout_header delim, c) = retR (fp, c')"
    using assms(2) by (auto simp: extractStructDefs_def res_simps)
  with cus_run[OF assms(1) run] show ?thesis by (simp add: marked_def)
qed

section \<open>The extraction ends, and ends well\<close>

text \<open>
  A unit whose types refer to each other without a cycle, by value and by the names of types, with
  ranks that the fuel of the printers exceeds, and whose types have numbers of 16 bits.
\<close>

definition bounded_unit :: "nat \<Rightarrow> cu \<Rightarrow> bool" where
  "bounded_unit n cu \<longleftrightarrow> unat (pt_nr_entries (cu_types_table cu)) < 2 ^ 16 \<and>
     (\<exists>vr nr N. value_ranked cu vr \<and> name_ranked cu nr \<and> (\<forall>t. 2 * nr t + 2 < N \<and> N + vr t < n))"

text \<open>A unit in which every structure of a type of interest has an abstract layout that fits into the prefixes.\<close>

definition laid_out :: "nat \<Rightarrow> char \<Rightarrow> conv \<Rightarrow> cu \<Rightarrow> bool" where
  "laid_out n delim c cu \<longleftrightarrow> (\<forall>d \<in> set (types c). \<forall>u. found_struct cu (dt_name d) u \<longrightarrow>
     (\<exists>ty ts fs. tag__type u = Inr (ty, ts) \<and> fields_of n (layout_env delim (\<lambda>_. True) d c) cu ts = Some fs \<and>
        fields_depth fs \<le> 16))"

lemma bounded_nr: "bounded_unit n cu \<Longrightarrow> unat (pt_nr_entries (cu_types_table cu)) < 2 ^ 16"
  by (simp add: bounded_unit_def)

lemma extract_struct_returns:
  assumes "bounded_unit n cu"
  shows "returns (extract_struct n delim alloc cu k st)"
proof -
  from assms obtain vr nr N where v: "value_ranked cu vr" "name_ranked cu nr" "\<And>t. 2 * nr t + 2 < N" "\<And>t. N + vr t < n"
    unfolding bounded_unit_def by blast
  show ?thesis
    unfolding extract_struct_def Let_def
    by (auto intro!: bindR_returns find_struct_total[OF bounded_nr[OF assms] v(1)] class_fprintf_returns[OF v]
      split: option.split)
qed

lemma cus_returns:
  "(\<And>cu. cu \<in> set cus \<Longrightarrow> bounded_unit n cu) \<Longrightarrow>
     returns (cus__for_each_cu (convert_cus_iterator n delim alloc) Some cus s)"
proof (induction cus arbitrary: s)
  case (Cons cu cus)
  have "returns (convert_cus_iterator n delim alloc cu s)"
    using Cons.prems[of cu] by (auto simp: convert_cus_iterator_def split: prod.split
      intro!: bindR_returns foldR_returns extract_struct_returns)
  with Cons show ?case by (auto intro!: bindR_returns)
qed simp

lemma extractStructDefs_returns:
  "(\<And>cu. cu \<in> set kernelCUs \<Longrightarrow> bounded_unit n cu) \<Longrightarrow> returns (extractStructDefs n opened delim alloc kernelCUs c)"
  by (auto simp: extractStructDefs_def intro!: bindR_returns cus_returns)

lemma foldR_total:
  "(\<And>x s. x \<in> set xs \<Longrightarrow> I s \<Longrightarrow> \<exists>s'. f x s = retR s' \<and> I s') \<Longrightarrow> I s \<Longrightarrow> \<exists>s'. foldR f xs s = retR s' \<and> I s'"
proof (induction xs arbitrary: s)
  case (Cons x xs)
  obtain s1 where "f x s = retR s1" "I s1" using Cons.prems by (meson list.set_intros(1))
  with Cons show ?case by (fastforce simp: res_simps)
qed simp

lemma same_env:
  assumes s: "same_types c c'" and k: "k < length (types c)"
  shows "layout_env delim alloc (types c' ! k) c' = layout_env delim alloc (types c ! k) c"
proof -
  have len: "length (types c') = length (types c)" using same_types_nth(2)[OF s k] .
  have names: "expand_type x = (\<lambda>name. name \<in> set (map dt_name (types x)))" for x
    by (auto simp: expand_type_def list_ex_iff fun_eq_iff)
  have "map dt_id (types c') ! k = map dt_id (types c) ! k" using s by (simp add: same_types_def)
  then have "dt_id (types c' ! k) = dt_id (types c ! k)" using len k by simp
  moreover have "expand_type c' = expand_type c" using s by (simp only: names same_types_def)
  ultimately show ?thesis by (simp add: layout_env_def)
qed

lemma extract_struct_ok:
  assumes b: "bounded_unit n cu" and r: "readable cu" and l: "laid_out n delim c cu"
    and k: "k < length (types c)" and s: "same_types c (ps_ids st)" and p: "at_path [] 16 st"
  shows "\<exists>st'. extract_struct n delim (\<lambda>_. True) cu k st = retR st' \<and> same_types c (ps_ids st') \<and> at_path [] 16 st'"
proof -
  let ?d = "types (ps_ids st) ! k"
  have k': "k < length (types (ps_ids st))" using same_types_nth(2)[OF s k] k by simp
  have name: "dt_name ?d = dt_name (types c ! k)" using same_types_nth(1)[OF s k] .
  obtain vr where v: "value_ranked cu vr" using b by (auto simp: bounded_unit_def)
  obtain q where q: "cu__find_struct_by_name cu (dt_name ?d) False = retR q"
    using find_struct_readable[OF bounded_nr[OF b] v r] by blast
  have "\<exists>st'. extract_struct n delim (\<lambda>_. True) cu k st = retR st' \<and> at_path [] 16 st'"
  proof (cases "foundInDw ?d \<or> \<not> (\<exists>i t. q = Some (i, t) \<and> is_class_tag t)")
    case True
    then show ?thesis using p q by (auto simp: extract_struct_def Let_def split: option.split)
  next
    case False
    then obtain i t where t: "q = Some (i, t)" "is_class_tag t" and nf: "\<not> foundInDw ?d" by blast
    have "found_struct cu (dt_name (types c ! k)) t"
      using find_struct_run[OF bounded_nr[OF b] q] t by (simp add: name)
    moreover have "types c ! k \<in> set (types c)" using k by simp
    ultimately obtain ty ts fs where fs: "tag__type t = Inr (ty, ts)" "fields_depth fs \<le> 16"
      "fields_of n (layout_env delim (\<lambda>_. True) (types c ! k) c) cu ts = Some fs"
      using l unfolding laid_out_def by blast
    let ?env = "layout_env delim (\<lambda>_. True) ?d (ps_ids st)"
    have "fields_of n ?env cu ts = Some fs" using fs(3) same_env[OF s k] by simp
    moreover have "pe_alloc ?env = (\<lambda>_. True)" by (simp add: layout_env_def)
    moreover have "at_path [] (fields_depth fs) st" using p fs(2) by (rule at_path_mono)
    ultimately obtain b st1 where run: "class__fprintf n ?env cu t st = retR (b, st1)"
      using class_rows[of ?env n cu ts fs "[]" st False] fs(1) by (auto simp: class__fprintf_def class_fprintf_with_def)
    have "at_path [] 16 st1" using p class__fprintf_kept[OF run] by (rule at_path_kept)
    then show ?thesis using run nf q t by (auto simp: extract_struct_def Let_def at_path_def)
  qed
  then obtain st' where st': "extract_struct n delim (\<lambda>_. True) cu k st = retR st'" "at_path [] 16 st'" by blast
  have "same_types (ps_ids st) (ps_ids st')" using extract_struct_run[OF bounded_nr[OF b] st'(1) k'] by simp
  with s st' show ?thesis by (blast intro: same_types_trans)
qed

lemma laid_out_same: "laid_out n delim c cu \<Longrightarrow> same_types c c' \<Longrightarrow> laid_out n delim c' cu"
  unfolding laid_out_def
proof (intro ballI allI impI)
  fix d u assume l: "\<forall>d \<in> set (types c). \<forall>u. found_struct cu (dt_name d) u \<longrightarrow>
     (\<exists>ty ts fs. tag__type u = Inr (ty, ts) \<and> fields_of n (layout_env delim (\<lambda>_. True) d c) cu ts = Some fs \<and>
        fields_depth fs \<le> 16)" and s: "same_types c c'" and d: "d \<in> set (types c')" "found_struct cu (dt_name d) u"
  from d(1) obtain k where k: "k < length (types c')" "d = types c' ! k" by (auto simp: in_set_conv_nth)
  have k': "k < length (types c)" using s k(1) by (metis length_map same_types_def)
  have "found_struct cu (dt_name (types c ! k)) u" using d(2) same_types_nth(1)[OF s k'] by (simp add: k(2))
  with l k' show "\<exists>ty ts fs. tag__type u = Inr (ty, ts) \<and>
      fields_of n (layout_env delim (\<lambda>_. True) d c') cu ts = Some fs \<and> fields_depth fs \<le> 16"
    unfolding k(2) same_env[OF s k'] by simp
qed

lemma cus_ok:
  assumes "\<And>cu. cu \<in> set cus \<Longrightarrow> bounded_unit n cu \<and> readable cu \<and> laid_out n delim c cu" and "same_types c c1"
  shows "\<exists>s. cus__for_each_cu (convert_cus_iterator n delim (\<lambda>_. True)) Some cus (fp, c1) = retR s"
  using assms
proof (induction cus arbitrary: fp c1)
  case (Cons cu cus)
  have u: "bounded_unit n cu" "readable cu" "laid_out n delim c1 cu"
    using Cons.prems(1)[of cu] laid_out_same[OF _ Cons.prems(2)] by simp_all
  have "at_path [] 16 (zero_ext fp c1)" by (simp add: at_path_def zero_ext_def)
  moreover have "ps_ids (zero_ext fp c1) = c1" by (simp add: zero_ext_def)
  ultimately have "\<exists>st. foldR (extract_struct n delim (\<lambda>_. True) cu) [0 ..< length (types c1)] (zero_ext fp c1) = retR st \<and>
      same_types c1 (ps_ids st) \<and> at_path [] 16 st"
    using foldR_total[of "[0 ..< length (types c1)]" "\<lambda>st. same_types c1 (ps_ids st) \<and> at_path [] 16 st"]
      extract_struct_ok[OF u] by (simp add: same_types_refl)
  then obtain stop fp' c2 where it: "convert_cus_iterator n delim (\<lambda>_. True) cu (fp, c1) = retR (stop, fp', c2)"
    and s: "same_types c1 c2" by (auto simp: convert_cus_iterator_def)
  have "same_types c c2" using Cons.prems(2) s by (rule same_types_trans)
  with Cons.IH[of c2 fp'] Cons.prems(1) it show ?case by auto
qed simp

lemma extractStructDefs_ok:
  assumes "\<And>cu. cu \<in> set kernelCUs \<Longrightarrow> bounded_unit n cu \<and> readable cu \<and> laid_out n delim c cu"
  shows "\<exists>x. extractStructDefs n True delim (\<lambda>_. True) kernelCUs c = retR x"
proof -
  have "\<exists>s. cus__for_each_cu (convert_cus_iterator n delim (\<lambda>_. True)) Some kernelCUs (layout_header delim, c) = retR s"
    by (rule cus_ok[OF _ same_types_refl]) (rule assms)
  then show ?thesis by (auto simp: extractStructDefs_def)
qed

end
