(* ===== verification/Dwarves_Holes.thy ===== *)
theory Dwarves_Holes
  imports Dwarves_Class
begin

text \<open>
  What \<^verbatim>\<open>class__find_holes\<close> computes for a structure of plain data members: the hole behind every
  member, the number of holes and the padding.
\<close>

section \<open>The loop\<close>

definition plain_member :: "tag \<Rightarrow> bool" where
  "plain_member t \<longleftrightarrow> tag_tag t = DW_TAG_member \<and>
     (case tag_body t of Member_Body m \<Rightarrow> \<not> cm_is_static m \<and> cm_bitfield_size m = 0 | _ \<Rightarrow> False)"

definition mem_of :: "tag \<Rightarrow> class_member" where
  "mem_of t = (case tag_body t of Member_Body m \<Rightarrow> m | _ \<Rightarrow> undefined)"

lemma plain_memberD:
  "plain_member t \<Longrightarrow> tag__class_member t = Inr (mem_of t)"
  "plain_member t \<Longrightarrow> is_member_tag t"
  "plain_member t \<Longrightarrow> tag_tag t = DW_TAG_member"
  "plain_member t \<Longrightarrow> \<not> cm_is_static (mem_of t)"
  "plain_member t \<Longrightarrow> cm_bitfield_size (mem_of t) = 0"
  by (auto simp: plain_member_def mem_of_def tag__class_member_def is_member_tag_def split: body.splits)

definition hole_after :: "class_member \<Rightarrow> class_member \<Rightarrow> u16" where
  "hole_after m m' =
     (let cc = uint (cm_byte_offset m') - uint (cm_byte_offset m) in
      if 0 < cc then ucast (word_of_int cc - (if word_of_int cc < cm_byte_size m then word_of_int cc else cm_byte_size m) :: u64)
      else cm_hole m)"

definition hole_counted :: "class_member \<Rightarrow> class_member \<Rightarrow> bool" where
  "hole_counted m m' \<longleftrightarrow> cm_byte_offset m < cm_byte_offset m' \<and> hole_after m m' \<noteq> 0"

definition with_hole :: "tag \<Rightarrow> u16 \<Rightarrow> tag" where
  "with_hole t h = Tag (tag_addr t) (tag_type t) (tag_tag t) (Member_Body (mem_of t\<lparr>cm_hole := h\<rparr>))"

definition holes_set :: "nat \<Rightarrow> tag list \<Rightarrow> tag list" where
  \<comment> \<open>the members in front of position \<open>i - 1\<close> have their holes\<close>
  "holes_set i ts = map (\<lambda>j. if Suc j < i then with_hole (ts ! j) (hole_after (mem_of (ts ! j)) (mem_of (ts ! Suc j)))
     else ts ! j) [0 ..< length ts]"

definition count_holes :: "nat \<Rightarrow> tag list \<Rightarrow> nat" where
  "count_holes i ts = length (filter (\<lambda>j. hole_counted (mem_of (ts ! j)) (mem_of (ts ! Suc j))) [0 ..< i])"

lemma with_hole_id: "plain_member t \<Longrightarrow> with_hole t (cm_hole (mem_of t)) = t"
  by (cases t) (auto simp: with_hole_def plain_member_def mem_of_def split: body.splits)

lemma holes_set_length [simp]: "length (holes_set i ts) = length ts"
  by (simp add: holes_set_def)

lemma holes_set_nth:
  "j < length ts \<Longrightarrow> holes_set i ts ! j =
     (if Suc j < i then with_hole (ts ! j) (hole_after (mem_of (ts ! j)) (mem_of (ts ! Suc j))) else ts ! j)"
  by (simp add: holes_set_def)

lemma holes_set_Suc:
  assumes "Suc k < length ts"
  shows "(holes_set (Suc k) ts)[k := with_hole (ts ! k) (hole_after (mem_of (ts ! k)) (mem_of (ts ! Suc k)))] =
    holes_set (Suc (Suc k)) ts"
  using assms by (intro nth_equalityI) (auto simp: holes_set_nth nth_list_update less_Suc_eq)

definition loop_at :: "nat \<Rightarrow> tag list \<Rightarrow> hole_state \<Rightarrow> bool" where
  "loop_at i ts s \<longleftrightarrow> hs_tags s = holes_set i ts \<and> hs_bit_sum s = 0 \<and> hs_nr_bit_holes s = 0 \<and>
     hs_nr_holes s = of_nat (count_holes (i - 1) ts) \<and>
     (case i of 0 \<Rightarrow> hs_last s = None
      | Suc k \<Rightarrow> hs_last s = Some k \<and> hs_last_size s = cm_byte_size (mem_of (ts ! k)))"

lemma hole_step_first:
  assumes "plain_member (ts ! 0)" and "0 < length ts" and "loop_at 0 ts s"
  shows "\<exists>s'. hole_step 0 s = Inr s' \<and> loop_at 1 ts s'"
proof -
  have t: "hs_tags s ! 0 = ts ! 0" using assms by (simp add: loop_at_def holes_set_nth)
  have l: "last_member s = Inr None" using assms(3) by (simp add: loop_at_def last_member_def)
  have same: "holes_set 0 ts = holes_set 1 ts" by (simp add: holes_set_def)
  show ?thesis using assms t l same
    by (simp add: hole_step_def plain_memberD loop_at_def enter_member_def count_holes_def)
qed

lemma hole_step_next:
  assumes plain: "\<And>j. j < length ts \<Longrightarrow> plain_member (ts ! j)" and k: "Suc k < length ts" and s: "loop_at (Suc k) ts s"
  shows "\<exists>s'. hole_step (Suc k) s = Inr s' \<and> loop_at (Suc (Suc k)) ts s'"
proof -
  let ?m = "mem_of (ts ! k)" and ?n = "mem_of (ts ! Suc k)"
  have t: "hs_tags s ! Suc k = ts ! Suc k" "hs_tags s ! k = ts ! k"
    using k s by (simp_all add: loop_at_def holes_set_nth)
  have l: "last_member s = Inr (Some ?m)"
    using s t plain[of k] k by (simp add: loop_at_def last_member_def plain_memberD)
  let ?s = "account_last k ?m ?n s"
  have count: "count_holes (Suc k) ts = (if hole_counted ?m ?n then Suc (count_holes k ts) else count_holes k ts)"
    by (simp add: count_holes_def)
  have acc: "hs_tags ?s = holes_set (Suc (Suc k)) ts \<and> hs_bit_sum ?s = 0 \<and> hs_nr_bit_holes ?s = 0 \<and>
      hs_nr_holes ?s = of_nat (count_holes (Suc k) ts)"
  proof (cases "0 < uint (cm_byte_offset ?n) - uint (cm_byte_offset ?m)")
    case True
    then have lt: "cm_byte_offset ?m < cm_byte_offset ?n" by (simp add: word_less_def)
    have "hs_tags ?s = set_member k (?m\<lparr>cm_hole := hole_after ?m ?n\<rparr>) (hs_tags s)"
      using True s by (simp add: account_last_def loop_at_def hole_after_def Let_def)
    also have "\<dots> = holes_set (Suc (Suc k)) ts"
      using holes_set_Suc[OF k] s t by (simp add: set_member_def loop_at_def with_hole_def)
    finally show ?thesis using True s lt count
      by (simp add: account_last_def loop_at_def hole_counted_def hole_after_def Let_def)
  next
    case False
    then have nlt: "\<not> cm_byte_offset ?m < cm_byte_offset ?n" by (simp add: word_less_def)
    have same: "holes_set (Suc (Suc k)) ts = holes_set (Suc k) ts"
      using holes_set_Suc[OF k] k with_hole_id[OF plain[of k]] False
      by (simp add: hole_after_def) (metis Suc_lessD holes_set_length holes_set_nth less_irrefl list_update_id)
    show ?thesis using False s nlt count same by (simp add: account_last_def loop_at_def hole_counted_def)
  qed
  have "hole_step (Suc k) s = Inr (enter_member (Suc k) ?n (Some ?m) ?s)"
    using t l s plain[OF k] by (simp add: hole_step_def plain_memberD loop_at_def Let_def)
  with acc plain[OF k] show ?thesis
    by (simp add: loop_at_def enter_member_def plain_memberD)
qed

lemma hole_loop_append: "hole_loop (xs @ ys) s = bindE (hole_loop xs s) (hole_loop ys)"
proof (induction xs arbitrary: s)
  case (Cons x xs)
  then show ?case by (cases "hole_step x s") simp_all
qed simp

lemma hole_loop_run:
  assumes plain: "\<And>j. j < length ts \<Longrightarrow> plain_member (ts ! j)" and "loop_at 0 ts s0"
  shows "i \<le> length ts \<Longrightarrow> \<exists>s. hole_loop [0 ..< i] s0 = Inr s \<and> loop_at i ts s"
proof (induction i)
  case (Suc i)
  then obtain s where s: "hole_loop [0 ..< i] s0 = Inr s" "loop_at i ts s" by auto
  have "\<exists>s'. hole_step i s = Inr s' \<and> loop_at (Suc i) ts s'"
  proof (cases i)
    case 0
    with hole_step_first[of ts s] plain[of 0] Suc.prems s show ?thesis by (cases ts) auto
  next
    case (Suc k)
    with hole_step_next[OF plain, of k s] Suc.prems s show ?thesis by simp
  qed
  with s show ?case by (auto simp: hole_loop_append)
qed (use assms in simp)

section \<open>Every byte is accounted for\<close>

definition gap :: "class_member \<Rightarrow> nat \<Rightarrow> nat" where
  \<comment> \<open>the bytes between the end of a member and a position behind it\<close>
  "gap m p = p - (unat (cm_byte_offset m) + unat (cm_byte_size m))"

lemma uint_diff: "unat (a :: u32) \<le> unat (b :: u32) \<Longrightarrow> uint b - uint a = int (unat b - unat a)"
  unfolding uint_nat by simp

lemma unat_of_int_diff:
  assumes "unat (a :: u32) \<le> unat (b :: u32)"
  shows "unat (word_of_int (uint b - uint a) :: u64) = unat b - unat a"
proof -
  have "unat b < 2 ^ 32" using unsigned_less[of b, where ?'a = nat] by simp
  then have "unat b - unat a < 2 ^ 64" by simp
  moreover have "(word_of_int (uint b - uint a) :: u64) = of_nat (unat b - unat a)"
    unfolding uint_diff[OF assms] by simp
  ultimately show ?thesis by (simp add: unat_of_nat take_bit_eq_mod)
qed

lemma hole_after_gap:
  assumes le: "unat (cm_byte_offset m) + unat (cm_byte_size m) \<le> unat (cm_byte_offset m')"
    and small: "gap m (unat (cm_byte_offset m')) < 2 ^ 16" and old: "cm_hole m = 0"
  shows "unat (hole_after m m') = gap m (unat (cm_byte_offset m'))"
proof -
  let ?cc = "uint (cm_byte_offset m') - uint (cm_byte_offset m)" and ?w = "word_of_int (uint (cm_byte_offset m') - uint (cm_byte_offset m)) :: u64"
  have o: "unat (cm_byte_offset m) \<le> unat (cm_byte_offset m')" using le by simp
  have w: "unat ?w = unat (cm_byte_offset m') - unat (cm_byte_offset m)" by (rule unat_of_int_diff[OF o])
  show ?thesis
  proof (cases "unat (cm_byte_offset m) = unat (cm_byte_offset m')")
    case True
    then have "\<not> 0 < ?cc" unfolding uint_nat by simp
    with le True old show ?thesis by (simp add: hole_after_def gap_def)
  next
    case False
    then have pos: "0 < ?cc" using o uint_diff[OF o] by linarith
    have nless: "\<not> ?w < cm_byte_size m" using le w by (simp add: word_less_nat_alt)
    have d: "unat (?w - cm_byte_size m) = gap m (unat (cm_byte_offset m'))"
      using le w nless by (simp add: unat_sub gap_def word_less_nat_alt word_le_nat_alt)
    have "hole_after m m' = ucast (?w - cm_byte_size m)" using pos nless by (simp add: hole_after_def Let_def)
    then show ?thesis using d small by (simp add: unsigned_ucast_eq take_bit_eq_mod)
  qed
qed

lemma padding_fills:
  fixes off tsz :: u32 and sz :: u64 and p :: u16
  assumes le: "unat off + unat sz \<le> unat tsz" and small: "unat tsz < unat off + unat sz + 2 ^ 16"
    and p: "p = (if ucast off + sz \<noteq> (ucast tsz :: u64) then ucast (ucast tsz - (ucast off + sz)) else 0)"
  shows "unat off + unat sz + unat p = unat tsz"
proof -
  have up: "unat (ucast (x :: u32) :: u64) = unat x" for x
    by (simp add: unsigned_ucast_eq take_bit_eq_mod) (use unsigned_less[of x, where ?'a = nat] in simp)
  have "unat tsz < 2 ^ 32" using unsigned_less[of tsz, where ?'a = nat] by simp
  then have used: "unat (ucast off + sz) = unat off + unat sz"
    using le by (simp add: unat_word_ariths up)
  show ?thesis
  proof (cases "ucast off + sz = (ucast tsz :: u64)")
    case True
    then have "unat off + unat sz = unat tsz" using used up[of tsz] by metis
    then show ?thesis using p True by simp
  next
    case False
    have "unat (ucast tsz - (ucast off + sz)) = unat tsz - (unat off + unat sz)"
      using le used up[of tsz] by (subst unat_sub) (simp_all add: word_le_nat_alt)
    then have "unat p = (unat tsz - (unat off + unat sz)) mod 2 ^ 16"
      using p False by (simp add: unsigned_ucast_eq take_bit_eq_mod)
    then show ?thesis using le small by simp
  qed
qed

lemma find_holes_run:
  assumes plain: "\<And>j. j < length ts \<Longrightarrow> plain_member (ts ! j)" and ne: "ts \<noteq> []"
  shows "\<exists>cl'. class__find_holes ty cl ts = Inr (cl', holes_set (length ts) ts) \<and>
    cl_nr_holes cl' = of_nat (count_holes (length ts - 1) ts) \<and> cl_nr_bit_holes cl' = 0 \<and>
    (let l = mem_of (ts ! (length ts - 1)); used = ucast (cm_byte_offset l) + cm_byte_size l in
     cl_padding cl' = (if used \<noteq> ucast (ty_size ty) then ucast (ucast (ty_size ty) - used :: u64) else cl_padding cl))"
proof -
  let ?s0 = "\<lparr>hs_tags = ts, hs_last = None, hs_last_size = 0, hs_bit_sum = 0, hs_real_offset = 0,
      hs_nr_holes = 0, hs_nr_bit_holes = 0\<rparr>"
  have "holes_set 0 ts = ts" by (simp add: holes_set_def map_nth)
  then have "loop_at 0 ts ?s0" by (simp add: loop_at_def count_holes_def)
  from hole_loop_run[OF plain this, of "length ts"] obtain s where
    s: "hole_loop [0 ..< length ts] ?s0 = Inr s" "loop_at (length ts) ts s" by auto
  obtain k where k: "length ts = Suc k" using ne by (cases ts) auto
  have t: "hs_tags s ! k = ts ! k" using s(2) k by (simp add: loop_at_def holes_set_nth)
  have l: "last_member s = Inr (Some (mem_of (ts ! k)))"
    using s(2) k t plain[of k] by (simp add: loop_at_def last_member_def plain_memberD)
  show ?thesis
    using s l k plain[of k] by (simp add: class__find_holes_def Let_def loop_at_def plain_memberD)
qed

end
