(* ===== verification/Dwarves_Properties.thy ===== *)
theory Dwarves_Properties
  imports Struct_Extract Dwarves_Rows Dwarves_Ends Dwarves_Holes Convert_Loop
begin

text \<open>
  The properties of the debug information reader and of the structure layouts written from it, each
  with an instance on a small compilation unit.
\<close>

section \<open>A small compilation unit\<close>

definition ex_strings :: "strings_t \<Rightarrow> string option" where
  "ex_strings s = map_of [(1, ''int''), (2, ''u32''), (3, ''inner''), (4, ''a''), (5, ''b''), (6, ''outer''),
     (7, ''id''), (8, ''in''), (9, ''loop1''), (10, ''loop2''), (11, ''arr'')] s"

definition ex_type :: "strings_t \<Rightarrow> u32 \<Rightarrow> type_fields" where
  "ex_type name sz = \<lparr>ty_namespace = \<lparr>ns_name = name, ns_nr_tags = 0, ns_shared_tags = False, ns_sname = None\<rparr>,
     ty_size = sz, ty_nr_static_members = 0, ty_nr_members = 2, ty_declaration = False\<rparr>"

definition ex_class :: class_fields where
  "ex_class = \<lparr>cl_nr_vtable_entries = 0, cl_nr_holes = 0, cl_nr_bit_holes = 0, cl_padding = 0, cl_bit_padding = 0\<rparr>"

definition ex_member :: "nat \<Rightarrow> u16 \<Rightarrow> strings_t \<Rightarrow> u32 \<Rightarrow> u64 \<Rightarrow> tag" where
  "ex_member addr ty name off sz = Tag addr ty DW_TAG_member (Member_Body
     \<lparr>cm_name = name, cm_bit_offset = 0, cm_bit_size = 0, cm_byte_offset = off, cm_byte_size = sz,
      cm_bitfield_offset = 0, cm_bitfield_size = 0, cm_bit_hole = 0, cm_bitfield_end = False,
      cm_is_static = False, cm_virtuality = 0, cm_hole = 0\<rparr>)"

definition ex_int :: tag where
  "ex_int = Tag 101 0 DW_TAG_base_type (Base_Body
     \<lparr>bt_name = 1, bt_bit_size = 32, bt_name_has_encoding = True, bt_is_signed = False, bt_is_bool = False,
      bt_is_varargs = False, bt_float_type = 0\<rparr>)"

definition ex_u32 :: tag where
  "ex_u32 = Tag 102 1 DW_TAG_typedef (Type_Body (ex_type 2 0) [])"

definition ex_inner :: tag where
  "ex_inner = Tag 103 0 DW_TAG_structure_type
     (Class_Body (ex_type 3 8) ex_class [ex_member 201 2 4 0 4, ex_member 202 1 5 4 4])"

definition ex_outer :: tag where
  "ex_outer = Tag 104 0 DW_TAG_structure_type
     (Class_Body (ex_type 6 24) ex_class [ex_member 203 1 7 0 4, ex_member 204 3 8 8 8])"

definition ex_loop1 :: tag where
  "ex_loop1 = Tag 105 6 DW_TAG_typedef (Type_Body (ex_type 9 0) [])"

definition ex_loop2 :: tag where
  "ex_loop2 = Tag 106 5 DW_TAG_typedef (Type_Body (ex_type 10 0) [])"

definition ex_array :: tag where
  "ex_array = Tag 107 3 DW_TAG_array_type (Array_Body \<lparr>at_nr_entries = [2], at_dimensions = 1, at_is_vector = False\<rparr>)"

definition ex_arrays :: tag where
  "ex_arrays = Tag 108 0 DW_TAG_structure_type
     (Class_Body (ex_type 6 32) ex_class [ex_member 205 1 7 0 4, ex_member 206 7 11 16 16])"

definition ex_cu_of :: "tag list \<Rightarrow> cu" where
  "ex_cu_of ts = \<lparr>cu_types_table = \<lparr>pt_entries = Some None # map (\<lambda>t. Some (Some t)) ts,
      pt_nr_entries = of_nat (length ts) + 1, pt_allocated_entries = of_nat (length ts) + 1\<rparr>,
     cu_functions_table = ptr_table__init, cu_tags_table = ptr_table__init, cu_name = None,
     cu_dfops = Some ex_strings, cu_addr_size = 8, cu_language = 12, cu_stray = (\<lambda>_. None)\<rparr>"

definition ex_cu :: cu where
  "ex_cu = ex_cu_of [ex_int, ex_u32, ex_inner, ex_outer]"

definition ex_env :: "nat penv" where
  "ex_env = \<lparr>pe_type_id = 9, pe_expand_type = (\<lambda>n. n = ''inner''),
     pe_add_member_name = (\<lambda>name i. (of_nat i, i + 1)), pe_delimiter = CHR '';'', pe_alloc = (\<lambda>_. True)\<rparr>"

definition ex_state :: "nat pstate" where
  "ex_state = \<lparr>ps_fp = [], ps_name_prefixes = replicate 16 None, ps_next_prefix_idx = 0, ps_offset = 0, ps_ids = 1\<rparr>"

lemmas ex_defs = ex_cu_def ex_cu_of_def ex_strings_def ex_type_def ex_class_def ex_member_def ex_int_def ex_u32_def
  ex_inner_def ex_outer_def ex_env_def ex_state_def

lemma ex_outer_fields:
  "tag__type ex_outer = Inr (ex_type 6 24, [ex_member 203 1 7 0 4, ex_member 204 3 8 8 8])"
  "fields_of 5 ex_env ex_cu [ex_member 203 1 7 0 4, ex_member 204 3 8 8 8] =
     Some [Leaf ''id'' ''9;int'' 0 4, Nested ''in'' 8 [Leaf ''a'' ''9;u32'' 0 4, Leaf ''b'' ''9;int'' 4 4]]"
  by code_simp+

section \<open>Layout of structures\<close>

text \<open>
  An array of expanded structures: one group of fields per element, without the offset 16 of the
  member.
\<close>

lemma ex_arrays_fields:
  "fields_of 6 ex_env (ex_cu_of [ex_int, ex_u32, ex_inner, ex_outer, ex_int, ex_int, ex_array])
     [ex_member 205 1 7 0 4, ex_member 206 7 11 16 16] =
   Some [Leaf ''id'' ''9;int'' 0 4, Nested ''arr'' 0 [Leaf ''a'' ''9;u32'' 0 4, Leaf ''b'' ''9;int'' 4 4],
     Nested ''arr'' 8 [Leaf ''a'' ''9;u32'' 0 4, Leaf ''b'' ''9;int'' 4 4]]"
  by code_simp

text \<open>
  C6: The printer of a structure whose members have an abstract layout returns, and the text it adds
  is exactly the rendering of this layout: \<^const>\<open>fields_of\<close> reads the tree of fields out of the
  debug information, \<^const>\<open>fields_rows\<close> flattens it to one row per member that is not expanded, with
  the dotted name of the path to it and the sum of the offsets in the tree on that path, and
  \<^const>\<open>render_rows\<close> writes these rows with the numbers the callback gives the names. The layout
  follows the code: a member whose structure is expanded becomes the fields of that structure at the
  offset of the member; a member that is an array, of one dimension, of such structures becomes the
  fields of every element at the offset of the element within the array, so that the offset of the
  member itself is lost in all its rows (\<^verbatim>\<open>dwarves_fprintf.c\<close>, line 206); every other
  member, also a function pointer, a function type or a vector, is one row with the text of its type.
  There is no layout, and the theorem says nothing, for arrays of several dimensions of expanded
  structures, arrays with elements of an unknown type, pointer types that refer to themselves,
  typedefs without an end, and types nested deeper than \<open>n\<close>. It holds for trees that fit into the
  prefixes left, 16 in all.
\<close>

theorem struct_layout_rows:
  assumes "tag__type class = Inr (ty, ts)" and "fields_of n env cu ts = Some fs"
    and "pe_alloc env = (\<lambda>_. True)" and "at_path path (fields_depth fs) st"
  shows "\<exists>st'. class__fprintf n env cu class st = retR (list_ex is_member_tag ts, st') \<and>
    (ps_fp st', ps_ids st') = render_rows env (fields_rows path (ps_offset st) fs) (ps_fp st, ps_ids st)"
  using class_rows[OF assms(3,3,2,4), of False] assms(1)
  by (auto simp: class__fprintf_def class_fprintf_with_def pout_def)

theorem struct_layout_rows_witness:
  "\<exists>st'. class__fprintf 5 ex_env ex_cu ex_outer ex_state = retR (True, st') \<and>
     (ps_fp st', ps_ids st') =
       (''9;int;1;0;4'' @ [CHR 0x0A] @ ''9;u32;2;8;4'' @ [CHR 0x0A] @ ''9;int;3;12;4'' @ [CHR 0x0A], 4)"
proof -
  have path: "at_path [] 1 ex_state" by (simp add: at_path_def ex_state_def)
  have alloc: "pe_alloc ex_env = (\<lambda>_. True)" by (simp add: ex_env_def)
  have depth: "fields_depth [Leaf ''id'' ''9;int'' 0 4, Nested ''in'' 8 [Leaf ''a'' ''9;u32'' 0 4, Leaf ''b'' ''9;int'' 4 4]] = 1"
    by simp
  have rows: "render_rows ex_env (fields_rows [] (ps_offset ex_state)
      [Leaf ''id'' ''9;int'' 0 4, Nested ''in'' 8 [Leaf ''a'' ''9;u32'' 0 4, Leaf ''b'' ''9;int'' 4 4]])
      (ps_fp ex_state, ps_ids ex_state) =
    (''9;int;1;0;4'' @ [CHR 0x0A] @ ''9;u32;2;8;4'' @ [CHR 0x0A] @ ''9;int;3;12;4'' @ [CHR 0x0A], 4)"
    by code_simp
  have flag: "is_member_tag (ex_member addr ty name off sz)" for addr ty name off sz
    by (simp add: ex_member_def is_member_tag_def)
  show ?thesis
    using struct_layout_rows[OF ex_outer_fields alloc, of "[]" ex_state] path unfolding depth rows by (simp add: flag)
qed

text \<open>
  C37: Whatever the debug information contains, a printer that returns gives the extension record back
  with the offset, the number of prefixes and the prefixes in use as it found them, and it has only
  added text to the file and names through the callback.
\<close>

theorem printers_restore_ext:
  assumes "type__fprintf n env cu ty name prefix offset st = retR (b, st')"
  shows "ps_offset st' = ps_offset st \<and> ps_next_prefix_idx st' = ps_next_prefix_idx st \<and>
    length (ps_name_prefixes st') = length (ps_name_prefixes st) \<and>
    take (ps_next_prefix_idx st) (ps_name_prefixes st') = take (ps_next_prefix_idx st) (ps_name_prefixes st) \<and>
    (\<exists>s. ps_fp st' = ps_fp st @ s) \<and> ids_reach env (ps_ids st) (ps_ids st')"
  using type__fprintf_kept[OF assms] by (simp add: ext_kept_def)

theorem printers_restore_ext_witness:
  "case type__fprintf 5 ex_env ex_cu (Some ex_inner) (Some ''in'') (Some ''in'') 8 ex_state of
     Some (Inr (b, st')) \<Rightarrow> b \<and> ps_offset st' = 0 \<and> ps_next_prefix_idx st' = 0 \<and> ps_name_prefixes st' ! 0 = Some ''in''
   | _ \<Rightarrow> False"
proof -
  have ev: "case type__fprintf 5 ex_env ex_cu (Some ex_inner) (Some ''in'') (Some ''in'') 8 ex_state of
     Some (Inr (b, st')) \<Rightarrow> b \<and> ps_name_prefixes st' ! 0 = Some ''in'' | _ \<Rightarrow> False"
    by code_simp
  then obtain b st' where run: "type__fprintf 5 ex_env ex_cu (Some ex_inner) (Some ''in'') (Some ''in'') 8 ex_state = retR (b, st')"
    by (auto split: option.splits sum.splits)
  from printers_restore_ext[OF run] ev show ?thesis unfolding run by (simp add: ex_state_def)
qed

text \<open>
  C40: The name of a nested member is composed in a buffer that grows by ten bytes at a time; the
  composition ends, and it is the prefixes and the name joined by dots, or nothing when memory runs
  out.
\<close>

theorem concat_members_joins:
  assumes "k \<le> length prefixes" and "take k prefixes = map Some names"
  shows "dwarves_convert_concat_members alloc prefixes k name \<in>
      {Inr None, Inr (Some (join_fields CHR ''.'' (names @ [name])))} \<and>
    dwarves_convert_concat_members (\<lambda>_. True) prefixes k name =
      Inr (Some (join_fields CHR ''.'' (names @ [name])))"
  using concat_members_join[OF assms] by blast

theorem concat_members_joins_witness:
  "dwarves_convert_concat_members (\<lambda>_. True) [Some ''i_mapping'', Some ''tree_lock'', None] 2 ''wait_lock'' =
     Inr (Some ''i_mapping.tree_lock.wait_lock'')"
  using concat_members_joins[of 2 "[Some ''i_mapping'', Some ''tree_lock'', None]" "[''i_mapping'', ''tree_lock'']"
      "\<lambda>_. True" "''wait_lock''"] by simp

section \<open>Termination\<close>

text \<open>
  C24: The printers end: if the types refer to each other without a cycle by value and the names of
  types without a cycle (ranks that decrease along every reference), then a fuel larger than the
  bound of the name ranks plus the rank of the structure is enough, for every state and callback.
\<close>

theorem layout_printers_end:
  assumes "value_ranked cu vr" and "name_ranked cu nr" and "\<And>t. 2 * nr t + 2 < N" and "N + vr class < n"
  shows "returns (class__fprintf n env cu class st)"
  using assms by (rule class_fprintf_returns)

lemma ex_cu_type:
  assumes "length ts < 2 ^ 16"
  shows "cu__type (ex_cu_of ts) i = Inr (if 0 < unat i \<and> unat i \<le> length ts then Some (ts ! (unat i - 1)) else None)"
proof -
  have n: "unat (of_nat (length ts) + 1 :: u32) = length ts + 1"
    using assms by (simp add: unat_word_ariths unat_of_nat take_bit_eq_mod)
  have i: "unat (ucast i :: u32) = unat i" by (simp add: unsigned_ucast_eq take_bit_eq_mod) (use unsigned_less[of i, where ?'a = nat] in simp)
  show ?thesis
    by (auto simp: cu__type_def ptr_table__entry_def load_entry_def ex_cu_of_def word_le_nat_alt n i nth_Cons' simp flip: not_less)
qed

definition ex_rank :: "tag \<Rightarrow> nat" where
  "ex_rank t = (if t = ex_int then 0 else if t = ex_u32 then 1 else if t = ex_inner then 2 else if t = ex_outer then 3 else 4)"

lemma ex_ranks [simp]: "ex_rank ex_int = 0" "ex_rank ex_u32 = 1" "ex_rank ex_inner = 2" "ex_rank ex_outer = 3"
  by (simp_all add: ex_rank_def ex_int_def ex_u32_def ex_inner_def ex_outer_def)

lemma ex_cu_types:
  "cu__type ex_cu 0 = Inr None" "cu__type ex_cu 1 = Inr (Some ex_int)" "cu__type ex_cu 2 = Inr (Some ex_u32)"
  "cu__type ex_cu 3 = Inr (Some ex_inner)"
  by (simp_all add: ex_cu_def ex_cu_type)

lemma ex_cu_known: "cu__type ex_cu i = Inr (Some u) \<Longrightarrow> u \<in> {ex_int, ex_u32, ex_inner, ex_outer}"
  using nth_mem[of "unat i - 1" "[ex_int, ex_u32, ex_inner, ex_outer]"]
  by (auto simp: ex_cu_def ex_cu_type split: if_splits)

lemma ex_ranked: "value_ranked ex_cu ex_rank" "name_ranked ex_cu ex_rank"
proof -
  have other: "ex_rank u < ex_rank t" if "t \<notin> {ex_int, ex_u32, ex_inner, ex_outer}" "cu__type ex_cu i = Inr (Some u)" for t u i
    using ex_cu_known[OF that(2)] that(1) by (auto simp: ex_rank_def)
  show "value_ranked ex_cu ex_rank"
    unfolding value_ranked_def
  proof (intro allI impI)
    fix t u assume e: "value_edge ex_cu t u"
    show "ex_rank u < ex_rank t"
    proof (cases "t \<in> {ex_int, ex_u32, ex_inner, ex_outer}")
      case True
      have heads: "tag_type ex_int = 0" "tag_type ex_u32 = 1" "tag_type ex_inner = 0" "tag_type ex_outer = 0"
        by (simp_all add: ex_int_def ex_u32_def ex_inner_def ex_outer_def)
      have "type_members ex_int = {}" "type_members ex_u32 = {}"
        by (simp_all add: type_members_def tag__type_def ex_int_def ex_u32_def)
      moreover have "\<forall>m \<in> type_members ex_inner. tag_type m = 1 \<or> tag_type m = 2"
        "\<forall>m \<in> type_members ex_outer. tag_type m = 1 \<or> tag_type m = 3"
        by (auto simp: type_members_def tag__type_def ex_inner_def ex_outer_def ex_member_def)
      ultimately show ?thesis using e True ex_cu_types heads unfolding value_edge_def by fastforce
    next
      case False
      with e other show ?thesis unfolding value_edge_def by blast
    qed
  qed
  show "name_ranked ex_cu ex_rank"
    unfolding name_ranked_def
  proof (intro allI impI)
    fix t u assume e: "name_edge ex_cu t u"
    show "ex_rank u < ex_rank t"
    proof (cases "t \<in> {ex_int, ex_u32, ex_inner, ex_outer}")
      case True
      then have "\<not> name_edge ex_cu t u"
        by (auto simp: name_edge_def tag__ftype_def ex_int_def ex_u32_def ex_inner_def ex_outer_def)
      with e show ?thesis by simp
    next
      case False
      with e other show ?thesis unfolding name_edge_def by blast
    qed
  qed
qed

theorem layout_printers_end_witness: "returns (class__fprintf 15 ex_env ex_cu ex_outer ex_state)"
proof (rule layout_printers_end[OF ex_ranked])
  show "2 * ex_rank t + 2 < 11" for t by (simp add: ex_rank_def)
qed simp

text \<open>
  C39: The resolution of a typedef ends exactly when its chain of typedefs ends. It then yields the
  type at the end of the chain, or the null pointer when the chain breaks off or a typedef refers to
  itself; on a longer cycle of typedefs it never returns.
\<close>

theorem resolve_typedef_exact:
  "(resolve_typedef cu t = None \<longleftrightarrow> (\<forall>u. typedef_chain cu t u \<longrightarrow> chain_goes_on cu u)) \<and>
   (\<forall>u. typedef_chain cu t u \<longrightarrow> \<not> chain_goes_on cu u \<longrightarrow> resolve_typedef cu t = Some (chain_end cu u))"
  using resolve_typedef_ends_iff[of cu t] resolve_chain[of cu t] resolve_last[of cu] by (auto simp: returns_def)

theorem resolve_typedef_exact_witness:
  "resolve_typedef ex_cu ex_u32 = Some (Inr (Some ex_int)) \<and>
   resolve_typedef (ex_cu_of [ex_int, ex_u32, ex_inner, ex_outer, ex_loop1, ex_loop2]) ex_loop1 = None"
proof
  have "typedef_chain ex_cu ex_u32 ex_int"
    using chain_step[OF chain_refl, of ex_u32 ex_cu ex_int] ex_cu_types(2) by (simp add: ex_u32_def ex_int_def tag__is_typedef_def)
  then show "resolve_typedef ex_cu ex_u32 = Some (Inr (Some ex_int))"
    using resolve_typedef_exact[of ex_cu ex_u32] by (auto simp: chain_goes_on_def chain_end_def tag__is_typedef_def ex_int_def)
  let ?cu = "ex_cu_of [ex_int, ex_u32, ex_inner, ex_outer, ex_loop1, ex_loop2]"
  have types: "cu__type ?cu 5 = Inr (Some ex_loop1)" "cu__type ?cu 6 = Inr (Some ex_loop2)" by (simp_all add: ex_cu_type)
  have loop: "u \<in> {ex_loop1, ex_loop2}" if "typedef_chain ?cu t u" "t = ex_loop1" for t u
    using that types by (induction rule: typedef_chain.induct) (auto simp: ex_loop1_def ex_loop2_def)
  have "chain_goes_on ?cu u" if "typedef_chain ?cu ex_loop1 u" for u
    using loop[OF that refl] types by (auto simp: chain_goes_on_def tag__is_typedef_def ex_loop1_def ex_loop2_def)
  then show "resolve_typedef ?cu ex_loop1 = None" using resolve_typedef_exact[of ?cu ex_loop1] by blast
qed

section \<open>Holes\<close>

definition member_end :: "tag \<Rightarrow> nat" where
  "member_end t = unat (cm_byte_offset (mem_of t)) + unat (cm_byte_size (mem_of t))"

text \<open>
  C25: For a structure of plain data members in ascending order that fit into its size (with gaps of
  less than 64 KiB), the search for holes accounts for every byte: a member, its hole and the next
  member are adjacent, the last member and the padding fill the structure, and the number of holes is
  the number of members with a hole (in 8 bits).
\<close>

theorem find_holes_accounts:
  assumes plain: "\<forall>t \<in> set ts. plain_member t \<and> cm_hole (mem_of t) = 0" and ne: "ts \<noteq> []" and pad: "cl_padding cl = 0"
    and order: "\<forall>j. Suc j < length ts \<longrightarrow> member_end (ts ! j) \<le> unat (cm_byte_offset (mem_of (ts ! Suc j))) \<and>
      unat (cm_byte_offset (mem_of (ts ! Suc j))) < member_end (ts ! j) + 2 ^ 16"
    and fits: "member_end (last ts) \<le> unat (ty_size ty)" "unat (ty_size ty) < member_end (last ts) + 2 ^ 16"
  shows "\<exists>cl' ts'. class__find_holes ty cl ts = Inr (cl', ts') \<and> length ts' = length ts \<and>
    (\<forall>j. Suc j < length ts \<longrightarrow>
      member_end (ts ! j) + unat (cm_hole (mem_of (ts' ! j))) = unat (cm_byte_offset (mem_of (ts ! Suc j)))) \<and>
    member_end (last ts) + unat (cl_padding cl') = unat (ty_size ty) \<and>
    cl_nr_holes cl' = of_nat (length (filter (\<lambda>j. cm_hole (mem_of (ts' ! j)) \<noteq> 0) [0 ..< length ts - 1]))"
proof -
  let ?m = "\<lambda>j. mem_of (ts ! j)" and ?ts = "holes_set (length ts) ts" and ?l = "mem_of (last ts)"
  have last: "ts ! (length ts - 1) = last ts" using ne by (simp add: last_conv_nth)
  have p: "plain_member (ts ! j)" "cm_hole (?m j) = 0" if "j < length ts" for j using plain that by auto
  have gap: "unat (hole_after (?m j) (?m (Suc j))) = gap (?m j) (unat (cm_byte_offset (?m (Suc j))))"
    if "Suc j < length ts" for j
    using order that p(2)[of j] by (intro hole_after_gap) (auto simp: member_end_def gap_def)
  have hole: "cm_hole (mem_of (?ts ! j)) = hole_after (?m j) (?m (Suc j))" if "Suc j < length ts" for j
    using that by (simp add: holes_set_nth with_hole_def mem_of_def)
  have counted: "hole_counted (?m j) (?m (Suc j)) \<longleftrightarrow> cm_hole (mem_of (?ts ! j)) \<noteq> 0" if "Suc j < length ts" for j
    using gap[OF that] order that
    by (auto simp: hole_counted_def hole[OF that] gap_def word_less_nat_alt member_end_def simp flip: unat_eq_0)
  have count: "count_holes (length ts - 1) ts = length (filter (\<lambda>j. cm_hole (mem_of (?ts ! j)) \<noteq> 0) [0 ..< length ts - 1])"
    unfolding count_holes_def using counted by (intro arg_cong[where f = length] filter_cong) auto
  obtain cl' where run: "class__find_holes ty cl ts = Inr (cl', ?ts)"
    and nr: "cl_nr_holes cl' = of_nat (count_holes (length ts - 1) ts)"
    and padding: "cl_padding cl' = (if ucast (cm_byte_offset ?l) + cm_byte_size ?l \<noteq> (ucast (ty_size ty) :: u64)
      then ucast (ucast (ty_size ty) - (ucast (cm_byte_offset ?l) + cm_byte_size ?l) :: u64) else cl_padding cl)"
    using find_holes_run[OF p(1) ne, of ty cl] unfolding last Let_def by blast
  have pad': "member_end (last ts) + unat (cl_padding cl') = unat (ty_size ty)"
    using fits padding pad unfolding member_end_def by (intro padding_fills) auto
  show ?thesis
    using run nr count pad' hole gap order by (intro exI[of _ cl'] exI[of _ ?ts]) (auto simp: gap_def member_end_def)
qed

theorem find_holes_accounts_witness:
  "\<exists>cl' ts'. class__find_holes (ex_type 6 24) ex_class [ex_member 203 1 7 0 4, ex_member 204 3 8 8 8] = Inr (cl', ts') \<and>
     unat (cm_hole (mem_of (ts' ! 0))) = 4 \<and> unat (cl_padding cl') = 8 \<and> cl_nr_holes cl' = 1"
proof -
  let ?ts = "[ex_member 203 1 7 0 4, ex_member 204 3 8 8 8]"
  have ends: "member_end (?ts ! 0) = 4" "member_end (last ?ts) = 16" "unat (cm_byte_offset (mem_of (?ts ! 1))) = 8"
    "unat (ty_size (ex_type 6 24)) = 24"
    by (simp_all add: member_end_def mem_of_def ex_member_def ex_type_def)
  have "\<forall>t \<in> set ?ts. plain_member t \<and> cm_hole (mem_of t) = 0"
    by (simp add: ex_member_def plain_member_def mem_of_def)
  moreover have "\<forall>j. Suc j < length ?ts \<longrightarrow> member_end (?ts ! j) \<le> unat (cm_byte_offset (mem_of (?ts ! Suc j))) \<and>
      unat (cm_byte_offset (mem_of (?ts ! Suc j))) < member_end (?ts ! j) + 2 ^ 16"
    using ends by (auto simp: less_Suc_eq)
  ultimately obtain cl' ts' where r: "class__find_holes (ex_type 6 24) ex_class ?ts = Inr (cl', ts')"
    "\<forall>j. Suc j < length ?ts \<longrightarrow>
      member_end (?ts ! j) + unat (cm_hole (mem_of (ts' ! j))) = unat (cm_byte_offset (mem_of (?ts ! Suc j)))"
    "member_end (last ?ts) + unat (cl_padding cl') = unat (ty_size (ex_type 6 24))"
    "cl_nr_holes cl' = of_nat (length (filter (\<lambda>j. cm_hole (mem_of (ts' ! j)) \<noteq> 0) [0 ..< length ?ts - 1]))"
    using find_holes_accounts[of ?ts ex_class "ex_type 6 24"] ends by (auto simp: ex_class_def)
  have h: "unat (cm_hole (mem_of (ts' ! 0))) = 4" using r(2)[rule_format, of 0] ends by simp
  moreover have "cm_hole (mem_of (ts' ! 0)) \<noteq> 0" using h by auto
  ultimately show ?thesis using r ends by (intro exI[of _ cl'] exI[of _ ts']) simp
qed

section \<open>Strings and hashes\<close>

text \<open>
  C40: Strings added one after the other to a new table (less than 2 GiB in all, memory permitting)
  get indices under which the table returns them unchanged; two of them get the same index exactly
  when they are equal, and a string that is in the table is found, and added again, at its index.
\<close>

theorem strings_round_trip:
  assumes "\<forall>s \<in> set ss. CHR 0x00 \<notin> set s" and "sum_list (map (\<lambda>s. length s + 1) ss) + 8193 < 2 ^ 31"
  shows "\<exists>is strs. intern_all (\<lambda>s. strings__add (\<lambda>_. True) True (Some s)) ss strings__new = Inr (is, strs) \<and>
    map (strings__ptr strs) is = map (\<lambda>s. Inr (Some s)) ss \<and>
    (\<forall>j k. j < length ss \<longrightarrow> k < length ss \<longrightarrow> (is ! j = is ! k \<longleftrightarrow> ss ! j = ss ! k)) \<and>
    (\<forall>s \<in> set ss. \<exists>i. strings__find (Some s) strs = Inr i \<and> strings__add (\<lambda>_. True) True (Some s) strs = Inr (i, strs))"
proof -
  have room: "strings_room (sum_list (map (\<lambda>s. length s + 1) ss)) strings__new"
    using assms(2) by (simp add: strings_room_def gb_room_def strings__new_def gobuffer__init_def)
  obtain "is" strs where r: "intern_all str_add ss strings__new = Inr (is, strs)"
    "map (strings__ptr strs) is = map (\<lambda>s. Inr (Some s)) ss"
    "\<And>j k. j < length ss \<Longrightarrow> k < length ss \<Longrightarrow> is ! j = is ! k \<longleftrightarrow> ss ! j = ss ! k"
    "\<forall>s \<in> set ss. \<exists>i. tfind (st_gb strs) s (st_tree strs) = Inr (Some i) \<and> str_add s strs = Inr (i, strs)"
    by (rule intern.add_all_round_trip[OF strings_ok_new assms(1) room]) blast
  have "\<forall>s \<in> set ss. \<exists>i. strings__find (Some s) strs = Inr i \<and> str_add s strs = Inr (i, strs)"
    using r(4) by (fastforce simp: strings__find_def)
  with r(1-3) show ?thesis by (intro exI[of _ "is"] exI[of _ strs]) blast
qed

theorem strings_round_trip_witness:
  "\<exists>is strs. intern_all (\<lambda>s. strings__add (\<lambda>_. True) True (Some s)) [''i_lock'', ''i_size'', ''i_lock''] strings__new = Inr (is, strs) \<and>
     map (strings__ptr strs) is = [Inr (Some ''i_lock''), Inr (Some ''i_size''), Inr (Some ''i_lock'')] \<and>
     is ! 0 = is ! 2 \<and> is ! 0 \<noteq> is ! 1"
proof -
  obtain "is" strs where r: "intern_all (\<lambda>s. strings__add (\<lambda>_. True) True (Some s)) [''i_lock'', ''i_size'', ''i_lock''] strings__new = Inr (is, strs)"
    "map (strings__ptr strs) is = map (\<lambda>s. Inr (Some s)) [''i_lock'', ''i_size'', ''i_lock'']"
    "\<forall>j k. j < 3 \<longrightarrow> k < 3 \<longrightarrow> (is ! j = is ! k \<longleftrightarrow> [''i_lock'', ''i_size'', ''i_lock''] ! j = [''i_lock'', ''i_size'', ''i_lock''] ! k)"
    using strings_round_trip[of "[''i_lock'', ''i_size'', ''i_lock'']"] by auto
  have "is ! 0 = is ! 2" using r(3)[rule_format, of 0 2] by simp
  moreover have "is ! 0 \<noteq> is ! 1" using r(3)[rule_format, of 0 1] by simp
  ultimately show ?thesis using r(1,2) by auto
qed

text \<open>
  The shifts and additions of \<^verbatim>\<open>hash_64\<close> are the multiplication by the prime given in the
  comment above it, and the result is an index into a table of \<^verbatim>\<open>1 << bits\<close> buckets.
\<close>

theorem hash_64_is_multiplication:
  assumes "1 \<le> bits" and "bits \<le> 64"
  shows "\<exists>h. hash_64 val bits = Inr h \<and> h = drop_bit (64 - bits) (val * GOLDEN_RATIO_PRIME_64) \<and>
    GOLDEN_RATIO_PRIME_64 = 2 ^ 63 + 2 ^ 61 - 2 ^ 57 + 2 ^ 54 - 2 ^ 51 - 2 ^ 18 + 1 \<and> unat h < 2 ^ bits"
  using hash_64_mult[OF assms, of val] hash_64_range[OF assms] by (simp add: GOLDEN_RATIO_PRIME_64_def)

theorem hash_64_is_multiplication_witness:
  "\<exists>h. hash_64 1 8 = Inr h \<and> h = 0x9e \<and> unat h < 2 ^ 8"
  using hash_64_is_multiplication[of 8 1] by (simp add: GOLDEN_RATIO_PRIME_64_def drop_bit_eq_div)

section \<open>Extraction of the types of interest\<close>

text \<open>
  C19: The extraction of the structure definitions ends for every list of units whose types refer to
  each other without a cycle (a fuel above the ranks is enough). When it ends without an error it has
  returned 0 and written the header and then only rows; names and ids of the types of interest and the
  numbers of member names are kept; and a type of interest is marked as found exactly when it was
  before or some unit of the binary defines a structure of that name with members, although the loop
  stops at the first unit after which every type is found. What a unit defines is stated without the
  search: \<^const>\<open>found_struct\<close> is the end of the typedefs of the type with the smallest number that has
  the name and is no declaration. And it does end without an error when memory lasts, the units can be
  read and the structures of interest have an abstract layout that fits into the 16 prefixes.
\<close>

theorem extract_marks_defined:
  assumes "\<forall>cu \<in> set kernelCUs. bounded_unit n cu"
  shows "\<exists>res. extractStructDefs n True delim alloc kernelCUs c = Some res \<and>
    (\<forall>r fp c'. res = Inr (r, fp, c') \<longrightarrow> r = 0 \<and> (\<exists>rows. fp = layout_header delim @ rows) \<and>
      map dt_name (types c') = map dt_name (types c) \<and> map dt_id (types c') = map dt_id (types c) \<and>
      (\<forall>name i. omap_lookup (memberNames c) name = Some i \<longrightarrow> omap_lookup (memberNames c') name = Some i) \<and>
      (\<forall>k < length (types c). foundInDw (types c' ! k) \<longleftrightarrow>
         foundInDw (types c ! k) \<or> (\<exists>cu \<in> set kernelCUs. defines_struct cu (dt_name (types c ! k))))) \<and>
    (alloc = (\<lambda>_. True) \<longrightarrow> (\<forall>cu \<in> set kernelCUs. readable cu \<and> laid_out n delim c cu) \<longrightarrow>
      (\<exists>fp c'. res = Inr (0, fp, c')))"
proof -
  have nr: "cu \<in> set kernelCUs \<Longrightarrow> unat (pt_nr_entries (cu_types_table cu)) < 2 ^ 16" for cu
    using assms bounded_nr by blast
  have "returns (extractStructDefs n True delim alloc kernelCUs c)"
    using assms extractStructDefs_returns by blast
  then obtain res where res: "extractStructDefs n True delim alloc kernelCUs c = Some res" by (auto simp: returns_def)
  have marks: "r = 0 \<and> (\<exists>rows. fp = layout_header delim @ rows) \<and> same_types c c' \<and>
      (\<forall>k < length (types c). foundInDw (types c' ! k) \<longleftrightarrow>
         foundInDw (types c ! k) \<or> (\<exists>cu \<in> set kernelCUs. defines_struct cu (dt_name (types c ! k))))"
    if "res = Inr (r, fp, c')" for r fp c'
    using extractStructDefs_run[OF nr res[unfolded that]] .
  have "\<exists>fp c'. res = Inr (0, fp, c')"
    if "alloc = (\<lambda>_. True)" "\<forall>cu \<in> set kernelCUs. readable cu \<and> laid_out n delim c cu"
  proof -
    have "\<exists>x. extractStructDefs n True delim (\<lambda>_. True) kernelCUs c = retR x"
      by (rule extractStructDefs_ok) (use that(2) assms in blast)
    then have "\<exists>x. res = Inr x" using res that(1) by (auto simp: fun_eq_iff)
    then obtain x where "res = Inr x" by blast
    with marks show ?thesis by (cases x) auto
  qed
  with res marks show ?thesis by (simp add: same_types_def)
qed

definition ex_conv_env :: conv_env where
  "ex_conv_env = \<lparr>ctxTracing = False, processSeqlock = False, includeAllLocks = False, pseudoAllocID = 0,
     kernelBaseDir = ''/k/'', delimiter = CHR '';'', dataSections = [], getGlobalLockVar = (\<lambda>_. None),
     get_function_at_addr = (\<lambda>_ _. \<lparr>codeLocation = \<lparr>cl_fn = ''f'', cl_file = ''f.c'', cl_line = 1\<rparr>, inlinedBy = []\<rparr>)\<rparr>"

definition ex_conv :: conv where
  "ex_conv = init_conv ex_conv_env [\<lparr>dt_id = 1, dt_name = ''outer'', foundInDw = False\<rparr>,
     \<lparr>dt_id = 2, dt_name = ''inode'', foundInDw = False\<rparr>] [] 1"

lemma ex_conv_types:
  "types ex_conv = [\<lparr>dt_id = 1, dt_name = ''outer'', foundInDw = False\<rparr>, \<lparr>dt_id = 2, dt_name = ''inode'', foundInDw = False\<rparr>]"
  by (simp add: ex_conv_def init_conv_def)

lemma ex_bounded: "bounded_unit 16 ex_cu"
proof -
  have "2 * ex_rank t + 2 < 11 \<and> 11 + ex_rank t < 16" for t by (simp add: ex_rank_def)
  moreover have "unat (pt_nr_entries (cu_types_table ex_cu)) < 2 ^ 16" by (simp add: ex_cu_def ex_cu_of_def)
  ultimately show ?thesis unfolding bounded_unit_def using ex_ranked by blast
qed

lemma ex_found: "found_struct ex_cu ''outer'' u \<longleftrightarrow> u = ex_outer" "\<not> found_struct ex_cu ''inode'' u"
proof -
  have "cu__find_struct_by_name ex_cu ''outer'' False = retR (Some (4, ex_outer))"
    "cu__find_struct_by_name ex_cu ''inode'' False = retR None" by code_simp+
  note f = this[THEN find_struct_run[OF bounded_nr[OF ex_bounded]]]
  show "found_struct ex_cu ''outer'' u \<longleftrightarrow> u = ex_outer" "\<not> found_struct ex_cu ''inode'' u"
    unfolding f by (auto simp: is_class_tag_def ex_outer_def)
qed

lemma ex_readable: "readable ex_cu"
proof -
  have "\<exists>x. tag__type t = Inr x"
    if "t \<in> {ex_int, ex_u32, ex_inner, ex_outer}" "tag__is_typedef t \<or> tag__is_struct t" for t
    using that by (auto simp: tag__type_def tag__is_typedef_def tag__is_struct_def
      ex_int_def ex_u32_def ex_inner_def ex_outer_def)
  moreover have "\<exists>p. cu__type ex_cu i = Inr p" for i by (simp add: ex_cu_def ex_cu_type)
  ultimately show ?thesis unfolding readable_def type_at_def using ex_cu_known by blast
qed

lemma ex_laid_out: "laid_out 16 CHR '';'' ex_conv ex_cu"
proof -
  have fs: "fields_of 16 (layout_env CHR '';'' (\<lambda>_. True) (types ex_conv ! 0) ex_conv) ex_cu
      [ex_member 203 1 7 0 4, ex_member 204 3 8 8 8] =
     Some [Leaf ''id'' ''1;int'' 0 4, Leaf ''in'' ''1;struct inner'' 8 8]"
    by code_simp
  have "fields_depth [Leaf ''id'' ''1;int'' 0 4, Leaf ''in'' ''1;struct inner'' 8 8] \<le> 16" by simp
  with fs ex_outer_fields(1) show ?thesis
    unfolding laid_out_def ex_conv_types by (auto simp: ex_found)
qed

theorem extract_marks_defined_witness:
  "case extractStructDefs 16 True CHR '';'' (\<lambda>_. True) [ex_cu] ex_conv of
     Some (Inr (r, fp, c')) \<Rightarrow> r = 0 \<and> foundInDw (types c' ! 0) \<and> \<not> foundInDw (types c' ! 1) \<and>
       fp = layout_header CHR '';'' @ ''1;int;1;0;4'' @ [CHR 0x0A] @ ''1;struct inner;2;8;8'' @ [CHR 0x0A]
   | _ \<Rightarrow> False"
proof -
  have ev: "case extractStructDefs 16 True CHR '';'' (\<lambda>_. True) [ex_cu] ex_conv of
     Some (Inr (r, fp, c')) \<Rightarrow>
       fp = layout_header CHR '';'' @ ''1;int;1;0;4'' @ [CHR 0x0A] @ ''1;struct inner;2;8;8'' @ [CHR 0x0A] | _ \<Rightarrow> True"
    by code_simp
  have "\<forall>cu \<in> set [ex_cu]. bounded_unit 16 cu" using ex_bounded by simp
  from extract_marks_defined[OF this, of "CHR '';''" "\<lambda>_. True" ex_conv] ex_readable ex_laid_out
  obtain fp c' where run: "extractStructDefs 16 True CHR '';'' (\<lambda>_. True) [ex_cu] ex_conv = retR (0, fp, c')"
    and m: "\<forall>k < length (types ex_conv). foundInDw (types c' ! k) \<longleftrightarrow>
      foundInDw (types ex_conv ! k) \<or> defines_struct ex_cu (dt_name (types ex_conv ! k))" by auto
  have "defines_struct ex_cu ''outer''" "\<not> defines_struct ex_cu ''inode''"
    using ex_outer_fields(1) by (auto simp: defines_struct_def ex_found ex_member_def is_member_tag_def)
  then have "foundInDw (types c' ! 0)" "\<not> foundInDw (types c' ! 1)"
    using m[rule_format, of 0] m[rule_format, of 1] by (simp_all add: ex_conv_types)
  with ev show ?thesis unfolding run by simp
qed

text \<open>
  A member that is an array of an expanded structure is printed with the offsets inside the
  elements only: the array at offset 16 of this structure appears at the offsets 0 to 12.
\<close>

lemma array_member_offset_lost:
  "case class__fprintf 6 ex_env (ex_cu_of [ex_int, ex_u32, ex_inner, ex_outer, ex_int, ex_int, ex_array]) ex_arrays ex_state of
     Some (Inr (b, st')) \<Rightarrow> ps_fp st' = ''9;int;1;0;4'' @ [CHR 0x0A] @
       ''9;u32;2;0;4'' @ [CHR 0x0A] @ ''9;int;3;4;4'' @ [CHR 0x0A] @
       ''9;u32;4;8;4'' @ [CHR 0x0A] @ ''9;int;5;12;4'' @ [CHR 0x0A]
   | _ \<Rightarrow> False"
  by code_simp

end
