(* ===== verification/Dwarf_Attr.thy ===== *)
theory Dwarf_Attr
  imports Dwarves_Strings
begin

text \<open>
  Debugging information entries as the loader of \<^verbatim>\<open>dwarf_loader.c\<close> sees them, and its reading
  of their attributes. An entry holds what libdw answers for it: its offset and tag, and for
  every attribute its form and the result of each \<^verbatim>\<open>dwarf_form\<close> function (\<open>None\<close> where the call
  fails). The bytes of a location expression are decoded by the loader itself, with its own
  reader of variable length numbers; the theory shows that this reader inverts the encoding.
\<close>

unbundle bit_operations_syntax

section \<open>Entries\<close>

abbreviation DW_AT_location :: u32 where "DW_AT_location \<equiv> 0x02"
abbreviation DW_AT_name :: u32 where "DW_AT_name \<equiv> 0x03"
abbreviation DW_AT_byte_size :: u32 where "DW_AT_byte_size \<equiv> 0x0b"
abbreviation DW_AT_bit_offset :: u32 where "DW_AT_bit_offset \<equiv> 0x0c"
abbreviation DW_AT_bit_size :: u32 where "DW_AT_bit_size \<equiv> 0x0d"
abbreviation DW_AT_language :: u32 where "DW_AT_language \<equiv> 0x13"
abbreviation DW_AT_import :: u32 where "DW_AT_import \<equiv> 0x18"
abbreviation DW_AT_const_value :: u32 where "DW_AT_const_value \<equiv> 0x1c"
abbreviation DW_AT_containing_type :: u32 where "DW_AT_containing_type \<equiv> 0x1d"
abbreviation DW_AT_inline :: u32 where "DW_AT_inline \<equiv> 0x20"
abbreviation DW_AT_upper_bound :: u32 where "DW_AT_upper_bound \<equiv> 0x2f"
abbreviation DW_AT_abstract_origin :: u32 where "DW_AT_abstract_origin \<equiv> 0x31"
abbreviation DW_AT_accessibility :: u32 where "DW_AT_accessibility \<equiv> 0x32"
abbreviation DW_AT_count :: u32 where "DW_AT_count \<equiv> 0x37"
abbreviation DW_AT_data_member_location :: u32 where "DW_AT_data_member_location \<equiv> 0x38"
abbreviation DW_AT_declaration :: u32 where "DW_AT_declaration \<equiv> 0x3c"
abbreviation DW_AT_encoding :: u32 where "DW_AT_encoding \<equiv> 0x3e"
abbreviation DW_AT_external :: u32 where "DW_AT_external \<equiv> 0x3f"
abbreviation DW_AT_specification :: u32 where "DW_AT_specification \<equiv> 0x47"
abbreviation DW_AT_type :: u32 where "DW_AT_type \<equiv> 0x49"
abbreviation DW_AT_virtuality :: u32 where "DW_AT_virtuality \<equiv> 0x4c"
abbreviation DW_AT_vtable_elem_location :: u32 where "DW_AT_vtable_elem_location \<equiv> 0x4d"
abbreviation DW_AT_call_file :: u32 where "DW_AT_call_file \<equiv> 0x58"
abbreviation DW_AT_call_line :: u32 where "DW_AT_call_line \<equiv> 0x59"
abbreviation DW_AT_MIPS_linkage_name :: u32 where "DW_AT_MIPS_linkage_name \<equiv> 0x2007"
abbreviation DW_AT_GNU_vector :: u32 where "DW_AT_GNU_vector \<equiv> 0x2107"

abbreviation DW_FORM_addr :: u32 where "DW_FORM_addr \<equiv> 0x01"
abbreviation DW_FORM_data2 :: u32 where "DW_FORM_data2 \<equiv> 0x05"
abbreviation DW_FORM_data4 :: u32 where "DW_FORM_data4 \<equiv> 0x06"
abbreviation DW_FORM_data8 :: u32 where "DW_FORM_data8 \<equiv> 0x07"
abbreviation DW_FORM_data1 :: u32 where "DW_FORM_data1 \<equiv> 0x0b"
abbreviation DW_FORM_flag :: u32 where "DW_FORM_flag \<equiv> 0x0c"
abbreviation DW_FORM_sdata :: u32 where "DW_FORM_sdata \<equiv> 0x0d"
abbreviation DW_FORM_udata :: u32 where "DW_FORM_udata \<equiv> 0x0f"
abbreviation DW_FORM_exprloc :: u32 where "DW_FORM_exprloc \<equiv> 0x18"
abbreviation DW_FORM_flag_present :: u32 where "DW_FORM_flag_present \<equiv> 0x19"
abbreviation DW_FORM_ref_sig8 :: u32 where "DW_FORM_ref_sig8 \<equiv> 0x20"

abbreviation DW_OP_addr :: u8 where "DW_OP_addr \<equiv> 0x03"
abbreviation DW_OP_constu :: u8 where "DW_OP_constu \<equiv> 0x10"
abbreviation DW_OP_plus_uconst :: u8 where "DW_OP_plus_uconst \<equiv> 0x23"
abbreviation DW_OP_reg1 :: u8 where "DW_OP_reg1 \<equiv> 0x51"
abbreviation DW_OP_reg31 :: u8 where "DW_OP_reg31 \<equiv> 0x6f"
abbreviation DW_OP_breg0 :: u8 where "DW_OP_breg0 \<equiv> 0x70"
abbreviation DW_OP_breg31 :: u8 where "DW_OP_breg31 \<equiv> 0x8f"
abbreviation DW_OP_fbreg :: u8 where "DW_OP_fbreg \<equiv> 0x91"

record dwarf_attribute =
  da_name :: u32
  da_form :: u32
  da_addr :: "u64 option"               \<comment> \<open>\<open>dwarf_formaddr\<close>\<close>
  da_udata :: "u64 option"              \<comment> \<open>\<open>dwarf_formudata\<close>\<close>
  da_flag :: "bool option"              \<comment> \<open>\<open>dwarf_formflag\<close>\<close>
  da_block :: "u8 list option"          \<comment> \<open>\<open>dwarf_formblock\<close>\<close>
  da_string :: "string option"          \<comment> \<open>\<open>dwarf_formstring\<close>\<close>
  da_ref :: "u64 option"                \<comment> \<open>\<open>dwarf_dieoffset\<close> of the entry \<open>dwarf_formref_die\<close> finds\<close>
  da_ops :: "(u8 \<times> u64) list option"    \<comment> \<open>\<open>dwarf_getlocation\<close>: operations with their first number\<close>

record die_info =
  di_offset :: u64
  di_tag :: u16
  di_attrs :: "dwarf_attribute list"
  di_lowpc :: "u64 option"
  di_highpc :: "u64 option"
  di_ranges :: "(u64 \<times> u64) list"       \<comment> \<open>what \<open>dwarf_ranges\<close> returns call after call\<close>
  di_decl_file :: "(nat \<times> string) option"   \<comment> \<open>address and contents of the string\<close>
  di_decl_line :: u32                   \<comment> \<open>what \<open>dwarf_decl_line\<close> leaves in the variable\<close>

datatype die = Die (die_info: die_info) (die_children: "die list")

definition dwarf_attr :: "die_info \<Rightarrow> u32 \<Rightarrow> dwarf_attribute option" where
  "dwarf_attr di name = find (\<lambda>a. da_name a = name) (di_attrs di)"

definition dwarf_hasattr :: "die_info \<Rightarrow> u32 \<Rightarrow> bool" where
  "dwarf_hasattr di name \<longleftrightarrow> dwarf_attr di name \<noteq> None"

section \<open>Variable length numbers\<close>

fun libdw_get_uleb128 :: "u64 \<Rightarrow> nat \<Rightarrow> u8 list \<Rightarrow> u64 res" where
  \<comment> \<open>\<open>__libdw_get_uleb128\<close>: the byte number \<open>i\<close> comes next\<close>
  "libdw_get_uleb128 acc i [] = (if i < 10 then ub ''expression ends in a number'' else Inr (- 1))"
| "libdw_get_uleb128 acc i (b # bytes) =
     (if i < 10
      then let var = acc OR push_bit (i * 7) (ucast (b AND 0x7f))
           in if b AND 0x80 = 0 then Inr var else libdw_get_uleb128 var (i + 1) bytes
      else Inr (- 1))"

definition get_uleb128 :: "u8 list \<Rightarrow> u64 res" where
  "get_uleb128 bytes = (case bytes of
       [] \<Rightarrow> ub ''expression ends in a number''
     | b # rest \<Rightarrow>
         let var = 0 OR push_bit (0 * 7) (ucast (b AND 0x7f))
         in if b AND 0x80 = 0 then Inr var else libdw_get_uleb128 var 1 rest)"

definition dwarf_expr :: "u8 list \<Rightarrow> u64 res" where
  "dwarf_expr expr = (case expr of
       [] \<Rightarrow> ub ''empty expression''
     | op # rest \<Rightarrow>
         if op = DW_OP_plus_uconst \<or> op = DW_OP_constu then get_uleb128 rest else Inr (- 1))"

section \<open>Attributes\<close>

definition attr_numeric :: "die_info \<Rightarrow> u32 \<Rightarrow> u64" where
  "attr_numeric di name = (case dwarf_attr di name of
       None \<Rightarrow> 0
     | Some attr \<Rightarrow>
         let form = da_form attr in
         if form = DW_FORM_addr then (case da_addr attr of Some addr \<Rightarrow> addr | None \<Rightarrow> 0)
         else if form \<in> {DW_FORM_data1, DW_FORM_data2, DW_FORM_data4, DW_FORM_data8, DW_FORM_sdata, DW_FORM_udata}
         then (case da_udata attr of Some value \<Rightarrow> value | None \<Rightarrow> 0)
         else if form \<in> {DW_FORM_flag, DW_FORM_flag_present}
         then (case da_flag attr of Some value \<Rightarrow> of_bool value | None \<Rightarrow> 0)
         else 0)"

definition attr_offset :: "die_info \<Rightarrow> u32 \<Rightarrow> u64 res" where
  "attr_offset di name = (case dwarf_attr di name of
       None \<Rightarrow> Inr 0
     | Some attr \<Rightarrow>
         if da_form attr \<in> {DW_FORM_data1, DW_FORM_data2, DW_FORM_sdata, DW_FORM_udata}
         then Inr (case da_udata attr of Some value \<Rightarrow> value | None \<Rightarrow> 0)
         else (case da_block attr of Some block \<Rightarrow> dwarf_expr block | None \<Rightarrow> Inr 0))"

definition attr_string :: "die_info \<Rightarrow> u32 \<Rightarrow> string option" where
  "attr_string di name = (case dwarf_attr di name of Some attr \<Rightarrow> da_string attr | None \<Rightarrow> None)"

record dwarf_off_ref =
  from_types :: bool
  ref_off :: u64

abbreviation null_ref :: dwarf_off_ref where
  "null_ref \<equiv> \<lparr> from_types = False, ref_off = 0 \<rparr>"

definition attr_type :: "die_info \<Rightarrow> u32 \<Rightarrow> dwarf_off_ref" where
  "attr_type di attr_name = (case dwarf_attr di attr_name of
       None \<Rightarrow> null_ref
     | Some attr \<Rightarrow> (case da_ref attr of
           Some off \<Rightarrow> \<lparr> from_types = (da_form attr = DW_FORM_ref_sig8), ref_off = off \<rparr>
         | None \<Rightarrow> null_ref))"

definition attr_location :: "die_info \<Rightarrow> (u8 \<times> u64) list option" where
  "attr_location di = (case dwarf_attr di DW_AT_location of Some attr \<Rightarrow> da_ops attr | None \<Rightarrow> None)"

definition attr_upper_bound :: "die_info \<Rightarrow> u64" where
  "attr_upper_bound di = (case dwarf_attr di DW_AT_upper_bound of
       Some attr \<Rightarrow> (case da_udata attr of Some num \<Rightarrow> num + 1 | None \<Rightarrow> 0)
     | None \<Rightarrow> (case dwarf_attr di DW_AT_count of
           Some attr \<Rightarrow> (case da_udata attr of Some num \<Rightarrow> num | None \<Rightarrow> 0)
         | None \<Rightarrow> 0))"

definition dwarf__location :: "die_info \<Rightarrow> u64 \<Rightarrow> vlocation \<times> u64" where
  \<comment> \<open>the location and the address behind \<open>addr\<close>; the case labels leave \<open>DW_OP_reg0\<close> out\<close>
  "dwarf__location di addr = (case attr_location di of
       None \<Rightarrow> (LOCATION_OPTIMIZED, addr)
     | Some [] \<Rightarrow> (LOCATION_UNKNOWN, addr)
     | Some ((atom, number) # ops) \<Rightarrow>
         if atom = DW_OP_addr then (LOCATION_GLOBAL, number)
         else if (DW_OP_reg1 \<le> atom \<and> atom \<le> DW_OP_reg31) \<or> (DW_OP_breg0 \<le> atom \<and> atom \<le> DW_OP_breg31)
         then (LOCATION_REGISTER, addr)
         else if atom = DW_OP_fbreg then (LOCATION_LOCAL, addr)
         else (LOCATION_UNKNOWN, addr))"

section \<open>The reader inverts the encoding\<close>

fun uleb128 :: "nat \<Rightarrow> u8 list" where
  \<comment> \<open>the encoding of the DWARF standard: seven bits per byte, the lowest first\<close>
  "uleb128 n = (if n < 128 then [of_nat n] else of_nat (n mod 128 + 128) # uleb128 (n div 128))"

declare uleb128.simps [simp del]

lemma byte_bits:
  assumes "n < 128"
  shows "(of_nat n :: u8) AND 0x7f = of_nat n" and "(of_nat n :: u8) AND 0x80 = 0"
    and "(of_nat (n + 128) :: u8) AND 0x7f = of_nat n" and "(of_nat (n + 128) :: u8) AND 0x80 \<noteq> 0"
    and "ucast (of_nat n :: u8) = (of_nat n :: u64)"
proof -
  have mask: "(0x7f :: u8) = mask 7" by (simp add: mask_eq_exp_minus_1)
  have high: "(0x80 :: u8) = 2 ^ 7" by simp
  have u: "unat (of_nat n :: u8) = n" using assms by (simp add: unat_of_nat take_bit_eq_mod)
  have u': "unat (of_nat (n + 128) :: u8) = n + 128"
    using assms by (subst unat_of_nat) (simp add: take_bit_eq_mod)
  have low: "w AND 0x7f = of_nat n" if "unat w mod 128 = n" for w :: u8
    by (rule word_unat_eq_iff[THEN iffD2])
      (use that u in \<open>simp add: mask take_bit_eq_mask[symmetric] take_bit_eq_mod unat_mod\<close>)
  have bit7: "w AND 0x80 = 0 \<longleftrightarrow> even (unat w div 128)" for w :: u8
  proof -
    have "bit w 7 \<longleftrightarrow> bit (unat w) 7" by (simp add: bit_unsigned_iff)
    then show ?thesis unfolding high and_exp_eq_0_iff_not_bit by (simp add: bit_iff_odd[of "unat w"])
  qed
  show "(of_nat n :: u8) AND 0x7f = of_nat n" "(of_nat (n + 128) :: u8) AND 0x7f = of_nat n"
    by (rule low, simp only: u u', use assms in simp)+
  show "(of_nat n :: u8) AND 0x80 = 0" unfolding bit7 u using assms by simp
  show "(of_nat (n + 128) :: u8) AND 0x80 \<noteq> 0" unfolding bit7 u' using assms by (simp only: div_add_self2) simp
  show "ucast (of_nat n :: u8) = (of_nat n :: u64)"
    by (rule word_unat_eq_iff[THEN iffD2]) (use u assms in \<open>simp add: unsigned_ucast_eq unat_of_nat take_bit_eq_mod\<close>)
qed

lemma or_push_bit:
  assumes "a < 2 ^ k"
  shows "(of_nat a :: u64) OR push_bit k (of_nat m) = of_nat (a + m * 2 ^ k)"
proof -
  have "take_bit k a = a" using assms by (simp add: take_bit_eq_mod)
  then have "\<not> bit a j" if "k \<le> j" for j using that by (metis bit_take_bit_iff not_less)
  then have "a AND push_bit k m = 0" by (intro bit_eqI) (auto simp: bit_and_iff bit_push_bit_iff)
  then have "a + m * 2 ^ k = a OR push_bit k m"
    by (simp add: disjunctive_add_eq_or push_bit_eq_mult)
  then show ?thesis by (simp only: of_nat_or_eq push_bit_of_nat)
qed

lemma libdw_get_uleb128_last:
  "m < 128 \<Longrightarrow> i < 10 \<Longrightarrow>
   libdw_get_uleb128 acc i (of_nat m # bytes) = Inr (acc OR push_bit (i * 7) (of_nat m))"
  by (simp only: libdw_get_uleb128.simps byte_bits Let_def if_True simp_thms)

lemma libdw_get_uleb128_more:
  "m < 128 \<Longrightarrow> i < 10 \<Longrightarrow>
   libdw_get_uleb128 acc i (of_nat (m + 128) # bytes) =
   libdw_get_uleb128 (acc OR push_bit (i * 7) (of_nat m)) (i + 1) bytes"
  by (simp only: libdw_get_uleb128.simps byte_bits Let_def if_True if_False simp_thms)

lemma libdw_get_uleb128_encoding:
  "a < 2 ^ (7 * i) \<Longrightarrow> i < 10 \<Longrightarrow> a + n * 2 ^ (7 * i) < 2 ^ 64 \<Longrightarrow>
   libdw_get_uleb128 (of_nat a) i (uleb128 n @ rest) = Inr (of_nat (a + n * 2 ^ (7 * i)))"
proof (induction n arbitrary: a i rule: uleb128.induct)
  case (1 n)
  show ?case
  proof (cases "n < 128")
    case True
    then show ?thesis using 1(2,3)
      by (simp only: uleb128.simps[of n] if_True append_Cons append_Nil libdw_get_uleb128_last or_push_bit mult.commute[of i])
  next
    case False
    let ?m = "n mod 128"
    have eq: "a + ?m * 2 ^ (7 * i) + n div 128 * 2 ^ (7 * (i + 1)) = a + n * 2 ^ (7 * i)"
    proof -
      have "a + ?m * 2 ^ (7 * i) + n div 128 * 2 ^ (7 * (i + 1)) = a + (?m + n div 128 * 128) * 2 ^ (7 * i)"
        by (simp only: add_mult_distrib distrib_left power_add mult.assoc) simp
      then show ?thesis by (simp only: mod_div_mult_eq)
    qed
    have less: "a + ?m * 2 ^ (7 * i) < 2 ^ (7 * (i + 1))"
    proof -
      have "?m \<le> 127" using mod_less_divisor[of 128 n] by linarith
      then have "?m * 2 ^ (7 * i) \<le> 127 * 2 ^ (7 * i)" by (rule mult_le_mono1)
      moreover have "(2::nat) ^ (7 * (i + 1)) = 127 * 2 ^ (7 * i) + 2 ^ (7 * i)" by (simp add: power_add)
      ultimately show ?thesis using 1(2) by linarith
    qed
    have i: "i + 1 < 10"
    proof (rule ccontr)
      assume "\<not> i + 1 < 10"
      then have "(2::nat) ^ 64 \<le> 2 ^ (7 * (i + 1))" by (intro power_increasing) simp_all
      also have "\<dots> \<le> n div 128 * 2 ^ (7 * (i + 1))" using False by simp
      finally show False using 1(4) eq by simp
    qed
    have "libdw_get_uleb128 (of_nat (a + ?m * 2 ^ (7 * i))) (i + 1) (uleb128 (n div 128) @ rest) =
        Inr (of_nat (a + ?m * 2 ^ (7 * i) + n div 128 * 2 ^ (7 * (i + 1))))"
      using 1(1)[OF False less i] 1(4) eq by simp
    moreover have "uleb128 n @ rest = of_nat (?m + 128) # (uleb128 (n div 128) @ rest)"
      using False by (subst uleb128.simps) simp
    ultimately show ?thesis
      using 1(2,3) by (simp only: libdw_get_uleb128_more or_push_bit eq mult.commute[of i] mod_less_divisor zero_less_numeral)
  qed
qed

lemma get_uleb128_eq: "get_uleb128 bytes = libdw_get_uleb128 0 0 bytes"
  by (cases bytes) (simp_all add: get_uleb128_def Let_def)

lemma get_uleb128_encoding: "n < 2 ^ 64 \<Longrightarrow> get_uleb128 (uleb128 n @ rest) = Inr (of_nat n)"
  using libdw_get_uleb128_encoding[of 0 0 n rest] by (simp add: get_uleb128_eq)

end
