(* ===== verification/Dwarf_Store.thy ===== *)
theory Dwarf_Store
  imports Dwarf_Attr Dwarves_Class
begin

text \<open>
  The objects the loader builds (\<^verbatim>\<open>dwarf_loader.c\<close>). The loader links the tags of a compilation
  unit by pointers and changes them after it has linked them, so a tag is an object of a store and
  a pointer is its place there; the shadow record \<^verbatim>\<open>struct dwarf_tag\<close> of a tag, with the references
  between entries, is in a second store. The objects come from an obstack: an allocation succeeds
  or ends the process, and to free an object frees everything allocated after it. A field that
  a constructor leaves uninitialised holds what \<open>ls_stale\<close> says of that place. The two hash tables
  of a unit, its three pointer tables and the string table are part of the state.
  Messages on standard error are left out.
\<close>

section \<open>Objects\<close>

abbreviation DW_TAG_formal_parameter :: u16 where "DW_TAG_formal_parameter \<equiv> 5"
abbreviation DW_TAG_imported_declaration :: u16 where "DW_TAG_imported_declaration \<equiv> 8"
abbreviation DW_TAG_label :: u16 where "DW_TAG_label \<equiv> 10"
abbreviation DW_TAG_compile_unit :: u16 where "DW_TAG_compile_unit \<equiv> 17"
abbreviation DW_TAG_unspecified_parameters :: u16 where "DW_TAG_unspecified_parameters \<equiv> 24"
abbreviation DW_TAG_subrange_type :: u16 where "DW_TAG_subrange_type \<equiv> 33"
abbreviation DW_TAG_enumerator :: u16 where "DW_TAG_enumerator \<equiv> 40"
abbreviation DW_TAG_template_type_parameter :: u16 where "DW_TAG_template_type_parameter \<equiv> 47"
abbreviation DW_TAG_template_value_parameter :: u16 where "DW_TAG_template_value_parameter \<equiv> 48"
abbreviation DW_TAG_imported_module :: u16 where "DW_TAG_imported_module \<equiv> 58"
abbreviation DW_TAG_type_unit :: u16 where "DW_TAG_type_unit \<equiv> 65"
abbreviation DW_TAG_GNU_template_template_param :: u16 where "DW_TAG_GNU_template_template_param \<equiv> 0x4106"
abbreviation DW_TAG_GNU_template_parameter_pack :: u16 where "DW_TAG_GNU_template_parameter_pack \<equiv> 0x4107"
abbreviation DW_TAG_GNU_call_site :: u16 where "DW_TAG_GNU_call_site \<equiv> 0x4109"
abbreviation DW_TAG_GNU_call_site_parameter :: u16 where "DW_TAG_GNU_call_site_parameter \<equiv> 0x410a"

abbreviation DW_ATE_boolean :: u64 where "DW_ATE_boolean \<equiv> 2"
abbreviation DW_ATE_signed :: u64 where "DW_ATE_signed \<equiv> 5"

definition EINVAL :: int where
  "EINVAL = 22"

record dwarf_tag =
  dt_type :: dwarf_off_ref
  dt_id :: u64
  dt_origin :: dwarf_off_ref           \<comment> \<open>the union of \<open>abstract_origin\<close> and \<open>containing_type\<close>\<close>
  dt_spec :: "dwarf_off_ref option"    \<comment> \<open>behind the record, when it was allocated with it\<close>
  dt_tag :: nat
  dt_decl_file :: strings_t
  dt_decl_line :: u16
  dt_small_id :: u16

record o_ftype =
  of_parms :: "nat list"
  of_nr_parms :: u16
  of_unspec_parms :: bool

record function_attrs =
  fa_inlined :: u8
  fa_abstract_origin :: bool
  fa_external :: bool
  fa_accessibility :: u8
  fa_virtuality :: u8
  fa_vtable_entry :: int

datatype obj_body =
    O_Plain
  | O_Base base_type
  | O_Array array_type
  | O_Ptr_To_Member u16
  | O_Ftype o_ftype
  | O_Type type_fields "nat list"
  | O_Class type_fields class_fields "nat list" "nat list"   \<comment> \<open>the tags and the entries of the \<open>vtable\<close>\<close>
  | O_Namespace namespace "nat list"
  | O_Member class_member u64 u8                             \<comment> \<open>with \<open>const_value\<close> and \<open>accessibility\<close>\<close>
  | O_Enumerator strings_t u32
  | O_Parameter strings_t
  | O_Variable variable
  | O_Label u64 strings_t
  | O_Inline u64 u64
  | O_Lexblock lexblock "nat list"
  | O_Function o_ftype lexblock "nat list" function_fields function_attrs

record obj =
  o_type :: u16
  o_tag :: u16
  o_top_level :: bool
  o_priv :: "nat option"
  o_body :: obj_body

datatype type_unit =
    No_Type_Unit
  | Own_Type_Unit
  | Other_Type_Unit "nat list list"

record lst =
  ls_objs :: "obj list"
  ls_dtags :: "dwarf_tag list"
  ls_strings :: strings
  ls_tags_warned :: "bool list"
  ls_gnu_tags_warned :: "bool list"
  ls_last_decl_file :: "nat option"
  ls_last_decl_file_idx :: strings_t
  ls_hash_tags :: "nat list list"
  ls_hash_types :: "nat list list"
  ls_type_unit :: type_unit
  ls_types_table :: "nat ptr_table"
  ls_functions_table :: "nat ptr_table"
  ls_tags_table :: "nat ptr_table"
  ls_tags :: "nat list"
  ls_functions :: "nat list"          \<comment> \<open>the red-black tree of the functions, in order\<close>
  ls_name :: string
  ls_addr_size :: u8
  ls_language :: u16
  ls_extra_dbg_info :: bool
  ls_has_addr_info :: bool
  ls_table_alloc :: "u32 \<Rightarrow> bool"
  ls_string_alloc :: "u32 \<Rightarrow> bool"
  ls_node_alloc :: bool
  ls_stale :: "nat \<Rightarrow> u64"
  ls_stray :: "nat \<Rightarrow> string option"

type_synonym 'a lm = "lst \<Rightarrow> ('a \<times> lst) res"

definition bindL :: "'a lm \<Rightarrow> ('a \<Rightarrow> 'b lm) \<Rightarrow> 'b lm" where
  "bindL m f s = bindE (m s) (\<lambda>(x, s1). f x s1)"

abbreviation retL :: "'a \<Rightarrow> 'a lm" where
  "retL x \<equiv> \<lambda>s. Inr (x, s)"

abbreviation failL :: "string \<Rightarrow> 'a lm" where
  "failL e \<equiv> \<lambda>s. ub e"

lemma bindL_Inr_iff [res_simps]:
  "bindL m f s = Inr y \<longleftrightarrow> (\<exists>x s1. m s = Inr (x, s1) \<and> f x s1 = Inr y)"
  by (auto simp: bindL_def res_simps)

definition get_obj :: "nat \<Rightarrow> obj lm" where
  \<comment> \<open>a read through a pointer to a tag\<close>
  "get_obj a s = (if a < length (ls_objs s) then Inr (ls_objs s ! a, s) else ub ''pointer to freed memory'')"

definition set_obj :: "nat \<Rightarrow> obj \<Rightarrow> unit lm" where
  "set_obj a ob s = (if a < length (ls_objs s) then Inr ((), s \<lparr> ls_objs := (ls_objs s)[a := ob] \<rparr>)
     else ub ''pointer to freed memory'')"

definition get_dtag :: "nat \<Rightarrow> dwarf_tag lm" where
  "get_dtag d s = (if d < length (ls_dtags s) then Inr (ls_dtags s ! d, s) else ub ''pointer to freed memory'')"

definition set_dtag :: "nat \<Rightarrow> dwarf_tag \<Rightarrow> unit lm" where
  "set_dtag d dt s = (if d < length (ls_dtags s) then Inr ((), s \<lparr> ls_dtags := (ls_dtags s)[d := dt] \<rparr>)
     else ub ''pointer to freed memory'')"

definition priv :: "nat \<Rightarrow> (nat \<times> dwarf_tag) lm" where
  \<comment> \<open>\<open>tag->priv\<close> used as a pointer to a \<open>struct dwarf_tag\<close>\<close>
  "priv a = bindL (get_obj a) (\<lambda>ob. case o_priv ob of
       None \<Rightarrow> failL ''null pointer''
     | Some d \<Rightarrow> bindL (get_dtag d) (\<lambda>dt. retL (d, dt)))"

definition obj_head :: "obj \<Rightarrow> tag" where
  \<comment> \<open>the common head of an object, all that the predicates on tags read\<close>
  "obj_head ob = Tag 0 (o_type ob) (o_tag ob) Plain_Body"

definition obstack_free :: "nat \<Rightarrow> unit lm" where
  "obstack_free a s = (if a \<le> length (ls_objs s) then Inr ((), s \<lparr> ls_objs := take a (ls_objs s) \<rparr>)
     else ub ''obstack_free of a pointer not in the obstack'')"

section \<open>References\<close>

definition dwarf_tag__spec :: "dwarf_tag \<Rightarrow> dwarf_off_ref res" where
  "dwarf_tag__spec dt = (case dt_spec dt of Some spec \<Rightarrow> Inr spec | None \<Rightarrow> ub ''read behind a dwarf_tag'')"

definition dwarf_tag__set_spec :: "dwarf_off_ref \<Rightarrow> dwarf_tag \<Rightarrow> dwarf_tag res" where
  "dwarf_tag__set_spec spec dt =
     (case dt_spec dt of Some old \<Rightarrow> Inr (dt \<lparr> dt_spec := Some spec \<rparr>) | None \<Rightarrow> ub ''write behind a dwarf_tag'')"

definition HASHTAGS__BITS :: nat where
  "HASHTAGS__BITS = 8"

definition hashtags__fn :: "u64 \<Rightarrow> u64 res" where
  "hashtags__fn key = hash_64 key HASHTAGS__BITS"

definition hashtags__hash :: "nat \<Rightarrow> u64 \<Rightarrow> nat list list \<Rightarrow> nat list list res" where
  \<comment> \<open>the record at \<open>d\<close> with this id becomes the head of its bucket\<close>
  "hashtags__hash d i hashtable = bindE (hashtags__fn i) (\<lambda>h.
     if unat h < length hashtable then Inr (hashtable[unat h := d # hashtable ! unat h])
     else ub ''write behind the hash table'')"

fun hashtags_search :: "dwarf_tag list \<Rightarrow> u64 \<Rightarrow> nat list \<Rightarrow> nat option res" where
  "hashtags_search dtags i [] = Inr None"
| "hashtags_search dtags i (tpos # bucket) =
     (if tpos < length dtags
      then if dt_id (dtags ! tpos) = i then Inr (Some tpos) else hashtags_search dtags i bucket
      else ub ''pointer to freed memory'')"

definition hashtags__find :: "dwarf_tag list \<Rightarrow> nat list list \<Rightarrow> u64 \<Rightarrow> nat option res" where
  "hashtags__find dtags hashtable i =
     (if i = 0 then Inr None
      else bindE (hashtags__fn i) (\<lambda>h.
        let bucket = (ucast h :: u16) in
        if unat bucket < length hashtable then hashtags_search dtags i (hashtable ! unat bucket)
        else ub ''read behind the hash table''))"

definition cu__hash :: "nat \<Rightarrow> unit lm" where
  "cu__hash a = bindL (get_obj a) (\<lambda>ob. bindL (priv a) (\<lambda>(d, dt) s.
     if tag__is_tag_type (obj_head ob)
     then bindE (hashtags__hash d (dt_id dt) (ls_hash_types s)) (\<lambda>h. Inr ((), s \<lparr> ls_hash_types := h \<rparr>))
     else bindE (hashtags__hash d (dt_id dt) (ls_hash_tags s)) (\<lambda>h. Inr ((), s \<lparr> ls_hash_tags := h \<rparr>))))"

definition dwarf_cu__find_tag_by_ref :: "dwarf_off_ref \<Rightarrow> lst \<Rightarrow> nat option res" where
  "dwarf_cu__find_tag_by_ref ref s =
     (if from_types ref then Inr None else hashtags__find (ls_dtags s) (ls_hash_tags s) (ref_off ref))"

definition dwarf_cu__find_type_by_ref :: "dwarf_off_ref \<Rightarrow> lst \<Rightarrow> nat option res" where
  "dwarf_cu__find_type_by_ref ref s =
     (if from_types ref
      then (case ls_type_unit s of
          No_Type_Unit \<Rightarrow> Inr None
        | Own_Type_Unit \<Rightarrow> hashtags__find (ls_dtags s) (ls_hash_types s) (ref_off ref)
        | Other_Type_Unit hash_types \<Rightarrow> hashtags__find (ls_dtags s) hash_types (ref_off ref))
      else hashtags__find (ls_dtags s) (ls_hash_types s) (ref_off ref))"

section \<open>Unsupported tags\<close>

definition tag__print_not_supported :: "u16 \<Rightarrow> unit lm" where
  \<comment> \<open>the arrays of warnings already given have 66 and 135 elements\<close>
  "tag__print_not_supported tag s =
     (if tag < DW_TAG_MIPS_loop
      then if unat tag < length (ls_tags_warned s)
           then Inr ((), s \<lparr> ls_tags_warned := (ls_tags_warned s)[unat tag := True] \<rparr>)
           else ub ''dwarf_tags_warned''
      else let t = tag - DW_TAG_MIPS_loop in
           if unat t < length (ls_gnu_tags_warned s)
           then Inr ((), s \<lparr> ls_gnu_tags_warned := (ls_gnu_tags_warned s)[unat t := True] \<rparr>)
           else ub ''dwarf_gnu_tags_warned'')"

section \<open>Constructors\<close>

definition add_string :: "string option \<Rightarrow> strings_t lm" where
  \<comment> \<open>\<open>strings__add(strings, ...)\<close> on the table of the process\<close>
  "add_string str s = bindE (strings__add (ls_string_alloc s) (ls_node_alloc s) str (ls_strings s)) (\<lambda>(i, strs).
     Inr (i, s \<lparr> ls_strings := strs \<rparr>))"

definition tag__alloc :: "bool \<Rightarrow> nat lm" where
  \<comment> \<open>\<open>__tag__alloc\<close>; the fields behind the head are written by the constructors\<close>
  "tag__alloc spec s =
     (let a = length (ls_objs s); d = length (ls_dtags s);
          dtag = \<lparr> dt_type = null_ref, dt_id = 0, dt_origin = null_ref,
            dt_spec = (if spec then Some null_ref else None), dt_tag = a, dt_decl_file = 0,
            dt_decl_line = 0, dt_small_id = 0 \<rparr>;
          tag = \<lparr> o_type = 0, o_tag = 0, o_top_level = False, o_priv = Some d, o_body = O_Plain \<rparr>
      in Inr (a, s \<lparr> ls_dtags := ls_dtags s @ [dtag], ls_objs := ls_objs s @ [tag] \<rparr>))"

definition set_body :: "nat \<Rightarrow> obj_body \<Rightarrow> unit lm" where
  "set_body a b = bindL (get_obj a) (\<lambda>ob. set_obj a (ob \<lparr> o_body := b \<rparr>))"

definition decl_info :: "die_info \<Rightarrow> (strings_t \<times> u16) lm" where
  \<comment> \<open>the file is looked up again only when its name is at another address than the last one\<close>
  "decl_info di s =
     (let decl_file = map_option fst (di_decl_file di) in
      bindE (if decl_file \<noteq> ls_last_decl_file s
             then bindE (add_string (map_option snd (di_decl_file di)) s) (\<lambda>(i, s1).
               Inr (s1 \<lparr> ls_last_decl_file_idx := i, ls_last_decl_file := decl_file \<rparr>))
             else Inr s) (\<lambda>s2.
        Inr ((ls_last_decl_file_idx s2, ucast (di_decl_line di)), s2)))"

definition tag__init :: "nat \<Rightarrow> die_info \<Rightarrow> unit lm" where
  "tag__init a di =
     bindL (priv a) (\<lambda>(d, dt).
     bindL (get_obj a) (\<lambda>ob.
     bindL (set_obj a (ob \<lparr> o_tag := di_tag di \<rparr>)) (\<lambda>_.
     bindL (set_dtag d (dt \<lparr> dt_id := di_offset di,
         dt_type := attr_type di (if di_tag di = DW_TAG_imported_module \<or> di_tag di = DW_TAG_imported_declaration
           then DW_AT_import else DW_AT_type),
         dt_origin := attr_type di DW_AT_abstract_origin \<rparr>)) (\<lambda>_ s.
     if ls_extra_dbg_info s
     then bindL (decl_info di) (\<lambda>(decl_file, decl_line).
       bindL (get_dtag d) (\<lambda>dt1. set_dtag d (dt1 \<lparr> dt_decl_file := decl_file, dt_decl_line := decl_line \<rparr>))) s
     else Inr ((), s)))))"

definition new_tag :: "bool \<Rightarrow> die_info \<Rightarrow> nat lm" where
  \<comment> \<open>the first steps of every constructor\<close>
  "new_tag spec di = bindL (tag__alloc spec) (\<lambda>a. bindL (tag__init a di) (\<lambda>_. retL a))"

definition tag__new :: "die_info \<Rightarrow> nat lm" where
  "tag__new di = new_tag False di"

definition ptr_to_member_type__new :: "die_info \<Rightarrow> nat lm" where
  "ptr_to_member_type__new di =
     bindL (new_tag False di) (\<lambda>a.
     bindL (\<lambda>s. set_body a (O_Ptr_To_Member (ucast (ls_stale s a))) s) (\<lambda>_.
     bindL (priv a) (\<lambda>(d, dt).
     bindL (set_dtag d (dt \<lparr> dt_origin := attr_type di DW_AT_containing_type \<rparr>)) (\<lambda>_. retL a))))"

definition base_type__new :: "die_info \<Rightarrow> nat lm" where
  "base_type__new di =
     bindL (new_tag False di) (\<lambda>a.
     bindL (add_string (attr_string di DW_AT_name)) (\<lambda>name.
     bindL (\<lambda>s. set_body a (O_Base \<lparr> bt_name = name,
         bt_bit_size = ucast (attr_numeric di DW_AT_byte_size * 8),
         bt_name_has_encoding = True,
         bt_is_signed = (attr_numeric di DW_AT_encoding = DW_ATE_signed),
         bt_is_bool = (attr_numeric di DW_AT_encoding = DW_ATE_boolean),
         bt_is_varargs = False,
         bt_float_type = unat (ls_stale s a) mod 16 \<rparr>) s) (\<lambda>_. retL a)))"

definition array_type__new :: "die_info \<Rightarrow> nat lm" where
  "array_type__new di =
     bindL (new_tag False di) (\<lambda>a.
     bindL (set_body a (O_Array \<lparr> at_nr_entries = [], at_dimensions = 0,
         at_is_vector = dwarf_hasattr di DW_AT_GNU_vector \<rparr>)) (\<lambda>_. retL a))"

definition namespace__init :: "die_info \<Rightarrow> namespace lm" where
  \<comment> \<open>behind \<open>tag__init\<close>\<close>
  "namespace__init di = bindL (add_string (attr_string di DW_AT_name)) (\<lambda>name.
     retL \<lparr> ns_name = name, ns_nr_tags = 0, ns_shared_tags = False, ns_sname = None \<rparr>)"

definition namespace__new :: "die_info \<Rightarrow> nat lm" where
  "namespace__new di =
     bindL (new_tag False di) (\<lambda>a.
     bindL (namespace__init di) (\<lambda>ns.
     bindL (set_body a (O_Namespace ns [])) (\<lambda>_. retL a)))"

definition type__init :: "nat \<Rightarrow> die_info \<Rightarrow> type_fields lm" where
  "type__init a di =
     bindL (namespace__init di) (\<lambda>ns.
     bindL (priv a) (\<lambda>(d, dt).
     bindL (\<lambda>s. bindE (dwarf_tag__set_spec (attr_type di DW_AT_specification) dt) (\<lambda>dt1. set_dtag d dt1 s)) (\<lambda>_.
     retL \<lparr> ty_namespace = ns, ty_size = ucast (attr_numeric di DW_AT_byte_size), ty_nr_static_members = 0,
       ty_nr_members = 0, ty_declaration = ((ucast (attr_numeric di DW_AT_declaration) :: u8) \<noteq> 0) \<rparr>)))"

definition type__new :: "die_info \<Rightarrow> nat lm" where
  "type__new di =
     bindL (new_tag True di) (\<lambda>a.
     bindL (type__init a di) (\<lambda>ty.
     bindL (set_body a (O_Type ty [])) (\<lambda>_. retL a)))"

definition class__new :: "die_info \<Rightarrow> nat lm" where
  "class__new di =
     bindL (new_tag True di) (\<lambda>a.
     bindL (type__init a di) (\<lambda>ty.
     bindL (set_body a (O_Class ty \<lparr> cl_nr_vtable_entries = 0, cl_nr_holes = 0, cl_nr_bit_holes = 0,
         cl_padding = 0, cl_bit_padding = 0 \<rparr> [] [])) (\<lambda>_. retL a)))"

definition enumerator__new :: "die_info \<Rightarrow> nat lm" where
  "enumerator__new di =
     bindL (new_tag False di) (\<lambda>a.
     bindL (add_string (attr_string di DW_AT_name)) (\<lambda>name.
     bindL (set_body a (O_Enumerator name (ucast (attr_numeric di DW_AT_const_value)))) (\<lambda>_. retL a)))"

definition variable__new :: "die_info \<Rightarrow> nat lm" where
  "variable__new di =
     bindL (new_tag False di) (\<lambda>a.
     bindL (add_string (attr_string di DW_AT_name)) (\<lambda>name.
     bindL (\<lambda>s.
       let declaration = dwarf_hasattr di DW_AT_declaration;
           (location, addr) = (if \<not> declaration \<and> ls_has_addr_info s then dwarf__location di 0 else (LOCATION_UNKNOWN, 0))
       in set_body a (O_Variable \<lparr> va_addr = addr, va_name = name, va_external = dwarf_hasattr di DW_AT_external,
            va_declaration = declaration, va_location = location \<rparr>) s) (\<lambda>_. retL a)))"

definition class_member__new :: "die_info \<Rightarrow> bool \<Rightarrow> nat lm" where
  "class_member__new di in_union =
     bindL (new_tag False di) (\<lambda>a.
     bindL (add_string (attr_string di DW_AT_name)) (\<lambda>name s.
       bindE (attr_offset di DW_AT_data_member_location) (\<lambda>off.
       let byte_offset = (ucast off :: u32);
           bitfield_offset = (ucast (attr_numeric di DW_AT_bit_offset) :: u8)
       in bindL (set_body a (O_Member \<lparr> cm_name = name,
            cm_bit_offset = byte_offset * 8 + ucast bitfield_offset,
            cm_bit_size = ucast (ls_stale s a), cm_byte_offset = byte_offset, cm_byte_size = 0,
            cm_bitfield_offset = bitfield_offset, cm_bitfield_size = ucast (attr_numeric di DW_AT_bit_size),
            cm_bit_hole = 0, cm_bitfield_end = False,
            cm_is_static = (\<not> in_union \<and> \<not> dwarf_hasattr di DW_AT_data_member_location),
            cm_virtuality = ucast (attr_numeric di DW_AT_virtuality) AND 3, cm_hole = 0 \<rparr>
          (attr_numeric di DW_AT_const_value) (ucast (attr_numeric di DW_AT_accessibility) AND 3)))
          (\<lambda>_. retL a) s)))"

definition parameter__new :: "die_info \<Rightarrow> nat lm" where
  "parameter__new di =
     bindL (new_tag False di) (\<lambda>a.
     bindL (add_string (attr_string di DW_AT_name)) (\<lambda>name.
     bindL (set_body a (O_Parameter name)) (\<lambda>_. retL a)))"

fun ranges_loop :: "(u64 \<times> u64) list \<Rightarrow> u64 \<Rightarrow> u64 \<Rightarrow> u64 \<times> u64" where
  "ranges_loop [] addr sz = (addr, sz)"
| "ranges_loop ((start, high_pc) # ranges) addr sz =
     ranges_loop ranges (if addr = 0 then start else addr) (sz + (high_pc - start))"

definition inline_expansion__new :: "die_info \<Rightarrow> nat lm" where
  \<comment> \<open>\<open>high_pc\<close> is read with \<open>dwarf_lowpc\<close> too, so the ranges are always walked\<close>
  "inline_expansion__new di =
     bindL (new_tag False di) (\<lambda>a.
     bindL (add_string (attr_string di DW_AT_call_file)) (\<lambda>decl_file.
     bindL (priv a) (\<lambda>(d, dt).
     bindL (set_dtag d (dt \<lparr> dt_decl_file := decl_file, dt_decl_line := ucast (attr_numeric di DW_AT_call_line),
         dt_type := attr_type di DW_AT_abstract_origin \<rparr>)) (\<lambda>_.
     bindL (\<lambda>s.
       if \<not> ls_has_addr_info s then set_body a (O_Inline 0 (ls_stale s a)) s
       else let addr = (case di_lowpc di of Some pc \<Rightarrow> pc | None \<Rightarrow> 0);
                high_pc = (case di_lowpc di of Some pc \<Rightarrow> pc | None \<Rightarrow> 0);
                sz = high_pc - addr;
                (addr1, sz1) = (if sz = 0 then ranges_loop (di_ranges di) addr sz else (addr, sz))
            in set_body a (O_Inline addr1 sz1) s) (\<lambda>_. retL a)))))"

definition label__new :: "die_info \<Rightarrow> nat lm" where
  "label__new di =
     bindL (new_tag False di) (\<lambda>a.
     bindL (add_string (attr_string di DW_AT_name)) (\<lambda>name.
     bindL (\<lambda>s. set_body a (O_Label
         (if ls_has_addr_info s then (case di_lowpc di of Some pc \<Rightarrow> pc | None \<Rightarrow> 0) else 0) name) s) (\<lambda>_. retL a)))"

definition lexblock__init :: "die_info \<Rightarrow> lexblock lm" where
  "lexblock__init di s =
     (let (addr, sz) = (case (ls_has_addr_info s, di_lowpc di) of
            (True, Some pc) \<Rightarrow> (case di_highpc di of Some high_pc \<Rightarrow> (pc, ucast (high_pc - pc)) | None \<Rightarrow> (pc, 0))
          | _ \<Rightarrow> (0, 0))
      in Inr (\<lparr> lb_addr = addr, lb_size = sz, lb_nr_inline_expansions = 0, lb_nr_labels = 0,
         lb_nr_variables = 0, lb_nr_lexblocks = 0, lb_size_inline_expansions = 0 \<rparr>, s))"

definition lexblock__new :: "die_info \<Rightarrow> nat lm" where
  "lexblock__new di =
     bindL (new_tag False di) (\<lambda>a.
     bindL (lexblock__init di) (\<lambda>lb.
     bindL (set_body a (O_Lexblock lb [])) (\<lambda>_. retL a)))"

definition ftype__init :: "die_info \<Rightarrow> o_ftype lm" where
  "ftype__init di s =
     (if di_tag di = DW_TAG_subprogram \<or> di_tag di = DW_TAG_subroutine_type
      then Inr (\<lparr> of_parms = [], of_nr_parms = 0, of_unspec_parms = False \<rparr>, s)
      else Inl (Aborted ''ftype__init''))"

definition ftype__new :: "die_info \<Rightarrow> nat lm" where
  "ftype__new di =
     bindL (tag__alloc False) (\<lambda>a.
     bindL (ftype__init di) (\<lambda>ft.
     bindL (tag__init a di) (\<lambda>_.
     bindL (set_body a (O_Ftype ft)) (\<lambda>_. retL a))))"

definition function__new :: "die_info \<Rightarrow> nat lm" where
  "function__new di =
     bindL (tag__alloc True) (\<lambda>a.
     bindL (ftype__init di) (\<lambda>ft.
     bindL (tag__init a di) (\<lambda>_.
     bindL (lexblock__init di) (\<lambda>lb.
     bindL (add_string (attr_string di DW_AT_name)) (\<lambda>name.
     bindL (add_string (attr_string di DW_AT_MIPS_linkage_name)) (\<lambda>linkage_name.
     bindL (priv a) (\<lambda>(d, dt).
     bindL (\<lambda>s. bindE (dwarf_tag__set_spec (attr_type di DW_AT_specification) dt) (\<lambda>dt1. set_dtag d dt1 s)) (\<lambda>_ s.
       bindE (if dwarf_hasattr di DW_AT_vtable_elem_location
              then bindE (attr_offset di DW_AT_vtable_elem_location) (\<lambda>off. Inr (sint (ucast off :: u32)))
              else Inr (- 1)) (\<lambda>vtable_entry.
       bindL (set_body a (O_Function ft lb []
           \<lparr> fn_name = name, fn_linkage_name = linkage_name, fn_cu_total_size_inline_expansions = 0,
             fn_cu_total_nr_inline_expansions = 0 \<rparr>
           \<lparr> fa_inlined = ucast (attr_numeric di DW_AT_inline) AND 3,
             fa_abstract_origin = dwarf_hasattr di DW_AT_abstract_origin,
             fa_external = dwarf_hasattr di DW_AT_external,
             fa_accessibility = ucast (attr_numeric di DW_AT_accessibility) AND 3,
             fa_virtuality = ucast (attr_numeric di DW_AT_virtuality) AND 3,
             fa_vtable_entry = vtable_entry \<rparr>)) (\<lambda>_. retL a) s)))))))))"

end
