(* ===== verification/Dwarf_Process.thy ===== *)
theory Dwarf_Process
  imports Dwarf_Store
begin

text \<open>
  From debugging information entries to tags (the \<^verbatim>\<open>die__\<close> functions of \<^verbatim>\<open>dwarf_loader.c\<close> and what
  they use of \<^verbatim>\<open>dwarves.c\<close>): the entry is visited with its children, its object is built, linked
  into its parent, entered in one of the three tables of the unit and in a hash table. The routines
  call each other along the tree of entries; a routine that loops over the children gets them
  with the calls it may make on each (\<open>child\<close>), and \<open>visit\<close> ties these calls to the entry.
\<close>

section \<open>Tables\<close>

datatype table = Types_Table | Functions_Table | Tags_Table

definition get_table :: "table \<Rightarrow> lst \<Rightarrow> nat ptr_table" where
  "get_table t s = (case t of
       Types_Table \<Rightarrow> ls_types_table s
     | Functions_Table \<Rightarrow> ls_functions_table s
     | Tags_Table \<Rightarrow> ls_tags_table s)"

definition put_table :: "table \<Rightarrow> nat ptr_table \<Rightarrow> lst \<Rightarrow> lst" where
  "put_table t pt s = (case t of
       Types_Table \<Rightarrow> s \<lparr> ls_types_table := pt \<rparr>
     | Functions_Table \<Rightarrow> s \<lparr> ls_functions_table := pt \<rparr>
     | Tags_Table \<Rightarrow> s \<lparr> ls_tags_table := pt \<rparr>)"

definition table_of :: "obj \<Rightarrow> table" where
  "table_of ob = (if tag__is_tag_type (obj_head ob) then Types_Table
     else if tag__is_function (obj_head ob) then Functions_Table else Tags_Table)"

fun insert_function :: "obj list \<Rightarrow> nat \<Rightarrow> u64 \<Rightarrow> nat list \<Rightarrow> nat list res" where
  \<comment> \<open>the place in the order of the tree: behind the functions that do not start later\<close>
  "insert_function objs a addr [] = Inr [a]"
| "insert_function objs a addr (f # fs) =
     (if f < length objs
      then (case o_body (objs ! f) of
          O_Function ft lb ts fn fa \<Rightarrow>
            if addr < lb_addr lb then Inr (a # f # fs)
            else bindE (insert_function objs a addr fs) (\<lambda>r. Inr (f # r))
        | _ \<Rightarrow> ub ''tag__function'')
      else ub ''pointer to freed memory'')"

definition cu__insert_function :: "nat \<Rightarrow> unit lm" where
  "cu__insert_function a = bindL (get_obj a) (\<lambda>ob s. case o_body ob of
       O_Function ft lb ts fn fa \<Rightarrow>
         bindE (insert_function (ls_objs s) a (lb_addr lb) (ls_functions s)) (\<lambda>fs.
           Inr ((), s \<lparr> ls_functions := fs \<rparr>))
     | _ \<Rightarrow> ub ''tag__function'')"

definition table_add :: "table \<Rightarrow> nat \<Rightarrow> int \<Rightarrow> (int \<times> int) lm" where
  "table_add t a i s =
     (if i < 0
      then bindE (ptr_table__add (ls_table_alloc s) (Some a) (get_table t s)) (\<lambda>(rc, pt).
        Inr ((if rc < 0 then - ENOMEM else 0, rc), put_table t pt s))
      else bindE (ptr_table__add_with_id (ls_table_alloc s) (Some a) (word_of_int i) (get_table t s)) (\<lambda>(rc, pt).
        Inr ((if rc < 0 then - ENOMEM else 0, i), put_table t pt s)))"

definition cu__table_add_tag :: "nat \<Rightarrow> int \<Rightarrow> (int \<times> int) lm" where
  \<comment> \<open>the error and the value behind \<open>id\<close>\<close>
  "cu__table_add_tag a i = bindL (get_obj a) (\<lambda>ob.
     bindL (if table_of ob = Functions_Table then cu__insert_function a else retL ()) (\<lambda>_.
       table_add (table_of ob) a i))"

definition cu__add_tag :: "nat \<Rightarrow> int \<Rightarrow> (int \<times> int) lm" where
  "cu__add_tag a i = bindL (cu__table_add_tag a i) (\<lambda>(err, i1) s.
     Inr ((err, i1), if err = 0 then s \<lparr> ls_tags := ls_tags s @ [a] \<rparr> else s))"

definition set_small_id :: "nat \<Rightarrow> int \<Rightarrow> unit lm" where
  \<comment> \<open>\<open>dtag->small_id = id\<close>\<close>
  "set_small_id a i = bindL (priv a) (\<lambda>(d, dt). set_dtag d (dt \<lparr> dt_small_id := word_of_int i \<rparr>))"

definition cu__is_c_plus_plus :: "lst \<Rightarrow> bool" where
  "cu__is_c_plus_plus s \<longleftrightarrow> ls_language s = DW_LANG_C_plus_plus"

section \<open>Links\<close>

definition o_namespace__add_tag :: "nat \<Rightarrow> nat \<Rightarrow> unit lm" where
  "o_namespace__add_tag a t = bindL (get_obj a) (\<lambda>ob. case o_body ob of
       O_Namespace ns ts \<Rightarrow> set_body a (O_Namespace (ns \<lparr> ns_nr_tags := ns_nr_tags ns + 1 \<rparr>) (ts @ [t]))
     | O_Type ty ts \<Rightarrow>
         set_body a (O_Type (ty \<lparr> ty_namespace := (ty_namespace ty) \<lparr> ns_nr_tags := ns_nr_tags (ty_namespace ty) + 1 \<rparr> \<rparr>)
           (ts @ [t]))
     | O_Class ty cl ts vt \<Rightarrow>
         set_body a (O_Class (ty \<lparr> ty_namespace := (ty_namespace ty) \<lparr> ns_nr_tags := ns_nr_tags (ty_namespace ty) + 1 \<rparr> \<rparr>)
           cl (ts @ [t]) vt)
     | _ \<Rightarrow> failL ''tag__namespace'')"

definition map_type_fields :: "(type_fields \<Rightarrow> type_fields) \<Rightarrow> nat \<Rightarrow> unit lm" where
  "map_type_fields f a = bindL (get_obj a) (\<lambda>ob. case o_body ob of
       O_Type ty ts \<Rightarrow> set_body a (O_Type (f ty) ts)
     | O_Class ty cl ts vt \<Rightarrow> set_body a (O_Class (f ty) cl ts vt)
     | _ \<Rightarrow> failL ''tag__type'')"

definition o_type__add_member :: "nat \<Rightarrow> nat \<Rightarrow> unit lm" where
  "o_type__add_member a m = bindL (get_obj m) (\<lambda>ob. case o_body ob of
       O_Member cm cv acc \<Rightarrow>
         bindL (map_type_fields (\<lambda>ty.
             if cm_is_static cm then ty \<lparr> ty_nr_static_members := ty_nr_static_members ty + 1 \<rparr>
             else ty \<lparr> ty_nr_members := ty_nr_members ty + 1 \<rparr>) a) (\<lambda>_. o_namespace__add_tag a m)
     | _ \<Rightarrow> failL ''tag__class_member'')"

definition o_enumeration__add :: "nat \<Rightarrow> nat \<Rightarrow> unit lm" where
  "o_enumeration__add a e =
     bindL (map_type_fields (\<lambda>ty. ty \<lparr> ty_nr_members := ty_nr_members ty + 1 \<rparr>) a) (\<lambda>_. o_namespace__add_tag a e)"

definition class__add_vtable_entry :: "nat \<Rightarrow> nat \<Rightarrow> unit lm" where
  "class__add_vtable_entry a f = bindL (get_obj a) (\<lambda>ob. case o_body ob of
       O_Class ty cl ts vt \<Rightarrow>
         set_body a (O_Class ty (cl \<lparr> cl_nr_vtable_entries := cl_nr_vtable_entries cl + 1 \<rparr>) ts (vt @ [f]))
     | _ \<Rightarrow> failL ''type__class'')"

definition map_ftype :: "(o_ftype \<Rightarrow> o_ftype) \<Rightarrow> nat \<Rightarrow> unit lm" where
  "map_ftype f a = bindL (get_obj a) (\<lambda>ob. case o_body ob of
       O_Ftype ft \<Rightarrow> set_body a (O_Ftype (f ft))
     | O_Function ft lb ts fn fa \<Rightarrow> set_body a (O_Function (f ft) lb ts fn fa)
     | _ \<Rightarrow> failL ''tag__ftype'')"

definition o_ftype__add_parameter :: "nat \<Rightarrow> nat \<Rightarrow> unit lm" where
  "o_ftype__add_parameter a p =
     map_ftype (\<lambda>ft. ft \<lparr> of_nr_parms := of_nr_parms ft + 1, of_parms := of_parms ft @ [p] \<rparr>) a"

definition map_lexblock :: "(lexblock \<Rightarrow> lexblock) \<Rightarrow> nat \<Rightarrow> nat \<Rightarrow> unit lm" where
  \<comment> \<open>a change of the counts of a block, and a tag at the end of its list\<close>
  "map_lexblock f a t = bindL (get_obj a) (\<lambda>ob. case o_body ob of
       O_Lexblock lb ts \<Rightarrow> set_body a (O_Lexblock (f lb) (ts @ [t]))
     | O_Function ft lb ts fn fa \<Rightarrow> set_body a (O_Function ft (f lb) (ts @ [t]) fn fa)
     | _ \<Rightarrow> failL ''tag__lexblock'')"

definition o_lexblock__add_tag :: "nat \<Rightarrow> nat \<Rightarrow> unit lm" where
  "o_lexblock__add_tag a t = map_lexblock (\<lambda>lb. lb) a t"

definition o_lexblock__add_lexblock :: "nat \<Rightarrow> nat \<Rightarrow> unit lm" where
  "o_lexblock__add_lexblock a t = map_lexblock (\<lambda>lb. lb \<lparr> lb_nr_lexblocks := lb_nr_lexblocks lb + 1 \<rparr>) a t"

definition o_lexblock__add_variable :: "nat \<Rightarrow> nat \<Rightarrow> unit lm" where
  "o_lexblock__add_variable a t = map_lexblock (\<lambda>lb. lb \<lparr> lb_nr_variables := lb_nr_variables lb + 1 \<rparr>) a t"

definition o_lexblock__add_label :: "nat \<Rightarrow> nat \<Rightarrow> unit lm" where
  "o_lexblock__add_label a t = map_lexblock (\<lambda>lb. lb \<lparr> lb_nr_labels := lb_nr_labels lb + 1 \<rparr>) a t"

definition o_lexblock__add_inline_expansion :: "nat \<Rightarrow> nat \<Rightarrow> unit lm" where
  "o_lexblock__add_inline_expansion a t = bindL (get_obj t) (\<lambda>ob. case o_body ob of
       O_Inline addr sz \<Rightarrow>
         map_lexblock (\<lambda>lb. lb \<lparr> lb_nr_inline_expansions := lb_nr_inline_expansions lb + 1,
             lb_size_inline_expansions := lb_size_inline_expansions lb + ucast sz \<rparr>) a t
     | _ \<Rightarrow> failL ''inline_expansion'')"

section \<open>Deletion\<close>

fun free_list :: "(nat \<Rightarrow> unit lm) \<Rightarrow> nat list \<Rightarrow> unit lm" where
  \<comment> \<open>a loop over a list in reverse order that unlinks and frees each element\<close>
  "free_list free [] = retL ()"
| "free_list free (a # as) = bindL (free_list free as) (\<lambda>_. free a)"

definition type__delete :: "nat \<Rightarrow> unit lm" where
  \<comment> \<open>also \<open>class__delete\<close>: the name \<open>sname\<close> of a loaded class is null\<close>
  "type__delete a = bindL (get_obj a) (\<lambda>ob. case o_body ob of
       O_Type ty ts \<Rightarrow> bindL (free_list obstack_free ts) (\<lambda>_. obstack_free a)
     | O_Class ty cl ts vt \<Rightarrow> bindL (free_list obstack_free ts) (\<lambda>_. obstack_free a)
     | _ \<Rightarrow> failL ''tag__type'')"

definition enumeration__delete :: "nat \<Rightarrow> unit lm" where
  \<comment> \<open>the enumeration itself is not freed\<close>
  "enumeration__delete a = bindL (get_obj a) (\<lambda>ob. case o_body ob of
       O_Type ty ts \<Rightarrow> if ns_shared_tags (ty_namespace ty) then retL () else free_list obstack_free ts
     | _ \<Rightarrow> failL ''tag__type'')"

definition ftype__delete :: "nat \<Rightarrow> unit lm" where
  "ftype__delete a = bindL (get_obj a) (\<lambda>ob. case o_body ob of
       O_Ftype ft \<Rightarrow> bindL (free_list obstack_free (of_parms ft)) (\<lambda>_. obstack_free a)
     | O_Function ft lb ts fn fa \<Rightarrow> bindL (free_list obstack_free (of_parms ft)) (\<lambda>_. obstack_free a)
     | _ \<Rightarrow> failL ''tag__ftype'')"

fun tag__delete :: "nat \<Rightarrow> nat \<Rightarrow> unit lm" where
  \<comment> \<open>of a tag that is in no list; the depth counts down through nested blocks\<close>
  "tag__delete 0 a = failL ''depth of blocks''"
| "tag__delete (Suc n) a = bindL (get_obj a) (\<lambda>ob.
     if o_tag ob = DW_TAG_union_type \<or> o_tag ob = DW_TAG_class_type \<or> o_tag ob = DW_TAG_structure_type
     then type__delete a
     else if o_tag ob = DW_TAG_enumeration_type then enumeration__delete a
     else if o_tag ob = DW_TAG_subroutine_type then ftype__delete a
     else if o_tag ob = DW_TAG_subprogram
     then (case o_body ob of
         O_Function ft lb ts fn fa \<Rightarrow> bindL (free_list (tag__delete n) ts) (\<lambda>_. ftype__delete a)
       | _ \<Rightarrow> failL ''tag__function'')
     else if o_tag ob = DW_TAG_lexical_block
     then (case o_body ob of
         O_Lexblock lb ts \<Rightarrow> bindL (free_list (tag__delete n) ts) (\<lambda>_. obstack_free a)
       | _ \<Rightarrow> failL ''tag__lexblock'')
     else obstack_free a)"

definition delete_tag :: "nat \<Rightarrow> unit lm" where
  \<comment> \<open>blocks nest less deep than there are objects\<close>
  "delete_tag a s = tag__delete (Suc (length (ls_objs s))) a s"

fun namespace__delete :: "nat \<Rightarrow> nat \<Rightarrow> unit lm" where
  "namespace__delete 0 a = failL ''depth of namespaces''"
| "namespace__delete (Suc n) a = bindL (get_obj a) (\<lambda>ob.
     case (case o_body ob of
         O_Namespace ns ts \<Rightarrow> Some ts | O_Type ty ts \<Rightarrow> Some ts | O_Class ty cl ts vt \<Rightarrow> Some ts | _ \<Rightarrow> None) of
       Some ts \<Rightarrow> bindL (free_list (\<lambda>pos. bindL (get_obj pos) (\<lambda>p.
           bindL (if tag__has_namespace (obj_head p) then namespace__delete n pos else retL ()) (\<lambda>_. delete_tag pos))) ts)
         (\<lambda>_. delete_tag a)
     | None \<Rightarrow> failL ''tag__namespace'')"

definition delete_namespace :: "nat \<Rightarrow> unit lm" where
  "delete_namespace a s = namespace__delete (Suc (length (ls_objs s))) a s"

section \<open>Entries without nested tags\<close>

datatype tagp = Null_Tag | Unsupported_Tag | Tag_At nat

definition die__create_new_tag :: "die_info \<Rightarrow> tagp lm" where
  "die__create_new_tag di = bindL (tag__new di) (\<lambda>a. retL (Tag_At a))"

definition die__create_new_ptr_to_member_type :: "die_info \<Rightarrow> tagp lm" where
  "die__create_new_ptr_to_member_type di = bindL (ptr_to_member_type__new di) (\<lambda>a. retL (Tag_At a))"

definition die__create_new_base_type :: "die_info \<Rightarrow> tagp lm" where
  "die__create_new_base_type di = bindL (base_type__new di) (\<lambda>a. retL (Tag_At a))"

definition die__create_new_typedef :: "die_info \<Rightarrow> tagp lm" where
  "die__create_new_typedef di = bindL (type__new di) (\<lambda>a. retL (Tag_At a))"

definition die__create_new_variable :: "die_info \<Rightarrow> tagp lm" where
  "die__create_new_variable di = bindL (variable__new di) (\<lambda>a. retL (Tag_At a))"

fun array_dimensions :: "die_info list \<Rightarrow> u32 list \<Rightarrow> u32 list" where
  \<comment> \<open>the loop over the children, which ends at 64 dimensions\<close>
  "array_dimensions [] nr_entries = nr_entries"
| "array_dimensions (di # dis) nr_entries =
     (if di_tag di = DW_TAG_subrange_type
      then let nr_entries1 = nr_entries @ [ucast (attr_upper_bound di)] in
           if length nr_entries1 = 64 then nr_entries1 else array_dimensions dis nr_entries1
      else array_dimensions dis nr_entries)"

definition die__create_new_array :: "die_info \<Rightarrow> die_info list \<Rightarrow> tagp lm" where
  "die__create_new_array di children =
     bindL (array_type__new di) (\<lambda>a.
     let nr_entries = array_dimensions children [] in
     bindL (get_obj a) (\<lambda>ob. case o_body ob of
         O_Array at \<Rightarrow> bindL (set_body a (O_Array (at \<lparr> at_nr_entries := nr_entries,
             at_dimensions := of_nat (length nr_entries) \<rparr>))) (\<lambda>_. retL (Tag_At a))
       | _ \<Rightarrow> failL ''array_type''))"

fun enumerators_loop :: "die_info list \<Rightarrow> nat \<Rightarrow> unit lm" where
  "enumerators_loop [] a = retL ()"
| "enumerators_loop (di # dis) a =
     (if di_tag di \<noteq> DW_TAG_enumerator then enumerators_loop dis a
      else bindL (enumerator__new di) (\<lambda>e.
        bindL (o_enumeration__add a e) (\<lambda>_. enumerators_loop dis a)))"

definition die__create_new_enumeration :: "die_info \<Rightarrow> die_info list \<Rightarrow> tagp lm" where
  "die__create_new_enumeration di children =
     bindL (type__new di) (\<lambda>a.
     bindL (map_type_fields (\<lambda>ty. ty \<lparr> ty_size := (if ty_size ty = 0 then 4 * 8 else ty_size ty * 8) \<rparr>) a) (\<lambda>_.
     bindL (enumerators_loop children a) (\<lambda>_. retL (Tag_At a))))"

definition die__create_new_parameter :: "die_info \<Rightarrow> nat option \<Rightarrow> nat \<Rightarrow> tagp lm" where
  \<comment> \<open>the block is used where there is no function type\<close>
  "die__create_new_parameter di ftype lexblock =
     bindL (parameter__new di) (\<lambda>p.
     bindL (case ftype of Some ft \<Rightarrow> o_ftype__add_parameter ft p | None \<Rightarrow> o_lexblock__add_tag lexblock p) (\<lambda>_.
     retL (Tag_At p)))"

definition die__create_new_label :: "die_info \<Rightarrow> nat \<Rightarrow> tagp lm" where
  "die__create_new_label di lexblock =
     bindL (label__new di) (\<lambda>l. bindL (o_lexblock__add_label lexblock l) (\<lambda>_. retL (Tag_At l)))"

section \<open>Entries with nested tags\<close>

record child =
  ch_info :: die_info
  ch_process_tag :: "bool \<Rightarrow> tagp lm"            \<comment> \<open>\<open>die__process_tag\<close>\<close>
  ch_create_lexblock :: "nat \<Rightarrow> int lm"          \<comment> \<open>\<open>die__create_new_lexblock\<close>, with the block around it\<close>
  ch_create_inline :: "nat \<Rightarrow> tagp lm"           \<comment> \<open>\<open>die__create_new_inline_expansion\<close>\<close>

definition hash_and_number :: "nat \<Rightarrow> int \<Rightarrow> int lm" where
  \<comment> \<open>the label \<open>hash\<close>\<close>
  "hash_and_number a i = bindL (cu__hash a) (\<lambda>_. bindL (set_small_id a i) (\<lambda>_. retL 0))"

definition enter_linked :: "tagp \<Rightarrow> int lm" where
  \<comment> \<open>a tag that its constructor has put into a list: only the tables; to delete it fails, because it is in a list\<close>
  "enter_linked tag = (case tag of
       Tag_At a \<Rightarrow> bindL (cu__table_add_tag a (- 1)) (\<lambda>(err, i).
         if err < 0 then (\<lambda>s. Inl (Aborted ''tag__delete'')) else hash_and_number a i)
     | _ \<Rightarrow> retL (- ENOMEM))"

definition enter_unit_tag :: "bool \<Rightarrow> tagp \<Rightarrow> int lm" where
  \<comment> \<open>the default cases; \<open>check\<close>: the code compares the tag with \<open>unsupported_tag\<close>\<close>
  "enter_unit_tag check tag = (case tag of
       Null_Tag \<Rightarrow> retL (- ENOMEM)
     | Unsupported_Tag \<Rightarrow> if check then retL 0 else failL ''priv of unsupported_tag''
     | Tag_At a \<Rightarrow> bindL (cu__add_tag a (- 1)) (\<lambda>(err, i).
         if err < 0 then bindL (delete_tag a) (\<lambda>_. retL (- ENOMEM)) else hash_and_number a i))"

fun for_children :: "('c \<Rightarrow> int lm) \<Rightarrow> 'c list \<Rightarrow> int lm" where
  \<comment> \<open>\<open>do ... while (dwarf_siblingof(die, die) == 0)\<close>, left with the first error\<close>
  "for_children body [] = retL 0"
| "for_children body (c # cs) = bindL (body c) (\<lambda>err. if err \<noteq> 0 then retL err else for_children body cs)"

definition subroutine_type_child :: "nat \<Rightarrow> child \<Rightarrow> int lm" where
  "subroutine_type_child ftype c =
     (let tag = di_tag (ch_info c) in
      if tag = DW_TAG_formal_parameter
      then bindL (die__create_new_parameter (ch_info c) (Some ftype) 0) enter_linked
      else if tag = DW_TAG_unspecified_parameters
      then bindL (map_ftype (\<lambda>ft. ft \<lparr> of_unspec_parms := True \<rparr>) ftype) (\<lambda>_. retL 0)
      else bindL (ch_process_tag c False) (enter_unit_tag False))"

definition die__create_new_subroutine_type :: "die_info \<Rightarrow> child list \<Rightarrow> tagp lm" where
  "die__create_new_subroutine_type di children =
     bindL (ftype__new di) (\<lambda>a.
     bindL (for_children (subroutine_type_child a) children) (\<lambda>err.
       if err \<noteq> 0 then bindL (ftype__delete a) (\<lambda>_. retL Null_Tag) else retL (Tag_At a)))"

definition process_member :: "die_info \<Rightarrow> nat \<Rightarrow> int lm" where
  "process_member di class =
     bindL (get_obj class) (\<lambda>cl.
     bindL (class_member__new di (tag__is_union (obj_head cl))) (\<lambda>m.
     bindL (\<lambda>s. if cu__is_c_plus_plus s
         then bindL (cu__table_add_tag m (- 1)) (\<lambda>(err, i).
           if err < 0 then bindL (obstack_free m) (\<lambda>_. retL (- ENOMEM))
           else bindL (set_small_id m i) (\<lambda>_. retL 0)) s
         else Inr (0, s)) (\<lambda>err.
     if err \<noteq> 0 then retL err
     else bindL (o_type__add_member class m) (\<lambda>_. bindL (cu__hash m) (\<lambda>_. retL 0)))))"

definition add_virtual :: "nat \<Rightarrow> nat \<Rightarrow> unit lm" where
  "add_virtual class a = bindL (get_obj a) (\<lambda>ob.
     if tag__is_function (obj_head ob)
     then (case o_body ob of
         O_Function ft lb ts fn fa \<Rightarrow>
           if fa_vtable_entry fa \<noteq> - 1 then class__add_vtable_entry class a else retL ()
       | _ \<Rightarrow> failL ''tag__function'')
     else retL ())"

definition enter_nested :: "nat \<Rightarrow> tagp \<Rightarrow> int lm" where
  \<comment> \<open>a tag inside a class or a namespace\<close>
  "enter_nested space tag = (case tag of
       Null_Tag \<Rightarrow> retL (- ENOMEM)
     | Unsupported_Tag \<Rightarrow> failL ''priv of unsupported_tag''
     | Tag_At a \<Rightarrow> bindL (cu__table_add_tag a (- 1)) (\<lambda>(err, i).
         if err < 0 then bindL (delete_tag a) (\<lambda>_. retL (- ENOMEM))
         else bindL (set_small_id a i) (\<lambda>_.
           bindL (o_namespace__add_tag space a) (\<lambda>_.
           bindL (cu__hash a) (\<lambda>_. retL 0)))))"

definition class_child :: "nat \<Rightarrow> child \<Rightarrow> int lm" where
  "class_child class c =
     (let tag = di_tag (ch_info c) in
      if tag \<in> {DW_TAG_GNU_template_template_param, DW_TAG_GNU_template_parameter_pack,
                 DW_TAG_template_type_parameter, DW_TAG_template_value_parameter}
      then bindL (tag__print_not_supported tag) (\<lambda>_. retL 0)
      else if tag = DW_TAG_inheritance \<or> tag = DW_TAG_member then process_member (ch_info c) class
      else bindL (ch_process_tag c False) (\<lambda>t. bindL (enter_nested class t) (\<lambda>err.
        case t of
            Tag_At a \<Rightarrow> if err \<noteq> 0 then retL err else bindL (add_virtual class a) (\<lambda>_. retL 0)
          | _ \<Rightarrow> retL err)))"

definition die__process_class :: "child list \<Rightarrow> nat \<Rightarrow> int lm" where
  "die__process_class children class = for_children (class_child class) children"

definition die__create_new_class :: "die_info \<Rightarrow> child list \<Rightarrow> tagp lm" where
  "die__create_new_class di children =
     bindL (class__new di) (\<lambda>a.
     bindL (die__process_class children a) (\<lambda>err.
       if err \<noteq> 0 then bindL (type__delete a) (\<lambda>_. retL Null_Tag) else retL (Tag_At a)))"

definition die__create_new_union :: "die_info \<Rightarrow> child list \<Rightarrow> tagp lm" where
  "die__create_new_union di children =
     bindL (type__new di) (\<lambda>a.
     bindL (die__process_class children a) (\<lambda>err.
       if err \<noteq> 0 then bindL (type__delete a) (\<lambda>_. retL Null_Tag) else retL (Tag_At a)))"

definition die__process_namespace :: "child list \<Rightarrow> nat \<Rightarrow> int lm" where
  "die__process_namespace children ns =
     for_children (\<lambda>c. bindL (ch_process_tag c False) (enter_nested ns)) children"

definition die__create_new_namespace :: "die_info \<Rightarrow> child list \<Rightarrow> tagp lm" where
  "die__create_new_namespace di children =
     bindL (namespace__new di) (\<lambda>a.
     bindL (die__process_namespace children a) (\<lambda>err.
       if err \<noteq> 0 then bindL (delete_namespace a) (\<lambda>_. retL Null_Tag) else retL (Tag_At a)))"

definition inline_child :: "nat \<Rightarrow> child \<Rightarrow> int lm" where
  "inline_child lexblock c =
     (let tag = di_tag (ch_info c) in
      if tag = DW_TAG_GNU_call_site \<or> tag = DW_TAG_GNU_call_site_parameter
      then bindL (tag__print_not_supported tag) (\<lambda>_. retL 0)
      else if tag = DW_TAG_lexical_block
      then bindL (ch_create_lexblock c lexblock) (\<lambda>err. retL (if err \<noteq> 0 then - ENOMEM else 0))
      else if tag = DW_TAG_formal_parameter then retL 0
      else if tag = DW_TAG_inlined_subroutine then bindL (ch_create_inline c lexblock) enter_linked
      else if tag = DW_TAG_label then bindL (die__create_new_label (ch_info c) lexblock) enter_linked
      else bindL (ch_process_tag c False) (enter_unit_tag True))"

definition die__process_inline_expansion :: "child list \<Rightarrow> nat \<Rightarrow> int lm" where
  "die__process_inline_expansion children lexblock = for_children (inline_child lexblock) children"

definition die__create_new_inline_expansion :: "die_info \<Rightarrow> child list \<Rightarrow> nat \<Rightarrow> tagp lm" where
  "die__create_new_inline_expansion di children lexblock =
     bindL (inline_expansion__new di) (\<lambda>a.
     bindL (die__process_inline_expansion children lexblock) (\<lambda>err.
       if err \<noteq> 0 then bindL (obstack_free a) (\<lambda>_. retL Null_Tag)
       else bindL (o_lexblock__add_inline_expansion lexblock a) (\<lambda>_. retL (Tag_At a))))"

definition function_child :: "nat option \<Rightarrow> nat \<Rightarrow> child \<Rightarrow> int lm" where
  "function_child ftype lexblock c =
     (let tag = di_tag (ch_info c) in
      if tag \<in> {DW_TAG_GNU_call_site, DW_TAG_GNU_call_site_parameter,
                 DW_TAG_template_type_parameter, DW_TAG_template_value_parameter}
      then bindL (tag__print_not_supported tag) (\<lambda>_. retL 0)
      else if tag = DW_TAG_formal_parameter
      then bindL (die__create_new_parameter (ch_info c) ftype lexblock) enter_linked
      else if tag = DW_TAG_variable
      then bindL (die__create_new_variable (ch_info c)) (\<lambda>t. case t of
          Tag_At v \<Rightarrow> bindL (o_lexblock__add_variable lexblock v) (\<lambda>_. enter_linked t)
        | _ \<Rightarrow> retL (- ENOMEM))
      else if tag = DW_TAG_unspecified_parameters
      then (case ftype of
          Some ft \<Rightarrow> bindL (map_ftype (\<lambda>f. f \<lparr> of_unspec_parms := True \<rparr>) ft) (\<lambda>_. retL 0)
        | None \<Rightarrow> retL 0)
      else if tag = DW_TAG_label then bindL (die__create_new_label (ch_info c) lexblock) enter_linked
      else if tag = DW_TAG_inlined_subroutine then bindL (ch_create_inline c lexblock) enter_linked
      else if tag = DW_TAG_lexical_block
      then bindL (ch_create_lexblock c lexblock) (\<lambda>err. retL (if err \<noteq> 0 then - ENOMEM else 0))
      else bindL (ch_process_tag c False) (enter_unit_tag True))"

definition die__process_function :: "child list \<Rightarrow> nat option \<Rightarrow> nat \<Rightarrow> int lm" where
  "die__process_function children ftype lexblock = for_children (function_child ftype lexblock) children"

definition die__create_new_lexblock :: "die_info \<Rightarrow> child list \<Rightarrow> nat \<Rightarrow> int lm" where
  "die__create_new_lexblock di children father =
     bindL (lexblock__new di) (\<lambda>a.
     bindL (die__process_function children None a) (\<lambda>err.
       if err \<noteq> 0 then bindL (delete_tag a) (\<lambda>_. retL (- ENOMEM))
       else bindL (o_lexblock__add_lexblock father a) (\<lambda>_. retL 0)))"

definition die__create_new_function :: "die_info \<Rightarrow> child list \<Rightarrow> tagp lm" where
  "die__create_new_function di children =
     bindL (function__new di) (\<lambda>a.
     bindL (die__process_function children (Some a) a) (\<lambda>err.
       if err \<noteq> 0 then bindL (delete_tag a) (\<lambda>_. retL Null_Tag) else retL (Tag_At a)))"

definition create_new :: "die_info \<Rightarrow> child list \<Rightarrow> tagp lm" where
  \<comment> \<open>the \<open>switch\<close> of \<open>__die__process_tag\<close>\<close>
  "create_new di children =
     (let tag = di_tag di in
      if tag = DW_TAG_array_type then die__create_new_array di (map ch_info children)
      else if tag = DW_TAG_base_type then die__create_new_base_type di
      else if tag \<in> {DW_TAG_const_type, DW_TAG_imported_declaration, DW_TAG_imported_module,
                      DW_TAG_pointer_type, DW_TAG_reference_type, DW_TAG_volatile_type}
      then die__create_new_tag di
      else if tag = DW_TAG_ptr_to_member_type then die__create_new_ptr_to_member_type di
      else if tag = DW_TAG_enumeration_type then die__create_new_enumeration di (map ch_info children)
      else if tag = DW_TAG_namespace then die__create_new_namespace di children
      else if tag = DW_TAG_class_type \<or> tag = DW_TAG_interface_type \<or> tag = DW_TAG_structure_type
      then die__create_new_class di children
      else if tag = DW_TAG_subprogram then die__create_new_function di children
      else if tag = DW_TAG_subroutine_type then die__create_new_subroutine_type di children
      else if tag = DW_TAG_typedef then die__create_new_typedef di
      else if tag = DW_TAG_union_type then die__create_new_union di children
      else if tag = DW_TAG_variable then die__create_new_variable di
      else retL Unsupported_Tag)"

definition die__process_tag :: "die_info \<Rightarrow> child list \<Rightarrow> bool \<Rightarrow> tagp lm" where
  "die__process_tag di children top_level =
     bindL (create_new di children) (\<lambda>tag. case tag of
         Tag_At a \<Rightarrow> bindL (get_obj a) (\<lambda>ob. bindL (set_obj a (ob \<lparr> o_top_level := top_level \<rparr>)) (\<lambda>_. retL tag))
       | _ \<Rightarrow> retL tag)"

primrec visit :: "die \<Rightarrow> child" where
  \<comment> \<open>an entry with the calls on it, made on the same calls of its children\<close>
  "visit (Die di cs) =
     (let children = map visit cs in
      \<lparr> ch_info = di,
        ch_process_tag = die__process_tag di children,
        ch_create_lexblock = die__create_new_lexblock di children,
        ch_create_inline = die__create_new_inline_expansion di children \<rparr>)"

definition unit_child :: "child \<Rightarrow> int lm" where
  \<comment> \<open>an error of \<open>cu__add_tag\<close> is ignored\<close>
  "unit_child c = bindL (ch_process_tag c True) (\<lambda>t. case t of
       Null_Tag \<Rightarrow> retL (- ENOMEM)
     | Unsupported_Tag \<Rightarrow> retL 0
     | Tag_At a \<Rightarrow> bindL (cu__add_tag a (- 1)) (\<lambda>(err, i). hash_and_number a i))"

definition die__process_unit :: "die list \<Rightarrow> int lm" where
  "die__process_unit dies = for_children unit_child (map visit dies)"

definition die__process :: "die \<Rightarrow> int lm" where
  "die__process die = (case die of Die di cs \<Rightarrow>
     if di_tag di \<noteq> DW_TAG_compile_unit \<and> di_tag di \<noteq> DW_TAG_type_unit then retL (- EINVAL)
     else bindL (\<lambda>s. Inr ((), s \<lparr> ls_language := ucast (attr_numeric di DW_AT_language) \<rparr>)) (\<lambda>_.
       die__process_unit cs))"

end
