(* ===== verification/Dwarf_Recode.thy ===== *)
theory Dwarf_Recode
  imports Dwarf_Process
begin

text \<open>
  The second pass of the loader (\<^verbatim>\<open>cu__recode_dwarf_types\<close>): an entry refers to its type by the
  offset of another entry, a tag by the number of its type in the table of the unit. The pass
  looks every offset up in the hash tables and writes the number. A bit field gets a type of its
  own width, made and entered in the table on the way. Searches that \<^verbatim>\<open>dwarves.c\<close> makes in the
  unit run on \<open>cu_of\<close>, the unit with its tags read out of the store.
\<close>

section \<open>The unit as its readers see it\<close>

definition obj_name :: "obj_body \<Rightarrow> strings_t res" where
  \<comment> \<open>\<open>tag__namespace(tag)->name\<close>, at the same place in each of these structures\<close>
  "obj_name b = (case b of
       O_Namespace ns ts \<Rightarrow> Inr (ns_name ns)
     | O_Type ty ts \<Rightarrow> Inr (ns_name (ty_namespace ty))
     | O_Class ty cl ts vt \<Rightarrow> Inr (ns_name (ty_namespace ty))
     | O_Base bt \<Rightarrow> Inr (bt_name bt)
     | O_Member cm cv acc \<Rightarrow> Inr (cm_name cm)
     | O_Parameter name \<Rightarrow> Inr name
     | O_Enumerator name v \<Rightarrow> Inr name
     | _ \<Rightarrow> ub ''name'')"

definition parm_at :: "obj list \<Rightarrow> nat \<Rightarrow> parameter" where
  "parm_at objs p = \<lparr> pa_type = o_type (objs ! p),
     pa_name = (case obj_name (o_body (objs ! p)) of Inr name \<Rightarrow> name | Inl e \<Rightarrow> 0) \<rparr>"

definition ftype_at :: "obj list \<Rightarrow> o_ftype \<Rightarrow> ftype" where
  "ftype_at objs ft = \<lparr> ft_parms = map (parm_at objs) (of_parms ft), ft_nr_parms = of_nr_parms ft,
     ft_unspec_parms = of_unspec_parms ft \<rparr>"

fun tag_at :: "nat \<Rightarrow> obj list \<Rightarrow> nat \<Rightarrow> tag" where
  \<comment> \<open>tags nest less deep than there are objects; parameters in the tables are read as plain tags\<close>
  "tag_at n objs a =
     (if a < length objs
      then Tag a (o_type (objs ! a)) (o_tag (objs ! a)) (case o_body (objs ! a) of
          O_Plain \<Rightarrow> Plain_Body
        | O_Parameter name \<Rightarrow> Plain_Body
        | O_Base bt \<Rightarrow> Base_Body bt
        | O_Array at \<Rightarrow> Array_Body at
        | O_Ptr_To_Member c \<Rightarrow> Ptr_To_Member_Body c
        | O_Ftype ft \<Rightarrow> Ftype_Body (ftype_at objs ft)
        | O_Member cm cv acc \<Rightarrow> Member_Body cm
        | O_Enumerator name v \<Rightarrow> Enumerator_Body name v
        | O_Variable v \<Rightarrow> Variable_Body v
        | O_Label addr name \<Rightarrow> Label_Body addr name
        | O_Inline addr sz \<Rightarrow> Inline_Body addr sz
        | O_Type ty ts \<Rightarrow> Type_Body ty (case n of 0 \<Rightarrow> [] | Suc m \<Rightarrow> map (tag_at m objs) ts)
        | O_Class ty cl ts vt \<Rightarrow> Class_Body ty cl (case n of 0 \<Rightarrow> [] | Suc m \<Rightarrow> map (tag_at m objs) ts)
        | O_Namespace ns ts \<Rightarrow> Namespace_Body ns (case n of 0 \<Rightarrow> [] | Suc m \<Rightarrow> map (tag_at m objs) ts)
        | O_Lexblock lb ts \<Rightarrow> Lexblock_Body lb (case n of 0 \<Rightarrow> [] | Suc m \<Rightarrow> map (tag_at m objs) ts)
        | O_Function ft lb ts fn fa \<Rightarrow>
            Function_Body (ftype_at objs ft) lb (case n of 0 \<Rightarrow> [] | Suc m \<Rightarrow> map (tag_at m objs) ts) fn)
      else Tag a 0 0 Plain_Body)"

declare tag_at.simps [simp del]

definition map_table :: "('a \<Rightarrow> 'b) \<Rightarrow> 'a ptr_table \<Rightarrow> 'b ptr_table" where
  "map_table f pt = \<lparr> pt_entries = map (map_option (map_option f)) (pt_entries pt),
     pt_nr_entries = pt_nr_entries pt, pt_allocated_entries = pt_allocated_entries pt \<rparr>"

definition tag_of :: "lst \<Rightarrow> nat \<Rightarrow> tag" where
  "tag_of s a = tag_at (length (ls_objs s)) (ls_objs s) a"

definition cu_of :: "lst \<Rightarrow> cu" where
  "cu_of s =
     \<lparr> cu_types_table = map_table (tag_of s) (ls_types_table s),
       cu_functions_table = map_table (tag_of s) (ls_functions_table s),
       cu_tags_table = map_table (tag_of s) (ls_tags_table s),
       cu_name = Some (ls_name s),
       cu_dfops = Some (\<lambda>i. case strings__ptr (ls_strings s) i of Inr p \<Rightarrow> p | Inl e \<Rightarrow> None),
       cu_addr_size = ls_addr_size s,
       cu_language = ls_language s,
       cu_stray = ls_stray s \<rparr>"

section \<open>Bit fields\<close>

type_synonym 'a lr = "lst \<Rightarrow> ('a \<times> lst) run"

definition bindLR :: "'a lr \<Rightarrow> ('a \<Rightarrow> 'b lr) \<Rightarrow> 'b lr" where
  "bindLR m f s = bindR (m s) (\<lambda>(x, s1). f x s1)"

definition stepL :: "'a lm \<Rightarrow> 'a lr" where
  \<comment> \<open>a step that always returns\<close>
  "stepL m s = Some (m s)"

definition tag_of_type :: "dwarf_off_ref \<Rightarrow> nat lm" where
  \<comment> \<open>\<open>dwarf_cu__find_type_by_ref(...)->tag\<close>\<close>
  "tag_of_type ref s = bindE (dwarf_cu__find_type_by_ref ref s) (\<lambda>r. case r of
       None \<Rightarrow> ub ''null pointer''
     | Some d \<Rightarrow> bindL (get_dtag d) (\<lambda>dt. retL (dt_tag dt)) s)"

definition zero_type :: "strings_t \<Rightarrow> type_fields" where
  \<comment> \<open>zeroed memory with a name\<close>
  "zero_type name = \<lparr> ty_namespace = \<lparr> ns_name = name, ns_nr_tags = 0, ns_shared_tags = False, ns_sname = None \<rparr>,
     ty_size = 0, ty_nr_static_members = 0, ty_nr_members = 0, ty_declaration = False \<rparr>"

definition obstack_zalloc :: "obj \<Rightarrow> nat lm" where
  "obstack_zalloc ob s = Inr (length (ls_objs s), s \<lparr> ls_objs := ls_objs s @ [ob] \<rparr>)"

definition add_recoded :: "obj \<Rightarrow> int lm" where
  \<comment> \<open>the end of \<open>tag__recode_dwarf_bitfield\<close>; the \<open>long\<close> is returned as an \<open>int\<close>\<close>
  "add_recoded ob = bindL (obstack_zalloc ob) (\<lambda>a.
     bindL (cu__add_tag a (- 1)) (\<lambda>(err, new_id).
       if err = 0 then retL (sint (word_of_int new_id :: u32))
       else bindL (obstack_free a) (\<lambda>_. retL (- ENOMEM))))"

definition recoded_copy :: "obj \<Rightarrow> u16 \<Rightarrow> obj res" where
  \<comment> \<open>the copy of a typedef or qualifier; a \<open>const\<close> becomes a \<open>volatile\<close>\<close>
  "recoded_copy ob i =
     (if o_tag ob = DW_TAG_typedef
      then bindE (obj_name (o_body ob)) (\<lambda>name.
        Inr \<lparr> o_type = i, o_tag = DW_TAG_typedef, o_top_level = False, o_priv = None, o_body = O_Type (zero_type name) [] \<rparr>)
      else Inr \<lparr> o_type = i, o_tag = DW_TAG_volatile_type, o_top_level = False, o_priv = None, o_body = O_Plain \<rparr>)"

definition recoded_base :: "strings_t \<Rightarrow> u16 \<Rightarrow> obj" where
  "recoded_base name bit_size =
     \<lparr> o_type = 0, o_tag = DW_TAG_base_type, o_top_level = True, o_priv = None,
       o_body = O_Base \<lparr> bt_name = name, bt_bit_size = bit_size, bt_name_has_encoding = False, bt_is_signed = False,
         bt_is_bool = False, bt_is_varargs = False, bt_float_type = 0 \<rparr> \<rparr>"

definition recoded_enumeration :: "strings_t \<Rightarrow> u16 \<Rightarrow> obj_body \<Rightarrow> obj res" where
  \<comment> \<open>shares the list of enumerators of the one it stands for, which no longer changes\<close>
  "recoded_enumeration name bit_size alias = (case alias of
       O_Type ty ts \<Rightarrow> Inr \<lparr> o_type = 0, o_tag = DW_TAG_enumeration_type, o_top_level = True, o_priv = None,
         o_body = O_Type ((zero_type name) \<lparr> ty_namespace := (ty_namespace (zero_type name)) \<lparr> ns_shared_tags := True \<rparr>,
           ty_nr_members := ty_nr_members ty, ty_size := ucast bit_size \<rparr>) ts \<rparr>
     | _ \<Rightarrow> ub ''tag__type'')"

partial_function (option) tag__recode_dwarf_bitfield :: "nat \<Rightarrow> u16 \<Rightarrow> lst \<Rightarrow> (int \<times> lst) run" where
  "tag__recode_dwarf_bitfield a bit_size s = bindR (Some (get_obj a s)) (\<lambda>p.
     let tag = o_tag (fst p) in
     if tag = DW_TAG_typedef \<or> tag = DW_TAG_const_type \<or> tag = DW_TAG_volatile_type
     then bindR (Some (bindL (priv a) (\<lambda>q. tag_of_type (dt_type (snd q))) s)) (\<lambda>t.
       bindR (tag__recode_dwarf_bitfield (fst t) bit_size s) (\<lambda>r.
         let i = (word_of_int (fst r) :: u16) in
         Some (bindL (get_obj a) (\<lambda>ob.
           if i = o_type ob then retL (int (unat i))
           else (\<lambda>s1. bindE (recoded_copy ob i) (\<lambda>new. add_recoded new s1))) (snd r))))
     else if tag = DW_TAG_base_type
     then bindR (Some (obj_name (o_body (fst p)))) (\<lambda>name.
       bindR (cu__find_base_type_by_sname_and_size (cu_of s) name bit_size) (\<lambda>r. case r of
           Some q \<Rightarrow> retR (int (unat (fst q)), s)
         | None \<Rightarrow> Some (add_recoded (recoded_base name bit_size) s)))
     else if tag = DW_TAG_enumeration_type
     then bindR (Some (obj_name (o_body (fst p)))) (\<lambda>name.
       bindR (cu__find_enumeration_by_sname_and_size (cu_of s) name bit_size) (\<lambda>r. case r of
           Some q \<Rightarrow> retR (int (unat (fst q)), s)
         | None \<Rightarrow> Some (bindE (recoded_enumeration name bit_size (o_body (fst p))) (\<lambda>new. add_recoded new s))))
     else retR (- EINVAL, s))"

declare tag__recode_dwarf_bitfield.simps [code]

definition set_type :: "nat \<Rightarrow> u16 \<Rightarrow> unit lm" where
  "set_type a i = bindL (get_obj a) (\<lambda>ob. set_obj a (ob \<lparr> o_type := i \<rparr>))"

definition bitfield_size_of :: "obj \<Rightarrow> u8 res" where
  "bitfield_size_of ob =
     (case o_body ob of O_Member cm cv acc \<Rightarrow> Inr (cm_bitfield_size cm) | _ \<Rightarrow> ub ''tag__class_member'')"

definition class_member__dwarf_recode_bitfield :: "nat \<Rightarrow> int lr" where
  "class_member__dwarf_recode_bitfield m =
     bindLR (stepL (bindL (priv m) (\<lambda>(d, dt). tag_of_type (dt_type dt)))) (\<lambda>t.
     bindLR (stepL (bindL (get_obj m) (\<lambda>ob s. bindE (bitfield_size_of ob) (\<lambda>sz. Inr (sz, s))))) (\<lambda>sz.
     bindLR (tag__recode_dwarf_bitfield t (ucast sz)) (\<lambda>i.
       if i < 0 then stepL (retL i)
       else stepL (bindL (set_type m (word_of_int i)) (\<lambda>_. retL 0)))))"

section \<open>References to types and tags\<close>

definition write_small_id :: "nat \<Rightarrow> nat option \<Rightarrow> unit lm" where
  \<comment> \<open>\<open>check_type\<close> and \<open>next\<close>: nothing but a message when the entry was not found\<close>
  "write_small_id a r = (case r of
       None \<Rightarrow> retL ()
     | Some d \<Rightarrow> bindL (get_dtag d) (\<lambda>dt. set_type a (dt_small_id dt)))"

definition recode_as_type :: "nat \<Rightarrow> dwarf_off_ref \<Rightarrow> unit lm" where
  "recode_as_type a ref s = bindE (dwarf_cu__find_type_by_ref ref s) (\<lambda>r. write_small_id a r s)"

definition recode_as_tag :: "nat \<Rightarrow> dwarf_off_ref \<Rightarrow> unit lm" where
  "recode_as_tag a ref s = bindE (dwarf_cu__find_tag_by_ref ref s) (\<lambda>r. write_small_id a r s)"

definition recode_as_either :: "nat \<Rightarrow> dwarf_off_ref \<Rightarrow> unit lm" where
  \<comment> \<open>an imported declaration\<close>
  "recode_as_either a ref s = bindE (dwarf_cu__find_tag_by_ref ref s) (\<lambda>r.
     if r = None then recode_as_type a ref s else write_small_id a r s)"

definition origin_tag :: "dwarf_off_ref \<Rightarrow> obj option lm" where
  \<comment> \<open>the tag an abstract origin refers to\<close>
  "origin_tag ref s = bindE (dwarf_cu__find_tag_by_ref ref s) (\<lambda>r. case r of
       None \<Rightarrow> Inr (None, s)
     | Some d \<Rightarrow> bindL (get_dtag d) (\<lambda>dt. bindL (get_obj (dt_tag dt)) (\<lambda>ob. retL (Some ob))) s)"

definition set_name :: "nat \<Rightarrow> strings_t \<Rightarrow> unit lm" where
  "set_name a name = bindL (get_obj a) (\<lambda>ob. case o_body ob of
       O_Parameter old \<Rightarrow> set_body a (O_Parameter name)
     | O_Variable v \<Rightarrow> set_body a (O_Variable (v \<lparr> va_name := name \<rparr>))
     | O_Label addr old \<Rightarrow> set_body a (O_Label addr name)
     | _ \<Rightarrow> failL ''name'')"

definition parameter_name :: "obj_body \<Rightarrow> strings_t res" where
  "parameter_name b = (case b of O_Parameter name \<Rightarrow> Inr name | _ \<Rightarrow> ub ''tag__parameter'')"

definition variable_name :: "obj_body \<Rightarrow> strings_t res" where
  "variable_name b = (case b of O_Variable v \<Rightarrow> Inr (va_name v) | _ \<Rightarrow> ub ''tag__variable'')"

definition label_name :: "obj_body \<Rightarrow> strings_t res" where
  "label_name b = (case b of O_Label addr name \<Rightarrow> Inr name | _ \<Rightarrow> ub ''tag__label'')"

definition copy_origin :: "(obj_body \<Rightarrow> strings_t res) \<Rightarrow> nat \<Rightarrow> dwarf_off_ref \<Rightarrow> unit lm" where
  \<comment> \<open>name and type of the tag the abstract origin refers to\<close>
  "copy_origin name_of a ref = bindL (origin_tag ref) (\<lambda>r. case r of
       None \<Rightarrow> retL ()
     | Some ob \<Rightarrow> (\<lambda>s. bindE (name_of (o_body ob)) (\<lambda>name.
         bindL (set_name a name) (\<lambda>_. set_type a (o_type ob)) s)))"

definition recode_parameter :: "nat \<Rightarrow> unit lm" where
  "recode_parameter pos = bindL (priv pos) (\<lambda>(d, dpos).
     if ref_off (dt_type dpos) = 0
     then if ref_off (dt_origin dpos) = 0 then set_type pos 0
          else copy_origin parameter_name pos (dt_origin dpos)
     else recode_as_type pos (dt_type dpos))"

fun for_list :: "(nat \<Rightarrow> unit lm) \<Rightarrow> nat list \<Rightarrow> unit lm" where
  "for_list f [] = retL ()"
| "for_list f (a # as) = bindL (f a) (\<lambda>_. for_list f as)"

definition ftype__recode_dwarf_types :: "nat \<Rightarrow> unit lm" where
  "ftype__recode_dwarf_types a = bindL (get_obj a) (\<lambda>ob. case o_body ob of
       O_Ftype ft \<Rightarrow> for_list recode_parameter (of_parms ft)
     | O_Function ft lb ts fn fa \<Rightarrow> for_list recode_parameter (of_parms ft)
     | _ \<Rightarrow> failL ''tag__ftype'')"

definition recode_namespace_tag :: "nat \<Rightarrow> int lr" where
  \<comment> \<open>a tag of a namespace that is none itself\<close>
  "recode_namespace_tag pos =
     bindLR (stepL (bindL (get_obj pos) (\<lambda>ob. bindL (priv pos) (\<lambda>(d, dpos). retL (ob, dpos))))) (\<lambda>(ob, dpos).
     bindLR (stepL (\<lambda>s. if o_tag ob = DW_TAG_member
         then bindE (bitfield_size_of ob) (\<lambda>sz. Inr (sz \<noteq> 0, s)) else Inr (False, s))) (\<lambda>bitfield.
     if bitfield
     then bindLR (class_member__dwarf_recode_bitfield pos) (\<lambda>err. stepL (retL (if err \<noteq> 0 then - 1 else 0)))
     else if o_tag ob = DW_TAG_imported_module
     then stepL (bindL (recode_as_tag pos (dt_type dpos)) (\<lambda>_. retL 0))
     else if o_tag ob = DW_TAG_imported_declaration
     then stepL (bindL (recode_as_either pos (dt_type dpos)) (\<lambda>_. retL 0))
     else stepL (bindL (if o_tag ob = DW_TAG_subroutine_type \<or> o_tag ob = DW_TAG_subprogram
         then ftype__recode_dwarf_types pos else retL ()) (\<lambda>_.
       if ref_off (dt_type dpos) = 0 then retL 0
       else bindL (recode_as_type pos (dt_type dpos)) (\<lambda>_. retL 0)))))"

definition namespace_tags :: "obj \<Rightarrow> nat list res" where
  "namespace_tags ob = (case o_body ob of
       O_Namespace ns ts \<Rightarrow> Inr ts
     | O_Type ty ts \<Rightarrow> Inr ts
     | O_Class ty cl ts vt \<Rightarrow> Inr ts
     | _ \<Rightarrow> ub ''tag__namespace'')"

definition tags_of :: "nat \<Rightarrow> nat list lm" where
  "tags_of a = bindL (get_obj a) (\<lambda>ob s. bindE (namespace_tags ob) (\<lambda>ts. Inr (ts, s)))"

partial_function (option) recode_namespace_tags :: "nat list \<Rightarrow> lst \<Rightarrow> (int \<times> lst) run" where
  \<comment> \<open>the loop of \<open>namespace__recode_dwarf_types\<close>, with its calls on the namespaces among the tags\<close>
  "recode_namespace_tags tags s = (case tags of
       [] \<Rightarrow> retR (0, s)
     | pos # rest \<Rightarrow>
         bindR (Some (get_obj pos s)) (\<lambda>p.
         bindR (if tag__has_namespace (obj_head (fst p))
                then bindR (Some (tags_of pos s)) (\<lambda>q. recode_namespace_tags (fst q) s)
                else recode_namespace_tag pos s) (\<lambda>r.
           if fst r \<noteq> 0 then retR (- 1, snd r) else recode_namespace_tags rest (snd r))))"

declare recode_namespace_tags.simps [code]

definition namespace__recode_dwarf_types :: "nat \<Rightarrow> int lr" where
  "namespace__recode_dwarf_types a = bindLR (stepL (tags_of a)) recode_namespace_tags"

definition type__recode_dwarf_specification :: "nat \<Rightarrow> unit lm" where
  "type__recode_dwarf_specification a =
     bindL (get_obj a) (\<lambda>ob.
     bindL (priv a) (\<lambda>(d, dt) s.
       bindE (dwarf_tag__spec dt) (\<lambda>specification.
       bindE (obj_name (o_body ob)) (\<lambda>name.
       if name \<noteq> 0 \<or> ref_off specification = 0 then Inr ((), s)
       else bindE (dwarf_cu__find_type_by_ref specification s) (\<lambda>r. case r of
           None \<Rightarrow> Inr ((), s)
         | Some dtype \<Rightarrow>
             bindL (get_dtag dtype) (\<lambda>dt1. bindL (get_obj (dt_tag dt1)) (\<lambda>other s1.
               bindE (obj_name (o_body other)) (\<lambda>name1.
                 map_type_fields (\<lambda>ty. ty \<lparr> ty_namespace := (ty_namespace ty) \<lparr> ns_name := name1 \<rparr> \<rparr>) a s1))) s)))))"

definition recode_block_tag :: "nat \<Rightarrow> unit lm" where
  \<comment> \<open>a tag of a block that is no block itself\<close>
  "recode_block_tag pos =
     bindL (get_obj pos) (\<lambda>ob. bindL (priv pos) (\<lambda>(d, dpos).
     if o_tag ob = DW_TAG_inlined_subroutine
     then (\<lambda>s. bindE (dwarf_cu__find_tag_by_ref (dt_type dpos) s) (\<lambda>r. case r of
         None \<Rightarrow> Inr ((), s)
       | Some dtype \<Rightarrow> bindL (get_dtag dtype) (\<lambda>dt. ftype__recode_dwarf_types (dt_tag dt)) s))
     else if o_tag ob = DW_TAG_formal_parameter \<and> ref_off (dt_type dpos) = 0
     then copy_origin parameter_name pos (dt_origin dpos)
     else if o_tag ob = DW_TAG_variable \<and> ref_off (dt_type dpos) = 0
     then if ref_off (dt_origin dpos) = 0 then retL () else copy_origin variable_name pos (dt_origin dpos)
     else if o_tag ob = DW_TAG_label
     then if ref_off (dt_origin dpos) = 0 then retL ()
          else bindL (origin_tag (dt_origin dpos)) (\<lambda>r. case r of
              None \<Rightarrow> retL ()
            | Some other \<Rightarrow> (\<lambda>s. bindE (label_name (o_body other)) (\<lambda>name. set_name pos name s)))
     else recode_as_type pos (dt_type dpos)))"

definition block_tags :: "nat \<Rightarrow> nat list lm" where
  "block_tags a = bindL (get_obj a) (\<lambda>ob. case o_body ob of
       O_Lexblock lb ts \<Rightarrow> retL ts
     | O_Function ft lb ts fn fa \<Rightarrow> retL ts
     | _ \<Rightarrow> failL ''tag__lexblock'')"

partial_function (option) recode_block_tags :: "nat list \<Rightarrow> lst \<Rightarrow> (unit \<times> lst) run" where
  "recode_block_tags tags s = (case tags of
       [] \<Rightarrow> retR ((), s)
     | pos # rest \<Rightarrow>
         bindR (Some (get_obj pos s)) (\<lambda>p.
         bindR (if o_tag (fst p) = DW_TAG_lexical_block
                then bindR (Some (block_tags pos s)) (\<lambda>q. recode_block_tags (fst q) s)
                else Some (recode_block_tag pos s)) (\<lambda>r.
           recode_block_tags rest (snd r))))"

declare recode_block_tags.simps [code]

definition lexblock__recode_dwarf_types :: "nat \<Rightarrow> unit lr" where
  "lexblock__recode_dwarf_types a = bindLR (stepL (block_tags a)) recode_block_tags"

definition recode_function_name :: "nat \<Rightarrow> bool lm" where
  \<comment> \<open>is there more to do for this function\<close>
  "recode_function_name a =
     bindL (get_obj a) (\<lambda>ob. case o_body ob of
       O_Function ft lb ts fn fa \<Rightarrow>
         if fn_name fn \<noteq> 0 then retL True
         else bindL (priv a) (\<lambda>(d, dtag) s.
           bindE (dwarf_tag__spec dtag) (\<lambda>specification.
           if ref_off (dt_origin dtag) = 0 \<and> ref_off specification = 0 then Inr (False, s)
           else bindL (origin_tag (dt_origin dtag)) (\<lambda>r.
             bindL (case r of Some other \<Rightarrow> retL (Some other) | None \<Rightarrow> origin_tag specification) (\<lambda>r1. case r1 of
                 None \<Rightarrow> retL True
               | Some other \<Rightarrow> (case o_body other of
                     O_Function ft1 lb1 ts1 fn1 fa1 \<Rightarrow>
                       bindL (set_body a (O_Function ft lb ts (fn \<lparr> fn_name := fn_name fn1 \<rparr>) fa)) (\<lambda>_. retL True)
                   | _ \<Rightarrow> failL ''tag__function''))) s))
     | _ \<Rightarrow> failL ''tag__function'')"

definition recode_own_type :: "nat \<Rightarrow> dwarf_tag \<Rightarrow> int lm" where
  "recode_own_type a dtag = bindL (if ref_off (dt_type dtag) = 0 then set_type a 0
     else recode_as_type a (dt_type dtag)) (\<lambda>_. retL 0)"

definition recode_containing_type :: "nat \<Rightarrow> dwarf_tag \<Rightarrow> unit lm" where
  "recode_containing_type a dtag s = bindE (dwarf_cu__find_type_by_ref (dt_origin dtag) s) (\<lambda>r. case r of
       None \<Rightarrow> Inr ((), s)
     | Some d \<Rightarrow> bindL (get_dtag d) (\<lambda>dt. set_body a (O_Ptr_To_Member (dt_small_id dt))) s)"

definition tag__recode_dwarf_type :: "nat \<Rightarrow> int lr" where
  "tag__recode_dwarf_type a =
     bindLR (stepL (get_obj a)) (\<lambda>ob. case o_priv ob of
       None \<Rightarrow> stepL (retL 0)
     | Some d \<Rightarrow>
         bindLR (stepL (get_dtag d)) (\<lambda>dtag.
         bindLR (stepL (if tag__is_type (obj_head ob) then type__recode_dwarf_specification a else retL ())) (\<lambda>_.
         if tag__has_namespace (obj_head ob) then namespace__recode_dwarf_types a
         else if o_tag ob = DW_TAG_subprogram
         then bindLR (stepL (recode_function_name a)) (\<lambda>more_to_do.
           if \<not> more_to_do then stepL (retL 0)
           else bindLR (lexblock__recode_dwarf_types a) (\<lambda>_.
             stepL (bindL (ftype__recode_dwarf_types a) (\<lambda>_. recode_own_type a dtag))))
         else if o_tag ob = DW_TAG_subroutine_type
         then stepL (bindL (ftype__recode_dwarf_types a) (\<lambda>_. recode_own_type a dtag))
         else if o_tag ob = DW_TAG_lexical_block
         then bindLR (lexblock__recode_dwarf_types a) (\<lambda>_. stepL (retL 0))
         else if o_tag ob = DW_TAG_ptr_to_member_type
         then stepL (bindL (recode_containing_type a dtag) (\<lambda>_. recode_own_type a dtag))
         else if o_tag ob = DW_TAG_inlined_subroutine \<or> o_tag ob = DW_TAG_imported_module
         then stepL (bindL (recode_as_tag a (dt_type dtag)) (\<lambda>_. retL 0))
         else if o_tag ob = DW_TAG_imported_declaration
         then stepL (bindL (recode_as_either a (dt_type dtag)) (\<lambda>_. retL 0))
         else stepL (recode_own_type a dtag))))"

partial_function (option) cu__recode_dwarf_types_table :: "table \<Rightarrow> u32 \<Rightarrow> lst \<Rightarrow> (int \<times> lst) run" where
  "cu__recode_dwarf_types_table t i s =
     (if i < pt_nr_entries (get_table t s)
      then bindR (Some (load_entry (get_table t s) i)) (\<lambda>p.
        bindR (case p of None \<Rightarrow> retR (0, s) | Some a \<Rightarrow> tag__recode_dwarf_type a s) (\<lambda>r.
          if fst r \<noteq> 0 then retR (- 1, snd r) else cu__recode_dwarf_types_table t (i + 1) (snd r)))
      else retR (0, s))"

declare cu__recode_dwarf_types_table.simps [code]

definition cu__recode_dwarf_types :: "int lr" where
  "cu__recode_dwarf_types =
     bindLR (cu__recode_dwarf_types_table Types_Table 1) (\<lambda>err1.
     if err1 \<noteq> 0 then stepL (retL (- 1))
     else bindLR (cu__recode_dwarf_types_table Tags_Table 0) (\<lambda>err2.
     if err2 \<noteq> 0 then stepL (retL (- 1))
     else bindLR (cu__recode_dwarf_types_table Functions_Table 0) (\<lambda>err3.
     stepL (retL (if err3 \<noteq> 0 then - 1 else 0)))))"

definition die__process_and_recode :: "die \<Rightarrow> int lr" where
  "die__process_and_recode die =
     bindLR (stepL (die__process die)) (\<lambda>ret.
     if ret \<noteq> 0 then stepL (retL ret) else cu__recode_dwarf_types)"

end
