(* ===== verification/Dwarf_Load.thy ===== *)
theory Dwarf_Load
  imports Dwarf_Recode
begin

text \<open>
  The units of a file (\<^verbatim>\<open>dwarf_loader.c\<close> and \<^verbatim>\<open>dwarves.c\<close>): a unit is made, its entries are processed
  and recoded, the sizes of the members are cached, and the unit is kept, deleted or stops the
  loading. A module is the list of its units of types and the list of its compilation units, as
  libdw returns them one after the other. The choice of the loader by its name ends the theory.
\<close>

section \<open>Units\<close>

definition DWARF_CB_OK :: int where
  "DWARF_CB_OK = 0"

definition DWARF_CB_ABORT :: int where
  "DWARF_CB_ABORT = 1"

datatype load_steal_kind = LSK__KEEPIT | LSK__DELETE | LSK__STOP_LOADING

record conf_load =
  cf_steal :: "(cu \<Rightarrow> load_steal_kind) option"
  cf_format_path :: "string option"
  cf_extra_dbg_info :: bool
  cf_fixup_silly_bitfields :: bool
  cf_get_addr_info :: bool

definition cu__new :: "bool \<Rightarrow> string \<Rightarrow> u8 \<Rightarrow> bool lm" where
  \<comment> \<open>whether a unit was made; \<open>alloc\<close>: there is memory for it and its names\<close>
  "cu__new alloc name addr_size s =
     (if \<not> alloc then Inr (False, s)
      else bindE (ptr_table__add (ls_table_alloc s) None ptr_table__init) (\<lambda>(rc, types_table).
        if rc < 0 then Inr (False, s)
        else Inr (True, s \<lparr> ls_types_table := types_table, ls_functions_table := ptr_table__init,
          ls_tags_table := ptr_table__init, ls_tags := [], ls_functions := [], ls_name := name,
          ls_addr_size := addr_size, ls_extra_dbg_info := False \<rparr>)))"

definition dwarf_cu__init :: "lst \<Rightarrow> lst" where
  "dwarf_cu__init s = s \<lparr> ls_hash_tags := replicate 256 [], ls_hash_types := replicate 256 [],
     ls_type_unit := No_Type_Unit \<rparr>"

definition new_unit :: "bool \<Rightarrow> conf_load option \<Rightarrow> type_unit \<Rightarrow> string \<Rightarrow> u8 \<Rightarrow> bool lm" where
  "new_unit alloc conf tu name pointer_size = bindL (cu__new alloc name pointer_size) (\<lambda>made s.
     if \<not> made then Inr (False, s)
     else Inr (True, (dwarf_cu__init s) \<lparr>
       ls_extra_dbg_info := (case conf of Some cf \<Rightarrow> cf_extra_dbg_info cf | None \<Rightarrow> False),
       ls_has_addr_info := (case conf of Some cf \<Rightarrow> cf_get_addr_info cf | None \<Rightarrow> False),
       ls_type_unit := tu \<rparr>))"

section \<open>Sizes of members\<close>

definition tag__is_const :: "tag \<Rightarrow> bool" where
  "tag__is_const t \<longleftrightarrow> tag_tag t = DW_TAG_const_type"

definition tag__is_volatile :: "tag \<Rightarrow> bool" where
  "tag__is_volatile t \<longleftrightarrow> tag_tag t = DW_TAG_volatile_type"

partial_function (option) skip_qualifiers :: "cu \<Rightarrow> tag option \<Rightarrow> tag res option" where
  \<comment> \<open>the label \<open>check_volatile\<close>\<close>
  "skip_qualifiers cu type = (case type of
       None \<Rightarrow> Some (ub ''null pointer'')
     | Some t \<Rightarrow> if tag__is_volatile t \<or> tag__is_const t then bindR (tag__follow_typedef cu t) (skip_qualifiers cu)
         else retR t)"

declare skip_qualifiers.simps [code]

definition integral_sizes :: "strings_t list \<Rightarrow> cu \<Rightarrow> tag \<Rightarrow> (u16 \<times> u64) res" where
  \<comment> \<open>\<open>type_bit_size\<close> and \<open>integral_bit_size\<close>\<close>
  "integral_sizes snames cu t =
     (if tag__is_enumeration t then bindE (tag__type t) (\<lambda>(ty, ts). Inr (ucast (ty_size ty), 4 * 8))
      else bindE (tag__base_type t) (\<lambda>bt.
        bindE (base_type__name_to_size snames cu bt) (\<lambda>integral. Inr (bt_bit_size bt, integral))))"

definition cache_bitfield :: "bool \<Rightarrow> u16 \<Rightarrow> u64 \<Rightarrow> class_member \<Rightarrow> class_member" where
  "cache_bitfield fixup type_bit_size integral_bit_size cm =
     (let cm1 = cm \<lparr> cm_byte_size := integral_bit_size div 8 \<rparr> in
      if integral_bit_size = 0 then cm1
      else if ucast type_bit_size = integral_bit_size
      then let cm2 = cm1 \<lparr> cm_bit_size := ucast integral_bit_size \<rparr> in
           if fixup then cm2 \<lparr> cm_bitfield_size := 0, cm_bitfield_offset := 0 \<rparr> else cm2
      else cm1 \<lparr> cm_bit_size := ucast type_bit_size \<rparr>)"

definition class_member__cache_byte_size :: "strings_t list \<Rightarrow> conf_load option \<Rightarrow> nat \<Rightarrow> int lr" where
  "class_member__cache_byte_size snames conf a =
     bindLR (stepL (get_obj a)) (\<lambda>ob.
     if o_tag ob \<noteq> DW_TAG_member \<and> o_tag ob \<noteq> DW_TAG_inheritance then stepL (retL 0)
     else (case o_body ob of
         O_Member cm cv acc \<Rightarrow>
           if o_tag ob = DW_TAG_member \<and> cm_is_static cm then stepL (retL 0)
           else if cm_bitfield_size cm \<noteq> 0
           then (\<lambda>s. bindR (tag__follow_typedef (cu_of s) (tag_of s a)) (\<lambda>type.
             bindR (skip_qualifiers (cu_of s) type) (\<lambda>t.
             bindR (Some (integral_sizes snames (cu_of s) t)) (\<lambda>(type_bit_size, integral_bit_size).
             stepL (bindL (set_body a (O_Member (cache_bitfield
                 (case conf of Some cf \<Rightarrow> cf_fixup_silly_bitfields cf | None \<Rightarrow> False)
                 type_bit_size integral_bit_size cm) cv acc)) (\<lambda>_. retL 0)) s))))
           else (\<lambda>s. bindR (tag__size (cu_of s) (tag_of s a)) (\<lambda>sz.
             stepL (bindL (set_body a (O_Member (cm \<lparr> cm_byte_size := sz, cm_bit_size := ucast (sz * 8) \<rparr>) cv acc))
               (\<lambda>_. retL 0)) s))
       | _ \<Rightarrow> stepL (failL ''tag__class_member'')))"

definition sublists :: "obj \<Rightarrow> (nat list \<times> nat list) res" where
  \<comment> \<open>the lists of tags below a tag that \<open>list__for_all_tags\<close> walks, in this order\<close>
  "sublists ob =
     (if tag__has_namespace (obj_head ob)
      then (case o_body ob of
          O_Namespace ns ts \<Rightarrow> Inr (if ns_shared_tags ns then [] else ts, [])
        | O_Type ty ts \<Rightarrow> Inr (if ns_shared_tags (ty_namespace ty) then [] else ts, [])
        | O_Class ty cl ts vt \<Rightarrow> Inr (if ns_shared_tags (ty_namespace ty) then [] else ts, [])
        | _ \<Rightarrow> ub ''tag__namespace'')
      else if tag__is_function (obj_head ob)
      then (case o_body ob of O_Function ft lb ts fn fa \<Rightarrow> Inr (of_parms ft, ts) | _ \<Rightarrow> ub ''tag__function'')
      else if o_tag ob = DW_TAG_subroutine_type
      then (case o_body ob of O_Ftype ft \<Rightarrow> Inr (of_parms ft, []) | _ \<Rightarrow> ub ''tag__ftype'')
      else if o_tag ob = DW_TAG_lexical_block
      then (case o_body ob of O_Lexblock lb ts \<Rightarrow> Inr (ts, []) | _ \<Rightarrow> ub ''tag__lexblock'')
      else Inr ([], []))"

partial_function (option) list__for_all_tags ::
  "(nat \<Rightarrow> lst \<Rightarrow> (int \<times> lst) run) \<Rightarrow> nat list \<Rightarrow> lst \<Rightarrow> (int \<times> lst) run" where
  \<comment> \<open>the list in the order of the loop, from its end\<close>
  "list__for_all_tags iterator list s = (case list of
       [] \<Rightarrow> retR (0, s)
     | pos # rest \<Rightarrow>
         bindR (Some (get_obj pos s)) (\<lambda>p.
         bindR (Some (sublists (fst p))) (\<lambda>below.
         bindR (list__for_all_tags iterator (rev (fst below)) s) (\<lambda>r1.
         if fst r1 \<noteq> 0 then retR (1, snd r1)
         else bindR (list__for_all_tags iterator (rev (snd below)) (snd r1)) (\<lambda>r2.
         if fst r2 \<noteq> 0 then retR (1, snd r2)
         else bindR (iterator pos (snd r2)) (\<lambda>r3.
         if fst r3 \<noteq> 0 then retR (1, snd r3)
         else list__for_all_tags iterator rest (snd r3)))))))"

declare list__for_all_tags.simps [code]

definition cu__for_all_tags :: "(nat \<Rightarrow> lst \<Rightarrow> (int \<times> lst) run) \<Rightarrow> int lr" where
  "cu__for_all_tags iterator s = list__for_all_tags iterator (rev (ls_tags s)) s"

definition finalize_cu :: "conf_load option \<Rightarrow> strings_t list \<Rightarrow> (load_steal_kind \<times> strings_t list) lr" where
  "finalize_cu conf snames s =
     bindR (Some (base_type_name_to_size_table__init (ls_strings s) base_type_name_to_size_table snames)) (\<lambda>snames1.
     bindR (cu__for_all_tags (class_member__cache_byte_size snames1 conf) s) (\<lambda>(err, s1).
       retR ((case conf of
           Some cf \<Rightarrow> (case cf_steal cf of Some steal \<Rightarrow> steal (cu_of s1) | None \<Rightarrow> LSK__KEEPIT)
         | None \<Rightarrow> LSK__KEEPIT, snames1), s1)))"

section \<open>Modules\<close>

record loaded =
  ld_cus :: "cu list"
  ld_snames :: "strings_t list"

definition finalize_cu_immediately :: "conf_load option \<Rightarrow> loaded \<Rightarrow> (load_steal_kind \<times> loaded) lr" where
  "finalize_cu_immediately conf ld =
     bindLR (finalize_cu conf (ld_snames ld)) (\<lambda>(lsk, snames) s.
       retR ((lsk, \<lparr> ld_cus = (if lsk = LSK__KEEPIT then ld_cus ld @ [cu_of s] else ld_cus ld),
         ld_snames = snames \<rparr>), s))"

fun load_type_units :: "bool \<Rightarrow> conf_load option \<Rightarrow> (u8 \<times> die) list \<Rightarrow> bool \<Rightarrow> (int \<times> bool) lm" where
  \<comment> \<open>the loop of \<open>cus__load_debug_types\<close>: all type units go into one unit, made for the first; the flag says that there is one\<close>
  "load_type_units alloc conf [] made = retL (0, made)"
| "load_type_units alloc conf ((pointer_size, die) # units) made =
     bindL (if made then retL True else new_unit alloc conf Own_Type_Unit '''' pointer_size) (\<lambda>ok.
     if \<not> ok then retL (DWARF_CB_ABORT, made)
     else bindL (die__process die) (\<lambda>err.
       if err \<noteq> 0 then retL (DWARF_CB_ABORT, True) else load_type_units alloc conf units True))"

definition cus__load_debug_types :: "bool \<Rightarrow> conf_load option \<Rightarrow> (u8 \<times> die) list \<Rightarrow> (int \<times> bool) lr" where
  "cus__load_debug_types alloc conf units =
     bindLR (stepL (load_type_units alloc conf units False)) (\<lambda>(res, made).
     if res \<noteq> 0 then stepL (retL (res, made))
     else if made
     then bindLR cu__recode_dwarf_types (\<lambda>err. stepL (retL (if err \<noteq> 0 then DWARF_CB_ABORT else 0, True)))
     else stepL (retL (0, False)))"

fun load_units ::
  "bool \<Rightarrow> conf_load option \<Rightarrow> type_unit \<Rightarrow> (u8 \<times> die) list \<Rightarrow> loaded \<Rightarrow> (int \<times> loaded) lr" where
  "load_units alloc conf tu [] ld = stepL (retL (DWARF_CB_OK, ld))"
| "load_units alloc conf tu ((pointer_size, die) # units) ld =
     (let name = (case attr_string (die_info die) DW_AT_name of Some n \<Rightarrow> n | None \<Rightarrow> '''') in
      bindLR (stepL (new_unit alloc conf tu name pointer_size)) (\<lambda>made.
      if \<not> made then stepL (retL (DWARF_CB_ABORT, ld))
      else bindLR (die__process_and_recode die) (\<lambda>err.
      if err \<noteq> 0 then stepL (retL (DWARF_CB_ABORT, ld))
      else bindLR (finalize_cu_immediately conf ld) (\<lambda>(lsk, ld1).
      if lsk = LSK__STOP_LOADING then stepL (retL (DWARF_CB_ABORT, ld1))
      else load_units alloc conf tu units ld1))))"

definition cus__load_module ::
  "bool \<Rightarrow> conf_load option \<Rightarrow> (u8 \<times> die) list \<Rightarrow> (u8 \<times> die) list \<Rightarrow> loaded \<Rightarrow> (int \<times> loaded) lr" where
  \<comment> \<open>the units of types, then the compilation units\<close>
  "cus__load_module alloc conf type_units units ld =
     bindLR (cus__load_debug_types alloc conf type_units) (\<lambda>(res, made).
     if res \<noteq> 0 then stepL (retL (res, ld))
     else if made
     then bindLR (finalize_cu conf (ld_snames ld)) (\<lambda>(type_lsk, snames) s.
       load_units alloc conf (Other_Type_Unit (ls_hash_types s)) units
         \<lparr> ld_cus = (if type_lsk = LSK__KEEPIT then ld_cus ld @ [cu_of s] else ld_cus ld), ld_snames = snames \<rparr> s)
     else load_units alloc conf No_Type_Unit units ld)"

section \<open>Formats\<close>

definition ENOTSUP :: int where
  "ENOTSUP = 95"

definition debug_fmt_table :: "string list" where
  "debug_fmt_table = [''dwarf'']"

fun format_index :: "string list \<Rightarrow> string \<Rightarrow> int \<Rightarrow> int" where
  "format_index [] name i = - 1"
| "format_index (f # fs) name i = (if f = name then i else format_index fs name (i + 1))"

definition debugging_formats__loader :: "string \<Rightarrow> int" where
  "debugging_formats__loader name = format_index debug_fmt_table name 0"

fun format_path_loop :: "(int \<Rightarrow> 's \<Rightarrow> int \<times> 's) \<Rightarrow> string list \<Rightarrow> 's \<Rightarrow> int \<times> 's" where
  \<comment> \<open>the names of the path one after the other; \<open>load_file\<close> is called with the number of the format\<close>
  "format_path_loop load_file [] s = (- EINVAL, s)"
| "format_path_loop load_file (fp # fps) s =
     (let loader = debugging_formats__loader fp in
      if loader = - 1 then (- ENOTSUP, s)
      else let (err, s1) = load_file loader s in
        if err = 0 then (0, s1) else format_path_loop load_file fps s1)"

fun format_table_loop :: "(int \<Rightarrow> 's \<Rightarrow> int \<times> 's) \<Rightarrow> string list \<Rightarrow> int \<Rightarrow> 's \<Rightarrow> int \<times> 's" where
  "format_table_loop load_file [] i s = (- EINVAL, s)"
| "format_table_loop load_file (f # fs) i s =
     (let (err, s1) = load_file i s in if err = 0 then (0, s1) else format_table_loop load_file fs (i + 1) s1)"

fun split_path :: "string \<Rightarrow> string list" where
  \<comment> \<open>at the commas\<close>
  "split_path [] = [[]]"
| "split_path (c # cs) =
     (if c = CHR '','' then [] # split_path cs else (case split_path cs of p # ps \<Rightarrow> (c # p) # ps | [] \<Rightarrow> [[c]]))"

definition cus__load_file :: "bool \<Rightarrow> (int \<Rightarrow> 's \<Rightarrow> int \<times> 's) \<Rightarrow> conf_load option \<Rightarrow> 's \<Rightarrow> int \<times> 's" where
  \<comment> \<open>\<open>alloc\<close>: \<open>strdup\<close> gets its memory\<close>
  "cus__load_file alloc load_file conf s = (case conf of
       Some cf \<Rightarrow> (case cf_format_path cf of
           Some path \<Rightarrow> if alloc then format_path_loop load_file (split_path path) s else (- ENOMEM, s)
         | None \<Rightarrow> format_table_loop load_file debug_fmt_table 0 s)
     | None \<Rightarrow> format_table_loop load_file debug_fmt_table 0 s)"

fun load_files_loop :: "(string \<Rightarrow> 's \<Rightarrow> int \<times> 's) \<Rightarrow> string list \<Rightarrow> int \<Rightarrow> 's \<Rightarrow> int \<times> 's" where
  "load_files_loop load [] i s = (0, s)"
| "load_files_loop load (f # fs) i s =
     (let (err, s1) = load f s in if err \<noteq> 0 then (- i, s1) else load_files_loop load fs (i + 1) s1)"

definition cus__load_files :: "(string \<Rightarrow> 's \<Rightarrow> int \<times> 's) \<Rightarrow> string list \<Rightarrow> 's \<Rightarrow> int \<times> 's" where
  "cus__load_files load filenames s = load_files_loop load filenames 0 s"

end
