(* ===== verification/Dwarf_Inv.thy ===== *)
theory Dwarf_Inv
  imports Dwarf_Load
begin

text \<open>
  What the first pass of the loader keeps: a tag and its shadow record refer to each other, the
  table of types is a table of type tags, a record in the hash table of types carries the number
  under which the table holds its tag, and every type in the table is in the hash table under the
  offset of its entry. The last two hold for every tag but the one that is just being entered.
\<close>

section \<open>Pointer tables\<close>

definition pt_ok :: "'a ptr_table \<Rightarrow> bool" where
  "pt_ok pt \<longleftrightarrow> length (pt_entries pt) = unat (pt_allocated_entries pt) \<and>
     pt_nr_entries pt \<le> pt_allocated_entries pt \<and>
     (\<forall>i < unat (pt_nr_entries pt). pt_entries pt ! i \<noteq> None)"

definition pt_at :: "'a ptr_table \<Rightarrow> nat \<Rightarrow> 'a option" where
  \<comment> \<open>the pointer at a place below the number of entries\<close>
  "pt_at pt i = (if i < unat (pt_nr_entries pt) then the (pt_entries pt ! i) else None)"

definition pt_le :: "'a ptr_table \<Rightarrow> 'a ptr_table \<Rightarrow> bool" where
  \<comment> \<open>grown at its end\<close>
  "pt_le pt pt' \<longleftrightarrow> unat (pt_nr_entries pt) \<le> unat (pt_nr_entries pt') \<and>
     (\<forall>i < unat (pt_nr_entries pt). pt_at pt' i = pt_at pt i)"

lemma pt_le_refl [simp]: "pt_le pt pt"
  by (simp add: pt_le_def)

lemma pt_le_trans: "pt_le a b \<Longrightarrow> pt_le b c \<Longrightarrow> pt_le a c"
  by (auto simp: pt_le_def)

lemma pt_ok_init [simp]: "pt_ok ptr_table__init"
  by (simp add: pt_ok_def ptr_table__init_def)

lemma load_entry_at:
  assumes "pt_ok pt" and "i < pt_nr_entries pt"
  shows "load_entry pt i = Inr (pt_at pt (unat i))"
proof -
  have "unat i < unat (pt_nr_entries pt)" using assms(2) by (simp add: word_less_nat_alt)
  moreover have "unat (pt_nr_entries pt) \<le> length (pt_entries pt)"
    using assms(1) by (simp add: pt_ok_def word_le_nat_alt)
  ultimately show ?thesis using assms(1) by (auto simp: load_entry_def pt_at_def pt_ok_def split: option.split)
qed

lemma ptr_table__entry_at: "pt_ok pt \<Longrightarrow> ptr_table__entry pt i = Inr (pt_at pt (unat i))"
  using load_entry_at[of pt i] by (auto simp: ptr_table__entry_def pt_at_def word_le_nat_alt word_less_nat_alt)

lemma ptr_table__add_run:
  assumes ok: "pt_ok pt" and add: "ptr_table__add (\<lambda>_. True) p pt = Inr (rc, pt')"
  shows "rc = int (unat (pt_nr_entries pt))" and "unat (pt_nr_entries pt') = unat (pt_nr_entries pt) + 1"
    and "pt_ok pt'" and "pt_le pt pt'" and "pt_at pt' (unat (pt_nr_entries pt)) = p"
proof -
  let ?n = "unat (pt_nr_entries pt)"
  define pt1 where "pt1 = (if pt_allocated_entries pt < pt_nr_entries pt + 1
    then pt \<lparr> pt_allocated_entries := pt_allocated_entries pt + 256,
              pt_entries := realloc_entries (pt_allocated_entries pt + 256) (pt_entries pt) \<rparr> else pt)"
  have len: "?n \<le> length (pt_entries pt)" using ok by (simp add: pt_ok_def word_le_nat_alt)
  from add have st: "?n < length (pt_entries pt1)" and rc: "rc = int ?n"
    and pt': "pt' = pt1 \<lparr> pt_entries := (pt_entries pt1)[?n := Some p], pt_nr_entries := pt_nr_entries pt + 1 \<rparr>"
    unfolding ptr_table__add_def Let_def pt1_def[symmetric] store_entry_def
    by (auto simp: res_simps split: if_splits)
  have len1: "length (pt_entries pt1) = unat (pt_allocated_entries pt1)"
    using ok by (auto simp: pt1_def realloc_entries_def pt_ok_def)
  have keep: "pt_entries pt1 ! i = pt_entries pt ! i" if "i < ?n" for i
    using that st len by (auto simp: pt1_def realloc_entries_def nth_append split: if_splits)
  have "?n < unat (pt_allocated_entries pt1)" using st len1 by simp
  then have less: "?n + 1 < 2 ^ 32" using unsigned_less[of "pt_allocated_entries pt1", where ?'a = nat] by simp
  show rc': "rc = int ?n" by (rule rc)
  show n: "unat (pt_nr_entries pt') = ?n + 1" using less by (simp add: pt' unat_word_ariths)
  show at: "pt_at pt' ?n = p" using st n by (simp add: pt_at_def) (simp add: pt')
  have old: "pt_entries pt' ! i = pt_entries pt ! i" if "i < ?n" for i using keep[OF that] that by (simp add: pt')
  show "pt_le pt pt'" using n old by (simp add: pt_le_def pt_at_def)
  have new: "pt_entries pt' ! ?n = Some p" using st by (simp add: pt')
  have "pt_entries pt' ! i \<noteq> None" if "i < ?n + 1" for i
    using that old new ok by (cases "i = ?n") (auto simp: pt_ok_def)
  moreover have "length (pt_entries pt') = unat (pt_allocated_entries pt')" using len1 by (simp add: pt')
  moreover have "?n + 1 \<le> unat (pt_allocated_entries pt')" using st len1 by (simp add: pt')
  ultimately show "pt_ok pt'" using n by (simp add: pt_ok_def word_le_nat_alt)
qed

section \<open>The hash table is a map\<close>

definition bucket_of :: "u64 \<Rightarrow> nat" where
  "bucket_of i = unat (drop_bit 56 (i * GOLDEN_RATIO_PRIME_64))"

lemma bucket_of_less: "bucket_of i < 256"
  using hash_64_range[of 8 "i * GOLDEN_RATIO_PRIME_64"] by (simp add: bucket_of_def)

lemma hashtags__fn_run: "\<exists>h. hashtags__fn i = Inr h \<and> unat h = bucket_of i \<and> unat (ucast h :: u16) = bucket_of i"
proof -
  let ?h = "drop_bit 56 (i * GOLDEN_RATIO_PRIME_64) :: u64"
  have "hashtags__fn i = Inr ?h" by (simp add: hashtags__fn_def HASHTAGS__BITS_def hash_64_mult)
  moreover have "unat (ucast ?h :: u16) = unat ?h"
    using bucket_of_less[of i] by (simp add: bucket_of_def unsigned_ucast_eq take_bit_eq_mod)
  ultimately show ?thesis by (auto simp: bucket_of_def)
qed

lemma hashtags__hash_run:
  assumes "length h = 256"
  shows "hashtags__hash d i h = Inr (h[bucket_of i := d # h ! bucket_of i])"
  using hashtags__fn_run[of i] bucket_of_less[of i] assms by (auto simp: hashtags__hash_def)

lemma hashtags_search_run:
  assumes "\<forall>d \<in> set ds. d < length dtags"
  shows "hashtags_search dtags i ds = Inr (find (\<lambda>d. dt_id (dtags ! d) = i) ds)"
  using assms by (induction ds) auto

lemma hashtags__find_run:
  assumes "length h = 256" and "\<forall>b \<in> set h. \<forall>d \<in> set b. d < length dtags"
  shows "hashtags__find dtags h i =
    Inr (if i = 0 then None else find (\<lambda>d. dt_id (dtags ! d) = i) (h ! bucket_of i))"
proof -
  have "h ! bucket_of i \<in> set h" using assms(1) bucket_of_less[of i] by simp
  then have "hashtags_search dtags i (h ! bucket_of i) = Inr (find (\<lambda>d. dt_id (dtags ! d) = i) (h ! bucket_of i))"
    using assms(2) by (intro hashtags_search_run) auto
  then show ?thesis
    using hashtags__fn_run[of i] bucket_of_less[of i] assms(1) by (auto simp: hashtags__find_def)
qed

section \<open>The invariant\<close>

abbreviation obj_at :: "lst \<Rightarrow> nat \<Rightarrow> obj" where
  "obj_at s a \<equiv> ls_objs s ! a"

abbreviation dtag_at :: "lst \<Rightarrow> nat \<Rightarrow> dwarf_tag" where
  "dtag_at s d \<equiv> ls_dtags s ! d"

abbreviation is_type :: "lst \<Rightarrow> nat \<Rightarrow> bool" where
  "is_type s a \<equiv> tag__is_tag_type (obj_head (obj_at s a))"

definition links :: "lst \<Rightarrow> bool" where
  \<comment> \<open>a tag and its shadow record refer to each other\<close>
  "links s \<longleftrightarrow>
     (\<forall>d < length (ls_dtags s). dt_tag (dtag_at s d) < length (ls_objs s) \<and>
        o_priv (obj_at s (dt_tag (dtag_at s d))) = Some d) \<and>
     (\<forall>a < length (ls_objs s). \<forall>d. o_priv (obj_at s a) = Some d \<longrightarrow>
        d < length (ls_dtags s) \<and> dt_tag (dtag_at s d) = a)"

definition numbered :: "lst \<Rightarrow> nat \<Rightarrow> bool" where
  \<comment> \<open>unless there are more types than numbers\<close>
  "numbered s d \<longleftrightarrow> (unat (pt_nr_entries (ls_types_table s)) \<le> 65536 \<longrightarrow>
     pt_at (ls_types_table s) (unat (dt_small_id (dtag_at s d))) = Some (dt_tag (dtag_at s d)))"

definition hashed :: "lst \<Rightarrow> nat \<Rightarrow> bool" where
  "hashed s d \<longleftrightarrow> d \<in> set (ls_hash_types s ! bucket_of (dt_id (dtag_at s d)))"

definition hash_ok :: "lst \<Rightarrow> bool" where
  "hash_ok s \<longleftrightarrow> length (ls_hash_types s) = 256 \<and> length (ls_hash_tags s) = 256 \<and>
     (\<forall>b \<in> set (ls_hash_types s). \<forall>d \<in> set b. d < length (ls_dtags s) \<and> is_type s (dt_tag (dtag_at s d))) \<and>
     (\<forall>b \<in> set (ls_hash_tags s). \<forall>d \<in> set b. d < length (ls_dtags s))"

definition unit_tables_ok :: "lst \<Rightarrow> bool" where
  "unit_tables_ok s \<longleftrightarrow> pt_ok (ls_types_table s) \<and> pt_ok (ls_functions_table s) \<and> pt_ok (ls_tags_table s) \<and>
     0 < unat (pt_nr_entries (ls_types_table s)) \<and> pt_at (ls_types_table s) 0 = None \<and>
     (\<forall>i a. pt_at (ls_types_table s) i = Some a \<longrightarrow> a < length (ls_objs s) \<and> is_type s a)"

definition inv_but :: "nat set \<Rightarrow> lst \<Rightarrow> bool" where
  "inv_but X s \<longleftrightarrow> links s \<and> hash_ok s \<and> unit_tables_ok s \<and> ls_table_alloc s = (\<lambda>_. True) \<and>
     (\<forall>b \<in> set (ls_hash_types s). \<forall>d \<in> set b. dt_tag (dtag_at s d) \<notin> X \<longrightarrow> numbered s d) \<and>
     (\<forall>i a d. pt_at (ls_types_table s) i = Some a \<longrightarrow> a \<notin> X \<longrightarrow> o_priv (obj_at s a) = Some d \<longrightarrow> hashed s d)"

abbreviation inv :: "lst \<Rightarrow> bool" where
  "inv \<equiv> inv_but {}"

definition named_body :: "obj_body \<Rightarrow> bool" where
  \<comment> \<open>bodies the second pass gives a name, and those of members\<close>
  "named_body b \<longleftrightarrow> (case b of
       O_Parameter name \<Rightarrow> True
     | O_Variable v \<Rightarrow> True
     | O_Label addr name \<Rightarrow> True
     | O_Member cm cv acc \<Rightarrow> True
     | _ \<Rightarrow> False)"

lemma named_body_simps [simp]:
  "named_body (O_Parameter name)" "named_body (O_Variable v)" "named_body (O_Label addr name)" "named_body (O_Member cm cv acc)"
  "\<not> named_body O_Plain" "\<not> named_body (O_Base bt)" "\<not> named_body (O_Array at)" "\<not> named_body (O_Ptr_To_Member c)"
  "\<not> named_body (O_Ftype ft)" "\<not> named_body (O_Enumerator n x)" "\<not> named_body (O_Inline y z)"
  "\<not> named_body (O_Type ty ts)" "\<not> named_body (O_Class ty cl ts vt)" "\<not> named_body (O_Namespace ns ts)"
  "\<not> named_body (O_Lexblock lb ts)" "\<not> named_body (O_Function ft lb ts fn fa)"
  by (simp_all add: named_body_def)

definition reference_tags :: "u16 set" where
  \<comment> \<open>the tags of types that refer to another type\<close>
  "reference_tags = {DW_TAG_array_type, DW_TAG_base_type, DW_TAG_const_type, DW_TAG_pointer_type, DW_TAG_reference_type,
     DW_TAG_volatile_type, DW_TAG_ptr_to_member_type, DW_TAG_typedef, DW_TAG_subroutine_type}"

definition grow :: "nat set \<Rightarrow> lst \<Rightarrow> lst \<Rightarrow> bool" where
  \<comment> \<open>what a later state keeps; the bodies of the objects in \<open>A\<close> may change\<close>
  "grow A s s' \<longleftrightarrow>
     length (ls_objs s) \<le> length (ls_objs s') \<and> length (ls_dtags s) \<le> length (ls_dtags s') \<and>
     (\<forall>a < length (ls_objs s). o_tag (obj_at s' a) = o_tag (obj_at s a) \<and> o_priv (obj_at s' a) = o_priv (obj_at s a) \<and>
        o_type (obj_at s' a) = o_type (obj_at s a) \<and> named_body (o_body (obj_at s' a)) = named_body (o_body (obj_at s a)) \<and>
        (a \<notin> A \<longrightarrow> o_body (obj_at s' a) = o_body (obj_at s a))) \<and>
     (\<forall>d < length (ls_dtags s). dt_id (dtag_at s' d) = dt_id (dtag_at s d) \<and>
        dt_type (dtag_at s' d) = dt_type (dtag_at s d) \<and> dt_tag (dtag_at s' d) = dt_tag (dtag_at s d)) \<and>
     pt_le (ls_types_table s) (ls_types_table s') \<and> pt_le (ls_functions_table s) (ls_functions_table s') \<and>
     pt_le (ls_tags_table s) (ls_tags_table s') \<and>
     (\<forall>k < 256. set (ls_hash_types s ! k) \<subseteq> set (ls_hash_types s' ! k)) \<and>
     ls_language s' = ls_language s \<and> ls_type_unit s' = ls_type_unit s"

lemma grow_refl [simp]: "grow A s s"
  by (simp add: grow_def)

lemma grow_trans:
  assumes "grow A s s1" and "grow A s1 s2"
  shows "grow A s s2"
  using assms unfolding grow_def by (auto intro: pt_le_trans) (meson subsetD)+

lemma grow_mono: "grow A s s' \<Longrightarrow> A \<subseteq> B \<Longrightarrow> grow B s s'"
  unfolding grow_def by auto

lemma grow_any: "grow {} s s' \<Longrightarrow> grow A s s'"
  by (rule grow_mono) auto

lemma grow_new:
  \<comment> \<open>a change of a new object changes no older one\<close>
  assumes "grow A s s1" and "grow (insert a A) s1 s'" and "length (ls_objs s) \<le> a"
  shows "grow A s s'"
proof -
  have "grow (insert a A) s s'" using grow_mono[OF assms(1), of "insert a A"] assms(2) grow_trans by blast
  with assms(3) show ?thesis unfolding grow_def by auto
qed

section \<open>New objects\<close>

definition rest :: "lst \<Rightarrow> lst" where
  \<comment> \<open>the part of the state a constructor leaves alone\<close>
  "rest s = s \<lparr> ls_objs := [], ls_dtags := [], ls_strings := strings__new, ls_last_decl_file := None,
     ls_last_decl_file_idx := 0 \<rparr>"

lemma rest_update [simp]:
  "rest (s \<lparr> ls_objs := x \<rparr>) = rest s" "rest (s \<lparr> ls_dtags := y \<rparr>) = rest s"
  "rest (s \<lparr> ls_strings := z \<rparr>) = rest s" "rest (s \<lparr> ls_last_decl_file := v \<rparr>) = rest s"
  "rest (s \<lparr> ls_last_decl_file_idx := w \<rparr>) = rest s"
  by (simp_all add: rest_def)

lemma rest_fields:
  assumes "rest s' = rest s"
  shows "ls_types_table s' = ls_types_table s" "ls_functions_table s' = ls_functions_table s"
    "ls_tags_table s' = ls_tags_table s" "ls_hash_types s' = ls_hash_types s" "ls_hash_tags s' = ls_hash_tags s"
    "ls_table_alloc s' = ls_table_alloc s" "ls_language s' = ls_language s" "ls_type_unit s' = ls_type_unit s"
  using arg_cong[OF assms, of ls_types_table] arg_cong[OF assms, of ls_functions_table]
    arg_cong[OF assms, of ls_tags_table] arg_cong[OF assms, of ls_hash_types] arg_cong[OF assms, of ls_hash_tags]
    arg_cong[OF assms, of ls_table_alloc] arg_cong[OF assms, of ls_language] arg_cong[OF assms, of ls_type_unit]
  by (simp_all add: rest_def)

definition made :: "lst \<Rightarrow> obj \<Rightarrow> dwarf_tag \<Rightarrow> lst \<Rightarrow> bool" where
  \<comment> \<open>one object more, with its shadow record\<close>
  "made s ob dt s' \<longleftrightarrow> o_priv ob = Some (length (ls_dtags s)) \<and> dt_tag dt = length (ls_objs s) \<and> o_type ob = 0 \<and>
     ls_objs s' = ls_objs s @ [ob] \<and> ls_dtags s' = ls_dtags s @ [dt] \<and> rest s' = rest s"

definition die_type :: "die_info \<Rightarrow> dwarf_off_ref" where
  \<comment> \<open>the reference \<open>tag__init\<close> keeps\<close>
  "die_type di = attr_type di (if di_tag di = DW_TAG_imported_module \<or> di_tag di = DW_TAG_imported_declaration
     then DW_AT_import else DW_AT_type)"

lemma add_string_run:
  "add_string str s = Inr (i, s') \<Longrightarrow> ls_objs s' = ls_objs s \<and> ls_dtags s' = ls_dtags s \<and> rest s' = rest s"
  by (auto simp: add_string_def res_simps)

lemma decl_info_run:
  "decl_info di s = Inr (p, s') \<Longrightarrow> ls_objs s' = ls_objs s \<and> ls_dtags s' = ls_dtags s \<and> rest s' = rest s"
  using add_string_run by (auto simp: decl_info_def Let_def res_simps split: if_splits)

lemma made_add_string: "made s ob dt s1 \<Longrightarrow> add_string str s1 = Inr (i, s2) \<Longrightarrow> made s ob dt s2"
  using add_string_run[of str s1 i s2] by (simp add: made_def)

lemma made_decl_info: "made s ob dt s1 \<Longrightarrow> decl_info di s1 = Inr (p, s2) \<Longrightarrow> made s ob dt s2"
  using decl_info_run[of di s1 p s2] by (simp add: made_def)

lemma made_get_obj:
  "made s ob dt s1 \<Longrightarrow> get_obj (length (ls_objs s)) s1 = Inr (ob1, s2) \<Longrightarrow> s2 = s1 \<and> ob1 = ob"
  by (simp add: made_def get_obj_def)

lemma made_priv:
  "made s ob dt s1 \<Longrightarrow> priv (length (ls_objs s)) s1 = Inr ((d, dt1), s2) \<Longrightarrow>
   s2 = s1 \<and> d = length (ls_dtags s) \<and> dt1 = dt"
  by (auto simp: made_def priv_def get_obj_def get_dtag_def res_simps split: option.splits)

lemma made_set_dtag:
  "made s ob dt s1 \<Longrightarrow> set_dtag (length (ls_dtags s)) dt' s1 = Inr (u, s2) \<Longrightarrow> dt_tag dt' = dt_tag dt \<Longrightarrow>
   made s ob dt' s2"
  by (auto simp: made_def set_dtag_def)

lemma made_set_obj:
  "made s ob dt s1 \<Longrightarrow> set_obj (length (ls_objs s)) ob' s1 = Inr (u, s2) \<Longrightarrow> o_priv ob' = o_priv ob \<Longrightarrow>
   o_type ob' = o_type ob \<Longrightarrow> made s ob' dt s2"
  by (auto simp: made_def set_obj_def)

lemma made_set_body:
  "made s ob dt s1 \<Longrightarrow> set_body (length (ls_objs s)) b s1 = Inr (u, s2) \<Longrightarrow> made s (ob \<lparr> o_body := b \<rparr>) dt s2"
  by (auto simp: made_def set_body_def get_obj_def set_obj_def res_simps)

lemma tag__alloc_made:
  assumes "tag__alloc spec s = Inr (a, s')"
  shows "a = length (ls_objs s) \<and> (\<exists>ob dt. made s ob dt s' \<and> o_body ob = O_Plain)"
  using assms by (auto simp: tag__alloc_def made_def Let_def)

lemma tag__init_made:
  assumes m: "made s ob dt s1" and i: "tag__init (length (ls_objs s)) di s1 = Inr (u, s2)"
  shows "\<exists>dt'. made s (ob \<lparr> o_tag := di_tag di \<rparr>) dt' s2 \<and> dt_id dt' = di_offset di \<and> dt_type dt' = die_type di \<and>
    dt_spec dt' = dt_spec dt \<and> dt_origin dt' = attr_type di DW_AT_abstract_origin"
proof -
  let ?d = "length (ls_dtags s)" and ?ob = "ob \<lparr> o_tag := di_tag di \<rparr>"
  let ?dt = "dt \<lparr> dt_id := di_offset di, dt_type := die_type di, dt_origin := attr_type di DW_AT_abstract_origin \<rparr>"
  from i obtain d dt0 t1 ob0 t2 t3 t4 where p: "priv (length (ls_objs s)) s1 = Inr ((d, dt0), t1)"
    and g: "get_obj (length (ls_objs s)) t1 = Inr (ob0, t2)"
    and so: "set_obj (length (ls_objs s)) (ob0 \<lparr> o_tag := di_tag di \<rparr>) t2 = Inr ((), t3)"
    and sd: "set_dtag d (dt0 \<lparr> dt_id := di_offset di, dt_type := die_type di, dt_origin := attr_type di DW_AT_abstract_origin \<rparr>) t3 = Inr ((), t4)"
    and rest: "(if ls_extra_dbg_info t4 then bindL (decl_info di) (\<lambda>(decl_file, decl_line).
       bindL (get_dtag d) (\<lambda>dt1. set_dtag d (dt1 \<lparr> dt_decl_file := decl_file, dt_decl_line := decl_line \<rparr>))) t4
     else Inr ((), t4)) = Inr (u, s2)"
    by (auto simp: tag__init_def die_type_def res_simps split del: if_split)
  from made_priv[OF m p] have e: "t1 = s1" "d = ?d" "dt0 = dt" by simp_all
  with made_get_obj[OF m] g have e2: "t2 = s1" "ob0 = ob" by simp_all
  have "made s ?ob dt t3" by (rule made_set_obj[OF m so[unfolded e2]]) simp_all
  from made_set_dtag[OF this sd[unfolded e]] have m4: "made s ?ob ?dt t4" by simp
  show ?thesis
  proof (cases "ls_extra_dbg_info t4")
    case True
    with rest obtain df dl t5 dt1 t6 where di: "decl_info di t4 = Inr ((df, dl), t5)"
      and gd: "get_dtag d t5 = Inr (dt1, t6)" and sd2: "set_dtag d (dt1 \<lparr> dt_decl_file := df, dt_decl_line := dl \<rparr>) t6 = Inr (u, s2)"
      by (auto simp: res_simps)
    have m5: "made s ?ob ?dt t5" by (rule made_decl_info[OF m4 di])
    then have "dt1 = ?dt" "t6 = t5" using gd by (auto simp: made_def get_dtag_def e)
    with sd2 e made_set_dtag[OF m5, of "?dt \<lparr> dt_decl_file := df, dt_decl_line := dl \<rparr>" u s2]
    have "made s ?ob (?dt \<lparr> dt_decl_file := df, dt_decl_line := dl \<rparr>) s2" by simp
    then show ?thesis by (intro exI[of _ "?dt \<lparr> dt_decl_file := df, dt_decl_line := dl \<rparr>"]) simp
  next
    case False
    with rest m4 show ?thesis by (intro exI[of _ ?dt]) simp
  qed
qed

lemma new_tag_made:
  assumes "new_tag spec di s = Inr (a, s')"
  shows "a = length (ls_objs s) \<and> (\<exists>ob dt. made s ob dt s' \<and> o_tag ob = di_tag di \<and> dt_id dt = di_offset di \<and>
    dt_type dt = die_type di \<and> o_body ob = O_Plain)"
proof -
  from assms obtain s1 where al: "tag__alloc spec s = Inr (a, s1)" and i: "tag__init a di s1 = Inr ((), s')"
    by (auto simp: new_tag_def res_simps)
  from tag__alloc_made[OF al] obtain ob dt where a: "a = length (ls_objs s)" and m: "made s ob dt s1"
    and b: "o_body ob = O_Plain" by blast
  from tag__init_made[OF m i[unfolded a]] a b show ?thesis by force
qed

definition made_for :: "die_info \<Rightarrow> nat \<Rightarrow> lst \<Rightarrow> lst \<Rightarrow> bool" where
  \<comment> \<open>the object of an entry; an inlined function refers to its origin instead of its type\<close>
  "made_for di a s s' \<longleftrightarrow> a = length (ls_objs s) \<and> (\<exists>ob dt. made s ob dt s' \<and> o_tag ob = di_tag di \<and>
     dt_id dt = di_offset di \<and> (di_tag di \<noteq> DW_TAG_inlined_subroutine \<longrightarrow> dt_type dt = die_type di) \<and>
     (di_tag di \<in> reference_tags \<longrightarrow> \<not> named_body (o_body ob)))"

lemma new_tag_for: "new_tag spec di s = Inr (a, s') \<Longrightarrow> made_for di a s s'"
  using new_tag_made[of spec di s a s'] unfolding made_for_def by force

lemma made_for_add_string: "made_for di a s s1 \<Longrightarrow> add_string str s1 = Inr (i, s2) \<Longrightarrow> made_for di a s s2"
  using made_add_string by (fastforce simp: made_for_def)

lemma made_for_set_body:
  "made_for di a s s1 \<Longrightarrow> set_body a b s1 = Inr (u, s2) \<Longrightarrow> (di_tag di \<in> reference_tags \<Longrightarrow> \<not> named_body b) \<Longrightarrow> made_for di a s s2"
  unfolding made_for_def by (elim conjE exE) (use made_set_body in fastforce)

lemma made_for_priv:
  "made_for di a s s1 \<Longrightarrow> priv a s1 = Inr ((d, dt1), s2) \<Longrightarrow> s2 = s1 \<and> d = length (ls_dtags s) \<and>
   dt_tag dt1 = length (ls_objs s) \<and> dt_id dt1 = di_offset di \<and>
   (di_tag di \<noteq> DW_TAG_inlined_subroutine \<longrightarrow> dt_type dt1 = die_type di)"
  unfolding made_for_def by (elim conjE exE, hypsubst, frule (1) made_priv) (simp add: made_def)

lemma made_for_set_dtag:
  assumes "made_for di a s s1" and "set_dtag (length (ls_dtags s)) dt' s1 = Inr (u, s2)"
    and "dt_tag dt' = length (ls_objs s)" and "dt_id dt' = di_offset di"
    and "di_tag di \<noteq> DW_TAG_inlined_subroutine \<longrightarrow> dt_type dt' = die_type di"
  shows "made_for di a s s2"
proof -
  from assms(1) obtain ob dt where m: "made s ob dt s1" and t: "o_tag ob = di_tag di" and a: "a = length (ls_objs s)"
    and b: "di_tag di \<in> reference_tags \<longrightarrow> \<not> named_body (o_body ob)" by (auto simp: made_for_def)
  have "made s ob dt' s2" by (rule made_set_dtag[OF m assms(2)]) (use m assms(3) in \<open>simp add: made_def\<close>)
  with t a b assms(4,5) show ?thesis unfolding made_for_def by blast
qed

lemma set_spec_fields:
  "dwarf_tag__set_spec spec dt = Inr dt' \<Longrightarrow> dt_tag dt' = dt_tag dt \<and> dt_id dt' = dt_id dt \<and> dt_type dt' = dt_type dt"
  by (auto simp: dwarf_tag__set_spec_def split: option.splits)

lemma made_for_set_spec:
  assumes m: "made_for di a s s1" and p: "priv a s1 = Inr ((d, dt), s2)"
    and e: "bindE (dwarf_tag__set_spec spec dt) (\<lambda>dt1. set_dtag d dt1 s2) = Inr (u, s3)"
  shows "made_for di a s s3"
proof -
  from e obtain dt1 where sp: "dwarf_tag__set_spec spec dt = Inr dt1" and sd: "set_dtag d dt1 s2 = Inr (u, s3)"
    by (auto simp: res_simps)
  from made_for_priv[OF m p] set_spec_fields[OF sp] m sd show ?thesis
    by (intro made_for_set_dtag[of di a s s1 dt1 u s3]) simp_all
qed

lemma type__init_for:
  assumes "made_for di a s s1" and "type__init a di s1 = Inr (ty, s2)"
  shows "made_for di a s s2"
proof -
  from assms(2) obtain ns t1 d dt t2 where ns: "namespace__init di s1 = Inr (ns, t1)"
    and p: "priv a t1 = Inr ((d, dt), t2)"
    and e: "bindE (dwarf_tag__set_spec (attr_type di DW_AT_specification) dt) (\<lambda>dt1. set_dtag d dt1 t2) = Inr ((), s2)"
    by (auto simp: type__init_def res_simps)
  have "made_for di a s t1"
    using ns assms(1) by (auto simp: namespace__init_def res_simps intro: made_for_add_string)
  from made_for_set_spec[OF this p e] show ?thesis .
qed

lemma ftype__init_run: "ftype__init di s = Inr (ft, s') \<Longrightarrow> s' = s"
  by (auto simp: ftype__init_def split: if_splits)

lemma lexblock__init_run: "lexblock__init di s = Inr (lb, s') \<Longrightarrow> s' = s"
  by (auto simp: lexblock__init_def split: prod.splits)

lemma tag__init_for:
  "made s ob dt s1 \<Longrightarrow> a = length (ls_objs s) \<Longrightarrow> o_body ob = O_Plain \<Longrightarrow> tag__init a di s1 = Inr (u, s2) \<Longrightarrow> made_for di a s s2"
  using tag__init_made[of s ob dt s1 di u s2] unfolding made_for_def by force

lemma plain_new_for:
  "tag__new di s = Inr (a, s') \<Longrightarrow> made_for di a s s'"
  "base_type__new di s = Inr (a, s') \<Longrightarrow> made_for di a s s'"
  "array_type__new di s = Inr (a, s') \<Longrightarrow> made_for di a s s'"
  "namespace__new di s = Inr (a, s') \<Longrightarrow> made_for di a s s'"
  "enumerator__new di s = Inr (a, s') \<Longrightarrow> made_for di a s s'"
  "variable__new di s = Inr (a, s') \<Longrightarrow> di_tag di \<notin> reference_tags \<Longrightarrow> made_for di a s s'"
  "parameter__new di s = Inr (a, s') \<Longrightarrow> di_tag di \<notin> reference_tags \<Longrightarrow> made_for di a s s'"
  "label__new di s = Inr (a, s') \<Longrightarrow> di_tag di \<notin> reference_tags \<Longrightarrow> made_for di a s s'"
  "class_member__new di u s = Inr (a, s') \<Longrightarrow> di_tag di \<notin> reference_tags \<Longrightarrow> made_for di a s s'"
  by (auto simp: tag__new_def base_type__new_def array_type__new_def namespace__new_def enumerator__new_def
      variable__new_def parameter__new_def label__new_def class_member__new_def namespace__init_def Let_def case_prod_beta res_simps
      dest!: new_tag_for intro: made_for_add_string made_for_set_body)

lemma lexblock__new_for: "lexblock__new di s = Inr (a, s') \<Longrightarrow> made_for di a s s'"
  by (auto simp: lexblock__new_def res_simps dest!: new_tag_for lexblock__init_run intro: made_for_set_body)

lemma typed_new_for:
  "type__new di s = Inr (a, s') \<Longrightarrow> made_for di a s s'"
  "class__new di s = Inr (a, s') \<Longrightarrow> made_for di a s s'"
  by (auto simp: type__new_def class__new_def res_simps dest!: new_tag_for dest: type__init_for intro: made_for_set_body)

lemma ptr_to_member_type__new_for:
  assumes "ptr_to_member_type__new di s = Inr (a, s')"
  shows "made_for di a s s'"
proof -
  from assms obtain s1 s2 d dt s3 where n: "new_tag False di s = Inr (a, s1)"
    and b: "set_body a (O_Ptr_To_Member (ucast (ls_stale s1 a))) s1 = Inr ((), s2)"
    and p: "priv a s2 = Inr ((d, dt), s3)"
    and sd: "set_dtag d (dt \<lparr> dt_origin := attr_type di DW_AT_containing_type \<rparr>) s3 = Inr ((), s')"
    by (auto simp: ptr_to_member_type__new_def res_simps)
  have m: "made_for di a s s2" by (rule made_for_set_body[OF new_tag_for[OF n] b]) simp
  from made_for_priv[OF m p] m sd show ?thesis
    by (intro made_for_set_dtag[of di a s s2 "dt \<lparr> dt_origin := attr_type di DW_AT_containing_type \<rparr>" "()" s']) simp_all
qed

lemma inline_expansion__new_for:
  assumes "inline_expansion__new di s = Inr (a, s')" and "di_tag di = DW_TAG_inlined_subroutine"
  shows "made_for di a s s'"
proof -
  from assms(1) obtain s1 i s2 d dt s3 s4 addr sz where n: "new_tag False di s = Inr (a, s1)"
    and st: "add_string (attr_string di DW_AT_call_file) s1 = Inr (i, s2)"
    and p: "priv a s2 = Inr ((d, dt), s3)"
    and sd: "set_dtag d (dt \<lparr> dt_decl_file := i, dt_decl_line := ucast (attr_numeric di DW_AT_call_line),
         dt_type := attr_type di DW_AT_abstract_origin \<rparr>) s3 = Inr ((), s4)"
    and b: "set_body a (O_Inline addr sz) s4 = Inr ((), s')"
    by (auto simp: inline_expansion__new_def Let_def res_simps split: if_splits prod.splits)
  have m: "made_for di a s s2" by (rule made_for_add_string[OF new_tag_for[OF n] st])
  have "made_for di a s s4"
    using made_for_priv[OF m p] m sd assms(2)
    by (intro made_for_set_dtag[of di a s s2 "dt \<lparr> dt_decl_file := i, dt_decl_line := ucast (attr_numeric di DW_AT_call_line),
         dt_type := attr_type di DW_AT_abstract_origin \<rparr>" "()" s4]) simp_all
  then show ?thesis using b by (rule made_for_set_body) simp
qed

lemma ftype__new_for:
  assumes "ftype__new di s = Inr (a, s')"
  shows "made_for di a s s'"
proof -
  from assms obtain s1 ft s2 s3 where al: "tag__alloc False s = Inr (a, s1)" and f: "ftype__init di s1 = Inr (ft, s2)"
    and i: "tag__init a di s2 = Inr ((), s3)" and b: "set_body a (O_Ftype ft) s3 = Inr ((), s')"
    by (auto simp: ftype__new_def res_simps)
  from tag__alloc_made[OF al] obtain ob dt where a: "a = length (ls_objs s)" and m: "made s ob dt s1"
    and pl: "o_body ob = O_Plain" by blast
  from f have "s2 = s1" by (rule ftype__init_run)
  with tag__init_for[OF m a pl] i have "made_for di a s s3" by simp
  then show ?thesis using b by (rule made_for_set_body) simp
qed

lemma function__new_for:
  assumes "function__new di s = Inr (a, s')"
  shows "made_for di a s s'"
proof -
  from assms obtain s1 ft s2 s3 lb s4 n s5 l s6 d dt s7 s8 ts fn fa where al: "tag__alloc True s = Inr (a, s1)"
    and f: "ftype__init di s1 = Inr (ft, s2)" and i: "tag__init a di s2 = Inr ((), s3)"
    and x: "lexblock__init di s3 = Inr (lb, s4)" and st: "add_string (attr_string di DW_AT_name) s4 = Inr (n, s5)"
    and st2: "add_string (attr_string di DW_AT_MIPS_linkage_name) s5 = Inr (l, s6)" and p: "priv a s6 = Inr ((d, dt), s7)"
    and e: "bindE (dwarf_tag__set_spec (attr_type di DW_AT_specification) dt) (\<lambda>dt1. set_dtag d dt1 s7) = Inr ((), s8)"
    and b: "set_body a (O_Function ft lb ts fn fa) s8 = Inr ((), s')"
    unfolding function__new_def by (auto simp: res_simps split: if_splits)
  from tag__alloc_made[OF al] obtain ob dt where a: "a = length (ls_objs s)" and m: "made s ob dt s1"
    and pl: "o_body ob = O_Plain" by blast
  from f have "s2 = s1" by (rule ftype__init_run)
  with tag__init_for[OF m a pl] i have "made_for di a s s3" by simp
  with lexblock__init_run[OF x] have "made_for di a s s4" by simp
  from made_for_add_string[OF made_for_add_string[OF this st] st2] have "made_for di a s s6" .
  from made_for_set_spec[OF this p e] show ?thesis using b by (rule made_for_set_body) simp
qed

lemmas new_for = plain_new_for lexblock__new_for typed_new_for ptr_to_member_type__new_for ftype__new_for function__new_for

section \<open>Steps that keep the invariant\<close>

definition same_tables :: "lst \<Rightarrow> lst \<Rightarrow> bool" where
  "same_tables s s' \<longleftrightarrow> ls_types_table s' = ls_types_table s \<and> ls_functions_table s' = ls_functions_table s \<and>
     ls_tags_table s' = ls_tags_table s \<and> ls_hash_types s' = ls_hash_types s \<and> ls_hash_tags s' = ls_hash_tags s \<and>
     ls_table_alloc s' = ls_table_alloc s \<and>
     (\<forall>d < length (ls_dtags s). dt_small_id (dtag_at s' d) = dt_small_id (dtag_at s d))"

lemma grow_is_type: "grow A s s' \<Longrightarrow> a < length (ls_objs s) \<Longrightarrow> is_type s' a = is_type s a"
  by (auto simp: grow_def obj_head_def tag__is_tag_type_def tag__is_type_def tag__is_union_def tag__is_struct_def
      tag__is_typedef_def tag__is_enumeration_def)

lemma links_dtag: "links s \<Longrightarrow> d < length (ls_dtags s) \<Longrightarrow>
   dt_tag (dtag_at s d) < length (ls_objs s) \<and> o_priv (obj_at s (dt_tag (dtag_at s d))) = Some d"
  by (simp add: links_def)

lemma links_priv: "links s \<Longrightarrow> a < length (ls_objs s) \<Longrightarrow> o_priv (obj_at s a) = Some d \<Longrightarrow>
   d < length (ls_dtags s) \<and> dt_tag (dtag_at s d) = a"
  by (simp add: links_def)

lemma inv_but_keep:
  assumes i: "inv_but X s" and g: "grow A s s'" and l: "links s'" and t: "same_tables s s'"
  shows "inv_but X s'"
proof -
  have ln: "links s" and h: "hash_ok s" and tb: "unit_tables_ok s" using i by (simp_all add: inv_but_def)
  have hd: "d < length (ls_dtags s) \<and> dt_tag (dtag_at s d) < length (ls_objs s)" if "b \<in> set (ls_hash_types s)" "d \<in> set b" for b d
    using that h links_dtag[OF ln] by (auto simp: hash_ok_def)
  have ta: "a < length (ls_objs s)" if "pt_at (ls_types_table s) k = Some a" for k a
    using that tb by (auto simp: unit_tables_ok_def)
  have dt: "dt_id (dtag_at s' d) = dt_id (dtag_at s d)" "dt_tag (dtag_at s' d) = dt_tag (dtag_at s d)"
    "dt_small_id (dtag_at s' d) = dt_small_id (dtag_at s d)" if "d < length (ls_dtags s)" for d
    using that g t by (simp_all add: grow_def same_tables_def)
  have ob: "o_priv (obj_at s' a) = o_priv (obj_at s a)" if "a < length (ls_objs s)" for a
    using that g by (simp add: grow_def)
  have "hash_ok s'" using h t g hd dt grow_is_type[OF g] unfolding hash_ok_def same_tables_def grow_def by fastforce
  moreover have "unit_tables_ok s'" using tb t g ta grow_is_type[OF g] unfolding unit_tables_ok_def same_tables_def grow_def by fastforce
  moreover have "numbered s' d" if "b \<in> set (ls_hash_types s')" "d \<in> set b" "dt_tag (dtag_at s' d) \<notin> X" for b d
    using that i t dt hd by (auto simp: inv_but_def same_tables_def numbered_def)
  moreover have "hashed s' d" if "pt_at (ls_types_table s') k = Some a" "a \<notin> X" "o_priv (obj_at s' a) = Some d" for k a d
  proof -
    have a: "a < length (ls_objs s)" "pt_at (ls_types_table s) k = Some a" using that t ta by (auto simp: same_tables_def)
    then have p: "o_priv (obj_at s a) = Some d" using that ob by simp
    with i a that have "hashed s d" by (auto simp: inv_but_def)
    moreover have "d < length (ls_dtags s)" using links_priv[OF ln a(1) p] by simp
    ultimately show ?thesis using dt t by (simp add: hashed_def same_tables_def)
  qed
  ultimately show ?thesis using l i t by (auto simp: inv_but_def same_tables_def)
qed

lemma made_for_links:
  assumes "links s" and "made_for di a s s'"
  shows "links s'"
proof -
  from assms(2) obtain ob dt where o: "o_priv ob = Some (length (ls_dtags s))" "dt_tag dt = length (ls_objs s)"
    and s': "ls_objs s' = ls_objs s @ [ob]" "ls_dtags s' = ls_dtags s @ [dt]" by (auto simp: made_for_def made_def)
  show ?thesis unfolding links_def
  proof (intro conjI allI impI)
    fix d assume "d < length (ls_dtags s')"
    then show "dt_tag (dtag_at s' d) < length (ls_objs s')" "o_priv (obj_at s' (dt_tag (dtag_at s' d))) = Some d"
      using links_dtag[OF assms(1), of d] o by (auto simp: s' nth_append less_Suc_eq)
  next
    fix x d assume x: "x < length (ls_objs s')" "o_priv (obj_at s' x) = Some d"
    then show "d < length (ls_dtags s')" "dt_tag (dtag_at s' d) = x"
      using links_priv[OF assms(1), of x d] o by (auto simp: s' nth_append less_Suc_eq split: if_splits)
  qed
qed

lemma made_for_grow: "made_for di a s s' \<Longrightarrow> grow A s s' \<and> same_tables s s'"
  unfolding made_for_def made_def grow_def same_tables_def
  by (elim conjE exE, frule rest_fields(1), frule rest_fields(2), frule rest_fields(3), frule rest_fields(4),
      frule rest_fields(5), frule rest_fields(6), frule rest_fields(7), frule rest_fields(8)) (simp add: nth_append)

lemma made_for_inv: "inv_but X s \<Longrightarrow> made_for di a s s' \<Longrightarrow> inv_but X s'"
  by (rule inv_but_keep) (auto dest: made_for_grow simp: inv_but_def intro: made_for_links)

definition rebody :: "nat set \<Rightarrow> lst \<Rightarrow> lst \<Rightarrow> bool" where
  \<comment> \<open>objects change in their bodies only, shadow records in nothing that matters here\<close>
  "rebody A s s' \<longleftrightarrow> length (ls_objs s') = length (ls_objs s) \<and> ls_dtags s' = ls_dtags s \<and>
     (\<forall>a < length (ls_objs s). o_tag (obj_at s' a) = o_tag (obj_at s a) \<and> o_priv (obj_at s' a) = o_priv (obj_at s a) \<and>
        o_type (obj_at s' a) = o_type (obj_at s a) \<and> named_body (o_body (obj_at s' a)) = named_body (o_body (obj_at s a)) \<and>
        (a \<notin> A \<longrightarrow> o_body (obj_at s' a) = o_body (obj_at s a))) \<and>
     ls_types_table s' = ls_types_table s \<and> ls_functions_table s' = ls_functions_table s \<and>
     ls_tags_table s' = ls_tags_table s \<and> ls_hash_types s' = ls_hash_types s \<and> ls_hash_tags s' = ls_hash_tags s \<and>
     ls_table_alloc s' = ls_table_alloc s \<and> ls_language s' = ls_language s \<and> ls_type_unit s' = ls_type_unit s"

lemma rebody_refl [simp]: "rebody A s s"
  by (simp add: rebody_def)

lemma rebody_trans: "rebody A s s1 \<Longrightarrow> rebody A s1 s2 \<Longrightarrow> rebody A s s2"
  by (simp add: rebody_def)

lemma rebody_grow: "rebody A s s' \<Longrightarrow> grow A s s' \<and> same_tables s s'"
  by (simp add: rebody_def grow_def same_tables_def)

lemma rebody_links: "links s \<Longrightarrow> rebody A s s' \<Longrightarrow> links s'"
  by (simp add: links_def rebody_def)

lemma rebody_inv: "inv_but X s \<Longrightarrow> rebody A s s' \<Longrightarrow> inv_but X s'"
  by (rule inv_but_keep) (auto dest: rebody_grow simp: inv_but_def intro: rebody_links)

lemma get_obj_run: "get_obj a s = Inr (ob, s') \<Longrightarrow> s' = s \<and> a < length (ls_objs s) \<and> ob = obj_at s a"
  by (auto simp: get_obj_def split: if_splits)

lemma set_body_run:
  "set_body a b s = Inr (u, s') \<Longrightarrow> a < length (ls_objs s) \<and>
   s' = s \<lparr> ls_objs := (ls_objs s)[a := (obj_at s a) \<lparr> o_body := b \<rparr>] \<rparr>"
  by (auto simp: set_body_def set_obj_def res_simps split: if_splits dest!: get_obj_run)

lemma rebody_mono: "rebody A s s' \<Longrightarrow> A \<subseteq> B \<Longrightarrow> rebody B s s'"
  unfolding rebody_def by auto

lemma rebody_update:
  "named_body b = named_body (o_body (obj_at s a)) \<Longrightarrow> rebody {a} s (s \<lparr> ls_objs := (ls_objs s)[a := (obj_at s a) \<lparr> o_body := b \<rparr>] \<rparr>)"
  by (cases "a < length (ls_objs s)") (auto simp: rebody_def nth_list_update list_update_beyond)

lemma set_body_rebody:
  "set_body a b s = Inr (u, s') \<Longrightarrow> named_body b = named_body (o_body (obj_at s a)) \<Longrightarrow> rebody {a} s s'"
  using set_body_run[of a b s u s'] rebody_update by blast

lemma adders_rebody:
  "o_namespace__add_tag a t s = Inr (u, s') \<Longrightarrow> rebody {a} s s'"
  "map_type_fields f a s = Inr (u, s') \<Longrightarrow> rebody {a} s s'"
  "class__add_vtable_entry a t s = Inr (u, s') \<Longrightarrow> rebody {a} s s'"
  "map_ftype g a s = Inr (u, s') \<Longrightarrow> rebody {a} s s'"
  "map_lexblock h a t s = Inr (u, s') \<Longrightarrow> rebody {a} s s'"
  by (cases "o_body (obj_at s a)"; auto simp: o_namespace__add_tag_def map_type_fields_def class__add_vtable_entry_def
      map_ftype_def map_lexblock_def bindL_def get_obj_def split: if_split_asm dest!: set_body_run intro!: rebody_update)+

lemma adders_rebody2:
  "o_type__add_member a t s = Inr (u, s') \<Longrightarrow> rebody {a} s s'"
  "o_enumeration__add a t s = Inr (u, s') \<Longrightarrow> rebody {a} s s'"
  "o_ftype__add_parameter a t s = Inr (u, s') \<Longrightarrow> rebody {a} s s'"
  "o_lexblock__add_tag a t s = Inr (u, s') \<Longrightarrow> rebody {a} s s'"
  "o_lexblock__add_lexblock a t s = Inr (u, s') \<Longrightarrow> rebody {a} s s'"
  "o_lexblock__add_variable a t s = Inr (u, s') \<Longrightarrow> rebody {a} s s'"
  "o_lexblock__add_label a t s = Inr (u, s') \<Longrightarrow> rebody {a} s s'"
  "o_lexblock__add_inline_expansion a t s = Inr (u, s') \<Longrightarrow> rebody {a} s s'"
  "add_virtual a t s = Inr (u, s') \<Longrightarrow> rebody {a} s s'"
  by (cases "o_body (obj_at s t)"; auto simp: o_type__add_member_def o_enumeration__add_def o_ftype__add_parameter_def
      o_lexblock__add_tag_def o_lexblock__add_lexblock_def o_lexblock__add_variable_def o_lexblock__add_label_def
      o_lexblock__add_inline_expansion_def add_virtual_def bindL_def get_obj_def res_simps split: if_split_asm
      dest!: adders_rebody intro: rebody_trans)+

lemma not_supported_rebody: "tag__print_not_supported tag s = Inr (u, s') \<Longrightarrow> rebody A s s'"
  by (auto simp: tag__print_not_supported_def Let_def rebody_def split: if_splits)

lemmas keeps_body = adders_rebody adders_rebody2 set_body_rebody not_supported_rebody

section \<open>Entering a tag\<close>

lemma table_add_run:
  assumes ok: "pt_ok (get_table t s)" and al: "ls_table_alloc s = (\<lambda>_. True)"
    and add: "table_add t a (- 1) s = Inr ((err, i), s')"
  obtains pt where "err = 0" and "i = int (unat (pt_nr_entries (get_table t s)))" and "s' = put_table t pt s"
    and "pt_ok pt" and "pt_le (get_table t s) pt" and "pt_at pt (unat (pt_nr_entries (get_table t s))) = Some a"
    and "unat (pt_nr_entries pt) = unat (pt_nr_entries (get_table t s)) + 1"
proof -
  from add al obtain rc pt where a: "ptr_table__add (\<lambda>_. True) (Some a) (get_table t s) = Inr (rc, pt)"
    and r: "err = (if rc < 0 then - ENOMEM else 0)" "i = rc" "s' = put_table t pt s"
    by (auto simp: table_add_def res_simps)
  note * = ptr_table__add_run[OF ok a]
  show thesis by (rule that[of pt]) (use r * in auto)
qed

lemma cu__insert_function_run:
  "cu__insert_function a s = Inr (u, s') \<Longrightarrow> \<exists>fs. s' = s \<lparr> ls_functions := fs \<rparr>"
  by (cases "o_body (obj_at s a)"; auto simp: cu__insert_function_def bindL_def get_obj_def res_simps split: if_split_asm)

lemma pt_at_new:
  assumes "pt_le pt pt'" and "unat (pt_nr_entries pt') = unat (pt_nr_entries pt) + 1" and "pt_at pt' k = Some x"
  shows "pt_at pt k = Some x \<or> (k = unat (pt_nr_entries pt) \<and> pt_at pt' (unat (pt_nr_entries pt)) = Some x)"
  using assms by (auto simp: pt_le_def pt_at_def less_Suc_eq split: if_splits)

definition entering :: "lst \<Rightarrow> lst \<Rightarrow> bool" where
  \<comment> \<open>a tag has been put into its table\<close>
  "entering s s' \<longleftrightarrow> ls_objs s' = ls_objs s \<and> ls_dtags s' = ls_dtags s \<and> ls_hash_types s' = ls_hash_types s \<and>
     ls_hash_tags s' = ls_hash_tags s \<and> ls_table_alloc s' = ls_table_alloc s \<and> ls_language s' = ls_language s \<and>
     ls_type_unit s' = ls_type_unit s"

lemma entering_inv:
  assumes i: "inv_but X s" and e: "entering s s'" and le: "pt_le (ls_types_table s) (ls_types_table s')"
    and tb: "unit_tables_ok s'"
    and new: "\<And>k x. pt_at (ls_types_table s') k = Some x \<Longrightarrow> pt_at (ls_types_table s) k = Some x \<or> x = a"
  shows "inv_but (insert a X) s'"
proof -
  have "numbered s' d" if "numbered s d" for d
  proof -
    have "unat (pt_nr_entries (ls_types_table s)) \<le> unat (pt_nr_entries (ls_types_table s'))"
      using le by (simp add: pt_le_def)
    moreover have "pt_at (ls_types_table s') k = Some x" if "pt_at (ls_types_table s) k = Some x" for k x
      using that le by (auto simp: pt_le_def) (auto simp: pt_at_def split: if_splits)
    ultimately show ?thesis using that e by (auto simp: numbered_def entering_def)
  qed
  moreover have "hashed s' d" if "hashed s d" for d using that e by (simp add: hashed_def entering_def)
  moreover have "links s'" "hash_ok s'" using i e by (auto simp: inv_but_def links_def hash_ok_def entering_def)
  moreover have "hashed s d" if "pt_at (ls_types_table s') k = Some x" "x \<noteq> a" "x \<notin> X" "o_priv (obj_at s x) = Some d" for k x d
    using that new[OF that(1)] i by (auto simp: inv_but_def)
  ultimately show ?thesis using i e tb by (auto simp: inv_but_def entering_def)
qed

lemma cu__table_add_tag_run:
  assumes i: "inv_but X s" and add: "cu__table_add_tag a (- 1) s = Inr ((err, n), s')"
  shows "err = 0" and "a < length (ls_objs s)" and "entering s s'" and "grow A s s'" and "inv_but (insert a X) s'"
    and "is_type s a \<Longrightarrow> pt_at (ls_types_table s') (nat n) = Some a \<and> 0 \<le> n"
proof -
  from add obtain s1 where a: "a < length (ls_objs s)"
    and f0: "(if table_of (obj_at s a) = Functions_Table then cu__insert_function a else retL ()) s = Inr ((), s1)"
    and t: "table_add (table_of (obj_at s a)) a (- 1) s1 = Inr ((err, n), s')"
    by (auto simp: cu__table_add_tag_def res_simps simp del: if_split dest!: get_obj_run split del: if_split)
  have f: "s1 = s \<or> (\<exists>fs. s1 = s \<lparr> ls_functions := fs \<rparr>)"
    using f0 cu__insert_function_run[of a s "()" s1] by (auto split: if_splits)
  let ?t = "table_of (obj_at s a)"
  have same: "get_table ?t s1 = get_table ?t s" "ls_table_alloc s1 = (\<lambda>_. True)"
    using f i by (auto simp: get_table_def inv_but_def split: table.split)
  have tb: "unit_tables_ok s" using i by (simp add: inv_but_def)
  have ok: "pt_ok (get_table ?t s1)" using tb same by (auto simp: unit_tables_ok_def get_table_def split: table.split)
  from table_add_run[OF ok same(2) t] obtain pt where err: "err = 0" and n: "n = int (unat (pt_nr_entries (get_table ?t s)))"
    and s': "s' = put_table ?t pt s1" and pt: "pt_ok pt" "pt_le (get_table ?t s) pt"
      "pt_at pt (unat (pt_nr_entries (get_table ?t s))) = Some a"
      "unat (pt_nr_entries pt) = unat (pt_nr_entries (get_table ?t s)) + 1"
    by (auto simp: same)
  show "err = 0" "a < length (ls_objs s)" by (rule err, rule a)
  show e: "entering s s'" using f s' by (auto simp: entering_def put_table_def split: table.split)
  have tables: "pt_le (ls_types_table s) (ls_types_table s')" "pt_le (ls_functions_table s) (ls_functions_table s')"
    "pt_le (ls_tags_table s) (ls_tags_table s')"
    using f s' pt(2) by (auto simp: put_table_def get_table_def split: table.split)
  show "grow A s s'" using e tables by (simp add: grow_def entering_def)
  have ty: "?t = Types_Table \<longleftrightarrow> is_type s a" by (simp add: table_of_def)
  have new: "pt_at (ls_types_table s) k = Some x \<or> (x = a \<and> is_type s a)" if "pt_at (ls_types_table s') k = Some x" for k x
  proof (cases "?t = Types_Table")
    case True
    then show ?thesis using that pt_at_new[OF pt(2,4)] pt(3) s' ty by (auto simp: put_table_def get_table_def)
  next
    case False
    then show ?thesis using that f s' by (auto simp: put_table_def split: table.splits)
  qed
  have "unit_tables_ok s'"
  proof -
    have oks: "pt_ok (ls_types_table s')" "pt_ok (ls_functions_table s')" "pt_ok (ls_tags_table s')"
      using f s' pt(1) tb by (auto simp: put_table_def unit_tables_ok_def split: table.split)
    moreover have "0 < unat (pt_nr_entries (ls_types_table s'))" using tb tables(1) by (auto simp: unit_tables_ok_def pt_le_def)
    moreover have "pt_at (ls_types_table s') 0 = None" using tb tables(1) by (auto simp: unit_tables_ok_def pt_le_def)
    ultimately show ?thesis using new tb a e by (auto simp: unit_tables_ok_def entering_def)
  qed
  then show "inv_but (insert a X) s'" by (rule entering_inv[OF i e tables(1)]) (use new in blast)
  show "is_type s a \<Longrightarrow> pt_at (ls_types_table s') (nat n) = Some a \<and> 0 \<le> n"
    using n pt(3) s' ty by (auto simp: put_table_def get_table_def)
qed

lemma cu__add_tag_run:
  assumes i: "inv_but X s" and add: "cu__add_tag a (- 1) s = Inr ((err, n), s')"
  shows "err = 0" and "a < length (ls_objs s)" and "entering s s'" and "grow A s s'" and "inv_but (insert a X) s'"
    and "is_type s a \<Longrightarrow> pt_at (ls_types_table s') (nat n) = Some a \<and> 0 \<le> n"
proof -
  from add obtain s1 where t: "cu__table_add_tag a (- 1) s = Inr ((err, n), s1)"
    and s': "s' = (if err = 0 then s1 \<lparr> ls_tags := ls_tags s1 @ [a] \<rparr> else s1)"
    by (auto simp: cu__add_tag_def res_simps)
  note * = cu__table_add_tag_run[OF i t]
  have re: "rebody A s1 s'" by (simp add: s' rebody_def)
  show "err = 0" "a < length (ls_objs s)" by (rule *)+
  show "entering s s'" using *(3) s' by (simp add: entering_def)
  show "grow A s s'" using *(4) rebody_grow[OF re] grow_trans by blast
  show "inv_but (insert a X) s'" by (rule rebody_inv[OF *(5) re])
  show "is_type s a \<Longrightarrow> pt_at (ls_types_table s') (nat n) = Some a \<and> 0 \<le> n" using *(6) s' by simp
qed

lemma priv_run: "priv a s = Inr ((d, dt), s') \<Longrightarrow>
   s' = s \<and> a < length (ls_objs s) \<and> o_priv (obj_at s a) = Some d \<and> d < length (ls_dtags s) \<and> dt = dtag_at s d"
  by (auto simp: priv_def get_dtag_def res_simps split: option.splits if_splits dest!: get_obj_run)

lemma set_small_id_run:
  assumes i: "inv_but X s" and x: "a \<in> X" and sm: "set_small_id a n s = Inr (u, s')"
  obtains d where "o_priv (obj_at s a) = Some d" and "d < length (ls_dtags s)"
    and "s' = s \<lparr> ls_dtags := (ls_dtags s)[d := (dtag_at s d) \<lparr> dt_small_id := word_of_int n \<rparr>] \<rparr>"
    and "grow A s s'" and "inv_but X s'"
proof -
  from sm obtain d where d: "o_priv (obj_at s a) = Some d" "d < length (ls_dtags s)" "a < length (ls_objs s)"
    and s': "s' = s \<lparr> ls_dtags := (ls_dtags s)[d := (dtag_at s d) \<lparr> dt_small_id := word_of_int n \<rparr>] \<rparr>"
    by (auto simp: set_small_id_def set_dtag_def res_simps split: if_splits dest!: priv_run)
  have dt: "dt_tag (dtag_at s' e) = dt_tag (dtag_at s e)" "dt_id (dtag_at s' e) = dt_id (dtag_at s e)"
    "dt_type (dtag_at s' e) = dt_type (dtag_at s e)" for e
    using d by (cases "e = d"; simp add: s')+
  have ln: "links s" using i by (simp add: inv_but_def)
  have own: "dt_tag (dtag_at s d) = a" using links_priv[OF ln d(3,1)] by simp
  have small: "dt_small_id (dtag_at s' e) = dt_small_id (dtag_at s e)" if "e \<noteq> d" for e using that by (simp add: s')
  have g: "grow A s s'" using dt by (simp add: grow_def s')
  have "inv_but X s'"
    using i x own dt small unfolding inv_but_def links_def hash_ok_def unit_tables_ok_def numbered_def hashed_def
    by (simp add: s' del: nth_list_update) (metis nth_list_update_neq)
  then show thesis using d s' g by (intro that)
qed

lemma grow_hashed: "grow A s s' \<Longrightarrow> d < length (ls_dtags s) \<Longrightarrow> hashed s d \<Longrightarrow> hashed s' d"
  using bucket_of_less[of "dt_id (dtag_at s d)"] by (auto simp: grow_def hashed_def)

lemma set_update_Cons: "k < length h \<Longrightarrow> b \<in> set (h[k := d # h ! k]) \<Longrightarrow> x \<in> set b \<Longrightarrow> x = d \<or> (\<exists>b' \<in> set h. x \<in> set b')"
  by (metis in_set_conv_nth length_list_update nth_list_update set_ConsD nth_mem)

lemma nth_update_Cons: "k < length h \<Longrightarrow> j < length h \<Longrightarrow> set (h ! j) \<subseteq> set (h[k := d # h ! k] ! j)"
  by (cases "j = k") auto

lemma cu__hash_run:
  assumes i: "inv_but X s" and x: "a \<in> X" and h: "cu__hash a s = Inr (u, s')"
  obtains d where "o_priv (obj_at s a) = Some d" and "grow A s s'" and "inv_but X s'"
    and "ls_dtags s' = ls_dtags s" and "ls_objs s' = ls_objs s" and "ls_types_table s' = ls_types_table s"
    and "is_type s a \<Longrightarrow> hashed s' d"
proof -
  have ln: "links s" and hk: "hash_ok s" using i by (simp_all add: inv_but_def)
  have len: "length (ls_hash_types s) = 256" "length (ls_hash_tags s) = 256" using hk by (simp_all add: hash_ok_def)
  from h obtain d where d: "o_priv (obj_at s a) = Some d" "d < length (ls_dtags s)" "a < length (ls_objs s)"
    and r: "(if is_type s a
       then bindE (hashtags__hash d (dt_id (dtag_at s d)) (ls_hash_types s)) (\<lambda>h. Inr ((), s \<lparr> ls_hash_types := h \<rparr>))
       else bindE (hashtags__hash d (dt_id (dtag_at s d)) (ls_hash_tags s)) (\<lambda>h. Inr ((), s \<lparr> ls_hash_tags := h \<rparr>))) = Inr (u, s')"
    by (auto simp: cu__hash_def res_simps simp del: if_split split del: if_split dest!: get_obj_run priv_run)
  let ?k = "bucket_of (dt_id (dtag_at s d))"
  have k: "?k < 256" by (rule bucket_of_less)
  have own: "dt_tag (dtag_at s d) = a" using links_priv[OF ln d(3,1)] by simp
  show thesis
  proof (cases "is_type s a")
    case True
    let ?h = "(ls_hash_types s)[?k := d # ls_hash_types s ! ?k]"
    from r True have s': "s' = s \<lparr> ls_hash_types := ?h \<rparr>" by (simp add: hashtags__hash_run[OF len(1)])
    have g: "grow A s s'" using k len nth_update_Cons[of ?k "ls_hash_types s"] by (simp add: grow_def s')
    have mem: "e = d \<or> (\<exists>b' \<in> set (ls_hash_types s). e \<in> set b')" if "b \<in> set ?h" "e \<in> set b" for b e
      using set_update_Cons[of ?k "ls_hash_types s" b d e] that k len by simp
    have "hash_ok s'" using hk d(2) own True mem unfolding hash_ok_def by (auto simp: s')
    moreover have "unit_tables_ok s'" "links s'" using i by (auto simp: inv_but_def unit_tables_ok_def links_def s')
    moreover have "numbered s' e" if "b \<in> set ?h" "e \<in> set b" "dt_tag (dtag_at s' e) \<notin> X" for b e
      using mem[OF that(1,2)] that(3) i own x by (auto simp: inv_but_def numbered_def s')
    moreover have "hashed s' e" if "pt_at (ls_types_table s) j = Some y" "y \<notin> X" "o_priv (obj_at s y) = Some e" for j y e
    proof -
      have y: "y < length (ls_objs s)" using that(1) i by (auto simp: inv_but_def unit_tables_ok_def)
      have "hashed s e" using that i by (auto simp: inv_but_def)
      with links_priv[OF ln y that(3)] grow_hashed[OF g] show ?thesis by blast
    qed
    ultimately have "inv_but X s'" using i by (auto simp: inv_but_def s')
    moreover have "hashed s' d" using k len by (simp add: hashed_def s')
    ultimately show thesis using d g by (intro that) (simp_all add: s')
  next
    case False
    let ?h = "(ls_hash_tags s)[?k := d # ls_hash_tags s ! ?k]"
    from r False have s': "s' = s \<lparr> ls_hash_tags := ?h \<rparr>" by (simp add: hashtags__hash_run[OF len(2)])
    have mem: "e = d \<or> (\<exists>b' \<in> set (ls_hash_tags s). e \<in> set b')" if "b \<in> set ?h" "e \<in> set b" for b e
      using set_update_Cons[of ?k "ls_hash_tags s" b d e] that k len by simp
    have g: "grow A s s'" by (simp add: grow_def s')
    have "hash_ok s'" using hk d(2) mem unfolding hash_ok_def by (auto simp: s') blast+
    then have "inv_but X s'" using i by (auto simp: inv_but_def unit_tables_ok_def links_def numbered_def hashed_def s')
    then show thesis using d g False by (intro that) (simp_all add: s')
  qed
qed

lemma inv_but_done:
  assumes i: "inv_but {a} s" and p: "o_priv (obj_at s a) = Some d" and a: "a < length (ls_objs s)"
    and n: "is_type s a \<Longrightarrow> numbered s d" and h: "is_type s a \<Longrightarrow> hashed s d"
  shows "inv s"
proof -
  have ln: "links s" and hk: "hash_ok s" and tb: "unit_tables_ok s" using i by (simp_all add: inv_but_def)
  have "numbered s e" if "b \<in> set (ls_hash_types s)" "e \<in> set b" for b e
  proof (cases "dt_tag (dtag_at s e) = a")
    case True
    have "e < length (ls_dtags s)" "is_type s (dt_tag (dtag_at s e))" using that hk by (auto simp: hash_ok_def)
    with True links_dtag[OF ln, of e] p n show ?thesis by simp
  next
    case False
    with that i show ?thesis by (auto simp: inv_but_def)
  qed
  moreover have "hashed s e" if "pt_at (ls_types_table s) j = Some y" "o_priv (obj_at s y) = Some e" for j y e
  proof (cases "y = a")
    case True
    with that p tb h show ?thesis by (auto simp: unit_tables_ok_def)
  next
    case False
    with that i show ?thesis by (auto simp: inv_but_def)
  qed
  ultimately show ?thesis using i by (auto simp: inv_but_def)
qed

lemma number_fits:
  assumes "unat (pt_nr_entries pt) \<le> 65536" and "pt_at pt (nat n) = Some a" and "0 \<le> n"
  shows "unat (word_of_int n :: u16) = nat n"
proof -
  have "nat n < unat (pt_nr_entries pt)" using assms(2) by (simp add: pt_at_def split: if_splits)
  with assms have "n < 65536" by linarith
  with assms(3) show ?thesis by (simp add: unat_eq_nat_uint uint_word_of_int)
qed

end
