(* ===== verification/Dwarf_Process_Inv.thy ===== *)
theory Dwarf_Process_Inv
  imports Dwarf_Inv
begin

text \<open>
  The first pass keeps the invariant: first the ways a tag is entered in the tables, then the
  routines of every kind of entry, by induction over the tree of entries. With memory for the
  tables no routine returns an error, and every type that is a child of the unit gets its entry.
\<close>

section \<open>The orders in which a tag is entered\<close>

definition has_entry :: "lst \<Rightarrow> nat \<Rightarrow> bool" where
  "has_entry s a \<longleftrightarrow> (is_type s a \<longrightarrow> (\<exists>k. pt_at (ls_types_table s) k = Some a))"

lemma pt_at_le: "pt_le pt pt' \<Longrightarrow> pt_at pt k = Some a \<Longrightarrow> pt_at pt' k = Some a"
  by (auto simp: pt_le_def) (auto simp: pt_at_def split: if_splits)

lemma has_entry_grow: "grow A s s' \<Longrightarrow> a < length (ls_objs s) \<Longrightarrow> has_entry s a \<Longrightarrow> has_entry s' a"
  using grow_is_type[of A s s' a] unfolding has_entry_def by (auto simp: grow_def dest: pt_at_le)

lemma small_id_numbered:
  assumes "inv_but X s" and "a < length (ls_objs s)" and "o_priv (obj_at s a) = Some d"
    and s': "s' = s \<lparr> ls_dtags := (ls_dtags s)[d := (dtag_at s d) \<lparr> dt_small_id := word_of_int n \<rparr>] \<rparr>"
    and "pt_at (ls_types_table s) (nat n) = Some a" and "0 \<le> n"
  shows "numbered s' d"
  using links_priv[of s a d] number_fits[of "ls_types_table s" n a] assms by (auto simp: numbered_def inv_but_def)

lemma hash_and_number_run:
  assumes i: "inv_but {a} s" and a: "a < length (ls_objs s)"
    and t: "is_type s a \<Longrightarrow> pt_at (ls_types_table s) (nat n) = Some a \<and> 0 \<le> n"
    and h: "hash_and_number a n s = Inr (err, s')"
  shows "err = 0 \<and> inv s' \<and> grow A s s' \<and> has_entry s' a"
proof -
  from h obtain s1 where h1: "cu__hash a s = Inr ((), s1)" and sm: "set_small_id a n s1 = Inr ((), s')" and err: "err = 0"
    by (auto simp: hash_and_number_def res_simps)
  from cu__hash_run[OF i _ h1] obtain d where d: "o_priv (obj_at s a) = Some d" and g1: "grow A s s1" and i1: "inv_but {a} s1"
    and same: "ls_dtags s1 = ls_dtags s" "ls_objs s1 = ls_objs s" "ls_types_table s1 = ls_types_table s"
    and hd: "is_type s a \<Longrightarrow> hashed s1 d" by blast
  from set_small_id_run[OF i1 _ sm] obtain d' where d': "o_priv (obj_at s1 a) = Some d'" "d' < length (ls_dtags s1)"
    and s': "s' = s1 \<lparr> ls_dtags := (ls_dtags s1)[d' := (dtag_at s1 d') \<lparr> dt_small_id := word_of_int n \<rparr>] \<rparr>"
    and g2: "grow A s1 s'" and i2: "inv_but {a} s'" by blast
  have dd: "d' = d" using d d' same by simp
  have ty: "is_type s' a = is_type s a" using s' same by simp
  have "numbered s' d" if "is_type s a"
    by (rule small_id_numbered[OF i1 _ _ s'[unfolded dd], of a]) (use a d same t that in simp_all)
  moreover have "hashed s' d" if "is_type s a" using grow_hashed[OF g2 _ hd[OF that]] d'(2) dd by simp
  ultimately have "inv s'" by (intro inv_but_done[OF i2, of d]) (use d a same ty s' in simp_all)
  moreover have "has_entry s' a" using t ty s' same by (auto simp: has_entry_def)
  ultimately show ?thesis using err g1 g2 grow_trans by blast
qed

lemma number_and_hash_run:
  assumes i: "inv_but {a} s" and a: "a < length (ls_objs s)"
    and t: "is_type s a \<Longrightarrow> pt_at (ls_types_table s) (nat n) = Some a \<and> 0 \<le> n"
    and sm: "set_small_id a n s = Inr (u, s1)" and re: "rebody A s1 s2" and h: "cu__hash a s2 = Inr (v, s')"
  shows "inv s' \<and> grow A s s' \<and> has_entry s' a"
proof -
  from set_small_id_run[OF i _ sm] obtain d where d: "o_priv (obj_at s a) = Some d" "d < length (ls_dtags s)"
    and s1: "s1 = s \<lparr> ls_dtags := (ls_dtags s)[d := (dtag_at s d) \<lparr> dt_small_id := word_of_int n \<rparr>] \<rparr>"
    and g1: "grow A s s1" and i1: "inv_but {a} s1" by blast
  have g2: "grow A s1 s2" and i2: "inv_but {a} s2" using re i1 rebody_grow rebody_inv by blast+
  from cu__hash_run[OF i2 _ h] obtain d' where d': "o_priv (obj_at s2 a) = Some d'" and g3: "grow A s2 s'" and i3: "inv_but {a} s'"
    and same: "ls_dtags s' = ls_dtags s2" "ls_objs s' = ls_objs s2" "ls_types_table s' = ls_types_table s2"
    and hd: "is_type s2 a \<Longrightarrow> hashed s' d'" by blast
  have g: "grow A s s'" using g1 g2 g3 grow_trans by blast
  have p: "o_priv (obj_at s' a) = Some d" using g a d by (simp add: grow_def)
  have dd: "d' = d" using p d' same by simp
  have ty: "is_type s' a = is_type s a" using grow_is_type[OF g a] .
  have "numbered s1 d" if "is_type s a"
    by (rule small_id_numbered[OF i a d(1) s1]) (use t that in simp_all)
  then have "numbered s' d" if "is_type s a" using that re same by (simp add: numbered_def rebody_def)
  moreover have "hashed s' d" if "is_type s a" using hd that ty same by (simp add: dd)
  moreover have "a < length (ls_objs s')" using g a by (simp add: grow_def)
  ultimately have "inv s'" using p ty by (intro inv_but_done[OF i3]) simp_all
  moreover have "has_entry s' a" using t ty s1 re same by (auto simp: has_entry_def rebody_def)
  ultimately show ?thesis using g by simp
qed

lemma entering_is_type: "entering s s1 \<Longrightarrow> is_type s1 a = is_type s a"
  by (simp add: entering_def)

lemma enter_linked_run:
  assumes i: "inv s" and e: "enter_linked (Tag_At a) s = Inr (err, s')"
  shows "err = 0 \<and> inv s' \<and> grow A s s' \<and> has_entry s' a"
proof -
  from e obtain e1 n s1 where t: "cu__table_add_tag a (- 1) s = Inr ((e1, n), s1)"
    and r: "(if e1 < 0 then (\<lambda>s. Inl (Aborted ''tag__delete'')) else hash_and_number a n) s1 = Inr (err, s')"
    by (auto simp: enter_linked_def res_simps simp del: if_split split del: if_split)
  note * = cu__table_add_tag_run[OF i t]
  have "a < length (ls_objs s1)" using *(2,3) by (simp add: entering_def)
  from hash_and_number_run[OF *(5) this, of n] *(6) r *(1) entering_is_type[OF *(3)] grow_trans[where A = A, OF *(4)]
  show ?thesis by auto
qed

lemma enter_unit_tag_run:
  assumes i: "inv s" and e: "enter_unit_tag check (Tag_At a) s = Inr (err, s')"
  shows "err = 0 \<and> inv s' \<and> grow A s s' \<and> has_entry s' a"
proof -
  from e obtain e1 n s1 where t: "cu__add_tag a (- 1) s = Inr ((e1, n), s1)"
    and r: "(if e1 < 0 then bindL (delete_tag a) (\<lambda>_. retL (- ENOMEM)) else hash_and_number a n) s1 = Inr (err, s')"
    by (auto simp: enter_unit_tag_def res_simps simp del: if_split split del: if_split)
  note * = cu__add_tag_run[OF i t]
  have "a < length (ls_objs s1)" using *(2,3) by (simp add: entering_def)
  from hash_and_number_run[OF *(5) this, of n] *(6) r *(1) entering_is_type[OF *(3)] grow_trans[where A = A, OF *(4)]
  show ?thesis by auto
qed

lemma enter_nested_run:
  assumes i: "inv s" and e: "enter_nested space (Tag_At a) s = Inr (err, s')" and sp: "space \<in> A"
  shows "err = 0 \<and> inv s' \<and> grow A s s' \<and> has_entry s' a"
proof -
  from e obtain e1 n s1 where t: "cu__table_add_tag a (- 1) s = Inr ((e1, n), s1)"
    and r: "(if e1 < 0 then bindL (delete_tag a) (\<lambda>_. retL (- ENOMEM))
      else bindL (set_small_id a n) (\<lambda>_. bindL (o_namespace__add_tag space a) (\<lambda>_. bindL (cu__hash a) (\<lambda>_. retL 0)))) s1 = Inr (err, s')"
    by (auto simp: enter_nested_def res_simps simp del: if_split split del: if_split)
  note * = cu__table_add_tag_run[OF i t]
  have a: "a < length (ls_objs s1)" using *(2,3) by (simp add: entering_def)
  from r *(1) obtain s2 s3 s4 where sm: "set_small_id a n s1 = Inr ((), s2)" and ad: "o_namespace__add_tag space a s2 = Inr ((), s3)"
    and h: "cu__hash a s3 = Inr ((), s')" and err: "err = 0"
    by (auto simp: res_simps)
  have "rebody A s2 s3" by (rule rebody_mono[OF adders_rebody(1)[OF ad]]) (use sp in simp)
  from number_and_hash_run[OF *(5) a _ sm this h] *(6) entering_is_type[OF *(3)] grow_trans[where A = A, OF *(4)] err
  show ?thesis by auto
qed

section \<open>The routines\<close>

definition stands_for :: "lst \<Rightarrow> nat \<Rightarrow> die_info \<Rightarrow> bool" where
  \<comment> \<open>the tag of an entry, before the second pass\<close>
  "stands_for s a di \<longleftrightarrow> a < length (ls_objs s) \<and> o_tag (obj_at s a) = di_tag di \<and> o_type (obj_at s a) = 0 \<and>
     (\<exists>d < length (ls_dtags s). o_priv (obj_at s a) = Some d \<and> dt_id (dtag_at s d) = di_offset di \<and>
        (di_tag di \<noteq> DW_TAG_inlined_subroutine \<longrightarrow> dt_type (dtag_at s d) = die_type di)) \<and>
     (di_tag di \<in> reference_tags \<longrightarrow> \<not> named_body (o_body (obj_at s a)))"

lemma stands_for_grow: "grow A s s' \<Longrightarrow> stands_for s a di \<Longrightarrow> stands_for s' a di"
  unfolding stands_for_def grow_def by auto

lemma made_for_stands: "made_for di a s s' \<Longrightarrow> stands_for s' a di"
  unfolding stands_for_def made_for_def made_def by auto

definition sound :: "nat set \<Rightarrow> int lm \<Rightarrow> bool" where
  \<comment> \<open>whenever it returns, it returns 0 and keeps the invariant, and changes no body outside \<open>A\<close>\<close>
  "sound A m \<longleftrightarrow> (\<forall>s e s'. inv s \<longrightarrow> m s = Inr (e, s') \<longrightarrow> e = 0 \<and> inv s' \<and> grow A s s')"

definition makes :: "nat set \<Rightarrow> die_info \<Rightarrow> tagp lm \<Rightarrow> bool" where
  "makes A di m \<longleftrightarrow> (\<forall>s t s'. inv s \<longrightarrow> m s = Inr (t, s') \<longrightarrow>
     (\<exists>a. t = Tag_At a \<and> stands_for s' a di) \<and> inv s' \<and> grow A s s')"

definition supported :: "u16 set" where
  "supported = {DW_TAG_array_type, DW_TAG_base_type, DW_TAG_const_type, DW_TAG_imported_declaration,
     DW_TAG_imported_module, DW_TAG_pointer_type, DW_TAG_reference_type, DW_TAG_volatile_type,
     DW_TAG_ptr_to_member_type, DW_TAG_enumeration_type, DW_TAG_namespace, DW_TAG_class_type, DW_TAG_interface_type,
     DW_TAG_structure_type, DW_TAG_subprogram, DW_TAG_subroutine_type, DW_TAG_typedef, DW_TAG_union_type,
     DW_TAG_variable}"

definition good :: "child \<Rightarrow> bool" where
  "good c \<longleftrightarrow>
     (if di_tag (ch_info c) \<in> supported then \<forall>tl A. makes A (ch_info c) (ch_process_tag c tl)
      else \<forall>tl. ch_process_tag c tl = retL Unsupported_Tag) \<and>
     (\<forall>A. \<forall>f \<in> A. sound A (ch_create_lexblock c f)) \<and>
     (di_tag (ch_info c) = DW_TAG_inlined_subroutine \<longrightarrow> (\<forall>A. \<forall>l \<in> A. makes A (ch_info c) (ch_create_inline c l)))"

lemma soundI: "(\<And>s e s'. inv s \<Longrightarrow> m s = Inr (e, s') \<Longrightarrow> e = 0 \<and> inv s' \<and> grow A s s') \<Longrightarrow> sound A m"
  by (simp add: sound_def)

lemma soundD: "sound A m \<Longrightarrow> inv s \<Longrightarrow> m s = Inr (e, s') \<Longrightarrow> e = 0 \<and> inv s' \<and> grow A s s'"
  by (simp add: sound_def)

lemma makesD: "makes A di m \<Longrightarrow> inv s \<Longrightarrow> m s = Inr (t, s') \<Longrightarrow>
   (\<exists>a. t = Tag_At a \<and> stands_for s' a di) \<and> inv s' \<and> grow A s s'"
  by (simp add: makes_def)

lemma made_makes:
  assumes "\<And>s a s'. m s = Inr (a, s') \<Longrightarrow> made_for di a s s'"
  shows "makes A di (bindL m (\<lambda>a. retL (Tag_At a)))"
  unfolding makes_def
proof (intro allI impI)
  fix s t s' assume i: "inv s" and r: "bindL m (\<lambda>a. retL (Tag_At a)) s = Inr (t, s')"
  from r obtain a where m: "m s = Inr (a, s')" and t: "t = Tag_At a" by (auto simp: res_simps)
  from assms[OF m] i t show "(\<exists>a. t = Tag_At a \<and> stands_for s' a di) \<and> inv s' \<and> grow A s s'"
    using made_for_inv made_for_grow made_for_stands by blast
qed

lemma made_makes_with:
  \<comment> \<open>an object is made, and then something is done that keeps the invariant\<close>
  assumes n: "\<And>s a s'. new s = Inr (a, s') \<Longrightarrow> made_for di a s s'"
    and f: "\<And>a s t s'. inv s \<Longrightarrow> stands_for s a di \<Longrightarrow> f a s = Inr (t, s') \<Longrightarrow>
      t = Tag_At a \<and> inv s' \<and> grow (insert a A) s s'"
  shows "makes A di (bindL new f)"
  unfolding makes_def
proof (intro allI impI)
  fix s t s' assume i: "inv s" and r: "bindL new f s = Inr (t, s')"
  from r obtain a s1 where m: "new s = Inr (a, s1)" and fa: "f a s1 = Inr (t, s')" by (auto simp: res_simps)
  from n[OF m] i have i1: "inv s1" and g1: "grow A s s1" and st: "stands_for s1 a di"
    using made_for_inv made_for_grow made_for_stands by blast+
  have a: "length (ls_objs s) \<le> a" using n[OF m] by (simp add: made_for_def)
  from f[OF i1 st fa] have 2: "t = Tag_At a" "inv s'" "grow (insert a A) s1 s'" by simp_all
  with stands_for_grow[OF 2(3) st] grow_new[OF g1 2(3) a]
  show "(\<exists>a. t = Tag_At a \<and> stands_for s' a di) \<and> inv s' \<and> grow A s s'" by blast
qed

lemma rebody_keep: "inv s \<Longrightarrow> rebody {a} s s' \<Longrightarrow> a \<in> A \<Longrightarrow> inv s' \<and> grow A s s'"
  using rebody_inv rebody_grow[OF rebody_mono] by blast

lemma for_children_sound: "(\<And>c. c \<in> set cs \<Longrightarrow> sound A (body c)) \<Longrightarrow> sound A (for_children body cs)"
proof (induction cs)
  case Nil
  then show ?case by (simp add: sound_def)
next
  case (Cons c cs)
  show ?case
  proof (rule soundI)
    fix s e s' assume i: "inv s" and r: "for_children body (c # cs) s = Inr (e, s')"
    from r obtain e1 s1 where b: "body c s = Inr (e1, s1)" and n: "(if e1 \<noteq> 0 then retL e1 else for_children body cs) s1 = Inr (e, s')"
      by (auto simp: res_simps simp del: if_split split del: if_split)
    from soundD[OF Cons.prems[of c] i b] have 1: "e1 = 0" "inv s1" "grow A s s1" by auto
    from Cons.IH Cons.prems have "sound A (for_children body cs)" by simp
    from soundD[OF this 1(2)] n 1(1) have "e = 0 \<and> inv s' \<and> grow A s1 s'" by simp
    with 1(3) grow_trans show "e = 0 \<and> inv s' \<and> grow A s s'" by blast
  qed
qed

lemma sound_bind_rebody:
  assumes "\<And>s u s'. m s = Inr (u, s') \<Longrightarrow> rebody A s s'"
  shows "sound A (bindL m (\<lambda>_. retL 0))"
proof (rule soundI)
  fix s e s' assume i: "inv s" and "bindL m (\<lambda>_. retL 0) s = Inr (e, s')"
  then obtain u where e: "e = 0" and "m s = Inr (u, s')" by (auto simp: res_simps)
  from assms[OF this(2)] i e show "e = 0 \<and> inv s' \<and> grow A s s'" using rebody_inv rebody_grow by blast
qed

lemma map_ftype_rebody: "map_ftype g a s = Inr (u, s') \<Longrightarrow> a \<in> A \<Longrightarrow> rebody A s s'"
  by (drule adders_rebody(4), erule rebody_mono) simp

lemma sound_ret: "sound A (retL 0)"
  by (simp add: sound_def)

lemma makes_enter:
  assumes m: "makes A di m" and e: "\<And>s a e s'. inv s \<Longrightarrow> f (Tag_At a) s = Inr (e, s') \<Longrightarrow> e = 0 \<and> inv s' \<and> grow A s s'"
  shows "sound A (bindL m f)"
proof (rule soundI)
  fix s e s' assume i: "inv s" and r: "bindL m f s = Inr (e, s')"
  from r obtain t s1 where t: "m s = Inr (t, s1)" and f: "f t s1 = Inr (e, s')" by (auto simp: res_simps)
  from makesD[OF m i t] obtain a where a: "t = Tag_At a" and 1: "inv s1" "grow A s s1" by auto
  from e[OF 1(1) f[unfolded a]] 1(2) grow_trans show "e = 0 \<and> inv s' \<and> grow A s s'" by blast
qed

lemma linked_sound: "makes A di m \<Longrightarrow> sound A (bindL m enter_linked)"
  by (erule makes_enter) (use enter_linked_run in blast)

lemma unit_tag_sound:
  assumes c: "good c"
  shows "sound A (bindL (ch_process_tag c tlev) (enter_unit_tag check))"
proof (cases "di_tag (ch_info c) \<in> supported")
  case True
  with c have "makes A (ch_info c) (ch_process_tag c tlev)" by (simp add: good_def)
  then show ?thesis by (rule makes_enter) (use enter_unit_tag_run in blast)
next
  case False
  with c have "ch_process_tag c tlev = retL Unsupported_Tag" by (simp add: good_def)
  then show ?thesis by (auto simp: sound_def enter_unit_tag_def bindL_def)
qed

lemma parameter_makes:
  assumes "di_tag di = DW_TAG_formal_parameter" and "(case ftype of Some ft \<Rightarrow> ft | None \<Rightarrow> lexblock) \<in> A"
  shows "makes A di (die__create_new_parameter di ftype lexblock)"
  unfolding die__create_new_parameter_def
proof (rule made_makes_with[OF plain_new_for(7)])
  show "di_tag di \<notin> reference_tags" using assms(1) by (simp add: reference_tags_def)
  fix a s t s' assume i: "inv s" and r: "bindL (case ftype of Some ft \<Rightarrow> o_ftype__add_parameter ft a | None \<Rightarrow> o_lexblock__add_tag lexblock a)
     (\<lambda>_. retL (Tag_At a)) s = Inr (t, s')"
  show "t = Tag_At a \<and> inv s' \<and> grow (insert a A) s s'"
    using r assms(2) rebody_keep[OF i, of _ s' "insert a A"]
    by (auto simp: res_simps split: option.splits dest: adders_rebody2)
qed

lemma label_makes:
  assumes "di_tag di = DW_TAG_label" and "lexblock \<in> A"
  shows "makes A di (die__create_new_label di lexblock)"
  unfolding die__create_new_label_def
proof (rule made_makes_with[OF plain_new_for(8)])
  show "di_tag di \<notin> reference_tags" using assms(1) by (simp add: reference_tags_def)
  fix a s t s' assume i: "inv s" and r: "bindL (o_lexblock__add_label lexblock a) (\<lambda>_. retL (Tag_At a)) s = Inr (t, s')"
  show "t = Tag_At a \<and> inv s' \<and> grow (insert a A) s s'"
    using r assms(2) rebody_keep[OF i, of _ s' "insert a A"] by (auto simp: res_simps dest: adders_rebody2)
qed

lemma subroutine_type_child_sound: "good c \<Longrightarrow> ft \<in> A \<Longrightarrow> sound A (subroutine_type_child ft c)"
  unfolding subroutine_type_child_def Let_def
  by (auto intro!: linked_sound parameter_makes unit_tag_sound sound_bind_rebody dest: map_ftype_rebody)

lemma inv_but_mono: "inv s \<Longrightarrow> inv_but X s"
  by (auto simp: inv_but_def)

lemma hash_non_type:
  assumes i: "inv s" and t: "\<not> is_type s a" and h: "cu__hash a s = Inr (u, s')"
  shows "inv s' \<and> grow A s s'"
proof -
  from cu__hash_run[OF inv_but_mono[OF i] _ h, of "{a}"] obtain d where d: "o_priv (obj_at s a) = Some d" and g: "grow A s s'"
    and i': "inv_but {a} s'" and same: "ls_objs s' = ls_objs s" by blast
  have "a < length (ls_objs s)" using h by (auto simp: cu__hash_def res_simps dest!: get_obj_run)
  with inv_but_done[OF i', of d] d same t g show ?thesis by simp
qed

lemma set_small_id_objs: "set_small_id a n s = Inr (u, s') \<Longrightarrow> ls_objs s' = ls_objs s"
  by (auto simp: set_small_id_def set_dtag_def res_simps split: if_splits dest!: priv_run)

lemma cu__hash_objs:
  assumes "cu__hash a s = Inr (u, s')"
  shows "ls_objs s' = ls_objs s"
proof -
  from assms obtain d where "(if is_type s a
       then bindE (hashtags__hash d (dt_id (dtag_at s d)) (ls_hash_types s)) (\<lambda>h. Inr ((), s \<lparr> ls_hash_types := h \<rparr>))
       else bindE (hashtags__hash d (dt_id (dtag_at s d)) (ls_hash_tags s)) (\<lambda>h. Inr ((), s \<lparr> ls_hash_tags := h \<rparr>))) = Inr (u, s')"
    by (auto simp: cu__hash_def res_simps simp del: if_split split del: if_split dest!: get_obj_run priv_run)
  then show ?thesis by (cases "is_type s a") (auto simp: res_simps)
qed

lemma process_member_run:
  assumes tag: "di_tag di = DW_TAG_inheritance \<or> di_tag di = DW_TAG_member" and cl: "class \<in> A"
    and i: "inv s" and r: "process_member di class s = Inr (e, s')"
  obtains u m s1 s2 s3 where "e = 0" and "inv s'" and "class_member__new di u s = Inr (m, s1)" and "stands_for s1 m di"
    and "grow A s s1" and "grow A s1 s'" and "ls_objs s2 = ls_objs s1" and "o_type__add_member class m s2 = Inr ((), s3)"
    and "ls_objs s' = ls_objs s3"
proof -
  from r obtain u m s1 e1 s2 where n: "class_member__new di u s = Inr (m, s1)"
    and e1: "(if cu__is_c_plus_plus s1
         then bindL (cu__table_add_tag m (- 1)) (\<lambda>(err, i).
           if err < 0 then bindL (obstack_free m) (\<lambda>_. retL (- ENOMEM))
           else bindL (set_small_id m i) (\<lambda>_. retL 0)) s1
         else Inr (0, s1)) = Inr (e1, s2)"
    and last: "(if e1 \<noteq> 0 then retL e1
       else bindL (o_type__add_member class m) (\<lambda>_. bindL (cu__hash m) (\<lambda>_. retL 0))) s2 = Inr (e, s')"
    by (auto simp: process_member_def res_simps simp del: if_split split del: if_split dest!: get_obj_run)
  have "di_tag di \<notin> reference_tags" using tag by (auto simp: reference_tags_def)
  from plain_new_for(9)[OF n this] i have i1: "inv s1" and g1: "grow A s s1" and st: "stands_for s1 m di"
    using made_for_inv made_for_grow made_for_stands by blast+
  have nt: "\<not> is_type s1 m" using st tag
    by (auto simp: stands_for_def obj_head_def tag__is_tag_type_def tag__is_type_def tag__is_union_def tag__is_struct_def
      tag__is_typedef_def tag__is_enumeration_def)
  show thesis
  proof (cases "cu__is_c_plus_plus s1")
    case True
    with e1 obtain err k t1 where t: "cu__table_add_tag m (- 1) s1 = Inr ((err, k), t1)"
      and x: "(if err < 0 then bindL (obstack_free m) (\<lambda>_. retL (- ENOMEM))
           else bindL (set_small_id m k) (\<lambda>_. retL 0)) t1 = Inr (e1, s2)"
      by (auto simp: res_simps simp del: if_split split del: if_split)
    note * = cu__table_add_tag_run[OF i1 t]
    from x *(1) have sm: "set_small_id m k t1 = Inr ((), s2)" and e0: "e1 = 0" by (auto simp: res_simps)
    from last e0 obtain s3 where ad: "o_type__add_member class m s2 = Inr ((), s3)" and h: "cu__hash m s3 = Inr ((), s')"
      and e: "e = 0" by (auto simp: res_simps)
    have m: "m < length (ls_objs t1)" using *(2,3) by (simp add: entering_def)
    have re: "rebody A s2 s3" by (rule rebody_mono[OF adders_rebody2(1)[OF ad]]) (use cl in simp)
    from number_and_hash_run[OF *(5) m _ sm re h] *(6) entering_is_type[OF *(3)] have 2: "inv s'" "grow A t1 s'" by auto
    have "ls_objs s2 = ls_objs s1" using set_small_id_objs[OF sm] *(3) by (simp add: entering_def)
    from that[OF e 2(1) n st g1 grow_trans[OF *(4) 2(2)] this ad cu__hash_objs[OF h]] show thesis .
  next
    case False
    with e1 have e0: "e1 = 0" "s2 = s1" by simp_all
    from last e0 obtain s3 where ad: "o_type__add_member class m s1 = Inr ((), s3)" and h: "cu__hash m s3 = Inr ((), s')"
      and e: "e = 0" by (auto simp: res_simps)
    from rebody_keep[OF i1 adders_rebody2(1)[OF ad] cl] have 3: "inv s3" "grow A s1 s3" by auto
    have "\<not> is_type s3 m" using grow_is_type[OF 3(2)] nt st by (simp add: stands_for_def)
    from hash_non_type[OF 3(1) this h] have 4: "inv s'" "grow A s3 s'" by auto
    from that[OF e 4(1) n st g1 grow_trans[OF 3(2) 4(2)] refl ad cu__hash_objs[OF h]] show thesis .
  qed
qed

lemma process_member_sound:
  assumes tag: "di_tag di = DW_TAG_inheritance \<or> di_tag di = DW_TAG_member" and cl: "class \<in> A"
  shows "sound A (process_member di class)"
  by (rule soundI, erule (1) process_member_run[OF tag cl]) (blast intro: grow_trans)

lemma nested_sound:
  assumes c: "good c" and f: "\<And>s a e s'. inv s \<Longrightarrow> f (Tag_At a) s = Inr (e, s') \<Longrightarrow> e = 0 \<and> inv s' \<and> grow A s s'"
    and u: "\<And>s. \<exists>x. f Unsupported_Tag s = Inl x"
  shows "sound A (bindL (ch_process_tag c False) f)"
proof (cases "di_tag (ch_info c) \<in> supported")
  case True
  with c have "makes A (ch_info c) (ch_process_tag c False)" by (simp add: good_def)
  then show ?thesis by (rule makes_enter) (use f in blast)
next
  case False
  with c have e: "ch_process_tag c False = retL Unsupported_Tag" by (simp add: good_def)
  have "f Unsupported_Tag s \<noteq> Inr x" for s x using u[of s] by auto
  then show ?thesis unfolding e by (simp add: sound_def bindL_def)
qed

lemma enter_class_run:
  assumes i: "inv s" and e: "bindL (enter_nested class (Tag_At a)) (\<lambda>err. if err \<noteq> 0 then retL err
      else bindL (add_virtual class a) (\<lambda>_. retL 0)) s = Inr (e, s')"
    and cl: "class \<in> A"
  shows "e = 0 \<and> inv s' \<and> grow A s s'"
proof -
  from e obtain e1 s1 where n: "enter_nested class (Tag_At a) s = Inr (e1, s1)"
    and v: "(if e1 \<noteq> 0 then retL e1 else bindL (add_virtual class a) (\<lambda>_. retL 0)) s1 = Inr (e, s')"
    by (auto simp: res_simps simp del: if_split split del: if_split)
  from enter_nested_run[OF i n cl] have 1: "e1 = 0" "inv s1" "grow A s s1" by auto
  from v 1(1) have "add_virtual class a s1 = Inr ((), s')" and "e = 0" by (auto simp: res_simps)
  with rebody_keep[OF 1(2) adders_rebody2(9) cl] 1(3) grow_trans show ?thesis by blast
qed

lemma class_child_sound:
  assumes "good c" and cl: "class \<in> A"
  shows "sound A (class_child class c)"
proof -
  have n: "sound A (bindL (ch_process_tag c False) (\<lambda>t. bindL (enter_nested class t) (\<lambda>err. case t of
      Tag_At a \<Rightarrow> if err \<noteq> 0 then retL err else bindL (add_virtual class a) (\<lambda>_. retL 0) | _ \<Rightarrow> retL err)))"
  proof (rule nested_sound[OF assms(1)])
    fix s a e s' assume i: "inv s" and r: "bindL (enter_nested class (Tag_At a)) (\<lambda>err. case Tag_At a of
      Tag_At a \<Rightarrow> if err \<noteq> 0 then retL err else bindL (add_virtual class a) (\<lambda>_. retL 0) | _ \<Rightarrow> retL err) s = Inr (e, s')"
    from r have "bindL (enter_nested class (Tag_At a)) (\<lambda>err. if err \<noteq> 0 then retL err
      else bindL (add_virtual class a) (\<lambda>_. retL 0)) s = Inr (e, s')" by (simp only: tagp.case)
    then show "e = 0 \<and> inv s' \<and> grow A s s'" using cl by (rule enter_class_run[OF i])
  qed (simp add: bindL_def enter_nested_def)
  have p: "sound A (bindL (tag__print_not_supported tag) (\<lambda>_. retL 0))" for tag
    by (rule sound_bind_rebody) (rule not_supported_rebody)
  have m: "sound A (process_member (ch_info c) class)" if "di_tag (ch_info c) = DW_TAG_inheritance \<or> di_tag (ch_info c) = DW_TAG_member"
    using process_member_sound[OF that cl] .
  let ?tag = "di_tag (ch_info c)"
  show ?thesis
  proof (cases "?tag \<in> {DW_TAG_GNU_template_template_param, DW_TAG_GNU_template_parameter_pack,
                 DW_TAG_template_type_parameter, DW_TAG_template_value_parameter}")
    case True
    show ?thesis unfolding class_child_def Let_def if_P[OF True] by (rule p)
  next
    case 1: False
    show ?thesis
    proof (cases "?tag = DW_TAG_inheritance \<or> ?tag = DW_TAG_member")
      case True
      show ?thesis unfolding class_child_def Let_def if_not_P[OF 1] if_P[OF True] by (rule m[OF True])
    next
      case False
      show ?thesis unfolding class_child_def Let_def if_not_P[OF 1] if_not_P[OF False] by (rule n)
    qed
  qed
qed

lemma block_sound:
  assumes "good c" and "lb \<in> A"
  shows "sound A (bindL (ch_create_lexblock c lb) (\<lambda>err. retL (if err \<noteq> 0 then - ENOMEM else 0)))"
proof (rule soundI)
  fix s e s' assume i: "inv s" and r: "bindL (ch_create_lexblock c lb) (\<lambda>err. retL (if err \<noteq> 0 then - ENOMEM else 0)) s = Inr (e, s')"
  from r obtain e1 where b: "ch_create_lexblock c lb s = Inr (e1, s')" and e: "e = (if e1 \<noteq> 0 then - ENOMEM else 0)"
    by (auto simp: res_simps)
  have "sound A (ch_create_lexblock c lb)" using assms by (simp add: good_def)
  from soundD[OF this i b] e show "e = 0 \<and> inv s' \<and> grow A s s'" by simp
qed

lemma not_supported_sound: "sound A (bindL (tag__print_not_supported tag) (\<lambda>_. retL 0))"
  by (rule sound_bind_rebody) (rule not_supported_rebody)

lemma inline_sound:
  "good c \<Longrightarrow> di_tag (ch_info c) = DW_TAG_inlined_subroutine \<Longrightarrow> lb \<in> A \<Longrightarrow> sound A (bindL (ch_create_inline c lb) enter_linked)"
  by (rule linked_sound[of _ "ch_info c"]) (simp add: good_def)

lemma label_sound:
  "di_tag di = DW_TAG_label \<Longrightarrow> lb \<in> A \<Longrightarrow> sound A (bindL (die__create_new_label di lb) enter_linked)"
  by (rule linked_sound[OF label_makes])

lemma parameter_sound:
  "di_tag di = DW_TAG_formal_parameter \<Longrightarrow> (case ft of Some ft \<Rightarrow> ft | None \<Rightarrow> lb) \<in> A \<Longrightarrow>
   sound A (bindL (die__create_new_parameter di ft lb) enter_linked)"
  by (rule linked_sound[OF parameter_makes])

lemma inline_child_sound: "good c \<Longrightarrow> lb \<in> A \<Longrightarrow> sound A (inline_child lb c)"
  unfolding inline_child_def Let_def
  by (auto intro!: not_supported_sound block_sound sound_ret label_sound inline_sound unit_tag_sound)

lemma variable_makes: "di_tag di = DW_TAG_variable \<Longrightarrow> makes A di (die__create_new_variable di)"
  unfolding die__create_new_variable_def by (rule made_makes) (simp add: plain_new_for(6) reference_tags_def)

lemma local_variable_sound:
  assumes tag: "di_tag di = DW_TAG_variable" and lb: "lb \<in> A"
  shows "sound A (bindL (die__create_new_variable di) (\<lambda>t. case t of
     Tag_At v \<Rightarrow> bindL (o_lexblock__add_variable lb v) (\<lambda>_. enter_linked t) | _ \<Rightarrow> retL (- ENOMEM)))"
proof (rule makes_enter[OF variable_makes[OF tag]])
  fix s a e s' assume i: "inv s" and r: "(case Tag_At a of
     Tag_At v \<Rightarrow> bindL (o_lexblock__add_variable lb v) (\<lambda>_. enter_linked (Tag_At a)) | _ \<Rightarrow> retL (- ENOMEM)) s = Inr (e, s')"
  from r obtain s1 where ad: "o_lexblock__add_variable lb a s = Inr ((), s1)" and en: "enter_linked (Tag_At a) s1 = Inr (e, s')"
    by (auto simp: res_simps)
  from rebody_keep[OF i adders_rebody2(6)[OF ad] lb] have 1: "inv s1" "grow A s s1" by auto
  from enter_linked_run[OF 1(1) en] 1(2) grow_trans show "e = 0 \<and> inv s' \<and> grow A s s'" by blast
qed

lemma function_child_sound: "good c \<Longrightarrow> lb \<in> A \<Longrightarrow> (\<forall>f. ft = Some f \<longrightarrow> f \<in> A) \<Longrightarrow> sound A (function_child ft lb c)"
  unfolding function_child_def Let_def
  by (auto intro!: not_supported_sound block_sound sound_ret label_sound parameter_sound inline_sound
      unit_tag_sound local_variable_sound sound_bind_rebody dest: map_ftype_rebody split: option.split)

section \<open>Induction over the entries\<close>

lemma loop_makes:
  \<comment> \<open>an object is made, its children are processed, and an error would delete it\<close>
  assumes n: "\<And>s a s'. new s = Inr (a, s') \<Longrightarrow> made_for di a s s'"
    and b: "\<And>a A. a \<in> A \<Longrightarrow> sound A (loop a)"
  shows "makes A di (bindL new (\<lambda>a. bindL (loop a) (\<lambda>err. if err \<noteq> 0 then bindL (del a) (\<lambda>_. retL Null_Tag) else retL (Tag_At a))))"
proof (rule made_makes_with[OF n])
  fix a s t s' assume i: "inv s" and r: "bindL (loop a) (\<lambda>err. if err \<noteq> 0 then bindL (del a) (\<lambda>_. retL Null_Tag) else retL (Tag_At a)) s = Inr (t, s')"
  from r obtain e s1 where l: "loop a s = Inr (e, s1)"
    and x: "(if e \<noteq> 0 then bindL (del a) (\<lambda>_. retL Null_Tag) else retL (Tag_At a)) s1 = Inr (t, s')"
    by (auto simp: res_simps simp del: if_split split del: if_split)
  from soundD[OF b i l, of "insert a A"] x show "t = Tag_At a \<and> inv s' \<and> grow (insert a A) s s'" by auto
qed

lemma array_makes: "makes A di (die__create_new_array di cs)"
  unfolding die__create_new_array_def Let_def
proof (rule made_makes_with[OF plain_new_for(3)])
  fix a s t s' assume i: "inv s" and r: "bindL (get_obj a) (\<lambda>ob. case o_body ob of
         O_Array at \<Rightarrow> bindL (set_body a (O_Array (at \<lparr> at_nr_entries := array_dimensions cs [],
             at_dimensions := of_nat (length (array_dimensions cs [])) \<rparr>))) (\<lambda>_. retL (Tag_At a))
       | _ \<Rightarrow> failL ''array_type'') s = Inr (t, s')"
  then show "t = Tag_At a \<and> inv s' \<and> grow (insert a A) s s'"
    using rebody_keep[OF i, of a s' "insert a A"]
    by (cases "o_body (obj_at s a)"; auto simp: bindL_def get_obj_def res_simps split: if_split_asm dest: set_body_rebody)
qed

lemma enumerators_loop_run: "inv s \<Longrightarrow> a \<in> A \<Longrightarrow> enumerators_loop dis a s = Inr (u, s') \<Longrightarrow> inv s' \<and> grow A s s'"
proof (induction dis arbitrary: s)
  case (Cons di dis)
  show ?case
  proof (cases "di_tag di = DW_TAG_enumerator")
    case True
    with Cons.prems(3) obtain e s1 s2 where n: "enumerator__new di s = Inr (e, s1)"
      and ad: "o_enumeration__add a e s1 = Inr ((), s2)" and l: "enumerators_loop dis a s2 = Inr (u, s')"
      by (auto simp: res_simps)
    from plain_new_for(5)[OF n] Cons.prems(1) have 1: "inv s1" "grow A s s1"
      using made_for_inv made_for_grow by blast+
    from rebody_keep[OF 1(1) adders_rebody2(2)[OF ad] Cons.prems(2)] have 2: "inv s2" "grow A s1 s2" by auto
    from Cons.IH[OF 2(1) Cons.prems(2) l] 1(2) 2(2) grow_trans show ?thesis by blast
  next
    case False
    with Cons show ?thesis by simp
  qed
qed simp

lemma enumeration_makes: "makes A di (die__create_new_enumeration di cs)"
  unfolding die__create_new_enumeration_def
proof (rule made_makes_with[OF typed_new_for(1)])
  fix a s t s' assume i: "inv s" and r: "bindL (map_type_fields (\<lambda>ty. ty \<lparr> ty_size := (if ty_size ty = 0 then 4 * 8 else ty_size ty * 8) \<rparr>) a)
     (\<lambda>_. bindL (enumerators_loop cs a) (\<lambda>_. retL (Tag_At a))) s = Inr (t, s')"
  from r obtain s1 where m: "map_type_fields (\<lambda>ty. ty \<lparr> ty_size := (if ty_size ty = 0 then 4 * 8 else ty_size ty * 8) \<rparr>) a s = Inr ((), s1)"
    and l: "enumerators_loop cs a s1 = Inr ((), s')" and t: "t = Tag_At a" by (auto simp: res_simps)
  have a: "a \<in> insert a A" by simp
  from rebody_keep[OF i adders_rebody(2)[OF m] a] have 1: "inv s1" "grow (insert a A) s s1" by auto
  from enumerators_loop_run[OF 1(1) a l] 1(2) grow_trans t show "t = Tag_At a \<and> inv s' \<and> grow (insert a A) s s'" by blast
qed

lemma lexblock_sound:
  assumes c: "\<And>c. c \<in> set cs \<Longrightarrow> good c" and fa: "father \<in> A"
  shows "sound A (die__create_new_lexblock di cs father)"
proof (rule soundI)
  fix s e s' assume i: "inv s" and r: "die__create_new_lexblock di cs father s = Inr (e, s')"
  from r obtain a s1 e1 s2 where n: "lexblock__new di s = Inr (a, s1)" and p: "die__process_function cs None a s1 = Inr (e1, s2)"
    and x: "(if e1 \<noteq> 0 then bindL (delete_tag a) (\<lambda>_. retL (- ENOMEM))
       else bindL (o_lexblock__add_lexblock father a) (\<lambda>_. retL 0)) s2 = Inr (e, s')"
    by (auto simp: die__create_new_lexblock_def res_simps simp del: if_split split del: if_split)
  from lexblock__new_for[OF n] i have 1: "inv s1" "grow A s s1" using made_for_inv made_for_grow by blast+
  have a: "length (ls_objs s) \<le> a" using lexblock__new_for[OF n] by (simp add: made_for_def)
  have "sound (insert a A) (die__process_function cs None a)" unfolding die__process_function_def
    by (rule for_children_sound) (use c function_child_sound in blast)
  from soundD[OF this 1(1) p] have 2: "e1 = 0" "inv s2" "grow (insert a A) s1 s2" by auto
  have g: "grow A s s2" by (rule grow_new[OF 1(2) 2(3) a])
  from x 2(1) have ad: "o_lexblock__add_lexblock father a s2 = Inr ((), s')" and e: "e = 0" by (auto simp: res_simps)
  from rebody_keep[OF 2(2) adders_rebody2(5)[OF ad] fa] g e grow_trans show "e = 0 \<and> inv s' \<and> grow A s s'" by blast
qed

lemma inline_makes:
  assumes c: "\<And>c. c \<in> set cs \<Longrightarrow> good c" and lb: "lb \<in> A" and tag: "di_tag di = DW_TAG_inlined_subroutine"
  shows "makes A di (die__create_new_inline_expansion di cs lb)"
  unfolding die__create_new_inline_expansion_def
proof (rule made_makes_with[OF inline_expansion__new_for[OF _ tag]])
  fix a s t s' assume i: "inv s" and r: "bindL (die__process_inline_expansion cs lb) (\<lambda>err.
       if err \<noteq> 0 then bindL (obstack_free a) (\<lambda>_. retL Null_Tag)
       else bindL (o_lexblock__add_inline_expansion lb a) (\<lambda>_. retL (Tag_At a))) s = Inr (t, s')"
  from r obtain e s1 where p: "die__process_inline_expansion cs lb s = Inr (e, s1)"
    and x: "(if e \<noteq> 0 then bindL (obstack_free a) (\<lambda>_. retL Null_Tag)
       else bindL (o_lexblock__add_inline_expansion lb a) (\<lambda>_. retL (Tag_At a))) s1 = Inr (t, s')"
    by (auto simp: res_simps simp del: if_split split del: if_split)
  have "sound (insert a A) (die__process_inline_expansion cs lb)" unfolding die__process_inline_expansion_def
    by (rule for_children_sound) (use c lb inline_child_sound in blast)
  from soundD[OF this i p] have 1: "e = 0" "inv s1" "grow (insert a A) s s1" by auto
  have l: "lb \<in> insert a A" using lb by simp
  from x 1(1) have ad: "o_lexblock__add_inline_expansion lb a s1 = Inr ((), s')" and t: "t = Tag_At a" by (auto simp: res_simps)
  from rebody_keep[OF 1(2) adders_rebody2(8)[OF ad] l] 1(3) t grow_trans show "t = Tag_At a \<and> inv s' \<and> grow (insert a A) s s'" by blast
qed auto

lemma create_new_makes:
  assumes c: "\<And>c. c \<in> set cs \<Longrightarrow> good c" and t: "di_tag di \<in> supported"
  shows "makes A di (create_new di cs)"
proof -
  have cls: "a \<in> A \<Longrightarrow> sound A (die__process_class cs a)" for a A unfolding die__process_class_def
    by (rule for_children_sound) (use c class_child_sound in blast)
  have nsp: "a \<in> A \<Longrightarrow> sound A (die__process_namespace cs a)" for a A unfolding die__process_namespace_def
    by (rule for_children_sound) (use c enter_nested_run in \<open>auto simp: enter_nested_def intro!: nested_sound\<close>)
  have fct: "a \<in> A \<Longrightarrow> sound A (die__process_function cs (Some a) a)" for a A unfolding die__process_function_def
    by (rule for_children_sound) (use c function_child_sound in blast)
  have sub: "a \<in> A \<Longrightarrow> sound A (for_children (subroutine_type_child a) cs)" for a A
    by (rule for_children_sound) (use c subroutine_type_child_sound in blast)
  have "makes A di (die__create_new_class di cs)" unfolding die__create_new_class_def
    by (rule loop_makes[OF typed_new_for(2) cls])
  moreover have "makes A di (die__create_new_union di cs)" unfolding die__create_new_union_def
    by (rule loop_makes[OF typed_new_for(1) cls])
  moreover have "makes A di (die__create_new_namespace di cs)" unfolding die__create_new_namespace_def
    by (rule loop_makes[OF plain_new_for(4) nsp])
  moreover have "makes A di (die__create_new_function di cs)" unfolding die__create_new_function_def
    by (rule loop_makes[OF function__new_for fct])
  moreover have "makes A di (die__create_new_subroutine_type di cs)" unfolding die__create_new_subroutine_type_def
    by (rule loop_makes[OF ftype__new_for sub])
  moreover have "makes A di (die__create_new_typedef di)" unfolding die__create_new_typedef_def
    by (rule made_makes[OF typed_new_for(1)])
  moreover have "makes A di (die__create_new_base_type di)" unfolding die__create_new_base_type_def
    by (rule made_makes[OF plain_new_for(2)])
  moreover have "makes A di (die__create_new_tag di)" unfolding die__create_new_tag_def
    by (rule made_makes[OF plain_new_for(1)])
  moreover have "makes A di (die__create_new_ptr_to_member_type di)" unfolding die__create_new_ptr_to_member_type_def
    by (rule made_makes[OF ptr_to_member_type__new_for])
  ultimately show ?thesis using t array_makes enumeration_makes variable_makes
    unfolding create_new_def Let_def supported_def by auto
qed

lemma create_new_unsupported: "di_tag di \<notin> supported \<Longrightarrow> create_new di cs = retL Unsupported_Tag"
  by (simp add: create_new_def supported_def)

lemma process_tag_makes:
  assumes c: "\<And>c. c \<in> set cs \<Longrightarrow> good c" and t: "di_tag di \<in> supported"
  shows "makes A di (die__process_tag di cs tlev)"
  unfolding makes_def
proof (intro allI impI)
  fix s t s' assume i: "inv s" and r: "die__process_tag di cs tlev s = Inr (t, s')"
  from r obtain t1 s1 where n: "create_new di cs s = Inr (t1, s1)"
    and x: "(case t1 of Tag_At a \<Rightarrow> bindL (get_obj a) (\<lambda>ob. bindL (set_obj a (ob \<lparr> o_top_level := tlev \<rparr>)) (\<lambda>_. retL t1))
      | _ \<Rightarrow> retL t1) s1 = Inr (t, s')"
    by (auto simp: die__process_tag_def res_simps)
  from makesD[OF create_new_makes[OF c t] i n] obtain a where a: "t1 = Tag_At a" and st: "stands_for s1 a di"
    and 1: "inv s1" "grow A s s1" by auto
  from x a have t: "t = Tag_At a" and re: "rebody {} s1 s'"
    by (auto simp: res_simps set_obj_def rebody_def nth_list_update split: if_splits dest!: get_obj_run)
  have 2: "inv s'" "grow A s1 s'" using rebody_inv[OF 1(1) re] rebody_grow[OF re] grow_any by blast+
  from 2 st stands_for_grow 1(2) grow_trans t
  show "(\<exists>a. t = Tag_At a \<and> stands_for s' a di) \<and> inv s' \<and> grow A s s'" by blast
qed

lemma visit_info: "ch_info (visit d) = die_info d"
  by (cases d) (simp add: Let_def)

lemma visit_good: "good (visit d)"
proof (induction d)
  case (Die di cs)
  let ?cs = "map visit cs"
  have c: "good c" if "c \<in> set ?cs" for c using that Die by auto
  have l: "f \<in> A \<Longrightarrow> sound A (die__create_new_lexblock di ?cs f)" for f A using c by (rule lexblock_sound)
  have n: "makes A di (die__create_new_inline_expansion di ?cs l)" if "l \<in> A" "di_tag di = DW_TAG_inlined_subroutine" for l A
    using c that by (rule inline_makes)
  have t: "makes A di (die__process_tag di ?cs tlev)" if "di_tag di \<in> supported" for tlev A
    using c that by (rule process_tag_makes)
  have u: "die__process_tag di ?cs tlev = retL Unsupported_Tag" if "di_tag di \<notin> supported" for tlev
    using create_new_unsupported[OF that] by (simp add: die__process_tag_def fun_eq_iff bindL_def)
  show ?case using l n t u by (simp add: good_def Let_def)
qed

section \<open>The unit\<close>

definition entered :: "lst \<Rightarrow> die_info \<Rightarrow> nat \<Rightarrow> bool" where
  "entered s di a \<longleftrightarrow> stands_for s a di \<and> has_entry s a"

lemma entered_grow: "grow A s s' \<Longrightarrow> entered s di a \<Longrightarrow> entered s' di a"
  using stands_for_grow[of A s s' a di] has_entry_grow[of A s s' a] by (auto simp: entered_def stands_for_def)

lemma unit_child_run:
  assumes g: "good c" and i: "inv s" and r: "unit_child c s = Inr (e, s')"
  shows "e = 0 \<and> inv s' \<and> grow {} s s' \<and> (di_tag (ch_info c) \<in> supported \<longrightarrow>
    (\<exists>a s1. ch_process_tag c True s = Inr (Tag_At a, s1) \<and> a < length (ls_objs s1) \<and> grow {} s1 s' \<and> entered s' (ch_info c) a))"
proof (cases "di_tag (ch_info c) \<in> supported")
  case True
  with g have m: "makes {} (ch_info c) (ch_process_tag c True)" by (simp add: good_def)
  from r obtain t s1 where p: "ch_process_tag c True s = Inr (t, s1)"
    and x: "(case t of Null_Tag \<Rightarrow> retL (- ENOMEM) | Unsupported_Tag \<Rightarrow> retL 0
     | Tag_At a \<Rightarrow> bindL (cu__add_tag a (- 1)) (\<lambda>(err, i). hash_and_number a i)) s1 = Inr (e, s')"
    by (auto simp: unit_child_def res_simps)
  from makesD[OF m i p] obtain a where a: "t = Tag_At a" and st: "stands_for s1 a (ch_info c)" and 1: "inv s1" "grow {} s s1" by auto
  from x a obtain e1 n s2 where t: "cu__add_tag a (- 1) s1 = Inr ((e1, n), s2)" and h: "hash_and_number a n s2 = Inr (e, s')"
    by (auto simp: res_simps)
  note * = cu__add_tag_run[OF 1(1) t]
  have l: "a < length (ls_objs s2)" using *(2,3) by (simp add: entering_def)
  from hash_and_number_run[OF *(5) l _ h] *(6) entering_is_type[OF *(3)]
  have 3: "e = 0" "inv s'" "grow {} s2 s'" "has_entry s' a" by auto
  have g: "grow {} s1 s'" using *(4) 3(3) grow_trans by blast
  have "stands_for s' a (ch_info c)" by (rule stands_for_grow[OF g st])
  moreover have "grow {} s s'" by (rule grow_trans[OF 1(2) g])
  moreover have "a < length (ls_objs s1)" using st by (simp add: stands_for_def)
  ultimately show ?thesis using 3(1,2,4) g p a by (auto simp: entered_def)
next
  case False
  with g have "ch_process_tag c True = retL Unsupported_Tag" by (simp add: good_def)
  with r i False show ?thesis by (simp add: unit_child_def bindL_def)
qed

end
