(* ===== verification/Dwarf_Recode_Inv.thy ===== *)
theory Dwarf_Recode_Inv
  imports Dwarf_Process_Inv
begin

text \<open>
  The second pass writes the right numbers: whatever it writes into the type of a tag that is a
  plain reference to a type (\<open>plain\<close>) is the number of the type its entry refers to (\<open>want\<close>), so that
  a type written once stays; and every tag the pass visits has been written. The shadow records
  and the hash tables do not change, and the tables only grow.
\<close>

section \<open>What the second pass may change\<close>

definition plain :: "obj \<Rightarrow> bool" where
  \<comment> \<open>a type that refers to another one, or a member that is no bit field\<close>
  "plain ob \<longleftrightarrow> (case o_body ob of
       O_Parameter name \<Rightarrow> False
     | O_Variable v \<Rightarrow> False
     | O_Label addr name \<Rightarrow> False
     | O_Member cm cv acc \<Rightarrow> o_tag ob = DW_TAG_member \<and> cm_bitfield_size cm = 0
     | _ \<Rightarrow> o_tag ob \<in> reference_tags)"

definition found :: "lst \<Rightarrow> dwarf_off_ref \<Rightarrow> nat option" where
  "found s ref = (case dwarf_cu__find_type_by_ref ref s of Inr r \<Rightarrow> r | Inl e \<Rightarrow> None)"

definition refers :: "lst \<Rightarrow> nat \<Rightarrow> nat option" where
  "refers s a = (case o_priv (obj_at s a) of None \<Rightarrow> None | Some d \<Rightarrow> found s (dt_type (dtag_at s d)))"

definition want :: "lst \<Rightarrow> nat \<Rightarrow> u16" where
  "want s a = (case refers s a of None \<Rightarrow> 0 | Some d' \<Rightarrow> dt_small_id (dtag_at s d'))"

definition tok :: "lst \<Rightarrow> bool" where
  "tok s \<longleftrightarrow> pt_ok (ls_types_table s) \<and> pt_ok (ls_functions_table s) \<and> pt_ok (ls_tags_table s) \<and>
     ls_table_alloc s = (\<lambda>_. True)"

definition is_scope :: "lst \<Rightarrow> nat \<Rightarrow> bool" where
  "is_scope s a \<longleftrightarrow> tag__has_namespace (obj_head (obj_at s a))"

definition is_member :: "obj \<Rightarrow> bool" where
  "is_member ob \<longleftrightarrow> o_tag ob = DW_TAG_member \<and> (case o_body ob of O_Member cm cv acc \<Rightarrow> True | _ \<Rightarrow> False)"

definition recoded :: "lst \<Rightarrow> lst \<Rightarrow> bool" where
  "recoded s s' \<longleftrightarrow> ls_dtags s' = ls_dtags s \<and> ls_hash_types s' = ls_hash_types s \<and> ls_hash_tags s' = ls_hash_tags s \<and>
     ls_type_unit s' = ls_type_unit s \<and> length (ls_objs s) \<le> length (ls_objs s') \<and>
     pt_le (ls_types_table s) (ls_types_table s') \<and> pt_le (ls_functions_table s) (ls_functions_table s') \<and>
     pt_le (ls_tags_table s) (ls_tags_table s') \<and>
     (\<forall>a < length (ls_objs s). o_tag (obj_at s' a) = o_tag (obj_at s a) \<and> o_priv (obj_at s' a) = o_priv (obj_at s a) \<and>
        (is_scope s a \<longrightarrow> namespace_tags (obj_at s' a) = namespace_tags (obj_at s a)) \<and>
        (is_member (obj_at s a) \<longrightarrow> o_body (obj_at s' a) = o_body (obj_at s a)) \<and>
        (plain (obj_at s a) \<longrightarrow> plain (obj_at s' a) \<and> o_type (obj_at s' a) \<in> {o_type (obj_at s a), want s a}))"

lemma recoded_refl [simp]: "recoded s s"
  by (simp add: recoded_def)

lemma found_recoded: "recoded s s' \<Longrightarrow> found s' ref = found s ref"
  by (simp add: recoded_def found_def dwarf_cu__find_type_by_ref_def split: type_unit.split)

lemma want_recoded:
  assumes "recoded s s'" and "a < length (ls_objs s)"
  shows "refers s' a = refers s a" and "want s' a = want s a"
proof -
  show "refers s' a = refers s a"
    using assms found_recoded[OF assms(1)] by (auto simp: refers_def recoded_def split: option.split)
  then show "want s' a = want s a" using assms by (auto simp: want_def recoded_def split: option.split)
qed

lemma is_scope_recoded: "recoded s s' \<Longrightarrow> a < length (ls_objs s) \<Longrightarrow> is_scope s' a = is_scope s a"
  by (simp add: recoded_def is_scope_def obj_head_def tag_kind_defs)

lemma recoded_obj:
  assumes "recoded s s'" and "a < length (ls_objs s)"
  shows "a < length (ls_objs s')" and "o_tag (obj_at s' a) = o_tag (obj_at s a)"
    and "is_member (obj_at s a) \<Longrightarrow> o_body (obj_at s' a) = o_body (obj_at s a)" and "o_priv (obj_at s' a) = o_priv (obj_at s a)"
    and "is_scope s a \<Longrightarrow> namespace_tags (obj_at s' a) = namespace_tags (obj_at s a)"
    and "plain (obj_at s a) \<Longrightarrow> plain (obj_at s' a)"
    and "plain (obj_at s a) \<Longrightarrow> o_type (obj_at s' a) = o_type (obj_at s a) \<or> o_type (obj_at s' a) = want s a"
  using assms by (auto simp: recoded_def)

lemma recoded_trans:
  assumes a: "recoded s s1" and b: "recoded s1 s2"
  shows "recoded s s2"
proof -
  have "o_tag (obj_at s2 x) = o_tag (obj_at s x) \<and> o_priv (obj_at s2 x) = o_priv (obj_at s x) \<and>
      (is_scope s x \<longrightarrow> namespace_tags (obj_at s2 x) = namespace_tags (obj_at s x)) \<and>
      (is_member (obj_at s x) \<longrightarrow> o_body (obj_at s2 x) = o_body (obj_at s x)) \<and>
      (plain (obj_at s x) \<longrightarrow> plain (obj_at s2 x) \<and> o_type (obj_at s2 x) \<in> {o_type (obj_at s x), want s x})"
    if x: "x < length (ls_objs s)" for x
  proof -
    note 1 = recoded_obj[OF a x]
    note 2 = recoded_obj[OF b 1(1)]
    have "is_scope s x \<Longrightarrow> is_scope s1 x" "want s1 x = want s x"
      using is_scope_recoded[OF a x] want_recoded[OF a x] by simp_all
    moreover have "is_member (obj_at s x) \<Longrightarrow> is_member (obj_at s1 x)" using 1(2,3) by (simp add: is_member_def)
    ultimately show ?thesis using 1 2 by auto
  qed
  then show ?thesis using a b unfolding recoded_def by (auto intro: pt_le_trans)
qed

definition num_written :: "lst \<Rightarrow> nat \<Rightarrow> bool" where
  "num_written s a \<longleftrightarrow> a < length (ls_objs s) \<and> (refers s a \<noteq> None \<longrightarrow> o_type (obj_at s a) = want s a)"

lemma num_written_recoded: "recoded s s' \<Longrightarrow> plain (obj_at s a) \<Longrightarrow> num_written s a \<Longrightarrow> num_written s' a"
  using want_recoded[of s s' a] recoded_obj[of s s' a] by (auto simp: num_written_def)

definition keeps :: "'a lm \<Rightarrow> bool" where
  "keeps m \<longleftrightarrow> (\<forall>s x s'. tok s \<longrightarrow> m s = Inr (x, s') \<longrightarrow> tok s' \<and> recoded s s')"

lemma keepsI: "(\<And>s x s'. tok s \<Longrightarrow> m s = Inr (x, s') \<Longrightarrow> tok s' \<and> recoded s s') \<Longrightarrow> keeps m"
  by (simp add: keeps_def)

lemma keepsD: "keeps m \<Longrightarrow> tok s \<Longrightarrow> m s = Inr (x, s') \<Longrightarrow> tok s' \<and> recoded s s'"
  by (simp add: keeps_def)

lemma keeps_bind [intro]:
  assumes "keeps m" and "\<And>x. keeps (f x)"
  shows "keeps (bindL m f)"
proof (rule keepsI)
  fix s x s' assume t: "tok s" and r: "bindL m f s = Inr (x, s')"
  from r obtain y s1 where m: "m s = Inr (y, s1)" and f: "f y s1 = Inr (x, s')" by (auto simp: res_simps)
  from keepsD[OF assms(1) t m] have 1: "tok s1" "recoded s s1" by auto
  from keepsD[OF assms(2) 1(1) f] 1(2) recoded_trans show "tok s' \<and> recoded s s'" by blast
qed

lemma keeps_ret [simp, intro]: "keeps (retL x)" "keeps (failL e)"
  by (simp_all add: keeps_def)

section \<open>Single writes\<close>

lemma set_obj_run: "set_obj a ob s = Inr (u, s') \<Longrightarrow> a < length (ls_objs s) \<and> s' = s \<lparr> ls_objs := (ls_objs s)[a := ob] \<rparr>"
  by (auto simp: set_obj_def split: if_splits)

lemma set_obj_recoded:
  assumes t: "tok s" and r: "set_obj a ob s = Inr (u, s')" and h: "o_tag ob = o_tag (obj_at s a)" "o_priv ob = o_priv (obj_at s a)"
    and ns: "is_scope s a \<Longrightarrow> namespace_tags ob = namespace_tags (obj_at s a)"
    and mb: "is_member (obj_at s a) \<Longrightarrow> o_body ob = o_body (obj_at s a)"
    and p: "plain (obj_at s a) \<Longrightarrow> plain ob \<and> o_type ob \<in> {o_type (obj_at s a), want s a}"
  shows "tok s' \<and> recoded s s'"
proof -
  from set_obj_run[OF r] have a: "a < length (ls_objs s)" and s': "s' = s \<lparr> ls_objs := (ls_objs s)[a := ob] \<rparr>" by auto
  have "obj_at s' x = (if x = a then ob else obj_at s x)" if "x < length (ls_objs s)" for x using that a by (auto simp: s')
  then have "\<forall>x < length (ls_objs s). o_tag (obj_at s' x) = o_tag (obj_at s x) \<and> o_priv (obj_at s' x) = o_priv (obj_at s x) \<and>
        (is_scope s x \<longrightarrow> namespace_tags (obj_at s' x) = namespace_tags (obj_at s x)) \<and>
        (is_member (obj_at s x) \<longrightarrow> o_body (obj_at s' x) = o_body (obj_at s x)) \<and>
        (plain (obj_at s x) \<longrightarrow> plain (obj_at s' x) \<and> o_type (obj_at s' x) \<in> {o_type (obj_at s x), want s x})"
    using h ns mb p by simp
  moreover have "tok s'" using t by (simp add: tok_def s')
  ultimately show ?thesis unfolding recoded_def by (simp add: s')
qed

lemma set_type_run:
  assumes "tok s" and "set_type a i s = Inr (u, s')" and "plain (obj_at s a) \<Longrightarrow> i = want s a"
  shows "tok s' \<and> recoded s s' \<and> a < length (ls_objs s) \<and> o_type (obj_at s' a) = i"
proof -
  from assms(2) have r: "set_obj a ((obj_at s a) \<lparr> o_type := i \<rparr>) s = Inr (u, s')" and a: "a < length (ls_objs s)"
    by (auto simp: set_type_def res_simps dest!: get_obj_run)
  have "tok s' \<and> recoded s s'"
    by (rule set_obj_recoded[OF assms(1) r]) (use assms(3) in \<open>auto simp: namespace_tags_def plain_def split: obj_body.split\<close>)
  with set_obj_run[OF r] a show ?thesis by simp
qed

lemma set_body_recoded:
  assumes "tok s" and "set_body a b s = Inr (u, s')"
    and "is_scope s a \<Longrightarrow> namespace_tags ((obj_at s a) \<lparr> o_body := b \<rparr>) = namespace_tags (obj_at s a)"
    and "plain (obj_at s a) \<Longrightarrow> plain ((obj_at s a) \<lparr> o_body := b \<rparr>)"
    and "\<not> is_member (obj_at s a)"
  shows "tok s' \<and> recoded s s'"
proof -
  from assms(2) have "set_obj a ((obj_at s a) \<lparr> o_body := b \<rparr>) s = Inr (u, s')"
    by (auto simp: set_body_def res_simps dest!: get_obj_run)
  then show ?thesis by (rule set_obj_recoded[OF assms(1)]) (use assms(3,4,5) in auto)
qed

lemma find_type_run: "dwarf_cu__find_type_by_ref ref s = Inr r \<Longrightarrow> found s ref = r"
  by (simp add: found_def)

lemma found_void: "ref_off ref = 0 \<Longrightarrow> found s ref = None"
  by (simp add: found_def dwarf_cu__find_type_by_ref_def hashtags__find_def split: type_unit.split)

lemma recode_as_type_run:
  assumes t: "tok s" and p: "o_priv (obj_at s a) = Some d" and a: "a < length (ls_objs s)"
    and r: "recode_as_type a (dt_type (dtag_at s d)) s = Inr (u, s')"
  shows "tok s' \<and> recoded s s' \<and> (plain (obj_at s a) \<longrightarrow> num_written s' a)"
proof -
  from r obtain f where f: "dwarf_cu__find_type_by_ref (dt_type (dtag_at s d)) s = Inr f" and w: "write_small_id a f s = Inr (u, s')"
    by (auto simp: recode_as_type_def res_simps)
  have rf: "refers s a = f" using find_type_run[OF f] by (simp add: refers_def p)
  show ?thesis
  proof (cases f)
    case None
    with w rf a t show ?thesis by (auto simp: write_small_id_def num_written_def)
  next
    case (Some d')
    with w have st: "set_type a (dt_small_id (dtag_at s d')) s = Inr (u, s')"
      by (auto simp: write_small_id_def get_dtag_def res_simps split: if_splits)
    from set_type_run[OF t st] rf Some have 1: "tok s'" "recoded s s'" "o_type (obj_at s' a) = want s a" by (auto simp: want_def)
    with want_recoded[OF 1(2) a] recoded_obj(1)[OF 1(2) a] show ?thesis by (simp add: num_written_def)
  qed
qed

section \<open>Steps that write what they should\<close>

lemma keeps_reads [simp, intro]: "keeps (get_obj a)" "keeps (get_dtag d)" "keeps (priv a)"
  by (auto simp: keeps_def get_dtag_def dest!: get_obj_run priv_run split: if_splits)

lemma write_other_run:
  assumes "tok s" and "write_small_id a r s = Inr (u, s')" and "\<not> plain (obj_at s a)"
  shows "tok s' \<and> recoded s s'"
  using assms set_type_run[of s a _ u s'] by (auto simp: write_small_id_def get_dtag_def res_simps split: option.splits if_splits)

lemma recode_as_tag_run:
  "tok s \<Longrightarrow> recode_as_tag a ref s = Inr (u, s') \<Longrightarrow> \<not> plain (obj_at s a) \<Longrightarrow> tok s' \<and> recoded s s'"
  by (auto simp: recode_as_tag_def res_simps dest: write_other_run)

lemma recode_as_either_run:
  "tok s \<Longrightarrow> recode_as_either a ref s = Inr (u, s') \<Longrightarrow> \<not> plain (obj_at s a) \<Longrightarrow> tok s' \<and> recoded s s'"
  by (auto simp: recode_as_either_def recode_as_type_def res_simps split: if_splits dest: write_other_run)

lemma set_name_run:
  assumes "tok s" and "set_name a name s = Inr (u, s')"
  shows "tok s' \<and> recoded s s' \<and> \<not> plain (obj_at s' a)"
proof -
  from assms(2) obtain b where b: "set_body a b s = Inr (u, s')" and np: "\<not> plain (obj_at s a)" "\<not> plain ((obj_at s a) \<lparr> o_body := b \<rparr>)"
    and ns: "namespace_tags ((obj_at s a) \<lparr> o_body := b \<rparr>) = namespace_tags (obj_at s a)" and mb: "\<not> is_member (obj_at s a)"
    by (cases "o_body (obj_at s a)"; auto simp: set_name_def bindL_def get_obj_def plain_def is_member_def namespace_tags_def split: if_split_asm)
  from set_body_recoded[OF assms(1) b] np ns mb set_body_run[OF b] show ?thesis by auto
qed

lemma keeps_origin_tag: "keeps (origin_tag ref)"
  by (rule keepsI) (auto simp: origin_tag_def get_dtag_def res_simps split: option.splits if_splits dest!: get_obj_run)

lemma keeps_copy_origin: "keeps (copy_origin name_of a ref)"
  unfolding copy_origin_def
proof (intro keeps_bind keeps_origin_tag)
  fix r show "keeps (case r of None \<Rightarrow> retL () | Some ob \<Rightarrow> (\<lambda>s. bindE (name_of (o_body ob)) (\<lambda>name.
         bindL (set_name a name) (\<lambda>_. set_type a (o_type ob)) s)))"
  proof (cases r)
    case (Some ob)
    show ?thesis
    proof (rule keepsI)
      fix s x s' assume t: "tok s" and "(case r of None \<Rightarrow> retL () | Some ob \<Rightarrow> (\<lambda>s. bindE (name_of (o_body ob)) (\<lambda>name.
         bindL (set_name a name) (\<lambda>_. set_type a (o_type ob)) s))) s = Inr (x, s')"
      then obtain name s1 where n: "set_name a name s = Inr ((), s1)" and st: "set_type a (o_type ob) s1 = Inr (x, s')"
        by (auto simp: Some res_simps)
      from set_name_run[OF t n] have 1: "tok s1" "recoded s s1" "\<not> plain (obj_at s1 a)" by auto
      from set_type_run[OF 1(1) st] 1(2,3) recoded_trans show "tok s' \<and> recoded s s'" by blast
    qed
  qed simp
qed

lemma keeps_recode_parameter: "keeps (recode_parameter pos)"
proof (rule keepsI)
  fix s x s' assume t: "tok s" and r: "recode_parameter pos s = Inr (x, s')"
  from r obtain d where p: "pos < length (ls_objs s)" "o_priv (obj_at s pos) = Some d"
    and c: "(if ref_off (dt_type (dtag_at s d)) = 0
     then if ref_off (dt_origin (dtag_at s d)) = 0 then set_type pos 0
          else copy_origin parameter_name pos (dt_origin (dtag_at s d))
     else recode_as_type pos (dt_type (dtag_at s d))) s = Inr (x, s')"
    by (auto simp: recode_parameter_def res_simps simp del: if_split split del: if_split dest!: priv_run)
  show "tok s' \<and> recoded s s'"
  proof (cases "ref_off (dt_type (dtag_at s d)) = 0")
    case True
    then have "want s pos = 0" by (simp add: want_def refers_def p(2) found_void)
    with c True set_type_run[OF t, of pos 0 x s'] keepsD[OF keeps_copy_origin t] show ?thesis
      by (auto split: if_splits)
  next
    case False
    with c recode_as_type_run[OF t p(2,1)] show ?thesis by auto
  qed
qed

lemma keeps_for_list: "(\<And>a. keeps (f a)) \<Longrightarrow> keeps (for_list f as)"
  by (induction as) (auto intro: keeps_bind)

lemma keeps_ftype: "keeps (ftype__recode_dwarf_types a)"
  unfolding ftype__recode_dwarf_types_def
  by (rule keeps_bind) (auto split: obj_body.split intro: keeps_for_list keeps_recode_parameter)

lemma map_type_fields_recoded: "keeps (map_type_fields f a)"
proof (rule keepsI)
  fix s x s' assume t: "tok s" and r: "map_type_fields f a s = Inr (x, s')"
  from r obtain b where b: "set_body a b s = Inr (x, s')"
    and ns: "namespace_tags ((obj_at s a) \<lparr> o_body := b \<rparr>) = namespace_tags (obj_at s a)"
    and pl: "plain (obj_at s a) \<Longrightarrow> plain ((obj_at s a) \<lparr> o_body := b \<rparr>)" and mb: "\<not> is_member (obj_at s a)"
    by (cases "o_body (obj_at s a)"; auto simp: map_type_fields_def bindL_def get_obj_def plain_def is_member_def namespace_tags_def split: if_split_asm)
  from set_body_recoded[OF t b] ns pl mb show "tok s' \<and> recoded s s'" by blast
qed

lemma keeps_spec: "keeps (type__recode_dwarf_specification a)"
  unfolding type__recode_dwarf_specification_def
proof (intro keeps_bind keeps_reads, rule keepsI)
  fix ob p s x s'
  assume t: "tok s" and r: "(case p of (d, dt) \<Rightarrow> \<lambda>s. bindE (dwarf_tag__spec dt) (\<lambda>specification.
       bindE (obj_name (o_body ob)) (\<lambda>name.
       if name \<noteq> 0 \<or> ref_off specification = 0 then Inr ((), s)
       else bindE (dwarf_cu__find_type_by_ref specification s) (\<lambda>r. case r of
           None \<Rightarrow> Inr ((), s)
         | Some dtype \<Rightarrow>
             bindL (get_dtag dtype) (\<lambda>dt1. bindL (get_obj (dt_tag dt1)) (\<lambda>other s1.
               bindE (obj_name (o_body other)) (\<lambda>name1.
                 map_type_fields (\<lambda>ty. ty \<lparr> ty_namespace := (ty_namespace ty) \<lparr> ns_name := name1 \<rparr> \<rparr>) a s1))) s)))) s = Inr (x, s')"
  then show "tok s' \<and> recoded s s'"
    using keepsD[OF map_type_fields_recoded t]
    by (auto simp: res_simps get_dtag_def split: if_splits option.splits prod.splits dest!: get_obj_run)
qed

lemma function_body_recoded:
  assumes "tok s" and "set_body a (O_Function ft lb ts fn fa) s = Inr (u, s')" and "o_body (obj_at s a) = O_Function ft1 lb1 ts1 fn1 fa1"
  shows "tok s' \<and> recoded s s'"
  by (rule set_body_recoded[OF assms(1,2)]) (use assms(3) in \<open>auto simp: namespace_tags_def plain_def is_member_def\<close>)

lemma keeps_function_name: "keeps (recode_function_name a)"
proof (rule keepsI)
  fix s x s' assume t: "tok s" and r: "recode_function_name a s = Inr (x, s')"
  then show "tok s' \<and> recoded s s'"
  proof (cases "o_body (obj_at s a)")
    case (O_Function ft lb ts fn fa)
    have a: "a < length (ls_objs s)" using r by (auto simp: recode_function_name_def res_simps dest!: get_obj_run)
    show ?thesis
    proof (cases "s' = s")
      case False
      with r O_Function obtain u ft1 lb1 ts1 fn1 fa1 s1 where "set_body a (O_Function ft1 lb1 ts1 fn1 fa1) s1 = Inr (u, s')" and "s1 = s"
        by (auto simp: recode_function_name_def bindL_def get_obj_def origin_tag_def get_dtag_def res_simps
            split: if_split_asm option.split_asm obj_body.split_asm dest!: priv_run)
      with function_body_recoded[OF t _ O_Function] show ?thesis by blast
    qed (use t in simp)
  qed (auto simp: recode_function_name_def bindL_def get_obj_def split: if_split_asm)
qed

lemma containing_type_run:
  assumes t: "tok s" and tag: "o_tag (obj_at s a) = DW_TAG_ptr_to_member_type"
    and r: "recode_containing_type a dt s = Inr (u, s')"
  shows "tok s' \<and> recoded s s'"
proof -
  have sc: "\<not> is_scope s a" using tag by (simp add: is_scope_def obj_head_def tag_kind_defs)
  have pl: "plain ((obj_at s a) \<lparr> o_body := O_Ptr_To_Member c \<rparr>)" for c
    using tag by (simp add: plain_def reference_tags_def)
  from r obtain f where f: "(case f of None \<Rightarrow> Inr ((), s)
     | Some d \<Rightarrow> bindL (get_dtag d) (\<lambda>dt. set_body a (O_Ptr_To_Member (dt_small_id dt))) s) = Inr (u, s')"
    by (auto simp: recode_containing_type_def res_simps)
  show ?thesis
  proof (cases f)
    case (Some d)
    with f have "set_body a (O_Ptr_To_Member (dt_small_id (dtag_at s d))) s = Inr (u, s')"
      by (auto simp: get_dtag_def res_simps split: if_splits)
    then show ?thesis by (rule set_body_recoded[OF t]) (use sc pl tag in \<open>auto simp: is_member_def\<close>)
  qed (use f t in simp)
qed

lemma read_tag_run:
  assumes "bindL (get_obj pos) (\<lambda>ob. bindL (priv pos) (\<lambda>(d, dpos). F ob dpos)) s = Inr (u, s')"
  obtains d where "pos < length (ls_objs s)" and "o_priv (obj_at s pos) = Some d" and "F (obj_at s pos) (dtag_at s d) s = Inr (u, s')"
  using assms by (auto simp: res_simps dest!: get_obj_run priv_run)

lemma block_tag_run:
  assumes t: "tok s" and r: "recode_block_tag pos s = Inr (u, s')"
  shows "tok s' \<and> recoded s s'"
proof -
  let ?F = "\<lambda>ob dpos. if o_tag ob = DW_TAG_inlined_subroutine
     then (\<lambda>s. bindE (dwarf_cu__find_tag_by_ref (dt_type dpos) s) (\<lambda>r. case r of
         None \<Rightarrow> Inr ((), s)
       | Some dtype \<Rightarrow> bindL (get_dtag dtype) (\<lambda>dt. ftype__recode_dwarf_types (dt_tag dt)) s))
     else if o_tag ob = DW_TAG_formal_parameter \<and> ref_off (dt_type dpos) = 0
     then copy_origin parameter_name pos (dt_origin dpos)
     else if o_tag ob = DW_TAG_variable \<and> ref_off (dt_type dpos) = 0
     then if ref_off (dt_origin dpos) = 0 then retL () else copy_origin variable_name pos (dt_origin dpos)
     else if o_tag ob = DW_TAG_label
     then if ref_off (dt_origin dpos) = 0 then retL ()
          else bindL (origin_tag (dt_origin dpos)) (\<lambda>r. case r of
              None \<Rightarrow> retL ()
            | Some other \<Rightarrow> (\<lambda>s. bindE (label_name (o_body other)) (\<lambda>name. set_name pos name s)))
     else recode_as_type pos (dt_type dpos)"
  have r': "bindL (get_obj pos) (\<lambda>ob. bindL (priv pos) (\<lambda>(d, dpos). ?F ob dpos)) s = Inr (u, s')"
    using r unfolding recode_block_tag_def .
  obtain d where p: "pos < length (ls_objs s)" "o_priv (obj_at s pos) = Some d"
    and c: "?F (obj_at s pos) (dtag_at s d) s = Inr (u, s')"
    using read_tag_run[OF r'] .
  have label: "keeps (bindL (origin_tag (dt_origin (dtag_at s d))) (\<lambda>r. case r of
              None \<Rightarrow> retL ()
            | Some other \<Rightarrow> (\<lambda>s. bindE (label_name (o_body other)) (\<lambda>name. set_name pos name s))))"
    by (rule keeps_bind[OF keeps_origin_tag]) (auto simp: keeps_def res_simps split: option.splits dest: set_name_run)
  have inl: "tok s' \<and> recoded s s'" if "bindE (dwarf_cu__find_tag_by_ref (dt_type (dtag_at s d)) s) (\<lambda>r. case r of
         None \<Rightarrow> Inr ((), s)
       | Some dtype \<Rightarrow> bindL (get_dtag dtype) (\<lambda>dt. ftype__recode_dwarf_types (dt_tag dt)) s) = Inr (u, s')"
    using that t keepsD[OF keeps_ftype t] by (auto simp: res_simps get_dtag_def split: option.splits if_splits)
  note copy = keepsD[OF keeps_copy_origin t]
  show ?thesis
  proof (cases "o_tag (obj_at s pos) = DW_TAG_inlined_subroutine")
    case True
    from inl show ?thesis using c[unfolded if_P[OF True]] by blast
  next
    case 1: False
    note c1 = c[unfolded if_not_P[OF 1]]
    show ?thesis
    proof (cases "o_tag (obj_at s pos) = DW_TAG_formal_parameter \<and> ref_off (dt_type (dtag_at s d)) = 0")
      case True
      from c1[unfolded if_P[OF True]] copy show ?thesis by blast
    next
      case 2: False
      note c2 = c1[unfolded if_not_P[OF 2]]
      show ?thesis
      proof (cases "o_tag (obj_at s pos) = DW_TAG_variable \<and> ref_off (dt_type (dtag_at s d)) = 0")
        case True
        from c2[unfolded if_P[OF True]] copy t show ?thesis by (auto split: if_splits)
      next
        case 3: False
        note c3 = c2[unfolded if_not_P[OF 3]]
        show ?thesis
        proof (cases "o_tag (obj_at s pos) = DW_TAG_label")
          case True
          from c3[unfolded if_P[OF True]] t keepsD[OF label t] show ?thesis by (auto split: if_splits)
        next
          case False
          from recode_as_type_run[OF t p(2,1) c3[unfolded if_not_P[OF False]]] show ?thesis by simp
        qed
      qed
    qed
  qed
qed

end
