(* ===== verification/Dwarf_Recode_Run.thy ===== *)
theory Dwarf_Recode_Run
  imports Dwarf_Recode_Inv
begin

text \<open>
  The runs of the second pass: bit fields, the loops over the tags of a namespace or block, over a
  table, and over the three tables. Every run keeps what \<open>recoded\<close> says; a run that ends well has
  written every plain reference it came by.
\<close>

section \<open>Bit fields\<close>

definition keepsR :: "'a lr \<Rightarrow> bool" where
  "keepsR m \<longleftrightarrow> (\<forall>s x s'. tok s \<longrightarrow> m s = Some (Inr (x, s')) \<longrightarrow> tok s' \<and> recoded s s')"

lemma keepsRI: "(\<And>s x s'. tok s \<Longrightarrow> m s = Some (Inr (x, s')) \<Longrightarrow> tok s' \<and> recoded s s') \<Longrightarrow> keepsR m"
  by (simp add: keepsR_def)

lemma keepsRD: "keepsR m \<Longrightarrow> tok s \<Longrightarrow> m s = Some (Inr (x, s')) \<Longrightarrow> tok s' \<and> recoded s s'"
  by (simp add: keepsR_def)

lemma bindLR_run [res_simps]: "bindLR m f s = Some (Inr y) \<longleftrightarrow> (\<exists>x s1. m s = Some (Inr (x, s1)) \<and> f x s1 = Some (Inr y))"
  by (auto simp: bindLR_def res_simps)

lemma bindLR_E:
  assumes "bindLR m f s = Some (Inr y)"
  obtains x s1 where "m s = Some (Inr (x, s1))" and "f x s1 = Some (Inr y)"
  using assms by (auto simp: bindLR_run)

lemma stepL_E:
  assumes "stepL m s = Some (Inr y)"
  obtains "m s = Inr y"
  using assms by (simp add: stepL_def)

lemma stepL_run [res_simps]: "stepL m s = Some (Inr y) \<longleftrightarrow> m s = Inr y"
  by (simp add: stepL_def)

lemma keepsR_bind [intro]:
  assumes "keepsR m" and "\<And>x. keepsR (f x)"
  shows "keepsR (bindLR m f)"
proof (rule keepsRI)
  fix s x s' assume t: "tok s" and r: "bindLR m f s = Some (Inr (x, s'))"
  from r obtain y s1 where m: "m s = Some (Inr (y, s1))" and f: "f y s1 = Some (Inr (x, s'))" by (auto simp: res_simps)
  from keepsRD[OF assms(1) t m] have 1: "tok s1" "recoded s s1" by auto
  from keepsRD[OF assms(2) 1(1) f] 1(2) recoded_trans show "tok s' \<and> recoded s s'" by blast
qed

lemma keepsR_step [intro]: "keeps m \<Longrightarrow> keepsR (stepL m)"
  by (simp add: keepsR_def keeps_def stepL_def)

lemma add_recoded_run:
  assumes t: "tok s" and r: "add_recoded ob s = Inr (i, s')"
  shows "tok s' \<and> recoded s s'"
proof -
  let ?a = "length (ls_objs s)"
  define s1 where "s1 = s \<lparr> ls_objs := ls_objs s @ [ob] \<rparr>"
  from r obtain err n s2 where add: "cu__add_tag ?a (- 1) s1 = Inr ((err, n), s2)"
    and x: "(if err = 0 then retL (sint (word_of_int n :: u32)) else bindL (obstack_free ?a) (\<lambda>_. retL (- ENOMEM))) s2 = Inr (i, s')"
    by (auto simp: add_recoded_def obstack_zalloc_def s1_def res_simps simp del: if_split split del: if_split)
  from add obtain s3 where ta: "cu__table_add_tag ?a (- 1) s1 = Inr ((err, n), s3)"
    and s2: "s2 = (if err = 0 then s3 \<lparr> ls_tags := ls_tags s3 @ [?a] \<rparr> else s3)"
    by (auto simp: cu__add_tag_def res_simps)
  from ta obtain s4 where f0: "(if table_of (obj_at s1 ?a) = Functions_Table then cu__insert_function ?a else retL ()) s1 = Inr ((), s4)"
    and t0: "table_add (table_of (obj_at s1 ?a)) ?a (- 1) s4 = Inr ((err, n), s3)"
    by (auto simp: cu__table_add_tag_def res_simps simp del: if_split dest!: get_obj_run split del: if_split)
  have f: "s4 = s1 \<or> (\<exists>fs. s4 = s1 \<lparr> ls_functions := fs \<rparr>)"
    using f0 cu__insert_function_run[of ?a s1 "()" s4] by (auto split: if_splits)
  let ?t = "table_of (obj_at s1 ?a)"
  have tb: "get_table ?t s4 = get_table ?t s" "ls_table_alloc s4 = (\<lambda>_. True)"
    using f t by (auto simp: get_table_def tok_def s1_def split: table.split)
  have ok: "pt_ok (get_table ?t s4)" using t tb by (auto simp: tok_def get_table_def split: table.split)
  from table_add_run[OF ok tb(2) t0] obtain pt where e: "err = 0" and s3: "s3 = put_table ?t pt s4" and pt: "pt_ok pt"
    "pt_le (get_table ?t s) pt" by (metis tb(1))
  have s': "s' = s3 \<lparr> ls_tags := ls_tags s3 @ [?a] \<rparr>" using x s2 e by simp
  have le: "pt_le (ls_types_table s) (ls_types_table s')" "pt_le (ls_functions_table s) (ls_functions_table s')"
    "pt_le (ls_tags_table s) (ls_tags_table s')"
    using f s3 s' pt(2) by (auto simp: put_table_def get_table_def s1_def split: table.split)
  have "tok s'" using t f s3 s' pt(1) by (auto simp: tok_def put_table_def s1_def split: table.split)
  moreover have "ls_objs s' = ls_objs s @ [ob]" using f s3 s' by (auto simp: put_table_def s1_def split: table.split)
  moreover have "ls_dtags s' = ls_dtags s \<and> ls_hash_types s' = ls_hash_types s \<and> ls_hash_tags s' = ls_hash_tags s \<and>
     ls_type_unit s' = ls_type_unit s" using f s3 s' by (auto simp: put_table_def s1_def split: table.split)
  ultimately show ?thesis using le by (simp add: recoded_def nth_append)
qed

lemma keeps_add_recoded: "keeps (\<lambda>s. bindE (m :: obj res) (\<lambda>new. add_recoded new s))"
  by (rule keepsI) (auto simp: res_simps dest: add_recoded_run)

lemma keeps_copy: "keeps (bindL (get_obj a) (\<lambda>ob.
    if j = o_type ob then retL k else (\<lambda>s1. bindE (recoded_copy ob j) (\<lambda>new. add_recoded new s1))))"
  by (rule keeps_bind[OF keeps_reads(1)]) (auto intro: keeps_add_recoded)

lemma recode_bitfield_run:
  assumes "tag__recode_dwarf_bitfield a bs s = Some r"
  shows "\<forall>i s'. tok s \<longrightarrow> r = Inr (i, s') \<longrightarrow> tok s' \<and> recoded s s'"
proof (rule tag__recode_dwarf_bitfield.raw_induct[OF _ assms,
      where P = "\<lambda>a bs s r. \<forall>i s'. tok s \<longrightarrow> r = Inr (i, s') \<longrightarrow> tok s' \<and> recoded s s'"])
  fix f :: "nat \<Rightarrow> u16 \<Rightarrow> lst \<Rightarrow> (int \<times> lst) run" and a bs s r
  assume 1: "\<And>a bs s r. f a bs s = Some r \<Longrightarrow> \<forall>i s'. tok s \<longrightarrow> r = Inr (i, s') \<longrightarrow> tok s' \<and> recoded s s'"
  assume eq0: "bindR (Some (get_obj a s)) (\<lambda>p.
     let tag = o_tag (fst p) in
     if tag = DW_TAG_typedef \<or> tag = DW_TAG_const_type \<or> tag = DW_TAG_volatile_type
     then bindR (Some (bindL (priv a) (\<lambda>q. tag_of_type (dt_type (snd q))) s)) (\<lambda>t.
       bindR (f (fst t) bs s) (\<lambda>r.
         let i = (word_of_int (fst r) :: u16) in
         Some (bindL (get_obj a) (\<lambda>ob.
           if i = o_type ob then retL (int (unat i))
           else (\<lambda>s1. bindE (recoded_copy ob i) (\<lambda>new. add_recoded new s1))) (snd r))))
     else if tag = DW_TAG_base_type
     then bindR (Some (obj_name (o_body (fst p)))) (\<lambda>name.
       bindR (cu__find_base_type_by_sname_and_size (cu_of s) name bs) (\<lambda>r. case r of
           Some q \<Rightarrow> retR (int (unat (fst q)), s)
         | None \<Rightarrow> Some (add_recoded (recoded_base name bs) s)))
     else if tag = DW_TAG_enumeration_type
     then bindR (Some (obj_name (o_body (fst p)))) (\<lambda>name.
       bindR (cu__find_enumeration_by_sname_and_size (cu_of s) name bs) (\<lambda>r. case r of
           Some q \<Rightarrow> retR (int (unat (fst q)), s)
         | None \<Rightarrow> Some (bindE (recoded_enumeration name bs (o_body (fst p))) (\<lambda>new. add_recoded new s))))
     else retR (- EINVAL, s)) = Some r"
  let ?ob = "obj_at s a"
  show "\<forall>i s'. tok s \<longrightarrow> r = Inr (i, s') \<longrightarrow> tok s' \<and> recoded s s'"
  proof (intro allI impI)
    fix i s' assume t: "tok s" and ri: "r = Inr (i, s')"
  note eq = eq0[unfolded ri]
  have p: "get_obj a s = Inr (?ob, s)" using eq by (auto simp: res_simps dest: get_obj_run)
  consider (copy) "o_tag ?ob = DW_TAG_typedef \<or> o_tag ?ob = DW_TAG_const_type \<or> o_tag ?ob = DW_TAG_volatile_type"
    | (base) "o_tag ?ob = DW_TAG_base_type" | (enum) "o_tag ?ob = DW_TAG_enumeration_type"
    | (other) "o_tag ?ob \<notin> {DW_TAG_typedef, DW_TAG_const_type, DW_TAG_volatile_type, DW_TAG_base_type, DW_TAG_enumeration_type}"
    by blast
  then show "tok s' \<and> recoded s s'"
  proof cases
    case copy
    let ?g = "\<lambda>x. bindL (get_obj a) (\<lambda>ob. if (word_of_int x :: u16) = o_type ob then retL (int (unat (word_of_int x :: u16)))
           else (\<lambda>s1. bindE (recoded_copy ob (word_of_int x)) (\<lambda>new. add_recoded new s1)))"
    from eq p copy have "bindR (Some (bindL (priv a) (\<lambda>q. tag_of_type (dt_type (snd q))) s)) (\<lambda>ty.
        bindR (f (fst ty) bs s) (\<lambda>r. Some (?g (fst r) (snd r)))) = Some (Inr (i, s'))"
      by (simp only: bindR.simps fst_conv snd_conv Let_def if_True simp_thms)
    then obtain ty :: "nat \<times> lst" where "bindR (f (fst ty) bs s) (\<lambda>r. Some (?g (fst r) (snd r))) = Some (Inr (i, s'))"
      by (rule bindR_retR_E)
    then obtain q where q: "f (fst ty) bs s = Some (Inr q)" and c0: "Some (?g (fst q) (snd q)) = Some (Inr (i, s'))"
      by (rule bindR_retR_E)
    obtain x s1 where qx: "q = (x, s1)" by (cases q)
    have f: "f (fst ty) bs s = Some (Inr (x, s1))" using q qx by simp
    have c: "?g x s1 = Inr (i, s')" using c0 by (simp only: qx fst_conv snd_conv option.inject)
    from 1[OF f] t have 2: "tok s1" "recoded s s1" by auto
    from keepsD[OF keeps_copy 2(1) c] 2(2) recoded_trans show ?thesis by blast
  next
    case base
    with eq p t show ?thesis
      by (auto simp: res_simps Let_def split: option.split_asm dest: add_recoded_run)
  next
    case enum
    with eq p t show ?thesis
      by (auto simp: res_simps Let_def split: option.split_asm dest: add_recoded_run)
  next
    case other
    with eq p t show ?thesis by (auto simp: res_simps Let_def)
  qed
  qed
qed

lemma keepsR_bitfield: "keepsR (tag__recode_dwarf_bitfield a bs)"
  by (rule keepsRI) (use recode_bitfield_run in blast)

lemma priv_still: "priv a s = Inr (p, s') \<Longrightarrow> s' = s"
  by (auto simp: priv_def get_dtag_def res_simps split: option.splits if_splits dest!: get_obj_run)

lemma tag_of_type_still:
  assumes "tag_of_type ref s = Inr (x, s')"
  shows "s' = s"
proof -
  from assms obtain r where r: "(case r of None \<Rightarrow> ub ''null pointer''
     | Some d \<Rightarrow> bindL (get_dtag d) (\<lambda>dt. retL (dt_tag dt)) s) = Inr (x, s')"
    by (auto simp: tag_of_type_def res_simps)
  then show ?thesis by (cases r) (auto simp: get_dtag_def res_simps split: if_splits)
qed

lemma keeps_tag_of_type: "keeps (tag_of_type ref)"
  by (rule keepsI) (auto dest: tag_of_type_still)

lemma member_bitfield_run:
  assumes t: "tok s" and r: "class_member__dwarf_recode_bitfield m s = Some (Inr (e, s'))"
    and b: "is_member (obj_at s m)" and np: "\<not> plain (obj_at s m)"
  shows "tok s' \<and> recoded s s'"
proof -
  let ?w = "\<lambda>i. if i < 0 then stepL (retL i) else stepL (bindL (set_type m (word_of_int i)) (\<lambda>_. retL 0))"
  from r[unfolded class_member__dwarf_recode_bitfield_def] obtain ty s1
    where a0: "stepL (bindL (priv m) (\<lambda>(d, dt). tag_of_type (dt_type dt))) s = Some (Inr (ty, s1))"
      and r1: "bindLR (stepL (bindL (get_obj m) (\<lambda>ob s. bindE (bitfield_size_of ob) (\<lambda>sz. Inr (sz, s))))) (\<lambda>sz.
        bindLR (tag__recode_dwarf_bitfield ty (ucast sz)) ?w) s1 = Some (Inr (e, s'))"
    by (rule bindLR_E)
  from r1 obtain sz s2 where g0: "stepL (bindL (get_obj m) (\<lambda>ob s. bindE (bitfield_size_of ob) (\<lambda>sz. Inr (sz, s)))) s1 = Some (Inr (sz, s2))"
    and r2: "bindLR (tag__recode_dwarf_bitfield ty (ucast sz)) ?w s2 = Some (Inr (e, s'))" by (rule bindLR_E)
  from r2 obtain i s3 where f: "tag__recode_dwarf_bitfield ty (ucast sz) s2 = Some (Inr (i, s3))"
    and w: "?w i s3 = Some (Inr (e, s'))" by (rule bindLR_E)
  note a = a0[unfolded stepL_run] and g = g0[unfolded stepL_run]
  have s1: "s1 = s"
  proof -
    from a[unfolded bindL_Inr_iff] obtain q s0 where q: "priv m s = Inr (q, s0)"
      and ty: "(case q of (d, dt) \<Rightarrow> tag_of_type (dt_type dt)) s0 = Inr (ty, s1)" by blast
    from ty[unfolded priv_still[OF q]] show ?thesis by (cases q) (auto dest: tag_of_type_still)
  qed
  have s2: "s2 = s" and m: "m < length (ls_objs s)" using g s1 by (auto simp: res_simps dest!: get_obj_run)
  from keepsRD[OF keepsR_bitfield t f[unfolded s2]] have 3: "tok s3" "recoded s s3" by auto
  have "\<not> plain (obj_at s3 m)" using recoded_obj(2,3)[OF 3(2) m] b np by (auto simp: plain_def is_member_def split: obj_body.splits)
  with w set_type_run[OF 3(1), of m "word_of_int i" "()" s'] 3 recoded_trans show ?thesis
    by (auto simp: res_simps split: if_splits)
qed

lemma reference_not: "DW_TAG_imported_module \<notin> reference_tags" "DW_TAG_imported_declaration \<notin> reference_tags"
  by (simp_all add: reference_tags_def)

lemma imported_not_plain: "o_tag ob = DW_TAG_imported_module \<or> o_tag ob = DW_TAG_imported_declaration \<Longrightarrow> \<not> plain ob"
  by (auto simp: plain_def reference_tags_def split: obj_body.split)

lemma space_tag_run:
  assumes t: "tok s" and r: "recode_namespace_tag pos s = Some (Inr (e, s'))"
  shows "tok s' \<and> recoded s s' \<and> (plain (obj_at s pos) \<longrightarrow> num_written s' pos)"
proof -
  let ?b = "\<lambda>ob s. if o_tag ob = DW_TAG_member then bindE (bitfield_size_of ob) (\<lambda>sz. Inr (sz \<noteq> 0, s)) else Inr (False, s)"
  let ?ft = "\<lambda>ob. if o_tag ob = DW_TAG_subroutine_type \<or> o_tag ob = DW_TAG_subprogram then ftype__recode_dwarf_types pos else retL ()"
  let ?own = "\<lambda>dpos. if ref_off (dt_type dpos) = 0 then retL 0 else bindL (recode_as_type pos (dt_type dpos)) (\<lambda>_. retL 0)"
  let ?k = "\<lambda>ob dpos bitfield. if bitfield
     then bindLR (class_member__dwarf_recode_bitfield pos) (\<lambda>err. stepL (retL (if err \<noteq> 0 then - 1 else 0)))
     else if o_tag ob = DW_TAG_imported_module then stepL (bindL (recode_as_tag pos (dt_type dpos)) (\<lambda>_. retL 0))
     else if o_tag ob = DW_TAG_imported_declaration then stepL (bindL (recode_as_either pos (dt_type dpos)) (\<lambda>_. retL 0))
     else stepL (bindL (?ft ob) (\<lambda>_. ?own dpos))"
  from r[unfolded recode_namespace_tag_def] obtain q s1 where q: "stepL (bindL (get_obj pos) (\<lambda>ob. bindL (priv pos) (\<lambda>(d, dpos). retL (ob, dpos)))) s = Some (Inr (q, s1))"
    and r1: "(case q of (ob, dpos) \<Rightarrow> bindLR (stepL (?b ob)) (?k ob dpos)) s1 = Some (Inr (e, s'))" by (rule bindLR_E)
  from q[unfolded stepL_run] obtain d where p: "pos < length (ls_objs s)" "o_priv (obj_at s pos) = Some d"
    and qs: "q = (obj_at s pos, dtag_at s d)" "s1 = s" by (auto simp: res_simps dest!: get_obj_run priv_run)
  let ?ob = "obj_at s pos"
  from r1[unfolded qs prod.case] obtain bf s2 where b0: "stepL (?b ?ob) s = Some (Inr (bf, s2))"
    and k: "?k ?ob (dtag_at s d) bf s2 = Some (Inr (e, s'))" by (rule bindLR_E)
  have s2: "s2 = s" using b0[unfolded stepL_run] by (auto simp: res_simps split: if_splits)
  show ?thesis
  proof (cases bf)
    case True
    with b0[unfolded stepL_run] have mb: "is_member ?ob" "\<not> plain ?ob"
      by (auto simp: bitfield_size_of_def is_member_def plain_def res_simps split: if_splits obj_body.splits)
    from k[unfolded if_P[OF True] s2] obtain err where "class_member__dwarf_recode_bitfield pos s = Some (Inr (err, s'))"
      by (auto simp: res_simps)
    from member_bitfield_run[OF t this mb] mb show ?thesis by simp
  next
    case False
    note k1 = k[unfolded if_not_P[OF False] s2]
    show ?thesis
    proof (cases "o_tag ?ob = DW_TAG_imported_module")
      case True
      have np: "\<not> plain ?ob" using True imported_not_plain by blast
      from k1[unfolded if_P[OF True]] have "recode_as_tag pos (dt_type (dtag_at s d)) s = Inr ((), s')" by (auto simp: res_simps)
      with recode_as_tag_run[OF t _ np] np show ?thesis by blast
    next
      case m: False
      show ?thesis
      proof (cases "o_tag ?ob = DW_TAG_imported_declaration")
        case True
        have np: "\<not> plain ?ob" using True imported_not_plain by blast
        from k1[unfolded if_not_P[OF m] if_P[OF True]] have "recode_as_either pos (dt_type (dtag_at s d)) s = Inr ((), s')"
          by (auto simp: res_simps)
        with recode_as_either_run[OF t _ np] np show ?thesis by blast
      next
        case i: False
        from k1[unfolded if_not_P[OF m] if_not_P[OF i]] obtain s3 where ft: "?ft ?ob s = Inr ((), s3)"
          and own: "?own (dtag_at s d) s3 = Inr (e, s')" by (auto simp: res_simps simp del: if_split split del: if_split)
        have "keeps (?ft ?ob)" using keeps_ftype by simp
        from keepsD[OF this t ft] have 3: "tok s3" "recoded s s3" by auto
        have p3: "pos < length (ls_objs s3)" "o_priv (obj_at s3 pos) = Some d" "dtag_at s3 d = dtag_at s d"
          using recoded_obj[OF 3(2) p(1)] p(2) 3(2) by (auto simp: recoded_def)
        show ?thesis
        proof (cases "ref_off (dt_type (dtag_at s d)) = 0")
          case True
          have "refers s3 pos = None" using True p3 by (simp add: refers_def found_void)
          with own True 3 p3 show ?thesis by (simp add: num_written_def)
        next
          case False
          with own have "recode_as_type pos (dt_type (dtag_at s3 d)) s3 = Inr ((), s')" by (auto simp: res_simps p3)
          from recode_as_type_run[OF 3(1) p3(2,1) this] 3(2) recoded_trans recoded_obj(6)[OF 3(2) p(1)] show ?thesis by blast
        qed
      qed
    qed
  qed
qed

section \<open>Loops\<close>

definition settled :: "lst \<Rightarrow> nat \<Rightarrow> bool" where
  "settled s a \<longleftrightarrow> (plain (obj_at s a) \<longrightarrow> num_written s a)"

lemma settled_recoded: "recoded s s' \<Longrightarrow> a < length (ls_objs s) \<Longrightarrow> plain (obj_at s a) \<Longrightarrow> settled s a \<Longrightarrow> settled s' a"
  using num_written_recoded by (simp add: settled_def)

lemma space_tags_run:
  assumes "recode_namespace_tags tags s = Some r"
  shows "\<forall>e s'. tok s \<longrightarrow> r = Inr (e, s') \<longrightarrow> tok s' \<and> recoded s s' \<and>
    (e = 0 \<longrightarrow> (\<forall>m \<in> set tags. m < length (ls_objs s) \<and> plain (obj_at s m) \<and> \<not> is_scope s m \<longrightarrow> num_written s' m))"
proof (rule recode_namespace_tags.raw_induct[OF _ assms,
      where P = "\<lambda>tags s r. \<forall>e s'. tok s \<longrightarrow> r = Inr (e, s') \<longrightarrow> tok s' \<and> recoded s s' \<and>
    (e = 0 \<longrightarrow> (\<forall>m \<in> set tags. m < length (ls_objs s) \<and> plain (obj_at s m) \<and> \<not> is_scope s m \<longrightarrow> num_written s' m))"])
  fix f :: "nat list \<Rightarrow> lst \<Rightarrow> (int \<times> lst) run" and tags s r
  assume 1: "\<And>tags s r. f tags s = Some r \<Longrightarrow> \<forall>e s'. tok s \<longrightarrow> r = Inr (e, s') \<longrightarrow> tok s' \<and> recoded s s' \<and>
    (e = 0 \<longrightarrow> (\<forall>m \<in> set tags. m < length (ls_objs s) \<and> plain (obj_at s m) \<and> \<not> is_scope s m \<longrightarrow> num_written s' m))"
  assume eq: "(case tags of
       [] \<Rightarrow> retR (0, s)
     | pos # others \<Rightarrow>
         bindR (Some (get_obj pos s)) (\<lambda>p.
         bindR (if tag__has_namespace (obj_head (fst p))
                then bindR (Some (tags_of pos s)) (\<lambda>q. f (fst q) s)
                else recode_namespace_tag pos s) (\<lambda>r.
           if fst r \<noteq> 0 then retR (- 1, snd r) else f others (snd r)))) = Some r"
  show "\<forall>e s'. tok s \<longrightarrow> r = Inr (e, s') \<longrightarrow> tok s' \<and> recoded s s' \<and>
    (e = 0 \<longrightarrow> (\<forall>m \<in> set tags. m < length (ls_objs s) \<and> plain (obj_at s m) \<and> \<not> is_scope s m \<longrightarrow> num_written s' m))"
  proof (cases tags)
    case Nil
    with eq show ?thesis by auto
  next
    case (Cons pos others)
    show ?thesis
    proof (intro allI impI)
      fix e s' assume t: "tok s" and ri: "r = Inr (e, s')"
      from eq[unfolded Cons ri list.case] obtain p :: "obj \<times> lst" where p: "Some (get_obj pos s) = Some (Inr p)"
        and n: "bindR (if tag__has_namespace (obj_head (fst p))
                then bindR (Some (tags_of pos s)) (\<lambda>q. f (fst q) s)
                else recode_namespace_tag pos s) (\<lambda>r.
           if fst r \<noteq> 0 then retR (- 1, snd r) else f others (snd r)) = Some (Inr (e, s'))" by (rule bindR_retR_E)
      from p have pos: "pos < length (ls_objs s)" and ob: "fst p = obj_at s pos"
        using get_obj_run[of pos s "fst p" "snd p"] by auto
      from n obtain q :: "int \<times> lst" where q: "(if tag__has_namespace (obj_head (fst p))
                then bindR (Some (tags_of pos s)) (\<lambda>q. f (fst q) s)
                else recode_namespace_tag pos s) = Some (Inr q)"
        and l: "(if fst q \<noteq> 0 then retR (- 1, snd q) else f others (snd q)) = Some (Inr (e, s'))" by (rule bindR_retR_E)
      obtain e1 s1 where qs: "q = (e1, s1)" by (cases q)
      have 2: "tok s1 \<and> recoded s s1 \<and> (plain (obj_at s pos) \<and> \<not> is_scope s pos \<longrightarrow> num_written s1 pos)"
      proof (cases "is_scope s pos")
        case True
        with q ob obtain x where "f x s = Some (Inr (e1, s1))"
          by (auto simp: is_scope_def qs elim!: bindR_retR_E)
        with 1[OF this] t True show ?thesis by simp
      next
        case False
        with q ob have "recode_namespace_tag pos s = Some (Inr (e1, s1))" by (simp add: is_scope_def qs)
        with space_tag_run[OF t] show ?thesis by blast
      qed
      show "tok s' \<and> recoded s s' \<and> (e = 0 \<longrightarrow>
        (\<forall>m \<in> set tags. m < length (ls_objs s) \<and> plain (obj_at s m) \<and> \<not> is_scope s m \<longrightarrow> num_written s' m))"
      proof (cases "e1 = 0")
        case False
        with l 2 show ?thesis by (auto simp: qs)
      next
        case True
        with l have "f others s1 = Some (Inr (e, s'))" by (simp add: qs)
        with 1[OF this] 2 have 3: "tok s'" "recoded s1 s'"
          "e = 0 \<longrightarrow> (\<forall>m \<in> set others. m < length (ls_objs s1) \<and> plain (obj_at s1 m) \<and> \<not> is_scope s1 m \<longrightarrow> num_written s' m)" by auto
        from 2 have r1: "recoded s s1" by simp
        note ro = recoded_obj[OF r1] is_scope_recoded[OF r1]
        have "num_written s' m" if "e = 0" and m: "m \<in> set tags" "m < length (ls_objs s)" "plain (obj_at s m)" "\<not> is_scope s m" for m
        proof (cases "m = pos")
          case True
          with 2 m ro(6)[OF m(2)] num_written_recoded[OF 3(2)] show ?thesis by simp
        next
          case False
          with m 3(3) that(1) ro(1,6)[OF m(2)] is_scope_recoded[OF r1 m(2)] show ?thesis by (simp add: Cons)
        qed
        with 3 r1 recoded_trans show ?thesis by blast
      qed
    qed
  qed
qed

lemma keepsR_space: "keepsR (namespace__recode_dwarf_types a)"
  unfolding namespace__recode_dwarf_types_def
proof (intro keepsR_bind keepsR_step)
  show "keeps (tags_of a)"
    by (rule keepsI) (auto simp: tags_of_def res_simps dest!: get_obj_run)
  show "keepsR (recode_namespace_tags tags)" for tags
    by (rule keepsRI) (use space_tags_run in blast)
qed

lemma scope_run:
  assumes t: "tok s" and r: "namespace__recode_dwarf_types a s = Some (Inr (0, s'))" and ts: "namespace_tags (obj_at s a) = Inr ts"
    and m: "m \<in> set ts" "m < length (ls_objs s)" "plain (obj_at s m)" "\<not> is_scope s m"
  shows "num_written s' m"
proof -
  from r obtain tags s1 where a: "tags_of a s = Inr (tags, s1)" and n: "recode_namespace_tags tags s1 = Some (Inr (0, s'))"
    unfolding namespace__recode_dwarf_types_def by (auto elim: bindLR_E simp: stepL_run)
  from a ts have "tags = ts" "s1 = s" by (auto simp: tags_of_def res_simps dest!: get_obj_run)
  with space_tags_run[OF n] t m show ?thesis by simp
qed

lemma block_tags_run:
  assumes "recode_block_tags tags s = Some r"
  shows "\<forall>u s'. tok s \<longrightarrow> r = Inr (u, s') \<longrightarrow> tok s' \<and> recoded s s'"
proof (rule recode_block_tags.raw_induct[OF _ assms, where P = "\<lambda>tags s r. \<forall>u s'. tok s \<longrightarrow> r = Inr (u, s') \<longrightarrow> tok s' \<and> recoded s s'"])
  fix f :: "nat list \<Rightarrow> lst \<Rightarrow> (unit \<times> lst) run" and tags s r
  assume 1: "\<And>tags s r. f tags s = Some r \<Longrightarrow> \<forall>u s'. tok s \<longrightarrow> r = Inr (u, s') \<longrightarrow> tok s' \<and> recoded s s'"
  assume eq: "(case tags of
     [] \<Rightarrow> retR ((), s)
   | pos # others \<Rightarrow>
       bindR (Some (get_obj pos s)) (\<lambda>p.
       bindR (if o_tag (fst p) = DW_TAG_lexical_block
              then bindR (Some (block_tags pos s)) (\<lambda>q. f (fst q) s)
              else Some (recode_block_tag pos s)) (\<lambda>r.
         f others (snd r)))) = Some r"
  show "\<forall>u s'. tok s \<longrightarrow> r = Inr (u, s') \<longrightarrow> tok s' \<and> recoded s s'"
  proof (cases tags)
    case Nil
    with eq show ?thesis by auto
  next
    case (Cons pos others)
    show ?thesis
    proof (intro allI impI)
      fix u s' assume t: "tok s" and ri: "r = Inr (u, s')"
      from eq[unfolded Cons ri list.case] obtain p :: "obj \<times> lst" where
        n: "bindR (if o_tag (fst p) = DW_TAG_lexical_block
              then bindR (Some (block_tags pos s)) (\<lambda>q. f (fst q) s)
              else Some (recode_block_tag pos s)) (\<lambda>r. f others (snd r)) = Some (Inr (u, s'))" by (rule bindR_retR_E)
      from n obtain q :: "unit \<times> lst" where q: "(if o_tag (fst p) = DW_TAG_lexical_block
              then bindR (Some (block_tags pos s)) (\<lambda>q. f (fst q) s)
              else Some (recode_block_tag pos s)) = Some (Inr q)"
        and l: "f others (snd q) = Some (Inr (u, s'))" by (rule bindR_retR_E)
      have 2: "tok (snd q) \<and> recoded s (snd q)"
      proof (cases "o_tag (fst p) = DW_TAG_lexical_block")
        case True
        with q obtain x where "f x s = Some (Inr q)" by (auto elim!: bindR_retR_E)
        from 1[OF this] t show ?thesis by (cases q) auto
      next
        case False
        with q have "recode_block_tag pos s = Inr (fst q, snd q)" by (cases q) auto
        from block_tag_run[OF t this] show ?thesis .
      qed
      with 1[OF l] recoded_trans show "tok s' \<and> recoded s s'" by blast
    qed
  qed
qed

lemma keepsR_block_tags: "keepsR (recode_block_tags tags)"
  by (rule keepsRI) (use block_tags_run in blast)

lemma keepsR_block: "keepsR (lexblock__recode_dwarf_types a)"
  unfolding lexblock__recode_dwarf_types_def
proof (intro keepsR_bind keepsR_step keepsR_block_tags)
  show "keeps (block_tags a)"
    by (rule keepsI) (auto simp: block_tags_def bindL_def get_obj_def split: if_splits obj_body.splits)
qed

section \<open>One tag\<close>

lemma plain_tags:
  assumes "plain ob"
  shows "\<not> tag__has_namespace (obj_head ob)" and "o_tag ob \<noteq> DW_TAG_subprogram" and "o_tag ob \<noteq> DW_TAG_lexical_block"
    and "o_tag ob \<noteq> DW_TAG_inlined_subroutine" and "o_tag ob \<noteq> DW_TAG_imported_module" and "o_tag ob \<noteq> DW_TAG_imported_declaration"
proof -
  have "o_tag ob \<in> reference_tags \<or> o_tag ob = DW_TAG_member"
    using assms by (cases "o_body ob") (simp_all add: plain_def)
  then have t: "o_tag ob \<in> {1, 36, 38, 15, 16, 53, 31, 22, 21, 13}" by (simp add: reference_tags_def)
  from t show "\<not> tag__has_namespace (obj_head ob)" by (elim insertE emptyE) (simp_all add: obj_head_def tag_kind_defs)
  from t show "o_tag ob \<noteq> DW_TAG_subprogram" "o_tag ob \<noteq> DW_TAG_lexical_block" "o_tag ob \<noteq> DW_TAG_inlined_subroutine"
    "o_tag ob \<noteq> DW_TAG_imported_module" "o_tag ob \<noteq> DW_TAG_imported_declaration"
    by (elim insertE emptyE; simp)+
qed

lemma plain_not_scope: "plain (obj_at s a) \<Longrightarrow> \<not> is_scope s a"
  by (simp add: is_scope_def plain_tags)

definition owned :: "lst \<Rightarrow> nat \<Rightarrow> dwarf_tag \<Rightarrow> bool" where
  \<comment> \<open>the shadow record that was read is the tag's\<close>
  "owned s a dt \<longleftrightarrow> a < length (ls_objs s) \<and> (\<exists>d. o_priv (obj_at s a) = Some d \<and> dt = dtag_at s d)"

lemma owned_recoded: "owned s a dt \<Longrightarrow> recoded s s' \<Longrightarrow> owned s' a dt"
  by (auto simp: owned_def recoded_def)

lemma own_type_run:
  assumes t: "tok s" and o: "owned s a dt" and r: "recode_own_type a dt s = Inr (e, s')"
  shows "tok s' \<and> recoded s s' \<and> (plain (obj_at s a) \<longrightarrow> num_written s' a)"
proof -
  from o obtain d where a: "a < length (ls_objs s)" and d: "o_priv (obj_at s a) = Some d" and dt: "dt = dtag_at s d" by (auto simp: owned_def)
  from r have c: "(if ref_off (dt_type dt) = 0 then set_type a 0 else recode_as_type a (dt_type dt)) s = Inr ((), s')"
    by (auto simp: recode_own_type_def res_simps simp del: if_split split del: if_split)
  show ?thesis
  proof (cases "ref_off (dt_type dt) = 0")
    case True
    then have n: "refers s a = None" by (simp add: refers_def d found_void flip: dt)
    then have w: "want s a = 0" by (simp add: want_def)
    from c True set_type_run[OF t, of a 0 "()" s'] w have 1: "tok s'" "recoded s s'" by auto
    with n want_recoded(1)[OF 1(2) a] recoded_obj(1)[OF 1(2) a] show ?thesis by (simp add: num_written_def)
  next
    case False
    with c recode_as_type_run[OF t d a] show ?thesis by (simp add: dt)
  qed
qed

lemma then_own_type:
  assumes t: "tok s" and o: "owned s a dt" and m: "tok s \<Longrightarrow> m s = Inr (x, s1) \<Longrightarrow> tok s1 \<and> recoded s s1"
    and r: "m s = Inr (x, s1)" "recode_own_type a dt s1 = Inr (e, s')"
  shows "tok s' \<and> recoded s s' \<and> (plain (obj_at s a) \<longrightarrow> num_written s' a)"
proof -
  from m[OF t r(1)] have 1: "tok s1" "recoded s s1" by auto
  have a: "a < length (ls_objs s)" using o by (simp add: owned_def)
  from own_type_run[OF 1(1) owned_recoded[OF o 1(2)] r(2)] recoded_obj(6)[OF 1(2) a] 1(2) recoded_trans show ?thesis by blast
qed

definition scope_written :: "lst \<Rightarrow> nat \<Rightarrow> lst \<Rightarrow> bool" where
  \<comment> \<open>the tags of a namespace, as it was in \<open>s\<close>, are written in \<open>s'\<close>\<close>
  "scope_written s a s' \<longleftrightarrow> (is_scope s a \<longrightarrow> (\<forall>ts m. namespace_tags (obj_at s a) = Inr ts \<longrightarrow> m \<in> set ts \<longrightarrow>
     m < length (ls_objs s) \<longrightarrow> plain (obj_at s m) \<longrightarrow> num_written s' m))"

lemma scope_written_recoded:
  assumes "recoded s s1" and "a < length (ls_objs s)" and "scope_written s1 a s'"
  shows "scope_written s a s'"
proof -
  have "is_scope s a \<Longrightarrow> is_scope s1 a \<and> namespace_tags (obj_at s1 a) = namespace_tags (obj_at s a)"
    using is_scope_recoded[OF assms(1,2)] recoded_obj(5)[OF assms(1,2)] by simp
  then show ?thesis using assms(3) recoded_obj(1,6)[OF assms(1)] unfolding scope_written_def by metis
qed

lemma scope_written_after: "recoded s s' \<Longrightarrow> recoded s1 s' \<Longrightarrow> recoded s s1 \<Longrightarrow> scope_written s a s1 \<Longrightarrow> scope_written s a s'"
  unfolding scope_written_def using num_written_recoded recoded_obj(6) by blast

lemma subprogram_run:
  assumes t: "tok s" and o: "owned s a dt"
    and r: "bindLR (stepL (recode_function_name a)) (\<lambda>more_to_do.
           if \<not> more_to_do then stepL (retL 0)
           else bindLR (lexblock__recode_dwarf_types a) (\<lambda>_.
             stepL (bindL (ftype__recode_dwarf_types a) (\<lambda>_. recode_own_type a dt)))) s = Some (Inr (e, s'))"
  shows "tok s' \<and> recoded s s'"
proof -
  from r obtain more_to_do s1 where n: "recode_function_name a s = Inr (more_to_do, s1)"
    and c: "(if \<not> more_to_do then stepL (retL 0)
           else bindLR (lexblock__recode_dwarf_types a) (\<lambda>_.
             stepL (bindL (ftype__recode_dwarf_types a) (\<lambda>_. recode_own_type a dt)))) s1 = Some (Inr (e, s'))"
    by (auto elim: bindLR_E simp: stepL_run)
  from keepsD[OF keeps_function_name t n] have 1: "tok s1" "recoded s s1" by auto
  show ?thesis
  proof (cases more_to_do)
    case False
    with c 1 show ?thesis by (simp add: stepL_run)
  next
    case True
    with c obtain u s2 where b: "lexblock__recode_dwarf_types a s1 = Some (Inr (u, s2))"
      and f: "bindL (ftype__recode_dwarf_types a) (\<lambda>_. recode_own_type a dt) s2 = Inr (e, s')"
      by (auto elim: bindLR_E simp: stepL_run)
    from keepsRD[OF keepsR_block 1(1) b] have 2: "tok s2" "recoded s1 s2" by auto
    from f obtain s3 where f: "ftype__recode_dwarf_types a s2 = Inr ((), s3)" "recode_own_type a dt s3 = Inr (e, s')"
      by (auto simp: res_simps)
    have o2: "owned s2 a dt" using owned_recoded[OF owned_recoded[OF o 1(2)] 2(2)] .
    from then_own_type[where m = "ftype__recode_dwarf_types a", OF 2(1) o2 keepsD[OF keeps_ftype] f] 1 2 recoded_trans show ?thesis by blast
  qed
qed

lemma tag_run:
  assumes t: "tok s" and r: "tag__recode_dwarf_type a s = Some (Inr (e, s'))" and d: "o_priv (obj_at s a) = Some d"
  shows "tok s' \<and> recoded s s' \<and> (e = 0 \<longrightarrow> (plain (obj_at s a) \<longrightarrow> num_written s' a) \<and> scope_written s a s')"
proof -
  let ?ob = "obj_at s a"
  let ?F = "\<lambda>dtag. if tag__has_namespace (obj_head ?ob) then namespace__recode_dwarf_types a
         else if o_tag ?ob = DW_TAG_subprogram
         then bindLR (stepL (recode_function_name a)) (\<lambda>more_to_do.
           if \<not> more_to_do then stepL (retL 0)
           else bindLR (lexblock__recode_dwarf_types a) (\<lambda>_.
             stepL (bindL (ftype__recode_dwarf_types a) (\<lambda>_. recode_own_type a dtag))))
         else if o_tag ?ob = DW_TAG_subroutine_type
         then stepL (bindL (ftype__recode_dwarf_types a) (\<lambda>_. recode_own_type a dtag))
         else if o_tag ?ob = DW_TAG_lexical_block
         then bindLR (lexblock__recode_dwarf_types a) (\<lambda>_. stepL (retL 0))
         else if o_tag ?ob = DW_TAG_ptr_to_member_type
         then stepL (bindL (recode_containing_type a dtag) (\<lambda>_. recode_own_type a dtag))
         else if o_tag ?ob = DW_TAG_inlined_subroutine \<or> o_tag ?ob = DW_TAG_imported_module
         then stepL (bindL (recode_as_tag a (dt_type dtag)) (\<lambda>_. retL 0))
         else if o_tag ?ob = DW_TAG_imported_declaration
         then stepL (bindL (recode_as_either a (dt_type dtag)) (\<lambda>_. retL 0))
         else stepL (recode_own_type a dtag)"
  from r[unfolded tag__recode_dwarf_type_def] obtain ob s0 where g: "stepL (get_obj a) s = Some (Inr (ob, s0))"
    and r0: "(case o_priv ob of None \<Rightarrow> stepL (retL 0)
     | Some d \<Rightarrow>
         bindLR (stepL (get_dtag d)) (\<lambda>dtag.
         bindLR (stepL (if tag__is_type (obj_head ob) then type__recode_dwarf_specification a else retL ())) (\<lambda>_.
         if tag__has_namespace (obj_head ob) then namespace__recode_dwarf_types a
         else if o_tag ob = DW_TAG_subprogram
         then bindLR (stepL (recode_function_name a)) (\<lambda>more_to_do.
           if \<not> more_to_do then stepL (retL 0)
           else bindLR (lexblock__recode_dwarf_types a) (\<lambda>_.
             stepL (bindL (ftype__recode_dwarf_types a) (\<lambda>_. recode_own_type a dtag))))
         else if o_tag ob = DW_TAG_subroutine_type
         then stepL (bindL (ftype__recode_dwarf_types a) (\<lambda>_. recode_own_type a dtag))
         else if o_tag ob = DW_TAG_lexical_block
         then bindLR (lexblock__recode_dwarf_types a) (\<lambda>_. stepL (retL 0))
         else if o_tag ob = DW_TAG_ptr_to_member_type
         then stepL (bindL (recode_containing_type a dtag) (\<lambda>_. recode_own_type a dtag))
         else if o_tag ob = DW_TAG_inlined_subroutine \<or> o_tag ob = DW_TAG_imported_module
         then stepL (bindL (recode_as_tag a (dt_type dtag)) (\<lambda>_. retL 0))
         else if o_tag ob = DW_TAG_imported_declaration
         then stepL (bindL (recode_as_either a (dt_type dtag)) (\<lambda>_. retL 0))
         else stepL (recode_own_type a dtag)))) s0 = Some (Inr (e, s'))" by (rule bindLR_E)
  from get_obj_run[OF g[unfolded stepL_run]] have a: "a < length (ls_objs s)" and ob: "ob = ?ob" "s0 = s" by auto
  from r0[unfolded ob d option.case] obtain dtag s1 where gd: "stepL (get_dtag d) s = Some (Inr (dtag, s1))"
    and r1: "bindLR (stepL (if tag__is_type (obj_head ?ob) then type__recode_dwarf_specification a else retL ())) (\<lambda>_. ?F dtag) s1 = Some (Inr (e, s'))"
    by (rule bindLR_E)
  from gd[unfolded stepL_run] have dt: "dtag = dtag_at s d" and s1: "s1 = s" by (auto simp: get_dtag_def split: if_splits)
  have o: "owned s a dtag" using a d dt by (auto simp: owned_def)
  from r1 obtain u s2 where sp: "stepL (if tag__is_type (obj_head ?ob) then type__recode_dwarf_specification a else retL ()) s1 = Some (Inr (u, s2))"
    and F: "?F dtag s2 = Some (Inr (e, s'))" by (rule bindLR_E)
  have "keeps (if tag__is_type (obj_head ?ob) then type__recode_dwarf_specification a else retL ())" using keeps_spec by simp
  from keepsD[OF this t sp[unfolded stepL_run s1]] have 2: "tok s2" "recoded s s2" by auto
  note o2 = owned_recoded[OF o 2(2)]
  have a2: "a < length (ls_objs s2)" "o_tag (obj_at s2 a) = o_tag ?ob" using recoded_obj[OF 2(2) a] by auto
  have sc: "is_scope s a \<longleftrightarrow> tag__has_namespace (obj_head ?ob)" by (simp add: is_scope_def)
  have fin: "tok s' \<and> recoded s s' \<and> (e = 0 \<longrightarrow> (plain ?ob \<longrightarrow> num_written s' a) \<and> scope_written s a s')"
    if "tok s' \<and> recoded s2 s' \<and> (plain (obj_at s2 a) \<longrightarrow> num_written s' a)" "\<not> is_scope s a"
    using that recoded_trans[OF 2(2)] recoded_obj(6)[OF 2(2) a] by (simp add: scope_written_def)
  have np: "\<not> plain (obj_at s2 a)" if "o_tag ?ob \<in> {DW_TAG_subprogram, DW_TAG_lexical_block, DW_TAG_inlined_subroutine, DW_TAG_imported_module,
    DW_TAG_imported_declaration}" using that plain_tags[of "obj_at s2 a"] a2 by auto
  show ?thesis
  proof (cases "is_scope s a")
    case True
    from F[unfolded if_P[OF True[unfolded sc]]] have n: "namespace__recode_dwarf_types a s2 = Some (Inr (e, s'))" .
    from keepsRD[OF keepsR_space 2(1) n] have 3: "tok s'" "recoded s2 s'" by auto
    have "scope_written s2 a s'" if "e = 0"
      using scope_run[OF 2(1)] n that plain_not_scope by (auto simp: scope_written_def)
    moreover have "\<not> plain ?ob" using True plain_not_scope by blast
    ultimately show ?thesis using 3 scope_written_recoded[OF 2(2) a] recoded_trans[OF 2(2) 3(2)] by blast
  next
    case False
    note F1 = F[unfolded if_not_P[OF False[unfolded sc]]]
    consider "o_tag ?ob = DW_TAG_subprogram" | "o_tag ?ob = DW_TAG_subroutine_type" | "o_tag ?ob = DW_TAG_lexical_block"
      | "o_tag ?ob = DW_TAG_ptr_to_member_type" | "o_tag ?ob = DW_TAG_inlined_subroutine \<or> o_tag ?ob = DW_TAG_imported_module"
      | "o_tag ?ob = DW_TAG_imported_declaration"
      | "o_tag ?ob \<notin> {DW_TAG_subprogram, DW_TAG_subroutine_type, DW_TAG_lexical_block, DW_TAG_ptr_to_member_type,
           DW_TAG_inlined_subroutine, DW_TAG_imported_module, DW_TAG_imported_declaration}" by blast
    then show ?thesis
    proof cases
      case 1
      from F1[unfolded if_P[OF 1]] subprogram_run[OF 2(1) o2] np 1 fin False show ?thesis by simp
    next
      case c: 2
      with F1 obtain s3 where "ftype__recode_dwarf_types a s2 = Inr ((), s3)" "recode_own_type a dtag s3 = Inr (e, s')"
        by (auto simp: stepL_run bindL_Inr_iff)
      from fin[OF then_own_type[where m = "ftype__recode_dwarf_types a", OF 2(1) o2 keepsD[OF keeps_ftype] this] False] show ?thesis .
    next
      case 3
      with F1 obtain u where "lexblock__recode_dwarf_types a s2 = Some (Inr (u, s'))"
        by (auto simp: stepL_run elim!: bindLR_E)
      with keepsRD[OF keepsR_block 2(1)] np 3 fin False show ?thesis by simp
    next
      case 4
      with F1 obtain s3 where c: "recode_containing_type a dtag s2 = Inr ((), s3)" "recode_own_type a dtag s3 = Inr (e, s')"
        by (auto simp: stepL_run bindL_Inr_iff)
      from a2(2) 4 have "o_tag (obj_at s2 a) = DW_TAG_ptr_to_member_type" by simp
      from fin[OF then_own_type[where m = "recode_containing_type a dtag", OF 2(1) o2 containing_type_run[OF _ this] c] False] show ?thesis .
    next
      case 5
      with F1 have "recode_as_tag a (dt_type dtag) s2 = Inr ((), s')" by (auto simp: stepL_run bindL_Inr_iff)
      moreover have "\<not> plain (obj_at s2 a)" using np 5 by blast
      ultimately show ?thesis using fin recode_as_tag_run[OF 2(1)] False by blast
    next
      case 6
      with F1 have "recode_as_either a (dt_type dtag) s2 = Inr ((), s')" by (auto simp: stepL_run bindL_Inr_iff)
      moreover have "\<not> plain (obj_at s2 a)" using np 6 by blast
      ultimately show ?thesis using fin recode_as_either_run[OF 2(1)] False by blast
    next
      case 7
      with F1 have "recode_own_type a dtag s2 = Inr (e, s')" by (simp add: stepL_run)
      from fin[OF own_type_run[OF 2(1) o2 this] False] show ?thesis .
    qed
  qed
qed

section \<open>The tables\<close>

definition tag_done :: "lst \<Rightarrow> lst \<Rightarrow> nat \<Rightarrow> bool" where
  "tag_done s s' a \<longleftrightarrow> a < length (ls_objs s) \<longrightarrow> o_priv (obj_at s a) \<noteq> None \<longrightarrow>
     (plain (obj_at s a) \<longrightarrow> num_written s' a) \<and> scope_written s a s'"

lemma tag_done_after:
  assumes r: "recoded s s1" "recoded s1 s'" and d: "tag_done s s1 a"
  shows "tag_done s s' a"
  unfolding tag_done_def
proof (intro impI conjI)
  assume a: "a < length (ls_objs s)" "o_priv (obj_at s a) \<noteq> None"
  with d have 1: "plain (obj_at s a) \<Longrightarrow> num_written s1 a" "scope_written s a s1" by (auto simp: tag_done_def)
  show "scope_written s a s'" using scope_written_after[OF recoded_trans[OF r] r(2,1) 1(2)] .
  assume p: "plain (obj_at s a)"
  from num_written_recoded[OF r(2) recoded_obj(6)[OF r(1) a(1) p] 1(1)[OF p]] show "num_written s' a" .
qed

lemma tag_done_before:
  assumes r: "recoded s s1" and d: "tag_done s1 s' a"
  shows "tag_done s s' a"
  unfolding tag_done_def
proof (intro impI conjI)
  assume a: "a < length (ls_objs s)" "o_priv (obj_at s a) \<noteq> None"
  with d recoded_obj(1,4)[OF r] have 1: "plain (obj_at s1 a) \<Longrightarrow> num_written s' a" "scope_written s1 a s'" by (auto simp: tag_done_def)
  show "scope_written s a s'" using scope_written_recoded[OF r a(1) 1(2)] .
  assume "plain (obj_at s a)"
  from 1(1)[OF recoded_obj(6)[OF r a(1) this]] show "num_written s' a" .
qed

lemma keepsR_tag: "keepsR (tag__recode_dwarf_type a)"
proof (rule keepsRI)
  fix s e s' assume t: "tok s" and r: "tag__recode_dwarf_type a s = Some (Inr (e, s'))"
  show "tok s' \<and> recoded s s'"
  proof (cases "o_priv (obj_at s a)")
    case None
    have "get_obj a s = Inr (obj_at s a, s)" using r
      by (auto simp: tag__recode_dwarf_type_def bindLR_run stepL_run dest: get_obj_run)
    with r None t show ?thesis by (simp add: tag__recode_dwarf_type_def bindLR_run stepL_run)
  next
    case (Some d)
    from tag_run[OF t r Some] show ?thesis by blast
  qed
qed

lemma tag_run_done:
  "tok s \<Longrightarrow> tag__recode_dwarf_type a s = Some (Inr (0, s')) \<Longrightarrow> tag_done s s' a"
  using tag_run[of s a 0 s'] by (auto simp: tag_done_def)

lemma get_table_recoded: "tok s \<Longrightarrow> pt_ok (get_table t s)" "recoded s s' \<Longrightarrow> pt_le (get_table t s) (get_table t s')"
  by (cases t; simp add: tok_def recoded_def get_table_def)+

lemma table_run:
  assumes "cu__recode_dwarf_types_table t i s = Some r"
  shows "\<forall>e s'. tok s \<longrightarrow> r = Inr (e, s') \<longrightarrow> tok s' \<and> recoded s s' \<and>
    (e = 0 \<longrightarrow> (\<forall>k a. unat i \<le> k \<and> pt_at (get_table t s) k = Some a \<longrightarrow> tag_done s s' a))"
proof (rule cu__recode_dwarf_types_table.raw_induct[OF _ assms,
      where P = "\<lambda>t i s r. \<forall>e s'. tok s \<longrightarrow> r = Inr (e, s') \<longrightarrow> tok s' \<and> recoded s s' \<and>
    (e = 0 \<longrightarrow> (\<forall>k a. unat i \<le> k \<and> pt_at (get_table t s) k = Some a \<longrightarrow> tag_done s s' a))"])
  fix f :: "table \<Rightarrow> u32 \<Rightarrow> lst \<Rightarrow> (int \<times> lst) run" and t i s r
  assume 1: "\<And>t i s r. f t i s = Some r \<Longrightarrow> \<forall>e s'. tok s \<longrightarrow> r = Inr (e, s') \<longrightarrow> tok s' \<and> recoded s s' \<and>
    (e = 0 \<longrightarrow> (\<forall>k a. unat i \<le> k \<and> pt_at (get_table t s) k = Some a \<longrightarrow> tag_done s s' a))"
  assume eq: "(if i < pt_nr_entries (get_table t s)
      then bindR (Some (load_entry (get_table t s) i)) (\<lambda>p.
        bindR (case p of None \<Rightarrow> retR (0, s) | Some a \<Rightarrow> tag__recode_dwarf_type a s) (\<lambda>r.
          if fst r \<noteq> 0 then retR (- 1, snd r) else f t (i + 1) (snd r)))
      else retR (0, s)) = Some r"
  show "\<forall>e s'. tok s \<longrightarrow> r = Inr (e, s') \<longrightarrow> tok s' \<and> recoded s s' \<and>
    (e = 0 \<longrightarrow> (\<forall>k a. unat i \<le> k \<and> pt_at (get_table t s) k = Some a \<longrightarrow> tag_done s s' a))"
  proof (cases "i < pt_nr_entries (get_table t s)")
    case False
    with eq show ?thesis by (auto simp: pt_at_def word_less_nat_alt)
  next
    case True
    show ?thesis
    proof (intro allI impI)
      fix e s' assume t: "tok s" and ri: "r = Inr (e, s')"
      let ?p = "pt_at (get_table t s) (unat i)"
      have i1: "unat (i + 1) = unat i + 1" using True by unat_arith
      from eq[unfolded if_P[OF True] ri load_entry_at[OF get_table_recoded(1)[OF t] True]]
      have n: "bindR (case ?p of None \<Rightarrow> retR (0, s) | Some a \<Rightarrow> tag__recode_dwarf_type a s) (\<lambda>r.
          if fst r \<noteq> 0 then retR (- 1, snd r) else f t (i + 1) (snd r)) = Some (Inr (e, s'))" by simp
      from n obtain q :: "int \<times> lst" where q: "(case ?p of None \<Rightarrow> retR (0, s) | Some a \<Rightarrow> tag__recode_dwarf_type a s) = Some (Inr q)"
        and l: "(if fst q \<noteq> 0 then retR (- 1, snd q) else f t (i + 1) (snd q)) = Some (Inr (e, s'))" by (rule bindR_retR_E)
      obtain e1 s1 where qs: "q = (e1, s1)" by (cases q)
      have 2: "tok s1" "recoded s s1" using q t keepsRD[OF keepsR_tag t] by (auto simp: qs split: option.splits)
      have 3: "tag_done s s1 a" if "e1 = 0" "?p = Some a" for a using q that tag_run_done[OF t] by (simp add: qs)
      show "tok s' \<and> recoded s s' \<and> (e = 0 \<longrightarrow> (\<forall>k a. unat i \<le> k \<and> pt_at (get_table t s) k = Some a \<longrightarrow> tag_done s s' a))"
      proof (cases "e1 = 0")
        case False
        with l 2 show ?thesis by (auto simp: qs)
      next
        case e1: True
        with l have "f t (i + 1) s1 = Some (Inr (e, s'))" by (simp add: qs)
        from 1[OF this] 2(1) have 4: "tok s'" "recoded s1 s'"
          "e = 0 \<Longrightarrow> unat i + 1 \<le> k \<Longrightarrow> pt_at (get_table t s1) k = Some a \<Longrightarrow> tag_done s1 s' a" for k a by (auto simp: i1)
        have "tag_done s s' a" if e: "e = 0" and k: "unat i \<le> k" "pt_at (get_table t s) k = Some a" for k a
        proof (cases "k = unat i")
          case True
          with 3 e1 k tag_done_after[OF 2(2) 4(2)] show ?thesis by simp
        next
          case False
          have "pt_at (get_table t s1) k = Some a" using get_table_recoded(2)[OF 2(2), of t] k(2)
            by (auto simp: pt_le_def pt_at_def split: if_splits)
          moreover have "unat i + 1 \<le> k" using False k(1) by simp
          ultimately show ?thesis using 4(3)[OF e] tag_done_before[OF 2(2)] by blast
        qed
        with 4(1,2) 2(2) recoded_trans show ?thesis by blast
      qed
    qed
  qed
qed

lemma keepsR_table: "keepsR (cu__recode_dwarf_types_table t i)"
  by (rule keepsRI) (use table_run in blast)

theorem recode_run:
  assumes t: "tok s" and r: "cu__recode_dwarf_types s = Some (Inr (e, s'))"
  shows "tok s' \<and> recoded s s' \<and> (e = 0 \<longrightarrow>
    (\<forall>k a. 1 \<le> k \<and> pt_at (ls_types_table s) k = Some a \<longrightarrow> tag_done s s' a))"
proof -
  from r[unfolded cu__recode_dwarf_types_def] obtain e1 s1 where a: "cu__recode_dwarf_types_table Types_Table 1 s = Some (Inr (e1, s1))"
    and r1: "(if e1 \<noteq> 0 then stepL (retL (- 1))
     else bindLR (cu__recode_dwarf_types_table Tags_Table 0) (\<lambda>err2.
     if err2 \<noteq> 0 then stepL (retL (- 1))
     else bindLR (cu__recode_dwarf_types_table Functions_Table 0) (\<lambda>err3.
     stepL (retL (if err3 \<noteq> 0 then - 1 else 0))))) s1 = Some (Inr (e, s'))" by (rule bindLR_E)
  from table_run[OF a] t have 1: "tok s1" "recoded s s1"
    "e1 = 0 \<Longrightarrow> 1 \<le> k \<Longrightarrow> pt_at (ls_types_table s) k = Some x \<Longrightarrow> tag_done s s1 x" for k x by (auto simp: get_table_def)
  have k2: "keepsR (bindLR (cu__recode_dwarf_types_table Tags_Table 0) (\<lambda>err2.
     if err2 \<noteq> 0 then stepL (retL (- 1))
     else bindLR (cu__recode_dwarf_types_table Functions_Table 0) (\<lambda>err3.
     stepL (retL (if err3 \<noteq> 0 then - 1 else 0)))))"
    by (intro keepsR_bind keepsR_table) (auto intro!: keepsR_bind keepsR_table keepsR_step)
  show ?thesis
  proof (cases "e1 = 0")
    case False
    with r1 1 show ?thesis by (auto simp: stepL_run)
  next
    case True
    with r1 keepsRD[OF k2 1(1)] have 2: "tok s'" "recoded s1 s'" by auto
    with 1 True tag_done_after recoded_trans show ?thesis by blast
  qed
qed

end
