(* ===== verification/Dwarf_Class_Inv.thy ===== *)
theory Dwarf_Class_Inv
  imports Dwarf_Process_Inv
begin

text \<open>
  The members of a structure: the first pass links one tag for every member of an entry, in the
  order of the entry's children, with the offsets and widths the member's own entry gives
  (\<open>member_given\<close>, stated without the loader's readers of attributes); what it
  makes for other children is linked between them and leaves their order alone.
\<close>

section \<open>Members\<close>

definition member_of :: "die_info \<Rightarrow> obj_body \<Rightarrow> bool" where
  \<comment> \<open>offsets and widths as the entry gives them\<close>
  "member_of di b \<longleftrightarrow> (case b of
       O_Member cm const_value accessibility \<Rightarrow> (case attr_offset di DW_AT_data_member_location of
           Inr off \<Rightarrow>
             cm_byte_offset cm = ucast off \<and>
             cm_bitfield_offset cm = ucast (attr_numeric di DW_AT_bit_offset) \<and>
             cm_bitfield_size cm = ucast (attr_numeric di DW_AT_bit_size) \<and>
             cm_bit_offset cm = cm_byte_offset cm * 8 + ucast (cm_bitfield_offset cm) \<and>
             const_value = attr_numeric di DW_AT_const_value
         | Inl e \<Rightarrow> False)
     | _ \<Rightarrow> False)"

text \<open>
  What the entry says of a member, independently of the loader's readers. The location is absent,
  which means 0, or a number in one of the constant forms, or an expression: an operation that
  adds a constant, followed by the encoding of the constant. Of other expressions the loader makes
  the largest number, and it reads 0 from the forms \<^verbatim>\<open>DW_FORM_data4\<close> and \<^verbatim>\<open>DW_FORM_data8\<close>,
  which are no blocks for libdw.
\<close>

abbreviation location_forms :: "u32 set" where
  "location_forms \<equiv> {DW_FORM_data1, DW_FORM_data2, DW_FORM_sdata, DW_FORM_udata}"

definition member_location :: "die_info \<Rightarrow> u64 \<Rightarrow> bool" where
  "member_location di off \<longleftrightarrow> (case dwarf_attr di DW_AT_data_member_location of
       None \<Rightarrow> off = 0
     | Some at \<Rightarrow>
         (\<forall>v. da_form at \<in> location_forms \<longrightarrow> da_udata at = Some v \<longrightarrow> off = v) \<and>
         (\<forall>op n bytes. da_form at \<notin> location_forms \<longrightarrow> da_block at = Some (op # uleb128 n @ bytes) \<longrightarrow>
            op = DW_OP_plus_uconst \<or> op = DW_OP_constu \<longrightarrow> n < 2 ^ 64 \<longrightarrow> off = of_nat n) \<and>
         (\<forall>op bytes. da_form at \<notin> location_forms \<longrightarrow> da_block at = Some (op # bytes) \<longrightarrow>
            op \<noteq> DW_OP_plus_uconst \<longrightarrow> op \<noteq> DW_OP_constu \<longrightarrow> off = - 1) \<and>
         (da_form at = DW_FORM_data4 \<or> da_form at = DW_FORM_data8 \<longrightarrow> da_block at = None \<longrightarrow> off = 0))"

definition number_given :: "die_info \<Rightarrow> u32 \<Rightarrow> u64 \<Rightarrow> bool" where
  "number_given di name v \<longleftrightarrow> (case dwarf_attr di name of
       None \<Rightarrow> v = 0
     | Some at \<Rightarrow> \<forall>x. da_form at \<in> location_forms \<union> {DW_FORM_data4, DW_FORM_data8} \<longrightarrow> da_udata at = Some x \<longrightarrow> v = x)"

definition member_given :: "die_info \<Rightarrow> obj_body \<Rightarrow> bool" where
  "member_given di b \<longleftrightarrow> (\<exists>cm value accessibility off bits width. b = O_Member cm value accessibility \<and>
     member_location di off \<and> number_given di DW_AT_bit_offset bits \<and> number_given di DW_AT_bit_size width \<and>
     number_given di DW_AT_const_value value \<and>
     cm_byte_offset cm = ucast off \<and> cm_bitfield_offset cm = ucast bits \<and> cm_bitfield_size cm = ucast width \<and>
     cm_bit_offset cm = ucast off * 8 + ucast (cm_bitfield_offset cm))"

definition bit_width :: "obj_body \<Rightarrow> u8" where
  "bit_width b = (case b of O_Member cm value accessibility \<Rightarrow> cm_bitfield_size cm | _ \<Rightarrow> 0)"

lemma attr_offset_location: "attr_offset di DW_AT_data_member_location = Inr off \<Longrightarrow> member_location di off"
  unfolding attr_offset_def member_location_def
  by (auto simp: dwarf_expr_def get_uleb128_encoding split: option.splits if_splits)

lemma attr_numeric_given: "number_given di name (attr_numeric di name)"
  by (auto simp: number_given_def attr_numeric_def split: option.split)

lemma member_of_given:
  assumes "member_of di b"
  shows "member_given di b" and "bit_width b = ucast (attr_numeric di DW_AT_bit_size)"
proof -
  from assms obtain cm v acc off where b: "b = O_Member cm v acc" and off: "attr_offset di DW_AT_data_member_location = Inr off"
    and cm: "cm_byte_offset cm = ucast off" "cm_bitfield_offset cm = ucast (attr_numeric di DW_AT_bit_offset)"
      "cm_bitfield_size cm = ucast (attr_numeric di DW_AT_bit_size)"
      "cm_bit_offset cm = cm_byte_offset cm * 8 + ucast (cm_bitfield_offset cm)" "v = attr_numeric di DW_AT_const_value"
    by (auto simp: member_of_def split: obj_body.splits sum.splits)
  show "member_given di b"
    unfolding member_given_def
    using b cm(1-3) cm(4)[unfolded cm(1)] attr_offset_location[OF off] attr_numeric_given[of di]
      attr_numeric_given[of di DW_AT_const_value, folded cm(5)] by blast
  show "bit_width b = ucast (attr_numeric di DW_AT_bit_size)" using b cm(3) by (simp add: bit_width_def)
qed

definition loaded_member :: "lst \<Rightarrow> nat \<Rightarrow> die_info \<Rightarrow> bool" where
  "loaded_member s m di \<longleftrightarrow> stands_for s m di \<and> member_of di (o_body (obj_at s m))"

definition member_tags :: "lst \<Rightarrow> nat list \<Rightarrow> nat list" where
  "member_tags s ts = filter (\<lambda>m. o_tag (obj_at s m) = DW_TAG_member) ts"

definition member_entries :: "die_info list \<Rightarrow> die_info list" where
  "member_entries dis = filter (\<lambda>di. di_tag di = DW_TAG_member) dis"

lemma member_entries_Cons:
  "member_entries (di # dis) = (if di_tag di = DW_TAG_member then [di] else []) @ member_entries dis"
  by (simp add: member_entries_def)

definition loaded_members :: "lst \<Rightarrow> nat list \<Rightarrow> die_info list \<Rightarrow> bool" where
  "loaded_members s ts dis \<longleftrightarrow> (\<forall>t \<in> set ts. t < length (ls_objs s)) \<and>
     list_all2 (loaded_member s) (member_tags s ts) (member_entries dis)"

lemma loaded_members_Nil: "loaded_members s [] []"
  by (simp add: loaded_members_def member_tags_def member_entries_def)

lemma loaded_members_append:
  "loaded_members s ts dis \<Longrightarrow> loaded_members s ts' dis' \<Longrightarrow> loaded_members s (ts @ ts') (dis @ dis')"
  by (auto simp: loaded_members_def member_tags_def member_entries_def intro: list_all2_appendI)

lemma no_member_of_scope: "member_of di b \<Longrightarrow> namespace_tags (ob \<lparr> o_body := b \<rparr>) \<noteq> Inr ts"
  by (cases b) (simp_all add: member_of_def namespace_tags_def)

lemma loaded_member_grow:
  assumes g: "grow A s s'" and m: "loaded_member s m di" and a: "\<And>a. a \<in> A \<Longrightarrow> \<exists>ts. namespace_tags (obj_at s a) = Inr ts"
  shows "loaded_member s' m di"
proof -
  have l: "m < length (ls_objs s)" using m by (simp add: loaded_member_def stands_for_def)
  have "m \<notin> A"
  proof
    assume "m \<in> A"
    from a[OF this] obtain ts where "namespace_tags (obj_at s m) = Inr ts" by blast
    moreover have "namespace_tags (obj_at s m) \<noteq> Inr ts"
      using m by (cases "o_body (obj_at s m)") (simp_all add: loaded_member_def member_of_def namespace_tags_def)
    ultimately show False by simp
  qed
  with g l have "o_body (obj_at s' m) = o_body (obj_at s m)" by (simp add: grow_def)
  with m stands_for_grow[OF g] show ?thesis by (simp add: loaded_member_def)
qed

lemma loaded_members_grow:
  assumes g: "grow A s s'" and m: "loaded_members s ts dis" and a: "\<And>a. a \<in> A \<Longrightarrow> \<exists>ts. namespace_tags (obj_at s a) = Inr ts"
  shows "loaded_members s' ts dis"
proof -
  have l: "\<forall>t \<in> set ts. t < length (ls_objs s)" using m by (simp add: loaded_members_def)
  then have "member_tags s' ts = member_tags s ts"
    unfolding member_tags_def by (intro filter_cong) (use g in \<open>auto simp: grow_def\<close>)
  moreover have "list_all2 (loaded_member s') (member_tags s ts) (member_entries dis)"
    using m loaded_member_grow[OF g _ a] by (auto simp: loaded_members_def elim: list_all2_mono)
  ultimately show ?thesis using l g by (auto simp: loaded_members_def grow_def)
qed

section \<open>One child of a structure\<close>

definition adds_tags :: "nat \<Rightarrow> lst \<Rightarrow> nat list \<Rightarrow> lst \<Rightarrow> bool" where
  "adds_tags a s ts s' \<longleftrightarrow> (\<forall>old. namespace_tags (obj_at s a) = Inr old \<longrightarrow> namespace_tags (obj_at s' a) = Inr (old @ ts))"

lemma set_body_at: "set_body a b s = Inr (u, s') \<Longrightarrow> o_body (obj_at s' a) = b \<and> (\<forall>x. x \<noteq> a \<longrightarrow> obj_at s' x = obj_at s x)"
  by (auto dest!: set_body_run)

lemma namespace_tags_body: "o_body ob = o_body ob' \<Longrightarrow> namespace_tags ob = namespace_tags ob'"
  by (simp add: namespace_tags_def)

lemma add_tag_adds:
  assumes "o_namespace__add_tag a t s = Inr (u, s')"
  shows "adds_tags a s [t] s' \<and> (\<forall>x. x \<noteq> a \<longrightarrow> obj_at s' x = obj_at s x)"
  using assms
  by (cases "o_body (obj_at s a)"; auto simp: o_namespace__add_tag_def bindL_def get_obj_def adds_tags_def namespace_tags_def
      split: if_split_asm dest!: set_body_at)

lemma map_type_fields_adds:
  assumes "map_type_fields f a s = Inr (u, s')"
  shows "adds_tags a s [] s' \<and> (\<forall>x. x \<noteq> a \<longrightarrow> obj_at s' x = obj_at s x)"
  using assms
  by (cases "o_body (obj_at s a)"; auto simp: map_type_fields_def bindL_def get_obj_def adds_tags_def namespace_tags_def
      split: if_split_asm dest!: set_body_at)

lemma add_member_adds:
  assumes "o_type__add_member a m s = Inr (u, s')"
  shows "adds_tags a s [m] s' \<and> (\<forall>x. x \<noteq> a \<longrightarrow> obj_at s' x = obj_at s x)"
proof -
  from assms obtain f s1 where f: "map_type_fields f a s = Inr ((), s1)" and ad: "o_namespace__add_tag a m s1 = Inr (u, s')"
    by (cases "o_body (obj_at s m)"; auto simp: o_type__add_member_def bindL_def get_obj_def res_simps split: if_split_asm)
  from map_type_fields_adds[OF f] add_tag_adds[OF ad] show ?thesis by (simp add: adds_tags_def)
qed

lemma add_virtual_adds:
  assumes "add_virtual a t s = Inr (u, s')"
  shows "adds_tags a s [] s'"
proof (cases "s' = s")
  case False
  with assms have "class__add_vtable_entry a t s = Inr (u, s')"
    by (cases "o_body (obj_at s t)"; auto simp: add_virtual_def bindL_def get_obj_def split: if_split_asm)
  then show ?thesis
    by (cases "o_body (obj_at s a)"; auto simp: class__add_vtable_entry_def bindL_def get_obj_def adds_tags_def namespace_tags_def
        split: if_split_asm dest!: set_body_at)
qed (simp add: adds_tags_def)

lemma adds_tags_objs: "adds_tags a s ts s' \<Longrightarrow> ls_objs s1 = ls_objs s \<Longrightarrow> ls_objs s2 = ls_objs s' \<Longrightarrow> adds_tags a s1 ts s2"
  by (simp add: adds_tags_def)

lemma adds_tags_trans: "adds_tags a s ts s1 \<Longrightarrow> adds_tags a s1 ts' s' \<Longrightarrow> adds_tags a s (ts @ ts') s'"
  by (simp add: adds_tags_def)

lemma adds_tags_grow: "grow A s s' \<Longrightarrow> a \<notin> A \<Longrightarrow> a < length (ls_objs s) \<Longrightarrow> adds_tags a s [] s'"
  by (simp add: adds_tags_def grow_def namespace_tags_def)

lemma enter_nested_adds:
  assumes i: "inv s" and e: "enter_nested a (Tag_At x) s = Inr (err, s')"
  shows "adds_tags a s [x] s'"
proof -
  from e obtain e1 n s1 where t: "cu__table_add_tag x (- 1) s = Inr ((e1, n), s1)"
    and r: "(if e1 < 0 then bindL (delete_tag x) (\<lambda>_. retL (- ENOMEM))
      else bindL (set_small_id x n) (\<lambda>_. bindL (o_namespace__add_tag a x) (\<lambda>_. bindL (cu__hash x) (\<lambda>_. retL 0)))) s1 = Inr (err, s')"
    by (auto simp: enter_nested_def res_simps simp del: if_split split del: if_split)
  note * = cu__table_add_tag_run[OF i t]
  from r *(1) obtain s2 s3 where sm: "set_small_id x n s1 = Inr ((), s2)" and ad: "o_namespace__add_tag a x s2 = Inr ((), s3)"
    and h: "cu__hash x s3 = Inr ((), s')" by (auto simp: res_simps)
  have "adds_tags a s2 [x] s3" using add_tag_adds[OF ad] by simp
  then show ?thesis
    by (rule adds_tags_objs) (use *(3) set_small_id_objs[OF sm] cu__hash_objs[OF h] in \<open>simp_all add: entering_def\<close>)
qed

lemma class_member__new_body:
  assumes "class_member__new di u s = Inr (m, s')"
  shows "member_of di (o_body (obj_at s' m))"
proof -
  from assms obtain name s1 off where off: "attr_offset di DW_AT_data_member_location = Inr off"
    and b: "set_body m (O_Member \<lparr> cm_name = name,
            cm_bit_offset = ucast off * 8 + ucast (ucast (attr_numeric di DW_AT_bit_offset) :: u8),
            cm_bit_size = ucast (ls_stale s1 m), cm_byte_offset = ucast off, cm_byte_size = 0,
            cm_bitfield_offset = ucast (attr_numeric di DW_AT_bit_offset), cm_bitfield_size = ucast (attr_numeric di DW_AT_bit_size),
            cm_bit_hole = 0, cm_bitfield_end = False,
            cm_is_static = (\<not> u \<and> \<not> dwarf_hasattr di DW_AT_data_member_location),
            cm_virtuality = ucast (attr_numeric di DW_AT_virtuality) AND 3, cm_hole = 0 \<rparr>
          (attr_numeric di DW_AT_const_value) (ucast (attr_numeric di DW_AT_accessibility) AND 3)) s1 = Inr ((), s')"
    by (auto simp: class_member__new_def Let_def res_simps)
  from set_body_at[OF b] off show ?thesis by (simp add: member_of_def)
qed

lemma loaded_members_one:
  "t < length (ls_objs s) \<Longrightarrow> (o_tag (obj_at s t) = DW_TAG_member \<longleftrightarrow> di_tag di = DW_TAG_member) \<Longrightarrow>
   (di_tag di = DW_TAG_member \<Longrightarrow> loaded_member s t di) \<Longrightarrow> loaded_members s [t] [di]"
  by (auto simp: loaded_members_def member_tags_def member_entries_def)

lemma loaded_members_none: "di_tag di \<noteq> DW_TAG_member \<Longrightarrow> loaded_members s [] [di]"
  by (simp add: loaded_members_def member_tags_def member_entries_def)

definition class_step :: "nat \<Rightarrow> lst \<Rightarrow> die_info list \<Rightarrow> lst \<Rightarrow> bool" where
  "class_step a s dis s' \<longleftrightarrow> inv s' \<and> grow {a} s s' \<and> (\<exists>ts. adds_tags a s ts s' \<and> loaded_members s' ts dis)"

lemma member_child_run:
  assumes i: "inv s" and tag: "di_tag di = DW_TAG_inheritance \<or> di_tag di = DW_TAG_member"
    and r: "process_member di a s = Inr (e, s')" and a: "a < length (ls_objs s)" and ns: "namespace_tags (obj_at s a) = Inr old"
  shows "e = 0 \<and> class_step a s [di] s'"
proof -
  have "a \<in> {a}" by simp
  from process_member_run[OF tag this i r] obtain u m s1 s2 s3 where e: "e = 0" and i': "inv s'"
    and n: "class_member__new di u s = Inr (m, s1)" and st: "stands_for s1 m di"
    and g: "grow {a} s s1" "grow {a} s1 s'" and o2: "ls_objs s2 = ls_objs s1"
    and ad: "o_type__add_member a m s2 = Inr ((), s3)" and o3: "ls_objs s' = ls_objs s3" .
  have "di_tag di \<notin> reference_tags" using tag by (auto simp: reference_tags_def)
  from plain_new_for(9)[OF n this] have mf: "made_for di m s s1" .
  then have m: "m = length (ls_objs s)" by (simp add: made_for_def)
  from made_for_grow[OF mf] have "grow {} s s1" by blast
  then have a0: "adds_tags a s [] s1" using a by (intro adds_tags_grow[where A = "{}"]) simp_all
  have "adds_tags a s2 [m] s3" using add_member_adds[OF ad] by simp
  then have a1: "adds_tags a s1 [m] s'" by (rule adds_tags_objs) (simp_all add: o2 o3)
  have am: "adds_tags a s [m] s'" using adds_tags_trans[OF a0 a1] by simp
  have "obj_at s' m = obj_at s1 m" using add_member_adds[OF ad] m a o2 o3 by simp
  with class_member__new_body[OF n] stands_for_grow[OF g(2) st] have l: "loaded_member s' m di" by (simp add: loaded_member_def)
  then have "m < length (ls_objs s')" "o_tag (obj_at s' m) = di_tag di" by (simp_all add: loaded_member_def stands_for_def)
  with l have "loaded_members s' [m] [di]" by (intro loaded_members_one) simp_all
  with e i' am grow_trans[OF g] show ?thesis unfolding class_step_def by blast
qed

lemma nested_child_run:
  assumes i: "inv s" and c: "good c" and a: "a < length (ls_objs s)"
    and r: "bindL (ch_process_tag c False) (\<lambda>t. bindL (enter_nested a t) (\<lambda>err. case t of
      Tag_At x \<Rightarrow> if err \<noteq> 0 then retL err else bindL (add_virtual a x) (\<lambda>_. retL 0) | _ \<Rightarrow> retL err)) s = Inr (e, s')"
  shows "e = 0 \<and> class_step a s [ch_info c] s'"
proof -
  from r obtain t s1 where p: "ch_process_tag c False s = Inr (t, s1)"
    and n0: "bindL (enter_nested a t) (\<lambda>err. case t of
      Tag_At x \<Rightarrow> if err \<noteq> 0 then retL err else bindL (add_virtual a x) (\<lambda>_. retL 0) | _ \<Rightarrow> retL err) s1 = Inr (e, s')"
    by (auto simp: bindL_Inr_iff)
  have su: "di_tag (ch_info c) \<in> supported"
  proof (rule ccontr)
    assume "di_tag (ch_info c) \<notin> supported"
    with c p have "t = Unsupported_Tag" by (simp add: good_def)
    with n0 show False by (simp add: bindL_def enter_nested_def)
  qed
  with c have "makes {} (ch_info c) (ch_process_tag c False)" by (simp add: good_def)
  from makesD[OF this i p] obtain x where t: "t = Tag_At x" and st: "stands_for s1 x (ch_info c)" and 1: "inv s1" "grow {} s s1" by auto
  from n0[unfolded t] obtain e1 s2 where n: "enter_nested a (Tag_At x) s1 = Inr (e1, s2)"
    and v: "(if e1 \<noteq> 0 then retL e1 else bindL (add_virtual a x) (\<lambda>_. retL 0)) s2 = Inr (e, s')"
    by (auto simp: bindL_Inr_iff)
  have aA: "a \<in> {a}" by simp
  from enter_nested_run[OF 1(1) n aA] have 2: "e1 = 0" "inv s2" "grow {a} s1 s2" by auto
  from v 2(1) have w: "add_virtual a x s2 = Inr ((), s')" and e: "e = 0" by (auto simp: res_simps)
  from rebody_keep[OF 2(2) adders_rebody2(9)[OF w] aA] have 3: "inv s'" "grow {a} s2 s'" by auto
  have ad: "adds_tags a s [x] s'"
    using adds_tags_trans[OF adds_tags_trans[OF adds_tags_grow[OF 1(2) _ a] enter_nested_adds[OF 1(1) n]] add_virtual_adds[OF w]] by simp
  have g: "grow {a} s1 s'" by (rule grow_trans[OF 2(3) 3(2)])
  have "x < length (ls_objs s')" "o_tag (obj_at s' x) = di_tag (ch_info c)" using stands_for_grow[OF g st] by (simp_all add: stands_for_def)
  moreover have "di_tag (ch_info c) \<noteq> DW_TAG_member" using su by (auto simp: supported_def)
  ultimately have "loaded_members s' [x] [ch_info c]" by (intro loaded_members_one) simp_all
  with e 3(1) ad grow_trans[OF grow_any[OF 1(2)] g] show ?thesis unfolding class_step_def by blast
qed

lemma class_child_run:
  assumes i: "inv s" and c: "good c" and a: "a < length (ls_objs s)" and ns: "namespace_tags (obj_at s a) = Inr old"
    and r: "class_child a c s = Inr (e, s')"
  shows "e = 0 \<and> class_step a s [ch_info c] s'"
proof -
  let ?tag = "di_tag (ch_info c)"
  let ?T = "{DW_TAG_GNU_template_template_param, DW_TAG_GNU_template_parameter_pack,
                 DW_TAG_template_type_parameter, DW_TAG_template_value_parameter}"
  show ?thesis
  proof (cases "?tag \<in> ?T")
    case True
    then have nm: "?tag \<noteq> DW_TAG_member" by auto
    from r[unfolded class_child_def Let_def if_P[OF True]] have e: "e = 0" and p: "tag__print_not_supported ?tag s = Inr ((), s')"
      by (auto simp: res_simps)
    have "rebody {} s s'" by (rule not_supported_rebody[OF p])
    then have 1: "inv s'" "grow {} s s'" using rebody_inv[OF i] rebody_grow by blast+
    from adds_tags_grow[OF 1(2) _ a] loaded_members_none[OF nm] 1(1) grow_any[OF 1(2)] e show ?thesis
      unfolding class_step_def by blast
  next
    case 1: False
    show ?thesis
    proof (cases "?tag = DW_TAG_inheritance \<or> ?tag = DW_TAG_member")
      case True
      from r[unfolded class_child_def Let_def if_not_P[OF 1] if_P[OF True]] member_child_run[OF i True _ a ns] show ?thesis by blast
    next
      case False
      from r[unfolded class_child_def Let_def if_not_P[OF 1] if_not_P[OF False]] nested_child_run[OF i c a] show ?thesis by blast
    qed
  qed
qed

section \<open>All children of a structure\<close>

lemma class_step_tags:
  assumes "class_step a s dis s'" and "namespace_tags (obj_at s a) = Inr old"
  shows "\<exists>ts. namespace_tags (obj_at s' a) = Inr ts"
  using assms by (auto simp: class_step_def adds_tags_def)

lemma class_step_trans:
  assumes 1: "class_step a s dis s1" and 2: "class_step a s1 dis' s'" and ns: "namespace_tags (obj_at s a) = Inr old"
  shows "class_step a s (dis @ dis') s'"
proof -
  from 1 obtain ts where t1: "adds_tags a s ts s1" "loaded_members s1 ts dis" by (auto simp: class_step_def)
  from 2 obtain ts' where t2: "adds_tags a s1 ts' s'" "loaded_members s' ts' dis'" by (auto simp: class_step_def)
  have g: "grow {a} s s1" "grow {a} s1 s'" using 1 2 by (simp_all add: class_step_def)
  have "\<exists>ts. namespace_tags (obj_at s1 x) = Inr ts" if "x \<in> {a}" for x using class_step_tags[OF 1 ns] that by simp
  from loaded_members_append[OF loaded_members_grow[OF g(2) t1(2) this] t2(2)] adds_tags_trans[OF t1(1) t2(1)] grow_trans[OF g] 2
  show ?thesis unfolding class_step_def by blast
qed

lemma class_loop_run:
  assumes "inv s" and "\<And>c. c \<in> set cs \<Longrightarrow> good c" and "a < length (ls_objs s)" and "namespace_tags (obj_at s a) = Inr old"
    and "die__process_class cs a s = Inr (e, s')"
  shows "e = 0 \<and> class_step a s (map ch_info cs) s'"
  using assms
proof (induction cs arbitrary: s old)
  case Nil
  then show ?case using loaded_members_Nil by (auto simp: die__process_class_def class_step_def adds_tags_def intro!: exI[of _ "[]"])
next
  case (Cons c cs)
  from Cons.prems(5) obtain e1 s1 where b: "class_child a c s = Inr (e1, s1)"
    and n: "(if e1 \<noteq> 0 then retL e1 else for_children (class_child a) cs) s1 = Inr (e, s')"
    by (auto simp: die__process_class_def res_simps simp del: if_split split del: if_split)
  have "good c" using Cons.prems(2) by simp
  from class_child_run[OF Cons.prems(1) this Cons.prems(3,4) b] have 1: "e1 = 0" "class_step a s [ch_info c] s1" by auto
  then have i1: "inv s1" and l: "a < length (ls_objs s1)" using Cons.prems(3) by (auto simp: class_step_def grow_def)
  from class_step_tags[OF 1(2) Cons.prems(4)] obtain old1 where o1: "namespace_tags (obj_at s1 a) = Inr old1" ..
  from n 1(1) have n1: "die__process_class cs a s1 = Inr (e, s')" by (simp add: die__process_class_def)
  have "e = 0 \<and> class_step a s1 (map ch_info cs) s'"
    by (rule Cons.IH[OF i1 _ l o1 n1]) (use Cons.prems(2) in simp)
  with class_step_trans[OF 1(2) _ Cons.prems(4)] show ?case by force
qed

definition has_members :: "lst \<Rightarrow> nat \<Rightarrow> die_info list \<Rightarrow> bool" where
  "has_members s a dis \<longleftrightarrow> (case namespace_tags (obj_at s a) of Inr ts \<Rightarrow> loaded_members s ts dis | Inl e \<Rightarrow> False)"

lemma has_members_grow:
  assumes "grow {} s s'" and "a < length (ls_objs s)" and "has_members s a dis"
  shows "has_members s' a dis"
proof -
  from assms(3) obtain ts where ts: "namespace_tags (obj_at s a) = Inr ts" "loaded_members s ts dis"
    by (auto simp: has_members_def split: sum.splits)
  have "namespace_tags (obj_at s' a) = Inr ts" using ts(1) assms(1,2) by (simp add: grow_def namespace_tags_def)
  with loaded_members_grow[OF assms(1) ts(2)] show ?thesis by (simp add: has_members_def)
qed

definition record_tags :: "u16 set" where
  "record_tags = {DW_TAG_structure_type, DW_TAG_class_type, DW_TAG_interface_type, DW_TAG_union_type}"

lemma new_scope_tags:
  "class__new di s = Inr (a, s') \<Longrightarrow> namespace_tags (obj_at s' a) = Inr []"
  "type__new di s = Inr (a, s') \<Longrightarrow> namespace_tags (obj_at s' a) = Inr []"
  by (auto simp: class__new_def type__new_def res_simps namespace_tags_def dest!: set_body_at)

lemma record_loop_run:
  assumes i: "inv s" and c: "\<And>c. c \<in> set cs \<Longrightarrow> good c"
    and new: "\<And>s a s'. new s = Inr (a, s') \<Longrightarrow> made_for di a s s' \<and> namespace_tags (obj_at s' a) = Inr []"
    and r: "bindL new (\<lambda>a. bindL (die__process_class cs a) (\<lambda>err.
       if err \<noteq> 0 then bindL (type__delete a) (\<lambda>_. retL Null_Tag) else retL (Tag_At a))) s = Inr (t, s')"
  shows "\<exists>a. t = Tag_At a \<and> a < length (ls_objs s') \<and> has_members s' a (map ch_info cs)"
proof -
  from r obtain a s1 e s2 where n: "new s = Inr (a, s1)" and l: "die__process_class cs a s1 = Inr (e, s2)"
    and x: "(if e \<noteq> 0 then bindL (type__delete a) (\<lambda>_. retL Null_Tag) else retL (Tag_At a)) s2 = Inr (t, s')"
    by (auto simp: res_simps simp del: if_split split del: if_split)
  from new[OF n] have m: "made_for di a s s1" and ns: "namespace_tags (obj_at s1 a) = Inr []" by auto
  have i1: "inv s1" using made_for_inv[OF i m] .
  have a: "a < length (ls_objs s1)" using made_for_stands[OF m] by (simp add: stands_for_def)
  from class_loop_run[OF i1 c a ns l] have 1: "e = 0" "class_step a s1 (map ch_info cs) s2" by auto
  from x 1(1) have t: "t = Tag_At a" "s' = s2" by auto
  with 1(2) ns a show ?thesis by (auto simp: class_step_def adds_tags_def has_members_def grow_def)
qed

lemma process_record_run:
  assumes i: "inv s" and t: "di_tag di \<in> record_tags"
    and r: "ch_process_tag (visit (Die di cs)) top_level s = Inr (t, s')"
  shows "\<exists>a. t = Tag_At a \<and> has_members s' a (map die_info cs)"
proof -
  let ?cs = "map visit cs"
  have c: "good c" if "c \<in> set ?cs" for c using that visit_good by auto
  have ci: "map ch_info ?cs = map die_info cs" by (simp add: visit_info)
  from r obtain t1 s1 where n: "create_new di ?cs s = Inr (t1, s1)"
    and x: "(case t1 of Tag_At a \<Rightarrow> bindL (get_obj a) (\<lambda>ob. bindL (set_obj a (ob \<lparr> o_top_level := top_level \<rparr>)) (\<lambda>_. retL t1))
      | _ \<Rightarrow> retL t1) s1 = Inr (t, s')"
    by (auto simp: die__process_tag_def Let_def res_simps)
  have "\<exists>a. t1 = Tag_At a \<and> a < length (ls_objs s1) \<and> has_members s1 a (map ch_info ?cs)"
  proof (cases "di_tag di = DW_TAG_union_type")
    case True
    with n have "die__create_new_union di ?cs s = Inr (t1, s1)" by (simp add: create_new_def)
    then show ?thesis unfolding die__create_new_union_def
      by (intro record_loop_run[OF i c, of ?cs "type__new di" di]) (auto dest: typed_new_for new_scope_tags)
  next
    case False
    with n t have "die__create_new_class di ?cs s = Inr (t1, s1)" by (auto simp: create_new_def record_tags_def)
    then show ?thesis unfolding die__create_new_class_def
      by (intro record_loop_run[OF i c, of ?cs "class__new di" di]) (auto dest: typed_new_for new_scope_tags)
  qed
  then obtain a where a: "t1 = Tag_At a" "a < length (ls_objs s1)" "has_members s1 a (map die_info cs)" unfolding ci by blast
  from x a have t: "t = Tag_At a" and re: "rebody {} s1 s'"
    by (auto simp: res_simps set_obj_def rebody_def nth_list_update split: if_splits dest!: get_obj_run)
  from rebody_grow[OF re] have "grow {} s1 s'" by blast
  from has_members_grow[OF this a(2,3)] t show ?thesis by blast
qed

end
