(* ===== verification/Dwarf_Unit.thy ===== *)
theory Dwarf_Unit
  imports Dwarf_Recode_Run Dwarf_Class_Inv
begin

text \<open>
  A unit from the tree of its entries to its tables: both passes together. After a load that ends
  well, every supported type that is a child of the unit's entry has its tag in the table of types,
  the number a tag has for its type is the place of the tag of the entry it refers to, if that is
  such a child as well, and the tags of the members of a structure stand in the order of its entries.
\<close>

section \<open>The first pass\<close>

definition loaded_entry :: "lst \<Rightarrow> die \<Rightarrow> nat \<Rightarrow> bool" where
  "loaded_entry s die a \<longleftrightarrow> entered s (die_info die) a \<and>
     (di_tag (die_info die) \<in> record_tags \<longrightarrow> has_members s a (map die_info (die_children die)))"

lemma loaded_entry_grow: "grow {} s s' \<Longrightarrow> loaded_entry s die a \<Longrightarrow> loaded_entry s' die a"
  using entered_grow[of "{}" s s' "die_info die" a] has_members_grow[of s s' a]
  by (auto simp: loaded_entry_def entered_def stands_for_def)

lemma unit_entry_run:
  assumes i: "inv s" and r: "unit_child (visit die) s = Inr (e, s')"
  shows "e = 0 \<and> inv s' \<and> grow {} s s' \<and> (di_tag (die_info die) \<in> supported \<longrightarrow> (\<exists>a. loaded_entry s' die a))"
proof -
  note 1 = unit_child_run[OF visit_good i r, unfolded visit_info]
  have "\<exists>a. loaded_entry s' die a" if su: "di_tag (die_info die) \<in> supported"
  proof -
    from 1 su obtain a s1 where p: "ch_process_tag (visit die) True s = Inr (Tag_At a, s1)" and a: "a < length (ls_objs s1)"
      and g: "grow {} s1 s'" and e: "entered s' (die_info die) a" by blast
    obtain di cs where die: "die = Die di cs" by (cases die)
    have "has_members s' a (map die_info cs)" if "di_tag di \<in> record_tags"
      using process_record_run[OF i that p[unfolded die]] has_members_grow[OF g a] by auto
    with e show ?thesis by (auto simp: loaded_entry_def die)
  qed
  with 1 show ?thesis by blast
qed

lemma unit_children_run:
  assumes "for_children unit_child (map visit dies) s = Inr (e, s')" and "inv s"
  shows "e = 0 \<and> inv s' \<and> grow {} s s' \<and>
    (\<forall>die \<in> set dies. di_tag (die_info die) \<in> supported \<longrightarrow> (\<exists>a. loaded_entry s' die a))"
  using assms
proof (induction dies arbitrary: s)
  case (Cons die dies)
  from Cons.prems(1) obtain e1 s1 where b: "unit_child (visit die) s = Inr (e1, s1)"
    and n: "(if e1 \<noteq> 0 then retL e1 else for_children unit_child (map visit dies)) s1 = Inr (e, s')"
    by (auto simp: res_simps simp del: if_split split del: if_split)
  from unit_entry_run[OF Cons.prems(2) b] have 1: "e1 = 0" "inv s1" "grow {} s s1"
    "di_tag (die_info die) \<in> supported \<longrightarrow> (\<exists>a. loaded_entry s1 die a)" by auto
  from n 1(1) have "for_children unit_child (map visit dies) s1 = Inr (e, s')" by simp
  from Cons.IH[OF this 1(2)] have 2: "e = 0" "inv s'" "grow {} s1 s'"
    "\<forall>die \<in> set dies. di_tag (die_info die) \<in> supported \<longrightarrow> (\<exists>a. loaded_entry s' die a)" by auto
  moreover have "grow {} s s'" by (rule grow_trans[OF 1(3) 2(3)])
  moreover have "\<exists>a. loaded_entry s' die a" if "di_tag (die_info die) \<in> supported"
    using 1(4) that loaded_entry_grow[OF 2(3)] by blast
  ultimately show ?case by simp
qed simp

definition unit_tags :: "u16 set" where
  "unit_tags = {DW_TAG_compile_unit, DW_TAG_type_unit}"

lemma die__process_run:
  assumes "die__process die s = Inr (e, s')" and "inv s" and "di_tag (die_info die) \<in> unit_tags"
  shows "e = 0 \<and> inv s' \<and> ls_type_unit s' = ls_type_unit s \<and>
    (\<forall>c \<in> set (die_children die). di_tag (die_info c) \<in> supported \<longrightarrow> (\<exists>a. loaded_entry s' c a))"
proof (cases die)
  case (Die di cs)
  let ?s = "s \<lparr> ls_language := ucast (attr_numeric di DW_AT_language) \<rparr>"
  have i: "inv ?s" using assms(2)
    by (auto simp: inv_but_def links_def hash_ok_def unit_tables_ok_def numbered_def hashed_def)
  have "for_children unit_child (map visit cs) ?s = Inr (e, s')"
    using assms(1,3) Die by (auto simp: die__process_def die__process_unit_def bindL_def unit_tags_def)
  from unit_children_run[OF this i] show ?thesis by (auto simp: Die grow_def)
qed

section \<open>A new unit\<close>

lemma new_unit_inv:
  assumes l: "links s" and al: "ls_table_alloc s = (\<lambda>_. True)" and n: "new_unit alloc conf tu name pointer_size s = Inr (True, s')"
  shows "inv s' \<and> ls_type_unit s' = tu"
proof -
  obtain rc and pt :: "nat ptr_table" where a: "ptr_table__add (\<lambda>_. True) None ptr_table__init = Inr (rc, pt)"
    using n al by (auto simp: new_unit_def cu__new_def res_simps split: if_splits)
  note * = ptr_table__add_run[OF pt_ok_init a]
  have nr: "unat (pt_nr_entries (ptr_table__init :: nat ptr_table)) = 0" by (simp add: ptr_table__init_def)
  have pt: "pt_ok pt" "unat (pt_nr_entries pt) = 1" "pt_at pt 0 = None" using * nr by auto
  have at: "pt_at pt k = None" for k using pt(2,3) by (cases k) (simp_all add: pt_at_def)
  from n al a * have s': "ls_types_table s' = pt" "ls_functions_table s' = ptr_table__init" "ls_tags_table s' = ptr_table__init"
    "ls_hash_types s' = replicate 256 []" "ls_hash_tags s' = replicate 256 []" "ls_table_alloc s' = (\<lambda>_. True)"
    "ls_objs s' = ls_objs s" "ls_dtags s' = ls_dtags s" "ls_type_unit s' = tu"
    by (auto simp: new_unit_def cu__new_def dwarf_cu__init_def res_simps split: if_splits)
  have "links s'" using l by (simp add: links_def s')
  moreover have "hash_ok s'" by (auto simp: hash_ok_def s' in_set_replicate)
  moreover have "unit_tables_ok s'" using pt at by (simp add: unit_tables_ok_def s')
  ultimately show ?thesis using at by (auto simp: inv_but_def s' in_set_replicate)
qed

section \<open>Both passes\<close>

definition type_tags :: "u16 set" where
  \<comment> \<open>the supported tags that belong in the table of types\<close>
  "type_tags = reference_tags \<union> record_tags \<union> {DW_TAG_enumeration_type}"

definition refers_into :: "die list \<Rightarrow> die_info \<Rightarrow> bool" where
  \<comment> \<open>the entry's type is an entry at the top of the unit\<close>
  "refers_into cs di \<longleftrightarrow> (\<exists>c \<in> set cs. di_tag (die_info c) \<in> type_tags \<and> di_offset (die_info c) \<noteq> 0 \<and>
     attr_type di DW_AT_type = \<lparr> from_types = False, ref_off = di_offset (die_info c) \<rparr>)"

definition at_offset :: "lst \<Rightarrow> nat \<Rightarrow> u64 \<Rightarrow> bool" where
  \<comment> \<open>the tag was made for the entry at this offset\<close>
  "at_offset s a off \<longleftrightarrow> (case o_priv (obj_at s a) of Some d \<Rightarrow> dt_id (dtag_at s d) = off | None \<Rightarrow> False)"

definition resolved :: "lst \<Rightarrow> nat \<Rightarrow> die_info \<Rightarrow> bool" where
  \<comment> \<open>the number of the tag's type finds the tag of the entry it refers to\<close>
  "resolved s a di \<longleftrightarrow> (case ptr_table__entry (ls_types_table s) (ucast (o_type (obj_at s a))) of
       Inr (Some x) \<Rightarrow> at_offset s x (ref_off (attr_type di DW_AT_type))
     | _ \<Rightarrow> False)"

lemma type_tags_supported: "type_tags \<subseteq> supported"
  by (auto simp: type_tags_def reference_tags_def record_tags_def supported_def)

lemma type_tags_is_type:
  assumes "o_tag (obj_at s a) \<in> type_tags"
  shows "is_type s a"
  using assms unfolding type_tags_def reference_tags_def record_tags_def
  by (elim UnE insertE emptyE) (simp_all add: obj_head_def tag__is_tag_type_def tag__is_type_def tag__is_union_def
      tag__is_struct_def tag__is_typedef_def tag__is_enumeration_def)

lemma table_entry_at: "pt_ok pt \<Longrightarrow> pt_at pt (unat i) = Some x \<Longrightarrow> ptr_table__entry pt i = Inr (Some x)"
  using load_entry_at[of pt i] by (auto simp: ptr_table__entry_def pt_at_def word_less_nat_alt word_le_nat_alt split: if_splits)

lemma found_entry:
  assumes i: "inv s" and l: "loaded_entry s c a" and t: "di_tag (die_info c) \<in> type_tags" and off: "di_offset (die_info c) \<noteq> 0"
  obtains d where "found s \<lparr> from_types = False, ref_off = di_offset (die_info c) \<rparr> = Some d"
    and "d < length (ls_dtags s)" and "dt_id (dtag_at s d) = di_offset (die_info c)" and "numbered s d"
proof -
  let ?off = "di_offset (die_info c)"
  from l obtain d0 where st: "a < length (ls_objs s)" "o_tag (obj_at s a) = di_tag (die_info c)" "o_priv (obj_at s a) = Some d0"
    "dt_id (dtag_at s d0) = ?off" and he: "has_entry s a" by (auto simp: loaded_entry_def entered_def stands_for_def)
  have "is_type s a" by (rule type_tags_is_type) (simp add: st t)
  with he obtain k where "pt_at (ls_types_table s) k = Some a" by (auto simp: has_entry_def)
  with i st(3) have "hashed s d0" by (auto simp: inv_but_def)
  then have b: "d0 \<in> set (ls_hash_types s ! bucket_of ?off)" by (simp add: hashed_def st)
  have hk: "hash_ok s" using i by (simp add: inv_but_def)
  then have len: "length (ls_hash_types s) = 256" and all: "\<forall>b \<in> set (ls_hash_types s). \<forall>d \<in> set b. d < length (ls_dtags s)"
    by (auto simp: hash_ok_def)
  let ?find = "find (\<lambda>d. dt_id (dtag_at s d) = ?off) (ls_hash_types s ! bucket_of ?off)"
  have f: "found s \<lparr> from_types = False, ref_off = ?off \<rparr> = ?find"
    using hashtags__find_run[OF len all, of ?off] off by (simp add: found_def dwarf_cu__find_type_by_ref_def)
  have "?find \<noteq> None" using b st(4) by (auto simp: find_None_iff)
  then obtain d where d: "?find = Some d" by blast
  then have dd: "dt_id (dtag_at s d) = ?off" "d \<in> set (ls_hash_types s ! bucket_of ?off)" by (auto simp: find_Some_iff)
  have bk: "ls_hash_types s ! bucket_of ?off \<in> set (ls_hash_types s)" using len bucket_of_less[of ?off] by simp
  from i bk dd(2) have "numbered s d" by (auto simp: inv_but_def)
  with that[of d] f d dd bk all show thesis by auto
qed

lemma num_written_resolved:
  assumes i: "inv s" and rc: "recoded s s'" and tk: "tok s'" and l: "loaded_entry s c x" and t: "di_tag (die_info c) \<in> type_tags"
    and off: "di_offset (die_info c) \<noteq> 0" and few: "pt_nr_entries (ls_types_table s') \<le> 65536"
    and a: "a < length (ls_objs s)" "o_priv (obj_at s a) = Some e" "dt_type (dtag_at s e) = attr_type di DW_AT_type"
    and ref: "attr_type di DW_AT_type = \<lparr> from_types = False, ref_off = di_offset (die_info c) \<rparr>"
    and w: "num_written s' a"
  shows "resolved s' a di"
proof -
  from found_entry[OF i l t off] obtain d where f: "found s (attr_type di DW_AT_type) = Some d" and d: "d < length (ls_dtags s)"
    "dt_id (dtag_at s d) = di_offset (die_info c)" "numbered s d" unfolding ref by blast
  have "refers s a = Some d" using a f by (simp add: refers_def)
  with w want_recoded[OF rc a(1)] have ty: "o_type (obj_at s' a) = dt_small_id (dtag_at s d)"
    by (simp add: num_written_def want_def)
  have le: "pt_le (ls_types_table s) (ls_types_table s')" using rc by (simp add: recoded_def)
  then have "unat (pt_nr_entries (ls_types_table s)) \<le> 65536" using few by (auto simp: pt_le_def word_le_nat_alt)
  with d(3) have "pt_at (ls_types_table s) (unat (dt_small_id (dtag_at s d))) = Some (dt_tag (dtag_at s d))"
    by (simp add: numbered_def)
  moreover have "unat (ucast w :: u32) = unat w" for w :: u16
    by (simp add: unsigned_ucast_eq take_bit_nat_eq_self_iff order_less_le_trans[OF unsigned_less])
  ultimately have "pt_at (ls_types_table s) (unat (ucast (o_type (obj_at s' a)) :: u32)) = Some (dt_tag (dtag_at s d))"
    by (simp add: ty)
  from pt_at_le[OF le this] have "pt_at (ls_types_table s') (unat (ucast (o_type (obj_at s' a)) :: u32)) = Some (dt_tag (dtag_at s d))" .
  moreover have "pt_ok (ls_types_table s')" using tk by (simp add: tok_def)
  ultimately have e: "ptr_table__entry (ls_types_table s') (ucast (o_type (obj_at s' a))) = Inr (Some (dt_tag (dtag_at s d)))"
    by (rule table_entry_at[rotated])
  have "links s" using i by (simp add: inv_but_def)
  from links_dtag[OF this d(1)] have x: "dt_tag (dtag_at s d) < length (ls_objs s)" "o_priv (obj_at s (dt_tag (dtag_at s d))) = Some d" by auto
  then have "o_priv (obj_at s' (dt_tag (dtag_at s d))) = Some d" "dtag_at s' d = dtag_at s d"
    using rc by (simp_all add: recoded_def)
  then show ?thesis using d(2) by (simp add: resolved_def e at_offset_def ref)
qed

lemma inv_tok: "inv s \<Longrightarrow> tok s"
  by (simp add: inv_but_def unit_tables_ok_def tok_def)

definition whole_unit :: "die \<Rightarrow> lst \<Rightarrow> lst \<Rightarrow> bool" where
  \<comment> \<open>a load that ended well, with the state between the passes\<close>
  "whole_unit die s1 s' \<longleftrightarrow> inv s1 \<and> recoded s1 s' \<and> tok s' \<and>
     (\<forall>c \<in> set (die_children die). di_tag (die_info c) \<in> type_tags \<longrightarrow>
        (\<exists>a. loaded_entry s1 c a \<and> tag_done s1 s' a))"

lemma process_and_recode_run:
  assumes i: "inv s" and r: "die__process_and_recode die s = Some (Inr (0, s'))" and t: "di_tag (die_info die) \<in> unit_tags"
  obtains s1 where "whole_unit die s1 s'"
proof -
  from r[unfolded die__process_and_recode_def] obtain e s1 where p: "stepL (die__process die) s = Some (Inr (e, s1))"
    and q: "(if e \<noteq> 0 then stepL (retL e) else cu__recode_dwarf_types) s1 = Some (Inr (0, s'))" by (rule bindLR_E)
  from die__process_run[OF p[unfolded stepL_run] i t] have 1: "e = 0" "inv s1"
    "\<And>c. c \<in> set (die_children die) \<Longrightarrow> di_tag (die_info c) \<in> supported \<Longrightarrow> \<exists>a. loaded_entry s1 c a" by auto
  from q 1(1) have "cu__recode_dwarf_types s1 = Some (Inr (0, s'))" by simp
  from recode_run[OF inv_tok[OF 1(2)] this] have 2: "tok s'" "recoded s1 s'"
    "\<And>k a. 1 \<le> k \<Longrightarrow> pt_at (ls_types_table s1) k = Some a \<Longrightarrow> tag_done s1 s' a" by auto
  have "\<exists>a. loaded_entry s1 c a \<and> tag_done s1 s' a" if c: "c \<in> set (die_children die)" "di_tag (die_info c) \<in> type_tags" for c
  proof -
    from 1(3)[OF c(1)] c(2) type_tags_supported obtain a where l: "loaded_entry s1 c a" by auto
    then have "o_tag (obj_at s1 a) \<in> type_tags" and he: "has_entry s1 a" using c(2) by (auto simp: loaded_entry_def entered_def stands_for_def)
    with type_tags_is_type obtain k where k: "pt_at (ls_types_table s1) k = Some a" by (auto simp: has_entry_def)
    have "pt_at (ls_types_table s1) 0 = None" using 1(2) by (simp add: inv_but_def unit_tables_ok_def)
    with k have "1 \<le> k" by (cases k) auto
    from 2(3)[OF this k] l show ?thesis by blast
  qed
  with that 1(2) 2(1,2) show thesis by (auto simp: whole_unit_def)
qed

lemma entry_attr_type: "di_tag di \<in> type_tags \<or> di_tag di = DW_TAG_member \<Longrightarrow> die_type di = attr_type di DW_AT_type"
  by (auto simp: die_type_def type_tags_def reference_tags_def record_tags_def)

lemma stands_for_offset:
  assumes "stands_for s a di" and "recoded s s'"
  shows "at_offset s' a (di_offset di)" and "o_tag (obj_at s' a) = di_tag di"
  using assms by (auto simp: stands_for_def recoded_def at_offset_def)

lemma refers_into_resolved:
  assumes w: "whole_unit die s1 s'" and few: "pt_nr_entries (ls_types_table s') \<le> 65536"
    and st: "stands_for s1 a di" and t: "di_tag di \<in> type_tags \<or> di_tag di = DW_TAG_member"
    and wr: "num_written s' a" and ref: "refers_into (die_children die) di"
  shows "resolved s' a di"
proof -
  from ref obtain c where c: "c \<in> set (die_children die)" "di_tag (die_info c) \<in> type_tags" "di_offset (die_info c) \<noteq> 0"
    "attr_type di DW_AT_type = \<lparr> from_types = False, ref_off = di_offset (die_info c) \<rparr>" by (auto simp: refers_into_def)
  from w c(1,2) obtain x where x: "loaded_entry s1 c x" by (auto simp: whole_unit_def)
  have i: "inv s1" "recoded s1 s'" "tok s'" using w by (simp_all add: whole_unit_def)
  have "di_tag di \<noteq> DW_TAG_inlined_subroutine" using t by (auto simp: type_tags_def reference_tags_def record_tags_def)
  with st entry_attr_type[OF t] obtain e where a: "a < length (ls_objs s1)" "o_priv (obj_at s1 a) = Some e"
    "dt_type (dtag_at s1 e) = attr_type di DW_AT_type" by (auto simp: stands_for_def)
  from num_written_resolved[OF i x c(2,3) few a c(4) wr] show ?thesis .
qed

lemma plain_reference:
  assumes "stands_for s a di" and "di_tag di \<in> reference_tags"
  shows "plain (obj_at s a)"
  using assms by (cases "o_body (obj_at s a)") (auto simp: stands_for_def plain_def)

lemma plain_member_tag:
  assumes "loaded_member s m di" and "di_tag di = DW_TAG_member"
  shows "plain (obj_at s m) \<longleftrightarrow> (ucast (attr_numeric di DW_AT_bit_size) :: u8) = 0" and "is_member (obj_at s m)"
  using assms by (cases "o_body (obj_at s m)"; auto simp: loaded_member_def stands_for_def plain_def is_member_def member_of_def
      split: sum.splits)+

lemma record_is_scope:
  assumes "o_tag (obj_at s a) \<in> record_tags"
  shows "is_scope s a"
  using assms unfolding record_tags_def is_scope_def
  by (elim insertE emptyE) (simp_all add: obj_head_def tag_kind_defs)

lemma entry_in_table:
  assumes i: "inv s" and st: "stands_for s a di" and he: "has_entry s a" and t: "di_tag di \<in> type_tags"
  shows "\<exists>i. ptr_table__entry (ls_types_table s) i = Inr (Some a)"
proof -
  have "is_type s a" using st t by (intro type_tags_is_type) (simp add: stands_for_def)
  with he obtain k where k: "pt_at (ls_types_table s) k = Some a" by (auto simp: has_entry_def)
  then have "k < unat (pt_nr_entries (ls_types_table s))" by (simp add: pt_at_def split: if_splits)
  then have "unat (of_nat k :: u32) = k" using unsigned_less[of "pt_nr_entries (ls_types_table s)", where 'a = nat]
    by (simp add: unat_of_nat)
  with k have "ptr_table__entry (ls_types_table s) (of_nat k) = Inr (Some a)"
    using i by (intro table_entry_at) (simp_all add: inv_but_def unit_tables_ok_def)
  then show ?thesis by blast
qed

lemma entry_recoded:
  assumes "recoded s s'" and "pt_ok (ls_types_table s)" and "pt_ok (ls_types_table s')"
    and "ptr_table__entry (ls_types_table s) i = Inr (Some a)"
  shows "ptr_table__entry (ls_types_table s') i = Inr (Some a)"
proof -
  have i: "i < pt_nr_entries (ls_types_table s)" using assms(4) by (auto simp: ptr_table__entry_def not_le split: if_splits)
  with assms(4) load_entry_at[OF assms(2) i] have "pt_at (ls_types_table s) (unat i) = Some a"
    by (simp add: ptr_table__entry_def not_le[symmetric] del: not_le)
  from pt_at_le[OF _ this] assms(1) have "pt_at (ls_types_table s') (unat i) = Some a" by (simp add: recoded_def)
  with table_entry_at[OF assms(3)] show ?thesis .
qed

lemma void_stays:
  assumes rc: "recoded s s'" and st: "stands_for s a di" and t: "di_tag di \<in> type_tags \<or> di_tag di = DW_TAG_member"
    and p: "plain (obj_at s a)" and v: "attr_type di DW_AT_type = null_ref"
  shows "o_type (obj_at s' a) = 0"
proof -
  have "di_tag di \<noteq> DW_TAG_inlined_subroutine" using t by (auto simp: type_tags_def reference_tags_def record_tags_def)
  with st entry_attr_type[OF t] v obtain e where a: "a < length (ls_objs s)" "o_priv (obj_at s a) = Some e" "o_type (obj_at s a) = 0"
    "dt_type (dtag_at s e) = null_ref" by (auto simp: stands_for_def)
  then have "want s a = 0" by (simp add: want_def refers_def found_void)
  with recoded_obj(7)[OF rc a(1) p] a(3) show ?thesis by auto
qed

lemma member_resolved:
  assumes w: "whole_unit die s1 s'" and few: "pt_nr_entries (ls_types_table s') \<le> 65536"
    and sc: "is_scope s1 a" "namespace_tags (obj_at s1 a) = Inr ts" "scope_written s1 a s'"
    and m: "m \<in> set ts" and ld: "loaded_member s1 m di" and tag: "di_tag di = DW_TAG_member"
  shows "at_offset s' m (di_offset di)" and "member_of di (o_body (obj_at s' m))"
    and "(ucast (attr_numeric di DW_AT_bit_size) :: u8) = 0 \<Longrightarrow> refers_into (die_children die) di \<Longrightarrow> resolved s' m di"
proof -
  have rc: "recoded s1 s'" using w by (simp add: whole_unit_def)
  have st: "stands_for s1 m di" using ld by (simp add: loaded_member_def)
  then have l: "m < length (ls_objs s1)" by (simp add: stands_for_def)
  show "at_offset s' m (di_offset di)" using stands_for_offset[OF st rc] by blast
  show "member_of di (o_body (obj_at s' m))"
    using recoded_obj(3)[OF rc l plain_member_tag(2)[OF ld tag]] ld by (simp add: loaded_member_def)
  assume "(ucast (attr_numeric di DW_AT_bit_size) :: u8) = 0" and ref: "refers_into (die_children die) di"
  then have p: "plain (obj_at s1 m)" using plain_member_tag(1)[OF ld tag] by simp
  have "num_written s' m" using sc m l p by (simp add: scope_written_def)
  from refers_into_resolved[OF w few st _ this ref] tag show "resolved s' m di" by blast
qed

end
