(* ===== verification/Dwarf_Properties.thy ===== *)
theory Dwarf_Properties
  imports Dwarf_Unit
begin

text \<open>
  The properties of the loader of debug information (\<^verbatim>\<open>src/convert/dwarves/dwarf_loader.c\<close>), each
  with a witness that loads a small unit: a pointer, the structure it points to, and a base type.
\<close>

section \<open>A unit to load\<close>

definition ex_attribute :: "u32 \<Rightarrow> u32 \<Rightarrow> u64 option \<Rightarrow> u64 option \<Rightarrow> dwarf_attribute" where
  "ex_attribute name form value ref = \<lparr> da_name = name, da_form = form, da_addr = None, da_udata = value, da_flag = None,
     da_block = None, da_string = None, da_ref = ref, da_ops = None \<rparr>"

definition ex_info :: "u64 \<Rightarrow> u16 \<Rightarrow> dwarf_attribute list \<Rightarrow> die_info" where
  "ex_info off tag attrs = \<lparr> di_offset = off, di_tag = tag, di_attrs = attrs, di_lowpc = None, di_highpc = None, di_ranges = [],
     di_decl_file = None, di_decl_line = 0 \<rparr>"

definition ex_type_ref :: "u64 \<Rightarrow> dwarf_attribute" where
  "ex_type_ref off = ex_attribute DW_AT_type 0x13 None (Some off)"

definition ex_at :: "u64 \<Rightarrow> dwarf_attribute" where
  "ex_at off = ex_attribute DW_AT_data_member_location DW_FORM_data1 (Some off) None"

definition ex_int_die :: die where
  "ex_int_die = Die (ex_info 0x20 DW_TAG_base_type []) []"

definition ex_pointer :: die where
  "ex_pointer = Die (ex_info 0x40 DW_TAG_pointer_type [ex_type_ref 0x30]) []"

definition ex_struct :: die where
  "ex_struct = Die (ex_info 0x30 DW_TAG_structure_type [])
     [Die (ex_info 0x34 DW_TAG_member [ex_type_ref 0x40, ex_at 0]) [], Die (ex_info 0x38 DW_TAG_member [ex_type_ref 0x20, ex_at 8]) []]"

definition ex_unit :: die where
  "ex_unit = Die (ex_info 0x10 DW_TAG_compile_unit []) [ex_pointer, ex_struct, ex_int_die]"

definition ex_empty_state :: lst where
  "ex_empty_state = \<lparr> ls_objs = [], ls_dtags = [], ls_strings = strings__new, ls_tags_warned = replicate 66 False,
     ls_gnu_tags_warned = replicate 135 False, ls_last_decl_file = None, ls_last_decl_file_idx = 0, ls_hash_tags = [],
     ls_hash_types = [], ls_type_unit = No_Type_Unit, ls_types_table = ptr_table__init, ls_functions_table = ptr_table__init,
     ls_tags_table = ptr_table__init, ls_tags = [], ls_functions = [], ls_name = '''', ls_addr_size = 8, ls_language = 0,
     ls_extra_dbg_info = False, ls_has_addr_info = False, ls_table_alloc = (\<lambda>_. True), ls_string_alloc = (\<lambda>_. True),
     ls_node_alloc = True, ls_stale = (\<lambda>_. 0), ls_stray = (\<lambda>_. None) \<rparr>"

definition ex_loads :: bool where
  "ex_loads \<longleftrightarrow> (case new_unit True None No_Type_Unit ''unit'' 8 ex_empty_state of
       Inr (True, s) \<Rightarrow> (case die__process_and_recode ex_unit s of
           Some (Inr (e, s')) \<Rightarrow> e = 0 \<and> pt_nr_entries (ls_types_table s') \<le> 65536
         | _ \<Rightarrow> False)
     | _ \<Rightarrow> False)"

lemma ex_loads_holds: ex_loads
  by code_simp

lemma ex_load:
  obtains s s' where "new_unit True None No_Type_Unit ''unit'' 8 ex_empty_state = Inr (True, s)"
    and "die__process_and_recode ex_unit s = Some (Inr (0, s'))" and "pt_nr_entries (ls_types_table s') \<le> 65536"
proof -
  from ex_loads_holds obtain s where n: "new_unit True None No_Type_Unit ''unit'' 8 ex_empty_state = Inr (True, s)"
    and p: "case die__process_and_recode ex_unit s of
           Some (Inr (e, s')) \<Rightarrow> e = 0 \<and> pt_nr_entries (ls_types_table s') \<le> 65536
         | _ \<Rightarrow> False"
    unfolding ex_loads_def by (auto split: sum.split_asm prod.split_asm bool.split_asm)
  from p obtain r where r: "die__process_and_recode ex_unit s = Some r" by (cases "die__process_and_recode ex_unit s") auto
  with p n that show thesis by (cases r) auto
qed

lemma ex_empty_state_ok: "links ex_empty_state" "ls_table_alloc ex_empty_state = (\<lambda>_. True)"
  by (simp_all add: links_def ex_empty_state_def)

lemma ex_unit_ok: "di_tag (die_info ex_unit) \<in> unit_tags" "die_children ex_unit = [ex_pointer, ex_struct, ex_int_die]"
  by (simp_all add: ex_unit_def ex_info_def unit_tags_def)

lemma ex_tags: "di_tag (die_info ex_pointer) \<in> type_tags" "di_tag (die_info ex_pointer) \<in> reference_tags"
  "di_tag (die_info ex_struct) \<in> record_tags" "di_tag (die_info ex_struct) \<in> type_tags" "di_tag (die_info ex_int_die) \<in> type_tags"
  by (simp_all add: ex_pointer_def ex_struct_def ex_int_die_def ex_info_def type_tags_def reference_tags_def record_tags_def)

lemma ex_refers: "refers_into (die_children ex_unit) (die_info ex_pointer)"
  by (simp add: ex_unit_def ex_pointer_def ex_struct_def ex_int_die_def ex_info_def refers_into_def type_tags_def record_tags_def
      attr_type_def dwarf_attr_def ex_type_ref_def ex_attribute_def)

section \<open>The first pass\<close>

text \<open>
  C9: The first pass over a new unit never fails with an error code, as long as there is memory:
  it returns 0, and afterwards tags and shadow records refer to each other, every type in the
  table of types is in the hash table under its offset, and every type found there has as its
  number its own place in the table of types (\<^verbatim>\<open>inv_but {}\<close>). Every type that is a child of the
  unit has such a tag, with the tag and the offset of its entry.
\<close>
theorem first_pass_enters:
  assumes "links s0" and "ls_table_alloc s0 = (\<lambda>_. True)"
    and "new_unit alloc conf tu name pointer_size s0 = Inr (True, s)"
    and "di_tag (die_info die) \<in> unit_tags"
    and "die__process die s = Inr (e, s')"
  shows "e = 0 \<and> inv_but {} s' \<and> (\<forall>c \<in> set (die_children die). di_tag (die_info c) \<in> type_tags \<longrightarrow>
    (\<exists>i a. ptr_table__entry (ls_types_table s') i = Inr (Some a) \<and> o_tag (obj_at s' a) = di_tag (die_info c) \<and>
       at_offset s' a (di_offset (die_info c))))"
proof -
  have i: "inv s" using new_unit_inv[OF assms(1-3)] by blast
  note 1 = die__process_run[OF assms(5) i assms(4)]
  have "\<exists>i a. ptr_table__entry (ls_types_table s') i = Inr (Some a) \<and> o_tag (obj_at s' a) = di_tag (die_info c) \<and>
       at_offset s' a (di_offset (die_info c))"
    if "c \<in> set (die_children die)" "di_tag (die_info c) \<in> type_tags" for c
  proof -
    from 1 that type_tags_supported obtain a where l: "loaded_entry s' c a" by blast
    then have st: "stands_for s' a (die_info c)" and he: "has_entry s' a" by (auto simp: loaded_entry_def entered_def)
    from entry_in_table[OF _ st he that(2)] 1 obtain i where "ptr_table__entry (ls_types_table s') i = Inr (Some a)" by blast
    with stands_for_offset[OF st recoded_refl] show ?thesis by blast
  qed
  with 1 show ?thesis by blast
qed

theorem first_pass_enters_witness:
  "\<exists>s e s'. die__process ex_unit s = Inr (e, s') \<and> e = 0 \<and> inv_but {} s' \<and>
     (\<exists>i a. ptr_table__entry (ls_types_table s') i = Inr (Some a) \<and> o_tag (obj_at s' a) = DW_TAG_structure_type \<and> at_offset s' a 0x30)"
proof -
  obtain s s1 where n: "new_unit True None No_Type_Unit ''unit'' 8 ex_empty_state = Inr (True, s)"
    and p: "die__process_and_recode ex_unit s = Some (Inr (0, s1))" by (rule ex_load)
  from p obtain e s' where r: "die__process ex_unit s = Inr (e, s')"
    unfolding die__process_and_recode_def by (auto elim: bindLR_E simp: stepL_run)
  have "ex_struct \<in> set (die_children ex_unit)" by (simp add: ex_unit_ok)
  with first_pass_enters[OF ex_empty_state_ok n ex_unit_ok(1) r] ex_tags(4) r
  have "\<exists>i a. ptr_table__entry (ls_types_table s') i = Inr (Some a) \<and> o_tag (obj_at s' a) = di_tag (die_info ex_struct) \<and>
       at_offset s' a (di_offset (die_info ex_struct))" "e = 0" "inv_but {} s'" by blast+
  with r show ?thesis by (simp add: ex_struct_def ex_info_def) blast
qed

section \<open>Both passes\<close>

text \<open>
  C8: After a unit with at most 65536 types has been loaded, every entry of a supported type that is
  a child of the unit's own entry has a tag in the table of types. If it is a type that refers to
  another (a pointer, qualifier, typedef, array or function type) and the entry it refers to is a
  supported type that is a child of the same unit's entry, before or after it
  (\<^const>\<open>refers_into\<close>), the 16-bit number the second pass wrote finds, through
  \<^verbatim>\<open>ptr_table__entry\<close>, the tag made for that entry; and if it refers to nothing, the number is 0,
  the number of \<^verbatim>\<open>void\<close>. Nothing is said of entries nested deeper, of references to nested or
  unsupported entries, and of references into the type unit, whose numbers the loader writes although
  they belong to another table (\<^verbatim>\<open>dwarf_loader.c\<close>, line 1704).
\<close>
theorem loaded_types_resolved:
  assumes "links s0" and "ls_table_alloc s0 = (\<lambda>_. True)"
    and "new_unit alloc conf tu name pointer_size s0 = Inr (True, s)"
    and "die__process_and_recode die s = Some (Inr (0, s'))"
    and "di_tag (die_info die) \<in> unit_tags" and "pt_nr_entries (ls_types_table s') \<le> 65536"
    and "c \<in> set (die_children die)" and "di_tag (die_info c) \<in> type_tags"
  shows "\<exists>i a. ptr_table__entry (ls_types_table s') i = Inr (Some a) \<and> o_tag (obj_at s' a) = di_tag (die_info c) \<and>
    at_offset s' a (di_offset (die_info c)) \<and>
    (di_tag (die_info c) \<in> reference_tags \<and> refers_into (die_children die) (die_info c) \<longrightarrow> resolved s' a (die_info c)) \<and>
    (di_tag (die_info c) \<in> reference_tags \<and> attr_type (die_info c) DW_AT_type = null_ref \<longrightarrow> o_type (obj_at s' a) = 0)"
proof -
  let ?di = "die_info c"
  have i: "inv s" using new_unit_inv[OF assms(1-3)] by blast
  from process_and_recode_run[OF i assms(4,5)] obtain s1 where w: "whole_unit die s1 s'" .
  from w assms(7,8) obtain a where l: "loaded_entry s1 c a" and d: "tag_done s1 s' a" by (auto simp: whole_unit_def)
  have i1: "inv s1" and rc: "recoded s1 s'" using w by (simp_all add: whole_unit_def)
  from l have st: "stands_for s1 a ?di" and he: "has_entry s1 a" by (auto simp: loaded_entry_def entered_def)
  from entry_in_table[OF i1 st he assms(8)] obtain k where "ptr_table__entry (ls_types_table s1) k = Inr (Some a)" by blast
  from entry_recoded[OF rc _ _ this] i1 w have k: "ptr_table__entry (ls_types_table s') k = Inr (Some a)"
    by (simp add: whole_unit_def inv_but_def unit_tables_ok_def tok_def)
  have a: "a < length (ls_objs s1)" "o_priv (obj_at s1 a) \<noteq> None" using st by (auto simp: stands_for_def)
  have r: "resolved s' a ?di" if "di_tag ?di \<in> reference_tags" "refers_into (die_children die) ?di"
  proof -
    have "plain (obj_at s1 a)" by (rule plain_reference[OF st that(1)])
    with d a have "num_written s' a" by (simp add: tag_done_def)
    from refers_into_resolved[OF w assms(6) st _ this that(2)] assms(8) show ?thesis by blast
  qed
  have v: "o_type (obj_at s' a) = 0" if "di_tag ?di \<in> reference_tags" "attr_type ?di DW_AT_type = null_ref"
    by (rule void_stays[OF rc st _ plain_reference[OF st that(1)] that(2)]) (use assms(8) in blast)
  from k stands_for_offset[OF st rc] r v show ?thesis by blast
qed

theorem loaded_types_resolved_witness:
  "\<exists>s s' i a. die__process_and_recode ex_unit s = Some (Inr (0, s')) \<and> ptr_table__entry (ls_types_table s') i = Inr (Some a) \<and>
     o_tag (obj_at s' a) = DW_TAG_pointer_type \<and> at_offset s' a 0x40 \<and> resolved s' a (die_info ex_pointer)"
proof -
  obtain s s' where n: "new_unit True None No_Type_Unit ''unit'' 8 ex_empty_state = Inr (True, s)"
    and p: "die__process_and_recode ex_unit s = Some (Inr (0, s'))" and few: "pt_nr_entries (ls_types_table s') \<le> 65536" by (rule ex_load)
  have c: "ex_pointer \<in> set (die_children ex_unit)" by (simp add: ex_unit_ok)
  from loaded_types_resolved[OF ex_empty_state_ok n p ex_unit_ok(1) few c ex_tags(1)] ex_refers ex_tags(2)
  obtain i a where "ptr_table__entry (ls_types_table s') i = Inr (Some a)" "o_tag (obj_at s' a) = di_tag (die_info ex_pointer)"
    "at_offset s' a (di_offset (die_info ex_pointer))" "resolved s' a (die_info ex_pointer)" by blast
  moreover have "di_tag (die_info ex_pointer) = DW_TAG_pointer_type" "di_offset (die_info ex_pointer) = 0x40"
    by (simp_all add: ex_pointer_def ex_info_def)
  ultimately show ?thesis using p by metis
qed

text \<open>
  C7: After a unit with at most 65536 types has been loaded, the tag of every structure, class or
  union that is a child of the unit's entry lists tags for exactly its member entries, in their
  order. Each has the byte offset, bit offset, width and constant the entry gives
  (\<^const>\<open>member_given\<close>, stated without the loader's readers): the location is the number of a constant
  form, or the constant of an expression that adds one, decoded from its variable length encoding, or
  0 where the entry has none; where it is written as \<^verbatim>\<open>DW_FORM_data4\<close> or \<^verbatim>\<open>DW_FORM_data8\<close>
  the tag has the offset 0, which is not what the entry says (\<^verbatim>\<open>dwarf_loader.c\<close>, line 313). A
  member of width 0, that is no bit field, and whose type is a supported type among the children of
  the same unit's entry (\<^const>\<open>refers_into\<close>) has a number that finds the tag of that type.
\<close>
theorem loaded_members_resolved:
  assumes "links s0" and "ls_table_alloc s0 = (\<lambda>_. True)"
    and "new_unit alloc conf tu name pointer_size s0 = Inr (True, s)"
    and "die__process_and_recode die s = Some (Inr (0, s'))"
    and "di_tag (die_info die) \<in> unit_tags" and "pt_nr_entries (ls_types_table s') \<le> 65536"
    and "c \<in> set (die_children die)" and "di_tag (die_info c) \<in> record_tags"
  shows "\<exists>a ts. at_offset s' a (di_offset (die_info c)) \<and> o_tag (obj_at s' a) = di_tag (die_info c) \<and>
    namespace_tags (obj_at s' a) = Inr ts \<and>
    list_all2 (\<lambda>m di. at_offset s' m (di_offset di) \<and> member_given di (o_body (obj_at s' m)) \<and>
        (bit_width (o_body (obj_at s' m)) = 0 \<and> refers_into (die_children die) di \<longrightarrow> resolved s' m di))
      (member_tags s' ts) (member_entries (map die_info (die_children c)))"
proof -
  let ?di = "die_info c"
  have i: "inv s" using new_unit_inv[OF assms(1-3)] by blast
  from process_and_recode_run[OF i assms(4,5)] obtain s1 where w: "whole_unit die s1 s'" .
  have tt: "di_tag ?di \<in> type_tags" using assms(8) by (simp add: type_tags_def)
  from w assms(7) tt obtain a where l: "loaded_entry s1 c a" and d: "tag_done s1 s' a" by (auto simp: whole_unit_def)
  have rc: "recoded s1 s'" using w by (simp add: whole_unit_def)
  from l assms(8) have st: "stands_for s1 a ?di" and hm: "has_members s1 a (map die_info (die_children c))"
    by (auto simp: loaded_entry_def entered_def)
  from hm obtain ts where ts: "namespace_tags (obj_at s1 a) = Inr ts" and lm: "loaded_members s1 ts (map die_info (die_children c))"
    by (auto simp: has_members_def split: sum.split_asm)
  have a: "a < length (ls_objs s1)" "o_priv (obj_at s1 a) \<noteq> None" using st by (auto simp: stands_for_def)
  have sc: "is_scope s1 a" using st assms(8) by (intro record_is_scope) (simp add: stands_for_def)
  have ts': "namespace_tags (obj_at s' a) = Inr ts" using recoded_obj(5)[OF rc a(1) sc] ts by simp
  have sw: "scope_written s1 a s'" using d a by (simp add: tag_done_def)
  have "list_all2 (\<lambda>m di. at_offset s' m (di_offset di) \<and> member_given di (o_body (obj_at s' m)) \<and>
        (bit_width (o_body (obj_at s' m)) = 0 \<and> refers_into (die_children die) di \<longrightarrow> resolved s' m di))
      (member_tags s1 ts) (member_entries (map die_info (die_children c)))"
  proof (rule list.rel_mono_strong)
    show "list_all2 (loaded_member s1) (member_tags s1 ts) (member_entries (map die_info (die_children c)))"
      using lm by (simp add: loaded_members_def)
    fix m di assume m: "m \<in> set (member_tags s1 ts)" and "di \<in> set (member_entries (map die_info (die_children c)))"
      and ld: "loaded_member s1 m di"
    then have tag: "di_tag di = DW_TAG_member" by (simp add: member_entries_def)
    from m have mt: "m \<in> set ts" by (simp add: member_tags_def)
    note r = member_resolved[OF w assms(6) sc ts sw mt ld tag]
    show "at_offset s' m (di_offset di) \<and> member_given di (o_body (obj_at s' m)) \<and>
        (bit_width (o_body (obj_at s' m)) = 0 \<and> refers_into (die_children die) di \<longrightarrow> resolved s' m di)"
      using r(1,3) member_of_given[OF r(2)] by simp
  qed
  moreover have "member_tags s' ts = member_tags s1 ts" using lm rc
    unfolding member_tags_def loaded_members_def by (intro filter_cong) (auto simp: recoded_def)
  ultimately show ?thesis using stands_for_offset[OF st rc] ts' by auto
qed

lemma ex_member_given:
  assumes "member_given (ex_info off DW_TAG_member [ex_type_ref r, ex_at k]) b"
  shows "\<exists>cm accessibility. b = O_Member cm 0 accessibility \<and> cm_byte_offset cm = ucast k \<and> cm_bit_offset cm = ucast k * 8 \<and>
    cm_bitfield_size cm = 0"
  using assms by (auto simp: member_given_def member_location_def number_given_def dwarf_attr_def ex_info_def ex_type_ref_def
      ex_at_def ex_attribute_def)

lemma ex_member_refers: "off \<in> {0x40, 0x20} \<Longrightarrow> refers_into (die_children ex_unit) (ex_info a tag [ex_type_ref off, at])"
  by (auto simp: ex_unit_def ex_pointer_def ex_struct_def ex_int_die_def ex_info_def refers_into_def type_tags_def
      reference_tags_def record_tags_def attr_type_def dwarf_attr_def ex_type_ref_def ex_attribute_def)

theorem loaded_members_resolved_witness:
  "\<exists>s s' a ts m1 m2. die__process_and_recode ex_unit s = Some (Inr (0, s')) \<and> at_offset s' a 0x30 \<and>
     namespace_tags (obj_at s' a) = Inr ts \<and> member_tags s' ts = [m1, m2] \<and> at_offset s' m1 0x34 \<and> at_offset s' m2 0x38 \<and>
     (\<exists>cm1 acc1 cm2 acc2. o_body (obj_at s' m1) = O_Member cm1 0 acc1 \<and> cm_byte_offset cm1 = 0 \<and>
        o_body (obj_at s' m2) = O_Member cm2 0 acc2 \<and> cm_byte_offset cm2 = 8 \<and> cm_bit_offset cm2 = 64) \<and>
     resolved s' m1 (ex_info 0x34 DW_TAG_member [ex_type_ref 0x40, ex_at 0]) \<and>
     resolved s' m2 (ex_info 0x38 DW_TAG_member [ex_type_ref 0x20, ex_at 8])"
proof -
  obtain s s' where n: "new_unit True None No_Type_Unit ''unit'' 8 ex_empty_state = Inr (True, s)"
    and p: "die__process_and_recode ex_unit s = Some (Inr (0, s'))" and few: "pt_nr_entries (ls_types_table s') \<le> 65536" by (rule ex_load)
  have c: "ex_struct \<in> set (die_children ex_unit)" by (simp add: ex_unit_ok)
  let ?d1 = "ex_info 0x34 DW_TAG_member [ex_type_ref 0x40, ex_at 0]" and ?d2 = "ex_info 0x38 DW_TAG_member [ex_type_ref 0x20, ex_at 8]"
  have o: "di_offset (die_info ex_struct) = 0x30" by (simp add: ex_struct_def ex_info_def)
  have m: "member_entries (map die_info (die_children ex_struct)) = [?d1, ?d2]"
    by (simp add: ex_struct_def member_entries_def ex_info_def)
  from loaded_members_resolved[OF ex_empty_state_ok n p ex_unit_ok(1) few c ex_tags(3), unfolded m o]
  obtain a ts m1 m2 where r: "at_offset s' a 0x30" "namespace_tags (obj_at s' a) = Inr ts" "member_tags s' ts = [m1, m2]"
    and 1: "at_offset s' m1 (di_offset ?d1)" "member_given ?d1 (o_body (obj_at s' m1))"
      "bit_width (o_body (obj_at s' m1)) = 0 \<and> refers_into (die_children ex_unit) ?d1 \<longrightarrow> resolved s' m1 ?d1"
    and 2: "at_offset s' m2 (di_offset ?d2)" "member_given ?d2 (o_body (obj_at s' m2))"
      "bit_width (o_body (obj_at s' m2)) = 0 \<and> refers_into (die_children ex_unit) ?d2 \<longrightarrow> resolved s' m2 ?d2"
    by (auto simp only: list_all2_Cons2 list.rel_inject list_all2_Nil2)
  obtain cm1 acc1 where b1: "o_body (obj_at s' m1) = O_Member cm1 0 acc1" "cm_byte_offset cm1 = 0" "cm_bitfield_size cm1 = 0"
    using ex_member_given[OF 1(2)] by auto
  obtain cm2 acc2 where b2: "o_body (obj_at s' m2) = O_Member cm2 0 acc2" "cm_byte_offset cm2 = 8" "cm_bit_offset cm2 = 64"
    "cm_bitfield_size cm2 = 0"
    using ex_member_given[OF 2(2)] by auto
  have "resolved s' m1 ?d1" "resolved s' m2 ?d2"
    using 1(3) 2(3) ex_member_refers b1(1,3) b2(1,4) by (simp_all add: bit_width_def)
  moreover have "di_offset ?d1 = 0x34" "di_offset ?d2 = 0x38" by (simp_all add: ex_info_def)
  ultimately show ?thesis using p r 1(1) 2(1) b1(1,2) b2(1-3) by metis
qed

end
