(* ===== verification/Sfc_Curves.thy ===== *)
theory Sfc_Curves
  imports C_Numbers
begin

text \<open>
  The space-filling curves of \<^verbatim>\<open>sfctool.cc\<close>: the abstract class \<^verbatim>\<open>SFC\<close> with its subclasses
  \<^verbatim>\<open>SFC_Lines\<close>, \<^verbatim>\<open>SFC_Spiral\<close> and \<^verbatim>\<open>SFC_Hilbert\<close>. All members have the type \<^verbatim>\<open>unsigned\<close>,
  so every computation wraps at 32 bits. The theory shows that each curve visits every cell of a
  square exactly once; the locale \<open>space_filling\<close> states this contract for the painting loop.
\<close>

unbundle bit_operations_syntax

section \<open>The classes\<close>

record SFC_Lines =
  li_dim :: u32
  li_pos :: u32

record SFC_Spiral =
  sp_dim :: u32
  sp_x :: u32
  sp_y :: u32
  sp_state :: u32
  sp_nsteps :: u32
  sp_step :: u32

record SFC_Hilbert =
  hi_dim :: u32
  hi_pos :: u32

datatype SFC = Lines SFC_Lines | Spiral SFC_Spiral | Hilbert SFC_Hilbert

definition lines_reset :: "SFC_Lines \<Rightarrow> SFC_Lines" where
  "lines_reset c = c\<lparr>li_pos := 0\<rparr>"

definition lines_get_coords :: "SFC_Lines \<Rightarrow> (u32 \<times> u32) res" where
  "lines_get_coords c =
     (if li_dim c = 0 then Inl (UndefinedBehaviour ''division by zero'')
      else Inr (li_pos c mod li_dim c, li_pos c div li_dim c))"

definition lines_next :: "SFC_Lines \<Rightarrow> SFC_Lines" where
  "lines_next c = c\<lparr>li_pos := li_pos c + 1\<rparr>"

definition spiral_reset :: "SFC_Spiral \<Rightarrow> SFC_Spiral" where
  "spiral_reset c = c\<lparr>sp_state := 0, sp_nsteps := 1, sp_step := 0, sp_x := sp_dim c div 2, sp_y := sp_dim c div 2\<rparr>"

definition spiral_get_coords :: "SFC_Spiral \<Rightarrow> u32 \<times> u32" where
  "spiral_get_coords c = (sp_x c, sp_y c)"

definition spiral_move :: "SFC_Spiral \<Rightarrow> SFC_Spiral" where
  \<comment> \<open>the \<open>switch\<close> of \<open>next\<close>\<close>
  "spiral_move c =
     (if sp_state c = 0 then c\<lparr>sp_y := sp_y c - 1\<rparr>
      else if sp_state c = 1 then c\<lparr>sp_x := sp_x c - 1\<rparr>
      else if sp_state c = 2 then c\<lparr>sp_y := sp_y c + 1\<rparr>
      else if sp_state c = 3 then c\<lparr>sp_x := sp_x c + 1\<rparr>
      else c)"

definition spiral_next :: "SFC_Spiral \<Rightarrow> SFC_Spiral" where
  "spiral_next c =
     (let c1 = spiral_move c; c2 = c1\<lparr>sp_step := sp_step c1 + 1\<rparr>
      in if sp_step c2 = sp_nsteps c2 then
           (let c3 = c2\<lparr>sp_state := sp_state c2 + 1, sp_step := 0\<rparr>
            in if sp_state c3 = 2 then c3\<lparr>sp_nsteps := sp_nsteps c3 + 1\<rparr>
               else if sp_state c3 = 4 then c3\<lparr>sp_nsteps := sp_nsteps c3 + 1, sp_state := 0\<rparr>
               else c3)
         else c2)"

definition rot :: "u32 \<Rightarrow> u32 \<Rightarrow> u32 \<Rightarrow> u32 \<Rightarrow> u32 \<Rightarrow> u32 \<times> u32" where
  "rot n x y rx ry =
     (if ry = 0 then
        (let (x1, y1) = (if rx = 1 then (n - 1 - x, n - 1 - y) else (x, y)) in (y1, x1))
      else (x, y))"

partial_function (option) hilbert_loop :: "u32 \<Rightarrow> u32 \<Rightarrow> u32 \<Rightarrow> u32 \<Rightarrow> u32 \<Rightarrow> (u32 \<times> u32) option" where
  \<comment> \<open>with a dimension above \<open>2^31\<close> the step \<open>s\<close> wraps to 0 and the loop does not end\<close>
  "hilbert_loop dim s t x y =
     (if s < dim then
        (let rx = 1 AND (t div 2); ry = 1 AND (t XOR rx); (x1, y1) = rot s x y rx ry
         in hilbert_loop dim (s * 2) (t div 4) (x1 + s * rx) (y1 + s * ry))
      else Some (x, y))"

declare hilbert_loop.simps [code]

definition hilbert_reset :: "SFC_Hilbert \<Rightarrow> SFC_Hilbert" where
  "hilbert_reset c = c\<lparr>hi_pos := 0\<rparr>"

definition hilbert_get_coords :: "SFC_Hilbert \<Rightarrow> (u32 \<times> u32) option" where
  "hilbert_get_coords c = hilbert_loop (hi_dim c) 1 (hi_pos c) 0 0"

definition hilbert_next :: "SFC_Hilbert \<Rightarrow> SFC_Hilbert" where
  "hilbert_next c = c\<lparr>hi_pos := hi_pos c + 1\<rparr>"

text \<open>Construction and the virtual methods.\<close>

definition new_SFC_Lines :: "u32 \<Rightarrow> SFC" where
  "new_SFC_Lines dim = Lines \<lparr>li_dim = dim, li_pos = 0\<rparr>"

definition new_SFC_Spiral :: "u32 \<Rightarrow> SFC" where
  "new_SFC_Spiral dim = Spiral (spiral_reset
     \<lparr>sp_dim = dim, sp_x = 0, sp_y = 0, sp_state = 0, sp_nsteps = 0, sp_step = 0\<rparr>)"

definition new_SFC_Hilbert :: "u32 \<Rightarrow> SFC" where
  "new_SFC_Hilbert dim = Hilbert \<lparr>hi_dim = dim, hi_pos = 0\<rparr>"

fun sfc_reset :: "SFC \<Rightarrow> SFC" where
  "sfc_reset (Lines c) = Lines (lines_reset c)"
| "sfc_reset (Spiral c) = Spiral (spiral_reset c)"
| "sfc_reset (Hilbert c) = Hilbert (hilbert_reset c)"

fun sfc_get_coords :: "SFC \<Rightarrow> (u32 \<times> u32) res option" where
  "sfc_get_coords (Lines c) = Some (lines_get_coords c)"
| "sfc_get_coords (Spiral c) = Some (Inr (spiral_get_coords c))"
| "sfc_get_coords (Hilbert c) = map_option Inr (hilbert_get_coords c)"

fun sfc_next :: "SFC \<Rightarrow> SFC" where
  "sfc_next (Lines c) = Lines (lines_next c)"
| "sfc_next (Spiral c) = Spiral (spiral_next c)"
| "sfc_next (Hilbert c) = Hilbert (hilbert_next c)"

section \<open>The Hilbert curve\<close>

text \<open>
  Level \<open>k\<close> of the curve: the base-4 digit number \<open>k\<close> of the position chooses the quadrant, in which
  the curve of the level below is placed unchanged, mirrored or rotated.
\<close>

definition hil_place :: "nat \<Rightarrow> nat \<Rightarrow> nat \<times> nat \<Rightarrow> nat \<times> nat" where
  "hil_place s q c = (case c of (x, y) \<Rightarrow>
     if q = 0 then (y, x) else if q = 1 then (x, y + s)
     else if q = 2 then (x + s, y + s) else (2 * s - 1 - y, s - 1 - x))"

fun hil :: "nat \<Rightarrow> nat \<Rightarrow> nat \<times> nat" where
  "hil 0 p = (0, 0)"
| "hil (Suc k) p = hil_place (2 ^ k) (p div 4 ^ k mod 4) (hil k p)"

lemma hil_place_range:
  "x < s \<Longrightarrow> y < s \<Longrightarrow> fst (hil_place s q (x, y)) < 2 * s \<and> snd (hil_place s q (x, y)) < 2 * s"
  by (auto simp: hil_place_def)

lemma hil_range: "fst (hil k p) < 2 ^ k \<and> snd (hil k p) < 2 ^ k"
proof (induction k)
  case (Suc k)
  then show ?case
    using hil_place_range[of "fst (hil k p)" "2 ^ k" "snd (hil k p)" "p div 4 ^ k mod 4"] by simp
qed simp

lemma hil_place_inj:
  assumes "hil_place s q (x, y) = hil_place s q' (x', y')" and "q < 4" "q' < 4"
    and "x < s" "y < s" "x' < s" "y' < s"
  shows "q = q' \<and> x = x' \<and> y = y'"
  using assms by (auto simp: hil_place_def split: if_splits)

lemma mod_power4_split: "(p :: nat) mod 4 ^ Suc k = p mod 4 ^ k + 4 ^ k * (p div 4 ^ k mod 4)"
  using mod_mult2_eq[of p "4 ^ k" 4] by (simp add: mult.commute)

lemma hil_inj: "hil k p = hil k p' \<Longrightarrow> p mod 4 ^ k = p' mod 4 ^ k"
proof (induction k)
  case (Suc k)
  have "p div 4 ^ k mod 4 = p' div 4 ^ k mod 4 \<and> fst (hil k p) = fst (hil k p') \<and> snd (hil k p) = snd (hil k p')"
    using Suc.prems hil_range[of k p] hil_range[of k p']
    by (intro hil_place_inj[of "2 ^ k"]) (auto simp: prod_eq_iff)
  then show ?case
    using Suc.IH by (simp only: mod_power4_split prod_eq_iff)
qed simp

text \<open>Consecutive positions of the curve are neighbouring cells.\<close>

definition neighbours :: "nat \<times> nat \<Rightarrow> nat \<times> nat \<Rightarrow> bool" where
  "neighbours c c' \<longleftrightarrow> (case (c, c') of ((x, y), (x', y')) \<Rightarrow>
     x = x' \<and> (y' = y + 1 \<or> y = y' + 1) \<or> y = y' \<and> (x' = x + 1 \<or> x = x' + 1))"

lemma hil_place_neighbours:
  "neighbours (x, y) (x', y') \<Longrightarrow> x < s \<Longrightarrow> y < s \<Longrightarrow> x' < s \<Longrightarrow> y' < s \<Longrightarrow>
     neighbours (hil_place s q (x, y)) (hil_place s q (x', y'))"
  by (auto simp: neighbours_def hil_place_def)

lemma hil_first: "p mod 4 ^ k = 0 \<Longrightarrow> hil k p = (0, 0)"
proof (induction k)
  case (Suc k)
  have "p mod 4 ^ k = 0" and "p div 4 ^ k mod 4 = 0"
    using Suc.prems by (simp_all add: mod_power4_split del: power_Suc)
  with Suc.IH show ?case by (simp add: hil_place_def)
qed simp

lemma hil_last: "p mod 4 ^ k = 4 ^ k - 1 \<Longrightarrow> hil k p = (2 ^ k - 1, 0)"
proof (induction k)
  case (Suc k)
  let ?q = "p div 4 ^ k mod 4"
  have eq: "p mod 4 ^ k + 4 ^ k * ?q = 4 * 4 ^ k - 1"
    using Suc.prems by (simp add: mod_power4_split del: power_Suc) simp
  have lt: "p mod 4 ^ k < 4 ^ k" "?q < 4" by simp_all
  have q: "?q = 3"
  proof (rule ccontr)
    assume "?q \<noteq> 3"
    with lt have "?q \<le> 2" by simp
    then have "4 ^ k * ?q \<le> 4 ^ k * 2" by (rule mult_le_mono2)
    with eq lt show False by linarith
  qed
  with eq have "p mod 4 ^ k = 4 ^ k - 1" by simp
  with Suc.IH q show ?case by (simp add: hil_place_def)
qed simp

lemma hil_cross:
  assumes q: "q < 3" and s: "0 < s"
  shows "neighbours (hil_place s q (s - 1, 0)) (hil_place s (Suc q) (0, 0))"
proof -
  from q consider "q = 0" | "q = 1" | "q = 2" by linarith
  then show ?thesis using s by cases (auto simp: neighbours_def hil_place_def)
qed

lemma Suc_div_mod:
  fixes p m :: nat
  assumes "0 < m"
  shows "(if p mod m = m - 1 then Suc p mod m = 0 \<and> Suc p div m = Suc (p div m)
          else Suc p mod m = Suc (p mod m) \<and> Suc p div m = p div m)"
  using assms by (auto simp: mod_Suc div_Suc)

lemma hil_neighbours: "Suc p mod 4 ^ k \<noteq> 0 \<Longrightarrow> neighbours (hil k p) (hil k (Suc p))"
proof (induction k)
  case (Suc k)
  show ?case
  proof (cases "p mod 4 ^ k = 4 ^ k - 1")
    case True
    then have step: "Suc p mod 4 ^ k = 0" "Suc p div 4 ^ k = Suc (p div 4 ^ k)"
      using Suc_div_mod[of "4 ^ k" p] by simp_all
    have q: "Suc (p div 4 ^ k) mod 4 \<noteq> 0"
      using Suc.prems step by (auto simp: mod_power4_split simp del: power_Suc)
    then have q': "Suc (p div 4 ^ k) mod 4 = Suc (p div 4 ^ k mod 4)" "p div 4 ^ k mod 4 < 3"
      by (auto simp: mod_Suc split: if_splits)
    show ?thesis
      using hil_cross[OF q'(2), of "2 ^ k"] hil_last[OF True] hil_first[OF step(1)] step(2) q'(1) by simp
  next
    case False
    then have step: "Suc p mod 4 ^ k \<noteq> 0" "Suc p div 4 ^ k = p div 4 ^ k"
      using Suc_div_mod[of "4 ^ k" p] by simp_all
    obtain x y x' y' where c: "hil k p = (x, y)" "hil k (Suc p) = (x', y')" by fastforce
    show ?thesis
      using Suc.IH[OF step(1)] hil_range[of k p] hil_range[of k "Suc p"] step(2) c
      by (auto intro: hil_place_neighbours)
  qed
qed simp

text \<open>The loop computes level \<open>k\<close>, the least one with \<open>dim \<le> 2 ^ k\<close>.\<close>

definition levels :: "u32 \<Rightarrow> nat \<Rightarrow> bool" where
  "levels dim k \<longleftrightarrow> k < 32 \<and> (\<forall>j \<le> k. 2 ^ j < unat dim \<longleftrightarrow> j < k)"

lemma one_and_of_bool: "1 AND (w :: u32) = of_bool (odd w)"
  by (simp add: one_and_eq mod_2_eq_odd)

lemma even_unat_iff: "even (unat (w :: u32)) \<longleftrightarrow> even w"
  using bit_unsigned_iff[of w 0, where ?'a = nat] by (simp add: bit_0)

lemma unat_p2: "j < 32 \<Longrightarrow> unat (2 ^ j :: u32) = 2 ^ j"
  using unat_of_nat[of "2 ^ j", where ?'a = 32] power_strict_increasing[of j 32 "2 :: nat"] by simp

lemma hilbert_digit:
  fixes t :: u32
  defines "rx \<equiv> 1 AND (t div 2)"
  shows "rx = of_bool (2 \<le> unat t mod 4)"
    and "1 AND (t XOR rx) = of_bool (unat t mod 4 = 1 \<or> unat t mod 4 = 2)"
proof -
  have odd_half: "odd (t div 2) \<longleftrightarrow> 2 \<le> unat t mod 4"
  proof -
    have "odd (t div 2) \<longleftrightarrow> odd (unat t div 2)"
      by (simp add: even_unat_iff[symmetric] unat_div)
    also have "\<dots> \<longleftrightarrow> 2 \<le> unat t mod 4" by presburger
    finally show ?thesis .
  qed
  then show "rx = of_bool (2 \<le> unat t mod 4)"
    by (simp add: rx_def one_and_of_bool)
  have "odd (t XOR rx) \<longleftrightarrow> odd (unat t) \<noteq> odd (t div 2)"
    unfolding rx_def one_and_of_bool by (auto simp: even_xor_iff even_unat_iff)
  also have "\<dots> \<longleftrightarrow> unat t mod 4 = 1 \<or> unat t mod 4 = 2"
    unfolding odd_half by presburger
  finally show "1 AND (t XOR rx) = of_bool (unat t mod 4 = 1 \<or> unat t mod 4 = 2)"
    by (simp add: one_and_of_bool)
qed

lemma hilbert_loop_step:
  assumes "x < 2 ^ j" "y < 2 ^ j"
    and "rx = of_bool (2 \<le> q)" "ry = of_bool (q = 1 \<or> q = 2)" and q: "q < 4"
    and "rot (2 ^ j) (of_nat x) (of_nat y) rx ry = (x1, y1)"
  shows "(x1 + 2 ^ j * rx, y1 + 2 ^ j * ry) =
    (of_nat (fst (hil_place (2 ^ j) q (x, y))), of_nat (snd (hil_place (2 ^ j) q (x, y))))"
proof -
  from q consider "q = 0" | "q = 1" | "q = 2" | "q = 3" by linarith
  then show ?thesis
  proof cases
    case 4
    then show ?thesis
      using assms by (auto simp: hil_place_def rot_def of_nat_diff algebra_simps)
  qed (use assms in \<open>auto simp: hil_place_def rot_def\<close>)
qed

lemma hilbert_loop_hil:
  assumes "levels dim k" and "j \<le> k" and "unat t = p div 4 ^ j"
  shows "hilbert_loop dim (2 ^ j) t (of_nat (fst (hil j p))) (of_nat (snd (hil j p))) =
    Some (of_nat (fst (hil k p)), of_nat (snd (hil k p)))"
  using assms(2,3)
proof (induction "k - j" arbitrary: j t)
  case 0
  with assms(1) have "\<not> 2 ^ j < unat dim" and "j < 32" by (simp_all add: levels_def)
  then have "\<not> (2 ^ j :: u32) < dim" by (simp add: word_less_nat_alt unat_p2)
  with 0 show ?case by (simp add: hilbert_loop.simps[of dim])
next
  case (Suc n)
  with assms(1) have "2 ^ j < unat dim" and j: "j < 32" by (simp_all add: levels_def)
  then have less: "(2 ^ j :: u32) < dim" by (simp add: word_less_nat_alt unat_p2)
  obtain x y where c: "hil j p = (x, y)" by fastforce
  let ?rx = "1 AND (t div 2)" let ?ry = "1 AND (t XOR ?rx)"
  obtain x1 y1 where r: "rot (2 ^ j) (of_nat x) (of_nat y) ?rx ?ry = (x1, y1)" by fastforce
  have q: "unat t mod 4 = p div 4 ^ j mod 4" using Suc.prems by simp
  have "(x1 + 2 ^ j * ?rx, y1 + 2 ^ j * ?ry) =
      (of_nat (fst (hil (Suc j) p)), of_nat (snd (hil (Suc j) p)))"
    using hilbert_loop_step[OF _ _ hilbert_digit _ r] hil_range[of j p] c q by simp
  moreover have "unat (t div 4) = p div 4 ^ Suc j"
    using Suc.prems by (simp add: unat_div div_mult2_eq[symmetric] mult.commute)
  then have "hilbert_loop dim (2 ^ Suc j) (t div 4) (of_nat (fst (hil (Suc j) p))) (of_nat (snd (hil (Suc j) p))) =
      Some (of_nat (fst (hil k p)), of_nat (snd (hil k p)))"
    using Suc by (intro Suc.hyps(1)) simp_all
  ultimately show ?case
    using less r c by (subst hilbert_loop.simps) (simp add: Let_def mult.commute)
qed

lemma hilbert_get_coords_hil:
  assumes "levels dim k"
  shows "hilbert_get_coords \<lparr>hi_dim = dim, hi_pos = pos\<rparr> =
    Some (of_nat (fst (hil k (unat pos))), of_nat (snd (hil k (unat pos))))"
  using hilbert_loop_hil[OF assms, of 0 pos "unat pos"] by (simp add: hilbert_get_coords_def)

section \<open>The spiral\<close>

text \<open>
  The spiral is a sequence of arms: round \<open>r\<close> goes up and left by \<open>2 * r + 1\<close> cells each, then down
  and right by \<open>2 * r + 2\<close>. \<open>arm_cell\<close> is the position relative to the centre.
\<close>

definition arm_len :: "nat \<Rightarrow> nat \<Rightarrow> nat" where
  "arm_len r a = (if a < 2 then 2 * r + 1 else 2 * r + 2)"

definition arm_start :: "nat \<Rightarrow> nat \<Rightarrow> nat" where
  "arm_start r a = 4 * r * r + 2 * r +
     (if a = 0 then 0 else if a = 1 then 2 * r + 1 else if a = 2 then 4 * r + 2 else 6 * r + 4)"

definition arm_cell :: "nat \<Rightarrow> nat \<Rightarrow> nat \<Rightarrow> int \<times> int" where
  "arm_cell r a s =
     (if a = 0 then (int r, int r - int s)
      else if a = 1 then (int r - int s, - int r - 1)
      else if a = 2 then (- int r - 1, - int r - 1 + int s)
      else (- int r - 1 + int s, int r + 1))"

definition spiral_at :: "nat \<Rightarrow> nat \<Rightarrow> nat \<Rightarrow> nat \<Rightarrow> SFC_Spiral \<Rightarrow> bool" where
  "spiral_at i r a s c \<longleftrightarrow> a < 4 \<and> s < arm_len r a \<and> i = arm_start r a + s \<and>
     sp_state c = of_nat a \<and> sp_nsteps c = of_nat (arm_len r a) \<and> sp_step c = of_nat s \<and>
     sp_x c = sp_dim c div 2 + of_int (fst (arm_cell r a s)) \<and>
     sp_y c = sp_dim c div 2 + of_int (snd (arm_cell r a s))"

lemma spiral_atD:
  "spiral_at i r a s c \<Longrightarrow> sp_x c = sp_dim c div 2 + of_int (fst (arm_cell r a s)) \<and>
     sp_y c = sp_dim c div 2 + of_int (snd (arm_cell r a s))"
  by (simp add: spiral_at_def)

lemma spiral_at_reset: "spiral_at 0 0 0 0 (spiral_reset c)"
  by (simp add: spiral_at_def spiral_reset_def arm_len_def arm_start_def arm_cell_def)

lemma arm_start_bound: "i = arm_start r a + s \<Longrightarrow> i < 2 ^ 40 \<Longrightarrow> r < 2 ^ 19"
proof (rule ccontr)
  assume i: "i = arm_start r a + s" "i < 2 ^ 40" and "\<not> r < 2 ^ 19"
  then have "(2 ^ 19) * (2 ^ 19) \<le> r * r" by (intro mult_le_mono) simp_all
  moreover have "4 * (r * r) \<le> i" using i by (simp add: arm_start_def)
  ultimately show False using i(2) by simp
qed

lemma of_nat_u32_eq: "m < 2 ^ 32 \<Longrightarrow> n < 2 ^ 32 \<Longrightarrow> (of_nat m :: u32) = of_nat n \<longleftrightarrow> m = n"
  by (simp add: word_of_nat_eq_iff take_bit_nat_eq_self)

lemma spiral_move_fields [simp]:
  "sp_state (spiral_move c) = sp_state c" "sp_nsteps (spiral_move c) = sp_nsteps c"
  "sp_step (spiral_move c) = sp_step c" "sp_dim (spiral_move c) = sp_dim c"
  by (simp_all add: spiral_move_def)

lemma spiral_move_cell:
  assumes "spiral_at i r a s c"
  shows "sp_x (spiral_move c) = sp_dim c div 2 + of_int (fst (arm_cell r a (Suc s)))"
    and "sp_y (spiral_move c) = sp_dim c div 2 + of_int (snd (arm_cell r a (Suc s)))"
proof -
  from assms consider "a = 0" | "a = 1" | "a = 2" | "a = 3" by (force simp: spiral_at_def)
  then show "sp_x (spiral_move c) = sp_dim c div 2 + of_int (fst (arm_cell r a (Suc s)))"
    "sp_y (spiral_move c) = sp_dim c div 2 + of_int (snd (arm_cell r a (Suc s)))"
    using assms by (cases; simp add: spiral_at_def spiral_move_def arm_cell_def)+
qed

fun arm_next :: "nat \<times> nat \<times> nat \<Rightarrow> nat \<times> nat \<times> nat" where
  "arm_next (r, a, s) =
     (if Suc s < arm_len r a then (r, a, Suc s) else if a < 3 then (r, Suc a, 0) else (Suc r, 0, 0))"

lemma spiral_at_next:
  assumes at: "spiral_at i r a s c" and i: "i < 2 ^ 40" and n: "arm_next (r, a, s) = (r', a', s')"
  shows "spiral_at (Suc i) r' a' s' (spiral_next c)"
proof -
  have len: "s < arm_len r a" and a: "a < 4" using at by (auto simp: spiral_at_def)
  have r: "r < 2 ^ 19" using at i by (intro arm_start_bound) (auto simp: spiral_at_def)
  then have bound: "arm_len r a < 2 ^ 32" by (simp add: arm_len_def)
  have step: "sp_step c + 1 = sp_nsteps c \<longleftrightarrow> Suc s = arm_len r a"
    using at bound len of_nat_u32_eq[of "Suc s" "arm_len r a"] by (simp add: spiral_at_def add.commute)
  show ?thesis
  proof (cases "Suc s = arm_len r a")
    case False
    then show ?thesis
      using at n len step spiral_move_cell[OF at]
      by (auto simp: spiral_next_def Let_def spiral_at_def)
  next
    case True
    from a consider "a = 0" | "a = 1" | "a = 2" | "a = 3" by linarith
    then show ?thesis
      using at n True step spiral_move_cell[OF at]
      by cases (auto simp: spiral_next_def Let_def spiral_at_def arm_len_def arm_start_def arm_cell_def algebra_simps)
  qed
qed

definition arms :: "nat \<Rightarrow> nat \<times> nat \<times> nat" where
  "arms i = (arm_next ^^ i) (0, 0, 0)"

lemma spiral_at_arms:
  assumes "i \<le> 2 ^ 40" and "arms i = (r, a, s)"
  shows "spiral_at i r a s ((spiral_next ^^ i) (spiral_reset c))"
  using assms
proof (induction i arbitrary: r a s)
  case 0
  then show ?case by (simp add: arms_def spiral_at_reset)
next
  case (Suc i)
  obtain r0 a0 s0 where a0: "arms i = (r0, a0, s0)" by (cases "arms i") auto
  with Suc.prems have "arm_next (r0, a0, s0) = (r, a, s)" by (simp add: arms_def)
  then show ?case
    using spiral_at_next[of i r0 a0 s0 "(spiral_next ^^ i) (spiral_reset c)" r a s] Suc a0 by simp
qed

lemma arms_index:
  assumes "i \<le> 2 ^ 40" and "arms i = (r, a, s)"
  shows "a < 4 \<and> s < arm_len r a \<and> i = arm_start r a + s"
  using spiral_at_arms[OF assms] by (simp add: spiral_at_def)

text \<open>The position along the spiral at which a cell is visited.\<close>

definition spiral_rank :: "int \<times> int \<Rightarrow> int" where
  "spiral_rank c = (case c of (x, y) \<Rightarrow>
     if 0 \<le> x \<and> \<bar>y\<bar> \<le> x then 4 * x * x + 2 * x + (x - y)
     else if y < 0 \<and> \<bar>x\<bar> < - y then (let r = - y - 1 in 4 * r * r + 4 * r + 1 + (r - x))
     else if x < 0 \<and> x \<le> y \<and> y < - x then (let r = - x - 1 in 4 * r * r + 6 * r + 2 + (y + r + 1))
     else (let r = y - 1 in 4 * r * r + 8 * r + 4 + (x + r + 1)))"

lemma spiral_rank_arm:
  assumes "a < 4" and "s < arm_len r a"
  shows "spiral_rank (arm_cell r a s) = int (arm_start r a + s)"
proof -
  from assms(1) consider "a = 0" | "a = 1" | "a = 2" | "a = 3" by linarith
  then show ?thesis
    using assms(2) by cases (auto simp: spiral_rank_def arm_cell_def arm_len_def arm_start_def Let_def algebra_simps)
qed

text \<open>The first \<open>d * d\<close> cells lie in the square of width \<open>d\<close> around the centre.\<close>

lemma spiral_in_square:
  assumes "a < 4" "s < arm_len r a" and i: "arm_start r a + s < d * d"
  shows "- int (d div 2) \<le> fst (arm_cell r a s) \<and> fst (arm_cell r a s) < int d - int (d div 2) \<and>
    - int (d div 2) \<le> snd (arm_cell r a s) \<and> snd (arm_cell r a s) < int d - int (d div 2)"
proof -
  define b :: nat where "b = (if a = 0 then 0 else if a = 3 then 2 else 1)"
  have sq: "(2 * r + b) * (2 * r + b) \<le> arm_start r a"
    using assms(1) by (auto simp: arm_start_def b_def algebra_simps)
  have b: "2 * r + b < d"
  proof (rule ccontr)
    assume "\<not> 2 * r + b < d"
    then have "d * d \<le> (2 * r + b) * (2 * r + b)" by (intro mult_le_mono) simp_all
    with sq i show False by linarith
  qed
  obtain h e where h: "d = 2 * h + e" "e < 2" "d div 2 = h"
    by (metis mult_div_mod_eq mod_less_divisor zero_less_numeral)
  from assms(1) consider "a = 0" | "a = 1" | "a = 2" | "a = 3" by linarith
  then show ?thesis
    using assms(2) b h(1,2) unfolding h(3)
    by cases (auto simp: arm_cell_def arm_len_def b_def)
qed

section \<open>The contract of a curve\<close>

text \<open>
  A curve for a square: for every dimension up to \<open>2^16\<close>, the dimension of an image for a list of
  fewer than \<open>2^32\<close> strings, the coordinates after \<open>i\<close> calls of \<open>next\<close> are a cell of the square, and
  no cell is visited twice before the square is full.
\<close>

locale space_filling =
  fixes start :: "u32 \<Rightarrow> SFC" and width :: "u32 \<Rightarrow> nat" and cell :: "u32 \<Rightarrow> nat \<Rightarrow> nat \<times> nat"
  assumes coords: "0 < dim \<Longrightarrow> unat dim \<le> 2 ^ 16 \<Longrightarrow> i < width dim * width dim \<Longrightarrow>
      sfc_get_coords ((sfc_next ^^ i) (start dim)) =
        Some (Inr (of_nat (fst (cell dim i)), of_nat (snd (cell dim i))))"
    and cell_inside: "0 < dim \<Longrightarrow> unat dim \<le> 2 ^ 16 \<Longrightarrow> i < width dim * width dim \<Longrightarrow>
      fst (cell dim i) < width dim \<and> snd (cell dim i) < width dim"
    and cell_inj: "0 < dim \<Longrightarrow> unat dim \<le> 2 ^ 16 \<Longrightarrow> inj_on (cell dim) {..<width dim * width dim}"
    and width_fits: "0 < dim \<Longrightarrow> unat dim \<le> 2 ^ 16 \<Longrightarrow> unat dim \<le> width dim \<and> width dim \<le> 2 ^ 16"
begin

lemma cell_bij:
  assumes "0 < dim" and "unat dim \<le> 2 ^ 16"
  shows "bij_betw (cell dim) {..<width dim * width dim} ({..<width dim} \<times> {..<width dim})"
proof -
  have "cell dim ` {..<width dim * width dim} \<subseteq> {..<width dim} \<times> {..<width dim}"
  proof (rule image_subsetI)
    fix i assume "i \<in> {..<width dim * width dim}"
    then show "cell dim i \<in> {..<width dim} \<times> {..<width dim}"
      using cell_inside[OF assms, of i] by (simp add: mem_Times_iff)
  qed
  moreover have "card (cell dim ` {..<width dim * width dim}) = card ({..<width dim} \<times> {..<width dim})"
    using cell_inj[OF assms] by (simp add: card_image card_cartesian_product)
  ultimately have "cell dim ` {..<width dim * width dim} = {..<width dim} \<times> {..<width dim}"
    by (intro card_subset_eq) auto
  with cell_inj[OF assms] show ?thesis by (simp add: bij_betw_def)
qed

lemma coords_words:
  assumes "0 < dim" and "unat dim \<le> 2 ^ 16" and "i < width dim * width dim"
  obtains x y where "sfc_get_coords ((sfc_next ^^ i) (start dim)) = Some (Inr (x, y))"
    and "cell dim i = (unat x, unat y)"
proof -
  have "fst (cell dim i) < 2 ^ 32" "snd (cell dim i) < 2 ^ 32"
    using cell_inside[OF assms] width_fits[OF assms(1,2)] by simp_all
  then have "cell dim i = (unat (of_nat (fst (cell dim i)) :: u32), unat (of_nat (snd (cell dim i)) :: u32))"
    by (simp add: unat_of_nat prod_eq_iff)
  with coords[OF assms] that show ?thesis by blast
qed

end

subsection \<open>Lines\<close>

definition lines_cell :: "u32 \<Rightarrow> nat \<Rightarrow> nat \<times> nat" where
  "lines_cell dim i = (i mod unat dim, i div unat dim)"

lemma lines_iterate: "(sfc_next ^^ i) (new_SFC_Lines dim) = Lines \<lparr>li_dim = dim, li_pos = of_nat i\<rparr>"
  by (induction i) (simp_all add: new_SFC_Lines_def lines_next_def add.commute)

interpretation lines: space_filling new_SFC_Lines unat lines_cell
proof unfold_locales
  fix dim :: u32 and i :: nat
  assume dim: "0 < dim" "unat dim \<le> 2 ^ 16"
  have pos: "0 < unat dim" using dim(1) by (simp add: word_gt_0 unat_gt_0)
  show "inj_on (lines_cell dim) {..<unat dim * unat dim}"
    by (rule inj_on_inverseI[where g = "\<lambda>(x, y). y * unat dim + x"]) (simp add: lines_cell_def)
  assume i: "i < unat dim * unat dim"
  have "unat dim * unat dim \<le> 2 ^ 16 * 2 ^ 16" using dim(2) by (intro mult_le_mono)
  with i have "i < 2 ^ 32" by simp
  then have eq: "unat (of_nat i :: u32) = i" by (simp add: unat_of_nat)
  have "of_nat i mod dim = of_nat (unat (of_nat i mod dim))" "of_nat i div dim = of_nat (unat (of_nat i div dim))"
    by simp_all
  then have "of_nat i mod dim = of_nat (i mod unat dim)" "of_nat i div dim = of_nat (i div unat dim)"
    by (simp_all only: unat_mod unat_div eq)
  with dim show "sfc_get_coords ((sfc_next ^^ i) (new_SFC_Lines dim)) =
      Some (Inr (of_nat (fst (lines_cell dim i)), of_nat (snd (lines_cell dim i))))"
    by (simp add: lines_iterate lines_get_coords_def lines_cell_def)
  show "fst (lines_cell dim i) < unat dim \<and> snd (lines_cell dim i) < unat dim"
    using pos i by (simp add: lines_cell_def less_mult_imp_div_less)
qed simp_all

subsection \<open>Spiral\<close>

definition spiral_cell :: "u32 \<Rightarrow> nat \<Rightarrow> nat \<times> nat" where
  "spiral_cell dim i = (case arms i of (r, a, s) \<Rightarrow>
     (nat (int (unat dim div 2) + fst (arm_cell r a s)), nat (int (unat dim div 2) + snd (arm_cell r a s))))"

lemma spiral_next_dim [simp]: "sp_dim (spiral_next c) = sp_dim c"
  by (simp add: spiral_next_def Let_def)

lemma spiral_iterate_dim: "sp_dim ((spiral_next ^^ i) c) = sp_dim c"
  by (induction i) simp_all

lemma spiral_iterate: "(sfc_next ^^ i) (Spiral c) = Spiral ((spiral_next ^^ i) c)"
  by (induction i) simp_all

lemma spiral_cell_word:
  assumes "0 \<le> int (unat dim div 2) + z"
  shows "(of_nat (nat (int (unat (dim :: u32) div 2) + z)) :: u32) = dim div 2 + of_int z"
proof -
  have "(of_nat (nat (int (unat dim div 2) + z)) :: u32) = of_int (int (unat (dim div 2)) + z)"
    using assms by (simp add: unat_div)
  then show ?thesis by simp
qed

interpretation spiral: space_filling new_SFC_Spiral unat spiral_cell
proof unfold_locales
  fix dim :: u32 and i :: nat
  assume dim: "0 < dim" "unat dim \<le> 2 ^ 16"
  let ?d = "unat dim"
  have "?d * ?d \<le> 2 ^ 16 * 2 ^ 16" using dim(2) by (intro mult_le_mono)
  then have small: "j \<le> 2 ^ 40" if "j < ?d * ?d" for j using that by simp
  have inside: "0 \<le> int (?d div 2) + fst (arm_cell r a s) \<and> int (?d div 2) + fst (arm_cell r a s) < int ?d \<and>
      0 \<le> int (?d div 2) + snd (arm_cell r a s) \<and> int (?d div 2) + snd (arm_cell r a s) < int ?d"
    if "j < ?d * ?d" "arms j = (r, a, s)" for j r a s
    using spiral_in_square[of a s r ?d] arms_index[OF small[OF that(1)] that(2)] that(1) by auto
  show "inj_on (spiral_cell dim) {..<?d * ?d}"
  proof (rule inj_onI)
    fix j k
    assume jk: "j \<in> {..<?d * ?d}" "k \<in> {..<?d * ?d}" and eq: "spiral_cell dim j = spiral_cell dim k"
    obtain r a s r' a' s' where A: "arms j = (r, a, s)" "arms k = (r', a', s')"
      by (metis prod_cases3)
    have "arm_cell r a s = arm_cell r' a' s'"
      using eq inside[OF _ A(1)] inside[OF _ A(2)] jk by (auto simp: spiral_cell_def A prod_eq_iff eq_nat_nat_iff)
    then show "j = k"
      using spiral_rank_arm[of a s r] spiral_rank_arm[of a' s' r'] jk
        arms_index[OF small A(1)] arms_index[OF small A(2)] by simp
  qed
  assume i: "i < ?d * ?d"
  obtain r a s where A: "arms i = (r, a, s)" by (cases "arms i") auto
  show "sfc_get_coords ((sfc_next ^^ i) (new_SFC_Spiral dim)) =
      Some (Inr (of_nat (fst (spiral_cell dim i)), of_nat (snd (spiral_cell dim i))))"
  proof -
    obtain c where c: "new_SFC_Spiral dim = Spiral (spiral_reset c)" "sp_dim c = dim"
      by (simp add: new_SFC_Spiral_def)
    let ?c = "(spiral_next ^^ i) (spiral_reset c)"
    have "sp_dim ?c = dim" using c by (simp add: spiral_iterate_dim spiral_reset_def)
    then have "sp_x ?c = dim div 2 + of_int (fst (arm_cell r a s))"
      "sp_y ?c = dim div 2 + of_int (snd (arm_cell r a s))"
      using spiral_atD[OF spiral_at_arms[OF small[OF i] A, of c]] by simp_all
    moreover have "of_nat (fst (spiral_cell dim i)) = dim div 2 + of_int (fst (arm_cell r a s))"
      "of_nat (snd (spiral_cell dim i)) = dim div 2 + of_int (snd (arm_cell r a s))"
      using inside[OF i A] by (simp_all add: spiral_cell_def A spiral_cell_word del: of_nat_nat)
    ultimately show ?thesis by (simp add: c(1) spiral_iterate spiral_get_coords_def)
  qed
  show "fst (spiral_cell dim i) < ?d \<and> snd (spiral_cell dim i) < ?d"
    using inside[OF i A] by (simp add: spiral_cell_def A nat_less_iff)
qed simp_all

text \<open>The spiral moves to a neighbouring cell in every step.\<close>

lemma arm_cell_next:
  assumes "a < 4" "s < arm_len r a" and "arm_next (r, a, s) = (r', a', s')"
  shows "\<bar>fst (arm_cell r' a' s') - fst (arm_cell r a s)\<bar> + \<bar>snd (arm_cell r' a' s') - snd (arm_cell r a s)\<bar> = 1"
proof -
  from assms(1) consider "a = 0" | "a = 1" | "a = 2" | "a = 3" by linarith
  then show ?thesis
    using assms(2,3) by cases (auto simp: arm_cell_def arm_len_def split: if_splits)
qed

lemma neighbours_nat:
  assumes "0 \<le> x" "0 \<le> y" "0 \<le> x'" "0 \<le> y'" and "\<bar>x' - x\<bar> + \<bar>y' - y\<bar> = 1"
  shows "neighbours (nat x, nat y) (nat x', nat y')"
  using assms by (auto simp: neighbours_def abs_if split: if_splits)

lemma spiral_neighbours:
  assumes dim: "0 < dim" "unat dim \<le> 2 ^ 16" and i: "Suc i < unat dim * unat dim"
  shows "neighbours (spiral_cell dim i) (spiral_cell dim (Suc i))"
proof -
  have "unat dim * unat dim \<le> 2 ^ 16 * 2 ^ 16" using dim(2) by (intro mult_le_mono)
  with i have small: "i \<le> 2 ^ 40" "Suc i \<le> 2 ^ 40" by simp_all
  obtain r a s r' a' s' where A: "arms i = (r, a, s)" "arms (Suc i) = (r', a', s')"
    by (metis prod_cases3)
  then have n: "arm_next (r, a, s) = (r', a', s')" by (simp add: arms_def)
  note I = arms_index[OF small(1) A(1)] arms_index[OF small(2) A(2)]
  have "\<bar>fst (arm_cell r' a' s') - fst (arm_cell r a s)\<bar> + \<bar>snd (arm_cell r' a' s') - snd (arm_cell r a s)\<bar> = 1"
    using I(1) n by (intro arm_cell_next) auto
  moreover have "0 \<le> int (unat dim div 2) + fst (arm_cell r a s)" "0 \<le> int (unat dim div 2) + snd (arm_cell r a s)"
    using spiral_in_square[of a s r "unat dim"] I(1) i by linarith+
  moreover have "0 \<le> int (unat dim div 2) + fst (arm_cell r' a' s')" "0 \<le> int (unat dim div 2) + snd (arm_cell r' a' s')"
    using spiral_in_square[of a' s' r' "unat dim"] I(2) i by linarith+
  ultimately show ?thesis
    unfolding spiral_cell_def A prod.case by (intro neighbours_nat) simp_all
qed

subsection \<open>Hilbert curve\<close>

text \<open>The least level whose square contains the square of the given dimension.\<close>

fun level :: "nat \<Rightarrow> nat" where
  "level d = (if d \<le> 1 then 0 else Suc (level ((d + 1) div 2)))"

declare level.simps [simp del]

lemma level_iff: "2 ^ j < d \<longleftrightarrow> j < level d"
proof (induction d arbitrary: j rule: level.induct)
  case (1 d)
  show ?case
  proof (cases "d \<le> 1")
    case True
    then have "\<not> 2 ^ j < d" using one_le_power[of "2 :: nat" j] by linarith
    with True show ?thesis by (simp add: level.simps[of d])
  next
    case False
    show ?thesis
    proof (cases j)
      case 0
      with False show ?thesis by (simp add: level.simps[of d])
    next
      case (Suc k)
      have "2 ^ Suc k < d \<longleftrightarrow> 2 ^ k < (d + 1) div 2" by auto
      with False Suc 1 show ?thesis by (simp add: level.simps[of d])
    qed
  qed
qed

lemma level_bound: "d \<le> 2 ^ k \<Longrightarrow> level d \<le> k"
  using level_iff[of k d] by simp

lemma level_fits: "d \<le> 2 ^ level d"
  using level_iff[of "level d" d] by simp

lemma levels_level: "unat dim \<le> 2 ^ 31 \<Longrightarrow> levels dim (level (unat dim))"
  using level_bound[of "unat dim" 31] by (simp add: levels_def level_iff)

definition hilbert_width :: "u32 \<Rightarrow> nat" where
  "hilbert_width dim = 2 ^ level (unat dim)"

definition hilbert_cell :: "u32 \<Rightarrow> nat \<Rightarrow> nat \<times> nat" where
  "hilbert_cell dim i = hil (level (unat dim)) i"

lemma hilbert_iterate: "(sfc_next ^^ i) (new_SFC_Hilbert dim) = Hilbert \<lparr>hi_dim = dim, hi_pos = of_nat i\<rparr>"
  by (induction i) (simp_all add: new_SFC_Hilbert_def hilbert_next_def add.commute)

lemma hilbert_square: "hilbert_width dim * hilbert_width dim = 4 ^ level (unat dim)"
  by (simp add: hilbert_width_def flip: power_mult_distrib)

interpretation hilbert: space_filling new_SFC_Hilbert hilbert_width hilbert_cell
proof unfold_locales
  fix dim :: u32 and i :: nat
  assume dim: "0 < dim" "unat dim \<le> 2 ^ 16"
  let ?k = "level (unat dim)"
  have k: "?k \<le> 16" using level_bound[OF dim(2)] .
  then have w: "hilbert_width dim \<le> 2 ^ 16" by (simp only: hilbert_width_def) (rule power_increasing, simp_all)
  then show "unat dim \<le> hilbert_width dim \<and> hilbert_width dim \<le> 2 ^ 16"
    by (simp add: hilbert_width_def level_fits)
  show "inj_on (hilbert_cell dim) {..<hilbert_width dim * hilbert_width dim}"
    by (rule inj_onI) (auto simp: hilbert_square hilbert_cell_def dest: hil_inj)
  show "fst (hilbert_cell dim i) < hilbert_width dim \<and> snd (hilbert_cell dim i) < hilbert_width dim"
    by (simp add: hilbert_cell_def hilbert_width_def hil_range)
  assume i: "i < hilbert_width dim * hilbert_width dim"
  have "hilbert_width dim * hilbert_width dim \<le> 2 ^ 16 * 2 ^ 16" using w by (intro mult_le_mono)
  with i have "unat (of_nat i :: u32) = i" by (simp add: unat_of_nat)
  then show "sfc_get_coords ((sfc_next ^^ i) (new_SFC_Hilbert dim)) =
      Some (Inr (of_nat (fst (hilbert_cell dim i)), of_nat (snd (hilbert_cell dim i))))"
    using hilbert_get_coords_hil[OF levels_level, of dim "of_nat i"] dim(2)
    by (simp add: hilbert_iterate hilbert_cell_def)
qed

end
