(* ===== verification/Sfc_Tool.thy ===== *)
theory Sfc_Tool
  imports Sfc_Curves Runs Doubles
begin

text \<open>
  The program \<^verbatim>\<open>sfctool\<close> (\<^verbatim>\<open>sfctool.cc\<close>): it paints one pixel per line of a domain file, at the
  position the chosen curve gives to the line, with a colour that depends on whether the line is
  also in the input file. The parsed options and the contents of the files are arguments. The image
  of the library png++ is the list of the assignments \<^verbatim>\<open>image[y][x] = pixel\<close> in the order in which
  they are executed. Messages are left out.
\<close>

section \<open>Colours\<close>

record Color =
  c_r :: u8
  c_g :: u8
  c_b :: u8

definition set_color :: "string \<Rightarrow> Color res" where
  "set_color s0 =
     (let s = (if s0 \<noteq> [] \<and> hd s0 = CHR ''#'' then tl s0 else s0)
      in if length s \<noteq> 6 then Inl (InvalidArgument ''color must be in the format RRGGBB'')
         else bindE (stoul 16 (take 2 s)) (\<lambda>r.
              bindE (stoul 16 (take 2 (drop 2 s))) (\<lambda>g.
              bindE (stoul 16 (take 2 (drop 4 s))) (\<lambda>b.
              Inr \<lparr>c_r = ucast r, c_g = ucast g, c_b = ucast b\<rparr>))))"

definition initial_default_color :: Color where
  "initial_default_color = \<lparr>c_r = 0xff, c_g = 0xff, c_b = 0xff\<rparr>"

record rgb_pixel =
  red :: u8
  green :: u8
  blue :: u8

definition pixel_of :: "Color \<Rightarrow> rgb_pixel" where
  "pixel_of c = \<lparr>red = c_r c, green = c_g c, blue = c_b c\<rparr>"

definition default_pixel :: "Color \<Rightarrow> rgb_pixel" where
  \<comment> \<open>the initial fill passes the components in the order red, blue, green\<close>
  "default_pixel c = \<lparr>red = c_r c, green = c_b c, blue = c_g c\<rparr>"

section \<open>Options, files and maps\<close>

record sfc_options =
  op_default_color :: "string list"
  op_curve_type :: "string list"
  op_off_map :: "string list"
  op_on_map :: "string list"
  op_color :: "string list"
  op_domain :: string
  op_input :: string

type_synonym files = "string \<Rightarrow> string list option"   \<comment> \<open>the lines of a file that can be opened\<close>
type_synonym colormap = "string \<rightharpoonup> Color"

definition loadmap :: "files \<Rightarrow> string \<Rightarrow> colormap \<Rightarrow> Color \<Rightarrow> colormap res" where
  "loadmap files filename m color = (case files filename of
       None \<Rightarrow> Inl (Aborted ''cannot open file'')   \<comment> \<open>an exception nobody catches\<close>
     | Some ls \<Rightarrow> Inr (fold (\<lambda>buf m. m(buf \<mapsto> color)) ls m))"

fun loadmaps :: "files \<Rightarrow> string list \<Rightarrow> string list \<Rightarrow> colormap \<Rightarrow> (string list \<times> colormap) res" where
  \<comment> \<open>one of the two loops over the map options; it takes a colour option per map\<close>
  "loadmaps files [] colors m = Inr (colors, m)"
| "loadmaps files (f # fs) [] m = Inl (ExitFailure 1)"
| "loadmaps files (f # fs) (c # cs) m =
     bindE (set_color c) (\<lambda>color. bindE (loadmap files f m color) (loadmaps files fs cs))"

section \<open>The dimension of the image\<close>

fun isqrt :: "nat \<Rightarrow> nat" where
  "isqrt n = (if n = 0 then 0 else (let r = 2 * isqrt (n div 4) in if (r + 1) * (r + 1) \<le> n then r + 1 else r))"

declare isqrt.simps [simp del]

definition sqrt_double :: "nat \<Rightarrow> rat" where
  \<comment> \<open>\<open>sqrt\<close> of an integral double below \<open>2^105\<close>, rounded to 53 bits: the root has the exponent
      \<open>e div 2\<close>, and its significand is the root of \<open>n * 4^k\<close> rounded to an integer. The root of an
      integer is never half way between two integers.\<close>
  "sqrt_double n =
     (if n = 0 then 0
      else (let k = 52 - nat (exponent (of_nat n)) div 2; m = n * 4 ^ k; f = isqrt m
            in of_nat (if m \<le> f * f + f then f else f + 1) / 2 ^ k))"

definition image_dim_of :: "nat \<Rightarrow> u32 res" where
  "image_dim_of n =
     (let x = dround (of_nat n); r = \<lceil>sqrt_double (nat \<lfloor>x\<rfloor>)\<rceil>
      in if r < 2 ^ 32 then Inr (of_int r) else ub ''conversion to unsigned'')"

partial_function (option) power_loop :: "u32 \<Rightarrow> u32 \<Rightarrow> u32 run" where
  "power_loop image_dim x = (if x < image_dim then power_loop image_dim (x * 2) else retR x)"

declare power_loop.simps [code]

definition choose_curve :: "string list \<Rightarrow> u32 \<Rightarrow> (SFC \<times> u32) run" where
  "choose_curve types image_dim = (case types of
       [] \<Rightarrow> retR (new_SFC_Lines image_dim, image_dim)
     | s # _ \<Rightarrow>
         if s = ''lines'' then retR (new_SFC_Lines image_dim, image_dim)
         else if s = ''spiral'' then retR (new_SFC_Spiral image_dim, image_dim)
         else if s = ''hilbert'' then bindR (power_loop image_dim 1) (\<lambda>x. retR (new_SFC_Hilbert image_dim, x))
         else Some (Inl (ExitFailure 1)))"

section \<open>Painting\<close>

type_synonym writes = "((u32 \<times> u32) \<times> rgb_pixel) list"

lemma unat_Suc_less: "x < w \<Longrightarrow> unat (x + 1 :: u32) = unat x + 1"
  using unsigned_less[of w, where ?'a = nat] by (auto simp: word_less_nat_alt unat_word_ariths)

function fill_row :: "u32 \<Rightarrow> u32 \<Rightarrow> rgb_pixel \<Rightarrow> u32 \<Rightarrow> writes" where
  "fill_row w y p x = (if x < w then ((x, y), p) # fill_row w y p (x + 1) else [])"
  by auto
termination
  by (relation "measure (\<lambda>(w, y, p, x). unat w - unat x)") (simp_all add: unat_Suc_less word_less_nat_alt)

function fill_image :: "u32 \<Rightarrow> rgb_pixel \<Rightarrow> u32 \<Rightarrow> writes" where
  "fill_image w p y = (if y < w then fill_row w y p 0 @ fill_image w p (y + 1) else [])"
  by auto
termination
  by (relation "measure (\<lambda>(w, p, y). unat w - unat y)") (simp_all add: unat_Suc_less word_less_nat_alt)

declare fill_row.simps [simp del] fill_image.simps [simp del]

definition paint_line :: "string list \<Rightarrow> colormap \<Rightarrow> colormap \<Rightarrow> string \<Rightarrow> u32 \<times> u32 \<Rightarrow> writes \<Rightarrow> writes" where
  \<comment> \<open>the body of the painting loop behind \<open>get_coords\<close> and \<open>next\<close>\<close>
  "paint_line input off on s c img =
     (if s \<notin> set input then
        (case off s of Some color \<Rightarrow> img @ [(c, pixel_of color)] | None \<Rightarrow> img)
      else
        (case on s of Some color \<Rightarrow> img @ [(c, pixel_of color)] | None \<Rightarrow> img))"

partial_function (option) paint_loop ::
    "string list \<Rightarrow> string list \<Rightarrow> colormap \<Rightarrow> colormap \<Rightarrow> u32 \<Rightarrow> SFC \<Rightarrow> writes \<Rightarrow> writes run" where
  \<comment> \<open>the counter has 32 bits: with \<open>2^32\<close> strings or more the loop does not end\<close>
  "paint_loop domain input off on i sfc img =
     (if unat i < length domain then
        bindR (sfc_get_coords sfc) (\<lambda>c.
          paint_loop domain input off on (i + 1) (sfc_next sfc) (paint_line input off on (domain ! unat i) c img))
      else retR img)"

declare paint_loop.simps [code]

definition sfctool :: "sfc_options \<Rightarrow> files \<Rightarrow> (u32 \<times> writes) run" where
  "sfctool opts files =
     bindR (liftR (case op_default_color opts of [] \<Rightarrow> Inr initial_default_color | s # _ \<Rightarrow> set_color s)) (\<lambda>default_color.
     case files (op_domain opts) of None \<Rightarrow> Some (Inl (ExitFailure 1)) | Some domain_strings \<Rightarrow>
     (case files (op_input opts) of None \<Rightarrow> Some (Inl (ExitFailure 1)) | Some input \<Rightarrow>
     bindR (liftR (image_dim_of (length domain_strings))) (\<lambda>dim0.
     bindR (choose_curve (op_curve_type opts) dim0) (\<lambda>(sfc, image_dim).
     let img = fill_image image_dim (default_pixel default_color) 0
     in bindR (liftR (loadmaps files (op_off_map opts) (op_color opts) Map.empty)) (\<lambda>(cs, off_map).
        bindR (liftR (loadmaps files (op_on_map opts) cs Map.empty)) (\<lambda>(cs', on_map).
        if cs' \<noteq> [] then Some (Inl (ExitFailure 1))
        else bindR (paint_loop domain_strings input off_map on_map 0 sfc img) (\<lambda>img'.
             retR (image_dim, img'))))))))"

definition pixel_at :: "writes \<Rightarrow> nat \<times> nat \<Rightarrow> rgb_pixel option" where
  \<comment> \<open>what was last assigned to a pixel\<close>
  "pixel_at img c = map_of (rev img) (of_nat (fst c), of_nat (snd c))"

section \<open>The dimension is the least one that fits\<close>

lemma isqrt_bounds: "isqrt n * isqrt n \<le> n \<and> n < (isqrt n + 1) * (isqrt n + 1)"
proof (induction n rule: isqrt.induct)
  case (1 n)
  show ?case
  proof (cases "n = 0")
    case True
    then show ?thesis by (simp add: isqrt.simps)
  next
    case False
    define q where "q = isqrt (n div 4)"
    have q: "q * q \<le> n div 4" "n div 4 < (q + 1) * (q + 1)" using 1[OF False] by (simp_all add: q_def)
    have "4 * (q * q) \<le> n" using q(1) by linarith
    moreover have "n < 4 * ((q + 1) * (q + 1))"
    proof -
      have "n < 4 * (n div 4 + 1)" by simp
      also have "\<dots> \<le> 4 * ((q + 1) * (q + 1))" using q(2) by (intro mult_le_mono2) simp
      finally show ?thesis .
    qed
    ultimately show ?thesis using False
      by (auto simp: isqrt.simps[of n] Let_def q_def[symmetric] algebra_simps)
  qed
qed

text \<open>The rounded root rounded up is the root rounded up, as long as the number is below \<open>2^52\<close>.\<close>

lemma ceil_root:
  fixes n k d :: nat
  assumes d: "(d - 1) * (d - 1) < n" "n \<le> d * d" and k: "d - 1 < 2 ^ k"
  defines "m \<equiv> n * 4 ^ k" and "f \<equiv> isqrt (n * 4 ^ k)"
  shows "\<lceil>(of_nat (if m \<le> f * f + f then f else f + 1) :: rat) / 2 ^ k\<rceil> = int d"
proof -
  define y where "y = (if m \<le> f * f + f then f else f + 1)"
  have f: "f * f \<le> m" "m < (f + 1) * (f + 1)"
    using isqrt_bounds[of m] by (simp_all add: f_def m_def)
  have four: "(4 :: nat) ^ k = 2 ^ k * 2 ^ k" by (simp flip: power_mult_distrib)
  have dpos: "0 < d" using d by (cases d) auto
  have le: "y \<le> d * 2 ^ k"
  proof -
    have top: "m \<le> (d * 2 ^ k) * (d * 2 ^ k)"
      using mult_le_mono1[OF d(2), of "4 ^ k"] by (simp add: m_def four ac_simps)
    then have "f * f \<le> (d * 2 ^ k) * (d * 2 ^ k)" using f(1) by linarith
    then have fle: "f \<le> d * 2 ^ k" by (simp flip: power2_eq_square add: power2_le_iff_abs_le)
    show ?thesis
    proof (cases "f = d * 2 ^ k")
      case True
      with top have "m \<le> f * f + f" by simp
      with True show ?thesis by (simp add: y_def)
    next
      case False
      with fle show ?thesis by (simp add: y_def)
    qed
  qed
  define a where "a = (d - 1) * 2 ^ k"
  have lo: "a * a + 4 ^ k \<le> m"
    using mult_le_mono1[of "(d - 1) * (d - 1) + 1" n "4 ^ k"] d(1) by (simp add: m_def a_def four algebra_simps)
  have "a < 4 ^ k" using k by (simp add: a_def four)
  then have am: "a * a + a < m" using lo by linarith
  have gt: "a < y"
  proof (rule ccontr)
    assume "\<not> a < y"
    then have "f \<le> a" by (auto simp: y_def split: if_splits)
    moreover have "\<not> f < a"
    proof
      assume "f < a"
      then have "(f + 1) * (f + 1) \<le> a * a" by (intro mult_le_mono) simp_all
      with f(2) lo show False by linarith
    qed
    ultimately have "f = a" by simp
    with am \<open>\<not> a < y\<close> show False by (simp add: y_def)
  qed
  have "of_nat d - 1 < of_nat y / (2 ^ k :: rat)"
  proof -
    have "of_nat a < (of_nat y :: rat)" using gt by simp
    then show ?thesis using dpos by (simp add: a_def pos_less_divide_eq of_nat_diff)
  qed
  moreover have "of_nat y / (2 ^ k :: rat) \<le> of_nat d"
  proof -
    have "(of_nat y :: rat) \<le> of_nat (d * 2 ^ k)" using le by (simp only: of_nat_le_iff)
    then show ?thesis by (simp add: pos_divide_le_eq)
  qed
  ultimately show ?thesis unfolding y_def[symmetric] by (simp add: ceiling_eq_iff)
qed

lemma exponent_nat_bound:
  assumes "0 < n" and "n < 2 ^ 52"
  shows "nat (exponent (of_nat n)) \<le> 51"
proof (rule ccontr)
  assume "\<not> nat (exponent (of_nat n)) \<le> 51"
  then have "pow2 52 \<le> pow2 (exponent (of_nat n))" by (intro pow2_mono) linarith
  also have "\<dots> \<le> of_nat n" using assms(1) by (intro exponent_le) simp
  finally have "(of_nat (2 ^ 52) :: rat) \<le> of_nat n" by (simp add: pow2_def)
  with assms(2) show False unfolding of_nat_le_iff by simp
qed

text \<open>The least dimension whose square has room for \<open>n\<close> pixels.\<close>

definition least_dim :: "nat \<Rightarrow> nat" where
  "least_dim n = (if n = 0 then 0 else isqrt (n - 1) + 1)"

lemma least_dim_bounds: "0 < n \<Longrightarrow> (least_dim n - 1) * (least_dim n - 1) < n \<and> n \<le> least_dim n * least_dim n"
  using isqrt_bounds[of "n - 1"] by (cases n) (simp_all add: least_dim_def less_Suc_eq_le)

lemma least_dim_le: "n \<le> d * d \<Longrightarrow> least_dim n \<le> d"
proof (rule ccontr)
  assume n: "n \<le> d * d" and "\<not> least_dim n \<le> d"
  then have pos: "0 < n" and "d \<le> least_dim n - 1" by (auto simp: least_dim_def split: if_splits)
  then have "d * d \<le> (least_dim n - 1) * (least_dim n - 1)" by (intro mult_le_mono)
  with least_dim_bounds[OF pos] n show False by linarith
qed

lemma image_dim_of_least:
  assumes "n < 2 ^ 52"
  shows "image_dim_of n = Inr (of_nat (least_dim n))" and "least_dim n \<le> 2 ^ 26"
proof -
  show small: "least_dim n \<le> 2 ^ 26" using assms by (intro least_dim_le) simp
  show "image_dim_of n = Inr (of_nat (least_dim n))"
  proof (cases "n = 0")
    case True
    then show ?thesis by (simp add: image_dim_of_def least_dim_def sqrt_double_def dround_def)
  next
    case False
    define k where "k = 52 - nat (exponent (of_nat n)) div 2"
    have "27 \<le> k" using exponent_nat_bound[of n] False assms by (simp add: k_def)
    then have "(2 :: nat) ^ 27 \<le> 2 ^ k" by (intro power_increasing) simp_all
    with small have "least_dim n - 1 < 2 ^ k" by simp
    then have root: "\<lceil>sqrt_double n\<rceil> = int (least_dim n)"
      using ceil_root[of "least_dim n" n k] least_dim_bounds[of n] False
      unfolding sqrt_double_def Let_def k_def by simp
    have "nat \<lfloor>dround (of_nat n)\<rfloor> = n" using dround_nat[of n] assms by simp
    then have "image_dim_of n = (if int (least_dim n) < 2 ^ 32 then Inr (of_int (int (least_dim n))) else ub ''conversion to unsigned'')"
      by (simp only: image_dim_of_def Let_def root)
    with small show ?thesis by simp
  qed
qed

section \<open>What is painted\<close>

definition line_color :: "string list \<Rightarrow> colormap \<Rightarrow> colormap \<Rightarrow> string \<Rightarrow> Color option" where
  \<comment> \<open>as the help text says: \<open>on_map\<close> for the strings of the input, \<open>off_map\<close> for the others\<close>
  "line_color input off on s = (if s \<in> set input then on s else off s)"

lemma paint_line_eq:
  "paint_line input off on s c img =
     (case line_color input off on s of Some color \<Rightarrow> img @ [(c, pixel_of color)] | None \<Rightarrow> img)"
  by (simp add: paint_line_def line_color_def)

fun painted :: "string list \<Rightarrow> colormap \<Rightarrow> colormap \<Rightarrow> (u32 \<times> u32) list \<Rightarrow> string list \<Rightarrow> writes" where
  "painted input off on (c # cs) (s # ss) =
     (case line_color input off on s of Some color \<Rightarrow> [(c, pixel_of color)] | None \<Rightarrow> []) @ painted input off on cs ss"
| "painted input off on _ _ = []"

lemma painted_map_of:
  assumes "distinct cs" "i < length cs" "i < length ss"
  shows "map_of (rev (painted input off on cs ss)) (cs ! i) = map_option pixel_of (line_color input off on (ss ! i))"
  using assms
proof (induction input off on cs ss arbitrary: i rule: painted.induct)
  case (1 input off on c cs s ss)
  have keys: "fst ` set (painted input off on cs' ss') \<subseteq> set cs'" for cs' ss'
    by (induction input off on cs' ss' rule: painted.induct) (auto split: option.splits)
  then have fresh: "map_of (rev (painted input off on cs ss)) c = None"
    using 1(2) by (auto simp: map_of_eq_None_iff)
  show ?case
  proof (cases i)
    case 0
    with fresh show ?thesis by (auto simp: map_add_def split: option.splits)
  next
    case (Suc j)
    with 1 have IH: "map_of (rev (painted input off on cs ss)) (cs ! j) = map_option pixel_of (line_color input off on (ss ! j))"
      and "cs ! j \<noteq> c" by auto
    with Suc show ?thesis by (auto simp: map_add_def split: option.splits)
  qed
qed simp_all

lemma painted_keys: "fst ` set (painted input off on cs ss) \<subseteq> set (take (length ss) cs)"
  by (induction input off on cs ss rule: painted.induct) (auto split: option.splits)

subsection \<open>The initial fill\<close>

lemma fill_row_set: "set (fill_row w y p x0) = {((x, y), p) | x. x0 \<le> x \<and> x < w}"
proof (induction w y p x0 rule: fill_row.induct)
  case (1 w y p x0)
  show ?case
  proof (cases "x0 < w")
    case True
    have "x0 \<le> x \<longleftrightarrow> x = x0 \<or> x0 + 1 \<le> x" for x
      using unat_Suc_less[OF True] by (auto simp: word_le_nat_alt word_unat_eq_iff)
    with 1 True show ?thesis by (subst fill_row.simps) auto
  qed (auto simp: fill_row.simps)
qed

lemma fill_image_set: "set (fill_image w p y0) = {((x, y), p) | x y. y0 \<le> y \<and> y < w \<and> x < w}"
proof (induction w p y0 rule: fill_image.induct)
  case (1 w p y0)
  show ?case
  proof (cases "y0 < w")
    case True
    have "y0 \<le> y \<longleftrightarrow> y = y0 \<or> y0 + 1 \<le> y" for y
      using unat_Suc_less[OF True] by (auto simp: word_le_nat_alt word_unat_eq_iff)
    with 1 True show ?thesis by (subst fill_image.simps) (auto simp: fill_row_set)
  qed (auto simp: fill_image.simps)
qed

lemma map_of_constant: "\<forall>e \<in> set xs. snd e = p \<Longrightarrow> map_of xs k = (if k \<in> fst ` set xs then Some p else None)"
  by (induction xs) auto

lemma fill_image_lookup: "map_of (rev (fill_image w p 0)) (x, y) = (if x < w \<and> y < w then Some p else None)"
  using map_of_constant[of "rev (fill_image w p 0)" p "(x, y)"] by (auto simp: fill_image_set image_iff)

subsection \<open>The painting loop on any space-filling curve\<close>

context space_filling
begin

definition cell_words :: "u32 \<Rightarrow> nat \<Rightarrow> u32 \<times> u32" where
  "cell_words w i = (of_nat (fst (cell w i)), of_nat (snd (cell w i)))"

lemma paint_loop_run:
  assumes w: "0 < w" "unat w \<le> 2 ^ 16" and n: "length domain \<le> width w * width w" "length domain < 2 ^ 32"
    and "i \<le> length domain"
  shows "paint_loop domain input off on (of_nat i) ((sfc_next ^^ i) (start w)) img =
    retR (img @ painted input off on (map (cell_words w) [i..<length domain]) (drop i domain))"
  using assms(5)
proof (induction "length domain - i" arbitrary: i img)
  case 0
  then show ?case using n by (subst paint_loop.simps) (simp add: unat_of_nat)
next
  case (Suc k)
  have i: "i < length domain" "unat (of_nat i :: u32) = i" using Suc n by (simp_all add: unat_of_nat)
  have c: "sfc_get_coords ((sfc_next ^^ i) (start w)) = retR (cell_words w i)"
    using coords[OF w] i n by (simp add: cell_words_def)
  have step: "paint_loop domain input off on (of_nat (Suc i)) ((sfc_next ^^ Suc i) (start w)) img' =
      retR (img' @ painted input off on (map (cell_words w) [Suc i..<length domain]) (drop (Suc i) domain))" for img'
    using Suc by (intro Suc.hyps(1)) simp_all
  have "drop i domain = domain ! i # drop (Suc i) domain" "[i..<length domain] = i # [Suc i..<length domain]"
    using i by (simp_all add: Cons_nth_drop_Suc upt_conv_Cons)
  then show ?case
    using i c step by (subst paint_loop.simps) (auto simp: paint_line_eq add.commute split: option.splits)
qed

lemma cell_words_distinct:
  assumes w: "0 < w" "unat w \<le> 2 ^ 16" and n: "n \<le> width w * width w"
  shows "distinct (map (cell_words w) [0..<n])"
proof -
  have "inj_on (cell_words w) {..<n}"
  proof (rule inj_onI)
    fix i j assume ij: "i \<in> {..<n}" "j \<in> {..<n}" "cell_words w i = cell_words w j"
    have small: "fst (cell w k) < 2 ^ 32 \<and> snd (cell w k) < 2 ^ 32" if "k < n" for k
      using cell_inside[OF w, of k] width_fits[OF w] that n by simp
    have "cell w i = cell w j"
      using ij small[of i] small[of j] by (auto simp: cell_words_def of_nat_u32_eq prod_eq_iff)
    then show "i = j" using cell_inj[OF w] ij n by (auto dest: inj_onD)
  qed
  then show ?thesis by (simp add: distinct_map atLeast0LessThan)
qed

lemma painted_image:
  assumes w: "0 < w" "unat w \<le> 2 ^ 16" and n: "length domain \<le> width w * width w" "length domain < 2 ^ 32"
  obtains img where
    "paint_loop domain input off on 0 (start w) (fill_image (of_nat (width w)) p 0) = retR img"
    "\<And>i. i < length domain \<Longrightarrow> pixel_at img (cell w i) =
       Some (case line_color input off on (domain ! i) of Some c \<Rightarrow> pixel_of c | None \<Rightarrow> p)"
    "\<And>i. length domain \<le> i \<Longrightarrow> i < width w * width w \<Longrightarrow> pixel_at img (cell w i) = Some p"
proof
  define cs where "cs = map (cell_words w) [0..<length domain]"
  let ?P = "painted input off on cs domain" and ?F = "fill_image (of_nat (width w)) p 0"
  show "paint_loop domain input off on 0 (start w) ?F = retR (?F @ ?P)"
    using paint_loop_run[OF w n, of 0] by (simp add: cs_def)
  have wd: "unat (of_nat (width w) :: u32) = width w" using width_fits[OF w] by (simp add: unat_of_nat)
  have look: "pixel_at (?F @ ?P) (cell w i) = (case map_of (rev ?P) (cell_words w i) of Some q \<Rightarrow> Some q | None \<Rightarrow> Some p)"
    if "i < width w * width w" for i
  proof -
    have "cell_words w i = (of_nat (fst (cell w i)), of_nat (snd (cell w i)))"
      "(of_nat (fst (cell w i)) :: u32) < of_nat (width w)" "(of_nat (snd (cell w i)) :: u32) < of_nat (width w)"
      using cell_inside[OF w that] width_fits[OF w] by (simp_all add: cell_words_def word_less_nat_alt wd unat_of_nat)
    then show ?thesis
      by (auto simp: pixel_at_def map_add_def fill_image_lookup split: option.splits)
  qed
  show "pixel_at (?F @ ?P) (cell w i) = Some (case line_color input off on (domain ! i) of Some c \<Rightarrow> pixel_of c | None \<Rightarrow> p)"
    if "i < length domain" for i
    using look[of i] painted_map_of[of cs i domain input off on] cell_words_distinct[OF w n(1)] that n
    by (auto simp: cs_def split: option.splits)
  show "pixel_at (?F @ ?P) (cell w i) = Some p" if i: "length domain \<le> i" "i < width w * width w" for i
  proof -
    have "cell_words w i \<notin> set cs"
      using cell_words_distinct[OF w, of "Suc i"] i by (auto simp: cs_def image_iff)
    then have "map_of (rev ?P) (cell_words w i) = None"
      using painted_keys[of input off on cs domain] by (auto simp: map_of_eq_None_iff dest!: set_take_subset[THEN subsetD])
    then show ?thesis using look[OF i(2)] by simp
  qed
qed

lemma painted_square:
  assumes w: "0 < w" "unat w \<le> 2 ^ 16" and n: "length domain \<le> unat w * unat w" "length domain < 2 ^ 32"
    and v: "v = of_nat (width w)"
  shows "\<exists>img. paint_loop domain input off on 0 (start w) (fill_image v p 0) = retR img \<and>
    unat v = width w \<and> bij_betw (cell w) {..<unat v * unat v} ({..<unat v} \<times> {..<unat v}) \<and>
    length domain \<le> unat v * unat v \<and>
    (\<forall>i < unat v * unat v. pixel_at img (cell w i) =
       Some (if i < length domain then (case line_color input off on (domain ! i) of Some c \<Rightarrow> pixel_of c | None \<Rightarrow> p) else p))"
proof -
  have uv: "unat v = width w" using width_fits[OF w] by (simp add: v unat_of_nat)
  have "unat w * unat w \<le> width w * width w" using width_fits[OF w] by (intro mult_le_mono) simp_all
  with n have n': "length domain \<le> width w * width w" by simp
  obtain img where "paint_loop domain input off on 0 (start w) (fill_image v p 0) = retR img"
    "\<And>i. i < length domain \<Longrightarrow> pixel_at img (cell w i) =
       Some (case line_color input off on (domain ! i) of Some c \<Rightarrow> pixel_of c | None \<Rightarrow> p)"
    "\<And>i. length domain \<le> i \<Longrightarrow> i < width w * width w \<Longrightarrow> pixel_at img (cell w i) = Some p"
    using painted_image[OF w n' n(2)] unfolding v by blast
  with uv n' cell_bij[OF w] show ?thesis by auto
qed

end

section \<open>The chosen curve\<close>

lemma power_loop_run:
  assumes "unat w \<le> 2 ^ 31" and "j \<le> level (unat w)"
  shows "power_loop w (2 ^ j) = retR (2 ^ level (unat w))"
  using assms(2)
proof (induction "level (unat w) - j" arbitrary: j)
  case 0
  have "level (unat w) \<le> 31" using level_bound[OF assms(1)] .
  with 0 have "\<not> (2 ^ j :: u32) < w" by (simp add: word_less_nat_alt unat_p2 level_iff)
  with 0 show ?case by (simp add: power_loop.simps[of w])
next
  case (Suc k)
  have "level (unat w) \<le> 31" using level_bound[OF assms(1)] .
  with Suc have "(2 ^ j :: u32) < w" by (simp add: word_less_nat_alt unat_p2 level_iff)
  moreover have "power_loop w (2 ^ Suc j) = retR (2 ^ level (unat w))"
    using Suc by (intro Suc.hyps(1)) simp_all
  ultimately show ?case by (subst power_loop.simps) (simp add: mult.commute)
qed

definition curve_width :: "string list \<Rightarrow> u32 \<Rightarrow> nat" where
  "curve_width ts w = (if ts \<noteq> [] \<and> hd ts = ''hilbert'' then hilbert_width w else unat w)"

definition curve_cell :: "string list \<Rightarrow> u32 \<Rightarrow> nat \<Rightarrow> nat \<times> nat" where
  "curve_cell ts w i =
     (if ts \<noteq> [] \<and> hd ts = ''hilbert'' then hilbert_cell w i
      else if ts \<noteq> [] \<and> hd ts = ''spiral'' then spiral_cell w i
      else lines_cell w i)"

definition curve_known :: "string list \<Rightarrow> bool" where
  "curve_known ts \<longleftrightarrow> ts = [] \<or> hd ts = ''lines'' \<or> hd ts = ''spiral'' \<or> hd ts = ''hilbert''"

lemma choose_curve_width:
  assumes "curve_known ts" and "unat w \<le> 2 ^ 16"
  obtains sfc where "choose_curve ts w = retR (sfc, of_nat (curve_width ts w))"
proof (cases "ts \<noteq> [] \<and> hd ts = ''hilbert''")
  case True
  then show ?thesis
    using that power_loop_run[of w 0] assms(2)
    by (cases ts) (auto simp: choose_curve_def curve_width_def hilbert_width_def)
next
  case False
  then show ?thesis
    using that assms(1) by (cases ts) (auto simp: choose_curve_def curve_width_def curve_known_def)
qed

lemma curve_painted:
  assumes ts: "curve_known ts" and w: "0 < w" "unat w \<le> 2 ^ 16"
    and n: "length domain \<le> unat w * unat w" "length domain < 2 ^ 32"
    and sfc: "choose_curve ts w = retR (sfc, v)"
  shows "\<exists>img. paint_loop domain input off on 0 sfc (fill_image v p 0) = retR img \<and>
    unat v = curve_width ts w \<and>
    bij_betw (curve_cell ts w) {..<unat v * unat v} ({..<unat v} \<times> {..<unat v}) \<and>
    length domain \<le> unat v * unat v \<and>
    (\<forall>i < unat v * unat v. pixel_at img (curve_cell ts w i) =
       Some (if i < length domain then (case line_color input off on (domain ! i) of Some c \<Rightarrow> pixel_of c | None \<Rightarrow> p) else p))"
proof -
  from ts consider "ts \<noteq> []" "hd ts = ''hilbert''" | "ts \<noteq> []" "hd ts = ''spiral''" | "ts = [] \<or> hd ts = ''lines''"
    by (auto simp: curve_known_def)
  then show ?thesis
  proof cases
    case 1
    then have "curve_cell ts w = hilbert_cell w" by (simp add: curve_cell_def fun_eq_iff)
    moreover have "choose_curve ts w = retR (new_SFC_Hilbert w, of_nat (hilbert_width w))"
      using 1 w(2) power_loop_run[of w 0] by (cases ts) (simp_all add: choose_curve_def hilbert_width_def)
    ultimately show ?thesis
      using 1 sfc hilbert.painted_square[OF w n, of v] by (simp add: curve_width_def)
  next
    case 2
    then have "curve_cell ts w = spiral_cell w" by (simp add: curve_cell_def fun_eq_iff)
    moreover have "choose_curve ts w = retR (new_SFC_Spiral w, w)"
      using 2 by (cases ts) (simp_all add: choose_curve_def)
    ultimately show ?thesis
      using 2 sfc spiral.painted_square[OF w n, of v] by (simp add: curve_width_def)
  next
    case 3
    then have "curve_cell ts w = lines_cell w" by (auto simp: curve_cell_def fun_eq_iff)
    moreover have "choose_curve ts w = retR (new_SFC_Lines w, w)"
      using 3 by (cases ts) (auto simp: choose_curve_def)
    ultimately show ?thesis
      using 3 sfc lines.painted_square[OF w n, of v] by (auto simp: curve_width_def)
  qed
qed

lemma curve_dimension:
  assumes "0 < n" and "n < 2 ^ 32"
  obtains w where "image_dim_of n = Inr w" and "0 < w" and "unat w = least_dim n" and "unat w \<le> 2 ^ 16"
    and "n \<le> unat w * unat w"
proof -
  have le: "least_dim n \<le> 2 ^ 16" using assms(2) by (intro least_dim_le) simp
  then have u: "unat (of_nat (least_dim n) :: u32) = least_dim n" by (simp add: unat_of_nat)
  have "0 < least_dim n" using assms(1) by (simp add: least_dim_def)
  with u have "0 < (of_nat (least_dim n) :: u32)" by (simp add: word_less_nat_alt)
  then show ?thesis
    using that[of "of_nat (least_dim n)"] u le image_dim_of_least(1)[of n] least_dim_bounds[OF assms(1)] assms(2)
    by simp
qed

end
