(* ===== verification/Kcov.thy ===== *)
theory Kcov
  imports Runs "HOL-Library.List_Lexorder" "HOL-Library.Char_ord"
begin

text \<open>
  The preload library \<^verbatim>\<open>kcov-lib.cc\<close> (Linux, 64-bit kernel, without \<^verbatim>\<open>DEBUG\<close>), which records the
  basic blocks of the kernel a program executes, and \<^verbatim>\<open>sortuniq.cc\<close>. The file-scope variables are
  a record; the answers of the system calls in one call of a function are an argument, and the
  calls that change descriptors or write are collected in a log. The contents of the shared memory
  when recording stops are an argument as well, because the kernel writes them.
\<close>

unbundle bit_operations_syntax

section \<open>State\<close>

datatype kcov_mode_t = KCOV_TRACE_PC | KCOV_TRACE_UNIQUE_PC

datatype handler = SIG_DFL | SIG_IGN | SignalHandler | OtherHandler nat

datatype syscall =
    IoctlDisable int
  | Munmap
  | Close int
  | Write int string
  | CallHandler nat
  | Exit int
  | RaiseTerm

record kcov =
  kcov_mode :: kcov_mode_t
  kcov_fd :: int
  out_fd :: int
  foreign_fd :: bool
  sortuniq_cover :: "u64 list"
  k_mapped :: bool        \<comment> \<open>\<open>area\<close> points to the shared memory\<close>
  area_size :: u64
  pcs_size :: u64
  kcov_mode_env :: "string option"
  environ :: "string \<rightharpoonup> string"
  sa_segv :: handler
  sa_term :: handler
  old_segv :: handler
  old_term :: handler
  k_log :: "syscall list"

record kcov_sys =
  sys_getfd :: "int \<Rightarrow> int"          \<comment> \<open>\<open>fcntl(fd, F_GETFD)\<close>\<close>
  sys_rlimit :: "u64 option"
  sys_open_out :: "string \<Rightarrow> int"
  sys_open_kcov :: int
  sys_init_unique :: int
  sys_init_trace :: int
  sys_mmap :: bool
  sys_enable :: int
  sys_progname :: string

definition BASE_ADDRESS :: u64 where "BASE_ADDRESS = 0xffffffff81000000"
definition COVER_SIZE :: nat where "COVER_SIZE = 16 * 2 ^ 20"
definition MAX_PATH_NAME :: nat where "MAX_PATH_NAME = 100"

definition sysc :: "syscall \<Rightarrow> kcov \<Rightarrow> kcov" where
  "sysc c k = k\<lparr>k_log := k_log k @ [c]\<rparr>"

definition kcov_initial :: "(string \<rightharpoonup> string) \<Rightarrow> handler \<Rightarrow> handler \<Rightarrow> kcov" where
  \<comment> \<open>static variables are zero: in particular \<open>kcov_fd\<close> is 0, the descriptor of standard input\<close>
  "kcov_initial env segv term = \<lparr>kcov_mode = KCOV_TRACE_UNIQUE_PC, kcov_fd = 0, out_fd = 0, foreign_fd = False,
     sortuniq_cover = [], k_mapped = False, area_size = 0, pcs_size = 0, kcov_mode_env = None, environ = env,
     sa_segv = segv, sa_term = term, old_segv = SIG_DFL, old_term = SIG_DFL, k_log = []\<rparr>"

section \<open>Environment\<close>

definition cleanup_kcov :: "kcov \<Rightarrow> kcov" where
  "cleanup_kcov k =
     (let k1 = sysc (Close (kcov_fd k)) (sysc Munmap (sysc (IoctlDisable (kcov_fd k)) k));
          k2 = (if foreign_fd k1 then k1 else sysc (Close (out_fd k1)) k1)
      in k2\<lparr>foreign_fd := False, kcov_fd := -1, out_fd := -1, area_size := 0, k_mapped := False,
           environ := (environ k2)(''KCOV_CTL_FD'' := None, ''KCOV_ERR_FD'' := None, ''KCOV_OUT_FD'' := None)\<rparr>)"

definition int_of_long :: "int \<Rightarrow> int" where
  "int_of_long i = sint (word_of_int i :: u32)"

definition strtol10 :: "string \<Rightarrow> int" where
  "strtol10 s = (case scan_number 10 s of None \<Rightarrow> 0
     | Some (neg, n) \<Rightarrow> if neg then max (- (2 ^ 63)) (- int n) else min (2 ^ 63 - 1) (int n))"

definition sscanf_fd :: "string \<Rightarrow> int \<times> int option" where
  \<comment> \<open>\<open>sscanf(s, "fd:%d", ...)\<close> on a string that starts with \<open>fd\<close>: the result, negative only at the
      end of the input, and the number\<close>
  "sscanf_fd s =
     (let rest = drop 2 s
      in if rest = [] then (-1, None)
         else if hd rest \<noteq> CHR '':'' then (0, None)
         else if dropWhile is_space (tl rest) = [] then (-1, None)
         else (case scan_number 10 (tl rest) of None \<Rightarrow> (0, None) | Some _ \<Rightarrow> (1, Some (int_of_long (strtol10 (tl rest))))))"

definition fd_gone :: "kcov \<Rightarrow> kcov" where
  "fd_gone k = k\<lparr>kcov_fd := -1, out_fd := -1\<rparr>"

definition resume_env :: "kcov_sys \<Rightarrow> string \<Rightarrow> kcov \<Rightarrow> bool \<times> kcov" where
  \<comment> \<open>descriptors inherited through the environment; false: \<open>parse_env\<close> returns\<close>
  "resume_env sys ctl k =
     (let k1 = k\<lparr>kcov_fd := int_of_long (strtol10 ctl)\<rparr>
      in if sys_getfd sys (kcov_fd k1) \<noteq> 0 then (False, fd_gone k1)
         else (case environ k1 ''KCOV_OUT_FD'' of
             None \<Rightarrow> (True, cleanup_kcov k1)
           | Some s \<Rightarrow>
               (let k2 = k1\<lparr>out_fd := int_of_long (strtol10 s)\<rparr>
                in if sys_getfd sys (out_fd k2) \<noteq> 0 then (False, fd_gone k2) else (True, cleanup_kcov k2))))"

definition use_given_fd :: "kcov_sys \<Rightarrow> string \<Rightarrow> kcov \<Rightarrow> kcov" where
  "use_given_fd sys kcov_out k =
     (case sscanf_fd kcov_out of (ret, v) \<Rightarrow>
        if ret < 0 \<and> sys_rlimit sys = None then cleanup_kcov k
        else
          (let k1 = (if ret < 0 then k\<lparr>out_fd := int_of_long (uint (the (sys_rlimit sys) - 1))\<rparr>
                     else (case v of None \<Rightarrow> k | Some fd \<Rightarrow> k\<lparr>out_fd := fd\<rparr>))
           in if sys_getfd sys (out_fd k1) \<noteq> 0 then cleanup_kcov k1 else k1\<lparr>foreign_fd := True\<rparr>))"

definition open_output :: "kcov_sys \<Rightarrow> string \<Rightarrow> kcov \<Rightarrow> kcov" where
  "open_output sys kcov_out k =
     (let name = (if kcov_out = ''progname'' then take (MAX_PATH_NAME - 1) (sys_progname sys @ ''.map'') else kcov_out);
          fd = sys_open_out sys name
      in k\<lparr>out_fd := fd, environ := (environ k)(''KCOV_OUT_FD'' \<mapsto> dec_of_int fd)\<rparr>)"

definition parse_env :: "kcov_sys \<Rightarrow> kcov \<Rightarrow> kcov" where
  "parse_env sys k =
     (let kcov_out = environ k ''KCOV_OUT'';
          k1 = k\<lparr>kcov_mode_env := environ k ''KCOV_MODE''\<rparr>;
          (go, k2) = (case environ k1 ''KCOV_CTL_FD'' of None \<Rightarrow> (True, k1) | Some ctl \<Rightarrow> resume_env sys ctl k1)
      in if \<not> go then k2
         else (case kcov_out of
             None \<Rightarrow> k2
           | Some s \<Rightarrow> if take 2 s = ''fd'' then use_given_fd sys s k2 else open_output sys s k2))"

definition setup_signal_handler :: "kcov \<Rightarrow> kcov" where
  "setup_signal_handler k =
     (let k1 = (if sa_segv k \<noteq> SignalHandler then k\<lparr>old_segv := sa_segv k, sa_segv := SignalHandler\<rparr> else k)
      in if sa_term k1 \<noteq> SignalHandler then k1\<lparr>old_term := sa_term k1, sa_term := SignalHandler\<rparr> else k1)"

section \<open>Start\<close>

definition give_up :: "kcov \<Rightarrow> kcov" where
  "give_up k = (sysc (Close (kcov_fd k)) k)\<lparr>kcov_fd := -1\<rparr>"

definition choose_mode :: "kcov \<Rightarrow> kcov_mode_t option" where
  "choose_mode k = (case kcov_mode_env k of
       None \<Rightarrow> Some KCOV_TRACE_UNIQUE_PC
     | Some s \<Rightarrow> if s = ''trace_order'' then Some KCOV_TRACE_PC
                 else if s = ''trace_unique'' then Some KCOV_TRACE_UNIQUE_PC else None)"

definition init_buffer :: "kcov_sys \<Rightarrow> kcov \<Rightarrow> kcov option" where
  "init_buffer sys k = (case kcov_mode k of
       KCOV_TRACE_UNIQUE_PC \<Rightarrow>
         if sys_init_unique sys = -1 then None
         else Some (k\<lparr>area_size := word_of_int (sys_init_unique sys),
                    pcs_size := word_of_int (sys_init_unique sys) div 8\<rparr>)
     | KCOV_TRACE_PC \<Rightarrow>
         (let k1 = k\<lparr>area_size := of_nat (COVER_SIZE * 8)\<rparr>
          in if sys_init_trace sys = -1 then None else Some k1))"

definition map_and_enable :: "kcov_sys \<Rightarrow> kcov \<Rightarrow> kcov" where
  "map_and_enable sys k =
     (if \<not> sys_mmap sys then give_up k
      else if sys_enable sys \<noteq> 0 then give_up (sysc Munmap (k\<lparr>k_mapped := True\<rparr>))
      else k\<lparr>k_mapped := True, environ := (environ k)(''KCOV_CTL_FD'' \<mapsto> dec_of_int (kcov_fd k))\<rparr>)"

definition start_kcov :: "kcov_sys \<Rightarrow> kcov \<Rightarrow> kcov" where
  "start_kcov sys k =
     (if kcov_fd k > 0 then k
      else
        (let k1 = parse_env sys ((setup_signal_handler k)\<lparr>out_fd := -1\<rparr>)
         in if out_fd k1 < 0 then k1
            else
              (let k2 = k1\<lparr>kcov_fd := sys_open_kcov sys\<rparr>
               in if kcov_fd k2 = -1 then k2
                  else (case choose_mode k2 of
                      None \<Rightarrow> give_up k2
                    | Some mode \<Rightarrow>
                        (case init_buffer sys (k2\<lparr>kcov_mode := mode\<rparr>) of
                           None \<Rightarrow> give_up (k2\<lparr>kcov_mode := mode\<rparr>)
                         | Some k3 \<Rightarrow> map_and_enable sys k3)))))"

section \<open>Output\<close>

definition hex_line :: "u64 \<Rightarrow> string" where
  "hex_line w = ''0x'' @ hex_of_nat (unat w)"

fun dump_bits :: "int \<Rightarrow> u64 \<Rightarrow> u64 \<Rightarrow> nat list \<Rightarrow> kcov \<Rightarrow> kcov" where
  \<comment> \<open>the inner loop over the bits of one word\<close>
  "dump_bits fd i w [] k = k"
| "dump_bits fd i w (j # js) k =
     dump_bits fd i w js
       (if w AND push_bit j 1 \<noteq> 0 then sysc (Write fd (hex_line (BASE_ADDRESS + (i * 64 + of_nat j)))) k else k)"

fun dump_words :: "u64 list \<Rightarrow> nat list \<Rightarrow> kcov \<Rightarrow> kcov res" where
  "dump_words area [] k = Inr k"
| "dump_words area (i # is) k =
     (if i < length area then dump_words area is (dump_bits (out_fd k) (of_nat i) (area ! i) [0..<64] k)
      else Inl (UndefinedBehaviour ''read behind the shared memory''))"

fun collect :: "u64 list \<Rightarrow> nat list \<Rightarrow> u64 list \<Rightarrow> u64 list res" where
  "collect area [] s = Inr s"
| "collect area (i # is) s =
     (if i + 1 < length area then collect area is (set_insert (area ! (i + 1)) s)
      else Inl (UndefinedBehaviour ''read behind the shared memory''))"

definition finish_kcov :: "u64 list \<Rightarrow> kcov \<Rightarrow> kcov res" where
  "finish_kcov area k0 =
     (if kcov_fd k0 < 1 then Inr k0
      else
        (let k = sysc (IoctlDisable (kcov_fd k0)) k0
         in case kcov_mode k of
              KCOV_TRACE_UNIQUE_PC \<Rightarrow>
                bindE (dump_words area [0..<unat (pcs_size k)] k) (\<lambda>k1. Inr (cleanup_kcov k1))
            | KCOV_TRACE_PC \<Rightarrow>
                (if area = [] then Inl (UndefinedBehaviour ''read behind the shared memory'')
                 else bindE (collect area [0..<unat (area ! 0)] (sortuniq_cover k)) (\<lambda>s.
                   let k1 = k\<lparr>sortuniq_cover := s\<rparr>;
                       k2 = fold (\<lambda>elem. sysc (Write (out_fd k1) (hex_line elem))) s k1
                   in Inr (cleanup_kcov k2)))))"

definition call_old :: "handler \<Rightarrow> kcov \<Rightarrow> kcov res" where
  \<comment> \<open>a call through the saved pointer; \<open>SIG_IGN\<close> is the address 1\<close>
  "call_old h k = (case h of
       SIG_DFL \<Rightarrow> Inr k
     | OtherHandler n \<Rightarrow> Inr (sysc (CallHandler n) k)
     | SIG_IGN \<Rightarrow> Inl (UndefinedBehaviour ''call of SIG_IGN'')
     | SignalHandler \<Rightarrow> Inl (Aborted ''recursive handler''))"   \<comment> \<open>never saved\<close>

definition signal_segv :: "u64 list \<Rightarrow> kcov \<Rightarrow> kcov res" where
  "signal_segv area k = bindE (finish_kcov area k) (\<lambda>k1. bindE (call_old (old_segv k1) k1) (\<lambda>k2. Inr (sysc (Exit 1) k2)))"

definition signal_term :: "u64 list \<Rightarrow> kcov \<Rightarrow> kcov res" where
  \<comment> \<open>the handler is installed with \<open>SA_RESETHAND\<close>\<close>
  "signal_term area k = bindE (finish_kcov area (k\<lparr>sa_term := SIG_DFL\<rparr>)) (\<lambda>k1. bindE (call_old (old_term k1) k1) (\<lambda>k2. Inr (sysc RaiseTerm k2)))"

definition fork_child :: "kcov_sys \<Rightarrow> kcov \<Rightarrow> kcov" where
  \<comment> \<open>what \<open>fork\<close> does in the child; the parent is not changed\<close>
  "fork_child sys k = (if kcov_fd k > 0 then start_kcov sys (cleanup_kcov k) else k)"

section \<open>sort and uniq\<close>

definition sortuniq :: "string list \<Rightarrow> string list" where
  \<comment> \<open>the whole program: the lines of the input to the lines of the output\<close>
  "sortuniq ls = fold set_insert ls []"

section \<open>What is written\<close>

text \<open>The lines written to a descriptor.\<close>

fun written :: "int \<Rightarrow> syscall list \<Rightarrow> string list" where
  "written fd [] = []"
| "written fd (Write fd' s # cs) = (if fd = fd' then [s] else []) @ written fd cs"
| "written fd (c # cs) = written fd cs"

lemma written_append [simp]: "written fd (xs @ ys) = written fd xs @ written fd ys"
  by (induction fd xs rule: written.induct) simp_all

lemma written_writes [simp]: "written fd (map (Write fd) ss) = ss"
  by (induction ss) simp_all

lemma sysc_fields [simp]:
  "kcov_fd (sysc c k) = kcov_fd k" "out_fd (sysc c k) = out_fd k" "foreign_fd (sysc c k) = foreign_fd k"
  "kcov_mode (sysc c k) = kcov_mode k" "pcs_size (sysc c k) = pcs_size k" "environ (sysc c k) = environ k"
  "sortuniq_cover (sysc c k) = sortuniq_cover k" "k_log (sysc c k) = k_log k @ [c]"
  by (simp_all add: sysc_def)

lemma stoull_hex_line: "stoull 16 (hex_line w) = Inr w"
proof -
  obtain c cs where c: "hex_of_nat (unat w) = c # cs" "digit_in 16 c \<noteq> None"
    using hex_of_nat_Cons by blast
  then have "skip_prefix 16 (''0x'' @ hex_of_nat (unat w)) = hex_of_nat (unat w)"
    by (simp add: skip_prefix_def)
  then have "scan_number 16 (hex_line w) = Some (False, unat w)"
    using scan_hex[of "unat w"] by (simp add: scan_number_def hex_line_def is_space_def Let_def)
  then show ?thesis
    using unsigned_less[of w, where ?'a = nat] by (simp add: stoull_def)
qed

definition bit_lines :: "u64 \<Rightarrow> u64 \<Rightarrow> nat list \<Rightarrow> string list" where
  "bit_lines i w js = map (\<lambda>j. hex_line (BASE_ADDRESS + (i * 64 + of_nat j))) (filter (bit w) js)"

lemma dump_bits_eq:
  "\<forall>j \<in> set js. j < 64 \<Longrightarrow> dump_bits fd i w js k = k\<lparr>k_log := k_log k @ map (Write fd) (bit_lines i w js)\<rparr>"
  by (induction js arbitrary: k) (simp_all add: bit_lines_def and_exp_eq_0_iff_not_bit sysc_def)

lemma dump_words_eq:
  assumes "\<forall>i \<in> set is. i < length area"
  shows "dump_words area is k =
    Inr (k\<lparr>k_log := k_log k @ map (Write (out_fd k)) (concat (map (\<lambda>i. bit_lines (of_nat i) (area ! i) [0..<64]) is))\<rparr>)"
  using assms by (induction "is" arbitrary: k) (simp_all add: dump_bits_eq)

lemma dump_words_behind: "\<not> (\<forall>i \<in> set is. i < length area) \<Longrightarrow> \<exists>e. dump_words area is k = Inl e"
  by (induction "is" arbitrary: k) auto

definition covered_bits :: "u64 list \<Rightarrow> nat \<Rightarrow> nat list" where
  "covered_bits area n = filter (\<lambda>p. bit (area ! (p div 64)) (p mod 64)) [0..<64 * n]"

lemma covered_bits_Suc:
  "covered_bits area (Suc n) = covered_bits area n @ map (\<lambda>j. 64 * n + j) (filter (bit (area ! n)) [0..<64])"
proof -
  have "[0..<64 * Suc n] = [0..<64 * n] @ map (\<lambda>j. 64 * n + j) [0..<64]"
    using upt_add_eq_append[of 0 "64 * n" 64] map_add_upt[of "64 * n" 64] by (simp add: add.commute)
  moreover have "filter (\<lambda>p. bit (area ! (p div 64)) (p mod 64)) (map (\<lambda>j. 64 * n + j) [0..<64]) =
      map (\<lambda>j. 64 * n + j) (filter (bit (area ! n)) [0..<64])"
    unfolding filter_map by (rule arg_cong[where f = "map _"], rule filter_cong) simp_all
  ultimately show ?thesis by (simp add: covered_bits_def)
qed

lemma unique_lines:
  "concat (map (\<lambda>i. bit_lines (of_nat i) (area ! i) [0..<64]) [0..<n]) =
     map (\<lambda>p. hex_line (BASE_ADDRESS + of_nat p)) (covered_bits area n)"
proof (induction n)
  case 0
  then show ?case by (simp add: covered_bits_def)
next
  case (Suc n)
  then show ?case by (simp add: covered_bits_Suc bit_lines_def mult.commute)
qed

lemma cleanup_log:
  "k_log (cleanup_kcov k) = k_log k @ [IoctlDisable (kcov_fd k), Munmap, Close (kcov_fd k)] @
     (if foreign_fd k then [] else [Close (out_fd k)])"
  by (simp add: cleanup_kcov_def Let_def)

lemma finish_unique:
  assumes "kcov_fd k \<ge> 1" "kcov_mode k = KCOV_TRACE_UNIQUE_PC" "unat (pcs_size k) \<le> length area"
  obtains k' where "finish_kcov area k = Inr (cleanup_kcov k')" and "kcov_fd k' = kcov_fd k" "out_fd k' = out_fd k"
    "foreign_fd k' = foreign_fd k" and "k_log k' = k_log k @ [IoctlDisable (kcov_fd k)] @
      map (Write (out_fd k)) (map (\<lambda>p. hex_line (BASE_ADDRESS + of_nat p)) (covered_bits area (unat (pcs_size k))))"
  using that assms by (simp add: finish_kcov_def Let_def dump_words_eq unique_lines)

lemma collect_eq:
  assumes "\<forall>i \<in> set is. i + 1 < length area"
  shows "collect area is s = Inr (fold set_insert (map (\<lambda>i. area ! (i + 1)) is) s)"
  using assms by (induction "is" arbitrary: s) simp_all

lemma collect_behind: "\<not> (\<forall>i \<in> set is. i + 1 < length area) \<Longrightarrow> \<exists>e. collect area is s = Inl (UndefinedBehaviour e)"
  by (induction "is" arbitrary: s) auto

lemma fold_writes:
  "fold (\<lambda>elem. sysc (Write fd (hex_line elem))) s k = k\<lparr>k_log := k_log k @ map (Write fd) (map hex_line s)\<rparr>"
  by (induction s arbitrary: k) (simp_all add: sysc_def)

lemma finish_trace:
  assumes "kcov_fd k \<ge> 1" "kcov_mode k = KCOV_TRACE_PC" and n: "unat (area ! 0) < length area"
  obtains k' s where "finish_kcov area k = Inr (cleanup_kcov k')" and "kcov_fd k' = kcov_fd k" "out_fd k' = out_fd k"
    "foreign_fd k' = foreign_fd k"
    "s = fold set_insert (take (unat (area ! 0)) (tl area)) (sortuniq_cover k)"
    "k_log k' = k_log k @ [IoctlDisable (kcov_fd k)] @ map (Write (out_fd k)) (map hex_line s)"
proof -
  have "area \<noteq> []" using n by auto
  moreover have "map (\<lambda>i. area ! (i + 1)) [0..<unat (area ! 0)] = take (unat (area ! 0)) (tl area)"
    using n by (intro nth_equalityI) (auto simp: nth_tl)
  moreover have "\<forall>i \<in> set [0..<unat (area ! 0)]. i + 1 < length area" using n by auto
  ultimately show ?thesis
    using that assms by (simp add: finish_kcov_def Let_def collect_eq fold_writes del: upt_Suc)
qed

lemma finish_trace_behind:
  assumes "kcov_fd k \<ge> 1" "kcov_mode k = KCOV_TRACE_PC" and n: "\<not> unat (area ! 0) < length area"
  shows "\<exists>s. finish_kcov area k = Inl (UndefinedBehaviour s)"
proof (cases "area = []")
  case False
  then have "\<not> (\<forall>i \<in> set [0..<unat (area ! 0)]. i + 1 < length area)"
    using n by (cases area) (auto simp: not_less Suc_le_eq)
  then obtain s where "collect area [0..<unat (area ! 0)] (sortuniq_cover k) = Inl (UndefinedBehaviour s)"
    using collect_behind by blast
  with assms(1,2) False show ?thesis by (simp add: finish_kcov_def Let_def)
qed (use assms in \<open>simp add: finish_kcov_def Let_def\<close>)

section \<open>The life of a traced process\<close>

text \<open>
  What the system calls promise: \<open>open\<close> returns a descriptor or -1, and a negative number is not a
  descriptor.
\<close>

definition sys_ok :: "kcov_sys \<Rightarrow> bool" where
  "sys_ok sys \<longleftrightarrow> (\<forall>n. - 1 \<le> sys_open_out sys n \<and> sys_open_out sys n < 2 ^ 31) \<and>
     - 1 \<le> sys_open_kcov sys \<and> sys_open_kcov sys < 2 ^ 31 \<and> (\<forall>fd < 0. sys_getfd sys fd \<noteq> 0)"

text \<open>
  The library is loaded with some environment, started, finished at the end of the process, forked,
  and loaded again into a program that the process executes.
\<close>

inductive kcov_reach :: "kcov \<Rightarrow> bool" where
  load: "kcov_reach (kcov_initial env segv term)" if "env ''KCOV_CTL_FD'' = None"
| start: "kcov_reach (start_kcov sys k)" if "kcov_reach k" "sys_ok sys"
| finish: "kcov_reach k'" if "kcov_reach k" "finish_kcov area k = Inr k'"
| fork: "kcov_reach (fork_child sys k)" if "kcov_reach k" "sys_ok sys"
| exec: "kcov_reach (kcov_initial (environ k) segv term)" if "kcov_reach k"

definition tracing_inv :: "kcov \<Rightarrow> bool" where
  "tracing_inv k \<longleftrightarrow> (kcov_fd k > 0 \<longrightarrow> k_mapped k \<and> kcov_fd k < 2 ^ 31 \<and> 0 \<le> out_fd k \<and> out_fd k < 2 ^ 31 \<and>
     environ k ''KCOV_CTL_FD'' = Some (dec_of_int (kcov_fd k)) \<and>
     (\<not> foreign_fd k \<longrightarrow> environ k ''KCOV_OUT_FD'' = Some (dec_of_int (out_fd k))))"

lemma cleanup_fields [simp]:
  "kcov_fd (cleanup_kcov k) = -1" "out_fd (cleanup_kcov k) = -1" "foreign_fd (cleanup_kcov k) = False"
  by (simp_all add: cleanup_kcov_def Let_def)

lemma int_of_long_bound: "int_of_long i < 2 ^ 31"
  using sint_range_size[of "word_of_int i :: u32"] by (simp add: int_of_long_def word_size)

definition env_ready :: "kcov \<Rightarrow> bool" where
  "env_ready k \<longleftrightarrow> kcov_fd k \<le> 0 \<and> out_fd k < 2 ^ 31 \<and>
     (0 \<le> out_fd k \<longrightarrow> \<not> foreign_fd k \<longrightarrow> environ k ''KCOV_OUT_FD'' = Some (dec_of_int (out_fd k)))"

lemma env_ready_closed: "env_ready (cleanup_kcov k)" "env_ready (fd_gone k)"
  by (simp_all add: env_ready_def fd_gone_def)

lemma fd_gone_out [simp]: "out_fd (fd_gone k) = -1"
  by (simp add: fd_gone_def)

lemma resume_env_ready: "resume_env sys ctl k = (go, k') \<Longrightarrow> env_ready k' \<and> out_fd k' = -1"
  by (auto simp: resume_env_def Let_def env_ready_closed split: if_splits option.splits)

lemma use_given_fd_ready:
  assumes "sys_ok sys" "kcov_fd k \<le> 0" "out_fd k = -1"
  shows "env_ready (use_given_fd sys s k)"
  using assms env_ready_closed int_of_long_bound
  by (auto simp: use_given_fd_def sscanf_fd_def Let_def env_ready_def split: option.splits)

lemma parse_env_ready:
  assumes "sys_ok sys" "kcov_fd k \<le> 0" "out_fd k = -1"
  shows "env_ready (parse_env sys k)"
proof -
  let ?k1 = "k\<lparr>kcov_mode_env := environ k ''KCOV_MODE''\<rparr>"
  obtain go k2 where k2: "(case environ k ''KCOV_CTL_FD'' of None \<Rightarrow> (True, ?k1) | Some ctl \<Rightarrow> resume_env sys ctl ?k1) = (go, k2)"
    by fastforce
  then have "env_ready k2 \<and> out_fd k2 = -1"
    using assms resume_env_ready by (auto simp: env_ready_def split: option.splits)
  then have "env_ready (use_given_fd sys s k2)" "env_ready (open_output sys s k2)" "env_ready k2" for s
    using assms(1) use_given_fd_ready[OF assms(1), of k2 s]
    by (auto simp: env_ready_def open_output_def Let_def sys_ok_def)
  with k2 show ?thesis by (auto simp: parse_env_def Let_def split: option.splits prod.splits)
qed

lemma setup_signal_fields [simp]:
  "kcov_fd (setup_signal_handler k) = kcov_fd k" "environ (setup_signal_handler k) = environ k"
  "k_log (setup_signal_handler k) = k_log k" "foreign_fd (setup_signal_handler k) = foreign_fd k"
  by (simp_all add: setup_signal_handler_def Let_def)

lemma init_buffer_fields:
  "init_buffer sys k = Some k' \<Longrightarrow> kcov_fd k' = kcov_fd k \<and> out_fd k' = out_fd k \<and> foreign_fd k' = foreign_fd k \<and>
     environ k' = environ k"
  by (auto simp: init_buffer_def Let_def split: kcov_mode_t.splits if_splits)

lemma start_kcov_inv:
  assumes "sys_ok sys" "tracing_inv k"
  shows "tracing_inv (start_kcov sys k)"
proof (cases "kcov_fd k > 0")
  case True
  with assms show ?thesis by (simp add: start_kcov_def)
next
  case False
  define k1 where "k1 = parse_env sys ((setup_signal_handler k)\<lparr>out_fd := -1\<rparr>)"
  have "env_ready k1" unfolding k1_def using assms(1) False by (intro parse_env_ready) simp_all
  then show ?thesis
    using False assms(1)
    by (auto simp: start_kcov_def k1_def[symmetric] Let_def tracing_inv_def env_ready_def sys_ok_def give_up_def
        map_and_enable_def split: option.splits dest!: init_buffer_fields)
qed

lemma finish_kcov_inv:
  assumes "tracing_inv k" "finish_kcov area k = Inr k'"
  shows "tracing_inv k'"
  using assms
  by (auto simp: finish_kcov_def tracing_inv_def Let_def res_simps split: if_splits kcov_mode_t.splits)

lemma initial_tracing_inv: "tracing_inv (kcov_initial env segv term)"
  by (simp add: kcov_initial_def tracing_inv_def)

lemma reach_tracing_inv: "kcov_reach k \<Longrightarrow> tracing_inv k"
proof (induction rule: kcov_reach.induct)
  case (fork k sys)
  have "tracing_inv (cleanup_kcov k)" by (simp add: tracing_inv_def)
  with fork show ?case by (simp add: fork_child_def start_kcov_inv)
qed (simp_all add: start_kcov_inv finish_kcov_inv initial_tracing_inv)

text \<open>A descriptor survives the way through the environment.\<close>

lemma digits_nonneg_first: "\<exists>c cs. dec_of_nat n = c # cs \<and> digit_in 10 c \<noteq> None"
  using scan_dec[of n] by (cases "dec_of_nat n") auto

lemma scan_dec_of_nat: "scan_number 10 (dec_of_nat n) = Some (False, n)"
proof -
  obtain c cs where s: "dec_of_nat n = c # cs" and c: "digit_in 10 c \<noteq> None"
    using digits_nonneg_first by blast
  then have "\<not> is_space c" "c \<noteq> CHR ''-''" "c \<noteq> CHR ''+''"
    using digit_not_space digit_not_sign by fastforce+
  moreover have "skip_prefix 10 (c # cs) = c # cs"
    by (simp add: skip_prefix_def split: list.splits)
  ultimately show ?thesis using scan_dec[of n] by (simp add: scan_number_def s Let_def)
qed

lemma fd_through_env:
  assumes "0 \<le> fd" "fd < 2 ^ 31"
  shows "int_of_long (strtol10 (dec_of_int fd)) = fd"
proof -
  have "strtol10 (dec_of_int fd) = fd"
    using assms by (simp add: strtol10_def dec_of_int_def scan_dec_of_nat)
  then show ?thesis using assms by (simp add: int_of_long_def signed_of_int signed_take_bit_int_eq_self)
qed

lemma parse_env_resumes:
  assumes ctl: "environ k ''KCOV_CTL_FD'' = Some (dec_of_int fd)" "0 \<le> fd" "fd < 2 ^ 31"
    and out: "environ k ''KCOV_OUT_FD'' = Some (dec_of_int ofd)" "0 \<le> ofd" "ofd < 2 ^ 31"
    and live: "sys_getfd sys fd = 0" "sys_getfd sys ofd = 0"
    and k: "\<not> foreign_fd k"
  shows "\<exists>cs. k_log (parse_env sys k) = k_log k @ [IoctlDisable fd, Munmap, Close fd, Close ofd] @ cs"
proof -
  let ?k1 = "k\<lparr>kcov_mode_env := environ k ''KCOV_MODE''\<rparr>"
  define k2 where "k2 = cleanup_kcov (?k1\<lparr>kcov_fd := fd, out_fd := ofd\<rparr>)"
  have "resume_env sys (dec_of_int fd) ?k1 = (True, k2)"
    using assms by (simp add: resume_env_def Let_def fd_through_env k2_def)
  moreover have "k_log k2 = k_log k @ [IoctlDisable fd, Munmap, Close fd, Close ofd]"
    using k by (simp add: k2_def cleanup_log)
  moreover have "\<exists>cs. k_log (use_given_fd sys s k2) = k_log k2 @ cs" "\<exists>cs. k_log (open_output sys s k2) = k_log k2 @ cs" for s
    by (auto simp: use_given_fd_def open_output_def Let_def cleanup_log split: prod.splits option.splits)
  ultimately show ?thesis
    using ctl by (auto simp: parse_env_def Let_def split: option.splits)
qed

lemma start_kcov_log:
  assumes "kcov_fd k \<le> 0"
  shows "\<exists>cs. k_log (start_kcov sys k) = k_log (parse_env sys ((setup_signal_handler k)\<lparr>out_fd := -1\<rparr>)) @ cs"
proof -
  have buf: "k_log k' = k_log k" if "init_buffer sys k = Some k'" for k k'
    using that by (auto simp: init_buffer_def Let_def split: kcov_mode_t.splits if_splits)
  show ?thesis
    using assms by (auto simp: start_kcov_def Let_def give_up_def map_and_enable_def split: option.splits dest!: buf)
qed

text \<open>The recorded addresses stay sorted and without duplicates, also over several recordings.\<close>

lemma cleanup_sorted [simp]: "sortuniq_cover (cleanup_kcov k) = sortuniq_cover k"
  by (simp add: cleanup_kcov_def Let_def)

lemma resume_env_sorted: "sortuniq_cover (snd (resume_env sys ctl k)) = sortuniq_cover k"
  by (simp add: resume_env_def fd_gone_def Let_def split: option.split)

lemma use_given_fd_sorted: "sortuniq_cover (use_given_fd sys s k) = sortuniq_cover k"
  by (simp add: use_given_fd_def Let_def split: prod.split option.split)

lemma open_output_sorted: "sortuniq_cover (open_output sys s k) = sortuniq_cover k"
  by (simp add: open_output_def Let_def)

lemma parse_env_sorted: "sortuniq_cover (parse_env sys k) = sortuniq_cover k"
proof -
  let ?k1 = "k\<lparr>kcov_mode_env := environ k ''KCOV_MODE''\<rparr>"
  obtain go k2 where k2: "(case environ k ''KCOV_CTL_FD'' of None \<Rightarrow> (True, ?k1) | Some ctl \<Rightarrow> resume_env sys ctl ?k1) = (go, k2)"
    by fastforce
  then have "sortuniq_cover k2 = sortuniq_cover k"
    using resume_env_sorted[of sys _ ?k1] by (auto split: option.splits) (metis snd_conv)
  then have "sortuniq_cover (use_given_fd sys s k2) = sortuniq_cover k" "sortuniq_cover (open_output sys s k2) = sortuniq_cover k"
    "sortuniq_cover k2 = sortuniq_cover k" for s
    by (simp_all add: use_given_fd_sorted open_output_sorted)
  with k2 show ?thesis by (auto simp: parse_env_def Let_def split: option.splits prod.splits)
qed

lemma start_kcov_sorted: "sortuniq_cover (start_kcov sys k) = sortuniq_cover k"
proof -
  have buf: "sortuniq_cover k' = sortuniq_cover k" if "init_buffer sys k = Some k'" for k k'
    using that by (auto simp: init_buffer_def Let_def split: kcov_mode_t.splits if_splits)
  have "sortuniq_cover (setup_signal_handler k) = sortuniq_cover k" by (simp add: setup_signal_handler_def Let_def)
  then show ?thesis
    by (auto simp: start_kcov_def Let_def give_up_def map_and_enable_def parse_env_sorted split: option.splits dest!: buf)
qed

lemma collect_sorted: "collect area is s = Inr s' \<Longrightarrow> sorted_wrt (<) s \<Longrightarrow> sorted_wrt (<) s'"
  by (induction "is" arbitrary: s) (auto simp: sorted_set_insert split: if_splits)

lemma dump_words_sorted: "dump_words area is k = Inr k' \<Longrightarrow> sortuniq_cover k' = sortuniq_cover k"
  by (induction "is" arbitrary: k) (auto simp: dump_bits_eq split: if_splits)

lemma fold_writes_sorted: "sortuniq_cover (fold (\<lambda>elem. sysc (Write fd (hex_line elem))) s k) = sortuniq_cover k"
  by (simp add: fold_writes)

lemma finish_kcov_sorted:
  assumes "finish_kcov area k = Inr k'" "sorted_wrt (<) (sortuniq_cover k)"
  shows "sorted_wrt (<) (sortuniq_cover k')"
proof (cases "kcov_fd k < 1")
  case False
  show ?thesis
  proof (cases "kcov_mode k")
    case KCOV_TRACE_PC
    then obtain s where "collect area [0..<unat (area ! 0)] (sortuniq_cover k) = Inr s" "sortuniq_cover k' = s"
      using assms(1) False by (auto simp: finish_kcov_def Let_def res_simps fold_writes_sorted split: if_splits)
    with assms(2) show ?thesis by (auto dest: collect_sorted)
  next
    case KCOV_TRACE_UNIQUE_PC
    then have "sortuniq_cover k' = sortuniq_cover k"
      using assms(1) False by (auto simp: finish_kcov_def Let_def res_simps dest!: dump_words_sorted)
    with assms(2) show ?thesis by simp
  qed
qed (use assms in \<open>simp add: finish_kcov_def\<close>)

lemma reach_sorted: "kcov_reach k \<Longrightarrow> sorted_wrt (<) (sortuniq_cover k)"
proof (induction rule: kcov_reach.induct)
  case (finish k area k')
  then show ?case by (auto dest: finish_kcov_sorted)
qed (simp_all add: start_kcov_sorted fork_child_def kcov_initial_def)

end
