(* ===== verification/Gcov_Io.thy ===== *)
theory Gcov_Io
  imports Runs
begin

text \<open>
  Reading of gcov notes files (\<^verbatim>\<open>gcov-io.h\<close>, \<^verbatim>\<open>gcov-io.cpp\<close>). The reader keeps a window of the
  file in a buffer and hands out pointers into it. A file is the list of its whole 32-bit words
  (up to three bytes behind the last one are never delivered) with the position of the next read.
  A pointer is an index into the buffer, together with the number of the allocation it belongs to:
  it must not be used after the buffer was reallocated. Memory never runs out.

  The theory shows that the window is invisible: reads return the words of the file in order, and
  positions and jumps refer to the file.
\<close>

unbundle bit_operations_syntax

section \<open>Constants\<close>

definition GCOV_TAG_FUNCTION :: u32 where "GCOV_TAG_FUNCTION = 0x01000000"
definition GCOV_TAG_LINES :: u32 where "GCOV_TAG_LINES = 0x01450000"
definition GCOV_DATA_MAGIC :: u32 where "GCOV_DATA_MAGIC = 0x67636461"
definition GCOV_NOTE_MAGIC :: u32 where "GCOV_NOTE_MAGIC = 0x67636e6f"
definition GCOV_BLOCK_SIZE :: u64 where "GCOV_BLOCK_SIZE = 1024"

definition GCOV_TAG_MASK :: "u32 \<Rightarrow> u32" where
  "GCOV_TAG_MASK t = (t - 1) XOR t"

definition GCOV_TAG_IS_SUBTAG :: "u32 \<Rightarrow> u32 \<Rightarrow> bool" where
  "GCOV_TAG_IS_SUBTAG t sub \<longleftrightarrow>
     drop_bit 8 (GCOV_TAG_MASK t) = GCOV_TAG_MASK sub \<and> (sub XOR t) AND NOT (GCOV_TAG_MASK t) = 0"

section \<open>The reader\<close>

record gcov_var =
  gv_file :: "(u32 list \<times> nat) option"
  gv_start :: u32
  gv_offset :: u32
  gv_length :: u32
  gv_overread :: u32
  gv_error :: int
  gv_mode :: int
  gv_endian :: bool
  gv_alloc :: u64
  gv_buffer :: "u32 list"
  gv_gen :: nat

type_synonym gcov_ptr = "nat \<times> nat"   \<comment> \<open>allocation and index\<close>

definition gcov_var_initial :: gcov_var where
  "gcov_var_initial = \<lparr>gv_file = None, gv_start = 0, gv_offset = 0, gv_length = 0, gv_overread = 0, gv_error = 0,
     gv_mode = 0, gv_endian = False, gv_alloc = 0, gv_buffer = [], gv_gen = 0\<rparr>"

definition gcov_open :: "(string \<Rightarrow> string \<Rightarrow> u32 list option) \<Rightarrow> string \<Rightarrow> int \<Rightarrow> gcov_var \<Rightarrow> int \<times> gcov_var" where
  "gcov_open fopen name mode g =
     (let g1 = g\<lparr>gv_start := 0, gv_offset := 0, gv_length := 0, gv_overread := -1, gv_error := 0, gv_endian := False\<rparr>;
          g2 = (if mode \<ge> 0
                then g1\<lparr>gv_file := map_option (\<lambda>ws. (ws, 0)) (fopen name (if mode > 0 then ''rb'' else ''r+b''))\<rparr>
                else g1);
          (mode', g3) =
            (if gv_file g2 \<noteq> None then (1, g2)
             else if mode \<le> 0 then (mode, g2\<lparr>gv_file := map_option (\<lambda>ws. (ws, 0)) (fopen name ''w+b'')\<rparr>)
             else (mode, g2))
      in if gv_file g3 = None then (0, g3) else (1, g3\<lparr>gv_mode := (if mode' \<noteq> 0 then mode' else 1)\<rparr>))"

definition gcov_close :: "gcov_var \<Rightarrow> int \<times> gcov_var" where
  "gcov_close g =
     (let g1 = (if gv_file g \<noteq> None then g\<lparr>gv_file := None, gv_length := 0\<rparr> else g)
      in (gv_error g1, g1\<lparr>gv_alloc := 0, gv_buffer := [], gv_gen := gv_gen g1 + 1, gv_mode := 0\<rparr>))"

definition byte_swap :: "u32 \<Rightarrow> u32" where
  "byte_swap v =
     (let w = drop_bit 16 v OR push_bit 16 v
      in push_bit 8 (w AND 0xff00ff) OR (drop_bit 8 w AND 0xff00ff))"

definition gcov_magic :: "u32 \<Rightarrow> u32 \<Rightarrow> gcov_var \<Rightarrow> int \<times> gcov_var" where
  "gcov_magic magic expected g =
     (if magic = expected then (1, g)
      else if byte_swap magic = expected then (-1, g\<lparr>gv_endian := True\<rparr>)
      else (0, g))"

definition gcov_allocate :: "u32 \<Rightarrow> gcov_var \<Rightarrow> gcov_var" where
  "gcov_allocate len g =
     (let n0 = (if gv_alloc g = 0 then GCOV_BLOCK_SIZE else gv_alloc g);
          new_size = (n0 + ucast len) * 2
      in g\<lparr>gv_alloc := new_size, gv_gen := gv_gen g + 1,
          gv_buffer := gv_buffer g @ replicate (unat new_size - length (gv_buffer g)) 0\<rparr>)"

definition from_file :: "u32 \<Rightarrow> gcov_var \<Rightarrow> u32" where
  "from_file v g = (if gv_endian g then byte_swap v else v)"

definition memcpy_words :: "nat \<Rightarrow> u32 list \<Rightarrow> u32 list \<Rightarrow> u32 list" where
  \<comment> \<open>the buffer after words are stored from index \<open>i\<close> on\<close>
  "memcpy_words i ws buf = take i buf @ ws @ drop (i + length ws) buf"

definition fread_words :: "u32 \<Rightarrow> gcov_var \<Rightarrow> u32 list \<times> gcov_var" where
  \<comment> \<open>\<open>fread\<close> of up to \<open>4 * excess\<close> bytes: the whole words that were read\<close>
  "fread_words excess g = (case gv_file g of
       None \<Rightarrow> ([], g)
     | Some (ws, p) \<Rightarrow>
         (let got = take (unat (push_bit 2 excess) div 4) (drop p ws)
          in (got, g\<lparr>gv_file := Some (ws, p + length got)\<rparr>)))"

definition gcov_refill :: "u32 \<Rightarrow> gcov_var \<Rightarrow> gcov_var" where
  \<comment> \<open>the first part of \<open>gcov_read_words\<close>: move the rest of the window to the front and read on\<close>
  "gcov_refill words g =
     (let excess = gv_length g - gv_offset g;
          g1 = g\<lparr>gv_start := gv_start g + gv_offset g,
                gv_buffer := memcpy_words 0 (take (unat excess) (drop (unat (gv_offset g)) (gv_buffer g))) (gv_buffer g),
                gv_offset := 0, gv_length := excess\<rparr>;
          g2 = (if gv_alloc g1 < ucast (gv_length g1 + words) then gcov_allocate (gv_length g1 + words) g1 else g1);
          (got, g3) = fread_words (ucast (gv_alloc g2 - ucast (gv_length g2))) g2
      in g3\<lparr>gv_buffer := memcpy_words (unat (gv_length g3)) got (gv_buffer g3),
           gv_length := gv_length g3 + of_nat (length got)\<rparr>)"

definition gcov_read_words :: "u32 \<Rightarrow> gcov_var \<Rightarrow> gcov_ptr option \<times> gcov_var" where
  "gcov_read_words words g =
     (if gv_mode g \<le> 0 then (None, g)
      else if gv_length g - gv_offset g < words then
        (let g1 = gcov_refill words g
         in if gv_length g1 < words
            then (None, g1\<lparr>gv_overread := gv_overread g1 + (words - gv_length g1), gv_length := 0\<rparr>)
            else (Some (gv_gen g1, unat (gv_offset g1)), g1\<lparr>gv_offset := gv_offset g1 + words\<rparr>))
      else (Some (gv_gen g, unat (gv_offset g)), g\<lparr>gv_offset := gv_offset g + words\<rparr>))"

definition gcov_read_unsigned :: "gcov_var \<Rightarrow> u32 \<times> gcov_var" where
  "gcov_read_unsigned g =
     (case gcov_read_words 1 g of (None, g1) \<Rightarrow> (0, g1) | (Some (_, i), g1) \<Rightarrow> (from_file (gv_buffer g1 ! i) g1, g1))"

definition gcov_position :: "gcov_var \<Rightarrow> u32" where
  "gcov_position g = gv_start g + gv_offset g"

definition gcov_sync :: "u32 \<Rightarrow> u32 \<Rightarrow> gcov_var \<Rightarrow> gcov_var" where
  "gcov_sync base0 len g =
     (let base = base0 + len
      in if base - gv_start g \<le> gv_length g then g\<lparr>gv_offset := base - gv_start g\<rparr>
         else
           (let pos = unat (push_bit 2 base) div 4
            in g\<lparr>gv_offset := 0, gv_length := 0,
                gv_file := map_option (\<lambda>(ws, _). (ws, pos)) (gv_file g), gv_start := of_nat pos\<rparr>))"

definition gcov_is_error :: "gcov_var \<Rightarrow> int" where
  "gcov_is_error g = (if gv_file g \<noteq> None then gv_error g else 1)"

definition gcov_read_string :: "gcov_var \<Rightarrow> gcov_ptr option \<times> gcov_var" where
  "gcov_read_string g =
     (case gcov_read_unsigned g of (len, g1) \<Rightarrow> if len = 0 then (None, g1) else gcov_read_words len g1)"

text \<open>The characters of a word in memory, and the string a pointer leads to.\<close>

definition word_chars :: "u32 \<Rightarrow> char list" where
  "word_chars w = map (\<lambda>i. char_of (unat (drop_bit (8 * i) w AND 0xff))) [0..<4]"

definition c_string :: "char list \<Rightarrow> string res" where
  "c_string cs = (if char_of (0 :: nat) \<in> set cs then Inr (takeWhile (\<lambda>c. c \<noteq> char_of (0 :: nat)) cs)
     else ub ''read behind the buffer'')"

definition gcov_string :: "gcov_ptr \<Rightarrow> gcov_var \<Rightarrow> string res" where
  "gcov_string p g = (case p of (gen, i) \<Rightarrow>
     if gen \<noteq> gv_gen g then ub ''use of a freed buffer''
     else c_string (concat (map word_chars (drop i (gv_buffer g)))))"

section \<open>The window is invisible\<close>

text \<open>
  The reader is open on the words \<open>ws\<close>, and the next word read is number \<open>p\<close>. The files considered
  have fewer than \<open>2^26\<close> words (256 MB), so that no position or buffer size wraps.
\<close>

definition reader_at :: "gcov_var \<Rightarrow> u32 list \<Rightarrow> nat \<Rightarrow> bool" where
  "reader_at g ws p \<longleftrightarrow> gv_mode g > 0 \<and> length ws < 2 ^ 26 \<and> p = unat (gv_start g) + unat (gv_offset g) \<and>
     gv_offset g \<le> gv_length g \<and> gv_file g = Some (ws, unat (gv_start g) + unat (gv_length g)) \<and>
     unat (gv_start g) + unat (gv_length g) \<le> length ws \<and>
     unat (gv_length g) \<le> unat (gv_alloc g) \<and> length (gv_buffer g) = unat (gv_alloc g) \<and>
     unat (gv_alloc g) \<le> 8 * length ws + 4096 \<and>
     take (unat (gv_length g)) (gv_buffer g) = take (unat (gv_length g)) (drop (unat (gv_start g)) ws)"

lemma unat_plus_small: "unat a + unat b < 2 ^ 32 \<Longrightarrow> unat (a + b :: u32) = unat a + unat b"
  by (simp add: unat_word_ariths)

lemma unat_minus_small: "b \<le> a \<Longrightarrow> unat (a - b :: u32) = unat a - unat b"
  by (simp add: unat_sub)

lemma unat_ucast64: "unat (ucast (a :: u32) :: u64) = unat a"
  using unsigned_less[of a, where ?'a = nat] by (simp add: unsigned_ucast_eq take_bit_nat_eq_self)

lemma unat_ucast32: "unat a < 2 ^ 32 \<Longrightarrow> unat (ucast (a :: u64) :: u32) = unat a"
  by (simp add: unsigned_ucast_eq take_bit_nat_eq_self)

lemma shift2_words: "unat a < 2 ^ 30 \<Longrightarrow> unat (push_bit 2 (a :: u32)) div 4 = unat a"
  by (simp add: push_bit_eq_mult unat_word_ariths(2))

lemma reader_fields:
  assumes "reader_at g ws p"
  shows "p \<le> length ws" and "unat (gcov_position g) = p"
proof -
  show "p \<le> length ws" using assms by (auto simp: reader_at_def word_le_nat_alt)
  then show "unat (gcov_position g) = p" using assms by (auto simp: reader_at_def gcov_position_def unat_plus_small)
qed

lemma allocate_buffer:
  assumes "length (gv_buffer g) = unat (gv_alloc g)" "unat (gv_alloc g) < unat n" "unat n \<le> 2 * length ws + 1" "length ws < 2 ^ 26"
  defines "g' \<equiv> gcov_allocate n g"
  shows "unat n \<le> unat (gv_alloc g')" and "unat (gv_alloc g') \<le> 8 * length ws + 4096"
    and "length (gv_buffer g') = unat (gv_alloc g')" and "\<exists>zs. gv_buffer g' = gv_buffer g @ zs"
proof -
  let ?n0 = "if gv_alloc g = 0 then GCOV_BLOCK_SIZE else gv_alloc g"
  have n0: "unat ?n0 \<le> 2 ^ 28" "unat ?n0 \<ge> unat (gv_alloc g)" "unat ?n0 \<le> 1024 \<or> unat ?n0 = unat (gv_alloc g)"
    using assms by (auto simp: GCOV_BLOCK_SIZE_def)
  have sum: "unat (?n0 + ucast n) = unat ?n0 + unat n"
    using n0(1) assms by (simp add: unat_word_ariths(1) unat_ucast64 del: if_split)
  define m where "m = ?n0 + ucast n"
  have "gv_alloc g' = m * 2" unfolding g'_def gcov_allocate_def Let_def m_def[symmetric] by simp
  moreover have m: "unat m = unat ?n0 + unat n" using sum by (simp only: m_def)
  ultimately have new: "unat (gv_alloc g') = (unat ?n0 + unat n) * 2"
    using n0(1) assms(3,4) by (simp add: unat_word_ariths(2) del: if_split)
  show "unat n \<le> unat (gv_alloc g')" using new by simp
  show "unat (gv_alloc g') \<le> 8 * length ws + 4096" using new n0(3) assms by auto
  have "gv_buffer g' = gv_buffer g @ replicate (unat (gv_alloc g') - length (gv_buffer g)) 0"
    by (simp add: g'_def gcov_allocate_def Let_def)
  moreover have "length (gv_buffer g) \<le> unat (gv_alloc g')"
    using new n0(2) assms(1) by (simp del: if_split)
  ultimately show "length (gv_buffer g') = unat (gv_alloc g')" "\<exists>zs. gv_buffer g' = gv_buffer g @ zs" by auto
qed

lemma take_memcpy_words:
  "i + length xs \<le> length buf \<Longrightarrow> take (i + length xs) (memcpy_words i xs buf) = take i buf @ xs \<and>
     length (memcpy_words i xs buf) = length buf"
  by (simp add: memcpy_words_def)

lemma gcov_allocate_fields [simp]:
  "gv_length (gcov_allocate n g) = gv_length g" "gv_offset (gcov_allocate n g) = gv_offset g"
  "gv_start (gcov_allocate n g) = gv_start g" "gv_file (gcov_allocate n g) = gv_file g"
  "gv_mode (gcov_allocate n g) = gv_mode g" "gv_endian (gcov_allocate n g) = gv_endian g"
  "gv_error (gcov_allocate n g) = gv_error g"
  by (simp_all add: gcov_allocate_def Let_def)

lemma gcov_refill_at:
  assumes at: "reader_at g ws p" and room: "p + unat words \<le> length ws \<or> words = 1"
    and need: "gv_length g - gv_offset g < words"
  defines "g' \<equiv> gcov_refill words g"
  shows "reader_at g' ws p" and "gv_offset g' = 0" and "p + unat words \<le> length ws \<Longrightarrow> words \<le> gv_length g'"
    and "gv_endian g' = gv_endian g" and "gv_error g' = gv_error g"
proof -
  note R = at[unfolded reader_at_def]
  define e where "e = gv_length g - gv_offset g"
  have e: "unat e = unat (gv_length g) - unat (gv_offset g)" using R by (simp add: e_def unat_minus_small)
  have ol: "unat (gv_offset g) \<le> unat (gv_length g)" using R by (simp add: word_le_nat_alt)
  have p: "p = unat (gv_start g) + unat (gv_offset g)" "p \<le> length ws" and len: "length ws < 2 ^ 26"
    using R reader_fields(1)[OF at] by auto
  have fp: "unat (gv_start g) + unat (gv_length g) = p + unat e" "p + unat e \<le> length ws"
    using R e ol p by auto
  define front where "front = take (unat e) (drop (unat (gv_offset g)) (gv_buffer g))"
  have front: "front = take (unat e) (drop p ws)"
  proof -
    have "front = drop (unat (gv_offset g)) (take (unat (gv_length g)) (gv_buffer g))"
      using e ol by (simp add: front_def drop_take)
    also have "\<dots> = drop (unat (gv_offset g)) (take (unat (gv_length g)) (drop (unat (gv_start g)) ws))"
      using R by simp
    also have "\<dots> = take (unat e) (drop p ws)" using e ol p by (simp add: drop_take add.commute)
    finally show ?thesis .
  qed
  have lf: "length front = unat e" using front fp p by simp
  define g1 where "g1 = g\<lparr>gv_start := gv_start g + gv_offset g, gv_buffer := memcpy_words 0 front (gv_buffer g),
    gv_offset := 0, gv_length := e\<rparr>"
  have lb: "length (gv_buffer g1) = unat (gv_alloc g)" "take (unat e) (gv_buffer g1) = front"
    using take_memcpy_words[of 0 front "gv_buffer g"] R e lf by (auto simp: g1_def)
  have ew: "unat (e + words) = unat e + unat words"
    using room fp p len e by (intro unat_plus_small) auto
  define g2 where "g2 = (if gv_alloc g1 < ucast (gv_length g1 + words) then gcov_allocate (gv_length g1 + words) g1 else g1)"
  have g2: "length (gv_buffer g2) = unat (gv_alloc g2)" "unat e + unat words \<le> unat (gv_alloc g2)"
    "unat (gv_alloc g2) \<le> 8 * length ws + 4096" "take (unat e) (gv_buffer g2) = front"
    "gv_length g2 = e" "gv_offset g2 = 0" "gv_start g2 = gv_start g + gv_offset g" "gv_file g2 = gv_file g"
    "gv_mode g2 = gv_mode g" "gv_endian g2 = gv_endian g" "gv_error g2 = gv_error g"
  proof -
    have alloc: "gv_alloc g1 = gv_alloc g" "gv_length g1 = e" by (simp_all add: g1_def)
    have "length (gv_buffer g2) = unat (gv_alloc g2) \<and> unat e + unat words \<le> unat (gv_alloc g2) \<and>
      unat (gv_alloc g2) \<le> 8 * length ws + 4096 \<and> take (unat e) (gv_buffer g2) = front"
    proof (cases "gv_alloc g < ucast (e + words)")
      case True
      then have less: "unat (gv_alloc g1) < unat (e + words)" using alloc by (simp add: word_less_nat_alt unat_ucast64)
      have "unat (e + words) \<le> 2 * length ws + 1" using ew room fp p(2) by auto
      from allocate_buffer[OF _ less this len] lb alloc lf True
      show ?thesis by (auto simp: g2_def ew)
    next
      case False
      then have "unat (e + words) \<le> unat (gv_alloc g)" by (simp add: word_less_nat_alt unat_ucast64 not_less)
      with False lb alloc R show ?thesis by (simp add: g2_def ew)
    qed
    then show "length (gv_buffer g2) = unat (gv_alloc g2)" "unat e + unat words \<le> unat (gv_alloc g2)"
      "unat (gv_alloc g2) \<le> 8 * length ws + 4096" "take (unat e) (gv_buffer g2) = front" by simp_all
  qed (simp_all add: g2_def g1_def)
  define room' where "room' = unat (gv_alloc g2) - unat e"
  have ex: "unat (ucast (gv_alloc g2 - ucast (gv_length g2)) :: u32) = room'"
  proof -
    have "unat (gv_alloc g2 - ucast (gv_length g2)) = room'"
      using g2 by (subst unat_sub) (simp_all add: word_le_nat_alt unat_ucast64 room'_def)
    then show ?thesis using g2(3) len by (subst unat_ucast32) (simp_all add: room'_def)
  qed
  define got where "got = take room' (drop (p + unat e) ws)"
  have fr: "fread_words (ucast (gv_alloc g2 - ucast (gv_length g2))) g2 =
      (got, g2\<lparr>gv_file := Some (ws, p + unat e + length got)\<rparr>)"
  proof -
    have "room' < 2 ^ 30" using g2(3) len by (simp add: room'_def)
    then have "unat (push_bit 2 (ucast (gv_alloc g2 - ucast (gv_length g2)) :: u32)) div 4 = room'"
      using shift2_words[of "ucast (gv_alloc g2 - ucast (gv_length g2))"] by (simp only: ex)
    moreover have "gv_file g2 = Some (ws, p + unat e)" using R fp(1) g2(8) by simp
    ultimately show ?thesis by (simp add: fread_words_def got_def Let_def)
  qed
  have lg: "length got = min room' (length ws - (p + unat e))" by (simp add: got_def)
  have g': "g' = g2\<lparr>gv_file := Some (ws, p + unat e + length got),
      gv_buffer := memcpy_words (unat e) got (gv_buffer g2), gv_length := e + of_nat (length got)\<rparr>"
    unfolding g'_def gcov_refill_def Let_def e_def[symmetric] front_def[symmetric] g1_def[symmetric] g2_def[symmetric]
    using g2(5) fr by simp
  have nl: "unat (e + of_nat (length got)) = unat e + length got"
    using lg fp len by (subst unat_plus_small) (simp_all add: unat_of_nat)
  have fits: "unat e + length got \<le> length (gv_buffer g2)" using lg g2(1,2) by (simp add: room'_def)
  have "take (length got) (drop (p + unat e) ws) = got" by (simp add: got_def min_def)
  then have "take (unat e + length got) (drop p ws) = front @ got"
    using front by (simp only: take_add drop_drop add.commute[of "unat e" p])
  then have content: "take (unat e + length got) (gv_buffer g') = take (unat e + length got) (drop p ws)"
    "length (gv_buffer g') = unat (gv_alloc g2)"
    using take_memcpy_words[OF fits] g2 by (simp_all add: g')
  have st: "unat (gv_start g + gv_offset g) = p" using p len by (simp add: unat_plus_small)
  have "gv_mode g > 0" using R by simp
  moreover have "p + (unat e + length got) \<le> length ws" using lg fp(2) by simp
  ultimately show "reader_at g' ws p"
    unfolding reader_at_def using content st nl g2 len fits by (simp add: g' ac_simps)
  show "gv_offset g' = 0" "gv_endian g' = gv_endian g" "gv_error g' = gv_error g" using g2 by (simp_all add: g')
  show "words \<le> gv_length g'" if "p + unat words \<le> length ws"
    using that nl lg g2(2) fp by (auto simp: g' word_le_nat_alt room'_def min_def)
qed

text \<open>
  The laws of the reader its client relies on. A read of words that are there returns a pointer to
  them and moves behind them; a read at the end of the file returns nothing.
\<close>

lemma gcov_read_words_at:
  assumes at: "reader_at g ws p" and room: "p + unat n \<le> length ws"
  obtains i g' where "gcov_read_words n g = (Some (gv_gen g', i), g')" and "reader_at g' ws (p + unat n)"
    and "take (unat n) (drop i (gv_buffer g')) = take (unat n) (drop p ws)" "i + unat n \<le> length (gv_buffer g')"
    and "gv_endian g' = gv_endian g" "gv_error g' = gv_error g"
proof -
  define h where "h = (if gv_length g - gv_offset g < n then gcov_refill n g else g)"
  have h: "reader_at h ws p" "unat (gv_offset h) + unat n \<le> unat (gv_length h)"
    "gv_endian h = gv_endian g" "gv_error h = gv_error g"
  proof -
    show "reader_at h ws p" "gv_endian h = gv_endian g" "gv_error h = gv_error g"
      using gcov_refill_at[OF at, of n] at room by (simp_all add: h_def)
    show "unat (gv_offset h) + unat n \<le> unat (gv_length h)"
    proof (cases "gv_length g - gv_offset g < n")
      case True
      then show ?thesis using gcov_refill_at[OF at, of n] room by (simp add: h_def word_le_nat_alt)
    next
      case False
      moreover have "gv_offset g \<le> gv_length g" using at by (simp add: reader_at_def)
      ultimately show ?thesis by (simp add: h_def word_less_nat_alt word_le_nat_alt unat_minus_small)
    qed
  qed
  note R = h(1)[unfolded reader_at_def]
  have step: "gcov_read_words n g = (Some (gv_gen h, unat (gv_offset h)), h\<lparr>gv_offset := gv_offset h + n\<rparr>)"
  proof (cases "gv_length g - gv_offset g < n")
    case True
    have "\<not> gv_length (gcov_refill n g) < n"
      using gcov_refill_at(3)[OF at _ True] room by (simp add: not_less)
    with True at show ?thesis by (simp add: gcov_read_words_def h_def reader_at_def Let_def)
  next
    case False
    with at show ?thesis by (simp add: gcov_read_words_def h_def reader_at_def)
  qed
  have off: "unat (gv_offset h + n) = unat (gv_offset h) + unat n"
    using R h(2) by (intro unat_plus_small) auto
  have "reader_at (h\<lparr>gv_offset := gv_offset h + n\<rparr>) ws (p + unat n)"
    using R h(2) off by (simp add: reader_at_def word_le_nat_alt)
  moreover have "take (unat n) (drop (unat (gv_offset h)) (gv_buffer h)) = take (unat n) (drop p ws)"
  proof -
    have "take (unat n) (drop (unat (gv_offset h)) (gv_buffer h)) =
        take (unat n) (drop (unat (gv_offset h)) (take (unat (gv_length h)) (gv_buffer h)))"
      using h(2) by (simp add: drop_take)
    also have "\<dots> = take (unat n) (drop (unat (gv_offset h)) (take (unat (gv_length h)) (drop (unat (gv_start h)) ws)))"
      using R by simp
    also have "\<dots> = take (unat n) (drop p ws)" using R h(2) by (simp add: drop_take add.commute)
    finally show ?thesis .
  qed
  moreover have "unat (gv_offset h) + unat n \<le> length (gv_buffer h)" using R h(2) by simp
  ultimately show ?thesis using that[of "h\<lparr>gv_offset := gv_offset h + n\<rparr>" "unat (gv_offset h)"] step h(3,4) by simp
qed

lemma gcov_read_unsigned_at:
  assumes "reader_at g ws p" and "p < length ws"
  obtains g' where "gcov_read_unsigned g = (from_file (ws ! p) g, g')" and "reader_at g' ws (Suc p)"
    and "gv_endian g' = gv_endian g" "gv_error g' = gv_error g"
proof -
  have room: "p + unat (1 :: u32) \<le> length ws" using assms(2) by simp
  obtain i g' where r: "gcov_read_words 1 g = (Some (gv_gen g', i), g')" "reader_at g' ws (p + unat (1 :: u32))"
    "take (unat (1 :: u32)) (drop i (gv_buffer g')) = take (unat (1 :: u32)) (drop p ws)"
    "i + unat (1 :: u32) \<le> length (gv_buffer g')" "gv_endian g' = gv_endian g" "gv_error g' = gv_error g"
    by (rule gcov_read_words_at[OF assms(1) room])
  then have "gv_buffer g' ! i = ws ! p"
    using assms(2) by (simp add: take_Suc hd_drop_conv_nth)
  with r that show ?thesis by (simp add: gcov_read_unsigned_def from_file_def)
qed

lemma gcov_read_unsigned_end:
  assumes "reader_at g ws (length ws)"
  obtains g' where "gcov_read_unsigned g = (0, g')" and "gv_mode g' > 0" "gv_file g' \<noteq> None"
proof -
  have none: "gv_length g - gv_offset g < 1"
    using assms by (auto simp: reader_at_def word_less_nat_alt unat_minus_small word_le_nat_alt)
  note r = gcov_refill_at[OF assms _ none]
  have "unat (gv_length (gcov_refill 1 g)) = 0"
    using r(1,2) by (auto simp: reader_at_def)
  then have "gv_length (gcov_refill 1 g) < 1" by (simp add: word_less_nat_alt)
  with none assms r(1) that show ?thesis
    by (auto simp: gcov_read_unsigned_def gcov_read_words_def Let_def reader_at_def)
qed

lemma gcov_sync_at:
  assumes at: "reader_at g ws p" and target: "unat base + unat len \<le> length ws"
  shows "reader_at (gcov_sync base len g) ws (unat base + unat len)"
    and "gv_endian (gcov_sync base len g) = gv_endian g" "gv_error (gcov_sync base len g) = gv_error g"
    and "gv_file (gcov_sync base len g) \<noteq> None"
proof -
  note R = at[unfolded reader_at_def]
  define q where "q = unat base + unat len"
  have q: "unat (base + len) = q" using target R by (simp add: q_def unat_plus_small)
  show "reader_at (gcov_sync base len g) ws (unat base + unat len)"
  proof (cases "base + len - gv_start g \<le> gv_length g")
    case True
    have "gv_start g \<le> base + len"
    proof (rule ccontr)
      assume "\<not> gv_start g \<le> base + len"
      then have "unat (base + len) < unat (gv_start g)" by (simp add: word_le_nat_alt)
      moreover have "unat (gv_start g) < 2 ^ 26" using R by auto
      ultimately have "unat (base + len - gv_start g) > 2 ^ 31"
        by (simp add: unat_sub_if')
      with True R show False by (simp add: word_le_nat_alt)
    qed
    then have "unat (base + len - gv_start g) = q - unat (gv_start g)" "unat (gv_start g) \<le> q"
      using q by (simp_all add: unat_minus_small word_le_nat_alt)
    with R True show ?thesis by (simp add: gcov_sync_def Let_def reader_at_def q_def[symmetric])
  next
    case False
    have "q < 2 ^ 30" using target R by (simp add: q_def)
    then have "unat (push_bit 2 (base + len)) div 4 = q" using shift2_words[of "base + len"] q by simp
    moreover have "unat (of_nat q :: u32) = q" using \<open>q < 2 ^ 30\<close> by (simp add: unat_of_nat)
    ultimately show ?thesis
      using False R target by (simp add: gcov_sync_def Let_def reader_at_def q_def[symmetric])
  qed
  show "gv_endian (gcov_sync base len g) = gv_endian g" "gv_error (gcov_sync base len g) = gv_error g"
    "gv_file (gcov_sync base len g) \<noteq> None"
    using R by (simp_all add: gcov_sync_def Let_def)
qed

lemma gcov_open_at:
  assumes "fopen name ''rb'' = Some ws" and "length ws < 2 ^ 26" and "gv_buffer g = []" "gv_alloc g = 0"
  obtains g' where "gcov_open fopen name 1 g = (1, g')" and "reader_at g' ws 0" and "\<not> gv_endian g'" "gv_error g' = 0"
  using that assms by (simp add: gcov_open_def Let_def reader_at_def)

section \<open>Strings\<close>

lemma gcov_read_string_at:
  assumes at: "reader_at g ws p" and native: "\<not> gv_endian g" and "p < length ws" "ws ! p \<noteq> 0"
    and room: "Suc p + unat (ws ! p) \<le> length ws"
  obtains i g' where "gcov_read_string g = (Some (gv_gen g', i), g')" and "reader_at g' ws (Suc p + unat (ws ! p))"
    and "take (unat (ws ! p)) (drop i (gv_buffer g')) = take (unat (ws ! p)) (drop (Suc p) ws)"
    and "gv_endian g' = gv_endian g" "gv_error g' = gv_error g"
proof -
  obtain g1 where g1: "gcov_read_unsigned g = (from_file (ws ! p) g, g1)" "reader_at g1 ws (Suc p)"
    "gv_endian g1 = gv_endian g" "gv_error g1 = gv_error g"
    by (rule gcov_read_unsigned_at[OF at assms(3)])
  obtain i g' where g': "gcov_read_words (ws ! p) g1 = (Some (gv_gen g', i), g')" "reader_at g' ws (Suc p + unat (ws ! p))"
    "take (unat (ws ! p)) (drop i (gv_buffer g')) = take (unat (ws ! p)) (drop (Suc p) ws)"
    "i + unat (ws ! p) \<le> length (gv_buffer g')" "gv_endian g' = gv_endian g1" "gv_error g' = gv_error g1"
    by (rule gcov_read_words_at[OF g1(2) room])
  show ?thesis
    using that[of g' i] g1 g' native assms(4) by (simp add: gcov_read_string_def from_file_def)
qed

lemma gcov_read_string_none:
  assumes at: "reader_at g ws p" and native: "\<not> gv_endian g" and "p < length ws" "ws ! p = 0"
  obtains g' where "gcov_read_string g = (None, g')" and "reader_at g' ws (Suc p)"
    and "gv_endian g' = gv_endian g" "gv_error g' = gv_error g"
proof -
  obtain g1 where "gcov_read_unsigned g = (from_file (ws ! p) g, g1)" "reader_at g1 ws (Suc p)"
    "gv_endian g1 = gv_endian g" "gv_error g1 = gv_error g"
    by (rule gcov_read_unsigned_at[OF at assms(3)])
  with that native assms(4) show ?thesis by (simp add: gcov_read_string_def from_file_def)
qed

lemma c_string_append: "char_of (0 :: nat) \<in> set cs \<Longrightarrow> c_string (cs @ ds) = c_string cs"
  by (simp add: c_string_def takeWhile_append1)

lemma c_string_zero: "char_of (0 :: nat) \<notin> set s \<Longrightarrow> c_string (s @ char_of (0 :: nat) # ds) = Inr s"
proof -
  assume "char_of (0 :: nat) \<notin> set s"
  then have "takeWhile (\<lambda>c. c \<noteq> char_of (0 :: nat)) (s @ char_of (0 :: nat) # ds) = s"
    by (induction s) auto
  then show ?thesis by (simp add: c_string_def)
qed

text \<open>A string as the compiler writes it: filled up with at least one zero to whole words.\<close>

definition word_of_chars :: "char list \<Rightarrow> u32" where
  "word_of_chars cs = of_nat (foldr (\<lambda>c a. of_char c + 256 * a) cs 0)"

fun string_words :: "string \<Rightarrow> u32 list" where
  "string_words s = (if length s < 4 then [word_of_chars s] else word_of_chars (take 4 s) # string_words (drop 4 s))"

declare string_words.simps [simp del]

lemma word_chars_nat:
  assumes "n < 2 ^ 32"
  shows "word_chars (of_nat n) = map (\<lambda>i. char_of (n div 256 ^ i mod 256 :: nat)) [0..<4]"
proof -
  have "unat (drop_bit (8 * i) (of_nat n :: u32) AND 0xff) = n div 256 ^ i mod 256" for i
  proof -
    have "drop_bit (8 * i) (of_nat n :: u32) AND 0xff = take_bit 8 (drop_bit (8 * i) (of_nat n))"
      by (simp add: take_bit_eq_mask mask_eq_exp_minus_1)
    then have "unat (drop_bit (8 * i) (of_nat n :: u32) AND 0xff) = take_bit 8 (drop_bit (8 * i) (unat (of_nat n :: u32)))"
      using assms by (simp add: unsigned_take_bit_eq unsigned_drop_bit_eq unat_of_nat take_bit_nat_eq_self)
    also have "\<dots> = n div 256 ^ i mod 256"
      using assms by (simp add: unat_of_nat take_bit_eq_mod drop_bit_eq_div power_mult)
    finally show ?thesis .
  qed
  then show ?thesis by (simp add: word_chars_def)
qed

lemma char_of_of_char_plus: "char_of (of_char c + 256 * a :: nat) = c"
proof -
  have "char_of (of_char c + 256 * a :: nat) = char_of ((of_char c + 256 * a) mod 256 :: nat)"
    by (rule char_of_mod_256[symmetric])
  also have "\<dots> = char_of (of_char c mod 256 :: nat)" by simp
  also have "\<dots> = c" by simp
  finally show ?thesis .
qed

lemma word_of_chars_word_chars:
  assumes "length cs \<le> 4"
  shows "word_chars (word_of_chars cs) = cs @ replicate (4 - length cs) (char_of (0 :: nat))"
proof -
  have bound: "foldr (\<lambda>c a. of_char c + 256 * a) cs 0 < (256 :: nat) ^ length cs" for cs :: "char list"
  proof (induction cs)
    case (Cons c cs)
    let ?a = "foldr (\<lambda>c a. of_char c + 256 * a) cs (0 :: nat)"
    have "of_char c + 256 * ?a < 256 * Suc ?a" by simp
    also have "\<dots> \<le> 256 * 256 ^ length cs" using Cons by (intro mult_le_mono2) simp
    finally show ?case by simp
  qed simp
  have digit: "map (\<lambda>i. char_of (foldr (\<lambda>c a. of_char c + 256 * a) cs 0 div 256 ^ i mod 256 :: nat)) [0..<k] =
      cs @ replicate (k - length cs) (char_of (0 :: nat))" if "length cs \<le> k" for k
    using that
  proof (induction cs arbitrary: k)
    case (Cons c cs)
    then obtain j where k: "k = Suc j" by (cases k) auto
    let ?a = "foldr (\<lambda>c a. of_char c + 256 * a) cs (0 :: nat)"
    have "(of_char c + 256 * ?a) div 256 ^ Suc i = ?a div 256 ^ i" for i
    proof -
      have "(of_char c + 256 * ?a) div 256 = ?a" by simp
      then show ?thesis by (simp add: div_mult2_eq)
    qed
    then show ?case
      using Cons.IH[of j] Cons.prems unfolding k
      by (simp add: map_upt_Suc char_of_of_char_plus del: upt_Suc power_Suc)
  qed (simp add: map_replicate_const)
  have "foldr (\<lambda>c a. of_char c + 256 * a) cs 0 < (2 :: nat) ^ 32"
    using bound[of cs] power_increasing[OF assms, of "256 :: nat"] by simp
  then show ?thesis using word_chars_nat digit[OF assms] by (simp add: word_of_chars_def)
qed

lemma string_words_chars:
  "\<exists>k > 0. concat (map word_chars (string_words s)) = s @ replicate k (char_of (0 :: nat))"
proof (induction s rule: string_words.induct)
  case (1 s)
  show ?case
  proof (cases "length s < 4")
    case True
    then show ?thesis by (auto simp: string_words.simps[of s] word_of_chars_word_chars)
  next
    case False
    with 1 obtain k where "k > 0" "concat (map word_chars (string_words (drop 4 s))) = drop 4 s @ replicate k (char_of (0 :: nat))"
      by blast
    with False show ?thesis
      by (intro exI[of _ k]) (simp add: string_words.simps[of s] word_of_chars_word_chars flip: append_assoc)
  qed
qed

lemma length_string_words: "length (string_words s) = length s div 4 + 1"
proof (induction s rule: string_words.induct)
  case (1 s)
  then show ?case by (subst string_words.simps) (auto simp: le_div_geq)
qed

lemma gcov_string_words:
  assumes "take (length (string_words s)) (drop i (gv_buffer g)) = string_words s"
    and "char_of (0 :: nat) \<notin> set s" and "gen = gv_gen g"
  shows "gcov_string (gen, i) g = Inr s"
proof -
  obtain k where k: "k > 0" "concat (map word_chars (string_words s)) = s @ replicate k (char_of (0 :: nat))"
    using string_words_chars by blast
  then obtain j where "k = Suc j" by (cases k) auto
  have "drop i (gv_buffer g) = string_words s @ drop (length (string_words s)) (drop i (gv_buffer g))"
    using assms(1) by (metis append_take_drop_id)
  then have "concat (map word_chars (drop i (gv_buffer g))) =
      s @ char_of (0 :: nat) # replicate j (char_of (0 :: nat)) @
        concat (map word_chars (drop (length (string_words s)) (drop i (gv_buffer g))))"
    using k \<open>k = Suc j\<close> by (metis append_Cons append_assoc concat_append map_append replicate_Suc)
  with assms(2,3) show ?thesis by (simp add: gcov_string_def c_string_zero)
qed

end
