(* ===== verification/Bb2lines.thy ===== *)
theory Bb2lines
  imports Gcov_Io "HOL-Library.List_Lexorder" "HOL-Library.Char_ord"
begin

text \<open>
  The program \<^verbatim>\<open>bb2lines\<close> (\<^verbatim>\<open>main.cpp\<close>): it collects the basic blocks of all notes files, maps
  the addresses of executed basic blocks to them, and reports the covered lines per source file.
  What libbfd answers for an address, the search pattern of the command line and the order in which
  \<^verbatim>\<open>std::unordered_map\<close> is iterated are arguments. Messages on standard error are left out.
\<close>

section \<open>Data\<close>

record source_line =
  sl_filename :: string
  sl_lines :: "u32 list"

record basic_block =
  bb_blockno :: u32
  bb_source_lines :: "source_line list"
  bb_is_valid :: bool

definition get_start_line :: "basic_block \<Rightarrow> u32 res" where
  "get_start_line bb = (case bb_source_lines bb of
       [] \<Rightarrow> ub ''front of an empty vector''
     | sl # _ \<Rightarrow> (case sl_lines sl of [] \<Rightarrow> ub ''front of an empty vector'' | l # _ \<Rightarrow> Inr l))"

definition get_filename :: "basic_block \<Rightarrow> string res" where
  "get_filename bb = (case bb_source_lines bb of [] \<Rightarrow> ub ''front of an empty vector'' | sl # _ \<Rightarrow> Inr (sl_filename sl))"

definition has_start_line :: "basic_block \<Rightarrow> bool" where
  "has_start_line bb \<longleftrightarrow> (case get_start_line bb of Inr _ \<Rightarrow> True | Inl _ \<Rightarrow> False)"

definition start_line :: "basic_block \<Rightarrow> u32" where
  "start_line bb = (case get_start_line bb of Inr l \<Rightarrow> l | Inl _ \<Rightarrow> 0)"

text \<open>
  A \<^verbatim>\<open>std::set<basic_block>\<close> is the list of its elements by start line. Comparing a block without a
  first line is undefined; which elements an operation compares depends on the shape of the tree,
  so every operation on a set with other elements requires all start lines.
\<close>

type_synonym bb_set = "basic_block list"

definition comparable :: "basic_block \<Rightarrow> bb_set \<Rightarrow> bool" where
  "comparable bb s \<longleftrightarrow> s = [] \<or> (\<forall>b \<in> set (bb # s). has_start_line b)"

fun bb_insert_sorted :: "basic_block \<Rightarrow> bb_set \<Rightarrow> bb_set" where
  "bb_insert_sorted bb [] = [bb]"
| "bb_insert_sorted bb (b # s) =
     (if start_line bb < start_line b then bb # b # s
      else if start_line bb = start_line b then b # s
      else b # bb_insert_sorted bb s)"

definition bb_set_insert :: "basic_block \<Rightarrow> bb_set \<Rightarrow> bb_set res" where
  "bb_set_insert bb s = (if comparable bb s then Inr (bb_insert_sorted bb s) else ub ''front of an empty vector'')"

definition bb_set_find :: "basic_block \<Rightarrow> bb_set \<Rightarrow> basic_block option res" where
  "bb_set_find bb s =
     (if comparable bb s then Inr (find (\<lambda>b. start_line b = start_line bb) s) else ub ''front of an empty vector'')"

definition bb_set_erase :: "basic_block \<Rightarrow> bb_set \<Rightarrow> bb_set" where
  \<comment> \<open>\<open>erase\<close> of the element an iterator points to\<close>
  "bb_set_erase b s = filter (\<lambda>x. start_line x \<noteq> start_line b) s"

text \<open>A \<^verbatim>\<open>std::unordered_map\<close> is the list of its entries; new entries go to the end.\<close>

type_synonym ('k, 'v) umap = "('k \<times> 'v) list"

fun um_update :: "'k \<Rightarrow> 'v \<Rightarrow> ('k, 'v) umap \<Rightarrow> ('k, 'v) umap" where
  "um_update k v [] = [(k, v)]"
| "um_update k v ((k', v') # m) = (if k = k' then (k, v) # m else (k', v') # um_update k v m)"

definition um_get :: "'v \<Rightarrow> ('k, 'v) umap \<Rightarrow> 'k \<Rightarrow> 'v" where
  \<comment> \<open>\<open>operator[]\<close> creates a default element\<close>
  "um_get d m k = (case map_of m k of Some v \<Rightarrow> v | None \<Rightarrow> d)"

record bb2lines =
  basic_blocks_addr_map :: "(u64, basic_block) umap"
  covered_lines :: "(string, u32 list) umap"
  coverable_lines :: "(string, u32 list) umap"
  functions_map :: "(string, (string, string) umap) umap"   \<comment> \<open>functions by file and name, with their source\<close>
  basic_blocks_map :: "(string, bb_set) umap"
  addr_not_start_line_count :: u32
  bb_is_already_in_bb_map_count :: u32
  bb_at_addr_not_found_count :: u32
  file_is_null_in_addr2line_count :: u32
  file_found_line_not_found_count :: u32
  fs_not_in_bb_map_count :: u32
  input_addr_count :: u32
  unique_input_addr_count :: u32
  bb_read_count :: u32

definition bb2lines_initial :: bb2lines where
  "bb2lines_initial = \<lparr>basic_blocks_addr_map = [], covered_lines = [], coverable_lines = [], functions_map = [],
     basic_blocks_map = [], addr_not_start_line_count = 0, bb_is_already_in_bb_map_count = 0,
     bb_at_addr_not_found_count = 0, file_is_null_in_addr2line_count = 0, file_found_line_not_found_count = 0,
     fs_not_in_bb_map_count = 0, input_addr_count = 0, unique_input_addr_count = 0, bb_read_count = 0\<rparr>"

section \<open>Reading a notes file\<close>

definition add_line :: "string \<Rightarrow> u32 \<Rightarrow> (string, u32 list) umap \<Rightarrow> (string, u32 list) umap" where
  \<comment> \<open>\<open>m[filename].insert(line)\<close>\<close>
  "add_line filename l m = um_update filename (set_insert l (um_get [] m filename)) m"

definition note_coverable :: "source_line \<Rightarrow> bb2lines \<Rightarrow> bb2lines" where
  "note_coverable sl st =
     (let st1 = (if map_of (covered_lines st) (sl_filename sl) = None
                 then st\<lparr>covered_lines := um_update (sl_filename sl) [] (covered_lines st)\<rparr> else st)
      in st1\<lparr>coverable_lines := fold (add_line (sl_filename sl)) (sl_lines sl) (coverable_lines st1)\<rparr>)"

definition merge_existing :: "string \<Rightarrow> basic_block \<Rightarrow> bb2lines \<Rightarrow> (basic_block \<times> bb2lines) res" where
  "merge_existing source_name bb st =
     (case map_of (basic_blocks_map st) source_name of
        None \<Rightarrow> Inr (bb, st)
      | Some bbs \<Rightarrow>
          if bbs = [] then Inr (bb, st)
          else bindE (bb_set_find bb bbs) (\<lambda>r. case r of
              None \<Rightarrow> Inr (bb, st)
            | Some b \<Rightarrow>
                Inr (bb\<lparr>bb_source_lines := bb_source_lines bb @ bb_source_lines b\<rparr>,
                     st\<lparr>basic_blocks_map := um_update source_name (bb_set_erase b bbs) (basic_blocks_map st),
                        bb_is_already_in_bb_map_count := bb_is_already_in_bb_map_count st + 1\<rparr>)))"

definition add_block :: "string \<Rightarrow> basic_block \<Rightarrow> bb2lines \<Rightarrow> bb2lines res" where
  \<comment> \<open>what is done with a basic block after it was read\<close>
  "add_block file_prefix bb st0 =
     (let st1 = st0\<lparr>bb_read_count := bb_read_count st0 + 1\<rparr>
      in bindE (get_filename bb) (\<lambda>fname.
         let source_name = file_prefix @ fname;
             st2 = fold note_coverable (bb_source_lines bb) st1
         in bindE (merge_existing source_name bb st2) (\<lambda>(bb', st3).
            bindE (bb_set_insert bb' (um_get [] (basic_blocks_map st3) source_name)) (\<lambda>s.
            Inr (st3\<lparr>basic_blocks_map := um_update source_name s (basic_blocks_map st3)\<rparr>)))))"

definition push_line :: "u32 \<Rightarrow> source_line list \<Rightarrow> source_line list res" where
  "push_line l sls =
     (if sls = [] then ub ''back of an empty vector''
      else Inr (butlast sls @ [(last sls)\<lparr>sl_lines := sl_lines (last sls) @ [l]\<rparr>]))"

partial_function (option) lines_loop :: "gcov_var \<Rightarrow> source_line list \<Rightarrow> (source_line list \<times> gcov_var) run" where
  "lines_loop g sls =
     (let (lineno, g1) = gcov_read_unsigned g
      in if lineno \<noteq> 0 then bindR (liftR (push_line lineno sls)) (lines_loop g1)
         else (case gcov_read_string g1 of
             (None, g2) \<Rightarrow> retR (sls, g2)
           | (Some p, g2) \<Rightarrow> bindR (liftR (gcov_string p g2)) (\<lambda>source.
               lines_loop g2 (sls @ [\<lparr>sl_filename = source, sl_lines = []\<rparr>]))))"

declare lines_loop.simps [code]

definition skip_unsigned :: "gcov_var \<Rightarrow> gcov_var" where
  "skip_unsigned g = snd (gcov_read_unsigned g)"

definition read_function :: "string \<Rightarrow> gcov_var \<Rightarrow> bb2lines \<Rightarrow> (bool \<times> gcov_var \<times> bb2lines) res" where
  \<comment> \<open>a function record; false: name or source is missing. The two strings are read through their
      pointers only after the rest of the record.\<close>
  "read_function file_prefix g st =
     (let g1 = skip_unsigned (skip_unsigned (skip_unsigned g));
          (name, g2) = gcov_read_string g1;
          g3 = skip_unsigned g2;
          (source, g4) = gcov_read_string g3;
          g5 = skip_unsigned (skip_unsigned (skip_unsigned g4))
      in case (name, source) of
           (Some np, Some sp) \<Rightarrow>
             bindE (gcov_string np g5) (\<lambda>n. bindE (gcov_string sp g5) (\<lambda>s.
               Inr (True, g5, st\<lparr>functions_map := um_update (file_prefix @ s)
                   (um_update n s (um_get [] (functions_map st) (file_prefix @ s))) (functions_map st)\<rparr>)))
         | _ \<Rightarrow> Inr (False, g5, st))"

definition read_lines :: "string \<Rightarrow> gcov_var \<Rightarrow> bb2lines \<Rightarrow> (gcov_var \<times> bb2lines) run" where
  "read_lines file_prefix g st =
     (let (blockno, g1) = gcov_read_unsigned g
      in bindR (lines_loop g1 []) (\<lambda>(sls, g2).
         bindR (liftR (add_block file_prefix \<lparr>bb_blockno = blockno, bb_source_lines = sls, bb_is_valid = True\<rparr> st)) (\<lambda>st'.
         retR (g2, st'))))"

partial_function (option) tags_loop :: "string \<Rightarrow> bool \<Rightarrow> u32 \<Rightarrow> gcov_var \<Rightarrow> bb2lines \<Rightarrow> (gcov_var \<times> bb2lines) run" where
  "tags_loop file_prefix fn current_tag g st =
     (let (tag, g1) = gcov_read_unsigned g
      in if tag = 0 then retR (g1, st)
         else
           (let (len, g2) = gcov_read_unsigned g1; base = gcov_position g2
            in if tag = GCOV_TAG_FUNCTION then
                 bindR (liftR (read_function file_prefix g2 st)) (\<lambda>(found, g3, st').
                   if \<not> found then tags_loop file_prefix False current_tag g3 st'
                   else
                     (let g4 = gcov_sync base len g3
                      in if gcov_is_error g4 \<noteq> 0 then retR (g4, st') else tags_loop file_prefix True tag g4 st'))
               else if fn \<and> tag = GCOV_TAG_LINES then
                 bindR (read_lines file_prefix g2 st) (\<lambda>(g3, st').
                   let g4 = gcov_sync base len g3
                   in if gcov_is_error g4 \<noteq> 0 then retR (g4, st') else tags_loop file_prefix fn current_tag g4 st')
               else
                 (let (fn', current_tag') =
                        (if current_tag \<noteq> 0 \<and> \<not> GCOV_TAG_IS_SUBTAG current_tag tag then (False, 0) else (fn, current_tag));
                      g4 = gcov_sync base len g2
                  in if gcov_is_error g4 \<noteq> 0 then retR (g4, st) else tags_loop file_prefix fn' current_tag' g4 st)))"

declare tags_loop.simps [code]

definition read_graph_file ::
    "(string \<Rightarrow> string \<Rightarrow> u32 list option) \<Rightarrow> string \<Rightarrow> string \<Rightarrow> gcov_var \<Rightarrow> bb2lines \<Rightarrow> (gcov_var \<times> bb2lines) run" where
  "read_graph_file fopen file_prefix filename g st =
     (let (opened, g1) = gcov_open fopen filename 1 g
      in if opened = 0 then retR (g1, st)
         else
           (let (magic, g2) = gcov_read_unsigned g1;
                (endianness, g3) = gcov_magic magic GCOV_DATA_MAGIC g2;
                (endianness', g4) = (if endianness \<noteq> 0 then (endianness, g3) else gcov_magic magic GCOV_NOTE_MAGIC g3)
            in if endianness' = 0 then retR (snd (gcov_close g4), st)
               else
                 (let g5 = skip_unsigned (skip_unsigned (skip_unsigned g4))
                  in bindR (tags_loop file_prefix False 0 g5 st) (\<lambda>(g6, st'). retR (snd (gcov_close g6), st')))))"

section \<open>Addresses\<close>

record bb_env =
  be_addr_to_line :: "u64 \<Rightarrow> string option \<times> u32"     \<comment> \<open>file and line libbfd finds for an address\<close>
  be_regex :: "string \<Rightarrow> bool"                        \<comment> \<open>\<open>regex_search\<close> with the pattern of the option \<open>-e\<close>\<close>
  be_iter :: "(string, bb_set) umap \<Rightarrow> (string, bb_set) umap"
  be_prefix :: string

definition is_line_and_file_in_bb :: "string \<Rightarrow> u32 \<Rightarrow> string \<Rightarrow> basic_block \<Rightarrow> bool" where
  "is_line_and_file_in_bb file_prefix l filename bb \<longleftrightarrow>
     (\<exists>sl \<in> set (bb_source_lines bb). file_prefix @ sl_filename sl = filename \<and> l \<in> set (sl_lines sl))"

definition invalid_bb :: basic_block where
  "invalid_bb = \<lparr>bb_blockno = 0, bb_source_lines = [], bb_is_valid = False\<rparr>"

definition find_line_and_file_in_bb_map :: "bb_env \<Rightarrow> u32 \<Rightarrow> string \<Rightarrow> bb2lines \<Rightarrow> basic_block" where
  "find_line_and_file_in_bb_map env l filename st =
     (case find (is_line_and_file_in_bb (be_prefix env) l filename) (concat (map snd (be_iter env (basic_blocks_map st)))) of
        Some bb \<Rightarrow> bb | None \<Rightarrow> invalid_bb)"

definition bb_before :: "u32 \<Rightarrow> bb_set \<Rightarrow> basic_block option" where
  \<comment> \<open>the element before \<open>upper_bound\<close>\<close>
  "bb_before l s = (case filter (\<lambda>b. start_line b \<le> l) s of [] \<Rightarrow> None | bs \<Rightarrow> Some (last bs))"

definition count_not_start :: "bb2lines \<Rightarrow> bb2lines" where
  "count_not_start st = st\<lparr>addr_not_start_line_count := addr_not_start_line_count st + 1\<rparr>"

definition remember :: "u64 \<Rightarrow> basic_block \<Rightarrow> bb2lines \<Rightarrow> basic_block option \<times> bb2lines" where
  "remember a bb st = (Some bb, st\<lparr>basic_blocks_addr_map := um_update a bb (basic_blocks_addr_map st)\<rparr>)"

definition not_found :: "u64 \<Rightarrow> bb2lines \<Rightarrow> basic_block option \<times> bb2lines" where
  "not_found a st = (None, st\<lparr>basic_blocks_addr_map := um_update a invalid_bb (basic_blocks_addr_map st),
     bb_at_addr_not_found_count := bb_at_addr_not_found_count st + 1\<rparr>)"

definition search_harder :: "bb_env \<Rightarrow> u64 \<Rightarrow> string \<Rightarrow> u32 \<Rightarrow> bb2lines \<Rightarrow> basic_block option \<times> bb2lines" where
  "search_harder env a fname l st =
     (if be_regex env fname then
        (let bb = find_line_and_file_in_bb_map env l fname st
         in if bb_is_valid bb then remember a bb (count_not_start st)
            else not_found a (st\<lparr>fs_not_in_bb_map_count := fs_not_in_bb_map_count st + 1\<rparr>))
      else not_found a st)"

definition get_basic_block :: "bb_env \<Rightarrow> u64 \<Rightarrow> bb2lines \<Rightarrow> (basic_block option \<times> bb2lines) res" where
  "get_basic_block env a st0 = (case map_of (basic_blocks_addr_map st0) a of
       Some bb \<Rightarrow> Inr (if bb_is_valid bb then Some bb else None, st0)
     | None \<Rightarrow>
         (let st = st0\<lparr>unique_input_addr_count := unique_input_addr_count st0 + 1\<rparr>
          in case be_addr_to_line env a of
               (None, _) \<Rightarrow>
                 Inr (None, st\<lparr>file_is_null_in_addr2line_count := file_is_null_in_addr2line_count st + 1,
                             bb_at_addr_not_found_count := bb_at_addr_not_found_count st + 1\<rparr>)
             | (Some fname, l) \<Rightarrow>
                 (case map_of (basic_blocks_map st) fname of
                    None \<Rightarrow> Inr (search_harder env a fname l st)
                  | Some bbs \<Rightarrow>
                      if bbs = [] then Inr (search_harder env a fname l st)
                      else if \<not> (\<forall>b \<in> set bbs. has_start_line b) then ub ''front of an empty vector''
                      else (case bb_before l bbs of
                          Some bb \<Rightarrow> Inr (remember a bb (if start_line bb \<noteq> l then count_not_start st else st))
                        | None \<Rightarrow>
                            (let bb = find_line_and_file_in_bb_map env l fname st
                             in if bb_is_valid bb then Inr (remember a bb (count_not_start st))
                                else Inr (search_harder env a fname l
                                  (st\<lparr>file_found_line_not_found_count := file_found_line_not_found_count st + 1\<rparr>)))))))"

section \<open>Coverage\<close>

definition cover_source_line :: "source_line \<Rightarrow> bb2lines \<Rightarrow> bb2lines" where
  "cover_source_line sl st =
     st\<lparr>covered_lines := fold (add_line (sl_filename sl)) (sl_lines sl) (covered_lines st)\<rparr>"

definition cover_address :: "bb_env \<Rightarrow> string \<Rightarrow> bb2lines \<Rightarrow> bb2lines res" where
  "cover_address env line st0 =
     (let st = st0\<lparr>input_addr_count := input_addr_count st0 + 1\<rparr>
      in bindE (stoull 16 line) (\<lambda>a. bindE (get_basic_block env a st) (\<lambda>(r, st1).
         Inr (case r of None \<Rightarrow> st1 | Some bb \<Rightarrow> fold cover_source_line (bb_source_lines bb) st1))))"

fun cover_addresses :: "bb_env \<Rightarrow> string list \<Rightarrow> bb2lines \<Rightarrow> bb2lines res" where
  "cover_addresses env [] st = Inr st"
| "cover_addresses env (l # ls) st = bindE (cover_address env l st) (cover_addresses env ls)"

definition count_all_files_and_lines :: "bb2lines \<Rightarrow> nat \<times> nat" where
  "count_all_files_and_lines st = (length (coverable_lines st), sum_list (map (\<lambda>e. length (snd e)) (coverable_lines st)))"

definition count_all_lines_in_file :: "string \<Rightarrow> bb2lines \<Rightarrow> nat" where
  "count_all_lines_in_file f st = (case map_of (coverable_lines st) f of Some ls \<Rightarrow> length ls | None \<Rightarrow> 0)"

record coverage_row =
  cr_file :: string
  cr_lines_covered :: nat
  cr_lines_total :: nat
  cr_lines :: "u32 list"   \<comment> \<open>printed with the option \<open>-l\<close>\<close>

record coverage_report =
  rp_files :: nat
  rp_all_files :: nat
  rp_lines :: nat
  rp_all_lines :: nat
  rp_rows :: "coverage_row list"

definition determine_coverage ::
    "((string, u32 list) umap \<Rightarrow> (string, u32 list) umap) \<Rightarrow> bool \<Rightarrow> bb_env \<Rightarrow> string list \<Rightarrow> bb2lines \<Rightarrow> (coverage_report \<times> bb2lines) res" where
  "determine_coverage iter covered_lines_information env input st0 =
     bindE (cover_addresses env input st0) (\<lambda>st.
       let file_count = length (filter (\<lambda>e. snd e \<noteq> []) (covered_lines st));
           line_count = sum_list (map (\<lambda>e. length (snd e)) (covered_lines st));
           (all_files, all_lines) = count_all_files_and_lines st
       in Inr (\<lparr>rp_files = file_count, rp_all_files = all_files, rp_lines = line_count, rp_all_lines = all_lines,
                rp_rows = map (\<lambda>(f, ls). \<lparr>cr_file = f, cr_lines_covered = length ls,
                  cr_lines_total = count_all_lines_in_file f st,
                  cr_lines = (if covered_lines_information then ls else [])\<rparr>) (iter (covered_lines st))\<rparr>, st))"

definition block_rows :: "u64 \<Rightarrow> basic_block \<Rightarrow> (u64 \<times> string \<times> int) list" where
  \<comment> \<open>the line number is unsigned and printed with \<open>%d\<close>\<close>
  "block_rows a bb = concat (map (\<lambda>sl. map (\<lambda>l. (a, sl_filename sl, sint l)) (sl_lines sl)) (bb_source_lines bb))"

fun convert_basic_blocks :: "bb_env \<Rightarrow> string list \<Rightarrow> bb2lines \<Rightarrow> ((u64 \<times> string \<times> int) list \<times> bb2lines) res" where
  "convert_basic_blocks env [] st = Inr ([], st)"
| "convert_basic_blocks env (line # ls) st0 =
     (let st = st0\<lparr>input_addr_count := input_addr_count st0 + 1\<rparr>
      in bindE (stoull 16 line) (\<lambda>a. bindE (get_basic_block env a st) (\<lambda>(r, st1).
         bindE (convert_basic_blocks env ls st1) (\<lambda>(rows, st2).
         Inr ((case r of None \<Rightarrow> [] | Some bb \<Rightarrow> block_rows a bb) @ rows, st2)))))"

definition is_gcno :: "string \<Rightarrow> bool" where
  \<comment> \<open>\<open>regex_match\<close> with \<open>(.*?)\.gcno$\<close>; the dot matches no line break\<close>
  "is_gcno name \<longleftrightarrow> 5 \<le> length name \<and> drop (length name - 5) name = ''.gcno'' \<and>
     (\<forall>c \<in> set name. c \<noteq> CHR 0x0A \<and> c \<noteq> CHR 0x0D)"

fun read_graph_files :: "(string \<Rightarrow> string \<Rightarrow> u32 list option) \<Rightarrow> string \<Rightarrow> string list \<Rightarrow> gcov_var \<Rightarrow> bb2lines \<Rightarrow> (gcov_var \<times> bb2lines) run" where
  "read_graph_files fopen file_prefix [] g st = retR (g, st)"
| "read_graph_files fopen file_prefix (f # fs) g st =
     (if is_gcno f
      then bindR (read_graph_file fopen file_prefix f g st) (\<lambda>(g', st'). read_graph_files fopen file_prefix fs g' st')
      else read_graph_files fopen file_prefix fs g st)"

definition bb2lines_coverage ::
    "(string \<Rightarrow> string \<Rightarrow> u32 list option) \<Rightarrow> string list \<Rightarrow> ((string, u32 list) umap \<Rightarrow> (string, u32 list) umap) \<Rightarrow>
     bool \<Rightarrow> bb_env \<Rightarrow> string list \<Rightarrow> (coverage_report \<times> bb2lines) run" where
  \<comment> \<open>the program without the option \<open>-c\<close>: the files of the directory, then the addresses of the input\<close>
  "bb2lines_coverage fopen files iter covered_lines_information env input =
     bindR (read_graph_files fopen (be_prefix env) files gcov_var_initial bb2lines_initial) (\<lambda>(g, st).
       liftR (determine_coverage iter covered_lines_information env input st))"

end
