(* ===== verification/Bb2lines_Inv.thy ===== *)
theory Bb2lines_Inv
  imports Bb2lines "HOL-Library.Multiset"
begin

text \<open>
  The invariant of \<^verbatim>\<open>bb2lines\<close>: every line of a stored basic block is recorded as coverable, and a
  line is counted as covered only if it is coverable. It holds from reading the notes files to the
  report.
\<close>

section \<open>Maps\<close>

lemma map_of_um_update [simp]: "map_of (um_update k v m) = (map_of m)(k \<mapsto> v)"
  by (induction m) (auto simp: fun_eq_iff)

lemma um_get_update: "um_get d (um_update k v m) k' = (if k' = k then v else um_get d m k')"
  by (simp add: um_get_def)

lemma keys_um_update: "set (map fst (um_update k v m)) = insert k (set (map fst m))"
  by (induction k v m rule: um_update.induct) auto

lemma distinct_um_update: "distinct (map fst m) \<Longrightarrow> distinct (map fst (um_update k v m))"
  by (induction k v m rule: um_update.induct) (auto simp: keys_um_update simp del: set_map)

lemma set_um_update: "set (um_update k v m) \<subseteq> insert (k, v) (set m)"
  by (induction k v m rule: um_update.induct) (auto split: if_splits)

lemma in_um_update: "(k', v') \<in> set (um_update k v m) \<Longrightarrow> k' = k \<and> v' = v \<or> (k', v') \<in> set m"
  using set_um_update[of k v m] by auto

lemma in_um_get: "x \<in> set (um_get [] m k) \<Longrightarrow> \<exists>e \<in> set m. x \<in> set (snd e)"
  by (cases "map_of m k") (auto simp: um_get_def dest!: map_of_SomeD intro!: bexI)

lemma find_Some_in: "find P xs = Some x \<Longrightarrow> x \<in> set xs \<and> P x"
  by (auto simp: find_Some_iff)

section \<open>The invariant\<close>

definition lines_of :: "(string, u32 list) umap \<Rightarrow> string \<Rightarrow> u32 set" where
  "lines_of m f = set (um_get [] m f)"

definition line_map_ok :: "(string, u32 list) umap \<Rightarrow> bool" where
  "line_map_ok m \<longleftrightarrow> distinct (map fst m) \<and> (\<forall>e \<in> set m. sorted_wrt (<) (snd e))"

definition block_known :: "(string, u32 list) umap \<Rightarrow> basic_block \<Rightarrow> bool" where
  "block_known m bb \<longleftrightarrow> (\<forall>sl \<in> set (bb_source_lines bb). set (sl_lines sl) \<subseteq> lines_of m (sl_filename sl))"

definition coverage_inv :: "bb2lines \<Rightarrow> bool" where
  "coverage_inv st \<longleftrightarrow> line_map_ok (covered_lines st) \<and> line_map_ok (coverable_lines st) \<and>
     (\<forall>f. lines_of (covered_lines st) f \<subseteq> lines_of (coverable_lines st) f) \<and>
     (\<forall>e \<in> set (basic_blocks_map st). \<forall>bb \<in> set (snd e). block_known (coverable_lines st) bb) \<and>
     (\<forall>e \<in> set (basic_blocks_addr_map st). block_known (coverable_lines st) (snd e))"

lemma coverage_inv_other [simp]:
  "coverage_inv (st\<lparr>functions_map := x\<rparr>) = coverage_inv st"
  "coverage_inv (st\<lparr>bb_read_count := c\<rparr>) = coverage_inv st"
  "coverage_inv (st\<lparr>input_addr_count := c\<rparr>) = coverage_inv st"
  "coverage_inv (st\<lparr>unique_input_addr_count := c\<rparr>) = coverage_inv st"
  "coverage_inv (st\<lparr>addr_not_start_line_count := c\<rparr>) = coverage_inv st"
  "coverage_inv (st\<lparr>fs_not_in_bb_map_count := c\<rparr>) = coverage_inv st"
  "coverage_inv (st\<lparr>bb_at_addr_not_found_count := c\<rparr>) = coverage_inv st"
  "coverage_inv (st\<lparr>file_is_null_in_addr2line_count := c\<rparr>) = coverage_inv st"
  "coverage_inv (st\<lparr>file_found_line_not_found_count := c\<rparr>) = coverage_inv st"
  by (simp_all add: coverage_inv_def)

lemma coverage_inv_initial: "coverage_inv bb2lines_initial"
  by (simp add: coverage_inv_def bb2lines_initial_def line_map_ok_def lines_of_def um_get_def)

lemma map_of_sorted:
  assumes "line_map_ok m"
  shows "sorted_wrt (<) (um_get [] m f)"
  using assms by (auto simp: line_map_ok_def um_get_def split: option.splits dest!: map_of_SomeD)

lemma lines_of_add_line [simp]: "lines_of (add_line f l m) f' = (if f' = f then insert l (lines_of m f') else lines_of m f')"
  by (simp add: lines_of_def add_line_def um_get_update)

lemma line_map_ok_update: "line_map_ok m \<Longrightarrow> sorted_wrt (<) ls \<Longrightarrow> line_map_ok (um_update f ls m)"
  by (auto simp: line_map_ok_def distinct_um_update dest!: in_um_update)

lemma line_map_ok_add_line: "line_map_ok m \<Longrightarrow> line_map_ok (add_line f l m)"
  using map_of_sorted[of m f] unfolding add_line_def by (intro line_map_ok_update sorted_set_insert)

lemma lines_of_add_lines: "lines_of (fold (add_line f) ls m) f' = (if f' = f then lines_of m f' \<union> set ls else lines_of m f')"
  by (induction ls arbitrary: m) auto

lemma line_map_ok_add_lines: "line_map_ok m \<Longrightarrow> line_map_ok (fold (add_line f) ls m)"
  by (induction ls arbitrary: m) (simp_all add: line_map_ok_add_line)

lemma lines_of_new_file: "map_of m f = None \<Longrightarrow> lines_of (um_update f [] m) f' = lines_of m f'"
  by (simp add: lines_of_def um_get_def)

lemma block_known_mono:
  "block_known m bb \<Longrightarrow> (\<And>f. lines_of m f \<subseteq> lines_of m' f) \<Longrightarrow> block_known m' bb"
  unfolding block_known_def by (meson order_trans)

section \<open>Reading\<close>

lemma note_coverable_fields [simp]:
  "basic_blocks_map (note_coverable sl st) = basic_blocks_map st"
  "basic_blocks_addr_map (note_coverable sl st) = basic_blocks_addr_map st"
  by (simp_all add: note_coverable_def Let_def)

lemma note_coverable_coverable:
  "lines_of (coverable_lines (note_coverable sl st)) f =
     (if f = sl_filename sl then lines_of (coverable_lines st) f \<union> set (sl_lines sl) else lines_of (coverable_lines st) f)"
  by (simp add: note_coverable_def Let_def lines_of_add_lines)

lemma note_coverable_covered:
  "lines_of (covered_lines (note_coverable sl st)) f = lines_of (covered_lines st) f"
  by (simp add: note_coverable_def Let_def lines_of_new_file)

lemma note_coverable_inv:
  assumes "coverage_inv st"
  shows "coverage_inv (note_coverable sl st)"
proof -
  have mono: "lines_of (coverable_lines st) f \<subseteq> lines_of (coverable_lines (note_coverable sl st)) f" for f
    by (simp add: note_coverable_coverable)
  have "line_map_ok (covered_lines (note_coverable sl st))" "line_map_ok (coverable_lines (note_coverable sl st))"
    using assms by (simp_all add: note_coverable_def Let_def coverage_inv_def line_map_ok_update line_map_ok_add_lines)
  moreover have "lines_of (covered_lines (note_coverable sl st)) f \<subseteq> lines_of (coverable_lines (note_coverable sl st)) f" for f
    using assms mono[of f] by (auto simp: coverage_inv_def note_coverable_covered)
  ultimately show ?thesis
    using assms block_known_mono[OF _ mono] by (simp add: coverage_inv_def)
qed

lemma note_coverables:
  assumes "coverage_inv st"
  shows "coverage_inv (fold note_coverable sls st) \<and>
    (\<forall>sl \<in> set sls. set (sl_lines sl) \<subseteq> lines_of (coverable_lines (fold note_coverable sls st)) (sl_filename sl)) \<and>
    (\<forall>f. lines_of (coverable_lines st) f \<subseteq> lines_of (coverable_lines (fold note_coverable sls st)) f)"
  using assms
proof (induction sls arbitrary: st)
  case (Cons sl sls)
  note IH = Cons.IH[OF note_coverable_inv[OF Cons.prems, of sl]]
  have "set (sl_lines sl) \<subseteq> lines_of (coverable_lines (note_coverable sl st)) (sl_filename sl)"
    by (simp add: note_coverable_coverable)
  moreover have "lines_of (coverable_lines st) f \<subseteq> lines_of (coverable_lines (note_coverable sl st)) f" for f
    by (simp add: note_coverable_coverable)
  ultimately show ?case using IH by (simp only: fold_simps list.set) blast
qed simp

lemma set_bb_insert_sorted: "set (bb_insert_sorted bb s) \<subseteq> insert bb (set s)"
  by (induction s) auto

lemma coverage_inv_blocks:
  assumes "coverage_inv st" and "\<And>bb. bb \<in> set s \<Longrightarrow> block_known (coverable_lines st) bb"
  shows "coverage_inv (st\<lparr>basic_blocks_map := um_update f s (basic_blocks_map st)\<rparr>)"
  using assms by (auto simp: coverage_inv_def dest!: in_um_update)

lemma merge_existing_inv:
  assumes "merge_existing f bb st = Inr (bb', st')" "coverage_inv st" "block_known (coverable_lines st) bb"
  shows "coverage_inv st' \<and> block_known (coverable_lines st') bb'"
proof -
  consider (same) "bb' = bb" "st' = st"
    | (merged) bbs b where "map_of (basic_blocks_map st) f = Some bbs" "b \<in> set bbs"
      "bb' = bb\<lparr>bb_source_lines := bb_source_lines bb @ bb_source_lines b\<rparr>"
      "st' = st\<lparr>basic_blocks_map := um_update f (bb_set_erase b bbs) (basic_blocks_map st),
         bb_is_already_in_bb_map_count := bb_is_already_in_bb_map_count st + 1\<rparr>"
    using assms(1)
    by (auto simp: merge_existing_def bb_set_find_def res_simps split: option.splits if_splits dest!: find_Some_in)
  then show ?thesis
  proof cases
    case same
    with assms show ?thesis by simp
  next
    case merged
    have known: "block_known (coverable_lines st) x" if "x \<in> set bbs" for x
      using assms(2) map_of_SomeD[OF merged(1)] that by (force simp: coverage_inv_def)
    have "coverage_inv (st\<lparr>basic_blocks_map := um_update f (bb_set_erase b bbs) (basic_blocks_map st)\<rparr>)"
      using assms(2) known by (intro coverage_inv_blocks) (auto simp: bb_set_erase_def)
    moreover have "block_known (coverable_lines st) bb'" using assms(3) known[OF merged(2)] by (auto simp: merged block_known_def)
    ultimately show ?thesis by (simp add: merged coverage_inv_def)
  qed
qed

lemma add_block_inv:
  assumes "add_block p bb st = Inr st'" "coverage_inv st"
  shows "coverage_inv st'"
proof -
  let ?st1 = "st\<lparr>bb_read_count := bb_read_count st + 1\<rparr>"
  let ?st2 = "fold note_coverable (bb_source_lines bb) ?st1"
  obtain fname bb' st3 s where
    m: "merge_existing (p @ fname) bb ?st2 = Inr (bb', st3)"
    and s: "bb_set_insert bb' (um_get [] (basic_blocks_map st3) (p @ fname)) = Inr s"
    and st': "st' = st3\<lparr>basic_blocks_map := um_update (p @ fname) s (basic_blocks_map st3)\<rparr>"
    using assms(1) by (auto simp: add_block_def Let_def res_simps)
  have "coverage_inv ?st1" using assms(2) by simp
  from note_coverables[OF this, of "bb_source_lines bb"]
  have "coverage_inv ?st2" "block_known (coverable_lines ?st2) bb" by (simp_all add: block_known_def)
  with m have I: "coverage_inv st3" "block_known (coverable_lines st3) bb'" by (auto dest: merge_existing_inv)
  have "block_known (coverable_lines st3) x" if "x \<in> set s" for x
  proof -
    have "x = bb' \<or> x \<in> set (um_get [] (basic_blocks_map st3) (p @ fname))"
      using s that set_bb_insert_sorted[of bb'] by (auto simp: bb_set_insert_def split: if_splits)
    then show ?thesis using I by (auto simp: coverage_inv_def dest!: in_um_get)
  qed
  then show ?thesis unfolding st' using I(1) by (intro coverage_inv_blocks)
qed

subsection \<open>What reading a file keeps\<close>

text \<open>
  Reading changes the state only by adding basic blocks and by recording functions. A property
  that both keep holds after any number of files.
\<close>

locale block_invariant =
  fixes I :: "bb2lines \<Rightarrow> bool"
  assumes add_block_keeps: "add_block p bb st = Inr st' \<Longrightarrow> bb_is_valid bb \<Longrightarrow> I st \<Longrightarrow> I st'"
    and functions_keep: "I (st\<lparr>functions_map := fm\<rparr>) = I st"
begin

lemma read_lines_inv: "read_lines p g st = retR (g', st') \<Longrightarrow> I st \<Longrightarrow> I st'"
  by (auto simp: read_lines_def res_simps split: prod.splits dest: add_block_keeps)

lemma read_function_inv: "read_function p g st = Inr (found, g', st') \<Longrightarrow> I st \<Longrightarrow> I st'"
  by (auto simp: read_function_def Let_def res_simps functions_keep split: prod.splits option.splits)

lemma tags_loop_inv:
  assumes "tags_loop p fn ct g st = retR (g', st')" and "I st"
  shows "I st'"
proof -
  have "\<forall>g' st'. r = Inr (g', st') \<longrightarrow> I st \<longrightarrow> I st'" if "tags_loop p fn ct g st = Some r" for r
  proof (rule tags_loop.raw_induct[OF _ that,
        where P = "\<lambda>p fn ct g st r. \<forall>g' st'. r = Inr (g', st') \<longrightarrow> I st \<longrightarrow> I st'"])
    fix loop p fn ct g st r
    assume IH: "\<And>p fn ct g st r. loop p fn ct g st = Some r \<Longrightarrow>
        \<forall>g' st'. r = Inr (g', st') \<longrightarrow> I st \<longrightarrow> I st'"
      and run: "(let (tag, g1) = gcov_read_unsigned g
      in if tag = 0 then retR (g1, st)
         else
           (let (len, g2) = gcov_read_unsigned g1; base = gcov_position g2
            in if tag = GCOV_TAG_FUNCTION then
                 bindR (liftR (read_function p g2 st)) (\<lambda>(found, g3, st').
                   if \<not> found then loop p False ct g3 st'
                   else
                     (let g4 = gcov_sync base len g3
                      in if gcov_is_error g4 \<noteq> 0 then retR (g4, st') else loop p True tag g4 st'))
               else if fn \<and> tag = GCOV_TAG_LINES then
                 bindR (read_lines p g2 st) (\<lambda>(g3, st').
                   let g4 = gcov_sync base len g3
                   in if gcov_is_error g4 \<noteq> 0 then retR (g4, st') else loop p fn ct g4 st')
               else
                 (let (fn', ct') =
                        (if ct \<noteq> 0 \<and> \<not> GCOV_TAG_IS_SUBTAG ct tag then (False, 0) else (fn, ct));
                      g4 = gcov_sync base len g2
                  in if gcov_is_error g4 \<noteq> 0 then retR (g4, st) else loop p fn' ct' g4 st))) = Some r"
    have step: "I st0 \<Longrightarrow> I st'" if "loop p0 fn0 ct0 g0 st0 = retR (g', st')" for p0 fn0 ct0 g0 st0 g' st'
      using IH[OF that] by simp
    show "\<forall>g' st'. r = Inr (g', st') \<longrightarrow> I st \<longrightarrow> I st'"
    proof (intro allI impI)
      fix g' st' assume r: "r = Inr (g', st')" and st: "I st"
      show "I st'"
        using run st unfolding r
        by (auto simp: Let_def res_simps split: if_splits prod.splits dest: step read_function_inv read_lines_inv)
    qed
  qed
  with assms show ?thesis by blast
qed

lemma read_graph_file_inv:
  "read_graph_file fopen p f g st = retR (g', st') \<Longrightarrow> I st \<Longrightarrow> I st'"
  by (auto simp: read_graph_file_def Let_def res_simps split: prod.splits if_splits dest: tags_loop_inv)

lemma read_graph_files_inv:
  "read_graph_files fopen p fs g st = retR (g', st') \<Longrightarrow> I st \<Longrightarrow> I st'"
  by (induction fs arbitrary: g st) (auto simp: res_simps split: if_splits dest: read_graph_file_inv)

end

interpretation coverage: block_invariant coverage_inv
  by unfold_locales (simp_all add: add_block_inv)

subsection \<open>The sets of basic blocks\<close>

definition blocks_ok :: "bb2lines \<Rightarrow> bool" where
  "blocks_ok st \<longleftrightarrow> basic_blocks_addr_map st = [] \<and>
     (\<forall>e \<in> set (basic_blocks_map st). sorted_wrt (\<lambda>a b. start_line a < start_line b) (snd e) \<and> (\<forall>bb \<in> set (snd e). bb_is_valid bb))"

lemma sorted_bb_insert:
  "sorted_wrt (\<lambda>a b. start_line a < start_line b) s \<Longrightarrow> sorted_wrt (\<lambda>a b. start_line a < start_line b) (bb_insert_sorted bb s)"
proof (induction s)
  case (Cons b s)
  then show ?case using set_bb_insert_sorted[of bb s] by (auto intro: less_trans)
qed simp

lemma blocks_ok_update:
  assumes "blocks_ok st" "sorted_wrt (\<lambda>a b. start_line a < start_line b) s" "\<forall>bb \<in> set s. bb_is_valid bb"
  shows "blocks_ok (st\<lparr>basic_blocks_map := um_update f s (basic_blocks_map st)\<rparr>)"
  using assms by (auto simp: blocks_ok_def dest!: in_um_update)

lemma blocks_ok_get:
  assumes "blocks_ok st"
  shows "sorted_wrt (\<lambda>a b. start_line a < start_line b) (um_get [] (basic_blocks_map st) f) \<and>
    (\<forall>bb \<in> set (um_get [] (basic_blocks_map st) f). bb_is_valid bb)"
proof (cases "map_of (basic_blocks_map st) f")
  case (Some bbs)
  with assms map_of_SomeD[OF Some] show ?thesis by (force simp: blocks_ok_def um_get_def)
qed (simp add: um_get_def)

lemma merge_existing_ok:
  assumes "merge_existing f bb st = Inr (bb', st')" "blocks_ok st" "bb_is_valid bb"
  shows "blocks_ok st' \<and> bb_is_valid bb'"
proof -
  consider (same) "bb' = bb" "st' = st"
    | (merged) bbs b where "map_of (basic_blocks_map st) f = Some bbs" "bb_is_valid bb'"
      "st' = st\<lparr>basic_blocks_map := um_update f (bb_set_erase b bbs) (basic_blocks_map st),
         bb_is_already_in_bb_map_count := bb_is_already_in_bb_map_count st + 1\<rparr>"
    using assms(1,3) by (auto simp: merge_existing_def bb_set_find_def res_simps split: option.splits if_splits)
  then show ?thesis
  proof cases
    case merged
    have "um_get [] (basic_blocks_map st) f = bbs" using merged(1) by (simp add: um_get_def)
    then have "blocks_ok (st\<lparr>basic_blocks_map := um_update f (bb_set_erase b bbs) (basic_blocks_map st)\<rparr>)"
      using blocks_ok_get[OF assms(2), of f] assms(2)
      by (intro blocks_ok_update) (auto simp: bb_set_erase_def intro: sorted_wrt_filter)
    with merged show ?thesis by (simp add: blocks_ok_def)
  qed (use assms in simp)
qed

lemma add_block_ok:
  assumes "add_block p bb st = Inr st'" "bb_is_valid bb" "blocks_ok st"
  shows "blocks_ok st'"
proof -
  let ?st1 = "st\<lparr>bb_read_count := bb_read_count st + 1\<rparr>"
  let ?st2 = "fold note_coverable (bb_source_lines bb) ?st1"
  obtain fname bb' st3 s where m: "merge_existing (p @ fname) bb ?st2 = Inr (bb', st3)"
    and s: "bb_set_insert bb' (um_get [] (basic_blocks_map st3) (p @ fname)) = Inr s"
    and st': "st' = st3\<lparr>basic_blocks_map := um_update (p @ fname) s (basic_blocks_map st3)\<rparr>"
    using assms(1) by (auto simp: add_block_def Let_def res_simps)
  have "blocks_ok (fold note_coverable sls x) = blocks_ok x" for sls x
    by (induction sls arbitrary: x) (simp_all add: blocks_ok_def)
  then have "blocks_ok ?st2" using assms(3) by (simp add: blocks_ok_def)
  with m assms(2) have ok: "blocks_ok st3" "bb_is_valid bb'" by (auto dest: merge_existing_ok)
  have "s = bb_insert_sorted bb' (um_get [] (basic_blocks_map st3) (p @ fname))"
    using s by (simp add: bb_set_insert_def split: if_splits)
  then show ?thesis
    unfolding st' using ok blocks_ok_get[OF ok(1), of "p @ fname"]
      set_bb_insert_sorted[of bb' "um_get [] (basic_blocks_map st3) (p @ fname)"]
    by (intro blocks_ok_update) (auto simp: sorted_bb_insert)
qed

lemma blocks_ok_functions: "blocks_ok (st\<lparr>functions_map := fm\<rparr>) = blocks_ok st"
  by (simp add: blocks_ok_def)

interpretation sorted_blocks: block_invariant blocks_ok
  by unfold_locales (simp_all add: add_block_ok blocks_ok_functions)

section \<open>Addresses and coverage\<close>

text \<open>Iteration visits entries of the map.\<close>

definition iter_ok :: "('a list \<Rightarrow> 'a list) \<Rightarrow> bool" where
  "iter_ok iter \<longleftrightarrow> (\<forall>m. mset (iter m) = mset m)"

lemma iter_ok_set: "iter_ok iter \<Longrightarrow> set (iter m) = set m"
  by (metis iter_ok_def set_mset_mset)

lemma find_in_map_known:
  assumes "coverage_inv st" "iter_ok (be_iter env)"
  shows "block_known (coverable_lines st) (find_line_and_file_in_bb_map env l f st)"
proof (cases "find (is_line_and_file_in_bb (be_prefix env) l f) (concat (map snd (be_iter env (basic_blocks_map st))))")
  case None
  then show ?thesis by (simp add: find_line_and_file_in_bb_map_def invalid_bb_def block_known_def)
next
  case (Some bb)
  then have "\<exists>e \<in> set (basic_blocks_map st). bb \<in> set (snd e)"
    using find_Some_in[OF Some] iter_ok_set[OF assms(2), of "basic_blocks_map st"] by auto
  with assms(1) Some show ?thesis by (auto simp: find_line_and_file_in_bb_map_def coverage_inv_def)
qed

lemma coverage_inv_addr:
  assumes "coverage_inv st" and "block_known (coverable_lines st) bb"
  shows "coverage_inv (st\<lparr>basic_blocks_addr_map := um_update a bb (basic_blocks_addr_map st)\<rparr>)"
  using assms by (auto simp: coverage_inv_def dest!: in_um_update)

lemma remember_inv:
  assumes "remember a bb st = (r, st')" "coverage_inv st" "block_known (coverable_lines st) bb"
  shows "coverage_inv st' \<and> (\<forall>b. r = Some b \<longrightarrow> block_known (coverable_lines st') b)"
  using assms coverage_inv_addr[OF assms(2,3), of a] by (auto simp: remember_def)

lemma not_found_inv:
  assumes "not_found a st = (r, st')" "coverage_inv st"
  shows "coverage_inv st' \<and> r = None"
proof -
  have "block_known (coverable_lines st) invalid_bb" by (simp add: block_known_def invalid_bb_def)
  with assms coverage_inv_addr[of st invalid_bb a] show ?thesis by (auto simp: not_found_def)
qed

lemma count_not_start_simps [simp]:
  "coverage_inv (count_not_start st) = coverage_inv st" "coverable_lines (count_not_start st) = coverable_lines st"
  "basic_blocks_map (count_not_start st) = basic_blocks_map st"
  by (simp_all add: count_not_start_def)

lemma search_harder_inv:
  assumes "search_harder env a f l st = (r, st')" "coverage_inv st" "iter_ok (be_iter env)"
  shows "coverage_inv st' \<and> (\<forall>b. r = Some b \<longrightarrow> block_known (coverable_lines st') b)"
  using assms find_in_map_known[OF assms(2,3)]
  by (auto simp: search_harder_def Let_def split: if_splits dest: remember_inv not_found_inv)

lemma bb_before_in: "bb_before l s = Some b \<Longrightarrow> b \<in> set s \<and> start_line b \<le> l"
proof -
  assume b: "bb_before l s = Some b"
  then have "filter (\<lambda>b. start_line b \<le> l) s \<noteq> []" "b = last (filter (\<lambda>b. start_line b \<le> l) s)"
    by (auto simp: bb_before_def split: list.splits)
  then show ?thesis using last_in_set[of "filter (\<lambda>b. start_line b \<le> l) s"] by auto
qed

lemma bb_before_greatest:
  assumes s: "sorted_wrt (\<lambda>a b. start_line a < start_line b) s" and bb: "bb_before l s = Some bb"
  shows "\<forall>b \<in> set s. start_line b \<le> l \<longrightarrow> start_line b \<le> start_line bb"
proof -
  let ?f = "filter (\<lambda>b. start_line b \<le> l) s"
  have f: "?f \<noteq> []" "bb = last ?f" using bb by (auto simp: bb_before_def split: list.splits)
  have "sorted_wrt (\<lambda>a b. start_line a < start_line b) (butlast ?f @ [last ?f])"
    using s f(1) by (simp add: sorted_wrt_filter)
  then have "\<forall>b \<in> set (butlast ?f @ [last ?f]). start_line b \<le> start_line (last ?f)"
    by (auto simp: sorted_wrt_append)
  then have "\<forall>b \<in> set ?f. start_line b \<le> start_line bb" using f by simp
  then show ?thesis by simp
qed

lemma bb_before_some: "b \<in> set s \<Longrightarrow> start_line b \<le> l \<Longrightarrow> \<exists>bb. bb_before l s = Some bb"
proof -
  assume "b \<in> set s" "start_line b \<le> l"
  then have "filter (\<lambda>b. start_line b \<le> l) s \<noteq> []" by (auto simp: filter_empty_conv)
  then show ?thesis by (cases "filter (\<lambda>b. start_line b \<le> l) s") (simp_all add: bb_before_def)
qed

lemma get_basic_block_inv:
  assumes g: "get_basic_block env a st = Inr (r, st')" and I: "coverage_inv st" and it: "iter_ok (be_iter env)"
  shows "coverage_inv st' \<and> (\<forall>b. r = Some b \<longrightarrow> block_known (coverable_lines st') b)"
proof (cases "map_of (basic_blocks_addr_map st) a")
  case (Some bb)
  then have "block_known (coverable_lines st) bb" using I by (auto simp: coverage_inv_def dest!: map_of_SomeD)
  with g I Some show ?thesis by (auto simp: get_basic_block_def split: if_splits)
next
  case None
  define st1 where "st1 = st\<lparr>unique_input_addr_count := unique_input_addr_count st + 1\<rparr>"
  have I1: "coverage_inv st1" using I by (simp add: st1_def)
  have known: "block_known (coverable_lines st1) b"
    if "map_of (basic_blocks_map st1) f = Some bbs" "bb_before l bbs = Some b" for f bbs l b
    using I1 bb_before_in[OF that(2)] map_of_SomeD[OF that(1)] by (force simp: coverage_inv_def)
  note find = find_in_map_known[OF I1 it]
  show ?thesis
    using g None I1 find unfolding get_basic_block_def Let_def st1_def[symmetric]
    by (auto split: prod.splits option.splits if_splits dest!: search_harder_inv remember_inv known simp: it)
qed

lemma cover_source_line_inv:
  assumes "coverage_inv st" and "set (sl_lines sl) \<subseteq> lines_of (coverable_lines st) (sl_filename sl)"
  shows "coverage_inv (cover_source_line sl st)"
  using assms by (auto simp: coverage_inv_def cover_source_line_def line_map_ok_add_lines lines_of_add_lines)

lemma cover_source_lines_inv:
  "coverage_inv st \<Longrightarrow> \<forall>sl \<in> set sls. set (sl_lines sl) \<subseteq> lines_of (coverable_lines st) (sl_filename sl) \<Longrightarrow>
     coverage_inv (fold cover_source_line sls st)"
proof (induction sls arbitrary: st)
  case (Cons sl sls)
  have "coverage_inv (cover_source_line sl st)" using Cons.prems by (intro cover_source_line_inv) simp_all
  moreover have "coverable_lines (cover_source_line sl st) = coverable_lines st" by (simp add: cover_source_line_def)
  ultimately show ?case using Cons.IH[of "cover_source_line sl st"] Cons.prems(2) by simp
qed simp

lemma cover_address_inv:
  assumes "cover_address env line st = Inr st'" "coverage_inv st" "iter_ok (be_iter env)"
  shows "coverage_inv st'"
proof -
  obtain a r st1 where g: "get_basic_block env a (st\<lparr>input_addr_count := input_addr_count st + 1\<rparr>) = Inr (r, st1)"
    and st': "st' = (case r of None \<Rightarrow> st1 | Some bb \<Rightarrow> fold cover_source_line (bb_source_lines bb) st1)"
    using assms(1) by (auto simp: cover_address_def Let_def res_simps)
  have "coverage_inv st1 \<and> (\<forall>b. r = Some b \<longrightarrow> block_known (coverable_lines st1) b)"
    using get_basic_block_inv[OF g _ assms(3)] assms(2) by simp
  then show ?thesis
    by (auto simp: st' block_known_def intro: cover_source_lines_inv split: option.splits)
qed

lemma cover_addresses_inv:
  "cover_addresses env ls st = Inr st' \<Longrightarrow> coverage_inv st \<Longrightarrow> iter_ok (be_iter env) \<Longrightarrow> coverage_inv st'"
  by (induction ls arbitrary: st) (auto simp: res_simps dest: cover_address_inv)

section \<open>The numbers of the report\<close>

lemma entry_lines:
  assumes "line_map_ok m" "(f, ls) \<in> set m"
  shows "set ls = lines_of m f" and "length ls = card (lines_of m f)"
proof -
  have "map_of m f = Some ls" using assms by (simp add: line_map_ok_def map_of_is_SomeI)
  then show "set ls = lines_of m f" by (simp add: lines_of_def um_get_def)
  moreover have "distinct ls" using assms by (force simp: line_map_ok_def strict_sorted_iff)
  ultimately show "length ls = card (lines_of m f)" by (metis distinct_card)
qed

lemma lines_of_unknown: "f \<notin> fst ` set m \<Longrightarrow> lines_of m f = {}"
  using map_of_eq_None_iff[of m f] by (auto simp: lines_of_def um_get_def)

lemma total_lines:
  assumes "line_map_ok m" "finite F" "fst ` set m \<subseteq> F"
  shows "sum_list (map (\<lambda>e. length (snd e)) m) = (\<Sum>f \<in> F. card (lines_of m f))"
proof -
  have "map (\<lambda>e. length (snd e)) m = map (\<lambda>f. card (lines_of m f)) (map fst m)"
    using entry_lines(2)[OF assms(1)] by (auto simp: comp_def)
  then have "sum_list (map (\<lambda>e. length (snd e)) m) = (\<Sum>f \<in> set (map fst m). card (lines_of m f))"
    using assms(1) by (simp only: line_map_ok_def sum_list_distinct_conv_sum_set)
  also have "\<dots> = (\<Sum>f \<in> F. card (lines_of m f))"
  proof (rule sum.mono_neutral_left)
    show "\<forall>f \<in> F - set (map fst m). card (lines_of m f) = 0"
      by (simp add: lines_of_unknown)
  qed (use assms in auto)
  finally show ?thesis .
qed

lemma covered_le_coverable:
  assumes "coverage_inv st"
  shows "card (lines_of (covered_lines st) f) \<le> card (lines_of (coverable_lines st) f)"
  using assms by (intro card_mono) (auto simp: coverage_inv_def lines_of_def)

lemma coverage_totals:
  assumes I: "coverage_inv st"
  shows "sum_list (map (\<lambda>e. length (snd e)) (covered_lines st)) \<le> sum_list (map (\<lambda>e. length (snd e)) (coverable_lines st))"
    and "length (filter (\<lambda>e. snd e \<noteq> []) (covered_lines st)) \<le> length (coverable_lines st)"
proof -
  let ?F = "fst ` set (covered_lines st) \<union> fst ` set (coverable_lines st)"
  have ok: "line_map_ok (covered_lines st)" "line_map_ok (coverable_lines st)" using I by (simp_all add: coverage_inv_def)
  show "sum_list (map (\<lambda>e. length (snd e)) (covered_lines st)) \<le> sum_list (map (\<lambda>e. length (snd e)) (coverable_lines st))"
    using total_lines[OF ok(1), of ?F] total_lines[OF ok(2), of ?F] covered_le_coverable[OF I]
    by (simp add: sum_mono)
  have "fst ` set (filter (\<lambda>e. snd e \<noteq> []) (covered_lines st)) \<subseteq> fst ` set (coverable_lines st)"
  proof
    fix f assume "f \<in> fst ` set (filter (\<lambda>e. snd e \<noteq> []) (covered_lines st))"
    then obtain ls where "(f, ls) \<in> set (covered_lines st)" "ls \<noteq> []" by auto
    then have "lines_of (covered_lines st) f \<noteq> {}" using entry_lines(1)[OF ok(1), of f ls] by (metis set_empty)
    moreover have "lines_of (covered_lines st) f \<subseteq> lines_of (coverable_lines st) f" using I by (simp add: coverage_inv_def)
    ultimately show "f \<in> fst ` set (coverable_lines st)" using lines_of_unknown[of f "coverable_lines st"] by blast
  qed
  moreover have "distinct (map fst (filter (\<lambda>e. snd e \<noteq> []) (covered_lines st)))"
    using ok(1) by (simp add: line_map_ok_def distinct_map_filter)
  ultimately have "card (set (map fst (filter (\<lambda>e. snd e \<noteq> []) (covered_lines st)))) \<le> card (set (map fst (coverable_lines st)))"
    by (intro card_mono) auto
  then show "length (filter (\<lambda>e. snd e \<noteq> []) (covered_lines st)) \<le> length (coverable_lines st)"
    using \<open>distinct (map fst (filter (\<lambda>e. snd e \<noteq> []) (covered_lines st)))\<close> ok(2)
    by (simp add: distinct_card line_map_ok_def del: set_map)
qed

lemma count_all_lines_card:
  assumes "coverage_inv st"
  shows "count_all_lines_in_file f st = card (lines_of (coverable_lines st) f)"
proof (cases "map_of (coverable_lines st) f")
  case None
  then show ?thesis by (simp add: count_all_lines_in_file_def lines_of_def um_get_def)
next
  case (Some ls)
  have "line_map_ok (coverable_lines st)" using assms by (simp add: coverage_inv_def)
  then show ?thesis using Some entry_lines(2)[OF _ map_of_SomeD[OF Some]] by (simp add: count_all_lines_in_file_def)
qed

lemma coverage_rows:
  assumes I: "coverage_inv st" and "(f, ls) \<in> set (covered_lines st)"
  shows "set ls \<subseteq> lines_of (coverable_lines st) f \<and> length ls \<le> count_all_lines_in_file f st"
proof -
  have ok: "line_map_ok (covered_lines st)" using I by (simp add: coverage_inv_def)
  show ?thesis
    using I entry_lines[OF ok assms(2)] covered_le_coverable[OF I, of f]
    by (simp add: coverage_inv_def count_all_lines_card[OF I])
qed

section \<open>What adding a basic block does\<close>

definition block_lines :: "basic_block \<Rightarrow> string \<Rightarrow> u32 set" where
  "block_lines bb f = (\<Union>sl \<in> {sl \<in> set (bb_source_lines bb). sl_filename sl = f}. set (sl_lines sl))"

lemma note_coverables_lines:
  "lines_of (coverable_lines (fold note_coverable sls st)) f =
     lines_of (coverable_lines st) f \<union> (\<Union>sl \<in> {sl \<in> set sls. sl_filename sl = f}. set (sl_lines sl))"
  by (induction sls arbitrary: st) (auto simp: note_coverable_coverable)

lemma merge_existing_fields: "merge_existing f bb st = Inr (bb', st') \<Longrightarrow> coverable_lines st' = coverable_lines st"
  by (auto simp: merge_existing_def res_simps split: option.splits if_splits)

lemma add_block_lines:
  assumes "add_block p bb st = Inr st'"
  shows "lines_of (coverable_lines st') f = lines_of (coverable_lines st) f \<union> block_lines bb f"
proof -
  let ?st1 = "st\<lparr>bb_read_count := bb_read_count st + 1\<rparr>"
  let ?st2 = "fold note_coverable (bb_source_lines bb) ?st1"
  obtain fname bb' st3 s where "merge_existing (p @ fname) bb ?st2 = Inr (bb', st3)"
    and "st' = st3\<lparr>basic_blocks_map := um_update (p @ fname) s (basic_blocks_map st3)\<rparr>"
    using assms by (auto simp: add_block_def Let_def res_simps)
  then have "coverable_lines st' = coverable_lines ?st2" using merge_existing_fields by simp
  then show ?thesis by (simp add: note_coverables_lines block_lines_def)
qed

definition blocks_start :: "bb2lines \<Rightarrow> bool" where
  "blocks_start st \<longleftrightarrow> (\<forall>e \<in> set (basic_blocks_map st). \<forall>bb \<in> set (snd e). has_start_line bb)"

lemma has_start_line_append:
  "has_start_line bb \<Longrightarrow> has_start_line (bb\<lparr>bb_source_lines := bb_source_lines bb @ sls\<rparr>)"
  by (cases "bb_source_lines bb") (simp_all add: has_start_line_def get_start_line_def)

lemma blocks_start_update:
  "blocks_start st \<Longrightarrow> \<forall>bb \<in> set s. has_start_line bb \<Longrightarrow>
     blocks_start (st\<lparr>basic_blocks_map := um_update f s (basic_blocks_map st)\<rparr>)"
  by (auto simp: blocks_start_def dest!: in_um_update)

lemma merge_existing_defined:
  assumes "blocks_start st" "has_start_line bb"
  shows "\<exists>bb' st'. merge_existing f bb st = Inr (bb', st') \<and> has_start_line bb' \<and> blocks_start st'"
proof (cases "map_of (basic_blocks_map st) f")
  case None
  with assms show ?thesis by (simp add: merge_existing_def)
next
  case (Some bbs)
  have all: "\<forall>b \<in> set bbs. has_start_line b" using assms(1) map_of_SomeD[OF Some] by (force simp: blocks_start_def)
  then have find: "bb_set_find bb bbs = Inr (find (\<lambda>b. start_line b = start_line bb) bbs)"
    using assms(2) by (simp add: bb_set_find_def comparable_def)
  have erased: "blocks_start (st\<lparr>basic_blocks_map := um_update f (bb_set_erase b bbs) (basic_blocks_map st),
      bb_is_already_in_bb_map_count := c\<rparr>)" for b c
    using blocks_start_update[OF assms(1), of "bb_set_erase b bbs" f] all by (auto simp: bb_set_erase_def blocks_start_def)
  show ?thesis
    using Some find erased assms
    by (cases "find (\<lambda>b. start_line b = start_line bb) bbs") (auto simp: merge_existing_def has_start_line_append)
qed

lemma add_block_defined:
  assumes "blocks_start st" "has_start_line bb"
  shows "\<exists>st'. add_block p bb st = Inr st' \<and> blocks_start st'"
proof -
  obtain fname where fname: "get_filename bb = Inr fname"
    using assms(2) by (cases "bb_source_lines bb") (simp_all add: has_start_line_def get_start_line_def get_filename_def)
  define st2 where "st2 = fold note_coverable (bb_source_lines bb) (st\<lparr>bb_read_count := bb_read_count st + 1\<rparr>)"
  have "basic_blocks_map (fold note_coverable sls s) = basic_blocks_map s" for sls s
    by (induction sls arbitrary: s) simp_all
  then have "blocks_start st2" using assms(1) by (simp add: blocks_start_def st2_def)
  then obtain bb' st3 where m: "merge_existing (p @ fname) bb st2 = Inr (bb', st3)" "has_start_line bb'" "blocks_start st3"
    using merge_existing_defined assms(2) by blast
  define s where "s = um_get [] (basic_blocks_map st3) (p @ fname)"
  have all: "\<forall>b \<in> set s. has_start_line b" using m(3) by (auto simp: s_def blocks_start_def dest!: in_um_get)
  then have "bb_set_insert bb' s = Inr (bb_insert_sorted bb' s)" using m(2) by (simp add: bb_set_insert_def comparable_def)
  moreover have "\<forall>b \<in> set (bb_insert_sorted bb' s). has_start_line b" using set_bb_insert_sorted[of bb' s] all m(2) by auto
  ultimately show ?thesis
    using fname m blocks_start_update[OF m(3)]
    by (auto simp: add_block_def Let_def st2_def[symmetric] s_def[symmetric])
qed

end
