(* ===== verification/Gcno_Format.thy ===== *)
theory Gcno_Format
  imports Bb2lines_Inv
begin

text \<open>
  The format of the notes files, given by a function that writes them, and the proof that
  \<^verbatim>\<open>read_graph_file\<close> reads back the basic blocks that were written. Files have the byte order of the
  machine. Names of functions are read through pointers into the window after the window may have
  moved; this can go wrong only in files that do not fit into the first window (2050 words).
\<close>

section \<open>Words ahead of the reader\<close>

definition ahead :: "u32 list \<Rightarrow> nat \<Rightarrow> u32 list \<Rightarrow> bool" where
  "ahead ws p xs \<longleftrightarrow> (\<exists>post. drop p ws = xs @ post) \<and> p \<le> length ws"

lemma ahead_Cons: "ahead ws p (x # xs) \<Longrightarrow> p < length ws \<and> ws ! p = x \<and> ahead ws (Suc p) xs"
proof -
  assume a: "ahead ws p (x # xs)"
  then obtain post where d: "drop p ws = x # xs @ post" by (auto simp: ahead_def)
  then have p: "p < length ws" by (metis drop_eq_Nil linorder_not_less list.distinct(1))
  then have "drop p ws = ws ! p # drop (Suc p) ws" by (simp add: Cons_nth_drop_Suc)
  with d p show ?thesis by (auto simp: ahead_def)
qed

lemma ahead_append: "ahead ws p (xs @ ys) \<longleftrightarrow> ahead ws p xs \<and> ahead ws (p + length xs) ys"
proof
  assume "ahead ws p (xs @ ys)"
  then obtain post where d: "drop p ws = xs @ ys @ post" "p \<le> length ws" by (auto simp: ahead_def)
  then have "drop (p + length xs) ws = ys @ post" by (metis add.commute append_eq_conv_conj drop_drop)
  moreover have "p + length xs \<le> length ws"
    using arg_cong[OF d(1), of length] d(2) by simp
  ultimately show "ahead ws p xs \<and> ahead ws (p + length xs) ys" using d by (auto simp: ahead_def)
next
  assume a: "ahead ws p xs \<and> ahead ws (p + length xs) ys"
  then obtain post where "drop p ws = xs @ post" "p \<le> length ws" by (auto simp: ahead_def)
  moreover obtain post' where "drop (p + length xs) ws = ys @ post'" using a by (auto simp: ahead_def)
  moreover have "drop (p + length xs) ws = drop (length xs) (drop p ws)" by (simp add: add.commute)
  ultimately show "ahead ws p (xs @ ys)" by (auto simp: ahead_def)
qed

lemma ahead_take: "ahead ws p xs \<Longrightarrow> take (length xs) (drop p ws) = xs \<and> p + length xs \<le> length ws"
proof -
  assume "ahead ws p xs"
  then obtain post where d: "drop p ws = xs @ post" "p \<le> length ws" by (auto simp: ahead_def)
  have "length ws - p = length xs + length post" using arg_cong[OF d(1), of length] by simp
  with d show ?thesis by simp
qed

text \<open>
  The state of the reader the client works with. With \<open>w\<close> the window holds the whole file, and then
  no read moves it.
\<close>

definition rd :: "bool \<Rightarrow> gcov_var \<Rightarrow> u32 list \<Rightarrow> nat \<Rightarrow> bool" where
  "rd w g ws p \<longleftrightarrow> reader_at g ws p \<and> \<not> gv_endian g \<and> gv_error g = 0 \<and>
     (w \<longrightarrow> gv_start g = 0 \<and> unat (gv_length g) = length ws)"

lemma rd_words:
  assumes r: "rd w g ws p" and room: "p + unat n \<le> length ws"
  obtains i g' where "gcov_read_words n g = (Some (gv_gen g', i), g')" and "rd w g' ws (p + unat n)"
    and "take (unat n) (drop i (gv_buffer g')) = take (unat n) (drop p ws)"
    and "w \<longrightarrow> gv_buffer g' = gv_buffer g \<and> gv_gen g' = gv_gen g"
proof -
  have at: "reader_at g ws p" using r by (simp add: rd_def)
  obtain i g' where g': "gcov_read_words n g = (Some (gv_gen g', i), g')" "reader_at g' ws (p + unat n)"
    "take (unat n) (drop i (gv_buffer g')) = take (unat n) (drop p ws)" "i + unat n \<le> length (gv_buffer g')"
    "gv_endian g' = gv_endian g" "gv_error g' = gv_error g"
    by (rule gcov_read_words_at[OF at room])
  have whole: "g' = g\<lparr>gv_offset := gv_offset g + n\<rparr>" if w
  proof -
    have "unat (gv_offset g) = p" "unat (gv_length g) = length ws" "gv_mode g > 0" "gv_offset g \<le> gv_length g"
      using r that at by (auto simp: rd_def reader_at_def)
    then have "\<not> gv_length g - gv_offset g < n"
      using room by (simp add: word_less_nat_alt unat_minus_small)
    with g'(1) \<open>gv_mode g > 0\<close> show ?thesis by (simp add: gcov_read_words_def)
  qed
  show ?thesis using that[OF g'(1) _ g'(3)] g'(2,5,6) whole r by (simp add: rd_def)
qed

lemma rd_unsigned:
  assumes r: "rd w g ws p" and a: "ahead ws p (x # xs)"
  obtains g' where "gcov_read_unsigned g = (x, g')" and "rd w g' ws (Suc p)"
    and "w \<longrightarrow> gv_buffer g' = gv_buffer g \<and> gv_gen g' = gv_gen g"
proof -
  have p: "p < length ws" "ws ! p = x" using ahead_Cons[OF a] by simp_all
  have room: "p + unat (1 :: u32) \<le> length ws" using p by simp
  obtain i g' where g': "gcov_read_words 1 g = (Some (gv_gen g', i), g')" "rd w g' ws (p + unat (1 :: u32))"
    "take (unat (1 :: u32)) (drop i (gv_buffer g')) = take (unat (1 :: u32)) (drop p ws)"
    "w \<longrightarrow> gv_buffer g' = gv_buffer g \<and> gv_gen g' = gv_gen g"
    by (rule rd_words[OF r room])
  have "drop p ws = x # drop (Suc p) ws" using Cons_nth_drop_Suc[OF p(1)] p(2) by simp
  with g'(3) have "take 1 (drop i (gv_buffer g')) = [x]" by simp
  then have "i < length (gv_buffer g')" "gv_buffer g' ! i = x"
    by (cases "i < length (gv_buffer g')"; simp add: take_Suc hd_drop_conv_nth)+
  with g' that show ?thesis by (simp add: gcov_read_unsigned_def from_file_def rd_def)
qed

definition string_record :: "string \<Rightarrow> u32 list" where
  "string_record s = of_nat (length (string_words s)) # string_words s"

definition string_ok :: "string \<Rightarrow> bool" where
  "string_ok s \<longleftrightarrow> char_of (0 :: nat) \<notin> set s \<and> length s < 2 ^ 28"

lemma string_record_length: "string_ok s \<Longrightarrow> unat (of_nat (length (string_words s)) :: u32) = length (string_words s)"
proof -
  assume "string_ok s"
  then have "length (string_words s) < 2 ^ 32"
    using div_le_dividend[of "length s" 4] by (auto simp: string_ok_def length_string_words intro: le_less_trans)
  then show ?thesis by (simp add: unat_of_nat)
qed

lemma rd_string:
  assumes r: "rd w g ws p" and a: "ahead ws p (string_record s @ xs)" and s: "string_ok s"
  obtains i g' where "gcov_read_string g = (Some (gv_gen g', i), g')" and "rd w g' ws (p + length (string_record s))"
    and "gcov_string (gv_gen g', i) g' = Inr s" and "w \<longrightarrow> gv_buffer g' = gv_buffer g \<and> gv_gen g' = gv_gen g"
proof -
  let ?n = "of_nat (length (string_words s)) :: u32"
  have n: "unat ?n = length (string_words s)" using string_record_length[OF s] .
  then have nz: "?n \<noteq> 0" by (metis length_string_words unat_0 add_is_0 one_neq_zero)
  have a': "ahead ws p (?n # string_words s @ xs)" using a by (simp add: string_record_def)
  obtain g1 where g1: "gcov_read_unsigned g = (?n, g1)" "rd w g1 ws (Suc p)"
    "w \<longrightarrow> gv_buffer g1 = gv_buffer g \<and> gv_gen g1 = gv_gen g"
    by (rule rd_unsigned[OF r a'])
  have b: "ahead ws (Suc p) (string_words s)" using ahead_Cons[OF a'] by (simp add: ahead_append)
  have room: "Suc p + unat ?n \<le> length ws" using ahead_take[OF b] n by simp
  obtain i g' where g': "gcov_read_words ?n g1 = (Some (gv_gen g', i), g')" "rd w g' ws (Suc p + unat ?n)"
    "take (unat ?n) (drop i (gv_buffer g')) = take (unat ?n) (drop (Suc p) ws)"
    "w \<longrightarrow> gv_buffer g' = gv_buffer g1 \<and> gv_gen g' = gv_gen g1"
    by (rule rd_words[OF g1(2) room])
  have "take (length (string_words s)) (drop i (gv_buffer g')) = string_words s"
    using g'(3) ahead_take[OF b] n by simp
  then have "gcov_string (gv_gen g', i) g' = Inr s"
    using s by (intro gcov_string_words) (simp_all add: string_ok_def)
  moreover have "rd w g' ws (p + length (string_record s))" using g'(2) n by (simp add: string_record_def)
  ultimately show ?thesis using that[of g' i] g1 g' nz by (simp add: gcov_read_string_def)
qed

lemma rd_no_string:
  assumes "rd w g ws p" and "ahead ws p (0 # xs)"
  obtains g' where "gcov_read_string g = (None, g')" and "rd w g' ws (Suc p)"
proof -
  obtain g' where "gcov_read_unsigned g = (0, g')" "rd w g' ws (Suc p)"
    "w \<longrightarrow> gv_buffer g' = gv_buffer g \<and> gv_gen g' = gv_gen g"
    by (rule rd_unsigned[OF assms])
  with that show ?thesis by (simp add: gcov_read_string_def)
qed

lemma rd_skip:
  assumes "rd w g ws p" and "ahead ws p (x # xs)"
  shows "rd w (skip_unsigned g) ws (Suc p)"
    and "w \<longrightarrow> gv_buffer (skip_unsigned g) = gv_buffer g \<and> gv_gen (skip_unsigned g) = gv_gen g"
proof -
  obtain g' where "gcov_read_unsigned g = (x, g')" "rd w g' ws (Suc p)"
    "w \<longrightarrow> gv_buffer g' = gv_buffer g \<and> gv_gen g' = gv_gen g"
    by (rule rd_unsigned[OF assms])
  then show "rd w (skip_unsigned g) ws (Suc p)"
    "w \<longrightarrow> gv_buffer (skip_unsigned g) = gv_buffer g \<and> gv_gen (skip_unsigned g) = gv_gen g"
    by (simp_all add: skip_unsigned_def)
qed

lemma ahead_Cons3: "ahead ws p (x # y # z # xs) \<Longrightarrow> ahead ws (p + 3) xs"
  by (drule ahead_Cons, elim conjE, drule ahead_Cons, elim conjE, drule ahead_Cons) (simp add: numeral_3_eq_3)

lemma rd_skip3:
  assumes "rd w g ws p" and a: "ahead ws p (x # y # z # xs)"
  shows "rd w (skip_unsigned (skip_unsigned (skip_unsigned g))) ws (p + 3)"
    and "w \<longrightarrow> gv_buffer (skip_unsigned (skip_unsigned (skip_unsigned g))) = gv_buffer g \<and>
      gv_gen (skip_unsigned (skip_unsigned (skip_unsigned g))) = gv_gen g"
proof -
  have b: "ahead ws (Suc p) (y # z # xs)" "ahead ws (Suc (Suc p)) (z # xs)"
    using ahead_Cons[OF a] ahead_Cons[of ws "Suc p" y "z # xs"] by simp_all
  note 1 = rd_skip[OF assms] and 2 = rd_skip[OF rd_skip(1)[OF assms] b(1)]
  note 3 = rd_skip[OF 2(1) b(2)]
  show "rd w (skip_unsigned (skip_unsigned (skip_unsigned g))) ws (p + 3)" using 3(1) by (simp add: numeral_3_eq_3)
  show "w \<longrightarrow> gv_buffer (skip_unsigned (skip_unsigned (skip_unsigned g))) = gv_buffer g \<and>
      gv_gen (skip_unsigned (skip_unsigned (skip_unsigned g))) = gv_gen g"
    using 1(2) 2(2) 3(2) by simp
qed

lemma rd_sync:
  assumes r: "rd w g ws p" and t: "unat base + unat len \<le> length ws"
  shows "rd w (gcov_sync base len g) ws (unat base + unat len)" and "gcov_is_error (gcov_sync base len g) = 0"
proof -
  have at: "reader_at g ws p" using r by (simp add: rd_def)
  note s = gcov_sync_at[OF at t]
  have "gv_start (gcov_sync base len g) = 0 \<and> gv_length (gcov_sync base len g) = gv_length g" if w
  proof -
    have "gv_start g = 0" "unat (gv_length g) = length ws" using r that by (simp_all add: rd_def)
    moreover have "unat (base + len) = unat base + unat len"
      using t at by (intro unat_plus_small) (simp add: reader_at_def)
    ultimately show ?thesis using t by (simp add: gcov_sync_def Let_def word_le_nat_alt)
  qed
  with s r show "rd w (gcov_sync base len g) ws (unat base + unat len)" by (simp add: rd_def)
  show "gcov_is_error (gcov_sync base len g) = 0" using s r by (simp add: gcov_is_error_def rd_def)
qed

section \<open>Line records\<close>

datatype line_token = Source string | Line u32

fun token_words :: "line_token \<Rightarrow> u32 list" where
  "token_words (Source f) = 0 # string_record f"
| "token_words (Line l) = [l]"

fun token_ok :: "line_token \<Rightarrow> bool" where
  "token_ok (Source f) = string_ok f"
| "token_ok (Line l) = (l \<noteq> 0)"

fun read_token :: "line_token \<Rightarrow> source_line list \<Rightarrow> source_line list" where
  "read_token (Source f) sls = sls @ [\<lparr>sl_filename = f, sl_lines = []\<rparr>]"
| "read_token (Line l) sls = butlast sls @ [(last sls)\<lparr>sl_lines := sl_lines (last sls) @ [l]\<rparr>]"

definition tokens_of :: "source_line list \<Rightarrow> line_token list" where
  "tokens_of sls = concat (map (\<lambda>sl. Source (sl_filename sl) # map Line (sl_lines sl)) sls)"

lemma lines_loop_tokens:
  assumes "rd w g ws p" and "ahead ws p (concat (map token_words ts) @ 0 # 0 # xs)"
    and "\<forall>t \<in> set ts. token_ok t" and "sls = [] \<longrightarrow> (\<forall>l ts'. ts \<noteq> Line l # ts')"
  shows "\<exists>g'. lines_loop g sls = retR (fold read_token ts sls, g') \<and>
    rd w g' ws (p + length (concat (map token_words ts)) + 2)"
  using assms
proof (induction ts arbitrary: g p sls)
  case Nil
  have a: "ahead ws p (0 # 0 # xs)" using Nil.prems(2) by simp
  obtain g1 where g1: "gcov_read_unsigned g = (0, g1)" "rd w g1 ws (Suc p)"
    "w \<longrightarrow> gv_buffer g1 = gv_buffer g \<and> gv_gen g1 = gv_gen g"
    by (rule rd_unsigned[OF Nil.prems(1) a])
  have b: "ahead ws (Suc p) (0 # xs)" using ahead_Cons[OF a] by simp
  obtain g2 where "gcov_read_string g1 = (None, g2)" "rd w g2 ws (Suc (Suc p))"
    by (rule rd_no_string[OF g1(2) b])
  with g1 show ?case by (subst lines_loop.simps) simp
next
  case (Cons t ts)
  show ?case
  proof (cases t)
    case (Line l)
    have l: "l \<noteq> 0" "sls \<noteq> []" using Cons.prems Line by auto
    have a: "ahead ws p (l # concat (map token_words ts) @ 0 # 0 # xs)" using Cons.prems(2) Line by simp
    obtain g1 where g1: "gcov_read_unsigned g = (l, g1)" "rd w g1 ws (Suc p)"
      "w \<longrightarrow> gv_buffer g1 = gv_buffer g \<and> gv_gen g1 = gv_gen g"
      by (rule rd_unsigned[OF Cons.prems(1) a])
    have "\<exists>g'. lines_loop g1 (read_token t sls) = retR (fold read_token ts (read_token t sls), g') \<and>
        rd w g' ws (Suc p + length (concat (map token_words ts)) + 2)"
      using g1(2) ahead_Cons[OF a] Cons.prems(3) Line by (intro Cons.IH) simp_all
    with g1 l Line show ?thesis by (subst lines_loop.simps) (simp add: push_line_def)
  next
    case (Source f)
    have f: "string_ok f" using Cons.prems Source by simp
    have a: "ahead ws p (0 # string_record f @ concat (map token_words ts) @ 0 # 0 # xs)" using Cons.prems(2) Source by simp
    obtain g1 where g1: "gcov_read_unsigned g = (0, g1)" "rd w g1 ws (Suc p)"
      "w \<longrightarrow> gv_buffer g1 = gv_buffer g \<and> gv_gen g1 = gv_gen g"
      by (rule rd_unsigned[OF Cons.prems(1) a])
    have b: "ahead ws (Suc p) (string_record f @ concat (map token_words ts) @ 0 # 0 # xs)" using ahead_Cons[OF a] by simp
    obtain i g2 where g2: "gcov_read_string g1 = (Some (gv_gen g2, i), g2)" "rd w g2 ws (Suc p + length (string_record f))"
      "gcov_string (gv_gen g2, i) g2 = Inr f" "w \<longrightarrow> gv_buffer g2 = gv_buffer g1 \<and> gv_gen g2 = gv_gen g1"
      by (rule rd_string[OF g1(2) b f])
    have c: "ahead ws (Suc p + length (string_record f)) (concat (map token_words ts) @ 0 # 0 # xs)"
      using b by (simp add: ahead_append)
    have "\<exists>g'. lines_loop g2 (read_token t sls) = retR (fold read_token ts (read_token t sls), g') \<and>
        rd w g' ws (Suc p + length (string_record f) + length (concat (map token_words ts)) + 2)"
      using g2(2) c Cons.prems(3) Source by (intro Cons.IH) simp_all
    with g1 g2 Source show ?thesis by (subst lines_loop.simps) (simp add: add.assoc)
  qed
qed

lemma read_tokens_of: "fold read_token (tokens_of sls) acc = acc @ sls"
proof (induction sls arbitrary: acc)
  case (Cons sl sls)
  have lines: "fold read_token (map Line ls) (acc @ [\<lparr>sl_filename = f, sl_lines = ls0\<rparr>]) =
      acc @ [\<lparr>sl_filename = f, sl_lines = ls0 @ ls\<rparr>]" for ls ls0 f
    by (induction ls arbitrary: ls0) simp_all
  have "fold read_token (tokens_of (sl # sls)) acc =
      fold read_token (tokens_of sls) (fold read_token (map Line (sl_lines sl)) (acc @ [\<lparr>sl_filename = sl_filename sl, sl_lines = []\<rparr>]))"
    by (simp add: tokens_of_def)
  also have "\<dots> = fold read_token (tokens_of sls) (acc @ [sl])" by (cases sl) (simp add: lines)
  finally show ?case by (simp add: Cons)
qed (simp add: tokens_of_def)

section \<open>Notes files\<close>

datatype gnote =
    Function_note "u32 \<times> u32 \<times> u32" string u32 string "u32 \<times> u32 \<times> u32" "u32 list"
      \<comment> \<open>ident and checksums, name, artificial, source, lines and column, further words\<close>
  | Lines_note u32 "source_line list"
  | Other_note u32 "u32 list"

fun note_tag :: "gnote \<Rightarrow> u32" where
  "note_tag (Function_note _ _ _ _ _ _) = GCOV_TAG_FUNCTION"
| "note_tag (Lines_note _ _) = GCOV_TAG_LINES"
| "note_tag (Other_note t _) = t"

fun note_payload :: "gnote \<Rightarrow> u32 list" where
  "note_payload (Function_note (a, b, c) name art source (d, e, f) xs) =
     [a, b, c] @ string_record name @ [art] @ string_record source @ [d, e, f] @ xs"
| "note_payload (Lines_note blockno sls) = blockno # concat (map token_words (tokens_of sls)) @ [0, 0]"
| "note_payload (Other_note t xs) = xs"

definition note_words :: "gnote \<Rightarrow> u32 list" where
  "note_words n = note_tag n # of_nat (length (note_payload n)) # note_payload n"

definition gcno_words :: "u32 \<times> u32 \<times> u32 \<Rightarrow> gnote list \<Rightarrow> u32 list" where
  \<comment> \<open>a whole file: magic number, version, stamp, flag, records\<close>
  "gcno_words h ns = (case h of (version, stamp, unexecuted) \<Rightarrow>
     [GCOV_NOTE_MAGIC, version, stamp, unexecuted] @ concat (map note_words ns))"

fun note_ok :: "gnote \<Rightarrow> bool" where
  "note_ok (Function_note _ name _ source _ _) \<longleftrightarrow> string_ok name \<and> string_ok source"
| "note_ok (Lines_note _ sls) \<longleftrightarrow> (\<forall>sl \<in> set sls. string_ok (sl_filename sl) \<and> 0 \<notin> set (sl_lines sl))"
| "note_ok (Other_note t _) \<longleftrightarrow> t \<noteq> 0 \<and> t \<noteq> GCOV_TAG_FUNCTION \<and> t \<noteq> GCOV_TAG_LINES"

text \<open>The basic blocks in a file: line records count until another kind of record ends the function.\<close>

fun note_blocks :: "bool \<Rightarrow> gnote list \<Rightarrow> basic_block list" where
  "note_blocks fn [] = []"
| "note_blocks fn (Function_note _ _ _ _ _ _ # ns) = note_blocks True ns"
| "note_blocks fn (Lines_note b sls # ns) =
     (if fn then [\<lparr>bb_blockno = b, bb_source_lines = sls, bb_is_valid = True\<rparr>] else []) @ note_blocks fn ns"
| "note_blocks fn (Other_note t _ # ns) = note_blocks (fn \<and> GCOV_TAG_IS_SUBTAG GCOV_TAG_FUNCTION t) ns"

fun add_blocks :: "string \<Rightarrow> basic_block list \<Rightarrow> bb2lines \<Rightarrow> bb2lines res" where
  "add_blocks prefix [] st = Inr st"
| "add_blocks prefix (bb # bbs) st = bindE (add_block prefix bb st) (add_blocks prefix bbs)"

text \<open>The map of functions is written only; the other components do not depend on it.\<close>

definition with_functions :: "(string, (string, string) umap) umap \<Rightarrow> bb2lines \<Rightarrow> bb2lines" where
  "with_functions fm st = st\<lparr>functions_map := fm\<rparr>"

lemma note_coverables_functions:
  "fold note_coverable sls (with_functions fm st) = with_functions fm (fold note_coverable sls st)"
proof (induction sls arbitrary: st)
  case (Cons sl sls)
  have "note_coverable sl (with_functions fm st) = with_functions fm (note_coverable sl st)"
    by (simp add: note_coverable_def with_functions_def Let_def)
  with Cons show ?case by simp
qed simp

lemma merge_existing_functions:
  "merge_existing f bb (with_functions fm st) = map_sum id (map_prod id (with_functions fm)) (merge_existing f bb st)"
  by (auto simp: merge_existing_def with_functions_def bb_set_find_def split: option.splits)

lemma add_block_functions: "add_block p bb (with_functions fm st) = map_sum id (with_functions fm) (add_block p bb st)"
proof (cases "get_filename bb")
  case (Inr f)
  define st2 where "st2 = fold note_coverable (bb_source_lines bb) (st\<lparr>bb_read_count := bb_read_count st + 1\<rparr>)"
  have "fold note_coverable (bb_source_lines bb) (with_functions fm st\<lparr>bb_read_count := bb_read_count (with_functions fm st) + 1\<rparr>) =
      with_functions fm st2"
  proof -
    have "with_functions fm st\<lparr>bb_read_count := bb_read_count (with_functions fm st) + 1\<rparr> =
        with_functions fm (st\<lparr>bb_read_count := bb_read_count st + 1\<rparr>)"
      by (simp add: with_functions_def)
    then show ?thesis by (simp only: st2_def note_coverables_functions)
  qed
  moreover have "basic_blocks_map (with_functions fm s) = basic_blocks_map s"
    "(with_functions fm s)\<lparr>basic_blocks_map := m\<rparr> = with_functions fm (s\<lparr>basic_blocks_map := m\<rparr>)" for s m
    by (simp_all add: with_functions_def)
  ultimately show ?thesis
    using Inr by (cases "merge_existing (p @ f) bb st2")
      (auto simp: add_block_def Let_def merge_existing_functions st2_def[symmetric] bb_set_insert_def)
qed (simp add: add_block_def)

lemma add_blocks_functions: "add_blocks p bbs (with_functions fm st) = map_sum id (with_functions fm) (add_blocks p bbs st)"
proof (induction bbs arbitrary: st)
  case (Cons bb bbs)
  then show ?case by (cases "add_block p bb st") (simp_all add: add_block_functions)
qed simp

lemma with_functions_twice [simp]: "with_functions fm (with_functions fm' st) = with_functions fm st"
  by (simp add: with_functions_def)

section \<open>Reading records\<close>

lemma tokens_ok: "note_ok (Lines_note b sls) \<Longrightarrow> \<forall>t \<in> set (tokens_of sls). token_ok t"
  by (auto simp: tokens_of_def)

lemma read_lines_note:
  assumes r: "rd w g ws p" and a: "ahead ws p (note_payload (Lines_note b sls) @ xs)" and ok: "note_ok (Lines_note b sls)"
  obtains g' where "read_lines prefix g st =
      bindR (liftR (add_block prefix \<lparr>bb_blockno = b, bb_source_lines = sls, bb_is_valid = True\<rparr> st)) (\<lambda>st'. retR (g', st'))"
    and "\<exists>q. rd w g' ws q"
proof -
  have a': "ahead ws p (b # concat (map token_words (tokens_of sls)) @ 0 # 0 # xs)" using a by simp
  obtain g1 where g1: "gcov_read_unsigned g = (b, g1)" "rd w g1 ws (Suc p)"
    "w \<longrightarrow> gv_buffer g1 = gv_buffer g \<and> gv_gen g1 = gv_gen g"
    by (rule rd_unsigned[OF r a'])
  have "[] = [] \<longrightarrow> (\<forall>l ts'. tokens_of sls \<noteq> Line l # ts')" by (cases sls) (simp_all add: tokens_of_def)
  then obtain g2 where "lines_loop g1 [] = retR (fold read_token (tokens_of sls) [], g2)"
    "rd w g2 ws (Suc p + length (concat (map token_words (tokens_of sls))) + 2)"
    using lines_loop_tokens[OF g1(2) _ tokens_ok[OF ok], of xs "[]"] ahead_Cons[OF a'] by blast
  then show ?thesis using that[of g2] g1(1) by (auto simp: read_lines_def read_tokens_of)
qed

text \<open>Only the two pointers of a function record can be stale.\<close>

definition stale :: "cxx_error \<Rightarrow> bool" where
  "stale e \<longleftrightarrow> e = UndefinedBehaviour ''use of a freed buffer'' \<or> e = UndefinedBehaviour ''read behind the buffer''"

lemma gcov_string_stale: "gcov_string ptr g = Inl e \<Longrightarrow> stale e"
  by (auto simp: gcov_string_def c_string_def stale_def split: prod.splits if_splits)

lemma read_function_note:
  assumes r: "rd w g ws p" and a: "ahead ws p (note_payload n @ xs)" and ok: "note_ok n"
    and n: "n = Function_note (a1, b1, c1) name art source (d1, e1, f1) zs"
  shows "(\<exists>e. read_function prefix g st = Inl e \<and> stale e \<and> \<not> w) \<or>
    (\<exists>g' fm q. read_function prefix g st = Inr (True, g', with_functions fm st) \<and> rd w g' ws q)"
proof -
  have s: "string_ok name" "string_ok source" using ok n by simp_all
  have A1: "ahead ws p (a1 # b1 # c1 # string_record name @ art # string_record source @ d1 # e1 # f1 # zs @ xs)"
    using a n by simp
  define g1 where "g1 = skip_unsigned (skip_unsigned (skip_unsigned g))"
  have r1: "rd w g1 ws (p + 3)" using rd_skip3[OF r A1] by (simp add: g1_def)
  have A2: "ahead ws (p + 3) (string_record name @ art # string_record source @ d1 # e1 # f1 # zs @ xs)"
    by (rule ahead_Cons3[OF A1])
  obtain i g2 where g2: "gcov_read_string g1 = (Some (gv_gen g2, i), g2)" "rd w g2 ws (p + 3 + length (string_record name))"
    "gcov_string (gv_gen g2, i) g2 = Inr name" "w \<longrightarrow> gv_buffer g2 = gv_buffer g1 \<and> gv_gen g2 = gv_gen g1"
    by (rule rd_string[OF r1 A2 s(1)])
  define p2 where "p2 = p + 3 + length (string_record name)"
  have A3: "ahead ws p2 (art # string_record source @ d1 # e1 # f1 # zs @ xs)"
    using A2 by (simp add: ahead_append p2_def)
  define g3 where "g3 = skip_unsigned g2"
  have g3: "rd w g3 ws (Suc p2)" "w \<longrightarrow> gv_buffer g3 = gv_buffer g2 \<and> gv_gen g3 = gv_gen g2"
    using rd_skip[OF g2(2) A3[unfolded p2_def]] by (simp_all add: g3_def p2_def)
  have A4: "ahead ws (Suc p2) (string_record source @ d1 # e1 # f1 # zs @ xs)" using ahead_Cons[OF A3] by simp
  obtain j g4 where g4: "gcov_read_string g3 = (Some (gv_gen g4, j), g4)" "rd w g4 ws (Suc p2 + length (string_record source))"
    "gcov_string (gv_gen g4, j) g4 = Inr source" "w \<longrightarrow> gv_buffer g4 = gv_buffer g3 \<and> gv_gen g4 = gv_gen g3"
    by (rule rd_string[OF g3(1) A4 s(2)])
  define p4 where "p4 = Suc p2 + length (string_record source)"
  have A5: "ahead ws p4 (d1 # e1 # f1 # zs @ xs)" using A4 by (simp add: ahead_append p4_def)
  define g5 where "g5 = skip_unsigned (skip_unsigned (skip_unsigned g4))"
  have g5: "rd w g5 ws (p4 + 3)" "w \<longrightarrow> gv_buffer g5 = gv_buffer g4 \<and> gv_gen g5 = gv_gen g4"
    using rd_skip3[OF g4(2) A5[unfolded p4_def]] by (simp_all add: g5_def p4_def)
  have whole: "gcov_string (gv_gen g2, i) g5 = Inr name \<and> gcov_string (gv_gen g4, j) g5 = Inr source" if w
    using that g2(3) g4(3) g3(2) g4(4) g5(2) by (simp add: gcov_string_def)
  have run: "read_function prefix g st =
      bindE (gcov_string (gv_gen g2, i) g5) (\<lambda>n. bindE (gcov_string (gv_gen g4, j) g5) (\<lambda>s.
        Inr (True, g5, with_functions (um_update (prefix @ s)
          (um_update n s (um_get [] (functions_map st) (prefix @ s))) (functions_map st)) st)))"
    unfolding read_function_def Let_def g1_def[symmetric] with_functions_def
    by (simp add: g2(1) g3_def[symmetric] g4(1) g5_def[symmetric])
  show ?thesis
  proof (cases "gcov_string (gv_gen g2, i) g5")
    case (Inl e)
    with run whole gcov_string_stale[OF Inl] show ?thesis by auto
  next
    case (Inr n')
    show ?thesis
    proof (cases "gcov_string (gv_gen g4, j) g5")
      case (Inl e)
      with run Inr whole gcov_string_stale[OF Inl] show ?thesis by auto
    next
      case (Inr s')
      with run \<open>gcov_string (gv_gen g2, i) g5 = Inr n'\<close> g5(1) show ?thesis by auto
    qed
  qed
qed

section \<open>Whole files\<close>

definition tag_state :: "bool \<Rightarrow> u32" where
  "tag_state fn = (if fn then GCOV_TAG_FUNCTION else 0)"

definition notes_result :: "string \<Rightarrow> basic_block list \<Rightarrow> bb2lines \<Rightarrow> (gcov_var \<times> bb2lines) run \<Rightarrow> bool" where
  \<comment> \<open>the run stores the given blocks and otherwise only writes the map of functions\<close>
  "notes_result prefix bbs st r \<longleftrightarrow> (case add_blocks prefix bbs st of
       Inl e \<Rightarrow> r = Some (Inl e)
     | Inr st' \<Rightarrow> (\<exists>g' fm. r = retR (g', with_functions fm st')))"

lemma with_functions_same: "with_functions (functions_map st) st = st"
  by (simp add: with_functions_def)

lemma notes_result_functions:
  assumes "notes_result prefix bbs (with_functions fm st) r"
  shows "notes_result prefix bbs st r"
proof (cases "add_blocks prefix bbs st")
  case (Inl e)
  with assms show ?thesis by (simp add: notes_result_def add_blocks_functions)
next
  case (Inr st')
  with assms obtain g' fm' where "r = retR (g', with_functions fm' (with_functions fm st'))"
    by (auto simp: notes_result_def add_blocks_functions)
  then have "r = retR (g', with_functions fm' st')" by simp
  with Inr show ?thesis unfolding notes_result_def by auto
qed

lemma note_read:
  assumes r: "rd w g ws p" and a: "ahead ws p (note_words n @ xs)"
  obtains g1 g2 where "gcov_read_unsigned g = (note_tag n, g1)"
    "gcov_read_unsigned g1 = (of_nat (length (note_payload n)), g2)" "rd w g2 ws (p + 2)"
    "ahead ws (p + 2) (note_payload n @ xs)"
    "\<And>h q. rd w h ws q \<Longrightarrow> rd w (gcov_sync (gcov_position g2) (of_nat (length (note_payload n))) h) ws (p + length (note_words n)) \<and>
       gcov_is_error (gcov_sync (gcov_position g2) (of_nat (length (note_payload n))) h) = 0"
proof -
  have A: "ahead ws p (note_tag n # of_nat (length (note_payload n)) # note_payload n @ xs)"
    using a by (simp add: note_words_def)
  obtain g1 where g1: "gcov_read_unsigned g = (note_tag n, g1)" "rd w g1 ws (Suc p)"
    "w \<longrightarrow> gv_buffer g1 = gv_buffer g \<and> gv_gen g1 = gv_gen g"
    by (rule rd_unsigned[OF r A])
  have B: "ahead ws (Suc p) (of_nat (length (note_payload n)) # note_payload n @ xs)" using ahead_Cons[OF A] by simp
  obtain g2 where g2: "gcov_read_unsigned g1 = (of_nat (length (note_payload n)), g2)" "rd w g2 ws (Suc (Suc p))"
    "w \<longrightarrow> gv_buffer g2 = gv_buffer g1 \<and> gv_gen g2 = gv_gen g1"
    by (rule rd_unsigned[OF g1(2) B])
  have C: "ahead ws (Suc (Suc p)) (note_payload n @ xs)" using ahead_Cons[OF B] by simp
  have at: "reader_at g2 ws (Suc (Suc p))" using g2(2) by (simp add: rd_def)
  have pos: "unat (gcov_position g2) = p + 2" using reader_fields(2)[OF at] by simp
  have len: "p + 2 + length (note_payload n) \<le> length ws" "length ws < 2 ^ 26"
    using ahead_take[of ws "Suc (Suc p)" "note_payload n"] C at by (simp_all add: ahead_append reader_at_def)
  then have u: "unat (of_nat (length (note_payload n)) :: u32) = length (note_payload n)" by (simp add: unat_of_nat)
  have "rd w (gcov_sync (gcov_position g2) (of_nat (length (note_payload n))) h) ws (p + length (note_words n)) \<and>
       gcov_is_error (gcov_sync (gcov_position g2) (of_nat (length (note_payload n))) h) = 0" if "rd w h ws q" for h q
    using rd_sync[OF that, of "gcov_position g2" "of_nat (length (note_payload n))"] len(1) pos u
    by (simp add: note_words_def add.assoc)
  with that g1(1) g2(1,2) C show ?thesis by (simp add: numeral_2_eq_2)
qed

lemma tags_loop_notes:
  assumes "rd w g ws p" and "ahead ws p (concat (map note_words ns))" and "p + length (concat (map note_words ns)) = length ws"
    and "\<forall>n \<in> set ns. note_ok n"
  shows "(\<exists>e. tags_loop prefix fn (tag_state fn) g st = Some (Inl e) \<and> stale e \<and> \<not> w) \<or>
    notes_result prefix (note_blocks fn ns) st (tags_loop prefix fn (tag_state fn) g st)"
  using assms
proof (induction ns arbitrary: fn g p st)
  case Nil
  then have "reader_at g ws (length ws)" by (simp add: rd_def)
  then obtain g' where "gcov_read_unsigned g = (0, g')" "gv_mode g' > 0" "gv_file g' \<noteq> None"
    by (rule gcov_read_unsigned_end)
  then have "tags_loop prefix fn (tag_state fn) g st = retR (g', st)" by (subst tags_loop.simps) simp
  then show ?case
    using with_functions_same[of st, symmetric] by (auto simp: notes_result_def)
next
  case (Cons n ns)
  let ?len = "of_nat (length (note_payload n)) :: u32"
  have a: "ahead ws p (note_words n @ concat (map note_words ns))" using Cons.prems(2) by simp
  obtain g1 g2 where hd: "gcov_read_unsigned g = (note_tag n, g1)" "gcov_read_unsigned g1 = (?len, g2)"
    "rd w g2 ws (p + 2)" "ahead ws (p + 2) (note_payload n @ concat (map note_words ns))"
    and sync: "\<And>h q. rd w h ws q \<Longrightarrow> rd w (gcov_sync (gcov_position g2) ?len h) ws (p + length (note_words n)) \<and>
       gcov_is_error (gcov_sync (gcov_position g2) ?len h) = 0"
    using note_read[OF Cons.prems(1) a] by metis
  have IH: "(\<exists>e. tags_loop prefix fn' (tag_state fn') h st' = Some (Inl e) \<and> stale e \<and> \<not> w) \<or>
      notes_result prefix (note_blocks fn' ns) st' (tags_loop prefix fn' (tag_state fn') h st')"
    if "rd w h ws (p + length (note_words n))" for fn' h st'
    using that Cons.prems a[unfolded ahead_append] by (intro Cons.IH) auto
  have ok: "note_ok n" and nz: "note_tag n \<noteq> 0"
    using Cons.prems(4) by (cases n; simp add: GCOV_TAG_FUNCTION_def GCOV_TAG_LINES_def)+
  show ?case
  proof (cases n)
    case (Function_note h1 name art source h2 zs)
    obtain a1 b1 c1 d1 e1 f1 where h: "h1 = (a1, b1, c1)" "h2 = (d1, e1, f1)" by (metis prod_cases3)
    have n: "n = Function_note (a1, b1, c1) name art source (d1, e1, f1) zs" using Function_note h by simp
    from read_function_note[OF hd(3,4) ok n, of prefix st] show ?thesis
    proof (elim disjE exE conjE)
      fix e assume "read_function prefix g2 st = Inl e" "stale e" "\<not> w"
      with hd nz Function_note show ?thesis by (subst tags_loop.simps) (simp add: GCOV_TAG_FUNCTION_def)
    next
      fix g3 fm q assume f: "read_function prefix g2 st = Inr (True, g3, with_functions fm st)" and q: "rd w g3 ws q"
      let ?g4 = "gcov_sync (gcov_position g2) ?len g3"
      have "tags_loop prefix fn (tag_state fn) g st = tags_loop prefix True (tag_state True) ?g4 (with_functions fm st)"
        using hd nz Function_note f sync[OF q]
        by (subst tags_loop.simps) (simp add: tag_state_def GCOV_TAG_FUNCTION_def)
      with IH[of ?g4 True "with_functions fm st"] sync[OF q] Function_note show ?thesis
        by (auto dest: notes_result_functions)
    qed
  next
    case (Lines_note b sls)
    show ?thesis
    proof (cases fn)
      case True
      obtain g3 where g3: "read_lines prefix g2 st =
          bindR (liftR (add_block prefix \<lparr>bb_blockno = b, bb_source_lines = sls, bb_is_valid = True\<rparr> st)) (\<lambda>st'. retR (g3, st'))"
        "\<exists>q. rd w g3 ws q"
        using read_lines_note[of w g2 ws "p + 2" b sls] hd(3,4) ok Lines_note by blast
      then obtain q where q: "rd w g3 ws q" by blast
      let ?g4 = "gcov_sync (gcov_position g2) ?len g3"
      have run: "tags_loop prefix fn (tag_state fn) g st =
          bindR (liftR (add_block prefix \<lparr>bb_blockno = b, bb_source_lines = sls, bb_is_valid = True\<rparr> st))
            (\<lambda>st'. tags_loop prefix fn (tag_state fn) ?g4 st')"
        using hd nz Lines_note True g3(1) sync[OF q]
        by (subst tags_loop.simps) (simp add: bindR_assoc GCOV_TAG_FUNCTION_def GCOV_TAG_LINES_def)
      show ?thesis
      proof (cases "add_block prefix \<lparr>bb_blockno = b, bb_source_lines = sls, bb_is_valid = True\<rparr> st")
        case (Inl e)
        with run Lines_note True show ?thesis by (simp add: notes_result_def)
      next
        case (Inr st')
        with run IH[of ?g4 fn st'] sync[OF q] Lines_note True show ?thesis by (simp add: notes_result_def)
      qed
    next
      case False
      let ?g4 = "gcov_sync (gcov_position g2) ?len g2"
      have "tags_loop prefix fn (tag_state fn) g st = tags_loop prefix False (tag_state False) ?g4 st"
        using hd nz Lines_note False sync[OF hd(3)]
        by (subst tags_loop.simps) (simp add: tag_state_def GCOV_TAG_FUNCTION_def GCOV_TAG_LINES_def)
      with IH[of ?g4 False st] sync[OF hd(3)] Lines_note False show ?thesis by simp
    qed
  next
    case (Other_note t zs)
    let ?g4 = "gcov_sync (gcov_position g2) ?len g2" and ?fn = "fn \<and> GCOV_TAG_IS_SUBTAG GCOV_TAG_FUNCTION t"
    have "tags_loop prefix fn (tag_state fn) g st = tags_loop prefix ?fn (tag_state ?fn) ?g4 st"
      using hd nz Other_note ok sync[OF hd(3)]
      by (subst tags_loop.simps) (auto simp: tag_state_def GCOV_TAG_FUNCTION_def)
    with IH[of ?g4 ?fn st] sync[OF hd(3)] Other_note show ?thesis by simp
  qed
qed

lemma first_window:
  assumes g: "gv_start g = 0" "gv_offset g = 0" "gv_length g = 0" "gv_alloc g = 0" "gv_buffer g = []"
    "gv_file g = Some (ws, 0)" and small: "length ws \<le> 2050"
  shows "gv_start (gcov_refill 1 g) = 0" and "unat (gv_length (gcov_refill 1 g)) = length ws"
proof -
  define h where "h = gcov_allocate 1 (g\<lparr>gv_start := 0, gv_buffer := memcpy_words 0 [] [], gv_offset := 0, gv_length := 0\<rparr>)"
  have h: "gv_alloc h = 2050" "gv_length h = 0" "gv_file h = Some (ws, 0)" "gv_start h = 0"
    using g by (simp_all add: h_def gcov_allocate_def GCOV_BLOCK_SIZE_def Let_def)
  have "fread_words (ucast (gv_alloc h - ucast (gv_length h))) h = (take 2050 ws, h\<lparr>gv_file := Some (ws, length (take 2050 ws))\<rparr>)"
    using shift2_words[of 2050] by (simp add: fread_words_def h Let_def)
  then have "gcov_refill 1 g = h\<lparr>gv_file := Some (ws, length (take 2050 ws)),
      gv_buffer := memcpy_words 0 (take 2050 ws) (gv_buffer h), gv_length := of_nat (length (take 2050 ws))\<rparr>"
    using g h by (simp add: gcov_refill_def Let_def h_def)
  then show "gv_start (gcov_refill 1 g) = 0" "unat (gv_length (gcov_refill 1 g)) = length ws"
    using h small by (simp_all add: unat_of_nat)
qed

lemma gcov_open_first:
  assumes f: "fopen name ''rb'' = Some (x # xs)" and len: "length (x # xs) < 2 ^ 26" and g: "gv_buffer g = []" "gv_alloc g = 0"
  obtains g1 g2 where "gcov_open fopen name 1 g = (1, g1)" and "gcov_read_unsigned g1 = (x, g2)"
    and "rd (length (x # xs) \<le> 2050) g2 (x # xs) 1"
proof -
  let ?ws = "x # xs"
  define g1 where "g1 = g\<lparr>gv_start := 0, gv_offset := 0, gv_length := 0, gv_overread := -1, gv_error := 0, gv_endian := False,
    gv_file := Some (?ws, 0), gv_mode := 1\<rparr>"
  have o: "gcov_open fopen name 1 g = (1, g1)" using f by (simp add: gcov_open_def Let_def g1_def)
  have r: "rd False g1 ?ws 0" using len g by (simp add: rd_def reader_at_def g1_def)
  have a: "ahead ?ws 0 ?ws" by (simp add: ahead_def)
  obtain g2 where g2: "gcov_read_unsigned g1 = (x, g2)" "rd False g2 ?ws (Suc 0)"
    "False \<longrightarrow> gv_buffer g2 = gv_buffer g1 \<and> gv_gen g2 = gv_gen g1"
    by (rule rd_unsigned[OF r a])
  have "gv_start g2 = 0 \<and> unat (gv_length g2) = length ?ws" if "length ?ws \<le> 2050"
  proof -
    have w: "gv_start (gcov_refill 1 g1) = 0" "unat (gv_length (gcov_refill 1 g1)) = length ?ws"
      using first_window[of g1 ?ws] g that by (simp_all add: g1_def)
    then have "\<not> gv_length (gcov_refill 1 g1) < 1" by (simp add: word_less_nat_alt)
    moreover have "gv_length g1 - gv_offset g1 < 1" "gv_mode g1 = 1" by (simp_all add: g1_def)
    ultimately have "g2 = (gcov_refill 1 g1)\<lparr>gv_offset := gv_offset (gcov_refill 1 g1) + 1\<rparr>"
      using g2(1) by (simp add: gcov_read_unsigned_def gcov_read_words_def Let_def)
    with w show ?thesis by simp
  qed
  then have "rd (length ?ws \<le> 2050) g2 ?ws 1" using g2(2) by (simp add: rd_def)
  with that o g2(1) show ?thesis by blast
qed

lemma note_magic_only: "byte_swap GCOV_NOTE_MAGIC \<noteq> GCOV_DATA_MAGIC" "GCOV_NOTE_MAGIC \<noteq> GCOV_DATA_MAGIC"
  by code_simp+

lemma read_graph_file_notes:
  assumes f: "fopen name ''rb'' = Some (gcno_words h ns)" and len: "length (gcno_words h ns) < 2 ^ 26"
    and g: "gv_buffer g = []" "gv_alloc g = 0" and ok: "\<forall>n \<in> set ns. note_ok n"
  shows "(\<exists>e. read_graph_file fopen prefix name g st = Some (Inl e) \<and> stale e \<and> 2050 < length (gcno_words h ns)) \<or>
    notes_result prefix (note_blocks False ns) st (read_graph_file fopen prefix name g st)"
proof -
  obtain v s u where h: "h = (v, s, u)" by (cases h)
  let ?ws = "gcno_words h ns"
  define xs where "xs = v # s # u # concat (map note_words ns)"
  have ws: "?ws = GCOV_NOTE_MAGIC # xs" by (simp add: gcno_words_def h xs_def)
  let ?w = "length (GCOV_NOTE_MAGIC # xs) \<le> 2050"
  obtain g1 g2 where o: "gcov_open fopen name 1 g = (1, g1)" "gcov_read_unsigned g1 = (GCOV_NOTE_MAGIC, g2)"
    "rd ?w g2 (GCOV_NOTE_MAGIC # xs) 1"
    by (rule gcov_open_first[of fopen name GCOV_NOTE_MAGIC xs g, OF f[unfolded ws] len[unfolded ws] g])
  have r: "rd ?w g2 ?ws 1" using o(3) by (simp add: ws)
  have a: "ahead ?ws 1 (v # s # u # concat (map note_words ns))" by (simp add: ws xs_def ahead_def)
  define g5 where "g5 = skip_unsigned (skip_unsigned (skip_unsigned g2))"
  have r5: "rd ?w g5 ?ws 4" using rd_skip3(1)[OF r a] by (simp add: g5_def)
  have a5: "ahead ?ws 4 (concat (map note_words ns))" using ahead_Cons3[OF a] by simp
  have run: "read_graph_file fopen prefix name g st =
      bindR (tags_loop prefix False (tag_state False) g5 st) (\<lambda>(g6, st'). retR (snd (gcov_close g6), st'))"
    using o(1,2) note_magic_only by (simp add: read_graph_file_def gcov_magic_def g5_def tag_state_def Let_def)
  have "4 + length (concat (map note_words ns)) = length ?ws" by (simp add: ws xs_def)
  from tags_loop_notes[OF r5 a5 this ok, of prefix False st] show ?thesis
  proof
    assume "\<exists>e. tags_loop prefix False (tag_state False) g5 st = Some (Inl e) \<and> stale e \<and> \<not> ?w"
    with run show ?thesis by (auto simp: ws)
  next
    assume n: "notes_result prefix (note_blocks False ns) st (tags_loop prefix False (tag_state False) g5 st)"
    show ?thesis
    proof (cases "add_blocks prefix (note_blocks False ns) st")
      case (Inl e)
      with n run show ?thesis by (simp add: notes_result_def)
    next
      case (Inr st')
      with n obtain g' fm where "tags_loop prefix False (tag_state False) g5 st = retR (g', with_functions fm st')"
        by (auto simp: notes_result_def)
      with run have "read_graph_file fopen prefix name g st = retR (snd (gcov_close g'), with_functions fm st')" by simp
      with Inr show ?thesis unfolding notes_result_def by auto
    qed
  qed
qed

section \<open>The lines that are read\<close>

lemma add_blocks_defined:
  "blocks_start st \<Longrightarrow> \<forall>bb \<in> set bbs. has_start_line bb \<Longrightarrow> \<exists>st'. add_blocks p bbs st = Inr st' \<and> blocks_start st'"
proof (induction bbs arbitrary: st)
  case (Cons bb bbs)
  obtain st1 where "add_block p bb st = Inr st1" "blocks_start st1" using add_block_defined Cons.prems by fastforce
  then show ?case using Cons.IH[of st1] Cons.prems by simp
qed simp

lemma add_blocks_lines:
  "add_blocks p bbs st = Inr st' \<Longrightarrow>
     lines_of (coverable_lines st') f = lines_of (coverable_lines st) f \<union> (\<Union>bb \<in> set bbs. block_lines bb f)"
  by (induction bbs arbitrary: st) (auto simp: res_simps add_block_lines)

end
