(* ===== verification/Bb2lines_Cover.thy ===== *)
theory Bb2lines_Cover
  imports Gcno_Format
begin

text \<open>
  What \<^verbatim>\<open>bb2lines\<close> computes: the lookup of an address, which remembers its answers, agrees with a
  lookup that does not, and the covered lines are exactly the lines of the basic blocks of the
  addresses in the input. Together with the format of the notes files this describes a whole run.
\<close>

section \<open>The lookup without memory\<close>

definition block_of :: "bb_env \<Rightarrow> (string, bb_set) umap \<Rightarrow> u64 \<Rightarrow> basic_block option" where
  "block_of env m a = (case be_addr_to_line env a of
       (None, _) \<Rightarrow> None
     | (Some fname, l) \<Rightarrow>
         (let somewhere = find (is_line_and_file_in_bb (be_prefix env) l fname) (concat (map snd (be_iter env m)));
              bbs = um_get [] m fname
          in if bbs = [] then (if be_regex env fname then somewhere else None)
             else (case bb_before l bbs of Some bb \<Rightarrow> Some bb | None \<Rightarrow> somewhere)))"

definition blocks_valid :: "(string, bb_set) umap \<Rightarrow> bool" where
  "blocks_valid m \<longleftrightarrow> (\<forall>e \<in> set m. \<forall>bb \<in> set (snd e). bb_is_valid bb)"

definition memo_ok :: "bb_env \<Rightarrow> bb2lines \<Rightarrow> bool" where
  "memo_ok env st \<longleftrightarrow> (\<forall>a bb. map_of (basic_blocks_addr_map st) a = Some bb \<longrightarrow>
     block_of env (basic_blocks_map st) a = (if bb_is_valid bb then Some bb else None))"

text \<open>What a lookup leaves as it is.\<close>

definition same_lines :: "bb2lines \<Rightarrow> bb2lines \<Rightarrow> bool" where
  "same_lines st st' \<longleftrightarrow> basic_blocks_map st' = basic_blocks_map st \<and> covered_lines st' = covered_lines st \<and>
     coverable_lines st' = coverable_lines st"

definition answers :: "bb_env \<Rightarrow> u64 \<Rightarrow> bb2lines \<Rightarrow> basic_block option \<times> bb2lines \<Rightarrow> bool" where
  "answers env a st p \<longleftrightarrow> fst p = block_of env (basic_blocks_map st) a \<and> memo_ok env (snd p) \<and> same_lines st (snd p)"

lemma find_valid:
  assumes "blocks_valid (basic_blocks_map st)" "iter_ok (be_iter env)"
  shows "find (is_line_and_file_in_bb (be_prefix env) l f) (concat (map snd (be_iter env (basic_blocks_map st)))) =
    (if bb_is_valid (find_line_and_file_in_bb_map env l f st) then Some (find_line_and_file_in_bb_map env l f st) else None)"
proof (cases "find (is_line_and_file_in_bb (be_prefix env) l f) (concat (map snd (be_iter env (basic_blocks_map st))))")
  case None
  then show ?thesis by (simp add: find_line_and_file_in_bb_map_def invalid_bb_def)
next
  case (Some bb)
  then have "\<exists>e \<in> set (basic_blocks_map st). bb \<in> set (snd e)"
    using find_Some_in[OF Some] iter_ok_set[OF assms(2), of "basic_blocks_map st"] by auto
  with assms(1) Some show ?thesis by (auto simp: find_line_and_file_in_bb_map_def blocks_valid_def)
qed

lemma remember_answers:
  assumes "memo_ok env st" "block_of env (basic_blocks_map st) a = Some bb" "bb_is_valid bb"
  shows "answers env a st (remember a bb st)"
  using assms by (simp add: answers_def remember_def memo_ok_def same_lines_def)

lemma not_found_answers:
  assumes "memo_ok env st" "block_of env (basic_blocks_map st) a = None"
  shows "answers env a st (not_found a st)"
  using assms by (simp add: answers_def not_found_def memo_ok_def same_lines_def invalid_bb_def)

lemma answers_counters:
  "answers env a (st\<lparr>unique_input_addr_count := c\<rparr>) p = answers env a st p"
  "answers env a (count_not_start st) p = answers env a st p"
  "answers env a (st\<lparr>fs_not_in_bb_map_count := c\<rparr>) p = answers env a st p"
  "answers env a (st\<lparr>file_found_line_not_found_count := c\<rparr>) p = answers env a st p"
  "memo_ok env (st\<lparr>unique_input_addr_count := c\<rparr>) = memo_ok env st"
  "memo_ok env (st\<lparr>input_addr_count := c\<rparr>) = memo_ok env st"
  "memo_ok env (count_not_start st) = memo_ok env st"
  "memo_ok env (st\<lparr>fs_not_in_bb_map_count := c\<rparr>) = memo_ok env st"
  "memo_ok env (st\<lparr>file_found_line_not_found_count := c\<rparr>) = memo_ok env st"
  by (simp_all add: answers_def memo_ok_def same_lines_def count_not_start_def)

lemma find_map_counters [simp]:
  "find_line_and_file_in_bb_map env l f (st\<lparr>file_found_line_not_found_count := c\<rparr>) = find_line_and_file_in_bb_map env l f st"
  by (simp add: find_line_and_file_in_bb_map_def)

lemma search_harder_answers:
  assumes "memo_ok env st" and bb: "bb = find_line_and_file_in_bb_map env l f st"
    and "block_of env (basic_blocks_map st) a = (if be_regex env f \<and> bb_is_valid bb then Some bb else None)"
  shows "answers env a st (search_harder env a f l st)"
  using assms remember_answers[of env "count_not_start st" a bb]
    not_found_answers[of env "st\<lparr>fs_not_in_bb_map_count := fs_not_in_bb_map_count st + 1\<rparr>" a] not_found_answers[of env st a]
  by (simp add: search_harder_def answers_counters Let_def)

lemma get_basic_block_answers:
  assumes memo: "memo_ok env st" and valid: "blocks_valid (basic_blocks_map st)" and it: "iter_ok (be_iter env)"
    and start: "blocks_start st"
  shows "\<exists>p. get_basic_block env a st = Inr p \<and> answers env a st p"
proof (cases "map_of (basic_blocks_addr_map st) a")
  case (Some bb)
  with memo show ?thesis by (simp add: get_basic_block_def answers_def memo_ok_def same_lines_def)
next
  case None
  define st1 where "st1 = st\<lparr>unique_input_addr_count := unique_input_addr_count st + 1\<rparr>"
  have st1: "memo_ok env st1" "basic_blocks_map st1 = basic_blocks_map st" "answers env a st = answers env a st1"
    using memo by (simp_all add: st1_def answers_counters fun_eq_iff)
  obtain fo l where fl: "be_addr_to_line env a = (fo, l)" by fastforce
  show ?thesis
  proof (cases fo)
    case None': None
    have "block_of env (basic_blocks_map st) a = None" using fl None' by (simp add: block_of_def)
    with None fl None' memo show ?thesis
      by (simp add: get_basic_block_def answers_def memo_ok_def same_lines_def)
  next
    case (Some f)
    let ?bbs = "um_get [] (basic_blocks_map st) f" and ?bb = "find_line_and_file_in_bb_map env l f st1"
    have all: "\<forall>b \<in> set ?bbs. has_start_line b \<and> bb_is_valid b"
      using start valid by (auto simp: blocks_start_def blocks_valid_def dest!: in_um_get)
    note find = find_valid[of st1 env l f, unfolded st1(2), OF valid it]
    have spec: "block_of env (basic_blocks_map st1) a = (if ?bbs = [] then (if be_regex env f \<and> bb_is_valid ?bb then Some ?bb else None)
        else (case bb_before l ?bbs of Some bb \<Rightarrow> Some bb | None \<Rightarrow> if bb_is_valid ?bb then Some ?bb else None))"
      using fl Some find by (simp add: block_of_def st1(2) Let_def split: option.split)
    have run: "get_basic_block env a st = (if ?bbs = [] then Inr (search_harder env a f l st1)
        else (case bb_before l ?bbs of Some bb \<Rightarrow> Inr (remember a bb (if start_line bb \<noteq> l then count_not_start st1 else st1))
          | None \<Rightarrow> if bb_is_valid ?bb then Inr (remember a ?bb (count_not_start st1))
              else Inr (search_harder env a f l (st1\<lparr>file_found_line_not_found_count := file_found_line_not_found_count st1 + 1\<rparr>))))"
      using None fl Some all
      by (cases "map_of (basic_blocks_map st) f")
        (simp_all add: get_basic_block_def um_get_def Let_def st1_def[symmetric] st1(2) split: option.split)
    show ?thesis
    proof (cases "?bbs = []")
      case True
      then show ?thesis using run spec st1 search_harder_answers[of env st1 ?bb l f a] by simp
    next
      case False
      show ?thesis
      proof (cases "bb_before l ?bbs")
        case (Some bb)
        then have "bb_is_valid bb" using bb_before_in[OF Some] all by simp
        then show ?thesis
          using Some False run spec st1 remember_answers[of env st1 a bb] remember_answers[of env "count_not_start st1" a bb]
          by (auto simp: answers_counters)
      next
        case none: None
        show ?thesis
          using none False run spec st1 remember_answers[of env "count_not_start st1" a ?bb]
            search_harder_answers[of env "st1\<lparr>file_found_line_not_found_count := file_found_line_not_found_count st1 + 1\<rparr>" ?bb l f a]
          by (cases "bb_is_valid ?bb") (simp_all add: answers_counters del: split_paired_Ex)
      qed
    qed
  qed
qed

section \<open>The covered lines\<close>

definition lines_at :: "bb_env \<Rightarrow> (string, bb_set) umap \<Rightarrow> u64 \<Rightarrow> string \<Rightarrow> u32 set" where
  "lines_at env m a f = (case block_of env m a of Some bb \<Rightarrow> block_lines bb f | None \<Rightarrow> {})"

lemma cover_source_lines:
  "lines_of (covered_lines (fold cover_source_line sls st)) f =
     lines_of (covered_lines st) f \<union> (\<Union>sl \<in> {sl \<in> set sls. sl_filename sl = f}. set (sl_lines sl))"
  by (induction sls arbitrary: st) (auto simp: cover_source_line_def lines_of_add_lines)

lemma cover_source_lines_fields:
  "basic_blocks_map (fold cover_source_line sls st) = basic_blocks_map st \<and>
   coverable_lines (fold cover_source_line sls st) = coverable_lines st \<and>
   basic_blocks_addr_map (fold cover_source_line sls st) = basic_blocks_addr_map st"
  by (induction sls arbitrary: st) (simp_all add: cover_source_line_def)

lemma cover_address_exact:
  assumes "memo_ok env st" "blocks_valid (basic_blocks_map st)" "iter_ok (be_iter env)" "blocks_start st"
    and a: "stoull 16 line = Inr a"
  shows "\<exists>st'. cover_address env line st = Inr st' \<and> memo_ok env st' \<and> basic_blocks_map st' = basic_blocks_map st \<and>
    coverable_lines st' = coverable_lines st \<and>
    (\<forall>f. lines_of (covered_lines st') f = lines_of (covered_lines st) f \<union> lines_at env (basic_blocks_map st) a f)"
proof -
  let ?st = "st\<lparr>input_addr_count := input_addr_count st + 1\<rparr>"
  obtain r st1 where g: "get_basic_block env a ?st = Inr (r, st1)" "answers env a ?st (r, st1)"
    using get_basic_block_answers[of env ?st a] assms(1-4) by (force simp: answers_counters blocks_start_def)
  then have r: "r = block_of env (basic_blocks_map st) a" and same: "memo_ok env st1" "basic_blocks_map st1 = basic_blocks_map st"
    "covered_lines st1 = covered_lines st" "coverable_lines st1 = coverable_lines st"
    by (simp_all add: answers_def same_lines_def)
  show ?thesis
  proof (cases r)
    case None
    with g(1) a r same show ?thesis by (simp add: cover_address_def lines_at_def)
  next
    case (Some bb)
    let ?st' = "fold cover_source_line (bb_source_lines bb) st1"
    have "lines_at env (basic_blocks_map st) a f = block_lines bb f" for f by (simp add: lines_at_def r[symmetric] Some)
    then have "lines_of (covered_lines ?st') f = lines_of (covered_lines st) f \<union> lines_at env (basic_blocks_map st) a f" for f
      by (simp add: cover_source_lines same(3) block_lines_def)
    moreover
    have "cover_address env line st = Inr ?st'" using g(1) a Some by (simp add: cover_address_def)
    moreover have "memo_ok env ?st'" using same(1) cover_source_lines_fields[of "bb_source_lines bb" st1] by (simp add: memo_ok_def)
    ultimately show ?thesis
      using same cover_source_lines_fields[of "bb_source_lines bb" st1] by (intro exI[of _ ?st']) simp
  qed
qed

lemma cover_addresses_exact:
  assumes "memo_ok env st" "blocks_valid (basic_blocks_map st)" "iter_ok (be_iter env)" "blocks_start st"
    and "map (stoull 16) input = map Inr as"
  shows "\<exists>st'. cover_addresses env input st = Inr st' \<and> memo_ok env st' \<and> basic_blocks_map st' = basic_blocks_map st \<and>
    coverable_lines st' = coverable_lines st \<and>
    (\<forall>f. lines_of (covered_lines st') f = lines_of (covered_lines st) f \<union> (\<Union>a \<in> set as. lines_at env (basic_blocks_map st) a f))"
  using assms
proof (induction input arbitrary: st as)
  case (Cons line input)
  then obtain a as' where as: "as = a # as'" "stoull 16 line = Inr a" "map (stoull 16) input = map Inr as'"
    by (cases as) auto
  obtain st1 where st1: "cover_address env line st = Inr st1" "memo_ok env st1" "basic_blocks_map st1 = basic_blocks_map st"
    "coverable_lines st1 = coverable_lines st"
    "\<forall>f. lines_of (covered_lines st1) f = lines_of (covered_lines st) f \<union> lines_at env (basic_blocks_map st) a f"
    using cover_address_exact[OF Cons.prems(1-4) as(2)] by blast
  have "blocks_start st1" using Cons.prems(4) st1(3) by (simp add: blocks_start_def)
  with Cons.IH[of st1 as'] st1 Cons.prems(2,3) as obtain st' where
    "cover_addresses env input st1 = Inr st'" "memo_ok env st'" "basic_blocks_map st' = basic_blocks_map st" "coverable_lines st' = coverable_lines st"
    "\<forall>f. lines_of (covered_lines st') f = lines_of (covered_lines st1) f \<union> (\<Union>a \<in> set as'. lines_at env (basic_blocks_map st) a f)"
    by auto
  then show ?case using st1 as(1) by (auto simp: Un_assoc)
qed simp

section \<open>A whole run\<close>

lemma read_graph_file_closed:
  assumes "read_graph_file fopen p f g st = retR (g', st')" and "gv_buffer g = []" "gv_alloc g = 0"
  shows "gv_buffer g' = [] \<and> gv_alloc g' = 0"
proof -
  have c: "gv_buffer (snd (gcov_close h)) = [] \<and> gv_alloc (snd (gcov_close h)) = 0" for h
    by (simp add: gcov_close_def Let_def)
  have o: "gv_buffer (snd (gcov_open fopen f 1 g)) = [] \<and> gv_alloc (snd (gcov_open fopen f 1 g)) = 0"
    using assms(2,3) by (simp add: gcov_open_def Let_def)
  show ?thesis
    using assms(1) c o by (auto simp: read_graph_file_def Let_def res_simps split_beta split: if_splits)
qed

text \<open>A directory of notes files: name, header and records of each.\<close>

type_synonym notes_dir = "(string \<times> (u32 \<times> u32 \<times> u32) \<times> gnote list) list"

definition dir_blocks :: "notes_dir \<Rightarrow> basic_block list" where
  "dir_blocks fs = concat (map (\<lambda>(_, _, ns). note_blocks False ns) fs)"

definition dir_ok :: "(string \<Rightarrow> string \<Rightarrow> u32 list option) \<Rightarrow> notes_dir \<Rightarrow> bool" where
  "dir_ok fopen fs \<longleftrightarrow> (\<forall>(name, h, ns) \<in> set fs. is_gcno name \<and> fopen name ''rb'' = Some (gcno_words h ns) \<and>
     length (gcno_words h ns) < 2 ^ 26 \<and> (\<forall>n \<in> set ns. note_ok n)) \<and> (\<forall>bb \<in> set (dir_blocks fs). has_start_line bb)"

definition dir_small :: "notes_dir \<Rightarrow> bool" where
  "dir_small fs \<longleftrightarrow> (\<forall>(name, h, ns) \<in> set fs. length (gcno_words h ns) \<le> 2050)"

lemma blocks_start_functions: "blocks_start (with_functions fm st) = blocks_start st"
  by (simp add: blocks_start_def with_functions_def)

lemma coverable_functions: "coverable_lines (with_functions fm st) = coverable_lines st"
  by (simp add: with_functions_def)

lemma read_graph_files_dir:
  assumes "dir_ok fopen fs" "blocks_start st" "gv_buffer g = []" "gv_alloc g = 0"
  shows "(\<exists>e. read_graph_files fopen p (map fst fs) g st = Some (Inl e) \<and> stale e \<and> \<not> dir_small fs) \<or>
    (\<exists>g' st'. read_graph_files fopen p (map fst fs) g st = retR (g', st') \<and> blocks_start st' \<and>
      (\<forall>f. lines_of (coverable_lines st') f = lines_of (coverable_lines st) f \<union> (\<Union>bb \<in> set (dir_blocks fs). block_lines bb f)))"
  using assms
proof (induction fs arbitrary: g st)
  case (Cons e fs)
  obtain name h ns where e: "e = (name, h, ns)" by (cases e)
  have ok: "is_gcno name" "fopen name ''rb'' = Some (gcno_words h ns)" "length (gcno_words h ns) < 2 ^ 26" "\<forall>n \<in> set ns. note_ok n"
    and start: "\<forall>bb \<in> set (note_blocks False ns). has_start_line bb" and rest: "dir_ok fopen fs"
    using Cons.prems(1) by (auto simp: dir_ok_def dir_blocks_def e)
  obtain st1 where st1: "add_blocks p (note_blocks False ns) st = Inr st1" "blocks_start st1"
    using add_blocks_defined[OF Cons.prems(2) start] by blast
  from read_graph_file_notes[of fopen name h ns g p st, OF ok(2,3) Cons.prems(3,4) ok(4)] show ?case
  proof (elim disjE exE conjE)
    fix x assume "read_graph_file fopen p name g st = Some (Inl x)" "stale x" "2050 < length (gcno_words h ns)"
    then show ?thesis using ok(1) by (auto simp: e dir_small_def)
  next
    assume "notes_result p (note_blocks False ns) st (read_graph_file fopen p name g st)"
    then obtain g1 fm where r: "read_graph_file fopen p name g st = retR (g1, with_functions fm st1)"
      using st1(1) by (auto simp: notes_result_def)
    have closed: "gv_buffer g1 = []" "gv_alloc g1 = 0" using read_graph_file_closed[OF r] Cons.prems(3,4) by simp_all
    have lines: "lines_of (coverable_lines (with_functions fm st1)) f =
        lines_of (coverable_lines st) f \<union> (\<Union>bb \<in> set (note_blocks False ns). block_lines bb f)" for f
      using add_blocks_lines[OF st1(1), of f] by (simp add: coverable_functions)
    have step: "read_graph_files fopen p (map fst (e # fs)) g st = read_graph_files fopen p (map fst fs) g1 (with_functions fm st1)"
      using r ok(1) by (simp add: e)
    have small: "dir_small (e # fs) \<Longrightarrow> dir_small fs" by (simp add: dir_small_def)
    have split: "set (dir_blocks (e # fs)) = set (note_blocks False ns) \<union> set (dir_blocks fs)"
      by (simp add: dir_blocks_def e)
    from Cons.IH[OF rest _ closed, of "with_functions fm st1"] st1(2) show ?thesis
      unfolding step blocks_start_functions split using small lines by (auto simp: Un_assoc)
  qed
qed (simp add: dir_blocks_def)

section \<open>The report\<close>

definition coverage_of :: "((string, u32 list) umap \<Rightarrow> (string, u32 list) umap) \<Rightarrow> bool \<Rightarrow> bb2lines \<Rightarrow> coverage_report" where
  \<comment> \<open>what \<open>determine_coverage\<close> prints when all addresses are processed\<close>
  "coverage_of iter b st = \<lparr>rp_files = length (filter (\<lambda>e. snd e \<noteq> []) (covered_lines st)), rp_all_files = length (coverable_lines st),
     rp_lines = sum_list (map (\<lambda>e. length (snd e)) (covered_lines st)),
     rp_all_lines = sum_list (map (\<lambda>e. length (snd e)) (coverable_lines st)),
     rp_rows = map (\<lambda>(f, ls). \<lparr>cr_file = f, cr_lines_covered = length ls, cr_lines_total = count_all_lines_in_file f st,
       cr_lines = (if b then ls else [])\<rparr>) (iter (covered_lines st))\<rparr>"

lemma determine_coverage_eq:
  "cover_addresses env input st0 = Inr st \<Longrightarrow> determine_coverage iter b env input st0 = Inr (coverage_of iter b st, st)"
  by (simp add: determine_coverage_def coverage_of_def count_all_files_and_lines_def)

lemma determine_coverage_run:
  "determine_coverage iter b env input st0 = Inr (rep, st) \<Longrightarrow>
     cover_addresses env input st0 = Inr st \<and> rep = coverage_of iter b st"
  by (auto simp: determine_coverage_def coverage_of_def count_all_files_and_lines_def res_simps Let_def)

lemma report_rows:
  assumes I: "coverage_inv st" and "iter_ok iter"
  shows "\<forall>f. lines_of (covered_lines st) f \<noteq> {} \<longrightarrow> (\<exists>r \<in> set (rp_rows (coverage_of iter b st)). cr_file r = f)"
    and "\<forall>r \<in> set (rp_rows (coverage_of iter b st)). cr_lines_covered r = card (lines_of (covered_lines st) (cr_file r)) \<and>
      cr_lines_total r = card (lines_of (coverable_lines st) (cr_file r))"
proof -
  have set: "set (iter (covered_lines st)) = set (covered_lines st)" using iter_ok_set[OF assms(2)] .
  have ok: "line_map_ok (covered_lines st)" using I by (simp add: coverage_inv_def)
  show "\<forall>f. lines_of (covered_lines st) f \<noteq> {} \<longrightarrow> (\<exists>r \<in> set (rp_rows (coverage_of iter b st)). cr_file r = f)"
  proof (intro allI impI)
    fix f assume "lines_of (covered_lines st) f \<noteq> {}"
    then obtain ls where "(f, ls) \<in> set (covered_lines st)" using lines_of_unknown[of f "covered_lines st"] by force
    then show "\<exists>r \<in> set (rp_rows (coverage_of iter b st)). cr_file r = f"
      by (auto simp: coverage_of_def set intro!: bexI[of _ "(f, ls)"])
  qed
  show "\<forall>r \<in> set (rp_rows (coverage_of iter b st)). cr_lines_covered r = card (lines_of (covered_lines st) (cr_file r)) \<and>
      cr_lines_total r = card (lines_of (coverable_lines st) (cr_file r))"
    using entry_lines(2)[OF ok] by (auto simp: coverage_of_def set count_all_lines_card[OF I])
qed

text \<open>Reading covers nothing.\<close>

definition nothing_covered :: "bb2lines \<Rightarrow> bool" where
  "nothing_covered st \<longleftrightarrow> (\<forall>f. lines_of (covered_lines st) f = {})"

lemma nothing_covered_initial: "nothing_covered bb2lines_initial"
  by (simp add: nothing_covered_def bb2lines_initial_def lines_of_def um_get_def)

lemma add_block_covers_nothing:
  assumes "add_block p bb st = Inr st'"
  shows "lines_of (covered_lines st') f = lines_of (covered_lines st) f"
proof -
  let ?st2 = "fold note_coverable (bb_source_lines bb) (st\<lparr>bb_read_count := bb_read_count st + 1\<rparr>)"
  have merge: "covered_lines s' = covered_lines s" if "merge_existing f bb s = Inr (bb', s')" for f bb s bb' s'
    using that by (auto simp: merge_existing_def res_simps split: option.splits if_splits)
  have "lines_of (covered_lines (fold note_coverable sls s)) f = lines_of (covered_lines s) f" for sls s
    by (induction sls arbitrary: s) (simp_all add: note_coverable_covered)
  moreover have "covered_lines st' = covered_lines ?st2"
    using assms by (auto simp: add_block_def Let_def res_simps dest!: merge)
  ultimately show ?thesis by simp
qed

interpretation uncovered: block_invariant nothing_covered
  by unfold_locales (simp_all add: nothing_covered_def add_block_covers_nothing)

end
