(* ===== verification/Coverage_Properties.thy ===== *)
theory Coverage_Properties
  imports Sfc_Tool Kcov Bb2lines_Cover
begin

text \<open>
  The properties of the coverage tools: the curves and the image of \<^verbatim>\<open>sfctool\<close>, what the preload
  library \<^verbatim>\<open>kcov-lib\<close> writes and how it hands its descriptors on, and the report of \<^verbatim>\<open>bb2lines\<close>.
\<close>

section \<open>Space-filling curves\<close>

text \<open>
  C26: The iterator \<^verbatim>\<open>SFC_Hilbert\<close>, whose loop uses the dimension of the list without rounding it up
  to a power of two, visits the cells of the Hilbert curve of the least level that fits: every cell
  of the square of that level once, from each cell to a neighbour.
\<close>

theorem hilbert_curve:
  assumes "0 < d" and "unat d \<le> 2 ^ 16"
  defines "k \<equiv> level (unat d)"
  shows "unat d \<le> 2 ^ k \<and> (\<forall>j. unat d \<le> 2 ^ j \<longrightarrow> k \<le> j) \<and>
    (\<forall>i < 4 ^ k. \<exists>x y. sfc_get_coords ((sfc_next ^^ i) (new_SFC_Hilbert d)) = Some (Inr (x, y)) \<and> hil k i = (unat x, unat y)) \<and>
    bij_betw (hil k) {..<4 ^ k} ({..<2 ^ k} \<times> {..<2 ^ k}) \<and>
    (\<forall>i. Suc i < 4 ^ k \<longrightarrow> neighbours (hil k i) (hil k (Suc i)))"
proof (intro conjI allI impI)
  have cell: "hilbert_cell d = hil k" "hilbert_width d = 2 ^ k"
    by (simp_all add: hilbert_cell_def hilbert_width_def k_def fun_eq_iff)
  show "unat d \<le> 2 ^ k" by (simp add: k_def level_fits)
  show "k \<le> j" if "unat d \<le> 2 ^ j" for j using level_bound[OF that] by (simp add: k_def)
  show "\<exists>x y. sfc_get_coords ((sfc_next ^^ i) (new_SFC_Hilbert d)) = Some (Inr (x, y)) \<and> hil k i = (unat x, unat y)"
    if "i < 4 ^ k" for i
    using hilbert.coords_words[OF assms(1,2), of i] that hilbert_square[of d] by (metis cell(1) k_def)
  show "bij_betw (hil k) {..<4 ^ k} ({..<2 ^ k} \<times> {..<2 ^ k})"
    using hilbert.cell_bij[OF assms(1,2)] hilbert_square[of d] by (simp add: cell k_def)
  show "neighbours (hil k i) (hil k (Suc i))" if "Suc i < 4 ^ k" for i
    using that by (intro hil_neighbours) simp
qed

theorem hilbert_curve_witness:
  "level 3 = 2 \<and> bij_betw (hil 2) {..<4 ^ 2} ({..<2 ^ 2} \<times> {..<2 ^ 2}) \<and> neighbours (hil 2 6) (hil 2 (Suc 6))"
proof -
  have l: "level (unat (3 :: u32)) = 2" by code_simp
  have pre: "0 < (3 :: u32)" "unat (3 :: u32) \<le> 2 ^ 16" by simp_all
  have i: "Suc 6 < 4 ^ 2" by (simp add: power2_eq_square)
  note h = hilbert_curve[OF pre, unfolded l]
  have "bij_betw (hil 2) {..<4 ^ 2} ({..<2 ^ 2} \<times> {..<2 ^ 2})" using h by (elim conjE)
  moreover have "\<forall>i. Suc i < 4 ^ 2 \<longrightarrow> neighbours (hil 2 i) (hil 2 (Suc i))" using h by (elim conjE)
  then have "neighbours (hil 2 6) (hil 2 (Suc 6))" using i by (elim allE impE)
  moreover have "level 3 = 2" using l by simp
  ultimately show ?thesis by (intro conjI)
qed

text \<open>
  C27: The iterator \<^verbatim>\<open>SFC_Spiral\<close> starts in the middle of the square and visits every cell of it once,
  from each cell to a neighbour, also for even dimensions, where the last ring is not complete.
\<close>

theorem spiral_curve:
  assumes "0 < d" and "unat d \<le> 2 ^ 16"
  shows "\<exists>cell. cell 0 = (unat d div 2, unat d div 2) \<and>
    (\<forall>i < unat d * unat d. \<exists>x y. sfc_get_coords ((sfc_next ^^ i) (new_SFC_Spiral d)) = Some (Inr (x, y)) \<and> cell i = (unat x, unat y)) \<and>
    bij_betw cell {..<unat d * unat d} ({..<unat d} \<times> {..<unat d}) \<and>
    (\<forall>i. Suc i < unat d * unat d \<longrightarrow> neighbours (cell i) (cell (Suc i)))"
proof (intro exI[of _ "spiral_cell d"] conjI allI impI)
  show "spiral_cell d 0 = (unat d div 2, unat d div 2)"
    by (simp add: spiral_cell_def arms_def arm_cell_def)
  show "\<exists>x y. sfc_get_coords ((sfc_next ^^ i) (new_SFC_Spiral d)) = Some (Inr (x, y)) \<and> spiral_cell d i = (unat x, unat y)"
    if "i < unat d * unat d" for i
    using spiral.coords_words[OF assms that] by metis
qed (use spiral.cell_bij[OF assms] spiral_neighbours[OF assms] in simp_all)

theorem spiral_curve_witness:
  "\<exists>cell. cell 0 = (unat (4 :: u32) div 2, unat (4 :: u32) div 2) \<and>
     bij_betw cell {..<unat (4 :: u32) * unat (4 :: u32)} ({..<unat (4 :: u32)} \<times> {..<unat (4 :: u32)}) \<and>
     neighbours (cell 14) (cell (Suc 14))"
proof -
  have pre: "0 < (4 :: u32)" "unat (4 :: u32) \<le> 2 ^ 16" "Suc 14 < unat (4 :: u32) * unat (4 :: u32)" by simp_all
  from spiral_curve[OF pre(1,2)] pre(3) show ?thesis by blast
qed

section \<open>The image\<close>

text \<open>
  C14: Given readable files, a known curve and a colour for every map, \<^verbatim>\<open>sfctool\<close> finishes with a
  square image of the least dimension that has a pixel for every string (for the Hilbert curve: the
  least power of two). The cells of the curve are all pixels of the image, the string number \<open>i\<close>
  gets the colour the maps prescribe for it at cell \<open>i\<close>, and every other pixel has the default
  colour, with its components green and blue exchanged.
\<close>

theorem sfctool_paints:
  assumes files: "files (op_domain opts) = Some domain" "files (op_input opts) = Some input"
    and n: "0 < length domain" "length domain < 2 ^ 32" and ts: "curve_known (op_curve_type opts)"
    and dc: "(case op_default_color opts of [] \<Rightarrow> Inr initial_default_color | s # _ \<Rightarrow> set_color s) = Inr dflt"
    and maps: "loadmaps files (op_off_map opts) (op_color opts) Map.empty = Inr (cs, off)"
      "loadmaps files (op_on_map opts) cs Map.empty = Inr ([], on)"
  defines "w \<equiv> of_nat (least_dim (length domain))"
  shows "\<exists>v img. sfctool opts files = retR (v, img) \<and> unat v = curve_width (op_curve_type opts) w \<and>
    length domain \<le> unat v * unat v \<and>
    bij_betw (curve_cell (op_curve_type opts) w) {..<unat v * unat v} ({..<unat v} \<times> {..<unat v}) \<and>
    (\<forall>i < unat v * unat v. pixel_at img (curve_cell (op_curve_type opts) w i) =
       Some (if i < length domain
             then (case line_color input off on (domain ! i) of Some c \<Rightarrow> pixel_of c | None \<Rightarrow> default_pixel dflt)
             else default_pixel dflt))"
proof -
  obtain x where x: "image_dim_of (length domain) = Inr x" "0 < x" "unat x = least_dim (length domain)"
    "unat x \<le> 2 ^ 16" "length domain \<le> unat x * unat x"
    by (rule curve_dimension[OF n])
  have w: "w = x" using x(3) by (simp add: w_def flip: x(3))
  obtain sfc v where c: "choose_curve (op_curve_type opts) x = retR (sfc, v)"
    using choose_curve_width[OF ts x(4)] by blast
  have run: "sfctool opts files = retR (v, img)"
    if "paint_loop domain input off on 0 sfc (fill_image v (default_pixel dflt) 0) = retR img" for img
    using files dc maps x(1) c that by (simp add: sfctool_def Let_def)
  from curve_painted[OF ts x(2,4,5) n(2) c, of input off on "default_pixel dflt"] show ?thesis
    unfolding w by (elim exE conjE, intro exI conjI) (rule run, assumption+)
qed

lemmas number_evals = stoull_def scan_number_def digit_in_def is_space_def skip_prefix_def digits_value_def Let_def

definition ex_opts :: sfc_options where
  "ex_opts = \<lparr>op_default_color = [''102030''], op_curve_type = [''hilbert''], op_off_map = [''off''], op_on_map = [''on''],
     op_color = [''ff0000'', ''#00ff00''], op_domain = ''domain'', op_input = ''input''\<rparr>"

definition ex_files :: files where
  "ex_files = [''domain'' \<mapsto> [''a'', ''b'', ''c''], ''input'' \<mapsto> [''b''], ''off'' \<mapsto> [''a'', ''b''], ''on'' \<mapsto> [''b'']]"

theorem sfctool_paints_witness:
  "\<exists>v img. sfctool ex_opts ex_files = retR (v, img) \<and> unat v = 2 \<and>
     pixel_at img (0, 0) = Some \<lparr>red = 0xff, green = 0, blue = 0\<rparr> \<and>
     pixel_at img (0, 1) = Some \<lparr>red = 0, green = 0xff, blue = 0\<rparr> \<and>
     pixel_at img (1, 1) = Some \<lparr>red = 0x10, green = 0x30, blue = 0x20\<rparr> \<and>
     pixel_at img (1, 0) = Some \<lparr>red = 0x10, green = 0x30, blue = 0x20\<rparr>"
proof -
  have col: "set_color ''ff0000'' = Inr \<lparr>c_r = 0xff, c_g = 0, c_b = 0\<rparr>" "set_color ''#00ff00'' = Inr \<lparr>c_r = 0, c_g = 0xff, c_b = 0\<rparr>"
    "set_color ''102030'' = Inr \<lparr>c_r = 0x10, c_g = 0x20, c_b = 0x30\<rparr>"
    by (simp_all add: set_color_def number_evals)
  define off where "off = [''a'' \<mapsto> \<lparr>c_r = 0xff :: u8, c_g = 0 :: u8, c_b = 0 :: u8\<rparr>, ''b'' \<mapsto> \<lparr>c_r = 0xff, c_g = 0, c_b = 0\<rparr>]"
  define on where "on = [''b'' \<mapsto> \<lparr>c_r = 0 :: u8, c_g = 0xff :: u8, c_b = 0 :: u8\<rparr>]"
  have maps: "loadmaps ex_files (op_off_map ex_opts) (op_color ex_opts) Map.empty = Inr ([''#00ff00''], off)"
    "loadmaps ex_files (op_on_map ex_opts) [''#00ff00''] Map.empty = Inr ([], on)"
    by (simp_all add: ex_opts_def ex_files_def loadmap_def col off_def on_def)
  have dim: "least_dim (Suc (Suc (Suc 0))) = 2" "curve_width [''hilbert''] 2 = 2" by code_simp+
  have cells: "curve_cell [''hilbert''] 2 0 = (0, 0)" "curve_cell [''hilbert''] 2 (Suc 0) = (0, 1)"
    "curve_cell [''hilbert''] 2 2 = (1, 1)" "curve_cell [''hilbert''] 2 3 = (1, 0)" by code_simp+
  have ex: "ex_files (op_domain ex_opts) = Some [''a'', ''b'', ''c'']" "ex_files (op_input ex_opts) = Some [''b'']"
    "curve_known (op_curve_type ex_opts)" "op_curve_type ex_opts = [''hilbert'']"
    "(case op_default_color ex_opts of [] \<Rightarrow> Inr initial_default_color | s # _ \<Rightarrow> set_color s) = Inr \<lparr>c_r = 0x10, c_g = 0x20, c_b = 0x30\<rparr>"
    by (simp_all add: ex_opts_def ex_files_def col curve_known_def)
  obtain v img where run: "sfctool ex_opts ex_files = retR (v, img)" "unat v = 2"
    and px: "\<forall>i < unat v * unat v. pixel_at img (curve_cell [''hilbert''] 2 i) =
       Some (if i < 3 then (case line_color [''b''] off on ([''a'', ''b'', ''c''] ! i) of Some c \<Rightarrow> pixel_of c
               | None \<Rightarrow> default_pixel \<lparr>c_r = 0x10, c_g = 0x20, c_b = 0x30\<rparr>)
             else default_pixel \<lparr>c_r = 0x10, c_g = 0x20, c_b = 0x30\<rparr>)"
    using sfctool_paints[OF ex(1,2) _ _ ex(3,5) maps] by (auto simp: ex(4) dim numeral_3_eq_3)
  show ?thesis
    using run px[rule_format, of 0] px[rule_format, of 1] px[rule_format, of 2] px[rule_format, of 3]
    by (intro exI[of _ v] exI[of _ img]) (simp add: cells off_def on_def line_color_def pixel_of_def default_pixel_def)
qed

section \<open>Recording of kernel coverage\<close>

text \<open>
  C18: When a recording of unique addresses ends, the library stops it, writes one line for every
  bit that is set in the shared memory, and releases its descriptors. The lines, read the way
  \<^verbatim>\<open>bb2lines\<close> reads them, are the addresses of these bits in ascending order, each once.
\<close>

theorem kcov_unique_dump:
  assumes "kcov_fd k \<ge> 1" and "kcov_mode k = KCOV_TRACE_UNIQUE_PC"
    and n: "unat (pcs_size k) \<le> length area" "64 * unat (pcs_size k) \<le> 0x7f000000"
  shows "\<exists>k' ls as. finish_kcov area k = Inr k' \<and>
    k_log k' = k_log k @ [IoctlDisable (kcov_fd k)] @ map (Write (out_fd k)) ls @
      [IoctlDisable (kcov_fd k), Munmap, Close (kcov_fd k)] @ (if foreign_fd k then [] else [Close (out_fd k)]) \<and>
    kcov_fd k' = -1 \<and> map (stoull 16) ls = map Inr as \<and> sorted_wrt (<) as \<and>
    set as = {BASE_ADDRESS + of_nat p | p. p < 64 * unat (pcs_size k) \<and> bit (area ! (p div 64)) (p mod 64)}"
proof -
  let ?n = "unat (pcs_size k)"
  define as where "as = map (\<lambda>p. BASE_ADDRESS + of_nat p) (covered_bits area ?n)"
  obtain k1 where k1: "finish_kcov area k = Inr (cleanup_kcov k1)" "kcov_fd k1 = kcov_fd k" "out_fd k1 = out_fd k"
    "foreign_fd k1 = foreign_fd k" "k_log k1 = k_log k @ [IoctlDisable (kcov_fd k)] @ map (Write (out_fd k)) (map hex_line as)"
    using finish_unique[OF assms(1-3)] by (auto simp: as_def comp_def)
  have addr: "unat (BASE_ADDRESS + of_nat p) = unat BASE_ADDRESS + p" if "p < 64 * ?n" for p
    using that n(2) by (simp add: unat_word_ariths unat_of_nat BASE_ADDRESS_def)
  have less: "sorted_wrt (\<lambda>p q. BASE_ADDRESS + of_nat p < BASE_ADDRESS + of_nat q) (covered_bits area ?n)"
  proof (rule sorted_wrt_mono_rel[of _ "(<)"])
    show "BASE_ADDRESS + of_nat p < BASE_ADDRESS + of_nat q"
      if "p \<in> set (covered_bits area ?n)" "q \<in> set (covered_bits area ?n)" "p < q" for p q
      using that addr[of p] addr[of q] by (auto simp: covered_bits_def word_less_nat_alt)
  qed (simp add: covered_bits_def sorted_wrt_filter)
  have "sorted_wrt (<) as" using less by (simp add: as_def sorted_wrt_map)
  moreover have "set as = {BASE_ADDRESS + of_nat p | p. p < 64 * ?n \<and> bit (area ! (p div 64)) (p mod 64)}"
    by (auto simp: as_def covered_bits_def)
  moreover have "map (stoull 16) (map hex_line as) = map Inr as" by (simp add: stoull_hex_line)
  ultimately show ?thesis
    using k1 by (intro exI[of _ "cleanup_kcov k1"] exI[of _ "map hex_line as"] exI[of _ as]) (simp add: cleanup_log)
qed

definition ex_kcov :: kcov where
  "ex_kcov = (kcov_initial Map.empty SIG_DFL SIG_DFL)\<lparr>kcov_fd := 5, out_fd := 6, pcs_size := 2\<rparr>"

theorem kcov_unique_dump_witness:
  "\<exists>k' ls as. finish_kcov [1, 6] ex_kcov = Inr k' \<and>
     k_log k' = [IoctlDisable 5] @ map (Write 6) ls @ [IoctlDisable 5, Munmap, Close 5, Close 6] \<and>
     map (stoull 16) ls = map Inr as \<and> sorted_wrt (<) as \<and> BASE_ADDRESS + of_nat 65 \<in> set as"
proof -
  have b: "bit ([1, 6 :: u64] ! (65 div 64)) (65 mod 64)" by simp
  have ex: "kcov_fd ex_kcov = 5" "kcov_mode ex_kcov = KCOV_TRACE_UNIQUE_PC" "pcs_size ex_kcov = 2" "out_fd ex_kcov = 6"
    "foreign_fd ex_kcov = False" "k_log ex_kcov = []"
    by (simp_all add: ex_kcov_def kcov_initial_def)
  have "(65 :: nat) < 64 * unat (pcs_size ex_kcov)" by (simp add: ex)
  with b have mem: "BASE_ADDRESS + of_nat 65 \<in>
      {BASE_ADDRESS + of_nat p | p. p < 64 * unat (pcs_size ex_kcov) \<and> bit ([1, 6 :: u64] ! (p div 64)) (p mod 64)}"
    by blast
  obtain k' ls as where r: "finish_kcov [1, 6] ex_kcov = Inr k'"
    "k_log k' = [IoctlDisable 5] @ map (Write 6) ls @ [IoctlDisable 5, Munmap, Close 5, Close 6]"
    "map (stoull 16) ls = map Inr as" "sorted_wrt (<) as"
    "set as = {BASE_ADDRESS + of_nat p | p. p < 64 * unat (pcs_size ex_kcov) \<and> bit ([1, 6 :: u64] ! (p div 64)) (p mod 64)}"
    using kcov_unique_dump[of ex_kcov "[1, 6]"] unfolding ex by auto
  with mem show ?thesis by blast
qed

text \<open>
  C30: When a recording in order of execution ends in a process the library runs in, it writes every
  recorded address and every address an earlier recording of the process left, in ascending order
  and each once. The number of addresses is read from the shared memory; if it leads behind the
  mapped words, the behaviour is undefined.
\<close>

theorem kcov_trace_dump:
  assumes "kcov_reach k" and "kcov_fd k \<ge> 1" and "kcov_mode k = KCOV_TRACE_PC"
  shows "if unat (area ! 0) < length area
    then \<exists>k' ls as. finish_kcov area k = Inr k' \<and>
      k_log k' = k_log k @ [IoctlDisable (kcov_fd k)] @ map (Write (out_fd k)) ls @
        [IoctlDisable (kcov_fd k), Munmap, Close (kcov_fd k)] @ (if foreign_fd k then [] else [Close (out_fd k)]) \<and>
      map (stoull 16) ls = map Inr as \<and> sorted_wrt (<) as \<and>
      set as = set (sortuniq_cover k) \<union> set (take (unat (area ! 0)) (tl area))
    else \<exists>s. finish_kcov area k = Inl (UndefinedBehaviour s)"
proof (cases "unat (area ! 0) < length area")
  case True
  obtain k1 s where k1: "finish_kcov area k = Inr (cleanup_kcov k1)" "kcov_fd k1 = kcov_fd k" "out_fd k1 = out_fd k"
    "foreign_fd k1 = foreign_fd k" "s = fold set_insert (take (unat (area ! 0)) (tl area)) (sortuniq_cover k)"
    "k_log k1 = k_log k @ [IoctlDisable (kcov_fd k)] @ map (Write (out_fd k)) (map hex_line s)"
    by (rule finish_trace[OF assms(2,3) True]) blast
  have "sorted_wrt (<) s \<and> set s = set (sortuniq_cover k) \<union> set (take (unat (area ! 0)) (tl area))"
    using fold_set_insert[of "sortuniq_cover k" "take (unat (area ! 0)) (tl area)"] reach_sorted[OF assms(1)]
    by (auto simp: k1(5))
  moreover have "map (stoull 16) (map hex_line s) = map Inr s" by (simp add: stoull_hex_line)
  ultimately have "\<exists>k' ls as. finish_kcov area k = Inr k' \<and>
      k_log k' = k_log k @ [IoctlDisable (kcov_fd k)] @ map (Write (out_fd k)) ls @
        [IoctlDisable (kcov_fd k), Munmap, Close (kcov_fd k)] @ (if foreign_fd k then [] else [Close (out_fd k)]) \<and>
      map (stoull 16) ls = map Inr as \<and> sorted_wrt (<) as \<and>
      set as = set (sortuniq_cover k) \<union> set (take (unat (area ! 0)) (tl area))"
    using k1(1-4,6) by (intro exI[of _ "cleanup_kcov k1"] exI[of _ "map hex_line s"] exI[of _ s]) (simp add: cleanup_log)
  with True show ?thesis by simp
next
  case False
  then have "\<exists>s. finish_kcov area k = Inl (UndefinedBehaviour s)" by (rule finish_trace_behind[OF assms(2,3)])
  with False show ?thesis by simp
qed

text \<open>
  C31: While the library records, the shared memory is mapped and the environment names its
  descriptors. A program the process executes that loads the library again first stops the
  recording and closes exactly these two descriptors, whatever its environment asks for.
\<close>

theorem kcov_hand_over:
  assumes "kcov_reach k" and "kcov_fd k > 0" and "\<not> foreign_fd k"
    and "sys_getfd sys (kcov_fd k) = 0" and "sys_getfd sys (out_fd k) = 0"
  shows "k_mapped k \<and> environ k ''KCOV_CTL_FD'' = Some (dec_of_int (kcov_fd k)) \<and>
    environ k ''KCOV_OUT_FD'' = Some (dec_of_int (out_fd k)) \<and>
    (\<exists>cs. k_log (start_kcov sys (kcov_initial (environ k) segv term)) =
       [IoctlDisable (kcov_fd k), Munmap, Close (kcov_fd k), Close (out_fd k)] @ cs)"
proof -
  have I: "tracing_inv k" using reach_tracing_inv[OF assms(1)] .
  define k0 where "k0 = (setup_signal_handler (kcov_initial (environ k) segv term))\<lparr>out_fd := -1\<rparr>"
  have k0: "environ k0 = environ k" "k_log k0 = []" "\<not> foreign_fd k0" by (simp_all add: k0_def kcov_initial_def)
  have "\<exists>cs. k_log (parse_env sys k0) = k_log k0 @ [IoctlDisable (kcov_fd k), Munmap, Close (kcov_fd k), Close (out_fd k)] @ cs"
    using I assms k0 by (intro parse_env_resumes) (simp_all add: tracing_inv_def)
  moreover have "\<exists>cs. k_log (start_kcov sys (kcov_initial (environ k) segv term)) = k_log (parse_env sys k0) @ cs"
    unfolding k0_def by (rule start_kcov_log) (simp add: kcov_initial_def)
  ultimately show ?thesis using I assms k0(2) by (auto simp: tracing_inv_def)
qed

definition ex_sys :: kcov_sys where
  "ex_sys = \<lparr>sys_getfd = (\<lambda>fd. if fd = 3 \<or> fd = 4 then 0 else -1), sys_rlimit = Some 1024, sys_open_out = (\<lambda>_. 3), sys_open_kcov = 4,
     sys_init_unique = -1, sys_init_trace = 0, sys_mmap = True, sys_enable = 0, sys_progname = ''ls''\<rparr>"

definition ex_env :: "string \<rightharpoonup> string" where
  "ex_env = [''KCOV_OUT'' \<mapsto> ''ls.cov'', ''KCOV_MODE'' \<mapsto> ''trace_order'']"

definition ex_traced :: kcov where
  "ex_traced = start_kcov ex_sys (kcov_initial ex_env SIG_DFL SIG_DFL)"

lemma ex_traced_reach: "kcov_reach ex_traced"
  unfolding ex_traced_def
  by (rule kcov_reach.start[OF kcov_reach.load]) (simp_all add: ex_env_def sys_ok_def ex_sys_def)

lemma ex_traced_fields: "kcov_fd ex_traced = 4" "out_fd ex_traced = 3" "\<not> foreign_fd ex_traced"
  "kcov_mode ex_traced = KCOV_TRACE_PC" "k_log ex_traced = []" "sortuniq_cover ex_traced = []"
  by (simp_all add: ex_traced_def start_kcov_def kcov_initial_def setup_signal_handler_def parse_env_def open_output_def
      ex_env_def ex_sys_def choose_mode_def init_buffer_def map_and_enable_def Let_def)

theorem kcov_trace_dump_witness:
  "\<exists>k' ls as. finish_kcov [2, 0xffffffff81000040, 0xffffffff81000010] ex_traced = Inr k' \<and>
     k_log k' = [IoctlDisable 4] @ map (Write 3) ls @ [IoctlDisable 4, Munmap, Close 4, Close 3] \<and>
     map (stoull 16) ls = map Inr as \<and> sorted_wrt (<) as \<and> set as = {0xffffffff81000010, 0xffffffff81000040}"
  using kcov_trace_dump[OF ex_traced_reach, of "[2, 0xffffffff81000040, 0xffffffff81000010]"]
  unfolding ex_traced_fields by (simp add: ex_traced_fields insert_commute)

theorem kcov_hand_over_witness:
  "\<exists>cs. k_log (start_kcov ex_sys (kcov_initial (environ ex_traced) SIG_DFL SIG_DFL)) =
     [IoctlDisable 4, Munmap, Close 4, Close 3] @ cs"
  using kcov_hand_over[OF ex_traced_reach, of ex_sys SIG_DFL SIG_DFL] by (simp add: ex_traced_fields ex_sys_def)

text \<open>
  If the environment asks for an output descriptor that is not open, the library does not record.
  It cleans up a recording it has not started: it closes the requested descriptor and the
  descriptor 0, the standard input of the program, because the number of the control descriptor is
  still the initial 0 of a static variable.
\<close>

theorem kcov_bad_fd_closes_stdin:
  assumes "env ''KCOV_OUT'' = Some s" and "take 2 s = ''fd''" and "sscanf_fd s = (1, Some fd)" and "sys_getfd sys fd \<noteq> 0"
    and "env ''KCOV_CTL_FD'' = None"
  shows "k_log (start_kcov sys (kcov_initial env segv term)) = [IoctlDisable 0, Munmap, Close 0, Close fd] \<and>
    kcov_fd (start_kcov sys (kcov_initial env segv term)) = -1"
proof -
  define k0 where "k0 = (setup_signal_handler (kcov_initial env segv term))\<lparr>out_fd := -1\<rparr>"
  have k0: "kcov_fd k0 = 0" "environ k0 = env" "k_log k0 = []" "\<not> foreign_fd k0" by (simp_all add: k0_def kcov_initial_def)
  define k1 where "k1 = k0\<lparr>kcov_mode_env := environ k0 ''KCOV_MODE'', out_fd := fd\<rparr>"
  have "parse_env sys k0 = cleanup_kcov k1"
    using assms k0 by (simp add: parse_env_def use_given_fd_def k1_def)
  then have "start_kcov sys (kcov_initial env segv term) = cleanup_kcov k1"
    unfolding start_kcov_def Let_def k0_def[symmetric] by (simp add: kcov_initial_def)
  then show ?thesis using k0 by (simp add: cleanup_log k1_def)
qed

theorem kcov_bad_fd_closes_stdin_witness:
  "k_log (start_kcov ex_sys (kcov_initial [''KCOV_OUT'' \<mapsto> ''fd:9''] SIG_DFL SIG_DFL)) = [IoctlDisable 0, Munmap, Close 0, Close 9]"
proof -
  have "sscanf_fd ''fd:9'' = (1, Some 9)"
    by (simp add: sscanf_fd_def strtol10_def number_evals int_of_long_def)
  then show ?thesis
    using kcov_bad_fd_closes_stdin[of "[''KCOV_OUT'' \<mapsto> ''fd:9'']" "''fd:9''" 9 ex_sys SIG_DFL SIG_DFL]
    by (simp add: ex_sys_def)
qed

section \<open>The reader of the notes files\<close>

text \<open>
  The client of the reader sees a file of words and a position in it: the next word, the position,
  a jump. A sequence of these operations stays in the file if \<open>file_ops\<close> has a result.
\<close>

datatype reader_op = Next | Position | Jump u32 u32

fun file_ops :: "reader_op list \<Rightarrow> u32 list \<Rightarrow> nat \<Rightarrow> u32 list option" where
  "file_ops [] ws p = Some []"
| "file_ops (Next # os) ws p = (if p < length ws then map_option ((#) (ws ! p)) (file_ops os ws (Suc p)) else None)"
| "file_ops (Position # os) ws p = map_option ((#) (of_nat p)) (file_ops os ws p)"
| "file_ops (Jump base len # os) ws p =
     (if unat base + unat len \<le> length ws then file_ops os ws (unat base + unat len) else None)"

fun gcov_ops :: "reader_op list \<Rightarrow> gcov_var \<Rightarrow> u32 list" where
  "gcov_ops [] g = []"
| "gcov_ops (Next # os) g = (case gcov_read_unsigned g of (v, g') \<Rightarrow> v # gcov_ops os g')"
| "gcov_ops (Position # os) g = gcov_position g # gcov_ops os g"
| "gcov_ops (Jump base len # os) g = gcov_ops os (gcov_sync base len g)"

lemma gcov_ops_at:
  "reader_at g ws p \<Longrightarrow> \<not> gv_endian g \<Longrightarrow> file_ops os ws p = Some vs \<Longrightarrow> gcov_ops os g = vs"
proof (induction os ws p arbitrary: g vs rule: file_ops.induct)
  case (2 os ws p)
  then obtain vs' where vs: "p < length ws" "vs = ws ! p # vs'" "file_ops os ws (Suc p) = Some vs'" by (auto split: if_splits)
  obtain g' where "gcov_read_unsigned g = (from_file (ws ! p) g, g')" "reader_at g' ws (Suc p)" "gv_endian g' = gv_endian g"
    by (rule gcov_read_unsigned_at[OF 2(2) vs(1)])
  with 2(1)[OF vs(1), of g' vs'] 2(3) vs(2,3) show ?case by (simp add: from_file_def)
next
  case (3 os ws p)
  have "gcov_position g = of_nat p" using arg_cong[OF reader_fields(2)[OF 3(2)], of "of_nat :: nat \<Rightarrow> u32"] by simp
  with 3 show ?case by auto
next
  case (4 base len os ws p)
  then show ?case using gcov_sync_at[OF 4(2), of base len] by (auto split: if_splits)
qed simp

text \<open>
  C20: The window in memory through which \<^verbatim>\<open>gcov-io\<close> reads a file, with its refills, reallocations and
  jumps inside and outside of it, cannot be observed: any sequence of reads, positions and jumps in
  the file returns what the file itself contains there.
\<close>

theorem gcov_reader_refines:
  assumes "fopen name ''rb'' = Some ws" and "length ws < 2 ^ 26" and "gv_buffer g = []" "gv_alloc g = 0"
    and "file_ops os ws 0 = Some vs"
  shows "\<exists>g'. gcov_open fopen name 1 g = (1, g') \<and> gcov_ops os g' = vs"
proof -
  obtain g' where "gcov_open fopen name 1 g = (1, g')" "reader_at g' ws 0" "\<not> gv_endian g'"
    by (rule gcov_open_at[of fopen name ws g, OF assms(1-4)])
  with assms(5) show ?thesis by (auto intro: gcov_ops_at)
qed

theorem gcov_reader_refines_witness:
  "\<exists>g'. gcov_open (\<lambda>_ _. Some [7, 8, 9]) ''a.gcno'' 1 gcov_var_initial = (1, g') \<and>
     gcov_ops [Next, Jump 1 1, Next, Position, Jump 0 1, Next] g' = [7, 9, 3, 8]"
  using gcov_reader_refines[of "\<lambda>_ _. Some [7, 8, 9]" "''a.gcno''" "[7, 8, 9]" gcov_var_initial
      "[Next, Jump 1 1, Next, Position, Jump 0 1, Next]" "[7, 9, 3, 8]"]
  by (simp add: gcov_var_initial_def)

text \<open>
  C13: Reading back a notes file that was written as records has the effect of adding the basic blocks
  of its line records one after the other, and makes exactly their lines coverable. In files of
  more than 2050 words the name of a function can be read through a pointer that is no longer
  valid; nothing else goes wrong.
\<close>

theorem gcno_round_trip:
  assumes "fopen name ''rb'' = Some (gcno_words h ns)" and "length (gcno_words h ns) < 2 ^ 26"
    and "gv_buffer g = []" "gv_alloc g = 0" and "\<forall>n \<in> set ns. note_ok n"
    and "blocks_start st" and "\<forall>bb \<in> set (note_blocks False ns). has_start_line bb"
  shows "(\<exists>e. read_graph_file fopen p name g st = Some (Inl e) \<and> stale e \<and> 2050 < length (gcno_words h ns)) \<or>
    (\<exists>g' fm st'. read_graph_file fopen p name g st = retR (g', with_functions fm st') \<and>
       add_blocks p (note_blocks False ns) st = Inr st' \<and>
       (\<forall>f. lines_of (coverable_lines st') f = lines_of (coverable_lines st) f \<union> (\<Union>bb \<in> set (note_blocks False ns). block_lines bb f)))"
proof -
  obtain st' where st': "add_blocks p (note_blocks False ns) st = Inr st'"
    using add_blocks_defined[OF assms(6,7)] by blast
  then show ?thesis
    using read_graph_file_notes[of fopen name h ns g p st, OF assms(1-5)] add_blocks_lines[OF st']
    by (auto simp: notes_result_def)
qed

definition ex_notes :: "gnote list" where
  "ex_notes = [Function_note (1, 2, 3) ''f'' 0 ''a.c'' (1, 1, 9) [], Other_note 0x01410000 [0, 0],
     Lines_note 1 [\<lparr>sl_filename = ''a.c'', sl_lines = [3, 4]\<rparr>], Lines_note 2 [\<lparr>sl_filename = ''a.c'', sl_lines = [6]\<rparr>]]"

lemma ex_note_blocks:
  "note_blocks False ex_notes = [\<lparr>bb_blockno = 1, bb_source_lines = [\<lparr>sl_filename = ''a.c'', sl_lines = [3, 4]\<rparr>], bb_is_valid = True\<rparr>,
     \<lparr>bb_blockno = 2, bb_source_lines = [\<lparr>sl_filename = ''a.c'', sl_lines = [6]\<rparr>], bb_is_valid = True\<rparr>]"
  by code_simp

lemma ex_notes_ok: "\<forall>n \<in> set ex_notes. note_ok n" "length (gcno_words (0, 0, 1) ex_notes) = 40"
  "\<forall>bb \<in> set (note_blocks False ex_notes). has_start_line bb"
  subgoal by (simp add: ex_notes_def string_ok_def char_of_def GCOV_TAG_FUNCTION_def GCOV_TAG_LINES_def)
  subgoal by (simp add: gcno_words_def ex_notes_def note_words_def string_record_def length_string_words tokens_of_def)
  subgoal by (simp add: ex_note_blocks has_start_line_def get_start_line_def)
  done

theorem gcno_round_trip_witness:
  "\<exists>g' st'. read_graph_file (\<lambda>_ _. Some (gcno_words (0, 0, 1) ex_notes)) ''/k/'' ''a.gcno'' gcov_var_initial bb2lines_initial =
       retR (g', st') \<and> lines_of (coverable_lines st') ''a.c'' = {3, 4, 6}"
proof -
  have pre: "(\<lambda>_ _. Some (gcno_words (0, 0, 1) ex_notes)) ''a.gcno'' ''rb'' = Some (gcno_words (0, 0, 1) ex_notes)"
    "length (gcno_words (0, 0, 1) ex_notes) < 2 ^ 26" "gv_buffer gcov_var_initial = []" "gv_alloc gcov_var_initial = 0"
    "blocks_start bb2lines_initial"
    by (simp_all add: ex_notes_ok gcov_var_initial_def blocks_start_def bb2lines_initial_def)
  have lines: "(\<Union>bb \<in> set (note_blocks False ex_notes). block_lines bb ''a.c'') = {3, 4, 6}"
    "lines_of (coverable_lines bb2lines_initial) ''a.c'' = {}"
    by (auto simp: ex_note_blocks block_lines_def bb2lines_initial_def lines_of_def um_get_def)
  let ?run = "read_graph_file (\<lambda>_ _. Some (gcno_words (0, 0, 1) ex_notes)) ''/k/'' ''a.gcno'' gcov_var_initial bb2lines_initial"
  have "\<not> 2050 < length (gcno_words (0, 0, 1) ex_notes)" by (simp add: ex_notes_ok)
  with gcno_round_trip[OF pre(1-4) ex_notes_ok(1) pre(5) ex_notes_ok(3), of "''/k/''"] obtain g' fm st' where
    "?run = retR (g', with_functions fm st')"
    "\<forall>f. lines_of (coverable_lines st') f = lines_of (coverable_lines bb2lines_initial) f \<union>
       (\<Union>bb \<in> set (note_blocks False ex_notes). block_lines bb f)" by blast
  moreover from this(2) have "lines_of (coverable_lines (with_functions fm st')) ''a.c'' = {3, 4, 6}"
    by (simp only: lines coverable_functions Un_empty_left)
  ultimately show ?thesis by blast
qed

section \<open>Coverage of source lines\<close>

lemma blocks_ok_initial: "blocks_ok bb2lines_initial"
  by (simp add: blocks_ok_def bb2lines_initial_def)

lemma read_memo_ok:
  assumes "read_graph_files fopen p fs g bb2lines_initial = retR (g', st)"
  shows "memo_ok env st" and "blocks_valid (basic_blocks_map st)"
  using sorted_blocks.read_graph_files_inv[OF assms blocks_ok_initial]
  by (simp_all add: blocks_ok_def memo_ok_def blocks_valid_def)

text \<open>
  C29: The memory of earlier answers does not change what \<^verbatim>\<open>get_basic_block\<close> returns: after any input
  it answers like a lookup that computes every answer anew. For an address in a file with basic
  blocks of which one starts at the line of the address or before it, the answer is the block of
  the file with the greatest such start line. (The comments on and in the function say that the
  line is smaller than the start line of the block returned; it is at least that line.)
\<close>

theorem lookup_ignores_memory:
  assumes "read_graph_files fopen p fs g bb2lines_initial = retR (g', st0)" and "blocks_start st0" and "iter_ok (be_iter env)"
    and "map (stoull 16) input = map Inr as"
  shows "\<exists>st st'. cover_addresses env input st0 = Inr st \<and>
    get_basic_block env a st = Inr (block_of env (basic_blocks_map st0) a, st') \<and>
    (\<forall>f l bbs. be_addr_to_line env a = (Some f, l) \<longrightarrow> map_of (basic_blocks_map st0) f = Some bbs \<longrightarrow>
       (\<exists>b \<in> set bbs. start_line b \<le> l) \<longrightarrow>
       (\<exists>bb \<in> set bbs. block_of env (basic_blocks_map st0) a = Some bb \<and> start_line bb \<le> l \<and>
          (\<forall>b \<in> set bbs. start_line b \<le> l \<longrightarrow> start_line b \<le> start_line bb)))"
proof -
  note memo = read_memo_ok[OF assms(1)]
  obtain st where st: "cover_addresses env input st0 = Inr st" "memo_ok env st" "basic_blocks_map st = basic_blocks_map st0"
    using cover_addresses_exact[OF memo(1,2) assms(3,2,4)] by blast
  have "blocks_start st" using assms(2) st(3) by (simp add: blocks_start_def)
  then obtain r where "get_basic_block env a st = Inr r" "answers env a st r"
    using get_basic_block_answers[OF st(2) _ assms(3), of a] memo(2) st(3) by metis
  then have "get_basic_block env a st = Inr (block_of env (basic_blocks_map st0) a, snd r)"
    using st(3) by (cases r) (simp add: answers_def)
  moreover have "\<exists>bb \<in> set bbs. block_of env (basic_blocks_map st0) a = Some bb \<and> start_line bb \<le> l \<and>
      (\<forall>b \<in> set bbs. start_line b \<le> l \<longrightarrow> start_line b \<le> start_line bb)"
    if at: "be_addr_to_line env a = (Some f, l)" "map_of (basic_blocks_map st0) f = Some bbs" "\<exists>b \<in> set bbs. start_line b \<le> l" for f l bbs
  proof -
    obtain bb where bb: "bb_before l bbs = Some bb" using at(3) bb_before_some by blast
    have "sorted_wrt (\<lambda>a b. start_line a < start_line b) bbs"
      using sorted_blocks.read_graph_files_inv[OF assms(1) blocks_ok_initial] map_of_SomeD[OF at(2)] by (force simp: blocks_ok_def)
    moreover have "block_of env (basic_blocks_map st0) a = Some bb"
      using at bb by (auto simp: block_of_def um_get_def Let_def)
    ultimately show ?thesis using bb_before_in[OF bb] bb_before_greatest[OF _ bb] by blast
  qed
  ultimately show ?thesis using st(1) by blast
qed

text \<open>
  C28: In every report \<^verbatim>\<open>bb2lines\<close> prints, whatever the notes files and the input contain, the covered
  lines of a file are among its coverable lines, no row covers more lines than the file has, and
  neither do the totals of files and of lines; the total of lines is the sum of the rows.
\<close>

theorem coverage_report_sound:
  assumes "bb2lines_coverage fopen fs iter b env input = retR (rep, st)" and "iter_ok iter" and "iter_ok (be_iter env)"
  shows "rp_files rep \<le> rp_all_files rep \<and> rp_lines rep \<le> rp_all_lines rep \<and>
    rp_lines rep = sum_list (map cr_lines_covered (rp_rows rep)) \<and>
    (\<forall>r \<in> set (rp_rows rep). cr_lines_covered r \<le> cr_lines_total r \<and>
       (b \<longrightarrow> length (cr_lines r) = cr_lines_covered r \<and> set (cr_lines r) \<subseteq> lines_of (coverable_lines st) (cr_file r)))"
proof -
  obtain g st0 where r: "read_graph_files fopen (be_prefix env) fs gcov_var_initial bb2lines_initial = retR (g, st0)"
    and d: "determine_coverage iter b env input st0 = Inr (rep, st)"
    using assms(1) by (auto simp: bb2lines_coverage_def res_simps)
  note c = determine_coverage_run[OF d]
  have I: "coverage_inv st"
    using coverage.read_graph_files_inv[OF r coverage_inv_initial] cover_addresses_inv[of env input st0 st] c assms(3) by simp
  note rep = conjunct2[OF c] coverage_of_def
  have m: "mset (map (\<lambda>e. length (snd e)) (iter (covered_lines st))) = mset (map (\<lambda>e. length (snd e)) (covered_lines st))"
    using assms(2) by (simp add: iter_ok_def)
  have "sum_list (map (\<lambda>e. length (snd e)) (iter (covered_lines st))) = rp_lines rep"
    using arg_cong[OF m, of sum_mset] by (simp only: sum_mset_sum_list) (simp add: rep)
  moreover have "map cr_lines_covered (rp_rows rep) = map (\<lambda>e. length (snd e)) (iter (covered_lines st))"
    by (auto simp: rep)
  ultimately have "rp_lines rep = sum_list (map cr_lines_covered (rp_rows rep))" by simp
  moreover have "\<forall>r \<in> set (rp_rows rep). cr_lines_covered r \<le> cr_lines_total r \<and>
       (b \<longrightarrow> length (cr_lines r) = cr_lines_covered r \<and> set (cr_lines r) \<subseteq> lines_of (coverable_lines st) (cr_file r))"
  proof -
    have "set ls \<subseteq> lines_of (coverable_lines st) f \<and> length ls \<le> count_all_lines_in_file f st"
      if "(f, ls) \<in> set (iter (covered_lines st))" for f ls
      using coverage_rows[OF I] that iter_ok_set[OF assms(2), of "covered_lines st"] by simp
    then show ?thesis by (simp add: rep split_beta)
  qed
  ultimately show ?thesis using coverage_totals[OF I] by (simp add: rep)
qed

text \<open>
  C5: A whole run of \<^verbatim>\<open>bb2lines\<close> on notes files that were written as records, and on addresses in the
  form in which the preload library writes them, ends with a report: a file's row counts exactly
  the lines of the basic blocks that the addresses lead to, against exactly the lines of all basic
  blocks in the notes files. Only the names of functions in files of more than 2050 words can stop
  it, because they are read through pointers that may have become invalid.
\<close>

theorem bb2lines_reports:
  assumes dir: "dir_ok fopen fs" and input: "map (stoull 16) input = map Inr as" and it: "iter_ok iter" "iter_ok (be_iter env)"
  shows "(\<exists>e. bb2lines_coverage fopen (map fst fs) iter b env input = Some (Inl e) \<and> stale e \<and> \<not> dir_small fs) \<or>
    (\<exists>rep st. bb2lines_coverage fopen (map fst fs) iter b env input = retR (rep, st) \<and>
       (\<forall>f. lines_of (covered_lines st) f = (\<Union>a \<in> set as. lines_at env (basic_blocks_map st) a f)) \<and>
       (\<forall>f. lines_of (coverable_lines st) f = (\<Union>bb \<in> set (dir_blocks fs). block_lines bb f)) \<and>
       (\<forall>f. lines_of (covered_lines st) f \<noteq> {} \<longrightarrow> (\<exists>r \<in> set (rp_rows rep). cr_file r = f)) \<and>
       (\<forall>r \<in> set (rp_rows rep). cr_lines_covered r = card (lines_of (covered_lines st) (cr_file r)) \<and>
          cr_lines_total r = card (lines_of (coverable_lines st) (cr_file r))))"
proof -
  have init: "blocks_start bb2lines_initial" "gv_buffer gcov_var_initial = []" "gv_alloc gcov_var_initial = 0"
    and none: "lines_of (coverable_lines bb2lines_initial) f = {}" for f
    by (simp_all add: blocks_start_def bb2lines_initial_def gcov_var_initial_def lines_of_def um_get_def)
  from read_graph_files_dir[OF dir init, of "be_prefix env"] show ?thesis
  proof (elim disjE exE conjE)
    fix e assume "read_graph_files fopen (be_prefix env) (map fst fs) gcov_var_initial bb2lines_initial = Some (Inl e)" "stale e" "\<not> dir_small fs"
    then show ?thesis by (simp add: bb2lines_coverage_def)
  next
    fix g st0 assume r: "read_graph_files fopen (be_prefix env) (map fst fs) gcov_var_initial bb2lines_initial = retR (g, st0)"
      and s: "blocks_start st0" and l: "\<forall>f. lines_of (coverable_lines st0) f =
        lines_of (coverable_lines bb2lines_initial) f \<union> (\<Union>bb \<in> set (dir_blocks fs). block_lines bb f)"
    obtain st where st: "cover_addresses env input st0 = Inr st" "basic_blocks_map st = basic_blocks_map st0"
      "coverable_lines st = coverable_lines st0"
      "\<forall>f. lines_of (covered_lines st) f = lines_of (covered_lines st0) f \<union> (\<Union>a \<in> set as. lines_at env (basic_blocks_map st0) a f)"
      using cover_addresses_exact[OF read_memo_ok[OF r] it(2) s input] by blast
    have I: "coverage_inv st"
      using coverage.read_graph_files_inv[OF r coverage_inv_initial] cover_addresses_inv[OF st(1) _ it(2)] by simp
    have "nothing_covered st0" by (rule uncovered.read_graph_files_inv[OF r nothing_covered_initial])
    with st(2,4) have covered: "\<forall>f. lines_of (covered_lines st) f = (\<Union>a \<in> set as. lines_at env (basic_blocks_map st) a f)"
      by (simp add: nothing_covered_def)
    have coverable: "\<forall>f. lines_of (coverable_lines st) f = (\<Union>bb \<in> set (dir_blocks fs). block_lines bb f)"
      using l st(3) none by simp
    have run: "bb2lines_coverage fopen (map fst fs) iter b env input = retR (coverage_of iter b st, st)"
      using r determine_coverage_eq[OF st(1)] by (simp add: bb2lines_coverage_def)
    from report_rows[OF I it(1)] covered coverable show ?thesis
      by (intro disjI2 exI[of _ "coverage_of iter b st"] exI[of _ st] conjI) (rule run, blast+)
  qed
qed

definition ex_dir :: notes_dir where
  "ex_dir = [(''a.gcno'', (0, 0, 1), ex_notes)]"

definition ex_fopen :: "string \<Rightarrow> string \<Rightarrow> u32 list option" where
  "ex_fopen _ _ = Some (gcno_words (0, 0, 1) ex_notes)"

definition ex_bb_env :: bb_env where
  "ex_bb_env = \<lparr>be_addr_to_line = (\<lambda>a. if a = 0xffffffff81000010 then (Some ''/k/a.c'', 5) else (None, 0)), be_regex = (\<lambda>_. False),
     be_iter = (\<lambda>m. m), be_prefix = ''/k/''\<rparr>"

lemma ex_iter_ok: "iter_ok (\<lambda>m. m)" "iter_ok (be_iter ex_bb_env)"
  by (simp_all add: iter_ok_def ex_bb_env_def)

lemma ex_dir_ok: "dir_ok ex_fopen ex_dir" "dir_small ex_dir" "dir_blocks ex_dir = note_blocks False ex_notes"
  using ex_notes_ok by (simp_all add: dir_ok_def dir_small_def dir_blocks_def ex_dir_def ex_fopen_def is_gcno_def)

lemma ex_input: "map (stoull 16) [hex_line 0xffffffff81000010] = map Inr [0xffffffff81000010]"
  by (simp add: stoull_hex_line)

lemma ex_read:
  "\<exists>g st. read_graph_files ex_fopen ''/k/'' [''a.gcno''] gcov_var_initial bb2lines_initial = retR (g, st) \<and> blocks_start st"
proof -
  have "blocks_start bb2lines_initial" "gv_buffer gcov_var_initial = []" "gv_alloc gcov_var_initial = 0"
    by (simp_all add: blocks_start_def bb2lines_initial_def gcov_var_initial_def)
  from read_graph_files_dir[OF ex_dir_ok(1) this, of "''/k/''"] ex_dir_ok(2) show ?thesis
    by (auto simp: ex_dir_def)
qed

lemma ex_run:
  "\<exists>rep st. bb2lines_coverage ex_fopen [''a.gcno''] (\<lambda>m. m) True ex_bb_env [hex_line 0xffffffff81000010] = retR (rep, st)"
proof -
  obtain g st0 where r: "read_graph_files ex_fopen ''/k/'' [''a.gcno''] gcov_var_initial bb2lines_initial = retR (g, st0)" "blocks_start st0"
    using ex_read by blast
  have p: "be_prefix ex_bb_env = ''/k/''" by (simp add: ex_bb_env_def)
  obtain st where "cover_addresses ex_bb_env [hex_line 0xffffffff81000010] st0 = Inr st"
    using cover_addresses_exact[OF read_memo_ok[OF r(1)] ex_iter_ok(2) r(2) ex_input] by blast
  from determine_coverage_eq[OF this, of "\<lambda>m. m" True] show ?thesis
    by (intro exI) (simp add: bb2lines_coverage_def p r(1) del: read_graph_files.simps)
qed

theorem bb2lines_reports_witness:
  "\<exists>rep st. bb2lines_coverage ex_fopen [''a.gcno''] (\<lambda>m. m) True ex_bb_env [hex_line 0xffffffff81000010] = retR (rep, st) \<and>
     lines_of (coverable_lines st) ''a.c'' = {3, 4, 6} \<and>
     (\<forall>r \<in> set (rp_rows rep). cr_file r = ''a.c'' \<longrightarrow> cr_lines_total r = 3)"
proof -
  have lines: "(\<Union>bb \<in> set (dir_blocks ex_dir). block_lines bb ''a.c'') = {3, 4, 6}"
    by (auto simp: ex_dir_ok ex_note_blocks block_lines_def)
  have fs: "map fst ex_dir = [''a.gcno'']" by (simp add: ex_dir_def)
  from bb2lines_reports[OF ex_dir_ok(1) ex_input ex_iter_ok, of True] show ?thesis
    unfolding fs
  proof (elim disjE exE conjE)
    fix rep st assume r: "bb2lines_coverage ex_fopen [''a.gcno''] (\<lambda>m. m) True ex_bb_env [hex_line 0xffffffff81000010] = retR (rep, st)"
      "\<forall>f. lines_of (coverable_lines st) f = (\<Union>bb \<in> set (dir_blocks ex_dir). block_lines bb f)"
      "\<forall>r \<in> set (rp_rows rep). cr_lines_covered r = card (lines_of (covered_lines st) (cr_file r)) \<and>
          cr_lines_total r = card (lines_of (coverable_lines st) (cr_file r))"
    have "lines_of (coverable_lines st) ''a.c'' = {3, 4, 6}" by (simp only: r(2) lines)
    with r(1,3) show ?thesis by (intro exI[of _ rep] exI[of _ st] conjI) simp_all
  qed (simp add: ex_dir_ok)
qed

theorem coverage_report_sound_witness:
  "\<exists>rep st. bb2lines_coverage ex_fopen [''a.gcno''] (\<lambda>m. m) True ex_bb_env [hex_line 0xffffffff81000010] = retR (rep, st) \<and>
     rp_lines rep \<le> rp_all_lines rep"
proof -
  obtain rep st where "bb2lines_coverage ex_fopen [''a.gcno''] (\<lambda>m. m) True ex_bb_env [hex_line 0xffffffff81000010] = retR (rep, st)"
    using ex_run by blast
  with coverage_report_sound[OF this ex_iter_ok] show ?thesis by (intro exI[of _ rep] exI[of _ st] conjI) simp_all
qed

theorem lookup_ignores_memory_witness:
  "\<exists>st0 st st'. cover_addresses ex_bb_env [hex_line 0xffffffff81000010] st0 = Inr st \<and>
     get_basic_block ex_bb_env 0xffffffff81000010 st = Inr (block_of ex_bb_env (basic_blocks_map st0) 0xffffffff81000010, st')"
proof -
  obtain g st0 where r: "read_graph_files ex_fopen ''/k/'' [''a.gcno''] gcov_var_initial bb2lines_initial = retR (g, st0)" "blocks_start st0"
    using ex_read by blast
  from lookup_ignores_memory[OF r ex_iter_ok(2) ex_input, of "0xffffffff81000010"] show ?thesis
    by (elim exE conjE) (intro exI conjI)
qed

end
