(* ===== verification/Spec2Isabelle.thy ===== *)
theory Spec2Isabelle
  imports Lock_Properties Convert_Properties Hypothesizer_Properties Dwarves_Properties Dwarf_Properties Coverage_Properties
begin

text \<open>
  \<^bold>\<open>LockDoc\<close> records the lock operations, allocations and memory accesses of an operating system
  kernel in a trace and derives from it which locks protect which members of the kernel's data
  structures. This development models the programs of the repository written in C and C++.

  \<^bold>\<open>The parts and how they interact.\<close>
  \<^item> \<^verbatim>\<open>convert\<close> (\<^verbatim>\<open>src/convert/main\<close>) reads the trace line by line (\<^verbatim>\<open>convert.cc\<close>). Lock
    events go to a lock object (\<^verbatim>\<open>rwlock.cc\<close>), which updates its counters and drives the
    transaction stacks of the lock manager (\<^verbatim>\<open>lockmanager.cc\<close>); allocations and accesses are
    turned into rows of CSV tables that refer to each other by number.
  \<^item> The layout of the data structures comes from the kernel's debug information:
    \<^verbatim>\<open>binaryread.cc\<close> walks over compilation units of the dwarves library
    (\<^verbatim>\<open>src/convert/dwarves\<close>), whose printers were changed to write one row per member and to call
    back into \<^verbatim>\<open>convert.cc\<close> for the numbers of member names. The units themselves are built by
    \<^verbatim>\<open>dwarf_loader.c\<close> in two passes over the entries: the first makes a tag for each entry and
    numbers it, the second replaces the offsets of referenced entries by these numbers.
  \<^item> The hypothesizer (\<^verbatim>\<open>src/hypothesizer/hypothesizer.cc\<close>) reads the locks held at each access,
    enumerates the sets of locks held together, and selects one locking rule per member.
  \<^item> The coverage tools (\<^verbatim>\<open>src/coverage\<close>) measure how much of the kernel a workload executes:
    the preload library \<^verbatim>\<open>kcov-lib.cc\<close> records the addresses of executed basic blocks, \<^verbatim>\<open>bb2lines\<close>
    reads the compiler's notes files and maps the addresses to source lines, and \<^verbatim>\<open>sfctool\<close> paints
    them along a space-filling curve.

  \<^bold>\<open>Theories and sources.\<close>
  \<^item> \<open>LockDoc_Prelude\<close>, \<open>C_Numbers\<close>: machine integers as words, errors as values of a sum type, the
    ordered map that stands for \<^verbatim>\<open>std::map\<close>, number parsing and printing, \<^verbatim>\<open>getline\<close>.
  \<^item> \<open>Lock_Types\<close>, \<open>Lock_Transitions\<close>: \<^verbatim>\<open>rwlock.h\<close>, \<^verbatim>\<open>rlock.h\<close>, \<^verbatim>\<open>wlock.h\<close>, \<^verbatim>\<open>rwlock.cc\<close>;
    \<open>Lock_Manager\<close>: \<^verbatim>\<open>lockmanager.h\<close>, \<^verbatim>\<open>lockmanager.cc\<close>. A pointer to a lock is its index in the
    list of all locks. \<open>Lock_Manager_Inv\<close>, \<open>Lock_Paths\<close>, \<open>Lock_Refs\<close> and \<open>Lock_Sync\<close> hold the
    invariants: keys of the tables, references between them, the agreement of counters,
    positions and transactions, and the abstract lock (\<open>lock_step\<close>) that the operations
    implement; \<open>Lock_Properties\<close> the properties.
  \<^item> \<open>Convert_Model\<close>, \<open>Convert_Loop\<close>, \<open>Convert_Output\<close>: the handlers, the event loop and the tables
    of \<^verbatim>\<open>convert.cc\<close>; \<open>Convert_Inv\<close>, \<open>Convert_Sync\<close>, \<open>Convert_Tables\<close>, \<open>Convert_Properties\<close>: their
    invariants for whole traces, with the text of \<^verbatim>\<open>locks.csv\<close>.
  \<^item> \<open>Hypothesizer_Input\<close>, \<open>Hypothesizer_Model\<close>, \<open>Hypothesizer_Report\<close>, \<open>Hypothesizer_Run\<close>:
    \<^verbatim>\<open>hypothesizer.cc\<close> with the percentages of \<open>Doubles\<close>; \<open>Hypothesizer_Support\<close>,
    \<open>Hypothesizer_Graph\<close>, \<open>Hypothesizer_Winner\<close>, \<open>Hypothesizer_Input_Inv\<close>,
    \<open>Hypothesizer_Properties\<close>: exactness of the enumeration, of the graph and of the selection.
  \<^item> \<open>Dwarves_Types\<close>, \<open>Dwarves_Strings\<close>, \<open>Dwarves_Cu\<close>, \<open>Dwarves_Class\<close>: \<^verbatim>\<open>dwarves.h\<close>,
    \<^verbatim>\<open>dwarves_api.h\<close>, \<^verbatim>\<open>dwarves.c\<close>, \<^verbatim>\<open>gobuffer.c\<close>, \<^verbatim>\<open>strings.c\<close>, \<^verbatim>\<open>hash.h\<close>; \<open>Dwarves_Print\<close>,
    \<open>Dwarves_Layout\<close>: \<^verbatim>\<open>dwarves_fprintf.c\<close>; \<open>Struct_Layout\<close>: the extraction in \<^verbatim>\<open>binaryread.cc\<close>.
    \<open>Dwarves_Frame\<close>, \<open>Dwarves_Rows\<close>, \<open>Dwarves_Ends\<close>, \<open>Dwarves_Holes\<close>, \<open>Struct_Extract\<close> and
    \<open>Dwarves_Properties\<close> hold the proofs.
  \<^item> \<open>Dwarf_Attr\<close>, \<open>Dwarf_Store\<close>, \<open>Dwarf_Process\<close>, \<open>Dwarf_Recode\<close>, \<open>Dwarf_Load\<close>:
    \<^verbatim>\<open>dwarf_loader.c\<close> and the parts of \<^verbatim>\<open>dwarves.c\<close> it calls. A pointer to a tag is its index in
    the store of all tags, \<open>ls_objs\<close>, and one to the loader's own record of it an index in
    \<open>ls_dtags\<close>. \<open>Dwarf_Inv\<close>, \<open>Dwarf_Process_Inv\<close>, \<open>Dwarf_Class_Inv\<close> hold the invariant of the
    first pass, \<open>Dwarf_Recode_Inv\<close>, \<open>Dwarf_Recode_Run\<close> that of the second; \<open>Dwarf_Unit\<close> puts them
    together and \<open>Dwarf_Properties\<close> holds the properties.
  \<^item> \<open>Runs\<close>: calls that may fail or not return, shared by the library and the coverage tools, and
    \<^verbatim>\<open>std::set\<close> as a sorted list. \<open>Kcov\<close>: \<^verbatim>\<open>kcov-lib.cc\<close> and \<^verbatim>\<open>sortuniq.cc\<close>, with the life of a
    traced process as a step relation. \<open>Gcov_Io\<close>: \<^verbatim>\<open>gcov-io.cpp\<close>, \<^verbatim>\<open>gcov-io.h\<close>; \<open>Bb2lines\<close>:
    \<^verbatim>\<open>bb2lines/main.cpp\<close>; \<open>Bb2lines_Inv\<close>: its invariant; \<open>Gcno_Format\<close>: the format of the notes
    files and how they are read back; \<open>Bb2lines_Cover\<close>: lookup and whole runs. \<open>Sfc_Curves\<close>,
    \<open>Sfc_Tool\<close>: the classes and the program of \<^verbatim>\<open>sfctool.cc\<close>. \<open>Coverage_Properties\<close>: the properties.

  \<^bold>\<open>What is shown.\<close>
  \<^item> The lock manager: finishing a transaction implements the removal of one held lock from an
    abstract stack of held locks, and goes past the end of the stack in exactly one stated case; an
    operation on a lock that is not recursive makes one step of an abstract lock, whose writer count
    is that of the code and can exceed the open write transactions; the tables keep unique keys and
    valid references under every operation; closing the transactions at the end of a trace terminates.
  \<^item> The converter as a whole: on every trace it ends with an error or with consistent tables,
    where the transaction of an access is a row under an extra condition only, because a flush of
    readers loses rows; under the stated conditions no line leads to undefined behaviour and every
    line does to the locks what its event says; every event but a read or a write writes out the
    collected accesses; kept accesses lie inside their allocations.
  \<^item> The hypothesizer: the enumeration yields exactly the sets of locks held together with exact
    counts, the graph links exactly the sets that differ by one lock at an end, the selected rule
    is one its strategy accepts (for the default \<^verbatim>\<open>sharpen\<close>, one reached by steps that lose at most
    the reduction factor, with no child that does), and a run returns a report.
  \<^item> The layout of structures: the printers write exactly the rows of an abstract, flattened
    layout where a structure has one (\<open>fields_of\<close> says which do, and has the offsets of array
    members as the code computes them), restore the shared record, and end on type graphs without
    cycles; the extraction ends there too, and a type is marked exactly if some unit defines it,
    which is stated without the search.
  \<^item> The loader: with memory for the tables, the first pass over a unit enters every supported type
    into the table of types and the hash; after the second pass the 16-bit number of a reference
    finds the tag of the entry it refers to, and each structure lists its members in the order, at
    the offsets and with the types of its entries. These statements are about the children of the
    unit's own entry, references among them, and the members of those that are structures; what the
    loader makes of entries nested deeper and of references into the type unit is modelled only.
  \<^item> The coverage tools: the recorder writes exactly the recorded addresses in a form \<^verbatim>\<open>bb2lines\<close>
    reads back, and hands its descriptors on through the environment; the window of the gcov reader
    is invisible; the report of \<^verbatim>\<open>bb2lines\<close> counts exactly the lines of the blocks the addresses lead
    to; the curves visit every cell of a square once, and every string gets its colour there.

  \<^bold>\<open>Interfaces.\<close> The laws one component relies on in another are locales, each interpreted on the
  program's own functions: the string table (\<open>string_table\<close>), printers that leave the shared
  record as they found it (\<open>restoring_printer\<close>), selection strategies (\<open>strategy\<close>,
  \<open>accepting_strategy\<close>), curves that fill a square (\<open>space_filling\<close>, for all three curve classes),
  what reading notes files keeps (\<open>block_invariant\<close>, for three invariants), and others in the theories of the components.

  \<^bold>\<open>Conventions and bounds.\<close> Fallible code returns a value of a sum type (\<open>Inl\<close> the error); reads
  past the end of a container are the error \<open>UndefinedBehaviour\<close>. Loops that may not end are
  partial functions or take fuel, and the theorems that claim a result give the fuel that is
  enough. Counters are words where their width matters: line numbers of the trace stay below
  \<open>2^31\<close>, the statements about percentages assume fewer than \<open>2^53\<close> accesses (integers a
  \<^verbatim>\<open>double\<close> represents exactly), identifiers of types and members have 16 bits, and the record of
  name prefixes has 16 entries. Curves are considered up to dimension \<open>2^16\<close>, which the fewer than
  \<open>2^32\<close> strings that the painting loop can count lead to; notes files have fewer than \<open>2^26\<close>
  words, so that no position wraps; in those of more than 2050 words, the first window, a pointer
  to a function's name can become invalid. \<^verbatim>\<open>double\<close> is modelled without subnormal numbers and overflow.
  The statements about a loaded unit assume at most 65536 types, the number a 16-bit id can tell apart, and
  the allocation of the tables to succeed; the loops of the second pass, which appends to the tables it walks, are
  partial functions.
  Memory allocation, \<^verbatim>\<open>std::sort\<close> and what a read from another object returns are arguments; the
  tree of \<^verbatim>\<open>tsearch\<close> is the list of its keys.

  \<^bold>\<open>Not modelled.\<close> Command line parsing and opening of files (input and output only); the vendored
  \<^verbatim>\<open>optionparser.h\<close>, \<^verbatim>\<open>gzstream\<close> and \<^verbatim>\<open>libiberty.h\<close>; reading of the binary by libbfd and libdw
  (the first half of \<^verbatim>\<open>binaryread.cc\<close>, and the functions of \<^verbatim>\<open>dwarf_loader.c\<close> that open files for
  libdwfl or print source lines): the loader starts from the entries and attributes libdw decodes;
  the address lookup of \<^verbatim>\<open>bb2lines/binaryread.cpp\<close>, calls of libbfd, and the
  third-party \<^verbatim>\<open>kcovtrace.c\<close>; the encoder of the image; \<^verbatim>\<open>rbtree.c\<close> and \<^verbatim>\<open>list.h\<close>, copies of kernel sources; the destructors, which
  only free memory (those that the loader calls on an error are modelled); the Linux source \<^verbatim>\<open>fork.c\<close> kept beside the manuals; scripts and queries in
  other languages.
\<close>

end
